(* ===== verification/Prelude.thy ===== *)
theory Prelude
  imports Main "HOL-Library.Word" "HOL-Library.Multiset" "HOL-Library.AList"
begin

unbundle bit_operations_syntax

text \<open>
  Shared material of the development: the named theorem collections the component proofs draw on,
  the result type of fallible operations and its sequencing function, C++ integer conversions
  (narrowing to a 32 bit \<open>int\<close>, division that truncates towards zero, unsigned 64 bit
  wrap-around), removal from an intrusive list, decimal printing, and the list lemmas that several
  components use.
\<close>

named_theorems result_simps \<open>unfolding of the error monad\<close>
named_theorems wf_intros \<open>introduction rules for well-formedness invariants\<close>

section \<open>Results of fallible operations\<close>

text \<open>
  An operation of the program that may hit an assertion, an out of range access or a dangling
  reference returns \<open>Inl\<close> of an error; \<open>Inr\<close> carries the value.
\<close>

type_synonym ('e, 'a) result = "'e + 'a"

definition bind_r :: "('e, 'a) result \<Rightarrow> ('a \<Rightarrow> ('e, 'b) result) \<Rightarrow> ('e, 'b) result" where
  "bind_r m f = (case m of Inl e \<Rightarrow> Inl e | Inr x \<Rightarrow> f x)"

lemma bind_r_simps [simp, result_simps]:
  "bind_r (Inl e) f = Inl e"
  "bind_r (Inr x) f = f x"
  by (simp_all add: bind_r_def)

lemma bind_r_eq_Inr_iff [result_simps]:
  "bind_r m f = Inr y \<longleftrightarrow> (\<exists>x. m = Inr x \<and> f x = Inr y)"
  by (cases m) simp_all

lemma bind_r_assoc: "bind_r (bind_r m f) g = bind_r m (\<lambda>x. bind_r (f x) g)"
  by (cases m) simp_all

text \<open>Run a fallible step over a list, from the left, threading the state.\<close>

fun fold_r :: "('a \<Rightarrow> 's \<Rightarrow> ('e, 's) result) \<Rightarrow> 'a list \<Rightarrow> 's \<Rightarrow> ('e, 's) result" where
  "fold_r f [] s = Inr s"
| "fold_r f (x # xs) s = bind_r (f x s) (fold_r f xs)"

lemma fold_r_append: "fold_r f (xs @ ys) s = bind_r (fold_r f xs s) (fold_r f ys)"
  by (induction xs arbitrary: s) (simp_all add: bind_r_def split: sum.split)

text \<open>
  An invariant indexed by what is still to be processed lifts over the whole loop, and the loop
  cannot fail when no step can.
\<close>

lemma fold_r_rule:
  assumes "P xs s"
    and "\<And>x ys t. P (x # ys) t \<Longrightarrow> \<exists>t'. f x t = Inr t' \<and> P ys t'"
  shows "\<exists>t. fold_r f xs s = Inr t \<and> P [] t"
  using assms(1)
proof (induction xs arbitrary: s)
  case Nil
  then show ?case by simp
next
  case (Cons x xs)
  from assms(2) [OF Cons.prems] obtain t where t: "f x s = Inr t" "P xs t" by blast
  from Cons.IH [OF t(2)] t(1) show ?case by simp
qed

section \<open>C++ integers\<close>

text \<open>Conversion of a wider signed value to a 32 bit \<open>int\<close>: two's complement narrowing.\<close>

definition to_int32 :: "int \<Rightarrow> int" where
  "to_int32 x = (x + 2 ^ 31) mod 2 ^ 32 - 2 ^ 31"

lemma to_int32_range: "- (2 ^ 31) \<le> to_int32 x \<and> to_int32 x < 2 ^ 31"
proof -
  have "0 \<le> (x + 2 ^ 31) mod 2 ^ 32" "(x + 2 ^ 31) mod 2 ^ 32 < (2 ^ 32 :: int)"
    by simp_all
  then show ?thesis by (simp add: to_int32_def)
qed

lemma to_int32_id [simp]: "- (2 ^ 31) \<le> x \<Longrightarrow> x < 2 ^ 31 \<Longrightarrow> to_int32 x = x"
  by (simp add: to_int32_def mod_pos_pos_trivial)

lemma to_int32_small [simp]: "0 \<le> x \<Longrightarrow> x \<le> 2147483647 \<Longrightarrow> to_int32 x = x"
  by (rule to_int32_id) simp_all

lemma to_int32_add_left [simp]: "to_int32 (to_int32 a + b) = to_int32 (a + b)"
proof -
  have "((a + 2 ^ 31) mod 2 ^ 32 + b) mod 2 ^ 32 = (a + 2 ^ 31 + b) mod (2 ^ 32 :: int)"
    by (simp add: mod_add_left_eq)
  then show ?thesis by (simp add: to_int32_def algebra_simps)
qed

lemma to_int32_diff_left [simp]: "to_int32 (to_int32 a - b) = to_int32 (a - b)"
  using to_int32_add_left [of a "- b"] by simp

lemma to_int32_idem [simp]: "to_int32 (to_int32 a) = to_int32 a"
  using to_int32_add_left [of a 0] by simp

text \<open>Integer division of C++ truncates towards zero (the divisors of the program are positive).\<close>

definition cdiv :: "int \<Rightarrow> int \<Rightarrow> int" where
  "cdiv a b = (if a < 0 then - ((- a) div b) else a div b)"

lemma cdiv_nonneg [simp]: "0 \<le> a \<Longrightarrow> 0 < b \<Longrightarrow> cdiv a b = a div b"
  by (simp add: cdiv_def)

lemma cdiv_zero [simp]: "cdiv 0 b = 0"
  by (simp add: cdiv_def)

text \<open>Conversion of a signed 64 bit value to \<open>std::size_t\<close>.\<close>

definition to_size_t :: "int \<Rightarrow> nat" where
  "to_size_t x = nat (x mod 2 ^ 64)"

lemma to_size_t_id [simp]: "0 \<le> x \<Longrightarrow> x < 2 ^ 64 \<Longrightarrow> to_size_t x = nat x"
  by (simp add: to_size_t_def)

section \<open>Intrusive lists\<close>

text \<open>
  \<open>list.erase (list.iterator_to (e))\<close> unlinks the node of \<open>e\<close>. For a node that is
  not linked into the list the behaviour is undefined: the error \<open>err\<close> of the caller.
\<close>

definition list_unlink :: "'e \<Rightarrow> 'a \<Rightarrow> 'a list \<Rightarrow> ('e, 'a list) result" where
  "list_unlink err x xs = (if x \<in> set xs then Inr (remove1 x xs) else Inl err)"

lemma list_unlink_Inr [simp]: "x \<in> set xs \<Longrightarrow> list_unlink err x xs = Inr (remove1 x xs)"
  by (simp add: list_unlink_def)

lemma distinct_remove1_set [simp]: "distinct xs \<Longrightarrow> set (remove1 x xs) = set xs - {x}"
  by (rule set_remove1_eq)

lemma sorted_wrt_remove1 [wf_intros]: "sorted_wrt P xs \<Longrightarrow> sorted_wrt P (remove1 x xs)"
  by (induction xs) (auto dest: notin_set_remove1)

lemma in_diff_single_other: "j \<noteq> k \<Longrightarrow> j \<in># H - {#k#} \<longleftrightarrow> j \<in># H"
  by (simp add: in_diff_count)

section \<open>Decimal text\<close>

text \<open>\<open>std::to_string\<close> of an unsigned number.\<close>

definition digit_char :: "nat \<Rightarrow> char" where
  "digit_char d = char_of (48 + d)"

definition is_digit :: "char \<Rightarrow> bool" where
  "is_digit c = (48 \<le> (of_char c :: nat) \<and> (of_char c :: nat) \<le> 57)"

definition digit_value :: "char \<Rightarrow> nat" where
  "digit_value c = of_char c - 48"

fun dec_string :: "nat \<Rightarrow> string" where
  "dec_string n = (if n < 10 then [digit_char n]
                   else dec_string (n div 10) @ [digit_char (n mod 10)])"

declare dec_string.simps [simp del]

text \<open>Horner evaluation of a string of digits, with an accumulator as the stream extractor keeps it.\<close>

fun dec_value :: "nat \<Rightarrow> string \<Rightarrow> nat" where
  "dec_value acc [] = acc"
| "dec_value acc (c # cs) = dec_value (10 * acc + digit_value c) cs"

lemma digit_char_props [simp]:
  assumes "d < 10"
  shows "is_digit (digit_char d)" and "digit_value (digit_char d) = d"
  using assms by (simp_all add: is_digit_def digit_value_def digit_char_def)

lemma dec_value_append: "dec_value acc (xs @ ys) = dec_value (dec_value acc xs) ys"
  by (induction xs arbitrary: acc) simp_all

lemma dec_string_nonempty [simp]: "dec_string n \<noteq> []"
  by (subst dec_string.simps) simp

lemma dec_string_digits: "\<forall>c \<in> set (dec_string n). is_digit c"
proof (induction n rule: dec_string.induct)
  case (1 n)
  show ?case
  proof (cases "n < 10")
    case True
    then show ?thesis by (subst dec_string.simps) simp
  next
    case False
    with "1.IH" show ?thesis by (subst dec_string.simps) auto
  qed
qed

lemma dec_value_dec_string [simp]: "dec_value 0 (dec_string n) = n"
proof (induction n rule: dec_string.induct)
  case (1 n)
  show ?case
  proof (cases "n < 10")
    case True
    then show ?thesis by (subst dec_string.simps) simp
  next
    case False
    with "1.IH" show ?thesis by (subst dec_string.simps) (simp add: dec_value_append)
  qed
qed

end
