(* ===== verification/Chrono.thy ===== *)
theory Chrono
  imports Prelude
begin

text \<open>
  The clock (\<open>src/beast/beast/chrono/abstract_clock.h\<close>, \<open>src/ripple/basics/chrono.h\<close>)
  and the decaying load sample (\<open>src/ripple/basics/DecayingSample.h\<close>). A \<open>Stopwatch\<close>
  is a \<open>steady_clock\<close>: time points count ticks since an unspecified epoch. The length of a tick
  is a property of the C++ library (one nanosecond in every current one), so it is a field of the
  clock. \<open>elapsed\<close> returns ticks, while \<open>std::chrono::seconds\<close> values are converted to
  ticks by the type system.
\<close>

section \<open>The clock\<close>

record Stopwatch =
  ticks_per_second :: int
  sw_now :: int

definition elapsed :: "Stopwatch \<Rightarrow> int" where
  "elapsed clk = sw_now clk"

definition seconds :: "Stopwatch \<Rightarrow> int \<Rightarrow> int" where
  "seconds clk n = n * ticks_per_second clk"

definition clock_ok :: "Stopwatch \<Rightarrow> bool" where
  "clock_ok clk = (0 < ticks_per_second clk)"

text \<open>\<open>duration_cast<seconds>\<close> of a difference of two time points truncates towards zero.\<close>

definition seconds_between :: "Stopwatch \<Rightarrow> int \<Rightarrow> int \<Rightarrow> int" where
  "seconds_between clk later earlier = cdiv (later - earlier) (ticks_per_second clk)"

section \<open>DecayingSample\<close>

record DecayingSample =
  m_value :: int
  m_when :: int

definition DecayingSample_at :: "int \<Rightarrow> DecayingSample" where
  "DecayingSample_at now = \<lparr>m_value = 0, m_when = now\<rparr>"

text \<open>One second of decay: \<open>m_value -= (m_value + Window - 1) / Window\<close>.\<close>

definition decay_tick :: "int \<Rightarrow> int \<Rightarrow> int" where
  "decay_tick W v = v - cdiv (v + W - 1) W"

fun decay_loop :: "int \<Rightarrow> nat \<Rightarrow> int \<Rightarrow> int" where
  "decay_loop W 0 v = v"
| "decay_loop W (Suc n) v = decay_loop W n (decay_tick W v)"

definition decay :: "int \<Rightarrow> Stopwatch \<Rightarrow> DecayingSample \<Rightarrow> DecayingSample" where
  "decay W clk d =
     (if sw_now clk = m_when d then d
      else let v = (if m_value d \<noteq> 0
                    then let n = to_size_t (seconds_between clk (sw_now clk) (m_when d))
                         in if 4 * W < int n then 0 else decay_loop W n (m_value d)
                    else m_value d)
           in \<lparr>m_value = v, m_when = sw_now clk\<rparr>)"

definition sample_add :: "int \<Rightarrow> Stopwatch \<Rightarrow> int \<Rightarrow> DecayingSample \<Rightarrow> int \<times> DecayingSample" where
  "sample_add W clk v d =
     (let d1 = decay W clk d; d2 = d1\<lparr>m_value := m_value d1 + v\<rparr> in (cdiv (m_value d2) W, d2))"

definition sample_value :: "int \<Rightarrow> Stopwatch \<Rightarrow> DecayingSample \<Rightarrow> int \<times> DecayingSample" where
  "sample_value W clk d = (let d1 = decay W clk d in (cdiv (m_value d1) W, d1))"

section \<open>Lemmas\<close>

lemma decay_tick_zero [simp]: "0 < W \<Longrightarrow> decay_tick W 0 = 0"
  by (cases "W = 1") (simp_all add: decay_tick_def div_pos_pos_trivial)

lemma decay_tick_nonneg: "0 < W \<Longrightarrow> 0 \<le> v \<Longrightarrow> 0 \<le> decay_tick W v"
proof -
  assume a: "0 < W" "0 \<le> v"
  have "(v + W - 1) div W \<le> v"
  proof (cases "v = 0")
    case True
    with a show ?thesis by (cases "W = 1") (simp_all add: div_pos_pos_trivial)
  next
    case False
    from a have "v * 1 \<le> v * W" by (intro mult_left_mono) simp_all
    then have "v + W - 1 < (v + 1) * W" by (simp add: algebra_simps)
    moreover have "(v + W - 1) div W * W \<le> v + W - 1"
      using a pos_mod_sign [of W "v + W - 1"] div_mult_mod_eq [of "v + W - 1" W] by linarith
    ultimately have "(v + W - 1) div W * W < (v + 1) * W" by linarith
    with a have "(v + W - 1) div W < v + 1" by simp
    then show ?thesis by simp
  qed
  with a show ?thesis by (simp add: decay_tick_def)
qed

lemma decay_tick_less: "0 < W \<Longrightarrow> 0 < v \<Longrightarrow> decay_tick W v < v"
proof -
  assume a: "0 < W" "0 < v"
  then have "W div W \<le> (v + W - 1) div W" by (intro zdiv_mono1) simp_all
  with a show ?thesis by (simp add: decay_tick_def)
qed

lemma decay_tick_le: "0 < W \<Longrightarrow> 0 \<le> v \<Longrightarrow> decay_tick W v \<le> v"
  using decay_tick_less [of W v] by (cases "v = 0") simp_all

lemma decay_tick_mono: "0 < W \<Longrightarrow> 0 \<le> u \<Longrightarrow> u \<le> v \<Longrightarrow> decay_tick W u \<le> decay_tick W v"
proof -
  assume a: "0 < W" "0 \<le> u" "u \<le> v"
  have "(v + W - 1) div W \<le> (u + W - 1 + (v - u) * W) div W"
    using a mult_left_mono [of 1 W "v - u"] by (intro zdiv_mono1) simp_all
  also have "\<dots> = (u + W - 1) div W + (v - u)" using a by simp
  finally show ?thesis using a by (simp add: decay_tick_def)
qed

lemma decay_loop_bounds:
  "0 < W \<Longrightarrow> 0 \<le> v \<Longrightarrow> 0 \<le> decay_loop W n v \<and> decay_loop W n v \<le> v"
proof (induction n arbitrary: v)
  case 0
  then show ?case by simp
next
  case (Suc n)
  from Suc.IH [OF Suc.prems(1) decay_tick_nonneg [OF Suc.prems]] decay_tick_le [OF Suc.prems]
  show ?case by auto
qed

lemma decay_loop_zero [simp]: "0 < W \<Longrightarrow> decay_loop W n 0 = 0"
  by (induction n) simp_all

lemma decay_loop_mono:
  "0 < W \<Longrightarrow> 0 \<le> u \<Longrightarrow> u \<le> v \<Longrightarrow> decay_loop W n u \<le> decay_loop W n v"
  by (induction n arbitrary: u v) (simp_all add: decay_tick_mono decay_tick_nonneg)

lemma decay_loop_add: "decay_loop W (m + n) v = decay_loop W n (decay_loop W m v)"
  by (induction m arbitrary: v) simp_all

lemma decay_loop_drains: "0 < W \<Longrightarrow> 0 \<le> v \<Longrightarrow> nat v \<le> n \<Longrightarrow> decay_loop W n v = 0"
proof (induction n arbitrary: v)
  case 0
  then show ?case by simp
next
  case (Suc n)
  show ?case
  proof (cases "v = 0")
    case True
    with Suc.prems show ?thesis by simp
  next
    case False
    with Suc.prems decay_tick_less [of W v] decay_tick_nonneg [of W v]
    have "0 \<le> decay_tick W v" "nat (decay_tick W v) \<le> n" by simp_all
    with Suc show ?thesis by simp
  qed
qed

lemma decay_when [simp]: "m_when (decay W clk d) = sw_now clk"
  by (simp add: decay_def Let_def)

lemma decay_idem [simp]: "decay W clk (decay W clk d) = decay W clk d"
  by (subst (1) decay_def) simp

lemma decay_nonneg: "0 < W \<Longrightarrow> 0 \<le> m_value d \<Longrightarrow> 0 \<le> m_value (decay W clk d)"
  using decay_loop_bounds by (simp add: decay_def Let_def)

lemma decay_le: "0 < W \<Longrightarrow> 0 \<le> m_value d \<Longrightarrow> m_value (decay W clk d) \<le> m_value d"
  using decay_loop_bounds by (simp add: decay_def Let_def)

text \<open>After more than four windows the sample is forgotten.\<close>

lemma seconds_between_ge:
  assumes "clock_ok clk" "earlier + seconds clk n \<le> later" "0 \<le> n"
  shows "n \<le> seconds_between clk later earlier"
proof -
  have "n * ticks_per_second clk \<le> later - earlier" and tps: "0 < ticks_per_second clk"
    using assms by (simp_all add: seconds_def clock_ok_def)
  then have "n \<le> (later - earlier) div ticks_per_second clk"
    by (metis nonzero_mult_div_cancel_right order_less_irrefl zdiv_mono1)
  moreover have "0 \<le> later - earlier"
    using assms tps by (smt (verit) mult_nonneg_nonneg seconds_def)
  ultimately show ?thesis using tps by (simp add: seconds_between_def)
qed

lemma seconds_between_le:
  assumes "clock_ok clk" "earlier \<le> later"
  shows "seconds_between clk later earlier \<le> later - earlier"
proof -
  have "(later - earlier) div ticks_per_second clk \<le> later - earlier"
    using assms div_le_dividend [of "nat (later - earlier)" "nat (ticks_per_second clk)"]
    by (simp add: clock_ok_def nat_div_distrib [symmetric] nat_le_eq_zle)
  with assms show ?thesis by (simp add: seconds_between_def clock_ok_def)
qed

lemma decay_forgets:
  assumes "clock_ok clk" "0 < W" "m_when d + seconds clk (4 * W + 1) \<le> sw_now clk"
    "sw_now clk - m_when d < 2 ^ 63"
  shows "m_value (decay W clk d) = 0"
proof -
  let ?n = "seconds_between clk (sw_now clk) (m_when d)"
  have ge: "4 * W + 1 \<le> ?n" using assms by (intro seconds_between_ge) simp_all
  have pos: "0 < seconds clk (4 * W + 1)" using assms by (simp add: seconds_def clock_ok_def)
  then have "?n \<le> sw_now clk - m_when d" using assms by (intro seconds_between_le) simp_all
  with assms(4) ge assms(2) have "to_size_t ?n = nat ?n" by simp
  with ge assms(2) pos assms(3) show ?thesis by (simp add: decay_def Let_def)
qed

end
