(* ===== verification/IPAddress.thy ===== *)
theory IPAddress
  imports Prelude
begin

unbundle bit_operations_syntax

text \<open>
  \<open>src/beast/beast/net\<close>: IPv4 addresses, endpoints, their classification, printing and
  parsing. \<open>AddressV6\<close> is a stub in the source (every operation asserts, no parser
  produces one), so an \<open>Address\<close> is its IPv4 alternative. Parsing runs on an input stream:
  the characters left in the buffer and the stream's fail bit. The end-of-file bit is implied by an
  empty buffer for the operations used here.
\<close>

section \<open>Addresses\<close>

record AddressV4 =
  av4_value :: "32 word"

type_synonym Address = AddressV4
type_synonym Port = "16 word"

definition AddressV4_of :: "32 word \<Rightarrow> AddressV4" where
  "AddressV4_of v = \<lparr>av4_value = v\<rparr>"

definition AddressV4_octets :: "8 word \<Rightarrow> 8 word \<Rightarrow> 8 word \<Rightarrow> 8 word \<Rightarrow> AddressV4" where
  "AddressV4_octets a b c d = AddressV4_of
     (push_bit 24 (ucast a) OR push_bit 16 (ucast b) OR push_bit 8 (ucast c) OR ucast d)"

text \<open>\<open>addr[i]\<close> reads an octet through \<open>Proxy\<close>; an index above 3 throws.\<close>

definition av4_octet :: "AddressV4 \<Rightarrow> nat \<Rightarrow> 8 word option" where
  "av4_octet addr i =
     (if i = 0 then Some (ucast (drop_bit 24 (av4_value addr) AND 0xff))
      else if i = 1 then Some (ucast (drop_bit 16 (av4_value addr) AND 0xff))
      else if i = 2 then Some (ucast (drop_bit 8 (av4_value addr) AND 0xff))
      else if i = 3 then Some (ucast (drop_bit 0 (av4_value addr) AND 0xff))
      else None)"

definition get_class :: "AddressV4 \<Rightarrow> char" where
  "get_class addr = ''AAAABBCD'' ! unat (drop_bit 29 (av4_value addr AND 0xE0000000))"

definition netmask_of_class :: "char \<Rightarrow> AddressV4" where
  "netmask_of_class c =
     (if c = CHR ''A'' then AddressV4_of 0xff000000
      else if c = CHR ''B'' then AddressV4_of 0xffff0000
      else if c = CHR ''C'' then AddressV4_of 0xffffff00
      else AddressV4_of 0xffffffff)"

definition netmask :: "AddressV4 \<Rightarrow> AddressV4" where
  "netmask addr = netmask_of_class (get_class addr)"

definition broadcast_mask :: "AddressV4 \<Rightarrow> AddressV4 \<Rightarrow> AddressV4" where
  "broadcast_mask addr m = AddressV4_of (av4_value addr OR (av4_value m XOR 0xffffffff))"

definition broadcast :: "AddressV4 \<Rightarrow> AddressV4" where
  "broadcast addr = broadcast_mask addr (netmask addr)"

definition is_loopback :: "AddressV4 \<Rightarrow> bool" where
  "is_loopback addr = (av4_value addr AND 0xff000000 = 0x7f000000)"

definition is_unspecified :: "AddressV4 \<Rightarrow> bool" where
  "is_unspecified addr = (av4_value addr = 0)"

definition is_multicast :: "AddressV4 \<Rightarrow> bool" where
  "is_multicast addr = (av4_value addr AND 0xf0000000 = 0xe0000000)"

definition is_private :: "AddressV4 \<Rightarrow> bool" where
  "is_private addr =
     (av4_value addr AND 0xff000000 = 0x0a000000 \<or>
      av4_value addr AND 0xfff00000 = 0xac100000 \<or>
      av4_value addr AND 0xffff0000 = 0xc0a80000 \<or>
      is_loopback addr)"

definition is_public :: "AddressV4 \<Rightarrow> bool" where
  "is_public addr = (\<not> is_private addr \<and> \<not> is_multicast addr \<and> addr \<noteq> broadcast addr)"

definition octet_string :: "AddressV4 \<Rightarrow> nat \<Rightarrow> string" where
  "octet_string addr i = (case av4_octet addr i of None \<Rightarrow> [] | Some w \<Rightarrow> dec_string (unat w))"

definition av4_to_string :: "AddressV4 \<Rightarrow> string" where
  "av4_to_string addr =
     octet_string addr 0 @ ''.'' @ octet_string addr 1 @ ''.'' @
     octet_string addr 2 @ ''.'' @ octet_string addr 3"

section \<open>Endpoints\<close>

record IPEndpoint =
  ep_address :: Address
  ep_port :: Port

definition IPEndpoint_of :: "Address \<Rightarrow> Port \<Rightarrow> IPEndpoint" where
  "IPEndpoint_of a p = \<lparr>ep_address = a, ep_port = p\<rparr>"

definition unspecified_endpoint :: IPEndpoint where
  "unspecified_endpoint = IPEndpoint_of (AddressV4_of 0) 0"

definition at_port :: "IPEndpoint \<Rightarrow> Port \<Rightarrow> IPEndpoint" where
  "at_port ep p = IPEndpoint_of (ep_address ep) p"

definition endpoint_less :: "IPEndpoint \<Rightarrow> IPEndpoint \<Rightarrow> bool" where
  "endpoint_less l r =
     (if av4_value (ep_address l) < av4_value (ep_address r) then True
      else if av4_value (ep_address r) < av4_value (ep_address l) then False
      else ep_port l < ep_port r)"

definition endpoint_to_string :: "IPEndpoint \<Rightarrow> string" where
  "endpoint_to_string ep =
     (let s = av4_to_string (ep_address ep)
      in if ep_port ep \<noteq> 0 then s @ '':'' @ dec_string (unat (ep_port ep)) else s)"

section \<open>Input streams\<close>

record istream =
  is_buf :: string
  is_fail :: bool

definition istream_of :: "string \<Rightarrow> istream" where
  "istream_of s = \<lparr>is_buf = s, is_fail = False\<rparr>"

definition setfail :: "istream \<Rightarrow> istream" where
  "setfail is = is\<lparr>is_fail := True\<rparr>"

definition isspace :: "char \<Rightarrow> bool" where
  "isspace c = ((of_char c :: nat) = 32 \<or> 9 \<le> (of_char c :: nat) \<and> (of_char c :: nat) \<le> 13)"

text \<open>
  \<open>is >> v\<close> for a 16 bit unsigned \<open>v\<close>, as the C++ library specifies it in the
  default format: skip white space, accept an optional sign, then the longest run of digits.
  No digit is a failure that stores 0, a magnitude above 65535 is a failure that stores 65535, and
  a minus sign negates modulo \<open>2 ^ 16\<close>. A stream that has failed already stores nothing (0
  stands for the untouched variable).
\<close>

definition scan_sign :: "string \<Rightarrow> bool \<times> string" where
  "scan_sign s = (case s of [] \<Rightarrow> (False, s)
     | c # cs \<Rightarrow> if c = CHR ''-'' then (True, cs) else if c = CHR ''+'' then (False, cs) else (False, s))"

definition extract_u16 :: "istream \<Rightarrow> 16 word \<times> istream" where
  "extract_u16 is =
     (if is_fail is then (0, is)
      else let s0 = dropWhile isspace (is_buf is);
               (neg, s1) = scan_sign s0;
               ds = takeWhile is_digit s1;
               rest = is\<lparr>is_buf := dropWhile is_digit s1\<rparr>;
               n = dec_value 0 ds
           in if ds = [] then (0, setfail rest)
              else if 65535 < n then (65535, setfail rest)
              else (if neg then - of_nat n else of_nat n, rest))"

text \<open>\<open>detail::expect\<close>: the next character must be \<open>v\<close>, otherwise it is put back and the stream fails.\<close>

definition expect :: "istream \<Rightarrow> char \<Rightarrow> bool \<times> istream" where
  "expect is v =
     (if is_fail is then (False, is)
      else case is_buf is of [] \<Rightarrow> (False, setfail is)
        | c # cs \<Rightarrow> if v = c then (True, is\<lparr>is_buf := cs\<rparr>) else (False, setfail is))"

definition extract_octet :: "istream \<Rightarrow> 8 word \<times> istream" where
  "extract_octet is =
     (let (v, is1) = extract_u16 is
      in if \<not> v \<le> 255 then (0, setfail is1) else (ucast v, is1))"

text \<open>The octets after the first, each behind a dot; stops at the first failure.\<close>

fun extract_octets :: "nat \<Rightarrow> 8 word list \<Rightarrow> istream \<Rightarrow> 8 word list option \<times> istream" where
  "extract_octets 0 acc is = (Some acc, is)"
| "extract_octets (Suc n) acc is =
     (let (ok, is1) = expect is (CHR ''.'')
      in if is_fail is \<or> \<not> ok then (None, is1)
         else let (o1, is2) = extract_octet is1
              in if is_fail is2 then (None, is2) else extract_octets n (acc @ [o1]) is2)"

definition extract_v4 :: "istream \<Rightarrow> AddressV4 option \<times> istream" where
  "extract_v4 is =
     (let (o0, is1) = extract_octet is;
          (os, is2) = extract_octets 3 [o0] is1
      in (case os of Some [a, b, c, d] \<Rightarrow> Some (AddressV4_octets a b c d) | _ \<Rightarrow> None, is2))"

text \<open>
  \<open>operator>> (istream, Endpoint)\<close>: an address, then nothing, another character (put back,
  so the port is 0), or a colon and a port.
\<close>

definition extract_endpoint :: "istream \<Rightarrow> IPEndpoint \<times> istream" where
  "extract_endpoint is =
     (let (a, is1) = extract_v4 is;
          addr = (case a of Some x \<Rightarrow> x | None \<Rightarrow> AddressV4_of 0)
      in if is_fail is1 then (unspecified_endpoint, is1)
         else case is_buf is1 of
           [] \<Rightarrow> (IPEndpoint_of addr 0, is1)
         | c # cs \<Rightarrow>
             if c \<noteq> CHR '':'' then (IPEndpoint_of addr 0, is1)
             else let (p, is2) = extract_u16 (is1\<lparr>is_buf := cs\<rparr>)
                  in if is_fail is2 then (unspecified_endpoint, is2) else (IPEndpoint_of addr p, is2))"

definition from_string_checked :: "string \<Rightarrow> IPEndpoint \<times> bool" where
  "from_string_checked s =
     (let (ep, is) = extract_endpoint (istream_of s)
      in if \<not> is_fail is \<and> is_buf is = [] then (ep, True) else (unspecified_endpoint, False))"

definition from_string :: "string \<Rightarrow> IPEndpoint" where
  "from_string s = (let (ep, ok) = from_string_checked s in if ok then ep else unspecified_endpoint)"

section \<open>Lemmas\<close>

text \<open>The order of endpoints used by the ordered maps is a strict total order.\<close>

lemma endpoint_less_irrefl: "\<not> endpoint_less a a"
  by (simp add: endpoint_less_def)

lemma endpoint_less_trans: "endpoint_less a b \<Longrightarrow> endpoint_less b c \<Longrightarrow> endpoint_less a c"
  by (auto simp: endpoint_less_def split: if_splits)

lemma endpoint_less_total: "endpoint_less a b \<or> a = b \<or> endpoint_less b a"
proof -
  have "a = b" if "av4_value (ep_address a) = av4_value (ep_address b)" "ep_port a = ep_port b"
    using that by simp
  then show ?thesis by (auto simp: endpoint_less_def)
qed

text \<open>The four octets determine the address.\<close>

lemma octets_of_value:
  fixes v :: "32 word"
  shows "push_bit 24 (ucast (ucast (drop_bit 24 v AND 0xff) :: 8 word)) OR
    push_bit 16 (ucast (ucast (drop_bit 16 v AND 0xff) :: 8 word)) OR
    push_bit 8 (ucast (ucast (drop_bit 8 v AND 0xff) :: 8 word)) OR
    ucast (ucast (drop_bit 0 v AND 0xff) :: 8 word) = v"
proof -
  have ff: "(0xff :: 32 word) = mask 8" by (simp add: mask_eq_exp_minus_1)
  have *: "n < k" if "bit v n" "\<not> bit v (k + (n - k))" for k n
    using that by (cases "n < k") simp_all
  show ?thesis
    unfolding ff
    by (rule bit_word_eqI)
      (auto simp: bit_or_iff bit_and_iff bit_push_bit_iff bit_drop_bit_eq bit_ucast_iff bit_mask_iff
        not_less less_diff_conv2 intro: *)
qed

text \<open>Extraction of a printed number stops in front of the first character that is no digit.\<close>

definition no_digit_head :: "string \<Rightarrow> bool" where
  "no_digit_head s = (case s of [] \<Rightarrow> True | c # _ \<Rightarrow> \<not> is_digit c)"

lemma takeWhile_digits:
  assumes "\<forall>c \<in> set ds. is_digit c" "no_digit_head rest"
  shows "takeWhile is_digit (ds @ rest) = ds" "dropWhile is_digit (ds @ rest) = rest"
  using assms by (induction ds) (auto simp: no_digit_head_def split: list.splits)

lemma digit_not_space: "is_digit c \<Longrightarrow> \<not> isspace c"
  by (auto simp: is_digit_def isspace_def)

lemma digit_not_sign: "is_digit c \<Longrightarrow> c \<noteq> CHR ''-'' \<and> c \<noteq> CHR ''+''"
  by (auto simp: is_digit_def)

lemma scan_digits:
  assumes "ds \<noteq> []" "\<forall>c \<in> set ds. is_digit c"
  shows "dropWhile isspace (ds @ rest) = ds @ rest" "scan_sign (ds @ rest) = (False, ds @ rest)"
  using assms by (cases ds; simp add: digit_not_space digit_not_sign scan_sign_def)+

lemma extract_u16_dec_string:
  assumes "n \<le> 65535" "no_digit_head rest" "is_buf is = dec_string n @ rest" "\<not> is_fail is"
  shows "extract_u16 is = (of_nat n, is\<lparr>is_buf := rest\<rparr>)"
  using assms scan_digits [OF dec_string_nonempty dec_string_digits]
    takeWhile_digits [OF dec_string_digits]
  by (simp add: extract_u16_def)

lemma unat_octet_u16:
  assumes "n < 256"
  shows "(of_nat n :: 16 word) \<le> 255" "ucast (of_nat n :: 16 word) = (of_nat n :: 8 word)"
proof -
  have "unat (of_nat n :: 16 word) = n" using assms by (simp add: unat_of_nat)
  then show "(of_nat n :: 16 word) \<le> 255" using assms by (simp add: word_le_nat_alt)
  show "ucast (of_nat n :: 16 word) = (of_nat n :: 8 word)"
    using assms
    by (intro word_unat_eq_iff [THEN iffD2]) (simp add: unsigned_ucast_eq unat_of_nat take_bit_eq_mod)
qed

lemma unat_octet_less: "unat (w :: 8 word) < 256"
proof -
  have "unat w < 2 ^ LENGTH(8)" by (rule unsigned_less)
  then show ?thesis by simp
qed

lemma extract_octet_dec_string:
  assumes "no_digit_head rest" "is_buf is = dec_string (unat w) @ rest" "\<not> is_fail is"
  shows "extract_octet is = (w, is\<lparr>is_buf := rest\<rparr>)"
proof -
  have "unat w \<le> 65535" using unat_octet_less [of w] by simp
  then have "extract_u16 is = (of_nat (unat w), is\<lparr>is_buf := rest\<rparr>)"
    using assms by (rule extract_u16_dec_string)
  then show ?thesis
    using unat_octet_u16 [OF unat_octet_less [of w]] by (simp add: extract_octet_def)
qed

lemma dot_no_digit [simp]: "no_digit_head (CHR ''.'' # s)"
  by (simp add: no_digit_head_def is_digit_def)

lemma colon_no_digit [simp]: "no_digit_head (CHR '':'' # s)"
  by (simp add: no_digit_head_def is_digit_def)

lemma empty_no_digit [simp]: "no_digit_head []"
  by (simp add: no_digit_head_def)

lemma extract_octets_step:
  assumes "no_digit_head rest" "is_buf is = ''.'' @ dec_string (unat w) @ rest" "\<not> is_fail is"
  shows "extract_octets (Suc n) acc is = extract_octets n (acc @ [w]) (is\<lparr>is_buf := rest\<rparr>)"
proof -
  let ?is = "is\<lparr>is_buf := dec_string (unat w) @ rest\<rparr>"
  have "extract_octet ?is = (w, ?is\<lparr>is_buf := rest\<rparr>)"
    using assms by (intro extract_octet_dec_string) simp_all
  with assms show ?thesis by (simp add: expect_def)
qed

lemma extract_v4_octets:
  assumes "no_digit_head rest" "\<not> is_fail is"
    and "is_buf is = dec_string (unat a) @ ''.'' @ dec_string (unat b) @ ''.'' @
           dec_string (unat c) @ ''.'' @ dec_string (unat d) @ rest"
  shows "extract_v4 is = (Some (AddressV4_octets a b c d), is\<lparr>is_buf := rest\<rparr>)"
proof -
  let ?t3 = "''.'' @ dec_string (unat d) @ rest"
  let ?t2 = "''.'' @ dec_string (unat c) @ ?t3"
  let ?t1 = "''.'' @ dec_string (unat b) @ ?t2"
  have "extract_octet is = (a, is\<lparr>is_buf := ?t1\<rparr>)"
    using assms by (intro extract_octet_dec_string) simp_all
  moreover have "extract_octets 3 [a] (is\<lparr>is_buf := ?t1\<rparr>) =
      (Some [a, b, c, d], is\<lparr>is_buf := rest\<rparr>)"
    unfolding numeral_3_eq_3
    using assms extract_octets_step [of ?t2 "is\<lparr>is_buf := ?t1\<rparr>" b 2 "[a]"]
      extract_octets_step [of ?t3 "is\<lparr>is_buf := ?t2\<rparr>" c 1 "[a, b]"]
      extract_octets_step [of rest "is\<lparr>is_buf := ?t3\<rparr>" d 0 "[a, b, c]"]
    by (simp add: numeral_2_eq_2)
  ultimately show ?thesis by (simp add: extract_v4_def)
qed

lemma extract_v4_to_string:
  assumes "no_digit_head rest" "\<not> is_fail is" "is_buf is = av4_to_string addr @ rest"
  shows "extract_v4 is = (Some addr, is\<lparr>is_buf := rest\<rparr>)"
proof -
  obtain a b c d where o4: "av4_octet addr 0 = Some a" "av4_octet addr 1 = Some b"
      "av4_octet addr 2 = Some c" "av4_octet addr 3 = Some d"
    by (simp add: av4_octet_def)
  then have "extract_v4 is = (Some (AddressV4_octets a b c d), is\<lparr>is_buf := rest\<rparr>)"
    using assms by (intro extract_v4_octets) (simp_all add: av4_to_string_def octet_string_def)
  moreover have "AddressV4_octets a b c d = addr"
    using o4 octets_of_value [of "av4_value addr"]
    by (auto simp: av4_octet_def AddressV4_octets_def AddressV4_of_def)
  ultimately show ?thesis by simp
qed

lemma endpoint_eta: "IPEndpoint_of (ep_address ep) (ep_port ep) = ep"
  by (simp add: IPEndpoint_of_def)

lemma extract_endpoint_to_string:
  "extract_endpoint (istream_of (endpoint_to_string ep)) = (ep, istream_of [])"
proof (cases "ep_port ep = 0")
  case True
  have "extract_v4 (istream_of (endpoint_to_string ep)) = (Some (ep_address ep), istream_of [])"
    using True extract_v4_to_string [of "[]" "istream_of (endpoint_to_string ep)" "ep_address ep"]
    by (simp add: endpoint_to_string_def istream_of_def)
  with True show ?thesis
    using endpoint_eta [of ep] by (simp add: extract_endpoint_def istream_of_def)
next
  case False
  let ?ps = "dec_string (unat (ep_port ep))"
  have "unat (ep_port ep) < 2 ^ LENGTH(16)" by (rule unsigned_less)
  then have p: "extract_u16 (istream_of ?ps) = (ep_port ep, istream_of [])"
    using extract_u16_dec_string [of "unat (ep_port ep)" "[]" "istream_of ?ps"]
    by (simp add: istream_of_def)
  have "extract_v4 (istream_of (endpoint_to_string ep)) =
      (Some (ep_address ep), istream_of ('':'' @ ?ps))"
    using False extract_v4_to_string
      [of "'':'' @ ?ps" "istream_of (endpoint_to_string ep)" "ep_address ep"]
    by (simp add: endpoint_to_string_def istream_of_def)
  with p show ?thesis
    using endpoint_eta [of ep] by (simp add: extract_endpoint_def istream_of_def)
qed

lemma from_string_checked_to_string: "from_string_checked (endpoint_to_string ep) = (ep, True)"
  by (simp add: from_string_checked_def extract_endpoint_to_string) (simp add: istream_of_def)

lemma from_string_to_string [simp]: "from_string (endpoint_to_string ep) = ep"
  by (simp add: from_string_def from_string_checked_to_string)

text \<open>
  Printing an endpoint and reading it back gives the endpoint again, the port included, and the
  reader consumes the whole string.
\<close>

theorem endpoint_print_parse:
  "from_string_checked (endpoint_to_string ep) = (ep, True) \<and> from_string (endpoint_to_string ep) = ep"
  by (simp add: from_string_checked_to_string)

end
