(* ===== verification/Resource_Types.thy ===== *)
theory Resource_Types
  imports Chrono IPAddress
begin

text \<open>
  Data of the resource manager (\<open>src/ripple/resource\<close>): consumer kinds and keys, charges and
  the fee schedule, table entries, gossip and imports, tuning constants. A charge, a balance and a
  gossip balance are 32 bit \<open>int\<close>s; sums are narrowed with \<open>to_int32\<close> (signed overflow,
  undefined in C++, is taken as two's complement wrap-around).
\<close>

section \<open>Tuning\<close>

definition warningThreshold :: int where "warningThreshold = 500"
definition dropThreshold :: int where "dropThreshold = 1500"
definition secondsUntilExpiration :: int where "secondsUntilExpiration = 300"
definition decayWindowSeconds :: int where "decayWindowSeconds = 32"
definition minimumGossipBalance :: int where "minimumGossipBalance = 100"
definition gossipExpirationSeconds :: int where "gossipExpirationSeconds = 30"

lemmas res_tuning_defs = warningThreshold_def dropThreshold_def secondsUntilExpiration_def
  decayWindowSeconds_def minimumGossipBalance_def gossipExpirationSeconds_def

section \<open>Kinds and keys\<close>

datatype Kind = kindInbound | kindOutbound | kindAdmin

record Key =
  kind :: Kind
  key_address :: IPEndpoint
  key_name :: string

definition Key_addr :: "Kind \<Rightarrow> IPEndpoint \<Rightarrow> Key" where
  "Key_addr k addr = \<lparr>kind = k, key_address = addr, key_name = []\<rparr>"

definition Key_admin :: "string \<Rightarrow> Key" where
  "Key_admin n = \<lparr>kind = kindAdmin, key_address = unspecified_endpoint, key_name = n\<rparr>"

definition key_equal :: "Key \<Rightarrow> Key \<Rightarrow> bool" where
  "key_equal l r =
     (if kind l \<noteq> kind r then False
      else case kind l of
        kindInbound \<Rightarrow> key_address l = key_address r
      | kindOutbound \<Rightarrow> key_address l = key_address r
      | kindAdmin \<Rightarrow> key_name l = key_name r)"

text \<open>The keys the constructors build: on them \<open>key_equal\<close> is equality, so the hash table is a
  map with keys compared by \<open>=\<close>.\<close>

definition key_ok :: "Key \<Rightarrow> bool" where
  "key_ok k = (if kind k = kindAdmin then key_address k = unspecified_endpoint else key_name k = [])"

lemma key_ok_constructors [simp]:
  "k \<noteq> kindAdmin \<Longrightarrow> key_ok (Key_addr k addr)" "key_ok (Key_admin n)"
  by (simp_all add: key_ok_def Key_addr_def Key_admin_def)

lemma kind_constructors [simp]:
  "kind (Key_addr k addr) = k" "kind (Key_admin n) = kindAdmin"
  by (simp_all add: Key_addr_def Key_admin_def)

lemma key_equal_eq: "key_ok l \<Longrightarrow> key_ok r \<Longrightarrow> key_equal l r \<longleftrightarrow> l = r"
  by (cases l; cases r) (auto simp: key_equal_def key_ok_def split: if_splits Kind.splits)

section \<open>Charges and the fee schedule\<close>

record Charge =
  m_cost :: int
  m_label :: string

definition Charge_of :: "int \<Rightarrow> string \<Rightarrow> Charge" where
  "Charge_of c l = \<lparr>m_cost = c, m_label = l\<rparr>"

definition charge_eq :: "Charge \<Rightarrow> Charge \<Rightarrow> bool" where
  "charge_eq a b = (m_cost b = m_cost a)"

definition int_string :: "int \<Rightarrow> string" where
  "int_string n = (if n < 0 then CHR ''-'' # dec_string (nat (- n)) else dec_string (nat n))"

definition charge_to_string :: "Charge \<Rightarrow> string" where
  "charge_to_string c = m_label c @ '' ($'' @ int_string (m_cost c) @ '')''"

definition fee_schedule :: "(string \<times> Charge) list" where
  "fee_schedule =
    [(''feeInvalidRequest'', Charge_of 10 ''malformed request''),
     (''feeRequestNoReply'', Charge_of 1 ''unsatisfiable request''),
     (''feeInvalidSignature'', Charge_of 100 ''invalid signature''),
     (''feeUnwantedData'', Charge_of 15 ''useless data''),
     (''feeBadData'', Charge_of 20 ''invalid data''),
     (''feeInvalidRPC'', Charge_of 10 ''malformed RPC''),
     (''feeReferenceRPC'', Charge_of 2 ''reference RPC''),
     (''feeExceptionRPC'', Charge_of 10 ''exceptioned RPC''),
     (''feeLightRPC'', Charge_of 5 ''light RPC''),
     (''feeLowBurdenRPC'', Charge_of 20 ''low RPC''),
     (''feeMediumBurdenRPC'', Charge_of 40 ''medium RPC''),
     (''feeHighBurdenRPC'', Charge_of 300 ''heavy RPC''),
     (''feePathFindUpdate'', Charge_of 100 ''path update''),
     (''feeLightPeer'', Charge_of 1 ''trivial peer request''),
     (''feeLowBurdenPeer'', Charge_of 2 ''simple peer request''),
     (''feeMediumBurdenPeer'', Charge_of 50 ''moderate peer request''),
     (''feeHighBurdenPeer'', Charge_of 250 ''heavy peer request''),
     (''feeNewTrustedNote'', Charge_of 10 ''trusted note''),
     (''feeNewValidTx'', Charge_of 10 ''valid tx''),
     (''feeSatisfiedRequest'', Charge_of 10 ''needed data''),
     (''feeWarning'', Charge_of 200 ''received warning''),
     (''feeDrop'', Charge_of 300 ''dropped'')]"

definition feeWarning :: Charge where "feeWarning = Charge_of 200 ''received warning''"
definition feeDrop :: Charge where "feeDrop = Charge_of 300 ''dropped''"

datatype Disposition = disp_ok | disp_warn | disp_drop

section \<open>Entries\<close>

record Entry =
  refcount :: int
  local_balance :: DecayingSample
  remote_balance :: int
  lastWarningTime :: int
  whenExpires :: int

definition Entry_at :: "int \<Rightarrow> Entry" where
  "Entry_at now = \<lparr>refcount = 0, local_balance = DecayingSample_at now, remote_balance = 0,
     lastWarningTime = 0, whenExpires = 0\<rparr>"

definition entry_to_string :: "Key \<Rightarrow> string" where
  "entry_to_string k =
     (case kind k of
        kindInbound \<Rightarrow> endpoint_to_string (key_address k)
      | kindOutbound \<Rightarrow> endpoint_to_string (key_address k)
      | kindAdmin \<Rightarrow> ''\"'' @ key_name k @ ''\"'')"

definition entry_admin :: "Key \<Rightarrow> bool" where
  "entry_admin k = (kind k = kindAdmin)"

text \<open>Reading a balance ages the sample, so the entry is returned updated.\<close>

definition entry_balance :: "Stopwatch \<Rightarrow> Entry \<Rightarrow> int \<times> Entry" where
  "entry_balance clk e =
     (let (v, d) = sample_value decayWindowSeconds clk (local_balance e)
      in (to_int32 (v + remote_balance e), e\<lparr>local_balance := d\<rparr>))"

definition entry_add :: "Stopwatch \<Rightarrow> int \<Rightarrow> Entry \<Rightarrow> int \<times> Entry" where
  "entry_add clk charge e =
     (let (v, d) = sample_add decayWindowSeconds clk charge (local_balance e)
      in (to_int32 (v + remote_balance e), e\<lparr>local_balance := d\<rparr>))"

section \<open>Consumers, gossip, imports\<close>

text \<open>A \<open>Consumer\<close> holds a pointer to its entry, or none: the key of the entry.\<close>

type_synonym Consumer = "Key option"

record GossipItem =
  gi_balance :: int
  gi_address :: IPEndpoint

type_synonym Gossip = "GossipItem list"

record ImportItem =
  ii_balance :: int
  ii_consumer :: Consumer

record Import =
  imp_whenExpires :: int
  imp_items :: "ImportItem list"

end
