(* ===== verification/Resource_Logic.thy ===== *)
theory Resource_Logic
  imports Resource_Types
begin

text \<open>
  \<open>Resource::Logic\<close> and \<open>Resource::Consumer\<close>
  (\<open>src/ripple/resource/impl/Logic.h\<close>, \<open>Consumer.cpp\<close>). The table of entries is a map
  from keys, the intrusive lists are lists of keys, the import table is an association list in the
  hash map's iteration order. Pointers to entries are keys; following one whose entry has been
  erased is the error \<open>DanglingEntry\<close>, unlinking an entry from a list it is not in is
  \<open>NotLinked\<close>, a failed \<open>bassert\<close> is \<open>AssertFailed\<close>.
\<close>

section \<open>State\<close>

datatype res_error = DanglingEntry | NotLinked | AssertFailed

record res_state =
  r_table :: "Key \<rightharpoonup> Entry"
  r_inbound :: "Key list"
  r_outbound :: "Key list"
  r_admin :: "Key list"
  r_inactive :: "Key list"
  r_imports :: "(string \<times> Import) list"
  r_warns :: nat
  r_drops :: nat

definition logic_init :: res_state where
  "logic_init = \<lparr>r_table = Map.empty, r_inbound = [], r_outbound = [], r_admin = [],
     r_inactive = [], r_imports = [], r_warns = 0, r_drops = 0\<rparr>"

definition entry_at :: "Key \<Rightarrow> res_state \<Rightarrow> (res_error, Entry) result" where
  "entry_at k st = (case r_table st k of None \<Rightarrow> Inl DanglingEntry | Some e \<Rightarrow> Inr e)"

definition put_entry :: "Key \<Rightarrow> Entry \<Rightarrow> res_state \<Rightarrow> res_state" where
  "put_entry k e st = st\<lparr>r_table := (r_table st)(k \<mapsto> e)\<rparr>"

text \<open>The list of active entries of a kind.\<close>

definition active_list :: "Kind \<Rightarrow> res_state \<Rightarrow> Key list" where
  "active_list kd st = (case kd of kindInbound \<Rightarrow> r_inbound st | kindOutbound \<Rightarrow> r_outbound st
     | kindAdmin \<Rightarrow> r_admin st)"

definition set_active_list :: "Kind \<Rightarrow> Key list \<Rightarrow> res_state \<Rightarrow> res_state" where
  "set_active_list kd ks st = (case kd of kindInbound \<Rightarrow> st\<lparr>r_inbound := ks\<rparr>
     | kindOutbound \<Rightarrow> st\<lparr>r_outbound := ks\<rparr> | kindAdmin \<Rightarrow> st\<lparr>r_admin := ks\<rparr>)"

section \<open>New endpoints\<close>

definition emplace_entry :: "Stopwatch \<Rightarrow> Key \<Rightarrow> res_state \<Rightarrow> res_state \<times> bool" where
  "emplace_entry clk k st = (case r_table st k of
     None \<Rightarrow> (put_entry k (Entry_at (sw_now clk)) st, True) | Some _ \<Rightarrow> (st, False))"

text \<open>The body shared by the four functions that hand out a reference to an entry: find or create
  it, count the reference, and for the first reference move the entry to the list of its kind.\<close>

definition ref_entry :: "Stopwatch \<Rightarrow> Key \<Rightarrow> res_state \<Rightarrow> (res_error, res_state) result" where
  "ref_entry clk k st =
     (let (st1, inserted) = emplace_entry clk k st
      in bind_r (entry_at k st1) (\<lambda>e.
           let st2 = put_entry k (e\<lparr>refcount := refcount e + 1\<rparr>) st1
           in if refcount e + 1 = 1
              then bind_r (if \<not> inserted then list_unlink NotLinked k (r_inactive st2)
                           else Inr (r_inactive st2)) (\<lambda>ina.
                     Inr (set_active_list (kind k) (active_list (kind k) st2 @ [k])
                            (st2\<lparr>r_inactive := ina\<rparr>)))
              else Inr st2))"

definition isWhitelisted :: "IPEndpoint \<Rightarrow> bool" where
  "isWhitelisted addr = (if \<not> is_public (ep_address addr) then True else False)"

definition newAdminEndpoint ::
  "Stopwatch \<Rightarrow> string \<Rightarrow> res_state \<Rightarrow> (res_error, Consumer \<times> res_state) result" where
  "newAdminEndpoint clk name st =
     bind_r (ref_entry clk (Key_admin name) st) (\<lambda>st'. Inr (Some (Key_admin name), st'))"

definition newInboundEndpoint ::
  "Stopwatch \<Rightarrow> IPEndpoint \<Rightarrow> res_state \<Rightarrow> (res_error, Consumer \<times> res_state) result" where
  "newInboundEndpoint clk addr st =
     (if isWhitelisted addr then newAdminEndpoint clk (endpoint_to_string addr) st
      else let k = Key_addr kindInbound (at_port addr 0)
           in bind_r (ref_entry clk k st) (\<lambda>st'. Inr (Some k, st')))"

definition newOutboundEndpoint ::
  "Stopwatch \<Rightarrow> IPEndpoint \<Rightarrow> res_state \<Rightarrow> (res_error, Consumer \<times> res_state) result" where
  "newOutboundEndpoint clk addr st =
     (if isWhitelisted addr then newAdminEndpoint clk (endpoint_to_string addr) st
      else let k = Key_addr kindOutbound addr
           in bind_r (ref_entry clk k st) (\<lambda>st'. Inr (Some k, st')))"

section \<open>References\<close>

definition acquire :: "Key \<Rightarrow> res_state \<Rightarrow> (res_error, res_state) result" where
  "acquire k st =
     bind_r (entry_at k st) (\<lambda>e. Inr (put_entry k (e\<lparr>refcount := refcount e + 1\<rparr>) st))"

definition release :: "Stopwatch \<Rightarrow> Key \<Rightarrow> res_state \<Rightarrow> (res_error, res_state) result" where
  "release clk k st =
     bind_r (entry_at k st) (\<lambda>e.
       let e1 = e\<lparr>refcount := refcount e - 1\<rparr>; st1 = put_entry k e1 st
       in if refcount e1 = 0
          then bind_r (list_unlink NotLinked k (active_list (kind k) st1)) (\<lambda>ks.
                 let st2 = set_active_list (kind k) ks st1
                 in Inr (put_entry k (e1\<lparr>whenExpires := elapsed clk + secondsUntilExpiration\<rparr>)
                          (st2\<lparr>r_inactive := r_inactive st2 @ [k]\<rparr>)))
          else Inr st1)"

definition elevateToAdminEndpoint ::
  "Stopwatch \<Rightarrow> Key \<Rightarrow> string \<Rightarrow> res_state \<Rightarrow> (res_error, Key \<times> res_state) result" where
  "elevateToAdminEndpoint clk prior name st =
     bind_r (ref_entry clk (Key_admin name) st) (\<lambda>st1.
     bind_r (release clk prior st1) (\<lambda>st2. Inr (Key_admin name, st2)))"

definition erase_entry :: "Key \<Rightarrow> res_state \<Rightarrow> (res_error, res_state) result" where
  "erase_entry k st =
     bind_r (entry_at k st) (\<lambda>e.
       if refcount e \<noteq> 0 then Inl AssertFailed
       else bind_r (list_unlink NotLinked k (r_inactive st)) (\<lambda>ina.
              Inr (st\<lparr>r_inactive := ina, r_table := (r_table st)(k := None)\<rparr>)))"

text \<open>\<open>Consumer\<close>: copy constructor, destructor, assignment, elevation.\<close>

definition consumer_copy :: "Consumer \<Rightarrow> res_state \<Rightarrow> (res_error, Consumer \<times> res_state) result" where
  "consumer_copy other st = (case other of None \<Rightarrow> Inr (None, st)
     | Some k \<Rightarrow> bind_r (acquire k st) (\<lambda>st'. Inr (Some k, st')))"

definition consumer_destroy ::
  "Stopwatch \<Rightarrow> Consumer \<Rightarrow> res_state \<Rightarrow> (res_error, res_state) result" where
  "consumer_destroy clk c st = (case c of None \<Rightarrow> Inr st | Some k \<Rightarrow> release clk k st)"

definition consumer_assign ::
  "Stopwatch \<Rightarrow> Consumer \<Rightarrow> Consumer \<Rightarrow> res_state \<Rightarrow> (res_error, Consumer \<times> res_state) result" where
  "consumer_assign clk self other st =
     bind_r (consumer_destroy clk self st) (consumer_copy other)"

definition consumer_elevate ::
  "Stopwatch \<Rightarrow> Consumer \<Rightarrow> string \<Rightarrow> res_state \<Rightarrow> (res_error, Consumer \<times> res_state) result" where
  "consumer_elevate clk c name st = (case c of None \<Rightarrow> Inl AssertFailed
     | Some k \<Rightarrow> bind_r (elevateToAdminEndpoint clk k name st) (\<lambda>(k', st'). Inr (Some k', st')))"

section \<open>Charging\<close>

definition disposition :: "int \<Rightarrow> Disposition" where
  "disposition balance =
     (if balance \<ge> dropThreshold then disp_drop
      else if balance \<ge> warningThreshold then disp_warn else disp_ok)"

definition charge ::
  "Stopwatch \<Rightarrow> Key \<Rightarrow> Charge \<Rightarrow> res_state \<Rightarrow> (res_error, Disposition \<times> res_state) result" where
  "charge clk k fee st =
     bind_r (entry_at k st) (\<lambda>e.
       let (balance, e1) = entry_add clk (m_cost fee) e
       in Inr (disposition balance, put_entry k e1 st))"

definition warn :: "Stopwatch \<Rightarrow> Key \<Rightarrow> res_state \<Rightarrow> (res_error, bool \<times> res_state) result" where
  "warn clk k st =
     (if entry_admin k then Inr (False, st)
      else bind_r (entry_at k st) (\<lambda>e.
        let (balance, e1) = entry_balance clk e; st1 = put_entry k e1 st
        in if balance \<ge> warningThreshold \<and> elapsed clk \<noteq> lastWarningTime e1
           then bind_r (charge clk k feeWarning st1) (\<lambda>(_, st2).
                bind_r (entry_at k st2) (\<lambda>e2.
                  Inr (True, (put_entry k (e2\<lparr>lastWarningTime := elapsed clk\<rparr>) st2)
                               \<lparr>r_warns := r_warns st2 + 1\<rparr>)))
           else Inr (False, st1)))"

definition disconnect :: "Stopwatch \<Rightarrow> Key \<Rightarrow> res_state \<Rightarrow> (res_error, bool \<times> res_state) result" where
  "disconnect clk k st =
     (if entry_admin k then Inr (False, st)
      else bind_r (entry_at k st) (\<lambda>e.
        let (balance, e1) = entry_balance clk e; st1 = put_entry k e1 st
        in if balance \<ge> dropThreshold
           then bind_r (charge clk k feeDrop st1) (\<lambda>(_, st2).
                  Inr (True, st2\<lparr>r_drops := r_drops st2 + 1\<rparr>))
           else Inr (False, st1)))"

definition logic_balance :: "Stopwatch \<Rightarrow> Key \<Rightarrow> res_state \<Rightarrow> (res_error, int \<times> res_state) result" where
  "logic_balance clk k st =
     bind_r (entry_at k st) (\<lambda>e. let (b, e1) = entry_balance clk e in Inr (b, put_entry k e1 st))"

definition consumer_disposition ::
  "Stopwatch \<Rightarrow> Consumer \<Rightarrow> res_state \<Rightarrow> (res_error, Disposition \<times> res_state) result" where
  "consumer_disposition clk c st = (case c of None \<Rightarrow> Inr (disp_ok, st)
     | Some k \<Rightarrow> charge clk k (Charge_of 0 []) st)"

text \<open>\<open>Consumer::charge\<close>, \<open>warn\<close>, \<open>disconnect\<close> and \<open>balance\<close>
  assert that there is an entry.\<close>

definition with_consumer :: "(Key \<Rightarrow> res_state \<Rightarrow> (res_error, 'a) result) \<Rightarrow> Consumer \<Rightarrow> res_state \<Rightarrow>
    (res_error, 'a) result" where
  "with_consumer f c st = (case c of None \<Rightarrow> Inl AssertFailed | Some k \<Rightarrow> f k st)"

definition consumer_charge ::
  "Stopwatch \<Rightarrow> Charge \<Rightarrow> Consumer \<Rightarrow> res_state \<Rightarrow> (res_error, Disposition \<times> res_state) result" where
  "consumer_charge clk fee = with_consumer (\<lambda>k. charge clk k fee)"

definition consumer_warn ::
  "Stopwatch \<Rightarrow> Consumer \<Rightarrow> res_state \<Rightarrow> (res_error, bool \<times> res_state) result" where
  "consumer_warn clk = with_consumer (warn clk)"

definition consumer_disconnect ::
  "Stopwatch \<Rightarrow> Consumer \<Rightarrow> res_state \<Rightarrow> (res_error, bool \<times> res_state) result" where
  "consumer_disconnect clk = with_consumer (disconnect clk)"

definition consumer_balance ::
  "Stopwatch \<Rightarrow> Consumer \<Rightarrow> res_state \<Rightarrow> (res_error, int \<times> res_state) result" where
  "consumer_balance clk = with_consumer (logic_balance clk)"

section \<open>Gossip\<close>

definition add_remote :: "Consumer \<Rightarrow> int \<Rightarrow> res_state \<Rightarrow> (res_error, res_state) result" where
  "add_remote c amount = with_consumer (\<lambda>k st. bind_r (entry_at k st) (\<lambda>e.
     Inr (put_entry k (e\<lparr>remote_balance := to_int32 (remote_balance e + amount)\<rparr>) st))) c"

text \<open>
  One gossip item: \<open>item.consumer = newInboundEndpoint (address)\<close> assigns a temporary, which
  is then destroyed; \<open>push_back\<close> copies the item, and the item is destroyed at the end of the
  loop body.
\<close>

definition import_item ::
  "Stopwatch \<Rightarrow> GossipItem \<Rightarrow> ImportItem list \<times> res_state \<Rightarrow>
     (res_error, ImportItem list \<times> res_state) result" where
  "import_item clk g = (\<lambda>(items, st).
     bind_r (newInboundEndpoint clk (gi_address g) st) (\<lambda>(tmp, st1).
     bind_r (consumer_assign clk None tmp st1) (\<lambda>(c, st2).
     bind_r (consumer_destroy clk tmp st2) (\<lambda>st3.
     bind_r (add_remote c (gi_balance g) st3) (\<lambda>st4.
     bind_r (consumer_copy c st4) (\<lambda>(c', st5).
     bind_r (consumer_destroy clk c st5) (\<lambda>st6.
       Inr (items @ [\<lparr>ii_balance = gi_balance g, ii_consumer = c'\<rparr>], st6))))))))"

definition deduct_item :: "ImportItem \<Rightarrow> res_state \<Rightarrow> (res_error, res_state) result" where
  "deduct_item it = add_remote (ii_consumer it) (- ii_balance it)"

definition destroy_item :: "Stopwatch \<Rightarrow> ImportItem \<Rightarrow> res_state \<Rightarrow> (res_error, res_state) result" where
  "destroy_item clk it = consumer_destroy clk (ii_consumer it)"

definition set_import :: "string \<Rightarrow> Import \<Rightarrow> res_state \<Rightarrow> res_state" where
  "set_import origin imp st = st\<lparr>r_imports := AList.update origin imp (r_imports st)\<rparr>"

text \<open>
  A repeated import from the same origin adds the new balances, deducts the old ones, swaps the new
  import in and destroys the old items.
\<close>

definition importConsumers ::
  "Stopwatch \<Rightarrow> string \<Rightarrow> Gossip \<Rightarrow> res_state \<Rightarrow> (res_error, res_state) result" where
  "importConsumers clk origin gossip st =
     (let expires = elapsed clk + gossipExpirationSeconds in
      case map_of (r_imports st) origin of
        None \<Rightarrow>
          bind_r (fold_r (import_item clk) gossip
                   ([], set_import origin \<lparr>imp_whenExpires = expires, imp_items = []\<rparr> st)) (\<lambda>(items, st1).
            Inr (set_import origin \<lparr>imp_whenExpires = expires, imp_items = items\<rparr> st1))
      | Some prev \<Rightarrow>
          bind_r (fold_r (import_item clk) gossip ([], st)) (\<lambda>(items, st1).
          bind_r (fold_r deduct_item (imp_items prev) st1) (\<lambda>st2.
            fold_r (destroy_item clk) (imp_items prev)
              (set_import origin \<lparr>imp_whenExpires = expires, imp_items = items\<rparr> st2))))"

text \<open>Export: every active inbound entry whose aged local balance reaches the gossip minimum.\<close>

definition export_one ::
  "Stopwatch \<Rightarrow> Key \<Rightarrow> Gossip \<times> res_state \<Rightarrow> (res_error, Gossip \<times> res_state) result" where
  "export_one clk k = (\<lambda>(items, st).
     bind_r (entry_at k st) (\<lambda>e.
       let (v, d) = sample_value decayWindowSeconds clk (local_balance e);
           b = to_int32 v;
           st1 = put_entry k (e\<lparr>local_balance := d\<rparr>) st
       in Inr (if b \<ge> minimumGossipBalance
               then items @ [\<lparr>gi_balance = b, gi_address = key_address k\<rparr>] else items, st1)))"

definition exportConsumers ::
  "Stopwatch \<Rightarrow> res_state \<Rightarrow> (res_error, Gossip \<times> res_state) result" where
  "exportConsumers clk st = fold_r (export_one clk) (r_inbound st) ([], st)"

section \<open>Periodic maintenance\<close>

fun expire_inactive :: "int \<Rightarrow> Key list \<Rightarrow> res_state \<Rightarrow> (res_error, res_state) result" where
  "expire_inactive now [] st = Inr st"
| "expire_inactive now (k # ks) st =
     bind_r (entry_at k st) (\<lambda>e.
       if whenExpires e \<le> now then bind_r (erase_entry k st) (expire_inactive now ks) else Inr st)"

definition expire_import ::
  "Stopwatch \<Rightarrow> string \<times> Import \<Rightarrow> res_state \<Rightarrow> (res_error, res_state) result" where
  "expire_import clk = (\<lambda>(origin, imp) st.
     if imp_whenExpires imp \<le> elapsed clk
     then bind_r (fold_r deduct_item (imp_items imp) st) (\<lambda>st1.
            fold_r (destroy_item clk) (imp_items imp)
              (st1\<lparr>r_imports := AList.delete origin (r_imports st1)\<rparr>))
     else Inr st)"

definition periodicActivity :: "Stopwatch \<Rightarrow> res_state \<Rightarrow> (res_error, res_state) result" where
  "periodicActivity clk st =
     bind_r (expire_inactive (elapsed clk) (r_inactive st) st) (\<lambda>st1.
       fold_r (expire_import clk) (r_imports st1) st1)"

section \<open>Reports\<close>

record JsonRow =
  jr_local :: int
  jr_remote :: int
  jr_type :: string

definition json_one ::
  "Stopwatch \<Rightarrow> int \<Rightarrow> string \<Rightarrow> Key \<Rightarrow> (string \<rightharpoonup> JsonRow) \<times> res_state \<Rightarrow>
     (res_error, (string \<rightharpoonup> JsonRow) \<times> res_state) result" where
  "json_one clk threshold ty k = (\<lambda>(ret, st).
     bind_r (entry_at k st) (\<lambda>e.
       let (v, d) = sample_value decayWindowSeconds clk (local_balance e);
           b = to_int32 v;
           st1 = put_entry k (e\<lparr>local_balance := d\<rparr>) st
       in Inr (if to_int32 (b + remote_balance e) \<ge> threshold
               then ret(entry_to_string k \<mapsto> \<lparr>jr_local = b, jr_remote = remote_balance e, jr_type = ty\<rparr>)
               else ret, st1)))"

definition getJson ::
  "Stopwatch \<Rightarrow> int \<Rightarrow> res_state \<Rightarrow> (res_error, (string \<rightharpoonup> JsonRow) \<times> res_state) result" where
  "getJson clk threshold st =
     bind_r (fold_r (json_one clk threshold ''outbound'') (r_inbound st) (Map.empty, st)) (\<lambda>(r1, st1).
     bind_r (fold_r (json_one clk threshold ''outbound'') (r_outbound st1) (r1, st1)) (\<lambda>(r2, st2).
       fold_r (json_one clk threshold ''admin'') (r_admin st2) (r2, st2)))"

record PropertyItem =
  pi_count :: "int option"
  pi_name :: string
  pi_balance :: int
  pi_remote :: "int option"

definition write_one ::
  "Stopwatch \<Rightarrow> Key \<Rightarrow> PropertyItem list \<times> res_state \<Rightarrow>
     (res_error, PropertyItem list \<times> res_state) result" where
  "write_one clk k = (\<lambda>(items, st).
     bind_r (entry_at k st) (\<lambda>e.
       let (b, e1) = entry_balance clk e
       in Inr (items @ [\<lparr>pi_count = (if refcount e \<noteq> 0 then Some (refcount e) else None),
                 pi_name = entry_to_string k, pi_balance = b,
                 pi_remote = (if remote_balance e \<noteq> 0 then Some (remote_balance e) else None)\<rparr>],
               put_entry k e1 st)))"

definition writeList ::
  "Stopwatch \<Rightarrow> Key list \<Rightarrow> res_state \<Rightarrow> (res_error, PropertyItem list \<times> res_state) result" where
  "writeList clk ks st = fold_r (write_one clk) ks ([], st)"

definition res_onWrite ::
  "Stopwatch \<Rightarrow> res_state \<Rightarrow> (res_error, (string \<times> PropertyItem list) list \<times> res_state) result" where
  "res_onWrite clk st =
     bind_r (writeList clk (r_inbound st) st) (\<lambda>(i1, st1).
     bind_r (writeList clk (r_outbound st1) st1) (\<lambda>(i2, st2).
     bind_r (writeList clk (r_admin st2) st2) (\<lambda>(i3, st3).
     bind_r (writeList clk (r_inactive st3) st3) (\<lambda>(i4, st4).
       Inr ([(''inbound'', i1), (''outbound'', i2), (''admin'', i3), (''inactive'', i4)], st4)))))"

section \<open>Destruction\<close>

text \<open>The import table goes first: its consumers call back into \<open>release\<close>.\<close>

definition destroy_import ::
  "Stopwatch \<Rightarrow> string \<times> Import \<Rightarrow> res_state \<Rightarrow> (res_error, res_state) result" where
  "destroy_import clk = (\<lambda>(origin, imp). fold_r (destroy_item clk) (imp_items imp))"

definition logic_destroy :: "Stopwatch \<Rightarrow> res_state \<Rightarrow> (res_error, res_state) result" where
  "logic_destroy clk st =
     bind_r (fold_r (destroy_import clk) (r_imports st) st) (\<lambda>st1.
       Inr (st1\<lparr>r_imports := [], r_table := Map.empty\<rparr>))"

end
