(* ===== verification/Resource_Invariant.thy ===== *)
theory Resource_Invariant
  imports Resource_Logic
begin

text \<open>
  Reference counting and balance book-keeping of the resource manager. The invariant
  \<open>res_ok\<close> is stated for a multiset \<open>H\<close> of live references (one per consumer object,
  wherever it lives) and a function \<open>R\<close> giving the remote balance each key should carry; each
  operation is shown to succeed and to re-establish it for the references and balances it leaves.
\<close>

section \<open>Invariant\<close>

definition expiry :: "res_state \<Rightarrow> Key \<Rightarrow> int" where
  "expiry st k = whenExpires (the (r_table st k))"

definition counts_ok :: "Key multiset \<Rightarrow> res_state \<Rightarrow> bool" where
  "counts_ok H st = ((\<forall>k e. r_table st k = Some e \<longrightarrow> refcount e = int (count H k)) \<and>
     set_mset H \<subseteq> dom (r_table st) \<and> (\<forall>k \<in> dom (r_table st). key_ok k))"

definition lists_ok :: "Key multiset \<Rightarrow> res_state \<Rightarrow> bool" where
  "lists_ok H st =
     ((\<forall>kd. distinct (active_list kd st) \<and> set (active_list kd st) = {k. kind k = kd \<and> k \<in># H}) \<and>
      distinct (r_inactive st) \<and> set (r_inactive st) = dom (r_table st) - set_mset H)"

definition expiry_ok :: "int \<Rightarrow> res_state \<Rightarrow> bool" where
  "expiry_ok now st = (sorted (map (expiry st) (r_inactive st)) \<and>
     (\<forall>k \<in> set (r_inactive st). expiry st k \<le> now + secondsUntilExpiration))"

definition remote_ok :: "Key multiset \<Rightarrow> (Key \<Rightarrow> int) \<Rightarrow> res_state \<Rightarrow> bool" where
  "remote_ok H R st = ((\<forall>k e. r_table st k = Some e \<longrightarrow> remote_balance e = to_int32 (R k)) \<and>
     (\<forall>k. k \<notin># H \<longrightarrow> R k = 0))"

definition res_ok :: "int \<Rightarrow> Key multiset \<Rightarrow> (Key \<Rightarrow> int) \<Rightarrow> res_state \<Rightarrow> bool" where
  "res_ok now H R st = (counts_ok H st \<and> lists_ok H st \<and> expiry_ok now st \<and> remote_ok H R st)"

lemmas res_ok_defs = res_ok_def counts_ok_def lists_ok_def expiry_ok_def remote_ok_def

lemma res_ok_init: "res_ok now {#} (\<lambda>_. 0) logic_init"
  by (auto simp: res_ok_defs logic_init_def active_list_def split: Kind.splits)

lemma res_ok_later: "res_ok now H R st \<Longrightarrow> now \<le> now' \<Longrightarrow> res_ok now' H R st"
  by (force simp: res_ok_def expiry_ok_def)

section \<open>State accessors\<close>

lemma active_list_simps [simp]:
  "active_list kd (set_active_list kd' ks st) = (if kd = kd' then ks else active_list kd st)"
  "active_list kd (put_entry k e st) = active_list kd st"
  "active_list kd (st\<lparr>r_inactive := ina\<rparr>) = active_list kd st"
  "active_list kd (st\<lparr>r_table := tb\<rparr>) = active_list kd st"
  "active_list kd (st\<lparr>r_imports := im\<rparr>) = active_list kd st"
  "active_list kd (st\<lparr>r_warns := w\<rparr>) = active_list kd st"
  "active_list kd (st\<lparr>r_drops := w\<rparr>) = active_list kd st"
  by (cases kd; cases kd'; simp add: active_list_def set_active_list_def put_entry_def)+

lemma set_active_list_simps [simp]:
  "r_table (set_active_list kd ks st) = r_table st"
  "r_inactive (set_active_list kd ks st) = r_inactive st"
  "r_imports (set_active_list kd ks st) = r_imports st"
  by (cases kd; simp add: set_active_list_def)+

lemma put_entry_simps [simp]:
  "r_table (put_entry k e st) = (r_table st)(k \<mapsto> e)"
  "r_inactive (put_entry k e st) = r_inactive st"
  "r_inbound (put_entry k e st) = r_inbound st"
  "r_outbound (put_entry k e st) = r_outbound st"
  "r_admin (put_entry k e st) = r_admin st"
  "r_imports (put_entry k e st) = r_imports st"
  "r_warns (put_entry k e st) = r_warns st"
  "r_drops (put_entry k e st) = r_drops st"
  by (simp_all add: put_entry_def)

lemma entry_at_Some [simp]: "r_table st k = Some e \<Longrightarrow> entry_at k st = Inr e"
  by (simp add: entry_at_def)

lemma res_okE:
  assumes "res_ok now H R st"
  obtains "counts_ok H st" "lists_ok H st" "expiry_ok now st" "remote_ok H R st"
  using assms by (simp add: res_ok_def)

lemma res_ok_inactive: "res_ok now H R st \<Longrightarrow> k \<in># H \<Longrightarrow> k \<notin> set (r_inactive st)"
  by (simp add: res_ok_def lists_ok_def)

lemma expiry_ok_frame:
  assumes "r_inactive st' = r_inactive st"
    and "\<And>k. k \<in> set (r_inactive st) \<Longrightarrow> r_table st' k = r_table st k"
    and "expiry_ok now st"
  shows "expiry_ok now st'"
proof -
  have "expiry st' k = expiry st k" if "k \<in> set (r_inactive st)" for k
    using assms(2) [OF that] by (simp add: expiry_def)
  then have "sorted (map (expiry st') (r_inactive st)) = sorted (map (expiry st) (r_inactive st))"
    and "\<forall>k \<in> set (r_inactive st). expiry st' k = expiry st k"
    by (simp_all cong: map_cong)
  with assms(1,3) show ?thesis by (simp add: expiry_ok_def)
qed

lemma counts_ok_lookup:
  assumes "counts_ok H st" "k \<in># H"
  obtains e where "r_table st k = Some e" "refcount e = int (count H k)" "0 < refcount e"
proof -
  from assms have "k \<in> dom (r_table st)" by (auto simp: counts_ok_def)
  then obtain e where e: "r_table st k = Some e" by (auto simp: dom_def)
  with assms have "refcount e = int (count H k)" by (simp add: counts_ok_def)
  with e show thesis using that assms(2) by simp
qed

lemma res_ok_in_table:
  assumes "res_ok now H R st" "k \<in># H"
  obtains e where "r_table st k = Some e" "refcount e = int (count H k)" "0 < refcount e"
  using assms by (elim res_okE counts_ok_lookup)

section \<open>Updating an entry in place\<close>

text \<open>Writing fields other than the reference count and the expiry time keeps the invariant, with
  the remote balance accounted in \<open>R\<close>.\<close>

lemma res_ok_put:
  assumes ok: "res_ok now H R st" and k: "k \<in># H" and e: "r_table st k = Some e"
    and e': "refcount e' = refcount e" "remote_balance e' = to_int32 r"
  shows "res_ok now H (R(k := r)) (put_entry k e' st)"
  using ok
proof (rule res_okE)
  assume cs: "counts_ok H st" "lists_ok H st" "expiry_ok now st" "remote_ok H R st"
  have "expiry_ok now (put_entry k e' st)"
    by (rule expiry_ok_frame [OF _ _ cs(3)]) (use res_ok_inactive [OF ok k] in auto)
  moreover have "counts_ok H (put_entry k e' st)"
    using cs(1) e e' by (auto simp: counts_ok_def)
  moreover have "lists_ok H (put_entry k e' st)"
    using cs(2) e by (auto simp: lists_ok_def)
  moreover have "remote_ok H (R(k := r)) (put_entry k e' st)"
    using cs(4) e' k by (auto simp: remote_ok_def)
  ultimately show ?thesis by (simp add: res_ok_def)
qed

lemma res_ok_put_same:
  assumes "res_ok now H R st" "k \<in># H" "r_table st k = Some e"
    "refcount e' = refcount e" "remote_balance e' = remote_balance e"
  shows "res_ok now H R (put_entry k e' st)"
proof -
  have "remote_balance e' = to_int32 (R k)"
    using assms by (simp add: res_ok_def remote_ok_def)
  from res_ok_put [OF assms(1-4) this] show ?thesis by simp
qed

lemma res_ok_frame:
  assumes "r_table st' = r_table st" "r_inactive st' = r_inactive st"
    "\<And>kd. active_list kd st' = active_list kd st" "res_ok now H R st"
  shows "res_ok now H R st'"
  using assms(4)
proof (rule res_okE)
  assume cs: "counts_ok H st" "lists_ok H st" "expiry_ok now st" "remote_ok H R st"
  have "expiry_ok now st'" by (rule expiry_ok_frame [OF _ _ cs(3)]) (use assms in auto)
  with cs assms(1-3) show ?thesis
    by (simp add: res_ok_def counts_ok_def lists_ok_def remote_ok_def)
qed

lemma res_ok_stats [simp]:
  assumes "res_ok now H R st"
  shows "res_ok now H R (st\<lparr>r_warns := w\<rparr>)" "res_ok now H R (st\<lparr>r_drops := w\<rparr>)"
    "res_ok now H R (st\<lparr>r_imports := im\<rparr>)"
  by (rule res_ok_frame [OF _ _ _ assms]; simp)+

section \<open>Taking references\<close>

lemma acquire_ok:
  assumes ok: "res_ok now H R st" and k: "k \<in># H"
  shows "\<exists>st'. acquire k st = Inr st' \<and> res_ok now (add_mset k H) R st' \<and>
    r_imports st' = r_imports st"
  using ok
proof (rule res_okE)
  assume cs: "counts_ok H st" "lists_ok H st" "expiry_ok now st" "remote_ok H R st"
  from res_ok_in_table [OF ok k] obtain e where e: "r_table st k = Some e" by blast
  let ?st = "put_entry k (e\<lparr>refcount := refcount e + 1\<rparr>) st"
  have "expiry_ok now ?st"
    by (rule expiry_ok_frame [OF _ _ cs(3)]) (use res_ok_inactive [OF ok k] in auto)
  moreover have "counts_ok (add_mset k H) ?st"
    using cs(1) e by (auto simp: counts_ok_def)
  moreover have "lists_ok (add_mset k H) ?st"
    using cs(2) e k by (auto simp: lists_ok_def)
  moreover have "remote_ok (add_mset k H) R ?st"
    using cs(4) e by (auto simp: remote_ok_def)
  ultimately have "res_ok now (add_mset k H) R ?st" by (simp add: res_ok_def)
  with e show ?thesis by (simp add: acquire_def)
qed

text \<open>A new or another reference to an entry.\<close>

lemma absent_not_referenced: "res_ok now H R st \<Longrightarrow> r_table st k = None \<Longrightarrow> k \<notin># H"
  by (auto simp: res_ok_def counts_ok_def)

lemma ref_entry_new:
  assumes ok: "res_ok now H R st" and k: "key_ok k" "r_table st k = None"
  shows "\<exists>st'. ref_entry clk k st = Inr st' \<and> res_ok now (add_mset k H) R st' \<and>
    r_imports st' = r_imports st"
  using ok
proof (rule res_okE)
  assume cs: "counts_ok H st" "lists_ok H st" "expiry_ok now st" "remote_ok H R st"
  note nin = absent_not_referenced [OF ok k(2)]
  let ?e = "(Entry_at (sw_now clk))\<lparr>refcount := 1\<rparr>"
  let ?st = "set_active_list (kind k) (active_list (kind k) st @ [k]) (put_entry k ?e st)"
  have run: "ref_entry clk k st = Inr ?st"
    using k(2) by (simp add: ref_entry_def emplace_entry_def put_entry_def Entry_at_def
        active_list_def set_active_list_def split: Kind.split)
  have ina: "k \<notin> set (r_inactive st)" using cs(2) k(2) by (auto simp: lists_ok_def)
  have "expiry_ok now ?st" by (rule expiry_ok_frame [OF _ _ cs(3)]) (use ina in auto)
  moreover have "counts_ok (add_mset k H) ?st"
    using cs(1) nin k by (auto simp: counts_ok_def count_eq_zero_iff)
  moreover have "lists_ok (add_mset k H) ?st"
    using cs(2) nin ina by (auto simp: lists_ok_def)
  moreover have "remote_ok (add_mset k H) R ?st"
    using cs(4) nin by (auto simp: remote_ok_def Entry_at_def)
  ultimately have "res_ok now (add_mset k H) R ?st" by (simp add: res_ok_def)
  with run show ?thesis by simp
qed

lemma ref_entry_active:
  assumes ok: "res_ok now H R st" and k: "k \<in># H"
  shows "ref_entry clk k st = acquire k st"
proof -
  from res_ok_in_table [OF ok k] obtain e where e: "r_table st k = Some e" "0 < refcount e" by blast
  then show ?thesis by (simp add: ref_entry_def emplace_entry_def acquire_def)
qed

lemma ref_entry_inactive:
  assumes ok: "res_ok now H R st" and k: "r_table st k = Some e" "k \<notin># H"
  shows "\<exists>st'. ref_entry clk k st = Inr st' \<and> res_ok now (add_mset k H) R st' \<and>
    r_imports st' = r_imports st"
  using ok
proof (rule res_okE)
  assume cs: "counts_ok H st" "lists_ok H st" "expiry_ok now st" "remote_ok H R st"
  have rc: "refcount e = 0" using cs(1) k by (simp add: counts_ok_def count_eq_zero_iff)
  have ina: "k \<in> set (r_inactive st)" and dist: "distinct (r_inactive st)"
    using cs(2) k by (auto simp: lists_ok_def)
  let ?st = "set_active_list (kind k) (active_list (kind k) st @ [k])
    ((put_entry k (e\<lparr>refcount := 1\<rparr>) st)\<lparr>r_inactive := remove1 k (r_inactive st)\<rparr>)"
  have run: "ref_entry clk k st = Inr ?st"
    using k(1) rc ina by (simp add: ref_entry_def emplace_entry_def)
  have "expiry_ok now (st\<lparr>r_inactive := remove1 k (r_inactive st)\<rparr>)"
    using cs(3) dist by (auto simp: expiry_ok_def expiry_def sorted_map_remove1 cong: map_cong)
  then have "expiry_ok now ?st" by (rule expiry_ok_frame [rotated 2]) (use dist in auto)
  moreover have "counts_ok (add_mset k H) ?st"
    using cs(1) k by (auto simp: counts_ok_def count_eq_zero_iff)
  moreover have "lists_ok (add_mset k H) ?st"
    using cs(2) k by (auto simp: lists_ok_def)
  moreover have "remote_ok (add_mset k H) R ?st"
    using cs(4) k by (auto simp: remote_ok_def)
  ultimately have "res_ok now (add_mset k H) R ?st" by (simp add: res_ok_def)
  with run show ?thesis by simp
qed

lemma ref_entry_ok:
  assumes "res_ok now H R st" "key_ok k"
  shows "\<exists>st'. ref_entry clk k st = Inr st' \<and> res_ok now (add_mset k H) R st' \<and>
    r_imports st' = r_imports st"
proof (cases "r_table st k")
  case None
  with assms show ?thesis by (intro ref_entry_new)
next
  case (Some e)
  show ?thesis
  proof (cases "k \<in># H")
    case True
    with assms show ?thesis by (simp add: ref_entry_active acquire_ok)
  next
    case False
    with assms Some show ?thesis by (intro ref_entry_inactive)
  qed
qed

section \<open>Dropping references\<close>

lemma release_shared:
  assumes ok: "res_ok now H R st" and k: "k \<in># H" "k \<in># H - {#k#}"
  shows "\<exists>st'. release clk k st = Inr st' \<and> res_ok now (H - {#k#}) R st' \<and>
    r_imports st' = r_imports st"
  using ok
proof (rule res_okE)
  assume cs: "counts_ok H st" "lists_ok H st" "expiry_ok now st" "remote_ok H R st"
  from res_ok_in_table [OF ok k(1)] obtain e
    where e: "r_table st k = Some e" "refcount e = int (count H k)" by blast
  have two: "2 \<le> count H k" using k(2) by (simp add: Suc_le_eq in_diff_count)
  let ?st = "put_entry k (e\<lparr>refcount := refcount e - 1\<rparr>) st"
  have run: "release clk k st = Inr ?st" using e two by (simp add: release_def)
  have mem: "j \<in># H - {#k#} \<longleftrightarrow> j \<in># H" for j
    using k by (cases "j = k") (simp_all add: in_diff_single_other)
  have "expiry_ok now ?st"
    by (rule expiry_ok_frame [OF _ _ cs(3)]) (use res_ok_inactive [OF ok k(1)] in auto)
  moreover have "counts_ok (H - {#k#}) ?st"
    using cs(1) e two by (auto simp: counts_ok_def mem dest: in_diffD)
  moreover have "lists_ok (H - {#k#}) ?st"
    using cs(2) e by (auto simp: lists_ok_def mem)
  moreover have "remote_ok (H - {#k#}) R ?st"
    using cs(4) e by (auto simp: remote_ok_def mem)
  ultimately have "res_ok now (H - {#k#}) R ?st" by (simp add: res_ok_def)
  with run show ?thesis by simp
qed

lemma release_last:
  assumes ok: "res_ok now H R st" and k: "k \<in># H" "k \<notin># H - {#k#}" and R: "R k = 0"
    and clk: "sw_now clk = now"
  shows "\<exists>st'. release clk k st = Inr st' \<and> res_ok now (H - {#k#}) R st' \<and>
    r_imports st' = r_imports st"
  using ok
proof (rule res_okE)
  assume cs: "counts_ok H st" "lists_ok H st" "expiry_ok now st" "remote_ok H R st"
  from res_ok_in_table [OF ok k(1)] obtain e
    where e: "r_table st k = Some e" "refcount e = int (count H k)" by blast
  have one: "count H k = 1"
    using k by (metis One_nat_def count_greater_zero_iff in_diff_count count_single not_less_iff_gr_or_eq Suc_lessI)
  let ?e = "e\<lparr>refcount := 0, whenExpires := now + secondsUntilExpiration\<rparr>"
  let ?st = "put_entry k ?e ((set_active_list (kind k) (remove1 k (active_list (kind k) st)) st)
    \<lparr>r_inactive := r_inactive st @ [k]\<rparr>)"
  have act: "k \<in> set (active_list (kind k) st)" "distinct (active_list kd st)" for kd
    using cs(2) k by (auto simp: lists_ok_def)
  note ina = res_ok_inactive [OF ok k(1)]
  have run: "release clk k st = Inr ?st"
    using e one act clk
    by (cases "kind k")
      (simp_all add: release_def elapsed_def put_entry_def active_list_def set_active_list_def)
  have mem: "j \<in># H - {#k#} \<longleftrightarrow> j \<in># H \<and> j \<noteq> k" for j
    using k by (cases "j = k") (simp_all add: in_diff_single_other)
  have same: "expiry ?st j = expiry st j" if "j \<in> set (r_inactive st)" for j
    using that ina by (auto simp: expiry_def)
  then have "expiry_ok now ?st"
    using cs(3) by (auto simp: expiry_ok_def sorted_append expiry_def cong: map_cong)
  moreover have "counts_ok (H - {#k#}) ?st"
    using cs(1) e one by (auto simp: counts_ok_def mem)
  moreover have "lists_ok (H - {#k#}) ?st"
    using cs(2) e k ina act by (auto simp: lists_ok_def mem)
  moreover have "remote_ok (H - {#k#}) R ?st"
    using cs(4) e R by (auto simp: remote_ok_def mem)
  ultimately have "res_ok now (H - {#k#}) R ?st" by (simp add: res_ok_def)
  with run show ?thesis by simp
qed

lemma release_ok:
  assumes "res_ok now H R st" "k \<in># H" "k \<in># H - {#k#} \<or> R k = 0" "sw_now clk = now"
  shows "\<exists>st'. release clk k st = Inr st' \<and> res_ok now (H - {#k#}) R st' \<and>
    r_imports st' = r_imports st"
  using assms release_shared [OF assms(1,2)] release_last [OF assms(1,2)] by blast

text \<open>Erasing an entry nobody refers to.\<close>

lemma erase_entry_ok:
  assumes ok: "res_ok now H R st" and k: "k \<in> set (r_inactive st)"
  shows "\<exists>st'. erase_entry k st = Inr st' \<and> res_ok now H R st' \<and> r_imports st' = r_imports st \<and>
    r_inactive st' = remove1 k (r_inactive st) \<and> r_table st' = (r_table st)(k := None)"
  using ok
proof (rule res_okE)
  assume cs: "counts_ok H st" "lists_ok H st" "expiry_ok now st" "remote_ok H R st"
  from cs(2) k obtain e where e: "r_table st k = Some e" and nin: "k \<notin># H"
    and dist: "distinct (r_inactive st)" by (auto simp: lists_ok_def)
  have rc: "refcount e = 0" using cs(1) e nin by (simp add: counts_ok_def count_eq_zero_iff)
  let ?st = "st\<lparr>r_inactive := remove1 k (r_inactive st), r_table := (r_table st)(k := None)\<rparr>"
  have run: "erase_entry k st = Inr ?st" using e rc k by (simp add: erase_entry_def)
  have "expiry_ok now (st\<lparr>r_inactive := remove1 k (r_inactive st)\<rparr>)"
    using cs(3) dist by (auto simp: expiry_ok_def expiry_def sorted_map_remove1 cong: map_cong)
  then have "expiry_ok now ?st" by (rule expiry_ok_frame [rotated 2]) (use dist in auto)
  moreover have "counts_ok H ?st" using cs(1) nin by (auto simp: counts_ok_def)
  moreover have "lists_ok H ?st" using cs(2) nin by (auto simp: lists_ok_def)
  moreover have "remote_ok H R ?st" using cs(4) by (auto simp: remote_ok_def)
  ultimately have "res_ok now H R ?st" by (simp add: res_ok_def)
  with run show ?thesis by simp
qed

section \<open>Charges and balances\<close>

lemma entry_balance_fields [simp]:
  "refcount (snd (entry_balance clk e)) = refcount e"
  "remote_balance (snd (entry_balance clk e)) = remote_balance e"
  "whenExpires (snd (entry_balance clk e)) = whenExpires e"
  "lastWarningTime (snd (entry_balance clk e)) = lastWarningTime e"
  by (simp_all add: entry_balance_def sample_value_def Let_def)

lemma entry_add_fields [simp]:
  "refcount (snd (entry_add clk c e)) = refcount e"
  "remote_balance (snd (entry_add clk c e)) = remote_balance e"
  "whenExpires (snd (entry_add clk c e)) = whenExpires e"
  "lastWarningTime (snd (entry_add clk c e)) = lastWarningTime e"
  by (simp_all add: entry_add_def sample_add_def Let_def)

lemma charge_ok:
  assumes "res_ok now H R st" "k \<in># H"
  shows "\<exists>d st'. charge clk k fee st = Inr (d, st') \<and> res_ok now H R st' \<and>
    r_imports st' = r_imports st"
proof -
  from res_ok_in_table [OF assms] obtain e where e: "r_table st k = Some e" by blast
  have "res_ok now H R (put_entry k (snd (entry_add clk (m_cost fee) e)) st)"
    using assms e by (intro res_ok_put_same [where e = e]) simp_all
  with e show ?thesis by (simp add: charge_def case_prod_unfold Let_def)
qed

lemma balance_ok:
  assumes "res_ok now H R st" "k \<in># H"
  shows "\<exists>b st'. logic_balance clk k st = Inr (b, st') \<and> res_ok now H R st' \<and>
    r_imports st' = r_imports st"
proof -
  from res_ok_in_table [OF assms] obtain e where e: "r_table st k = Some e" by blast
  have "res_ok now H R (put_entry k (snd (entry_balance clk e)) st)"
    using assms e by (intro res_ok_put_same [where e = e]) simp_all
  with e show ?thesis by (simp add: logic_balance_def case_prod_unfold Let_def)
qed

lemma warn_ok:
  assumes ok: "res_ok now H R st" and k: "k \<in># H"
  shows "\<exists>b st'. warn clk k st = Inr (b, st') \<and> res_ok now H R st' \<and> r_imports st' = r_imports st"
proof -
  from res_ok_in_table [OF assms] obtain e where e: "r_table st k = Some e" by blast
  let ?st1 = "put_entry k (snd (entry_balance clk e)) st"
  have ok1: "res_ok now H R ?st1"
    using assms e by (intro res_ok_put_same [where e = e]) simp_all
  from charge_ok [OF ok1 k, of clk feeWarning] obtain d st2
    where c: "charge clk k feeWarning ?st1 = Inr (d, st2)" and ok2: "res_ok now H R st2"
      and im: "r_imports st2 = r_imports ?st1" by blast
  from res_ok_in_table [OF ok2 k] obtain e2 where e2: "r_table st2 k = Some e2" by blast
  have "res_ok now H R (put_entry k (e2\<lparr>lastWarningTime := elapsed clk\<rparr>) st2)"
    using ok2 k e2 by (intro res_ok_put_same [where e = e2]) simp_all
  with e e2 c ok ok1 im show ?thesis by (auto simp: warn_def case_prod_unfold Let_def)
qed

lemma disconnect_ok:
  assumes ok: "res_ok now H R st" and k: "k \<in># H"
  shows "\<exists>b st'. disconnect clk k st = Inr (b, st') \<and> res_ok now H R st' \<and>
    r_imports st' = r_imports st"
proof -
  from res_ok_in_table [OF assms] obtain e where e: "r_table st k = Some e" by blast
  let ?st1 = "put_entry k (snd (entry_balance clk e)) st"
  have ok1: "res_ok now H R ?st1"
    using assms e by (intro res_ok_put_same [where e = e]) simp_all
  from charge_ok [OF ok1 k, of clk feeDrop] obtain d st2
    where c: "charge clk k feeDrop ?st1 = Inr (d, st2)" and ok2: "res_ok now H R st2"
      and im: "r_imports st2 = r_imports ?st1" by blast
  with e ok ok1 show ?thesis by (auto simp: disconnect_def case_prod_unfold Let_def)
qed

section \<open>The reference protocol\<close>

text \<open>
  What a client of a reference counted table relies on: taking another reference to something it
  holds and giving one back never fails. \<open>free k\<close> says that the last reference to
  \<open>k\<close> may be given back.
\<close>

locale ref_protocol =
  fixes holds :: "'k multiset \<Rightarrow> 's \<Rightarrow> bool"
    and acq :: "'k \<Rightarrow> 's \<Rightarrow> ('e, 's) result"
    and rel :: "'k \<Rightarrow> 's \<Rightarrow> ('e, 's) result"
    and free :: "'k \<Rightarrow> bool"
  assumes acq_law: "holds H s \<Longrightarrow> k \<in># H \<Longrightarrow> \<exists>s'. acq k s = Inr s' \<and> holds (add_mset k H) s'"
    and rel_law: "holds H s \<Longrightarrow> k \<in># H \<Longrightarrow> k \<in># H - {#k#} \<or> free k \<Longrightarrow>
      \<exists>s'. rel k s = Inr s' \<and> holds (H - {#k#}) s'"
begin

text \<open>Copy and give back: the life of a temporary.\<close>

lemma acq_rel: "holds H s \<Longrightarrow> k \<in># H \<Longrightarrow> \<exists>s'. bind_r (acq k s) (rel k) = Inr s' \<and> holds H s'"
proof -
  assume h: "holds H s" "k \<in># H"
  from acq_law [OF h] obtain s1 where s1: "acq k s = Inr s1" "holds (add_mset k H) s1" by blast
  from rel_law [OF s1(2), of k] h(2) obtain s2 where "rel k s1 = Inr s2" "holds H s2" by auto
  with s1(1) show ?thesis by simp
qed

text \<open>Giving back a whole list, as the destruction of a vector of consumers does.\<close>

lemma rel_all:
  assumes "holds (mset ks + H) s" "\<forall>k \<in> set ks. k \<in># H \<or> free k"
  shows "\<exists>s'. fold_r rel ks s = Inr s' \<and> holds H s'"
proof -
  have "\<exists>t. fold_r rel ks s = Inr t \<and> holds (mset [] + H) t \<and> (\<forall>k \<in> set []. k \<in># H \<or> free k)"
  proof (rule fold_r_rule [where P = "\<lambda>ks t. holds (mset ks + H) t \<and> (\<forall>k \<in> set ks. k \<in># H \<or> free k)"])
    show "holds (mset ks + H) s \<and> (\<forall>k \<in> set ks. k \<in># H \<or> free k)" using assms by simp
  next
    fix k ys t
    assume h: "holds (mset (k # ys) + H) t \<and> (\<forall>k \<in> set (k # ys). k \<in># H \<or> free k)"
    then have "\<exists>t'. rel k t = Inr t' \<and> holds (mset (k # ys) + H - {#k#}) t'"
      by (intro rel_law) auto
    with h show "\<exists>t'. rel k t = Inr t' \<and> holds (mset ys + H) t' \<and> (\<forall>k \<in> set ys. k \<in># H \<or> free k)"
      by simp
  qed
  then show ?thesis by simp
qed

end

interpretation rp: ref_protocol
  "\<lambda>H st. res_ok (sw_now clk) H R st \<and> r_imports st = im" acquire "release clk" "\<lambda>k. R k = 0"
  for clk :: Stopwatch and R :: "Key \<Rightarrow> int" and im :: "(string \<times> Import) list"
proof
  fix H st k
  assume h: "res_ok (sw_now clk) H R st \<and> r_imports st = im" "k \<in># H"
  then show "\<exists>st'. acquire k st = Inr st' \<and> res_ok (sw_now clk) (add_mset k H) R st' \<and> r_imports st' = im"
    using acquire_ok [of "sw_now clk" H R st k] by auto
  assume "k \<in># H - {#k#} \<or> R k = 0"
  with h show "\<exists>st'. release clk k st = Inr st' \<and> res_ok (sw_now clk) (H - {#k#}) R st' \<and> r_imports st' = im"
    using release_ok [of "sw_now clk" H R st k clk] by auto
qed

section \<open>Endpoints and consumers\<close>

lemma newAdminEndpoint_ok:
  assumes "res_ok now H R st"
  shows "\<exists>k st'. newAdminEndpoint clk name st = Inr (Some k, st') \<and> kind k = kindAdmin \<and>
    res_ok now (add_mset k H) R st' \<and> r_imports st' = r_imports st"
  using ref_entry_ok [OF assms, of "Key_admin name" clk] by (auto simp: newAdminEndpoint_def)

lemma newInboundEndpoint_ok:
  assumes "res_ok now H R st"
  shows "\<exists>k st'. newInboundEndpoint clk addr st = Inr (Some k, st') \<and>
    res_ok now (add_mset k H) R st' \<and> r_imports st' = r_imports st"
  using newAdminEndpoint_ok [OF assms] ref_entry_ok [OF assms, of "Key_addr kindInbound (at_port addr 0)" clk]
  by (fastforce simp: newInboundEndpoint_def)

lemma newOutboundEndpoint_ok:
  assumes "res_ok now H R st"
  shows "\<exists>k st'. newOutboundEndpoint clk addr st = Inr (Some k, st') \<and>
    res_ok now (add_mset k H) R st' \<and> r_imports st' = r_imports st"
  using newAdminEndpoint_ok [OF assms] ref_entry_ok [OF assms, of "Key_addr kindOutbound addr" clk]
  by (fastforce simp: newOutboundEndpoint_def)

text \<open>Elevation trades the reference to the old entry for one to the admin entry.\<close>

lemma elevate_ok:
  assumes ok: "res_ok (sw_now clk) H R st" and k: "k \<in># H" "k \<in># H - {#k#} \<or> R k = 0"
  shows "\<exists>st'. elevateToAdminEndpoint clk k name st = Inr (Key_admin name, st') \<and>
    res_ok (sw_now clk) (add_mset (Key_admin name) (H - {#k#})) R st' \<and> r_imports st' = r_imports st"
proof -
  let ?a = "Key_admin name"
  from ref_entry_ok [OF ok, of ?a clk] obtain st1 where st1: "ref_entry clk ?a st = Inr st1"
      "res_ok (sw_now clk) (add_mset ?a H) R st1" "r_imports st1 = r_imports st" by auto
  have "k \<in># add_mset ?a H - {#k#} \<or> R k = 0"
    using k by (cases "k = ?a") (auto simp: in_diff_single_other)
  with release_ok [OF st1(2), of k clk] k(1) obtain st2 where st2: "release clk k st1 = Inr st2"
      "res_ok (sw_now clk) (add_mset ?a H - {#k#}) R st2" "r_imports st2 = r_imports st1" by auto
  have "add_mset ?a H - {#k#} = add_mset ?a (H - {#k#})"
    using k(1) by (metis add_mset_remove_trivial_eq add_mset_commute add_mset_remove_trivial)
  with st1 st2 show ?thesis by (simp add: elevateToAdminEndpoint_def)
qed

section \<open>Imported balances\<close>

definition item_refs :: "ImportItem multiset \<Rightarrow> Key multiset" where
  "item_refs M = image_mset (the \<circ> ii_consumer) M"

definition item_sum :: "Key \<Rightarrow> ImportItem multiset \<Rightarrow> int" where
  "item_sum k M = (\<Sum>it \<in># M. if ii_consumer it = Some k then ii_balance it else 0)"

definition items_ok :: "ImportItem multiset \<Rightarrow> bool" where
  "items_ok M = (\<forall>it \<in># M. ii_consumer it \<noteq> None)"

lemma item_simps [simp]:
  "item_refs {#} = {#}" "item_refs (M + N) = item_refs M + item_refs N"
  "item_sum k {#} = 0" "item_sum k (M + N) = item_sum k M + item_sum k N"
  "item_sum k (add_mset it M) =
     (if ii_consumer it = Some k then ii_balance it else 0) + item_sum k M"
  "items_ok {#}" "items_ok (M + N) \<longleftrightarrow> items_ok M \<and> items_ok N"
  "items_ok (add_mset it M) \<longleftrightarrow> ii_consumer it \<noteq> None \<and> items_ok M"
  by (auto simp: item_refs_def item_sum_def items_ok_def)

lemma item_refs_add [simp]: "ii_consumer it = Some k \<Longrightarrow> item_refs (add_mset it M) = add_mset k (item_refs M)"
  by (simp add: item_refs_def)

text \<open>A key that no item refers to receives nothing.\<close>

lemma item_sum_unreferenced: "items_ok M \<Longrightarrow> k \<notin># item_refs M \<Longrightarrow> item_sum k M = 0"
  by (induction M) (auto simp: item_refs_def)

lemma add_remote_ok:
  assumes ok: "res_ok now H R st" and k: "k \<in># H"
  shows "\<exists>st'. add_remote (Some k) b st = Inr st' \<and> res_ok now H (R(k := R k + b)) st' \<and>
    r_imports st' = r_imports st"
proof -
  from res_ok_in_table [OF assms] obtain e where e: "r_table st k = Some e" by blast
  have "remote_balance e = to_int32 (R k)" using ok e by (simp add: res_ok_def remote_ok_def)
  then have "res_ok now H (R(k := R k + b))
      (put_entry k (e\<lparr>remote_balance := to_int32 (remote_balance e + b)\<rparr>) st)"
    using assms e by (intro res_ok_put [where e = e]) simp_all
  with e show ?thesis by (simp add: add_remote_def with_consumer_def)
qed

end
