(* ===== verification/Resource_Gossip.thy ===== *)
theory Resource_Gossip
  imports Resource_Invariant
begin

text \<open>
  Gossip imports, periodic maintenance and reports of the resource manager keep the invariant: the
  references held by the import table are counted, and every entry's remote balance is the sum of the
  imported items that refer to it.
\<close>

section \<open>One gossip item\<close>

lemma import_item_ok:
  assumes ok: "res_ok (sw_now clk) H R st"
  shows "\<exists>k st'. import_item clk g (items, st) =
      Inr (items @ [\<lparr>ii_balance = gi_balance g, ii_consumer = Some k\<rparr>], st') \<and>
    res_ok (sw_now clk) (add_mset k H) (R(k := R k + gi_balance g)) st' \<and> r_imports st' = r_imports st"
proof -
  from newInboundEndpoint_ok [OF ok, of clk "gi_address g"] obtain k st1
    where n: "newInboundEndpoint clk (gi_address g) st = Inr (Some k, st1)"
      and ok1: "res_ok (sw_now clk) (add_mset k H) R st1" and im1: "r_imports st1 = r_imports st"
    by blast
  from rp.acq_rel [of clk "add_mset k H" R st1 "r_imports st" k] ok1 im1 obtain st3
    where t: "bind_r (acquire k st1) (release clk k) = Inr st3"
      and ok3: "res_ok (sw_now clk) (add_mset k H) R st3" and im3: "r_imports st3 = r_imports st"
    by auto
  let ?R = "R(k := R k + gi_balance g)"
  from add_remote_ok [OF ok3, of k "gi_balance g"] im3 obtain st4
    where a: "add_remote (Some k) (gi_balance g) st3 = Inr st4"
      and ok4: "res_ok (sw_now clk) (add_mset k H) ?R st4" and im4: "r_imports st4 = r_imports st"
    by auto
  from rp.acq_rel [of clk "add_mset k H" ?R st4 "r_imports st" k] ok4 im4 obtain st6
    where u: "bind_r (acquire k st4) (release clk k) = Inr st6"
      and ok6: "res_ok (sw_now clk) (add_mset k H) ?R st6" and im6: "r_imports st6 = r_imports st"
    by auto
  from t u obtain st2 st5 where "acquire k st1 = Inr st2" "release clk k st2 = Inr st3"
      "acquire k st4 = Inr st5" "release clk k st5 = Inr st6"
    by (auto simp: bind_r_eq_Inr_iff)
  with n a have "import_item clk g (items, st) =
      Inr (items @ [\<lparr>ii_balance = gi_balance g, ii_consumer = Some k\<rparr>], st6)"
    by (simp add: import_item_def consumer_assign_def consumer_destroy_def consumer_copy_def)
  with ok6 im6 show ?thesis by blast
qed

section \<open>The loops over items\<close>

text \<open>Importing a list of items adds their references and their balances.\<close>

lemma import_items_ok:
  assumes "res_ok (sw_now clk) H R st"
  shows "\<exists>items st'. fold_r (import_item clk) gossip ([], st) = Inr (items, st') \<and>
    items_ok (mset items) \<and> map ii_balance items = map gi_balance gossip \<and>
    res_ok (sw_now clk) (H + item_refs (mset items)) (\<lambda>k. R k + item_sum k (mset items)) st' \<and>
    r_imports st' = r_imports st"
proof -
  let ?P = "\<lambda>(rest :: Gossip) t. items_ok (mset (fst t)) \<and>
    map ii_balance (fst t) @ map gi_balance rest = map gi_balance gossip \<and>
    res_ok (sw_now clk) (H + item_refs (mset (fst t))) (\<lambda>k. R k + item_sum k (mset (fst t))) (snd t) \<and>
    r_imports (snd t) = r_imports st"
  have "\<exists>t. fold_r (import_item clk) gossip ([], st) = Inr t \<and> ?P [] t"
  proof (rule fold_r_rule [where P = ?P])
    show "?P gossip ([], st)" using assms by simp
  next
    fix g rest t
    assume P: "?P (g # rest) t"
    obtain items s where t: "t = (items, s)" by (cases t)
    with P have ok: "res_ok (sw_now clk) (H + item_refs (mset items))
        (\<lambda>k. R k + item_sum k (mset items)) s" by simp
    from import_item_ok [OF ok, of g items] obtain k s' where
      run: "import_item clk g (items, s) =
        Inr (items @ [\<lparr>ii_balance = gi_balance g, ii_consumer = Some k\<rparr>], s')"
      and ok': "res_ok (sw_now clk) (add_mset k (H + item_refs (mset items)))
        ((\<lambda>k. R k + item_sum k (mset items))(k := R k + item_sum k (mset items) + gi_balance g)) s'"
      and im: "r_imports s' = r_imports s" by blast
    let ?it = "\<lparr>ii_balance = gi_balance g, ii_consumer = Some k\<rparr>"
    have "(\<lambda>k. R k + item_sum k (mset items))(k := R k + item_sum k (mset items) + gi_balance g) =
        (\<lambda>k. R k + item_sum k (mset (items @ [?it])))" by auto
    then have "?P rest (items @ [?it], s')" using P t ok' im by simp
    with run t show "\<exists>t'. import_item clk g t = Inr t' \<and> ?P rest t'" by blast
  qed
  then show ?thesis by auto
qed

text \<open>Deducting items that are still referenced takes their balances off again.\<close>

lemma deduct_items_ok:
  assumes "res_ok now H (\<lambda>k. R k + item_sum k (mset items)) st"
    and "items_ok (mset items)" "item_refs (mset items) \<subseteq># H"
  shows "\<exists>st'. fold_r deduct_item items st = Inr st' \<and> res_ok now H R st' \<and>
    r_imports st' = r_imports st"
proof -
  let ?P = "\<lambda>rest t. res_ok now H (\<lambda>k. R k + item_sum k (mset rest)) t \<and>
    items_ok (mset rest) \<and> item_refs (mset rest) \<subseteq># H \<and> r_imports t = r_imports st"
  have "\<exists>t. fold_r deduct_item items st = Inr t \<and> ?P [] t"
  proof (rule fold_r_rule [where P = ?P])
    show "?P items st" using assms by simp
  next
    fix it rest t
    assume P: "?P (it # rest) t"
    then obtain k where k: "ii_consumer it = Some k" by auto
    with P have kH: "k \<in># H" "item_refs (mset rest) \<subseteq># H"
      by (auto dest: mset_subset_eq_insertD simp: subset_mset_def)
    let ?R = "\<lambda>j. R j + item_sum j (mset (it # rest))"
    from P add_remote_ok [of now H ?R t k "- ii_balance it"] kH(1) obtain t' where
      t': "add_remote (Some k) (- ii_balance it) t = Inr t'"
        "res_ok now H (?R(k := ?R k - ii_balance it)) t'" "r_imports t' = r_imports t" by auto
    have "?R(k := ?R k - ii_balance it) = (\<lambda>j. R j + item_sum j (mset rest))"
      using k by auto
    with t' P k kH show "\<exists>t'. deduct_item it t = Inr t' \<and> ?P rest t'"
      by (auto simp: deduct_item_def)
  qed
  then show ?thesis by simp
qed

text \<open>Destroying items gives their references back.\<close>

lemma destroy_items_release:
  "items_ok (mset items) \<Longrightarrow>
     fold_r (destroy_item clk) items st = fold_r (release clk) (map (the \<circ> ii_consumer) items) st"
  by (induction items arbitrary: st)
    (auto simp: destroy_item_def consumer_destroy_def bind_r_def split: sum.split)

lemma destroy_items_ok:
  assumes "res_ok (sw_now clk) (item_refs (mset items) + H) R st" "items_ok (mset items)"
    and "\<And>k. k \<notin># H \<Longrightarrow> R k = 0"
  shows "\<exists>st'. fold_r (destroy_item clk) items st = Inr st' \<and> res_ok (sw_now clk) H R st' \<and>
    r_imports st' = r_imports st"
  using rp.rel_all [of clk "map (the \<circ> ii_consumer) items" H R st "r_imports st"] assms
  by (auto simp: destroy_items_release item_refs_def)

section \<open>The import table\<close>

definition all_items :: "(string \<times> Import) list \<Rightarrow> ImportItem multiset" where
  "all_items im = (\<Sum>p \<leftarrow> im. mset (imp_items (snd p)))"

lemma all_items_simps [simp]:
  "all_items [] = {#}" "all_items (p # im) = mset (imp_items (snd p)) + all_items im"
  by (simp_all add: all_items_def)

lemma all_items_delete:
  "distinct (map fst im) \<Longrightarrow> map_of im origin = Some imp \<Longrightarrow>
     all_items im = mset (imp_items imp) + all_items (AList.delete origin im)"
proof (induction im)
  case Nil
  then show ?case by simp
next
  case (Cons p im)
  obtain o' imp' where p: "p = (o', imp')" by (cases p)
  show ?case
  proof (cases "o' = origin")
    case True
    with Cons.prems p have "AList.delete origin im = im" by (intro delete_id) auto
    with True p Cons.prems show ?thesis by simp
  next
    case False
    with Cons p show ?thesis by (simp add: union_lcomm)
  qed
qed

lemma all_items_update:
  "distinct (map fst im) \<Longrightarrow>
     all_items (AList.update origin imp im) = mset (imp_items imp) + all_items (AList.delete origin im)"
proof (induction im)
  case Nil
  then show ?case by simp
next
  case (Cons p im)
  obtain o' imp' where p: "p = (o', imp')" by (cases p)
  show ?case
  proof (cases "o' = origin")
    case True
    with Cons.prems p have "AList.delete origin im = im" by (intro delete_id) auto
    with True p show ?thesis by simp
  next
    case False
    with Cons p show ?thesis by (simp add: union_lcomm)
  qed
qed

text \<open>
  The invariant of the whole component, for the multiset \<open>ext\<close> of consumers held by the rest
  of the program: live references are these and the imported items, remote balances are the sums of
  the imported items.
\<close>

definition logic_ok :: "int \<Rightarrow> Key multiset \<Rightarrow> res_state \<Rightarrow> bool" where
  "logic_ok now ext st = (distinct (map fst (r_imports st)) \<and> items_ok (all_items (r_imports st)) \<and>
     res_ok now (ext + item_refs (all_items (r_imports st)))
       (\<lambda>k. item_sum k (all_items (r_imports st))) st)"

lemma logic_ok_init: "logic_ok now {#} logic_init"
  using res_ok_init by (simp add: logic_ok_def logic_init_def)

lemma logic_ok_later: "logic_ok now ext st \<Longrightarrow> now \<le> now' \<Longrightarrow> logic_ok now' ext st"
  by (auto simp: logic_ok_def intro: res_ok_later)

section \<open>Importing gossip\<close>

lemma set_import_simps [simp]:
  "r_imports (set_import origin imp st) = AList.update origin imp (r_imports st)"
  "res_ok now H R (set_import origin imp st) = res_ok now H R st"
proof -
  show "r_imports (set_import origin imp st) = AList.update origin imp (r_imports st)"
    by (simp add: set_import_def)
  have "res_ok now H R (set_import origin imp st)" if "res_ok now H R st"
    using that by (simp add: set_import_def)
  moreover have "res_ok now H R st" if "res_ok now H R (set_import origin imp st)"
    by (rule res_ok_frame [OF _ _ _ that]) (simp_all add: set_import_def)
  ultimately show "res_ok now H R (set_import origin imp st) = res_ok now H R st" by blast
qed

text \<open>Storing an import whose items are already accounted for.\<close>

lemma logic_ok_set_import:
  assumes "distinct (map fst (r_imports st))" "items_ok (mset items)"
    and "items_ok (all_items (AList.delete origin (r_imports st)))"
    and "res_ok now (ext + item_refs (all_items (AList.delete origin (r_imports st)) + mset items))
       (\<lambda>k. item_sum k (all_items (AList.delete origin (r_imports st)) + mset items)) st"
  shows "logic_ok now ext (set_import origin \<lparr>imp_whenExpires = t, imp_items = items\<rparr> st)"
  using assms by (simp add: logic_ok_def all_items_update distinct_update union_commute union_lcomm add.commute)

text \<open>The origin's import is the new gossip, the other origins' are unchanged.\<close>

definition import_stored :: "Stopwatch \<Rightarrow> string \<Rightarrow> Gossip \<Rightarrow> res_state \<Rightarrow> res_state \<Rightarrow> bool" where
  "import_stored clk origin gossip st st' = (\<exists>imp. map_of (r_imports st') origin = Some imp \<and>
     imp_whenExpires imp = sw_now clk + gossipExpirationSeconds \<and>
     map ii_balance (imp_items imp) = map gi_balance gossip \<and>
     AList.delete origin (r_imports st') = AList.delete origin (r_imports st))"

lemma import_stored_set:
  "map ii_balance items = map gi_balance gossip \<Longrightarrow>
   AList.delete origin (r_imports st1) = AList.delete origin (r_imports st) \<Longrightarrow> import_stored clk origin gossip st
     (set_import origin \<lparr>imp_whenExpires = sw_now clk + gossipExpirationSeconds, imp_items = items\<rparr> st1)"
  by (simp add: import_stored_def update_conv' delete_update_same)

lemma import_new_ok:
  assumes ok: "logic_ok (sw_now clk) ext st" and new: "map_of (r_imports st) origin = None"
  shows "\<exists>st'. importConsumers clk origin gossip st = Inr st' \<and> logic_ok (sw_now clk) ext st' \<and>
    import_stored clk origin gossip st st'"
proof -
  let ?im = "r_imports st" and ?e = "sw_now clk + gossipExpirationSeconds"
  let ?st0 = "set_import origin \<lparr>imp_whenExpires = ?e, imp_items = []\<rparr> st"
  have absent: "AList.delete origin ?im = ?im" "origin \<notin> fst ` set ?im"
    using new by (auto intro: delete_id simp: map_of_eq_None_iff)
  from ok have "res_ok (sw_now clk) (ext + item_refs (all_items ?im)) (\<lambda>k. item_sum k (all_items ?im)) ?st0"
    by (simp add: logic_ok_def)
  from import_items_ok [OF this, of gossip] obtain items st1 where
    run: "fold_r (import_item clk) gossip ([], ?st0) = Inr (items, st1)"
    and it: "items_ok (mset items)" "map ii_balance items = map gi_balance gossip"
    and ok1: "res_ok (sw_now clk) (ext + item_refs (all_items ?im) + item_refs (mset items))
      (\<lambda>k. item_sum k (all_items ?im) + item_sum k (mset items)) st1"
    and im1: "r_imports st1 = AList.update origin \<lparr>imp_whenExpires = ?e, imp_items = []\<rparr> ?im"
    by auto
  have del: "AList.delete origin (r_imports st1) = ?im"
    using absent by (simp add: im1 delete_update_same)
  have "logic_ok (sw_now clk) ext (set_import origin \<lparr>imp_whenExpires = ?e, imp_items = items\<rparr> st1)"
  proof (rule logic_ok_set_import)
    show "distinct (map fst (r_imports st1))" using ok by (simp add: im1 distinct_update logic_ok_def)
  qed (use ok ok1 it(1) in \<open>simp_all add: logic_ok_def del add.assoc\<close>)
  with run new import_stored_set [OF it(2), of origin st1 st clk] del absent show ?thesis
    by (simp add: importConsumers_def elapsed_def)
qed

lemma import_again_ok:
  assumes ok: "logic_ok (sw_now clk) ext st" and old: "map_of (r_imports st) origin = Some prev"
  shows "\<exists>st'. importConsumers clk origin gossip st = Inr st' \<and> logic_ok (sw_now clk) ext st' \<and>
    import_stored clk origin gossip st st'"
proof -
  let ?im = "r_imports st" and ?e = "sw_now clk + gossipExpirationSeconds"
  let ?rest = "all_items (AList.delete origin ?im)" and ?p = "mset (imp_items prev)"
  have d: "distinct (map fst ?im)" using ok by (simp add: logic_ok_def)
  note all = all_items_delete [OF d old]
  have pok: "items_ok ?p" "items_ok ?rest" using ok by (simp_all add: logic_ok_def all)
  from ok have "res_ok (sw_now clk) (ext + item_refs (all_items ?im)) (\<lambda>k. item_sum k (all_items ?im)) st"
    by (simp add: logic_ok_def)
  from import_items_ok [OF this, of gossip] obtain items st1 where
    run: "fold_r (import_item clk) gossip ([], st) = Inr (items, st1)"
    and it: "items_ok (mset items)" "map ii_balance items = map gi_balance gossip"
    and ok1: "res_ok (sw_now clk) (ext + item_refs (all_items ?im) + item_refs (mset items))
      (\<lambda>k. item_sum k (all_items ?im) + item_sum k (mset items)) st1"
    and im1: "r_imports st1 = ?im"
    by blast
  let ?H = "ext + item_refs ?rest + item_refs (mset items)"
  let ?R = "\<lambda>k. item_sum k ?rest + item_sum k (mset items)"
  from ok1 have ok1': "res_ok (sw_now clk) (item_refs ?p + ?H) (\<lambda>k. ?R k + item_sum k ?p) st1"
    by (simp add: all ac_simps)
  from deduct_items_ok [OF ok1' pok(1)] im1 obtain st2 where
    ded: "fold_r deduct_item (imp_items prev) st1 = Inr st2"
      "res_ok (sw_now clk) (item_refs ?p + ?H) ?R st2" "r_imports st2 = ?im" by auto
  let ?st3 = "set_import origin \<lparr>imp_whenExpires = ?e, imp_items = items\<rparr> st2"
  have "?R k = 0" if "k \<notin># ?H" for k
    using that it(1) pok by (simp add: item_sum_unreferenced)
  with destroy_items_ok [of clk "imp_items prev" ?H ?R ?st3] ded(2) pok(1) obtain st4 where
    des: "fold_r (destroy_item clk) (imp_items prev) ?st3 = Inr st4"
      "res_ok (sw_now clk) ?H ?R st4" "r_imports st4 = r_imports ?st3" by auto
  have "logic_ok (sw_now clk) ext st4"
    using des d it(1) pok(2) ded(3)
    by (simp add: logic_ok_def all_items_update distinct_update ac_simps)
  moreover have "import_stored clk origin gossip st st4"
    using des(3) import_stored_set [OF it(2), of origin st2 st clk] ded(3) by (simp add: import_stored_def)
  ultimately show ?thesis
    using run old ded(1) des(1) by (simp add: importConsumers_def elapsed_def)
qed

lemma importConsumers_ok:
  assumes "logic_ok (sw_now clk) ext st"
  shows "\<exists>st'. importConsumers clk origin gossip st = Inr st' \<and> logic_ok (sw_now clk) ext st' \<and>
    import_stored clk origin gossip st st'"
  using import_new_ok [OF assms] import_again_ok [OF assms] by (cases "map_of (r_imports st) origin") auto

section \<open>Periodic maintenance\<close>

lemma expire_inactive_ok:
  assumes "res_ok now H R st" "ks = r_inactive st"
  shows "\<exists>st'. expire_inactive t ks st = Inr st' \<and> res_ok now H R st' \<and> r_imports st' = r_imports st \<and>
    (\<forall>k \<in> set (r_inactive st'). t < expiry st' k) \<and>
    (\<forall>k. r_table st' k = (if k \<in> set ks \<and> expiry st k \<le> t then None else r_table st k))"
  using assms
proof (induction ks arbitrary: st)
  case Nil
  then show ?case by auto
next
  case (Cons k ks)
  then have kin: "k \<in> set (r_inactive st)" by (metis list.set_intros(1))
  then obtain e where e: "r_table st k = Some e"
    using Cons.prems(1) by (auto simp: res_ok_def lists_ok_def)
  have "distinct (r_inactive st)" "sorted (map (expiry st) (r_inactive st))"
    using Cons.prems(1) by (simp_all add: res_ok_def lists_ok_def expiry_ok_def)
  then have d: "distinct (k # ks)" and srt: "\<forall>j \<in> set ks. expiry st k \<le> expiry st j"
    by (simp_all flip: Cons.prems(2))
  show ?case
  proof (cases "whenExpires e \<le> t")
    case True
    from erase_entry_ok [OF Cons.prems(1) kin] obtain st1 where er: "erase_entry k st = Inr st1"
      and ok1: "res_ok now H R st1" and fr: "r_imports st1 = r_imports st"
        "r_inactive st1 = remove1 k (r_inactive st)" "r_table st1 = (r_table st)(k := None)" by blast
    have "ks = r_inactive st1" using fr(2) Cons.prems(2) [symmetric] by simp
    from Cons.IH [OF ok1 this] obtain st2 where st2: "expire_inactive t ks st1 = Inr st2"
      "res_ok now H R st2" "r_imports st2 = r_imports st1" "\<forall>k \<in> set (r_inactive st2). t < expiry st2 k"
      "\<forall>j. r_table st2 j = (if j \<in> set ks \<and> expiry st1 j \<le> t then None else r_table st1 j)" by blast
    have "\<forall>j. r_table st2 j = (if j \<in> set (k # ks) \<and> expiry st j \<le> t then None else r_table st j)"
      using st2(5) d True e fr(3) by (auto simp: expiry_def)
    with st2 er e True fr(1) show ?thesis by auto
  next
    case False
    then have "t < expiry st k" using e by (simp add: expiry_def)
    with srt have "\<forall>j \<in> set (k # ks). t < expiry st j" by fastforce
    with Cons.prems(2) have "\<forall>j \<in> set (r_inactive st). t < expiry st j" by (metis)
    moreover from this Cons.prems(2) have
      "\<forall>j. r_table st j = (if j \<in> set (k # ks) \<and> expiry st j \<le> t then None else r_table st j)"
      by (metis linorder_not_less)
    moreover have "expire_inactive t (k # ks) st = Inr st" using e False by simp
    ultimately show ?thesis using Cons.prems(1) by blast
  qed
qed

end
