(* ===== verification/Resource_World.thy ===== *)
theory Resource_World
  imports Resource_Gossip
begin

text \<open>
  Periodic maintenance and reports of the resource manager, and the whole component as a machine: a
  clock, the state of \<open>Logic\<close> and the consumers the rest of the program holds. In every state
  reachable by legal calls the invariant holds, so no call follows a dangling pointer, unlinks an entry
  that is not linked or fails an assertion.
\<close>

section \<open>Expiring imports\<close>

lemma fold_r_preserves:
  assumes "\<And>x s s'. f x s = Inr s' \<Longrightarrow> P s \<Longrightarrow> P s'"
  shows "fold_r f xs s = Inr s' \<Longrightarrow> P s \<Longrightarrow> P s'"
  by (induction xs arbitrary: s) (auto simp: bind_r_eq_Inr_iff intro: assms)

text \<open>Every inactive entry expires after \<open>t\<close>.\<close>

definition all_fresh :: "int \<Rightarrow> res_state \<Rightarrow> bool" where
  "all_fresh t st = (\<forall>k \<in> set (r_inactive st). t < expiry st k)"

lemma release_fresh:
  assumes "release clk k st = Inr st'" "all_fresh (sw_now clk) st"
  shows "all_fresh (sw_now clk) st'"
  using assms
  by (fastforce simp: release_def all_fresh_def expiry_def elapsed_def secondsUntilExpiration_def Let_def
      bind_r_eq_Inr_iff entry_at_def split: if_splits option.splits)

lemma deduct_fresh: "deduct_item it st = Inr st' \<Longrightarrow> all_fresh t st \<Longrightarrow> all_fresh t st'"
  by (fastforce simp: deduct_item_def add_remote_def with_consumer_def all_fresh_def expiry_def
      bind_r_eq_Inr_iff entry_at_def split: option.splits)

lemma destroy_fresh:
  "destroy_item clk it st = Inr st' \<Longrightarrow> all_fresh (sw_now clk) st \<Longrightarrow> all_fresh (sw_now clk) st'"
  by (auto simp: destroy_item_def consumer_destroy_def intro: release_fresh split: option.splits)

lemma expire_import_fresh:
  assumes "expire_import clk p st = Inr st'" "all_fresh (sw_now clk) st"
  shows "all_fresh (sw_now clk) st'"
proof (cases "imp_whenExpires (snd p) \<le> sw_now clk")
  case True
  let ?its = "imp_items (snd p)"
  from True assms(1) obtain st1 where d: "fold_r deduct_item ?its st = Inr st1"
    and r: "fold_r (destroy_item clk) ?its (st1\<lparr>r_imports := AList.delete (fst p) (r_imports st1)\<rparr>) = Inr st'"
    by (auto simp: expire_import_def elapsed_def case_prod_unfold bind_r_eq_Inr_iff)
  from fold_r_preserves [where P = "all_fresh (sw_now clk)", OF deduct_fresh d assms(2)]
  have "all_fresh (sw_now clk) (st1\<lparr>r_imports := AList.delete (fst p) (r_imports st1)\<rparr>)"
    by (simp add: all_fresh_def expiry_def)
  from fold_r_preserves [where P = "all_fresh (sw_now clk)", OF destroy_fresh r this] show ?thesis .
next
  case False
  with assms show ?thesis by (simp add: expire_import_def elapsed_def case_prod_unfold)
qed

lemma expire_import_ok:
  assumes ok: "logic_ok (sw_now clk) ext st" and p: "map_of (r_imports st) origin = Some imp"
    and old: "imp_whenExpires imp \<le> sw_now clk"
  shows "\<exists>st'. expire_import clk (origin, imp) st = Inr st' \<and> logic_ok (sw_now clk) ext st' \<and>
    r_imports st' = AList.delete origin (r_imports st)"
proof -
  let ?im = "r_imports st" and ?its = "imp_items imp"
  let ?rest = "all_items (AList.delete origin ?im)"
  have d: "distinct (map fst ?im)" using ok by (simp add: logic_ok_def)
  note all = all_items_delete [OF d p]
  have iok: "items_ok (mset ?its)" "items_ok ?rest" using ok by (simp_all add: logic_ok_def all)
  let ?H = "ext + item_refs ?rest" and ?R = "\<lambda>k. item_sum k ?rest"
  have ok1: "res_ok (sw_now clk) (item_refs (mset ?its) + ?H) (\<lambda>k. ?R k + item_sum k (mset ?its)) st"
    using ok by (simp add: logic_ok_def all ac_simps)
  from deduct_items_ok [OF ok1 iok(1)] obtain st1 where
    ded: "fold_r deduct_item ?its st = Inr st1" "res_ok (sw_now clk) (item_refs (mset ?its) + ?H) ?R st1"
      "r_imports st1 = ?im" by auto
  let ?st2 = "st1\<lparr>r_imports := AList.delete origin (r_imports st1)\<rparr>"
  have "?R k = 0" if "k \<notin># ?H" for k using that iok by (simp add: item_sum_unreferenced)
  with destroy_items_ok [of clk ?its ?H ?R ?st2] ded(2) iok(1) obtain st3 where
    des: "fold_r (destroy_item clk) ?its ?st2 = Inr st3" "res_ok (sw_now clk) ?H ?R st3"
      "r_imports st3 = AList.delete origin ?im" using ded(3) by auto
  then have "logic_ok (sw_now clk) ext st3"
    using d iok(2) by (simp add: logic_ok_def distinct_delete)
  with des ded old show ?thesis by (simp add: expire_import_def elapsed_def)
qed

definition import_live :: "int \<Rightarrow> string \<times> Import \<Rightarrow> bool" where
  "import_live t p = (t < imp_whenExpires (snd p))"

lemma filter_delete_dead:
  assumes "distinct (map fst im)" "(origin, imp) \<in> set im" "\<not> P (origin, imp)"
  shows "filter P (AList.delete origin im) = filter P im"
proof -
  have "p = (origin, imp)" if "p \<in> set im" "fst p = origin" for p
    using assms(1,2) that by (metis eq_key_imp_eq_value prod.collapse)
  with assms(3) show ?thesis
    by (auto simp: AList.delete_eq filter_filter case_prod_unfold intro!: filter_cong)
qed

lemma expire_imports_ok:
  assumes "logic_ok (sw_now clk) ext st"
  shows "\<exists>st'. fold_r (expire_import clk) (r_imports st) st = Inr st' \<and> logic_ok (sw_now clk) ext st' \<and>
    r_imports st' = filter (import_live (sw_now clk)) (r_imports st)"
proof -
  let ?live = "import_live (sw_now clk)"
  let ?P = "\<lambda>rest t. logic_ok (sw_now clk) ext t \<and> distinct (map fst rest) \<and> set rest \<subseteq> set (r_imports t) \<and>
    (\<forall>p \<in> set (r_imports t). ?live p \<or> p \<in> set rest) \<and> filter ?live (r_imports t) = filter ?live (r_imports st)"
  have "\<exists>t. fold_r (expire_import clk) (r_imports st) st = Inr t \<and> ?P [] t"
  proof (rule fold_r_rule [where P = ?P])
    show "?P (r_imports st) st" using assms by (simp add: logic_ok_def)
  next
    fix p rest t
    assume P: "?P (p # rest) t"
    obtain origin imp where p: "p = (origin, imp)" by (cases p)
    have d: "distinct (map fst (r_imports t))" using P by (simp add: logic_ok_def)
    show "\<exists>t'. expire_import clk p t = Inr t' \<and> ?P rest t'"
    proof (cases "?live p")
      case True
      with P p show ?thesis by (auto simp: expire_import_def import_live_def elapsed_def)
    next
      case False
      have "map_of (r_imports t) origin = Some imp" using P p d by (auto intro: map_of_is_SomeI)
      with expire_import_ok [of clk ext t origin imp] P False p obtain t' where
        t': "expire_import clk p t = Inr t'" "logic_ok (sw_now clk) ext t'"
          "r_imports t' = AList.delete origin (r_imports t)" by (auto simp: import_live_def)
      have "filter ?live (r_imports t') = filter ?live (r_imports t)"
        using t'(3) filter_delete_dead [OF d, of origin imp ?live] P False p by simp
      moreover have "set rest \<subseteq> set (r_imports t')"
      proof
        fix q assume q: "q \<in> set rest"
        with P p have "fst q \<noteq> origin" by force
        with q P t'(3) show "q \<in> set (r_imports t')" by (auto simp: AList.delete_eq)
      qed
      moreover have "\<forall>q \<in> set (r_imports t'). ?live q \<or> q \<in> set rest"
        using P p t'(3) by (auto simp: AList.delete_eq)
      moreover have "distinct (map fst rest)" "filter ?live (r_imports t) = filter ?live (r_imports st)"
        using P by simp_all
      ultimately have "?P rest t'" using t'(2) by (metis (no_types, lifting))
      with t'(1) show ?thesis by blast
    qed
  qed
  then obtain t where "fold_r (expire_import clk) (r_imports st) st = Inr t" "logic_ok (sw_now clk) ext t"
    "\<forall>p \<in> set (r_imports t). ?live p" "filter ?live (r_imports t) = filter ?live (r_imports st)"
    by (metis (no_types, lifting) empty_iff list.set(1))
  then show ?thesis by (metis filter_True)
qed

text \<open>Expiring imports gives references back; it erases no entry.\<close>

lemma release_dom: "release clk k st = Inr st' \<Longrightarrow> dom (r_table st') = dom (r_table st)"
  by (auto simp: release_def Let_def bind_r_eq_Inr_iff entry_at_def split: if_splits option.splits)

lemma deduct_dom: "deduct_item it st = Inr st' \<Longrightarrow> dom (r_table st') = dom (r_table st)"
  by (auto simp: deduct_item_def add_remote_def with_consumer_def bind_r_eq_Inr_iff entry_at_def
      split: option.splits if_splits)

lemma destroy_dom: "destroy_item clk it st = Inr st' \<Longrightarrow> dom (r_table st') = dom (r_table st)"
  by (cases "ii_consumer it") (simp_all add: destroy_item_def consumer_destroy_def release_dom)

lemma fold_r_dom:
  assumes "\<And>x s s'. f x s = Inr s' \<Longrightarrow> dom (r_table s') = dom (r_table s)"
    and "fold_r f xs st = Inr st'"
  shows "dom (r_table st') = dom (r_table st)"
  by (rule fold_r_preserves [where P = "\<lambda>s. dom (r_table s) = dom (r_table st)", OF _ assms(2)])
    (metis assms(1), rule refl)

lemma expire_import_dom:
  assumes "expire_import clk p st = Inr st'"
  shows "dom (r_table st') = dom (r_table st)"
  using assms fold_r_dom [of deduct_item, OF deduct_dom] fold_r_dom [of "destroy_item clk", OF destroy_dom]
  by (fastforce simp: expire_import_def case_prod_unfold bind_r_eq_Inr_iff split: if_splits)

lemma periodicActivity_ok:
  assumes ok: "logic_ok (sw_now clk) ext st"
  shows "\<exists>st'. periodicActivity clk st = Inr st' \<and> logic_ok (sw_now clk) ext st' \<and>
    all_fresh (sw_now clk) st' \<and> r_imports st' = filter (import_live (sw_now clk)) (r_imports st) \<and>
    dom (r_table st') = dom (r_table st) - {k \<in> set (r_inactive st). expiry st k \<le> sw_now clk}"
proof -
  from expire_inactive_ok [of "sw_now clk" _ _ st "r_inactive st" "sw_now clk"] ok obtain st1 where
    e: "expire_inactive (sw_now clk) (r_inactive st) st = Inr st1" "logic_ok (sw_now clk) ext st1"
      "r_imports st1 = r_imports st" "all_fresh (sw_now clk) st1"
    and tb: "\<forall>k. r_table st1 k = (if k \<in> set (r_inactive st) \<and> expiry st k \<le> sw_now clk then None else r_table st k)"
    unfolding logic_ok_def all_fresh_def by metis
  from expire_imports_ok [OF e(2)] obtain st2 where
    f: "fold_r (expire_import clk) (r_imports st1) st1 = Inr st2" "logic_ok (sw_now clk) ext st2"
      "r_imports st2 = filter (import_live (sw_now clk)) (r_imports st1)" by blast
  have "dom (r_table st1) = dom (r_table st) - {k \<in> set (r_inactive st). expiry st k \<le> sw_now clk}"
    by (auto simp: tb dom_def split: if_splits)
  then have "dom (r_table st2) = dom (r_table st) - {k \<in> set (r_inactive st). expiry st k \<le> sw_now clk}"
    using fold_r_dom [OF expire_import_dom f(1)] by simp
  moreover have "all_fresh (sw_now clk) st2"
    by (rule fold_r_preserves [where P = "all_fresh (sw_now clk)", OF expire_import_fresh f(1) e(4)])
  ultimately show ?thesis using e f by (simp add: periodicActivity_def elapsed_def)
qed

section \<open>Reports\<close>

text \<open>What a pass over entries that only ages balances leaves alone.\<close>

definition same_shape :: "res_state \<Rightarrow> res_state \<Rightarrow> bool" where
  "same_shape st st' = (r_imports st' = r_imports st \<and> r_inactive st' = r_inactive st \<and>
     (\<forall>kd. active_list kd st' = active_list kd st) \<and> dom (r_table st') = dom (r_table st) \<and>
     (\<forall>k e. r_table st k = Some e \<longrightarrow> (\<exists>d. r_table st' k = Some (e\<lparr>local_balance := d\<rparr>))))"

lemma entry_rebalance: "\<exists>d. (e :: Entry) = e\<lparr>local_balance := d\<rparr>"
  by (rule exI [of _ "local_balance e"]) simp

lemma same_shape_refl: "same_shape st st"
  by (auto simp: same_shape_def entry_rebalance)

lemma same_shape_trans: "same_shape st st' \<Longrightarrow> same_shape st' st'' \<Longrightarrow> same_shape st st''"
  by (force simp: same_shape_def)

lemma same_shape_put:
  "r_table st k = Some e \<Longrightarrow> same_shape st (put_entry k (e\<lparr>local_balance := d\<rparr>) st)"
  by (auto simp: same_shape_def entry_rebalance)

lemma same_shape_back:
  assumes "same_shape st st'" "r_table st' k = Some e'"
  obtains e d where "r_table st k = Some e" "e' = e\<lparr>local_balance := d\<rparr>"
proof -
  from assms have "k \<in> dom (r_table st)" by (auto simp: same_shape_def)
  then obtain e where "r_table st k = Some e" by blast
  with assms that show thesis by (fastforce simp: same_shape_def)
qed

lemma same_shape_ok:
  assumes "res_ok now H R st" "same_shape st st'"
  shows "res_ok now H R st'"
  using assms(1)
proof (rule res_okE)
  assume cs: "counts_ok H st" "lists_ok H st" "expiry_ok now st" "remote_ok H R st"
  have ex: "expiry st' k = expiry st k" if "k \<in> dom (r_table st)" for k
    using that assms(2) by (fastforce simp: same_shape_def expiry_def)
  have ina: "r_inactive st' = r_inactive st" "set (r_inactive st) \<subseteq> dom (r_table st)"
    using assms(2) cs(2) by (auto simp: same_shape_def lists_ok_def)
  then have "sorted (map (expiry st') (r_inactive st)) = sorted (map (expiry st) (r_inactive st))"
    using ex by (intro arg_cong [where f = sorted] map_cong) auto
  moreover have "\<forall>k \<in> set (r_inactive st). expiry st' k = expiry st k" using ina ex by auto
  ultimately have "expiry_ok now st'" using cs(3) ina(1) by (simp add: expiry_ok_def)
  moreover have "counts_ok H st'"
    using cs(1) assms(2) unfolding counts_ok_def
    by (auto elim!: same_shape_back [OF assms(2)] simp: same_shape_def)
  moreover have "lists_ok H st'" using cs(2) assms(2) by (simp add: lists_ok_def same_shape_def)
  moreover have "remote_ok H R st'"
    using cs(4) unfolding remote_ok_def by (auto elim!: same_shape_back [OF assms(2)])
  ultimately show ?thesis by (simp add: res_ok_def)
qed

lemma same_shape_imports: "same_shape st st' \<Longrightarrow> r_imports st' = r_imports st"
  by (simp add: same_shape_def)

lemma same_shape_logic_ok: "logic_ok now ext st \<Longrightarrow> same_shape st st' \<Longrightarrow> logic_ok now ext st'"
  by (simp add: logic_ok_def same_shape_imports) (blast intro: same_shape_ok)

text \<open>The reports visit lists of entries, age each one's balance and collect output.\<close>

locale entry_report =
  fixes visit :: "Key \<Rightarrow> 'a \<times> res_state \<Rightarrow> (res_error, 'a \<times> res_state) result"
  assumes visit_law: "r_table st k = Some e \<Longrightarrow>
    \<exists>acc' d. visit k (acc, st) = Inr (acc', put_entry k (e\<lparr>local_balance := d\<rparr>) st)"
begin

lemma visits:
  assumes "set ks \<subseteq> dom (r_table st)"
  shows "\<exists>acc' st'. fold_r visit ks (acc, st) = Inr (acc', st') \<and> same_shape st st'"
proof -
  let ?P = "\<lambda>rest (t :: 'a \<times> res_state). set rest \<subseteq> dom (r_table (snd t)) \<and> same_shape st (snd t)"
  have "\<exists>t. fold_r visit ks (acc, st) = Inr t \<and> ?P [] t"
  proof (rule fold_r_rule [where P = ?P])
    show "?P ks (acc, st)" using assms by (simp add: same_shape_refl)
  next
    fix k rest t
    assume P: "?P (k # rest) t"
    then obtain e where e: "r_table (snd t) k = Some e" by auto
    from visit_law [OF e, of "fst t"] obtain acc' d where
      v: "visit k t = Inr (acc', put_entry k (e\<lparr>local_balance := d\<rparr>) (snd t))" by auto
    have "same_shape st (put_entry k (e\<lparr>local_balance := d\<rparr>) (snd t))"
      using P e by (blast intro: same_shape_trans same_shape_put)
    with v P show "\<exists>t'. visit k t = Inr t' \<and> ?P rest t'" by auto
  qed
  then show ?thesis by auto
qed

end

interpretation er_export: entry_report "export_one clk" for clk
  by unfold_locales (auto simp: export_one_def Let_def case_prod_unfold sample_value_def)

interpretation er_json: entry_report "json_one clk threshold ty" for clk threshold ty
  by unfold_locales (auto simp: json_one_def Let_def case_prod_unfold sample_value_def)

interpretation er_write: entry_report "write_one clk" for clk
  by unfold_locales (auto simp: write_one_def entry_balance_def Let_def case_prod_unfold sample_value_def)

lemma lists_in_table:
  assumes "logic_ok now ext st"
  shows "set (r_inbound st) \<subseteq> dom (r_table st)" "set (r_outbound st) \<subseteq> dom (r_table st)"
    "set (r_admin st) \<subseteq> dom (r_table st)" "set (r_inactive st) \<subseteq> dom (r_table st)"
proof -
  have "set (active_list kd st) \<subseteq> dom (r_table st)" for kd
    using assms by (auto simp: logic_ok_def res_ok_def lists_ok_def counts_ok_def)
  from this [of kindInbound] this [of kindOutbound] this [of kindAdmin]
  show "set (r_inbound st) \<subseteq> dom (r_table st)" "set (r_outbound st) \<subseteq> dom (r_table st)"
    "set (r_admin st) \<subseteq> dom (r_table st)" by (simp_all add: active_list_def)
  show "set (r_inactive st) \<subseteq> dom (r_table st)"
    using assms by (auto simp: logic_ok_def res_ok_def lists_ok_def)
qed

lemma exportConsumers_ok:
  assumes "logic_ok now ext st"
  shows "\<exists>g st'. exportConsumers clk st = Inr (g, st') \<and> logic_ok now ext st'"
  using er_export.visits [OF lists_in_table(1) [OF assms], of clk "[]"] same_shape_logic_ok [OF assms]
  by (auto simp: exportConsumers_def)

lemma getJson_ok:
  assumes ok: "logic_ok now ext st"
  shows "\<exists>j st'. getJson clk threshold st = Inr (j, st') \<and> logic_ok now ext st'"
proof -
  note er = er_json.visits [of _ _ clk threshold] and lt = lists_in_table
  from er [OF lt(1) [OF ok]] obtain r1 st1 where
    f1: "fold_r (json_one clk threshold ''outbound'') (r_inbound st) (Map.empty, st) = Inr (r1, st1)"
      "same_shape st st1" by blast
  note ok1 = same_shape_logic_ok [OF ok f1(2)]
  from er [OF lt(2) [OF ok1]] obtain r2 st2 where
    f2: "fold_r (json_one clk threshold ''outbound'') (r_outbound st1) (r1, st1) = Inr (r2, st2)"
      "same_shape st1 st2" by blast
  note ok2 = same_shape_logic_ok [OF ok1 f2(2)]
  from er [OF lt(3) [OF ok2]] obtain r3 st3 where
    f3: "fold_r (json_one clk threshold ''admin'') (r_admin st2) (r2, st2) = Inr (r3, st3)"
      "same_shape st2 st3" by blast
  show ?thesis using f1(1) f2(1) f3 same_shape_logic_ok [OF ok2] by (auto simp: getJson_def)
qed

lemma writeList_ok:
  assumes "logic_ok now ext st" "set ks \<subseteq> dom (r_table st)"
  shows "\<exists>i st'. writeList clk ks st = Inr (i, st') \<and> logic_ok now ext st'"
  using er_write.visits [OF assms(2), of clk "[]"] same_shape_logic_ok [OF assms(1)]
  by (auto simp: writeList_def)

lemma res_onWrite_ok:
  assumes ok: "logic_ok now ext st"
  shows "\<exists>w st'. res_onWrite clk st = Inr (w, st') \<and> logic_ok now ext st'"
proof -
  note wl = writeList_ok [of now ext _ _ clk] and lt = lists_in_table
  from wl [OF ok lt(1) [OF ok]] obtain i1 st1 where
    w1: "writeList clk (r_inbound st) st = Inr (i1, st1)" and ok1: "logic_ok now ext st1" by blast
  from wl [OF ok1 lt(2) [OF ok1]] obtain i2 st2 where
    w2: "writeList clk (r_outbound st1) st1 = Inr (i2, st2)" and ok2: "logic_ok now ext st2" by blast
  from wl [OF ok2 lt(3) [OF ok2]] obtain i3 st3 where
    w3: "writeList clk (r_admin st2) st2 = Inr (i3, st3)" and ok3: "logic_ok now ext st3" by blast
  from wl [OF ok3 lt(4) [OF ok3]] obtain i4 st4 where
    w4: "writeList clk (r_inactive st3) st3 = Inr (i4, st4)" and ok4: "logic_ok now ext st4" by blast
  from w1 w2 w3 w4 ok4 show ?thesis by (simp add: res_onWrite_def)
qed

section \<open>Consumers\<close>

lemma logic_ok_lift:
  assumes "logic_ok now ext st" "r_imports st' = r_imports st"
    "res_ok now (ext' + item_refs (all_items (r_imports st))) (\<lambda>k. item_sum k (all_items (r_imports st))) st'"
  shows "logic_ok now ext' st'"
  using assms by (simp add: logic_ok_def)

lemma logic_ok_res: "logic_ok now ext st \<Longrightarrow>
    res_ok now (ext + item_refs (all_items (r_imports st))) (\<lambda>k. item_sum k (all_items (r_imports st))) st"
  by (simp add: logic_ok_def)

text \<open>The last reference to an entry is given back only when no import accounts for it.\<close>

lemma logic_ok_free:
  assumes "logic_ok now ext st" "k \<in># ext"
  defines "items \<equiv> all_items (r_imports st)"
  shows "k \<in># ext + item_refs items - {#k#} \<or> item_sum k items = 0"
proof (cases "k \<in># item_refs items")
  case True
  have "ext + item_refs items - {#k#} = (ext - {#k#}) + item_refs items"
    using assms(2) by (simp add: multiset_diff_union_assoc)
  with True show ?thesis by simp
next
  case False
  with assms(1) show ?thesis by (simp add: items_def logic_ok_def item_sum_unreferenced)
qed

lemma ext_diff: "k \<in># ext \<Longrightarrow> ext + M - {#k#} = (ext - {#k#}) + M"
  by simp

text \<open>The results of the calls, lifted to the invariant of the whole component.\<close>

definition lifts :: "int \<Rightarrow> res_state \<Rightarrow> Key multiset \<Rightarrow> res_state \<Rightarrow> bool" where
  "lifts now st ext' st' = (res_ok now (ext' + item_refs (all_items (r_imports st)))
     (\<lambda>k. item_sum k (all_items (r_imports st))) st' \<and> r_imports st' = r_imports st)"

lemma lifts_ok: "logic_ok now ext st \<Longrightarrow> lifts now st ext' st' \<Longrightarrow> logic_ok now ext' st'"
  by (auto simp: lifts_def intro: logic_ok_lift)

lemma consumer_release_ok:
  assumes "logic_ok (sw_now clk) ext st" "k \<in># ext"
  shows "\<exists>st'. release clk k st = Inr st' \<and> logic_ok (sw_now clk) (ext - {#k#}) st'"
proof -
  have "\<exists>st'. release clk k st = Inr st' \<and> lifts (sw_now clk) st (ext - {#k#}) st'"
    using release_ok [OF logic_ok_res [OF assms(1)] _ logic_ok_free [OF assms], of clk] assms(2)
    unfolding lifts_def ext_diff [OF assms(2)] by simp
  with lifts_ok [OF assms(1)] show ?thesis by blast
qed

lemma consumer_acquire_ok:
  assumes "logic_ok now ext st" "k \<in># ext"
  shows "\<exists>st'. acquire k st = Inr st' \<and> logic_ok now (add_mset k ext) st'"
proof -
  have "\<exists>st'. acquire k st = Inr st' \<and> lifts now st (add_mset k ext) st'"
    using acquire_ok [OF logic_ok_res [OF assms(1)], of k] assms(2) by (simp add: lifts_def)
  with lifts_ok [OF assms(1)] show ?thesis by blast
qed

lemma consumer_elevate_ok:
  assumes "logic_ok (sw_now clk) ext st" "k \<in># ext"
  shows "\<exists>st'. elevateToAdminEndpoint clk k name st = Inr (Key_admin name, st') \<and>
    logic_ok (sw_now clk) (add_mset (Key_admin name) (ext - {#k#})) st'"
proof -
  have "\<exists>st'. elevateToAdminEndpoint clk k name st = Inr (Key_admin name, st') \<and>
    lifts (sw_now clk) st (add_mset (Key_admin name) (ext - {#k#})) st'"
    using elevate_ok [OF logic_ok_res [OF assms(1)] _ logic_ok_free [OF assms], of name] assms(2)
    unfolding lifts_def ext_diff [OF assms(2)] by simp
  with lifts_ok [OF assms(1)] show ?thesis by blast
qed

lemma new_endpoints_ok:
  assumes ok: "logic_ok now ext st"
  shows "\<exists>k st'. newAdminEndpoint clk name st = Inr (Some k, st') \<and> logic_ok now (add_mset k ext) st'"
    "\<exists>k st'. newInboundEndpoint clk addr st = Inr (Some k, st') \<and> logic_ok now (add_mset k ext) st'"
    "\<exists>k st'. newOutboundEndpoint clk addr st = Inr (Some k, st') \<and> logic_ok now (add_mset k ext) st'"
proof -
  note r = logic_ok_res [OF ok]
  have "\<exists>k st'. newAdminEndpoint clk name st = Inr (Some k, st') \<and> lifts now st (add_mset k ext) st'"
    using newAdminEndpoint_ok [OF r, of clk name] by (auto simp: lifts_def)
  moreover have "\<exists>k st'. newInboundEndpoint clk addr st = Inr (Some k, st') \<and> lifts now st (add_mset k ext) st'"
    using newInboundEndpoint_ok [OF r, of clk addr] by (simp add: lifts_def)
  moreover have "\<exists>k st'. newOutboundEndpoint clk addr st = Inr (Some k, st') \<and> lifts now st (add_mset k ext) st'"
    using newOutboundEndpoint_ok [OF r, of clk addr] by (simp add: lifts_def)
  ultimately show "\<exists>k st'. newAdminEndpoint clk name st = Inr (Some k, st') \<and> logic_ok now (add_mset k ext) st'"
    "\<exists>k st'. newInboundEndpoint clk addr st = Inr (Some k, st') \<and> logic_ok now (add_mset k ext) st'"
    "\<exists>k st'. newOutboundEndpoint clk addr st = Inr (Some k, st') \<and> logic_ok now (add_mset k ext) st'"
    using lifts_ok [OF ok] by blast+
qed

lemma consumer_calls_ok:
  assumes ok: "logic_ok now ext st" and k: "k \<in># ext"
  shows "\<exists>d st'. charge clk k fee st = Inr (d, st') \<and> logic_ok now ext st'"
    "\<exists>b st'. warn clk k st = Inr (b, st') \<and> logic_ok now ext st'"
    "\<exists>b st'. disconnect clk k st = Inr (b, st') \<and> logic_ok now ext st'"
    "\<exists>b st'. logic_balance clk k st = Inr (b, st') \<and> logic_ok now ext st'"
proof -
  let ?items = "all_items (r_imports st)"
  have kH: "k \<in># ext + item_refs ?items" using k by simp
  note r = logic_ok_res [OF ok]
  show "\<exists>d st'. charge clk k fee st = Inr (d, st') \<and> logic_ok now ext st'"
    using charge_ok [OF r kH, of clk fee] lifts_ok [OF ok, of ext] by (auto simp: lifts_def)
  show "\<exists>b st'. warn clk k st = Inr (b, st') \<and> logic_ok now ext st'"
    using warn_ok [OF r kH, of clk] lifts_ok [OF ok, of ext] by (auto simp: lifts_def)
  show "\<exists>b st'. disconnect clk k st = Inr (b, st') \<and> logic_ok now ext st'"
    using disconnect_ok [OF r kH, of clk] lifts_ok [OF ok, of ext] by (auto simp: lifts_def)
  show "\<exists>b st'. logic_balance clk k st = Inr (b, st') \<and> logic_ok now ext st'"
    using balance_ok [OF r kH, of clk] lifts_ok [OF ok, of ext] by (auto simp: lifts_def)
qed

section \<open>The component as a machine\<close>

text \<open>
  The world of the resource manager: the clock, the state of \<open>Logic\<close>, and the multiset of
  entries that the consumers held by the rest of the program refer to.
\<close>

record res_world =
  w_clock :: Stopwatch
  w_logic :: res_state
  w_held :: "Key multiset"

datatype res_op =
    NewInbound IPEndpoint
  | NewOutbound IPEndpoint
  | NewAdmin string
  | CopyConsumer Key
  | DestroyConsumer Key
  | AssignConsumer Key Key
  | Elevate Key string
  | ChargeConsumer Key Charge
  | Warn Key
  | Disconnect Key
  | Balance Key
  | Disposition Key
  | ImportGossip string Gossip
  | ExportGossip
  | Periodic
  | Json int
  | Write
  | Tick nat

text \<open>The results of the calls: the new state of \<open>Logic\<close> and the change to the consumers.\<close>

definition stay :: "res_world \<Rightarrow> (res_error, 'a \<times> res_state) result \<Rightarrow> (res_error, res_world) result" where
  "stay w r = bind_r r (\<lambda>(_, st). Inr (w\<lparr>w_logic := st\<rparr>))"

definition gain :: "res_world \<Rightarrow> (res_error, Consumer \<times> res_state) result \<Rightarrow> (res_error, res_world) result" where
  "gain w r = bind_r r (\<lambda>(c, st). Inr (w\<lparr>w_logic := st, w_held := w_held w +
     (case c of None \<Rightarrow> {#} | Some k \<Rightarrow> {#k#})\<rparr>))"

definition lose :: "Key \<Rightarrow> res_world \<Rightarrow> res_world" where
  "lose k w = w\<lparr>w_held := w_held w - {#k#}\<rparr>"

definition void :: "(res_error, res_state) result \<Rightarrow> (res_error, unit \<times> res_state) result" where
  "void r = bind_r r (\<lambda>st. Inr ((), st))"

fun res_exec :: "res_op \<Rightarrow> res_world \<Rightarrow> (res_error, res_world) result" where
  "res_exec (NewInbound a) w = gain w (newInboundEndpoint (w_clock w) a (w_logic w))"
| "res_exec (NewOutbound a) w = gain w (newOutboundEndpoint (w_clock w) a (w_logic w))"
| "res_exec (NewAdmin n) w = gain w (newAdminEndpoint (w_clock w) n (w_logic w))"
| "res_exec (CopyConsumer k) w = gain w (consumer_copy (Some k) (w_logic w))"
| "res_exec (DestroyConsumer k) w =
     stay (lose k w) (void (consumer_destroy (w_clock w) (Some k) (w_logic w)))"
| "res_exec (AssignConsumer k j) w =
     gain (lose k w) (consumer_assign (w_clock w) (Some k) (Some j) (w_logic w))"
| "res_exec (Elevate k n) w = gain (lose k w) (consumer_elevate (w_clock w) (Some k) n (w_logic w))"
| "res_exec (ChargeConsumer k fee) w = stay w (consumer_charge (w_clock w) fee (Some k) (w_logic w))"
| "res_exec (Warn k) w = stay w (consumer_warn (w_clock w) (Some k) (w_logic w))"
| "res_exec (Disconnect k) w = stay w (consumer_disconnect (w_clock w) (Some k) (w_logic w))"
| "res_exec (Balance k) w = stay w (consumer_balance (w_clock w) (Some k) (w_logic w))"
| "res_exec (Disposition k) w = stay w (consumer_disposition (w_clock w) (Some k) (w_logic w))"
| "res_exec (ImportGossip o' g) w = stay w (void (importConsumers (w_clock w) o' g (w_logic w)))"
| "res_exec ExportGossip w = stay w (exportConsumers (w_clock w) (w_logic w))"
| "res_exec Periodic w = stay w (void (periodicActivity (w_clock w) (w_logic w)))"
| "res_exec (Json t) w = stay w (getJson (w_clock w) t (w_logic w))"
| "res_exec Write w = stay w (res_onWrite (w_clock w) (w_logic w))"
| "res_exec (Tick d) w = Inr (w\<lparr>w_clock := (w_clock w)\<lparr>sw_now := sw_now (w_clock w) + int d\<rparr>\<rparr>)"

text \<open>A call on a consumer needs the consumer; assignment is between two consumer objects.\<close>

fun res_legal :: "res_op \<Rightarrow> res_world \<Rightarrow> bool" where
  "res_legal (CopyConsumer k) w = (k \<in># w_held w)"
| "res_legal (DestroyConsumer k) w = (k \<in># w_held w)"
| "res_legal (AssignConsumer k j) w = (k \<in># w_held w \<and> j \<in># w_held w - {#k#})"
| "res_legal (Elevate k n) w = (k \<in># w_held w)"
| "res_legal (ChargeConsumer k fee) w = (k \<in># w_held w)"
| "res_legal (Warn k) w = (k \<in># w_held w)"
| "res_legal (Disconnect k) w = (k \<in># w_held w)"
| "res_legal (Balance k) w = (k \<in># w_held w)"
| "res_legal (Disposition k) w = (k \<in># w_held w)"
| "res_legal _ w = True"

definition world_ok :: "res_world \<Rightarrow> bool" where
  "world_ok w = logic_ok (sw_now (w_clock w)) (w_held w) (w_logic w)"

definition world_init :: "Stopwatch \<Rightarrow> res_world" where
  "world_init clk = \<lparr>w_clock = clk, w_logic = logic_init, w_held = {#}\<rparr>"

inductive res_reachable :: "res_world \<Rightarrow> bool" where
  start: "res_reachable (world_init clk)"
| call: "res_reachable w \<Longrightarrow> res_legal op w \<Longrightarrow> res_exec op w = Inr w' \<Longrightarrow> res_reachable w'"

lemma stay_ok:
  "\<exists>a st. r = Inr (a, st) \<and> logic_ok (sw_now (w_clock w)) (w_held w) st \<Longrightarrow>
     \<exists>w'. stay w r = Inr w' \<and> world_ok w'"
  by (auto simp: stay_def world_ok_def)

lemma gain_ok:
  "\<exists>k st. r = Inr (Some k, st) \<and> logic_ok (sw_now (w_clock w)) (add_mset k (w_held w)) st \<Longrightarrow>
     \<exists>w'. gain w r = Inr w' \<and> world_ok w'"
  by (auto simp: gain_def world_ok_def)

lemma void_ok: "\<exists>st. r = Inr st \<and> P st \<Longrightarrow> \<exists>a st. void r = Inr (a, st) \<and> P st"
  by (auto simp: void_def)

lemma lose_simps [simp]:
  "w_clock (lose k w) = w_clock w" "w_logic (lose k w) = w_logic w" "w_held (lose k w) = w_held w - {#k#}"
  by (simp_all add: lose_def)

lemma assign_ok:
  assumes "logic_ok (sw_now clk) ext st" "k \<in># ext" "j \<in># ext - {#k#}"
  shows "\<exists>st'. consumer_assign clk (Some k) (Some j) st = Inr (Some j, st') \<and>
    logic_ok (sw_now clk) (add_mset j (ext - {#k#})) st'"
proof -
  from consumer_release_ok [OF assms(1,2)] obtain st1 where
    r: "release clk k st = Inr st1" "logic_ok (sw_now clk) (ext - {#k#}) st1" by blast
  from consumer_acquire_ok [OF r(2) assms(3)] r(1) show ?thesis
    by (auto simp: consumer_assign_def consumer_destroy_def consumer_copy_def)
qed

lemma res_exec_ok:
  assumes "world_ok w" "res_legal op w"
  shows "\<exists>w'. res_exec op w = Inr w' \<and> world_ok w'"
proof -
  from assms(1) have ok: "logic_ok (sw_now (w_clock w)) (w_held w) (w_logic w)"
    by (simp add: world_ok_def)
  note calls = consumer_calls_ok [OF ok]
  show ?thesis
  proof (cases op)
    case (CopyConsumer k)
    with assms(2) consumer_acquire_ok [OF ok] show ?thesis
      by (fastforce simp: consumer_copy_def intro!: gain_ok)
  next
    case (DestroyConsumer k)
    with assms(2) consumer_release_ok [OF ok] show ?thesis
      by (fastforce simp: consumer_destroy_def intro!: stay_ok void_ok)
  next
    case (AssignConsumer k j)
    with assms(2) assign_ok [OF ok, of k j] show ?thesis by (fastforce intro!: gain_ok)
  next
    case (Elevate k n)
    with assms(2) consumer_elevate_ok [OF ok, of k n] show ?thesis
      by (fastforce simp: consumer_elevate_def intro!: gain_ok)
  next
    case (Tick d)
    with ok show ?thesis by (auto simp: world_ok_def intro: logic_ok_later)
  next
    case (NewInbound a)
    with new_endpoints_ok [OF ok] show ?thesis by (fastforce intro!: gain_ok)
  next
    case (NewOutbound a)
    with new_endpoints_ok [OF ok] show ?thesis by (fastforce intro!: gain_ok)
  next
    case (NewAdmin n)
    with new_endpoints_ok [OF ok] show ?thesis by (fastforce intro!: gain_ok)
  next
    case (ImportGossip o' g)
    with importConsumers_ok [OF ok] show ?thesis by (fastforce intro!: stay_ok void_ok)
  next
    case Periodic
    with periodicActivity_ok [OF ok] show ?thesis by (fastforce intro!: stay_ok void_ok)
  qed (use assms(2) calls exportConsumers_ok [OF ok] getJson_ok [OF ok] res_onWrite_ok [OF ok] in
    \<open>auto simp: consumer_charge_def consumer_warn_def consumer_disconnect_def consumer_balance_def
      consumer_disposition_def with_consumer_def intro!: stay_ok\<close>)
qed

lemma res_reachable_ok: "res_reachable w \<Longrightarrow> world_ok w"
proof (induction rule: res_reachable.induct)
  case (start clk)
  then show ?case by (simp add: world_ok_def world_init_def logic_ok_init)
next
  case (call w op w')
  with res_exec_ok [of w op] show ?case by auto
qed

end
