(* ===== verification/Resource_Properties.thy ===== *)
theory Resource_Properties
  imports Resource_World
begin

text \<open>
  Theorems about the resource manager as a whole, with instances on concrete runs.
\<close>

section \<open>A concrete run\<close>

text \<open>A clock with millisecond ticks, a public peer, and the run in which it connects.\<close>

definition demo_clock :: Stopwatch where
  "demo_clock = \<lparr>ticks_per_second = 1000, sw_now = 5000\<rparr>"

definition demo_peer :: IPEndpoint where
  "demo_peer = IPEndpoint_of (AddressV4_octets 54 1 2 3) 51235"

definition demo_key :: Key where
  "demo_key = Key_addr kindInbound (at_port demo_peer 0)"

definition demo_run :: "res_op list \<Rightarrow> res_world" where
  "demo_run ops = (case fold_r res_exec ops (world_init demo_clock) of Inl _ \<Rightarrow> world_init demo_clock | Inr w \<Rightarrow> w)"

lemma demo_public: "is_public (ep_address demo_peer)"
  by (simp add: demo_peer_def IPEndpoint_of_def AddressV4_octets_def AddressV4_of_def is_public_def
      is_private_def is_loopback_def is_multicast_def broadcast_def broadcast_mask_def netmask_def
      netmask_of_class_def get_class_def)

lemma demo_new: "newInboundEndpoint clk demo_peer st = bind_r (ref_entry clk demo_key st) (\<lambda>st'. Inr (Some demo_key, st'))"
  using demo_public by (simp add: newInboundEndpoint_def isWhitelisted_def demo_key_def Let_def)

lemma demo_exec:
  "res_exec (NewInbound demo_peer) (world_init demo_clock) = Inr \<lparr>w_clock = demo_clock,
     w_logic = logic_init\<lparr>r_table := [demo_key \<mapsto> (Entry_at 5000)\<lparr>refcount := 1\<rparr>], r_inbound := [demo_key]\<rparr>,
     w_held = {#demo_key#}\<rparr>"
  by (simp add: demo_new gain_def ref_entry_def emplace_entry_def world_init_def logic_init_def Let_def
      demo_clock_def put_entry_def Entry_at_def set_active_list_def active_list_def demo_key_def)

definition demo_world :: res_world where
  "demo_world = \<lparr>w_clock = demo_clock,
     w_logic = logic_init\<lparr>r_table := [demo_key \<mapsto> (Entry_at 5000)\<lparr>refcount := 1\<rparr>], r_inbound := [demo_key]\<rparr>,
     w_held = {#demo_key#}\<rparr>"

lemma demo_reachable: "res_reachable demo_world"
  unfolding demo_world_def by (rule res_reachable.call [OF res_reachable.start _ demo_exec]) simp

lemma demo_world_simps [simp]:
  "w_clock demo_world = demo_clock" "w_held demo_world = {#demo_key#}"
  "r_table (w_logic demo_world) demo_key = Some ((Entry_at 5000)\<lparr>refcount := 1\<rparr>)"
  "r_imports (w_logic demo_world) = []" "r_inactive (w_logic demo_world) = []"
  by (simp_all add: demo_world_def logic_init_def)

lemma demo_logic_ok: "logic_ok (sw_now demo_clock) {#demo_key#} (w_logic demo_world)"
  using res_reachable_ok [OF demo_reachable] by (simp add: world_ok_def)

section \<open>Safety\<close>

text \<open>
  C1: In every reachable state, every legal call on the resource manager succeeds: no call reads an
  entry that was erased, unlinks an entry from a list it is not in, or fails an assertion, whatever
  the order of endpoint creation, consumer copies and destruction, charges, imports, expiry and
  reports.
\<close>

theorem resource_never_fails:
  assumes "res_reachable w" "res_legal op w"
  shows "\<exists>w'. res_exec op w = Inr w' \<and> res_reachable w'"
  using res_exec_ok [OF res_reachable_ok] assms res_reachable.call by metis

theorem resource_never_fails_witness:
  "\<exists>w'. res_exec (Elevate demo_key ''operator'') demo_world = Inr w' \<and> res_reachable w'"
  by (rule resource_never_fails [OF demo_reachable]) simp

text \<open>
  C30: In every reachable state the reference count of an entry is the number of consumers that refer
  to it, those held by the program and those of the gossip imports; an entry is on the list of its
  kind exactly when it is referenced and on the inactive list exactly when it is not.
\<close>

theorem resource_reference_counts:
  assumes "res_reachable w" "r_table (w_logic w) k = Some e"
  shows "refcount e = int (count (w_held w) k) +
      int (count (item_refs (all_items (r_imports (w_logic w)))) k) \<and>
    (k \<in> set (active_list (kind k) (w_logic w)) \<longleftrightarrow> 0 < refcount e) \<and>
    (k \<in> set (r_inactive (w_logic w)) \<longleftrightarrow> refcount e = 0)"
proof -
  let ?H = "w_held w + item_refs (all_items (r_imports (w_logic w)))"
  have ok: "counts_ok ?H (w_logic w)" "lists_ok ?H (w_logic w)"
    using res_reachable_ok [OF assms(1)] by (simp_all add: world_ok_def logic_ok_def res_ok_def)
  have rc: "refcount e = int (count ?H k)" using ok(1) assms(2) by (simp add: counts_ok_def)
  have mem: "k \<in># ?H \<longleftrightarrow> 0 < refcount e" and nonneg: "0 \<le> refcount e"
    unfolding rc by (metis count_greater_zero_iff of_nat_0_less_iff) simp
  have lists: "k \<in> set (active_list (kind k) (w_logic w)) \<longleftrightarrow> k \<in># ?H"
    "k \<in> set (r_inactive (w_logic w)) \<longleftrightarrow> k \<notin># ?H"
    using ok(2) assms(2) unfolding lists_ok_def by blast+
  have "(\<not> 0 < refcount e) = (refcount e = 0)" using nonneg by linarith
  with rc show ?thesis unfolding lists mem by simp
qed

theorem resource_reference_counts_witness:
  "(1 :: int) = int (count {#demo_key#} demo_key) + int (count (item_refs (all_items [])) demo_key) \<and>
     demo_key \<in> set (active_list (kind demo_key) (w_logic demo_world))"
  using resource_reference_counts [OF demo_reachable demo_world_simps(3)] by simp

text \<open>
  C31: In every reachable state the remote balance of an entry is the sum, wrapped to 32 bits, of the
  balances that the stored gossip imports report for it: adding and deducting imports loses and
  invents nothing.
\<close>

theorem resource_remote_balance:
  assumes "res_reachable w" "r_table (w_logic w) k = Some e"
  shows "remote_balance e = to_int32 (item_sum k (all_items (r_imports (w_logic w))))"
  using res_reachable_ok [OF assms(1)] assms(2)
  by (simp add: world_ok_def logic_ok_def res_ok_def remote_ok_def)

theorem resource_remote_balance_witness:
  "remote_balance (Entry_at 5000) = to_int32 (item_sum demo_key (all_items []))"
  using resource_remote_balance [OF demo_reachable demo_world_simps(3)] by simp

text \<open>
  Importing gossip succeeds and makes it the origin's stored import, with a fresh expiry time and
  the balances of the gossip in order; the imports of other origins stay, and a repeated import
  replaces the previous one: every entry's remote balance is then the sum over the new import and the
  other origins' imports only.
\<close>

theorem import_replaces:
  assumes "logic_ok (sw_now clk) ext st"
  shows "\<exists>st' imp. importConsumers clk origin gossip st = Inr st' \<and> logic_ok (sw_now clk) ext st' \<and>
    map_of (r_imports st') origin = Some imp \<and>
    imp_whenExpires imp = sw_now clk + gossipExpirationSeconds \<and>
    map ii_balance (imp_items imp) = map gi_balance gossip \<and>
    AList.delete origin (r_imports st') = AList.delete origin (r_imports st) \<and>
    (\<forall>k e. r_table st' k = Some e \<longrightarrow> remote_balance e =
       to_int32 (item_sum k (mset (imp_items imp)) + item_sum k (all_items (AList.delete origin (r_imports st)))))"
proof -
  from importConsumers_ok [OF assms, of origin gossip] obtain st' where
    st': "importConsumers clk origin gossip st = Inr st'" "logic_ok (sw_now clk) ext st'"
    "import_stored clk origin gossip st st'" by blast
  then obtain imp where imp: "map_of (r_imports st') origin = Some imp"
    "imp_whenExpires imp = sw_now clk + gossipExpirationSeconds"
    "map ii_balance (imp_items imp) = map gi_balance gossip"
    "AList.delete origin (r_imports st') = AList.delete origin (r_imports st)"
    unfolding import_stored_def by blast
  have "all_items (r_imports st') = mset (imp_items imp) + all_items (AList.delete origin (r_imports st))"
    using all_items_delete [OF _ imp(1)] st'(2) imp(4) by (simp add: logic_ok_def)
  then have "\<forall>k e. r_table st' k = Some e \<longrightarrow> remote_balance e =
      to_int32 (item_sum k (mset (imp_items imp)) + item_sum k (all_items (AList.delete origin (r_imports st))))"
    using st'(2) by (simp add: logic_ok_def res_ok_def remote_ok_def)
  with st' imp show ?thesis by blast
qed

theorem import_replaces_witness:
  "\<exists>st' imp. importConsumers demo_clock ''peer'' [\<lparr>gi_balance = 700, gi_address = demo_peer\<rparr>]
      (w_logic demo_world) = Inr st' \<and> map_of (r_imports st') ''peer'' = Some imp \<and>
    map ii_balance (imp_items imp) = [700]"
  using import_replaces [OF demo_logic_ok, of "''peer''" "[\<lparr>gi_balance = 700, gi_address = demo_peer\<rparr>]"]
  by fastforce

text \<open>
  C39: Periodic maintenance succeeds, erases exactly the inactive entries whose expiry time has passed,
  removes exactly the imports whose expiry time has passed, and leaves only unexpired inactive
  entries.
\<close>

theorem periodic_expires:
  assumes "logic_ok (sw_now clk) ext st"
  shows "\<exists>st'. periodicActivity clk st = Inr st' \<and> logic_ok (sw_now clk) ext st' \<and>
    dom (r_table st') = dom (r_table st) - {k \<in> set (r_inactive st). expiry st k \<le> sw_now clk} \<and>
    r_imports st' = filter (\<lambda>p. sw_now clk < imp_whenExpires (snd p)) (r_imports st) \<and>
    (\<forall>k \<in> set (r_inactive st'). sw_now clk < expiry st' k)"
  using periodicActivity_ok [OF assms] by (auto simp: all_fresh_def import_live_def [abs_def])

theorem periodic_expires_witness:
  "\<exists>st'. periodicActivity demo_clock (w_logic demo_world) = Inr st' \<and>
     dom (r_table st') = dom (r_table (w_logic demo_world))"
  using periodic_expires [OF demo_logic_ok] by fastforce

section \<open>Charging\<close>

text \<open>The balance after a charge: the aged local sample plus the charge, per window second, and the
  remote balance.\<close>

definition balance_after :: "Stopwatch \<Rightarrow> int \<Rightarrow> Entry \<Rightarrow> int" where
  "balance_after clk c e = to_int32 (cdiv (m_value (decay 32 clk (local_balance e)) + c) 32 +
     remote_balance e)"

text \<open>
  A charge on a live entry adds the fee to the aged local balance, and the answer is \<open>drop\<close>
  exactly from the drop threshold on, \<open>warn\<close> exactly between the warning and the drop
  threshold; no other entry and no list changes.
\<close>

theorem charge_disposition:
  assumes "r_table st k = Some e"
  shows "\<exists>d e'. charge clk k fee st = Inr (d, st\<lparr>r_table := (r_table st)(k \<mapsto> e')\<rparr>) \<and>
    m_value (local_balance e') = m_value (decay 32 clk (local_balance e)) + m_cost fee \<and>
    d = (if 1500 \<le> balance_after clk (m_cost fee) e then disp_drop
         else if 500 \<le> balance_after clk (m_cost fee) e then disp_warn else disp_ok)"
proof -
  let ?d = "decay 32 clk (local_balance e)"
  let ?e = "e\<lparr>local_balance := ?d\<lparr>m_value := m_value ?d + m_cost fee\<rparr>\<rparr>"
  have "charge clk k fee st = Inr (disposition (balance_after clk (m_cost fee) e),
      st\<lparr>r_table := (r_table st)(k \<mapsto> ?e)\<rparr>)"
    using assms by (simp add: charge_def entry_add_def sample_add_def balance_after_def put_entry_def
      Let_def decayWindowSeconds_def)
  then show ?thesis
    by (intro exI [of _ "disposition (balance_after clk (m_cost fee) e)"] exI [of _ ?e])
      (simp add: disposition_def warningThreshold_def dropThreshold_def)
qed

theorem charge_disposition_witness:
  "\<exists>d e'. charge demo_clock demo_key (Charge_of 64000 ''flood'') (w_logic demo_world) =
      Inr (d, (w_logic demo_world)\<lparr>r_table := (r_table (w_logic demo_world))(demo_key \<mapsto> e')\<rparr>) \<and> d = disp_drop"
  using charge_disposition [OF demo_world_simps(3), of demo_clock "Charge_of 64000 ''flood''"]
  by (fastforce simp: Charge_of_def Entry_at_def DecayingSample_at_def decay_def demo_clock_def
      balance_after_def cdiv_def)

lemma warn_True:
  assumes "warn clk k st = Inr (True, st')"
  shows "\<exists>e'. r_table st' k = Some e' \<and> lastWarningTime e' = elapsed clk \<and> r_warns st' = r_warns st + 1"
  using assms
  by (auto simp: warn_def charge_def entry_at_def bind_r_eq_Inr_iff Let_def case_prod_unfold
      split: if_splits option.splits)

lemma warn_quiet:
  assumes "r_table st k = Some e" "lastWarningTime e = elapsed clk"
  shows "\<exists>st'. warn clk k st = Inr (False, st') \<and> r_warns st' = r_warns st"
  using assms by (auto simp: warn_def entry_balance_def Let_def case_prod_unfold)

definition demo_loaded :: res_state where
  "demo_loaded = (w_logic demo_world)\<lparr>r_table := [demo_key \<mapsto>
     (Entry_at 5000)\<lparr>refcount := 1, local_balance := \<lparr>m_value = 32000, m_when = 5000\<rparr>\<rparr>]\<rparr>"

lemma demo_warned: "\<exists>st'. warn demo_clock demo_key demo_loaded = Inr (True, st')"
  by (simp add: demo_loaded_def warn_def charge_def entry_balance_def entry_add_def sample_value_def
      sample_add_def decay_def demo_clock_def Entry_at_def Let_def decayWindowSeconds_def cdiv_def
      warningThreshold_def elapsed_def entry_admin_def demo_key_def entry_at_def put_entry_def)

text \<open>
  A warning is issued at most once per clock reading: after \<open>warn\<close> has answered true for
  an entry, a second call at the same time answers false and changes no counter.
\<close>

theorem warn_once:
  assumes "warn clk k st = Inr (True, st')"
  shows "\<exists>st''. warn clk k st' = Inr (False, st'') \<and> r_warns st'' = r_warns st' \<and> r_warns st' = r_warns st + 1"
  using warn_True [OF assms] warn_quiet by metis

theorem warn_once_witness:
  "\<exists>st' st''. warn demo_clock demo_key demo_loaded = Inr (True, st') \<and>
     warn demo_clock demo_key st' = Inr (False, st'') \<and> r_warns st' = 1 \<and> r_warns st'' = 1"
proof -
  obtain st' where w: "warn demo_clock demo_key demo_loaded = Inr (True, st')"
    using demo_warned by blast
  from warn_once [OF w] w show ?thesis by (auto simp: demo_loaded_def demo_world_def logic_init_def)
qed

text \<open>
  Privileged endpoints are never warned and never disconnected, and an inbound connection from an
  address that is not public is privileged.
\<close>

theorem private_never_dropped:
  assumes "\<not> is_public (ep_address addr)" "newInboundEndpoint clk addr st = Inr (Some k, st1)"
  shows "warn clk' k st' = Inr (False, st') \<and> disconnect clk' k st' = Inr (False, st')"
  using assms
  by (auto simp: newInboundEndpoint_def isWhitelisted_def newAdminEndpoint_def warn_def disconnect_def
      entry_admin_def bind_r_eq_Inr_iff)

theorem private_never_dropped_witness:
  "warn demo_clock (Key_admin (endpoint_to_string (IPEndpoint_of (AddressV4_of 0x7f000001) 80))) logic_init =
     Inr (False, logic_init)"
proof -
  let ?a = "IPEndpoint_of (AddressV4_of 0x7f000001) 80"
  have np: "\<not> is_public (ep_address ?a)"
    by (simp add: is_public_def is_private_def is_loopback_def IPEndpoint_of_def AddressV4_of_def)
  obtain st1 where "newInboundEndpoint demo_clock ?a logic_init = Inr (Some (Key_admin (endpoint_to_string ?a)), st1)"
    using np by (auto simp: newInboundEndpoint_def isWhitelisted_def newAdminEndpoint_def ref_entry_def
        emplace_entry_def logic_init_def put_entry_def Entry_at_def Let_def)
  from private_never_dropped [OF np this] show ?thesis by simp
qed

text \<open>
  Inbound connections from one public address share one entry whatever their ports, so
  reconnecting from another port does not reset the balance; outbound connections are accounted per
  port.
\<close>

theorem inbound_shares_entry:
  assumes "is_public (ep_address addr)"
  shows "newInboundEndpoint clk (at_port addr p) st = newInboundEndpoint clk (at_port addr q) st \<and>
    (newOutboundEndpoint clk (at_port addr p) st = Inr (c, st1) \<longrightarrow>
     newOutboundEndpoint clk (at_port addr q) st' = Inr (c, st2) \<longrightarrow> p = q)"
  using assms
  by (auto simp: newInboundEndpoint_def newOutboundEndpoint_def isWhitelisted_def at_port_def IPEndpoint_of_def
      bind_r_eq_Inr_iff Let_def Key_addr_def)

theorem inbound_shares_entry_witness:
  "newInboundEndpoint demo_clock (at_port demo_peer 1) logic_init =
   newInboundEndpoint demo_clock (at_port demo_peer 2) logic_init"
  using inbound_shares_entry [OF demo_public] by blast

section \<open>Decay\<close>

text \<open>
  The local balance never grows by itself and never turns negative, and after four windows
  without a charge it is forgotten: the entry is then in good standing unless gossip says otherwise.
\<close>

theorem balance_decays:
  assumes "0 \<le> m_value (local_balance e)" "clock_ok clk" "m_when (local_balance e) \<le> sw_now clk"
    "sw_now clk - m_when (local_balance e) < 2 ^ 63"
  shows "0 \<le> m_value (decay 32 clk (local_balance e)) \<and>
    m_value (decay 32 clk (local_balance e)) \<le> m_value (local_balance e) \<and>
    (m_when (local_balance e) + seconds clk 129 \<le> sw_now clk \<longrightarrow>
       m_value (decay 32 clk (local_balance e)) = 0 \<and>
       fst (entry_balance clk e) = to_int32 (remote_balance e))"
proof -
  let ?d = "local_balance e"
  have "m_value (decay 32 clk ?d) = 0" if "m_when ?d + seconds clk 129 \<le> sw_now clk"
    using decay_forgets [of clk 32 ?d] assms(2,4) that by simp
  then show ?thesis using assms(1)
    by (simp add: decay_nonneg decay_le entry_balance_def sample_value_def Let_def decayWindowSeconds_def)
qed

theorem balance_decays_witness:
  "fst (entry_balance \<lparr>ticks_per_second = 1000, sw_now = 134000\<rparr>
     ((Entry_at 5000)\<lparr>local_balance := \<lparr>m_value = 48000, m_when = 5000\<rparr>\<rparr>)) = 0"
  using balance_decays [of "(Entry_at 5000)\<lparr>local_balance := \<lparr>m_value = 48000, m_when = 5000\<rparr>\<rparr>"
      "\<lparr>ticks_per_second = 1000, sw_now = 134000\<rparr>"]
  by (simp add: seconds_def clock_ok_def Entry_at_def)

text \<open>
  Assigning a consumer that holds the only reference to itself corrupts the table: the entry ends
  up referenced but on the inactive list, and when its expiry time passes the periodic maintenance
  fails the assertion in \<open>erase\<close>.
\<close>

theorem self_assignment_breaks:
  "\<exists>st c. consumer_assign demo_clock (Some demo_key) (Some demo_key) (w_logic demo_world) = Inr (c, st) \<and>
     map_option refcount (r_table st demo_key) = Some 1 \<and> r_inactive st = [demo_key] \<and>
     periodicActivity (demo_clock\<lparr>sw_now := 5300\<rparr>) st = Inl AssertFailed"
  by (simp add: consumer_assign_def consumer_destroy_def consumer_copy_def release_def acquire_def
      periodicActivity_def elapsed_def demo_clock_def demo_world_def logic_init_def demo_key_def Entry_at_def
      active_list_def set_active_list_def put_entry_def entry_at_def list_unlink_def Let_def erase_entry_def
      secondsUntilExpiration_def bind_r_def)

text \<open>
  The report labels the entries of inbound connections \<open>outbound\<close>.
\<close>

theorem getJson_inbound_label:
  "\<exists>j st. getJson demo_clock 0 (w_logic demo_world) = Inr (j, st) \<and>
     map_option jr_type (j (entry_to_string demo_key)) = Some ''outbound''"
  by (simp add: getJson_def json_one_def demo_world_def logic_init_def Entry_at_def entry_at_def
      sample_value_def decay_def demo_clock_def DecayingSample_at_def Let_def decayWindowSeconds_def put_entry_def)

end
