(* ===== verification/AgedContainer.thy ===== *)
theory AgedContainer
  imports Chrono
begin

text \<open>
  The aged associative containers of \<open>src/beast/beast/container\<close> (\<open>aged_map\<close>,
  \<open>aged_unordered_map\<close>, \<open>aged_set\<close>): unique keys, each element stamped with the time
  it was inserted or last touched, and a chronological list of the elements. The model keeps the
  chronological list; key lookup searches it. The elements carry key, mapped value and time stamp
  (a set has the unit value).
\<close>

section \<open>Operations\<close>

type_synonym ('k, 'v) aged = "('k \<times> 'v \<times> int) list"

definition aged_keys :: "('k, 'v) aged \<Rightarrow> 'k set" where
  "aged_keys c = fst ` set c"

definition aged_find :: "'k \<Rightarrow> ('k, 'v) aged \<Rightarrow> 'v option" where
  "aged_find k c = map_option fst (map_of c k)"

definition aged_when :: "'k \<Rightarrow> ('k, 'v) aged \<Rightarrow> int option" where
  "aged_when k c = map_option snd (map_of c k)"

text \<open>\<open>emplace\<close>: a new element is stamped with the current time and is the youngest; the flag
  says whether it was inserted.\<close>

definition aged_emplace :: "int \<Rightarrow> 'k \<Rightarrow> 'v \<Rightarrow> ('k, 'v) aged \<Rightarrow> ('k, 'v) aged \<times> bool" where
  "aged_emplace now k v c =
     (case map_of c k of None \<Rightarrow> (c @ [(k, v, now)], True) | Some _ \<Rightarrow> (c, False))"

text \<open>\<open>touch\<close>: restamp and move to the young end.\<close>

definition aged_touch :: "int \<Rightarrow> 'k \<Rightarrow> ('k, 'v) aged \<Rightarrow> ('k, 'v) aged" where
  "aged_touch now k c =
     (case map_of c k of None \<Rightarrow> c
      | Some (v, t) \<Rightarrow> filter (\<lambda>e. fst e \<noteq> k) c @ [(k, v, now)])"

text \<open>Assignment to the mapped value through an iterator leaves stamp and order alone.\<close>

definition aged_assign :: "'k \<Rightarrow> 'v \<Rightarrow> ('k, 'v) aged \<Rightarrow> ('k, 'v) aged" where
  "aged_assign k v c = map (\<lambda>(k', v', t). (k', if k' = k then v else v', t)) c"

definition aged_erase :: "'k \<Rightarrow> ('k, 'v) aged \<Rightarrow> ('k, 'v) aged" where
  "aged_erase k c = filter (\<lambda>e. fst e \<noteq> k) c"

text \<open>\<open>expire\<close>: erase from the old end while the stamp is not after \<open>now - age\<close>. Returns the
  number of elements erased.\<close>

fun aged_expire_loop :: "int \<Rightarrow> ('k, 'v) aged \<Rightarrow> nat \<Rightarrow> ('k, 'v) aged \<times> nat" where
  "aged_expire_loop expired [] n = ([], n)"
| "aged_expire_loop expired (e # c) n =
     (if snd (snd e) \<le> expired then aged_expire_loop expired c (Suc n) else (e # c, n))"

definition aged_expire :: "int \<Rightarrow> int \<Rightarrow> ('k, 'v) aged \<Rightarrow> ('k, 'v) aged \<times> nat" where
  "aged_expire now age c = aged_expire_loop (now - age) c 0"

section \<open>Invariant\<close>

text \<open>Keys are unique, the list is in time order, and no element is younger than the clock.\<close>

definition aged_ok :: "int \<Rightarrow> ('k, 'v) aged \<Rightarrow> bool" where
  "aged_ok now c = (distinct (map fst c) \<and> sorted (map (snd \<circ> snd) c) \<and>
     (\<forall>e \<in> set c. snd (snd e) \<le> now))"

lemma aged_ok_Nil [simp]: "aged_ok now []"
  by (simp add: aged_ok_def)

lemma aged_ok_later: "aged_ok now c \<Longrightarrow> now \<le> now' \<Longrightarrow> aged_ok now' c"
  by (auto simp: aged_ok_def)

lemma aged_ok_filter [wf_intros]: "aged_ok now c \<Longrightarrow> aged_ok now (filter P c)"
  by (auto simp: aged_ok_def distinct_map_filter sorted_filter)

lemma aged_ok_snoc:
  "aged_ok now c \<Longrightarrow> k \<notin> aged_keys c \<Longrightarrow> aged_ok now (c @ [(k, v, now)])"
  by (auto simp: aged_ok_def aged_keys_def sorted_append)

lemma map_of_None_keys: "map_of c k = None \<longleftrightarrow> k \<notin> aged_keys c"
  by (simp add: map_of_eq_None_iff aged_keys_def)

lemma aged_emplace_ok [wf_intros]:
  "aged_ok now c \<Longrightarrow> aged_ok now (fst (aged_emplace now k v c))"
  by (auto simp: aged_emplace_def map_of_None_keys intro: aged_ok_snoc split: option.split)

lemma aged_touch_ok [wf_intros]: "aged_ok now c \<Longrightarrow> aged_ok now (aged_touch now k c)"
  by (auto simp: aged_touch_def aged_keys_def intro!: aged_ok_snoc aged_ok_filter split: option.split)

lemma map_fst_assign: "map fst (aged_assign k v c) = map fst c"
  by (induction c) (auto simp: aged_assign_def)

lemma map_stamp_assign: "map (snd \<circ> snd) (aged_assign k v c) = map (snd \<circ> snd) c"
  by (induction c) (auto simp: aged_assign_def)

lemma aged_assign_ok [wf_intros]: "aged_ok now c \<Longrightarrow> aged_ok now (aged_assign k v c)"
proof -
  assume ok: "aged_ok now c"
  then have "\<forall>e \<in> set (aged_assign k v c). snd (snd e) \<le> now"
    by (auto simp: aged_ok_def aged_assign_def)
  with ok show ?thesis by (simp add: aged_ok_def map_fst_assign map_stamp_assign)
qed

lemma aged_erase_ok [wf_intros]: "aged_ok now c \<Longrightarrow> aged_ok now (aged_erase k c)"
  by (simp add: aged_erase_def aged_ok_filter)

section \<open>Lookup laws\<close>

lemma aged_find_emplace:
  "aged_find k' (fst (aged_emplace now k v c)) =
     (if k' = k \<and> aged_find k c = None then Some v else aged_find k' c)"
  by (auto simp: aged_emplace_def aged_find_def map_add_def split: option.split)

lemma aged_find_touch: "aged_find k' (aged_touch now k c) = aged_find k' c"
proof (cases "map_of c k")
  case None
  then show ?thesis by (simp add: aged_touch_def)
next
  case (Some p)
  have "map_of (filter (\<lambda>e. fst e \<noteq> k) c) k' = (if k' = k then None else map_of c k')"
    by (induction c) auto
  with Some show ?thesis
    by (cases p) (auto simp: aged_touch_def aged_find_def map_add_def split: option.split)
qed

lemma aged_find_erase: "aged_find k' (aged_erase k c) = (if k' = k then None else aged_find k' c)"
  by (induction c) (auto simp: aged_erase_def aged_find_def)

lemma aged_find_assign:
  "aged_find k' (aged_assign k v c) =
     (if k' = k \<and> aged_find k c \<noteq> None then Some v else aged_find k' c)"
  by (induction c) (auto simp: aged_assign_def aged_find_def)

section \<open>Expiry\<close>

lemma aged_expire_loop_dropWhile:
  "fst (aged_expire_loop expired c n) = dropWhile (\<lambda>e. snd (snd e) \<le> expired) c"
  by (induction expired c n rule: aged_expire_loop.induct) simp_all

lemma dropWhile_sorted_filter:
  "sorted (map (snd \<circ> snd) c) \<Longrightarrow>
     dropWhile (\<lambda>e. snd (snd e) \<le> t) c = filter (\<lambda>e. \<not> snd (snd e) \<le> t) c"
proof (induction c)
  case Nil
  then show ?case by simp
next
  case (Cons e c)
  then have "filter (\<lambda>e. \<not> snd (snd e) \<le> t) c = c" if "\<not> snd (snd e) \<le> t"
    using that by (auto simp: filter_id_conv)
  with Cons show ?case by simp
qed

text \<open>On a container in time order the early exit of the loop loses nothing: exactly the elements
  at least \<open>age\<close> old are erased.\<close>

lemma aged_expire_filter:
  "aged_ok now c \<Longrightarrow> fst (aged_expire now age c) = filter (\<lambda>e. now - age < snd (snd e)) c"
  by (simp add: aged_expire_def aged_expire_loop_dropWhile aged_ok_def dropWhile_sorted_filter
      not_le)

lemma aged_expire_ok [wf_intros]: "aged_ok now c \<Longrightarrow> aged_ok now (fst (aged_expire now age c))"
  by (simp add: aged_expire_filter aged_ok_filter)

lemma aged_expire_count:
  "snd (aged_expire_loop expired c n) + length (fst (aged_expire_loop expired c n)) = n + length c"
  by (induction expired c n rule: aged_expire_loop.induct) simp_all

text \<open>
  Expiry of an aged container erases exactly the elements that are at least the given age,
  although its loop stops at the first young one, and reports how many it erased.
\<close>

theorem aged_expire_exact:
  assumes "aged_ok now c"
  shows "fst (aged_expire now age c) = filter (\<lambda>e. now - age < snd (snd e)) c \<and>
    snd (aged_expire now age c) = length (filter (\<lambda>e. snd (snd e) \<le> now - age) c)"
proof -
  have "length (filter (\<lambda>e. snd (snd e) \<le> now - age) c) + length (filter (\<lambda>e. now - age < snd (snd e)) c) = length c"
    using sum_length_filter_compl [of "\<lambda>e. snd (snd e) \<le> now - age" c] by (simp add: not_le)
  moreover have "snd (aged_expire now age c) + length (fst (aged_expire now age c)) = length c"
    using aged_expire_count [of "now - age" c 0] by (simp add: aged_expire_def)
  ultimately show ?thesis using aged_expire_filter [OF assms, of age] by simp
qed

theorem aged_expire_exact_witness:
  "aged_ok 20 [(''a'', True, 3), (''b'', False, 15)] \<and>
   fst (aged_expire 20 10 [(''a'', True, 3), (''b'', False, 15)]) = [(''b'', False, 15)]"
  using aged_expire_exact [of 20 "[(''a'', True, 3), (''b'', False, 15)]" 10] by (simp add: aged_ok_def aged_keys_def)

end
