(* ===== verification/PF_Types.thy ===== *)
theory PF_Types
  imports Complex_Main Chrono IPAddress AgedContainer
begin

text \<open>
  Data of the PeerFinder (\<open>src/ripple/peerfinder\<close>): tuning constants, configuration,
  endpoints with hop counts, slots (\<open>impl/SlotImp.h\<close>, \<open>SlotImp.cpp\<close>) and fixed
  peers (\<open>impl/Fixed.h\<close>). A failed \<open>assert\<close> is the error \<open>PfAssert\<close>, an
  index outside an array is \<open>PfIndex\<close>, the exception for a fixed peer without port is
  \<open>PfNoPort\<close>, a use of an iterator to an erased element is \<open>PfDangling\<close>, a loop that does not end is
  \<open>PfDiverges\<close>. Counters kept as \<open>int\<close> or \<open>size_t\<close> in the source are
  integers here; that they stay within the number of slots is a theorem about them. The finite
  \<open>double\<close> values of the configuration are rationals.
\<close>

datatype pf_error = PfAssert | PfIndex | PfNoPort | PfDangling | PfDiverges

definition pf_assert :: "bool \<Rightarrow> (pf_error, unit) result" where
  "pf_assert b = (if b then Inr () else Inl PfAssert)"

lemma pf_assert_simps [simp]:
  "pf_assert True = Inr ()" "pf_assert False = Inl PfAssert" "pf_assert b = Inr u \<longleftrightarrow> b"
  by (auto simp: pf_assert_def)

section \<open>Tuning\<close>

definition maxConnectAttempts :: int where "maxConnectAttempts = 20"
definition maxRedirects :: nat where "maxRedirects = 30"
definition connectionBackoff :: "int list" where "connectionBackoff = [1, 1, 2, 3, 5, 8, 13, 21, 34, 55]"
definition bootcacheSize :: nat where "bootcacheSize = 1000"
definition bootcachePrunePercent :: nat where "bootcachePrunePercent = 10"
definition bootcacheCooldownTime :: int where "bootcacheCooldownTime = 60"
definition maxHops :: int where "maxHops = 6"
definition numberOfEndpoints :: nat where "numberOfEndpoints = nat (2 * maxHops)"
definition redirectEndpointCount :: nat where "redirectEndpointCount = 10"
definition secondsPerMessage :: int where "secondsPerMessage = 5"
definition liveCacheSecondsToLive :: int where "liveCacheSecondsToLive = 30"
definition recentAttemptDuration :: int where "recentAttemptDuration = 60"

lemmas pf_tuning_defs = maxConnectAttempts_def maxRedirects_def connectionBackoff_def bootcacheSize_def
  bootcachePrunePercent_def bootcacheCooldownTime_def maxHops_def numberOfEndpoints_def
  redirectEndpointCount_def secondsPerMessage_def liveCacheSecondsToLive_def recentAttemptDuration_def

section \<open>Configuration, endpoints, results\<close>

record Config =
  cf_maxPeers :: int
  cf_outPeers :: rat
  cf_peerPrivate :: bool
  cf_wantIncoming :: bool
  cf_autoConnect :: bool
  cf_listeningPort :: Port
  cf_features :: string

text \<open>The default: 21 peers, of which 15 percent is less than the minimum of 10 outbound ones.\<close>

definition Config_default :: Config where
  "Config_default = \<lparr>cf_maxPeers = 21, cf_outPeers = 10, cf_peerPrivate = True, cf_wantIncoming = True,
     cf_autoConnect = True, cf_listeningPort = 0, cf_features = []\<rparr>"

record Endpoint =
  hops :: int
  pe_address :: IPEndpoint

definition Endpoint_of :: "IPEndpoint \<Rightarrow> int \<Rightarrow> Endpoint" where
  "Endpoint_of ep h = \<lparr>hops = h, pe_address = ep\<rparr>"

datatype Result = Result_duplicate | Result_full | Result_success

section \<open>Slots\<close>

datatype SlotState = accept | connect | connected | active | closing

type_synonym RipplePublicKey = "8 word list"

record SlotImp =
  m_inbound :: bool
  m_fixed :: bool
  m_cluster :: bool
  m_state :: SlotState
  m_remote_endpoint :: IPEndpoint
  m_local_endpoint :: "IPEndpoint option"
  m_public_key :: "RipplePublicKey option"
  m_listening_port :: int
  recent :: "(IPEndpoint, int) aged"
  checked :: bool
  canAccept :: bool
  connectivityCheckInProgress :: bool
  whenAcceptEndpoints :: int

definition unknownPort :: int where "unknownPort = -1"

definition SlotImp_inbound :: "IPEndpoint \<Rightarrow> IPEndpoint \<Rightarrow> bool \<Rightarrow> SlotImp" where
  "SlotImp_inbound local_endpoint remote_endpoint fixed =
     \<lparr>m_inbound = True, m_fixed = fixed, m_cluster = False, m_state = accept,
      m_remote_endpoint = remote_endpoint, m_local_endpoint = Some local_endpoint, m_public_key = None,
      m_listening_port = unknownPort, recent = [], checked = False, canAccept = False,
      connectivityCheckInProgress = False, whenAcceptEndpoints = 0\<rparr>"

definition SlotImp_outbound :: "IPEndpoint \<Rightarrow> bool \<Rightarrow> SlotImp" where
  "SlotImp_outbound remote_endpoint fixed =
     \<lparr>m_inbound = False, m_fixed = fixed, m_cluster = False, m_state = connect,
      m_remote_endpoint = remote_endpoint, m_local_endpoint = None, m_public_key = None,
      m_listening_port = unknownPort, recent = [], checked = True, canAccept = True,
      connectivityCheckInProgress = False, whenAcceptEndpoints = 0\<rparr>"

definition listening_port :: "SlotImp \<Rightarrow> Port option" where
  "listening_port s = (if m_listening_port s = unknownPort then None else Some (of_int (m_listening_port s)))"

definition set_listening_port :: "Port \<Rightarrow> SlotImp \<Rightarrow> SlotImp" where
  "set_listening_port p s = s\<lparr>m_listening_port := int (unat p)\<rparr>"

text \<open>\<open>SlotImp::state\<close>: the transitions outside of activation.\<close>

definition slot_state :: "SlotState \<Rightarrow> SlotImp \<Rightarrow> (pf_error, SlotImp) result" where
  "slot_state st s =
     bind_r (pf_assert (st \<noteq> active)) (\<lambda>_.
     bind_r (pf_assert (st \<noteq> m_state s)) (\<lambda>_.
     bind_r (pf_assert (st \<noteq> accept \<and> st \<noteq> connect)) (\<lambda>_.
     bind_r (pf_assert (st \<noteq> connected \<or> \<not> m_inbound s \<and> m_state s = connect)) (\<lambda>_.
     bind_r (pf_assert (st \<noteq> closing \<or> m_state s \<noteq> connect)) (\<lambda>_.
       Inr (s\<lparr>m_state := st\<rparr>))))))"

definition slot_activate :: "int \<Rightarrow> SlotImp \<Rightarrow> (pf_error, SlotImp) result" where
  "slot_activate now s =
     bind_r (pf_assert (m_state s = accept \<or> m_state s = connected)) (\<lambda>_.
       Inr (s\<lparr>m_state := active, whenAcceptEndpoints := now\<rparr>))"

text \<open>The endpoints recently seen from or sent to the peer.\<close>

definition recent_insert :: "int \<Rightarrow> IPEndpoint \<Rightarrow> int \<Rightarrow> (IPEndpoint, int) aged \<Rightarrow> (IPEndpoint, int) aged" where
  "recent_insert now ep h c =
     (let (c1, inserted) = aged_emplace now ep h c
      in if inserted then c1
         else case aged_find ep c1 of None \<Rightarrow> c1
           | Some old \<Rightarrow> if h \<le> old then aged_touch now ep (aged_assign ep h c1) else c1)"

definition recent_filter :: "IPEndpoint \<Rightarrow> int \<Rightarrow> (IPEndpoint, int) aged \<Rightarrow> bool" where
  "recent_filter ep h c = (case aged_find ep c of None \<Rightarrow> False | Some old \<Rightarrow> old \<le> h)"

definition recent_expire :: "Stopwatch \<Rightarrow> (IPEndpoint, int) aged \<Rightarrow> (IPEndpoint, int) aged" where
  "recent_expire clk c = fst (aged_expire (sw_now clk) (seconds clk liveCacheSecondsToLive) c)"

definition slot_expire :: "Stopwatch \<Rightarrow> SlotImp \<Rightarrow> SlotImp" where
  "slot_expire clk s = s\<lparr>recent := recent_expire clk (recent s)\<rparr>"

section \<open>Fixed peers\<close>

record Fixed =
  fx_when :: int
  fx_failures :: nat

definition Fixed_at :: "int \<Rightarrow> Fixed" where
  "Fixed_at now = \<lparr>fx_when = now, fx_failures = 0\<rparr>"

definition fixed_failure :: "Stopwatch \<Rightarrow> Fixed \<Rightarrow> Fixed" where
  "fixed_failure clk f =
     (let n = min (fx_failures f + 1) (length connectionBackoff - 1)
      in \<lparr>fx_when = sw_now clk + seconds clk (60 * connectionBackoff ! n), fx_failures = n\<rparr>)"

definition fixed_success :: "int \<Rightarrow> Fixed \<Rightarrow> Fixed" where
  "fixed_success now f = \<lparr>fx_when = now, fx_failures = 0\<rparr>"

section \<open>Lemmas\<close>

text \<open>The back-off index stays inside the table and the wait is between one and 55 minutes.\<close>

fun failures :: "Stopwatch list \<Rightarrow> Fixed \<Rightarrow> Fixed" where
  "failures [] f = f"
| "failures (clk # clks) f = failures clks (fixed_failure clk f)"

lemma fixed_failure_index: "fx_failures (fixed_failure clk f) < length connectionBackoff"
  by (simp add: fixed_failure_def Let_def connectionBackoff_def)

lemma failures_index: "fx_failures f < length connectionBackoff \<Longrightarrow> fx_failures (failures clks f) =
    min (fx_failures f + length clks) (length connectionBackoff - 1)"
proof (induction clks arbitrary: f)
  case Nil
  then show ?case by simp
next
  case (Cons clk clks)
  then show ?case using fixed_failure_index [of clk f]
    by (simp add: fixed_failure_def Let_def)
qed

lemma recent_insert_ok [wf_intros]: "aged_ok now c \<Longrightarrow> aged_ok now (recent_insert now ep h c)"
  by (auto simp: recent_insert_def case_prod_unfold Let_def intro: wf_intros split: option.split)

text \<open>After an endpoint was recorded at some hop count it is filtered at that count and above.\<close>

lemma recent_filter_insert: "recent_filter ep h (recent_insert now ep h c)"
proof (cases "aged_find ep c")
  case None
  then have "aged_emplace now ep h c = (c @ [(ep, h, now)], True)"
    by (auto simp: aged_emplace_def aged_find_def split: option.split)
  with None show ?thesis
    by (simp add: recent_filter_def recent_insert_def aged_find_def map_add_def)
next
  case (Some old)
  then have "aged_emplace now ep h c = (c, False)"
    by (auto simp: aged_emplace_def aged_find_def split: option.split)
  with Some show ?thesis
    by (simp add: recent_filter_def recent_insert_def aged_find_touch aged_find_assign)
qed

end
