(* ===== verification/PF_Counts.thy ===== *)
theory PF_Counts
  imports PF_Types
begin

text \<open>
  \<open>PeerFinder::Counts\<close> (\<open>src/ripple/peerfinder/impl/Counts.h\<close>): the counters of
  connection attempts and of occupied slots, and their specification: each counter is the number of
  slots with a property.
\<close>

section \<open>State and queries\<close>

record Counts =
  m_attempts :: int
  m_active :: int
  m_in_max :: int
  m_in_active :: int
  m_out_max :: int
  m_out_active :: int
  m_fixed_count :: int
  m_fixed_active :: int
  m_cluster_count :: int
  m_acceptCount :: int
  m_closingCount :: int
  m_roundingThreshold :: rat

definition Counts_init :: "rat \<Rightarrow> Counts" where
  "Counts_init r = \<lparr>m_attempts = 0, m_active = 0, m_in_max = 0, m_in_active = 0, m_out_max = 0,
     m_out_active = 0, m_fixed_count = 0, m_fixed_active = 0, m_cluster_count = 0, m_acceptCount = 0,
     m_closingCount = 0, m_roundingThreshold = r\<rparr>"

definition can_activate :: "SlotImp \<Rightarrow> Counts \<Rightarrow> (pf_error, bool) result" where
  "can_activate s c =
     bind_r (pf_assert (m_state s = connected \<or> m_state s = accept)) (\<lambda>_.
       Inr (if m_fixed s \<or> m_cluster s then True
            else if m_inbound s then m_in_active c < m_in_max c
            else m_out_active c < m_out_max c))"

definition attempts_needed :: "Counts \<Rightarrow> nat" where
  "attempts_needed c = (if m_attempts c \<ge> maxConnectAttempts then 0
     else nat (maxConnectAttempts - m_attempts c))"

definition totalActive :: "Counts \<Rightarrow> int" where
  "totalActive c = m_in_active c + m_out_active c"

definition inboundSlotsFree :: "Counts \<Rightarrow> int" where
  "inboundSlotsFree c = (if m_in_active c < m_in_max c then m_in_max c - m_in_active c else 0)"

definition outboundSlotsFree :: "Counts \<Rightarrow> int" where
  "outboundSlotsFree c = (if m_out_active c < m_out_max c then m_out_max c - m_out_active c else 0)"

definition isConnectedToNetwork :: "Counts \<Rightarrow> bool" where
  "isConnectedToNetwork c = (if m_out_max c > 0 then False else True)"

definition int_text :: "int \<Rightarrow> string" where
  "int_text n = (if n < 0 then CHR ''-'' # dec_string (nat (- n)) else dec_string (nat n))"

definition state_string :: "Counts \<Rightarrow> string" where
  "state_string c =
     int_text (m_out_active c) @ ''/'' @ int_text (m_out_max c) @ '' out, '' @
     int_text (m_in_active c) @ ''/'' @ int_text (m_in_max c) @ '' in, '' @
     int_text (m_attempts c) @ '' connecting, '' @
     int_text (m_closingCount c) @ '' closing''"

definition counts_onWrite :: "Counts \<Rightarrow> (string \<times> string) list" where
  "counts_onWrite c =
     [(''accept'', int_text (m_acceptCount c)), (''connect'', int_text (m_attempts c)),
      (''close'', int_text (m_closingCount c)),
      (''in'', int_text (m_in_active c) @ ''/'' @ int_text (m_in_max c)),
      (''out'', int_text (m_out_active c) @ ''/'' @ int_text (m_out_max c)),
      (''fixed'', int_text (m_fixed_active c)), (''cluster'', int_text (m_cluster_count c)),
      (''total'', int_text (m_active c))]"

section \<open>Updates\<close>

text \<open>The number of outbound peers is rounded up when the fractional part of the configured value
  exceeds the node's threshold. \<open>maxPeers\<close> is an \<open>int\<close> that the comparison and the
  assignments convert to \<open>size_t\<close>.\<close>

definition onConfig :: "Config \<Rightarrow> Counts \<Rightarrow> Counts" where
  "onConfig config c =
     (let out1 = (if cf_wantIncoming config
                  then let f = \<lfloor>cf_outPeers config\<rfloor>
                       in if m_roundingThreshold c < cf_outPeers config - of_int f then f + 1 else f
                  else int (to_size_t (cf_maxPeers config)));
          mp = int (to_size_t (cf_maxPeers config));
          in1 = (if mp \<ge> out1 then mp - out1 else 0)
      in c\<lparr>m_out_max := out1, m_in_max := in1\<rparr>)"

definition adjust :: "SlotImp \<Rightarrow> int \<Rightarrow> Counts \<Rightarrow> (pf_error, Counts) result" where
  "adjust s n c0 =
     (let c1 = (if m_fixed s then c0\<lparr>m_fixed_count := m_fixed_count c0 + n\<rparr> else c0);
          c2 = (if m_cluster s then c1\<lparr>m_cluster_count := m_cluster_count c1 + n\<rparr> else c1)
      in case m_state s of
           accept \<Rightarrow> bind_r (pf_assert (m_inbound s)) (\<lambda>_. Inr (c2\<lparr>m_acceptCount := m_acceptCount c2 + n\<rparr>))
         | connect \<Rightarrow> bind_r (pf_assert (\<not> m_inbound s)) (\<lambda>_. Inr (c2\<lparr>m_attempts := m_attempts c2 + n\<rparr>))
         | connected \<Rightarrow> bind_r (pf_assert (\<not> m_inbound s)) (\<lambda>_. Inr (c2\<lparr>m_attempts := m_attempts c2 + n\<rparr>))
         | active \<Rightarrow>
             let c3 = (if m_fixed s then c2\<lparr>m_fixed_active := m_fixed_active c2 + n\<rparr> else c2);
                 c4 = (if \<not> m_fixed s \<and> \<not> m_cluster s
                       then if m_inbound s then c3\<lparr>m_in_active := m_in_active c3 + n\<rparr>
                            else c3\<lparr>m_out_active := m_out_active c3 + n\<rparr>
                       else c3)
             in Inr (c4\<lparr>m_active := m_active c4 + n\<rparr>)
         | closing \<Rightarrow> Inr (c2\<lparr>m_closingCount := m_closingCount c2 + n\<rparr>))"

definition counts_add :: "SlotImp \<Rightarrow> Counts \<Rightarrow> (pf_error, Counts) result" where
  "counts_add s c = adjust s 1 c"

definition counts_remove :: "SlotImp \<Rightarrow> Counts \<Rightarrow> (pf_error, Counts) result" where
  "counts_remove s c = adjust s (-1) c"

section \<open>Specification\<close>

text \<open>Slots whose direction fits their state: the asserts of \<open>adjust\<close>.\<close>

definition slot_dir_ok :: "SlotImp \<Rightarrow> bool" where
  "slot_dir_ok s = ((m_state s = accept \<longrightarrow> m_inbound s) \<and>
     (m_state s = connect \<or> m_state s = connected \<longrightarrow> \<not> m_inbound s))"

definition tally :: "(SlotImp \<Rightarrow> bool) \<Rightarrow> SlotImp multiset \<Rightarrow> int" where
  "tally P M = int (size (filter_mset P M))"

definition is_attempt :: "SlotImp \<Rightarrow> bool" where
  "is_attempt s = (m_state s = connect \<or> m_state s = connected)"

definition counted_in :: "SlotImp \<Rightarrow> bool" where
  "counted_in s = (m_state s = active \<and> m_inbound s \<and> \<not> m_fixed s \<and> \<not> m_cluster s)"

definition counted_out :: "SlotImp \<Rightarrow> bool" where
  "counted_out s = (m_state s = active \<and> \<not> m_inbound s \<and> \<not> m_fixed s \<and> \<not> m_cluster s)"

definition counts_exact :: "SlotImp multiset \<Rightarrow> Counts \<Rightarrow> bool" where
  "counts_exact M c =
     (m_attempts c = tally is_attempt M \<and>
      m_active c = tally (\<lambda>s. m_state s = active) M \<and>
      m_in_active c = tally counted_in M \<and>
      m_out_active c = tally counted_out M \<and>
      m_fixed_count c = tally m_fixed M \<and>
      m_fixed_active c = tally (\<lambda>s. m_state s = active \<and> m_fixed s) M \<and>
      m_cluster_count c = tally m_cluster M \<and>
      m_acceptCount c = tally (\<lambda>s. m_state s = accept) M \<and>
      m_closingCount c = tally (\<lambda>s. m_state s = closing) M)"

lemma tally_simps [simp]:
  "tally P {#} = 0" "tally P (add_mset s M) = tally P M + (if P s then 1 else 0)"
  by (simp_all add: tally_def)

lemma tally_bounds: "0 \<le> tally P M" "tally P M \<le> int (size M)"
  by (simp_all add: tally_def size_filter_mset_lesseq)

lemma counts_exact_init [simp]: "counts_exact {#} (Counts_init r)"
  by (simp add: counts_exact_def Counts_init_def)

lemma counts_exact_onConfig [simp]: "counts_exact M (onConfig config c) = counts_exact M c"
  by (simp add: counts_exact_def onConfig_def Let_def)

lemma counts_add_exact:
  assumes "counts_exact M c" "slot_dir_ok s"
  shows "\<exists>c'. counts_add s c = Inr c' \<and> counts_exact (add_mset s M) c' \<and>
    m_in_max c' = m_in_max c \<and> m_out_max c' = m_out_max c"
  using assms
  by (cases "m_state s")
    (simp_all add: counts_add_def adjust_def counts_exact_def slot_dir_ok_def Let_def is_attempt_def
      counted_in_def counted_out_def)

lemma counts_remove_exact:
  assumes "counts_exact (add_mset s M) c" "slot_dir_ok s"
  shows "\<exists>c'. counts_remove s c = Inr c' \<and> counts_exact M c' \<and>
    m_in_max c' = m_in_max c \<and> m_out_max c' = m_out_max c"
  using assms
  by (cases "m_state s")
    (simp_all add: counts_remove_def adjust_def counts_exact_def slot_dir_ok_def Let_def is_attempt_def
      counted_in_def counted_out_def)

text \<open>
  A slot can be added to and removed from the counters when its direction fits its state; then
  every counter is again the number of slots with its property, so none goes negative or exceeds the
  number of slots, and the limits are untouched.
\<close>

theorem counts_track_slots:
  assumes "counts_exact M c" "slot_dir_ok s"
  shows "\<exists>c1 c2. counts_add s c = Inr c1 \<and> counts_exact (add_mset s M) c1 \<and>
    counts_remove s c1 = Inr c2 \<and> c2 = c \<and> 0 \<le> m_in_active c1 \<and> m_active c1 \<le> int (size M) + 1"
proof -
  from counts_add_exact [OF assms] obtain c1 where c1: "counts_add s c = Inr c1" "counts_exact (add_mset s M) c1"
    by blast
  from counts_remove_exact [OF c1(2) assms(2)] obtain c2 where c2: "counts_remove s c1 = Inr c2" by blast
  have "c2 = c"
    using c1(1) c2 by (cases "m_state s")
      (auto simp: counts_add_def counts_remove_def adjust_def Let_def bind_r_eq_Inr_iff split: if_splits)
  moreover have "0 \<le> m_in_active c1" "m_active c1 \<le> int (size M) + 1"
    using c1(2) tally_bounds(1) [of counted_in "add_mset s M"]
      tally_bounds(2) [of "\<lambda>s. m_state s = active" "add_mset s M"]
    by (simp_all add: counts_exact_def split: if_splits)
  ultimately show ?thesis using c1 c2 by blast
qed

theorem counts_track_slots_witness:
  "\<exists>c1 c2. counts_add (SlotImp_outbound unspecified_endpoint False) (Counts_init 0) = Inr c1 \<and>
     counts_remove (SlotImp_outbound unspecified_endpoint False) c1 = Inr c2 \<and> c2 = Counts_init 0"
  using counts_track_slots [OF counts_exact_init [of 0], of "SlotImp_outbound unspecified_endpoint False"]
  by (auto simp: slot_dir_ok_def SlotImp_outbound_def)

text \<open>
  For a configuration with incoming connections and a whole or fractional number of outbound
  peers, the outbound limit is that number rounded down or up, rounded up exactly when the node's
  threshold is below its fractional part, and the two limits never exceed the configured number of
  peers unless the outbound limit alone does.
\<close>

theorem onConfig_limits:
  assumes "0 \<le> cf_outPeers config" "0 \<le> m_roundingThreshold c" "0 \<le> cf_maxPeers config"
    "cf_maxPeers config < 2 ^ 31" "cf_wantIncoming config"
  shows "m_out_max (onConfig config c) =
      (if m_roundingThreshold c < frac (cf_outPeers config) then \<lceil>cf_outPeers config\<rceil> else \<lfloor>cf_outPeers config\<rfloor>) \<and>
    0 \<le> m_in_max (onConfig config c) \<and>
    m_in_max (onConfig config c) + m_out_max (onConfig config c) =
      max (cf_maxPeers config) (m_out_max (onConfig config c))"
proof -
  let ?x = "cf_outPeers config" and ?t = "m_roundingThreshold c"
  have mp: "int (to_size_t (cf_maxPeers config)) = cf_maxPeers config" using assms(3,4) by simp
  have up: "\<lfloor>?x\<rfloor> + 1 = \<lceil>?x\<rceil>" if "?t < frac ?x"
    using that assms(2) by (simp add: ceiling_altdef frac_def)
  show ?thesis
  proof (cases "?t < frac ?x")
    case True
    then show ?thesis using up [OF True] assms(5) by (simp add: onConfig_def Let_def mp frac_def max_def)
  next
    case False
    then show ?thesis using assms(5) by (simp add: onConfig_def Let_def mp frac_def max_def)
  qed
qed

theorem onConfig_limits_witness:
  "m_out_max (onConfig (Config_default\<lparr>cf_outPeers := 93 / 10\<rparr>) (Counts_init (1 / 4))) = 10 \<and>
   m_in_max (onConfig (Config_default\<lparr>cf_outPeers := 93 / 10\<rparr>) (Counts_init (1 / 4))) = 11"
proof -
  have "\<lfloor>93 / 10 :: rat\<rfloor> = 9" "\<lceil>93 / 10 :: rat\<rceil> = 10"
    by (rule floor_unique, simp_all) (rule ceiling_unique, simp_all)
  then have "m_out_max (onConfig (Config_default\<lparr>cf_outPeers := 93 / 10\<rparr>) (Counts_init (1 / 4))) = 10"
    using onConfig_limits [of "Config_default\<lparr>cf_outPeers := 93 / 10\<rparr>" "Counts_init (1 / 4)"]
    by (simp add: Config_default_def Counts_init_def frac_def)
  then show ?thesis
    using onConfig_limits [of "Config_default\<lparr>cf_outPeers := 93 / 10\<rparr>" "Counts_init (1 / 4)"]
    by (simp add: Config_default_def Counts_init_def)
qed

end
