(* ===== verification/PF_Bootcache.thy ===== *)
theory PF_Bootcache
  imports PF_Types
begin

text \<open>
  \<open>PeerFinder::Bootcache\<close> (\<open>src/ripple/peerfinder/impl/Bootcache.h\<close>,
  \<open>Bootcache.cpp\<close>) and its database (\<open>impl/StoreSqdb.h\<close>): addresses with a valence,
  the number of consecutive successes or, negative, failures. The bimap is modelled by its right view:
  a list in decreasing valence, an element after those of equal valence inserted before it; its left
  view makes the addresses unique. The database table is the list of its rows.
\<close>

section \<open>The ranked map\<close>

type_synonym ranking = "(IPEndpoint \<times> int) list"

definition bimap_insert :: "IPEndpoint \<Rightarrow> int \<Rightarrow> ranking \<Rightarrow> ranking \<times> bool" where
  "bimap_insert ep v m =
     (if map_of m ep \<noteq> None then (m, False)
      else (takeWhile (\<lambda>e. v \<le> snd e) m @ (ep, v) # dropWhile (\<lambda>e. v \<le> snd e) m, True))"

definition bimap_erase :: "IPEndpoint \<Rightarrow> ranking \<Rightarrow> ranking" where
  "bimap_erase ep m = filter (\<lambda>e. fst e \<noteq> ep) m"

section \<open>The cache\<close>

record Bootcache =
  bc_map :: ranking
  bc_rows :: "(string \<times> int) list"
  bc_whenUpdate :: int
  bc_needsUpdate :: bool

definition Bootcache_init :: "int \<Rightarrow> (string \<times> int) list \<Rightarrow> Bootcache" where
  "Bootcache_init now rows = \<lparr>bc_map = [], bc_rows = rows, bc_whenUpdate = now, bc_needsUpdate = False\<rparr>"

definition bootcache_clear :: "Bootcache \<Rightarrow> Bootcache" where
  "bootcache_clear b = b\<lparr>bc_map := [], bc_needsUpdate := True\<rparr>"

text \<open>\<open>prune\<close> erases from the low end of the ranking.\<close>

fun prune_loop :: "nat \<Rightarrow> ranking \<Rightarrow> ranking" where
  "prune_loop 0 m = m"
| "prune_loop (Suc n) m = (if m = [] then m else prune_loop n (butlast m))"

definition prune :: "Bootcache \<Rightarrow> Bootcache" where
  "prune b =
     (let size = length (bc_map b)
      in if size \<le> bootcacheSize then b
         else b\<lparr>bc_map := prune_loop ((size * bootcachePrunePercent) div 100) (bc_map b)\<rparr>)"

text \<open>\<open>StoreSqdb::save\<close> overwrites the table.\<close>

definition store_save :: "ranking \<Rightarrow> (string \<times> int) list" where
  "store_save m = map (\<lambda>(ep, v). (endpoint_to_string ep, v)) m"

definition bootcache_update :: "Stopwatch \<Rightarrow> Bootcache \<Rightarrow> Bootcache" where
  "bootcache_update clk b =
     (if \<not> bc_needsUpdate b then b
      else b\<lparr>bc_rows := store_save (bc_map b), bc_needsUpdate := False,
             bc_whenUpdate := sw_now clk + seconds clk bootcacheCooldownTime\<rparr>)"

definition checkUpdate :: "Stopwatch \<Rightarrow> Bootcache \<Rightarrow> Bootcache" where
  "checkUpdate clk b =
     (if bc_needsUpdate b \<and> bc_whenUpdate b < sw_now clk then bootcache_update clk b else b)"

definition flagForUpdate :: "Stopwatch \<Rightarrow> Bootcache \<Rightarrow> Bootcache" where
  "flagForUpdate clk b = checkUpdate clk (b\<lparr>bc_needsUpdate := True\<rparr>)"

text \<open>\<open>StoreSqdb::load\<close> calls back for every row whose address parses and counts them; the
  callback of \<open>Bootcache::load\<close> inserts it.\<close>

fun store_load :: "(string \<times> int) list \<Rightarrow> ranking \<Rightarrow> nat \<Rightarrow> ranking \<times> nat" where
  "store_load [] m n = (m, n)"
| "store_load ((s, v) # rows) m n =
     (let ep = from_string s
      in if \<not> is_unspecified (ep_address ep) then store_load rows (fst (bimap_insert ep v m)) (Suc n)
         else store_load rows m n)"

definition bootcache_load :: "Bootcache \<Rightarrow> Bootcache" where
  "bootcache_load b =
     (let b1 = bootcache_clear b; (m, n) = store_load (bc_rows b1) (bc_map b1) 0;
          b2 = b1\<lparr>bc_map := m\<rparr>
      in if n > 0 then prune b2 else b2)"

definition bootcache_insert :: "Stopwatch \<Rightarrow> IPEndpoint \<Rightarrow> Bootcache \<Rightarrow> Bootcache \<times> bool" where
  "bootcache_insert clk ep b =
     (let (m, inserted) = bimap_insert ep 0 (bc_map b); b1 = b\<lparr>bc_map := m\<rparr>
      in if inserted then (flagForUpdate clk (prune b1), True) else (b1, False))"

text \<open>
  \<open>on_success\<close> and \<open>on_failure\<close> read the entry again after a new one was inserted and
  the cache pruned: when the pruning erased it, the iterator dangles.
\<close>

definition bootcache_record ::
  "(int \<Rightarrow> int) \<Rightarrow> int \<Rightarrow> Stopwatch \<Rightarrow> IPEndpoint \<Rightarrow> Bootcache \<Rightarrow> (pf_error, Bootcache) result" where
  "bootcache_record step v0 clk ep b =
     (let (m, inserted) = bimap_insert ep v0 (bc_map b); b1 = b\<lparr>bc_map := m\<rparr>
      in bind_r
           (if inserted then Inr (prune b1)
            else case map_of (bc_map b1) ep of None \<Rightarrow> Inl PfDangling
              | Some v \<Rightarrow>
                  let (m2, ok) = bimap_insert ep (step v) (bimap_erase ep (bc_map b1))
                  in bind_r (pf_assert ok) (\<lambda>_. Inr (b1\<lparr>bc_map := m2\<rparr>)))
           (\<lambda>b2. if map_of (bc_map b2) ep = None then Inl PfDangling else Inr (flagForUpdate clk b2)))"

definition success_valence :: "int \<Rightarrow> int" where
  "success_valence v = (if v < 0 then 0 else v) + 1"

definition failure_valence :: "int \<Rightarrow> int" where
  "failure_valence v = (if v > 0 then 0 else v) - 1"

definition bootcache_on_success ::
  "Stopwatch \<Rightarrow> IPEndpoint \<Rightarrow> Bootcache \<Rightarrow> (pf_error, Bootcache) result" where
  "bootcache_on_success = bootcache_record success_valence 1"

definition bootcache_on_failure ::
  "Stopwatch \<Rightarrow> IPEndpoint \<Rightarrow> Bootcache \<Rightarrow> (pf_error, Bootcache) result" where
  "bootcache_on_failure = bootcache_record failure_valence (-1)"

definition bootcache_periodicActivity :: "Stopwatch \<Rightarrow> Bootcache \<Rightarrow> Bootcache" where
  "bootcache_periodicActivity clk b = checkUpdate clk b"

section \<open>Invariant\<close>

definition ranking_ok :: "ranking \<Rightarrow> bool" where
  "ranking_ok m = (distinct (map fst m) \<and> sorted_wrt (\<ge>) (map snd m))"

definition bootcache_ok :: "Bootcache \<Rightarrow> bool" where
  "bootcache_ok b = (ranking_ok (bc_map b) \<and> length (bc_map b) \<le> bootcacheSize \<and>
     length (bc_rows b) \<le> bootcacheSize)"

lemma takeDrop_mset: "mset (takeWhile P m @ x # dropWhile P m) = add_mset x (mset m)"
  by simp (metis mset_append takeWhile_dropWhile_id)

lemma sorted_desc_filter: "sorted_wrt (\<ge>) (map snd m) \<Longrightarrow> sorted_wrt (\<ge>) (map snd (filter P m))"
  by (induction m) auto

lemma sorted_desc_split:
  fixes m :: "('a \<times> int) list"
  assumes "sorted_wrt (\<ge>) (map snd m)"
  shows "sorted_wrt (\<ge>) (map snd (takeWhile (\<lambda>e. v \<le> snd e) m @ (ep, v) # dropWhile (\<lambda>e. v \<le> snd e) m))"
  using assms
proof (induction m)
  case Nil
  then show ?case by simp
next
  case (Cons e m)
  have "\<forall>x \<in> set (takeWhile (\<lambda>e. v \<le> snd e) m @ (ep, v) # dropWhile (\<lambda>e. v \<le> snd e) m). snd x \<le> snd e"
    if "v \<le> snd e" using Cons.prems that by (auto dest: set_takeWhileD set_dropWhileD)
  with Cons show ?case by (cases "v \<le> snd e") auto
qed

lemma map_of_mset:
  assumes "distinct (map fst m)" "mset m' = mset m"
  shows "map_of m' = map_of m"
proof -
  have "distinct (map fst m')" using assms by (metis mset_map mset_eq_imp_distinct_iff)
  then show ?thesis using assms mset_eq_setD [OF assms(2)] map_of_inject_set by blast
qed

lemma map_of_filter_fst: "map_of (filter (\<lambda>e. fst e \<noteq> k) m) = (map_of m)(k := None)"
  by (induction m) auto

lemma bimap_insert_new:
  assumes "ranking_ok m" "map_of m ep = None"
  shows "\<exists>m'. bimap_insert ep v m = (m', True) \<and> ranking_ok m' \<and> length m' = Suc (length m) \<and>
    map_of m' = (map_of m)(ep \<mapsto> v)"
proof -
  let ?m = "takeWhile (\<lambda>e. v \<le> snd e) m @ (ep, v) # dropWhile (\<lambda>e. v \<le> snd e) m"
  have ms: "mset ?m = mset ((ep, v) # m)" using takeDrop_mset [of _ m "(ep, v)"] by simp
  have d: "distinct (map fst ((ep, v) # m))"
    using assms by (auto simp: ranking_ok_def map_of_eq_None_iff)
  have "distinct (map fst ?m)" using ms d by (metis mset_map mset_eq_imp_distinct_iff)
  moreover have "length ?m = Suc (length m)" using mset_eq_length [OF ms] by simp
  moreover have "map_of ?m = (map_of m)(ep \<mapsto> v)" using map_of_mset [OF d ms] by simp
  ultimately show ?thesis
    using assms sorted_desc_split [of m v ep] by (simp add: bimap_insert_def ranking_ok_def)
qed

lemma bimap_erase_ok: "ranking_ok m \<Longrightarrow> ranking_ok (bimap_erase ep m) \<and> map_of (bimap_erase ep m) = (map_of m)(ep := None)"
  by (auto simp: ranking_ok_def bimap_erase_def distinct_map_filter sorted_desc_filter map_of_filter_fst)

section \<open>The operations keep the invariant\<close>

lemma prune_loop_take: "prune_loop n m = take (length m - n) m"
  by (induction n m rule: prune_loop.induct) (auto simp: butlast_conv_take min_def)

lemma ranking_ok_take: "ranking_ok m \<Longrightarrow> ranking_ok (take n m)"
  by (metis append_take_drop_id distinct_append map_append ranking_ok_def sorted_wrt_append)

lemma prune_small [simp]: "length (bc_map b) \<le> bootcacheSize \<Longrightarrow> prune b = b"
  by (simp add: prune_def)

text \<open>One address too many: the last tenth of the ranking goes.\<close>

lemma prune_one_over:
  assumes "length (bc_map b) = Suc bootcacheSize"
  shows "prune b = b\<lparr>bc_map := take 901 (bc_map b)\<rparr>"
  using assms by (simp add: prune_def prune_loop_take pf_tuning_defs)

lemma prune_ok:
  assumes "ranking_ok (bc_map b)" "length (bc_map b) \<le> Suc bootcacheSize"
  shows "ranking_ok (bc_map (prune b)) \<and> length (bc_map (prune b)) \<le> bootcacheSize \<and>
    bc_rows (prune b) = bc_rows b"
proof (cases "length (bc_map b) \<le> bootcacheSize")
  case True
  with assms show ?thesis by simp
next
  case False
  with assms have "length (bc_map b) = Suc bootcacheSize" by simp
  then show ?thesis using assms(1) by (simp add: prune_one_over ranking_ok_take bootcacheSize_def)
qed

lemma flagForUpdate_map [simp]: "bc_map (flagForUpdate clk b) = bc_map b" "bc_map (checkUpdate clk b) = bc_map b"
  by (simp_all add: flagForUpdate_def checkUpdate_def bootcache_update_def)

lemma flagForUpdate_ok: "bootcache_ok b \<Longrightarrow> bootcache_ok (flagForUpdate clk b)"
  by (simp add: bootcache_ok_def flagForUpdate_def checkUpdate_def bootcache_update_def store_save_def)

lemma periodicActivity_bootcache_ok: "bootcache_ok b \<Longrightarrow> bootcache_ok (bootcache_periodicActivity clk b)"
  by (simp add: bootcache_ok_def bootcache_periodicActivity_def checkUpdate_def bootcache_update_def store_save_def)

lemma bootcache_insert_ok:
  assumes "bootcache_ok b"
  shows "bootcache_ok (fst (bootcache_insert clk ep b))"
proof (cases "map_of (bc_map b) ep")
  case None
  with assms bimap_insert_new [of "bc_map b" ep 0] obtain m where
    m: "bimap_insert ep 0 (bc_map b) = (m, True)" "ranking_ok m" "length m = Suc (length (bc_map b))"
    by (auto simp: bootcache_ok_def)
  with assms prune_ok [of "b\<lparr>bc_map := m\<rparr>"] have "bootcache_ok (prune (b\<lparr>bc_map := m\<rparr>))"
    by (simp add: bootcache_ok_def)
  with m(1) show ?thesis by (simp add: bootcache_insert_def flagForUpdate_ok)
next
  case (Some v)
  with assms show ?thesis by (simp add: bootcache_insert_def bimap_insert_def)
qed

lemma bootcache_inserts_ok:
  "bootcache_ok b \<Longrightarrow> bootcache_ok (foldl (\<lambda>b ep. fst (bootcache_insert clk ep b)) b eps)"
  by (induction eps arbitrary: b) (simp_all add: bootcache_insert_ok)

lemma bootcache_record_known:
  assumes ok: "bootcache_ok b" and old: "map_of (bc_map b) ep = Some v"
  shows "\<exists>b'. bootcache_record step v0 clk ep b = Inr b' \<and> bootcache_ok b' \<and>
    map_of (bc_map b') = (map_of (bc_map b))(ep \<mapsto> step v)"
proof -
  have r: "ranking_ok (bc_map b)" using ok by (simp add: bootcache_ok_def)
  note er = bimap_erase_ok [OF r, of ep]
  from bimap_insert_new [of "bimap_erase ep (bc_map b)" ep "step v"] er obtain m where
    m: "bimap_insert ep (step v) (bimap_erase ep (bc_map b)) = (m, True)" "ranking_ok m"
      "length m = Suc (length (bimap_erase ep (bc_map b)))" "map_of m = (map_of (bc_map b))(ep \<mapsto> step v)"
    by auto
  have "(ep, v) \<in> set (bc_map b)" using old by (rule map_of_SomeD)
  then have "length (bimap_erase ep (bc_map b)) < length (bc_map b)"
    unfolding bimap_erase_def by (intro length_filter_less [where x = "(ep, v)"]) simp_all
  with m ok have "bootcache_ok (b\<lparr>bc_map := m\<rparr>)" by (simp add: bootcache_ok_def)
  with m old flagForUpdate_ok [of "b\<lparr>bc_map := m\<rparr>" clk] show ?thesis
    by (simp add: bootcache_record_def bimap_insert_def)
qed

lemma bootcache_record_new:
  assumes ok: "bootcache_ok b" and new: "map_of (bc_map b) ep = None"
    and room: "length (bc_map b) < bootcacheSize"
  shows "\<exists>b'. bootcache_record step v0 clk ep b = Inr b' \<and> bootcache_ok b' \<and>
    map_of (bc_map b') = (map_of (bc_map b))(ep \<mapsto> v0)"
proof -
  from bimap_insert_new [of "bc_map b" ep v0] ok new obtain m where
    m: "bimap_insert ep v0 (bc_map b) = (m, True)" "ranking_ok m" "length m = Suc (length (bc_map b))"
      "map_of m = (map_of (bc_map b))(ep \<mapsto> v0)" by (auto simp: bootcache_ok_def)
  then have "bootcache_ok (b\<lparr>bc_map := m\<rparr>)" using ok room by (simp add: bootcache_ok_def)
  with m room flagForUpdate_ok [of "b\<lparr>bc_map := m\<rparr>" clk] show ?thesis
    by (simp add: bootcache_record_def)
qed

text \<open>Recording an outcome succeeds and keeps the invariant, unless the cache is full, the address
  unknown and the pruning erases it at once.\<close>

lemma bootcache_record_ok:
  assumes ok: "bootcache_ok b"
  shows "(\<exists>b'. bootcache_record step v0 clk ep b = Inr b' \<and> bootcache_ok b') \<or>
    bootcache_record step v0 clk ep b = Inl PfDangling \<and> length (bc_map b) = bootcacheSize \<and>
      map_of (bc_map b) ep = None"
proof (cases "map_of (bc_map b) ep")
  case (Some v)
  with bootcache_record_known [OF ok Some] show ?thesis by blast
next
  case None
  show ?thesis
  proof (cases "length (bc_map b) < bootcacheSize")
    case True
    with bootcache_record_new [OF ok None True] show ?thesis by blast
  next
    case False
    with ok have full: "length (bc_map b) = bootcacheSize" by (simp add: bootcache_ok_def)
    from bimap_insert_new [of "bc_map b" ep v0] ok None obtain m where
      m: "bimap_insert ep v0 (bc_map b) = (m, True)" "ranking_ok m" "length m = Suc bootcacheSize"
      by (auto simp: bootcache_ok_def full)
    then have "bootcache_ok (prune (b\<lparr>bc_map := m\<rparr>))"
      using ok prune_ok [of "b\<lparr>bc_map := m\<rparr>"] by (simp add: bootcache_ok_def)
    with m None full flagForUpdate_ok show ?thesis by (simp add: bootcache_record_def Let_def)
  qed
qed

lemma bootcache_ok_init: "length rows \<le> bootcacheSize \<Longrightarrow> bootcache_ok (Bootcache_init now rows)"
  by (simp add: bootcache_ok_def Bootcache_init_def ranking_ok_def)

section \<open>Loading\<close>

lemma store_load_ok:
  "ranking_ok m \<Longrightarrow> ranking_ok (fst (store_load rows m n)) \<and>
     length (fst (store_load rows m n)) \<le> length m + length rows"
proof (induction rows m n rule: store_load.induct)
  case (1 m n)
  then show ?case by simp
next
  case (2 s v rows m n)
  have "ranking_ok (fst (bimap_insert (from_string s) v m)) \<and>
      length (fst (bimap_insert (from_string s) v m)) \<le> Suc (length m)"
    using "2.prems" bimap_insert_new [of m "from_string s" v]
    by (cases "map_of m (from_string s)") (auto simp: bimap_insert_def [of _ _ m])
  with "2.IH" "2.prems" show ?case by (fastforce simp: Let_def)
qed

lemma bootcache_load_ok:
  assumes "bootcache_ok b"
  shows "bootcache_ok (bootcache_load b)"
proof -
  let ?m = "fst (store_load (bc_rows b) [] 0)"
  have "ranking_ok ?m" "length ?m \<le> length (bc_rows b)"
    using store_load_ok [of "[]" "bc_rows b" 0] by (simp_all add: ranking_ok_def)
  with assms show ?thesis
    by (simp add: bootcache_ok_def bootcache_load_def bootcache_clear_def Let_def case_prod_unfold)
qed

lemma store_load_save:
  assumes "ranking_ok acc" "distinct (map fst m)" "\<forall>e \<in> set m. map_of acc (fst e) = None"
  shows "map_of (fst (store_load (store_save m) acc n)) ep =
    (case map_of m ep of Some v \<Rightarrow> if is_unspecified (ep_address ep) then None else Some v | None \<Rightarrow> map_of acc ep)"
  using assms
proof (induction m arbitrary: acc n)
  case Nil
  then show ?case by (simp add: store_save_def)
next
  case (Cons e m)
  obtain a v where e: "e = (a, v)" by (cases e)
  have sv: "store_save ((a, v) # m) = (endpoint_to_string a, v) # store_save m" by (simp add: store_save_def)
  have na: "map_of m a = None" using Cons.prems(2) e by (force simp: map_of_eq_None_iff)
  show ?case
  proof (cases "is_unspecified (ep_address a)")
    case True
    have "\<forall>e \<in> set m. map_of acc (fst e) = None" using Cons.prems(3) by simp
    with Cons.IH [of acc n] Cons.prems True e na show ?thesis by (auto simp: sv split: option.split)
  next
    case False
    from bimap_insert_new [of acc a v] Cons.prems e obtain acc' where
      acc': "bimap_insert a v acc = (acc', True)" "ranking_ok acc'" "map_of acc' = (map_of acc)(a \<mapsto> v)" by auto
    have "\<forall>e \<in> set m. map_of acc' (fst e) = None" using Cons.prems e acc'(3) by auto
    with Cons.IH [of acc' "Suc n"] Cons.prems False e na acc' show ?thesis by (auto simp: sv split: option.split)
  qed
qed

section \<open>Properties\<close>

definition boot_addr :: "nat \<Rightarrow> IPEndpoint" where
  "boot_addr i = IPEndpoint_of (AddressV4_of (of_nat (i + 1))) 51235"

lemma boot_addr_inj: "inj_on boot_addr {..<2000}"
proof (rule inj_onI)
  fix i j assume ij: "i \<in> {..<2000}" "j \<in> {..<2000}" and eq: "boot_addr i = boot_addr j"
  from eq have "(of_nat (i + 1) :: 32 word) = of_nat (j + 1)"
    by (simp add: boot_addr_def IPEndpoint_of_def AddressV4_of_def)
  then have "unat (of_nat (i + 1) :: 32 word) = unat (of_nat (j + 1) :: 32 word)" by (rule arg_cong)
  then have "take_bit LENGTH(32) (i + 1) = take_bit LENGTH(32) (j + 1)" by (simp only: unsigned_of_nat of_nat_id)
  moreover have "take_bit LENGTH(32) (i + 1) = i + 1" "take_bit LENGTH(32) (j + 1) = j + 1"
    using ij by (simp_all add: take_bit_nat_eq_self)
  ultimately show "i = j" by linarith
qed

definition boot_full :: "int \<Rightarrow> Bootcache" where
  "boot_full v = \<lparr>bc_map = map (\<lambda>i. (boot_addr i, v)) [0..<1000], bc_rows = [], bc_whenUpdate = 0, bc_needsUpdate = False\<rparr>"

lemma boot_full_ok: "bootcache_ok (boot_full v)"
proof -
  have "sorted_wrt (\<ge>) (replicate n v)" for n by (induction n) auto
  moreover have "inj_on boot_addr {0..<1000}" using boot_addr_inj by (rule inj_on_subset) auto
  ultimately show ?thesis
    by (simp add: bootcache_ok_def boot_full_def ranking_ok_def bootcacheSize_def distinct_map comp_def
        map_replicate_const)
qed

lemma boot_full_lookup: "1000 \<le> i \<Longrightarrow> i < 2000 \<Longrightarrow> map_of (bc_map (boot_full v)) (boot_addr i) = None"
  using inj_onD [OF boot_addr_inj, of _ i] by (force simp: boot_full_def map_of_eq_None_iff)

text \<open>
  The outcome of a connection attempt to a known address updates its valence, counting
  consecutive successes or failures and restarting when the outcome changes; the ranking stays in
  decreasing valence with unique addresses and at most \<open>bootcacheSize\<close> of them, and no other
  valence changes.
\<close>

theorem bootcache_valence:
  assumes "bootcache_ok b" "map_of (bc_map b) ep = Some v"
  shows "\<exists>b1 b2. bootcache_on_success clk ep b = Inr b1 \<and> bootcache_ok b1 \<and>
    map_of (bc_map b1) = (map_of (bc_map b))(ep \<mapsto> (if v < 0 then 1 else v + 1)) \<and>
    bootcache_on_failure clk ep b = Inr b2 \<and> bootcache_ok b2 \<and>
    map_of (bc_map b2) = (map_of (bc_map b))(ep \<mapsto> (if v > 0 then -1 else v - 1))"
proof -
  have "success_valence v = (if v < 0 then 1 else v + 1)" "failure_valence v = (if v > 0 then -1 else v - 1)"
    by (simp_all add: success_valence_def failure_valence_def)
  with bootcache_record_known [OF assms, of success_valence 1 clk]
    bootcache_record_known [OF assms, of failure_valence "-1" clk]
  show ?thesis by (auto simp: bootcache_on_success_def bootcache_on_failure_def)
qed

theorem bootcache_valence_witness:
  "\<exists>b1. bootcache_on_success \<lparr>ticks_per_second = 1, sw_now = 0\<rparr> unspecified_endpoint
      \<lparr>bc_map = [(unspecified_endpoint, -3)], bc_rows = [], bc_whenUpdate = 0, bc_needsUpdate = False\<rparr> = Inr b1 \<and>
     map_of (bc_map b1) unspecified_endpoint = Some 1"
  using bootcache_valence [of "\<lparr>bc_map = [(unspecified_endpoint, -3)], bc_rows = [], bc_whenUpdate = 0,
      bc_needsUpdate = False\<rparr>" unspecified_endpoint "-3" "\<lparr>ticks_per_second = 1, sw_now = 0\<rparr>"]
  by (auto simp: bootcache_ok_def ranking_ok_def bootcacheSize_def)

text \<open>
  A failed attempt to an unknown address, on a full cache whose entries are all at least as good,
  inserts the address at the end of the ranking and prunes it away at once, after which the code reads
  the erased entry.
\<close>

theorem bootcache_failure_dangles:
  assumes "length (bc_map b) = bootcacheSize" "map_of (bc_map b) ep = None" "\<forall>e \<in> set (bc_map b). -1 \<le> snd e"
  shows "bootcache_on_failure clk ep b = Inl PfDangling"
proof -
  let ?m = "bc_map b @ [(ep, -1)]"
  have tw: "takeWhile (\<lambda>e. - 1 \<le> snd e) (bc_map b) = bc_map b" "dropWhile (\<lambda>e. - 1 \<le> snd e) (bc_map b) = []"
    using assms(3) by auto
  have "map_of (take 901 ?m) ep = None"
    using assms(1,2) by (auto simp: map_of_eq_None_iff bootcacheSize_def dest: in_set_takeD)
  moreover have "bimap_insert ep (-1) (bc_map b) = (?m, True)"
    using assms(2) by (simp add: bimap_insert_def tw)
  ultimately show ?thesis
    using assms(1) prune_one_over [of "b\<lparr>bc_map := ?m\<rparr>"]
    by (simp add: bootcache_on_failure_def bootcache_record_def Let_def)
qed

theorem bootcache_failure_dangles_witness:
  "bootcache_ok (boot_full 0) \<and>
   bootcache_on_failure \<lparr>ticks_per_second = 1, sw_now = 0\<rparr> (boot_addr 1500) (boot_full 0) = Inl PfDangling"
  using bootcache_failure_dangles [of "boot_full 0" "boot_addr 1500" "\<lparr>ticks_per_second = 1, sw_now = 0\<rparr>"]
    boot_full_lookup [of 1500 0] boot_full_ok [of 0]
  by (auto simp: boot_full_def bootcacheSize_def)

text \<open>
  What the cache saved is what it loads: after an update and a reload, every address has the
  valence it had, the unspecified address excepted, and the ranking is again well formed.
\<close>

theorem bootcache_save_load:
  assumes "bootcache_ok b" "bc_needsUpdate b"
  shows "bootcache_ok (bootcache_load (bootcache_update clk b)) \<and>
    (\<forall>ep. map_of (bc_map (bootcache_load (bootcache_update clk b))) ep =
      (if is_unspecified (ep_address ep) then None else map_of (bc_map b) ep))"
proof -
  let ?b1 = "bootcache_update clk b"
  have rows: "bc_rows ?b1 = store_save (bc_map b)" and ok1: "bootcache_ok ?b1"
    using assms by (simp_all add: bootcache_update_def bootcache_ok_def store_save_def)
  let ?m = "fst (store_load (store_save (bc_map b)) [] 0)"
  have "length ?m \<le> bootcacheSize"
    using store_load_ok [of "[]" "store_save (bc_map b)" 0] assms(1)
    by (simp add: ranking_ok_def bootcache_ok_def store_save_def)
  then have "bc_map (bootcache_load ?b1) = ?m"
    by (simp add: bootcache_load_def bootcache_clear_def rows Let_def case_prod_unfold)
  moreover have "map_of ?m ep = (if is_unspecified (ep_address ep) then None else map_of (bc_map b) ep)" for ep
    using store_load_save [of "[]" "bc_map b" 0 ep] assms(1)
    by (simp add: ranking_ok_def bootcache_ok_def split: option.split)
  ultimately show ?thesis using bootcache_load_ok [OF ok1] by simp
qed

theorem bootcache_save_load_witness:
  "map_of (bc_map (bootcache_load (bootcache_update \<lparr>ticks_per_second = 1, sw_now = 0\<rparr>
     ((boot_full 7)\<lparr>bc_needsUpdate := True\<rparr>)))) unspecified_endpoint = None"
  using bootcache_save_load [of "(boot_full 7)\<lparr>bc_needsUpdate := True\<rparr>" "\<lparr>ticks_per_second = 1, sw_now = 0\<rparr>"]
    boot_full_ok [of 7]
  by (simp add: bootcache_ok_def unspecified_endpoint_def IPEndpoint_of_def AddressV4_of_def is_unspecified_def)

end
