(* ===== verification/PF_Livecache.thy ===== *)
theory PF_Livecache
  imports PF_Types
begin

text \<open>
  \<open>PeerFinder::Livecache\<close> (\<open>src/ripple/peerfinder/impl/Livecache.h\<close>): the relayed
  endpoints by address with their hop counts and ages, and beside them one intrusive list per hop
  count with its length. An element of a list is named by its address; its hop count is the one
  stored under the address in the cache.
\<close>

section \<open>State and operations\<close>

record Livecache =
  lc_cache :: "(IPEndpoint, int) aged"
  lc_lists :: "IPEndpoint list list"
  lc_hist :: "int list"

definition hop_count :: nat where "hop_count = nat (1 + maxHops + 1)"

definition Livecache_init :: Livecache where
  "Livecache_init = \<lparr>lc_cache = [], lc_lists = replicate hop_count [], lc_hist = replicate hop_count 0\<rparr>"

definition hops_insert :: "IPEndpoint \<Rightarrow> int \<Rightarrow> Livecache \<Rightarrow> (pf_error, Livecache) result" where
  "hops_insert a h lc =
     bind_r (pf_assert (0 \<le> h \<and> h \<le> maxHops + 1)) (\<lambda>_.
       Inr (lc\<lparr>lc_lists := (lc_lists lc)[nat h := a # lc_lists lc ! nat h],
               lc_hist := (lc_hist lc)[nat h := lc_hist lc ! nat h + 1]\<rparr>))"

definition hops_remove :: "IPEndpoint \<Rightarrow> int \<Rightarrow> Livecache \<Rightarrow> (pf_error, Livecache) result" where
  "hops_remove a h lc =
     (if 0 \<le> h \<and> nat h < length (lc_lists lc)
      then bind_r (list_unlink PfIndex a (lc_lists lc ! nat h)) (\<lambda>l.
             Inr (lc\<lparr>lc_lists := (lc_lists lc)[nat h := l],
                     lc_hist := (lc_hist lc)[nat h := lc_hist lc ! nat h - 1]\<rparr>))
      else Inl PfIndex)"

definition hops_reinsert :: "IPEndpoint \<Rightarrow> int \<Rightarrow> int \<Rightarrow> Livecache \<Rightarrow> (pf_error, Livecache) result" where
  "hops_reinsert a old h lc =
     bind_r (pf_assert (0 \<le> h \<and> h \<le> maxHops + 1)) (\<lambda>_.
     bind_r (hops_remove a old lc) (\<lambda>lc1.
       hops_insert a h (lc1\<lparr>lc_cache := aged_assign a h (lc_cache lc1)\<rparr>)))"

definition livecache_insert :: "int \<Rightarrow> Endpoint \<Rightarrow> Livecache \<Rightarrow> (pf_error, Livecache) result" where
  "livecache_insert now ep lc =
     bind_r (pf_assert (hops ep \<le> maxHops + 1)) (\<lambda>_.
       let (c1, inserted) = aged_emplace now (pe_address ep) (hops ep) (lc_cache lc);
           lc1 = lc\<lparr>lc_cache := c1\<rparr>
       in if inserted then hops_insert (pe_address ep) (hops ep) lc1
          else case aged_find (pe_address ep) c1 of
              None \<Rightarrow> Inr lc1
            | Some old \<Rightarrow>
                if hops ep > old then Inr lc1
                else let lc2 = lc1\<lparr>lc_cache := aged_touch now (pe_address ep) c1\<rparr>
                     in if hops ep < old then hops_reinsert (pe_address ep) old (hops ep) lc2
                        else Inr lc2)"

text \<open>Expiry walks the cache in chronological order.\<close>

fun livecache_expire_loop :: "int \<Rightarrow> (IPEndpoint, int) aged \<Rightarrow> Livecache \<Rightarrow> (pf_error, Livecache) result" where
  "livecache_expire_loop expired [] lc = Inr lc"
| "livecache_expire_loop expired ((a, h, t) # c) lc =
     (if t \<le> expired
      then bind_r (hops_remove a h lc) (\<lambda>lc1.
             livecache_expire_loop expired c (lc1\<lparr>lc_cache := aged_erase a (lc_cache lc1)\<rparr>))
      else Inr lc)"

definition livecache_expire :: "Stopwatch \<Rightarrow> Livecache \<Rightarrow> (pf_error, Livecache) result" where
  "livecache_expire clk lc =
     livecache_expire_loop (sw_now clk - seconds clk liveCacheSecondsToLive) (lc_cache lc) lc"

text \<open>\<open>hops_t::shuffle\<close> permutes each list; the random permutation is the argument
  \<open>shuf\<close>.\<close>

definition hops_shuffle :: "(IPEndpoint list \<Rightarrow> IPEndpoint list) \<Rightarrow> Livecache \<Rightarrow> Livecache" where
  "hops_shuffle shuf lc = lc\<lparr>lc_lists := map shuf (lc_lists lc)\<rparr>"

definition move_back :: "IPEndpoint \<Rightarrow> IPEndpoint list \<Rightarrow> IPEndpoint list" where
  "move_back a l = remove1 a l @ [a]"

fun histogram_from :: "nat \<Rightarrow> int list \<Rightarrow> string" where
  "histogram_from i [] = []"
| "histogram_from i (n # ns) = (if n < 0 then CHR ''-'' # dec_string (nat (- n)) else dec_string (nat n)) @
     (if int i < maxHops + 1 then '', '' else []) @ histogram_from (Suc i) ns"

definition histogram :: "Livecache \<Rightarrow> string" where
  "histogram lc = histogram_from 0 (lc_hist lc)"

section \<open>Invariant\<close>

text \<open>Each address is on exactly the list of its hop count, once, and the histogram counts the lists.\<close>

definition hops_ok :: "(IPEndpoint \<rightharpoonup> int) \<Rightarrow> IPEndpoint list list \<Rightarrow> int list \<Rightarrow> bool" where
  "hops_ok f ls hist = (length ls = hop_count \<and> hist = map (int \<circ> length) ls \<and>
     (\<forall>i < hop_count. distinct (ls ! i) \<and> set (ls ! i) = {a. f a = Some (int i)}) \<and>
     (\<forall>a h. f a = Some h \<longrightarrow> 0 \<le> h \<and> h \<le> maxHops + 1))"

definition livecache_ok :: "int \<Rightarrow> Livecache \<Rightarrow> bool" where
  "livecache_ok now lc = (aged_ok now (lc_cache lc) \<and>
     hops_ok (\<lambda>a. aged_find a (lc_cache lc)) (lc_lists lc) (lc_hist lc))"

lemma hop_range: "0 \<le> h \<Longrightarrow> h \<le> maxHops + 1 \<Longrightarrow> nat h < hop_count"
  by (simp add: hop_count_def maxHops_def)

lemma hops_ok_insert:
  assumes ok: "hops_ok f ls hist" and new: "f a = None" and h: "0 \<le> h" "h \<le> maxHops + 1"
  shows "hops_ok (f(a \<mapsto> h)) (ls[nat h := a # ls ! nat h]) (hist[nat h := hist ! nat h + 1])"
proof -
  let ?i = "nat h"
  note i = hop_range [OF h]
  have len: "length ls = hop_count" and hist: "hist = map (int \<circ> length) ls"
    and sets: "\<And>j. j < hop_count \<Longrightarrow> distinct (ls ! j) \<and> set (ls ! j) = {b. f b = Some (int j)}"
    using ok by (simp_all add: hops_ok_def)
  have "distinct (ls[?i := a # ls ! ?i] ! j) \<and> set (ls[?i := a # ls ! ?i] ! j) = {b. (f(a \<mapsto> h)) b = Some (int j)}"
    if j: "j < hop_count" for j
    using sets [OF j] sets [OF i] new h j len by (cases "j = ?i") auto
  moreover have "hist[?i := hist ! ?i + 1] = map (int \<circ> length) (ls[?i := a # ls ! ?i])"
    using i len by (simp add: hist map_update add.commute)
  ultimately show ?thesis using ok h by (auto simp: hops_ok_def)
qed

lemma hops_ok_remove:
  assumes ok: "hops_ok f ls hist" and old: "f a = Some h"
  shows "a \<in> set (ls ! nat h) \<and>
    hops_ok (f(a := None)) (ls[nat h := remove1 a (ls ! nat h)]) (hist[nat h := hist ! nat h - 1])"
proof -
  let ?i = "nat h"
  have h: "0 \<le> h" "h \<le> maxHops + 1" using ok old by (auto simp: hops_ok_def)
  note i = hop_range [OF h]
  have len: "length ls = hop_count" and hist: "hist = map (int \<circ> length) ls"
    and sets: "\<And>j. j < hop_count \<Longrightarrow> distinct (ls ! j) \<and> set (ls ! j) = {b. f b = Some (int j)}"
    using ok by (simp_all add: hops_ok_def)
  have mem: "a \<in> set (ls ! ?i)" using sets [OF i] old h by simp
  have "distinct (ls[?i := remove1 a (ls ! ?i)] ! j) \<and>
      set (ls[?i := remove1 a (ls ! ?i)] ! j) = {b. (f(a := None)) b = Some (int j)}"
    if j: "j < hop_count" for j
    using sets [OF j] sets [OF i] old h j len by (cases "j = ?i") auto
  moreover have "hist[?i := hist ! ?i - 1] = map (int \<circ> length) (ls[?i := remove1 a (ls ! ?i)])"
    using i len mem length_pos_if_in_set [OF mem] of_nat_diff [of 1 "length (ls ! ?i)", where ?'a = int]
    by (simp add: hist map_update length_remove1 Suc_le_eq)
  ultimately show ?thesis using ok mem by (auto simp: hops_ok_def)
qed

lemma livecache_ok_init [simp]: "livecache_ok now Livecache_init"
  by (auto simp: livecache_ok_def hops_ok_def Livecache_init_def aged_find_def)

lemma lc_cache_init [simp]: "lc_cache Livecache_init = []"
  by (simp add: Livecache_init_def)

lemma livecache_ok_later: "livecache_ok now lc \<Longrightarrow> now \<le> now' \<Longrightarrow> livecache_ok now' lc"
  by (auto simp: livecache_ok_def intro: aged_ok_later)

lemma hops_ok_cong: "hops_ok f ls hist \<Longrightarrow> (\<And>a. g a = f a) \<Longrightarrow> hops_ok g ls hist"
  by (simp add: hops_ok_def)

lemma hops_index: "hops_ok f ls hist \<Longrightarrow> f a = Some h \<Longrightarrow> 0 \<le> h \<and> nat h < length ls"
  by (simp add: hops_ok_def hop_range)

section \<open>The operations keep the invariant\<close>

lemma emplace_cases:
  "aged_emplace now k v c = (case aged_find k c of None \<Rightarrow> (c @ [(k, v, now)], True) | Some _ \<Rightarrow> (c, False))"
  by (auto simp: aged_emplace_def aged_find_def split: option.split)

text \<open>A cached address keeps the smallest hop count it was seen at.\<close>

definition lower_hops :: "int \<Rightarrow> int option \<Rightarrow> int option" where
  "lower_hops h old = Some (case old of None \<Rightarrow> h | Some h' \<Rightarrow> min h h')"

lemma livecache_insert_new:
  assumes ok: "livecache_ok now lc" and h: "0 \<le> hops ep" "hops ep \<le> maxHops + 1"
    and new: "aged_find (pe_address ep) (lc_cache lc) = None"
  shows "\<exists>lc'. livecache_insert now ep lc = Inr lc' \<and> livecache_ok now lc' \<and>
    (\<forall>a. aged_find a (lc_cache lc') = ((\<lambda>a. aged_find a (lc_cache lc))(pe_address ep \<mapsto> hops ep)) a)"
proof -
  let ?a = "pe_address ep" and ?h = "hops ep"
  let ?c = "lc_cache lc @ [(?a, ?h, now)]"
  let ?lc = "lc\<lparr>lc_cache := ?c, lc_lists := (lc_lists lc)[nat ?h := ?a # lc_lists lc ! nat ?h],
    lc_hist := (lc_hist lc)[nat ?h := lc_hist lc ! nat ?h + 1]\<rparr>"
  have run: "livecache_insert now ep lc = Inr ?lc"
    using h new by (simp add: livecache_insert_def emplace_cases hops_insert_def)
  have find: "aged_find a ?c = ((\<lambda>a. aged_find a (lc_cache lc))(?a \<mapsto> ?h)) a" for a
    using aged_find_emplace [of a now ?a ?h "lc_cache lc"] new by (simp add: emplace_cases)
  have "aged_ok now ?c"
    using ok aged_emplace_ok [of now "lc_cache lc" ?a ?h] new by (simp add: livecache_ok_def emplace_cases)
  moreover have "hops_ok (\<lambda>a. aged_find a ?c) (lc_lists ?lc) (lc_hist ?lc)"
    using hops_ok_insert [of "\<lambda>a. aged_find a (lc_cache lc)" "lc_lists lc" "lc_hist lc" ?a ?h] ok new h
    by (auto simp: livecache_ok_def find intro: hops_ok_cong)
  ultimately show ?thesis using run find by (simp add: livecache_ok_def)
qed

lemma livecache_reinsert_ok:
  assumes ok: "livecache_ok now lc" and old: "aged_find a (lc_cache lc) = Some old"
    and h: "0 \<le> h" "h \<le> maxHops + 1"
  shows "\<exists>lc'. hops_reinsert a old h lc = Inr lc' \<and> livecache_ok now lc' \<and>
    (\<forall>b. aged_find b (lc_cache lc') = ((\<lambda>b. aged_find b (lc_cache lc))(a \<mapsto> h)) b)"
proof -
  let ?f = "\<lambda>b. aged_find b (lc_cache lc)"
  let ?ls = "(lc_lists lc)[nat old := remove1 a (lc_lists lc ! nat old)]"
  let ?hist = "(lc_hist lc)[nat old := lc_hist lc ! nat old - 1]"
  have hok: "hops_ok ?f (lc_lists lc) (lc_hist lc)" using ok by (simp add: livecache_ok_def)
  note rem = hops_ok_remove [OF hok old] and idx = hops_index [OF hok old]
  let ?c = "aged_assign a h (lc_cache lc)"
  let ?lc = "lc\<lparr>lc_cache := ?c, lc_lists := ?ls[nat h := a # ?ls ! nat h],
    lc_hist := ?hist[nat h := ?hist ! nat h + 1]\<rparr>"
  have run: "hops_reinsert a old h lc = Inr ?lc"
    using rem idx h by (simp add: hops_reinsert_def hops_remove_def hops_insert_def)
  have find: "aged_find b ?c = (?f(a \<mapsto> h)) b" for b
    using old by (simp add: aged_find_assign)
  have "hops_ok (?f(a := None, a \<mapsto> h)) (lc_lists ?lc) (lc_hist ?lc)"
    using hops_ok_insert [of "?f(a := None)" ?ls ?hist a h] rem h by simp
  then have "hops_ok (\<lambda>b. aged_find b ?c) (lc_lists ?lc) (lc_hist ?lc)"
    by (rule hops_ok_cong) (simp add: find)
  moreover have "aged_ok now ?c" using ok by (simp add: livecache_ok_def aged_assign_ok)
  ultimately show ?thesis using run find by (simp add: livecache_ok_def)
qed

lemma livecache_touch_ok:
  "livecache_ok now lc \<Longrightarrow> livecache_ok now (lc\<lparr>lc_cache := aged_touch now a (lc_cache lc)\<rparr>)"
  by (auto simp: livecache_ok_def aged_find_touch intro: wf_intros)

lemma livecache_insert_ok:
  assumes ok: "livecache_ok now lc" and h: "0 \<le> hops ep" "hops ep \<le> maxHops + 1"
  shows "\<exists>lc'. livecache_insert now ep lc = Inr lc' \<and> livecache_ok now lc' \<and>
    (\<forall>a. aged_find a (lc_cache lc') = (if a = pe_address ep
       then lower_hops (hops ep) (aged_find a (lc_cache lc)) else aged_find a (lc_cache lc)))"
proof (cases "aged_find (pe_address ep) (lc_cache lc)")
  case None
  from livecache_insert_new [OF ok h None] None show ?thesis by (auto simp: lower_hops_def)
next
  case (Some old)
  let ?a = "pe_address ep"
  let ?lc2 = "lc\<lparr>lc_cache := aged_touch now ?a (lc_cache lc)\<rparr>"
  note ok2 = livecache_touch_ok [OF ok, of ?a]
  have old2: "aged_find ?a (lc_cache ?lc2) = Some old" using Some by (simp add: aged_find_touch)
  from livecache_reinsert_ok [OF ok2 old2 h] obtain lc' where
    r: "hops_reinsert ?a old (hops ep) ?lc2 = Inr lc'" "livecache_ok now lc'"
      "\<forall>b. aged_find b (lc_cache lc') = ((\<lambda>b. aged_find b (lc_cache lc))(?a \<mapsto> hops ep)) b"
    by (auto simp: aged_find_touch)
  consider "old < hops ep" | "hops ep < old" | "hops ep = old" by linarith
  then show ?thesis
  proof cases
    case 1
    with Some ok h show ?thesis by (auto simp: livecache_insert_def emplace_cases lower_hops_def)
  next
    case 2
    with Some r h show ?thesis by (auto simp: livecache_insert_def emplace_cases lower_hops_def)
  next
    case 3
    with Some ok2 h show ?thesis
      by (auto simp: livecache_insert_def emplace_cases lower_hops_def aged_find_touch)
  qed
qed

lemma livecache_expire_loop_ok:
  assumes "livecache_ok now lc" "c = lc_cache lc"
  shows "\<exists>lc'. livecache_expire_loop expired c lc = Inr lc' \<and> livecache_ok now lc' \<and>
    lc_cache lc' = dropWhile (\<lambda>e. snd (snd e) \<le> expired) c"
  using assms
proof (induction expired c lc rule: livecache_expire_loop.induct)
  case (1 expired lc)
  then show ?case by auto
next
  case (2 expired a h t c lc)
  let ?f = "\<lambda>b. aged_find b (lc_cache lc)"
  have cache: "lc_cache lc = (a, h, t) # c" using "2.prems" by simp
  have hok: "hops_ok ?f (lc_lists lc) (lc_hist lc)" and aok: "aged_ok now (lc_cache lc)"
    using "2.prems" by (simp_all add: livecache_ok_def)
  have old: "?f a = Some h" by (simp add: cache aged_find_def)
  note rem = hops_ok_remove [OF hok old] and idx = hops_index [OF hok old]
  let ?lc1 = "lc\<lparr>lc_lists := (lc_lists lc)[nat h := remove1 a (lc_lists lc ! nat h)],
    lc_hist := (lc_hist lc)[nat h := lc_hist lc ! nat h - 1]\<rparr>"
  let ?lc2 = "?lc1\<lparr>lc_cache := aged_erase a (lc_cache ?lc1)\<rparr>"
  have run: "hops_remove a h lc = Inr ?lc1" using rem idx by (simp add: hops_remove_def)
  have "a \<notin> fst ` set c" using aok by (auto simp: cache aged_ok_def)
  then have erase: "aged_erase a (lc_cache lc) = c"
    by (auto simp: cache aged_erase_def image_iff intro!: filter_True)
  have ok2: "livecache_ok now ?lc2"
    using rem aok by (auto simp: livecache_ok_def aged_find_erase fun_upd_def intro: wf_intros hops_ok_cong)
  have eq2: "c = lc_cache ?lc2" by (simp add: erase)
  have IH: "t \<le> expired \<Longrightarrow> \<exists>lc'. livecache_expire_loop expired c ?lc2 = Inr lc' \<and>
      livecache_ok now lc' \<and> lc_cache lc' = dropWhile (\<lambda>e. snd (snd e) \<le> expired) c"
    by (rule "2.IH" [OF _ ok2 eq2])
  show ?case
  proof (cases "t \<le> expired")
    case True
    with IH run show ?thesis by simp
  next
    case False
    with "2.prems"(1) cache show ?thesis by simp
  qed
qed

lemma livecache_expire_ok:
  assumes "livecache_ok (sw_now clk) lc"
  shows "\<exists>lc'. livecache_expire clk lc = Inr lc' \<and> livecache_ok (sw_now clk) lc' \<and>
    lc_cache lc' = filter (\<lambda>e. sw_now clk - seconds clk liveCacheSecondsToLive < snd (snd e)) (lc_cache lc)"
  using livecache_expire_loop_ok [OF assms refl] assms
  by (auto simp: livecache_expire_def livecache_ok_def aged_ok_def dropWhile_sorted_filter not_le)

lemma hops_shuffle_ok:
  assumes ok: "livecache_ok now lc" and shuf: "\<And>l. mset (shuf l) = mset l"
  shows "livecache_ok now (hops_shuffle shuf lc)"
proof -
  have "length (shuf l) = length l" "set (shuf l) = set l" "distinct (shuf l) = distinct l" for l
    using shuf by (metis mset_eq_length, metis mset_eq_setD, metis mset_eq_imp_distinct_iff)
  then show ?thesis using ok by (simp add: livecache_ok_def hops_ok_def hops_shuffle_def)
qed

text \<open>
  Inserting a relayed endpoint with a hop count from 0 to \<open>maxHops + 1\<close> never fails an
  assertion and keeps every cached address on exactly the list of its hop count, once, with the
  histogram counting the lists; a known address keeps the smaller of its two hop counts and no other
  address changes.
\<close>

theorem livecache_insert_keeps:
  assumes "livecache_ok now lc" "0 \<le> hops ep" "hops ep \<le> maxHops + 1"
  shows "\<exists>lc'. livecache_insert now ep lc = Inr lc' \<and> livecache_ok now lc' \<and>
    aged_find (pe_address ep) (lc_cache lc') =
      Some (case aged_find (pe_address ep) (lc_cache lc) of None \<Rightarrow> hops ep | Some h \<Rightarrow> min (hops ep) h) \<and>
    (\<forall>a. a \<noteq> pe_address ep \<longrightarrow> aged_find a (lc_cache lc') = aged_find a (lc_cache lc))"
  using livecache_insert_ok [OF assms] by (auto simp: lower_hops_def)

theorem livecache_insert_keeps_witness:
  "\<exists>lc'. livecache_insert 5 (Endpoint_of unspecified_endpoint 3) Livecache_init = Inr lc' \<and>
     aged_find unspecified_endpoint (lc_cache lc') = Some 3"
  using livecache_insert_keeps [of 5 Livecache_init "Endpoint_of unspecified_endpoint 3"]
  by (auto simp: Endpoint_of_def maxHops_def aged_find_def)

text \<open>
  Expiry never fails, keeps the lists and the histogram consistent, and leaves exactly the
  endpoints heard within the last 30 seconds.
\<close>

theorem livecache_expire_exact:
  assumes "livecache_ok (sw_now clk) lc"
  shows "\<exists>lc'. livecache_expire clk lc = Inr lc' \<and> livecache_ok (sw_now clk) lc' \<and>
    lc_cache lc' = filter (\<lambda>e. sw_now clk - seconds clk 30 < snd (snd e)) (lc_cache lc)"
  using livecache_expire_ok [OF assms] by (simp add: liveCacheSecondsToLive_def)

theorem livecache_expire_exact_witness:
  "\<exists>lc'. livecache_expire \<lparr>ticks_per_second = 1, sw_now = 100\<rparr> Livecache_init = Inr lc' \<and> lc_cache lc' = []"
  using livecache_expire_exact [of "\<lparr>ticks_per_second = 1, sw_now = 100\<rparr>" Livecache_init] by auto

end
