(* ===== verification/PF_Handouts.thy ===== *)
theory PF_Handouts
  imports PF_Livecache
begin

text \<open>
  Handing out endpoints (\<open>src/ripple/peerfinder/impl/Handouts.h\<close>): the distribution loop, a
  template over the kind of target, and the three kinds of targets: redirects, periodic broadcasts and
  automatic connections. The template's loop repeats until a round hands out nothing or all targets
  are full; it is a partial function whose termination is a theorem for targets with a capacity.
\<close>

section \<open>The distribution loop\<close>

text \<open>\<open>handout_one\<close>: the first element the target takes moves to the end of the hop list.
  The caller has checked that the target is not full.\<close>

fun handout_one_loop :: "('e \<Rightarrow> 't \<Rightarrow> bool \<times> 't) \<Rightarrow> 't \<Rightarrow> 'e list \<Rightarrow> 'e list \<Rightarrow> 't \<times> 'e list \<times> nat" where
  "handout_one_loop ins t prev [] = (t, prev, 0)"
| "handout_one_loop ins t prev (e # h) =
     (let (ok, t') = ins e t
      in if ok then (t', prev @ h @ [e], 1) else handout_one_loop ins t' (prev @ [e]) h)"

definition handout_one :: "('e \<Rightarrow> 't \<Rightarrow> bool \<times> 't) \<Rightarrow> 't \<Rightarrow> 'e list \<Rightarrow> 't \<times> 'e list \<times> nat" where
  "handout_one ins t h = handout_one_loop ins t [] h"

text \<open>One hop list offered to every target: new targets and list, number handed out, \<open>all_full\<close>.\<close>

fun handout_targets ::
  "('t \<Rightarrow> bool) \<Rightarrow> ('e \<Rightarrow> 't \<Rightarrow> bool \<times> 't) \<Rightarrow> 't list \<Rightarrow> 'e list \<Rightarrow> 't list \<times> 'e list \<times> nat \<times> bool" where
  "handout_targets full ins [] c = ([], c, 0, True)"
| "handout_targets full ins (t # ts) c =
     (if \<not> full t
      then let (t', c1, k) = handout_one ins t c; (ts', c2, n, _) = handout_targets full ins ts c1
           in (t' # ts', c2, k + n, False)
      else let (ts', c2, n, all_full) = handout_targets full ins ts c in (t # ts', c2, n, all_full))"

text \<open>One round over the hop lists; the flag says that the function returned because all are full.\<close>

fun handout_round ::
  "('t \<Rightarrow> bool) \<Rightarrow> ('e \<Rightarrow> 't \<Rightarrow> bool \<times> 't) \<Rightarrow> 't list \<Rightarrow> 'e list list \<Rightarrow> 't list \<times> 'e list list \<times> nat \<times> bool" where
  "handout_round full ins ts [] = (ts, [], 0, False)"
| "handout_round full ins ts (c # cs) =
     (let (ts1, c1, n, all_full) = handout_targets full ins ts c
      in if all_full then (ts1, c1 # cs, n, True)
         else let (ts2, cs2, m, ret) = handout_round full ins ts1 cs in (ts2, c1 # cs2, n + m, ret))"

partial_function (option) handout ::
  "('t \<Rightarrow> bool) \<Rightarrow> ('e \<Rightarrow> 't \<Rightarrow> bool \<times> 't) \<Rightarrow> 't list \<Rightarrow> 'e list list \<Rightarrow> ('t list \<times> 'e list list) option" where
  "handout full ins ts seq =
     (let (ts', seq', n, ret) = handout_round full ins ts seq
      in if ret then Some (ts', seq') else if n = 0 then Some (ts', seq') else handout full ins ts' seq')"

section \<open>What a target promises\<close>

text \<open>
  A target refuses an element without changing, or takes it, using up capacity; \<open>inv\<close> holds
  of it throughout for elements that are \<open>good\<close>, and its identity \<open>key\<close> is fixed.
\<close>

locale handout_target =
  fixes full :: "'t \<Rightarrow> bool"
    and ins :: "'e \<Rightarrow> 't \<Rightarrow> bool \<times> 't"
    and room :: "'t \<Rightarrow> nat"
    and inv :: "'t \<Rightarrow> bool"
    and good :: "'e \<Rightarrow> bool"
    and key :: "'t \<Rightarrow> 'k"
  assumes refuse: "ins e t = (False, t') \<Longrightarrow> t' = t"
    and take_room: "ins e t = (True, t') \<Longrightarrow> room t' < room t"
    and take_inv: "ins e t = (True, t') \<Longrightarrow> inv t \<Longrightarrow> good e \<Longrightarrow> inv t'"
    and take_key: "ins e t = (True, t') \<Longrightarrow> key t' = key t"
begin

definition step_ok :: "'t \<Rightarrow> 't \<Rightarrow> nat \<Rightarrow> bool" where
  "step_ok t t' n = (room t' + n \<le> room t \<and> (inv t \<longrightarrow> inv t') \<and> key t' = key t)"

lemma one_ok:
  assumes "\<forall>e \<in> set h. good e" "handout_one_loop ins t prev h = (t', c, n)"
  shows "step_ok t t' n \<and> mset c = mset prev + mset h"
  using assms
proof (induction h arbitrary: t prev)
  case Nil
  then show ?case by (simp add: step_ok_def)
next
  case (Cons e h)
  obtain ok t1 where i: "ins e t = (ok, t1)" by (cases "ins e t")
  show ?case
  proof (cases ok)
    case True
    with i Cons.prems take_room [of e t t1] take_inv [of e t t1] take_key [of e t t1]
    show ?thesis by (auto simp: step_ok_def)
  next
    case False
    with i refuse [of e t t1] Cons.prems Cons.IH [of t "prev @ [e]"] show ?thesis by auto
  qed
qed

definition goods :: "'e list list \<Rightarrow> bool" where
  "goods cs = (\<forall>c \<in> set cs. \<forall>e \<in> set c. good e)"

definition total_room :: "'t list \<Rightarrow> nat" where
  "total_room ts = sum_list (map room ts)"

definition targets_ok :: "'t list \<Rightarrow> 't list \<Rightarrow> nat \<Rightarrow> bool" where
  "targets_ok ts ts' n = (total_room ts' + n \<le> total_room ts \<and>
     ((\<forall>t \<in> set ts. inv t) \<longrightarrow> (\<forall>t \<in> set ts'. inv t)) \<and> map key ts' = map key ts)"

lemma targets_ok_refl: "targets_ok ts ts 0"
  by (simp add: targets_ok_def)

lemma targets_ok_trans: "targets_ok ts ts1 n \<Longrightarrow> targets_ok ts1 ts2 m \<Longrightarrow> targets_ok ts ts2 (n + m)"
  by (auto simp: targets_ok_def)

lemma targets_ok_Cons: "step_ok t t' k \<Longrightarrow> targets_ok ts ts' n \<Longrightarrow> targets_ok (t # ts) (t' # ts') (k + n)"
  by (auto simp: targets_ok_def step_ok_def total_room_def)

lemma all_targets_ok:
  assumes "\<forall>e \<in> set c. good e" "handout_targets full ins ts c = (ts', c', n, af)"
  shows "targets_ok ts ts' n \<and> mset c' = mset c"
  using assms
proof (induction ts arbitrary: c c' ts' n af)
  case Nil
  then show ?case by (simp add: targets_ok_refl)
next
  case (Cons t ts)
  show ?case
  proof (cases "full t")
    case True
    obtain ts2 c2 m af2 where o2: "handout_targets full ins ts c = (ts2, c2, m, af2)"
      by (cases "handout_targets full ins ts c")
    have "step_ok t t 0" by (simp add: step_ok_def)
    with targets_ok_Cons [OF this] Cons.IH [OF Cons.prems(1) o2] Cons.prems(2) True o2 show ?thesis by auto
  next
    case False
    obtain t1 c1 k where o1: "handout_one ins t c = (t1, c1, k)" by (cases "handout_one ins t c")
    obtain ts2 c2 m af2 where o2: "handout_targets full ins ts c1 = (ts2, c2, m, af2)"
      by (cases "handout_targets full ins ts c1")
    have one: "step_ok t t1 k" "mset c1 = mset c"
      using one_ok [OF Cons.prems(1), of t "[]" t1 c1 k] o1 by (simp_all add: handout_one_def)
    have "\<forall>e \<in> set c1. good e" using one(2) Cons.prems(1) by (metis mset_eq_setD)
    from Cons.IH [OF this o2] one targets_ok_Cons [OF one(1)] Cons.prems(2) False o1 o2 show ?thesis by auto
  qed
qed

lemma round_ok:
  assumes "goods cs" "handout_round full ins ts cs = (ts', cs', n, ret)"
  shows "targets_ok ts ts' n \<and> map mset cs' = map mset cs"
  using assms
proof (induction cs arbitrary: ts ts' cs' n ret)
  case Nil
  then show ?case by (simp add: targets_ok_refl)
next
  case (Cons c cs)
  obtain ts1 c1 k af where o1: "handout_targets full ins ts c = (ts1, c1, k, af)"
    by (cases "handout_targets full ins ts c")
  have t1: "targets_ok ts ts1 k" "mset c1 = mset c"
    using all_targets_ok [OF _ o1] Cons.prems(1) by (simp_all add: goods_def)
  show ?case
  proof (cases af)
    case True
    with o1 t1 Cons.prems(2) show ?thesis by auto
  next
    case False
    obtain ts2 cs2 m ret2 where o2: "handout_round full ins ts1 cs = (ts2, cs2, m, ret2)"
      by (cases "handout_round full ins ts1 cs")
    have "targets_ok ts1 ts2 m \<and> map mset cs2 = map mset cs"
      by (rule Cons.IH [OF _ o2]) (use Cons.prems(1) in \<open>simp add: goods_def\<close>)
    with o1 o2 False t1 Cons.prems(2) targets_ok_trans show ?thesis by auto
  qed
qed

lemma goods_mset: "goods cs \<Longrightarrow> map mset cs' = map mset cs \<Longrightarrow> goods cs'"
proof -
  assume g: "goods cs" and m: "map mset cs' = map mset cs"
  have "map set cs' = map (set_mset \<circ> mset) cs'" by simp
  also have "\<dots> = map set cs" using arg_cong [OF m, of "map set_mset"] by simp
  finally have "set ` set cs' = set ` set cs" by (metis list.set_map)
  with g show ?thesis unfolding goods_def by (metis image_iff)
qed

text \<open>The loop returns: every round but the last uses up capacity.\<close>

lemma handout_returns:
  assumes "goods cs"
  shows "\<exists>ts' cs'. handout full ins ts cs = Some (ts', cs') \<and> map mset cs' = map mset cs \<and>
    map key ts' = map key ts \<and> ((\<forall>t \<in> set ts. inv t) \<longrightarrow> (\<forall>t \<in> set ts'. inv t))"
  using assms
proof (induction "total_room ts" arbitrary: ts cs rule: less_induct)
  case less
  obtain ts1 cs1 n ret where r: "handout_round full ins ts cs = (ts1, cs1, n, ret)"
    by (cases "handout_round full ins ts cs")
  note ok = round_ok [OF less.prems r]
  show ?case
  proof (cases "ret \<or> n = 0")
    case True
    then have "handout full ins ts cs = Some (ts1, cs1)" by (subst handout.simps) (auto simp: r)
    with ok show ?thesis by (auto simp: targets_ok_def)
  next
    case False
    then have eq: "handout full ins ts cs = handout full ins ts1 cs1"
      by (subst handout.simps) (simp add: r)
    have "total_room ts1 < total_room ts" using ok False by (simp add: targets_ok_def)
    from less.hyps [OF this goods_mset [OF less.prems]] ok obtain ts2 cs2 where
      "handout full ins ts1 cs1 = Some (ts2, cs2)" "map mset cs2 = map mset cs1" "map key ts2 = map key ts1"
      "(\<forall>t \<in> set ts1. inv t) \<longrightarrow> (\<forall>t \<in> set ts2. inv t)" by blast
    with ok eq show ?thesis unfolding targets_ok_def by (metis (no_types, lifting))
  qed
qed

end

section \<open>Redirects\<close>

abbreviation addr_of :: "Endpoint \<Rightarrow> Address" where
  "addr_of e \<equiv> ep_address (pe_address e)"

record RedirectHandouts =
  rh_slot :: SlotImp
  rh_list :: "Endpoint list"

definition redirect_full :: "RedirectHandouts \<Rightarrow> bool" where
  "redirect_full t = (length (rh_list t) \<ge> redirectEndpointCount)"

definition redirect_try_insert :: "Endpoint \<Rightarrow> RedirectHandouts \<Rightarrow> bool \<times> RedirectHandouts" where
  "redirect_try_insert ep t =
     (if redirect_full t then (False, t)
      else if hops ep > maxHops then (False, t)
      else if hops ep = 0 then (False, t)
      else if ep_address (m_remote_endpoint (rh_slot t)) = addr_of ep then (False, t)
      else if \<exists>other \<in> set (rh_list t). addr_of other = addr_of ep then (False, t)
      else (True, t\<lparr>rh_list := rh_list t @ [Endpoint_of (pe_address ep) (hops ep)]\<rparr>))"

text \<open>A redirect names at most ten addresses, each once, at hop counts 1 to \<open>maxHops\<close>, never
  the peer's own.\<close>

definition redirect_inv :: "RedirectHandouts \<Rightarrow> bool" where
  "redirect_inv t = (length (rh_list t) \<le> redirectEndpointCount \<and> distinct (map addr_of (rh_list t)) \<and>
     (\<forall>e \<in> set (rh_list t). 1 \<le> hops e \<and> hops e \<le> maxHops \<and>
        addr_of e \<noteq> ep_address (m_remote_endpoint (rh_slot t))))"

interpretation ho_redirect: handout_target redirect_full redirect_try_insert
  "\<lambda>t. redirectEndpointCount - length (rh_list t)" redirect_inv "\<lambda>e. 0 \<le> hops e" rh_slot
proof
  fix e t t'
  show "redirect_try_insert e t = (False, t') \<Longrightarrow> t' = t"
    by (auto simp: redirect_try_insert_def split: if_splits)
  assume r: "redirect_try_insert e t = (True, t')"
  then have t': "t' = t\<lparr>rh_list := rh_list t @ [Endpoint_of (pe_address e) (hops e)]\<rparr>"
    and c: "\<not> redirect_full t" "hops e \<le> maxHops" "hops e \<noteq> 0"
      "ep_address (m_remote_endpoint (rh_slot t)) \<noteq> addr_of e" "\<forall>o' \<in> set (rh_list t). addr_of o' \<noteq> addr_of e"
    by (auto simp: redirect_try_insert_def split: if_splits)
  show "redirectEndpointCount - length (rh_list t') < redirectEndpointCount - length (rh_list t)"
    using c(1) by (simp add: t' redirect_full_def)
  show "rh_slot t' = rh_slot t" by (simp add: t')
  show "redirect_inv t \<Longrightarrow> 0 \<le> hops e \<Longrightarrow> redirect_inv t'"
    using c by (auto simp: t' redirect_inv_def redirect_full_def Endpoint_of_def)
qed

section \<open>Periodic broadcasts\<close>

record SlotHandouts =
  sh_slot :: SlotImp
  sh_list :: "Endpoint list"

definition slot_full :: "SlotHandouts \<Rightarrow> bool" where
  "slot_full t = (length (sh_list t) \<ge> numberOfEndpoints)"

definition slot_insert :: "Endpoint \<Rightarrow> SlotHandouts \<Rightarrow> SlotHandouts" where
  "slot_insert ep t = t\<lparr>sh_list := sh_list t @ [ep]\<rparr>"

definition slot_try_insert :: "int \<Rightarrow> Endpoint \<Rightarrow> SlotHandouts \<Rightarrow> bool \<times> SlotHandouts" where
  "slot_try_insert now ep t =
     (let slot = sh_slot t
      in if slot_full t then (False, t)
         else if hops ep > maxHops then (False, t)
         else if recent_filter (pe_address ep) (hops ep) (recent slot) then (False, t)
         else if ep_address (m_remote_endpoint slot) = addr_of ep then (False, t)
         else if \<exists>other \<in> set (sh_list t). addr_of other = addr_of ep then (False, t)
         else (True, t\<lparr>sh_list := sh_list t @ [Endpoint_of (pe_address ep) (hops ep)],
                      sh_slot := slot\<lparr>recent := recent_insert now (pe_address ep) (hops ep) (recent slot)\<rparr>\<rparr>))"

text \<open>A broadcast holds at most \<open>numberOfEndpoints\<close> addresses, each once and none beyond
  \<open>maxHops\<close>, and every address in it taken from the cache is recorded as sent.\<close>

definition slot_inv :: "int \<Rightarrow> SlotHandouts \<Rightarrow> bool" where
  "slot_inv now t = (length (sh_list t) \<le> numberOfEndpoints \<and> distinct (map addr_of (sh_list t)) \<and>
     aged_ok now (recent (sh_slot t)) \<and> (\<forall>e \<in> set (sh_list t). hops e \<le> maxHops) \<and>
     (\<forall>e \<in> set (sh_list t). 0 < hops e \<longrightarrow> recent_filter (pe_address e) (hops e) (recent (sh_slot t)) \<and>
        addr_of e \<noteq> ep_address (m_remote_endpoint (sh_slot t))))"

text \<open>What the hand-out leaves of the slot.\<close>

definition slot_core :: "SlotImp \<Rightarrow> SlotImp" where
  "slot_core s = s\<lparr>recent := []\<rparr>"

lemma recent_filter_mono:
  "recent_filter a h c \<Longrightarrow> recent_filter a h (recent_insert now b h' c)"
proof (cases "aged_find b c")
  case None
  assume f: "recent_filter a h c"
  with None have "a \<noteq> b" by (auto simp: recent_filter_def)
  then have "aged_find a (c @ [(b, h', now)]) = aged_find a c"
    by (simp add: aged_find_def map_add_def split: option.split)
  with f None show ?thesis by (simp add: recent_filter_def recent_insert_def emplace_cases)
next
  case (Some old)
  assume f: "recent_filter a h c"
  with Some show ?thesis
    by (auto simp: recent_filter_def recent_insert_def emplace_cases aged_find_touch aged_find_assign
        split: option.splits)
qed

interpretation ho_slot: handout_target slot_full "slot_try_insert now"
  "\<lambda>t. numberOfEndpoints - length (sh_list t)" "slot_inv now" "\<lambda>e. True" "\<lambda>t. slot_core (sh_slot t)"
  for now
proof
  fix e t t'
  show "slot_try_insert now e t = (False, t') \<Longrightarrow> t' = t"
    by (auto simp: slot_try_insert_def Let_def split: if_splits)
  let ?s = "sh_slot t"
  let ?r = "recent_insert now (pe_address e) (hops e) (recent ?s)"
  assume r: "slot_try_insert now e t = (True, t')"
  then have t': "t' = t\<lparr>sh_list := sh_list t @ [Endpoint_of (pe_address e) (hops e)], sh_slot := ?s\<lparr>recent := ?r\<rparr>\<rparr>"
    and c: "\<not> slot_full t" "hops e \<le> maxHops" "ep_address (m_remote_endpoint ?s) \<noteq> addr_of e"
      "\<forall>o' \<in> set (sh_list t). addr_of o' \<noteq> addr_of e"
    by (auto simp: slot_try_insert_def Let_def split: if_splits)
  show "numberOfEndpoints - length (sh_list t') < numberOfEndpoints - length (sh_list t)"
    using c(1) by (simp add: t' slot_full_def)
  show "slot_core (sh_slot t') = slot_core (sh_slot t)" by (simp add: t' slot_core_def)
  show "slot_inv now t \<Longrightarrow> True \<Longrightarrow> slot_inv now t'"
    using c by (auto simp: t' slot_inv_def slot_full_def Endpoint_of_def recent_filter_mono
        recent_filter_insert intro: recent_insert_ok)
qed

section \<open>Automatic connections\<close>

type_synonym Squelches = "(Address, unit) aged"

record ConnectHandouts =
  ch_needed :: nat
  ch_squelches :: Squelches
  ch_list :: "IPEndpoint list"

definition connect_full :: "ConnectHandouts \<Rightarrow> bool" where
  "connect_full t = (length (ch_list t) \<ge> ch_needed t)"

definition connect_try_insert_ep :: "int \<Rightarrow> IPEndpoint \<Rightarrow> ConnectHandouts \<Rightarrow> bool \<times> ConnectHandouts" where
  "connect_try_insert_ep now ep t =
     (if connect_full t then (False, t)
      else if \<exists>other \<in> set (ch_list t). ep_address other = ep_address ep then (False, t)
      else let (sq, inserted) = aged_emplace now (ep_address ep) () (ch_squelches t)
           in if \<not> inserted then (False, t\<lparr>ch_squelches := sq\<rparr>)
              else (True, t\<lparr>ch_squelches := sq, ch_list := ch_list t @ [ep]\<rparr>))"

definition connect_try_insert :: "int \<Rightarrow> Endpoint \<Rightarrow> ConnectHandouts \<Rightarrow> bool \<times> ConnectHandouts" where
  "connect_try_insert now e t = connect_try_insert_ep now (pe_address e) t"

text \<open>The addresses handed out are distinct, at most as many as needed, none of them in the set
  \<open>avoid\<close> of addresses squelched before, and all of them squelched now.\<close>

definition connect_inv :: "int \<Rightarrow> Address set \<Rightarrow> ConnectHandouts \<Rightarrow> bool" where
  "connect_inv now avoid t = (length (ch_list t) \<le> ch_needed t \<and> distinct (map ep_address (ch_list t)) \<and>
     aged_ok now (ch_squelches t) \<and> avoid \<subseteq> aged_keys (ch_squelches t) \<and>
     (\<forall>ep \<in> set (ch_list t). ep_address ep \<notin> avoid \<and> ep_address ep \<in> aged_keys (ch_squelches t)))"

lemma connect_refuse: "connect_try_insert_ep now ep t = (False, t') \<Longrightarrow> t' = t"
  by (cases t) (auto simp: connect_try_insert_ep_def emplace_cases Let_def split: if_splits option.splits)

lemma aged_keys_find: "aged_find k c = None \<longleftrightarrow> k \<notin> aged_keys c"
  by (simp add: aged_find_def map_of_None_keys)

lemma connect_take:
  assumes "connect_try_insert_ep now ep t = (True, t')"
  shows "t' = t\<lparr>ch_squelches := ch_squelches t @ [(ep_address ep, (), now)], ch_list := ch_list t @ [ep]\<rparr> \<and>
    \<not> connect_full t \<and> ep_address ep \<notin> aged_keys (ch_squelches t) \<and>
    (\<forall>o' \<in> set (ch_list t). ep_address o' \<noteq> ep_address ep)"
  using assms
  by (auto simp: connect_try_insert_ep_def emplace_cases Let_def simp flip: aged_keys_find
      split: if_splits option.splits)

lemma connect_take_inv:
  assumes "connect_try_insert_ep now ep t = (True, t')" "connect_inv now avoid t"
  shows "connect_inv now avoid t'"
  using connect_take [OF assms(1)] assms(2)
  by (auto simp: connect_inv_def connect_full_def aged_keys_def intro: aged_ok_snoc)

interpretation ho_connect: handout_target connect_full "connect_try_insert now"
  "\<lambda>t. ch_needed t - length (ch_list t)" "connect_inv now avoid" "\<lambda>e. True" ch_needed
  for now avoid
proof
  fix e t t'
  show "connect_try_insert now e t = (False, t') \<Longrightarrow> t' = t"
    by (simp add: connect_try_insert_def connect_refuse)
  assume "connect_try_insert now e t = (True, t')"
  then have r: "connect_try_insert_ep now (pe_address e) t = (True, t')" by (simp add: connect_try_insert_def)
  note t' = connect_take [OF r]
  show "ch_needed t' - length (ch_list t') < ch_needed t - length (ch_list t)"
    using t' by (auto simp: connect_full_def)
  show "ch_needed t' = ch_needed t" using t' by simp
  show "connect_inv now avoid t \<Longrightarrow> True \<Longrightarrow> connect_inv now avoid t'" by (rule connect_take_inv [OF r])
qed

end
