(* ===== verification/OrderedMap.thy ===== *)
theory OrderedMap
  imports Prelude
begin

text \<open>
  \<open>std::map\<close> as its sequence of elements in key order, for a comparison given as an argument:
  \<open>emplace\<close> inserts unless the key is there, \<open>update\<close> writes through an iterator,
  \<open>erase\<close> removes.
\<close>

fun om_insert :: "('k \<Rightarrow> 'k \<Rightarrow> bool) \<Rightarrow> 'k \<Rightarrow> 'v \<Rightarrow> ('k \<times> 'v) list \<Rightarrow> ('k \<times> 'v) list" where
  "om_insert lt k v [] = [(k, v)]"
| "om_insert lt k v ((k', v') # m) = (if lt k k' then (k, v) # (k', v') # m else (k', v') # om_insert lt k v m)"

definition om_emplace :: "('k \<Rightarrow> 'k \<Rightarrow> bool) \<Rightarrow> 'k \<Rightarrow> 'v \<Rightarrow> ('k \<times> 'v) list \<Rightarrow> ('k \<times> 'v) list \<times> bool" where
  "om_emplace lt k v m = (if map_of m k = None then (om_insert lt k v m, True) else (m, False))"

definition om_update :: "'k \<Rightarrow> 'v \<Rightarrow> ('k \<times> 'v) list \<Rightarrow> ('k \<times> 'v) list" where
  "om_update k v m = map (\<lambda>(k', v'). (k', if k' = k then v else v')) m"

definition om_erase :: "'k \<Rightarrow> ('k \<times> 'v) list \<Rightarrow> ('k \<times> 'v) list" where
  "om_erase k m = filter (\<lambda>e. fst e \<noteq> k) m"

definition om_ok :: "('k \<Rightarrow> 'k \<Rightarrow> bool) \<Rightarrow> ('k \<times> 'v) list \<Rightarrow> bool" where
  "om_ok lt m = sorted_wrt lt (map fst m)"

section \<open>Contents\<close>

lemma om_insert_mset: "mset (om_insert lt k v m) = add_mset (k, v) (mset m)"
  by (induction lt k v m rule: om_insert.induct) auto

lemma om_insert_set [simp]: "set (om_insert lt k v m) = insert (k, v) (set m)"
  using arg_cong [OF om_insert_mset, of set_mset] by simp

lemma om_insert_length [simp]: "length (om_insert lt k v m) = Suc (length m)"
  using arg_cong [OF om_insert_mset, of size] by simp

lemma map_fst_om_update [simp]: "map fst (om_update k v m) = map fst m"
  by (induction m) (auto simp: om_update_def)

lemma map_of_om_insert: "map_of m k = None \<Longrightarrow> map_of (om_insert lt k v m) = (map_of m)(k \<mapsto> v)"
  by (induction lt k v m rule: om_insert.induct) (auto split: if_splits)

lemma map_of_om_update: "map_of (om_update k v m) k' = (if k' = k \<and> map_of m k \<noteq> None then Some v else map_of m k')"
  by (induction m) (auto simp: om_update_def)

lemma map_of_om_erase: "map_of (om_erase k m) = (map_of m)(k := None)"
  by (induction m) (auto simp: om_erase_def)

text \<open>The values under a function, as the multiset specifications of the components need them.\<close>

lemma om_update_mset:
  assumes "distinct (map fst m)" "map_of m k = Some w"
  shows "add_mset (f w) (image_mset (f \<circ> snd) (mset (om_update k v m))) =
    add_mset (f v) (image_mset (f \<circ> snd) (mset m))"
  using assms
proof (induction m)
  case Nil
  then show ?case by simp
next
  case (Cons e m)
  obtain k' v' where e: "e = (k', v')" by (cases e)
  show ?case
  proof (cases "k' = k")
    case True
    with Cons.prems e have "k \<notin> fst ` set m" by auto
    then have "om_update k v m = m" by (force simp: om_update_def intro!: map_idI)
    with True e Cons.prems show ?thesis by (simp add: om_update_def add_mset_commute)
  next
    case False
    with Cons e show ?thesis by (simp add: om_update_def)
  qed
qed

lemma om_erase_mset:
  assumes "distinct (map fst m)" "map_of m k = Some w"
  shows "mset m = add_mset (k, w) (mset (om_erase k m))"
  using assms
proof (induction m)
  case Nil
  then show ?case by simp
next
  case (Cons e m)
  obtain k' v' where e: "e = (k', v')" by (cases e)
  show ?case
  proof (cases "k' = k")
    case True
    with Cons.prems e have "k \<notin> fst ` set m" by auto
    then have "om_erase k m = m" by (force simp: om_erase_def intro!: filter_True)
    with True e Cons.prems show ?thesis by (simp add: om_erase_def)
  next
    case False
    with Cons e show ?thesis by (simp add: om_erase_def)
  qed
qed

section \<open>Order\<close>

text \<open>The key comparison is a strict total order.\<close>

locale strict_total =
  fixes lt :: "'k \<Rightarrow> 'k \<Rightarrow> bool"
  assumes irrefl: "\<not> lt a a"
    and trans: "lt a b \<Longrightarrow> lt b c \<Longrightarrow> lt a c"
    and total: "lt a b \<or> a = b \<or> lt b a"
begin

lemma om_ok_distinct: "om_ok lt m \<Longrightarrow> distinct (map fst m)"
  by (induction m) (auto simp: om_ok_def irrefl)

lemma om_insert_ok: "om_ok lt m \<Longrightarrow> map_of m k = None \<Longrightarrow> om_ok lt (om_insert lt k v m)"
proof (induction m)
  case Nil
  then show ?case by (simp add: om_ok_def)
next
  case (Cons e m)
  obtain k' v' where e: "e = (k', v')" by (cases e)
  have ne: "k \<noteq> k'" using Cons.prems(2) e by (auto split: if_splits)
  show ?case
  proof (cases "lt k k'")
    case True
    with Cons.prems e show ?thesis by (auto simp: om_ok_def intro: trans)
  next
    case False
    with ne total have "lt k' k" by blast
    with Cons e False ne show ?thesis by (auto simp: om_ok_def split: if_splits)
  qed
qed

lemma om_emplace_ok: "om_ok lt m \<Longrightarrow> om_ok lt (fst (om_emplace lt k v m))"
  by (simp add: om_emplace_def om_insert_ok)

lemma om_update_ok: "om_ok lt m \<Longrightarrow> om_ok lt (om_update k v m)"
  by (simp add: om_ok_def)

lemma om_erase_ok: "om_ok lt m \<Longrightarrow> om_ok lt (om_erase k m)"
  unfolding om_ok_def om_erase_def by (induction m) auto

end

end
