(* ===== verification/PF_Logic.thy ===== *)
theory PF_Logic
  imports PF_Counts PF_Bootcache PF_Handouts OrderedMap
begin

text \<open>
  \<open>PeerFinder::Logic\<close> (\<open>src/ripple/peerfinder/impl/Logic.h\<close>). A slot is named by its
  remote endpoint, the key of the slot table. The clock is an argument; so are the random shuffles and
  what other components answer (the connectivity checker's result, the addresses of a source). Every
  \<open>assert\<close> of the source is a branch.
\<close>

section \<open>State\<close>

record pf_state =
  p_stopping :: bool
  p_config :: Config
  p_counts :: Counts
  p_fixed :: "(IPEndpoint \<times> Fixed) list"
  p_livecache :: Livecache
  p_bootcache :: Bootcache
  p_slots :: "(IPEndpoint \<times> SlotImp) list"
  p_connected_addresses :: "Address multiset"
  p_keys :: "RipplePublicKey set"
  p_whenBroadcast :: int
  p_squelches :: Squelches

definition pf_config :: "Config \<Rightarrow> pf_state \<Rightarrow> pf_state" where
  "pf_config c st = st\<lparr>p_config := c, p_counts := onConfig c (p_counts st)\<rparr>"

definition pf_init :: "Stopwatch \<Rightarrow> rat \<Rightarrow> (string \<times> int) list \<Rightarrow> pf_state" where
  "pf_init clk rounding rows = pf_config Config_default
     \<lparr>p_stopping = False, p_config = Config_default, p_counts = Counts_init rounding, p_fixed = [],
      p_livecache = Livecache_init, p_bootcache = Bootcache_init (sw_now clk) rows, p_slots = [],
      p_connected_addresses = {#}, p_keys = {}, p_whenBroadcast = sw_now clk, p_squelches = []\<rparr>"

definition pf_load :: "pf_state \<Rightarrow> pf_state" where
  "pf_load st = st\<lparr>p_bootcache := bootcache_load (p_bootcache st)\<rparr>"

definition pf_stop :: "pf_state \<Rightarrow> pf_state" where
  "pf_stop st = st\<lparr>p_stopping := True\<rparr>"

definition find_slot :: "IPEndpoint \<Rightarrow> pf_state \<Rightarrow> (pf_error, SlotImp) result" where
  "find_slot ep st = (case map_of (p_slots st) ep of None \<Rightarrow> Inl PfAssert | Some s \<Rightarrow> Inr s)"

definition put_slot :: "IPEndpoint \<Rightarrow> SlotImp \<Rightarrow> pf_state \<Rightarrow> pf_state" where
  "put_slot ep s st = st\<lparr>p_slots := om_update ep s (p_slots st)\<rparr>"

section \<open>Fixed peers\<close>

fun addFixedPeer :: "Stopwatch \<Rightarrow> IPEndpoint list \<Rightarrow> pf_state \<Rightarrow> (pf_error, pf_state) result" where
  "addFixedPeer clk [] st = Inr st"
| "addFixedPeer clk (a # as) st =
     (if ep_port a = 0 then Inl PfNoPort
      else let (m, inserted) = om_emplace endpoint_less a (Fixed_at (sw_now clk)) (p_fixed st);
               st1 = st\<lparr>p_fixed := m\<rparr>
           in if inserted then Inr st1 else addFixedPeer clk as st1)"

definition fixed_endpoint :: "IPEndpoint \<Rightarrow> pf_state \<Rightarrow> bool" where
  "fixed_endpoint ep st = (\<exists>e \<in> set (p_fixed st). fst e = ep)"

definition fixed_address :: "Address \<Rightarrow> pf_state \<Rightarrow> bool" where
  "fixed_address a st = (\<exists>e \<in> set (p_fixed st). ep_address (fst e) = a)"

section \<open>Connections\<close>

datatype check_result = CheckAborted | CheckFailed | CheckSucceeded

definition checkComplete ::
  "Stopwatch \<Rightarrow> IPEndpoint \<Rightarrow> IPEndpoint \<Rightarrow> check_result \<Rightarrow> pf_state \<Rightarrow> (pf_error, pf_state) result" where
  "checkComplete clk remoteAddress checkedAddress ec st =
     (if ec = CheckAborted then Inr st
      else case map_of (p_slots st) remoteAddress of None \<Rightarrow> Inr st
        | Some slot \<Rightarrow>
            let slot1 = slot\<lparr>checked := True, connectivityCheckInProgress := False\<rparr>
            in if ec = CheckFailed
               then let st1 = put_slot remoteAddress (slot1\<lparr>canAccept := False\<rparr>) st
                    in bind_r (bootcache_on_failure clk checkedAddress (p_bootcache st1)) (\<lambda>b.
                         Inr (st1\<lparr>p_bootcache := b\<rparr>))
               else Inr (put_slot remoteAddress
                      (set_listening_port (ep_port checkedAddress) (slot1\<lparr>canAccept := True\<rparr>)) st))"

text \<open>The common end of the two functions that create a slot.\<close>

definition add_slot :: "SlotImp \<Rightarrow> pf_state \<Rightarrow> (pf_error, IPEndpoint option \<times> pf_state) result" where
  "add_slot slot st =
     (let ep = m_remote_endpoint slot; (m, inserted) = om_emplace endpoint_less ep slot (p_slots st)
      in bind_r (pf_assert inserted) (\<lambda>_.
         bind_r (counts_add slot (p_counts st)) (\<lambda>c.
           Inr (Some ep, st\<lparr>p_slots := m, p_counts := c,
                  p_connected_addresses := add_mset (ep_address ep) (p_connected_addresses st)\<rparr>))))"

definition new_inbound_slot ::
  "IPEndpoint \<Rightarrow> IPEndpoint \<Rightarrow> pf_state \<Rightarrow> (pf_error, IPEndpoint option \<times> pf_state) result" where
  "new_inbound_slot local_endpoint remote_endpoint st =
     (if ep_address remote_endpoint \<in># p_connected_addresses st then Inr (None, st)
      else add_slot (SlotImp_inbound local_endpoint remote_endpoint
                       (fixed_address (ep_address remote_endpoint) st)) st)"

definition new_outbound_slot :: "IPEndpoint \<Rightarrow> pf_state \<Rightarrow> (pf_error, IPEndpoint option \<times> pf_state) result" where
  "new_outbound_slot remote_endpoint st =
     (if map_of (p_slots st) remote_endpoint \<noteq> None then Inr (None, st)
      else add_slot (SlotImp_outbound remote_endpoint (fixed_endpoint remote_endpoint st)) st)"

text \<open>The slot is changed through its pointer, so it keeps its local endpoint on every path.\<close>

definition onConnected ::
  "IPEndpoint \<Rightarrow> IPEndpoint \<Rightarrow> pf_state \<Rightarrow> (pf_error, bool \<times> pf_state) result" where
  "onConnected ep local_endpoint st =
     bind_r (find_slot ep st) (\<lambda>slot0.
       let slot = slot0\<lparr>m_local_endpoint := Some local_endpoint\<rparr>; st1 = put_slot ep slot st
       in case map_of (p_slots st1) local_endpoint of
            Some other \<Rightarrow>
              bind_r (pf_assert (m_local_endpoint other = Some ep)) (\<lambda>_. Inr (False, st1))
          | None \<Rightarrow>
              bind_r (counts_remove slot (p_counts st1)) (\<lambda>c1.
              bind_r (slot_state connected slot) (\<lambda>slot1.
              bind_r (counts_add slot1 c1) (\<lambda>c2.
                Inr (True, put_slot ep slot1 (st1\<lparr>p_counts := c2\<rparr>))))))"

definition note_success :: "Stopwatch \<Rightarrow> IPEndpoint \<Rightarrow> SlotImp \<Rightarrow> pf_state \<Rightarrow> (pf_error, pf_state) result" where
  "note_success clk ep slot st =
     (if \<not> m_inbound slot
      then bind_r (bootcache_on_success clk ep (p_bootcache st)) (\<lambda>b. Inr (st\<lparr>p_bootcache := b\<rparr>))
      else Inr st)"

definition activate ::
  "Stopwatch \<Rightarrow> IPEndpoint \<Rightarrow> RipplePublicKey \<Rightarrow> bool \<Rightarrow> pf_state \<Rightarrow> (pf_error, Result \<times> pf_state) result" where
  "activate clk ep key cluster st =
     bind_r (find_slot ep st) (\<lambda>slot.
     bind_r (pf_assert (m_state slot = accept \<or> m_state slot = connected)) (\<lambda>_.
     if key \<in> p_keys st then Inr (Result_duplicate, st)
     else bind_r (can_activate slot (p_counts st)) (\<lambda>can.
       if \<not> can then bind_r (note_success clk ep slot st) (\<lambda>st1. Inr (Result_full, st1))
       else
         bind_r (counts_remove slot (p_counts st)) (\<lambda>c1.
         let slot1 = slot\<lparr>m_public_key := Some key, m_cluster := cluster\<rparr> in
         bind_r (counts_add slot1 c1) (\<lambda>c2.
         bind_r (pf_assert (key \<notin> p_keys st)) (\<lambda>_.
         bind_r (counts_remove slot1 c2) (\<lambda>c3.
         bind_r (slot_activate (sw_now clk) slot1) (\<lambda>slot2.
         bind_r (counts_add slot2 c3) (\<lambda>c4.
         let st1 = put_slot ep slot2 (st\<lparr>p_counts := c4, p_keys := insert key (p_keys st)\<rparr>) in
         bind_r (note_success clk ep slot2 st1) (\<lambda>st2.
           if m_fixed slot2 \<and> \<not> m_inbound slot2
           then case map_of (p_fixed st2) ep of None \<Rightarrow> Inl PfAssert
             | Some f \<Rightarrow> Inr (Result_success,
                 st2\<lparr>p_fixed := om_update ep (fixed_success (sw_now clk) f) (p_fixed st2)\<rparr>)
           else Inr (Result_success, st2)))))))))))"

definition pf_remove :: "IPEndpoint \<Rightarrow> SlotImp \<Rightarrow> pf_state \<Rightarrow> (pf_error, pf_state) result" where
  "pf_remove ep slot st =
     bind_r (pf_assert (map_of (p_slots st) ep \<noteq> None)) (\<lambda>_.
     let st1 = st\<lparr>p_slots := om_erase ep (p_slots st)\<rparr> in
     bind_r (case m_public_key slot of None \<Rightarrow> Inr st1
             | Some key \<Rightarrow> bind_r (pf_assert (key \<in> p_keys st1)) (\<lambda>_.
                 Inr (st1\<lparr>p_keys := p_keys st1 - {key}\<rparr>))) (\<lambda>st2.
     bind_r (pf_assert (ep_address ep \<in># p_connected_addresses st2)) (\<lambda>_.
     let st3 = st2\<lparr>p_connected_addresses := p_connected_addresses st2 - {#ep_address ep#}\<rparr> in
     bind_r (counts_remove slot (p_counts st3)) (\<lambda>c. Inr (st3\<lparr>p_counts := c\<rparr>)))))"

definition on_closed :: "Stopwatch \<Rightarrow> IPEndpoint \<Rightarrow> pf_state \<Rightarrow> (pf_error, pf_state) result" where
  "on_closed clk ep st =
     bind_r (find_slot ep st) (\<lambda>slot.
     bind_r (pf_remove ep slot st) (\<lambda>st1.
     bind_r (if m_fixed slot \<and> \<not> m_inbound slot \<and> m_state slot \<noteq> active
             then case map_of (p_fixed st1) ep of None \<Rightarrow> Inl PfAssert
               | Some f \<Rightarrow> Inr (st1\<lparr>p_fixed := om_update ep (fixed_failure clk f) (p_fixed st1)\<rparr>)
             else Inr st1) (\<lambda>st2.
       if m_state slot = connect \<or> m_state slot = connected
       then bind_r (bootcache_on_failure clk ep (p_bootcache st2)) (\<lambda>b. Inr (st2\<lparr>p_bootcache := b\<rparr>))
       else Inr st2)))"

definition pf_on_failure :: "Stopwatch \<Rightarrow> IPEndpoint \<Rightarrow> pf_state \<Rightarrow> (pf_error, pf_state) result" where
  "pf_on_failure clk ep st =
     bind_r (bootcache_on_failure clk ep (p_bootcache st)) (\<lambda>b. Inr (st\<lparr>p_bootcache := b\<rparr>))"

section \<open>Handing out addresses\<close>

text \<open>The hop lists as sequences of endpoints, and back.\<close>

definition lc_element :: "Livecache \<Rightarrow> IPEndpoint \<Rightarrow> Endpoint" where
  "lc_element lc a = (case aged_find a (lc_cache lc) of None \<Rightarrow> Endpoint_of a 0 | Some h \<Rightarrow> Endpoint_of a h)"

definition lc_sequence :: "Livecache \<Rightarrow> Endpoint list list" where
  "lc_sequence lc = map (map (lc_element lc)) (lc_lists lc)"

definition lc_set_sequence :: "Endpoint list list \<Rightarrow> Livecache \<Rightarrow> Livecache" where
  "lc_set_sequence seq lc = lc\<lparr>lc_lists := map (map pe_address) seq\<rparr>"

definition redirect ::
  "(IPEndpoint list \<Rightarrow> IPEndpoint list) \<Rightarrow> SlotImp \<Rightarrow> pf_state \<Rightarrow> (pf_error, Endpoint list \<times> pf_state) result" where
  "redirect shuf slot st =
     (let lc = hops_shuffle shuf (p_livecache st)
      in case handout redirect_full redirect_try_insert [\<lparr>rh_slot = slot, rh_list = []\<rparr>] (lc_sequence lc) of
           None \<Rightarrow> Inl PfDiverges
         | Some (ts, seq) \<Rightarrow>
             Inr (concat (map rh_list ts), st\<lparr>p_livecache := lc_set_sequence seq lc\<rparr>))"

fun get_fixed ::
  "int \<Rightarrow> (IPEndpoint \<times> SlotImp) list \<Rightarrow> nat \<Rightarrow> (IPEndpoint \<times> Fixed) list \<Rightarrow> IPEndpoint list \<times> Squelches \<Rightarrow>
     IPEndpoint list \<times> Squelches" where
  "get_fixed now slots needed [] c = c"
| "get_fixed now slots needed ((ep, f) # fs) (l, sq) =
     (if needed = 0 then (l, sq)
      else if fx_when f \<le> now \<and> aged_find (ep_address ep) sq = None \<and>
              (\<forall>v \<in> set slots. ep_address ep \<noteq> ep_address (fst v))
      then get_fixed now slots (needed - 1) fs (l @ [ep], fst (aged_emplace now (ep_address ep) () sq))
      else get_fixed now slots needed fs (l, sq))"

definition squelch_one :: "int \<Rightarrow> Squelches \<Rightarrow> IPEndpoint \<times> SlotImp \<Rightarrow> Squelches" where
  "squelch_one now sq s =
     (let a = ep_address (m_remote_endpoint (snd s)); (sq1, inserted) = aged_emplace now a () sq
      in if \<not> inserted then aged_touch now a sq1 else sq1)"

definition squelch_slots :: "int \<Rightarrow> pf_state \<Rightarrow> pf_state" where
  "squelch_slots now st = st\<lparr>p_squelches := foldl (squelch_one now) (p_squelches st) (p_slots st)\<rparr>"

fun connect_boot :: "int \<Rightarrow> IPEndpoint list \<Rightarrow> ConnectHandouts \<Rightarrow> ConnectHandouts" where
  "connect_boot now [] h = h"
| "connect_boot now (ep # eps) h =
     (if connect_full h then h else connect_boot now eps (snd (connect_try_insert_ep now ep h)))"

text \<open>
  \<open>autoconnect\<close>: fixed peers first, then the live cache from the farthest hops, then the boot
  cache. \<open>h\<close> refers to the squelch set, which is written back on every path.
\<close>

definition fixed_wanted :: "pf_state \<Rightarrow> bool" where
  "fixed_wanted st = (m_fixed_active (p_counts st) < int (length (p_fixed st)))"

definition connect_fixed :: "int \<Rightarrow> nat \<Rightarrow> pf_state \<Rightarrow> IPEndpoint list \<times> Squelches" where
  "connect_fixed now needed st =
     (if fixed_wanted st then get_fixed now (p_slots st) needed (p_fixed st) ([], p_squelches st)
      else ([], p_squelches st))"

definition connect_bootcache :: "int \<Rightarrow> ConnectHandouts \<Rightarrow> pf_state \<Rightarrow> IPEndpoint list \<times> pf_state" where
  "connect_bootcache now h st =
     (let h2 = connect_boot now (map fst (bc_map (p_bootcache st))) h
      in (ch_list h2, st\<lparr>p_squelches := ch_squelches h2\<rparr>))"

definition connect_live ::
  "(IPEndpoint list \<Rightarrow> IPEndpoint list) \<Rightarrow> int \<Rightarrow> nat \<Rightarrow> pf_state \<Rightarrow> (pf_error, IPEndpoint list \<times> pf_state) result" where
  "connect_live shuf now needed st =
     (let lc = hops_shuffle shuf (p_livecache st);
          h = \<lparr>ch_needed = needed, ch_squelches = p_squelches st, ch_list = []\<rparr>
      in case handout connect_full (connect_try_insert now) [h] (rev (lc_sequence lc)) of
           None \<Rightarrow> Inl PfDiverges
         | Some (ts, seq) \<Rightarrow>
             (case ts of [h1] \<Rightarrow>
                let st1 = st\<lparr>p_livecache := lc_set_sequence (rev seq) lc, p_squelches := ch_squelches h1\<rparr>
                in if ch_list h1 \<noteq> [] then Inr (ch_list h1, st1)
                   else if m_attempts (p_counts st1) > 0 then Inr ([], st1)
                   else Inr (connect_bootcache now h1 st1)
              | _ \<Rightarrow> Inl PfIndex))"

definition autoconnect ::
  "(IPEndpoint list \<Rightarrow> IPEndpoint list) \<Rightarrow> Stopwatch \<Rightarrow> pf_state \<Rightarrow> (pf_error, IPEndpoint list \<times> pf_state) result" where
  "autoconnect shuf clk st =
     (let now = sw_now clk; needed = attempts_needed (p_counts st) in
      if needed = 0 then Inr ([], st)
      else
        let st1 = squelch_slots now st; c = connect_fixed now needed st1; st2 = st1\<lparr>p_squelches := snd c\<rparr>
        in if fixed_wanted st1 \<and> fst c \<noteq> [] then Inr (fst c, st2)
           else if fixed_wanted st1 \<and> m_attempts (p_counts st2) > 0 then Inr ([], st2)
           else if \<not> cf_autoConnect (p_config st2) \<or> m_out_active (p_counts st2) \<ge> m_out_max (p_counts st2)
           then Inr ([], st2)
           else connect_live shuf now needed st2)"

text \<open>The broadcast of endpoints to the active slots, in random order.\<close>

definition self_endpoint :: "Config \<Rightarrow> Endpoint" where
  "self_endpoint config = \<lparr>hops = 0, pe_address = at_port (IPEndpoint_of (AddressV4_of 0) 0) (cf_listeningPort config)\<rparr>"

definition broadcast_targets :: "(SlotImp list \<Rightarrow> SlotImp list) \<Rightarrow> pf_state \<Rightarrow> SlotHandouts list" where
  "broadcast_targets shuf_slots st =
     (let slots = filter (\<lambda>s. m_state s = active) (map snd (p_slots st));
          targets = map (\<lambda>s. \<lparr>sh_slot = s, sh_list = []\<rparr>) (shuf_slots slots)
      in if cf_wantIncoming (p_config st) \<and> m_in_max (p_counts st) > 0
         then map (slot_insert (self_endpoint (p_config st))) targets else targets)"

definition store_target :: "pf_state \<Rightarrow> SlotHandouts \<Rightarrow> pf_state" where
  "store_target st t = put_slot (m_remote_endpoint (sh_slot t)) (sh_slot t) st"

definition buildEndpointsForPeers ::
  "(IPEndpoint list \<Rightarrow> IPEndpoint list) \<Rightarrow> (SlotImp list \<Rightarrow> SlotImp list) \<Rightarrow> Stopwatch \<Rightarrow> pf_state \<Rightarrow>
     (pf_error, (IPEndpoint \<times> Endpoint list) list \<times> pf_state) result" where
  "buildEndpointsForPeers shuf shuf_slots clk st =
     (let now = sw_now clk in
      if p_whenBroadcast st \<le> now
      then let lc = hops_shuffle shuf (p_livecache st)
           in case handout slot_full (slot_try_insert now) (broadcast_targets shuf_slots st) (lc_sequence lc) of
                None \<Rightarrow> Inl PfDiverges
              | Some (ts, seq) \<Rightarrow>
                  Inr (map (\<lambda>t. (m_remote_endpoint (sh_slot t), sh_list t)) ts,
                       (foldl store_target (st\<lparr>p_livecache := lc_set_sequence seq lc\<rparr>) ts)
                         \<lparr>p_whenBroadcast := now + seconds clk secondsPerMessage\<rparr>)
      else Inr ([], st))"

definition once_per_second :: "Stopwatch \<Rightarrow> pf_state \<Rightarrow> (pf_error, pf_state) result" where
  "once_per_second clk st =
     bind_r (livecache_expire clk (p_livecache st)) (\<lambda>lc.
       Inr (st\<lparr>p_livecache := lc, p_slots := map (\<lambda>(ep, s). (ep, slot_expire clk s)) (p_slots st),
              p_squelches := fst (aged_expire (sw_now clk) (seconds clk recentAttemptDuration) (p_squelches st)),
              p_bootcache := bootcache_periodicActivity clk (p_bootcache st)\<rparr>))"

section \<open>Endpoint messages\<close>

definition is_valid_address :: "IPEndpoint \<Rightarrow> bool" where
  "is_valid_address ep =
     (if is_unspecified (ep_address ep) then False
      else if \<not> is_public (ep_address ep) then False
      else if ep_port ep = 0 then False else True)"

text \<open>\<open>kept\<close> is the part of the list before the iterator.\<close>

fun preprocess_loop :: "SlotImp \<Rightarrow> Endpoint list \<Rightarrow> bool \<Rightarrow> Endpoint list \<Rightarrow> Endpoint list" where
  "preprocess_loop slot kept neighbor [] = kept"
| "preprocess_loop slot kept neighbor (ep # eps) =
     (if hops ep > maxHops then preprocess_loop slot kept neighbor eps
      else if hops ep = 0 \<and> neighbor then preprocess_loop slot kept neighbor eps
      else let neighbor' = (neighbor \<or> hops ep = 0);
               ep1 = (if hops ep = 0
                      then ep\<lparr>pe_address := at_port (m_remote_endpoint slot) (ep_port (pe_address ep))\<rparr> else ep)
           in if \<not> is_valid_address (pe_address ep1) then preprocess_loop slot kept neighbor' eps
              else if \<exists>other \<in> set kept. pe_address ep1 = pe_address other
              then preprocess_loop slot kept neighbor' eps
              else preprocess_loop slot (kept @ [ep1\<lparr>hops := hops ep1 + 1\<rparr>]) neighbor' eps)"

definition preprocess :: "SlotImp \<Rightarrow> Endpoint list \<Rightarrow> Endpoint list" where
  "preprocess slot list = preprocess_loop slot [] False list"

text \<open>One endpoint of the message; the first component collects the connectivity checks started.\<close>

definition on_endpoint ::
  "Stopwatch \<Rightarrow> IPEndpoint \<Rightarrow> Endpoint \<Rightarrow> IPEndpoint list \<times> pf_state \<Rightarrow>
     (pf_error, IPEndpoint list \<times> pf_state) result" where
  "on_endpoint clk sep ep = (\<lambda>(checks, st).
     bind_r (pf_assert (hops ep \<noteq> 0)) (\<lambda>_.
     bind_r (find_slot sep st) (\<lambda>slot0.
       let slot = slot0\<lparr>recent := recent_insert (sw_now clk) (pe_address ep) (hops ep) (recent slot0)\<rparr>;
           st1 = put_slot sep slot st
       in if hops ep = 1 \<and> connectivityCheckInProgress slot then Inr (checks, st1)
          else if hops ep = 1 \<and> \<not> checked slot
          then Inr (checks @ [pe_address ep], put_slot sep (slot\<lparr>connectivityCheckInProgress := True\<rparr>) st1)
          else if hops ep = 1 \<and> \<not> canAccept slot then Inr (checks, st1)
          else bind_r (livecache_insert (sw_now clk) ep (p_livecache st1)) (\<lambda>lc.
                 Inr (checks, st1\<lparr>p_livecache := lc,
                        p_bootcache := fst (bootcache_insert clk (pe_address ep) (p_bootcache st1))\<rparr>)))))"

definition on_endpoints ::
  "Stopwatch \<Rightarrow> IPEndpoint \<Rightarrow> Endpoint list \<Rightarrow> pf_state \<Rightarrow> (pf_error, IPEndpoint list \<times> pf_state) result" where
  "on_endpoints clk sep list st =
     bind_r (find_slot sep st) (\<lambda>slot.
     bind_r (pf_assert (m_state slot = active)) (\<lambda>_.
     bind_r (fold_r (on_endpoint clk sep) (preprocess slot list) ([], st)) (\<lambda>(checks, st1).
     bind_r (find_slot sep st1) (\<lambda>slot1.
       Inr (checks, put_slot sep
         (slot1\<lparr>whenAcceptEndpoints := sw_now clk + seconds clk secondsPerMessage\<rparr>) st1)))))"

definition boot_insert_all :: "Stopwatch \<Rightarrow> IPEndpoint list \<Rightarrow> Bootcache \<Rightarrow> Bootcache" where
  "boot_insert_all clk eps b = foldl (\<lambda>b ep. fst (bootcache_insert clk ep b)) b eps"

definition on_legacy_endpoints :: "Stopwatch \<Rightarrow> IPEndpoint list \<Rightarrow> pf_state \<Rightarrow> pf_state" where
  "on_legacy_endpoints clk list st = st\<lparr>p_bootcache := boot_insert_all clk list (p_bootcache st)\<rparr>"

definition onRedirects :: "Stopwatch \<Rightarrow> IPEndpoint list \<Rightarrow> pf_state \<Rightarrow> pf_state" where
  "onRedirects clk eps st = st\<lparr>p_bootcache := boot_insert_all clk (take maxRedirects eps) (p_bootcache st)\<rparr>"

fun addBootcacheAddresses :: "Stopwatch \<Rightarrow> IPEndpoint list \<Rightarrow> Bootcache \<Rightarrow> Bootcache \<times> int" where
  "addBootcacheAddresses clk [] b = (b, 0)"
| "addBootcacheAddresses clk (a # as) b =
     (let (b1, new) = bootcache_insert clk a b; (b2, n) = addBootcacheAddresses clk as b1
      in (b2, n + (if new then 1 else 0)))"

text \<open>\<open>fetch\<close> for a source that answered with addresses or with an error (\<open>None\<close>), the
  component possibly stopped before or during the fetch.\<close>

definition fetch ::
  "Stopwatch \<Rightarrow> bool \<Rightarrow> IPEndpoint list option \<Rightarrow> pf_state \<Rightarrow> int \<times> pf_state" where
  "fetch clk stopped_meanwhile results st =
     (if p_stopping st then (0, st)
      else if stopped_meanwhile then (0, st\<lparr>p_stopping := True\<rparr>)
      else case results of None \<Rightarrow> (0, st)
        | Some addresses \<Rightarrow>
            let (b, n) = addBootcacheAddresses clk addresses (p_bootcache st) in (n, st\<lparr>p_bootcache := b\<rparr>))"

section \<open>Reports\<close>

definition stateString :: "SlotState \<Rightarrow> string" where
  "stateString s = (case s of accept \<Rightarrow> ''accept'' | connect \<Rightarrow> ''connect'' | connected \<Rightarrow> ''connected''
     | active \<Rightarrow> ''active'' | closing \<Rightarrow> ''closing'')"

definition writeSlots :: "(IPEndpoint \<times> SlotImp) list \<Rightarrow> (string \<times> string) list list" where
  "writeSlots slots = map (\<lambda>(ep, s).
     (case m_local_endpoint s of None \<Rightarrow> [] | Some l \<Rightarrow> [(''local_address'', endpoint_to_string l)]) @
     [(''remote_address'', endpoint_to_string (m_remote_endpoint s))] @
     (if m_inbound s then [(''inbound'', ''yes'')] else []) @
     (if m_fixed s then [(''fixed'', ''yes'')] else []) @
     (if m_cluster s then [(''cluster'', ''yes'')] else []) @
     [(''state'', stateString (m_state s))]) slots"

end
