(* ===== verification/PF_Invariant.thy ===== *)
theory PF_Invariant
  imports PF_Logic
begin

text \<open>
  The invariant of the PeerFinder's logic: the slot table, the counters, the set of connected
  addresses and the set of active keys agree, and the caches are well formed. Each operation keeps it.
\<close>

interpretation eo: strict_total endpoint_less
  by unfold_locales (auto simp: endpoint_less_irrefl endpoint_less_total intro: endpoint_less_trans)

section \<open>Invariant\<close>

definition slot_ok :: "int \<Rightarrow> SlotImp \<Rightarrow> bool" where
  "slot_ok now s = (slot_dir_ok s \<and> m_state s \<noteq> closing \<and> aged_ok now (recent s) \<and>
     (m_public_key s \<noteq> None \<longleftrightarrow> m_state s = active))"

definition slots_mset :: "pf_state \<Rightarrow> SlotImp multiset" where
  "slots_mset st = image_mset snd (mset (p_slots st))"

definition table_ok :: "int \<Rightarrow> pf_state \<Rightarrow> bool" where
  "table_ok now st = (om_ok endpoint_less (p_slots st) \<and>
     (\<forall>ep s. map_of (p_slots st) ep = Some s \<longrightarrow> m_remote_endpoint s = ep \<and> slot_ok now s \<and>
        (m_fixed s \<and> \<not> m_inbound s \<longrightarrow> map_of (p_fixed st) ep \<noteq> None)))"

text \<open>The public keys of the slots: no two slots have the same one, and the key set holds them all.\<close>

definition key_of :: "(IPEndpoint \<rightharpoonup> SlotImp) \<Rightarrow> IPEndpoint \<rightharpoonup> RipplePublicKey" where
  "key_of f ep = Option.bind (f ep) m_public_key"

definition key_set_ok :: "('e \<rightharpoonup> 'k) \<Rightarrow> 'k set \<Rightarrow> bool" where
  "key_set_ok g K = (K = ran g \<and> inj_on g (dom g))"

lemma key_set_insert:
  assumes "key_set_ok g K" "g ep = None" "k \<notin> K"
  shows "key_set_ok (g(ep \<mapsto> k)) (insert k K)"
proof -
  have "g x \<noteq> Some k" for x using assms(1,3) by (auto simp: key_set_ok_def ran_def)
  then have "inj_on (g(ep \<mapsto> k)) (insert ep (dom g))"
    using assms(1,2) by (auto simp: key_set_ok_def inj_on_def)
  with assms(1,2) show ?thesis by (simp add: key_set_ok_def)
qed

lemma key_set_empty: "key_set_ok (key_of Map.empty) {}"
proof -
  have "key_of Map.empty = Map.empty" by (rule ext) (simp add: key_of_def)
  then show ?thesis by (simp add: key_set_ok_def)
qed

lemma key_set_remove:
  assumes "key_set_ok g K"
  shows "key_set_ok (g(ep := None)) (K - set_option (g ep))"
proof -
  have "ran (g(ep := None)) = ran g - set_option (g ep)"
    using assms by (auto simp: key_set_ok_def ran_def inj_on_def dom_def split: if_splits)
  with assms show ?thesis by (auto simp: key_set_ok_def inj_on_def dom_def)
qed

definition keys_ok :: "pf_state \<Rightarrow> bool" where
  "keys_ok st = key_set_ok (key_of (map_of (p_slots st))) (p_keys st)"

definition addresses_ok :: "pf_state \<Rightarrow> bool" where
  "addresses_ok st = (p_connected_addresses st = image_mset (ep_address \<circ> fst) (mset (p_slots st)))"

definition caches_ok :: "int \<Rightarrow> pf_state \<Rightarrow> bool" where
  "caches_ok now st = (livecache_ok now (p_livecache st) \<and> bootcache_ok (p_bootcache st) \<and>
     aged_ok now (p_squelches st))"

definition pf_ok :: "int \<Rightarrow> pf_state \<Rightarrow> bool" where
  "pf_ok now st = (table_ok now st \<and> counts_exact (slots_mset st) (p_counts st) \<and> addresses_ok st \<and>
     keys_ok st \<and> caches_ok now st \<and> om_ok endpoint_less (p_fixed st))"

lemma pf_okE:
  assumes "pf_ok now st"
  obtains "table_ok now st" "counts_exact (slots_mset st) (p_counts st)" "addresses_ok st" "keys_ok st"
    "caches_ok now st" "om_ok endpoint_less (p_fixed st)"
  using assms by (simp add: pf_ok_def)

lemma pf_ok_init: "length rows \<le> bootcacheSize \<Longrightarrow> pf_ok (sw_now clk) (pf_init clk r rows)"
  by (simp add: pf_ok_def table_ok_def addresses_ok_def keys_ok_def key_set_empty caches_ok_def slots_mset_def om_ok_def
      pf_init_def pf_config_def bootcache_ok_init)

lemma slot_ok_later: "slot_ok now s \<Longrightarrow> now \<le> now' \<Longrightarrow> slot_ok now' s"
  by (auto simp: slot_ok_def intro: aged_ok_later)

lemma pf_ok_later: "pf_ok now st \<Longrightarrow> now \<le> now' \<Longrightarrow> pf_ok now' st"
  by (auto simp: pf_ok_def table_ok_def caches_ok_def intro: slot_ok_later livecache_ok_later aged_ok_later)

text \<open>Parts of the state that the table and the counters do not mention.\<close>

lemma pf_ok_frame:
  assumes "pf_ok now st" "p_slots st' = p_slots st" "p_counts st' = p_counts st" "p_fixed st' = p_fixed st"
    "p_connected_addresses st' = p_connected_addresses st" "p_keys st' = p_keys st" "caches_ok now st'"
  shows "pf_ok now st'"
  using assms by (simp add: pf_ok_def table_ok_def addresses_ok_def keys_ok_def slots_mset_def)

lemma pf_ok_slot:
  assumes "pf_ok now st" "map_of (p_slots st) ep = Some s"
  shows "m_remote_endpoint s = ep" "slot_ok now s" "m_fixed s \<and> \<not> m_inbound s \<Longrightarrow> map_of (p_fixed st) ep \<noteq> None"
  using assms by (auto simp: pf_ok_def table_ok_def)

lemma pf_ok_distinct: "pf_ok now st \<Longrightarrow> distinct (map fst (p_slots st))"
  by (simp add: pf_ok_def table_ok_def eo.om_ok_distinct)

lemma find_slot_Some [simp]: "map_of (p_slots st) ep = Some s \<Longrightarrow> find_slot ep st = Inr s"
  by (simp add: find_slot_def)

section \<open>Changing a slot in place\<close>

text \<open>The slots other than the one at an endpoint.\<close>

lemma slots_mset_split:
  assumes "pf_ok now st" "map_of (p_slots st) ep = Some s"
  shows "slots_mset st = add_mset s (image_mset snd (mset (om_erase ep (p_slots st))))"
  using om_erase_mset [OF pf_ok_distinct [OF assms(1)] assms(2)] by (simp add: slots_mset_def)

lemma slots_mset_update:
  assumes ok: "pf_ok now st" and s: "map_of (p_slots st) ep = Some s"
  shows "image_mset snd (mset (om_update ep s' (p_slots st))) =
    add_mset s' (image_mset snd (mset (om_erase ep (p_slots st))))"
proof -
  have "add_mset s (image_mset snd (mset (om_update ep s' (p_slots st)))) = add_mset s' (slots_mset st)"
    using om_update_mset [OF pf_ok_distinct [OF ok] s, of id s'] by (simp add: slots_mset_def comp_def)
  with slots_mset_split [OF ok s] show ?thesis by (simp add: add_mset_commute)
qed

lemma fst_mset: "image_mset (g \<circ> fst) (mset m) = image_mset g (mset (map fst m))"
  by (simp add: multiset.map_comp)

text \<open>
  Replacing a slot keeps the invariant when the new slot is well formed, the counters are exact for it
  and the set of keys is adjusted.
\<close>

lemma pf_ok_replace:
  assumes ok: "pf_ok now st" and s: "map_of (p_slots st) ep = Some s"
    and s': "m_remote_endpoint s' = ep" "slot_ok now s'" "m_fixed s' = m_fixed s" "m_inbound s' = m_inbound s"
    and c: "counts_exact (add_mset s' (image_mset snd (mset (om_erase ep (p_slots st))))) c"
    and k: "(m_public_key s' = m_public_key s \<and> K = p_keys st) \<or>
      (m_public_key s = None \<and> (\<exists>k. m_public_key s' = Some k \<and> k \<notin> p_keys st \<and> K = insert k (p_keys st)))"
  shows "pf_ok now (put_slot ep s' (st\<lparr>p_counts := c, p_keys := K\<rparr>))"
  using ok
proof (rule pf_okE)
  assume cs: "table_ok now st" "addresses_ok st" "keys_ok st" "caches_ok now st" "om_ok endpoint_less (p_fixed st)"
  let ?st = "put_slot ep s' (st\<lparr>p_counts := c, p_keys := K\<rparr>)"
  have lookup: "map_of (p_slots ?st) e = (if e = ep then Some s' else map_of (p_slots st) e)" for e
    using s by (simp add: put_slot_def map_of_om_update)
  have "table_ok now ?st"
    using cs(1) s' s unfolding table_ok_def lookup by (auto simp: put_slot_def eo.om_update_ok)
  moreover have "counts_exact (slots_mset ?st) (p_counts ?st)"
    using c by (simp add: put_slot_def slots_mset_def slots_mset_update [OF ok s])
  moreover have "addresses_ok ?st"
    using cs(2) by (simp add: addresses_ok_def put_slot_def fst_mset [of ep_address] del: mset_map)
  moreover have "keys_ok ?st"
  proof -
    let ?g = "key_of (map_of (p_slots st))"
    have g: "key_of (map_of (p_slots ?st)) = ?g(ep := m_public_key s')"
      by (rule ext) (simp add: key_of_def lookup)
    have "?g(ep := m_public_key s') = ?g" if "m_public_key s' = m_public_key s"
      using that s by (auto simp: key_of_def)
    with k key_set_insert [of ?g "p_keys st" ep] cs(3) s show ?thesis
      unfolding keys_ok_def g by (auto simp: put_slot_def key_of_def)
  qed
  moreover have "caches_ok now ?st" "om_ok endpoint_less (p_fixed ?st)"
    using cs by (simp_all add: caches_ok_def put_slot_def)
  ultimately show ?thesis by (simp add: pf_ok_def)
qed

text \<open>What the counters see of a slot.\<close>

definition profile :: "SlotImp \<Rightarrow> SlotState \<times> bool \<times> bool \<times> bool" where
  "profile s = (m_state s, m_inbound s, m_fixed s, m_cluster s)"

lemma counts_exact_profile:
  assumes "counts_exact (add_mset s M) c" "profile s' = profile s"
  shows "counts_exact (add_mset s' M) c"
  using assms by (simp add: counts_exact_def profile_def is_attempt_def counted_in_def counted_out_def)

lemma put_slot_ok:
  assumes ok: "pf_ok now st" and s: "map_of (p_slots st) ep = Some s"
    and s': "profile s' = profile s" "m_remote_endpoint s' = ep" "m_public_key s' = m_public_key s"
      "aged_ok now (recent s')"
  shows "pf_ok now (put_slot ep s' st)"
proof -
  have "slot_ok now s'" using pf_ok_slot(2) [OF ok s] s' by (auto simp: slot_ok_def profile_def slot_dir_ok_def)
  moreover have "counts_exact (add_mset s' (image_mset snd (mset (om_erase ep (p_slots st))))) (p_counts st)"
    using ok s'(1) slots_mset_split [OF ok s] by (auto simp: pf_ok_def intro: counts_exact_profile)
  ultimately have "pf_ok now (put_slot ep s' (st\<lparr>p_counts := p_counts st, p_keys := p_keys st\<rparr>))"
    using s' by (intro pf_ok_replace [OF ok s]) (auto simp: profile_def)
  then show ?thesis by simp
qed

lemma map_of_put_slot: "map_of (p_slots st) ep = Some s \<Longrightarrow>
    map_of (p_slots (put_slot ep s' st)) e = (if e = ep then Some s' else map_of (p_slots st) e)"
  by (simp add: put_slot_def map_of_om_update)

lemma put_slot_frame [simp]:
  "p_counts (put_slot ep s st) = p_counts st" "p_fixed (put_slot ep s st) = p_fixed st"
  "p_livecache (put_slot ep s st) = p_livecache st" "p_bootcache (put_slot ep s st) = p_bootcache st"
  "p_squelches (put_slot ep s st) = p_squelches st" "p_keys (put_slot ep s st) = p_keys st"
  "p_connected_addresses (put_slot ep s st) = p_connected_addresses st" "p_config (put_slot ep s st) = p_config st"
  by (simp_all add: put_slot_def)

section \<open>New slots\<close>

lemma add_slot_ok:
  assumes ok: "pf_ok now st" and new: "map_of (p_slots st) (m_remote_endpoint s) = None"
    and s: "slot_ok now s" "m_public_key s = None"
    and fx: "m_fixed s \<and> \<not> m_inbound s \<longrightarrow> map_of (p_fixed st) (m_remote_endpoint s) \<noteq> None"
  shows "\<exists>st'. add_slot s st = Inr (Some (m_remote_endpoint s), st') \<and> pf_ok now st' \<and>
    p_slots st' = om_insert endpoint_less (m_remote_endpoint s) s (p_slots st)"
  using ok
proof (rule pf_okE)
  assume cs: "table_ok now st" "counts_exact (slots_mset st) (p_counts st)" "addresses_ok st" "keys_ok st"
    "caches_ok now st" "om_ok endpoint_less (p_fixed st)"
  let ?ep = "m_remote_endpoint s"
  from counts_add_exact [OF cs(2), of s] s obtain c where
    c: "counts_add s (p_counts st) = Inr c" "counts_exact (add_mset s (slots_mset st)) c"
    by (auto simp: slot_ok_def)
  let ?m = "om_insert endpoint_less ?ep s (p_slots st)"
  let ?st = "st\<lparr>p_slots := ?m, p_counts := c,
    p_connected_addresses := add_mset (ep_address ?ep) (p_connected_addresses st)\<rparr>"
  have run: "add_slot s st = Inr (Some ?ep, ?st)"
    using new c(1) by (simp add: add_slot_def om_emplace_def Let_def)
  have lookup: "map_of ?m = (map_of (p_slots st))(?ep \<mapsto> s)" by (rule map_of_om_insert [OF new])
  have "table_ok now ?st"
    using cs(1) new s fx unfolding table_ok_def by (auto simp: lookup eo.om_insert_ok)
  moreover have "counts_exact (slots_mset ?st) (p_counts ?st)"
    using c(2) by (simp add: slots_mset_def om_insert_mset)
  moreover have "addresses_ok ?st" using cs(3) by (simp add: addresses_ok_def om_insert_mset)
  moreover have "key_of ((map_of (p_slots st))(?ep \<mapsto> s)) = key_of (map_of (p_slots st))"
    using s(2) new by (intro ext) (simp add: key_of_def)
  then have "keys_ok ?st" using cs(4) by (simp add: keys_ok_def lookup)
  ultimately have "pf_ok now ?st" using cs by (simp add: pf_ok_def caches_ok_def)
  with run show ?thesis by simp
qed

lemma connected_address:
  assumes "pf_ok now st" "map_of (p_slots st) ep = Some s"
  shows "ep_address ep \<in># p_connected_addresses st"
  using assms map_of_SomeD [OF assms(2)] by (force simp: pf_ok_def addresses_ok_def)

lemma new_inbound_slot_ok:
  assumes "pf_ok now st"
  shows "\<exists>r st'. new_inbound_slot l ep st = Inr (r, st') \<and> pf_ok now st'"
proof (cases "ep_address ep \<in># p_connected_addresses st")
  case True
  with assms show ?thesis by (simp add: new_inbound_slot_def)
next
  case False
  let ?s = "SlotImp_inbound l ep (fixed_address (ep_address ep) st)"
  have "map_of (p_slots st) ep = None" using False connected_address [OF assms] by (cases "map_of (p_slots st) ep") auto
  then have "\<exists>st'. add_slot ?s st = Inr (Some (m_remote_endpoint ?s), st') \<and> pf_ok now st' \<and>
      p_slots st' = om_insert endpoint_less (m_remote_endpoint ?s) ?s (p_slots st)"
    by (intro add_slot_ok [OF assms]) (simp_all add: SlotImp_inbound_def slot_ok_def slot_dir_ok_def)
  with False show ?thesis by (auto simp: new_inbound_slot_def)
qed

lemma new_outbound_slot_ok:
  assumes "pf_ok now st"
  shows "\<exists>r st'. new_outbound_slot ep st = Inr (r, st') \<and> pf_ok now st'"
proof (cases "map_of (p_slots st) ep")
  case (Some s)
  with assms show ?thesis by (simp add: new_outbound_slot_def)
next
  case None
  let ?s = "SlotImp_outbound ep (fixed_endpoint ep st)"
  have "fixed_endpoint ep st \<Longrightarrow> map_of (p_fixed st) ep \<noteq> None"
    by (auto simp: fixed_endpoint_def map_of_eq_None_iff)
  with None have "\<exists>st'. add_slot ?s st = Inr (Some (m_remote_endpoint ?s), st') \<and> pf_ok now st' \<and>
      p_slots st' = om_insert endpoint_less (m_remote_endpoint ?s) ?s (p_slots st)"
    by (intro add_slot_ok [OF assms]) (simp_all add: SlotImp_outbound_def slot_ok_def slot_dir_ok_def)
  with None show ?thesis by (auto simp: new_outbound_slot_def)
qed

section \<open>Handshakes\<close>

text \<open>A slot moves to another state: the counters forget the old profile and count the new one.\<close>

lemma recount:
  assumes ok: "pf_ok now st" and s: "map_of (p_slots st) ep = Some s" and s': "slot_dir_ok s'"
  defines "rest \<equiv> image_mset snd (mset (om_erase ep (p_slots st)))"
  shows "\<exists>c1 c2. counts_remove s (p_counts st) = Inr c1 \<and> counts_exact rest c1 \<and>
    counts_add s' c1 = Inr c2 \<and> counts_exact (add_mset s' rest) c2 \<and>
    m_in_max c2 = m_in_max (p_counts st) \<and> m_out_max c2 = m_out_max (p_counts st)"
proof -
  have "counts_exact (add_mset s rest) (p_counts st)" "slot_dir_ok s"
    using ok slots_mset_split [OF ok s] pf_ok_slot(2) [OF ok s] by (simp_all add: pf_ok_def rest_def slot_ok_def)
  from counts_remove_exact [OF this] obtain c1 where c1: "counts_remove s (p_counts st) = Inr c1"
    "counts_exact rest c1" "m_in_max c1 = m_in_max (p_counts st)" "m_out_max c1 = m_out_max (p_counts st)" by blast
  from counts_add_exact [OF c1(2) s'] c1 show ?thesis by fastforce
qed

text \<open>A self connection is recognised consistently: when the local endpoint is the remote endpoint of
  another slot, that slot's local endpoint is this slot's remote endpoint.\<close>

definition self_consistent :: "IPEndpoint \<Rightarrow> IPEndpoint \<Rightarrow> pf_state \<Rightarrow> bool" where
  "self_consistent ep l st = (l \<noteq> ep \<longrightarrow>
     (\<forall>other. map_of (p_slots st) l = Some other \<longrightarrow> m_local_endpoint other = Some ep))"

lemma onConnected_ok:
  assumes ok: "pf_ok now st" and s: "map_of (p_slots st) ep = Some s" "m_state s = connect"
    and self: "self_consistent ep l st"
  shows "\<exists>b st'. onConnected ep l st = Inr (b, st') \<and> pf_ok now st'"
proof -
  let ?s = "s\<lparr>m_local_endpoint := Some l\<rparr>"
  let ?st1 = "put_slot ep ?s st"
  note sl = pf_ok_slot [OF ok s(1)]
  have ok1: "pf_ok now ?st1"
    by (rule put_slot_ok [OF ok s(1)]) (use sl in \<open>auto simp: profile_def slot_ok_def\<close>)
  have s1: "map_of (p_slots ?st1) ep = Some ?s" by (simp add: map_of_put_slot [OF s(1)])
  have dir: "\<not> m_inbound s" using sl(2) s(2) by (simp add: slot_ok_def slot_dir_ok_def)
  show ?thesis
  proof (cases "map_of (p_slots ?st1) l")
    case (Some other)
    have "m_local_endpoint other = Some ep"
      using Some self by (auto simp: map_of_put_slot [OF s(1)] self_consistent_def split: if_splits)
    with Some s ok1 show ?thesis by (auto simp: onConnected_def Let_def)
  next
    case None
    let ?s2 = "?s\<lparr>m_state := connected\<rparr>"
    have "slot_dir_ok ?s2" using dir by (simp add: slot_dir_ok_def)
    from recount [OF ok1 s1 this] obtain c1 c2 where
      c: "counts_remove ?s (p_counts ?st1) = Inr c1" "counts_add ?s2 c1 = Inr c2"
        "counts_exact (add_mset ?s2 (image_mset snd (mset (om_erase ep (p_slots ?st1))))) c2" by blast
    have keys: "?st1\<lparr>p_counts := c2, p_keys := p_keys ?st1\<rparr> = ?st1\<lparr>p_counts := c2\<rparr>"
      by (simp add: put_slot_def)
    have "pf_ok now (put_slot ep ?s2 (?st1\<lparr>p_counts := c2\<rparr>))"
      by (subst keys [symmetric], rule pf_ok_replace [OF ok1 s1]) (use sl dir c s(2) in \<open>auto simp: slot_ok_def slot_dir_ok_def\<close>)
    moreover have "slot_state connected ?s = Inr ?s2" using dir s(2) by (simp add: slot_state_def)
    ultimately show ?thesis using None s c(1,2) by (auto simp: onConnected_def Let_def)
  qed
qed

definition boot_full_now :: "pf_state \<Rightarrow> bool" where
  "boot_full_now st = (length (bc_map (p_bootcache st)) = bootcacheSize)"

text \<open>The two outcomes: success with the invariant, or the read of a pruned entry on a full boot cache.\<close>

definition succeeds :: "int \<Rightarrow> pf_state \<Rightarrow> (pf_error, 'a \<times> pf_state) result \<Rightarrow> bool" where
  "succeeds now st r = ((\<exists>x st'. r = Inr (x, st') \<and> pf_ok now st') \<or> r = Inl PfDangling \<and> boot_full_now st)"

lemma bootcache_set_ok: "pf_ok now st \<Longrightarrow> bootcache_ok b \<Longrightarrow> pf_ok now (st\<lparr>p_bootcache := b\<rparr>)"
  by (rule pf_ok_frame) (auto simp: pf_ok_def caches_ok_def)

lemma note_success_cases:
  assumes "pf_ok now st"
  shows "(\<exists>st'. note_success clk ep s st = Inr st' \<and> pf_ok now st' \<and> p_fixed st' = p_fixed st \<and>
      p_slots st' = p_slots st \<and> p_counts st' = p_counts st) \<or>
    note_success clk ep s st = Inl PfDangling \<and> boot_full_now st"
proof -
  have "bootcache_ok (p_bootcache st)" using assms by (simp add: pf_ok_def caches_ok_def)
  from bootcache_record_ok [OF this, of success_valence 1 clk ep] bootcache_set_ok [OF assms] assms
  show ?thesis by (auto simp: note_success_def bootcache_on_success_def boot_full_now_def)
qed

lemma on_failure_cases:
  assumes "pf_ok now st"
  shows "(\<exists>st'. pf_on_failure clk ep st = Inr st' \<and> pf_ok now st') \<or>
    pf_on_failure clk ep st = Inl PfDangling \<and> boot_full_now st"
proof -
  have "bootcache_ok (p_bootcache st)" using assms by (simp add: pf_ok_def caches_ok_def)
  from bootcache_record_ok [OF this, of failure_valence "-1" clk ep] bootcache_set_ok [OF assms]
  show ?thesis by (auto simp: pf_on_failure_def bootcache_on_failure_def boot_full_now_def)
qed

lemma fixed_update_ok:
  assumes "pf_ok now st"
  shows "pf_ok now (st\<lparr>p_fixed := om_update ep f (p_fixed st)\<rparr>)"
  using assms
  by (auto simp: pf_ok_def table_ok_def addresses_ok_def keys_ok_def caches_ok_def slots_mset_def
      map_of_om_update eo.om_update_ok)

lemma activated_ok:
  fixes cluster :: bool and t :: int
  assumes ok: "pf_ok now st" and s: "map_of (p_slots st) ep = Some s" "m_state s = accept \<or> m_state s = connected"
    and k: "key \<notin> p_keys st"
  defines "s1 \<equiv> s\<lparr>m_public_key := Some key, m_cluster := cluster\<rparr>"
  defines "s2 \<equiv> s1\<lparr>m_state := active, whenAcceptEndpoints := t\<rparr>"
  shows "\<exists>c1 c2 c3 c4. counts_remove s (p_counts st) = Inr c1 \<and> counts_add s1 c1 = Inr c2 \<and>
    counts_remove s1 c2 = Inr c3 \<and> counts_add s2 c3 = Inr c4 \<and>
    m_in_max c4 = m_in_max (p_counts st) \<and> m_out_max c4 = m_out_max (p_counts st) \<and>
    pf_ok now (put_slot ep s2 (st\<lparr>p_counts := c4, p_keys := insert key (p_keys st)\<rparr>))"
proof -
  let ?rest = "image_mset snd (mset (om_erase ep (p_slots st)))"
  note sl = pf_ok_slot [OF ok s(1)]
  have d: "slot_dir_ok s1" "slot_dir_ok s2" using sl(2) by (simp_all add: s1_def s2_def slot_ok_def slot_dir_ok_def)
  from recount [OF ok s(1) d(1)] obtain c1 c2 where
    c: "counts_remove s (p_counts st) = Inr c1" "counts_add s1 c1 = Inr c2" "counts_exact (add_mset s1 ?rest) c2"
      "m_in_max c2 = m_in_max (p_counts st)" "m_out_max c2 = m_out_max (p_counts st)" by blast
  from counts_remove_exact [OF c(3) d(1)] obtain c3 where c3: "counts_remove s1 c2 = Inr c3" "counts_exact ?rest c3"
    "m_in_max c3 = m_in_max c2" "m_out_max c3 = m_out_max c2" by blast
  from counts_add_exact [OF c3(2) d(2)] obtain c4 where
    c4: "counts_add s2 c3 = Inr c4" "counts_exact (add_mset s2 ?rest) c4" "m_in_max c4 = m_in_max c3" "m_out_max c4 = m_out_max c3"
    by blast
  have "m_public_key s = None" using sl(2) s(2) by (auto simp: slot_ok_def)
  with sl s(1) d(2) c4(2) k have "pf_ok now (put_slot ep s2 (st\<lparr>p_counts := c4, p_keys := insert key (p_keys st)\<rparr>))"
    by (intro pf_ok_replace [OF ok s(1)]) (auto simp: s1_def s2_def slot_ok_def)
  with c c3 c4 show ?thesis by simp
qed

lemma activate_full:
  assumes "map_of (p_slots st) ep = Some s" "m_state s = accept \<or> m_state s = connected" "key \<notin> p_keys st"
    "can_activate s (p_counts st) = Inr False"
  shows "activate clk ep key cluster st = bind_r (note_success clk ep s st) (\<lambda>st1. Inr (Result_full, st1))"
  using assms by (simp add: activate_def)

lemma activate_run:
  fixes cluster :: bool and clk :: Stopwatch
  assumes s: "map_of (p_slots st) ep = Some s" "m_state s = accept \<or> m_state s = connected" "key \<notin> p_keys st"
    "can_activate s (p_counts st) = Inr True"
  defines "s1 \<equiv> s\<lparr>m_public_key := Some key, m_cluster := cluster\<rparr>"
  defines "s2 \<equiv> s1\<lparr>m_state := active, whenAcceptEndpoints := sw_now clk\<rparr>"
  assumes c: "counts_remove s (p_counts st) = Inr c1" "counts_add s1 c1 = Inr c2" "counts_remove s1 c2 = Inr c3"
    "counts_add s2 c3 = Inr c4"
  defines "st1 \<equiv> put_slot ep s2 (st\<lparr>p_counts := c4, p_keys := insert key (p_keys st)\<rparr>)"
  shows "activate clk ep key cluster st = bind_r (note_success clk ep s2 st1) (\<lambda>st2.
     if m_fixed s \<and> \<not> m_inbound s
     then case map_of (p_fixed st2) ep of None \<Rightarrow> Inl PfAssert
       | Some f \<Rightarrow> Inr (Result_success, st2\<lparr>p_fixed := om_update ep (fixed_success (sw_now clk) f) (p_fixed st2)\<rparr>)
     else Inr (Result_success, st2))"
proof -
  have sa: "slot_activate (sw_now clk) s1 = Inr s2" using s(2) by (auto simp: slot_activate_def s1_def s2_def)
  have f: "m_fixed s2 = m_fixed s" "m_inbound s2 = m_inbound s" by (simp_all add: s1_def s2_def)
  show ?thesis
    using s c(1,3,4) sa c(2) [unfolded s1_def]
    by (simp add: activate_def Let_def st1_def f flip: s1_def)
qed

lemma activate_ok:
  assumes ok: "pf_ok now st" and s: "map_of (p_slots st) ep = Some s" "m_state s = accept \<or> m_state s = connected"
  shows "succeeds now st (activate clk ep key cluster st)"
proof (cases "key \<in> p_keys st")
  case True
  with s ok show ?thesis by (auto simp: activate_def succeeds_def)
next
  case k: False
  from s(2) obtain can where can: "can_activate s (p_counts st) = Inr can" by (auto simp: can_activate_def)
  show ?thesis
  proof (cases can)
    case False
    with activate_full [OF s k] can note_success_cases [OF ok, of clk ep s] show ?thesis
      by (auto simp: succeeds_def)
  next
    case True
    let ?s1 = "s\<lparr>m_public_key := Some key, m_cluster := cluster\<rparr>"
    let ?s2 = "?s1\<lparr>m_state := active, whenAcceptEndpoints := sw_now clk\<rparr>"
    from activated_ok [OF ok s k, of cluster "sw_now clk"] obtain c1 c2 c3 c4 where
      c: "counts_remove s (p_counts st) = Inr c1" "counts_add ?s1 c1 = Inr c2" "counts_remove ?s1 c2 = Inr c3"
        "counts_add ?s2 c3 = Inr c4"
      and ok1: "pf_ok now (put_slot ep ?s2 (st\<lparr>p_counts := c4, p_keys := insert key (p_keys st)\<rparr>))" by blast
    let ?st1 = "put_slot ep ?s2 (st\<lparr>p_counts := c4, p_keys := insert key (p_keys st)\<rparr>)"
    have fx: "m_fixed s \<and> \<not> m_inbound s \<Longrightarrow> \<exists>f. map_of (p_fixed st) ep = Some f"
      using pf_ok_slot(3) [OF ok s(1)] by blast
    have "can_activate s (p_counts st) = Inr True" using can True by simp
    note run = activate_run [OF s k this c]
    from note_success_cases [OF ok1, of clk ep ?s2] show ?thesis
    proof
      assume "\<exists>st'. note_success clk ep ?s2 ?st1 = Inr st' \<and> pf_ok now st' \<and> p_fixed st' = p_fixed ?st1 \<and>
        p_slots st' = p_slots ?st1 \<and> p_counts st' = p_counts ?st1"
      then obtain st2 where st2: "note_success clk ep ?s2 ?st1 = Inr st2" "pf_ok now st2" "p_fixed st2 = p_fixed st"
        by auto
      show ?thesis
      proof (cases "m_fixed s \<and> \<not> m_inbound s")
        case True
        then obtain f where "map_of (p_fixed st2) ep = Some f" using fx st2(3) by auto
        with run True st2(1) fixed_update_ok [OF st2(2)] show ?thesis by (simp add: succeeds_def)
      next
        case False
        with run st2 show ?thesis by (simp add: succeeds_def)
      qed
    next
      assume "note_success clk ep ?s2 ?st1 = Inl PfDangling \<and> boot_full_now ?st1"
      with run show ?thesis by (simp add: succeeds_def boot_full_now_def)
    qed
  qed
qed

section \<open>Closing\<close>

lemma pf_remove_ok:
  assumes ok: "pf_ok now st" and s: "map_of (p_slots st) ep = Some s"
  shows "\<exists>st'. pf_remove ep s st = Inr st' \<and> pf_ok now st' \<and> p_fixed st' = p_fixed st \<and>
    p_bootcache st' = p_bootcache st \<and> p_slots st' = om_erase ep (p_slots st)"
  using ok
proof (rule pf_okE)
  assume cs: "table_ok now st" "counts_exact (slots_mset st) (p_counts st)" "addresses_ok st" "keys_ok st"
    "caches_ok now st" "om_ok endpoint_less (p_fixed st)"
  let ?g = "key_of (map_of (p_slots st))"
  note sl = pf_ok_slot [OF ok s]
  have split: "slots_mset st = add_mset s (image_mset snd (mset (om_erase ep (p_slots st))))"
    by (rule slots_mset_split [OF ok s])
  from counts_remove_exact [of s _ "p_counts st"] cs(2) split sl(2) obtain c where
    c: "counts_remove s (p_counts st) = Inr c" "counts_exact (image_mset snd (mset (om_erase ep (p_slots st)))) c"
    by (auto simp: slot_ok_def)
  let ?st = "st\<lparr>p_slots := om_erase ep (p_slots st), p_keys := p_keys st - set_option (m_public_key s),
    p_connected_addresses := p_connected_addresses st - {#ep_address ep#}, p_counts := c\<rparr>"
  have kin: "key \<in> p_keys st" if "m_public_key s = Some key" for key
    using cs(4) that s by (auto simp: keys_ok_def key_set_ok_def key_of_def ran_def intro!: exI [of _ ep])
  have run: "pf_remove ep s st = Inr ?st"
    using s c(1) connected_address [OF ok s] kin
    by (cases "m_public_key s") (simp_all add: pf_remove_def Let_def)
  have lookup: "map_of (om_erase ep (p_slots st)) = (map_of (p_slots st))(ep := None)" by (rule map_of_om_erase)
  have "table_ok now ?st" using cs(1) unfolding table_ok_def by (simp add: lookup eo.om_erase_ok)
  moreover have "counts_exact (slots_mset ?st) (p_counts ?st)" using c(2) by (simp add: slots_mset_def)
  moreover have "addresses_ok ?st"
    using cs(3) om_erase_mset [OF pf_ok_distinct [OF ok] s] by (simp add: addresses_ok_def)
  moreover have "keys_ok ?st"
  proof -
    have "key_of (map_of (p_slots ?st)) = ?g(ep := None)" by (rule ext) (simp add: key_of_def lookup)
    moreover have "?g ep = m_public_key s" using s by (simp add: key_of_def)
    ultimately show ?thesis using key_set_remove [of ?g "p_keys st" ep] cs(4) by (simp add: keys_ok_def)
  qed
  ultimately have "pf_ok now ?st" using cs by (simp add: pf_ok_def caches_ok_def)
  with run show ?thesis by simp
qed

lemma on_closed_ok:
  assumes ok: "pf_ok now st" and s: "map_of (p_slots st) ep = Some s"
  shows "(\<exists>st'. on_closed clk ep st = Inr st' \<and> pf_ok now st') \<or> on_closed clk ep st = Inl PfDangling \<and> boot_full_now st"
proof -
  from pf_remove_ok [OF ok s] obtain st1 where st1: "pf_remove ep s st = Inr st1" "pf_ok now st1"
    "p_fixed st1 = p_fixed st" "p_bootcache st1 = p_bootcache st" by blast
  let ?fail = "m_fixed s \<and> \<not> m_inbound s \<and> m_state s \<noteq> active"
  define st2 where "st2 = (if ?fail then st1\<lparr>p_fixed := om_update ep (fixed_failure clk (the (map_of (p_fixed st1) ep)))
    (p_fixed st1)\<rparr> else st1)"
  have fx: "?fail \<Longrightarrow> \<exists>f. map_of (p_fixed st1) ep = Some f" using pf_ok_slot(3) [OF ok s] st1(3) by auto
  have ok2: "pf_ok now st2" using fixed_update_ok [OF st1(2)] st1(2) by (simp add: st2_def)
  have b2: "p_bootcache st2 = p_bootcache st" using st1(4) by (simp add: st2_def)
  have "on_closed clk ep st = (if m_state s = connect \<or> m_state s = connected then pf_on_failure clk ep st2 else Inr st2)"
    using s st1(1) fx by (auto simp: on_closed_def st2_def pf_on_failure_def)
  with on_failure_cases [OF ok2, of clk ep] ok2 b2 show ?thesis by (auto simp: boot_full_now_def)
qed

end
