(* ===== verification/PF_Endpoints.thy ===== *)
theory PF_Endpoints
  imports PF_Invariant
begin

text \<open>
  The rest of the PeerFinder's operations keep the invariant: maintenance, endpoint messages and the
  three ways of handing out addresses, whose loops are shown to return.
\<close>

section \<open>Maintenance\<close>

lemma pf_config_ok: "pf_ok now st \<Longrightarrow> pf_ok now (pf_config c st)"
  by (simp add: pf_ok_def table_ok_def addresses_ok_def keys_ok_def caches_ok_def slots_mset_def pf_config_def)

lemma pf_load_ok: "pf_ok now st \<Longrightarrow> pf_ok now (pf_load st)"
  unfolding pf_load_def by (rule bootcache_set_ok) (auto simp: pf_ok_def caches_ok_def bootcache_load_ok)

lemma pf_stop_ok: "pf_ok now st \<Longrightarrow> pf_ok now (pf_stop st)"
  unfolding pf_stop_def by (rule pf_ok_frame) (auto simp: pf_ok_def caches_ok_def)

lemma boot_insert_all_ok: "bootcache_ok b \<Longrightarrow> bootcache_ok (boot_insert_all clk eps b)"
  by (simp add: boot_insert_all_def bootcache_inserts_ok)

lemma pf_ok_bootcache: "pf_ok now st \<Longrightarrow> bootcache_ok (p_bootcache st)"
  by (simp add: pf_ok_def caches_ok_def)

lemma on_legacy_endpoints_ok: "pf_ok now st \<Longrightarrow> pf_ok now (on_legacy_endpoints clk eps st)"
  by (simp add: on_legacy_endpoints_def bootcache_set_ok boot_insert_all_ok pf_ok_bootcache)

lemma onRedirects_ok: "pf_ok now st \<Longrightarrow> pf_ok now (onRedirects clk eps st)"
  by (simp add: onRedirects_def bootcache_set_ok boot_insert_all_ok pf_ok_bootcache)

lemma addBootcacheAddresses_ok: "bootcache_ok b \<Longrightarrow> bootcache_ok (fst (addBootcacheAddresses clk as b))"
  by (induction as arbitrary: b) (auto simp: case_prod_unfold Let_def bootcache_insert_ok)

lemma fetch_ok: "pf_ok now st \<Longrightarrow> pf_ok now (snd (fetch clk b res st))"
  using pf_stop_ok [of now st]
  by (auto simp: fetch_def case_prod_unfold Let_def bootcache_set_ok addBootcacheAddresses_ok pf_ok_bootcache
      pf_stop_def split: option.split)

lemma fixed_add_ok:
  assumes "pf_ok now st"
  shows "pf_ok now (st\<lparr>p_fixed := fst (om_emplace endpoint_less a f (p_fixed st))\<rparr>)"
  using assms eo.om_insert_ok
  by (auto simp: pf_ok_def table_ok_def addresses_ok_def keys_ok_def caches_ok_def slots_mset_def om_emplace_def
      map_of_om_insert)

lemma addFixedPeer_ok:
  "pf_ok now st \<Longrightarrow> \<forall>a \<in> set as. ep_port a \<noteq> 0 \<Longrightarrow> \<exists>st'. addFixedPeer clk as st = Inr st' \<and> pf_ok now st'"
proof (induction clk as st rule: addFixedPeer.induct)
  case (1 clk st)
  then show ?case by simp
next
  case (2 clk a as st)
  obtain m ins where e: "om_emplace endpoint_less a (Fixed_at (sw_now clk)) (p_fixed st) = (m, ins)"
    by (cases "om_emplace endpoint_less a (Fixed_at (sw_now clk)) (p_fixed st)")
  have ok1: "pf_ok now (st\<lparr>p_fixed := m\<rparr>)"
    using fixed_add_ok [OF "2.prems"(1), of a "Fixed_at (sw_now clk)"] e by simp
  show ?case
  proof (cases ins)
    case True
    with e ok1 "2.prems" show ?thesis by simp
  next
    case False
    with e ok1 "2.prems" "2.IH" [OF _ e [symmetric] refl refl False] show ?thesis by simp
  qed
qed

lemma checkComplete_ok:
  assumes ok: "pf_ok now st"
  shows "(\<exists>st'. checkComplete clk ra ca ec st = Inr st' \<and> pf_ok now st') \<or>
    checkComplete clk ra ca ec st = Inl PfDangling \<and> boot_full_now st"
proof (cases "map_of (p_slots st) ra")
  case None
  with ok show ?thesis by (simp add: checkComplete_def)
next
  case (Some s)
  let ?s1 = "s\<lparr>checked := True, connectivityCheckInProgress := False\<rparr>"
  note sl = pf_ok_slot [OF ok Some]
  have fail: "pf_ok now (put_slot ra (?s1\<lparr>canAccept := False\<rparr>) st)"
    and succ: "pf_ok now (put_slot ra (set_listening_port p (?s1\<lparr>canAccept := True\<rparr>)) st)" for p
    by (rule put_slot_ok [OF ok Some]; use sl in \<open>simp add: profile_def slot_ok_def set_listening_port_def\<close>)+
  from on_failure_cases [OF fail, of clk ca] succ Some ok show ?thesis
    by (cases ec) (auto simp: checkComplete_def pf_on_failure_def boot_full_now_def Let_def)
qed

lemma map_of_map_snd: "map_of (map (\<lambda>(k, v). (k, f v)) m) k = map_option f (map_of m k)"
  by (induction m) auto

lemma slots_expire_ok:
  assumes ok: "pf_ok now st" and now: "now = sw_now clk"
  shows "pf_ok now (st\<lparr>p_slots := map (\<lambda>(ep, s). (ep, slot_expire clk s)) (p_slots st)\<rparr>)"
  using ok
proof (rule pf_okE)
  assume cs: "table_ok now st" "counts_exact (slots_mset st) (p_counts st)" "addresses_ok st" "keys_ok st"
    "caches_ok now st" "om_ok endpoint_less (p_fixed st)"
  let ?m = "map (\<lambda>(ep, s). (ep, slot_expire clk s)) (p_slots st)"
  let ?st = "st\<lparr>p_slots := ?m\<rparr>"
  have keys: "map fst ?m = map fst (p_slots st)" by (simp add: case_prod_unfold comp_def)
  have sf: "m_remote_endpoint (slot_expire clk s) = m_remote_endpoint s" "m_fixed (slot_expire clk s) = m_fixed s"
    "m_inbound (slot_expire clk s) = m_inbound s" "m_public_key (slot_expire clk s) = m_public_key s"
    "slot_ok now s \<Longrightarrow> slot_ok now (slot_expire clk s)" for s
    using now by (auto simp: slot_expire_def slot_ok_def slot_dir_ok_def recent_expire_def aged_expire_ok)
  have "om_ok endpoint_less ?m" using cs(1) unfolding om_ok_def keys table_ok_def by blast
  then have "table_ok now ?st"
    using cs(1) by (auto simp: table_ok_def map_of_map_snd sf)
  moreover have "image_mset snd (mset ?m) = image_mset (slot_expire clk) (slots_mset st)"
    by (simp add: slots_mset_def multiset.map_comp comp_def case_prod_unfold)
  then have "counts_exact (slots_mset ?st) (p_counts ?st)"
    using cs(2) by (simp add: slots_mset_def counts_exact_def tally_def filter_mset_image_mset slot_expire_def
        is_attempt_def counted_in_def counted_out_def comp_def)
  moreover have "addresses_ok ?st"
    using cs(3) fst_mset [of ep_address ?m] fst_mset [of ep_address "p_slots st"] unfolding keys addresses_ok_def by simp
  moreover have "key_of (map_of ?m) = key_of (map_of (p_slots st))"
    by (rule ext) (simp add: key_of_def map_of_map_snd bind_map_option sf comp_def)
  then have "keys_ok ?st" using cs(4) by (simp add: keys_ok_def)
  ultimately show ?thesis using cs by (simp add: pf_ok_def caches_ok_def)
qed

lemma once_per_second_ok:
  assumes ok: "pf_ok (sw_now clk) st"
  shows "\<exists>st'. once_per_second clk st = Inr st' \<and> pf_ok (sw_now clk) st'"
proof -
  have lc: "livecache_ok (sw_now clk) (p_livecache st)" and sq: "aged_ok (sw_now clk) (p_squelches st)"
    and bc: "bootcache_ok (p_bootcache st)" using ok by (simp_all add: pf_ok_def caches_ok_def)
  from livecache_expire_ok [OF lc] obtain lc' where
    lc': "livecache_expire clk (p_livecache st) = Inr lc'" "livecache_ok (sw_now clk) lc'" by blast
  let ?st1 = "st\<lparr>p_slots := map (\<lambda>(ep, s). (ep, slot_expire clk s)) (p_slots st)\<rparr>"
  have "pf_ok (sw_now clk) (st\<lparr>p_livecache := lc', p_slots := p_slots ?st1,
      p_squelches := fst (aged_expire (sw_now clk) (seconds clk recentAttemptDuration) (p_squelches st)),
      p_bootcache := bootcache_periodicActivity clk (p_bootcache st)\<rparr>)"
    by (rule pf_ok_frame [OF slots_expire_ok [OF ok refl]])
      (simp_all add: caches_ok_def lc' aged_expire_ok [OF sq] periodicActivity_bootcache_ok [OF bc])
  with lc'(1) show ?thesis by (simp add: once_per_second_def)
qed

section \<open>Endpoint messages\<close>

text \<open>What \<open>preprocess\<close> lets through: valid addresses, each once, at hop counts 1 to
  \<open>maxHops + 1\<close> when the message has none below 0.\<close>

definition clean_endpoints :: "Endpoint list \<Rightarrow> bool" where
  "clean_endpoints l = (distinct (map pe_address l) \<and>
     (\<forall>e \<in> set l. 1 \<le> hops e \<and> hops e \<le> maxHops + 1 \<and> is_valid_address (pe_address e)))"

lemma preprocess_loop_clean:
  assumes "clean_endpoints kept" "\<forall>e \<in> set eps. 0 \<le> hops e"
  shows "clean_endpoints (preprocess_loop slot kept neighbor eps)"
  using assms
proof (induction eps arbitrary: kept neighbor)
  case Nil
  then show ?case by simp
next
  case (Cons ep eps)
  let ?ep1 = "if hops ep = 0 then ep\<lparr>pe_address := at_port (m_remote_endpoint slot) (ep_port (pe_address ep))\<rparr> else ep"
  have "clean_endpoints (kept @ [?ep1\<lparr>hops := hops ?ep1 + 1\<rparr>])"
    if "hops ep \<le> maxHops" "is_valid_address (pe_address ?ep1)" "\<forall>other \<in> set kept. pe_address ?ep1 \<noteq> pe_address other"
    using that Cons.prems by (auto simp: clean_endpoints_def)
  then have new: "clean_endpoints (preprocess_loop slot (kept @ [?ep1\<lparr>hops := hops ?ep1 + 1\<rparr>]) b eps)"
    if "hops ep \<le> maxHops" "is_valid_address (pe_address ?ep1)" "\<forall>other \<in> set kept. pe_address ?ep1 \<noteq> pe_address other"
    for b using that Cons.prems by (intro Cons.IH) auto
  have old: "clean_endpoints (preprocess_loop slot kept b eps)" for b using Cons.prems by (intro Cons.IH) auto
  show ?case
  proof (cases "hops ep = 0")
    case True
    with new old show ?thesis by (auto simp: Let_def)
  next
    case False
    with new old show ?thesis by (auto simp: Let_def)
  qed
qed

lemma preprocess_clean: "\<forall>e \<in> set eps. 0 \<le> hops e \<Longrightarrow> clean_endpoints (preprocess slot eps)"
  unfolding preprocess_def by (rule preprocess_loop_clean) (simp_all add: clean_endpoints_def)

lemma livecache_set_ok: "pf_ok now st \<Longrightarrow> livecache_ok now lc \<Longrightarrow> pf_ok now (st\<lparr>p_livecache := lc\<rparr>)"
  by (rule pf_ok_frame) (auto simp: pf_ok_def caches_ok_def)

lemma on_endpoint_ok:
  assumes ok: "pf_ok (sw_now clk) st" and s: "map_of (p_slots st) sep = Some s"
    and ep: "1 \<le> hops ep" "hops ep \<le> maxHops + 1"
  shows "\<exists>checks' st' s'. on_endpoint clk sep ep (checks, st) = Inr (checks', st') \<and> pf_ok (sw_now clk) st' \<and>
    map_of (p_slots st') sep = Some s' \<and> profile s' = profile s"
proof -
  let ?s = "s\<lparr>recent := recent_insert (sw_now clk) (pe_address ep) (hops ep) (recent s)\<rparr>"
  let ?s2 = "?s\<lparr>connectivityCheckInProgress := True\<rparr>"
  let ?st1 = "put_slot sep ?s st"
  note sl = pf_ok_slot [OF ok s]
  have ok1: "pf_ok (sw_now clk) ?st1"
    by (rule put_slot_ok [OF ok s]) (use sl in \<open>simp_all add: profile_def slot_ok_def recent_insert_ok\<close>)
  have s1: "map_of (p_slots ?st1) sep = Some ?s" by (simp add: map_of_put_slot [OF s])
  have ok2: "pf_ok (sw_now clk) (put_slot sep ?s2 ?st1)"
    by (rule put_slot_ok [OF ok1 s1]) (use sl in \<open>simp_all add: profile_def slot_ok_def recent_insert_ok\<close>)
  have s2: "map_of (p_slots (put_slot sep ?s2 ?st1)) sep = Some ?s2" by (simp add: map_of_put_slot [OF s1])
  have "livecache_ok (sw_now clk) (p_livecache st)" using ok by (simp add: pf_ok_def caches_ok_def)
  from livecache_insert_ok [OF this, of ep] ep obtain lc where
    lc: "livecache_insert (sw_now clk) ep (p_livecache st) = Inr lc" "livecache_ok (sw_now clk) lc" by auto
  let ?b = "fst (bootcache_insert clk (pe_address ep) (p_bootcache st))"
  have ok3: "pf_ok (sw_now clk) (?st1\<lparr>p_livecache := lc, p_bootcache := ?b\<rparr>)"
    by (rule bootcache_set_ok [OF livecache_set_ok [OF ok1 lc(2)]])
      (simp add: bootcache_insert_ok pf_ok_bootcache [OF ok])
  have pr: "profile ?s = profile s" "profile ?s2 = profile s" by (simp_all add: profile_def)
  consider "hops ep = 1 \<and> connectivityCheckInProgress s"
    | "hops ep = 1 \<and> \<not> connectivityCheckInProgress s \<and> \<not> checked s"
    | "hops ep = 1 \<and> \<not> connectivityCheckInProgress s \<and> checked s \<and> \<not> canAccept s"
    | "hops ep = 1 \<longrightarrow> \<not> connectivityCheckInProgress s \<and> checked s \<and> canAccept s" by blast
  then show ?thesis
  proof cases
    case 1
    with ep s ok1 s1 pr show ?thesis by (auto simp: on_endpoint_def Let_def)
  next
    case 2
    with ep s ok2 s2 pr show ?thesis by (auto simp: on_endpoint_def Let_def)
  next
    case 3
    with ep s ok1 s1 pr show ?thesis by (auto simp: on_endpoint_def Let_def)
  next
    case 4
    with ep s lc(1) have "on_endpoint clk sep ep (checks, st) = Inr (checks, ?st1\<lparr>p_livecache := lc, p_bootcache := ?b\<rparr>)"
      by (auto simp: on_endpoint_def Let_def)
    with ok3 s1 pr show ?thesis by auto
  qed
qed

lemma on_endpoints_ok:
  assumes ok: "pf_ok (sw_now clk) st" and s: "map_of (p_slots st) sep = Some s" "m_state s = active"
    and hops: "\<forall>e \<in> set eps. 0 \<le> hops e"
  shows "\<exists>checks st'. on_endpoints clk sep eps st = Inr (checks, st') \<and> pf_ok (sw_now clk) st'"
proof -
  let ?P = "\<lambda>(rest :: Endpoint list) (t :: IPEndpoint list \<times> pf_state). (\<forall>e \<in> set rest. 1 \<le> hops e \<and> hops e \<le> maxHops + 1) \<and>
    pf_ok (sw_now clk) (snd t) \<and> map_of (p_slots (snd t)) sep \<noteq> None"
  have "\<exists>t. fold_r (on_endpoint clk sep) (preprocess s eps) ([], st) = Inr t \<and> ?P [] t"
  proof (rule fold_r_rule [where P = ?P])
    show "?P (preprocess s eps) ([], st)"
      using preprocess_clean [OF hops, of s] ok s by (simp add: clean_endpoints_def)
  next
    fix e rest t
    assume P: "?P (e # rest) t"
    obtain checks st1 where t: "t = (checks, st1)" by (cases t)
    with P obtain s1 where "map_of (p_slots st1) sep = Some s1" by auto
    with P t on_endpoint_ok [of clk st1 sep s1 e checks] show "\<exists>t'. on_endpoint clk sep e t = Inr t' \<and> ?P rest t'"
      by fastforce
  qed
  then obtain checks st1 s1 where f: "fold_r (on_endpoint clk sep) (preprocess s eps) ([], st) = Inr (checks, st1)"
    "pf_ok (sw_now clk) st1" "map_of (p_slots st1) sep = Some s1" by auto
  have "pf_ok (sw_now clk) (put_slot sep
      (s1\<lparr>whenAcceptEndpoints := sw_now clk + seconds clk secondsPerMessage\<rparr>) st1)"
    by (rule put_slot_ok [OF f(2,3)]) (use pf_ok_slot [OF f(2,3)] in \<open>simp_all add: profile_def slot_ok_def\<close>)
  with f s show ?thesis by (simp add: on_endpoints_def)
qed

section \<open>Handing out addresses\<close>

lemma hops_ok_perm:
  assumes "hops_ok f ls hist" "map mset ls' = map mset ls"
  shows "hops_ok f ls' hist"
proof -
  have len: "length ls' = length ls" using arg_cong [OF assms(2), of length] by simp
  have m: "mset (ls' ! i) = mset (ls ! i)" if "i < length ls" for i
    using arg_cong [OF assms(2), of "\<lambda>l. l ! i"] that len by simp
  have "map (int \<circ> length) ls' = map (int \<circ> length) ls"
    by (rule nth_equalityI) (auto simp: len dest: m [THEN mset_eq_length])
  moreover have "distinct (ls' ! i) = distinct (ls ! i)" "set (ls' ! i) = set (ls ! i)" if "i < length ls" for i
    using m [OF that] by (metis mset_eq_imp_distinct_iff, metis mset_eq_setD)
  ultimately show ?thesis using assms(1) len by (simp add: hops_ok_def)
qed

lemma lc_element_address [simp]: "pe_address (lc_element lc a) = a"
  by (simp add: lc_element_def Endpoint_of_def split: option.split)

lemma lc_set_sequence_ok:
  assumes "livecache_ok now lc" "map mset seq = map mset (lc_sequence lc)"
  shows "livecache_ok now (lc_set_sequence seq lc)"
proof -
  have "map mset (map (map pe_address) seq) = map (image_mset pe_address) (map mset seq)" by simp
  also have "\<dots> = map mset (lc_lists lc)"
    by (simp add: assms(2) lc_sequence_def comp_def multiset.map_comp)
  finally show ?thesis using assms(1) by (auto simp: livecache_ok_def lc_set_sequence_def intro: hops_ok_perm)
qed

lemma lc_element_hops: "livecache_ok now lc \<Longrightarrow> 0 \<le> hops (lc_element lc a)"
  by (auto simp: livecache_ok_def hops_ok_def lc_element_def Endpoint_of_def split: option.split)

definition is_shuffle :: "('a list \<Rightarrow> 'a list) \<Rightarrow> bool" where
  "is_shuffle shuf = (\<forall>l. mset (shuf l) = mset l)"

lemma pf_ok_shuffled:
  "pf_ok now st \<Longrightarrow> is_shuffle shuf \<Longrightarrow> livecache_ok now (hops_shuffle shuf (p_livecache st))"
  by (rule hops_shuffle_ok) (auto simp: pf_ok_def caches_ok_def is_shuffle_def)

lemma redirect_ok:
  assumes ok: "pf_ok now st" and shuf: "is_shuffle shuf"
  shows "\<exists>l st'. redirect shuf slot st = Inr (l, st') \<and> pf_ok now st' \<and>
    redirect_inv \<lparr>rh_slot = slot, rh_list = l\<rparr>"
proof -
  let ?lc = "hops_shuffle shuf (p_livecache st)" and ?t = "\<lparr>rh_slot = slot, rh_list = []\<rparr>"
  note lc = pf_ok_shuffled [OF ok shuf]
  have "ho_redirect.goods (lc_sequence ?lc)"
    using lc_element_hops [OF lc] by (auto simp: ho_redirect.goods_def lc_sequence_def)
  from ho_redirect.handout_returns [OF this, of "[?t]"] obtain ts seq where
    h: "handout redirect_full redirect_try_insert [?t] (lc_sequence ?lc) = Some (ts, seq)"
      "map mset seq = map mset (lc_sequence ?lc)" "map rh_slot ts = [slot]" "\<forall>t \<in> set ts. redirect_inv t"
    by (auto simp: redirect_inv_def)
  then obtain t where t: "ts = [t]" "rh_slot t = slot" by (cases ts) auto
  have "redirect_inv \<lparr>rh_slot = slot, rh_list = rh_list t\<rparr>" using t h(4) by (simp add: redirect_inv_def)
  with h(1) t livecache_set_ok [OF ok lc_set_sequence_ok [OF lc h(2)]] show ?thesis
    by (simp add: redirect_def)
qed

text \<open>Squelching the slots' addresses.\<close>

lemma aged_keys_touch [simp]: "aged_keys (aged_touch now k c) = aged_keys c"
proof -
  have "(x \<in> aged_keys (aged_touch now k c)) = (x \<in> aged_keys c)" for x
    using aged_keys_find [of x c] aged_keys_find [of x "aged_touch now k c"] by (simp add: aged_find_touch)
  then show ?thesis by blast
qed

lemma squelch_one_ok:
  assumes "aged_ok now sq"
  shows "aged_ok now (squelch_one now sq s) \<and>
     aged_keys (squelch_one now sq s) = insert (ep_address (m_remote_endpoint (snd s))) (aged_keys sq)"
proof (cases "aged_find (ep_address (m_remote_endpoint (snd s))) sq")
  case None
  then have "squelch_one now sq s = sq @ [(ep_address (m_remote_endpoint (snd s)), (), now)]"
    by (simp add: squelch_one_def emplace_cases)
  with None aged_ok_snoc [OF assms] show ?thesis by (simp add: aged_keys_find) (simp add: aged_keys_def)
next
  case (Some u)
  then have "squelch_one now sq s = aged_touch now (ep_address (m_remote_endpoint (snd s))) sq"
    by (simp add: squelch_one_def emplace_cases)
  moreover have "ep_address (m_remote_endpoint (snd s)) \<in> aged_keys sq" using Some aged_keys_find [of _ sq]
    by (metis option.distinct(1))
  ultimately show ?thesis using aged_touch_ok [OF assms] by (simp add: insert_absorb)
qed

lemma squelch_all_ok:
  "aged_ok now sq \<Longrightarrow> aged_ok now (foldl (squelch_one now) sq slots) \<and>
     aged_keys (foldl (squelch_one now) sq slots) =
       aged_keys sq \<union> (\<lambda>s. ep_address (m_remote_endpoint (snd s))) ` set slots"
  by (induction slots arbitrary: sq) (auto simp: squelch_one_ok)

text \<open>Fixed peers are taken like any other address to connect to.\<close>

lemma get_fixed_inv:
  assumes "connect_inv now avoid \<lparr>ch_needed = n, ch_squelches = sq, ch_list = l\<rparr>" "length l + needed = n"
  shows "connect_inv now avoid \<lparr>ch_needed = n, ch_squelches = snd (get_fixed now slots needed fs (l, sq)),
    ch_list = fst (get_fixed now slots needed fs (l, sq))\<rparr>"
  using assms
proof (induction fs arbitrary: needed l sq)
  case Nil
  then show ?case by simp
next
  case (Cons e fs)
  obtain ep f where e: "e = (ep, f)" by (cases e)
  show ?case
  proof (cases "needed \<noteq> 0 \<and> fx_when f \<le> now \<and> aged_find (ep_address ep) sq = None \<and>
      (\<forall>v \<in> set slots. ep_address ep \<noteq> ep_address (fst v))")
    case True
    let ?t = "\<lparr>ch_needed = n, ch_squelches = sq, ch_list = l\<rparr>"
    have "\<forall>o' \<in> set l. ep_address o' \<noteq> ep_address ep"
      using Cons.prems(1) True aged_keys_find by (force simp: connect_inv_def)
    then have "connect_try_insert_ep now ep ?t = (True, \<lparr>ch_needed = n,
        ch_squelches = sq @ [(ep_address ep, (), now)], ch_list = l @ [ep]\<rparr>)"
      using True Cons.prems(2) by (auto simp: connect_try_insert_ep_def connect_full_def emplace_cases)
    from connect_take_inv [OF this Cons.prems(1)]
      Cons.IH [of "sq @ [(ep_address ep, (), now)]" "l @ [ep]" "needed - 1"] True Cons.prems(2) e
    show ?thesis by (auto simp: emplace_cases)
  next
    case False
    with Cons e show ?thesis by auto
  qed
qed

lemma connect_boot_inv: "connect_inv now avoid h \<Longrightarrow> connect_inv now avoid (connect_boot now eps h)"
proof (induction eps arbitrary: h)
  case Nil
  then show ?case by simp
next
  case (Cons ep eps)
  obtain b h1 where r: "connect_try_insert_ep now ep h = (b, h1)" by (cases "connect_try_insert_ep now ep h")
  have "connect_inv now avoid h1"
    using Cons.prems r connect_take_inv [of now ep h h1] connect_refuse [of now ep h h1] by (cases b) auto
  with Cons r show ?case by simp
qed

lemma connect_boot_needed: "ch_needed (connect_boot now eps h) = ch_needed h"
proof (induction eps arbitrary: h)
  case Nil
  then show ?case by simp
next
  case (Cons ep eps)
  obtain b h1 where r: "connect_try_insert_ep now ep h = (b, h1)" by (cases "connect_try_insert_ep now ep h")
  have "ch_needed h1 = ch_needed h"
    using r connect_take [of now ep h h1] connect_refuse [of now ep h h1] by (cases b) auto
  with Cons r show ?case by simp
qed

text \<open>
  What \<open>autoconnect\<close> promises: at most the wanted number of addresses, no two endpoints at the
  same address, none at an address squelched before or connected now, all of them squelched after.
\<close>

definition connect_promise :: "int \<Rightarrow> pf_state \<Rightarrow> IPEndpoint list \<Rightarrow> pf_state \<Rightarrow> bool" where
  "connect_promise now st l st' = (length l \<le> attempts_needed (p_counts st) \<and> distinct (map ep_address l) \<and>
     (\<forall>ep \<in> set l. ep_address ep \<notin> aged_keys (p_squelches st) \<and> ep_address ep \<notin># p_connected_addresses st \<and>
        ep_address ep \<in> aged_keys (p_squelches st')))"

lemma squelch_slots_ok:
  assumes ok: "pf_ok now st"
  shows "pf_ok now (squelch_slots now st)"
    "aged_keys (p_squelches (squelch_slots now st)) =
       aged_keys (p_squelches st) \<union> set_mset (p_connected_addresses st)"
proof -
  have sq: "aged_ok now (p_squelches st)" using ok by (simp add: pf_ok_def caches_ok_def)
  note all = squelch_all_ok [OF sq, of "p_slots st"]
  show "pf_ok now (squelch_slots now st)"
    by (rule pf_ok_frame [OF ok]) (use all ok in \<open>simp_all add: squelch_slots_def caches_ok_def pf_ok_def\<close>)
  have "m_remote_endpoint (snd e) = fst e" if "e \<in> set (p_slots st)" for e
    using that map_of_is_SomeI [OF pf_ok_distinct [OF ok], of "fst e" "snd e"] pf_ok_slot(1) [OF ok] by simp
  then have "(\<lambda>s. ep_address (m_remote_endpoint (snd s))) ` set (p_slots st) = set_mset (p_connected_addresses st)"
    using ok by (auto simp: pf_ok_def addresses_ok_def)
  with all show "aged_keys (p_squelches (squelch_slots now st)) =
      aged_keys (p_squelches st) \<union> set_mset (p_connected_addresses st)" by (simp add: squelch_slots_def)
qed

lemma squelches_set_ok: "pf_ok now st \<Longrightarrow> aged_ok now sq \<Longrightarrow> pf_ok now (st\<lparr>p_squelches := sq\<rparr>)"
  by (rule pf_ok_frame) (auto simp: pf_ok_def caches_ok_def)

text \<open>From the invariant of the target to the promise.\<close>

lemma connect_promiseI:
  assumes "connect_inv now (aged_keys (p_squelches st) \<union> set_mset (p_connected_addresses st)) h"
    "ch_needed h = attempts_needed (p_counts st)" "ch_squelches h = p_squelches st'"
  shows "connect_promise now st (ch_list h) st'"
  using assms by (auto simp: connect_inv_def connect_promise_def)

lemma connect_promise_Nil: "connect_promise now st [] st'"
  by (simp add: connect_promise_def)

lemma connect_handout:
  assumes lc: "livecache_ok now lc" and inv: "connect_inv now avoid h0"
  shows "\<exists>h seq. handout connect_full (connect_try_insert now) [h0] (rev (lc_sequence lc)) = Some ([h], seq) \<and>
    connect_inv now avoid h \<and> ch_needed h = ch_needed h0 \<and> livecache_ok now (lc_set_sequence (rev seq) lc)"
proof -
  have "ho_connect.goods (rev (lc_sequence lc))" by (simp add: ho_connect.goods_def)
  from ho_connect.handout_returns [OF this, of now "[h0]" avoid]
  obtain ts seq where h: "handout connect_full (connect_try_insert now) [h0] (rev (lc_sequence lc)) = Some (ts, seq)"
    "map mset seq = map mset (rev (lc_sequence lc))" "map ch_needed ts = [ch_needed h0]" "\<forall>t \<in> set ts. connect_inv now avoid t"
    using inv by auto
  then obtain t where t: "ts = [t]" "ch_needed t = ch_needed h0" by (cases ts) auto
  have "map mset (rev seq) = map mset (lc_sequence lc)" using h(2) by (simp flip: rev_map)
  from lc_set_sequence_ok [OF lc this] h(1,4) t show ?thesis by auto
qed

lemma connect_bootcache_ok:
  assumes ok: "pf_ok now st" and inv: "connect_inv now avoid h"
  shows "pf_ok now (snd (connect_bootcache now h st))"
    "\<exists>h2. connect_inv now avoid h2 \<and> ch_needed h2 = ch_needed h \<and> fst (connect_bootcache now h st) = ch_list h2 \<and>
      p_squelches (snd (connect_bootcache now h st)) = ch_squelches h2"
proof -
  let ?h2 = "connect_boot now (map fst (bc_map (p_bootcache st))) h"
  note i2 = connect_boot_inv [OF inv, of "map fst (bc_map (p_bootcache st))"]
  then have "aged_ok now (ch_squelches ?h2)" by (simp add: connect_inv_def)
  from squelches_set_ok [OF ok this] show "pf_ok now (snd (connect_bootcache now h st))"
    by (simp add: connect_bootcache_def Let_def)
  show "\<exists>h2. connect_inv now avoid h2 \<and> ch_needed h2 = ch_needed h \<and> fst (connect_bootcache now h st) = ch_list h2 \<and>
      p_squelches (snd (connect_bootcache now h st)) = ch_squelches h2"
    using i2 by (intro exI [of _ ?h2]) (simp add: connect_bootcache_def Let_def connect_boot_needed)
qed

text \<open>Every list handed out comes from a target with the invariant.\<close>

definition from_target :: "int \<Rightarrow> Address set \<Rightarrow> nat \<Rightarrow> IPEndpoint list \<Rightarrow> Squelches \<Rightarrow> bool" where
  "from_target now avoid n l sq = (\<exists>h. connect_inv now avoid h \<and> ch_needed h = n \<and> ch_list h = l \<and> ch_squelches h = sq)"

lemma from_target_Nil: "connect_inv now avoid h \<Longrightarrow> from_target now avoid (ch_needed h) [] (ch_squelches h)"
  unfolding from_target_def by (rule exI [of _ "h\<lparr>ch_list := []\<rparr>"]) (simp add: connect_inv_def)

lemma connect_live_ok:
  assumes ok: "pf_ok now st" and shuf: "is_shuffle shuf"
    and inv: "connect_inv now avoid \<lparr>ch_needed = n, ch_squelches = p_squelches st, ch_list = []\<rparr>"
  shows "\<exists>l st'. connect_live shuf now n st = Inr (l, st') \<and> pf_ok now st' \<and> from_target now avoid n l (p_squelches st')"
proof -
  let ?lc = "hops_shuffle shuf (p_livecache st)"
  from connect_handout [OF pf_ok_shuffled [OF ok shuf] inv] obtain h seq where
    h: "handout connect_full (connect_try_insert now) [\<lparr>ch_needed = n, ch_squelches = p_squelches st, ch_list = []\<rparr>]
      (rev (lc_sequence ?lc)) = Some ([h], seq)"
    and hinv: "connect_inv now avoid h" "ch_needed h = n" and lok: "livecache_ok now (lc_set_sequence (rev seq) ?lc)"
    by auto
  let ?st1 = "st\<lparr>p_livecache := lc_set_sequence (rev seq) ?lc, p_squelches := ch_squelches h\<rparr>"
  have ok1: "pf_ok now ?st1"
    by (rule squelches_set_ok [OF livecache_set_ok [OF ok lok]]) (use hinv in \<open>simp add: connect_inv_def\<close>)
  have run: "connect_live shuf now n st = (if ch_list h \<noteq> [] then Inr (ch_list h, ?st1)
      else if m_attempts (p_counts ?st1) > 0 then Inr ([], ?st1) else Inr (connect_bootcache now h ?st1))"
    using h by (simp add: connect_live_def Let_def)
  have t1: "from_target now avoid n (ch_list h) (p_squelches ?st1)" "from_target now avoid n [] (p_squelches ?st1)"
    using hinv from_target_Nil [OF hinv(1)] by (auto simp: from_target_def)
  obtain l2 st2 where cb: "connect_bootcache now h ?st1 = (l2, st2)" by (cases "connect_bootcache now h ?st1")
  have t2: "pf_ok now st2" "from_target now avoid n l2 (p_squelches st2)"
    using connect_bootcache_ok [OF ok1 hinv(1)] cb hinv(2) by (auto simp: from_target_def)
  show ?thesis unfolding run cb using ok1 t1 t2 by auto
qed

lemma connect_fixed_ok:
  assumes ok: "pf_ok now st"
  defines "st1 \<equiv> squelch_slots now st" and "n \<equiv> attempts_needed (p_counts st)"
  shows "connect_inv now (aged_keys (p_squelches st) \<union> set_mset (p_connected_addresses st))
      \<lparr>ch_needed = n, ch_squelches = snd (connect_fixed now n st1), ch_list = fst (connect_fixed now n st1)\<rparr>"
    "pf_ok now (st1\<lparr>p_squelches := snd (connect_fixed now n st1)\<rparr>)"
proof -
  let ?avoid = "aged_keys (p_squelches st) \<union> set_mset (p_connected_addresses st)"
  note ok1 = squelch_slots_ok [OF ok, folded st1_def]
  have "connect_inv now ?avoid \<lparr>ch_needed = n, ch_squelches = p_squelches st1, ch_list = []\<rparr>"
    using ok1 by (simp add: connect_inv_def pf_ok_def caches_ok_def)
  then show inv: "connect_inv now ?avoid \<lparr>ch_needed = n, ch_squelches = snd (connect_fixed now n st1),
      ch_list = fst (connect_fixed now n st1)\<rparr>"
    using get_fixed_inv [of now ?avoid n "p_squelches st1" "[]" n] by (simp add: connect_fixed_def)
  then have "aged_ok now (snd (connect_fixed now n st1))" by (simp add: connect_inv_def)
  with squelches_set_ok [OF ok1(1)] show "pf_ok now (st1\<lparr>p_squelches := snd (connect_fixed now n st1)\<rparr>)" by blast
qed

lemma autoconnect_ok:
  assumes ok: "pf_ok (sw_now clk) st" and shuf: "is_shuffle shuf"
  shows "\<exists>l st'. autoconnect shuf clk st = Inr (l, st') \<and> pf_ok (sw_now clk) st' \<and>
    connect_promise (sw_now clk) st l st'"
proof -
  let ?now = "sw_now clk" and ?n = "attempts_needed (p_counts st)"
  let ?avoid = "aged_keys (p_squelches st) \<union> set_mset (p_connected_addresses st)"
  define c where "c = connect_fixed ?now ?n (squelch_slots ?now st)"
  define st2 where "st2 = (squelch_slots ?now st)\<lparr>p_squelches := snd c\<rparr>"
  have inv: "connect_inv ?now ?avoid \<lparr>ch_needed = ?n, ch_squelches = snd c, ch_list = fst c\<rparr>" and ok2: "pf_ok ?now st2"
    using connect_fixed_ok [OF ok] by (simp_all add: c_def st2_def)
  have prom: "from_target ?now ?avoid ?n l (p_squelches st') \<Longrightarrow> connect_promise ?now st l st'" for l st'
    unfolding from_target_def by (blast intro: connect_promiseI)
  have p2: "connect_promise ?now st (fst c) st2" "connect_promise ?now st [] st2"
    using connect_promiseI [OF inv, of st2] by (simp_all add: st2_def connect_promise_Nil)
  have live: "\<exists>l st'. connect_live shuf ?now ?n st2 = Inr (l, st') \<and> pf_ok ?now st' \<and> connect_promise ?now st l st'"
    if "fst c = []"
    using connect_live_ok [OF ok2 shuf, of ?avoid ?n] prom inv that by (auto simp: st2_def)
  have nil: "fixed_wanted (squelch_slots ?now st) \<or> fst c = []" by (simp add: c_def connect_fixed_def)
  have "autoconnect shuf clk st \<in> {Inr ([], st), Inr (fst c, st2), Inr ([], st2)} \<or>
      autoconnect shuf clk st = connect_live shuf ?now ?n st2 \<and> fst c = []"
    unfolding autoconnect_def Let_def c_def [symmetric] st2_def [symmetric] using nil by auto
  with ok ok2 p2 live connect_promise_Nil show ?thesis by auto
qed

section \<open>Broadcasting\<close>

lemma slot_core_eq:
  assumes "slot_core s = slot_core s'"
  shows "profile s = profile s'" "m_remote_endpoint s = m_remote_endpoint s'" "m_public_key s = m_public_key s'"
  using assms by (cases s, cases s', simp add: slot_core_def profile_def)+

definition storable :: "int \<Rightarrow> pf_state \<Rightarrow> SlotHandouts \<Rightarrow> bool" where
  "storable now st t = (aged_ok now (recent (sh_slot t)) \<and>
     (\<exists>s. map_of (p_slots st) (m_remote_endpoint (sh_slot t)) = Some s \<and> slot_core s = slot_core (sh_slot t)))"

lemma store_target_ok:
  assumes ok: "pf_ok now st" and t: "storable now st t"
  shows "pf_ok now (store_target st t)" "storable now st t' \<Longrightarrow> storable now (store_target st t) t'"
proof -
  let ?ep = "m_remote_endpoint (sh_slot t)"
  from t obtain s where s: "map_of (p_slots st) ?ep = Some s" "slot_core s = slot_core (sh_slot t)"
    "aged_ok now (recent (sh_slot t))" by (auto simp: storable_def)
  note eq = slot_core_eq [OF s(2)]
  show "pf_ok now (store_target st t)" unfolding store_target_def
    by (rule put_slot_ok [OF ok s(1)]) (use eq s(3) in simp_all)
  show "storable now st t' \<Longrightarrow> storable now (store_target st t) t'"
    using s(1,2) by (auto simp: storable_def store_target_def map_of_put_slot [OF s(1)])
qed

lemma store_targets_ok:
  "pf_ok now st \<Longrightarrow> \<forall>t \<in> set ts. storable now st t \<Longrightarrow> pf_ok now (foldl store_target st ts)"
  by (induction ts arbitrary: st) (simp_all add: store_target_ok)

lemma self_endpoint_hops [simp]: "hops (self_endpoint c) = 0"
  by (simp add: self_endpoint_def)

lemma broadcast_targets_ok:
  assumes ok: "pf_ok now st" and shuf: "is_shuffle shufS"
  shows "\<forall>t \<in> set (broadcast_targets shufS st). slot_inv now t \<and> storable now st t \<and> m_state (sh_slot t) = active"
proof
  fix t assume t: "t \<in> set (broadcast_targets shufS st)"
  let ?act = "filter (\<lambda>s. m_state s = active) (map snd (p_slots st))"
  have "set (shufS ?act) = set ?act" using shuf by (metis is_shuffle_def mset_eq_setD)
  with t have s: "sh_slot t \<in> set ?act" and l: "sh_list t = [] \<or> sh_list t = [self_endpoint (p_config st)]"
    by (auto simp: broadcast_targets_def Let_def slot_insert_def split: if_splits intro: rev_image_eqI)
  then obtain ep where ep: "(ep, sh_slot t) \<in> set (p_slots st)" "m_state (sh_slot t) = active" by auto
  then have lk: "map_of (p_slots st) ep = Some (sh_slot t)" by (simp add: map_of_is_SomeI [OF pf_ok_distinct [OF ok]])
  from pf_ok_slot [OF ok lk] have "m_remote_endpoint (sh_slot t) = ep" "aged_ok now (recent (sh_slot t))"
    by (simp_all add: slot_ok_def)
  with lk l ep(2) show "slot_inv now t \<and> storable now st t \<and> m_state (sh_slot t) = active"
    by (auto simp: slot_inv_def storable_def pf_tuning_defs)
qed

lemma storable_core:
  assumes "map (\<lambda>t. slot_core (sh_slot t)) ts = map (\<lambda>t. slot_core (sh_slot t)) ts0"
    "\<forall>t \<in> set ts0. storable now st t" "\<forall>t \<in> set ts. aged_ok now (recent (sh_slot t))"
  shows "\<forall>t \<in> set ts. storable now st t"
proof
  fix t assume t: "t \<in> set ts"
  then have "slot_core (sh_slot t) \<in> set (map (\<lambda>t. slot_core (sh_slot t)) ts0)"
    unfolding assms(1) [symmetric] by simp
  then obtain t0 where t0: "t0 \<in> set ts0" "slot_core (sh_slot t) = slot_core (sh_slot t0)" by auto
  from assms(2) t0(1) obtain s where s: "map_of (p_slots st) (m_remote_endpoint (sh_slot t0)) = Some s"
    "slot_core s = slot_core (sh_slot t0)" by (auto simp: storable_def)
  show "storable now st t"
    using s t0(2) slot_core_eq(2) [OF t0(2)] assms(3) t by (auto simp: storable_def)
qed

lemma buildEndpointsForPeers_ok:
  assumes ok: "pf_ok (sw_now clk) st" and shuf: "is_shuffle shuf" "is_shuffle shufS"
  shows "\<exists>r st'. buildEndpointsForPeers shuf shufS clk st = Inr (r, st') \<and> pf_ok (sw_now clk) st' \<and>
    (\<forall>(ep, l) \<in> set r. length l \<le> numberOfEndpoints \<and> distinct (map addr_of l) \<and>
       (\<forall>e \<in> set l. hops e \<le> maxHops \<and> (0 < hops e \<longrightarrow> addr_of e \<noteq> ep_address ep)))"
proof (cases "p_whenBroadcast st \<le> sw_now clk")
  case False
  with ok show ?thesis by (simp add: buildEndpointsForPeers_def)
next
  case True
  let ?now = "sw_now clk" and ?lc = "hops_shuffle shuf (p_livecache st)" and ?ts0 = "broadcast_targets shufS st"
  note lc = pf_ok_shuffled [OF ok shuf(1)] and ts0 = broadcast_targets_ok [OF ok shuf(2)]
  have "ho_slot.goods (lc_sequence ?lc)" by (simp add: ho_slot.goods_def)
  from ho_slot.handout_returns [OF this, of ?now ?ts0] ts0 obtain ts seq where
    h: "handout slot_full (slot_try_insert ?now) ?ts0 (lc_sequence ?lc) = Some (ts, seq)"
      "map mset seq = map mset (lc_sequence ?lc)" "\<forall>t \<in> set ts. slot_inv ?now t"
      "map (\<lambda>t. slot_core (sh_slot t)) ts = map (\<lambda>t. slot_core (sh_slot t)) ?ts0" by auto
  let ?st1 = "st\<lparr>p_livecache := lc_set_sequence seq ?lc\<rparr>"
  have ok1: "pf_ok ?now ?st1" by (rule livecache_set_ok [OF ok lc_set_sequence_ok [OF lc h(2)]])
  have "\<forall>t \<in> set ts. storable ?now ?st1 t"
    using storable_core [OF h(4), of ?now st] ts0 h(3) by (simp add: storable_def slot_inv_def)
  from store_targets_ok [OF ok1 this] have ok2: "pf_ok ?now (foldl store_target ?st1 ts)" .
  have "pf_ok ?now ((foldl store_target ?st1 ts)\<lparr>p_whenBroadcast := ?now + seconds clk secondsPerMessage\<rparr>)"
    by (rule pf_ok_frame [OF ok2]) (use ok2 in \<open>simp_all add: pf_ok_def caches_ok_def\<close>)
  with True h(1,3) show ?thesis by (simp add: buildEndpointsForPeers_def slot_inv_def)
qed

end
