(* ===== verification/PF_World.thy ===== *)
theory PF_World
  imports PF_Endpoints
begin

text \<open>
  The PeerFinder as a machine: its state, the clock and the calls of its manager
  (\<open>PeerfinderManager.h\<close>), and the endpoint message of the overlay that feeds it
  (\<open>PeerImp::onMessage (TMEndpoints)\<close>). In every reachable state the invariant holds.
\<close>

section \<open>The machine\<close>

record pf_world =
  v_clock :: Stopwatch
  v_state :: pf_state

datatype pf_op =
    PConfig Config
  | PLoad
  | PStop
  | PFixed "IPEndpoint list"
  | PInbound IPEndpoint IPEndpoint
  | POutbound IPEndpoint
  | PConnected IPEndpoint IPEndpoint
  | PActivate IPEndpoint RipplePublicKey bool
  | PClosed IPEndpoint
  | PFailure IPEndpoint
  | PCheck IPEndpoint IPEndpoint check_result
  | PRedirect "IPEndpoint list \<Rightarrow> IPEndpoint list" SlotImp
  | PAutoconnect "IPEndpoint list \<Rightarrow> IPEndpoint list"
  | PBroadcast "IPEndpoint list \<Rightarrow> IPEndpoint list" "SlotImp list \<Rightarrow> SlotImp list"
  | PSecond
  | PEndpoints IPEndpoint "Endpoint list"
  | PLegacy "IPEndpoint list"
  | PRedirects "IPEndpoint list"
  | PFetch bool "IPEndpoint list option"
  | PTick nat

definition put_state :: "pf_world \<Rightarrow> pf_state \<Rightarrow> pf_world" where
  "put_state w st = w\<lparr>v_state := st\<rparr>"

definition run_state :: "pf_world \<Rightarrow> (pf_error, pf_state) result \<Rightarrow> (pf_error, pf_world) result" where
  "run_state w r = bind_r r (\<lambda>st. Inr (put_state w st))"

definition run_value :: "pf_world \<Rightarrow> (pf_error, 'a \<times> pf_state) result \<Rightarrow> (pf_error, pf_world) result" where
  "run_value w r = bind_r r (\<lambda>(_, st). Inr (put_state w st))"

fun pf_exec :: "pf_op \<Rightarrow> pf_world \<Rightarrow> (pf_error, pf_world) result" where
  "pf_exec (PConfig c) w = Inr (put_state w (pf_config c (v_state w)))"
| "pf_exec PLoad w = Inr (put_state w (pf_load (v_state w)))"
| "pf_exec PStop w = Inr (put_state w (pf_stop (v_state w)))"
| "pf_exec (PFixed eps) w = run_state w (addFixedPeer (v_clock w) eps (v_state w))"
| "pf_exec (PInbound l r) w = run_value w (new_inbound_slot l r (v_state w))"
| "pf_exec (POutbound r) w = run_value w (new_outbound_slot r (v_state w))"
| "pf_exec (PConnected ep l) w = run_value w (onConnected ep l (v_state w))"
| "pf_exec (PActivate ep k c) w = run_value w (activate (v_clock w) ep k c (v_state w))"
| "pf_exec (PClosed ep) w = run_state w (on_closed (v_clock w) ep (v_state w))"
| "pf_exec (PFailure ep) w = run_state w (pf_on_failure (v_clock w) ep (v_state w))"
| "pf_exec (PCheck ra ca ec) w = run_state w (checkComplete (v_clock w) ra ca ec (v_state w))"
| "pf_exec (PRedirect shuf s) w = run_value w (redirect shuf s (v_state w))"
| "pf_exec (PAutoconnect shuf) w = run_value w (autoconnect shuf (v_clock w) (v_state w))"
| "pf_exec (PBroadcast shuf shufS) w = run_value w (buildEndpointsForPeers shuf shufS (v_clock w) (v_state w))"
| "pf_exec PSecond w = run_state w (once_per_second (v_clock w) (v_state w))"
| "pf_exec (PEndpoints ep eps) w = run_value w (on_endpoints (v_clock w) ep eps (v_state w))"
| "pf_exec (PLegacy eps) w = Inr (put_state w (on_legacy_endpoints (v_clock w) eps (v_state w)))"
| "pf_exec (PRedirects eps) w = Inr (put_state w (onRedirects (v_clock w) eps (v_state w)))"
| "pf_exec (PFetch b res) w = Inr (put_state w (snd (fetch (v_clock w) b res (v_state w))))"
| "pf_exec (PTick d) w = Inr (w\<lparr>v_clock := (v_clock w)\<lparr>sw_now := sw_now (v_clock w) + int d\<rparr>\<rparr>)"

text \<open>
  What the callers owe: a slot passed in is in the table and in the right state, a local endpoint is
  reported consistently, fixed peers have a port, hop counts are not negative, a shuffle permutes.
\<close>

fun pf_legal :: "pf_op \<Rightarrow> pf_world \<Rightarrow> bool" where
  "pf_legal (PFixed eps) w = (\<forall>ep \<in> set eps. ep_port ep \<noteq> 0)"
| "pf_legal (PConnected ep l) w = (\<exists>s. map_of (p_slots (v_state w)) ep = Some s \<and> m_state s = connect \<and>
     self_consistent ep l (v_state w))"
| "pf_legal (PActivate ep k c) w = (\<exists>s. map_of (p_slots (v_state w)) ep = Some s \<and>
     (m_state s = accept \<or> m_state s = connected))"
| "pf_legal (PClosed ep) w = (map_of (p_slots (v_state w)) ep \<noteq> None)"
| "pf_legal (PEndpoints ep eps) w = ((\<exists>s. map_of (p_slots (v_state w)) ep = Some s \<and> m_state s = active) \<and>
     (\<forall>e \<in> set eps. 0 \<le> hops e))"
| "pf_legal (PRedirect shuf s) w = is_shuffle shuf"
| "pf_legal (PAutoconnect shuf) w = is_shuffle shuf"
| "pf_legal (PBroadcast shuf shufS) w = (is_shuffle shuf \<and> is_shuffle shufS)"
| "pf_legal _ w = True"

definition pf_world_ok :: "pf_world \<Rightarrow> bool" where
  "pf_world_ok w = pf_ok (sw_now (v_clock w)) (v_state w)"

inductive pf_reachable :: "pf_world \<Rightarrow> bool" where
  boot: "length rows \<le> bootcacheSize \<Longrightarrow> pf_reachable \<lparr>v_clock = clk, v_state = pf_init clk r rows\<rparr>"
| call: "pf_reachable w \<Longrightarrow> pf_legal op w \<Longrightarrow> pf_exec op w = Inr w' \<Longrightarrow> pf_reachable w'"

text \<open>The only failure left: the read of a pruned entry on a full boot cache.\<close>

definition pf_outcome :: "pf_world \<Rightarrow> (pf_error, pf_world) result \<Rightarrow> bool" where
  "pf_outcome w r = ((\<exists>w'. r = Inr w' \<and> pf_world_ok w') \<or> r = Inl PfDangling \<and> boot_full_now (v_state w))"

lemma put_state_ok: "pf_ok (sw_now (v_clock w)) st \<Longrightarrow> pf_outcome w (Inr (put_state w st))"
  by (simp add: pf_outcome_def pf_world_ok_def put_state_def)

lemma run_state_ok:
  "(\<exists>st. r = Inr st \<and> pf_ok (sw_now (v_clock w)) st) \<or> r = Inl PfDangling \<and> boot_full_now (v_state w) \<Longrightarrow>
     pf_outcome w (run_state w r)"
  by (auto simp: run_state_def pf_outcome_def pf_world_ok_def put_state_def)

lemma run_value_ok: "succeeds (sw_now (v_clock w)) (v_state w) r \<Longrightarrow> pf_outcome w (run_value w r)"
  by (auto simp: run_value_def succeeds_def pf_outcome_def pf_world_ok_def put_state_def)

lemma run_value_good: "\<exists>x st. r = Inr (x, st) \<and> pf_ok (sw_now (v_clock w)) st \<Longrightarrow> pf_outcome w (run_value w r)"
  by (rule run_value_ok) (auto simp: succeeds_def)

lemma pf_exec_ok:
  assumes "pf_world_ok w" "pf_legal op w"
  shows "pf_outcome w (pf_exec op w)"
proof -
  from assms(1) have ok: "pf_ok (sw_now (v_clock w)) (v_state w)" by (simp add: pf_world_ok_def)
  show ?thesis
  proof (cases op)
    case (PFixed eps)
    with assms(2) addFixedPeer_ok [OF ok] show ?thesis by (auto intro!: run_state_ok)
  next
    case (PConnected ep l)
    with assms(2) onConnected_ok [OF ok] show ?thesis by (auto intro!: run_value_good)
  next
    case (PActivate ep k c)
    with assms(2) activate_ok [OF ok] show ?thesis by (auto intro!: run_value_ok)
  next
    case (PClosed ep)
    with assms(2) on_closed_ok [OF ok] show ?thesis by (auto intro!: run_state_ok)
  next
    case (PFailure ep)
    with on_failure_cases [OF ok] show ?thesis by (auto intro!: run_state_ok)
  next
    case (PCheck ra ca ec)
    with checkComplete_ok [OF ok] show ?thesis by (auto intro!: run_state_ok)
  next
    case (PRedirect shuf s)
    with assms(2) redirect_ok [OF ok, of shuf s] show ?thesis by (auto intro!: run_value_good)
  next
    case (PAutoconnect shuf)
    with assms(2) autoconnect_ok [OF ok, of shuf] show ?thesis by (fastforce intro!: run_value_good)
  next
    case (PBroadcast shuf shufS)
    with assms(2) buildEndpointsForPeers_ok [OF ok, of shuf shufS] show ?thesis by (fastforce intro!: run_value_good)
  next
    case (PEndpoints ep eps)
    with assms(2) on_endpoints_ok [OF ok] show ?thesis by (auto intro!: run_value_good)
  next
    case (PInbound l r)
    with new_inbound_slot_ok [OF ok] show ?thesis by (auto intro!: run_value_good)
  next
    case (POutbound r)
    with new_outbound_slot_ok [OF ok] show ?thesis by (auto intro!: run_value_good)
  next
    case PSecond
    with once_per_second_ok [OF ok] show ?thesis by (auto intro!: run_state_ok)
  next
    case (PTick d)
    with ok show ?thesis by (auto simp: pf_outcome_def pf_world_ok_def intro: pf_ok_later)
  qed (use ok in \<open>auto intro!: put_state_ok pf_config_ok pf_load_ok pf_stop_ok on_legacy_endpoints_ok
      onRedirects_ok fetch_ok\<close>)
qed

lemma pf_reachable_ok: "pf_reachable w \<Longrightarrow> pf_world_ok w"
proof (induction rule: pf_reachable.induct)
  case (boot rows clk r)
  then show ?case by (simp add: pf_world_ok_def pf_ok_init)
next
  case (call w op w')
  with pf_exec_ok [of w op] show ?case by (auto simp: pf_outcome_def)
qed

section \<open>The endpoint message\<close>

text \<open>
  \<open>PeerImp::onMessage (TMEndpoints)\<close>: the unsigned 32 bit hop count of the message is
  assigned to a signed \<open>int\<close>.
\<close>

record TMEndpoint =
  tm_hops :: "32 word"
  tm_ipv4 :: "32 word"
  tm_port :: "32 word"

text \<open>\<open>ntohl\<close> of the C library on a little endian host: the four bytes in reverse order.\<close>

definition ntohl :: "32 word \<Rightarrow> 32 word" where
  "ntohl w = push_bit 24 (w AND 0xff) OR push_bit 8 (w AND 0xff00) OR
     drop_bit 8 (w AND 0xff0000) OR drop_bit 24 w"

definition endpoint_of_message :: "IPEndpoint \<Rightarrow> TMEndpoint \<Rightarrow> Endpoint" where
  "endpoint_of_message remote_address tm =
     (let h = sint (tm_hops tm); port = ucast (tm_port tm)
      in if h > 0 then \<lparr>hops = h, pe_address = IPEndpoint_of (AddressV4_of (ntohl (tm_ipv4 tm))) port\<rparr>
         else \<lparr>hops = h, pe_address = at_port remote_address port\<rparr>)"

definition onMessage_endpoints ::
  "Stopwatch \<Rightarrow> bool \<Rightarrow> IPEndpoint \<Rightarrow> TMEndpoint list \<Rightarrow> pf_state \<Rightarrow> (pf_error, IPEndpoint list \<times> pf_state) result" where
  "onMessage_endpoints clk sane slot m st =
     (if \<not> sane then Inr ([], st)
      else let endpoints = map (endpoint_of_message slot) m
           in if endpoints \<noteq> [] then on_endpoints clk slot endpoints st else Inr ([], st))"

end
