(* ===== verification/PF_Properties.thy ===== *)
theory PF_Properties
  imports PF_World
begin

text \<open>
  Theorems about the PeerFinder as a whole, with instances on a concrete run in which a peer connects
  to the node and is activated.
\<close>

section \<open>A concrete run\<close>

definition pf_clock :: Stopwatch where
  "pf_clock = \<lparr>ticks_per_second = 1000, sw_now = 5000\<rparr>"

definition pf_local :: IPEndpoint where
  "pf_local = IPEndpoint_of (AddressV4_octets 54 9 9 9) 51235"

definition pf_peer :: IPEndpoint where
  "pf_peer = IPEndpoint_of (AddressV4_octets 54 1 2 3) 40000"

definition pf_start :: pf_world where
  "pf_start = \<lparr>v_clock = pf_clock, v_state = pf_init pf_clock (1 / 2) []\<rparr>"

definition pf_accepted :: pf_world where
  "pf_accepted = \<lparr>v_clock = pf_clock, v_state = (pf_init pf_clock (1 / 2) [])\<lparr>
     p_slots := [(pf_peer, SlotImp_inbound pf_local pf_peer False)],
     p_counts := (p_counts (pf_init pf_clock (1 / 2) []))\<lparr>m_acceptCount := 1\<rparr>,
     p_connected_addresses := {#ep_address pf_peer#}\<rparr>\<rparr>"

definition pf_active_slot :: SlotImp where
  "pf_active_slot = (SlotImp_inbound pf_local pf_peer False)\<lparr>m_state := active, m_public_key := Some [7],
     whenAcceptEndpoints := 5000\<rparr>"

definition pf_activated :: pf_world where
  "pf_activated = \<lparr>v_clock = pf_clock, v_state = (pf_init pf_clock (1 / 2) [])\<lparr>
     p_slots := [(pf_peer, pf_active_slot)],
     p_counts := (p_counts (pf_init pf_clock (1 / 2) []))\<lparr>m_active := 1, m_in_active := 1\<rparr>,
     p_connected_addresses := {#ep_address pf_peer#}, p_keys := {[7]}\<rparr>\<rparr>"

lemma pf_init_simps [simp]:
  "p_slots (pf_init clk r rows) = []" "p_keys (pf_init clk r rows) = {}" "p_fixed (pf_init clk r rows) = []"
  "p_connected_addresses (pf_init clk r rows) = {#}"
  "p_counts (pf_init clk r rows) = onConfig Config_default (Counts_init r)"
  by (simp_all add: pf_init_def pf_config_def)

lemma pf_start_reachable: "pf_reachable pf_start"
  unfolding pf_start_def by (rule pf_reachable.boot) simp

lemma pf_accept_step: "pf_exec (PInbound pf_local pf_peer) pf_start = Inr pf_accepted"
  by (simp add: pf_start_def pf_accepted_def run_value_def put_state_def new_inbound_slot_def fixed_address_def
      add_slot_def om_emplace_def counts_add_def adjust_def SlotImp_inbound_def pf_assert_def Let_def
      onConfig_def Config_default_def Counts_init_def)

lemma pf_accepted_reachable: "pf_reachable pf_accepted"
  by (rule pf_reachable.call [OF pf_start_reachable _ pf_accept_step]) simp

lemma default_limits:
  "0 \<le> r \<Longrightarrow> m_in_max (onConfig Config_default (Counts_init r)) = 11"
  "m_in_active (onConfig Config_default (Counts_init r)) = 0"
  by (simp_all add: onConfig_def Config_default_def Counts_init_def Let_def)

lemma pf_activate_step: "pf_exec (PActivate pf_peer [7] False) pf_accepted = Inr pf_activated"
  by (simp add: pf_accepted_def pf_activated_def run_value_def put_state_def activate_def pf_assert_def
      SlotImp_inbound_def can_activate_def default_limits counts_add_def counts_remove_def adjust_def Let_def
      slot_activate_def note_success_def put_slot_def om_update_def pf_active_slot_def find_slot_def
      Counts_init_def onConfig_def Config_default_def pf_clock_def pf_init_def pf_config_def)

lemma pf_activated_reachable: "pf_reachable pf_activated"
  by (rule pf_reachable.call [OF pf_accepted_reachable _ pf_activate_step])
    (simp add: pf_accepted_def SlotImp_inbound_def)

lemma pf_activated_slot: "map_of (p_slots (v_state pf_activated)) pf_peer = Some pf_active_slot"
  by (simp add: pf_activated_def)

lemma pf_activated_ok: "pf_ok 5000 (v_state pf_activated)"
  using pf_reachable_ok [OF pf_activated_reachable] by (simp add: pf_world_ok_def pf_activated_def pf_clock_def)

section \<open>Safety and invariants\<close>

text \<open>
  C2: In every reachable state of the peer finder every legal call succeeds and leads to a reachable
  state, whatever the order of connections, handshakes, endpoint messages, redirects, broadcasts and
  expiry: no assertion fails, no list is indexed out of range and no hand-out loop runs forever. The one
  exception is the read of a pruned entry, which needs a boot cache that is full.
\<close>

theorem peerfinder_never_fails:
  assumes "pf_reachable w" "pf_legal op w"
  shows "(\<exists>w'. pf_exec op w = Inr w' \<and> pf_reachable w') \<or>
    pf_exec op w = Inl PfDangling \<and> length (bc_map (p_bootcache (v_state w))) = bootcacheSize"
  using pf_exec_ok [OF pf_reachable_ok [OF assms(1)] assms(2)] pf_reachable.call [OF assms]
  by (auto simp: pf_outcome_def boot_full_now_def)

theorem peerfinder_never_fails_witness:
  "\<exists>w'. pf_exec (PClosed pf_peer) pf_activated = Inr w' \<and> pf_reachable w'"
  using peerfinder_never_fails [OF pf_activated_reachable, of "PClosed pf_peer"]
  by (simp add: pf_activated_slot) (simp add: pf_activated_def pf_init_def pf_config_def Bootcache_init_def bootcacheSize_def)

text \<open>
  C3: In every reachable state the slot table, the connected addresses, the set of public keys and the
  counters agree: a slot is filed under its remote endpoint, the connected addresses are those of the
  slots, with their multiplicity, the key set is exactly the keys of the slots, each held by one slot,
  and every counter is the number of slots it counts.
\<close>

theorem peerfinder_tables_agree:
  assumes "pf_reachable w"
  shows "counts_exact (slots_mset (v_state w)) (p_counts (v_state w)) \<and>
    p_connected_addresses (v_state w) = mset (map (ep_address \<circ> fst) (p_slots (v_state w))) \<and>
    p_keys (v_state w) = {k. \<exists>ep s. map_of (p_slots (v_state w)) ep = Some s \<and> m_public_key s = Some k} \<and>
    (\<forall>ep ep' s s'. map_of (p_slots (v_state w)) ep = Some s \<and> map_of (p_slots (v_state w)) ep' = Some s' \<and>
       m_public_key s = m_public_key s' \<and> m_public_key s \<noteq> None \<longrightarrow> ep = ep') \<and>
    (\<forall>ep s. map_of (p_slots (v_state w)) ep = Some s \<longrightarrow> m_remote_endpoint s = ep \<and>
       (m_public_key s \<noteq> None \<longleftrightarrow> m_state s = active))"
proof -
  have ok: "pf_ok (sw_now (v_clock w)) (v_state w)" using pf_reachable_ok [OF assms] by (simp add: pf_world_ok_def)
  then have k: "key_set_ok (key_of (map_of (p_slots (v_state w)))) (p_keys (v_state w))"
    by (simp add: pf_ok_def keys_ok_def)
  have "p_keys (v_state w) = {k. \<exists>ep s. map_of (p_slots (v_state w)) ep = Some s \<and> m_public_key s = Some k}"
    using k by (auto simp: key_set_ok_def ran_def key_of_def bind_eq_Some_conv)
  moreover have "ep = ep'" if "map_of (p_slots (v_state w)) ep = Some s" "map_of (p_slots (v_state w)) ep' = Some s'"
    "m_public_key s = m_public_key s'" "m_public_key s \<noteq> None" for ep ep' s s'
    using k that by (auto simp: key_set_ok_def inj_on_def dom_def key_of_def)
  moreover have "p_connected_addresses (v_state w) = mset (map (ep_address \<circ> fst) (p_slots (v_state w)))"
    using ok by (simp add: pf_ok_def addresses_ok_def)
  moreover have "counts_exact (slots_mset (v_state w)) (p_counts (v_state w))" using ok by (simp add: pf_ok_def)
  moreover have "\<forall>ep s. map_of (p_slots (v_state w)) ep = Some s \<longrightarrow> m_remote_endpoint s = ep \<and>
      (m_public_key s \<noteq> None \<longleftrightarrow> m_state s = active)"
    using ok by (simp add: pf_ok_def table_ok_def slot_ok_def)
  ultimately show ?thesis by blast
qed

theorem peerfinder_tables_agree_witness:
  "p_keys (v_state pf_activated) =
     {k. \<exists>ep s. map_of (p_slots (v_state pf_activated)) ep = Some s \<and> m_public_key s = Some k} \<and>
   m_in_active (p_counts (v_state pf_activated)) = tally counted_in (slots_mset (v_state pf_activated))"
  using peerfinder_tables_agree [OF pf_activated_reachable] by (simp add: counts_exact_def)

section \<open>Addresses handed out\<close>

text \<open>
  C40: Automatic connection attempts: in every reachable state the call returns at most as many endpoints
  as attempts are missing, at pairwise different addresses, none of them connected or tried within the
  squelch time, and squelches all of them.
\<close>

theorem autoconnect_promise:
  assumes "pf_reachable w" "is_shuffle shuf"
  shows "\<exists>l st'. autoconnect shuf (v_clock w) (v_state w) = Inr (l, st') \<and>
    length l \<le> attempts_needed (p_counts (v_state w)) \<and> distinct (map ep_address l) \<and>
    (\<forall>ep \<in> set l. ep_address ep \<notin> aged_keys (p_squelches (v_state w)) \<and>
       ep_address ep \<notin># p_connected_addresses (v_state w) \<and> ep_address ep \<in> aged_keys (p_squelches st'))"
  using autoconnect_ok [OF pf_reachable_ok [OF assms(1), unfolded pf_world_ok_def] assms(2)]
  by (fastforce simp: connect_promise_def)

lemma rev_shuffle: "is_shuffle rev"
  by (simp add: is_shuffle_def)

theorem autoconnect_promise_witness:
  "\<exists>l st'. autoconnect rev pf_clock (v_state pf_activated) = Inr (l, st') \<and>
    length l \<le> attempts_needed (p_counts (v_state pf_activated)) \<and> (\<forall>ep \<in> set l. ep_address ep \<noteq> ep_address pf_peer)"
  using autoconnect_promise [OF pf_activated_reachable rev_shuffle] by (fastforce simp: pf_activated_def)

text \<open>
  A redirect answer is produced in every reachable state, whatever the random order: it has at most
  ten endpoints, at pairwise different addresses, at hop counts from 1 to \<open>maxHops\<close>, none of them
  the address of the peer that is sent away.
\<close>

theorem redirect_bounds:
  assumes "pf_reachable w" "is_shuffle shuf"
  shows "\<exists>l st'. redirect shuf slot (v_state w) = Inr (l, st') \<and> length l \<le> 10 \<and> distinct (map addr_of l) \<and>
    (\<forall>e \<in> set l. 1 \<le> hops e \<and> hops e \<le> 6 \<and> addr_of e \<noteq> ep_address (m_remote_endpoint slot))"
  using redirect_ok [OF pf_reachable_ok [OF assms(1), unfolded pf_world_ok_def] assms(2), of slot]
  by (auto simp: redirect_inv_def redirectEndpointCount_def maxHops_def)

theorem redirect_bounds_witness:
  "\<exists>l st'. redirect rev pf_active_slot (v_state pf_activated) = Inr (l, st') \<and> length l \<le> 10"
  using redirect_bounds [OF pf_activated_reachable rev_shuffle, of pf_active_slot] by auto

text \<open>
  The periodic broadcast ends in every reachable state, whatever the random orders, and tells each
  active peer at most twelve endpoints, at pairwise different addresses, none beyond \<open>maxHops\<close>
  and none the peer's own.
\<close>

theorem broadcast_bounds:
  assumes "pf_reachable w" "is_shuffle shuf" "is_shuffle shufS"
  shows "\<exists>r st'. buildEndpointsForPeers shuf shufS (v_clock w) (v_state w) = Inr (r, st') \<and>
    (\<forall>(ep, l) \<in> set r. length l \<le> 12 \<and> distinct (map addr_of l) \<and>
       (\<forall>e \<in> set l. hops e \<le> 6 \<and> (0 < hops e \<longrightarrow> addr_of e \<noteq> ep_address ep)))"
  using buildEndpointsForPeers_ok [OF pf_reachable_ok [OF assms(1), unfolded pf_world_ok_def] assms(2,3)]
  by (fastforce simp: numberOfEndpoints_def maxHops_def)

theorem broadcast_bounds_witness:
  "\<exists>r st'. buildEndpointsForPeers rev rev pf_clock (v_state pf_activated) = Inr (r, st') \<and>
    (\<forall>(ep, l) \<in> set r. length l \<le> 12)"
  using broadcast_bounds [OF pf_activated_reachable rev_shuffle rev_shuffle] by (fastforce simp: pf_activated_def)

text \<open>
  Whatever a peer sends with hop counts that are not negative, what is left of its endpoint message
  after preprocessing has pairwise different, public, specified addresses with a port, at hop counts
  from 1 to \<open>maxHops + 1\<close>.
\<close>

theorem preprocess_filters:
  assumes "\<forall>e \<in> set eps. 0 \<le> hops e"
  shows "distinct (map pe_address (preprocess slot eps)) \<and>
    (\<forall>e \<in> set (preprocess slot eps). 1 \<le> hops e \<and> hops e \<le> 7 \<and> is_public (addr_of e) \<and>
       \<not> is_unspecified (addr_of e) \<and> ep_port (pe_address e) \<noteq> 0)"
  using preprocess_clean [OF assms, of slot]
  by (auto simp: clean_endpoints_def is_valid_address_def maxHops_def split: if_splits)

theorem preprocess_filters_witness:
  "distinct (map pe_address (preprocess pf_active_slot [Endpoint_of pf_local 0, Endpoint_of pf_local 3]))"
  using preprocess_filters [of "[Endpoint_of pf_local 0, Endpoint_of pf_local 3]" pf_active_slot]
  by (simp add: Endpoint_of_def)

section \<open>Activation\<close>

text \<open>
  A handshake that succeeds leaves the slot active under a key no other slot had, and an ordinary
  peer (neither fixed nor in the cluster) gets a slot only within the limit of its direction.
\<close>

theorem activate_limits:
  assumes "map_of (p_slots st) ep = Some s" "activate clk ep key cluster st = Inr (Result_success, st')"
  shows "key \<notin> p_keys st \<and> p_keys st' = insert key (p_keys st) \<and>
    map_option m_state (map_of (p_slots st') ep) = Some active \<and>
    (\<not> m_fixed s \<and> \<not> m_cluster s \<and> m_inbound s \<longrightarrow> m_in_active (p_counts st') \<le> m_in_max (p_counts st')) \<and>
    (\<not> m_fixed s \<and> \<not> m_cluster s \<and> \<not> m_inbound s \<longrightarrow> m_out_active (p_counts st') \<le> m_out_max (p_counts st'))"
proof -
  have k: "key \<notin> p_keys st" using assms by (auto simp: activate_def bind_r_eq_Inr_iff)
  have "p_keys st' = insert key (p_keys st) \<and> map_option m_state (map_of (p_slots st') ep) = Some active"
    using assms k
    by (auto simp: activate_def bind_r_eq_Inr_iff slot_activate_def note_success_def Let_def put_slot_def
        map_of_om_update split: if_splits option.splits)
  moreover have "(\<not> m_fixed s \<and> \<not> m_cluster s \<and> m_inbound s \<longrightarrow> m_in_active (p_counts st') \<le> m_in_max (p_counts st')) \<and>
    (\<not> m_fixed s \<and> \<not> m_cluster s \<and> \<not> m_inbound s \<longrightarrow> m_out_active (p_counts st') \<le> m_out_max (p_counts st'))"
    using assms k
    by (auto simp: activate_def bind_r_eq_Inr_iff slot_activate_def note_success_def Let_def put_slot_def
        can_activate_def counts_add_def counts_remove_def adjust_def split: if_splits option.splits)
  ultimately show ?thesis using k by simp
qed


lemma pf_activate_result:
  "activate pf_clock pf_peer [7] False (v_state pf_accepted) = Inr (Result_success, v_state pf_activated)"
  by (simp add: pf_accepted_def pf_activated_def activate_def pf_assert_def
      SlotImp_inbound_def can_activate_def default_limits counts_add_def counts_remove_def adjust_def Let_def
      slot_activate_def note_success_def put_slot_def om_update_def pf_active_slot_def find_slot_def
      Counts_init_def onConfig_def Config_default_def pf_clock_def pf_init_def pf_config_def)

theorem activate_limits_witness:
  "[7] \<notin> p_keys (v_state pf_accepted) \<and> p_keys (v_state pf_activated) = insert [7] (p_keys (v_state pf_accepted)) \<and>
   m_in_active (p_counts (v_state pf_activated)) \<le> m_in_max (p_counts (v_state pf_activated))"
  using activate_limits [OF _ pf_activate_result, of "SlotImp_inbound pf_local pf_peer False"]
  by (simp add: pf_accepted_def SlotImp_inbound_def)

text \<open>
  A peer of the cluster is not admitted when the inbound slots are taken, although cluster peers do
  not count towards them: the answer is \<open>full\<close> and nothing changes.
\<close>

theorem cluster_peer_refused:
  assumes "map_of (p_slots st) ep = Some s" "m_state s = accept" "m_inbound s" "\<not> m_fixed s" "\<not> m_cluster s"
    "key \<notin> p_keys st" "m_in_max (p_counts st) \<le> m_in_active (p_counts st)"
  shows "activate clk ep key True st = Inr (Result_full, st)"
  using assms by (simp add: activate_def can_activate_def pf_assert_def note_success_def)

theorem cluster_peer_refused_witness:
  "activate pf_clock pf_peer [7] True (pf_config (Config_default\<lparr>cf_maxPeers := 0\<rparr>) (v_state pf_accepted)) =
     Inr (Result_full, pf_config (Config_default\<lparr>cf_maxPeers := 0\<rparr>) (v_state pf_accepted))"
  by (rule cluster_peer_refused [of _ _ "SlotImp_inbound pf_local pf_peer False"])
    (simp_all add: pf_accepted_def SlotImp_inbound_def pf_config_def onConfig_def Config_default_def Counts_init_def
      to_size_t_def Let_def)

section \<open>Malformed messages\<close>

lemma preprocess_loop_prefix: "\<exists>eps'. preprocess_loop slot kept neighbor eps = kept @ eps'"
proof (induction eps arbitrary: kept neighbor)
  case Nil
  show ?case by simp
next
  case (Cons e eps)
  have "\<exists>eps'. preprocess_loop slot (kept @ [x]) b eps = kept @ eps'" for x b
    using Cons.IH [of "kept @ [x]" b] by auto
  with Cons.IH [of kept] show ?case by (auto simp: Let_def)
qed

lemma sint_minus_one: "sint (0xFFFFFFFF :: 32 word) = -1"
  by simp

text \<open>
  An endpoint message whose unsigned hop count is the largest value stops the node: the count becomes
  -1 on assignment, passes the limit, is incremented to 0 and fails the assertion, for every active peer
  with a public address.
\<close>

theorem negative_hops_assert:
  assumes "map_of (p_slots st) ep = Some s" "m_state s = active" "is_public (ep_address ep)"
    "\<not> is_unspecified (ep_address ep)" "tm_hops tm = 0xFFFFFFFF" "ucast (tm_port tm) \<noteq> (0 :: Port)"
  shows "onMessage_endpoints clk True ep (tm # tms) st = Inl PfAssert"
proof -
  let ?e = "\<lparr>hops = -1, pe_address = at_port ep (ucast (tm_port tm))\<rparr>"
  have e: "endpoint_of_message ep tm = ?e"
    using assms(5) by (simp add: endpoint_of_message_def Let_def sint_minus_one)
  have valid: "is_valid_address (pe_address ?e)"
    using assms(3,4,6) by (simp add: is_valid_address_def at_port_def IPEndpoint_of_def)
  have "\<exists>eps. preprocess s (?e # rest) = ?e\<lparr>hops := 0\<rparr> # eps" for rest
    using valid preprocess_loop_prefix [of s "[?e\<lparr>hops := 0\<rparr>]" False rest]
    by (auto simp: preprocess_def maxHops_def)
  then obtain eps where "preprocess s (map (endpoint_of_message ep) (tm # tms)) = ?e\<lparr>hops := 0\<rparr> # eps"
    using e by fastforce
  with assms(1,2) show ?thesis
    by (simp add: onMessage_endpoints_def on_endpoints_def on_endpoint_def pf_assert_def Let_def e)
qed


theorem negative_hops_assert_witness:
  "onMessage_endpoints pf_clock True pf_peer [\<lparr>tm_hops = 0xFFFFFFFF, tm_ipv4 = 0, tm_port = 51235\<rparr>]
     (v_state pf_activated) = Inl PfAssert"
  by (rule negative_hops_assert [OF pf_activated_slot])
    (simp_all add: pf_active_slot_def pf_peer_def IPEndpoint_of_def AddressV4_octets_def AddressV4_of_def
      is_public_def is_private_def is_loopback_def is_multicast_def broadcast_def broadcast_mask_def netmask_def
      netmask_of_class_def get_class_def is_unspecified_def)

section \<open>Fixed peers\<close>

text \<open>
  After any number of consecutive failures the back-off index of a fixed peer is that number, up to
  the last entry of the table, so the table is never read out of range and the wait after the last
  failure is between one and 55 minutes.
\<close>

theorem fixed_backoff:
  assumes "0 < ticks_per_second clk"
  shows "fx_failures (failures (clks @ [clk]) (Fixed_at t)) = min (length clks + 1) 9 \<and>
    sw_now clk + seconds clk 60 \<le> fx_when (failures (clks @ [clk]) (Fixed_at t)) \<and>
    fx_when (failures (clks @ [clk]) (Fixed_at t)) \<le> sw_now clk + seconds clk (55 * 60)"
proof -
  have app: "failures (clks @ [clk]) f = fixed_failure clk (failures clks f)" for f
    by (induction clks arbitrary: f) simp_all
  let ?i = "min (length clks + 1) 9"
  have i: "fx_failures (failures clks (Fixed_at t)) = min (length clks) 9"
    using failures_index [of "Fixed_at t" clks] by (simp add: Fixed_at_def connectionBackoff_def)
  have bounds: "1 \<le> connectionBackoff ! j \<and> connectionBackoff ! j \<le> 55" if "j < 10" for j
  proof -
    have "connectionBackoff ! j \<in> set connectionBackoff" using that by (intro nth_mem) (simp add: connectionBackoff_def)
    then show ?thesis by (auto simp: connectionBackoff_def)
  qed
  have len: "length connectionBackoff - 1 = 9" by (simp add: connectionBackoff_def)
  have fx: "fixed_failure clk f = \<lparr>fx_when = sw_now clk + seconds clk (60 * connectionBackoff ! min (fx_failures f + 1) 9),
      fx_failures = min (fx_failures f + 1) 9\<rparr>" for f
    unfolding fixed_failure_def len by (simp add: Let_def)
  have idx: "min (min (length clks) 9 + 1) 9 = ?i" by simp
  have "1 \<le> connectionBackoff ! ?i" "connectionBackoff ! ?i \<le> 55" using bounds [of ?i] by simp_all
  with assms show ?thesis unfolding app fx i idx by (simp add: seconds_def mult_left_mono)
qed

theorem fixed_backoff_witness:
  "fx_failures (failures [pf_clock, pf_clock, pf_clock] (Fixed_at 0)) = 3"
  using fixed_backoff [of pf_clock "[pf_clock, pf_clock]" 0] by (simp add: pf_clock_def)

end
