(* ===== verification/Uint256.thy ===== *)
theory Uint256
  imports Prelude
begin

text \<open>
  The 256 bit keys of the ledger (\<open>src/ripple/basics/base_uint.h\<close>). A key is stored as 32 bytes
  in big endian order; the model is a \<open>256 word\<close>, \<open>key_byte\<close> is the access through
  \<open>begin ()\<close>, and comparison goes byte by byte as in the source. Shown here: that comparison is
  the numeric order, and how a key is determined by its 64 nibbles.
\<close>

type_synonym uint256 = "256 word"

definition key_byte :: "uint256 \<Rightarrow> nat \<Rightarrow> nat" where
  "key_byte k i = unat (drop_bit (8 * (31 - i)) k) mod 256"

definition key_bytes :: "uint256 \<Rightarrow> nat list" where
  "key_bytes k = map (key_byte k) [0..<32]"

text \<open>\<open>compare\<close>: \<open>std::mismatch\<close> from the first byte, then the order of the first two bytes
  that differ.\<close>

fun mismatch :: "nat list \<Rightarrow> nat list \<Rightarrow> (nat \<times> nat) option" where
  "mismatch (x # xs) (y # ys) = (if x = y then mismatch xs ys else Some (x, y))"
| "mismatch _ _ = None"

definition key_compare :: "uint256 \<Rightarrow> uint256 \<Rightarrow> int" where
  "key_compare a b =
     (case mismatch (key_bytes a) (key_bytes b) of
        None \<Rightarrow> 0
      | Some (x, y) \<Rightarrow> if x > y then 1 else -1)"

section \<open>Prefixes and digits\<close>

text \<open>The number of a key, and its leading \<open>d\<close> of \<open>n\<close> digits in base \<open>b\<close>.\<close>

definition lead :: "nat \<Rightarrow> nat \<Rightarrow> nat \<Rightarrow> nat \<Rightarrow> nat" where
  "lead b n d x = x div b ^ (n - d)"

definition digit :: "nat \<Rightarrow> nat \<Rightarrow> nat \<Rightarrow> nat \<Rightarrow> nat" where
  "digit b n d x = x div b ^ (n - Suc d) mod b"

lemma digit_less: "0 < b \<Longrightarrow> digit b n d x < b"
  by (simp add: digit_def)

lemma lead_Suc: "d < n \<Longrightarrow> 0 < b \<Longrightarrow> lead b n (Suc d) x = b * lead b n d x + digit b n d x"
proof -
  assume d: "d < n" and b: "0 < b"
  have e: "n - d = Suc (n - Suc d)" using d by simp
  have "lead b n d x = x div b ^ (n - Suc d) div b" unfolding lead_def e power_Suc2 by (rule div_mult2_eq)
  then show ?thesis by (simp add: lead_def digit_def)
qed

lemma lead_0: "x < b ^ n \<Longrightarrow> lead b n 0 x = 0"
  by (simp add: lead_def)

lemma lead_all [simp]: "lead b n n x = x"
  by (simp add: lead_def)

lemma lead_less: "lead b n d x < lead b n d y \<Longrightarrow> x < y"
  unfolding lead_def by (metis div_le_mono linorder_not_le)

text \<open>The first digit that differs decides.\<close>

lemma digit_decides:
  assumes "lead b n d x = lead b n d y" "d < n" "0 < b" "digit b n d x < digit b n d y"
  shows "x < y"
  by (rule lead_less [of b n "Suc d"]) (use assms in \<open>simp add: lead_Suc\<close>)

lemma lead_eq_if_digits: "d \<le> n \<Longrightarrow> 0 < b \<Longrightarrow> x < b ^ n \<Longrightarrow> y < b ^ n \<Longrightarrow>
    (\<And>i. i < d \<Longrightarrow> digit b n i x = digit b n i y) \<Longrightarrow> lead b n d x = lead b n d y"
  by (induction d) (simp_all add: lead_0 lead_Suc)

lemma digits_differ:
  assumes "x \<noteq> y" "x < b ^ n" "y < b ^ n" "0 < b"
  shows "\<exists>d < n. digit b n d x \<noteq> digit b n d y"
  using lead_eq_if_digits [of n n b x y] assms by auto

section \<open>Bytes and comparison\<close>

lemma unat_lt: "unat (k :: 'a::len word) < 2 ^ LENGTH('a)"
  by (rule unsigned_less)

lemma unat_key_less: "unat (k :: uint256) < 256 ^ 32" "unat (k :: uint256) < 16 ^ 64"
  using unat_lt [of k] by simp_all

lemma key_byte_digit: "i < 32 \<Longrightarrow> key_byte k i = digit 256 32 i (unat k)"
proof -
  assume "i < 32"
  have "(2 :: nat) ^ (8 * (31 - i)) = 256 ^ (31 - i)" by (simp add: power_mult)
  moreover have "31 - i = 32 - Suc i" by simp
  ultimately show ?thesis
    unfolding key_byte_def digit_def unat_drop_bit_eq by (simp only: drop_bit_eq_div)
qed

lemma mismatch_order:
  assumes "d \<le> n" "lead b n d x = lead b n d y" "0 < b"
  shows "case mismatch (map (\<lambda>i. digit b n i x) [d..<n]) (map (\<lambda>i. digit b n i y) [d..<n]) of
      None \<Rightarrow> x = y | Some (u, v) \<Rightarrow> u \<noteq> v \<and> (u < v \<longleftrightarrow> x < y) \<and> x \<noteq> y"
  using assms(1,2)
proof (induction "n - d" arbitrary: d)
  case 0
  then show ?case by simp
next
  case (Suc m)
  then have d: "d < n" and up: "[d..<n] = d # [Suc d..<n]" by (simp_all add: upt_conv_Cons)
  show ?case
  proof (cases "digit b n d x = digit b n d y")
    case True
    with Suc.prems d assms(3) have "lead b n (Suc d) x = lead b n (Suc d) y" by (simp add: lead_Suc)
    with Suc d True show ?thesis by (simp add: up)
  next
    case False
    then consider "digit b n d x < digit b n d y" | "digit b n d y < digit b n d x" by linarith
    then show ?thesis
      using False digit_decides [OF Suc.prems(2) d assms(3)] digit_decides [OF Suc.prems(2) [symmetric] d assms(3)]
      by cases (auto simp: up)
  qed
qed

lemma key_compare_spec:
  "key_compare a b = (if unat a = unat b then 0 else if unat a < unat b then -1 else 1)"
proof -
  have "key_bytes k = map (\<lambda>i. digit 256 32 i (unat k)) [0..<32]" for k
    by (simp add: key_bytes_def key_byte_digit)
  with mismatch_order [of 0 32 256 "unat a" "unat b"] unat_key_less(1) [of a] unat_key_less(1) [of b]
  show ?thesis by (auto simp: key_compare_def lead_0 split: option.splits)
qed

section \<open>Nibbles\<close>

text \<open>The branch of a key at a depth of the radix tree, and the part of the key above it.\<close>

abbreviation nib :: "uint256 \<Rightarrow> nat \<Rightarrow> nat" where
  "nib k d \<equiv> digit 16 64 d (unat k)"

abbreviation key_prefix :: "uint256 \<Rightarrow> nat \<Rightarrow> nat" where
  "key_prefix k d \<equiv> lead 16 64 d (unat k)"

lemma nib_less [simp]: "nib k d < 16"
  by (rule digit_less) simp

lemma key_prefix_0 [simp]: "key_prefix k 0 = 0"
  by (rule lead_0) (rule unat_key_less)

lemma key_prefix_Suc: "d < 64 \<Longrightarrow> key_prefix k (Suc d) = 16 * key_prefix k d + nib k d"
  by (rule lead_Suc) simp_all

lemma key_prefix_64: "key_prefix k 64 = key_prefix k' 64 \<Longrightarrow> k = k'"
  by (simp add: word_unat_eq_iff)

lemma nib_decides:
  "key_prefix k d = key_prefix k' d \<Longrightarrow> d < 64 \<Longrightarrow> nib k d < nib k' d \<Longrightarrow> k < k'"
  by (simp add: word_less_nat_alt digit_decides)

lemma byte_nibbles:
  assumes "d < 64"
  shows "(if odd d then key_byte k (d div 2) mod 16 else key_byte k (d div 2) div 16) = nib k d"
proof -
  let ?i = "d div 2" and ?n = "unat k"
  have byte: "key_byte k ?i = ?n div 256 ^ (31 - ?i) mod 256"
    using assms by (simp add: key_byte_digit digit_def)
  have pow: "(256 :: nat) ^ m = 16 ^ (2 * m)" for m by (simp add: power_mult)
  show ?thesis
  proof (cases "odd d")
    case True
    then have "63 - d = 2 * (31 - ?i)" using assms by (auto elim: oddE)
    with True show ?thesis by (simp add: byte digit_def pow mod_mod_cancel)
  next
    case False
    then have e: "63 - d = Suc (2 * (31 - ?i))" using assms by (auto elim!: evenE)
    have split: "x mod 256 div 16 = x div 16 mod 16" for x :: nat
      using mod_mult2_eq [of x 16 16] by simp
    have "64 - Suc d = Suc (2 * (31 - ?i))" using e by simp
    with False show ?thesis unfolding byte digit_def split pow by (simp only: power_Suc2 div_mult2_eq if_False)
  qed
qed

end
