(* ===== verification/Serializer.thy ===== *)
theory Serializer
  imports Uint256
begin

text \<open>
  The binary writer and reader of the ledger formats (\<open>src/ripple/protocol/Serializer.h\<close> and
  \<open>impl/Serializer.cpp\<close>): \<open>Serializer\<close> appends integers, keys, field identifiers and
  length-prefixed blobs to a byte vector and reads them back by offset; \<open>SerialIter\<close> reads them
  in sequence. Sizes and offsets are natural numbers: a buffer of \<open>2^31\<close> bytes is out of scope.
\<close>

unbundle bit_operations_syntax

datatype led_error = LAssert | LMissing | LRange | LDiverges | LLogic string | LThrow string

definition led_assert :: "bool \<Rightarrow> (led_error, unit) result" where
  "led_assert b = (if b then Inr () else Inl LAssert)"

lemma led_assert_simps [simp]: "led_assert True = Inr ()" "led_assert False = Inl LAssert"
  by (simp_all add: led_assert_def)

lemma bind_r_cong [fundef_cong]: "m = m' \<Longrightarrow> (\<And>x. m' = Inr x \<Longrightarrow> f x = g x) \<Longrightarrow> bind_r m f = bind_r m' g"
  by (cases m') simp_all

type_synonym byte = "8 word"
type_synonym Blob = "byte list"

section \<open>Big endian bytes\<close>

text \<open>The bytes of a \<open>base_uint\<close> from \<open>begin ()\<close> to \<open>end ()\<close>, and what copying bytes there gives.\<close>

definition be_bytes :: "nat \<Rightarrow> 'a::len word \<Rightarrow> Blob" where
  "be_bytes n w = map (\<lambda>i. ucast (drop_bit (8 * (n - 1 - i)) w)) [0..<n]"

definition be_word :: "Blob \<Rightarrow> 'a::len word" where
  "be_word bs = foldl (\<lambda>w b. push_bit 8 w OR ucast b) 0 bs"

section \<open>Serializer\<close>

type_synonym Serializer = Blob

text \<open>Every \<open>add\<close> returns the offset where it wrote.\<close>

definition add8 :: "byte \<Rightarrow> Serializer \<Rightarrow> nat \<times> Serializer" where
  "add8 b s = (length s, s @ [b])"

fun addZeros_loop :: "nat \<Rightarrow> Serializer \<Rightarrow> Serializer" where
  "addZeros_loop 0 s = s"
| "addZeros_loop (Suc n) s = addZeros_loop n (s @ [0])"

definition addZeros :: "nat \<Rightarrow> Serializer \<Rightarrow> nat \<times> Serializer" where
  "addZeros n s = (length s, addZeros_loop n s)"

definition add16 :: "16 word \<Rightarrow> Serializer \<Rightarrow> nat \<times> Serializer" where
  "add16 i s = (length s, s @ [ucast (drop_bit 8 i), ucast (i AND 0xff)])"

definition add32 :: "32 word \<Rightarrow> Serializer \<Rightarrow> nat \<times> Serializer" where
  "add32 i s = (length s, s @ [ucast (drop_bit 24 i), ucast (drop_bit 16 i AND 0xff),
     ucast (drop_bit 8 i AND 0xff), ucast (i AND 0xff)])"

definition add64 :: "64 word \<Rightarrow> Serializer \<Rightarrow> nat \<times> Serializer" where
  "add64 i s = (length s, s @ [ucast (drop_bit 56 i), ucast (drop_bit 48 i AND 0xff),
     ucast (drop_bit 40 i AND 0xff), ucast (drop_bit 32 i AND 0xff), ucast (drop_bit 24 i AND 0xff),
     ucast (drop_bit 16 i AND 0xff), ucast (drop_bit 8 i AND 0xff), ucast (i AND 0xff)])"

definition addRaw :: "Blob \<Rightarrow> Serializer \<Rightarrow> nat \<times> Serializer" where
  "addRaw v s = (length s, s @ v)"

definition add128 :: "128 word \<Rightarrow> Serializer \<Rightarrow> nat \<times> Serializer" where
  "add128 i s = (length s, s @ be_bytes 16 i)"

definition add160 :: "160 word \<Rightarrow> Serializer \<Rightarrow> nat \<times> Serializer" where
  "add160 i s = (length s, s @ be_bytes 20 i)"

definition add256 :: "uint256 \<Rightarrow> Serializer \<Rightarrow> nat \<times> Serializer" where
  "add256 i s = (length s, s @ be_bytes 32 i)"

definition get8 :: "nat \<Rightarrow> Serializer \<Rightarrow> int option" where
  "get8 offset s = (if offset \<ge> length s then None else Some (uint (s ! offset)))"

definition get256 :: "nat \<Rightarrow> Serializer \<Rightarrow> uint256 option" where
  "get256 offset s = (if offset + 32 > length s then None else Some (be_word (take 32 (drop offset s))))"

definition getInteger :: "nat \<Rightarrow> nat \<Rightarrow> Serializer \<Rightarrow> 'a::len word option" where
  "getInteger bytes offset s =
     (if offset + bytes > length s then None
      else Some (foldl (\<lambda>number i. (if i > 0 then push_bit 8 number else number) OR ucast (s ! (offset + i))) 0 [0..<bytes]))"

definition chop :: "nat \<Rightarrow> Serializer \<Rightarrow> bool \<times> Serializer" where
  "chop n s = (if n > length s then (False, s) else (True, take (length s - n) s))"

definition getRaw :: "nat \<Rightarrow> nat \<Rightarrow> Serializer \<Rightarrow> Blob option" where
  "getRaw offset len s = (if offset + len > length s then None else Some (take len (drop offset s)))"

definition getRaw_blob :: "nat \<Rightarrow> nat \<Rightarrow> Serializer \<Rightarrow> Blob" where
  "getRaw_blob offset len s = (if offset + len > length s then [] else take len (drop offset s))"

definition addFieldID :: "int \<Rightarrow> int \<Rightarrow> Serializer \<Rightarrow> (led_error, nat \<times> Serializer) result" where
  "addFieldID type name s =
     bind_r (led_assert (0 < type \<and> type < 256 \<and> 0 < name \<and> name < 256)) (\<lambda>_.
       Inr (length s,
         if type < 16
         then if name < 16 then s @ [word_of_int (push_bit 4 type OR name)]
              else s @ [word_of_int (push_bit 4 type), word_of_int name]
         else if name < 16 then s @ [word_of_int name, word_of_int type]
              else s @ [0, word_of_int type, word_of_int name]))"

text \<open>Inside, \<open>type\<close> and \<open>name\<close> are output arguments; None is the value false.\<close>

definition getFieldID :: "nat \<Rightarrow> Serializer \<Rightarrow> (int \<times> int) option" where
  "getFieldID offset s = (case get8 offset s of
     None \<Rightarrow> None
   | Some b \<Rightarrow>
       let name = b AND 15; type = drop_bit 4 b in
       case (if type = 0
             then (case get8 (offset + 1) s of None \<Rightarrow> None
                   | Some t \<Rightarrow> if t = 0 \<or> t < 16 then None else Some (t, offset + 1))
             else Some (type, offset)) of
         None \<Rightarrow> None
       | Some (type1, offset1) \<Rightarrow>
           if name = 0
           then (case get8 (offset1 + 1) s of None \<Rightarrow> None
                 | Some nm \<Rightarrow> if nm = 0 \<or> nm < 16 then None else Some (type1, nm))
           else Some (type1, name))"

section \<open>Variable length\<close>

definition encodeLengthLength :: "int \<Rightarrow> (led_error, nat) result" where
  "encodeLengthLength len =
     (if len < 0 then Inl (LThrow ''len<0'')
      else if len \<le> 192 then Inr 1
      else if len \<le> 12480 then Inr 2
      else if len \<le> 918744 then Inr 3
      else Inl (LThrow ''len>918744''))"

definition decodeLengthLength :: "int \<Rightarrow> (led_error, nat) result" where
  "decodeLengthLength b1 =
     (if b1 < 0 then Inl (LThrow ''b1<0'')
      else if b1 \<le> 192 then Inr 1
      else if b1 \<le> 240 then Inr 2
      else if b1 \<le> 254 then Inr 3
      else Inl (LThrow ''b1>254''))"

definition decodeVLLength1 :: "int \<Rightarrow> (led_error, int) result" where
  "decodeVLLength1 b1 =
     (if b1 < 0 then Inl (LThrow ''b1<0'') else if b1 > 254 then Inl (LThrow ''b1>254'') else Inr b1)"

definition decodeVLLength2 :: "int \<Rightarrow> int \<Rightarrow> (led_error, int) result" where
  "decodeVLLength2 b1 b2 =
     (if b1 < 193 then Inl (LThrow ''b1<193'') else if b1 > 240 then Inl (LThrow ''b1>240'')
      else Inr (193 + (b1 - 193) * 256 + b2))"

definition decodeVLLength3 :: "int \<Rightarrow> int \<Rightarrow> int \<Rightarrow> (led_error, int) result" where
  "decodeVLLength3 b1 b2 b3 =
     (if b1 < 241 then Inl (LThrow ''b1<241'') else if b1 > 254 then Inl (LThrow ''b1>254'')
      else Inr (12481 + (b1 - 241) * 65536 + b2 * 256 + b3))"

text \<open>The bytes that encode a length; \<open>193 + (unsigned char) \<dots>\<close> is stored in a byte.\<close>

definition encoded_bytes :: "int \<Rightarrow> (led_error, Blob) result" where
  "encoded_bytes len =
     (if len \<le> 192 then Inr [word_of_int len]
      else if len \<le> 12480 then
        (let l = len - 193 in Inr [193 + word_of_int (drop_bit 8 l), word_of_int (l AND 0xff)])
      else if len \<le> 918744 then
        (let l = len - 12481 in
         Inr [241 + word_of_int (drop_bit 16 l), word_of_int (drop_bit 8 l AND 0xff), word_of_int (l AND 0xff)])
      else Inl (LThrow ''lenlen''))"

definition addEncoded :: "int \<Rightarrow> Serializer \<Rightarrow> (led_error, nat \<times> Serializer) result" where
  "addEncoded len s = bind_r (encoded_bytes len) (\<lambda>bytes. Inr (addRaw bytes s))"

definition addVL :: "Blob \<Rightarrow> Serializer \<Rightarrow> (led_error, nat \<times> Serializer) result" where
  "addVL v s =
     bind_r (addEncoded (int (length v)) s) (\<lambda>(ret, s1).
       let s2 = snd (addRaw v s1) in
       bind_r (encodeLengthLength (int (length v))) (\<lambda>n.
       bind_r (led_assert (length s2 = ret + length v + n)) (\<lambda>_. Inr (ret, s2))))"

text \<open>
  \<open>getVLLength\<close> and \<open>getVL\<close>: false on a short buffer and on the exceptions thrown inside the
  \<open>try\<close> block; the call of \<open>decodeLengthLength\<close> stands before that block. The loop-free
  part they share also gives the offset behind the length.
\<close>

definition vl_length :: "nat \<Rightarrow> Serializer \<Rightarrow> (led_error, (int \<times> nat \<times> nat) option) result" where
  "vl_length offset s = (case get8 offset s of
     None \<Rightarrow> Inr None
   | Some b1 \<Rightarrow> bind_r (decodeLengthLength b1) (\<lambda>lenLen.
       let caught = (\<lambda>r off. case r of Inl e \<Rightarrow> Inr None | Inr n \<Rightarrow> Inr (Some (n, lenLen, off))) in
       if lenLen = 1 then caught (decodeVLLength1 b1) (offset + 1)
       else if lenLen = 2 then
         (case get8 (offset + 1) s of None \<Rightarrow> Inr None
          | Some b2 \<Rightarrow> caught (decodeVLLength2 b1 b2) (offset + 2))
       else if lenLen = 3 then
         (case get8 (offset + 1) s of None \<Rightarrow> Inr None
          | Some b2 \<Rightarrow> (case get8 (offset + 2) s of None \<Rightarrow> Inr None
                        | Some b3 \<Rightarrow> caught (decodeVLLength3 b1 b2 b3) (offset + 3)))
       else Inr None))"

definition getVLLength :: "nat \<Rightarrow> Serializer \<Rightarrow> (led_error, int option) result" where
  "getVLLength offset s = bind_r (vl_length offset s) (\<lambda>r. Inr (map_option fst r))"

definition getVL :: "nat \<Rightarrow> Serializer \<Rightarrow> (led_error, (Blob \<times> int) option) result" where
  "getVL offset s =
     bind_r (vl_length offset s) (\<lambda>r. case r of
       None \<Rightarrow> Inr None
     | Some (datLen, lenLen, off) \<Rightarrow>
         Inr (map_option (\<lambda>v. (v, int lenLen + datLen)) (getRaw off (nat datLen) s)))"

section \<open>SerialIter\<close>

record SerialIter =
  si_buf :: Blob
  si_p :: nat
  si_remain :: nat
  si_used :: nat

definition SerialIter_of :: "Blob \<Rightarrow> SerialIter" where
  "SerialIter_of data = \<lparr>si_buf = data, si_p = 0, si_remain = length data, si_used = 0\<rparr>"

definition si_reset :: "SerialIter \<Rightarrow> SerialIter" where
  "si_reset it = it\<lparr>si_p := si_p it - si_used it, si_remain := si_remain it + si_used it, si_used := 0\<rparr>"

definition si_empty :: "SerialIter \<Rightarrow> bool" where
  "si_empty it = (si_remain it = 0)"

text \<open>The three counters move together; \<open>t\<close> is the old position.\<close>

definition si_advance :: "nat \<Rightarrow> SerialIter \<Rightarrow> SerialIter" where
  "si_advance n it = it\<lparr>si_p := si_p it + n, si_remain := si_remain it - n, si_used := si_used it + n\<rparr>"

definition si_at :: "SerialIter \<Rightarrow> nat \<Rightarrow> 64 word" where
  "si_at it i = ucast (si_buf it ! (si_p it + i))"

definition si_get8 :: "SerialIter \<Rightarrow> (led_error, byte \<times> SerialIter) result" where
  "si_get8 it = (if si_remain it < 1 then Inl (LThrow ''invalid SerialIter get8'')
     else Inr (si_buf it ! si_p it, si_advance 1 it))"

definition si_get16 :: "SerialIter \<Rightarrow> (led_error, 16 word \<times> SerialIter) result" where
  "si_get16 it = (if si_remain it < 2 then Inl (LThrow ''invalid SerialIter get16'')
     else Inr (ucast (push_bit 8 (si_at it 0) + si_at it 1), si_advance 2 it))"

definition si_get32 :: "SerialIter \<Rightarrow> (led_error, 32 word \<times> SerialIter) result" where
  "si_get32 it = (if si_remain it < 4 then Inl (LThrow ''invalid SerialIter get32'')
     else Inr (ucast (push_bit 24 (si_at it 0) + push_bit 16 (si_at it 1) + push_bit 8 (si_at it 2) + si_at it 3),
       si_advance 4 it))"

definition si_get64 :: "SerialIter \<Rightarrow> (led_error, 64 word \<times> SerialIter) result" where
  "si_get64 it = (if si_remain it < 8 then Inl (LThrow ''invalid SerialIter get64'')
     else Inr (push_bit 56 (si_at it 0) + push_bit 48 (si_at it 1) + push_bit 40 (si_at it 2) + push_bit 32 (si_at it 3) +
       push_bit 24 (si_at it 4) + push_bit 16 (si_at it 5) + push_bit 8 (si_at it 6) + si_at it 7, si_advance 8 it))"

definition si_getBitString :: "nat \<Rightarrow> SerialIter \<Rightarrow> (led_error, 'a::len word \<times> SerialIter) result" where
  "si_getBitString n it = (if si_remain it < n then Inl (LThrow ''invalid SerialIter getBitString'')
     else Inr (be_word (take n (drop (si_p it) (si_buf it))), si_advance n it))"

definition si_getFieldID :: "SerialIter \<Rightarrow> (led_error, (int \<times> int) \<times> SerialIter) result" where
  "si_getFieldID it =
     bind_r (si_get8 it) (\<lambda>(b, it1).
       let name = uint b AND 15; type = drop_bit 4 (uint b) in
       bind_r (if type = 0
               then bind_r (si_get8 it1) (\<lambda>(t, it2).
                      if uint t = 0 \<or> uint t < 16 then Inl (LThrow ''gFID: uncommon type out of range'')
                      else Inr (uint t, it2))
               else Inr (type, it1)) (\<lambda>(type1, it3).
       if name = 0
       then bind_r (si_get8 it3) (\<lambda>(nm, it4).
              if uint nm = 0 \<or> uint nm < 16 then Inl (LThrow ''gFID: uncommon name out of range'')
              else Inr ((type1, uint nm), it4))
       else Inr ((type1, name), it3)))"

definition si_getRaw :: "nat \<Rightarrow> SerialIter \<Rightarrow> (led_error, Blob \<times> SerialIter) result" where
  "si_getRaw n it = (if si_remain it < n then Inl (LThrow ''invalid SerialIter getRaw'')
     else Inr (take n (drop (si_p it) (si_buf it)), si_advance n it))"

definition si_getSlice :: "nat \<Rightarrow> SerialIter \<Rightarrow> (led_error, Blob \<times> SerialIter) result" where
  "si_getSlice n it = (if n > si_remain it then Inl (LThrow ''invalid SerialIter getSlice'')
     else Inr (take n (drop (si_p it) (si_buf it)), si_advance n it))"

definition si_getVLDataLength :: "SerialIter \<Rightarrow> (led_error, int \<times> SerialIter) result" where
  "si_getVLDataLength it =
     bind_r (si_get8 it) (\<lambda>(b1, it1).
     bind_r (decodeLengthLength (uint b1)) (\<lambda>lenLen.
       if lenLen = 1 then bind_r (decodeVLLength1 (uint b1)) (\<lambda>n. Inr (n, it1))
       else if lenLen = 2 then
         bind_r (si_get8 it1) (\<lambda>(b2, it2). bind_r (decodeVLLength2 (uint b1) (uint b2)) (\<lambda>n. Inr (n, it2)))
       else
         bind_r (led_assert (lenLen = 3)) (\<lambda>_.
         bind_r (si_get8 it1) (\<lambda>(b2, it2).
         bind_r (si_get8 it2) (\<lambda>(b3, it3).
         bind_r (decodeVLLength3 (uint b1) (uint b2) (uint b3)) (\<lambda>n. Inr (n, it3)))))))"

definition si_getVL :: "SerialIter \<Rightarrow> (led_error, Blob \<times> SerialIter) result" where
  "si_getVL it = bind_r (si_getVLDataLength it) (\<lambda>(n, it1). si_getRaw (nat n) it1)"

end
