(* ===== verification/SHAMap.thy ===== *)
theory SHAMap
  imports Serializer OrderedMap
begin

text \<open>
  The radix tree that holds the ledger state (\<open>src/ripple/shamap\<close>): inner nodes with sixteen
  branches, one per nibble of the key, and leaves that hold the items. The walks keep an explicit stack
  of nodes, as the source does. All nodes are resident: fetching from the node store, sharing between
  snapshots (copy on write) and locking are not modelled, so a node is a value. Hashes are treated in
  the theory \<open>SHAMap_Hash\<close>.
\<close>

section \<open>Items and nodes\<close>

record SHAMapItem =
  it_key :: uint256
  it_data :: Blob

datatype TNType = tnTRANSACTION_NM | tnTRANSACTION_MD | tnACCOUNT_STATE

datatype SHAMapNode = Leaf TNType SHAMapItem | Inner "SHAMapNode option list"

datatype SHAMapState = Modifying | Immutable | Synching | Floating | Invalid

record SHAMap =
  sm_state :: SHAMapState
  sm_root :: SHAMapNode

definition empty_inner :: SHAMapNode where
  "empty_inner = Inner (replicate 16 None)"

definition SHAMap_init :: SHAMap where
  "SHAMap_init = \<lparr>sm_state = Modifying, sm_root = empty_inner\<rparr>"

text \<open>The constructor of a leaf requires at least twelve bytes of data.\<close>

definition make_leaf :: "TNType \<Rightarrow> SHAMapItem \<Rightarrow> (led_error, SHAMapNode) result" where
  "make_leaf ty it = (if 12 \<le> length (it_data it) then Inr (Leaf ty it) else Inl LAssert)"

definition child :: "SHAMapNode option list \<Rightarrow> nat \<Rightarrow> SHAMapNode option" where
  "child cs m = (if m < length cs then cs ! m else None)"

definition isEmptyBranch :: "SHAMapNode option list \<Rightarrow> nat \<Rightarrow> bool" where
  "isEmptyBranch cs m = (child cs m = None)"

definition setChild :: "nat \<Rightarrow> SHAMapNode option \<Rightarrow> SHAMapNode option list \<Rightarrow> SHAMapNode option list" where
  "setChild m c cs = cs[m := c]"

text \<open>The non-empty branches in order, and their number.\<close>

definition branches :: "SHAMapNode option list \<Rightarrow> SHAMapNode list" where
  "branches cs = List.map_filter (\<lambda>c. c) cs"

definition getBranchCount :: "SHAMapNode option list \<Rightarrow> nat" where
  "getBranchCount cs = length (branches cs)"

section \<open>Node identifiers\<close>

record SHAMapNodeID =
  mNodeID :: uint256
  mDepth :: nat

definition root_id :: SHAMapNodeID where
  "root_id = \<lparr>mNodeID = 0, mDepth = 0\<rparr>"

definition isRoot :: "SHAMapNodeID \<Rightarrow> bool" where
  "isRoot nid = (mDepth nid = 0)"

text \<open>The table of masks: two entries per byte, the selector growing by a nibble each time.\<close>

definition set_byte :: "uint256 \<Rightarrow> nat \<Rightarrow> uint256 \<Rightarrow> uint256" where
  "set_byte k i v = (k AND NOT (push_bit (8 * (31 - i)) 0xFF)) OR push_bit (8 * (31 - i)) v"

fun masks_t :: "nat \<Rightarrow> uint256 \<Rightarrow> uint256 list" where
  "masks_t 0 selector = [selector]"
| "masks_t (Suc n) selector =
     (let i = 31 - n; s1 = set_byte selector i 0xF0; s2 = set_byte s1 i 0xFF in selector # s1 # masks_t n s2)"

definition Masks :: "nat \<Rightarrow> uint256" where
  "Masks depth = masks_t 32 0 ! depth"

definition SHAMapNodeID_of :: "nat \<Rightarrow> uint256 \<Rightarrow> (led_error, SHAMapNodeID) result" where
  "SHAMapNodeID_of depth hash =
     bind_r (led_assert (depth < 65)) (\<lambda>_. Inr \<lparr>mNodeID = hash AND Masks depth, mDepth = depth\<rparr>)"

definition getChildNodeID :: "SHAMapNodeID \<Rightarrow> nat \<Rightarrow> (led_error, SHAMapNodeID) result" where
  "getChildNodeID nid m =
     bind_r (led_assert (m < 16)) (\<lambda>_.
     bind_r (led_assert (mDepth nid \<le> 64)) (\<lambda>_.
       let b = (if odd (mDepth nid) then m else 16 * m)
       in SHAMapNodeID_of (mDepth nid + 1)
            (mNodeID nid OR push_bit (8 * (31 - mDepth nid div 2)) (of_nat b))))"

text \<open>\<open>selectBranch\<close>: the nibble of the key at the depth of the node; below depth 64 the read is
  past the end of the key.\<close>

definition selectBranch :: "SHAMapNodeID \<Rightarrow> uint256 \<Rightarrow> (led_error, nat) result" where
  "selectBranch nid hash =
     (if mDepth nid < 64
      then let branch = key_byte hash (mDepth nid div 2)
           in Inr (if odd (mDepth nid) then branch mod 16 else branch div 16)
      else Inl LRange)"

section \<open>Walks\<close>

type_synonym NodeStack = "(SHAMapNode \<times> SHAMapNodeID) list"

lemma size_child [termination_simp]:
  "child cs b = Some c \<Longrightarrow> size c < Suc (size_list (size_option size) cs)"
proof -
  assume "child cs b = Some c"
  then have "Some c \<in> set cs" by (auto simp: child_def split: if_splits) (metis nth_mem)
  then have "size_option size (Some c) \<le> size_list (size_option size) cs" by (rule size_list_estimation') simp
  then show ?thesis by simp
qed

lemma size_branches [termination_simp]: "c \<in> set (branches cs) \<Longrightarrow> size c < Suc (size_list (size_option size) cs)"
proof -
  assume "c \<in> set (branches cs)"
  then have "Some c \<in> set cs" by (auto simp: branches_def List.map_filter_def)
  then have "size_option size (Some c) \<le> size_list (size_option size) cs" by (rule size_list_estimation') simp
  then show ?thesis by simp
qed

fun walkToPointer :: "uint256 \<Rightarrow> SHAMapNodeID \<Rightarrow> SHAMapNode \<Rightarrow> (led_error, SHAMapItem option) result" where
  "walkToPointer key nid (Leaf ty it) = Inr (if it_key it = key then Some it else None)"
| "walkToPointer key nid (Inner cs) =
     bind_r (selectBranch nid key) (\<lambda>b.
       case child cs b of None \<Rightarrow> Inr None
       | Some c \<Rightarrow> bind_r (getChildNodeID nid b) (\<lambda>cid. walkToPointer key cid c))"

fun getStack ::
  "uint256 \<Rightarrow> bool \<Rightarrow> SHAMapNodeID \<Rightarrow> SHAMapNode \<Rightarrow> NodeStack \<Rightarrow> (led_error, NodeStack) result" where
  "getStack key incl nid (Leaf ty it) stack =
     Inr (if incl \<or> it_key it = key then (Leaf ty it, nid) # stack else stack)"
| "getStack key incl nid (Inner cs) stack =
     bind_r (selectBranch nid key) (\<lambda>b.
       let stack1 = (Inner cs, nid) # stack
       in case child cs b of None \<Rightarrow> Inr stack1
          | Some c \<Rightarrow> bind_r (getChildNodeID nid b) (\<lambda>cid. getStack key incl cid c stack1))"

fun first_child :: "SHAMapNode option list \<Rightarrow> SHAMapNode option" where
  "first_child [] = None"
| "first_child (None # cs) = first_child cs"
| "first_child (Some c # cs) = Some c"

lemma first_child_branches: "first_child cs = (case branches cs of [] \<Rightarrow> None | c # _ \<Rightarrow> Some c)"
  by (induction cs rule: first_child.induct) (simp_all add: branches_def List.map_filter_simps)

lemma size_first_child [termination_simp]:
  "first_child cs = Some c \<Longrightarrow> size c < Suc (size_list (size_option size) cs)"
  by (rule size_branches) (auto simp: first_child_branches split: list.splits)

lemma branches_rev: "branches (rev cs) = rev (branches cs)"
  by (simp add: branches_def List.map_filter_def rev_map rev_filter)

lemma size_last_child [termination_simp]:
  "first_child (rev cs) = Some c \<Longrightarrow> size c < Suc (size_list (size_option size) cs)"
  using size_branches [of c cs] by (auto simp: first_child_branches branches_rev split: list.splits)

fun firstBelow :: "SHAMapNode \<Rightarrow> SHAMapItem option" where
  "firstBelow (Leaf ty it) = Some it"
| "firstBelow (Inner cs) = (case first_child cs of None \<Rightarrow> None | Some c \<Rightarrow> firstBelow c)"

fun lastBelow :: "SHAMapNode \<Rightarrow> SHAMapItem option" where
  "lastBelow (Leaf ty it) = Some it"
| "lastBelow (Inner cs) = (case first_child (rev cs) of None \<Rightarrow> None | Some c \<Rightarrow> lastBelow c)"

text \<open>\<open>onlyBelow\<close>: the item below the node when there is exactly one.\<close>

fun onlyBelow :: "SHAMapNode \<Rightarrow> (led_error, SHAMapItem option) result" where
  "onlyBelow (Leaf ty it) = Inr (Some it)"
| "onlyBelow (Inner cs) = (case branches cs of
     [] \<Rightarrow> Inl LAssert
   | c # rest \<Rightarrow> if rest = [] then onlyBelow c else Inr None)"

definition peekItem :: "uint256 \<Rightarrow> SHAMap \<Rightarrow> (led_error, SHAMapItem option) result" where
  "peekItem key m = walkToPointer key root_id (sm_root m)"

definition hasItem :: "uint256 \<Rightarrow> SHAMap \<Rightarrow> (led_error, bool) result" where
  "hasItem key m = bind_r (walkToPointer key root_id (sm_root m)) (\<lambda>r. Inr (r \<noteq> None))"

definition peekFirstItem :: "SHAMap \<Rightarrow> SHAMapItem option" where
  "peekFirstItem m = firstBelow (sm_root m)"

definition peekLastItem :: "SHAMap \<Rightarrow> SHAMapItem option" where
  "peekLastItem m = lastBelow (sm_root m)"

fun next_loop :: "uint256 \<Rightarrow> NodeStack \<Rightarrow> (led_error, SHAMapItem option) result" where
  "next_loop key [] = Inr None"
| "next_loop key ((Leaf ty it, nid) # stack) = (if it_key it > key then Inr (Some it) else next_loop key stack)"
| "next_loop key ((Inner cs, nid) # stack) =
     bind_r (selectBranch nid key) (\<lambda>b.
       case first_child (drop (b + 1) cs) of
         Some c \<Rightarrow> (case firstBelow c of None \<Rightarrow> Inl LMissing | Some it \<Rightarrow> Inr (Some it))
       | None \<Rightarrow> next_loop key stack)"

definition peekNextItem :: "uint256 \<Rightarrow> SHAMap \<Rightarrow> (led_error, SHAMapItem option) result" where
  "peekNextItem key m = bind_r (getStack key True root_id (sm_root m) []) (next_loop key)"

fun prev_loop :: "uint256 \<Rightarrow> NodeStack \<Rightarrow> (led_error, SHAMapItem option) result" where
  "prev_loop key [] = Inr None"
| "prev_loop key ((Leaf ty it, nid) # stack) = (if it_key it < key then Inr (Some it) else prev_loop key stack)"
| "prev_loop key ((Inner cs, nid) # stack) =
     bind_r (selectBranch nid key) (\<lambda>b.
       case first_child (rev (take b cs)) of
         Some c \<Rightarrow> (case lastBelow c of None \<Rightarrow> Inl LMissing | Some it \<Rightarrow> Inr (Some it))
       | None \<Rightarrow> prev_loop key stack)"

definition peekPrevItem :: "uint256 \<Rightarrow> SHAMap \<Rightarrow> (led_error, SHAMapItem option) result" where
  "peekPrevItem key m = bind_r (getStack key True root_id (sm_root m) []) (prev_loop key)"

section \<open>Changes\<close>

text \<open>\<open>dirtyUp\<close> links the new child into the nodes of the stack; the last one is the root.\<close>

fun dirtyUp :: "uint256 \<Rightarrow> NodeStack \<Rightarrow> SHAMapNode \<Rightarrow> (led_error, SHAMapNode) result" where
  "dirtyUp target [] c = Inr c"
| "dirtyUp target ((Leaf ty it, nid) # stack) c = Inl LAssert"
| "dirtyUp target ((Inner cs, nid) # stack) c =
     bind_r (selectBranch nid target) (\<lambda>b. dirtyUp target stack (Inner (setChild b (Some c) cs)))"

text \<open>Deletion: what is linked into the parent of a node that lost a child.\<close>

definition del_collapse :: "TNType \<Rightarrow> SHAMapNode option list \<Rightarrow> (led_error, SHAMapNode option) result" where
  "del_collapse ty cs =
     (if getBranchCount cs = 0 then Inr None
      else if getBranchCount cs = 1
      then bind_r (onlyBelow (Inner cs)) (\<lambda>found. case found of
             Some item \<Rightarrow> bind_r (make_leaf ty item) (\<lambda>l. Inr (Some l))
           | None \<Rightarrow> Inr (Some (Inner cs)))
      else Inr (Some (Inner cs)))"

fun del_loop ::
  "uint256 \<Rightarrow> TNType \<Rightarrow> NodeStack \<Rightarrow> SHAMapNode option \<Rightarrow> SHAMapNode \<Rightarrow> (led_error, SHAMapNode) result" where
  "del_loop key ty [] prevNode root = Inr root"
| "del_loop key ty ((Leaf t it, nid) # stack) prevNode root = Inl LAssert"
| "del_loop key ty ((Inner cs, nid) # stack) prevNode root =
     bind_r (selectBranch nid key) (\<lambda>b.
       let cs1 = setChild b prevNode cs
       in if isRoot nid then del_loop key ty stack prevNode (Inner cs1)
          else bind_r (del_collapse ty cs1) (\<lambda>prev1. del_loop key ty stack prev1 root))"

definition delItem :: "uint256 \<Rightarrow> SHAMap \<Rightarrow> (led_error, bool \<times> SHAMap) result" where
  "delItem key m =
     bind_r (led_assert (sm_state m \<noteq> Immutable)) (\<lambda>_.
     bind_r (getStack key True root_id (sm_root m) []) (\<lambda>stack.
       case stack of
         [] \<Rightarrow> Inl LMissing
       | (Inner cs, nid) # _ \<Rightarrow> Inr (False, m)
       | (Leaf ty it, nid) # stack1 \<Rightarrow>
           if it_key it \<noteq> key then Inr (False, m)
           else bind_r (del_loop key ty stack1 None (sm_root m)) (\<lambda>r. Inr (True, m\<lparr>sm_root := r\<rparr>))))"

text \<open>Insertion at a leaf: new inner nodes are pushed while both keys take the same branch.\<close>

lemma getChildNodeID_depth: "getChildNodeID nid b = Inr cid \<Longrightarrow> mDepth cid = Suc (mDepth nid) \<and> mDepth nid < 64 \<and> b < 16"
  by (auto simp: getChildNodeID_def SHAMapNodeID_of_def led_assert_def Let_def split: if_splits)

function split_leaf ::
  "uint256 \<Rightarrow> uint256 \<Rightarrow> SHAMapNodeID \<Rightarrow> NodeStack \<Rightarrow> (led_error, nat \<times> nat \<times> NodeStack) result" where
  "split_leaf tag other nid stack =
     bind_r (selectBranch nid tag) (\<lambda>b1.
     bind_r (selectBranch nid other) (\<lambda>b2.
       if b1 = b2
       then bind_r (getChildNodeID nid b1) (\<lambda>cid. split_leaf tag other cid ((empty_inner, nid) # stack))
       else Inr (b1, b2, stack)))"
  by pat_completeness auto

termination
  by (relation "measure (\<lambda>(tag, other, nid, stack). 65 - mDepth nid)") (auto dest: getChildNodeID_depth)

declare split_leaf.simps [simp del]

definition add_at :: "TNType \<Rightarrow> SHAMapItem \<Rightarrow> NodeStack \<Rightarrow> (led_error, SHAMapNode option) result" where
  "add_at ty item stack =
     (let tag = it_key item in
      case stack of
        [] \<Rightarrow> Inl LMissing
      | (Inner cs, nid) # stack1 \<Rightarrow>
          bind_r (selectBranch nid tag) (\<lambda>b.
          bind_r (led_assert (isEmptyBranch cs b)) (\<lambda>_.
          bind_r (make_leaf ty item) (\<lambda>l.
          bind_r (dirtyUp tag stack1 (Inner (setChild b (Some l) cs))) (\<lambda>r. Inr (Some r)))))
      | (Leaf ty' other, nid) # stack1 \<Rightarrow>
          if it_key other = tag then Inr None
          else bind_r (split_leaf tag (it_key other) nid stack1) (\<lambda>(b1, b2, stack2).
               bind_r (make_leaf ty item) (\<lambda>l1.
               bind_r (make_leaf ty other) (\<lambda>l2.
               bind_r (dirtyUp tag stack2
                 (Inner (setChild b2 (Some l2) (setChild b1 (Some l1) (replicate 16 None))))) (\<lambda>r. Inr (Some r))))))"

definition leaf_type :: "bool \<Rightarrow> bool \<Rightarrow> TNType" where
  "leaf_type isTransaction hasMeta =
     (if \<not> isTransaction then tnACCOUNT_STATE else if hasMeta then tnTRANSACTION_MD else tnTRANSACTION_NM)"

definition addGiveItem :: "SHAMapItem \<Rightarrow> bool \<Rightarrow> bool \<Rightarrow> SHAMap \<Rightarrow> (led_error, bool \<times> SHAMap) result" where
  "addGiveItem item isTransaction hasMeta m =
     bind_r (led_assert (sm_state m \<noteq> Immutable)) (\<lambda>_.
     bind_r (getStack (it_key item) True root_id (sm_root m) []) (\<lambda>stack.
     bind_r (add_at (leaf_type isTransaction hasMeta) item stack) (\<lambda>found. case found of
         None \<Rightarrow> Inr (False, m)
       | Some r \<Rightarrow> bind_r (led_assert (sm_state m \<noteq> Synching)) (\<lambda>_. Inr (True, m\<lparr>sm_root := r\<rparr>)))))"

text \<open>
  Update: \<open>setItem\<close> writes the item into the leaf that \<open>unshareNode\<close> made the map's own, and only
  a leaf whose hash changes goes through \<open>dirtyUp\<close>; on trees as values both replace the leaf. (A leaf
  that is still shared with a snapshot is written in a copy, which is dropped if the hash is the same:
  the values differ only when two items of one key have the same hash.)
\<close>

definition updateGiveItem ::
  "(TNType \<Rightarrow> SHAMapItem \<Rightarrow> uint256) \<Rightarrow> SHAMapItem \<Rightarrow> bool \<Rightarrow> bool \<Rightarrow> SHAMap \<Rightarrow> (led_error, bool \<times> SHAMap) result" where
  "updateGiveItem leaf_hash item isTransaction hasMeta m =
     bind_r (led_assert (sm_state m \<noteq> Immutable)) (\<lambda>_.
     bind_r (getStack (it_key item) True root_id (sm_root m) []) (\<lambda>stack.
       case stack of
         [] \<Rightarrow> Inl LMissing
       | (Inner cs, nid) # _ \<Rightarrow> Inl LAssert
       | (Leaf ty it, nid) # stack1 \<Rightarrow>
           if it_key it \<noteq> it_key item then Inl LAssert
           else let ty' = leaf_type isTransaction hasMeta
                in bind_r (led_assert (leaf_hash ty' item = leaf_hash ty it \<or> sm_state m \<noteq> Synching)) (\<lambda>_.
                   bind_r (dirtyUp (it_key item) stack1 (Leaf ty' item)) (\<lambda>r. Inr (True, m\<lparr>sm_root := r\<rparr>)))))"

end
