(* ===== verification/SHAMap_Spec.thy ===== *)
theory SHAMap_Spec
  imports SHAMap
begin

text \<open>
  What the radix tree promises: in key order its leaves are a sorted list of items, and every operation
  is the corresponding operation of an ordered map on that list. The shape invariant makes the tree
  canonical: two trees with the same items are equal.
\<close>

section \<open>Contents and invariant\<close>

fun node_items :: "SHAMapNode \<Rightarrow> (uint256 \<times> SHAMapItem) list" where
  "node_items (Leaf ty it) = [(it_key it, it)]"
| "node_items (Inner cs) = concat (map node_items (branches cs))"

definition opt_items :: "SHAMapNode option \<Rightarrow> (uint256 \<times> SHAMapItem) list" where
  "opt_items c = (case c of None \<Rightarrow> [] | Some n \<Rightarrow> node_items n)"

lemma opt_items_simps [simp]: "opt_items None = []" "opt_items (Some n) = node_items n"
  by (simp_all add: opt_items_def)

lemma branches_simps [simp]:
  "branches [] = []" "branches (None # cs) = branches cs" "branches (Some c # cs) = c # branches cs"
  "branches (cs @ cs') = branches cs @ branches cs'"
  by (simp_all add: branches_def List.map_filter_def)

lemma node_items_Inner: "node_items (Inner cs) = concat (map opt_items cs)"
proof -
  have "concat (map node_items (branches cs)) = concat (map opt_items cs)"
  proof (induction cs)
    case (Cons c cs)
    then show ?case by (cases c) simp_all
  qed simp
  then show ?thesis by simp
qed

declare node_items.simps(2) [simp del]

text \<open>Below the root an inner node has at least two items.\<close>

definition populated :: "SHAMapNode \<Rightarrow> bool" where
  "populated n = (case n of Leaf _ _ \<Rightarrow> True | Inner _ \<Rightarrow> 2 \<le> length (node_items n))"

inductive node_ok :: "TNType \<Rightarrow> nat \<Rightarrow> nat \<Rightarrow> SHAMapNode \<Rightarrow> bool" for ty where
  leaf: "d \<le> 64 \<Longrightarrow> key_prefix (it_key it) d = p \<Longrightarrow> 12 \<le> length (it_data it) \<Longrightarrow> node_ok ty d p (Leaf ty it)"
| inner: "d < 64 \<Longrightarrow> length cs = 16 \<Longrightarrow>
    (\<And>i c. i < 16 \<Longrightarrow> cs ! i = Some c \<Longrightarrow> node_ok ty (Suc d) (16 * p + i) c \<and> populated c) \<Longrightarrow>
    node_ok ty d p (Inner cs)"

inductive_simps node_ok_Leaf [simp]: "node_ok ty d p (Leaf ty' it)"
inductive_simps node_ok_Inner: "node_ok ty d p (Inner cs)"

definition shamap_ok :: "TNType \<Rightarrow> SHAMap \<Rightarrow> bool" where
  "shamap_ok ty m = (node_ok ty 0 0 (sm_root m) \<and> (\<exists>cs. sm_root m = Inner cs))"

definition shamap_items :: "SHAMap \<Rightarrow> (uint256 \<times> SHAMapItem) list" where
  "shamap_items m = node_items (sm_root m)"

lemma node_ok_child:
  "node_ok ty d p (Inner cs) \<Longrightarrow> child cs i = Some c \<Longrightarrow> node_ok ty (Suc d) (16 * p + i) c \<and> populated c \<and> i < 16"
  by (auto simp: node_ok_Inner child_def split: if_splits)

lemma populated_nonempty: "node_ok ty d p n \<Longrightarrow> populated n \<Longrightarrow> node_items n \<noteq> []"
  by (cases n) (auto simp: populated_def)

section \<open>Keys below a node\<close>

lemma digits_eq: "16 * a + i = 16 * b + j \<Longrightarrow> i < 16 \<Longrightarrow> j < 16 \<Longrightarrow> a = b \<and> i = j" for a b i j :: nat
  by presburger

lemma node_keys: "node_ok ty d p n \<Longrightarrow> (k, it) \<in> set (node_items n) \<Longrightarrow> key_prefix k d = p \<and> it_key it = k"
proof (induction arbitrary: k it rule: node_ok.induct)
  case (leaf d it p)
  then show ?case by simp
next
  case (inner d cs p)
  from inner.prems obtain c where c: "c \<in> set cs" "(k, it) \<in> set (opt_items c)" by (auto simp: node_items_Inner)
  from c(1) inner.hyps(2) obtain i where i16: "i < 16" "c = cs ! i" by (auto simp: in_set_conv_nth)
  with c(2) obtain n where i: "i < 16" "cs ! i = Some n" "(k, it) \<in> set (node_items n)"
    by (cases "cs ! i") auto
  with inner.IH have k: "key_prefix k (Suc d) = 16 * p + i" "it_key it = k" by blast+
  with digits_eq [of "key_prefix k d" "nib k d" p i] i(1) inner.hyps(1) show ?case by (simp add: key_prefix_Suc)
qed

lemma child_keys:
  assumes "node_ok ty d p (Inner cs)" "i < 16" "(k, it) \<in> set (opt_items (cs ! i))"
  shows "key_prefix k d = p \<and> nib k d = i"
proof -
  from assms(3) obtain n where n: "cs ! i = Some n" "(k, it) \<in> set (node_items n)"
    by (cases "cs ! i") auto
  with assms(1,2) have "node_ok ty (Suc d) (16 * p + i) n" "d < 64" by (auto simp: node_ok_Inner)
  with node_keys [OF _ n(2)] have "key_prefix k (Suc d) = 16 * p + i" by blast
  with digits_eq [of "key_prefix k d" "nib k d" p i] assms(2) \<open>d < 64\<close> show ?thesis by (simp add: key_prefix_Suc)
qed

text \<open>The items of an inner node around one branch.\<close>

lemma items_split:
  assumes "node_ok ty d p (Inner cs)" "b < 16"
  obtains A B where "node_items (Inner cs) = A @ opt_items (cs ! b) @ B"
    "\<forall>c. node_items (Inner (cs[b := c])) = A @ opt_items c @ B"
    "A = concat (map opt_items (take b cs))" "B = concat (map opt_items (drop (Suc b) cs))"
    "\<forall>e \<in> set A. key_prefix (fst e) d = p \<and> nib (fst e) d < b"
    "\<forall>e \<in> set B. key_prefix (fst e) d = p \<and> b < nib (fst e) d"
proof -
  have len: "length cs = 16" using assms(1) by (simp add: node_ok_Inner)
  let ?A = "concat (map opt_items (take b cs))" and ?B = "concat (map opt_items (drop (Suc b) cs))"
  have cs: "cs = take b cs @ cs ! b # drop (Suc b) cs" using assms(2) len by (simp add: id_take_nth_drop)
  have "key_prefix (fst e) d = p \<and> nib (fst e) d < b" if k: "e \<in> set ?A" for e
  proof -
    from k obtain c where "c \<in> set (take b cs)" "e \<in> set (opt_items c)" by auto
    moreover from this(1) obtain i where "i < b" "c = cs ! i" by (auto simp: in_set_conv_nth)
    ultimately show ?thesis using child_keys [OF assms(1), of i "fst e" "snd e"] assms(2) by auto
  qed
  moreover have "key_prefix (fst e) d = p \<and> b < nib (fst e) d" if k: "e \<in> set ?B" for e
  proof -
    from k obtain c where "c \<in> set (drop (Suc b) cs)" "e \<in> set (opt_items c)" by auto
    moreover from this(1) len obtain j where "j < 16 - Suc b" "c = cs ! (Suc b + j)" by (auto simp: in_set_conv_nth)
    ultimately show ?thesis using child_keys [OF assms(1), of "Suc b + j" "fst e" "snd e"] by auto
  qed
  moreover have "node_items (Inner cs) = ?A @ opt_items (cs ! b) @ ?B"
    unfolding node_items_Inner by (subst cs) simp
  moreover have "node_items (Inner (cs[b := c])) = ?A @ opt_items c @ ?B" for c
    using assms(2) len by (simp add: node_items_Inner upd_conv_take_nth_drop)
  ultimately show ?thesis by (intro that [of ?A ?B]) blast+
qed

section \<open>Order and lookup\<close>

lemma sorted_concat:
  assumes "sorted_wrt (\<lambda>a b. \<forall>x \<in> set a. \<forall>y \<in> set b. fst x < fst y) ls"
    "\<forall>l \<in> set ls. sorted_wrt (<) (map fst l)"
  shows "sorted_wrt (<) (map fst (concat ls))"
  using assms by (induction ls) (auto simp: sorted_wrt_append)

lemma node_sorted: "node_ok ty d p n \<Longrightarrow> om_ok (<) (node_items n)"
proof (induction rule: node_ok.induct)
  case (leaf d it p)
  then show ?case by (simp add: om_ok_def)
next
  case (inner d cs p)
  have ok: "node_ok ty d p (Inner cs)" using inner by (auto intro!: node_ok.inner)
  have "fst x < fst y" if ij: "i < j" "j < 16" and x: "x \<in> set (opt_items (cs ! i))" and y: "y \<in> set (opt_items (cs ! j))"
    for i j x y
    using child_keys [OF ok, of i "fst x" "snd x"] child_keys [OF ok, of j "fst y" "snd y"] ij x y inner.hyps(1)
    by (intro nib_decides [where d = d]) auto
  then have "sorted_wrt (\<lambda>a b. \<forall>x \<in> set a. \<forall>y \<in> set b. fst x < fst y) (map opt_items cs)"
    using inner.hyps(2) by (auto simp: sorted_wrt_iff_nth_less)
  moreover have "sorted_wrt (<) (map fst (opt_items c))" if c: "c \<in> set cs" for c
  proof (cases c)
    case (Some n)
    from c obtain i where "i < 16" "cs ! i = Some n" using Some inner.hyps(2) by (auto simp: in_set_conv_nth)
    with inner.IH Some show ?thesis by (auto simp: om_ok_def)
  qed simp
  ultimately show ?case unfolding om_ok_def node_items_Inner by (intro sorted_concat) auto
qed

lemma map_of_Inner:
  assumes "node_ok ty d p (Inner cs)" "key_prefix k d = p"
  shows "map_of (node_items (Inner cs)) k = map_of (opt_items (cs ! nib k d)) k"
proof -
  obtain A B where i: "node_items (Inner cs) = A @ opt_items (cs ! nib k d) @ B"
    "\<forall>e \<in> set A. nib (fst e) d < nib k d" "\<forall>e \<in> set B. nib k d < nib (fst e) d"
    using items_split [OF assms(1) nib_less [of d k]] by metis
  have "map_of A k = None" "map_of B k = None" using i(2,3) by (force simp: map_of_eq_None_iff)+
  with i(1) show ?thesis by (simp add: map_add_def split: option.split)
qed

text \<open>The same around the branch of a key: what is left of it is smaller, what is right of it larger.\<close>

lemma split_at_key:
  assumes "node_ok ty d p (Inner cs)" "key_prefix k d = p"
  obtains A B where "node_items (Inner cs) = A @ opt_items (cs ! nib k d) @ B"
    "\<forall>c. node_items (Inner (cs[nib k d := c])) = A @ opt_items c @ B"
    "A = concat (map opt_items (take (nib k d) cs))" "B = concat (map opt_items (drop (Suc (nib k d)) cs))"
    "\<forall>e \<in> set A. fst e < k" "\<forall>e \<in> set B. k < fst e"
proof -
  have d: "d < 64" using assms(1) by (simp add: node_ok_Inner)
  show ?thesis
  proof (rule items_split [OF assms(1) nib_less [of d k]])
    fix A B
    assume i: "node_items (Inner cs) = A @ opt_items (cs ! nib k d) @ B"
      "\<forall>c. node_items (Inner (cs[nib k d := c])) = A @ opt_items c @ B"
      "A = concat (map opt_items (take (nib k d) cs))" "B = concat (map opt_items (drop (Suc (nib k d)) cs))"
      and AB: "\<forall>e \<in> set A. key_prefix (fst e) d = p \<and> nib (fst e) d < nib k d"
        "\<forall>e \<in> set B. key_prefix (fst e) d = p \<and> nib k d < nib (fst e) d"
    have "\<forall>e \<in> set A. fst e < k" "\<forall>e \<in> set B. k < fst e"
      using AB d assms(2) nib_decides [where d = d] by (metis, metis)
    with that [OF i] show ?thesis by blast
  qed
qed

section \<open>Steps of the walks\<close>

lemma selectBranch_nib [simp]: "mDepth nid < 64 \<Longrightarrow> selectBranch nid k = Inr (nib k (mDepth nid))"
  using byte_nibbles [of "mDepth nid" k] by (simp add: selectBranch_def Let_def)

lemma getChildNodeID_ok:
  assumes "mDepth nid < 64" "b < 16"
  obtains cid where "getChildNodeID nid b = Inr cid" "mDepth cid = Suc (mDepth nid)"
  using assms that by (auto simp: getChildNodeID_def SHAMapNodeID_of_def Let_def)

text \<open>The walk into an inner node on the path of a key.\<close>

lemma descend:
  assumes "node_ok ty d p (Inner cs)" "key_prefix k d = p" "child cs (nib k d) = Some c"
  shows "node_ok ty (Suc d) (16 * p + nib k d) c" "key_prefix k (Suc d) = 16 * p + nib k d" "populated c"
    "cs ! nib k d = Some c" "d < 64"
  using assms node_ok_child [OF assms(1,3)] by (auto simp: node_ok_Inner key_prefix_Suc child_def split: if_splits)

lemma walkToPointer_ok:
  "node_ok ty d p n \<Longrightarrow> mDepth nid = d \<Longrightarrow> key_prefix k d = p \<Longrightarrow> walkToPointer k nid n = Inr (map_of (node_items n) k)"
proof (induction arbitrary: nid rule: node_ok.induct)
  case (leaf d it p)
  then show ?case by simp
next
  case (inner d cs p)
  have ok: "node_ok ty d p (Inner cs)" using inner by (auto intro!: node_ok.inner)
  note lookup = map_of_Inner [OF ok inner.prems(2)]
  show ?case
  proof (cases "child cs (nib k d)")
    case None
    then have "cs ! nib k d = None" using inner.hyps(2) by (simp add: child_def)
    with None inner.hyps inner.prems show ?thesis by (simp add: lookup)
  next
    case (Some c)
    note de = descend [OF ok inner.prems(2) Some]
    obtain cid where cid: "getChildNodeID nid (nib k d) = Inr cid" "mDepth cid = Suc d"
      using getChildNodeID_ok [of nid "nib k d"] inner.hyps inner.prems by auto
    have "walkToPointer k cid c = Inr (map_of (node_items c) k)"
      using inner.IH [of "nib k d" c] de cid(2) by simp
    with Some cid(1) inner.hyps inner.prems de(4) show ?thesis by (simp add: lookup)
  qed
qed

section \<open>First, last and only item\<close>

definition head_item :: "(uint256 \<times> SHAMapItem) list \<Rightarrow> SHAMapItem option" where
  "head_item l = (case l of [] \<Rightarrow> None | e # _ \<Rightarrow> Some (snd e))"

lemma head_item_simps [simp]: "head_item [] = None" "head_item (e # l) = Some (snd e)"
  by (simp_all add: head_item_def)

lemma head_item_append: "l \<noteq> [] \<Longrightarrow> head_item (l @ l') = head_item l"
  by (cases l) simp_all

lemma concat_opt_items: "concat (map opt_items l) = concat (map node_items (branches l))"
  using node_items_Inner [of l] by (simp add: node_items.simps)

lemma mem_branches: "c \<in> set (branches l) \<longleftrightarrow> Some c \<in> set l"
proof (induction l)
  case (Cons x l)
  then show ?case by (cases x) auto
qed simp

lemma branch_ok:
  assumes "node_ok ty d p (Inner cs)" "c \<in> set (branches cs)"
  obtains i where "i < 16" "cs ! i = Some c" "node_ok ty (Suc d) (16 * p + i) c" "populated c"
proof -
  from assms(2) have "Some c \<in> set cs" by (auto simp: branches_def List.map_filter_def)
  with assms(1) obtain i where "i < 16" "cs ! i = Some c" by (auto simp: in_set_conv_nth node_ok_Inner)
  with assms(1) that show thesis by (auto simp: node_ok_Inner)
qed

lemma branches_ok:
  "node_ok ty d p (Inner cs) \<Longrightarrow> c \<in> set (branches cs) \<Longrightarrow> node_items c \<noteq> []"
  by (erule branch_ok) (auto dest: populated_nonempty)

lemma firstBelow_ok: "node_ok ty d p n \<Longrightarrow> firstBelow n = head_item (node_items n)"
proof (induction rule: node_ok.induct)
  case (leaf d it p)
  then show ?case by simp
next
  case (inner d cs p)
  have ok: "node_ok ty d p (Inner cs)" using inner by (auto intro!: node_ok.inner)
  show ?case
  proof (cases "branches cs")
    case Nil
    then show ?thesis by (simp add: first_child_branches node_items.simps)
  next
    case (Cons c r)
    then have c: "c \<in> set (branches cs)" by simp
    from branch_ok [OF ok c] obtain i where "i < 16" "cs ! i = Some c" by metis
    with inner.IH have "firstBelow c = head_item (node_items c)" by blast
    with Cons branches_ok [OF ok c] show ?thesis
      by (simp add: first_child_branches node_items.simps head_item_append)
  qed
qed

lemma lastBelow_ok: "node_ok ty d p n \<Longrightarrow> lastBelow n = head_item (rev (node_items n))"
proof (induction rule: node_ok.induct)
  case (leaf d it p)
  then show ?case by simp
next
  case (inner d cs p)
  have ok: "node_ok ty d p (Inner cs)" using inner by (auto intro!: node_ok.inner)
  show ?case
  proof (cases "rev (branches cs)")
    case Nil
    then show ?thesis by (simp add: first_child_branches branches_rev node_items.simps)
  next
    case (Cons c r)
    then have b: "branches cs = rev r @ [c]" by (metis rev.simps(2) rev_rev_ident)
    then have c: "c \<in> set (branches cs)" by simp
    from branch_ok [OF ok c] obtain i where "i < 16" "cs ! i = Some c" by metis
    with inner.IH have "lastBelow c = head_item (rev (node_items c))" by blast
    with Cons b branches_ok [OF ok c] show ?thesis
      by (simp add: first_child_branches branches_rev node_items.simps head_item_append)
  qed
qed

lemma onlyBelow_ok:
  "node_ok ty d p n \<Longrightarrow> node_items n \<noteq> [] \<Longrightarrow>
     onlyBelow n = Inr (if length (node_items n) = 1 then head_item (node_items n) else None)"
proof (induction rule: node_ok.induct)
  case (leaf d it p)
  then show ?case by simp
next
  case (inner d cs p)
  have ok: "node_ok ty d p (Inner cs)" using inner by (auto intro!: node_ok.inner)
  from inner.prems obtain c r where b: "branches cs = c # r" by (cases "branches cs") (auto simp: node_items.simps)
  then have c: "c \<in> set (branches cs)" by simp
  from branch_ok [OF ok c] obtain i where i: "i < 16" "cs ! i = Some c" by metis
  have ne: "node_items c \<noteq> []" by (rule branches_ok [OF ok c])
  show ?case
  proof (cases r)
    case Nil
    with inner.IH [OF i] b ne show ?thesis by (simp add: node_items.simps)
  next
    case (Cons c' r')
    then have "node_items c' \<noteq> []" using b by (intro branches_ok [OF ok]) simp
    with ne have "length (node_items (Inner cs)) \<noteq> 1" using b Cons
      by (cases "node_items c"; cases "node_items c'") (auto simp: node_items.simps)
    with b Cons show ?thesis by simp
  qed
qed

section \<open>The stack of a walk\<close>

lemma getStack_append:
  "getStack k incl nid n (st @ st') = bind_r (getStack k incl nid n st) (\<lambda>s. Inr (s @ st'))"
proof (induction k incl nid n st rule: getStack.induct)
  case (1 k incl nid ty it stack)
  then show ?case by simp
next
  case (2 k incl nid cs stack)
  then show ?case by (auto simp: bind_r_def Let_def split: sum.split option.split)
qed

text \<open>The walk of an inner node: it ends there or goes on into the child.\<close>

lemma getStack_Inner:
  assumes "node_ok ty d p (Inner cs)" "mDepth nid = d"
  shows "child cs (nib k d) = None \<Longrightarrow> getStack k True nid (Inner cs) [] = Inr [(Inner cs, nid)]"
    and "child cs (nib k d) = Some c \<Longrightarrow> \<exists>cid. mDepth cid = Suc d \<and>
      getStack k True nid (Inner cs) [] = bind_r (getStack k True cid c []) (\<lambda>S. Inr (S @ [(Inner cs, nid)]))"
proof -
  have d: "d < 64" using assms(1) by (simp add: node_ok_Inner)
  show "child cs (nib k d) = None \<Longrightarrow> getStack k True nid (Inner cs) [] = Inr [(Inner cs, nid)]"
    using d assms(2) by simp
  obtain cid where cid: "getChildNodeID nid (nib k d) = Inr cid" "mDepth cid = Suc d"
    using getChildNodeID_ok [of nid "nib k d"] d assms(2) by auto
  show "\<exists>cid. mDepth cid = Suc d \<and>
      getStack k True nid (Inner cs) [] = bind_r (getStack k True cid c []) (\<lambda>S. Inr (S @ [(Inner cs, nid)]))"
    if "child cs (nib k d) = Some c"
    using that d assms(2) cid getStack_append [of k True cid c "[]" "[(Inner cs, nid)]"] by auto
qed

text \<open>
  Induction along the path of a key: a property of the stack holds at a leaf, where the walk ends in an
  inner node, and is passed on from the child to the inner node above it.
\<close>

lemma path_induct [consumes 3, case_names leaf stop step]:
  assumes "node_ok ty d p n" "mDepth nid = d" "key_prefix k d = p"
    and leaf: "\<And>d p nid it. node_ok ty d p (Leaf ty it) \<Longrightarrow> mDepth nid = d \<Longrightarrow> key_prefix k d = p \<Longrightarrow>
      Q d p (Leaf ty it) [(Leaf ty it, nid)]"
    and stop: "\<And>d p nid cs. node_ok ty d p (Inner cs) \<Longrightarrow> mDepth nid = d \<Longrightarrow> key_prefix k d = p \<Longrightarrow>
      d < 64 \<Longrightarrow> length cs = 16 \<Longrightarrow> cs ! nib k d = None \<Longrightarrow> Q d p (Inner cs) [(Inner cs, nid)]"
    and step: "\<And>d p nid cs c S. node_ok ty d p (Inner cs) \<Longrightarrow> mDepth nid = d \<Longrightarrow> key_prefix k d = p \<Longrightarrow>
      d < 64 \<Longrightarrow> length cs = 16 \<Longrightarrow> cs ! nib k d = Some c \<Longrightarrow> populated c \<Longrightarrow>
      node_ok ty (Suc d) (16 * p + nib k d) c \<Longrightarrow> Q (Suc d) (16 * p + nib k d) c S \<Longrightarrow>
      Q d p (Inner cs) (S @ [(Inner cs, nid)])"
  shows "\<exists>S. getStack k True nid n [] = Inr S \<and> Q d p n S"
  using assms(1-3)
proof (induction arbitrary: nid rule: node_ok.induct)
  case (leaf d it p)
  with assms(4) [of d p it nid] show ?case by simp
next
  case (inner d cs p)
  have ok: "node_ok ty d p (Inner cs)" using inner by (auto intro!: node_ok.inner)
  show ?case
  proof (cases "child cs (nib k d)")
    case None
    then have "cs ! nib k d = None" using inner.hyps(2) by (simp add: child_def)
    with None getStack_Inner(1) [OF ok inner.prems(1)] stop [OF ok inner.prems inner.hyps(1,2)] show ?thesis by simp
  next
    case (Some c)
    note de = descend [OF ok inner.prems(2) Some]
    obtain cid where cid: "mDepth cid = Suc d" "getStack k True nid (Inner cs) [] =
        bind_r (getStack k True cid c []) (\<lambda>S. Inr (S @ [(Inner cs, nid)]))"
      using getStack_Inner(2) [OF ok inner.prems(1) Some] by blast
    have IH: "\<exists>S. getStack k True cid c [] = Inr S \<and> Q (Suc d) (16 * p + nib k d) c S"
      using inner.IH [of "nib k d" c] de(2,4) cid(1) by simp
    then obtain S where S: "getStack k True cid c [] = Inr S" "Q (Suc d) (16 * p + nib k d) c S" by blast
    with cid(2) step [OF ok inner.prems inner.hyps(1,2) de(4,3,1) S(2)] show ?thesis by simp
  qed
qed

section \<open>Successor and predecessor\<close>

lemma find_append: "List.find P (xs @ ys) = (case List.find P xs of None \<Rightarrow> List.find P ys | Some x \<Rightarrow> Some x)"
  by (induction xs) simp_all

lemma find_none: "(\<And>x. x \<in> set xs \<Longrightarrow> \<not> P x) \<Longrightarrow> List.find P xs = None"
  by (induction xs) auto

lemma find_head: "(\<And>x. x \<in> set xs \<Longrightarrow> P x) \<Longrightarrow> List.find P xs = (case xs of [] \<Rightarrow> None | x # _ \<Rightarrow> Some x)"
  by (cases xs) auto

lemma first_child_range:
  assumes ok: "node_ok ty d p (Inner cs)" and sub: "set l \<subseteq> set cs"
  shows "case first_child l of None \<Rightarrow> concat (map opt_items l) = []
    | Some c \<Rightarrow> \<exists>it r. firstBelow c = Some it \<and> concat (map opt_items l) = (it_key it, it) # r"
proof (cases "branches l")
  case Nil
  then show ?thesis by (simp add: first_child_branches concat_opt_items)
next
  case (Cons c r)
  then have "Some c \<in> set l" by (simp flip: mem_branches)
  with sub have "c \<in> set (branches cs)" by (auto simp: mem_branches)
  with branch_ok [OF ok this] obtain i where i: "node_ok ty (Suc d) (16 * p + i) c" "populated c" by metis
  obtain k it r' where "node_items c = (k, it) # r'" using populated_nonempty [OF i] by (metis list.exhaust surj_pair)
  with firstBelow_ok [OF i(1)] node_keys [OF i(1), of k it] Cons show ?thesis
    by (simp add: first_child_branches concat_opt_items)
qed

lemma last_child_range:
  assumes ok: "node_ok ty d p (Inner cs)" and sub: "set l \<subseteq> set cs"
  shows "case first_child (rev l) of None \<Rightarrow> concat (map opt_items l) = []
    | Some c \<Rightarrow> \<exists>it r. lastBelow c = Some it \<and> concat (map opt_items l) = r @ [(it_key it, it)]"
proof (cases "rev (branches l)")
  case Nil
  then show ?thesis by (simp add: first_child_branches concat_opt_items branches_rev)
next
  case (Cons c r)
  then have b: "branches l = rev r @ [c]" by (metis rev.simps(2) rev_rev_ident)
  then have "Some c \<in> set l" by (simp flip: mem_branches)
  with sub have "c \<in> set (branches cs)" by (auto simp: mem_branches)
  with branch_ok [OF ok this] obtain i where i: "node_ok ty (Suc d) (16 * p + i) c" "populated c" by metis
  obtain k it r' where "node_items c = r' @ [(k, it)]"
    using populated_nonempty [OF i] by (metis rev_exhaust surj_pair)
  with lastBelow_ok [OF i(1)] node_keys [OF i(1), of k it] Cons b show ?thesis
    by (simp add: first_child_branches concat_opt_items branches_rev)
qed

text \<open>What the search for the next item does with the stack of a node.\<close>

lemma find_around:
  assumes "\<forall>e \<in> set A. \<not> P e" "\<forall>e \<in> set B. P e"
  shows "List.find P (A @ C @ B) = (case List.find P C of Some e \<Rightarrow> Some e
    | None \<Rightarrow> (case B of [] \<Rightarrow> None | e # _ \<Rightarrow> Some e))"
  using find_none [of A P] find_head [of B P] assms by (auto simp: find_append split: option.split)

lemma next_loop_Inner:
  assumes ok: "node_ok ty d p (Inner cs)" and nid: "mDepth nid = d" and k: "key_prefix k d = p"
    and none: "List.find (\<lambda>e. k < fst e) (opt_items (cs ! nib k d)) = None"
  shows "next_loop k ((Inner cs, nid) # rest) =
    (case List.find (\<lambda>e. k < fst e) (node_items (Inner cs)) of Some e \<Rightarrow> Inr (Some (snd e)) | None \<Rightarrow> next_loop k rest)"
proof -
  from split_at_key [OF ok k] obtain A B where i: "node_items (Inner cs) = A @ opt_items (cs ! nib k d) @ B"
    "B = concat (map opt_items (drop (Suc (nib k d)) cs))" "\<forall>e \<in> set A. fst e < k" "\<forall>e \<in> set B. k < fst e" by metis
  have f: "List.find (\<lambda>e. k < fst e) (node_items (Inner cs)) = (case B of [] \<Rightarrow> None | e # _ \<Rightarrow> Some e)"
    unfolding i(1) using i(3,4) none by (subst find_around) auto
  have d: "d < 64" using ok by (simp add: node_ok_Inner)
  from first_child_range [OF ok set_drop_subset, of "Suc (nib k d)"] show ?thesis
    unfolding f by (auto simp: nid d simp flip: i(2) split: option.splits)
qed

lemma next_loop_ok:
  assumes "node_ok ty d p n" "mDepth nid = d" "key_prefix k d = p"
  shows "\<exists>S. getStack k True nid n [] = Inr S \<and> (\<forall>rest. next_loop k (S @ rest) =
    (case List.find (\<lambda>e. k < fst e) (node_items n) of Some e \<Rightarrow> Inr (Some (snd e)) | None \<Rightarrow> next_loop k rest))"
  using assms
proof (induction rule: path_induct)
  case (leaf d p nid it)
  then show ?case by simp
next
  case (stop d p nid cs)
  then show ?case using next_loop_Inner [OF stop(1-3)] by simp
next
  case (step d p nid cs c S)
  show ?case
  proof (cases "List.find (\<lambda>e. k < fst e) (node_items c)")
    case None
    with step next_loop_Inner [OF step(1-3)] show ?thesis by simp
  next
    case (Some e)
    from split_at_key [OF step(1,3)] obtain A B where i: "node_items (Inner cs) = A @ opt_items (cs ! nib k d) @ B"
      "\<forall>e \<in> set A. fst e < k" "\<forall>e \<in> set B. k < fst e" by metis
    have "List.find (\<lambda>e. k < fst e) (node_items (Inner cs)) = Some e"
      unfolding i(1) using i(2,3) step(6) Some by (subst find_around) auto
    with step Some show ?thesis by simp
  qed
qed

lemma prev_loop_Inner:
  assumes ok: "node_ok ty d p (Inner cs)" and nid: "mDepth nid = d" and k: "key_prefix k d = p"
    and none: "List.find (\<lambda>e. fst e < k) (rev (opt_items (cs ! nib k d))) = None"
  shows "prev_loop k ((Inner cs, nid) # rest) =
    (case List.find (\<lambda>e. fst e < k) (rev (node_items (Inner cs))) of Some e \<Rightarrow> Inr (Some (snd e)) | None \<Rightarrow> prev_loop k rest)"
proof -
  from split_at_key [OF ok k] obtain A B where i: "node_items (Inner cs) = A @ opt_items (cs ! nib k d) @ B"
    "A = concat (map opt_items (take (nib k d) cs))" "\<forall>e \<in> set A. fst e < k" "\<forall>e \<in> set B. k < fst e" by metis
  have f: "List.find (\<lambda>e. fst e < k) (rev (node_items (Inner cs))) = (case rev A of [] \<Rightarrow> None | e # _ \<Rightarrow> Some e)"
    unfolding i(1) rev_append append_assoc using i(3,4) none by (subst find_around) auto
  have d: "d < 64" using ok by (simp add: node_ok_Inner)
  from last_child_range [OF ok set_take_subset, of "nib k d"] show ?thesis
    unfolding f by (auto simp: nid d simp flip: i(2) split: option.splits)
qed

lemma prev_loop_ok:
  assumes "node_ok ty d p n" "mDepth nid = d" "key_prefix k d = p"
  shows "\<exists>S. getStack k True nid n [] = Inr S \<and> (\<forall>rest. prev_loop k (S @ rest) =
    (case List.find (\<lambda>e. fst e < k) (rev (node_items n)) of Some e \<Rightarrow> Inr (Some (snd e)) | None \<Rightarrow> prev_loop k rest))"
  using assms
proof (induction rule: path_induct)
  case (leaf d p nid it)
  then show ?case by simp
next
  case (stop d p nid cs)
  then show ?case using prev_loop_Inner [OF stop(1-3)] by simp
next
  case (step d p nid cs c S)
  show ?case
  proof (cases "List.find (\<lambda>e. fst e < k) (rev (node_items c))")
    case None
    with step prev_loop_Inner [OF step(1-3)] show ?thesis by simp
  next
    case (Some e)
    from split_at_key [OF step(1,3)] obtain A B where i: "node_items (Inner cs) = A @ opt_items (cs ! nib k d) @ B"
      "\<forall>e \<in> set A. fst e < k" "\<forall>e \<in> set B. k < fst e" by metis
    have "List.find (\<lambda>e. fst e < k) (rev (node_items (Inner cs))) = Some e"
      unfolding i(1) rev_append append_assoc using i(2,3) step(6) Some by (subst find_around) auto
    with step Some show ?thesis by simp
  qed
qed

section \<open>Replacing a branch\<close>

text \<open>An operation on the ordered list that only touches the part around the key.\<close>

lemma om_erase_around:
  fixes k :: "'k::linorder"
  shows "\<forall>e \<in> set A. fst e < k \<Longrightarrow> \<forall>e \<in> set B. k < fst e \<Longrightarrow> om_erase k (A @ C @ B) = A @ om_erase k C @ B"
proof -
  assume "\<forall>e \<in> set A. fst e < k" "\<forall>e \<in> set B. k < fst e"
  then have "filter (\<lambda>e. fst e \<noteq> k) A = A" "filter (\<lambda>e. fst e \<noteq> k) B = B"
    by (auto simp: filter_id_conv)
  then show ?thesis by (simp add: om_erase_def)
qed

lemma om_insert_around:
  fixes k :: "'k::linorder"
  assumes "\<forall>e \<in> set A. fst e < k" "\<forall>e \<in> set B. k < fst e"
  shows "om_insert (<) k v (A @ C @ B) = A @ om_insert (<) k v C @ B"
  using assms
proof (induction A)
  case Nil
  then show ?case
  proof (induction C)
    case Nil
    then show ?case by (cases B) auto
  next
    case (Cons e C)
    then show ?case by (cases e) auto
  qed
next
  case (Cons e A)
  then show ?case by (cases e) auto
qed

lemma om_update_around:
  fixes k :: "'k::linorder"
  shows "\<forall>e \<in> set A. fst e < k \<Longrightarrow> \<forall>e \<in> set B. k < fst e \<Longrightarrow> om_update k v (A @ C @ B) = A @ om_update k v C @ B"
  by (force simp: om_update_def intro!: map_idI)

text \<open>Putting a new subtree in the branch of a key keeps the invariant.\<close>

lemma node_ok_setChild:
  assumes "node_ok ty d p (Inner cs)" "b < 16" "c = None \<or> (\<exists>n. c = Some n \<and> node_ok ty (Suc d) (16 * p + b) n \<and> populated n)"
  shows "node_ok ty d p (Inner (cs[b := c]))"
proof -
  have len: "length cs = 16" and d: "d < 64" using assms(1) by (simp_all add: node_ok_Inner)
  have "node_ok ty (Suc d) (16 * p + i) n \<and> populated n" if "i < 16" "cs[b := c] ! i = Some n" for i n
    using that assms len by (cases "i = b") (auto simp: node_ok_Inner)
  with len d show ?thesis by (auto simp: node_ok_Inner)
qed

lemma setChild_items:
  assumes "node_ok ty d p (Inner cs)" "key_prefix k d = p"
  shows "opt_items c = om_erase k (opt_items (cs ! nib k d)) \<Longrightarrow>
      node_items (Inner (cs[nib k d := c])) = om_erase k (node_items (Inner cs))"
    and "opt_items c = om_insert (<) k v (opt_items (cs ! nib k d)) \<Longrightarrow>
      node_items (Inner (cs[nib k d := c])) = om_insert (<) k v (node_items (Inner cs))"
    and "opt_items c = om_update k v (opt_items (cs ! nib k d)) \<Longrightarrow>
      node_items (Inner (cs[nib k d := c])) = om_update k v (node_items (Inner cs))"
proof -
  from split_at_key [OF assms] obtain A B where i: "node_items (Inner cs) = A @ opt_items (cs ! nib k d) @ B"
    "\<forall>c. node_items (Inner (cs[nib k d := c])) = A @ opt_items c @ B"
    "\<forall>e \<in> set A. fst e < k" "\<forall>e \<in> set B. k < fst e" by metis
  show "opt_items c = om_erase k (opt_items (cs ! nib k d)) \<Longrightarrow>
      node_items (Inner (cs[nib k d := c])) = om_erase k (node_items (Inner cs))"
    using om_erase_around [OF i(3,4)] by (simp add: i(1,2))
  show "opt_items c = om_insert (<) k v (opt_items (cs ! nib k d)) \<Longrightarrow>
      node_items (Inner (cs[nib k d := c])) = om_insert (<) k v (node_items (Inner cs))"
    using om_insert_around [OF i(3,4)] by (simp add: i(1,2))
  show "opt_items c = om_update k v (opt_items (cs ! nib k d)) \<Longrightarrow>
      node_items (Inner (cs[nib k d := c])) = om_update k v (node_items (Inner cs))"
    using om_update_around [OF i(3,4)] by (simp add: i(1,2))
qed

section \<open>Deletion\<close>

lemma node_data: "node_ok ty d p n \<Longrightarrow> (k, it) \<in> set (node_items n) \<Longrightarrow> 12 \<le> length (it_data it)"
proof (induction arbitrary: k it rule: node_ok.induct)
  case (leaf d it p)
  then show ?case by simp
next
  case (inner d cs p)
  then obtain c where c: "c \<in> set cs" "(k, it) \<in> set (opt_items c)" by (auto simp: node_items_Inner)
  from c(1) inner.hyps(2) obtain i where "i < 16" "c = cs ! i" by (auto simp: in_set_conv_nth)
  with inner.IH c(2) show ?case by (cases "cs ! i") auto
qed

lemma node_depth: "node_ok ty d p n \<Longrightarrow> d \<le> 64"
  by (erule node_ok.cases) simp_all

definition subtree_ok :: "TNType \<Rightarrow> nat \<Rightarrow> nat \<Rightarrow> SHAMapNode option \<Rightarrow> bool" where
  "subtree_ok ty d p c = (c = None \<or> (\<exists>n. c = Some n \<and> node_ok ty d p n \<and> populated n))"

lemma branches_length:
  "\<forall>c \<in> set (branches cs). node_items c \<noteq> [] \<Longrightarrow> length (branches cs) \<le> length (node_items (Inner cs))"
proof -
  have "\<forall>c \<in> set l. node_items c \<noteq> [] \<Longrightarrow> length l \<le> length (concat (map node_items l))" for l
  proof (induction l)
    case (Cons c l)
    then show ?case by (cases "node_items c") auto
  qed simp
  then show "\<forall>c \<in> set (branches cs). node_items c \<noteq> [] \<Longrightarrow> length (branches cs) \<le> length (node_items (Inner cs))"
    by (simp add: node_items.simps)
qed

lemma del_collapse_ok:
  assumes ok: "node_ok ty d p (Inner cs)"
  shows "\<exists>prev. del_collapse ty cs = Inr prev \<and> opt_items prev = node_items (Inner cs) \<and> subtree_ok ty d p prev"
proof -
  have ne: "\<forall>c \<in> set (branches cs). node_items c \<noteq> []" using branches_ok [OF ok] by blast
  note len = branches_length [OF ne]
  consider "branches cs = []" | c where "branches cs = [c]" | "2 \<le> length (branches cs)"
    by (metis Suc_1 Suc_leI length_0_conv length_Suc_conv not_less_eq_eq not_less_zero nat_neq_iff less_Suc_eq One_nat_def)
  then show ?thesis
  proof cases
    case 1
    then show ?thesis by (simp add: del_collapse_def getBranchCount_def node_items.simps subtree_ok_def)
  next
    case 2
    then have items: "node_items (Inner cs) \<noteq> []" using ne by (simp add: node_items.simps)
    show ?thesis
    proof (cases "length (node_items (Inner cs)) = 1")
      case True
      then obtain k it where e: "node_items (Inner cs) = [(k, it)]"
        by (metis One_nat_def length_0_conv length_Suc_conv surj_pair)
      with node_keys [OF ok, of k it] node_data [OF ok, of k it] node_depth [OF ok] onlyBelow_ok [OF ok items] 2
      show ?thesis by (simp add: del_collapse_def getBranchCount_def make_leaf_def subtree_ok_def populated_def)
    next
      case False
      with items have "2 \<le> length (node_items (Inner cs))" by (cases "node_items (Inner cs)") (auto simp: Suc_le_eq)
      with False 2 ok onlyBelow_ok [OF ok items] show ?thesis
        by (simp add: del_collapse_def getBranchCount_def subtree_ok_def populated_def)
    qed
  next
    case 3
    then have "branches cs \<noteq> []" by auto
    with 3 len ok show ?thesis by (simp add: del_collapse_def getBranchCount_def subtree_ok_def populated_def)
  qed
qed

text \<open>
  The stack of a key that is present starts with its leaf; the loop then replaces the subtree below a
  node of the path by one without the key, whatever is above.
\<close>

definition del_path :: "uint256 \<Rightarrow> TNType \<Rightarrow> nat \<Rightarrow> nat \<Rightarrow> SHAMapNode \<Rightarrow> NodeStack \<Rightarrow> bool" where
  "del_path k ty d p n S =
     (case map_of (node_items n) k of
        None \<Rightarrow> \<exists>top nid S'. S = (top, nid) # S' \<and> (\<forall>t it. top = Leaf t it \<longrightarrow> it_key it \<noteq> k)
      | Some it \<Rightarrow> \<exists>nid S'. S = (Leaf ty it, nid) # S' \<and> it_key it = k \<and>
          (if d = 0 then \<forall>root. \<forall>cs. n = Inner cs \<longrightarrow> (\<exists>cs'. del_loop k ty S' None root = Inr (Inner cs') \<and>
               node_ok ty 0 p (Inner cs') \<and> node_items (Inner cs') = om_erase k (node_items n))
           else \<exists>prev. opt_items prev = om_erase k (node_items n) \<and> subtree_ok ty d p prev \<and>
               (\<forall>rest root. del_loop k ty (S' @ rest) None root = del_loop k ty rest prev root)))"

lemma del_path_ok:
  assumes "node_ok ty d p n" "mDepth nid = d" "key_prefix k d = p"
  shows "\<exists>S. getStack k True nid n [] = Inr S \<and> del_path k ty d p n S"
  using assms
proof (induction rule: path_induct)
  case (leaf d p nid it)
  then show ?case
    by (auto simp: del_path_def om_erase_def subtree_ok_def intro!: exI [of _ "None :: SHAMapNode option"])
next
  case (stop d p nid cs)
  then show ?case by (simp add: del_path_def map_of_Inner [OF stop(1,3)])
next
  case (step d p nid cs c S)
  let ?b = "nib k d"
  have m: "map_of (node_items (Inner cs)) k = map_of (node_items c) k"
    using map_of_Inner [OF step(1,3)] step(6) by simp
  show ?case
  proof (cases "map_of (node_items c) k")
    case None
    with step(9) show ?thesis by (auto simp: del_path_def m)
  next
    case (Some it)
    with step(9) obtain lid S' prev where S: "S = (Leaf ty it, lid) # S'" "it_key it = k"
      "opt_items prev = om_erase k (node_items c)" "subtree_ok ty (Suc d) (16 * p + ?b) prev"
      "\<And>rest root. del_loop k ty (S' @ rest) None root = del_loop k ty rest prev root"
      by (auto simp: del_path_def)
    let ?cs = "cs[?b := prev]"
    have ok: "node_ok ty d p (Inner ?cs)"
      using node_ok_setChild [OF step(1) nib_less [of d k], of prev] S(4) by (simp add: subtree_ok_def)
    have items: "node_items (Inner ?cs) = om_erase k (node_items (Inner cs))"
      using setChild_items(1) [OF step(1,3), of prev] S(3) step(6) by simp
    from del_collapse_ok [OF ok] obtain prev1 where prev1: "del_collapse ty ?cs = Inr prev1"
      "opt_items prev1 = node_items (Inner ?cs)" "subtree_ok ty d p prev1" by blast
    have loop: "del_loop k ty ((S' @ [(Inner cs, nid)]) @ rest) None root =
        (if d = 0 then del_loop k ty rest prev (Inner ?cs) else del_loop k ty rest prev1 root)" for rest root
      using step(2,4) prev1(1) by (simp add: S(5) isRoot_def setChild_def Let_def)
    show ?thesis
    proof (cases "d = 0")
      case True
      then show ?thesis using Some S ok items loop [of "[]"] by (auto simp: del_path_def m)
    next
      case False
      then show ?thesis using Some S prev1 items loop by (auto simp: del_path_def m)
    qed
  qed
qed

text \<open>Deletion removes the item, and says whether it was there.\<close>

lemma delItem_ok:
  assumes ok: "shamap_ok ty m" and st: "sm_state m \<noteq> Immutable"
  shows "\<exists>m'. delItem k m = Inr (map_of (shamap_items m) k \<noteq> None, m') \<and> shamap_ok ty m' \<and>
    shamap_items m' = om_erase k (shamap_items m) \<and> sm_state m' = sm_state m"
proof -
  from ok obtain cs where cs: "sm_root m = Inner cs" and nok: "node_ok ty 0 0 (sm_root m)" by (auto simp: shamap_ok_def)
  obtain S where S: "getStack k True root_id (sm_root m) [] = Inr S" "del_path k ty 0 0 (sm_root m) S"
    using del_path_ok [OF nok, of root_id k] by (auto simp: root_id_def)
  show ?thesis
  proof (cases "map_of (shamap_items m) k")
    case None
    then have "om_erase k (shamap_items m) = shamap_items m"
      by (auto simp: om_erase_def filter_id_conv map_of_eq_None_iff)
    moreover from None S(2) obtain top nid S' where "S = (top, nid) # S'" "\<forall>t it. top = Leaf t it \<longrightarrow> it_key it \<noteq> k"
      by (auto simp: del_path_def shamap_items_def)
    ultimately show ?thesis using None S(1) st ok by (cases top) (simp_all add: delItem_def)
  next
    case (Some it)
    with S(2) cs obtain nid S' cs' where "S = (Leaf ty it, nid) # S'" "it_key it = k"
      "del_loop k ty S' None (sm_root m) = Inr (Inner cs')" "node_ok ty 0 0 (Inner cs')"
      "node_items (Inner cs') = om_erase k (node_items (sm_root m))"
      by (fastforce simp: del_path_def shamap_items_def)
    with Some S(1) st show ?thesis by (simp add: delItem_def shamap_ok_def shamap_items_def)
  qed
qed

end
