(* ===== verification/SHAMap_Insert.thy ===== *)
theory SHAMap_Insert
  imports SHAMap_Spec
begin

text \<open>
  Insertion and update in the radix tree: both rebuild the path of the key and keep the shape
  invariant; on the items they are insertion into, and update of, an ordered map.
\<close>

section \<open>Insertion\<close>

lemma empty_inner_ok: "d < 64 \<Longrightarrow> node_ok ty d p (Inner (replicate 16 None))"
  by (auto simp: node_ok_Inner)

lemma concat_empty: "concat (map opt_items (replicate n None)) = []"
  by (induction n) simp_all

lemma empty_inner_items [simp]: "node_items (Inner (replicate n None)) = []"
  by (simp add: node_items_Inner concat_empty)

lemma single_child_items: "b < 16 \<Longrightarrow> node_items (Inner ((replicate 16 None)[b := c])) = opt_items c"
  by (simp add: node_items_Inner upd_conv_take_nth_drop concat_empty min_def)

lemma populated_two: "2 \<le> length (node_items n) \<Longrightarrow> populated n"
  by (cases n) (simp_all add: populated_def)

definition split_node :: "nat \<Rightarrow> nat \<Rightarrow> SHAMapNode \<Rightarrow> SHAMapNode \<Rightarrow> SHAMapNode" where
  "split_node b1 b2 l1 l2 = Inner (setChild b2 (Some l2) (setChild b1 (Some l1) (replicate 16 None)))"

lemma split_node_ok:
  fixes ty :: TNType and item other :: SHAMapItem and d p :: nat
  assumes k: "key_prefix (it_key item) d = p" "key_prefix (it_key other) d = p" "d < 64"
    "nib (it_key item) d \<noteq> nib (it_key other) d" "12 \<le> length (it_data item)" "12 \<le> length (it_data other)"
  defines "n' \<equiv> split_node (nib (it_key item) d) (nib (it_key other) d) (Leaf ty item) (Leaf ty other)"
  shows "node_ok ty d p n'" "node_items n' = om_insert (<) (it_key item) item [(it_key other, other)]"
proof -
  let ?b1 = "nib (it_key item) d" and ?b2 = "nib (it_key other) d"
  let ?cs = "(replicate 16 None)[?b2 := Some (Leaf ty other)]"
  have n': "n' = Inner (?cs[?b1 := Some (Leaf ty item)])"
    using k(4) by (simp add: n'_def split_node_def setChild_def list_update_swap)
  have ok: "node_ok ty d p (Inner ?cs)"
    using k by (intro node_ok_setChild empty_inner_ok) (auto simp: key_prefix_Suc populated_def)
  show "node_ok ty d p n'"
    unfolding n' using k by (intro node_ok_setChild ok) (auto simp: key_prefix_Suc populated_def)
  show "node_items n' = om_insert (<) (it_key item) item [(it_key other, other)]"
    unfolding n' using setChild_items(2) [OF ok k(1), of "Some (Leaf ty item)" item] k(4)
      single_child_items [of ?b2 "Some (Leaf ty other)"] by simp
qed

lemma split_leaf_ok:
  assumes "key_prefix (it_key item) d = p" "key_prefix (it_key other) d = p" "it_key item \<noteq> it_key other"
    "12 \<le> length (it_data item)" "12 \<le> length (it_data other)" "mDepth nid = d" "d \<le> 64"
  shows "\<exists>n'. (\<forall>st. \<exists>b1 b2 st2. split_leaf (it_key item) (it_key other) nid st = Inr (b1, b2, st2) \<and>
      dirtyUp (it_key item) st2 (split_node b1 b2 (Leaf ty item) (Leaf ty other)) = dirtyUp (it_key item) st n') \<and>
    node_ok ty d p n' \<and> node_items n' = om_insert (<) (it_key item) item [(it_key other, other)]"
  using assms
proof (induction "64 - d" arbitrary: d p nid)
  case 0
  then have "key_prefix (it_key item) 64 = key_prefix (it_key other) 64" by simp
  with 0 show ?case using key_prefix_64 by blast
next
  case (Suc m)
  let ?k = "it_key item" and ?o = "it_key other"
  have d: "d < 64" using Suc.hyps(2) by simp
  show ?case
  proof (cases "nib ?k d = nib ?o d")
    case False
    let ?n = "split_node (nib ?k d) (nib ?o d) (Leaf ty item) (Leaf ty other)"
    have "\<forall>st. split_leaf ?k ?o nid st = Inr (nib ?k d, nib ?o d, st)"
      using False d Suc.prems(6) by (simp add: split_leaf.simps [of _ _ nid])
    with split_node_ok [OF Suc.prems(1,2) d False Suc.prems(4,5)] show ?thesis by blast
  next
    case True
    obtain cid where cid: "getChildNodeID nid (nib ?k d) = Inr cid" "mDepth cid = Suc d"
      using getChildNodeID_ok [of nid "nib ?k d"] d Suc.prems(6) by auto
    have pre: "key_prefix ?k (Suc d) = 16 * p + nib ?k d" "key_prefix ?o (Suc d) = 16 * p + nib ?k d"
      using Suc.prems(1,2) d True by (simp_all add: key_prefix_Suc)
    have "m = 64 - Suc d" "Suc d \<le> 64" using Suc.hyps(2) by simp_all
    from Suc.hyps(1) [OF this(1) pre Suc.prems(3-5) cid(2) this(2)] obtain n' where
      n': "\<And>st. \<exists>b1 b2 st2. split_leaf ?k ?o cid st = Inr (b1, b2, st2) \<and>
        dirtyUp ?k st2 (split_node b1 b2 (Leaf ty item) (Leaf ty other)) = dirtyUp ?k st n'"
      "node_ok ty (Suc d) (16 * p + nib ?k d) n'" "node_items n' = om_insert (<) ?k item [(?o, other)]" by blast
    let ?n = "Inner ((replicate 16 None)[nib ?k d := Some n'])"
    have step: "split_leaf ?k ?o nid st = split_leaf ?k ?o cid ((empty_inner, nid) # st)" for st
      using True d Suc.prems(6) cid(1) by (simp add: split_leaf.simps [of _ _ nid])
    have up: "dirtyUp ?k ((empty_inner, nid) # st) n' = dirtyUp ?k st ?n" for st
      using d Suc.prems(6) by (simp add: empty_inner_def setChild_def)
    have "\<forall>st. \<exists>b1 b2 st2. split_leaf ?k ?o nid st = Inr (b1, b2, st2) \<and>
        dirtyUp ?k st2 (split_node b1 b2 (Leaf ty item) (Leaf ty other)) = dirtyUp ?k st ?n"
      using n'(1) by (simp add: step flip: up)
    moreover have "node_ok ty d p ?n"
      using n'(2,3) by (intro node_ok_setChild empty_inner_ok d) (auto intro: populated_two)
    moreover have "node_items ?n = om_insert (<) ?k item [(?o, other)]"
      using single_child_items [of "nib ?k d" "Some n'"] n'(3) by simp
    ultimately show ?thesis by blast
  qed
qed

text \<open>
  The stack of a key that is absent ends in a node where the item goes; what is linked into the nodes
  above is the subtree with the item.
\<close>

definition add_path :: "SHAMapItem \<Rightarrow> TNType \<Rightarrow> nat \<Rightarrow> nat \<Rightarrow> SHAMapNode \<Rightarrow> NodeStack \<Rightarrow> bool" where
  "add_path item ty d p n S =
     (if map_of (node_items n) (it_key item) \<noteq> None then \<forall>rest. add_at ty item (S @ rest) = Inr None
      else \<exists>n'. node_ok ty d p n' \<and> (populated n \<longrightarrow> populated n') \<and> ((\<exists>cs. n = Inner cs) \<longrightarrow> (\<exists>cs. n' = Inner cs)) \<and>
        node_items n' = om_insert (<) (it_key item) item (node_items n) \<and>
        (\<forall>rest. add_at ty item (S @ rest) = bind_r (dirtyUp (it_key item) rest n') (\<lambda>r. Inr (Some r))))"

lemma add_path_leaf:
  assumes ok: "node_ok ty d p (Leaf ty it)" and nid: "mDepth nid = d" and k: "key_prefix (it_key item) d = p"
    and data: "12 \<le> length (it_data item)"
  shows "add_path item ty d p (Leaf ty it) [(Leaf ty it, nid)]"
proof (cases "it_key it = it_key item")
  case True
  then show ?thesis by (simp add: add_path_def add_at_def)
next
  case False
  from ok have it: "key_prefix (it_key it) d = p" "12 \<le> length (it_data it)" "d \<le> 64" by auto
  obtain n' where n': "\<And>st. \<exists>b1 b2 st2. split_leaf (it_key item) (it_key it) nid st = Inr (b1, b2, st2) \<and>
      dirtyUp (it_key item) st2 (split_node b1 b2 (Leaf ty item) (Leaf ty it)) = dirtyUp (it_key item) st n'"
    "node_ok ty d p n'" "node_items n' = om_insert (<) (it_key item) item [(it_key it, it)]"
    using split_leaf_ok [OF k it(1) False [symmetric] data it(2) nid it(3)] by blast
  have "add_at ty item ([(Leaf ty it, nid)] @ rest) = bind_r (dirtyUp (it_key item) rest n') (\<lambda>r. Inr (Some r))" for rest
    using n'(1) [of rest] False data it(2) by (auto simp: add_at_def make_leaf_def split_node_def)
  moreover have "populated n'" using n'(3) by (intro populated_two) simp
  ultimately show ?thesis using n'(2,3) False by (auto simp: add_path_def)
qed

lemma add_path_ok:
  assumes "node_ok ty d p n" "mDepth nid = d" "key_prefix (it_key item) d = p" and data: "12 \<le> length (it_data item)"
  shows "\<exists>S. getStack (it_key item) True nid n [] = Inr S \<and> add_path item ty d p n S"
  using assms(1-3)
proof (induction rule: path_induct)
  case (leaf d p nid it)
  then show ?case by (intro add_path_leaf data) auto
next
  case (stop d p nid cs)
  let ?k = "it_key item"
  let ?cs = "cs[nib ?k d := Some (Leaf ty item)]"
  have ok: "node_ok ty d p (Inner ?cs)"
    using stop data by (intro node_ok_setChild) (auto simp: key_prefix_Suc populated_def)
  have items: "node_items (Inner ?cs) = om_insert (<) ?k item (node_items (Inner cs))"
    using setChild_items(2) [OF stop(1,3), of "Some (Leaf ty item)" item] stop(6) by simp
  have "add_at ty item ([(Inner cs, nid)] @ rest) = bind_r (dirtyUp ?k rest (Inner ?cs)) (\<lambda>r. Inr (Some r))" for rest
    using stop data by (simp add: add_at_def make_leaf_def isEmptyBranch_def child_def setChild_def Let_def)
  moreover have "map_of (node_items (Inner cs)) ?k = None" using map_of_Inner [OF stop(1,3)] stop(6) by simp
  moreover have "populated (Inner cs) \<longrightarrow> populated (Inner ?cs)" by (simp add: populated_def items)
  ultimately show ?case using ok items by (auto simp: add_path_def)
next
  case (step d p nid cs c S)
  let ?k = "it_key item"
  have m: "map_of (node_items (Inner cs)) ?k = map_of (node_items c) ?k"
    using map_of_Inner [OF step(1,3)] step(6) by simp
  show ?case
  proof (cases "map_of (node_items c) ?k")
    case (Some it)
    with step(9) show ?thesis by (simp add: add_path_def m)
  next
    case None
    with step(7,9) obtain n' where n': "node_ok ty (Suc d) (16 * p + nib ?k d) n'" "populated n'"
      "node_items n' = om_insert (<) ?k item (node_items c)"
      "\<And>rest. add_at ty item (S @ rest) = bind_r (dirtyUp ?k rest n') (\<lambda>r. Inr (Some r))"
      by (auto simp: add_path_def)
    let ?cs = "cs[nib ?k d := Some n']"
    have "node_ok ty d p (Inner ?cs)" using n'(1,2) step(1) by (intro node_ok_setChild) auto
    moreover have items: "node_items (Inner ?cs) = om_insert (<) ?k item (node_items (Inner cs))"
      using setChild_items(2) [OF step(1,3), of "Some n'" item] step(6) n'(3) by simp
    moreover have "populated (Inner cs) \<longrightarrow> populated (Inner ?cs)" by (simp add: populated_def items)
    moreover have "add_at ty item ((S @ [(Inner cs, nid)]) @ rest) = bind_r (dirtyUp ?k rest (Inner ?cs)) (\<lambda>r. Inr (Some r))" for rest
      using step(2,4) n'(4) [of "(Inner cs, nid) # rest"] by (simp add: setChild_def)
    ultimately show ?thesis using None by (auto simp: add_path_def m)
  qed
qed

lemma addGiveItem_ok:
  assumes ok: "shamap_ok ty m" and st: "sm_state m \<noteq> Immutable" "sm_state m \<noteq> Synching"
    and ty: "leaf_type isTransaction hasMeta = ty" and data: "12 \<le> length (it_data item)"
  shows "\<exists>m'. addGiveItem item isTransaction hasMeta m = Inr (map_of (shamap_items m) (it_key item) = None, m') \<and>
    shamap_ok ty m' \<and> shamap_items m' = fst (om_emplace (<) (it_key item) item (shamap_items m)) \<and> sm_state m' = sm_state m"
proof -
  from ok obtain cs where cs: "sm_root m = Inner cs" and nok: "node_ok ty 0 0 (sm_root m)" by (auto simp: shamap_ok_def)
  obtain S where S: "getStack (it_key item) True root_id (sm_root m) [] = Inr S" "add_path item ty 0 0 (sm_root m) S"
    using add_path_ok [OF nok, of root_id item] data by (auto simp: root_id_def)
  show ?thesis
  proof (cases "map_of (shamap_items m) (it_key item)")
    case (Some it)
    then have "\<forall>rest. add_at ty item (S @ rest) = Inr None" using S(2) by (simp add: add_path_def shamap_items_def)
    with spec [OF this, of "[]"] Some S(1) ok st ty show ?thesis by (simp add: addGiveItem_def om_emplace_def)
  next
    case None
    with S(2) cs obtain cs' where "node_ok ty 0 0 (Inner cs')"
      "node_items (Inner cs') = om_insert (<) (it_key item) item (node_items (sm_root m))"
      "\<And>rest. add_at ty item (S @ rest) = bind_r (dirtyUp (it_key item) rest (Inner cs')) (\<lambda>r. Inr (Some r))"
      by (auto simp: add_path_def shamap_items_def)
    with this(3) [of "[]"] None S(1) st ty show ?thesis
      by (simp add: addGiveItem_def om_emplace_def shamap_ok_def shamap_items_def)
  qed
qed

section \<open>Update\<close>

definition upd_path :: "SHAMapItem \<Rightarrow> TNType \<Rightarrow> nat \<Rightarrow> nat \<Rightarrow> SHAMapNode \<Rightarrow> NodeStack \<Rightarrow> bool" where
  "upd_path item ty d p n S =
     (case map_of (node_items n) (it_key item) of
        None \<Rightarrow> \<exists>top nid S'. S = (top, nid) # S' \<and> (\<forall>t it. top = Leaf t it \<longrightarrow> it_key it \<noteq> it_key item)
      | Some it \<Rightarrow> \<exists>nid S' n'. S = (Leaf ty it, nid) # S' \<and> it_key it = it_key item \<and> node_ok ty d p n' \<and>
          (populated n \<longrightarrow> populated n') \<and> ((\<exists>cs. n = Inner cs) \<longrightarrow> (\<exists>cs. n' = Inner cs)) \<and>
          node_items n' = om_update (it_key item) item (node_items n) \<and>
          (\<forall>rest. dirtyUp (it_key item) (S' @ rest) (Leaf ty item) = dirtyUp (it_key item) rest n'))"

lemma upd_path_ok:
  assumes "node_ok ty d p n" "mDepth nid = d" "key_prefix (it_key item) d = p" and data: "12 \<le> length (it_data item)"
  shows "\<exists>S. getStack (it_key item) True nid n [] = Inr S \<and> upd_path item ty d p n S"
  using assms(1-3)
proof (induction rule: path_induct)
  case (leaf d p nid it)
  then have "node_ok ty d p (Leaf ty item)" using data by simp
  then show ?case
    by (cases "it_key it = it_key item")
      (force simp: upd_path_def om_update_def populated_def intro!: exI [of _ "Leaf ty item"], simp add: upd_path_def)
next
  case (stop d p nid cs)
  then show ?case by (simp add: upd_path_def map_of_Inner [OF stop(1,3)])
next
  case (step d p nid cs c S)
  let ?k = "it_key item"
  have m: "map_of (node_items (Inner cs)) ?k = map_of (node_items c) ?k"
    using map_of_Inner [OF step(1,3)] step(6) by simp
  show ?case
  proof (cases "map_of (node_items c) ?k")
    case None
    with step(9) show ?thesis by (auto simp: upd_path_def m)
  next
    case (Some it)
    with step(7,9) obtain lid S' n' where n': "S = (Leaf ty it, lid) # S'" "it_key it = ?k"
      "node_ok ty (Suc d) (16 * p + nib ?k d) n'" "populated n'"
      "node_items n' = om_update ?k item (node_items c)"
      "\<And>rest. dirtyUp ?k (S' @ rest) (Leaf ty item) = dirtyUp ?k rest n'"
      by (auto simp: upd_path_def)
    let ?cs = "cs[nib ?k d := Some n']"
    have ok: "node_ok ty d p (Inner ?cs)" using n'(3,4) step(1) by (intro node_ok_setChild) auto
    have items: "node_items (Inner ?cs) = om_update ?k item (node_items (Inner cs))"
      using setChild_items(3) [OF step(1,3), of "Some n'" item] step(6) n'(5) by simp
    have pop: "populated (Inner cs) \<longrightarrow> populated (Inner ?cs)" by (simp add: populated_def items om_update_def)
    have "dirtyUp ?k ((S' @ [(Inner cs, nid)]) @ rest) (Leaf ty item) = dirtyUp ?k rest (Inner ?cs)" for rest
      using step(2,4) n'(6) [of "(Inner cs, nid) # rest"] by (simp add: setChild_def)
    with ok items pop Some n'(1,2) show ?thesis by (auto simp: upd_path_def m)
  qed
qed

text \<open>
  Update replaces the item of a key that is present and fails on an absent one.
\<close>

lemma updateGiveItem_absent:
  assumes ok: "shamap_ok ty m" and data: "12 \<le> length (it_data item)" and none: "map_of (shamap_items m) (it_key item) = None"
  shows "updateGiveItem leaf_hash item isTransaction hasMeta m = Inl LAssert"
proof -
  from ok have nok: "node_ok ty 0 0 (sm_root m)" by (simp add: shamap_ok_def)
  obtain S where S: "getStack (it_key item) True root_id (sm_root m) [] = Inr S" "upd_path item ty 0 0 (sm_root m) S"
    using upd_path_ok [OF nok, of root_id item] data by (auto simp: root_id_def)
  from S(2) none obtain top nid S' where "S = (top, nid) # S'" "\<forall>t it. top = Leaf t it \<longrightarrow> it_key it \<noteq> it_key item"
    by (auto simp: upd_path_def shamap_items_def)
  with S(1) show ?thesis by (cases top) (simp_all add: updateGiveItem_def led_assert_def)
qed

lemma updateGiveItem_ok:
  assumes ok: "shamap_ok ty m" and st: "sm_state m \<noteq> Immutable" "sm_state m \<noteq> Synching"
    and ty: "leaf_type isTransaction hasMeta = ty" and data: "12 \<le> length (it_data item)"
    and old: "map_of (shamap_items m) (it_key item) = Some old"
  shows "\<exists>m'. updateGiveItem leaf_hash item isTransaction hasMeta m = Inr (True, m') \<and>
    shamap_ok ty m' \<and> sm_state m' = sm_state m \<and> shamap_items m' = om_update (it_key item) item (shamap_items m)"
proof -
  from ok obtain cs where cs: "sm_root m = Inner cs" and nok: "node_ok ty 0 0 (sm_root m)" by (auto simp: shamap_ok_def)
  obtain S where S: "getStack (it_key item) True root_id (sm_root m) [] = Inr S" "upd_path item ty 0 0 (sm_root m) S"
    using upd_path_ok [OF nok, of root_id item] data by (auto simp: root_id_def)
  from S(2) cs old obtain nid S' cs' where u: "S = (Leaf ty old, nid) # S'" "it_key old = it_key item"
    "node_ok ty 0 0 (Inner cs')" "node_items (Inner cs') = om_update (it_key item) item (node_items (sm_root m))"
    "\<forall>rest. dirtyUp (it_key item) (S' @ rest) (Leaf ty item) = dirtyUp (it_key item) rest (Inner cs')"
    by (auto simp: upd_path_def shamap_items_def)
  with u(5) [rule_format, of "[]"] S(1) st ty show ?thesis
    by (simp add: updateGiveItem_def Let_def shamap_ok_def shamap_items_def)
qed

end
