(* ===== verification/SHAMap_Canon.thy ===== *)
theory SHAMap_Canon
  imports SHAMap_Insert
begin

text \<open>
  The tree is canonical: its shape is determined by its items, whatever sequence of operations built it.
  The queries at the level of the map, and the contract of the map as an ordered store, with the
  radix tree as its implementation.
\<close>

section \<open>Canonical shape\<close>

lemma branch_items:
  assumes "node_ok ty d p (Inner cs)" "i < 16"
  shows "opt_items (cs ! i) = filter (\<lambda>e. nib (fst e) d = i) (node_items (Inner cs))"
proof -
  obtain A B where i: "node_items (Inner cs) = A @ opt_items (cs ! i) @ B"
    "\<forall>e \<in> set A. nib (fst e) d < i" "\<forall>e \<in> set B. i < nib (fst e) d"
    by (rule items_split [OF assms]) blast
  have "filter (\<lambda>e. nib (fst e) d = i) A = []" "filter (\<lambda>e. nib (fst e) d = i) B = []"
    using i(2,3) by (auto simp: filter_empty_conv)
  moreover have "filter (\<lambda>e. nib (fst e) d = i) (opt_items (cs ! i)) = opt_items (cs ! i)"
    using child_keys [OF assms] by (auto simp: filter_id_conv)
  ultimately show ?thesis by (simp add: i(1))
qed

lemma canonical:
  "node_ok ty d p n \<Longrightarrow> node_ok ty d p n' \<Longrightarrow> node_items n = node_items n' \<Longrightarrow>
     (populated n \<and> populated n') \<or> (\<exists>cs cs'. n = Inner cs \<and> n' = Inner cs') \<Longrightarrow> n = n'"
proof (induction arbitrary: n' rule: node_ok.induct)
  case (leaf d it p)
  have "length (node_items n') = 1" using leaf.prems(2) by (simp flip: leaf.prems(2))
  with leaf show ?case by (cases n') (auto simp: populated_def)
next
  case (inner d cs p)
  have ok: "node_ok ty d p (Inner cs)" using inner by (auto intro!: node_ok.inner)
  from inner.prems obtain cs' where n': "n' = Inner cs'" by (cases n') (auto simp: populated_def)
  with inner.prems have ok': "node_ok ty d p (Inner cs')" and items: "node_items (Inner cs) = node_items (Inner cs')" by auto
  have "cs ! i = cs' ! i" if i: "i < 16" for i
  proof -
    have eq: "opt_items (cs ! i) = opt_items (cs' ! i)"
      using branch_items [OF ok i] branch_items [OF ok' i] items by simp
    have ne: "c \<noteq> None \<Longrightarrow> opt_items c \<noteq> []" if "c = cs ! i \<or> c = cs' ! i" for c
    proof (cases c)
      case (Some n)
      then have "node_ok ty (Suc d) (16 * p + i) n \<and> populated n"
        using that i ok ok' unfolding node_ok_Inner by metis
      with Some show ?thesis by (auto dest: populated_nonempty)
    qed simp
    show ?thesis
    proof (cases "cs ! i")
      case None
      with eq ne [of "cs' ! i"] show ?thesis by (cases "cs' ! i") auto
    next
      case (Some c)
      with eq ne [of "cs ! i"] obtain c' where c': "cs' ! i = Some c'" by (cases "cs' ! i") auto
      with Some eq have "node_items c = node_items c'" by simp
      moreover have "populated c" "populated c'" "node_ok ty (Suc d) (16 * p + i) c'"
        using i Some c' inner.IH [OF i Some] ok' by (auto simp: node_ok_Inner)
      ultimately show ?thesis using inner.IH [OF i Some] Some c' by simp
    qed
  qed
  moreover have "length cs = 16" "length cs' = 16" using ok ok' by (simp_all add: node_ok_Inner)
  ultimately show ?case unfolding n' by (simp add: list_eq_iff_nth_eq)
qed

lemma shamap_canonical:
  "shamap_ok ty m \<Longrightarrow> shamap_ok ty m' \<Longrightarrow> shamap_items m = shamap_items m' \<Longrightarrow> sm_root m = sm_root m'"
  unfolding shamap_ok_def shamap_items_def by (blast intro: canonical)

section \<open>Queries\<close>

lemma shamap_sorted: "shamap_ok ty m \<Longrightarrow> om_ok (<) (shamap_items m)"
  unfolding shamap_ok_def shamap_items_def using node_sorted by blast

lemma shamap_keys: "shamap_ok ty m \<Longrightarrow> map_of (shamap_items m) k = Some it \<Longrightarrow> it_key it = k"
  unfolding shamap_ok_def shamap_items_def using node_keys map_of_SomeD by metis

lemma SHAMap_init_ok: "shamap_ok ty SHAMap_init" and SHAMap_init_items [simp]: "shamap_items SHAMap_init = []"
  by (simp_all add: shamap_ok_def SHAMap_init_def empty_inner_def empty_inner_ok shamap_items_def)

lemma peekItem_ok: "shamap_ok ty m \<Longrightarrow> peekItem k m = Inr (map_of (shamap_items m) k)"
  unfolding peekItem_def shamap_items_def by (rule walkToPointer_ok) (auto simp: shamap_ok_def root_id_def)

lemma hasItem_ok: "shamap_ok ty m \<Longrightarrow> hasItem k m = Inr (map_of (shamap_items m) k \<noteq> None)"
  using peekItem_ok by (simp add: hasItem_def peekItem_def)

lemma peekFirstItem_ok: "shamap_ok ty m \<Longrightarrow> peekFirstItem m = head_item (shamap_items m)"
  unfolding peekFirstItem_def shamap_items_def shamap_ok_def using firstBelow_ok by blast

lemma peekLastItem_ok: "shamap_ok ty m \<Longrightarrow> peekLastItem m = head_item (rev (shamap_items m))"
  unfolding peekLastItem_def shamap_items_def shamap_ok_def using lastBelow_ok by blast

lemma peekNextItem_ok:
  assumes "shamap_ok ty m"
  shows "peekNextItem k m = Inr (map_option snd (List.find (\<lambda>e. k < fst e) (shamap_items m)))"
proof -
  have "node_ok ty 0 0 (sm_root m)" using assms by (simp add: shamap_ok_def)
  from next_loop_ok [OF this, of root_id k] obtain S where "getStack k True root_id (sm_root m) [] = Inr S"
    "\<forall>rest. next_loop k (S @ rest) = (case List.find (\<lambda>e. k < fst e) (node_items (sm_root m)) of
       Some e \<Rightarrow> Inr (Some (snd e)) | None \<Rightarrow> next_loop k rest)" by (auto simp: root_id_def)
  with this(2) [rule_format, of "[]"] show ?thesis by (simp add: peekNextItem_def shamap_items_def split: option.splits)
qed

lemma peekPrevItem_ok:
  assumes "shamap_ok ty m"
  shows "peekPrevItem k m = Inr (map_option snd (List.find (\<lambda>e. fst e < k) (rev (shamap_items m))))"
proof -
  have "node_ok ty 0 0 (sm_root m)" using assms by (simp add: shamap_ok_def)
  from prev_loop_ok [OF this, of root_id k] obtain S where "getStack k True root_id (sm_root m) [] = Inr S"
    "\<forall>rest. prev_loop k (S @ rest) = (case List.find (\<lambda>e. fst e < k) (rev (node_items (sm_root m))) of
       Some e \<Rightarrow> Inr (Some (snd e)) | None \<Rightarrow> prev_loop k rest)" by (auto simp: root_id_def)
  with this(2) [rule_format, of "[]"] show ?thesis by (simp add: peekPrevItem_def shamap_items_def split: option.splits)
qed

end
