(* ===== verification/Serializer_Spec.thy ===== *)
theory Serializer_Spec
  imports Serializer
begin

text \<open>
  Reading gives back what was written. A codec is a writer and a reader that undo each other with any
  bytes behind; the integers, keys, field identifiers and length-prefixed blobs are codecs, so
  sequences of them are read back as well.
\<close>

section \<open>Big endian bytes\<close>

lemma be_bytes_0 [simp]: "be_bytes 0 w = []"
  by (simp add: be_bytes_def)

lemma length_be_bytes [simp]: "length (be_bytes n w) = n"
  by (simp add: be_bytes_def)

lemma be_bytes_Suc: "be_bytes (Suc n) w = be_bytes n (drop_bit 8 w) @ [ucast w]"
  by (auto simp: be_bytes_def algebra_simps intro!: nth_equalityI arg_cong [where f = ucast])

lemma be_word_snoc [simp]: "be_word [] = 0" "be_word (bs @ [b]) = push_bit 8 (be_word bs) OR ucast b"
  by (simp_all add: be_word_def)

lemma be_word_bytes: "be_word (be_bytes n w) = take_bit (8 * n) (w :: 'a::len word)"
proof (induction n arbitrary: w)
  case (Suc n)
  have "push_bit 8 (take_bit (8 * n) (drop_bit 8 w)) OR ucast (ucast w :: byte) = take_bit (8 * Suc n) w"
    by (rule bit_word_eqI) (auto simp: bit_simps)
  with Suc show ?case by (simp add: be_bytes_Suc)
qed simp

lemma be_word_bytes_all: "LENGTH('a) \<le> 8 * n \<Longrightarrow> be_word (be_bytes n w) = (w :: 'a::len word)"
  by (simp add: be_word_bytes take_bit_word_eq_self)

lemma ff_mask: "(0xff :: 'a::len word) = mask 8" and int_ff_mask: "(0xff :: int) = mask 8" and int_15_mask: "(15 :: int) = mask 4"
  by (simp_all add: mask_eq_exp_minus_1)

lemma ucast_and_ff: "(ucast (w AND 0xff) :: byte) = ucast w" for w :: "'a::len word"
  unfolding ff_mask by (rule bit_word_eqI) (auto simp: bit_simps dest: bit_imp_le_length)

lemma add16_bytes: "add16 i s = (length s, s @ be_bytes 2 i)"
  and add32_bytes: "add32 j s = (length s, s @ be_bytes 4 j)"
  and add64_bytes: "add64 k s = (length s, s @ be_bytes 8 k)"
  by (simp_all add: add16_def add32_def add64_def ucast_and_ff be_bytes_Suc eval_nat_numeral)

section \<open>The iterator\<close>

definition si_ok :: "SerialIter \<Rightarrow> bool" where
  "si_ok it = (si_p it = si_used it \<and> si_used it + si_remain it = length (si_buf it))"

definition si_rest :: "SerialIter \<Rightarrow> Blob" where
  "si_rest it = drop (si_p it) (si_buf it)"

lemma SerialIter_of_ok [simp]: "si_ok (SerialIter_of data)" "si_rest (SerialIter_of data) = data"
  by (simp_all add: si_ok_def si_rest_def SerialIter_of_def)

lemma si_remain_rest: "si_ok it \<Longrightarrow> si_remain it = length (si_rest it)"
  by (auto simp: si_ok_def si_rest_def)

lemma si_advance_rest [simp]: "si_rest (si_advance n it) = drop n (si_rest it)"
  by (simp add: si_rest_def si_advance_def add.commute)

lemma si_advance_ok: "si_ok it \<Longrightarrow> n \<le> length (si_rest it) \<Longrightarrow> si_ok (si_advance n it)"
  by (auto simp: si_ok_def si_rest_def si_advance_def)

lemma si_advance_advance: "si_advance n (si_advance k it) = si_advance (k + n) it"
  by (simp add: si_advance_def)

lemma si_advance_0 [simp]: "si_advance 0 it = it"
  by (simp add: si_advance_def)

lemma si_reset_start: "si_ok it \<Longrightarrow> si_reset it = SerialIter_of (si_buf it)"
  by (simp add: si_ok_def si_reset_def SerialIter_of_def)

lemma si_at_rest: "si_ok it \<Longrightarrow> i < length (si_rest it) \<Longrightarrow> si_at it i = ucast (si_rest it ! i)"
  by (simp add: si_at_def si_rest_def)

text \<open>Every read, spelled on the bytes ahead.\<close>

lemma si_get8_rest: "si_ok it \<Longrightarrow> si_rest it = b # bs \<Longrightarrow> si_get8 it = Inr (b, si_advance 1 it)"
  by (simp add: si_get8_def si_remain_rest) (metis append_Nil drop_eq_Nil hd_drop_conv_nth linorder_not_le list.discI list.sel(1) si_rest_def)

lemma si_getRaw_rest: "si_ok it \<Longrightarrow> si_rest it = v @ bs \<Longrightarrow> n = length v \<Longrightarrow> si_getRaw n it = Inr (v, si_advance n it)"
  by (simp add: si_getRaw_def si_remain_rest flip: si_rest_def)

lemma si_getSlice_raw: "si_getSlice n it = (if n > si_remain it then Inl (LThrow ''invalid SerialIter getSlice'') else si_getRaw n it)"
  by (simp add: si_getSlice_def si_getRaw_def)

lemma si_getBitString_rest:
  "si_ok it \<Longrightarrow> si_rest it = v @ bs \<Longrightarrow> n = length v \<Longrightarrow> si_getBitString n it = Inr (be_word v, si_advance n it)"
  by (simp add: si_getBitString_def si_remain_rest flip: si_rest_def)

text \<open>The shifted bytes do not overlap, so their sum is the big endian number.\<close>

lemma horner_step: "push_bit 8 w + ucast b = push_bit 8 w OR (ucast (b :: byte) :: 'a::len word)"
proof (rule disjunctive_add_eq_or)
  show "push_bit 8 w AND (ucast b :: 'a word) = 0"
    by (rule bit_word_eqI) (auto simp: bit_simps dest: bit_imp_le_length)
qed

lemmas be_word_unfold = be_word_def foldl.simps push_bit_of_0 or.left_neutral

lemma horner2: "push_bit 8 (ucast a) + ucast b = (be_word [a, b] :: 64 word)"
  by (simp add: be_word_def horner_step)

lemma horner4:
  "push_bit 24 (ucast a) + push_bit 16 (ucast b) + push_bit 8 (ucast c) + ucast d = (be_word [a, b, c, d] :: 64 word)"
proof -
  have "push_bit 24 (ucast a) + push_bit 16 (ucast b) + push_bit 8 (ucast c) + ucast d =
      push_bit 8 (push_bit 8 (push_bit 8 (ucast a) + ucast b) + ucast c) + (ucast d :: 64 word)"
    by (simp add: push_bit_eq_mult algebra_simps)
  then show ?thesis by (simp only: be_word_unfold horner_step)
qed

lemma horner8:
  "push_bit 56 (ucast a) + push_bit 48 (ucast b) + push_bit 40 (ucast c) + push_bit 32 (ucast d) +
     push_bit 24 (ucast e) + push_bit 16 (ucast f) + push_bit 8 (ucast g) + ucast h =
   (be_word [a, b, c, d, e, f, g, h] :: 64 word)" (is "?l = _")
proof -
  have "?l = push_bit 8 (push_bit 8 (push_bit 8 (push_bit 8 (push_bit 8 (push_bit 8 (push_bit 8 (ucast a) + ucast b) +
      ucast c) + ucast d) + ucast e) + ucast f) + ucast g) + ucast h"
    by (simp add: push_bit_eq_mult algebra_simps)
  then show ?thesis by (simp only: be_word_unfold horner_step)
qed

lemma ucast_be_word: "LENGTH('a::len) \<le> LENGTH('b::len) \<Longrightarrow> (ucast (be_word bs :: 'b word) :: 'a word) = be_word bs"
proof (induction bs rule: rev_induct)
  case (snoc b bs)
  have "(ucast (push_bit 8 (be_word bs) OR ucast b :: 'b word) :: 'a word) =
      push_bit 8 (ucast (be_word bs :: 'b word)) OR ucast b"
    using snoc.prems by (intro bit_word_eqI) (auto simp: bit_simps)
  with snoc show ?case by simp
qed simp

text \<open>The integer reads.\<close>

lemma rest_nth: "si_ok it \<Longrightarrow> si_rest it = v @ bs \<Longrightarrow> i < length v \<Longrightarrow> si_at it i = ucast (v ! i)"
  using si_at_rest [of it i] by (simp add: nth_append)

lemma si_get16_rest: "si_ok it \<Longrightarrow> si_rest it = v @ bs \<Longrightarrow> length v = 2 \<Longrightarrow> si_get16 it = Inr (be_word v, si_advance 2 it)"
proof -
  assume a: "si_ok it" "si_rest it = v @ bs" "length v = 2"
  then obtain x y where v: "v = [x, y]" by (auto simp: numeral_eq_Suc length_Suc_conv)
  with rest_nth [OF a(1,2), of 0] rest_nth [OF a(1,2), of 1] a(1,2) show ?thesis
    by (simp add: si_get16_def si_remain_rest horner2 ucast_be_word)
qed

lemma si_get32_rest: "si_ok it \<Longrightarrow> si_rest it = v @ bs \<Longrightarrow> length v = 4 \<Longrightarrow> si_get32 it = Inr (be_word v, si_advance 4 it)"
proof -
  assume a: "si_ok it" "si_rest it = v @ bs" "length v = 4"
  then obtain x y z u where v: "v = [x, y, z, u]" by (auto simp: numeral_eq_Suc length_Suc_conv)
  with rest_nth [OF a(1,2), of 0] rest_nth [OF a(1,2), of 1] rest_nth [OF a(1,2), of 2] rest_nth [OF a(1,2), of 3] a(1,2)
  show ?thesis by (simp add: si_get32_def si_remain_rest horner4 ucast_be_word)
qed

lemma si_get64_rest: "si_ok it \<Longrightarrow> si_rest it = v @ bs \<Longrightarrow> length v = 8 \<Longrightarrow> si_get64 it = Inr (be_word v, si_advance 8 it)"
proof -
  assume a: "si_ok it" "si_rest it = v @ bs" "length v = 8"
  then obtain x y z u x' y' z' u' where v: "v = [x, y, z, u, x', y', z', u']"
    by (auto simp: numeral_eq_Suc length_Suc_conv)
  note r = rest_nth [OF a(1,2)]
  from v r [of 0] r [of 1] r [of 2] r [of 3] r [of 4] r [of 5] r [of 6] r [of 7] a(1,2)
  show ?thesis by (simp add: si_get64_def si_remain_rest horner8)
qed

section \<open>Field identifiers and lengths\<close>

definition byte_of :: "int \<Rightarrow> byte" where
  "byte_of x = word_of_int x"

lemma uint_byte [simp]: "0 \<le> x \<Longrightarrow> x < 256 \<Longrightarrow> uint (byte_of x) = x"
  by (simp add: byte_of_def uint_word_of_int)

definition field_id_bytes :: "int \<Rightarrow> int \<Rightarrow> Blob" where
  "field_id_bytes type name =
     (if type < 16 then if name < 16 then [byte_of (16 * type + name)] else [byte_of (16 * type), byte_of name]
      else if name < 16 then [byte_of name, byte_of type]
      else [byte_of 0, byte_of type, byte_of name])"

lemma int_shift_or: "0 \<le> n \<Longrightarrow> n < 16 \<Longrightarrow> t * 16 OR n = 16 * t + (n :: int)"
proof -
  assume n: "0 \<le> n" "n < 16"
  have low: "n = take_bit 4 n" using n by (simp add: take_bit_int_eq_self)
  have "push_bit 4 t AND n = 0" by (subst low, rule bit_eqI) (auto simp: bit_simps)
  then have "push_bit 4 t OR n = push_bit 4 t + n" by (rule disjunctive_add_eq_or [symmetric])
  then show ?thesis by (simp add: push_bit_eq_mult)
qed

lemma addFieldID_bytes:
  "0 < type \<Longrightarrow> type < 256 \<Longrightarrow> 0 < name \<Longrightarrow> name < 256 \<Longrightarrow>
     addFieldID type name s = Inr (length s, s @ field_id_bytes type name)"
  by (simp add: addFieldID_def field_id_bytes_def byte_of_def push_bit_eq_mult int_shift_or)

lemma nibbles_int: "(b :: int) AND 15 = b mod 16" "drop_bit 4 (b :: int) = b div 16"
  by (simp_all add: int_15_mask drop_bit_eq_div take_bit_eq_mod flip: take_bit_eq_mask)

lemma nibbles_id: "0 < name \<Longrightarrow> name < 16 \<Longrightarrow> (16 * type + name) mod 16 = name \<and> (16 * type + name) div 16 = (type :: int)"
  by simp

lemma get8_append: "get8 (length s + i) (s @ v) = (if i < length v then Some (uint (v ! i)) else None)"
  by (simp add: get8_def nth_append)

lemma getFieldID_bytes:
  assumes "0 < type" "type < 256" "0 < name" "name < 256"
  shows "getFieldID (length s) (s @ field_id_bytes type name @ bs) = Some (type, name)"
proof -
  have at: "get8 (length s + i) (s @ field_id_bytes type name @ bs) = Some (uint (field_id_bytes type name ! i))"
    if "i < length (field_id_bytes type name)" for i
    using that get8_append [of s i "field_id_bytes type name @ bs"] by (simp add: nth_append)
  note s0 = at [of 0] and s1 = at [of 1] and s2 = at [of 2]
  consider "type < 16" "name < 16" | "type < 16" "16 \<le> name" | "16 \<le> type" "name < 16" | "16 \<le> type" "16 \<le> name"
    by linarith
  then show ?thesis
    using s0 s1 s2 assms
    by cases (simp_all add: getFieldID_def field_id_bytes_def nibbles_int nibbles_id Let_def numeral_2_eq_2)
qed

lemma si_getFieldID_rest:
  assumes it: "si_ok it" "si_rest it = field_id_bytes type name @ bs" and v: "0 < type" "type < 256" "0 < name" "name < 256"
  shows "si_getFieldID it = Inr ((type, name), si_advance (length (field_id_bytes type name)) it)"
proof -
  have step: "si_get8 (si_advance i it) = Inr (si_rest it ! i, si_advance (Suc i) it)" if "i < length (si_rest it)" for i
    using that it(1) si_get8_rest [of "si_advance i it" "si_rest it ! i" "drop (Suc i) (si_rest it)"]
    by (simp add: si_advance_ok si_advance_advance Cons_nth_drop_Suc)
  note s0 = step [of 0] and s1 = step [of 1] and s2 = step [of 2]
  consider "type < 16" "name < 16" | "type < 16" "16 \<le> name" | "16 \<le> type" "name < 16" | "16 \<le> type" "16 \<le> name"
    by linarith
  then show ?thesis
    using s0 s1 s2 it(2) v
    by cases (simp_all add: si_getFieldID_def field_id_bytes_def nibbles_int nibbles_id Let_def numeral_2_eq_2)
qed

text \<open>Lengths: at most 918744.\<close>

definition len_bytes :: "int \<Rightarrow> Blob" where
  "len_bytes n =
     (if n \<le> 192 then [byte_of n]
      else if n \<le> 12480 then [byte_of (193 + (n - 193) div 256), byte_of ((n - 193) mod 256)]
      else [byte_of (241 + (n - 12481) div 65536), byte_of ((n - 12481) div 256 mod 256), byte_of ((n - 12481) mod 256)])"

lemma encoded_bytes_len: "n \<le> 918744 \<Longrightarrow> encoded_bytes n = Inr (len_bytes n)"
  by (simp add: encoded_bytes_def len_bytes_def byte_of_def Let_def drop_bit_eq_div int_ff_mask take_bit_eq_mod flip: take_bit_eq_mask)

lemma length_len_bytes: "0 \<le> n \<Longrightarrow> n \<le> 918744 \<Longrightarrow> encodeLengthLength n = Inr (length (len_bytes n))"
  by (simp add: encodeLengthLength_def len_bytes_def)

lemma addVL_bytes:
  "length v \<le> 918744 \<Longrightarrow> addVL v s = Inr (length s, s @ len_bytes (int (length v)) @ v)"
  using length_len_bytes [of "int (length v)"]
  by (simp add: addVL_def addEncoded_def encoded_bytes_len addRaw_def led_assert_def)

lemma addVL_too_long: "918744 < length v \<Longrightarrow> addVL v s = Inl (LThrow ''lenlen'')"
  by (simp add: addVL_def addEncoded_def encoded_bytes_def)

text \<open>The three decodings undo the three encodings.\<close>

lemma len_cases [consumes 2, case_names one two three]:
  fixes n :: int
  assumes "0 \<le> n" "n \<le> 918744"
  obtains "n \<le> 192"
    | a b where "192 < n" "n \<le> 12480" "n = 193 + a * 256 + b" "0 \<le> a" "a \<le> 47" "0 \<le> b" "b < 256"
    | a b c where "12480 < n" "n = 12481 + a * 65536 + b * 256 + c" "0 \<le> a" "a \<le> 13" "0 \<le> b" "b < 256" "0 \<le> c" "c < 256"
proof -
  consider "n \<le> 192" | "192 < n" "n \<le> 12480" | "12480 < n" by linarith
  then show thesis
  proof cases
    case 1
    then show ?thesis by (rule that(1))
  next
    case 2
    then show ?thesis by (intro that(2) [of "(n - 193) div 256" "(n - 193) mod 256"]) auto
  next
    case 3
    let ?m = "n - 12481"
    have "?m div 65536 = ?m div 256 div 256" by (simp flip: zdiv_zmult2_eq)
    moreover have "?m = ?m div 256 * 256 + ?m mod 256" "?m div 256 = ?m div 256 div 256 * 256 + ?m div 256 mod 256"
      by simp_all
    ultimately have "n = 12481 + ?m div 65536 * 65536 + ?m div 256 mod 256 * 256 + ?m mod 256"
      by linarith
    with 3 assms show ?thesis
      by (intro that(3) [of "?m div 65536" "?m div 256 mod 256" "?m mod 256"]) auto
  qed
qed

lemma len_bytes_two: "0 \<le> a \<Longrightarrow> a \<le> 47 \<Longrightarrow> 0 \<le> b \<Longrightarrow> b < 256 \<Longrightarrow> len_bytes (193 + a * 256 + b) = [byte_of (193 + a), byte_of b]"
  by (simp add: len_bytes_def)

lemma len_bytes_three: "0 \<le> a \<Longrightarrow> a \<le> 13 \<Longrightarrow> 0 \<le> b \<Longrightarrow> b < 256 \<Longrightarrow> 0 \<le> c \<Longrightarrow> c < 256 \<Longrightarrow>
    len_bytes (12481 + a * 65536 + b * 256 + c) = [byte_of (241 + a), byte_of b, byte_of c]"
proof -
  assume r: "0 \<le> a" "a \<le> 13" "0 \<le> b" "b < 256" "0 \<le> c" "c < 256"
  let ?m = "a * 65536 + b * 256 + c"
  have m: "?m = c + (b + a * 256) * 256" by simp
  have d: "?m div 256 = b + a * 256" using r unfolding m by (simp add: div_add1_eq)
  moreover have "?m mod 256 = c" unfolding m mod_mult_self1 using r by simp
  moreover have "?m div 65536 = ?m div 256 div 256" by (simp flip: zdiv_zmult2_eq)
  then have "?m div 65536 = a" using r unfolding d(1) by simp
  ultimately have d: "?m div 256 mod 256 = b" "?m mod 256 = c" "?m div 65536 = a" using r by simp_all
  have "12481 + a * 65536 + b * 256 + c - 12481 = ?m" by simp
  moreover have "\<not> 12481 + a * 65536 + b * 256 + c \<le> 12480" "\<not> 12481 + a * 65536 + b * 256 + c \<le> 192" using r by linarith+
  ultimately show ?thesis unfolding len_bytes_def by (simp only: d if_False)
qed

lemma vl_length_bytes:
  assumes "0 \<le> n" "n \<le> 918744"
  shows "vl_length (length s) (s @ len_bytes n @ bs) =
    Inr (Some (n, length (len_bytes n), length s + length (len_bytes n)))"
proof -
  have at: "get8 (length s + i) (s @ v @ bs) = Some (uint (v ! i))" if "i < length v" for i v
    using that get8_append [of s i "v @ bs"] by (simp add: nth_append)
  from assms show ?thesis
  proof (cases rule: len_cases)
    case one
    with assms at [of 0 "len_bytes n"] show ?thesis
      by (simp add: vl_length_def len_bytes_def decodeLengthLength_def decodeVLLength1_def)
  next
    case (two a b)
    then have "len_bytes n = [byte_of (193 + a), byte_of b]" by (simp add: len_bytes_two)
    with two at [of 0 "len_bytes n"] at [of 1 "len_bytes n"] show ?thesis
      by (simp add: vl_length_def decodeLengthLength_def decodeVLLength2_def)
  next
    case (three a b c)
    then have "len_bytes n = [byte_of (241 + a), byte_of b, byte_of c]" by (simp add: len_bytes_three)
    with three at [of 0 "len_bytes n"] at [of 1 "len_bytes n"] at [of 2 "len_bytes n"] show ?thesis
      by (simp add: vl_length_def decodeLengthLength_def decodeVLLength3_def)
  qed
qed

lemma getVL_bytes:
  assumes "length v \<le> 918744"
  shows "getVL (length s) (s @ len_bytes (int (length v)) @ v @ bs) =
    Inr (Some (v, int (length (len_bytes (int (length v))) + length v)))"
  using vl_length_bytes [of "int (length v)" s "v @ bs"] assms by (simp add: getVL_def getRaw_def)

lemma si_getVLDataLength_rest:
  assumes it: "si_ok it" "si_rest it = len_bytes n @ bs" and n: "0 \<le> n" "n \<le> 918744"
  shows "si_getVLDataLength it = Inr (n, si_advance (length (len_bytes n)) it)"
proof -
  have step: "si_get8 (si_advance i it) = Inr (len_bytes n ! i, si_advance (Suc i) it)" if "i < length (len_bytes n)" for i
    using that it si_get8_rest [of "si_advance i it" "len_bytes n ! i" "drop (Suc i) (si_rest it)"]
    by (simp add: si_advance_ok si_advance_advance Cons_nth_drop_Suc [symmetric] nth_append)
  note s0 = step [of 0] and s1 = step [of 1] and s2 = step [of 2]
  from n show ?thesis
  proof (cases rule: len_cases)
    case one
    with s0 n show ?thesis
      by (simp add: si_getVLDataLength_def len_bytes_def decodeLengthLength_def decodeVLLength1_def)
  next
    case (two a b)
    then have "len_bytes n = [byte_of (193 + a), byte_of b]" by (simp add: len_bytes_two)
    with two s0 s1 show ?thesis
      by (simp add: si_getVLDataLength_def decodeLengthLength_def decodeVLLength2_def numeral_2_eq_2)
  next
    case (three a b c)
    then have "len_bytes n = [byte_of (241 + a), byte_of b, byte_of c]" by (simp add: len_bytes_three)
    with three s0 s1 s2 show ?thesis
      by (simp add: si_getVLDataLength_def decodeLengthLength_def decodeVLLength3_def numeral_2_eq_2 numeral_3_eq_3)
  qed
qed

lemma si_getVL_rest:
  assumes it: "si_ok it" "si_rest it = len_bytes (int (length v)) @ v @ bs" and v: "length v \<le> 918744"
  shows "si_getVL it = Inr (v, si_advance (length (len_bytes (int (length v))) + length v) it)"
  using si_getVLDataLength_rest [OF it] v si_getRaw_rest [of "si_advance (length (len_bytes (int (length v)))) it" v bs] it
  by (simp add: si_getVL_def si_advance_ok si_advance_advance)

section \<open>Codecs\<close>

text \<open>
  A codec: the bytes of a value and a reader that, given the kind of the value, takes it off the
  iterator. Sequences of values are read back by the sequence of their kinds.
\<close>

fun read_seq :: "('k \<Rightarrow> SerialIter \<Rightarrow> (led_error, 'a \<times> SerialIter) result) \<Rightarrow> 'k list \<Rightarrow> SerialIter \<Rightarrow>
    (led_error, 'a list \<times> SerialIter) result" where
  "read_seq get [] it = Inr ([], it)"
| "read_seq get (k # ks) it =
     bind_r (get k it) (\<lambda>(x, it1). bind_r (read_seq get ks it1) (\<lambda>(xs, it2). Inr (x # xs, it2)))"

locale codec =
  fixes valid :: "'a \<Rightarrow> bool"
    and kind :: "'a \<Rightarrow> 'k"
    and put :: "'a \<Rightarrow> Blob"
    and get :: "'k \<Rightarrow> SerialIter \<Rightarrow> (led_error, 'a \<times> SerialIter) result"
  assumes round: "valid x \<Longrightarrow> si_ok it \<Longrightarrow> si_rest it = put x @ bs \<Longrightarrow>
    get (kind x) it = Inr (x, si_advance (length (put x)) it)"
begin

lemma read_back:
  "\<forall>x \<in> set xs. valid x \<Longrightarrow> si_ok it \<Longrightarrow> si_rest it = concat (map put xs) @ bs \<Longrightarrow>
     read_seq get (map kind xs) it = Inr (xs, si_advance (length (concat (map put xs))) it)"
proof (induction xs arbitrary: it)
  case (Cons x xs)
  let ?it = "si_advance (length (put x)) it"
  have "get (kind x) it = Inr (x, ?it)" using Cons.prems by (intro round) auto
  moreover have "si_ok ?it" "si_rest ?it = concat (map put xs) @ bs" using Cons.prems by (auto intro: si_advance_ok)
  ultimately show ?case using Cons by (simp add: si_advance_advance)
qed simp

lemma read_whole:
  assumes "\<forall>x \<in> set xs. valid x"
  shows "\<exists>it. read_seq get (map kind xs) (SerialIter_of (concat (map put xs))) = Inr (xs, it) \<and> si_empty it"
proof (intro exI conjI)
  let ?it = "SerialIter_of (concat (map put xs))"
  show "read_seq get (map kind xs) ?it = Inr (xs, si_advance (length (concat (map put xs))) ?it)"
    using assms by (intro read_back [where bs = "[]"]) simp_all
  show "si_empty (si_advance (length (concat (map put xs))) ?it)"
    by (simp add: si_empty_def si_advance_def SerialIter_of_def)
qed

text \<open>What is read is determined by the bytes, so different sequences of one shape have different bytes.\<close>

lemma put_inj:
  assumes "\<forall>x \<in> set xs. valid x" "\<forall>x \<in> set ys. valid x" "map kind xs = map kind ys" "concat (map put xs) = concat (map put ys)"
  shows "xs = ys"
proof -
  obtain it where "read_seq get (map kind xs) (SerialIter_of (concat (map put xs))) = Inr (xs, it)"
    using read_whole [OF assms(1)] by blast
  moreover obtain it' where "read_seq get (map kind ys) (SerialIter_of (concat (map put ys))) = Inr (ys, it')"
    using read_whole [OF assms(2)] by blast
  ultimately show ?thesis unfolding assms(3,4) by simp
qed

end

text \<open>The fields that the formats are made of.\<close>

datatype ser_field = F8 byte | F16 "16 word" | F32 "32 word" | F64 "64 word" | F128 "128 word" | F160 "160 word"
  | F256 uint256 | FID int int | FVL Blob

datatype ser_kind = K8 | K16 | K32 | K64 | K128 | K160 | K256 | KID | KVL

fun field_kind :: "ser_field \<Rightarrow> ser_kind" where
  "field_kind (F8 _) = K8" | "field_kind (F16 _) = K16" | "field_kind (F32 _) = K32" | "field_kind (F64 _) = K64"
| "field_kind (F128 _) = K128" | "field_kind (F160 _) = K160" | "field_kind (F256 _) = K256"
| "field_kind (FID _ _) = KID" | "field_kind (FVL _) = KVL"

text \<open>What the writer accepts: identifiers from 1 to 255 and blobs of at most 918744 bytes.\<close>

fun field_valid :: "ser_field \<Rightarrow> bool" where
  "field_valid (FID type name) = (0 < type \<and> type < 256 \<and> 0 < name \<and> name < 256)"
| "field_valid (FVL v) = (length v \<le> 918744)"
| "field_valid _ = True"

fun field_put :: "ser_field \<Rightarrow> Blob" where
  "field_put (F8 b) = [b]" | "field_put (F16 i) = be_bytes 2 i" | "field_put (F32 i) = be_bytes 4 i"
| "field_put (F64 i) = be_bytes 8 i" | "field_put (F128 i) = be_bytes 16 i" | "field_put (F160 i) = be_bytes 20 i"
| "field_put (F256 i) = be_bytes 32 i"
| "field_put (FID type name) = field_id_bytes type name"
| "field_put (FVL v) = len_bytes (int (length v)) @ v"

text \<open>Writing through the serializer, reading through the iterator.\<close>

fun write_field :: "ser_field \<Rightarrow> Serializer \<Rightarrow> (led_error, Serializer) result" where
  "write_field (F8 b) s = Inr (snd (add8 b s))"
| "write_field (F16 i) s = Inr (snd (add16 i s))"
| "write_field (F32 i) s = Inr (snd (add32 i s))"
| "write_field (F64 i) s = Inr (snd (add64 i s))"
| "write_field (F128 i) s = Inr (snd (add128 i s))"
| "write_field (F160 i) s = Inr (snd (add160 i s))"
| "write_field (F256 i) s = Inr (snd (add256 i s))"
| "write_field (FID type name) s = bind_r (addFieldID type name s) (\<lambda>r. Inr (snd r))"
| "write_field (FVL v) s = bind_r (addVL v s) (\<lambda>r. Inr (snd r))"

fun read_field :: "ser_kind \<Rightarrow> SerialIter \<Rightarrow> (led_error, ser_field \<times> SerialIter) result" where
  "read_field K8 it = bind_r (si_get8 it) (\<lambda>(b, it1). Inr (F8 b, it1))"
| "read_field K16 it = bind_r (si_get16 it) (\<lambda>(i, it1). Inr (F16 i, it1))"
| "read_field K32 it = bind_r (si_get32 it) (\<lambda>(i, it1). Inr (F32 i, it1))"
| "read_field K64 it = bind_r (si_get64 it) (\<lambda>(i, it1). Inr (F64 i, it1))"
| "read_field K128 it = bind_r (si_getBitString 16 it) (\<lambda>(i, it1). Inr (F128 i, it1))"
| "read_field K160 it = bind_r (si_getBitString 20 it) (\<lambda>(i, it1). Inr (F160 i, it1))"
| "read_field K256 it = bind_r (si_getBitString 32 it) (\<lambda>(i, it1). Inr (F256 i, it1))"
| "read_field KID it = bind_r (si_getFieldID it) (\<lambda>((type, name), it1). Inr (FID type name, it1))"
| "read_field KVL it = bind_r (si_getVL it) (\<lambda>(v, it1). Inr (FVL v, it1))"

lemma write_field_put: "field_valid f \<Longrightarrow> write_field f s = Inr (s @ field_put f)"
  by (cases f) (simp_all add: add8_def add16_bytes add32_bytes add64_bytes add128_def add160_def add256_def
    addFieldID_bytes addVL_bytes)

lemma write_fields_put: "\<forall>f \<in> set fs. field_valid f \<Longrightarrow> fold_r write_field fs s = Inr (s @ concat (map field_put fs))"
  by (induction fs arbitrary: s) (simp_all add: write_field_put)

interpretation fields: codec field_valid field_kind field_put read_field
proof
  fix f it bs
  assume v: "field_valid f" "si_ok it" "si_rest it = field_put f @ bs"
  note bit_string = si_getBitString_rest [OF v(2)] be_word_bytes_all
  show "read_field (field_kind f) it = Inr (f, si_advance (length (field_put f)) it)"
    using v
    by (cases f) (simp_all add: si_get8_rest si_get16_rest si_get32_rest si_get64_rest bit_string
      si_getFieldID_rest si_getVL_rest)
qed

end
