(* ===== verification/SHAMap_Format.thy ===== *)
theory SHAMap_Format
  imports SHAMap Serializer_Spec
begin

text \<open>
  Nodes of the radix tree as the store and the peers see them
  (\<open>src/ripple/shamap/impl/SHAMapTreeNode.cpp\<close>): an inner node keeps the hashes of its sixteen
  children and a mask of the branches in use, a leaf its item; both keep their own hash. A node is
  written in the prefix format, whose digest is the hash of the node, or in the wire format, and parsed
  back by \<open>make\<close>. The digest \<open>sha512Half\<close> is an argument, a function of the bytes hashed.
\<close>

section \<open>Hash prefixes\<close>

definition hash_prefix :: "byte \<Rightarrow> byte \<Rightarrow> byte \<Rightarrow> 32 word" where
  "hash_prefix a b c = push_bit 8 (push_bit 8 (push_bit 8 (ucast a) + ucast b) + ucast c)"

definition HP_transactionID :: "32 word" where
  "HP_transactionID = hash_prefix 0x54 0x58 0x4E"

definition HP_txNode :: "32 word" where
  "HP_txNode = hash_prefix 0x53 0x4E 0x44"

definition HP_leafNode :: "32 word" where
  "HP_leafNode = hash_prefix 0x4D 0x4C 0x4E"

definition HP_innerNode :: "32 word" where
  "HP_innerNode = hash_prefix 0x4D 0x49 0x4E"

section \<open>Nodes and their hashes\<close>

datatype SHANodeFormat = snfPREFIX | snfWIRE | snfHASH

datatype TreeNode =
  TInner (mHashes: "uint256 list") (mIsBranch: "32 word") (mHash: uint256)
| TLeaf (mType: TNType) (mItem: SHAMapItem) (mHash: uint256)

definition tn_isEmptyBranch :: "32 word \<Rightarrow> nat \<Rightarrow> bool" where
  "tn_isEmptyBranch isBranch m = (isBranch AND push_bit m 1 = 0)"

definition tn_getBranchCount :: "32 word \<Rightarrow> nat" where
  "tn_getBranchCount isBranch = length (filter (\<lambda>i. \<not> tn_isEmptyBranch isBranch i) [0..<16])"

definition inner_hash :: "(Blob \<Rightarrow> uint256) \<Rightarrow> uint256 list \<Rightarrow> 32 word \<Rightarrow> uint256" where
  "inner_hash sha512Half hashes isBranch =
     (if isBranch \<noteq> 0 then sha512Half (be_bytes 4 HP_innerNode @ concat (map (be_bytes 32) hashes)) else 0)"

definition leaf_hash :: "(Blob \<Rightarrow> uint256) \<Rightarrow> TNType \<Rightarrow> SHAMapItem \<Rightarrow> uint256" where
  "leaf_hash sha512Half ty it = (case ty of
     tnTRANSACTION_NM \<Rightarrow> sha512Half (be_bytes 4 HP_transactionID @ it_data it)
   | tnACCOUNT_STATE \<Rightarrow> sha512Half (be_bytes 4 HP_leafNode @ it_data it @ be_bytes 32 (it_key it))
   | tnTRANSACTION_MD \<Rightarrow> sha512Half (be_bytes 4 HP_txNode @ it_data it @ be_bytes 32 (it_key it)))"

section \<open>Writing\<close>

fun addRaw_compressed :: "uint256 list \<Rightarrow> 32 word \<Rightarrow> nat list \<Rightarrow> Serializer \<Rightarrow> Serializer" where
  "addRaw_compressed hashes isBranch [] s = s"
| "addRaw_compressed hashes isBranch (i # is) s =
     addRaw_compressed hashes isBranch is
       (if \<not> tn_isEmptyBranch isBranch i then snd (add8 (of_nat i) (snd (add256 (hashes ! i) s))) else s)"

definition add_hashes :: "uint256 list \<Rightarrow> Serializer \<Rightarrow> Serializer" where
  "add_hashes hashes s = foldl (\<lambda>s h. snd (add256 h s)) s hashes"

fun tn_addRaw :: "TreeNode \<Rightarrow> SHANodeFormat \<Rightarrow> Serializer \<Rightarrow> (led_error, Serializer) result" where
  "tn_addRaw (TInner hashes isBranch hash) format s =
     (case format of
        snfHASH \<Rightarrow> Inr (snd (add256 hash s))
      | _ \<Rightarrow> bind_r (led_assert (isBranch \<noteq> 0)) (\<lambda>_. Inr (
          if format = snfPREFIX then add_hashes hashes (snd (add32 HP_innerNode s))
          else if tn_getBranchCount isBranch < 12 then snd (add8 3 (addRaw_compressed hashes isBranch [0..<16] s))
          else snd (add8 2 (add_hashes hashes s)))))"
| "tn_addRaw (TLeaf ty it hash) format s =
     (case format of
        snfHASH \<Rightarrow> Inr (snd (add256 hash s))
      | _ \<Rightarrow> Inr (case ty of
          tnACCOUNT_STATE \<Rightarrow>
            if format = snfPREFIX
            then snd (add256 (it_key it) (snd (addRaw (it_data it) (snd (add32 HP_leafNode s)))))
            else snd (add8 1 (snd (add256 (it_key it) (snd (addRaw (it_data it) s)))))
        | tnTRANSACTION_NM \<Rightarrow>
            if format = snfPREFIX then snd (addRaw (it_data it) (snd (add32 HP_transactionID s)))
            else snd (add8 0 (snd (addRaw (it_data it) s)))
        | tnTRANSACTION_MD \<Rightarrow>
            if format = snfPREFIX
            then snd (add256 (it_key it) (snd (addRaw (it_data it) (snd (add32 HP_txNode s)))))
            else snd (add8 4 (snd (add256 (it_key it) (snd (addRaw (it_data it) s)))))))"

section \<open>Parsing\<close>

text \<open>Constructing a leaf asserts the length of its data; the hash is given or computed.\<close>

definition make_tree_leaf :: "(Blob \<Rightarrow> uint256) \<Rightarrow> TNType \<Rightarrow> SHAMapItem \<Rightarrow> uint256 \<Rightarrow> bool \<Rightarrow> (led_error, TreeNode option) result" where
  "make_tree_leaf sha512Half ty it hash hashValid =
     bind_r (led_assert (12 \<le> length (it_data it))) (\<lambda>_.
       Inr (Some (TLeaf ty it (if hashValid then hash else leaf_hash sha512Half ty it))))"

definition make_tree_inner :: "(Blob \<Rightarrow> uint256) \<Rightarrow> uint256 list \<times> 32 word \<Rightarrow> uint256 \<Rightarrow> bool \<Rightarrow> (led_error, TreeNode option) result" where
  "make_tree_inner sha512Half n hash hashValid =
     Inr (Some (TInner (fst n) (snd n) (if hashValid then hash else inner_hash sha512Half (fst n) (snd n))))"

text \<open>One hash read into the node; \<open>get256\<close> leaves it alone when the buffer is short.\<close>

definition read_hash :: "nat \<Rightarrow> nat \<Rightarrow> Serializer \<Rightarrow> uint256 list \<times> 32 word \<Rightarrow> uint256 list \<times> 32 word" where
  "read_hash pos offset s n =
     (let hashes = (case get256 offset s of None \<Rightarrow> fst n | Some h \<Rightarrow> (fst n)[pos := h])
      in (hashes, if hashes ! pos \<noteq> 0 then snd n OR push_bit pos 1 else snd n))"

fun make_full :: "nat list \<Rightarrow> Serializer \<Rightarrow> uint256 list \<times> 32 word \<Rightarrow> uint256 list \<times> 32 word" where
  "make_full [] s n = n"
| "make_full (i # is) s n = make_full is s (read_hash i (i * 32) s n)"

fun make_compressed :: "nat list \<Rightarrow> Serializer \<Rightarrow> uint256 list \<times> 32 word \<Rightarrow> (led_error, uint256 list \<times> 32 word) result" where
  "make_compressed [] s n = Inr n"
| "make_compressed (i # is) s n =
     (case get8 (32 + i * 33) s of
        None \<Rightarrow> Inl (LThrow ''short CI node'')
      | Some pos \<Rightarrow> if pos < 0 \<or> pos \<ge> 16 then Inl (LThrow ''invalid CI node'')
                     else make_compressed is s (read_hash (nat pos) (i * 33) s n))"

text \<open>A leaf that ends with its key.\<close>

definition split_key :: "string \<Rightarrow> Serializer \<Rightarrow> (led_error, uint256 \<times> Blob) result" where
  "split_key short s =
     (if length s < 32 then Inl (LThrow short)
      else case get256 (length s - 32) s of None \<Rightarrow> Inl LRange | Some u \<Rightarrow> Inr (u, snd (chop 32 s)))"

definition no_hashes :: "uint256 list \<times> 32 word" where
  "no_hashes = (replicate 16 0, 0)"

definition make_wire :: "(Blob \<Rightarrow> uint256) \<Rightarrow> Blob \<Rightarrow> uint256 \<Rightarrow> bool \<Rightarrow> (led_error, TreeNode option) result" where
  "make_wire sha512Half rawNode hash hashValid =
     (if rawNode = [] then Inr None
      else
        let s = butlast rawNode; type = uint (last rawNode); len = length s in
        if type < 0 \<or> type > 4 then Inr None
        else if type = 0 then
          make_tree_leaf sha512Half tnTRANSACTION_NM
            \<lparr>it_key = sha512Half (be_bytes 4 HP_transactionID @ s), it_data = s\<rparr> hash hashValid
        else if type = 1 then
          bind_r (split_key ''short AS node'' s) (\<lambda>(u, data).
            if u = 0 then Inl (LThrow ''invalid AS node'')
            else make_tree_leaf sha512Half tnACCOUNT_STATE \<lparr>it_key = u, it_data = data\<rparr> hash hashValid)
        else if type = 2 then
          (if len \<noteq> 512 then Inl (LThrow ''invalid FI node'')
           else make_tree_inner sha512Half (make_full [0..<16] s no_hashes) hash hashValid)
        else if type = 3 then
          bind_r (make_compressed [0..<len div 33] s no_hashes) (\<lambda>n. make_tree_inner sha512Half n hash hashValid)
        else
          bind_r (split_key ''short TM node'' s) (\<lambda>(u, data).
            if u = 0 then Inl (LThrow ''invalid TM node'')
            else make_tree_leaf sha512Half tnTRANSACTION_MD \<lparr>it_key = u, it_data = data\<rparr> hash hashValid))"

definition make_prefix :: "(Blob \<Rightarrow> uint256) \<Rightarrow> Blob \<Rightarrow> uint256 \<Rightarrow> bool \<Rightarrow> (led_error, TreeNode option) result" where
  "make_prefix sha512Half rawNode hash hashValid =
     (if length rawNode < 4 then Inl (LThrow ''invalid P node'')
      else
        let prefix = be_word (take 4 rawNode); s = drop 4 rawNode in
        if prefix = HP_transactionID then
          make_tree_leaf sha512Half tnTRANSACTION_NM \<lparr>it_key = sha512Half rawNode, it_data = s\<rparr> hash hashValid
        else if prefix = HP_leafNode then
          bind_r (split_key ''short PLN node'' s) (\<lambda>(u, data).
            if u = 0 then Inl (LThrow ''invalid PLN node'')
            else make_tree_leaf sha512Half tnACCOUNT_STATE \<lparr>it_key = u, it_data = data\<rparr> hash hashValid)
        else if prefix = HP_innerNode then
          (if length s \<noteq> 512 then Inl (LThrow ''invalid PIN node'')
           else make_tree_inner sha512Half (make_full [0..<16] s no_hashes) hash hashValid)
        else if prefix = HP_txNode then
          bind_r (split_key ''short TXN node'' s) (\<lambda>(txID, data).
            make_tree_leaf sha512Half tnTRANSACTION_MD \<lparr>it_key = txID, it_data = data\<rparr> hash hashValid)
        else Inl (LThrow ''invalid node prefix''))"

definition tn_make :: "(Blob \<Rightarrow> uint256) \<Rightarrow> Blob \<Rightarrow> SHANodeFormat \<Rightarrow> uint256 \<Rightarrow> bool \<Rightarrow> (led_error, TreeNode option) result" where
  "tn_make sha512Half rawNode format hash hashValid = (case format of
     snfWIRE \<Rightarrow> make_wire sha512Half rawNode hash hashValid
   | snfPREFIX \<Rightarrow> make_prefix sha512Half rawNode hash hashValid
   | snfHASH \<Rightarrow> Inl LAssert)"

section \<open>The branch mask\<close>

lemma isEmptyBranch_bit: "m < 32 \<Longrightarrow> tn_isEmptyBranch br m \<longleftrightarrow> \<not> bit br m"
proof
  assume m: "m < 32" and "tn_isEmptyBranch br m"
  then have "bit (br AND push_bit m 1) m = bit (0 :: 32 word) m" by (simp add: tn_isEmptyBranch_def)
  then show "\<not> bit br m" using m by (simp add: bit_simps)
next
  assume "m < 32" "\<not> bit br m"
  then show "tn_isEmptyBranch br m"
    unfolding tn_isEmptyBranch_def by (intro bit_word_eqI) (auto simp: bit_simps)
qed

text \<open>A well-formed node: the mask marks the hashes that are not zero.\<close>

definition mask_ok :: "uint256 list \<Rightarrow> 32 word \<Rightarrow> bool" where
  "mask_ok hashes br = (length hashes = 16 \<and> (\<forall>i < 32. bit br i \<longleftrightarrow> i < 16 \<and> hashes ! i \<noteq> 0))"

definition tn_ok :: "(Blob \<Rightarrow> uint256) \<Rightarrow> TreeNode \<Rightarrow> bool" where
  "tn_ok sha n = (case n of
     TInner hashes br h \<Rightarrow> mask_ok hashes br \<and> br \<noteq> 0 \<and> h = inner_hash sha hashes br
   | TLeaf ty it h \<Rightarrow> 12 \<le> length (it_data it) \<and> h = leaf_hash sha ty it \<and>
       (if ty = tnTRANSACTION_NM then it_key it = sha (be_bytes 4 HP_transactionID @ it_data it) else it_key it \<noteq> 0))"

text \<open>Reading hash after hash rebuilds the table up to a position.\<close>

definition table_upto :: "uint256 list \<Rightarrow> 32 word \<Rightarrow> nat \<Rightarrow> uint256 list \<times> 32 word" where
  "table_upto hashes br n = (take n hashes @ replicate (16 - n) 0, take_bit n br)"

lemma table_upto_0: "table_upto hashes br 0 = no_hashes"
  by (simp add: table_upto_def no_hashes_def)

lemma table_upto_16: "mask_ok hashes br \<Longrightarrow> table_upto hashes br 16 = (hashes, br)"
proof -
  assume "mask_ok hashes br"
  then have "take_bit 16 br = br" "length hashes = 16" by (auto simp: mask_ok_def bit_simps intro!: bit_word_eqI)
  then show ?thesis by (simp add: table_upto_def)
qed

lemma take_bit_Suc_or: "take_bit (Suc n) br = (if bit br n then take_bit n br OR push_bit n 1 else take_bit n br)"
  for br :: "32 word"
  by (auto simp: bit_simps less_Suc_eq intro!: bit_word_eqI)

lemma list_table_update:
  "length hashes = 16 \<Longrightarrow> n < 16 \<Longrightarrow> (take n hashes @ replicate (16 - n) 0)[n := hashes ! n] = take (Suc n) hashes @ replicate (16 - Suc n) 0"
  by (simp add: list_update_append take_Suc_conv_app_nth Suc_diff_Suc [symmetric])

lemma read_hash_table:
  assumes "mask_ok hashes br" "n < 16" "get256 offset s = Some (hashes ! n)"
  shows "read_hash n offset s (table_upto hashes br n) = table_upto hashes br (Suc n)"
  using assms list_table_update [of hashes n] take_bit_Suc_or [of n br]
  by (auto simp: read_hash_def table_upto_def mask_ok_def nth_append Let_def)

lemma table_upto_skip:
  assumes "mask_ok hashes br" "n < 16" "\<not> bit br n"
  shows "table_upto hashes br (Suc n) = table_upto hashes br n"
proof -
  have "hashes ! n = 0" "length hashes = 16" using assms by (auto simp: mask_ok_def)
  with assms show ?thesis
    by (simp add: table_upto_def take_bit_Suc_or take_Suc_conv_app_nth Suc_diff_Suc [symmetric])
qed

end
