(* ===== verification/SHAMap_Roundtrip.thy ===== *)
theory SHAMap_Roundtrip
  imports SHAMap_Format
begin

text \<open>
  What is written of a node is parsed back to the same node, in both formats, and the digest of the
  prefix format is the hash of the node.
\<close>

section \<open>Tables of hashes\<close>

lemma add_hashes_bytes: "add_hashes hashes s = s @ concat (map (be_bytes 32) hashes)"
  unfolding add_hashes_def by (induction hashes arbitrary: s) (simp_all add: add256_def)

lemma length_hashes: "length (concat (map (be_bytes 32) hashes)) = 32 * length hashes"
  by (induction hashes) simp_all

lemma get256_append: "offset = length a \<Longrightarrow> get256 offset (a @ be_bytes 32 h @ b) = Some h"
  by (simp add: get256_def be_word_bytes_all)

lemma get256_table: "i < length hashes \<Longrightarrow> get256 (i * 32) (concat (map (be_bytes 32) hashes)) = Some (hashes ! i)"
proof -
  assume i: "i < length hashes"
  have "concat (map (be_bytes 32) hashes) = concat (map (be_bytes 32) (take i hashes)) @ be_bytes 32 (hashes ! i) @
      concat (map (be_bytes 32) (drop (Suc i) hashes))"
    by (subst id_take_nth_drop [OF i]) simp
  with i show ?thesis by (simp add: get256_append length_hashes min_def)
qed

lemma make_full_table:
  assumes ok: "mask_ok hashes br" and n: "n \<le> 16"
  shows "make_full [n..<16] (concat (map (be_bytes 32) hashes)) (table_upto hashes br n) = (hashes, br)"
  using n
proof (induction "16 - n" arbitrary: n)
  case 0
  then show ?case using table_upto_16 [OF ok] by simp
next
  case (Suc m)
  then have n: "n < 16" and up: "[n..<16] = n # [Suc n..<16]" by (simp_all add: upt_conv_Cons)
  have "get256 (n * 32) (concat (map (be_bytes 32) hashes)) = Some (hashes ! n)"
    using ok n by (intro get256_table) (simp add: mask_ok_def)
  with Suc n ok show ?case by (simp add: up read_hash_table)
qed

lemma make_full_ok: "mask_ok hashes br \<Longrightarrow> make_full [0..<16] (concat (map (be_bytes 32) hashes)) no_hashes = (hashes, br)"
  using make_full_table [of hashes br 0] by (simp add: table_upto_0)

definition ci_entry :: "uint256 list \<Rightarrow> nat \<Rightarrow> Blob" where
  "ci_entry hashes i = be_bytes 32 (hashes ! i) @ [of_nat i]"

lemma length_ci_entries: "length (concat (map (ci_entry hashes) is)) = 33 * length is"
  by (induction "is") (simp_all add: ci_entry_def)

lemma addRaw_compressed_bytes:
  "\<forall>i \<in> set is. i < 16 \<Longrightarrow> addRaw_compressed hashes br is s = s @ concat (map (ci_entry hashes) (filter (bit br) is))"
  by (induction hashes br "is" s rule: addRaw_compressed.induct)
    (simp_all add: isEmptyBranch_bit add8_def add256_def ci_entry_def)

lemma make_compressed_table:
  assumes ok: "mask_ok hashes br" and n: "n \<le> 16"
    and s: "s = concat (map (ci_entry hashes) (A @ filter (bit br) [n..<16]))"
    and len: "k = length A" "l = length (A @ filter (bit br) [n..<16])"
  shows "make_compressed [k..<l] s (table_upto hashes br n) = Inr (hashes, br)"
  using n s len
proof (induction "16 - n" arbitrary: n A k)
  case 0
  then show ?case using table_upto_16 [OF ok] by simp
next
  case (Suc m)
  then have n: "n < 16" "Suc n \<le> 16" "m = 16 - Suc n" and up: "[n..<16] = n # [Suc n..<16]" by (simp_all add: upt_conv_Cons)
  show ?case
  proof (cases "bit br n")
    case False
    with Suc.hyps(1) [OF n(3,2), of A k] Suc.prems n(1) ok show ?thesis by (simp add: up table_upto_skip)
  next
    case True
    let ?B = "concat (map (ci_entry hashes) A)" and ?R = "concat (map (ci_entry hashes) (filter (bit br) [Suc n..<16]))"
    have s: "s = (?B @ be_bytes 32 (hashes ! n)) @ [of_nat n] @ ?R" "s = ?B @ be_bytes 32 (hashes ! n) @ [of_nat n] @ ?R"
      using Suc.prems(2) True by (simp_all add: up ci_entry_def)
    have B: "length ?B = k * 33" using length_ci_entries [of hashes A] Suc.prems(3) by simp
    have nu: "uint (of_nat n :: byte) = int n" using n(1) by (simp add: uint_nat unat_of_nat)
    have "get8 (32 + k * 33) s = Some (int n)"
      using get8_append [of "?B @ be_bytes 32 (hashes ! n)" 0 "[of_nat n] @ ?R"] B nu
      unfolding s(1) by (simp add: add.commute)
    moreover have "get256 (k * 33) s = Some (hashes ! n)" unfolding s(2) using B by (intro get256_append) simp
    moreover have "k < l" using Suc.prems(3,4) True by (simp add: up)
    moreover have "make_compressed [Suc k..<l] s (table_upto hashes br (Suc n)) = Inr (hashes, br)"
      using Suc.prems True by (intro Suc.hyps(1) [OF n(3,2), of "A @ [n]"]) (simp_all add: up)
    ultimately show ?thesis using n(1) ok by (simp only: upt_conv_Cons [of k l]) (simp add: read_hash_table)
  qed
qed

lemma make_compressed_ok:
  assumes "mask_ok hashes br"
  shows "make_compressed [0..<length (concat (map (ci_entry hashes) (filter (bit br) [0..<16]))) div 33]
    (concat (map (ci_entry hashes) (filter (bit br) [0..<16]))) no_hashes = Inr (hashes, br)"
  unfolding length_ci_entries table_upto_0 [of hashes br, symmetric]
  by (rule make_compressed_table [OF assms, of 0 _ "[]"]) simp_all

section \<open>Leaves\<close>

lemma split_key_append: "split_key e (data @ be_bytes 32 u) = Inr (u, data)"
  using get256_append [of "length data" data u "[]"] by (simp add: split_key_def chop_def)

lemma prefixes_differ:
  "HP_leafNode \<noteq> HP_transactionID" "HP_innerNode \<noteq> HP_transactionID" "HP_innerNode \<noteq> HP_leafNode"
  "HP_txNode \<noteq> HP_transactionID" "HP_txNode \<noteq> HP_leafNode" "HP_txNode \<noteq> HP_innerNode"
  by (simp_all add: HP_leafNode_def HP_transactionID_def HP_innerNode_def HP_txNode_def hash_prefix_def)

section \<open>Round trips\<close>

lemmas write_defs = add8_def add32_bytes add256_def addRaw_def add_hashes_bytes
lemmas parse_defs = butlast_append make_tree_leaf_def make_tree_inner_def split_key_append be_word_bytes_all

lemma leaf_roundtrip:
  assumes "tn_ok sha (TLeaf ty it h)" "format \<noteq> snfHASH"
  shows "bind_r (tn_addRaw (TLeaf ty it h) format []) (\<lambda>raw. tn_make sha raw format hash valid) =
    Inr (Some (TLeaf ty it (if valid then hash else h)))"
  using assms
  by (cases ty; cases format; cases it)
    (simp_all add: tn_ok_def tn_make_def make_wire_def make_prefix_def write_defs parse_defs prefixes_differ Let_def)

lemma inner_roundtrip:
  assumes "tn_ok sha (TInner hashes br h)" "format \<noteq> snfHASH"
  shows "bind_r (tn_addRaw (TInner hashes br h) format []) (\<lambda>raw. tn_make sha raw format hash valid) =
    Inr (Some (TInner hashes br (if valid then hash else h)))"
proof -
  have m: "mask_ok hashes br" "br \<noteq> 0" "h = inner_hash sha hashes br" "length hashes = 16"
    using assms(1) by (simp_all add: tn_ok_def mask_ok_def)
  have len: "length (concat (map (be_bytes 32) hashes)) = 512" by (simp add: length_hashes m(4) del: length_concat)
  have comp: "addRaw_compressed hashes br [0..<16] [] = concat (map (ci_entry hashes) (filter (bit br) [0..<16]))"
    using addRaw_compressed_bytes [of "[0..<16]" hashes br "[]"] by simp
  show ?thesis
  proof (cases format)
    case snfPREFIX
    with m len show ?thesis
      by (simp add: tn_make_def make_prefix_def write_defs parse_defs prefixes_differ make_full_ok del: length_concat)
  next
    case snfWIRE
    with m len show ?thesis
      by (simp add: tn_make_def make_wire_def write_defs parse_defs comp make_full_ok make_compressed_ok Let_def del: length_concat)
  qed (use assms in simp)
qed

text \<open>The prefix format hashes to the hash of the node.\<close>

lemma prefix_hash:
  assumes "tn_ok sha n"
  shows "\<exists>raw. tn_addRaw n snfPREFIX [] = Inr raw \<and> sha raw = mHash n"
proof (cases n)
  case (TInner hashes br h)
  with assms show ?thesis by (simp add: tn_ok_def write_defs inner_hash_def)
next
  case (TLeaf ty it h)
  with assms show ?thesis by (cases ty) (simp_all add: tn_ok_def write_defs leaf_hash_def)
qed

end
