(* ===== verification/SHAMap_Hash.thy ===== *)
theory SHAMap_Hash
  imports SHAMap_Canon SHAMap_Roundtrip
begin

text \<open>
  The hash of a tree (\<open>updateHashDeep\<close> from the leaves up, \<open>getHash\<close> of the root). Equal
  contents give equal hashes, whatever the history; and unless the digest collides on the bytes of the
  nodes of the two trees, equal hashes give equal trees.
\<close>

section \<open>The hash of a tree\<close>

definition branch_mask :: "SHAMapNode option list \<Rightarrow> 32 word" where
  "branch_mask cs = foldl (\<lambda>br i. if cs ! i \<noteq> None then br OR push_bit i 1 else br) 0 [0..<length cs]"

fun node_hash :: "(Blob \<Rightarrow> uint256) \<Rightarrow> SHAMapNode \<Rightarrow> uint256" where
  "node_hash sha (Leaf ty it) = leaf_hash sha ty it"
| "node_hash sha (Inner cs) =
     inner_hash sha (map (\<lambda>c. case c of None \<Rightarrow> 0 | Some n \<Rightarrow> node_hash sha n) cs) (branch_mask cs)"

definition child_hash :: "(Blob \<Rightarrow> uint256) \<Rightarrow> SHAMapNode option \<Rightarrow> uint256" where
  "child_hash sha c = (case c of None \<Rightarrow> 0 | Some n \<Rightarrow> node_hash sha n)"

definition getHash :: "(Blob \<Rightarrow> uint256) \<Rightarrow> SHAMap \<Rightarrow> uint256" where
  "getHash sha m = node_hash sha (sm_root m)"

lemma node_hash_Inner: "node_hash sha (Inner cs) = inner_hash sha (map (child_hash sha) cs) (branch_mask cs)"
  by (simp add: child_hash_def [abs_def])

declare node_hash.simps(2) [simp del]

lemma branch_mask_bit: "length cs \<le> 32 \<Longrightarrow> i < 32 \<Longrightarrow> bit (branch_mask cs) i \<longleftrightarrow> i < length cs \<and> cs ! i \<noteq> None"
proof -
  assume len: "length cs \<le> 32" and i: "i < 32"
  have "n \<le> 32 \<Longrightarrow> bit (foldl (\<lambda>br i. if cs ! i \<noteq> None then br OR push_bit i 1 else br) (0 :: 32 word) [0..<n]) i \<longleftrightarrow>
      i < n \<and> cs ! i \<noteq> None" for n
    by (induction n) (auto simp: bit_simps i less_Suc_eq)
  with len show ?thesis by (simp add: branch_mask_def)
qed

lemma branch_mask_zero:
  assumes "length cs = 16"
  shows "branch_mask cs = 0 \<longleftrightarrow> (\<forall>i < 16. cs ! i = None)"
proof
  assume "branch_mask cs = 0"
  then have "\<not> bit (branch_mask cs) i" for i by simp
  with branch_mask_bit [of cs] assms show "\<forall>i < 16. cs ! i = None" by auto
next
  assume "\<forall>i < 16. cs ! i = None"
  with branch_mask_bit [of cs] assms show "branch_mask cs = 0" by (intro bit_word_eqI) auto
qed

section \<open>The bytes hashed\<close>

text \<open>The prefix format of a node, and that of every node below.\<close>

fun node_blob :: "(Blob \<Rightarrow> uint256) \<Rightarrow> SHAMapNode \<Rightarrow> Blob" where
  "node_blob sha (Leaf ty it) = (case ty of
     tnTRANSACTION_NM \<Rightarrow> be_bytes 4 HP_transactionID @ it_data it
   | tnACCOUNT_STATE \<Rightarrow> be_bytes 4 HP_leafNode @ it_data it @ be_bytes 32 (it_key it)
   | tnTRANSACTION_MD \<Rightarrow> be_bytes 4 HP_txNode @ it_data it @ be_bytes 32 (it_key it))"
| "node_blob sha (Inner cs) = be_bytes 4 HP_innerNode @ concat (map (be_bytes 32) (map (child_hash sha) cs))"

fun hashed :: "(Blob \<Rightarrow> uint256) \<Rightarrow> SHAMapNode \<Rightarrow> Blob list" where
  "hashed sha (Leaf ty it) = [node_blob sha (Leaf ty it)]"
| "hashed sha (Inner cs) = node_blob sha (Inner cs) # concat (map (hashed sha) (branches cs))"

lemma hashed_child: "Some c \<in> set cs \<Longrightarrow> set (hashed sha c) \<subseteq> set (hashed sha (Inner cs))"
  by (auto simp: mem_branches)

lemma node_blob_hashed: "node_blob sha n \<in> set (hashed sha n)"
  by (cases n) simp_all

lemma node_hash_blob:
  assumes "node_ok ty d p n" "node_items n \<noteq> []"
  shows "node_hash sha n = sha (node_blob sha n)"
proof (cases n)
  case (Leaf ty' it)
  then show ?thesis by (cases ty') (simp_all add: leaf_hash_def)
next
  case (Inner cs)
  with assms have len: "length cs = 16" by (simp add: node_ok_Inner)
  have "branch_mask cs \<noteq> 0"
  proof
    assume "branch_mask cs = 0"
    then have "cs = replicate 16 None" using branch_mask_zero [OF len] len by (simp add: list_eq_iff_nth_eq)
    with assms(2) Inner show False by simp
  qed
  with Inner show ?thesis by (simp add: node_hash_Inner inner_hash_def)
qed

lemma prefix_eq:
  assumes "be_bytes 4 (a :: 32 word) @ x = be_bytes 4 (b :: 32 word) @ y"
  shows "a = b \<and> x = y"
proof -
  have "be_bytes 4 a = be_bytes 4 b" "x = y" using assms by (simp_all add: append_eq_append_conv)
  then have "be_word (be_bytes 4 a) = (be_word (be_bytes 4 b) :: 32 word)" by simp
  with \<open>x = y\<close> show ?thesis by (simp add: be_word_bytes_all)
qed

lemma prefix_bytes_inj [simp]: "be_bytes 4 (a :: 32 word) = be_bytes 4 b \<longleftrightarrow> a = b"
  using prefix_eq [of a "[]" b "[]"] by auto

lemma be_bytes_inj: "be_bytes 32 (a :: uint256) = be_bytes 32 b \<Longrightarrow> a = b"
proof -
  assume "be_bytes 32 a = be_bytes 32 b"
  then have "be_word (be_bytes 32 a) = (be_word (be_bytes 32 b) :: uint256)" by simp
  then show ?thesis by (simp add: be_word_bytes_all)
qed

lemma hashes_inj:
  "concat (map (be_bytes 32) as) = concat (map (be_bytes 32) bs) \<Longrightarrow> length as = length bs \<Longrightarrow> as = (bs :: uint256 list)"
proof (induction as arbitrary: bs)
  case (Cons a as)
  then obtain b bs' where bs: "bs = b # bs'" by (cases bs) auto
  with Cons.prems have "be_bytes 32 a = be_bytes 32 b" "concat (map (be_bytes 32) as) = concat (map (be_bytes 32) bs')"
    by (simp_all add: append_eq_append_conv)
  with Cons bs show ?case by (auto dest: be_bytes_inj)
qed simp

lemma child_hashes_inj:
  "concat (map (be_bytes 32 \<circ> child_hash sha) as) = concat (map (be_bytes 32 \<circ> child_hash sha) bs) \<Longrightarrow>
     length as = length bs \<Longrightarrow> map (child_hash sha) as = map (child_hash sha) bs"
  by (rule hashes_inj) simp_all

text \<open>A transaction without metadata is stored under its identifier, the digest of its bytes.\<close>

definition tx_keys :: "(Blob \<Rightarrow> uint256) \<Rightarrow> SHAMapNode \<Rightarrow> bool" where
  "tx_keys sha n = (\<forall>e \<in> set (node_items n). fst e = sha (be_bytes 4 HP_transactionID @ it_data (snd e)))"

lemma leaf_blob_inj:
  assumes "node_blob sha (Leaf ty it) = node_blob sha (Leaf ty it')"
    "ty = tnTRANSACTION_NM \<longrightarrow> tx_keys sha (Leaf ty it) \<and> tx_keys sha (Leaf ty it')"
  shows "it = it'"
proof -
  have "it_data it = it_data it' \<and> it_key it = it_key it'"
    using assms by (cases ty) (auto simp: tx_keys_def append_eq_append_conv dest!: prefix_eq dest: be_bytes_inj)
  then show ?thesis by (cases it; cases it') simp
qed

text \<open>No collision: the digest separates the bytes hashed in the two trees, and none of them gives zero.\<close>

definition no_collision :: "(Blob \<Rightarrow> uint256) \<Rightarrow> SHAMapNode \<Rightarrow> SHAMapNode \<Rightarrow> bool" where
  "no_collision sha a b = (let L = hashed sha a @ hashed sha b in
     (\<forall>x \<in> set L. sha x \<noteq> 0 \<and> (\<forall>y \<in> set L. sha x = sha y \<longrightarrow> x = y)))"

lemma no_collision_eq:
  "no_collision sha a b \<Longrightarrow> x \<in> set (hashed sha a) \<Longrightarrow> y \<in> set (hashed sha b) \<Longrightarrow> sha x = sha y \<Longrightarrow> x = y"
  by (auto simp: no_collision_def Let_def)

lemma no_collision_sub:
  "no_collision sha a b \<Longrightarrow> set (hashed sha a') \<subseteq> set (hashed sha a) \<Longrightarrow> set (hashed sha b') \<subseteq> set (hashed sha b) \<Longrightarrow>
     no_collision sha a' b'"
  unfolding no_collision_def Let_def set_append by blast

lemma no_collision_nonzero:
  "no_collision sha a b \<Longrightarrow> x \<in> set (hashed sha a) \<union> set (hashed sha b) \<Longrightarrow> sha x \<noteq> 0"
  by (auto simp: no_collision_def Let_def)

lemma tx_keys_child: "tx_keys sha (Inner cs) \<Longrightarrow> Some c \<in> set cs \<Longrightarrow> tx_keys sha c"
  by (fastforce simp: tx_keys_def node_items_Inner)

lemma child_hash_nonzero:
  assumes "node_ok ty d p (Inner cs)" "i < 16" "cs ! i \<noteq> None"
    "no_collision sha (Inner cs) b \<or> no_collision sha b (Inner cs)"
  shows "child_hash sha (cs ! i) \<noteq> 0"
proof -
  from assms(3) obtain c where c: "cs ! i = Some c" by blast
  with assms(1,2) have c': "node_ok ty (Suc d) (16 * p + i) c" "populated c" "Some c \<in> set cs"
    by (auto simp: node_ok_Inner in_set_conv_nth)
  have "node_blob sha c \<in> set (hashed sha (Inner cs))"
    using hashed_child [OF c'(3)] node_blob_hashed [of sha c] by auto
  with assms(4) no_collision_nonzero have "sha (node_blob sha c) \<noteq> 0" by blast
  with node_hash_blob [OF c'(1) populated_nonempty [OF c'(1,2)]] c show ?thesis by (simp add: child_hash_def)
qed

lemma hash_determines:
  "node_ok ty d p a \<Longrightarrow> node_ok ty d p b \<Longrightarrow> node_items a \<noteq> [] \<Longrightarrow> node_items b \<noteq> [] \<Longrightarrow> no_collision sha a b \<Longrightarrow>
     ty = tnTRANSACTION_NM \<longrightarrow> tx_keys sha a \<and> tx_keys sha b \<Longrightarrow> node_hash sha a = node_hash sha b \<Longrightarrow> a = b"
proof (induction arbitrary: b rule: node_ok.induct)
  case (leaf d it p)
  have ok: "node_ok ty d p (Leaf ty it)" using leaf by simp
  have "node_blob sha (Leaf ty it) = node_blob sha b"
    using leaf.prems node_hash_blob [OF ok leaf.prems(2)] node_hash_blob [OF leaf.prems(1,3)]
    by (intro no_collision_eq [OF leaf.prems(4)] node_blob_hashed) metis
  moreover from this have "\<exists>it'. b = Leaf ty it'" using leaf.prems(1) prefixes_differ
    by (cases b; cases ty) (auto dest!: prefix_eq)
  ultimately show ?case using leaf.prems(5) leaf_blob_inj by metis
next
  case (inner d cs p)
  have ok: "node_ok ty d p (Inner cs)" using inner by (auto intro!: node_ok.inner)
  have "node_blob sha (Inner cs) = node_blob sha b"
    using inner.prems node_hash_blob [OF ok inner.prems(2)] node_hash_blob [OF inner.prems(1,3)]
    by (intro no_collision_eq [OF inner.prems(4)] node_blob_hashed) metis
  then have "\<exists>cs'. b = Inner cs' \<and> map (child_hash sha) cs = map (child_hash sha) cs'"
    using inner.prems(1) inner.hyps(2) prefixes_differ
    by (cases b; cases ty) (auto simp: node_ok_Inner dest!: prefix_eq intro!: child_hashes_inj)
  then obtain cs' where b: "b = Inner cs'" and h: "map (child_hash sha) cs = map (child_hash sha) cs'" by blast
  have ok': "node_ok ty d p (Inner cs')" and len: "length cs = 16" "length cs' = 16"
    using inner.prems(1) b inner.hyps(2) by (auto simp: node_ok_Inner)
  have "cs ! i = cs' ! i" if i: "i < 16" for i
  proof -
    have hi: "child_hash sha (cs ! i) = child_hash sha (cs' ! i)" using arg_cong [OF h, of "\<lambda>l. l ! i"] i len by simp
    have sub: "set (hashed sha c) \<subseteq> set (hashed sha (Inner l))" if "l ! i = Some c" "length l = 16" for l c
      using that i by (intro hashed_child) (metis nth_mem)
    have nz: "cs ! i \<noteq> None \<Longrightarrow> child_hash sha (cs ! i) \<noteq> 0" "cs' ! i \<noteq> None \<Longrightarrow> child_hash sha (cs' ! i) \<noteq> 0"
      using child_hash_nonzero [OF ok i] child_hash_nonzero [OF ok' i] inner.prems(4) b by blast+
    show ?thesis
    proof (cases "cs ! i")
      case None
      with hi nz(2) show ?thesis by (cases "cs' ! i") (auto simp: child_hash_def)
    next
      case (Some c)
      with hi nz(1) obtain c' where c': "cs' ! i = Some c'" by (cases "cs' ! i") (auto simp: child_hash_def)
      have oks: "node_ok ty (Suc d) (16 * p + i) c" "populated c" "node_ok ty (Suc d) (16 * p + i) c'" "populated c'"
        using i Some c' ok ok' by (auto simp: node_ok_Inner)
      have tx: "ty = tnTRANSACTION_NM \<longrightarrow> tx_keys sha c \<and> tx_keys sha c'"
        using inner.prems(5) b Some c' i len tx_keys_child nth_mem by metis
      have "c = c'"
        using inner.IH [OF i Some] oks populated_nonempty [OF oks(1,2)] populated_nonempty [OF oks(3,4)] hi Some c' tx
          no_collision_sub [OF inner.prems(4), of c c'] sub [OF Some len(1)] sub [OF c' len(2)] b
        by (simp add: child_hash_def)
      with Some c' show ?thesis by simp
    qed
  qed
  with len b show ?case by (simp add: list_eq_iff_nth_eq)
qed

text \<open>The same for one branch of two inner nodes.\<close>

lemma child_hash_determines:
  assumes ok: "node_ok ty d p (Inner cs)" "node_ok ty d p (Inner cs')" and i: "i < 16"
    and nc: "no_collision sha (Inner cs) (Inner cs')"
    and tx: "ty = tnTRANSACTION_NM \<longrightarrow> tx_keys sha (Inner cs) \<and> tx_keys sha (Inner cs')"
    and hash: "child_hash sha (cs ! i) = child_hash sha (cs' ! i)"
  shows "cs ! i = cs' ! i"
proof (cases "cs ! i"; cases "cs' ! i")
  fix c c'
  assume c: "cs ! i = Some c" "cs' ! i = Some c'"
  have m: "Some c \<in> set cs" "Some c' \<in> set cs'" using c i ok by (auto simp: node_ok_Inner in_set_conv_nth)
  have oks: "node_ok ty (Suc d) (16 * p + i) c" "populated c" "node_ok ty (Suc d) (16 * p + i) c'" "populated c'"
    using i c ok by (auto simp: node_ok_Inner)
  have "c = c'"
    using oks populated_nonempty [OF oks(1,2)] populated_nonempty [OF oks(3,4)]
      no_collision_sub [OF nc hashed_child [OF m(1)] hashed_child [OF m(2)]] hash c tx_keys_child m tx
    by (intro hash_determines [OF oks(1,3)]) (auto simp: child_hash_def)
  with c show ?thesis by simp
qed (use child_hash_nonzero [OF ok(1) i] child_hash_nonzero [OF ok(2) i] nc hash in \<open>auto simp: child_hash_def\<close>)

end
