(* ===== verification/SHAMap_Delta.thy ===== *)
theory SHAMap_Delta
  imports SHAMap_Compare
begin

text \<open>
  The table that the comparison builds is the difference of the two maps: every pass records a sequence
  of differences, and as a multiset the sequence is the difference of the contents.
\<close>

section \<open>The difference of two maps\<close>

definition diff_keys :: "('k \<rightharpoonup> 'v) \<Rightarrow> ('k \<rightharpoonup> 'v) \<Rightarrow> 'k set" where
  "diff_keys A B = {k. A k \<noteq> B k}"

definition dm :: "('k \<rightharpoonup> 'v) \<Rightarrow> ('k \<rightharpoonup> 'v) \<Rightarrow> ('k \<times> 'v option \<times> 'v option) multiset" where
  "dm A B = image_mset (\<lambda>k. (k, A k, B k)) (mset_set (diff_keys A B))"

lemma finite_diff_keys [simp]: "finite (dom A) \<Longrightarrow> finite (dom B) \<Longrightarrow> finite (diff_keys A B)"
  by (rule finite_subset [of _ "dom A \<union> dom B"]) (auto simp: diff_keys_def dom_def)

lemma dm_same [simp]: "dm A A = {#}"
  by (simp add: dm_def diff_keys_def)

lemma dm_split:
  assumes "finite (dom A)" "finite (dom B)"
  shows "dm A B = (if A k = B k then dm (A(k := None)) (B(k := None)) else add_mset (k, A k, B k) (dm (A(k := None)) (B(k := None))))"
proof -
  let ?D = "diff_keys (A(k := None)) (B(k := None))"
  have D: "?D = diff_keys A B - {k}" by (auto simp: diff_keys_def)
  have fin: "finite ?D" unfolding D using assms by simp
  have img: "image_mset (\<lambda>j. (j, A j, B j)) (mset_set ?D) = dm (A(k := None)) (B(k := None))"
    unfolding dm_def using fin by (intro image_mset_cong) (auto simp: D)
  show ?thesis
  proof (cases "A k = B k")
    case True
    then have "diff_keys A B = ?D" by (auto simp: D diff_keys_def)
    with True img show ?thesis by (simp add: dm_def)
  next
    case False
    then have "diff_keys A B = insert k ?D" by (auto simp: D diff_keys_def)
    moreover have "k \<notin> ?D" by (simp add: D)
    ultimately show ?thesis using False img fin by (simp add: dm_def)
  qed
qed

section \<open>Walking one branch\<close>

definition dmo :: "bool \<Rightarrow> (uint256 \<rightharpoonup> SHAMapItem) \<Rightarrow> (uint256 \<rightharpoonup> SHAMapItem) \<Rightarrow> (uint256 \<times> DeltaItem) multiset" where
  "dmo first A B = (if first then dm A B else dm B A)"

definition item_map :: "SHAMapItem option \<Rightarrow> (uint256 \<rightharpoonup> SHAMapItem)" where
  "item_map it = (case it of None \<Rightarrow> Map.empty | Some i \<Rightarrow> [it_key i \<mapsto> i])"

lemma finite_item_map [simp]: "finite (dom (item_map it))"
  by (cases it) (simp_all add: item_map_def)

lemma dmo_split:
  assumes "finite (dom A)" "finite (dom B)"
  shows "dmo first A B = (if A k = B k then dmo first (A(k := None)) (B(k := None))
    else add_mset (k, orient first (A k) (B k)) (dmo first (A(k := None)) (B(k := None))))"
  using dm_split [OF assms, of k] dm_split [OF assms(2,1), of k] by (auto simp: dmo_def orient_def)

definition stack_items :: "SHAMapNode list \<Rightarrow> (uint256 \<times> SHAMapItem) list" where
  "stack_items stack = concat (map node_items stack)"

definition keyed :: "(uint256 \<times> SHAMapItem) list \<Rightarrow> bool" where
  "keyed l = (distinct (map fst l) \<and> (\<forall>e \<in> set l. it_key (snd e) = fst e))"

lemma keyed_rev: "keyed (stack_items (rev cs @ st)) \<longleftrightarrow> keyed (stack_items (cs @ st))"
proof -
  have "mset (concat (map node_items (rev cs))) = mset (concat (map node_items cs))"
    by (induction cs) (simp_all add: union_commute)
  then have "mset (stack_items (rev cs @ st)) = mset (stack_items (cs @ st))" by (simp add: stack_items_def)
  then have "distinct (map fst (stack_items (rev cs @ st))) = distinct (map fst (stack_items (cs @ st)))"
    "set (stack_items (rev cs @ st)) = set (stack_items (cs @ st))"
    by (metis mset_map mset_eq_imp_distinct_iff, metis set_mset_mset)
  then show ?thesis by (simp add: keyed_def)
qed

lemma map_of_rev_stack:
  assumes "keyed (stack_items (cs @ st))"
  shows "map_of (stack_items (rev cs @ st)) = map_of (stack_items (cs @ st))"
proof -
  have "set (stack_items (rev cs @ st)) = set (stack_items (cs @ st))" by (simp add: stack_items_def)
  then show ?thesis using assms keyed_rev [of cs st]
    by (subst map_of_inject_set) (auto simp: keyed_def)
qed

definition walk_spec :: "SHAMapNode list \<Rightarrow> SHAMapItem option \<Rightarrow> bool \<Rightarrow> bool \<Rightarrow> (uint256 \<times> DeltaItem) list \<Rightarrow> bool" where
  "walk_spec stack other first eb ds =
     ((\<forall>st. walkBranch stack other first eb st = emit ds st) \<and>
      mset ds = dmo first (map_of (stack_items stack)) (item_map (if eb then None else other)))"

lemma walk_Nil: "\<exists>ds. walk_spec [] other first eb ds"
proof (cases "eb \<or> other = None")
  case True
  then show ?thesis
    by (intro exI [of _ "[]"]) (auto simp: walk_spec_def stack_items_def item_map_def dmo_def split: option.split)
next
  case False
  then obtain i where i: "other = Some i" "\<not> eb" by auto
  have "dmo first Map.empty (item_map other) = {#(it_key i, orient first None other)#}"
    using dmo_split [of Map.empty "item_map other" first "it_key i"] i by (simp add: item_map_def dmo_def)
  with i show ?thesis
    by (intro exI [of _ "[(it_key i, orient first None other)]"])
      (simp add: walk_spec_def stack_items_def emit_one del: emit.simps)
qed

lemma walk_Leaf:
  assumes k: "keyed (stack_items (Leaf ty item # st))"
    and ds: "walk_spec st other first eb ds" and ds': "walk_spec st other first True ds'"
  shows "\<exists>ds. walk_spec (Leaf ty item # st) other first eb ds"
proof -
  let ?k = "it_key item" and ?M = "map_of (stack_items st)" and ?O = "item_map (if eb then None else other)"
  have items: "stack_items (Leaf ty item # st) = (?k, item) # stack_items st" by (simp add: stack_items_def)
  have fresh: "?M ?k = None" using k unfolding items by (auto simp: keyed_def map_of_eq_None_iff)
  have M: "map_of (stack_items (Leaf ty item # st)) = ?M(?k \<mapsto> item)" by (simp add: items)
  have M0: "?M(?k := None) = ?M" using fresh by (simp add: fun_upd_idem)
  have sp: "dmo first (?M(?k \<mapsto> item)) ?O = (if Some item = ?O ?k then dmo first ?M (?O(?k := None))
      else add_mset (?k, orient first (Some item) (?O ?k)) (dmo first ?M (?O(?k := None))))"
    using dmo_split [of "?M(?k \<mapsto> item)" ?O first ?k] by (simp add: M0)
  show ?thesis
  proof (cases "eb \<or> map_option it_key other \<noteq> Some ?k")
    case True
    then have o: "?O ?k = None" "?O(?k := None) = ?O" by (auto simp: item_map_def split: option.split)
    have "walkBranch (Leaf ty item # st) other first eb s = emit ((?k, orient first (Some item) None) # ds) s" for s
      using True ds by (auto simp: walk_spec_def split: prod.split)
    with ds show ?thesis unfolding walk_spec_def M sp o
      by (intro exI [of _ "(?k, orient first (Some item) None) # ds"]) simp
  next
    case False
    then obtain i where i: "other = Some i" "it_key i = ?k" "\<not> eb" by auto
    then have o: "?O ?k = Some i" "?O(?k := None) = item_map None" by (auto simp: item_map_def)
    have eq: "i = item \<longleftrightarrow> it_data i = it_data item" using i(2) by (cases i; cases item) auto
    let ?ds = "if i = item then ds' else (?k, orient first (Some item) other) # ds'"
    have "walkBranch (Leaf ty item # st) other first eb s = emit ?ds s" for s
      using i eq ds' by (auto simp: walk_spec_def simp del: split_paired_All split: prod.split)
    moreover have "mset ?ds = dmo first (?M(?k \<mapsto> item)) ?O"
      unfolding sp o using ds' i(1) by (simp add: walk_spec_def)
    ultimately show ?thesis unfolding walk_spec_def M by blast
  qed
qed

lemma walkBranch_emit: "keyed (stack_items stack) \<Longrightarrow> \<exists>ds. walk_spec stack other first eb ds"
proof (induction "sum_list (map size stack) + length stack" arbitrary: stack eb rule: less_induct)
  case less
  show ?case
  proof (cases stack)
    case Nil
    then show ?thesis using walk_Nil by simp
  next
    case (Cons n st)
    show ?thesis
    proof (cases n)
      case (Inner cs)
      have items: "stack_items stack = stack_items (branches cs @ st)"
        using Cons Inner by (simp add: stack_items_def node_items.simps)
      have k: "keyed (stack_items (rev (branches cs) @ st))" using less.prems keyed_rev items by simp
      have "sum_list (map size (rev (branches cs) @ st)) + length (rev (branches cs) @ st) < sum_list (map size stack) + length stack"
        using Cons Inner sum_size_branches [of cs] by (simp flip: rev_map)
      from less.hyps [OF this k, of eb] obtain ds where "walk_spec (rev (branches cs) @ st) other first eb ds" by blast
      then have "walk_spec stack other first eb ds"
        using Cons Inner items map_of_rev_stack [of "branches cs" st] less.prems
        by (simp add: walk_spec_def del: split_paired_All)
      then show ?thesis by blast
    next
      case (Leaf ty item)
      have "keyed (stack_items st)" using less.prems Cons by (auto simp: keyed_def stack_items_def)
      moreover have "sum_list (map size st) + length st < sum_list (map size stack) + length stack" using Cons by simp
      ultimately have "\<exists>ds. walk_spec st other first e ds" for e using less.hyps by blast
      with less.prems show ?thesis unfolding Cons Leaf by (metis walk_Leaf)
    qed
  qed
qed

section \<open>Pairs of nodes\<close>

definition pair_delta :: "SHAMapNode \<times> SHAMapNode \<Rightarrow> (uint256 \<times> DeltaItem) multiset" where
  "pair_delta p = dm (map_of (node_items (fst p))) (map_of (node_items (snd p)))"

definition pair_ok :: "TNType \<Rightarrow> (Blob \<Rightarrow> uint256) \<Rightarrow> SHAMapNode \<times> SHAMapNode \<Rightarrow> bool" where
  "pair_ok ty sha p = ((\<exists>d q. node_ok ty d q (fst p) \<and> node_ok ty d q (snd p)) \<and> no_collision sha (fst p) (snd p) \<and>
     (ty = tnTRANSACTION_NM \<longrightarrow> tx_keys sha (fst p) \<and> tx_keys sha (snd p)))"

lemma node_keyed: "node_ok ty d p n \<Longrightarrow> keyed (node_items n)"
  using node_sorted [of ty d p n] node_keys [of ty d p n] by (auto simp: keyed_def om_ok_def strict_sorted_iff)

lemma walk_one:
  assumes "node_ok ty d p n"
  shows "\<exists>ds. (\<forall>st. walkBranch [n] other first (other = None) st = emit ds st) \<and>
    mset ds = dmo first (map_of (node_items n)) (item_map other)"
  using walkBranch_emit [of "[n]" other first "other = None"] node_keyed [OF assms]
  by (auto simp: walk_spec_def stack_items_def simp del: split_paired_All)

text \<open>The difference of two inner nodes is the sum over their branches.\<close>

definition branch_delta :: "SHAMapNode option list \<Rightarrow> SHAMapNode option list \<Rightarrow> nat \<Rightarrow> (uint256 \<times> DeltaItem) multiset" where
  "branch_delta cs cs' i = dm (map_of (opt_items (cs ! i))) (map_of (opt_items (cs' ! i)))"

lemma map_of_branch:
  assumes "node_ok ty d p (Inner cs)" "i < 16"
  shows "map_of (opt_items (cs ! i)) k = (if nib k d = i then map_of (node_items (Inner cs)) k else None)"
proof -
  have "map_of (filter (\<lambda>e. nib (fst e) d = i) l) k = (if nib k d = i then map_of l k else None)" for l :: "(uint256 \<times> SHAMapItem) list"
    by (induction l) auto
  then show ?thesis unfolding branch_items [OF assms] .
qed

lemma inner_delta:
  assumes ok: "node_ok ty d p (Inner cs)" "node_ok ty d p (Inner cs')"
  shows "pair_delta (Inner cs, Inner cs') = (\<Sum>i\<leftarrow>[0..<16]. branch_delta cs cs' i)"
proof -
  let ?A = "map_of (node_items (Inner cs))" and ?B = "map_of (node_items (Inner cs'))"
  let ?D = "diff_keys ?A ?B" and ?f = "\<lambda>k. (k, ?A k, ?B k)"
  have fin: "finite ?D" by (simp add: finite_dom_map_of)
  have b: "branch_delta cs cs' i = image_mset ?f (mset_set {k \<in> ?D. nib k d = i})" if "i < 16" for i
  proof -
    have "diff_keys (map_of (opt_items (cs ! i))) (map_of (opt_items (cs' ! i))) = {k \<in> ?D. nib k d = i}"
      using map_of_branch [OF ok(1) that] map_of_branch [OF ok(2) that] by (auto simp: diff_keys_def)
    with map_of_branch [OF ok(1) that] map_of_branch [OF ok(2) that] fin show ?thesis
      unfolding branch_delta_def dm_def by (auto intro!: image_mset_cong)
  qed
  have "(\<Sum>i\<leftarrow>[0..<n]. branch_delta cs cs' i) = image_mset ?f (mset_set {k \<in> ?D. nib k d < n})" if "n \<le> 16" for n
    using that
  proof (induction n)
    case (Suc n)
    have "{k \<in> ?D. nib k d < Suc n} = {k \<in> ?D. nib k d < n} \<union> {k \<in> ?D. nib k d = n}" by auto
    moreover have "mset_set ({k \<in> ?D. nib k d < n} \<union> {k \<in> ?D. nib k d = n}) =
        mset_set {k \<in> ?D. nib k d < n} + mset_set {k \<in> ?D. nib k d = n}"
      using fin by (intro mset_set_Union) auto
    ultimately show ?case using Suc b [of n] by simp
  qed simp
  from this [of 16] show ?thesis by (simp add: pair_delta_def dm_def)
qed

section \<open>The loop\<close>

lemma emit_go: "int (length ds) < snd st \<Longrightarrow> fst (emit ds st)"
  by (induction ds arbitrary: st) (auto simp: record_delta_def Let_def)

definition children_spec where
  "children_spec ty sha is cs cs' ds pushed =
     ((\<forall>stack st. \<exists>stk. cmp_children sha is cs cs' stack st = (fst (emit ds st), stk, snd (emit ds st)) \<and>
        (fst (emit ds st) \<longrightarrow> stk = pushed @ stack)) \<and>
      (\<forall>p \<in> set pushed. pair_ok ty sha p) \<and>
      mset ds + (\<Sum>p\<leftarrow>pushed. pair_delta p) = (\<Sum>i\<leftarrow>is. branch_delta cs cs' i))"

lemma children_walk:
  assumes IH: "children_spec ty sha is cs cs' ds pushed"
    and step: "\<And>stack st. cmp_children sha (i # is) cs cs' stack st =
      (let (go, st1) = emit es st in if \<not> go then (False, stack, st1) else cmp_children sha is cs cs' stack st1)"
    and es: "mset es = branch_delta cs cs' i"
  shows "children_spec ty sha (i # is) cs cs' (es @ ds) pushed"
proof -
  have "\<exists>stk. cmp_children sha (i # is) cs cs' stack st = (fst (emit (es @ ds) st), stk, snd (emit (es @ ds) st)) \<and>
      (fst (emit (es @ ds) st) \<longrightarrow> stk = pushed @ stack)" for stack st
    using IH unfolding step emit_append children_spec_def by (cases "emit es st") auto
  with IH es show ?thesis by (auto simp: children_spec_def ac_simps simp del: split_paired_All)
qed

lemma cmp_children_emit:
  assumes ok: "pair_ok ty sha (Inner cs, Inner cs')" and i: "set is \<subseteq> {..<16}"
  shows "\<exists>ds pushed. children_spec ty sha is cs cs' ds pushed"
  using i
proof (induction "is")
  case Nil
  then show ?case by (intro exI [of _ "[]"]) (simp add: children_spec_def)
next
  case (Cons i "is")
  then obtain ds pushed where IH: "children_spec ty sha is cs cs' ds pushed" by auto
  from ok obtain d q where n: "node_ok ty d q (Inner cs)" "node_ok ty d q (Inner cs')" by (auto simp: pair_ok_def)
  have ch: "child cs i = cs ! i" "child cs' i = cs' ! i" "i < 16"
    using Cons.prems n by (auto simp: child_def node_ok_Inner)
  have sub: "node_ok ty (Suc d) (16 * q + i) c" if "cs ! i = Some c \<or> cs' ! i = Some c" for c
    using that n ch(3) by (auto simp: node_ok_Inner)
  show ?case
  proof (cases "child_hash sha (cs ! i) = child_hash sha (cs' ! i)")
    case True
    then have "cs ! i = cs' ! i" using ok child_hash_determines [OF n ch(3)] by (auto simp: pair_ok_def)
    then have "children_spec ty sha (i # is) cs cs' ([] @ ds) pushed"
      using True by (intro children_walk [OF IH]) (simp_all add: ch branch_delta_def)
    then show ?thesis by blast
  next
    case False
    then consider a where "cs ! i = Some a" "cs' ! i = None" | b where "cs ! i = None" "cs' ! i = Some b"
      | a b where "cs ! i = Some a" "cs' ! i = Some b" by (cases "cs ! i"; cases "cs' ! i") auto
    then show ?thesis
    proof cases
      case (1 a)
      obtain es where es: "\<forall>st. walkBranch [a] None True True st = emit es st" "mset es = dmo True (map_of (node_items a)) (item_map None)"
        using walk_one [OF sub, of a None True] 1 by auto
      have "children_spec ty sha (i # is) cs cs' (es @ ds) pushed"
        using False 1 es by (intro children_walk [OF IH]) (simp_all add: ch branch_delta_def dmo_def item_map_def del: split_paired_All)
      then show ?thesis by blast
    next
      case (2 b)
      obtain es where es: "\<forall>st. walkBranch [b] None False True st = emit es st" "mset es = dmo False (map_of (node_items b)) (item_map None)"
        using walk_one [OF sub, of b None False] 2 by auto
      have "children_spec ty sha (i # is) cs cs' (es @ ds) pushed"
        using False 2 es by (intro children_walk [OF IH]) (simp_all add: ch branch_delta_def dmo_def item_map_def del: split_paired_All)
      then show ?thesis by blast
    next
      case (3 a b)
      have m: "Some a \<in> set cs" "Some b \<in> set cs'" using 3 ch(3) n by (auto simp: node_ok_Inner in_set_conv_nth)
      have "no_collision sha a b"
        using ok no_collision_sub [OF _ hashed_child [OF m(1)] hashed_child [OF m(2)]] by (auto simp: pair_ok_def)
      moreover have "ty = tnTRANSACTION_NM \<longrightarrow> tx_keys sha a \<and> tx_keys sha b"
        using ok tx_keys_child m by (auto simp: pair_ok_def)
      ultimately have p: "pair_ok ty sha (a, b)" using sub 3 by (auto simp: pair_ok_def)
      have "cmp_children sha (i # is) cs cs' stack st = cmp_children sha is cs cs' ((a, b) # stack) st" for stack st
        using False 3 by (simp add: ch)
      with IH p 3 have "children_spec ty sha (i # is) cs cs' ds (pushed @ [(a, b)])"
        by (simp add: children_spec_def branch_delta_def pair_delta_def ac_simps del: split_paired_All)
      then show ?thesis by blast
    qed
  qed
qed

definition loop_spec :: "(Blob \<Rightarrow> uint256) \<Rightarrow> (SHAMapNode \<times> SHAMapNode) list \<Rightarrow> (uint256 \<times> DeltaItem) list \<Rightarrow> bool" where
  "loop_spec sha stack ds =
     ((\<forall>st. cmp_loop sha stack st = emit ds st) \<and> mset ds = (\<Sum>p\<leftarrow>stack. pair_delta p))"

lemma loop_step:
  assumes "loop_spec sha stack ds" "mset es = pair_delta p"
    "\<And>st. cmp_loop sha (p # stack) st = (let (go, st1) = emit es st in if \<not> go then (False, st1) else cmp_loop sha stack st1)"
  shows "loop_spec sha (p # stack) (es @ ds)"
  using assms by (auto simp: loop_spec_def emit_append simp del: split_paired_All split: prod.split)

lemma leaves_emit:
  "\<exists>es. (\<forall>st. cmp_leaves a b st = emit es st) \<and> mset es = dm [it_key a \<mapsto> a] [it_key b \<mapsto> b]"
proof (cases "it_key a = it_key b")
  case True
  have "a = b \<longleftrightarrow> it_data a = it_data b" using True by (cases a; cases b) auto
  with True show ?thesis
    using dm_split [of "[it_key a \<mapsto> a]" "[it_key b \<mapsto> b]" "it_key a"]
    by (intro exI [of _ "if a = b then [] else [(it_key a, Some a, Some b)]"])
      (auto simp: cmp_leaves_def Let_def split: prod.split)
next
  case False
  then show ?thesis
    using dm_split [of "[it_key a \<mapsto> a]" "[it_key b \<mapsto> b]" "it_key a"] dm_split [of "Map.empty" "[it_key b \<mapsto> b]" "it_key b"]
    by (intro exI [of _ "[(it_key a, Some a, None), (it_key b, None, Some b)]"])
      (auto simp: cmp_leaves_def Let_def fun_upd_twist split: prod.split)
qed

lemma cmp_loop_emit: "\<forall>p \<in> set stack. pair_ok ty sha p \<Longrightarrow> \<exists>ds. loop_spec sha stack ds"
proof (induction "sum_list (map pair_size stack)" arbitrary: stack rule: less_induct)
  case less
  show ?case
  proof (cases stack)
    case Nil
    then show ?thesis by (intro exI [of _ "[]"]) (simp add: loop_spec_def)
  next
    case (Cons p st)
    then have p: "pair_ok ty sha p" and lt: "sum_list (map pair_size st) < sum_list (map pair_size stack)"
      using less.prems by (auto simp: pair_size_def)
    have "\<forall>p \<in> set st. pair_ok ty sha p" using less.prems Cons by simp
    then obtain ds where ds: "loop_spec sha st ds" using less.hyps [OF lt] by blast
    obtain a b where ab: "p = (a, b)" by (cases p)
    from p ab obtain d q where n: "node_ok ty d q a" "node_ok ty d q b" by (auto simp: pair_ok_def)
    show ?thesis
    proof (cases a; cases b)
      fix ty1 x ty2 y
      assume l: "a = Leaf ty1 x" "b = Leaf ty2 y"
      obtain es where "\<forall>st. cmp_leaves x y st = emit es st" "mset es = dm [it_key x \<mapsto> x] [it_key y \<mapsto> y]"
        using leaves_emit by blast
      then have "loop_spec sha (p # st) (es @ ds)"
        by (intro loop_step [OF ds]) (simp_all add: ab l pair_delta_def del: split_paired_All)
      then show ?thesis using Cons by blast
    next
      fix ty1 x cs
      assume l: "a = Leaf ty1 x" "b = Inner cs"
      obtain es where "\<forall>st. walkBranch [b] (Some x) False False st = emit es st" "mset es = dmo False (map_of (node_items b)) (item_map (Some x))"
        using walk_one [OF n(2), of "Some x" False] by auto
      then have "loop_spec sha (p # st) (es @ ds)"
        by (intro loop_step [OF ds]) (simp_all add: ab l pair_delta_def dmo_def item_map_def del: split_paired_All)
      then show ?thesis using Cons by blast
    next
      fix cs ty2 y
      assume l: "a = Inner cs" "b = Leaf ty2 y"
      obtain es where "\<forall>st. walkBranch [a] (Some y) True False st = emit es st" "mset es = dmo True (map_of (node_items a)) (item_map (Some y))"
        using walk_one [OF n(1), of "Some y" True] by auto
      then have "loop_spec sha (p # st) (es @ ds)"
        by (intro loop_step [OF ds]) (simp_all add: ab l pair_delta_def dmo_def item_map_def del: split_paired_All)
      then show ?thesis using Cons by blast
    next
      fix cs cs'
      assume l: "a = Inner cs" "b = Inner cs'"
      have "set [0..<16] \<subseteq> {..<16}" by auto
      then obtain es pushed where c: "children_spec ty sha [0..<16] cs cs' es pushed"
        using cmp_children_emit p unfolding ab l by blast
      have "fst (emit es ([], int (length es) + 1))" by (rule emit_go) simp
      then have "\<exists>st1. cmp_children sha [0..<16] cs cs' st ([], int (length es) + 1) = (True, pushed @ st, st1)"
        using c unfolding children_spec_def by (metis (full_types))
      with child_pairs_size have "sum_list (map pair_size (pushed @ st)) < sum_list (map pair_size stack)"
        using Cons ab l by fastforce
      moreover have "\<forall>p \<in> set (pushed @ st). pair_ok ty sha p" using c less.prems Cons by (auto simp: children_spec_def)
      ultimately obtain ds' where ds': "loop_spec sha (pushed @ st) ds'" using less.hyps by blast
      have "cmp_loop sha stack s = emit (es @ ds') s" for s
      proof -
        obtain stk where "cmp_children sha [0..<16] cs cs' st s = (fst (emit es s), stk, snd (emit es s))"
          "fst (emit es s) \<longrightarrow> stk = pushed @ st" using c unfolding children_spec_def by blast
        then show ?thesis using ds' Cons ab l
          by (cases "emit es s") (auto simp: emit_append loop_spec_def simp del: split_paired_All)
      qed
      moreover have "mset (es @ ds') = (\<Sum>p\<leftarrow>stack. pair_delta p)"
        using c ds' Cons ab l inner_delta [of ty d q cs cs'] n by (simp add: children_spec_def loop_spec_def add.assoc [symmetric])
      ultimately show ?thesis unfolding loop_spec_def by blast
    qed
  qed
qed

section \<open>Comparing two maps\<close>

lemma emit_delta:
  fixes A B :: "uint256 \<rightharpoonup> SHAMapItem"
  assumes "mset ds = dm A B" "finite (dom A)" "finite (dom B)"
  defines "D \<equiv> diff_keys A B"
  shows "\<exists>dif mc. emit ds ([], n) = (D = {} \<or> int (card D) < n, dif, mc) \<and>
    card (dom (map_of dif)) = min (card D) (nat (max 1 n)) \<and>
    (\<forall>k e. map_of dif k = Some e \<longrightarrow> k \<in> D \<and> e = (A k, B k)) \<and>
    (int (card D) < n \<longrightarrow> dom (map_of dif) = D)"
proof -
  have fin: "finite D" unfolding D_def using assms(2,3) by simp
  have keys: "mset (map fst ds) = mset_set D" using assms(1) by (simp add: dm_def D_def image_mset.compositionality comp_def)
  moreover have "mset (sorted_list_of_set D) = mset_set D" by (metis mset_sorted_list_of_multiset sorted_list_of_mset_set)
  ultimately have dist: "distinct (map fst ds)"
    using mset_eq_imp_distinct_iff [of "map fst ds" "sorted_list_of_set D"] by simp
  have len: "length ds = card D" using arg_cong [OF keys, of size] by simp
  have el: "k \<in> D \<and> e = (A k, B k)" if "(k, e) \<in> set ds" for k e
    using arg_cong [OF assms(1), of set_mset] that fin by (auto simp: dm_def D_def)
  let ?l = "if int (length ds) < n then ds else take (nat (max 1 n)) ds"
  obtain dif mc where dif: "emit ds ([], n) = (ds = [] \<or> int (length ds) < n, dif, mc)" "map_of dif = map_of ?l"
    using emit_spec [OF dist, of "[]" n] by auto
  have sub: "set ?l \<subseteq> set ds" by (auto dest: in_set_takeD)
  have dl: "distinct (map fst ?l)" using dist by (auto simp: take_map [symmetric] distinct_take)
  have "dom (map_of dif) = fst ` set ?l" unfolding dif(2) by (rule dom_map_of_conv_image_fst)
  then have "card (dom (map_of dif)) = length ?l" using distinct_card [OF dl] by simp
  moreover have "length ?l = min (card D) (nat (max 1 n))" using len by auto
  moreover have "dom (map_of dif) = D" if "int (card D) < n"
    using \<open>dom (map_of dif) = fst ` set ?l\<close> that len arg_cong [OF keys, of set_mset] fin by simp
  moreover have "k \<in> D \<and> e = (A k, B k)" if "map_of dif k = Some e" for k e
    using that el sub unfolding dif(2) by (meson map_of_SomeD subsetD)
  moreover have "ds = [] \<longleftrightarrow> D = {}" using len fin by auto
  ultimately show ?thesis using dif(1) len by (intro exI [of _ dif] exI [of _ mc]) auto
qed

lemma equal_hash_equal_maps:
  assumes ok: "shamap_ok ty a" "shamap_ok ty b" and nc: "no_collision sha (sm_root a) (sm_root b)"
    and tx: "ty = tnTRANSACTION_NM \<longrightarrow> tx_keys sha (sm_root a) \<and> tx_keys sha (sm_root b)"
    and h: "getHash sha a = getHash sha b"
  shows "shamap_items a = shamap_items b"
proof -
  have n: "node_ok ty 0 0 (sm_root a)" "node_ok ty 0 0 (sm_root b)" using ok by (auto simp: shamap_ok_def)
  have nz: "shamap_items m \<noteq> [] \<Longrightarrow> getHash sha m \<noteq> 0" if "m = a \<or> m = b" for m
  proof -
    assume "shamap_items m \<noteq> []"
    then have "getHash sha m = sha (node_blob sha (sm_root m))"
      using that n node_hash_blob unfolding getHash_def shamap_items_def by blast
    then show ?thesis using no_collision_nonzero [OF nc] node_blob_hashed that by auto
  qed
  have z: "shamap_items m = [] \<Longrightarrow> getHash sha m = 0" if "m = a \<or> m = b" for m
  proof -
    assume e: "shamap_items m = []"
    have "shamap_ok ty m" using that ok by blast
    then have "sm_root m = sm_root SHAMap_init" using e by (intro shamap_canonical [OF _ SHAMap_init_ok]) simp_all
    then show ?thesis
      using branch_mask_zero [of "replicate 16 None"]
      by (simp add: getHash_def SHAMap_init_def empty_inner_def node_hash_Inner inner_hash_def)
  qed
  show ?thesis
  proof (cases "shamap_items a = [] \<or> shamap_items b = []")
    case True
    then show ?thesis using nz [of a] nz [of b] z [of a] z [of b] h by metis
  next
    case False
    then have "sm_root a = sm_root b"
      using hash_determines [OF n _ _ nc tx] h by (simp add: getHash_def shamap_items_def)
    then show ?thesis by (simp add: shamap_items_def)
  qed
qed

lemma compare_spec:
  assumes ok: "shamap_ok ty a" "shamap_ok ty b" and st: "sm_state a \<noteq> Invalid" "sm_state b \<noteq> Invalid"
    and nc: "no_collision sha (sm_root a) (sm_root b)"
    and tx: "ty = tnTRANSACTION_NM \<longrightarrow> tx_keys sha (sm_root a) \<and> tx_keys sha (sm_root b)"
  shows "\<exists>dif. let D = diff_keys (map_of (shamap_items a)) (map_of (shamap_items b)) in
    compare sha a b [] n = Inr (D = {} \<or> int (card D) < n, dif) \<and>
    card (dom (map_of dif)) = min (card D) (nat (max 1 n)) \<and>
    (\<forall>k e. map_of dif k = Some e \<longrightarrow> k \<in> D \<and> e = (map_of (shamap_items a) k, map_of (shamap_items b) k)) \<and>
    (int (card D) < n \<longrightarrow> dom (map_of dif) = D)"
proof (cases "getHash sha a = getHash sha b")
  case True
  then have "shamap_items a = shamap_items b" using equal_hash_equal_maps [OF ok nc tx] by blast
  with True st show ?thesis by (intro exI [of _ "[]"]) (simp add: compare_def diff_keys_def)
next
  case False
  have "pair_ok ty sha (sm_root a, sm_root b)" using ok nc tx by (auto simp: pair_ok_def shamap_ok_def)
  then obtain ds where ds: "loop_spec sha [(sm_root a, sm_root b)] ds" using cmp_loop_emit [of "[(sm_root a, sm_root b)]" ty sha] by auto
  then have m: "mset ds = dm (map_of (shamap_items a)) (map_of (shamap_items b))"
    by (simp add: loop_spec_def pair_delta_def shamap_items_def)
  from emit_delta [OF m finite_dom_map_of finite_dom_map_of, of n] False st ds show ?thesis
    by (auto simp: compare_def loop_spec_def Let_def simp del: split_paired_All)
qed

end
