(* ===== verification/SHAMap_Properties.thy ===== *)
theory SHAMap_Properties
  imports SHAMap_Delta
begin

text \<open>
  Theorems about the serializer and the radix tree as a whole, with instances on concrete trees.
\<close>

section \<open>Histories of a map\<close>

datatype sm_op = OpAdd SHAMapItem | OpUpdate SHAMapItem | OpDel uint256

text \<open>A change of the tree, and of the ordered map it stands for.\<close>

fun sm_exec :: "(TNType \<Rightarrow> SHAMapItem \<Rightarrow> uint256) \<Rightarrow> bool \<Rightarrow> bool \<Rightarrow> sm_op \<Rightarrow> SHAMap \<Rightarrow> (led_error, bool \<times> SHAMap) result" where
  "sm_exec h isTransaction hasMeta (OpAdd item) m = addGiveItem item isTransaction hasMeta m"
| "sm_exec h isTransaction hasMeta (OpUpdate item) m = updateGiveItem h item isTransaction hasMeta m"
| "sm_exec h isTransaction hasMeta (OpDel k) m = delItem k m"

fun om_exec :: "sm_op \<Rightarrow> (uint256 \<times> SHAMapItem) list \<Rightarrow> (led_error, bool \<times> (uint256 \<times> SHAMapItem) list) result" where
  "om_exec (OpAdd item) l = Inr (map_of l (it_key item) = None, fst (om_emplace (<) (it_key item) item l))"
| "om_exec (OpUpdate item) l =
     (if map_of l (it_key item) = None then Inl LAssert else Inr (True, om_update (it_key item) item l))"
| "om_exec (OpDel k) l = Inr (map_of l k \<noteq> None, om_erase k l)"

fun op_fits :: "sm_op \<Rightarrow> bool" where
  "op_fits (OpAdd item) = (12 \<le> length (it_data item))"
| "op_fits (OpUpdate item) = (12 \<le> length (it_data item))"
| "op_fits (OpDel k) = True"

fun run_ops :: "('op \<Rightarrow> 's \<Rightarrow> ('e, 'r \<times> 's) result) \<Rightarrow> 'op list \<Rightarrow> 's \<Rightarrow> ('e, 'r list \<times> 's) result" where
  "run_ops exec [] s = Inr ([], s)"
| "run_ops exec (op # ops) s =
     bind_r (exec op s) (\<lambda>(r, s1). bind_r (run_ops exec ops s1) (\<lambda>(rs, s2). Inr (r # rs, s2)))"

text \<open>A machine that implements another: each operation gives the same answer or the same error.\<close>

locale simulation =
  fixes inv :: "'s \<Rightarrow> bool"
    and abs :: "'s \<Rightarrow> 'a"
    and fits :: "'op \<Rightarrow> bool"
    and exec :: "'op \<Rightarrow> 's \<Rightarrow> ('e, 'r \<times> 's) result"
    and spec :: "'op \<Rightarrow> 'a \<Rightarrow> ('e, 'r \<times> 'a) result"
  assumes step: "inv s \<Longrightarrow> fits op \<Longrightarrow> (case exec op s of
      Inl e \<Rightarrow> spec op (abs s) = Inl e
    | Inr (r, s') \<Rightarrow> inv s' \<and> spec op (abs s) = Inr (r, abs s'))"
begin

lemma history:
  "inv s \<Longrightarrow> \<forall>op \<in> set ops. fits op \<Longrightarrow> (case run_ops exec ops s of
      Inl e \<Rightarrow> run_ops spec ops (abs s) = Inl e
    | Inr (rs, s') \<Rightarrow> inv s' \<and> run_ops spec ops (abs s) = Inr (rs, abs s'))"
proof (induction ops arbitrary: s)
  case (Cons op ops)
  note st = step [OF Cons.prems(1), of op]
  show ?case
  proof (cases "exec op s")
    case (Inl e)
    with st Cons.prems show ?thesis by simp
  next
    case (Inr p)
    obtain r s1 where p: "p = (r, s1)" by (cases p)
    have s1: "inv s1" "spec op (abs s) = Inr (r, abs s1)" using st Cons.prems Inr p by auto
    have "case run_ops exec ops s1 of Inl e \<Rightarrow> run_ops spec ops (abs s1) = Inl e
      | Inr (rs, s') \<Rightarrow> inv s' \<and> run_ops spec ops (abs s1) = Inr (rs, abs s')"
      using Cons.IH [OF s1(1)] Cons.prems by simp
    with Inr p s1 show ?thesis by (cases "run_ops exec ops s1") auto
  qed
qed simp

end

definition map_inv :: "TNType \<Rightarrow> SHAMap \<Rightarrow> bool" where
  "map_inv ty m = (shamap_ok ty m \<and> sm_state m \<noteq> Immutable \<and> sm_state m \<noteq> Synching)"

interpretation tree: simulation "map_inv (leaf_type isTransaction hasMeta)" shamap_items op_fits
  "sm_exec h isTransaction hasMeta" "om_exec" for h isTransaction hasMeta
proof
  fix m op
  assume m: "map_inv (leaf_type isTransaction hasMeta) m" and fit: "op_fits op"
  let ?ty = "leaf_type isTransaction hasMeta"
  have ok: "shamap_ok ?ty m" "sm_state m \<noteq> Immutable" "sm_state m \<noteq> Synching" using m by (simp_all add: map_inv_def)
  show "case sm_exec h isTransaction hasMeta op m of Inl e \<Rightarrow> om_exec op (shamap_items m) = Inl e
    | Inr (r, m') \<Rightarrow> map_inv ?ty m' \<and> om_exec op (shamap_items m) = Inr (r, shamap_items m')"
  proof (cases op)
    case (OpAdd item)
    with addGiveItem_ok [OF ok refl, of item] fit ok show ?thesis by (auto simp: map_inv_def)
  next
    case (OpUpdate item)
    with fit have data: "12 \<le> length (it_data item)" by simp
    show ?thesis
    proof (cases "map_of (shamap_items m) (it_key item)")
      case None
      with OpUpdate updateGiveItem_absent [OF ok(1) data None] show ?thesis by simp
    next
      case (Some old)
      with OpUpdate updateGiveItem_ok [OF ok refl data Some, of h] ok show ?thesis by (auto simp: map_inv_def)
    qed
  next
    case (OpDel k)
    with delItem_ok [OF ok(1,2), of k] ok show ?thesis by (auto simp: map_inv_def)
  qed
qed

lemma init_inv: "map_inv ty SHAMap_init"
  using SHAMap_init_ok by (simp add: map_inv_def SHAMap_init_def)

text \<open>What the queries answer on a tree, in terms of its items.\<close>

definition queries_agree :: "SHAMap \<Rightarrow> (uint256 \<times> SHAMapItem) list \<Rightarrow> bool" where
  "queries_agree m l =
     ((\<forall>k. peekItem k m = Inr (map_of l k) \<and> hasItem k m = Inr (map_of l k \<noteq> None) \<and>
        peekNextItem k m = Inr (map_option snd (List.find (\<lambda>e. k < fst e) l)) \<and>
        peekPrevItem k m = Inr (map_option snd (List.find (\<lambda>e. fst e < k) (rev l)))) \<and>
      peekFirstItem m = head_item l \<and> peekLastItem m = head_item (rev l))"

lemma queries_agree_ok: "shamap_ok ty m \<Longrightarrow> queries_agree m (shamap_items m)"
  by (simp add: queries_agree_def peekItem_ok hasItem_ok peekNextItem_ok peekPrevItem_ok peekFirstItem_ok peekLastItem_ok)

section \<open>Concrete trees\<close>

definition zeros_item :: "uint256 \<Rightarrow> nat \<Rightarrow> SHAMapItem" where
  "zeros_item k n = \<lparr>it_key = k, it_data = replicate n 0\<rparr>"

text \<open>A digest good enough for two small trees.\<close>

definition toy_digest :: "Blob \<Rightarrow> uint256" where
  "toy_digest bs = 1 + of_nat (length bs) + 1000 * ucast (bs ! 35)"

definition tree_of :: "SHAMapItem \<Rightarrow> SHAMap" where
  "tree_of item = SHAMap_init\<lparr>sm_root := Inner ((replicate 16 None)[0 := Some (Leaf tnACCOUNT_STATE item)])\<rparr>"

lemma tree_of_run: "run_ops (sm_exec (leaf_hash toy_digest) False False) [OpAdd (zeros_item 1 n)] SHAMap_init =
    (if 12 \<le> n then Inr ([True], tree_of (zeros_item 1 n)) else Inl LAssert)"
proof -
  have "selectBranch root_id 1 = Inr 0" by code_simp
  then show ?thesis
    by (simp add: addGiveItem_def SHAMap_init_def empty_inner_def add_at_def child_def isEmptyBranch_def make_leaf_def
        zeros_item_def setChild_def leaf_type_def tree_of_def)
qed

lemma be_bytes_nth: "i < n \<Longrightarrow> be_bytes n w ! i = ucast (drop_bit (8 * (n - 1 - i)) w)"
  by (simp add: be_bytes_def)

lemma key_one_bytes: "i < 31 \<Longrightarrow> be_bytes 32 (1 :: uint256) ! i = 0"
proof -
  assume "i < 31"
  then have "drop_bit (8 * (31 - i)) (1 :: uint256) = 0" by (intro bit_word_eqI) (simp add: bit_simps)
  then show ?thesis using \<open>i < 31\<close> by (simp add: be_bytes_nth)
qed

lemma toy_leaf:
  assumes "12 \<le> n" "n \<le> 13"
  shows "toy_digest (node_blob toy_digest (Leaf tnACCOUNT_STATE (zeros_item 1 n))) = 37 + of_nat n"
proof -
  have "(be_bytes 4 HP_leafNode @ replicate n 0 @ be_bytes 32 (1 :: uint256)) ! 35 = 0"
    using assms by (simp add: nth_append key_one_bytes)
  then show ?thesis by (simp add: toy_digest_def zeros_item_def)
qed

definition toy_root :: "nat \<Rightarrow> SHAMapNode" where
  "toy_root n = sm_root (tree_of (zeros_item 1 n))"

lemma toy_inner:
  assumes "12 \<le> n" "n \<le> 13"
  shows "toy_digest (node_blob toy_digest (toy_root n)) = 517 + 1000 * (37 + of_nat n)"
proof -
  have "child_hash toy_digest (Some (Leaf tnACCOUNT_STATE (zeros_item 1 n))) = 37 + of_nat n"
    using toy_leaf [OF assms] by (simp add: child_hash_def leaf_hash_def)
  then have "node_blob toy_digest (toy_root n) ! 35 = ucast (37 + of_nat n :: uint256)"
    "length (node_blob toy_digest (toy_root n)) = 516"
    by (simp_all add: toy_root_def tree_of_def nth_append be_bytes_nth eval_nat_numeral)
  moreover have "n = 12 \<or> n = 13" using assms by linarith
  ultimately show ?thesis by (auto simp: toy_digest_def)
qed

lemma toy_hashed: "hashed toy_digest (toy_root n) =
    [node_blob toy_digest (toy_root n), node_blob toy_digest (Leaf tnACCOUNT_STATE (zeros_item 1 n))]"
  by (simp add: toy_root_def tree_of_def eval_nat_numeral)

lemma toy_no_collision: "no_collision toy_digest (toy_root 12) (toy_root 13)"
  by (simp add: no_collision_def toy_hashed Let_def toy_inner toy_leaf del: node_blob.simps)

section \<open>Properties\<close>

text \<open>
  C4: every history of insertions, updates and deletions of the tree, starting from the empty map, gives
  the answers and the errors of an ordered map with the same history, and afterwards every query
  (lookup, membership, next, previous, first, last) answers as on that ordered map.
\<close>

theorem shamap_history:
  assumes "\<forall>op \<in> set ops. op_fits op"
  shows "case run_ops (sm_exec h isTransaction hasMeta) ops SHAMap_init of
      Inl e \<Rightarrow> run_ops om_exec ops [] = Inl e
    | Inr (rs, m) \<Rightarrow> run_ops om_exec ops [] = Inr (rs, shamap_items m) \<and>
        queries_agree m (shamap_items m) \<and> om_ok (<) (shamap_items m)"
proof -
  let ?ty = "leaf_type isTransaction hasMeta"
  have "case run_ops (sm_exec h isTransaction hasMeta) ops SHAMap_init of
      Inl e \<Rightarrow> run_ops om_exec ops [] = Inl e
    | Inr (rs, m) \<Rightarrow> map_inv ?ty m \<and> run_ops om_exec ops [] = Inr (rs, shamap_items m)"
    using tree.history [where h = h and isTransaction = isTransaction and hasMeta = hasMeta, OF init_inv assms]
    unfolding SHAMap_init_items .
  then show ?thesis
    by (auto simp: map_inv_def queries_agree_ok shamap_sorted split: sum.splits)
qed

definition four_ops :: "sm_op list" where
  "four_ops = [OpAdd (zeros_item 1 12), OpAdd (zeros_item 2 12), OpDel 1, OpUpdate (zeros_item 2 13)]"

theorem shamap_history_witness:
  "\<exists>m. run_ops (sm_exec (leaf_hash toy_digest) False False) four_ops SHAMap_init = Inr ([True, True, True, True], m) \<and>
     shamap_items m = [(2, zeros_item 2 13)] \<and> peekNextItem 1 m = Inr (Some (zeros_item 2 13))"
proof -
  have fits: "\<forall>op \<in> set four_ops. op_fits op" by (simp add: four_ops_def zeros_item_def)
  have "run_ops om_exec four_ops [] = Inr ([True, True, True, True], [(2, zeros_item 2 13)])"
    by (simp add: four_ops_def zeros_item_def om_emplace_def om_erase_def om_update_def)
  with shamap_history [OF fits, of "leaf_hash toy_digest" False False] obtain m where
    m: "run_ops (sm_exec (leaf_hash toy_digest) False False) four_ops SHAMap_init = Inr ([True, True, True, True], m)"
    "shamap_items m = [(2, zeros_item 2 13)]" "queries_agree m (shamap_items m)"
    by (auto split: sum.splits)
  then have "peekNextItem 1 m = Inr (Some (zeros_item 2 13))" by (simp add: queries_agree_def)
  with m show ?thesis by blast
qed

text \<open>
  C16: the root hash depends on the contents only, not on the history: whatever two sequences of changes
  built two trees, their hashes are equal if their contents are, for every digest. If the digest neither collides on
  the byte strings hashed in the two trees nor gives zero, they are equal only then; for trees of transactions
  without metadata, whose leaves do not hash the key, the key of each item has in addition to be the identifier of
  its transaction, that is the digest of its data.
\<close>

theorem shamap_hash_history:
  assumes "\<forall>op \<in> set ops. op_fits op" "\<forall>op \<in> set ops'. op_fits op"
    "run_ops (sm_exec (leaf_hash sha) isTransaction hasMeta) ops SHAMap_init = Inr (rs, a)"
    "run_ops (sm_exec (leaf_hash sha) isTransaction hasMeta) ops' SHAMap_init = Inr (rs', b)"
  shows "(shamap_items a = shamap_items b \<longrightarrow> getHash sha a = getHash sha b) \<and>
    (no_collision sha (sm_root a) (sm_root b) \<and>
     (leaf_type isTransaction hasMeta = tnTRANSACTION_NM \<longrightarrow> tx_keys sha (sm_root a) \<and> tx_keys sha (sm_root b)) \<longrightarrow>
       getHash sha a = getHash sha b \<longrightarrow> shamap_items a = shamap_items b)"
proof -
  let ?ty = "leaf_type isTransaction hasMeta"
  have ok: "shamap_ok ?ty a" "shamap_ok ?ty b"
    using tree.history [where h = "leaf_hash sha" and isTransaction = isTransaction and hasMeta = hasMeta, OF init_inv assms(1)]
      tree.history [where h = "leaf_hash sha" and isTransaction = isTransaction and hasMeta = hasMeta, OF init_inv assms(2)] assms(3,4)
    by (auto simp: map_inv_def)
  show ?thesis
    using equal_hash_equal_maps [OF ok] shamap_canonical [OF ok] by (auto simp: getHash_def)
qed

theorem shamap_hash_history_witness:
  "getHash toy_digest (tree_of (zeros_item 1 12)) \<noteq> getHash toy_digest (tree_of (zeros_item 1 13))"
proof -
  have fits: "\<forall>op \<in> set [OpAdd (zeros_item 1 12)]. op_fits op" "\<forall>op \<in> set [OpAdd (zeros_item 1 13)]. op_fits op"
    by (simp_all add: zeros_item_def)
  have run: "run_ops (sm_exec (leaf_hash toy_digest) False False) [OpAdd (zeros_item 1 n)] SHAMap_init =
      Inr ([True], tree_of (zeros_item 1 n))" if "12 \<le> n" for n
    using tree_of_run [of n] that by simp
  have "shamap_items (tree_of (zeros_item 1 12)) = shamap_items (tree_of (zeros_item 1 13))"
    if "getHash toy_digest (tree_of (zeros_item 1 12)) = getHash toy_digest (tree_of (zeros_item 1 13))"
    using toy_no_collision shamap_hash_history [OF fits run run] that by (simp add: toy_root_def leaf_type_def)
  moreover have "shamap_items (tree_of (zeros_item 1 12)) \<noteq> shamap_items (tree_of (zeros_item 1 13))"
    by (simp add: shamap_items_def tree_of_def node_items_Inner zeros_item_def eval_nat_numeral)
  ultimately show ?thesis by blast
qed

text \<open>
  C15: comparing two trees skips the subtrees with equal hashes and still finds the difference of their
  contents, if the digest does not collide on the byte strings hashed in the two trees and, for transactions without
  metadata, whose leaves do not hash the key, the keys are the identifiers of the transactions. It returns true
  exactly when there is no difference or fewer than the limit; every recorded pair is a key on which the maps
  differ with what the two maps hold there; below the limit the table has all of them, and from the limit on
  as many as the limit, but at least one. So with exactly as many differences as the limit the table is complete and
  the answer is false, and a limit of zero or less still records one difference, unlike the comment of the function.
\<close>

theorem compare_finds_differences:
  assumes "shamap_ok ty a" "shamap_ok ty b" "sm_state a \<noteq> Invalid" "sm_state b \<noteq> Invalid"
    "no_collision sha (sm_root a) (sm_root b)"
    "ty = tnTRANSACTION_NM \<longrightarrow> tx_keys sha (sm_root a) \<and> tx_keys sha (sm_root b)"
  shows "\<exists>dif. let D = diff_keys (map_of (shamap_items a)) (map_of (shamap_items b)) in
    compare sha a b [] n = Inr (D = {} \<or> int (card D) < n, dif) \<and>
    card (dom (map_of dif)) = min (card D) (nat (max 1 n)) \<and>
    (\<forall>k e. map_of dif k = Some e \<longrightarrow> k \<in> D \<and> e = (map_of (shamap_items a) k, map_of (shamap_items b) k)) \<and>
    (int (card D) < n \<longrightarrow> dom (map_of dif) = D)"
  using assms by (rule compare_spec)

lemma tree_of_ok: "12 \<le> n \<Longrightarrow> shamap_ok tnACCOUNT_STATE (tree_of (zeros_item 1 n))"
proof -
  assume n: "12 \<le> n"
  then have "\<forall>op \<in> set [OpAdd (zeros_item 1 n)]. op_fits op" by (simp add: zeros_item_def)
  from tree.history [where h = "leaf_hash toy_digest" and isTransaction = False and hasMeta = False, OF init_inv this]
  show ?thesis unfolding tree_of_run using n by (simp add: map_inv_def leaf_type_def)
qed

lemma zeros_differ: "zeros_item 1 12 \<noteq> zeros_item 1 13"
  by (simp add: zeros_item_def)

lemma tree_of_items: "shamap_items (tree_of (zeros_item 1 n)) = [(1, zeros_item 1 n)]"
  by (simp add: shamap_items_def tree_of_def node_items_Inner zeros_item_def eval_nat_numeral)

theorem compare_finds_differences_witness:
  "\<exists>dif. compare toy_digest (tree_of (zeros_item 1 12)) (tree_of (zeros_item 1 13)) [] 10 = Inr (True, dif) \<and>
     map_of dif 1 = Some (Some (zeros_item 1 12), Some (zeros_item 1 13))"
proof -
  let ?a = "tree_of (zeros_item 1 12)" and ?b = "tree_of (zeros_item 1 13)"
  have D: "diff_keys (map_of (shamap_items ?a)) (map_of (shamap_items ?b)) = {1}"
    using zeros_differ by (auto simp: diff_keys_def tree_of_items)
  have ok: "shamap_ok tnACCOUNT_STATE ?a" "shamap_ok tnACCOUNT_STATE ?b" by (simp_all add: tree_of_ok)
  have nc: "no_collision toy_digest (sm_root ?a) (sm_root ?b)" using toy_no_collision by (simp add: toy_root_def)
  have st: "sm_state ?a \<noteq> Invalid" "sm_state ?b \<noteq> Invalid" by (simp_all add: tree_of_def SHAMap_init_def)
  obtain dif where dif: "compare toy_digest ?a ?b [] 10 = Inr (True, dif)" "dom (map_of dif) = {1}"
    "\<forall>k e. map_of dif k = Some e \<longrightarrow> e = (map_of (shamap_items ?a) k, map_of (shamap_items ?b) k)"
    using compare_finds_differences [OF ok st nc, of 10] by (auto simp: D Let_def)
  from dif(2) have "1 \<in> dom (map_of dif)" by simp
  then obtain e where "map_of dif 1 = Some e" by blast
  moreover from this have "e = (map_of (shamap_items ?a) 1, map_of (shamap_items ?b) 1)" using dif(3) by blast
  ultimately show ?thesis using dif(1) by (simp add: tree_of_items)
qed

text \<open>
  C17: a well-formed node written in the prefix or the wire format, with few or many branches, is parsed
  back to the same node, whether its hash is given or computed, and the bytes of the prefix format hash to
  the hash of the node.
\<close>

theorem node_format_roundtrip:
  assumes "tn_ok sha n" "format \<noteq> snfHASH"
  shows "\<exists>raw. tn_addRaw n format [] = Inr raw \<and> tn_make sha raw format h False = Inr (Some n) \<and>
    tn_make sha raw format (mHash n) True = Inr (Some n) \<and> (format = snfPREFIX \<longrightarrow> sha raw = mHash n)"
proof -
  have "\<exists>raw. tn_addRaw n format [] = Inr raw"
    using assms by (cases n; cases format) (auto simp: tn_ok_def)
  then obtain raw where raw: "tn_addRaw n format [] = Inr raw" by blast
  have "tn_make sha raw format hash valid = Inr (Some (case n of TInner hs br x \<Rightarrow> TInner hs br (if valid then hash else x)
      | TLeaf ty it x \<Rightarrow> TLeaf ty it (if valid then hash else x)))" for hash valid
    using raw inner_roundtrip [of sha _ _ _ format hash valid] leaf_roundtrip [of sha _ _ _ format hash valid] assms
    by (cases n) fastforce+
  from this [of h False] this [of "mHash n" True] raw prefix_hash [OF assms(1)] show ?thesis
    by (cases n) auto
qed

definition sample_node :: TreeNode where
  "sample_node = TLeaf tnACCOUNT_STATE (zeros_item 1 12) (leaf_hash toy_digest tnACCOUNT_STATE (zeros_item 1 12))"

theorem node_format_roundtrip_witness:
  "\<exists>raw. tn_addRaw sample_node snfWIRE [] = Inr raw \<and> tn_make toy_digest raw snfWIRE 0 False = Inr (Some sample_node)"
  using node_format_roundtrip [of toy_digest sample_node snfWIRE 0]
  by (auto simp: tn_ok_def sample_node_def zeros_item_def)

text \<open>
  a compressed inner node that names one branch twice, the second time with the hash zero, is accepted:
  the parsed node marks the branch as in use although its hash is zero.
\<close>

theorem compressed_duplicate_branch:
  "\<exists>br h. tn_make sha (be_bytes 32 (7 :: uint256) @ [3] @ be_bytes 32 (0 :: uint256) @ [3] @ [3]) snfWIRE 0 False =
      Inr (Some (TInner (replicate 16 0) br h)) \<and> \<not> tn_isEmptyBranch br 3"
proof -
  let ?s = "be_bytes 32 (7 :: uint256) @ [3] @ be_bytes 32 (0 :: uint256) @ [3]"
  have g: "get8 32 ?s = Some 3" "get8 65 ?s = Some 3" "get256 0 ?s = Some 7" "get256 33 ?s = Some 0"
    using get256_append [of 0 "[]" 7 "[3] @ be_bytes 32 (0 :: uint256) @ [3]"]
      get256_append [of 33 "be_bytes 32 (7 :: uint256) @ [3]" 0 "[3]"]
    by (simp_all add: get8_def nth_append)
  have l: "[0..<length ?s div 33] = [0, 1]" by (simp add: upt_rec)
  have same: "(replicate 16 (0 :: uint256))[3 := 0] = replicate 16 0"
    by (simp add: list_eq_iff_nth_eq nth_list_update)
  have "make_compressed [0..<length ?s div 33] ?s no_hashes = Inr (replicate 16 0, push_bit 3 1)"
    unfolding l using g same by (simp add: read_hash_def no_hashes_def Let_def)
  then have "tn_make sha (?s @ [3]) snfWIRE 0 False = Inr (Some (TInner (replicate 16 0) (push_bit 3 1)
      (inner_hash sha (replicate 16 0) (push_bit 3 1))))"
    by (simp add: tn_make_def make_wire_def make_tree_inner_def Let_def butlast_append)
  moreover have "\<not> tn_isEmptyBranch (push_bit 3 1) 3" by (simp add: tn_isEmptyBranch_def)
  ultimately show ?thesis by auto
qed

text \<open>
  a sequence of integers, keys, field identifiers and blobs written with the serializer is read back
  by the iterator field by field, and nothing is left over.
\<close>

theorem serializer_roundtrip:
  assumes "\<forall>f \<in> set fs. field_valid f"
  shows "\<exists>s it. fold_r write_field fs [] = Inr s \<and>
    read_seq read_field (map field_kind fs) (SerialIter_of s) = Inr (fs, it) \<and> si_empty it"
  using write_fields_put [OF assms, of "[]"] fields.read_whole [OF assms] by auto

theorem serializer_roundtrip_witness:
  "\<exists>s it. fold_r write_field [FID 20 3, F32 7, FVL (replicate 300 1), F256 5] [] = Inr s \<and>
     read_seq read_field [KID, K32, KVL, K256] (SerialIter_of s) = Inr ([FID 20 3, F32 7, FVL (replicate 300 1), F256 5], it) \<and>
     si_empty it"
  using serializer_roundtrip [of "[FID 20 3, F32 7, FVL (replicate 300 1), F256 5]"] by simp

text \<open>
  a blob of at most 918744 bytes is written with its length in one to three bytes and read back from
  where it was written, whatever follows; a longer one is refused with an exception.
\<close>

theorem addVL_limit:
  "case addVL v s of
     Inl e \<Rightarrow> 918744 < length v \<and> e = LThrow ''lenlen''
   | Inr (offset, s') \<Rightarrow> length v \<le> 918744 \<and> offset = length s \<and>
       (\<exists>l. getVL offset (s' @ rest) = Inr (Some (v, l)) \<and> int (length s) + l = int (length s'))"
proof (cases "length v \<le> 918744")
  case True
  with addVL_bytes [OF True, of s] getVL_bytes [OF True, of s rest] show ?thesis by simp
next
  case False
  then show ?thesis using addVL_too_long by simp
qed

text \<open>
  reading a variable length field whose first byte is 255 throws: the length of the length is decoded
  before the block that turns exceptions into the answer false.
\<close>

theorem getVL_throws_on_255:
  assumes "get8 offset s = Some 255"
  shows "getVL offset s = Inl (LThrow ''b1>254'') \<and> getVLLength offset s = Inl (LThrow ''b1>254'')"
  using assms by (simp_all add: getVL_def getVLLength_def vl_length_def decodeLengthLength_def)

theorem getVL_throws_on_255_witness: "getVL 0 [255] = Inl (LThrow ''b1>254'')"
  using getVL_throws_on_255 [of 0 "[255]"] by (simp add: get8_def)

text \<open>
  Comparing two keys byte by byte from the most significant byte is the comparison of the numbers.
\<close>

theorem key_compare_numeric:
  "(key_compare a b < 0 \<longleftrightarrow> a < b) \<and> (key_compare a b = 0 \<longleftrightarrow> a = b) \<and> (key_compare a b > 0 \<longleftrightarrow> a > b)"
  by (auto simp: key_compare_spec word_less_nat_alt word_unat_eq_iff)

end
