(* ===== verification/LedgerView.thy ===== *)
theory LedgerView
  imports Serializer OrderedMap
begin

text \<open>
  The interfaces of the ledger views (\<open>src/ripple/ledger/ReadView.h\<close>, \<open>RawView.h\<close> and
  \<open>src/ripple/protocol/Keylet.h\<close>): ledger entries (\<open>SLE\<close>), keylets, the read interface and
  the interface of raw changes.

  An \<open>SLE\<close> is shared through \<open>std::shared_ptr\<close>: the tables of the views hold addresses into
  a heap of entries, so that what a client writes through a peeked pointer is visible to every table that
  holds it. The key and the type of an entry never change; the body is left abstract. \<open>read\<close> gives
  the entry as it is at the time of the call.

  The abstract functions of \<open>ReadView\<close> and \<open>RawView\<close> are records of functions, as a derived
  class supplies them; what each of them promises is stated by \<open>read_ok\<close> and by the locales
  \<open>readable\<close> and \<open>raw_target\<close>.
\<close>

section \<open>Ledger entries and keylets\<close>

datatype LedgerEntryType = ltANY | ltCHILD | ltINVALID | ltACCOUNT_ROOT | ltDIR_NODE | ltDIVIDEND
  | ltRIPPLE_STATE | ltTICKET | ltSIGNER_LIST | ltOFFER | ltLEDGER_HASHES | ltAMENDMENTS
  | ltFEE_SETTINGS | ltNICKNAME | ltNotUsed01

record 'b SLE =
  sle_key :: uint256
  sle_type :: LedgerEntryType
  sle_body :: 'b

record Keylet =
  kl_type :: LedgerEntryType
  kl_key :: uint256

definition keylet_check :: "Keylet \<Rightarrow> 'b SLE \<Rightarrow> (led_error, bool) result" where
  "keylet_check k sle =
     (if kl_type k = ltANY then Inr True
      else if kl_type k = ltINVALID then Inr False
      else if kl_type k = ltCHILD then
        bind_r (led_assert (sle_type sle \<noteq> ltDIR_NODE)) (\<lambda>_. Inr (sle_type sle \<noteq> ltDIR_NODE))
      else bind_r (led_assert (sle_type sle = kl_type k)) (\<lambda>_. Inr (sle_type sle = kl_type k)))"

definition keylet_unchecked :: "uint256 \<Rightarrow> Keylet" where
  "keylet_unchecked key = \<lparr>kl_type = ltANY, kl_key = key\<rparr>"

lemma keylet_unchecked_simps [simp]: "kl_key (keylet_unchecked k) = k" "keylet_check (keylet_unchecked k) s = Inr True"
  by (simp_all add: keylet_unchecked_def keylet_check_def)

text \<open>The heap of entries: an address is an index, \<open>make_shared\<close> appends.\<close>

type_synonym 'b sle_heap = "'b SLE list"

definition make_sle :: "'b SLE \<Rightarrow> 'b sle_heap \<Rightarrow> nat \<times> 'b sle_heap" where
  "make_sle s h = (length h, h @ [s])"

text \<open>A client changes fields of the entry it points to.\<close>

definition write_sle :: "nat \<Rightarrow> ('b \<Rightarrow> 'b) \<Rightarrow> 'b sle_heap \<Rightarrow> 'b sle_heap" where
  "write_sle a f h = (if a < length h then h[a := (h ! a)\<lparr>sle_body := f (sle_body (h ! a))\<rparr>] else h)"

text \<open>All entries of a heap have some property, which allocation and writes that respect it keep.\<close>

definition heap_good :: "('b SLE \<Rightarrow> bool) \<Rightarrow> 'b sle_heap \<Rightarrow> bool" where
  "heap_good good h = (\<forall>s \<in> set h. good s)"

lemma heap_good_append [simp]: "heap_good good (h @ [s]) \<longleftrightarrow> heap_good good h \<and> good s"
  by (auto simp: heap_good_def)

lemma heap_good_write:
  "heap_good good h \<Longrightarrow> (\<And>s. good s \<Longrightarrow> good (s\<lparr>sle_body := f (sle_body s)\<rparr>)) \<Longrightarrow> heap_good good (write_sle a f h)"
  unfolding heap_good_def write_sle_def by (auto dest!: set_update_subset_insert [THEN subsetD])

section \<open>Hexadecimal text of a key\<close>

definition charHex :: "nat \<Rightarrow> (led_error, char) result" where
  "charHex d = bind_r (led_assert (d < 16)) (\<lambda>_. Inr (''0123456789ABCDEF'' ! d))"

fun strHex :: "Blob \<Rightarrow> (led_error, string) result" where
  "strHex [] = Inr []"
| "strHex (c # cs) =
     bind_r (charHex (unat (drop_bit 4 c))) (\<lambda>hi.
     bind_r (charHex (unat (c AND 15))) (\<lambda>lo.
     bind_r (strHex cs) (\<lambda>s. Inr (hi # lo # s))))"

definition to_string_key :: "uint256 \<Rightarrow> (led_error, string) result" where
  "to_string_key a = strHex (be_bytes 32 a)"

section \<open>Ledger information\<close>

record Fees =
  fe_base :: "64 word"
  fe_units :: "32 word"
  fe_reserve :: "32 word"
  fe_increment :: "32 word"

text \<open>\<open>reserve + ownerCount * increment\<close>: the operands are promoted to the 64 bit
  \<open>std::size_t\<close> of the owner count.\<close>

definition accountReserve :: "64 word \<Rightarrow> Fees \<Rightarrow> 64 word" where
  "accountReserve ownerCount f = ucast (fe_reserve f) + ownerCount * ucast (fe_increment f)"

record LedgerInfo =
  li_open :: bool
  li_seq :: "32 word"
  li_parentCloseTime :: "32 word"
  li_hash :: uint256
  li_txHash :: uint256
  li_accountHash :: uint256
  li_parentHash :: uint256
  li_drops :: "64 word"
  li_validated :: bool
  li_accepted :: bool
  li_closeFlags :: "32 word"
  li_closeTimeResolution :: "32 word"
  li_closeTime :: "32 word"

definition getCloseAgree :: "LedgerInfo \<Rightarrow> bool" where
  "getCloseAgree i = (li_closeFlags i AND 1 = 0)"

section \<open>The read interface\<close>

text \<open>
  \<open>txRead\<close> returns the bytes that the constructors of \<open>STTx\<close> and of the metadata
  object receive.
\<close>

record 'b ReadView =
  rv_info :: LedgerInfo
  rv_fees :: Fees
  rv_exists :: "'b sle_heap \<Rightarrow> Keylet \<Rightarrow> (led_error, bool) result"
  rv_succ :: "uint256 \<Rightarrow> uint256 option \<Rightarrow> (led_error, uint256 option) result"
  rv_read :: "'b sle_heap \<Rightarrow> Keylet \<Rightarrow> (led_error, 'b SLE option) result"
  rv_txExists :: "uint256 \<Rightarrow> (led_error, bool) result"
  rv_txRead :: "uint256 \<Rightarrow> (led_error, Blob option \<times> Blob option) result"

text \<open>What a view holds, read with unchecked keylets. The key zero is not a key of any entry.\<close>

definition rv_contents :: "'b ReadView \<Rightarrow> 'b sle_heap \<Rightarrow> uint256 \<rightharpoonup> 'b SLE" where
  "rv_contents rv h key =
     (if key = 0 then None else case rv_read rv h (keylet_unchecked key) of Inl _ \<Rightarrow> None | Inr r \<Rightarrow> r)"

definition checked :: "Keylet \<Rightarrow> 'b SLE option \<Rightarrow> (led_error, 'b SLE option) result" where
  "checked k s = (case s of None \<Rightarrow> Inr None
     | Some sle \<Rightarrow> bind_r (keylet_check k sle) (\<lambda>b. Inr (if b then Some sle else None)))"

definition keylet_fits :: "Keylet \<Rightarrow> 'b SLE option \<Rightarrow> bool" where
  "keylet_fits k s = (case s of None \<Rightarrow> True | Some sle \<Rightarrow> keylet_check k sle = Inr True)"

text \<open>The successor of a key in the open interval that ends at \<open>lim\<close>.\<close>

definition below :: "uint256 option \<Rightarrow> uint256 \<Rightarrow> bool" where
  "below lim j = (case lim of None \<Rightarrow> True | Some l \<Rightarrow> j < l)"

definition is_succ :: "uint256 set \<Rightarrow> uint256 \<Rightarrow> uint256 option \<Rightarrow> uint256 option \<Rightarrow> bool" where
  "is_succ D key lim r = (case r of
      None \<Rightarrow> \<forall>j. j \<in> D \<and> key < j \<longrightarrow> \<not> below lim j
    | Some n \<Rightarrow> n \<in> D \<and> key < n \<and> below lim n \<and> (\<forall>j. j \<in> D \<and> key < j \<longrightarrow> n \<le> j))"

lemma is_succ_unique: "is_succ D key lim r \<Longrightarrow> is_succ D key lim r' \<Longrightarrow> r = r'"
  by (cases r; cases r') (auto simp: is_succ_def intro: antisym)

text \<open>The promises of the comments in \<open>ReadView.h\<close>, for entries stored under their own non-zero key.\<close>

definition keyed :: "(uint256 \<rightharpoonup> 'b SLE) \<Rightarrow> bool" where
  "keyed m = (m 0 = None \<and> (\<forall>k s. m k = Some s \<longrightarrow> sle_key s = k))"

definition read_ok :: "'b sle_heap \<Rightarrow> 'b ReadView \<Rightarrow> (uint256 \<rightharpoonup> 'b SLE) \<Rightarrow> bool" where
  "read_ok h rv m = (keyed m \<and>
     (\<forall>k. kl_key k \<noteq> 0 \<longrightarrow> rv_read rv h k = checked k (m (kl_key k))) \<and>
     (\<forall>k. kl_key k \<noteq> 0 \<longrightarrow> keylet_fits k (m (kl_key k)) \<longrightarrow> rv_exists rv h k = Inr (m (kl_key k) \<noteq> None)) \<and>
     (\<forall>key lim. \<exists>r. rv_succ rv key lim = Inr r \<and> is_succ (dom m) key lim r))"

text \<open>
  The view depends on the entries at the addresses of its footprint only: other entries may be
  allocated or changed.
\<close>

definition agree :: "nat set \<Rightarrow> 'b sle_heap \<Rightarrow> 'b sle_heap \<Rightarrow> bool" where
  "agree F h h' = (length h \<le> length h' \<and> (\<forall>a \<in> F. h' ! a = h ! a))"

definition view_ok :: "nat set \<Rightarrow> 'b sle_heap \<Rightarrow> 'b ReadView \<Rightarrow> (uint256 \<rightharpoonup> 'b SLE) \<Rightarrow> bool" where
  "view_ok F h rv m = (F \<subseteq> {..<length h} \<and> (\<forall>h'. agree F h h' \<longrightarrow> read_ok h' rv m))"

lemma checked_unchecked [simp]: "checked (keylet_unchecked k) s = Inr s"
  by (cases s) (simp_all add: checked_def)

lemma keylet_fits_unchecked [simp]: "keylet_fits (keylet_unchecked k) s"
  by (cases s) (simp_all add: keylet_fits_def)

lemma agree_refl [simp]: "agree F h h"
  by (simp add: agree_def)

lemma agree_trans: "agree F h h' \<Longrightarrow> agree F h' h'' \<Longrightarrow> agree F h h''"
  by (simp add: agree_def)

lemma agree_mono: "agree G h h' \<Longrightarrow> F \<subseteq> G \<Longrightarrow> agree F h h'"
  by (auto simp: agree_def)

lemma agree_make: "F \<subseteq> {..<length h} \<Longrightarrow> agree F h (snd (make_sle s h))"
  by (auto simp: agree_def make_sle_def nth_append)

lemma agree_write: "a \<notin> F \<Longrightarrow> agree F h (write_sle a f h)"
  by (auto simp: agree_def write_sle_def intro!: nth_list_update_neq)

lemma view_ok_read: "view_ok F h rv m \<Longrightarrow> read_ok h rv m"
  by (simp add: view_ok_def)

lemma view_ok_foot: "view_ok F h rv m \<Longrightarrow> F \<subseteq> {..<length h}"
  by (simp add: view_ok_def)

lemma view_ok_agree: "view_ok F h rv m \<Longrightarrow> agree F h h' \<Longrightarrow> view_ok F h' rv m"
  unfolding view_ok_def by (auto intro: agree_trans simp: agree_def)

lemma view_ok_mono: "view_ok F h rv m \<Longrightarrow> F \<subseteq> G \<Longrightarrow> G \<subseteq> {..<length h} \<Longrightarrow> view_ok G h rv m"
  unfolding view_ok_def by (auto intro: agree_mono)

lemma read_ok_keyed: "read_ok h rv m \<Longrightarrow> keyed m"
  by (simp add: read_ok_def)

lemma read_ok_contents: "read_ok h rv m \<Longrightarrow> rv_contents rv h = m"
  by (auto simp: read_ok_def rv_contents_def keyed_def fun_eq_iff)

lemma view_ok_contents: "view_ok F h rv m \<Longrightarrow> agree F h h' \<Longrightarrow> rv_contents rv h' = m"
  by (simp add: view_ok_def read_ok_contents)

lemma read_ok_exists:
  "read_ok h rv m \<Longrightarrow> kl_key k \<noteq> 0 \<Longrightarrow> keylet_fits k (m (kl_key k)) \<Longrightarrow> rv_exists rv h k = Inr (m (kl_key k) \<noteq> None)"
  by (simp add: read_ok_def)

lemma read_ok_succ: "read_ok h rv m \<Longrightarrow> \<exists>r. rv_succ rv key lim = Inr r \<and> is_succ (dom m) key lim r"
  by (simp add: read_ok_def)

section \<open>The interface of raw changes\<close>

record ('b, 's) RawView =
  rw_erase :: "'b sle_heap \<Rightarrow> nat \<Rightarrow> 's \<Rightarrow> (led_error, 's) result"
  rw_insert :: "'b sle_heap \<Rightarrow> nat \<Rightarrow> 's \<Rightarrow> (led_error, 's) result"
  rw_replace :: "'b sle_heap \<Rightarrow> nat \<Rightarrow> 's \<Rightarrow> (led_error, 's) result"
  rw_destroyXRP :: "64 word \<Rightarrow> 's \<Rightarrow> 's"
  rw_createXRP :: "64 word \<Rightarrow> 's \<Rightarrow> 's"

record ('b, 's) TxsRawView = "('b, 's) RawView" +
  rw_txInsert :: "uint256 \<Rightarrow> Blob \<Rightarrow> Blob option \<Rightarrow> 's \<Rightarrow> (led_error, 's) result"

section \<open>Contracts\<close>

text \<open>A view that a state gives: it keeps the promises of the read interface as long as the entries of
  its footprint are not changed.\<close>

locale readable =
  fixes view :: "'s \<Rightarrow> 'b ReadView"
    and inv :: "'b sle_heap \<Rightarrow> 's \<Rightarrow> bool"
    and foot :: "'s \<Rightarrow> nat set"
    and contents :: "'b sle_heap \<Rightarrow> 's \<Rightarrow> uint256 \<rightharpoonup> 'b SLE"
  assumes promise: "inv h s \<Longrightarrow> view_ok (foot s) h (view s) (contents h s)"
begin

text \<open>Entries that others create or change outside the footprint are not seen.\<close>

lemma isolated:
  assumes "inv h s" "agree (foot s) h h'" "kl_key k \<noteq> 0"
  shows "rv_read (view s) h' k = rv_read (view s) h k"
  using view_ok_read [OF promise [OF assms(1)]] view_ok_read [OF view_ok_agree [OF promise [OF assms(1)] assms(2)]] assms(3)
  by (simp add: read_ok_def)

lemma write_isolated:
  "inv h s \<Longrightarrow> a \<notin> foot s \<Longrightarrow> kl_key k \<noteq> 0 \<Longrightarrow> rv_read (view s) (write_sle a f h) k = rv_read (view s) h k"
  by (rule isolated) (simp_all add: agree_write)

end

text \<open>
  A target of raw changes: under the requirements that \<open>RawView.h\<close> states, every change succeeds
  and is the update of the map from keys to entries.
\<close>

locale raw_target =
  fixes to :: "('b, 's, 'z) RawView_scheme"
    and inv :: "'b sle_heap \<Rightarrow> 's \<Rightarrow> bool"
    and contents :: "'b sle_heap \<Rightarrow> 's \<Rightarrow> uint256 \<rightharpoonup> 'b SLE"
    and drops :: "'s \<Rightarrow> 64 word"
  assumes erase: "inv h s \<Longrightarrow> a < length h \<Longrightarrow> contents h s (sle_key (h ! a)) \<noteq> None \<Longrightarrow>
      \<exists>s'. rw_erase to h a s = Inr s' \<and> inv h s' \<and> drops s' = drops s \<and>
        contents h s' = (contents h s)(sle_key (h ! a) := None)"
    and insert: "inv h s \<Longrightarrow> a < length h \<Longrightarrow> sle_key (h ! a) \<noteq> 0 \<Longrightarrow> contents h s (sle_key (h ! a)) = None \<Longrightarrow>
      \<exists>s'. rw_insert to h a s = Inr s' \<and> inv h s' \<and> drops s' = drops s \<and>
        contents h s' = (contents h s)(sle_key (h ! a) \<mapsto> h ! a)"
    and replace: "inv h s \<Longrightarrow> a < length h \<Longrightarrow> contents h s (sle_key (h ! a)) \<noteq> None \<Longrightarrow>
      \<exists>s'. rw_replace to h a s = Inr s' \<and> inv h s' \<and> drops s' = drops s \<and>
        contents h s' = (contents h s)(sle_key (h ! a) \<mapsto> h ! a)"
    and destroy: "inv h s \<Longrightarrow> inv h (rw_destroyXRP to x s) \<and> contents h (rw_destroyXRP to x s) = contents h s \<and>
      drops (rw_destroyXRP to x s) = drops s - x"
    and create: "inv h s \<Longrightarrow> inv h (rw_createXRP to x s) \<and> contents h (rw_createXRP to x s) = contents h s \<and>
      drops (rw_createXRP to x s) = drops s + x"

end
