(* ===== verification/StateTable.thy ===== *)
theory StateTable
  imports LedgerView
begin

text \<open>
  What the two tables of buffered changes have in common (\<open>detail/RawStateTable.h\<close> and
  \<open>detail/ApplyStateTable.h\<close>): a \<open>std::map\<close> from keys to an action and an entry, laid over
  the contents of a base view, and the search for the successor of a key in both. The actions are a
  parameter: \<open>er\<close> tells which of them erases, \<open>ins\<close> which of them inserts.
\<close>

type_synonym 'act items_t = "(uint256 \<times> 'act \<times> nat) list"

section \<open>The successor of a key\<close>

text \<open>The loop over the base: it goes on while the key found is erased in the table.\<close>

partial_function (option) base_loop ::
  "(uint256 \<Rightarrow> (led_error, uint256 option) result) \<Rightarrow> (uint256 \<Rightarrow> bool) \<Rightarrow> uint256 \<Rightarrow> (led_error, uint256 option) result option"
where
  "base_loop base_succ erased key =
     (case base_succ key of
        Inl e \<Rightarrow> Some (Inl e)
      | Inr None \<Rightarrow> Some (Inr None)
      | Inr (Some n) \<Rightarrow> if erased n then base_loop base_succ erased n else Some (Inr (Some n)))"

definition item_erased :: "('act \<Rightarrow> bool) \<Rightarrow> 'act items_t \<Rightarrow> uint256 \<Rightarrow> bool" where
  "item_erased er items key = (case map_of items key of None \<Rightarrow> False | Some (act, _) \<Rightarrow> er act)"

text \<open>The loop from \<open>items_.upper_bound (key)\<close> to the first entry that is not erased.\<close>

definition list_succ :: "('act \<Rightarrow> bool) \<Rightarrow> 'act items_t \<Rightarrow> uint256 \<Rightarrow> uint256 option" where
  "list_succ er items key =
     map_option fst (find (\<lambda>(_, act, _). \<not> er act) (dropWhile (\<lambda>(k, _). k \<le> key) items))"

definition lower_key :: "uint256 option \<Rightarrow> uint256 option \<Rightarrow> uint256 option" where
  "lower_key next own = (case own of None \<Rightarrow> next
     | Some k \<Rightarrow> (case next of None \<Rightarrow> Some k | Some n \<Rightarrow> if n > k then Some k else next))"

definition cut_at :: "uint256 option \<Rightarrow> uint256 option \<Rightarrow> uint256 option" where
  "cut_at lim next = (case (lim, next) of (Some l, Some n) \<Rightarrow> if n \<ge> l then None else next | _ \<Rightarrow> next)"

definition table_succ ::
  "('act \<Rightarrow> bool) \<Rightarrow> 'b ReadView \<Rightarrow> uint256 \<Rightarrow> uint256 option \<Rightarrow> 'act items_t \<Rightarrow> (led_error, uint256 option) result"
where
  "table_succ er base key lim items =
     (case base_loop (\<lambda>k. rv_succ base k lim) (item_erased er items) key of
        None \<Rightarrow> Inl LDiverges
      | Some r \<Rightarrow> bind_r r (\<lambda>next. Inr (cut_at lim (lower_key next (list_succ er items key)))))"

section \<open>The contents of a table over a base\<close>

definition overlay :: "('act \<Rightarrow> bool) \<Rightarrow> 'b sle_heap \<Rightarrow> 'act items_t \<Rightarrow> (uint256 \<rightharpoonup> 'b SLE) \<Rightarrow> uint256 \<rightharpoonup> 'b SLE" where
  "overlay er h items m key = (case map_of items key of
      None \<Rightarrow> m key
    | Some (act, a) \<Rightarrow> if er act then None else Some (h ! a))"

definition table_ok :: "('act \<Rightarrow> bool) \<Rightarrow> 'b sle_heap \<Rightarrow> (uint256 \<rightharpoonup> 'b SLE) \<Rightarrow> 'act items_t \<Rightarrow> bool" where
  "table_ok ins h m items = (om_ok (<) items \<and>
     (\<forall>k act a. map_of items k = Some (act, a) \<longrightarrow>
        a < length h \<and> sle_key (h ! a) = k \<and> k \<noteq> 0 \<and> (ins act \<longleftrightarrow> m k = None)))"

definition table_foot :: "'act items_t \<Rightarrow> nat set" where
  "table_foot items = (\<lambda>e. snd (snd e)) ` set items"

interpretation keys: strict_total "(<) :: uint256 \<Rightarrow> uint256 \<Rightarrow> bool"
  by unfold_locales auto

lemma table_okD:
  "table_ok ins h m items \<Longrightarrow> map_of items k = Some (act, a) \<Longrightarrow>
    a < length h \<and> sle_key (h ! a) = k \<and> k \<noteq> 0 \<and> (ins act \<longleftrightarrow> m k = None)"
  by (simp add: table_ok_def)

lemma table_ok_sorted: "table_ok ins h m items \<Longrightarrow> om_ok (<) items"
  by (simp add: table_ok_def)

lemma table_ok_Nil [simp]: "table_ok ins h m []"
  by (simp add: table_ok_def om_ok_def)

lemma overlay_Nil [simp]: "overlay er h [] m = m"
  by (simp add: overlay_def fun_eq_iff)

lemma table_foot_simps [simp]: "table_foot [] = {}" "table_foot (e # items) = insert (snd (snd e)) (table_foot items)"
  by (auto simp: table_foot_def split: prod.splits)

lemma table_foot_mem: "map_of items k = Some (act, a) \<Longrightarrow> a \<in> table_foot items"
  unfolding table_foot_def by (auto dest!: map_of_SomeD intro!: rev_image_eqI)

lemma table_foot_changed:
  "table_foot (om_insert lt k e items) = insert (snd e) (table_foot items)"
  "table_foot (om_update k e items) \<subseteq> insert (snd e) (table_foot items)"
  "table_foot (om_erase k items) \<subseteq> table_foot items"
  by (auto simp: table_foot_def om_update_def om_erase_def split: if_splits)

lemma table_foot_bound:
  assumes "table_ok ins h m items"
  shows "table_foot items \<subseteq> {..<length h}"
proof
  fix a
  assume "a \<in> table_foot items"
  then obtain k act where "(k, act, a) \<in> set items" by (auto simp: table_foot_def)
  then have "map_of items k = Some (act, a)"
    using keys.om_ok_distinct [OF table_ok_sorted [OF assms]] by (rule map_of_is_SomeI [rotated])
  with table_okD [OF assms] show "a \<in> {..<length h}" by blast
qed

lemma overlay_agree: "agree (table_foot items) h h' \<Longrightarrow> overlay er h' items m = overlay er h items m"
  by (auto simp: overlay_def agree_def fun_eq_iff table_foot_mem split: option.split)

lemma table_ok_agree: "table_ok ins h m items \<Longrightarrow> agree (table_foot items) h h' \<Longrightarrow> table_ok ins h' m items"
  unfolding table_ok_def agree_def by (metis table_foot_mem order_less_le_trans)

lemma keyed_overlay: "table_ok ins h m items \<Longrightarrow> keyed m \<Longrightarrow> keyed (overlay er h items m)"
  unfolding keyed_def overlay_def by (auto dest: table_okD split: option.splits if_splits)

section \<open>Changing one item\<close>

lemma overlay_change:
  "map_of items' = (map_of items)(k \<mapsto> (act, a)) \<Longrightarrow>
    overlay er h items' m = (overlay er h items m)(k := if er act then None else Some (h ! a))"
  by (simp add: overlay_def fun_eq_iff)

lemma table_ok_change:
  "table_ok ins h m items \<Longrightarrow> om_ok (<) items' \<Longrightarrow> map_of items' = (map_of items)(k := e) \<Longrightarrow>
    (\<And>act a. e = Some (act, a) \<Longrightarrow> a < length h \<and> sle_key (h ! a) = k \<and> k \<noteq> 0 \<and> (ins act \<longleftrightarrow> m k = None)) \<Longrightarrow>
    table_ok ins h m items'"
  by (auto simp: table_ok_def split: if_splits)

lemma table_emplaced:
  assumes "table_ok ins h m items" "map_of items k = None" "a < length h" "sle_key (h ! a) = k" "k \<noteq> 0"
    "ins act \<longleftrightarrow> m k = None"
  shows "table_ok ins h m (om_insert (<) k (act, a) items)"
    and "overlay er h (om_insert (<) k (act, a) items) m = (overlay er h items m)(k := if er act then None else Some (h ! a))"
proof -
  have m: "map_of (om_insert (<) k (act, a) items) = (map_of items)(k \<mapsto> (act, a))"
    using assms(2) by (rule map_of_om_insert)
  then show "overlay er h (om_insert (<) k (act, a) items) m = (overlay er h items m)(k := if er act then None else Some (h ! a))"
    by (rule overlay_change)
  show "table_ok ins h m (om_insert (<) k (act, a) items)"
    using table_ok_change [OF assms(1) keys.om_insert_ok [OF table_ok_sorted [OF assms(1)] assms(2)] m] assms(3-6) by simp
qed

lemma table_updated:
  assumes "table_ok ins h m items" "map_of items k = Some e" "a < length h" "sle_key (h ! a) = k"
    "ins act \<longleftrightarrow> ins (fst e)"
  shows "table_ok ins h m (om_update k (act, a) items)"
    and "overlay er h (om_update k (act, a) items) m = (overlay er h items m)(k := if er act then None else Some (h ! a))"
proof -
  have m: "map_of (om_update k (act, a) items) = (map_of items)(k \<mapsto> (act, a))"
    using assms(2) by (simp add: map_of_om_update fun_eq_iff)
  then show "overlay er h (om_update k (act, a) items) m = (overlay er h items m)(k := if er act then None else Some (h ! a))"
    by (rule overlay_change)
  show "table_ok ins h m (om_update k (act, a) items)"
    using table_ok_change [OF assms(1) keys.om_update_ok [OF table_ok_sorted [OF assms(1)]] m]
      table_okD [OF assms(1), of k "fst e" "snd e"] assms(2-5) by simp
qed

lemma table_removed:
  assumes "table_ok ins h m items" "map_of items k = Some (act, a)" "ins act"
  shows "table_ok ins h m (om_erase k items)"
    and "overlay er h (om_erase k items) m = (overlay er h items m)(k := None)"
proof -
  have m: "map_of (om_erase k items) = (map_of items)(k := None)" by (rule map_of_om_erase)
  with table_okD [OF assms(1,2)] assms(3) show "overlay er h (om_erase k items) m = (overlay er h items m)(k := None)"
    by (auto simp: overlay_def fun_eq_iff)
  show "table_ok ins h m (om_erase k items)"
    by (rule table_ok_change [OF assms(1) keys.om_erase_ok [OF table_ok_sorted [OF assms(1)]] m]) simp
qed

section \<open>Correctness of the search\<close>

lemma is_succ_cong: "(\<And>j. key < j \<Longrightarrow> j \<in> D \<longleftrightarrow> j \<in> E) \<Longrightarrow> is_succ D key lim r \<longleftrightarrow> is_succ E key lim r"
  by (auto simp: is_succ_def split: option.split)

lemma base_loop_spec:
  assumes "\<forall>key. \<exists>r. base_succ key = Inr r \<and> is_succ D key lim r"
  shows "\<exists>r. base_loop base_succ erased key = Some (Inr r) \<and> is_succ {j \<in> D. \<not> erased j} key lim r"
proof (induction "2 ^ 256 - unat key" arbitrary: key rule: less_induct)
  case less
  from assms obtain r where r: "base_succ key = Inr r" "is_succ D key lim r" by blast
  show ?case
  proof (cases r)
    case None
    with r show ?thesis by (subst base_loop.simps) (auto simp: is_succ_def)
  next
    case (Some n)
    with r have n: "n \<in> D" "key < n" "below lim n" "\<And>j. j \<in> D \<Longrightarrow> key < j \<Longrightarrow> n \<le> j" by (auto simp: is_succ_def)
    show ?thesis
    proof (cases "erased n")
      case False
      with r Some n show ?thesis by (subst base_loop.simps) (auto simp: is_succ_def)
    next
      case True
      have "2 ^ 256 - unat n < (2 ^ 256 - unat key :: nat)"
        using n(2) unsigned_less [of n, where ?'a = nat] by (intro diff_less_mono2) (simp_all add: word_less_nat_alt)
      from less [OF this] obtain r' where r': "base_loop base_succ erased n = Some (Inr r')"
        "is_succ {j \<in> D. \<not> erased j} n lim r'" by blast
      have "is_succ {j \<in> D. \<not> erased j} key lim r'"
        using r'(2) n True unfolding is_succ_def by (cases r') (fastforce simp: order_le_less)+
      with r(1) Some True r'(1) show ?thesis by (subst base_loop.simps) auto
    qed
  qed
qed

lemma list_succ_spec:
  assumes "om_ok (<) items"
  shows "is_succ {j. \<exists>act a. map_of items j = Some (act, a) \<and> \<not> er act} key None (list_succ er items key)"
  using assms
proof (induction items)
  case Nil
  then show ?case by (simp add: is_succ_def list_succ_def)
next
  case (Cons e items)
  obtain k act a where e: "e = (k, act, a)" by (cases e)
  from Cons.prems e have sorted: "om_ok (<) items" "\<forall>e \<in> set items. k < fst e" by (auto simp: om_ok_def)
  from sorted(2) have later: "k < j" if "map_of items j = Some v" for j v using map_of_SomeD [OF that] by auto
  then have new: "map_of items k = None" by (cases "map_of items k") auto
  note IH = Cons.IH [OF sorted(1)]
  show ?case
  proof (cases "key < k \<and> \<not> er act")
    case True
    then have "list_succ er (e # items) key = Some k" by (auto simp: list_succ_def e dest: leD)
    with True later e show ?thesis by (auto simp: is_succ_def below_def dest: less_imp_le)
  next
    case False
    have all: "dropWhile (\<lambda>(k, _). k \<le> key) items = items" if "key < k"
      using sorted(2) that by (cases items) auto
    have "list_succ er (e # items) key = list_succ er items key"
      using False all by (cases "key < k") (auto simp: list_succ_def e dest: leD)
    moreover have "is_succ {j. \<exists>act a. map_of (e # items) j = Some (act, a) \<and> \<not> er act} key None r \<longleftrightarrow>
        is_succ {j. \<exists>act a. map_of items j = Some (act, a) \<and> \<not> er act} key None r" for r
      by (rule is_succ_cong) (use False new e in auto)
    ultimately show ?thesis using IH by simp
  qed
qed

lemma lower_key_spec:
  assumes "is_succ B key lim r" "is_succ I key None r'"
  shows "is_succ (B \<union> I) key lim (cut_at lim (lower_key r r'))"
  using assms
  by (cases r; cases r'; cases lim) (auto simp: is_succ_def cut_at_def lower_key_def below_def)


text \<open>The search in the base and in the table together is the search in the overlay; it always ends.\<close>

lemma table_succ_spec:
  assumes "table_ok ins h m items" "read_ok h' base m"
  shows "\<exists>r. table_succ er base key lim items = Inr r \<and> is_succ (dom (overlay er h items m)) key lim r"
proof -
  have "\<forall>key. \<exists>r. rv_succ base key lim = Inr r \<and> is_succ (dom m) key lim r"
    using assms(2) by (simp add: read_ok_def)
  from base_loop_spec [OF this] obtain r where
    r: "base_loop (\<lambda>k. rv_succ base k lim) (item_erased er items) key = Some (Inr r)"
      "is_succ {j \<in> dom m. \<not> item_erased er items j} key lim r" by blast
  have "dom (overlay er h items m) =
      {j \<in> dom m. \<not> item_erased er items j} \<union> {j. \<exists>act a. map_of items j = Some (act, a) \<and> \<not> er act}"
    by (auto simp: overlay_def item_erased_def split: option.splits if_splits)
  with lower_key_spec [OF r(2) list_succ_spec [OF table_ok_sorted [OF assms(1)], of er key]] r(1)
  show ?thesis by (simp add: table_succ_def)
qed

section \<open>Reading through a table\<close>

definition table_read ::
  "('act \<Rightarrow> bool) \<Rightarrow> 'b ReadView \<Rightarrow> 'b sle_heap \<Rightarrow> Keylet \<Rightarrow> 'act items_t \<Rightarrow> (led_error, 'b SLE option) result"
where
  "table_read er base h k items = (case map_of items (kl_key k) of
      None \<Rightarrow> rv_read base h k
    | Some (act, a) \<Rightarrow> checked k (if er act then None else Some (h ! a)))"

definition table_exists ::
  "('act \<Rightarrow> bool) \<Rightarrow> 'b ReadView \<Rightarrow> 'b sle_heap \<Rightarrow> Keylet \<Rightarrow> 'act items_t \<Rightarrow> (led_error, bool) result"
where
  "table_exists er base h k items = (case map_of items (kl_key k) of
      None \<Rightarrow> rv_exists base h k
    | Some (act, a) \<Rightarrow> if er act then Inr False else keylet_check k (h ! a))"

lemma table_read_spec:
  "read_ok h base m \<Longrightarrow> kl_key k \<noteq> 0 \<Longrightarrow> table_read er base h k items = checked k (overlay er h items m (kl_key k))"
  by (auto simp: table_read_def overlay_def read_ok_def split: option.split)

lemma table_exists_spec:
  assumes "read_ok h base m" "kl_key k \<noteq> 0" "keylet_fits k (overlay er h items m (kl_key k))"
  shows "table_exists er base h k items = Inr (overlay er h items m (kl_key k) \<noteq> None)"
  using assms(3) read_ok_exists [OF assms(1,2)]
  by (auto simp: table_exists_def overlay_def keylet_fits_def split: option.splits if_splits prod.splits)

text \<open>Reading through the table keeps the promises of the read interface.\<close>

lemma table_view_ok:
  assumes "view_ok F h base m" "table_ok ins h m items"
    and "\<And>h k. kl_key k \<noteq> 0 \<Longrightarrow> rv_read rv h k = table_read er base h k items"
    and "\<And>h k. kl_key k \<noteq> 0 \<Longrightarrow> rv_exists rv h k = table_exists er base h k items"
    and "\<And>key lim. rv_succ rv key lim = table_succ er base key lim items"
  shows "view_ok (F \<union> table_foot items) h rv (overlay er h items m)"
  unfolding view_ok_def
proof (intro conjI allI impI)
  show "F \<union> table_foot items \<subseteq> {..<length h}"
    using view_ok_foot [OF assms(1)] table_foot_bound [OF assms(2)] by simp
  fix h' :: "'a sle_heap"
  assume "agree (F \<union> table_foot items) h h'"
  then have ag: "agree F h h'" "agree (table_foot items) h h'" by (auto intro: agree_mono)
  have base: "read_ok h' base m" by (rule view_ok_read [OF view_ok_agree [OF assms(1) ag(1)]])
  have ok: "table_ok ins h' m items" by (rule table_ok_agree [OF assms(2) ag(2)])
  have same: "overlay er h' items m = overlay er h items m" by (rule overlay_agree [OF ag(2)])
  show "read_ok h' rv (overlay er h items m)"
    unfolding read_ok_def same [symmetric]
    using keyed_overlay [OF ok read_ok_keyed [OF base]] table_succ_spec [OF ok base]
    by (simp add: assms(3-5) table_read_spec [OF base] table_exists_spec [OF base] del: not_None_eq)
qed

end
