(* ===== verification/RawStateTable.thy ===== *)
theory RawStateTable
  imports StateTable
begin

text \<open>
  The table of raw changes over a base view (\<open>src/ripple/ledger/detail/RawStateTable.h\<close>,
  \<open>impl/RawStateTable.cpp\<close>). Shown here: reading through the table is reading the overlay, under
  the requirements of \<open>RawView.h\<close> every change is the update of that map, and applying the table
  to a target that holds what the base holds makes it hold the overlay.
\<close>

datatype RAction = Action_erase | Action_insert | Action_replace

record RawStateTable =
  rt_items :: "RAction items_t"
  rt_dropsDestroyed :: "64 word"
  rt_dropsCreated :: "64 word"

definition RawStateTable_init :: RawStateTable where
  "RawStateTable_init = \<lparr>rt_items = [], rt_dropsDestroyed = 0, rt_dropsCreated = 0\<rparr>"

section \<open>Operations\<close>

fun rst_change :: "('b, 's, 'z) RawView_scheme \<Rightarrow> 'b sle_heap \<Rightarrow> uint256 \<times> RAction \<times> nat \<Rightarrow> 's \<Rightarrow> (led_error, 's) result" where
  "rst_change to h (_, Action_erase, a) s = rw_erase to h a s"
| "rst_change to h (_, Action_insert, a) s = rw_insert to h a s"
| "rst_change to h (_, Action_replace, a) s = rw_replace to h a s"

definition rst_apply :: "('b, 's, 'z) RawView_scheme \<Rightarrow> 'b sle_heap \<Rightarrow> RawStateTable \<Rightarrow> 's \<Rightarrow> (led_error, 's) result" where
  "rst_apply to h t s =
     fold_r (rst_change to h) (rt_items t) (rw_destroyXRP to (rt_dropsDestroyed t) (rw_createXRP to (rt_dropsCreated t) s))"

definition rst_exists :: "'b ReadView \<Rightarrow> 'b sle_heap \<Rightarrow> Keylet \<Rightarrow> RawStateTable \<Rightarrow> (led_error, bool) result" where
  "rst_exists base h k t =
     bind_r (led_assert (kl_key k \<noteq> 0)) (\<lambda>_.
       case map_of (rt_items t) (kl_key k) of
         None \<Rightarrow> rv_exists base h k
       | Some (act, a) \<Rightarrow> if act = Action_erase then Inr False else keylet_check k (h ! a))"

definition rst_succ ::
  "'b ReadView \<Rightarrow> uint256 \<Rightarrow> uint256 option \<Rightarrow> RawStateTable \<Rightarrow> (led_error, uint256 option) result"
where
  "rst_succ base key lim t = table_succ (\<lambda>act. act = Action_erase) base key lim (rt_items t)"

definition rst_erase :: "'b sle_heap \<Rightarrow> nat \<Rightarrow> RawStateTable \<Rightarrow> (led_error, RawStateTable) result" where
  "rst_erase h sle t =
     (let key = sle_key (h ! sle); (items, inserted) = om_emplace (<) key (Action_erase, sle) (rt_items t) in
      if inserted then Inr (t\<lparr>rt_items := items\<rparr>)
      else case map_of (rt_items t) key of
        None \<Rightarrow> Inl LMissing
      | Some (Action_erase, _) \<Rightarrow> Inl (LLogic ''RawStateTable::erase: already erased'')
      | Some (Action_insert, _) \<Rightarrow> Inr (t\<lparr>rt_items := om_erase key (rt_items t)\<rparr>)
      | Some (Action_replace, _) \<Rightarrow> Inr (t\<lparr>rt_items := om_update key (Action_erase, sle) (rt_items t)\<rparr>))"

definition rst_insert :: "'b sle_heap \<Rightarrow> nat \<Rightarrow> RawStateTable \<Rightarrow> (led_error, RawStateTable) result" where
  "rst_insert h sle t =
     (let key = sle_key (h ! sle); (items, inserted) = om_emplace (<) key (Action_insert, sle) (rt_items t) in
      if inserted then Inr (t\<lparr>rt_items := items\<rparr>)
      else case map_of (rt_items t) key of
        None \<Rightarrow> Inl LMissing
      | Some (Action_erase, _) \<Rightarrow> Inr (t\<lparr>rt_items := om_update key (Action_replace, sle) (rt_items t)\<rparr>)
      | Some (Action_insert, _) \<Rightarrow> Inl (LLogic ''RawStateTable::insert: already inserted'')
      | Some (Action_replace, _) \<Rightarrow> Inl (LLogic ''RawStateTable::insert: already exists''))"

definition rst_replace :: "'b sle_heap \<Rightarrow> nat \<Rightarrow> RawStateTable \<Rightarrow> (led_error, RawStateTable) result" where
  "rst_replace h sle t =
     (let key = sle_key (h ! sle); (items, inserted) = om_emplace (<) key (Action_replace, sle) (rt_items t) in
      if inserted then Inr (t\<lparr>rt_items := items\<rparr>)
      else case map_of (rt_items t) key of
        None \<Rightarrow> Inl LMissing
      | Some (Action_erase, _) \<Rightarrow> Inl (LLogic ''RawStateTable::replace: was erased'')
      | Some (act, _) \<Rightarrow> Inr (t\<lparr>rt_items := om_update key (act, sle) (rt_items t)\<rparr>))"

definition rst_read :: "'b ReadView \<Rightarrow> 'b sle_heap \<Rightarrow> Keylet \<Rightarrow> RawStateTable \<Rightarrow> (led_error, 'b SLE option) result" where
  "rst_read base h k t =
     (case map_of (rt_items t) (kl_key k) of
        None \<Rightarrow> rv_read base h k
      | Some (act, a) \<Rightarrow>
          if act = Action_erase then Inr None
          else bind_r (keylet_check k (h ! a)) (\<lambda>b. Inr (if b then Some (h ! a) else None)))"

definition rst_destroyXRP :: "64 word \<Rightarrow> RawStateTable \<Rightarrow> RawStateTable" where
  "rst_destroyXRP feeDrops t = t\<lparr>rt_dropsDestroyed := rt_dropsDestroyed t + feeDrops\<rparr>"

definition rst_createXRP :: "64 word \<Rightarrow> RawStateTable \<Rightarrow> RawStateTable" where
  "rst_createXRP feeDrops t = t\<lparr>rt_dropsCreated := rt_dropsCreated t + feeDrops\<rparr>"

section \<open>The map a table stands for\<close>

abbreviation rst_contents :: "'b sle_heap \<Rightarrow> RawStateTable \<Rightarrow> (uint256 \<rightharpoonup> 'b SLE) \<Rightarrow> uint256 \<rightharpoonup> 'b SLE" where
  "rst_contents h t m \<equiv> overlay (\<lambda>act. act = Action_erase) h (rt_items t) m"

abbreviation rst_ok :: "'b sle_heap \<Rightarrow> (uint256 \<rightharpoonup> 'b SLE) \<Rightarrow> RawStateTable \<Rightarrow> bool" where
  "rst_ok h m t \<equiv> table_ok (\<lambda>act. act = Action_insert) h m (rt_items t)"

definition rst_net :: "RawStateTable \<Rightarrow> 64 word" where
  "rst_net t = rt_dropsCreated t - rt_dropsDestroyed t"

lemma rst_reads:
  "rst_read base h k t = table_read (\<lambda>act. act = Action_erase) base h k (rt_items t)"
  "kl_key k \<noteq> 0 \<Longrightarrow> rst_exists base h k t = table_exists (\<lambda>act. act = Action_erase) base h k (rt_items t)"
  by (auto simp: rst_read_def table_read_def rst_exists_def table_exists_def checked_def split: option.split)

section \<open>Changes\<close>

lemma rst_erase_spec:
  assumes "rst_ok h m t" "sle < length h" "rst_contents h t m (sle_key (h ! sle)) \<noteq> None" "m 0 = None"
  shows "\<exists>t'. rst_erase h sle t = Inr t' \<and> rst_ok h m t' \<and> rst_net t' = rst_net t \<and>
    rst_contents h t' m = (rst_contents h t m)(sle_key (h ! sle) := None)"
proof (cases "map_of (rt_items t) (sle_key (h ! sle))")
  case None
  then have "m (sle_key (h ! sle)) \<noteq> None" "sle_key (h ! sle) \<noteq> 0" using assms(3,4) by (auto simp: overlay_def)
  with None assms(2) show ?thesis
    by (simp add: rst_erase_def om_emplace_def rst_net_def table_emplaced [OF assms(1) None])
next
  case (Some e)
  obtain act a where e: "e = (act, a)" by (cases e)
  from assms(3) Some e have "act \<noteq> Action_erase" by (auto simp: overlay_def)
  with Some e assms(2) show ?thesis
    by (cases act) (simp_all add: rst_erase_def om_emplace_def rst_net_def table_updated [OF assms(1) Some]
        table_removed [OF assms(1) Some [unfolded e]])
qed

lemma rst_insert_spec:
  assumes "rst_ok h m t" "sle < length h" "sle_key (h ! sle) \<noteq> 0" "rst_contents h t m (sle_key (h ! sle)) = None"
  shows "\<exists>t'. rst_insert h sle t = Inr t' \<and> rst_ok h m t' \<and> rst_net t' = rst_net t \<and>
    rst_contents h t' m = (rst_contents h t m)(sle_key (h ! sle) \<mapsto> h ! sle)"
proof (cases "map_of (rt_items t) (sle_key (h ! sle))")
  case None
  then have "m (sle_key (h ! sle)) = None" using assms(4) by (auto simp: overlay_def)
  with None assms(2,3) show ?thesis
    by (simp add: rst_insert_def om_emplace_def rst_net_def table_emplaced [OF assms(1) None])
next
  case (Some e)
  obtain act a where e: "e = (act, a)" by (cases e)
  from assms(4) Some e have "act = Action_erase" by (auto simp: overlay_def split: if_splits)
  with Some e assms(2) show ?thesis
    by (simp add: rst_insert_def om_emplace_def rst_net_def table_updated [OF assms(1) Some])
qed

lemma rst_replace_spec:
  assumes "rst_ok h m t" "sle < length h" "rst_contents h t m (sle_key (h ! sle)) \<noteq> None" "m 0 = None"
  shows "\<exists>t'. rst_replace h sle t = Inr t' \<and> rst_ok h m t' \<and> rst_net t' = rst_net t \<and>
    rst_contents h t' m = (rst_contents h t m)(sle_key (h ! sle) \<mapsto> h ! sle)"
proof (cases "map_of (rt_items t) (sle_key (h ! sle))")
  case None
  then have "m (sle_key (h ! sle)) \<noteq> None" "sle_key (h ! sle) \<noteq> 0" using assms(3,4) by (auto simp: overlay_def)
  with None assms(2) show ?thesis
    by (simp add: rst_replace_def om_emplace_def rst_net_def table_emplaced [OF assms(1) None])
next
  case (Some e)
  obtain act a where e: "e = (act, a)" by (cases e)
  from assms(3) Some e have "act \<noteq> Action_erase" by (auto simp: overlay_def)
  with Some e assms(2) show ?thesis
    by (cases act) (simp_all add: rst_replace_def om_emplace_def rst_net_def table_updated [OF assms(1) Some])
qed

lemma rst_xrp [simp]:
  "rt_items (rst_destroyXRP x t) = rt_items t" "rst_net (rst_destroyXRP x t) = rst_net t - x"
  "rt_items (rst_createXRP x t) = rt_items t" "rst_net (rst_createXRP x t) = rst_net t + x"
  by (simp_all add: rst_destroyXRP_def rst_createXRP_def rst_net_def)

section \<open>Applying a table\<close>

lemma table_ok_tail:
  assumes "table_ok ins h m ((k, act, a) # items)" "\<And>j. j \<noteq> k \<Longrightarrow> m' j = m j"
  shows "table_ok ins h m' items"
proof -
  have k: "map_of items k = None" "om_ok (<) items"
    using table_ok_sorted [OF assms(1)] by (auto simp: om_ok_def map_of_eq_None_iff)
  have "map_of ((k, act, a) # items) j = map_of items j" if "map_of items j \<noteq> None" for j using that k(1) by auto
  with assms k show ?thesis unfolding table_ok_def by (metis option.distinct(1))
qed

lemma overlay_Cons:
  assumes "table_ok ins h m ((k, act, a) # items)"
  shows "overlay er h ((k, act, a) # items) m = overlay er h items (m(k := if er act then None else Some (h ! a)))"
proof -
  have "map_of items k = None" using table_ok_sorted [OF assms] by (auto simp: om_ok_def map_of_eq_None_iff)
  then show ?thesis by (auto simp: overlay_def fun_eq_iff split: option.split)
qed

context raw_target
begin

lemma change_ok:
  assumes "inv h s" "table_ok (\<lambda>act. act = Action_insert) h (contents h s) ((k, act, a) # items)"
  shows "\<exists>s'. rst_change to h (k, act, a) s = Inr s' \<and> inv h s' \<and> drops s' = drops s \<and>
    contents h s' = (contents h s)(k := if act = Action_erase then None else Some (h ! a))"
proof -
  have "a < length h" "sle_key (h ! a) = k" "k \<noteq> 0" "act = Action_insert \<longleftrightarrow> contents h s k = None"
    using table_okD [OF assms(2), of k act a] by simp_all
  with erase [OF assms(1), of a] insert [OF assms(1), of a] replace [OF assms(1), of a] show ?thesis
    by (cases act) auto
qed

lemma changes_ok:
  "inv h s \<Longrightarrow> table_ok (\<lambda>act. act = Action_insert) h (contents h s) items \<Longrightarrow>
    \<exists>s'. fold_r (rst_change to h) items s = Inr s' \<and> inv h s' \<and> drops s' = drops s \<and>
      contents h s' = overlay (\<lambda>act. act = Action_erase) h items (contents h s)"
proof (induction items arbitrary: s)
  case Nil
  then show ?case by simp
next
  case (Cons e items)
  obtain k act a where e: "e = (k, act, a)" by (cases e)
  from change_ok [OF Cons.prems(1) Cons.prems(2) [unfolded e]] obtain s1 where
    s1: "rst_change to h e s = Inr s1" "inv h s1" "drops s1 = drops s"
      "contents h s1 = (contents h s)(k := if act = Action_erase then None else Some (h ! a))" unfolding e by blast
  have "table_ok (\<lambda>act. act = Action_insert) h (contents h s1) items"
    using Cons.prems(2) unfolding e by (rule table_ok_tail) (simp add: s1(4))
  from Cons.IH [OF s1(2) this] s1(1,3) overlay_Cons [OF Cons.prems(2) [unfolded e], of "\<lambda>act. act = Action_erase"]
  show ?case unfolding s1(4) [symmetric] by (simp add: e)
qed

lemma raw_apply_ok:
  assumes "inv h s" "rst_ok h (contents h s) t"
  shows "\<exists>s'. rst_apply to h t s = Inr s' \<and> inv h s' \<and> drops s' = drops s + rst_net t \<and>
    contents h s' = rst_contents h t (contents h s)"
proof -
  let ?s = "rw_destroyXRP to (rt_dropsDestroyed t) (rw_createXRP to (rt_dropsCreated t) s)"
  have s: "inv h ?s" "contents h ?s = contents h s" "drops ?s = drops s + rst_net t"
    using create [OF assms(1)] destroy [OF conjunct1 [OF create [OF assms(1)]]] by (simp_all add: rst_net_def)
  from changes_ok [OF s(1), of "rt_items t"] assms(2) s show ?thesis by (simp add: rst_apply_def)
qed

end

end
