(* ===== verification/ApplyStateTable.thy ===== *)
theory ApplyStateTable
  imports RawStateTable
begin

text \<open>
  The table of a view that transactions change (\<open>src/ripple/ledger/detail/ApplyStateTable.h\<close>,
  \<open>impl/ApplyStateTable.cpp\<close>): beside erased, inserted and modified entries it holds cached
  copies, which \<open>peek\<close> makes for the client to change. Shown here: reading through the table is
  reading the overlay, cached copies included, while applying the table leaves the cached copies out.
\<close>

datatype AAction = ACache | AErase | AInsert | AModify

record ApplyStateTable =
  at_items :: "AAction items_t"
  at_dropsDestroyed :: "64 word"
  at_dropsCreated :: "64 word"

definition ApplyStateTable_init :: ApplyStateTable where
  "ApplyStateTable_init = \<lparr>at_items = [], at_dropsDestroyed = 0, at_dropsCreated = 0\<rparr>"

section \<open>Operations\<close>

fun ast_change :: "('b, 's, 'z) RawView_scheme \<Rightarrow> 'b sle_heap \<Rightarrow> uint256 \<times> AAction \<times> nat \<Rightarrow> 's \<Rightarrow> (led_error, 's) result" where
  "ast_change to h (_, ACache, sle) s = Inr s"
| "ast_change to h (_, AErase, sle) s = rw_erase to h sle s"
| "ast_change to h (_, AInsert, sle) s = rw_insert to h sle s"
| "ast_change to h (_, AModify, sle) s = rw_replace to h sle s"

definition ast_apply :: "('b, 's, 'z) RawView_scheme \<Rightarrow> 'b sle_heap \<Rightarrow> ApplyStateTable \<Rightarrow> 's \<Rightarrow> (led_error, 's) result" where
  "ast_apply to h t s =
     fold_r (ast_change to h) (at_items t) (rw_destroyXRP to (at_dropsDestroyed t) (rw_createXRP to (at_dropsCreated t) s))"

definition ast_size :: "ApplyStateTable \<Rightarrow> nat" where
  "ast_size t = fold (\<lambda>(_, act, _) ret. if act \<in> {AErase, AInsert, AModify} then Suc ret else ret) (at_items t) 0"

definition ast_exists :: "'b ReadView \<Rightarrow> 'b sle_heap \<Rightarrow> Keylet \<Rightarrow> ApplyStateTable \<Rightarrow> (led_error, bool) result" where
  "ast_exists base h k t =
     (case map_of (at_items t) (kl_key k) of
        None \<Rightarrow> rv_exists base h k
      | Some (act, sle) \<Rightarrow> if act = AErase then Inr False else keylet_check k (h ! sle))"

definition ast_succ ::
  "'b ReadView \<Rightarrow> uint256 \<Rightarrow> uint256 option \<Rightarrow> ApplyStateTable \<Rightarrow> (led_error, uint256 option) result"
where
  "ast_succ base key lim t = table_succ (\<lambda>act. act = AErase) base key lim (at_items t)"

definition ast_read :: "'b ReadView \<Rightarrow> 'b sle_heap \<Rightarrow> Keylet \<Rightarrow> ApplyStateTable \<Rightarrow> (led_error, 'b SLE option) result" where
  "ast_read base h k t =
     (case map_of (at_items t) (kl_key k) of
        None \<Rightarrow> rv_read base h k
      | Some (act, sle) \<Rightarrow>
          if act = AErase then Inr None
          else bind_r (keylet_check k (h ! sle)) (\<lambda>b. Inr (if b then Some (h ! sle) else None)))"

text \<open>\<open>peek\<close> returns an address or null; when the entry comes from the base it copies it. The copy
  is stored under the key of the entry.\<close>

definition ast_peek ::
  "'b ReadView \<Rightarrow> Keylet \<Rightarrow> 'b sle_heap \<Rightarrow> ApplyStateTable \<Rightarrow> (led_error, nat option \<times> 'b sle_heap \<times> ApplyStateTable) result"
where
  "ast_peek base k h t =
     (case map_of (at_items t) (kl_key k) of
        None \<Rightarrow>
          bind_r (rv_read base h k) (\<lambda>r.
            case r of
              None \<Rightarrow> Inr (None, h, t)
            | Some s \<Rightarrow>
                let (a, h') = make_sle s h; (items, inserted) = om_emplace (<) (sle_key s) (ACache, a) (at_items t)
                in Inr (map_option snd (map_of items (sle_key s)), h', t\<lparr>at_items := items\<rparr>))
      | Some (act, sle) \<Rightarrow>
          if act = AErase then Inr (None, h, t)
          else bind_r (keylet_check k (h ! sle)) (\<lambda>b. Inr (if b then Some sle else None, h, t)))"

definition ast_erase :: "'b sle_heap \<Rightarrow> nat \<Rightarrow> ApplyStateTable \<Rightarrow> (led_error, ApplyStateTable) result" where
  "ast_erase h sle t =
     (let key = sle_key (h ! sle) in
      case map_of (at_items t) key of
        None \<Rightarrow> Inl (LLogic ''ApplyStateTable::erase: missing key'')
      | Some (act, a) \<Rightarrow>
          if a \<noteq> sle then Inl (LLogic ''ApplyStateTable::erase: unknown SLE'')
          else case act of
            AErase \<Rightarrow> Inl (LLogic ''ApplyStateTable::erase: double erase'')
          | AInsert \<Rightarrow> Inr (t\<lparr>at_items := om_erase key (at_items t)\<rparr>)
          | _ \<Rightarrow> Inr (t\<lparr>at_items := om_update key (AErase, a) (at_items t)\<rparr>))"

definition ast_rawErase :: "'b sle_heap \<Rightarrow> nat \<Rightarrow> ApplyStateTable \<Rightarrow> (led_error, ApplyStateTable) result" where
  "ast_rawErase h sle t =
     (let key = sle_key (h ! sle); (items, inserted) = om_emplace (<) key (AErase, sle) (at_items t) in
      if inserted then Inr (t\<lparr>at_items := items\<rparr>)
      else case map_of (at_items t) key of
        None \<Rightarrow> Inl LMissing
      | Some (act, _) \<Rightarrow> (case act of
            AErase \<Rightarrow> Inl (LLogic ''ApplyStateTable::rawErase: double erase'')
          | AInsert \<Rightarrow> Inr (t\<lparr>at_items := om_erase key (at_items t)\<rparr>)
          | _ \<Rightarrow> Inr (t\<lparr>at_items := om_update key (AErase, sle) (at_items t)\<rparr>)))"

definition ast_insert :: "'b sle_heap \<Rightarrow> nat \<Rightarrow> ApplyStateTable \<Rightarrow> (led_error, ApplyStateTable) result" where
  "ast_insert h sle t =
     (let key = sle_key (h ! sle) in
      case map_of (at_items t) key of
        None \<Rightarrow> Inr (t\<lparr>at_items := om_insert (<) key (AInsert, sle) (at_items t)\<rparr>)
      | Some (act, _) \<Rightarrow> (case act of
            ACache \<Rightarrow> Inl (LLogic ''ApplyStateTable::insert: already cached'')
          | AInsert \<Rightarrow> Inl (LLogic ''ApplyStateTable::insert: already inserted'')
          | AModify \<Rightarrow> Inl (LLogic ''ApplyStateTable::insert: already modified'')
          | AErase \<Rightarrow> Inr (t\<lparr>at_items := om_update key (AModify, sle) (at_items t)\<rparr>)))"

definition ast_replace :: "'b sle_heap \<Rightarrow> nat \<Rightarrow> ApplyStateTable \<Rightarrow> (led_error, ApplyStateTable) result" where
  "ast_replace h sle t =
     (let key = sle_key (h ! sle) in
      case map_of (at_items t) key of
        None \<Rightarrow> Inr (t\<lparr>at_items := om_insert (<) key (AModify, sle) (at_items t)\<rparr>)
      | Some (act, _) \<Rightarrow> (case act of
            AErase \<Rightarrow> Inl (LLogic ''ApplyStateTable::replace: already erased'')
          | ACache \<Rightarrow> Inr (t\<lparr>at_items := om_update key (AModify, sle) (at_items t)\<rparr>)
          | _ \<Rightarrow> Inr (t\<lparr>at_items := om_update key (act, sle) (at_items t)\<rparr>)))"

definition ast_update :: "'b sle_heap \<Rightarrow> nat \<Rightarrow> ApplyStateTable \<Rightarrow> (led_error, ApplyStateTable) result" where
  "ast_update h sle t =
     (let key = sle_key (h ! sle) in
      case map_of (at_items t) key of
        None \<Rightarrow> Inl (LLogic ''ApplyStateTable::update: missing key'')
      | Some (act, a) \<Rightarrow>
          if a \<noteq> sle then Inl (LLogic ''ApplyStateTable::update: unknown SLE'')
          else case act of
            AErase \<Rightarrow> Inl (LLogic ''ApplyStateTable::update: erased'')
          | ACache \<Rightarrow> Inr (t\<lparr>at_items := om_update key (AModify, a) (at_items t)\<rparr>)
          | _ \<Rightarrow> Inr t)"

definition ast_destroyXRP :: "64 word \<Rightarrow> ApplyStateTable \<Rightarrow> ApplyStateTable" where
  "ast_destroyXRP feeDrops t = t\<lparr>at_dropsDestroyed := at_dropsDestroyed t + feeDrops\<rparr>"

definition ast_createXRP :: "64 word \<Rightarrow> ApplyStateTable \<Rightarrow> ApplyStateTable" where
  "ast_createXRP feeDrops t = t\<lparr>at_dropsCreated := at_dropsCreated t + feeDrops\<rparr>"

section \<open>The map a table stands for\<close>

abbreviation ast_contents :: "'b sle_heap \<Rightarrow> ApplyStateTable \<Rightarrow> (uint256 \<rightharpoonup> 'b SLE) \<Rightarrow> uint256 \<rightharpoonup> 'b SLE" where
  "ast_contents h t m \<equiv> overlay (\<lambda>act. act = AErase) h (at_items t) m"

abbreviation ast_ok :: "'b sle_heap \<Rightarrow> (uint256 \<rightharpoonup> 'b SLE) \<Rightarrow> ApplyStateTable \<Rightarrow> bool" where
  "ast_ok h m t \<equiv> table_ok (\<lambda>act. act = AInsert) h m (at_items t)"

definition ast_net :: "ApplyStateTable \<Rightarrow> 64 word" where
  "ast_net t = at_dropsCreated t - at_dropsDestroyed t"

text \<open>A cached copy is clean while the client has not changed it.\<close>

definition ast_clean :: "'b sle_heap \<Rightarrow> (uint256 \<rightharpoonup> 'b SLE) \<Rightarrow> ApplyStateTable \<Rightarrow> bool" where
  "ast_clean h m t = (\<forall>k a. map_of (at_items t) k = Some (ACache, a) \<longrightarrow> m k = Some (h ! a))"

lemma ast_reads:
  "ast_read base h k t = table_read (\<lambda>act. act = AErase) base h k (at_items t)"
  "ast_exists base h k t = table_exists (\<lambda>act. act = AErase) base h k (at_items t)"
  by (auto simp: ast_read_def table_read_def ast_exists_def table_exists_def checked_def split: option.split)

section \<open>Changes\<close>

lemma overlay_present:
  "overlay er h items m k \<noteq> None \<Longrightarrow> map_of items k = Some (act, a) \<Longrightarrow> \<not> er act"
  by (auto simp: overlay_def)

lemma ast_rawErase_spec:
  assumes "ast_ok h m t" "sle < length h" "ast_contents h t m (sle_key (h ! sle)) \<noteq> None" "m 0 = None"
  shows "\<exists>t'. ast_rawErase h sle t = Inr t' \<and> ast_ok h m t' \<and> ast_net t' = ast_net t \<and>
    ast_contents h t' m = (ast_contents h t m)(sle_key (h ! sle) := None)"
proof (cases "map_of (at_items t) (sle_key (h ! sle))")
  case None
  then have "m (sle_key (h ! sle)) \<noteq> None" "sle_key (h ! sle) \<noteq> 0" using assms(3,4) by (auto simp: overlay_def)
  with None assms(2) show ?thesis
    by (simp add: ast_rawErase_def om_emplace_def ast_net_def table_emplaced [OF assms(1) None])
next
  case (Some e)
  obtain act a where e: "e = (act, a)" by (cases e)
  with Some overlay_present [OF assms(3)] have "act \<noteq> AErase" by blast
  with Some e assms(2) show ?thesis
    by (cases act) (simp_all add: ast_rawErase_def om_emplace_def ast_net_def table_updated [OF assms(1) Some]
        table_removed [OF assms(1) Some [unfolded e]])
qed

lemma ast_insert_spec:
  assumes "ast_ok h m t" "sle < length h" "sle_key (h ! sle) \<noteq> 0" "ast_contents h t m (sle_key (h ! sle)) = None"
  shows "\<exists>t'. ast_insert h sle t = Inr t' \<and> ast_ok h m t' \<and> ast_net t' = ast_net t \<and>
    ast_contents h t' m = (ast_contents h t m)(sle_key (h ! sle) \<mapsto> h ! sle)"
proof (cases "map_of (at_items t) (sle_key (h ! sle))")
  case None
  then have "m (sle_key (h ! sle)) = None" using assms(4) by (auto simp: overlay_def)
  with None assms(2,3) show ?thesis by (simp add: ast_insert_def ast_net_def table_emplaced [OF assms(1) None])
next
  case (Some e)
  obtain act a where e: "e = (act, a)" by (cases e)
  from assms(4) Some e have "act = AErase" by (auto simp: overlay_def split: if_splits)
  with Some e assms(2) show ?thesis by (simp add: ast_insert_def ast_net_def table_updated [OF assms(1) Some])
qed

lemma ast_replace_spec:
  assumes "ast_ok h m t" "sle < length h" "ast_contents h t m (sle_key (h ! sle)) \<noteq> None" "m 0 = None"
  shows "\<exists>t'. ast_replace h sle t = Inr t' \<and> ast_ok h m t' \<and> ast_net t' = ast_net t \<and>
    ast_contents h t' m = (ast_contents h t m)(sle_key (h ! sle) \<mapsto> h ! sle)"
proof (cases "map_of (at_items t) (sle_key (h ! sle))")
  case None
  then have "m (sle_key (h ! sle)) \<noteq> None" "sle_key (h ! sle) \<noteq> 0" using assms(3,4) by (auto simp: overlay_def)
  with None assms(2) show ?thesis by (simp add: ast_replace_def ast_net_def table_emplaced [OF assms(1) None])
next
  case (Some e)
  obtain act a where e: "e = (act, a)" by (cases e)
  with Some overlay_present [OF assms(3)] have "act \<noteq> AErase" by blast
  with Some e assms(2) show ?thesis
    by (cases act) (simp_all add: ast_replace_def ast_net_def table_updated [OF assms(1) Some])
qed

text \<open>\<open>erase\<close> and \<open>update\<close> take the address that the table holds for the key.\<close>

lemma ast_erase_spec:
  assumes "ast_ok h m t" "map_of (at_items t) k = Some (act, sle)" "act \<noteq> AErase"
  shows "\<exists>t'. ast_erase h sle t = Inr t' \<and> ast_ok h m t' \<and> ast_net t' = ast_net t \<and>
    ast_contents h t' m = (ast_contents h t m)(k := None) \<and> table_foot (at_items t') \<subseteq> table_foot (at_items t) \<and>
    (ast_clean h m t \<longrightarrow> ast_clean h m t')"
proof -
  have sle: "sle < length h" "sle_key (h ! sle) = k" using table_okD [OF assms(1,2)] by simp_all
  have foot: "table_foot (om_erase k (at_items t)) \<subseteq> table_foot (at_items t)"
    "table_foot (om_update k (AErase, sle) (at_items t)) \<subseteq> table_foot (at_items t)"
    using table_foot_changed(2) [of k _ "at_items t"] table_foot_changed(3) [of k "at_items t"] table_foot_mem [OF assms(2)] by fastforce+
  from sle assms(2,3) foot show ?thesis
    by (cases act) (auto simp: ast_erase_def ast_net_def table_updated [OF assms(1,2)] table_removed [OF assms(1,2)]
        ast_clean_def map_of_om_update map_of_om_erase)
qed

lemma ast_update_spec:
  assumes "ast_ok h m t" "map_of (at_items t) k = Some (act, sle)" "act \<noteq> AErase"
  shows "\<exists>t'. ast_update h sle t = Inr t' \<and> ast_ok h m t' \<and> ast_net t' = ast_net t \<and>
    ast_contents h t' m = ast_contents h t m \<and> table_foot (at_items t') \<subseteq> table_foot (at_items t) \<and>
    map_of (at_items t') = (map_of (at_items t))(k \<mapsto> (if act = ACache then AModify else act, sle))"
proof -
  have sle: "sle < length h" "sle_key (h ! sle) = k" using table_okD [OF assms(1,2)] by simp_all
  have foot: "table_foot (om_update k (AModify, sle) (at_items t)) \<subseteq> table_foot (at_items t)"
    using table_foot_changed(2) [of k _ "at_items t"] table_foot_mem [OF assms(2)] by fastforce
  have "(ast_contents h t m)(k \<mapsto> h ! sle) = ast_contents h t m" using assms(2,3) by (auto simp: overlay_def fun_eq_iff)
  with sle assms(2,3) foot show ?thesis
    by (cases act) (simp_all add: ast_update_def ast_net_def table_updated [OF assms(1,2)] map_of_om_update fun_eq_iff assms(1))
qed

text \<open>A peek gives a pointer to the entry of the view. When the table did not hold the key, the pointer is new.\<close>

lemma ast_peek_spec:
  assumes "ast_ok h m t" "view_ok F h base m" "kl_key k \<noteq> 0" "keylet_fits k (ast_contents h t m (kl_key k))"
  shows "\<exists>r h' t'. ast_peek base k h t = Inr (r, h', t') \<and> ast_ok h' m t' \<and> ast_net t' = ast_net t \<and>
    ast_contents h' t' m = ast_contents h t m \<and> agree (F \<union> table_foot (at_items t)) h h' \<and>
    table_foot (at_items t') \<subseteq> table_foot (at_items t) \<union> {length h} \<and> (ast_clean h m t \<longrightarrow> ast_clean h' m t') \<and>
    (case ast_contents h t m (kl_key k) of
       None \<Rightarrow> r = None
     | Some s \<Rightarrow> \<exists>a act. r = Some a \<and> map_of (at_items t') (kl_key k) = Some (act, a) \<and> act \<noteq> AErase \<and>
         a < length h' \<and> h' ! a = s)"
proof (cases "map_of (at_items t) (kl_key k)")
  case (Some e)
  obtain act a where e: "e = (act, a)" by (cases e)
  with Some assms(1,4) table_okD [OF assms(1), of "kl_key k" act a] show ?thesis
    by (cases "act = AErase") (auto simp: ast_peek_def overlay_def keylet_fits_def)
next
  case None
  have read: "read_ok h base m" by (rule view_ok_read [OF assms(2)])
  have con: "ast_contents h t m (kl_key k) = m (kl_key k)" using None by (simp add: overlay_def)
  have rd: "rv_read base h k = Inr (m (kl_key k))"
    using read assms(3,4) con by (cases "m (kl_key k)") (simp_all add: read_ok_def checked_def keylet_fits_def)
  show ?thesis
  proof (cases "m (kl_key k)")
    case N: None
    with None con rd assms(1) show ?thesis by (auto simp: ast_peek_def)
  next
    case (Some s)
    then have key: "sle_key s = kl_key k" using read_ok_keyed [OF read] by (simp add: keyed_def)
    let ?h = "h @ [s]" and ?t = "t\<lparr>at_items := om_insert (<) (kl_key k) (ACache, length h) (at_items t)\<rparr>"
    have map: "map_of (at_items ?t) = (map_of (at_items t))(kl_key k \<mapsto> (ACache, length h))"
      using None by (simp add: map_of_om_insert)
    have peek: "ast_peek base k h t = Inr (Some (length h), ?h, ?t)"
      using None rd Some key map by (simp add: ast_peek_def make_sle_def om_emplace_def)
    have ag: "agree (F \<union> table_foot (at_items t)) h ?h"
      using agree_make [of "F \<union> table_foot (at_items t)" h s] view_ok_foot [OF assms(2)] table_foot_bound [OF assms(1)]
      by (simp add: make_sle_def)
    have ok: "ast_ok ?h m t" by (rule table_ok_agree [OF assms(1) agree_mono [OF ag]]) simp
    note new = table_emplaced [OF ok None, of "length h" ACache]
    have "ast_contents ?h ?t m = (ast_contents ?h t m)(kl_key k \<mapsto> s)" using new(2) key assms(3) Some by simp
    also have "ast_contents ?h t m = ast_contents h t m" by (rule overlay_agree [OF agree_mono [OF ag]]) simp
    finally have same: "ast_contents ?h ?t m = ast_contents h t m" using con Some by (auto simp: fun_eq_iff)
    have "ast_clean ?h m ?t" if "ast_clean h m t"
      using that Some table_okD [OF assms(1)] by (fastforce simp: ast_clean_def map_of_om_insert [OF None] nth_append split: if_splits)
    with peek ag new(1) same con Some key assms(3) map show ?thesis
      by (auto simp: ast_net_def table_foot_changed)
  qed
qed

text \<open>A client writes through the pointer it has: only the entry of that key changes in the view.\<close>

lemma write_sle_same [simp]:
  "length (write_sle a f h) = length h" "sle_key (write_sle a f h ! b) = sle_key (h ! b)"
  "b \<noteq> a \<Longrightarrow> write_sle a f h ! b = h ! b"
  "a < length h \<Longrightarrow> write_sle a f h ! a = (h ! a)\<lparr>sle_body := f (sle_body (h ! a))\<rparr>"
  by (auto simp: write_sle_def nth_list_update)

lemma ast_write_spec:
  assumes "ast_ok h m t" "map_of (at_items t) k = Some (act, a)" "act \<noteq> AErase"
  shows "ast_ok (write_sle a f h) m t" and "ast_contents (write_sle a f h) t m = (ast_contents h t m)(k \<mapsto> write_sle a f h ! a)"
    and "act \<noteq> ACache \<Longrightarrow> ast_clean h m t \<Longrightarrow> ast_clean (write_sle a f h) m t"
proof -
  have other: "b \<noteq> a" if "map_of (at_items t) j = Some (act', b)" "j \<noteq> k" for j act' b
    using table_okD [OF assms(1,2)] table_okD [OF assms(1) that(1)] that(2) by auto
  show "ast_ok (write_sle a f h) m t" using assms(1) by (simp add: table_ok_def)
  show "ast_contents (write_sle a f h) t m = (ast_contents h t m)(k \<mapsto> write_sle a f h ! a)"
    using assms(2,3) other by (auto simp: overlay_def fun_eq_iff split: option.split)
  show "ast_clean (write_sle a f h) m t" if "act \<noteq> ACache" "ast_clean h m t"
    using that assms(2) other unfolding ast_clean_def by (metis option.inject prod.inject write_sle_same(3))
qed

section \<open>Applying a table\<close>

text \<open>Without the cached copies the table is a table of raw changes.\<close>

fun raw_item :: "uint256 \<times> AAction \<times> nat \<Rightarrow> (uint256 \<times> RAction \<times> nat) option" where
  "raw_item (k, ACache, a) = None"
| "raw_item (k, AErase, a) = Some (k, Action_erase, a)"
| "raw_item (k, AInsert, a) = Some (k, Action_insert, a)"
| "raw_item (k, AModify, a) = Some (k, Action_replace, a)"

definition raw_items :: "AAction items_t \<Rightarrow> RAction items_t" where
  "raw_items items = List.map_filter raw_item items"

definition ast_commit :: "'b sle_heap \<Rightarrow> ApplyStateTable \<Rightarrow> (uint256 \<rightharpoonup> 'b SLE) \<Rightarrow> uint256 \<rightharpoonup> 'b SLE" where
  "ast_commit h t m k = (case map_of (at_items t) k of
      None \<Rightarrow> m k
    | Some (act, a) \<Rightarrow> (case act of ACache \<Rightarrow> m k | AErase \<Rightarrow> None | _ \<Rightarrow> Some (h ! a)))"

lemma raw_items_simps [simp]:
  "raw_items [] = []"
  "raw_items (e # items) = (case raw_item e of None \<Rightarrow> raw_items items | Some e' \<Rightarrow> e' # raw_items items)"
  by (simp_all add: raw_items_def List.map_filter_def split: option.split)

lemma ast_change_raw: "fold_r (ast_change to h) items s = fold_r (rst_change to h) (raw_items items) s"
proof (induction items arbitrary: s)
  case (Cons e items)
  obtain k act a where "e = (k, act, a)" by (cases e)
  with Cons show ?case by (cases act) (simp_all add: Cons.IH [abs_def])
qed simp

lemma raw_items_keys: "e' \<in> set (raw_items items) \<Longrightarrow> \<exists>e \<in> set items. fst e = fst e'"
proof (induction items)
  case (Cons e items)
  obtain k act a where "e = (k, act, a)" by (cases e)
  with Cons show ?case by (cases act) auto
qed simp

lemma raw_items_sorted: "om_ok (<) items \<Longrightarrow> om_ok (<) (raw_items items)"
proof (induction items)
  case (Cons e items)
  obtain k act a where "e = (k, act, a)" by (cases e)
  with Cons show ?case by (cases act) (auto simp: om_ok_def dest!: raw_items_keys)
qed (simp add: om_ok_def)

lemma map_of_raw_items:
  "om_ok (<) items \<Longrightarrow> map_of (raw_items items) k =
    (case map_of items k of None \<Rightarrow> None | Some (act, a) \<Rightarrow> map_option snd (raw_item (k, act, a)))"
proof (induction items)
  case (Cons e items)
  obtain k' act a where e: "e = (k', act, a)" by (cases e)
  have IH: "map_of (raw_items items) k =
      (case map_of items k of None \<Rightarrow> None | Some (act, a) \<Rightarrow> map_option snd (raw_item (k, act, a)))"
    using Cons by (simp add: om_ok_def)
  have "map_of items k' = None" using Cons.prems e by (auto simp: om_ok_def map_of_eq_None_iff)
  with IH e show ?case by (cases act) auto
qed simp

lemma raw_items_ok:
  assumes "ast_ok h m t"
  shows "table_ok (\<lambda>act. act = Action_insert) h m (raw_items (at_items t))"
    and "overlay (\<lambda>act. act = Action_erase) h (raw_items (at_items t)) m = ast_commit h t m"
proof -
  note map = map_of_raw_items [OF table_ok_sorted [OF assms]]
  have "raw_item (k, act, a) = Some (k', act', a') \<Longrightarrow> k' = k \<and> a' = a \<and> (act' = Action_insert \<longleftrightarrow> act = AInsert)" for k k' act act' a a'
    by (cases act) auto
  with raw_items_sorted [OF table_ok_sorted [OF assms]] show "table_ok (\<lambda>act. act = Action_insert) h m (raw_items (at_items t))"
    using table_okD [OF assms] unfolding table_ok_def map by (fastforce split: option.splits)
  show "overlay (\<lambda>act. act = Action_erase) h (raw_items (at_items t)) m = ast_commit h t m"
    by (auto simp: overlay_def ast_commit_def map fun_eq_iff split: option.split AAction.split)
qed

lemma clean_commit: "ast_clean h m t \<Longrightarrow> ast_commit h t m = ast_contents h t m"
  by (auto simp: ast_commit_def ast_clean_def overlay_def fun_eq_iff split: option.split AAction.split)

context raw_target
begin

text \<open>Applying the table gives the target the committed map: changes of cached copies are not among them.\<close>

lemma apply_ok:
  assumes "inv h s" "ast_ok h (contents h s) t"
  shows "\<exists>s'. ast_apply to h t s = Inr s' \<and> inv h s' \<and> drops s' = drops s + ast_net t \<and>
    contents h s' = ast_commit h t (contents h s)"
proof -
  let ?r = "\<lparr>rt_items = raw_items (at_items t), rt_dropsDestroyed = at_dropsDestroyed t, rt_dropsCreated = at_dropsCreated t\<rparr>"
  have "ast_apply to h t s = rst_apply to h ?r s" by (simp add: ast_apply_def rst_apply_def ast_change_raw)
  moreover have "rst_net ?r = ast_net t" by (simp add: rst_net_def ast_net_def)
  ultimately show ?thesis using raw_apply_ok [of h s ?r] raw_items_ok [OF assms(2)] assms(1) by simp
qed

end

lemma ast_xrp [simp]:
  "at_items (ast_destroyXRP x t) = at_items t" "ast_net (ast_destroyXRP x t) = ast_net t - x"
  "at_items (ast_createXRP x t) = at_items t" "ast_net (ast_createXRP x t) = ast_net t + x"
  by (simp_all add: ast_destroyXRP_def ast_createXRP_def ast_net_def)

end
