(* ===== verification/OpenView.thy ===== *)
theory OpenView
  imports RawStateTable
begin

text \<open>
  The view that accumulates state changes and transactions (\<open>src/ripple/ledger/OpenView.h\<close>,
  \<open>impl/OpenView.cpp\<close>). A transaction is the bytes of its two serializers, the metadata optional.
  It is both a readable view and a target of raw changes.
\<close>

unbundle bit_operations_syntax

record 'b OpenView =
  ov_txs :: "(uint256 \<times> Blob \<times> Blob option) list"
  ov_info :: LedgerInfo
  ov_base :: "'b ReadView"
  ov_items :: RawStateTable

definition OpenView_open :: "'b ReadView \<Rightarrow> 'b OpenView" where
  "OpenView_open base =
     \<lparr>ov_txs = [],
      ov_info = (rv_info base)\<lparr>li_open := True, li_seq := li_seq (rv_info base) + 1,
                 li_parentCloseTime := li_closeTime (rv_info base)\<rparr>,
      ov_base = base, ov_items = RawStateTable_init\<rparr>"

definition OpenView_of :: "'b ReadView \<Rightarrow> 'b OpenView" where
  "OpenView_of base = \<lparr>ov_txs = [], ov_info = rv_info base, ov_base = base, ov_items = RawStateTable_init\<rparr>"

definition ov_txCount :: "'b OpenView \<Rightarrow> nat" where
  "ov_txCount v = length (ov_txs v)"

definition ov_apply :: "('b, 's, 'z) TxsRawView_scheme \<Rightarrow> 'b sle_heap \<Rightarrow> 'b OpenView \<Rightarrow> 's \<Rightarrow> (led_error, 's) result" where
  "ov_apply to h v s =
     bind_r (rst_apply to h (ov_items v) s) (fold_r (\<lambda>(key, txn, meta). rw_txInsert to key txn meta) (ov_txs v))"

definition ov_txRead :: "uint256 \<Rightarrow> 'b OpenView \<Rightarrow> (led_error, Blob option \<times> Blob option) result" where
  "ov_txRead key v = (case map_of (ov_txs v) key of
      None \<Rightarrow> rv_txRead (ov_base v) key
    | Some (txn, meta) \<Rightarrow> Inr (Some txn, meta))"

definition ov_txExists :: "uint256 \<Rightarrow> 'b OpenView \<Rightarrow> (led_error, bool) result" where
  "ov_txExists key v = Inr (map_of (ov_txs v) key \<noteq> None)"

definition ov_view :: "'b OpenView \<Rightarrow> 'b ReadView" where
  "ov_view v =
     \<lparr>rv_info = ov_info v,
      rv_fees = rv_fees (ov_base v),
      rv_exists = (\<lambda>h k. rst_exists (ov_base v) h k (ov_items v)),
      rv_succ = (\<lambda>key lim. rst_succ (ov_base v) key lim (ov_items v)),
      rv_read = (\<lambda>h k. rst_read (ov_base v) h k (ov_items v)),
      rv_txExists = (\<lambda>key. ov_txExists key v),
      rv_txRead = (\<lambda>key. ov_txRead key v)\<rparr>"

definition ov_rawErase :: "'b sle_heap \<Rightarrow> nat \<Rightarrow> 'b OpenView \<Rightarrow> (led_error, 'b OpenView) result" where
  "ov_rawErase h sle v = bind_r (rst_erase h sle (ov_items v)) (\<lambda>t. Inr (v\<lparr>ov_items := t\<rparr>))"

definition ov_rawInsert :: "'b sle_heap \<Rightarrow> nat \<Rightarrow> 'b OpenView \<Rightarrow> (led_error, 'b OpenView) result" where
  "ov_rawInsert h sle v = bind_r (rst_insert h sle (ov_items v)) (\<lambda>t. Inr (v\<lparr>ov_items := t\<rparr>))"

definition ov_rawReplace :: "'b sle_heap \<Rightarrow> nat \<Rightarrow> 'b OpenView \<Rightarrow> (led_error, 'b OpenView) result" where
  "ov_rawReplace h sle v = bind_r (rst_replace h sle (ov_items v)) (\<lambda>t. Inr (v\<lparr>ov_items := t\<rparr>))"

definition ov_rawDestroyXRP :: "64 word \<Rightarrow> 'b OpenView \<Rightarrow> 'b OpenView" where
  "ov_rawDestroyXRP feeDrops v = v\<lparr>ov_items := rst_destroyXRP feeDrops (ov_items v)\<rparr>"

definition ov_rawCreateXRP :: "64 word \<Rightarrow> 'b OpenView \<Rightarrow> 'b OpenView" where
  "ov_rawCreateXRP feeDrops v = v\<lparr>ov_items := rst_createXRP feeDrops (ov_items v)\<rparr>"

definition ov_rawTxInsert :: "uint256 \<Rightarrow> Blob \<Rightarrow> Blob option \<Rightarrow> 'b OpenView \<Rightarrow> (led_error, 'b OpenView) result" where
  "ov_rawTxInsert key txn meta v =
     (let (txs, inserted) = om_emplace (<) key (txn, meta) (ov_txs v) in
      if inserted then Inr (v\<lparr>ov_txs := txs\<rparr>)
      else bind_r (to_string_key key) (\<lambda>s. Inl (LLogic (''rawTxInsert: duplicate TX id'' @ s))))"

definition ov_raw :: "('b, 'b OpenView) TxsRawView" where
  "ov_raw =
     \<lparr>rw_erase = ov_rawErase, rw_insert = ov_rawInsert, rw_replace = ov_rawReplace,
      rw_destroyXRP = ov_rawDestroyXRP, rw_createXRP = ov_rawCreateXRP, rw_txInsert = ov_rawTxInsert\<rparr>"

section \<open>Contracts\<close>

definition ov_contents :: "'b sle_heap \<Rightarrow> 'b OpenView \<Rightarrow> uint256 \<rightharpoonup> 'b SLE" where
  "ov_contents h v = rst_contents h (ov_items v) (rv_contents (ov_base v) h)"

definition ov_foot :: "nat set \<Rightarrow> 'b OpenView \<Rightarrow> nat set" where
  "ov_foot F v = F \<union> table_foot (rt_items (ov_items v))"

text \<open>The base keeps its promises, with its entries at the addresses \<open>F\<close>, and the table fits the base.\<close>

definition ov_inv :: "nat set \<Rightarrow> 'b sle_heap \<Rightarrow> 'b OpenView \<Rightarrow> bool" where
  "ov_inv F h v = (view_ok F h (ov_base v) (rv_contents (ov_base v) h) \<and>
     rst_ok h (rv_contents (ov_base v) h) (ov_items v) \<and> om_ok (<) (ov_txs v))"

interpretation open_view: readable ov_view "ov_inv F" "ov_foot F" ov_contents for F
proof
  fix h and v :: "'a OpenView"
  assume "ov_inv F h v"
  then show "view_ok (ov_foot F v) h (ov_view v) (ov_contents h v)"
    unfolding ov_foot_def ov_contents_def
    by (intro table_view_ok [where base = "ov_base v" and ins = "\<lambda>act. act = Action_insert"])
      (auto simp: ov_inv_def ov_view_def rst_reads rst_succ_def)
qed

lemma ov_base_zero: "rv_contents rv h 0 = None"
  by (simp add: rv_contents_def)

text \<open>Raw changes of the state leave the base and the transactions as they are.\<close>

definition ov_at :: "nat set \<Rightarrow> 'b ReadView \<Rightarrow> (uint256 \<times> Blob \<times> Blob option) list \<Rightarrow> 'b sle_heap \<Rightarrow> 'b OpenView \<Rightarrow> bool" where
  "ov_at F base txs h v = (ov_inv F h v \<and> ov_base v = base \<and> ov_txs v = txs)"

interpretation open_raw: raw_target "ov_raw :: ('b, 'b OpenView) TxsRawView" "ov_at F base txs" ov_contents "\<lambda>v. rst_net (ov_items v)"
  for F base txs
proof
  fix h s a x
  assume inv: "ov_at F base txs h (s :: 'b OpenView)"
  then have ok: "rst_ok h (rv_contents (ov_base s) h) (ov_items s)" by (auto simp: ov_inv_def ov_at_def)
  have keep: "ov_at F base txs h (s\<lparr>ov_items := t\<rparr>)" if "rst_ok h (rv_contents (ov_base s) h) t" for t
    using inv that by (auto simp: ov_inv_def ov_at_def)
  show "\<exists>s'. rw_erase ov_raw h a s = Inr s' \<and> ov_at F base txs h s' \<and> rst_net (ov_items s') = rst_net (ov_items s) \<and>
      ov_contents h s' = (ov_contents h s)(sle_key (h ! a) := None)"
    if "a < length h" "ov_contents h s (sle_key (h ! a)) \<noteq> None"
    using rst_erase_spec [OF ok that(1) that(2) [unfolded ov_contents_def] ov_base_zero] keep
    by (auto simp: ov_raw_def ov_rawErase_def ov_contents_def)
  show "\<exists>s'. rw_insert ov_raw h a s = Inr s' \<and> ov_at F base txs h s' \<and> rst_net (ov_items s') = rst_net (ov_items s) \<and>
      ov_contents h s' = (ov_contents h s)(sle_key (h ! a) \<mapsto> h ! a)"
    if "a < length h" "sle_key (h ! a) \<noteq> 0" "ov_contents h s (sle_key (h ! a)) = None"
    using rst_insert_spec [OF ok that(1,2) that(3) [unfolded ov_contents_def]] keep
    by (auto simp: ov_raw_def ov_rawInsert_def ov_contents_def)
  show "\<exists>s'. rw_replace ov_raw h a s = Inr s' \<and> ov_at F base txs h s' \<and> rst_net (ov_items s') = rst_net (ov_items s) \<and>
      ov_contents h s' = (ov_contents h s)(sle_key (h ! a) \<mapsto> h ! a)"
    if "a < length h" "ov_contents h s (sle_key (h ! a)) \<noteq> None"
    using rst_replace_spec [OF ok that(1) that(2) [unfolded ov_contents_def] ov_base_zero] keep
    by (auto simp: ov_raw_def ov_rawReplace_def ov_contents_def)
  show "ov_at F base txs h (rw_destroyXRP ov_raw x s) \<and> ov_contents h (rw_destroyXRP ov_raw x s) = ov_contents h s \<and>
      rst_net (ov_items (rw_destroyXRP ov_raw x s)) = rst_net (ov_items s) - x"
    using ok by (simp add: ov_raw_def ov_rawDestroyXRP_def ov_contents_def keep)
  show "ov_at F base txs h (rw_createXRP ov_raw x s) \<and> ov_contents h (rw_createXRP ov_raw x s) = ov_contents h s \<and>
      rst_net (ov_items (rw_createXRP ov_raw x s)) = rst_net (ov_items s) + x"
    using ok by (simp add: ov_raw_def ov_rawCreateXRP_def ov_contents_def keep)
qed

section \<open>Over any readable view\<close>

context readable
begin

lemma fresh_open_view:
  assumes "inv h s"
  shows "ov_inv (foot s) h (OpenView_of (view s))" and "ov_contents h (OpenView_of (view s)) = contents h s"
    and "ov_inv (foot s) h (OpenView_open (view s))" and "ov_contents h (OpenView_open (view s)) = contents h s"
  using promise [OF assms] view_ok_contents [OF promise [OF assms], of h]
  by (simp_all add: ov_inv_def ov_contents_def OpenView_of_def OpenView_open_def RawStateTable_init_def om_ok_def)

end

section \<open>Transactions\<close>

lemma strHex_total: "\<exists>s. strHex bs = Inr s \<and> length s = 2 * length bs"
proof (induction bs)
  case (Cons b bs)
  have "unat (drop_bit 4 b) = unat b div 16" by (simp only: unat_drop_bit_eq) (simp add: drop_bit_eq_div)
  then have "unat (drop_bit 4 b) < 16" using unsigned_less [of b, where ?'a = nat] by simp
  moreover have "unat (b AND 15) < 16" using word_and_le1 [of b 15] by (simp add: word_le_nat_alt)
  ultimately show ?case using Cons by (auto simp: charHex_def simp del: drop_bit_numeral_bit0)
qed simp

lemma ov_rawTxInsert_spec:
  "case ov_rawTxInsert key txn meta v of
     Inl e \<Rightarrow> map_of (ov_txs v) key \<noteq> None \<and> (\<exists>s. e = LLogic (''rawTxInsert: duplicate TX id'' @ s))
   | Inr v' \<Rightarrow> map_of (ov_txs v) key = None \<and> map_of (ov_txs v') = (map_of (ov_txs v))(key \<mapsto> (txn, meta)) \<and>
       ov_items v' = ov_items v \<and> ov_base v' = ov_base v \<and> ov_info v' = ov_info v \<and> ov_txCount v' = Suc (ov_txCount v)"
  using strHex_total [of "be_bytes 32 key"]
  by (auto simp: ov_rawTxInsert_def om_emplace_def map_of_om_insert to_string_key_def ov_txCount_def)

end
