(* ===== verification/ApplyView.thy ===== *)
theory ApplyView
  imports ApplyStateTable OpenView
begin

text \<open>
  The view that a transaction changes (\<open>src/ripple/ledger/impl/ApplyViewBase.cpp\<close>) and the
  discardable sandbox (\<open>src/ripple/ledger/Sandbox.h\<close>). It is a readable view, a target of raw
  changes, and gives its client pointers to private copies of entries.
\<close>

record 'b ApplyViewBase =
  av_flags :: "32 word"
  av_base :: "'b ReadView"
  av_items :: ApplyStateTable

definition ApplyViewBase_of :: "'b ReadView \<Rightarrow> 32 word \<Rightarrow> 'b ApplyViewBase" where
  "ApplyViewBase_of base flags = \<lparr>av_flags = flags, av_base = base, av_items = ApplyStateTable_init\<rparr>"

definition av_view :: "'b ApplyViewBase \<Rightarrow> 'b ReadView" where
  "av_view v =
     \<lparr>rv_info = rv_info (av_base v),
      rv_fees = rv_fees (av_base v),
      rv_exists = (\<lambda>h k. ast_exists (av_base v) h k (av_items v)),
      rv_succ = (\<lambda>key lim. ast_succ (av_base v) key lim (av_items v)),
      rv_read = (\<lambda>h k. ast_read (av_base v) h k (av_items v)),
      rv_txExists = rv_txExists (av_base v),
      rv_txRead = rv_txRead (av_base v)\<rparr>"

definition av_peek :: "Keylet \<Rightarrow> 'b sle_heap \<Rightarrow> 'b ApplyViewBase \<Rightarrow> (led_error, nat option \<times> 'b sle_heap \<times> 'b ApplyViewBase) result" where
  "av_peek k h v = bind_r (ast_peek (av_base v) k h (av_items v)) (\<lambda>(r, h', t). Inr (r, h', v\<lparr>av_items := t\<rparr>))"

definition av_erase :: "'b sle_heap \<Rightarrow> nat \<Rightarrow> 'b ApplyViewBase \<Rightarrow> (led_error, 'b ApplyViewBase) result" where
  "av_erase h sle v = bind_r (ast_erase h sle (av_items v)) (\<lambda>t. Inr (v\<lparr>av_items := t\<rparr>))"

definition av_insert :: "'b sle_heap \<Rightarrow> nat \<Rightarrow> 'b ApplyViewBase \<Rightarrow> (led_error, 'b ApplyViewBase) result" where
  "av_insert h sle v = bind_r (ast_insert h sle (av_items v)) (\<lambda>t. Inr (v\<lparr>av_items := t\<rparr>))"

definition av_update :: "'b sle_heap \<Rightarrow> nat \<Rightarrow> 'b ApplyViewBase \<Rightarrow> (led_error, 'b ApplyViewBase) result" where
  "av_update h sle v = bind_r (ast_update h sle (av_items v)) (\<lambda>t. Inr (v\<lparr>av_items := t\<rparr>))"

definition av_size :: "'b ApplyViewBase \<Rightarrow> nat" where
  "av_size v = ast_size (av_items v)"

definition av_rawErase :: "'b sle_heap \<Rightarrow> nat \<Rightarrow> 'b ApplyViewBase \<Rightarrow> (led_error, 'b ApplyViewBase) result" where
  "av_rawErase h sle v = bind_r (ast_rawErase h sle (av_items v)) (\<lambda>t. Inr (v\<lparr>av_items := t\<rparr>))"

definition av_rawInsert :: "'b sle_heap \<Rightarrow> nat \<Rightarrow> 'b ApplyViewBase \<Rightarrow> (led_error, 'b ApplyViewBase) result" where
  "av_rawInsert h sle v = bind_r (ast_insert h sle (av_items v)) (\<lambda>t. Inr (v\<lparr>av_items := t\<rparr>))"

definition av_rawReplace :: "'b sle_heap \<Rightarrow> nat \<Rightarrow> 'b ApplyViewBase \<Rightarrow> (led_error, 'b ApplyViewBase) result" where
  "av_rawReplace h sle v = bind_r (ast_replace h sle (av_items v)) (\<lambda>t. Inr (v\<lparr>av_items := t\<rparr>))"

definition av_rawDestroyXRP :: "64 word \<Rightarrow> 'b ApplyViewBase \<Rightarrow> 'b ApplyViewBase" where
  "av_rawDestroyXRP feeDrops v = v\<lparr>av_items := ast_destroyXRP feeDrops (av_items v)\<rparr>"

definition av_rawCreateXRP :: "64 word \<Rightarrow> 'b ApplyViewBase \<Rightarrow> 'b ApplyViewBase" where
  "av_rawCreateXRP feeDrops v = v\<lparr>av_items := ast_createXRP feeDrops (av_items v)\<rparr>"

definition av_raw :: "('b, 'b ApplyViewBase) RawView" where
  "av_raw =
     \<lparr>rw_erase = av_rawErase, rw_insert = av_rawInsert, rw_replace = av_rawReplace,
      rw_destroyXRP = av_rawDestroyXRP, rw_createXRP = av_rawCreateXRP\<rparr>"

text \<open>A sandbox on a view, or on an \<open>ApplyView\<close> whose flags it takes.\<close>

definition Sandbox_of :: "'b ReadView \<Rightarrow> 32 word \<Rightarrow> 'b ApplyViewBase" where
  "Sandbox_of base flags = ApplyViewBase_of base flags"

definition Sandbox_on :: "'b ApplyViewBase \<Rightarrow> 'b ApplyViewBase" where
  "Sandbox_on base = Sandbox_of (av_view base) (av_flags base)"

definition sb_apply :: "('b, 's, 'z) RawView_scheme \<Rightarrow> 'b sle_heap \<Rightarrow> 'b ApplyViewBase \<Rightarrow> 's \<Rightarrow> (led_error, 's) result" where
  "sb_apply to h v s = ast_apply to h (av_items v) s"

section \<open>Contracts\<close>

definition av_contents :: "'b sle_heap \<Rightarrow> 'b ApplyViewBase \<Rightarrow> uint256 \<rightharpoonup> 'b SLE" where
  "av_contents h v = ast_contents h (av_items v) (rv_contents (av_base v) h)"

definition av_foot :: "nat set \<Rightarrow> 'b ApplyViewBase \<Rightarrow> nat set" where
  "av_foot F v = F \<union> table_foot (at_items (av_items v))"

definition av_inv :: "nat set \<Rightarrow> 'b sle_heap \<Rightarrow> 'b ApplyViewBase \<Rightarrow> bool" where
  "av_inv F h v = (view_ok F h (av_base v) (rv_contents (av_base v) h) \<and>
     ast_ok h (rv_contents (av_base v) h) (av_items v))"

interpretation apply_view: readable av_view "av_inv F" "av_foot F" av_contents for F
proof
  fix h and v :: "'a ApplyViewBase"
  assume "av_inv F h v"
  then show "view_ok (av_foot F v) h (av_view v) (av_contents h v)"
    unfolding av_foot_def av_contents_def
    by (intro table_view_ok [where base = "av_base v" and ins = "\<lambda>act. act = AInsert"])
      (auto simp: av_inv_def av_view_def ast_reads ast_succ_def)
qed

definition av_at :: "nat set \<Rightarrow> 'b ReadView \<Rightarrow> 32 word \<Rightarrow> 'b sle_heap \<Rightarrow> 'b ApplyViewBase \<Rightarrow> bool" where
  "av_at F base flags h v = (av_inv F h v \<and> av_base v = base \<and> av_flags v = flags)"

interpretation apply_raw: raw_target "av_raw :: ('b, 'b ApplyViewBase) RawView" "av_at F base flags" av_contents "\<lambda>v. ast_net (av_items v)"
  for F base flags
proof
  fix h s a x
  assume inv: "av_at F base flags h (s :: 'b ApplyViewBase)"
  then have ok: "ast_ok h (rv_contents (av_base s) h) (av_items s)" by (auto simp: av_inv_def av_at_def)
  have keep: "av_at F base flags h (s\<lparr>av_items := t\<rparr>)" if "ast_ok h (rv_contents (av_base s) h) t" for t
    using inv that by (auto simp: av_inv_def av_at_def)
  show "\<exists>s'. rw_erase av_raw h a s = Inr s' \<and> av_at F base flags h s' \<and> ast_net (av_items s') = ast_net (av_items s) \<and>
      av_contents h s' = (av_contents h s)(sle_key (h ! a) := None)"
    if "a < length h" "av_contents h s (sle_key (h ! a)) \<noteq> None"
    using ast_rawErase_spec [OF ok that(1) that(2) [unfolded av_contents_def] ov_base_zero] keep
    by (auto simp: av_raw_def av_rawErase_def av_contents_def)
  show "\<exists>s'. rw_insert av_raw h a s = Inr s' \<and> av_at F base flags h s' \<and> ast_net (av_items s') = ast_net (av_items s) \<and>
      av_contents h s' = (av_contents h s)(sle_key (h ! a) \<mapsto> h ! a)"
    if "a < length h" "sle_key (h ! a) \<noteq> 0" "av_contents h s (sle_key (h ! a)) = None"
    using ast_insert_spec [OF ok that(1,2) that(3) [unfolded av_contents_def]] keep
    by (auto simp: av_raw_def av_rawInsert_def av_contents_def)
  show "\<exists>s'. rw_replace av_raw h a s = Inr s' \<and> av_at F base flags h s' \<and> ast_net (av_items s') = ast_net (av_items s) \<and>
      av_contents h s' = (av_contents h s)(sle_key (h ! a) \<mapsto> h ! a)"
    if "a < length h" "av_contents h s (sle_key (h ! a)) \<noteq> None"
    using ast_replace_spec [OF ok that(1) that(2) [unfolded av_contents_def] ov_base_zero] keep
    by (auto simp: av_raw_def av_rawReplace_def av_contents_def)
  show "av_at F base flags h (rw_destroyXRP av_raw x s) \<and> av_contents h (rw_destroyXRP av_raw x s) = av_contents h s \<and>
      ast_net (av_items (rw_destroyXRP av_raw x s)) = ast_net (av_items s) - x"
    using ok by (simp add: av_raw_def av_rawDestroyXRP_def av_contents_def keep)
  show "av_at F base flags h (rw_createXRP av_raw x s) \<and> av_contents h (rw_createXRP av_raw x s) = av_contents h s \<and>
      ast_net (av_items (rw_createXRP av_raw x s)) = ast_net (av_items s) + x"
    using ok by (simp add: av_raw_def av_rawCreateXRP_def av_contents_def keep)
qed

context readable
begin

lemma fresh_apply_view:
  assumes "inv h s"
  shows "av_inv (foot s) h (Sandbox_of (view s) flags)" and "av_contents h (Sandbox_of (view s) flags) = contents h s"
  using promise [OF assms] view_ok_contents [OF promise [OF assms], of h]
  by (simp_all add: av_inv_def av_contents_def Sandbox_of_def ApplyViewBase_of_def ApplyStateTable_init_def)

end

end
