(* ===== verification/LedgerTiming.thy ===== *)
theory LedgerTiming
  imports Serializer
begin

text \<open>
  Close times of ledgers (\<open>src/ripple/app/ledger/LedgerTiming.h\<close>,
  \<open>impl/LedgerTiming.cpp\<close>): the resolution of the next ledger and the rounding of a close time.
  A division by a resolution of zero is undefined and modelled as an error.
\<close>

definition ledgerPossibleTimeResolutions :: "int list" where
  "ledgerPossibleTimeResolutions = [10, 20, 30, 60, 90, 120]"

definition ledgerDefaultTimeResolution :: int where
  "ledgerDefaultTimeResolution = ledgerPossibleTimeResolutions ! 2"

definition increaseLedgerTimeResolutionEvery :: "32 word" where
  "increaseLedgerTimeResolutionEvery = 8"

definition decreaseLedgerTimeResolutionEvery :: "32 word" where
  "decreaseLedgerTimeResolutionEvery = 1"

text \<open>\<open>std::find\<close>: the index of the first element that is equal, or the end.\<close>

fun find_index :: "int \<Rightarrow> int list \<Rightarrow> nat" where
  "find_index x [] = 0"
| "find_index x (y # ys) = (if y = x then 0 else Suc (find_index x ys))"

definition getNextLedgerTimeResolution :: "int \<Rightarrow> bool \<Rightarrow> 32 word \<Rightarrow> (led_error, int) result" where
  "getNextLedgerTimeResolution previousResolution previousAgree ledgerSeq =
     bind_r (led_assert (ledgerSeq \<noteq> 0)) (\<lambda>_.
       let l = ledgerPossibleTimeResolutions; iter = find_index previousResolution l in
       bind_r (led_assert (iter \<noteq> length l)) (\<lambda>_.
         if \<not> previousAgree \<and> ledgerSeq mod decreaseLedgerTimeResolutionEvery = 0 \<and> Suc iter \<noteq> length l
         then Inr (l ! Suc iter)
         else if previousAgree \<and> ledgerSeq mod increaseLedgerTimeResolutionEvery = 0 \<and> iter \<noteq> 0
         then Inr (l ! (iter - 1))
         else Inr previousResolution))"

definition roundCloseTime :: "32 word \<Rightarrow> 32 word \<Rightarrow> (led_error, 32 word) result" where
  "roundCloseTime closeTime closeResolution =
     (if closeTime = 0 then Inr 0
      else if closeResolution = 0 then Inl LRange
      else let t = closeTime + closeResolution div 2 in Inr (t - t mod closeResolution))"

section \<open>Correctness\<close>

lemma find_index_nth: "find_index x l < length l \<Longrightarrow> l ! find_index x l = x"
  by (induction x l rule: find_index.induct) (auto split: if_splits)

lemma find_index_mem: "x \<in> set l \<longleftrightarrow> find_index x l < length l"
  by (induction x l rule: find_index.induct) auto

text \<open>Rounding goes to the nearest multiple of the resolution, ties upwards, unless the sum wraps.\<close>

lemma round_close_spec:
  assumes "t \<noteq> 0" "r \<noteq> 0" "unat t + unat r div 2 < 2 ^ 32"
  shows "\<exists>c. roundCloseTime t r = Inr c \<and> unat r dvd unat c \<and>
    unat c \<le> unat t + unat r div 2 \<and> unat t + unat r div 2 < unat c + unat r"
proof -
  let ?s = "t + r div 2"
  have s: "unat ?s = unat t + unat r div 2"
    using assms(3) by (simp add: unat_add_lem [THEN iffD1] unat_div_distrib)
  have "unat (?s - ?s mod r) = unat ?s - unat ?s mod unat r"
    by (simp add: unat_sub word_le_nat_alt unat_mod_distrib)
  then have c: "unat (?s - ?s mod r) = unat ?s div unat r * unat r" by (simp add: minus_mod_eq_div_mult)
  have "0 < unat r" using assms(2) by (simp add: unat_gt_0)
  with c s assms show ?thesis
    by (simp add: roundCloseTime_def Let_def) (metis div_times_less_eq_dividend dividend_less_div_times add.commute)
qed

end
