(* ===== verification/Ledger.thy ===== *)
theory Ledger
  imports SHAMap_Properties ApplyView LedgerTiming
begin

text \<open>
  The ledger (\<open>src/ripple/app/ledger/Ledger.h\<close>, \<open>Ledger.cpp\<close>): a state map and a
  transaction map, both radix trees, and the header. The serialization of an entry (\<open>SLE::add\<close>) and
  its constructor from bytes are the parameters \<open>ser\<close> and \<open>deser\<close>; \<open>sha\<close> is
  \<open>sha512Half\<close>. It is the bottom of every stack of views: a readable view and a target of raw
  changes.
\<close>

unbundle bit_operations_syntax

record Ledger =
  lg_info :: LedgerInfo
  lg_fees :: Fees
  lg_stateMap :: SHAMap
  lg_txMap :: SHAMap
  lg_validHash :: bool
  lg_immutable :: bool

section \<open>Reading\<close>

definition lg_exists :: "Keylet \<Rightarrow> Ledger \<Rightarrow> (led_error, bool) result" where
  "lg_exists k l = hasItem (kl_key k) (lg_stateMap l)"

definition lg_succ :: "uint256 \<Rightarrow> uint256 option \<Rightarrow> Ledger \<Rightarrow> (led_error, uint256 option) result" where
  "lg_succ key lim l =
     bind_r (peekNextItem key (lg_stateMap l)) (\<lambda>item. case item of
       None \<Rightarrow> Inr None
     | Some it \<Rightarrow> (case lim of
           None \<Rightarrow> Inr (Some (it_key it))
         | Some x \<Rightarrow> if it_key it \<ge> x then Inr None else Inr (Some (it_key it))))"

definition lg_read :: "(Blob \<Rightarrow> uint256 \<Rightarrow> (led_error, 'b SLE) result) \<Rightarrow> Keylet \<Rightarrow> Ledger \<Rightarrow> (led_error, 'b SLE option) result" where
  "lg_read deser k l =
     (if kl_key k = 0 then Inl LAssert
      else bind_r (peekItem (kl_key k) (lg_stateMap l)) (\<lambda>item. case item of
        None \<Rightarrow> Inr None
      | Some it \<Rightarrow> bind_r (deser (it_data it) (it_key it)) (\<lambda>sle.
          bind_r (keylet_check k sle) (\<lambda>b. Inr (if b then Some sle else None)))))"

definition lg_peek :: "(Blob \<Rightarrow> uint256 \<Rightarrow> (led_error, 'b SLE) result) \<Rightarrow> Keylet \<Rightarrow> Ledger \<Rightarrow> (led_error, 'b SLE option) result" where
  "lg_peek deser k l =
     bind_r (peekItem (kl_key k) (lg_stateMap l)) (\<lambda>value. case value of
       None \<Rightarrow> Inr None
     | Some it \<Rightarrow> bind_r (deser (it_data it) (it_key it)) (\<lambda>sle.
         bind_r (keylet_check k sle) (\<lambda>b. Inr (if b then Some sle else None))))"

definition getNextLedgerIndex :: "uint256 \<Rightarrow> uint256 option \<Rightarrow> Ledger \<Rightarrow> (led_error, uint256) result" where
  "getNextLedgerIndex hash lim l =
     bind_r (peekNextItem hash (lg_stateMap l)) (\<lambda>node. case node of
       None \<Rightarrow> Inr 0
     | Some it \<Rightarrow> (case lim of
           None \<Rightarrow> Inr (it_key it)
         | Some x \<Rightarrow> if it_key it \<ge> x then Inr 0 else Inr (it_key it)))"

definition lg_txExists :: "uint256 \<Rightarrow> Ledger \<Rightarrow> (led_error, bool) result" where
  "lg_txExists key l = hasItem key (lg_txMap l)"

definition deserializeTxPlusMeta :: "SHAMapItem \<Rightarrow> (led_error, Blob \<times> Blob) result" where
  "deserializeTxPlusMeta item =
     bind_r (si_getVLDataLength (SerialIter_of (it_data item))) (\<lambda>(n, sit1).
     bind_r (si_getSlice (nat n) sit1) (\<lambda>(txn, sit2).
     bind_r (si_getVLDataLength sit2) (\<lambda>(n', sit3).
     bind_r (si_getSlice (nat n') sit3) (\<lambda>(meta, _). Inr (txn, meta)))))"

definition lg_txRead :: "uint256 \<Rightarrow> Ledger \<Rightarrow> (led_error, Blob option \<times> Blob option) result" where
  "lg_txRead key l =
     bind_r (peekItem key (lg_txMap l)) (\<lambda>item. case item of
       None \<Rightarrow> Inr (None, None)
     | Some it \<Rightarrow>
         if \<not> li_open (lg_info l)
         then bind_r (deserializeTxPlusMeta it) (\<lambda>(txn, meta). Inr (Some txn, Some meta))
         else Inr (Some (it_data it), None))"

definition lg_view :: "(Blob \<Rightarrow> uint256 \<Rightarrow> (led_error, 'b SLE) result) \<Rightarrow> Ledger \<Rightarrow> 'b ReadView" where
  "lg_view deser l =
     \<lparr>rv_info = lg_info l, rv_fees = lg_fees l,
      rv_exists = (\<lambda>_ k. lg_exists k l), rv_succ = (\<lambda>key lim. lg_succ key lim l), rv_read = (\<lambda>_ k. lg_read deser k l),
      rv_txExists = (\<lambda>key. lg_txExists key l), rv_txRead = (\<lambda>key. lg_txRead key l)\<rparr>"

section \<open>Raw changes\<close>

definition lg_rawErase :: "'b sle_heap \<Rightarrow> nat \<Rightarrow> Ledger \<Rightarrow> (led_error, Ledger) result" where
  "lg_rawErase h sle l =
     bind_r (delItem (sle_key (h ! sle)) (lg_stateMap l)) (\<lambda>(done, m).
       if done then Inr (l\<lparr>lg_stateMap := m\<rparr>) else Inl (LLogic ''Ledger::rawErase: key not found''))"

definition lg_rawInsert :: "('b SLE \<Rightarrow> (led_error, Blob) result) \<Rightarrow> 'b sle_heap \<Rightarrow> nat \<Rightarrow> Ledger \<Rightarrow> (led_error, Ledger) result" where
  "lg_rawInsert ser h sle l =
     bind_r (ser (h ! sle)) (\<lambda>ss.
     bind_r (addGiveItem \<lparr>it_key = sle_key (h ! sle), it_data = ss\<rparr> False False (lg_stateMap l)) (\<lambda>(done, m).
       if done then Inr (l\<lparr>lg_stateMap := m\<rparr>) else Inl (LLogic ''Ledger::rawInsert: key already exists'')))"

definition lg_rawReplace ::
  "(Blob \<Rightarrow> uint256) \<Rightarrow> ('b SLE \<Rightarrow> (led_error, Blob) result) \<Rightarrow> 'b sle_heap \<Rightarrow> nat \<Rightarrow> Ledger \<Rightarrow> (led_error, Ledger) result" where
  "lg_rawReplace sha ser h sle l =
     bind_r (ser (h ! sle)) (\<lambda>ss.
     bind_r (updateGiveItem (leaf_hash sha) \<lparr>it_key = sle_key (h ! sle), it_data = ss\<rparr> False False (lg_stateMap l)) (\<lambda>(done, m).
       if done then Inr (l\<lparr>lg_stateMap := m\<rparr>) else Inl (LLogic ''Ledger::rawReplace: key not found'')))"

definition lg_rawDestroyXRP :: "64 word \<Rightarrow> Ledger \<Rightarrow> Ledger" where
  "lg_rawDestroyXRP feeDrops l = l\<lparr>lg_info := (lg_info l)\<lparr>li_drops := li_drops (lg_info l) - feeDrops\<rparr>\<rparr>"

definition lg_rawCreateXRP :: "64 word \<Rightarrow> Ledger \<Rightarrow> Ledger" where
  "lg_rawCreateXRP feeDrops l = l\<lparr>lg_info := (lg_info l)\<lparr>li_drops := li_drops (lg_info l) + feeDrops\<rparr>\<rparr>"

definition lg_rawTxInsert :: "uint256 \<Rightarrow> Blob \<Rightarrow> Blob option \<Rightarrow> Ledger \<Rightarrow> (led_error, Ledger) result" where
  "lg_rawTxInsert key txn metaData l =
     bind_r (led_assert ((metaData \<noteq> None) \<noteq> li_open (lg_info l))) (\<lambda>_.
     bind_r (case metaData of
         Some meta \<Rightarrow>
           bind_r (addVL txn []) (\<lambda>(_, s1).
           bind_r (addVL meta s1) (\<lambda>(_, s2). addGiveItem \<lparr>it_key = key, it_data = s2\<rparr> True True (lg_txMap l)))
       | None \<Rightarrow> addGiveItem \<lparr>it_key = key, it_data = txn\<rparr> True False (lg_txMap l)) (\<lambda>(done, m).
       if done then Inr (l\<lparr>lg_txMap := m\<rparr>)
       else bind_r (to_string_key key) (\<lambda>s. Inl (LLogic (''duplicate_tx: '' @ s)))))"

definition lg_raw :: "(Blob \<Rightarrow> uint256) \<Rightarrow> ('b SLE \<Rightarrow> (led_error, Blob) result) \<Rightarrow> ('b, Ledger) TxsRawView" where
  "lg_raw sha ser =
     \<lparr>rw_erase = lg_rawErase, rw_insert = lg_rawInsert ser, rw_replace = lg_rawReplace sha ser,
      rw_destroyXRP = lg_rawDestroyXRP, rw_createXRP = lg_rawCreateXRP, rw_txInsert = lg_rawTxInsert\<rparr>"

section \<open>Header\<close>

definition addRaw_info :: "LedgerInfo \<Rightarrow> Serializer \<Rightarrow> Serializer" where
  "addRaw_info info s =
     snd (add8 (ucast (li_closeFlags info)) (snd (add8 (ucast (li_closeTimeResolution info))
     (snd (add32 (li_closeTime info) (snd (add32 (li_parentCloseTime info)
     (snd (add256 (li_accountHash info) (snd (add256 (li_txHash info) (snd (add256 (li_parentHash info)
     (snd (add64 (li_drops info) (snd (add32 (li_seq info) s)))))))))))))))))"

text \<open>The fields \<open>setRaw\<close> reads; the maps it then makes fetch their nodes from the node store.\<close>

definition setRaw_info :: "bool \<Rightarrow> LedgerInfo \<Rightarrow> SerialIter \<Rightarrow> (led_error, LedgerInfo \<times> SerialIter) result" where
  "setRaw_info hasPrefix info sit =
     bind_r (if hasPrefix then bind_r (si_get32 sit) (\<lambda>(_, i). Inr i) else Inr sit) (\<lambda>i0.
     bind_r (si_get32 i0) (\<lambda>(seq, i1).
     bind_r (si_get64 i1) (\<lambda>(drops, i2).
     bind_r (si_getBitString 32 i2) (\<lambda>(parent, i3).
     bind_r (si_getBitString 32 i3) (\<lambda>(tx, i4).
     bind_r (si_getBitString 32 i4) (\<lambda>(acct, i5).
     bind_r (si_get32 i5) (\<lambda>(pct, i6).
     bind_r (si_get32 i6) (\<lambda>(ct, i7).
     bind_r (si_get8 i7) (\<lambda>(res, i8).
     bind_r (si_get8 i8) (\<lambda>(flags, i9).
       Inr (info\<lparr>li_seq := seq, li_drops := drops, li_parentHash := parent, li_txHash := tx, li_accountHash := acct,
            li_parentCloseTime := pct, li_closeTime := ct, li_closeTimeResolution := ucast res,
            li_closeFlags := ucast flags\<rparr>, i9)))))))))))"

definition HP_ledgerMaster :: "32 word" where
  "HP_ledgerMaster = hash_prefix 0x4C 0x57 0x52"

text \<open>\<open>sha512Half\<close> of several values hashes their bytes in sequence, integers in big endian order.\<close>

definition header_bytes :: "LedgerInfo \<Rightarrow> Blob" where
  "header_bytes info =
     be_bytes 4 HP_ledgerMaster @ be_bytes 4 (li_seq info) @ be_bytes 8 (li_drops info) @ be_bytes 32 (li_parentHash info) @
     be_bytes 32 (li_txHash info) @ be_bytes 32 (li_accountHash info) @ be_bytes 4 (li_parentCloseTime info) @
     be_bytes 4 (li_closeTime info) @ [ucast (li_closeTimeResolution info), ucast (li_closeFlags info)]"

definition updateHash :: "(Blob \<Rightarrow> uint256) \<Rightarrow> Ledger \<Rightarrow> Ledger" where
  "updateHash sha l =
     (let info = (if lg_immutable l then lg_info l
                  else (lg_info l)\<lparr>li_txHash := getHash sha (lg_txMap l), li_accountHash := getHash sha (lg_stateMap l)\<rparr>)
      in l\<lparr>lg_info := info\<lparr>li_hash := sha (header_bytes info)\<rparr>, lg_validHash := True\<rparr>)"

definition sm_setImmutable :: "SHAMap \<Rightarrow> (led_error, SHAMap) result" where
  "sm_setImmutable m = bind_r (led_assert (sm_state m \<noteq> Invalid)) (\<lambda>_. Inr (m\<lparr>sm_state := Immutable\<rparr>))"

definition snapShot :: "bool \<Rightarrow> SHAMap \<Rightarrow> SHAMap" where
  "snapShot isMutable m = \<lparr>sm_state = if isMutable then Modifying else Immutable, sm_root = sm_root m\<rparr>"

text \<open>\<open>setFees\<close>, which reads fields of the fee entry, is an argument here and defined with the entries.\<close>

definition setImmutable :: "(Blob \<Rightarrow> uint256) \<Rightarrow> (Ledger \<Rightarrow> (led_error, Fees) result) \<Rightarrow> Ledger \<Rightarrow> (led_error, Ledger) result" where
  "setImmutable sha setFees l =
     (let l1 = (updateHash sha l)\<lparr>lg_immutable := True\<rparr> in
      bind_r (sm_setImmutable (lg_txMap l1)) (\<lambda>tx.
      bind_r (sm_setImmutable (lg_stateMap l1)) (\<lambda>st.
        let l2 = l1\<lparr>lg_txMap := tx, lg_stateMap := st\<rparr> in
        bind_r (setFees l2) (\<lambda>f. Inr (l2\<lparr>lg_fees := f\<rparr>)))))"

definition setAccepted_consensus ::
  "(Blob \<Rightarrow> uint256) \<Rightarrow> (Ledger \<Rightarrow> (led_error, Fees) result) \<Rightarrow> 32 word \<Rightarrow> 32 word \<Rightarrow> bool \<Rightarrow> Ledger \<Rightarrow> (led_error, Ledger) result" where
  "setAccepted_consensus sha setFees closeTime closeResolution correctCloseTime l =
     bind_r (led_assert (\<not> li_open (lg_info l) \<and> \<not> li_accepted (lg_info l))) (\<lambda>_.
     bind_r (if correctCloseTime then roundCloseTime closeTime closeResolution else Inr closeTime) (\<lambda>t.
       setImmutable sha setFees (l\<lparr>lg_info := (lg_info l)\<lparr>li_closeTime := t, li_closeTimeResolution := closeResolution,
         li_closeFlags := if correctCloseTime then 0 else 1, li_accepted := True\<rparr>\<rparr>)))"

definition setAccepted_acquired ::
  "(Blob \<Rightarrow> uint256) \<Rightarrow> (Ledger \<Rightarrow> (led_error, Fees) result) \<Rightarrow> Ledger \<Rightarrow> (led_error, Ledger) result" where
  "setAccepted_acquired sha setFees l =
     bind_r (if li_closeFlags (lg_info l) AND 1 = 0
             then roundCloseTime (li_closeTime (lg_info l)) (li_closeTimeResolution (lg_info l))
             else Inr (li_closeTime (lg_info l))) (\<lambda>t.
       setImmutable sha setFees (l\<lparr>lg_info := (lg_info l)\<lparr>li_closeTime := t, li_accepted := True\<rparr>\<rparr>))"

definition setClosed :: "Ledger \<Rightarrow> Ledger" where
  "setClosed l = l\<lparr>lg_info := (lg_info l)\<lparr>li_open := False\<rparr>\<rparr>"

definition setValidated :: "Ledger \<Rightarrow> Ledger" where
  "setValidated l = l\<lparr>lg_info := (lg_info l)\<lparr>li_validated := True\<rparr>\<rparr>"

definition setTotalDrops :: "64 word \<Rightarrow> Ledger \<Rightarrow> Ledger" where
  "setTotalDrops totDrops l = l\<lparr>lg_info := (lg_info l)\<lparr>li_drops := totDrops\<rparr>\<rparr>"

definition setCloseTime :: "32 word \<Rightarrow> Ledger \<Rightarrow> (led_error, Ledger) result" where
  "setCloseTime when l =
     bind_r (led_assert (\<not> lg_immutable l)) (\<lambda>_. Inr (l\<lparr>lg_info := (lg_info l)\<lparr>li_closeTime := when\<rparr>\<rparr>))"

definition addSLE :: "('b SLE \<Rightarrow> (led_error, Blob) result) \<Rightarrow> 'b SLE \<Rightarrow> Ledger \<Rightarrow> (led_error, bool \<times> Ledger) result" where
  "addSLE ser sle l =
     bind_r (ser sle) (\<lambda>ss.
     bind_r (addGiveItem \<lparr>it_key = sle_key sle, it_data = ss\<rparr> False False (lg_stateMap l)) (\<lambda>(done, m).
       Inr (done, l\<lparr>lg_stateMap := m\<rparr>)))"

section \<open>Constructors\<close>

definition LedgerInfo_init :: LedgerInfo where
  "LedgerInfo_init =
     \<lparr>li_open = True, li_seq = 0, li_parentCloseTime = 0, li_hash = 0, li_txHash = 0, li_accountHash = 0, li_parentHash = 0,
      li_drops = 0, li_validated = False, li_accepted = False, li_closeFlags = 0, li_closeTimeResolution = 0, li_closeTime = 0\<rparr>"

definition Ledger_snapshot :: "(Blob \<Rightarrow> uint256) \<Rightarrow> Ledger \<Rightarrow> bool \<Rightarrow> Ledger" where
  "Ledger_snapshot sha l isMutable =
     updateHash sha \<lparr>lg_info = lg_info l, lg_fees = lg_fees l, lg_stateMap = snapShot isMutable (lg_stateMap l),
       lg_txMap = snapShot isMutable (lg_txMap l), lg_validHash = False, lg_immutable = \<not> isMutable\<rparr>"

text \<open>The open ledger that follows \<open>prev\<close>; \<open>now\<close> is the network's close time.\<close>

definition Ledger_open :: "32 word \<Rightarrow> Ledger \<Rightarrow> (led_error, Ledger) result" where
  "Ledger_open now prev =
     (let p = lg_info prev; seq = li_seq p + 1 in
      bind_r (getNextLedgerTimeResolution (sint (li_closeTimeResolution p)) (getCloseAgree p) seq) (\<lambda>res.
      bind_r (if li_closeTime p = 0 then roundCloseTime now (word_of_int res)
              else Inr (li_closeTime p + word_of_int res)) (\<lambda>ct.
        Inr \<lparr>lg_info = LedgerInfo_init\<lparr>li_open := True, li_seq := seq, li_parentCloseTime := li_closeTime p,
               li_hash := li_hash p + 1, li_drops := li_drops p, li_parentHash := li_hash p,
               li_closeTimeResolution := word_of_int res, li_closeTime := ct\<rparr>,
             lg_fees = lg_fees prev, lg_stateMap = snapShot True (lg_stateMap prev), lg_txMap = SHAMap_init,
             lg_validHash = False, lg_immutable = False\<rparr>)))"

end
