(* ===== verification/Ledger_Spec.thy ===== *)
theory Ledger_Spec
  imports Ledger
begin

text \<open>
  What the ledger promises: its state map, decoded, is the map that the read interface shows and that raw
  changes update; a transaction that was inserted is read back; the header is parsed back from its bytes,
  and the bytes that are hashed are the prefix and the serialized header.
\<close>

section \<open>Contents and invariant\<close>

text \<open>What is assumed of the serialization of the entries a ledger may hold, those that are \<open>good\<close>: it
  succeeds, the constructor inverts it, given the key, and the bytes are at least as many as a leaf of the tree
  requires.\<close>

type_synonym 'b entry_writer = "'b SLE \<Rightarrow> (led_error, Blob) result"

type_synonym 'b entry_reader = "Blob \<Rightarrow> uint256 \<Rightarrow> (led_error, 'b SLE) result"

definition codec_ok :: "('b SLE \<Rightarrow> bool) \<Rightarrow> 'b entry_writer \<Rightarrow> 'b entry_reader \<Rightarrow> bool" where
  "codec_ok good ser deser =
     (\<forall>s. good s \<longrightarrow> (\<exists>bs. ser s = Inr bs \<and> deser bs (sle_key s) = Inr s \<and> 12 \<le> length bs))"

definition lg_contents :: "'b entry_reader \<Rightarrow> Ledger \<Rightarrow> uint256 \<rightharpoonup> 'b SLE" where
  "lg_contents deser l k = (case map_of (shamap_items (lg_stateMap l)) k of
      None \<Rightarrow> None
    | Some it \<Rightarrow> (case deser (it_data it) k of Inl _ \<Rightarrow> None | Inr s \<Rightarrow> Some s))"

definition lg_ok :: "('b SLE \<Rightarrow> bool) \<Rightarrow> 'b entry_writer \<Rightarrow> 'b entry_reader \<Rightarrow> Ledger \<Rightarrow> bool" where
  "lg_ok good ser deser l = (codec_ok good ser deser \<and> shamap_ok tnACCOUNT_STATE (lg_stateMap l) \<and>
     (\<forall>k it. map_of (shamap_items (lg_stateMap l)) k = Some it \<longrightarrow> k \<noteq> 0 \<and> (\<exists>s. good s \<and> sle_key s = k \<and> ser s = Inr (it_data it))))"

definition lg_inv :: "('b SLE \<Rightarrow> bool) \<Rightarrow> 'b entry_writer \<Rightarrow> 'b entry_reader \<Rightarrow> Ledger \<Rightarrow> bool" where
  "lg_inv good ser deser l = (lg_ok good ser deser l \<and> sm_state (lg_stateMap l) \<noteq> Immutable \<and> sm_state (lg_stateMap l) \<noteq> Synching)"

lemma lg_item:
  assumes "lg_ok good ser deser l" "map_of (shamap_items (lg_stateMap l)) k = Some it"
  obtains s where "lg_contents deser l k = Some s" "good s" "sle_key s = k" "deser (it_data it) k = Inr s" "it_key it = k" "k \<noteq> 0"
proof -
  from assms obtain s where s: "good s" "sle_key s = k" "ser s = Inr (it_data it)" "k \<noteq> 0" by (auto simp: lg_ok_def)
  moreover have "it_key it = k" using assms shamap_keys by (auto simp: lg_ok_def)
  moreover have d: "deser (it_data it) k = Inr s" using assms(1) s unfolding lg_ok_def codec_ok_def by auto
  moreover have "lg_contents deser l k = Some s" using assms(2) d by (simp add: lg_contents_def)
  ultimately show ?thesis using that by blast
qed

lemma lg_contents_good: "lg_ok good ser deser l \<Longrightarrow> lg_contents deser l k = Some s \<Longrightarrow> good s"
  by (cases "map_of (shamap_items (lg_stateMap l)) k") (auto simp: lg_contents_def elim: lg_item)

lemma lg_contents_None: "lg_ok good ser deser l \<Longrightarrow> lg_contents deser l k = None \<longleftrightarrow> map_of (shamap_items (lg_stateMap l)) k = None"
  by (cases "map_of (shamap_items (lg_stateMap l)) k") (auto simp: lg_contents_def elim: lg_item)

lemma lg_contents_dom: "lg_ok good ser deser l \<Longrightarrow> dom (lg_contents deser l) = dom (map_of (shamap_items (lg_stateMap l)))"
  unfolding dom_def by (simp only: lg_contents_None)

lemma find_is_succ:
  "om_ok (<) items \<Longrightarrow> is_succ (fst ` set items) key None (map_option fst (List.find (\<lambda>e. key < fst e) items))"
  for items :: "(uint256 \<times> 'v) list"
proof (induction items)
  case (Cons e items)
  from Cons.prems have "\<forall>x \<in> set items. fst e < fst x" "om_ok (<) items" by (auto simp: om_ok_def)
  with Cons.IH show ?case
    by (auto simp: is_succ_def below_def split: option.splits if_splits intro: less_imp_le) force
qed (simp add: is_succ_def)

lemma is_succ_cut: "is_succ D key None r \<Longrightarrow> is_succ D key lim (cut_at lim r)"
  by (cases r; cases lim) (auto simp: is_succ_def cut_at_def below_def)

lemma lg_succ_spec:
  assumes "lg_ok good ser deser l"
  shows "\<exists>r. lg_succ key lim l = Inr r \<and> is_succ (dom (lg_contents deser l)) key lim r"
proof -
  let ?items = "shamap_items (lg_stateMap l)" and ?f = "List.find (\<lambda>e. key < fst e) (shamap_items (lg_stateMap l))"
  have ok: "shamap_ok tnACCOUNT_STATE (lg_stateMap l)" using assms by (simp add: lg_ok_def)
  have key: "it_key (snd e) = fst e" if "?f = Some e" for e
  proof -
    from that have "e \<in> set ?items" by (auto simp: find_Some_iff)
    then have "map_of ?items (fst e) = Some (snd e)"
      using keys.om_ok_distinct [OF shamap_sorted [OF ok]] by (simp add: map_of_eq_Some_iff)
    with shamap_keys [OF ok] show ?thesis by blast
  qed
  have "lg_succ key lim l = Inr (cut_at lim (map_option fst ?f))"
    using key by (cases ?f; cases lim) (auto simp: lg_succ_def peekNextItem_ok [OF ok] cut_at_def)
  moreover have "is_succ (dom (lg_contents deser l)) key None (map_option fst ?f)"
    unfolding lg_contents_dom [OF assms] dom_map_of_conv_image_fst by (rule find_is_succ [OF shamap_sorted [OF ok]])
  ultimately show ?thesis using is_succ_cut by blast
qed

lemma lg_read_spec:
  assumes "lg_ok good ser deser l" "kl_key k \<noteq> 0"
  shows "lg_read deser k l = checked k (lg_contents deser l (kl_key k))"
proof -
  have ok: "shamap_ok tnACCOUNT_STATE (lg_stateMap l)" using assms(1) by (simp add: lg_ok_def)
  show ?thesis
  proof (cases "map_of (shamap_items (lg_stateMap l)) (kl_key k)")
    case None
    with assms show ?thesis by (simp add: lg_read_def peekItem_ok [OF ok] lg_contents_def checked_def)
  next
    case (Some it)
    from lg_item [OF assms(1) this] obtain s where s: "lg_contents deser l (kl_key k) = Some s"
      "deser (it_data it) (kl_key k) = Inr s" "it_key it = kl_key k" by blast
    with Some assms(2) show ?thesis by (simp add: lg_read_def peekItem_ok [OF ok] checked_def)
  qed
qed

interpretation ledger_view: readable "lg_view deser" "\<lambda>_. lg_ok good ser deser" "\<lambda>_. {}" "\<lambda>_. lg_contents deser" for good ser deser
proof
  fix h :: "'a sle_heap" and l
  assume ok: "lg_ok good ser deser l"
  then have map: "shamap_ok tnACCOUNT_STATE (lg_stateMap l)" by (simp add: lg_ok_def)
  have "keyed (lg_contents deser l)"
    unfolding keyed_def
  proof (intro conjI allI impI)
    show "lg_contents deser l 0 = None" using ok lg_contents_None [OF ok, of 0]
      by (cases "map_of (shamap_items (lg_stateMap l)) 0") (auto simp: lg_ok_def)
    fix k s
    assume "lg_contents deser l k = Some s"
    with lg_contents_None [OF ok, of k] obtain it where "map_of (shamap_items (lg_stateMap l)) k = Some it" by auto
    from lg_item [OF ok this] show "sle_key s = k" using \<open>lg_contents deser l k = Some s\<close> by auto
  qed
  then show "view_ok {} h (lg_view deser l) (lg_contents deser l)"
    using lg_succ_spec [OF ok] lg_contents_None [OF ok]
    by (simp add: view_ok_def read_ok_def lg_view_def lg_read_spec [OF ok] lg_exists_def hasItem_ok [OF map])
qed

section \<open>Raw changes\<close>

text \<open>A change of one item of the state map is the change of one entry.\<close>

lemma lg_changed:
  assumes "lg_inv good ser deser l" "shamap_ok tnACCOUNT_STATE m" "sm_state m = sm_state (lg_stateMap l)"
    and "map_of (shamap_items m) = (map_of (shamap_items (lg_stateMap l)))
      (sle_key s := if b then Some \<lparr>it_key = sle_key s, it_data = bs\<rparr> else None)"
    and "b \<longrightarrow> sle_key s \<noteq> 0 \<and> good s \<and> ser s = Inr bs"
  shows "lg_inv good ser deser (l\<lparr>lg_stateMap := m\<rparr>)"
    and "lg_contents deser (l\<lparr>lg_stateMap := m\<rparr>) = (lg_contents deser l)(sle_key s := if b then Some s else None)"
proof -
  have codec: "b \<longrightarrow> deser bs (sle_key s) = Inr s" using assms(1,5) unfolding lg_inv_def lg_ok_def codec_ok_def by auto
  show "lg_inv good ser deser (l\<lparr>lg_stateMap := m\<rparr>)"
    using assms by (auto simp: lg_inv_def lg_ok_def split: if_splits)
  show "lg_contents deser (l\<lparr>lg_stateMap := m\<rparr>) = (lg_contents deser l)(sle_key s := if b then Some s else None)"
    using codec by (auto simp: lg_contents_def assms(4) fun_eq_iff)
qed

text \<open>Raw changes of the state leave the transactions and the rest of the header as they are.\<close>

definition lg_at :: "('b SLE \<Rightarrow> bool) \<Rightarrow> 'b entry_writer \<Rightarrow> 'b entry_reader \<Rightarrow> SHAMap \<Rightarrow> LedgerInfo \<Rightarrow> Ledger \<Rightarrow> bool" where
  "lg_at good ser deser tx info l = (lg_inv good ser deser l \<and> lg_txMap l = tx \<and> (lg_info l)\<lparr>li_drops := 0\<rparr> = info\<lparr>li_drops := 0\<rparr>)"

lemma lg_inv_parts:
  assumes "lg_inv good ser deser l"
  shows "lg_ok good ser deser l" "shamap_ok tnACCOUNT_STATE (lg_stateMap l)" "sm_state (lg_stateMap l) \<noteq> Immutable" "sm_state (lg_stateMap l) \<noteq> Synching"
    "good s \<Longrightarrow> \<exists>bs. ser s = Inr bs \<and> 12 \<le> length bs"
  using assms unfolding lg_inv_def lg_ok_def codec_ok_def by auto

lemma leaf_type_state: "leaf_type False False = tnACCOUNT_STATE"
  by (simp add: leaf_type_def)

lemma lg_erase_ok:
  fixes h :: "'b sle_heap" and good :: "'b SLE \<Rightarrow> bool"
  assumes "lg_inv good ser deser l" "lg_contents deser l (sle_key (h ! a)) \<noteq> None"
  shows "\<exists>m. lg_rawErase h a l = Inr (l\<lparr>lg_stateMap := m\<rparr>) \<and> lg_inv good ser deser (l\<lparr>lg_stateMap := m\<rparr>) \<and>
    lg_contents deser (l\<lparr>lg_stateMap := m\<rparr>) = (lg_contents deser l)(sle_key (h ! a) := None) \<and> sm_state m = sm_state (lg_stateMap l)"
proof -
  let ?s = "h ! a" and ?m = "lg_stateMap l"
  note ok = lg_inv_parts [OF assms(1)]
  obtain m where m: "delItem (sle_key ?s) ?m = Inr (True, m)" "shamap_ok tnACCOUNT_STATE m"
    "shamap_items m = om_erase (sle_key ?s) (shamap_items ?m)" "sm_state m = sm_state ?m"
    using delItem_ok [OF ok(2,3), of "sle_key ?s"] assms(2) lg_contents_None [OF ok(1), of "sle_key ?s"] by auto
  with lg_changed [OF assms(1) m(2,4), where b = False and s = ?s] show ?thesis
    by (auto simp: lg_rawErase_def map_of_om_erase)
qed

lemma lg_insert_ok:
  assumes "lg_inv good ser deser l" "good (h ! a)" "sle_key (h ! a) \<noteq> 0" "lg_contents deser l (sle_key (h ! a)) = None"
  shows "\<exists>m. lg_rawInsert ser h a l = Inr (l\<lparr>lg_stateMap := m\<rparr>) \<and> lg_inv good ser deser (l\<lparr>lg_stateMap := m\<rparr>) \<and>
    lg_contents deser (l\<lparr>lg_stateMap := m\<rparr>) = (lg_contents deser l)(sle_key (h ! a) \<mapsto> h ! a) \<and> sm_state m = sm_state (lg_stateMap l)"
proof -
  let ?s = "h ! a" and ?m = "lg_stateMap l"
  note ok = lg_inv_parts [OF assms(1)] and none = lg_contents_None [OF lg_inv_parts(1) [OF assms(1)], of "sle_key (h ! a)"]
  obtain bs where bs: "ser ?s = Inr bs" "12 \<le> length bs" using ok(5) [OF assms(2)] by blast
  let ?it = "\<lparr>it_key = sle_key ?s, it_data = bs\<rparr>"
  obtain m where m: "addGiveItem ?it False False ?m = Inr (True, m)" "shamap_ok tnACCOUNT_STATE m"
    "shamap_items m = fst (om_emplace (<) (sle_key ?s) ?it (shamap_items ?m))" "sm_state m = sm_state ?m"
    using addGiveItem_ok [OF ok(2-4) leaf_type_state, of ?it] assms(4) none bs(2) by auto
  then have "map_of (shamap_items m) = (map_of (shamap_items ?m))(sle_key ?s \<mapsto> ?it)"
    using assms(4) none by (simp add: om_emplace_def map_of_om_insert)
  with m bs lg_changed [OF assms(1) m(2,4), where b = True and s = ?s and bs = bs] assms(2,3) show ?thesis
    by (auto simp: lg_rawInsert_def)
qed

lemma lg_replace_ok:
  assumes "lg_inv good ser deser l" "good (h ! a)" "lg_contents deser l (sle_key (h ! a)) \<noteq> None"
  shows "\<exists>m. lg_rawReplace sha ser h a l = Inr (l\<lparr>lg_stateMap := m\<rparr>) \<and> lg_inv good ser deser (l\<lparr>lg_stateMap := m\<rparr>) \<and>
    lg_contents deser (l\<lparr>lg_stateMap := m\<rparr>) = (lg_contents deser l)(sle_key (h ! a) \<mapsto> h ! a) \<and> sm_state m = sm_state (lg_stateMap l)"
proof -
  let ?s = "h ! a" and ?m = "lg_stateMap l"
  note ok = lg_inv_parts [OF assms(1)]
  obtain bs where bs: "ser ?s = Inr bs" "12 \<le> length bs" using ok(5) [OF assms(2)] by blast
  let ?it = "\<lparr>it_key = sle_key ?s, it_data = bs\<rparr>"
  obtain old where old: "map_of (shamap_items ?m) (sle_key ?s) = Some old" using assms(3) lg_contents_None [OF ok(1), of "sle_key ?s"] by auto
  obtain m where m: "updateGiveItem (leaf_hash sha) ?it False False ?m = Inr (True, m)" "shamap_ok tnACCOUNT_STATE m"
    "shamap_items m = om_update (sle_key ?s) ?it (shamap_items ?m)" "sm_state m = sm_state ?m"
    using updateGiveItem_ok [OF ok(2-4) leaf_type_state, of ?it old "leaf_hash sha"] old bs(2) by auto
  then have "map_of (shamap_items m) = (map_of (shamap_items ?m))(sle_key ?s \<mapsto> ?it)"
    using old by (simp add: map_of_om_update fun_eq_iff)
  moreover have "sle_key ?s \<noteq> 0" using old ok(1) by (auto simp: lg_ok_def)
  ultimately show ?thesis using m(1,4) bs lg_changed [OF assms(1) m(2,4), where b = True and s = ?s and bs = bs] assms(2)
    by (auto simp: lg_rawReplace_def)
qed

text \<open>The changes that a client applies come from a heap of good entries.\<close>

interpretation ledger_raw: raw_target "lg_raw sha ser" "\<lambda>h l. heap_good good h \<and> lg_at good ser deser tx info l" "\<lambda>_. lg_contents deser"
    "\<lambda>l. li_drops (lg_info l)"
  for sha good ser deser tx info
proof
  fix h :: "'a sle_heap" and l :: Ledger and a x
  assume "heap_good good h \<and> lg_at good ser deser tx info l"
  then have h: "heap_good good h" and at: "lg_at good ser deser tx info l" and inv: "lg_inv good ser deser l" by (simp_all add: lg_at_def)
  have keep: "heap_good good h \<and> lg_at good ser deser tx info (l\<lparr>lg_stateMap := m\<rparr>)" if "lg_inv good ser deser (l\<lparr>lg_stateMap := m\<rparr>)" for m
    using at h that by (simp add: lg_at_def)
  have good: "good (h ! a)" if "a < length h" using h that by (simp add: heap_good_def)
  show "\<exists>l'. rw_erase (lg_raw sha ser) h a l = Inr l' \<and> (heap_good good h \<and> lg_at good ser deser tx info l') \<and>
      li_drops (lg_info l') = li_drops (lg_info l) \<and> lg_contents deser l' = (lg_contents deser l)(sle_key (h ! a) := None)"
    if "lg_contents deser l (sle_key (h ! a)) \<noteq> None"
    using lg_erase_ok [OF inv that] keep by (auto simp: lg_raw_def)
  show "\<exists>l'. rw_insert (lg_raw sha ser) h a l = Inr l' \<and> (heap_good good h \<and> lg_at good ser deser tx info l') \<and>
      li_drops (lg_info l') = li_drops (lg_info l) \<and> lg_contents deser l' = (lg_contents deser l)(sle_key (h ! a) \<mapsto> h ! a)"
    if "a < length h" "sle_key (h ! a) \<noteq> 0" "lg_contents deser l (sle_key (h ! a)) = None"
    using lg_insert_ok [OF inv good [OF that(1)] that(2,3)] keep by (auto simp: lg_raw_def)
  show "\<exists>l'. rw_replace (lg_raw sha ser) h a l = Inr l' \<and> (heap_good good h \<and> lg_at good ser deser tx info l') \<and>
      li_drops (lg_info l') = li_drops (lg_info l) \<and> lg_contents deser l' = (lg_contents deser l)(sle_key (h ! a) \<mapsto> h ! a)"
    if "a < length h" "lg_contents deser l (sle_key (h ! a)) \<noteq> None"
    using lg_replace_ok [OF inv good [OF that(1)] that(2), of sha] keep by (auto simp: lg_raw_def)
  show "(heap_good good h \<and> lg_at good ser deser tx info (rw_destroyXRP (lg_raw sha ser) x l)) \<and>
      lg_contents deser (rw_destroyXRP (lg_raw sha ser) x l) = lg_contents deser l \<and>
      li_drops (lg_info (rw_destroyXRP (lg_raw sha ser) x l)) = li_drops (lg_info l) - x"
    using at h by (simp add: lg_raw_def lg_rawDestroyXRP_def lg_at_def lg_inv_def lg_ok_def lg_contents_def fun_eq_iff)
  show "(heap_good good h \<and> lg_at good ser deser tx info (rw_createXRP (lg_raw sha ser) x l)) \<and>
      lg_contents deser (rw_createXRP (lg_raw sha ser) x l) = lg_contents deser l \<and>
      li_drops (lg_info (rw_createXRP (lg_raw sha ser) x l)) = li_drops (lg_info l) + x"
    using at h by (simp add: lg_raw_def lg_rawCreateXRP_def lg_at_def lg_inv_def lg_ok_def lg_contents_def fun_eq_iff)
qed

section \<open>Transactions\<close>

text \<open>The leaves of the transaction map carry metadata exactly when the ledger is closed.\<close>

definition lg_tx_ok :: "Ledger \<Rightarrow> bool" where
  "lg_tx_ok l = map_inv (leaf_type True (\<not> li_open (lg_info l))) (lg_txMap l)"

definition tx_data :: "Blob \<Rightarrow> Blob option \<Rightarrow> Blob" where
  "tx_data txn meta = (case meta of None \<Rightarrow> txn
     | Some m \<Rightarrow> len_bytes (int (length txn)) @ txn @ len_bytes (int (length m)) @ m)"

lemma tx_data_decode:
  assumes "length txn \<le> 918744" "length m \<le> 918744"
  shows "deserializeTxPlusMeta \<lparr>it_key = key, it_data = tx_data txn (Some m)\<rparr> = Inr (txn, m)"
proof -
  let ?a = "length (len_bytes (int (length txn)))" and ?b = "length (len_bytes (int (length m)))"
  let ?it = "SerialIter_of (tx_data txn (Some m))"
  have d: "tx_data txn (Some m) = len_bytes (int (length txn)) @ txn @ len_bytes (int (length m)) @ m" by (simp add: tx_data_def)
  have ok: "si_ok (si_advance n ?it)" if "n \<le> length (tx_data txn (Some m))" for n
    using that by (intro si_advance_ok) simp_all
  have 1: "si_getVLDataLength ?it = Inr (int (length txn), si_advance ?a ?it)"
    using assms(1) by (intro si_getVLDataLength_rest) (simp_all add: d)
  have 2: "si_getSlice (length txn) (si_advance ?a ?it) = Inr (txn, si_advance (?a + length txn) ?it)"
    using si_getRaw_rest [OF ok [of ?a], of txn "len_bytes (int (length m)) @ m" "length txn"] si_remain_rest [OF ok [of ?a]]
    by (simp add: si_getSlice_raw d si_advance_advance)
  have 3: "si_getVLDataLength (si_advance (?a + length txn) ?it) = Inr (int (length m), si_advance (?a + length txn + ?b) ?it)"
    using si_getVLDataLength_rest [OF ok [of "?a + length txn"], of "int (length m)" m] assms(2) by (simp add: d si_advance_advance)
  have 4: "si_getSlice (length m) (si_advance (?a + length txn + ?b) ?it) = Inr (m, si_advance (?a + length txn + ?b + length m) ?it)"
    using si_getRaw_rest [OF ok [of "?a + length txn + ?b"], of m "[]" "length m"] si_remain_rest [OF ok [of "?a + length txn + ?b"]]
    by (simp add: si_getSlice_raw d si_advance_advance)
  show ?thesis by (simp add: deserializeTxPlusMeta_def 1 2 3 4)
qed

lemma lg_rawTxInsert_item:
  assumes "length txn \<le> 918744" "\<And>m. meta = Some m \<Longrightarrow> length m \<le> 918744" "(meta \<noteq> None) \<noteq> li_open (lg_info l)"
  shows "lg_rawTxInsert key txn meta l =
    bind_r (addGiveItem \<lparr>it_key = key, it_data = tx_data txn meta\<rparr> True (\<not> li_open (lg_info l)) (lg_txMap l)) (\<lambda>(done, m).
      if done then Inr (l\<lparr>lg_txMap := m\<rparr>) else bind_r (to_string_key key) (\<lambda>s. Inl (LLogic (''duplicate_tx: '' @ s))))"
  using assms by (cases meta) (simp_all add: lg_rawTxInsert_def tx_data_def addVL_bytes)

lemma len_bytes_pos: "1 \<le> length (len_bytes n)"
  by (simp add: len_bytes_def)

lemma lg_rawTxInsert_spec:
  assumes "lg_tx_ok l" "length txn \<le> 918744" "\<And>m. meta = Some m \<Longrightarrow> length m \<le> 918744" "12 \<le> length txn"
    "(meta \<noteq> None) \<noteq> li_open (lg_info l)"
  shows "case lg_rawTxInsert key txn meta l of
      Inl e \<Rightarrow> lg_txExists key l = Inr True \<and> (\<exists>s. e = LLogic (''duplicate_tx: '' @ s))
    | Inr l' \<Rightarrow> lg_txExists key l = Inr False \<and> lg_tx_ok l' \<and> lg_stateMap l' = lg_stateMap l \<and> lg_info l' = lg_info l \<and>
        lg_txExists key l' = Inr True \<and> lg_txRead key l' = Inr (Some txn, meta) \<and>
        (\<forall>k. k \<noteq> key \<longrightarrow> lg_txRead k l' = lg_txRead k l)"
proof -
  let ?ty = "leaf_type True (\<not> li_open (lg_info l))" and ?it = "\<lparr>it_key = key, it_data = tx_data txn meta\<rparr>" and ?m = "lg_txMap l"
  have inv: "shamap_ok ?ty ?m" "sm_state ?m \<noteq> Immutable" "sm_state ?m \<noteq> Synching"
    using assms(1) by (simp_all add: lg_tx_ok_def map_inv_def)
  have data: "12 \<le> length (it_data ?it)" using assms(4) by (auto simp: tx_data_def split: option.split)
  obtain m where m: "addGiveItem ?it True (\<not> li_open (lg_info l)) ?m = Inr (map_of (shamap_items ?m) key = None, m)"
    "shamap_ok ?ty m" "shamap_items m = fst (om_emplace (<) key ?it (shamap_items ?m))" "sm_state m = sm_state ?m"
    using addGiveItem_ok [OF inv refl data] by auto
  note run = lg_rawTxInsert_item [OF assms(2,3,5), of key]
  show ?thesis
  proof (cases "map_of (shamap_items ?m) key")
    case (Some it)
    with m(1) run strHex_total [of "be_bytes 32 key"] show ?thesis
      by (auto simp: lg_txExists_def hasItem_ok [OF inv(1)] to_string_key_def)
  next
    case None
    with m(3) have map: "map_of (shamap_items m) = (map_of (shamap_items ?m))(key \<mapsto> ?it)"
      by (simp add: om_emplace_def map_of_om_insert)
    have dec: "meta = Some b \<Longrightarrow> deserializeTxPlusMeta ?it = Inr (txn, b)" for b
      using tx_data_decode [OF assms(2), of b key] assms(3) by simp
    show ?thesis
      using None m(1,2,4) run dec assms(5) inv
      by (cases meta) (auto simp: lg_txExists_def lg_txRead_def lg_tx_ok_def map_inv_def hasItem_ok [OF inv(1)] hasItem_ok [OF m(2)]
          peekItem_ok [OF inv(1)] peekItem_ok [OF m(2)] map tx_data_def
          split: option.split)
  qed
qed

text \<open>A transaction that the ledger can hold.\<close>

definition tx_fits :: "Ledger \<Rightarrow> Blob \<Rightarrow> Blob option \<Rightarrow> bool" where
  "tx_fits l txn meta = (12 \<le> length txn \<and> length txn \<le> 918744 \<and> (\<forall>m. meta = Some m \<longrightarrow> length m \<le> 918744) \<and>
     (meta \<noteq> None) \<noteq> li_open (lg_info l))"

lemma lg_txExists_same: "lg_tx_ok l \<Longrightarrow> lg_txExists k l = Inr (map_of (shamap_items (lg_txMap l)) k \<noteq> None)"
  unfolding lg_txExists_def lg_tx_ok_def map_inv_def by (elim conjE) (rule hasItem_ok)

lemma lg_tx_insert:
  assumes "lg_tx_ok l" "tx_fits l txn meta" "lg_txExists key l = Inr False"
  obtains l' where "lg_rawTxInsert key txn meta l = Inr l'" "lg_tx_ok l'" "lg_stateMap l' = lg_stateMap l" "lg_info l' = lg_info l"
    "\<forall>k. lg_txRead k l' = (if k = key then Inr (Some txn, meta) else lg_txRead k l)"
    "\<forall>k. lg_txExists k l' = (if k = key then Inr True else lg_txExists k l)"
proof -
  have fit: "12 \<le> length txn" "length txn \<le> 918744" "\<And>m. meta = Some m \<Longrightarrow> length m \<le> 918744" "(meta \<noteq> None) \<noteq> li_open (lg_info l)"
    using assms(2) by (auto simp: tx_fits_def)
  let ?ty = "leaf_type True (\<not> li_open (lg_info l))" and ?it = "\<lparr>it_key = key, it_data = tx_data txn meta\<rparr>" and ?m = "lg_txMap l"
  have inv: "shamap_ok ?ty ?m" "sm_state ?m \<noteq> Immutable" "sm_state ?m \<noteq> Synching"
    using assms(1) by (simp_all add: lg_tx_ok_def map_inv_def)
  have new: "map_of (shamap_items ?m) key = None" using assms(3) lg_txExists_same [OF assms(1)] by simp
  from lg_rawTxInsert_spec [OF assms(1) fit(2,3,1,4), of key] assms(3) obtain l' where
    l': "lg_rawTxInsert key txn meta l = Inr l'" "lg_tx_ok l'" "lg_stateMap l' = lg_stateMap l" "lg_info l' = lg_info l"
      "lg_txExists key l' = Inr True" "lg_txRead key l' = Inr (Some txn, meta)" "\<forall>k. k \<noteq> key \<longrightarrow> lg_txRead k l' = lg_txRead k l"
    by (auto split: sum.splits)
  have data: "12 \<le> length (it_data ?it)" using fit(1) by (auto simp: tx_data_def split: option.split)
  have "shamap_items (lg_txMap l') = om_insert (<) key ?it (shamap_items ?m)"
    using l'(1) lg_rawTxInsert_item [OF fit(2,3,4), of key] addGiveItem_ok [OF inv refl data] new by (auto simp: om_emplace_def)
  then have "lg_txExists k l' = lg_txExists k l" if "k \<noteq> key" for k
    using that lg_txExists_same [OF assms(1)] lg_txExists_same [OF l'(2)] by (simp add: map_of_om_insert [OF new])
  with l' show ?thesis by (intro that [of l']) auto
qed

lemma lg_tx_fold:
  "lg_tx_ok l \<Longrightarrow> distinct (map fst txs) \<Longrightarrow>
    (\<And>k txn meta. (k, txn, meta) \<in> set txs \<Longrightarrow> tx_fits l txn meta \<and> lg_txExists k l = Inr False) \<Longrightarrow>
    \<exists>l'. fold_r (\<lambda>(key, txn, meta). lg_rawTxInsert key txn meta) txs l = Inr l' \<and> lg_tx_ok l' \<and>
      lg_stateMap l' = lg_stateMap l \<and> lg_info l' = lg_info l \<and>
      (\<forall>k. lg_txRead k l' = (case map_of txs k of None \<Rightarrow> lg_txRead k l | Some (txn, meta) \<Rightarrow> Inr (Some txn, meta)))"
proof (induction txs arbitrary: l)
  case Nil
  then show ?case by simp
next
  case (Cons e txs)
  obtain key txn meta where e: "e = (key, txn, meta)" by (cases e)
  with Cons.prems(3) have fit: "tx_fits l txn meta" "lg_txExists key l = Inr False" by auto
  obtain l1 where l1: "lg_rawTxInsert key txn meta l = Inr l1" "lg_tx_ok l1" "lg_stateMap l1 = lg_stateMap l" "lg_info l1 = lg_info l"
    "\<forall>k. lg_txRead k l1 = (if k = key then Inr (Some txn, meta) else lg_txRead k l)"
    "\<forall>k. lg_txExists k l1 = (if k = key then Inr True else lg_txExists k l)"
    by (rule lg_tx_insert [OF Cons.prems(1) fit])
  have new: "map_of txs key = None" "distinct (map fst txs)" using Cons.prems(2) e by (auto simp: map_of_eq_None_iff)
  have "tx_fits l1 t m \<and> lg_txExists k l1 = Inr False" if k: "(k, t, m) \<in> set txs" for k t m
  proof -
    have "k \<noteq> key" using Cons.prems(2) k e by (auto simp: rev_image_eqI)
    moreover have "tx_fits l t m \<and> lg_txExists k l = Inr False" by (rule Cons.prems(3)) (simp add: k)
    ultimately show ?thesis using l1(4,6) by (simp add: tx_fits_def)
  qed
  from Cons.IH [OF l1(2) new(2) this] l1 new show ?case by (auto simp: e split: option.split)
qed

section \<open>Header\<close>

lemma addRaw_info_bytes: "addRaw_info info s = s @ drop 4 (header_bytes info)"
  by (simp add: addRaw_info_def header_bytes_def add8_def add32_bytes add64_bytes add256_def)

text \<open>Reading at a position of the buffer.\<close>

definition si_reads :: "SerialIter \<Rightarrow> Blob \<Rightarrow> bool" where
  "si_reads it bs = (si_ok it \<and> si_rest it = bs)"

lemma si_reads_step:
  "si_reads it (be_bytes 4 w32 @ bs) \<Longrightarrow> \<exists>it'. si_get32 it = Inr (w32, it') \<and> si_reads it' bs"
  "si_reads it (be_bytes 8 w64 @ bs) \<Longrightarrow> \<exists>it'. si_get64 it = Inr (w64, it') \<and> si_reads it' bs"
  "si_reads it (be_bytes 32 w256 @ bs) \<Longrightarrow> \<exists>it'. si_getBitString 32 it = Inr (w256 :: uint256, it') \<and> si_reads it' bs"
  "si_reads it (b # bs) \<Longrightarrow> \<exists>it'. si_get8 it = Inr (b, it') \<and> si_reads it' bs"
  unfolding si_reads_def using si_getBitString_rest [of it "be_bytes 32 w256" bs 32, where ?'a = 256]
  by (auto simp: si_get32_rest be_word_bytes_all si_get64_rest si_get8_rest intro!: si_advance_ok)

lemma header_fields_read:
  assumes "si_reads it (drop 4 (header_bytes info))"
  shows "\<exists>it'. setRaw_info False i0 it = Inr (i0\<lparr>li_seq := li_seq info, li_drops := li_drops info,
      li_parentHash := li_parentHash info, li_txHash := li_txHash info, li_accountHash := li_accountHash info,
      li_parentCloseTime := li_parentCloseTime info, li_closeTime := li_closeTime info,
      li_closeTimeResolution := ucast (ucast (li_closeTimeResolution info) :: byte),
      li_closeFlags := ucast (ucast (li_closeFlags info) :: byte)\<rparr>, it') \<and> si_reads it' []"
proof -
  have r0: "si_reads it (be_bytes 4 (li_seq info) @ be_bytes 8 (li_drops info) @ be_bytes 32 (li_parentHash info) @
      be_bytes 32 (li_txHash info) @ be_bytes 32 (li_accountHash info) @ be_bytes 4 (li_parentCloseTime info) @
      be_bytes 4 (li_closeTime info) @ [ucast (li_closeTimeResolution info), ucast (li_closeFlags info)])"
    using assms by (simp add: header_bytes_def)
  from si_reads_step(1) [OF r0] obtain i1 where i1: "si_get32 it = Inr (li_seq info, i1)" and r1: "si_reads i1
    (be_bytes 8 (li_drops info) @ be_bytes 32 (li_parentHash info) @
      be_bytes 32 (li_txHash info) @ be_bytes 32 (li_accountHash info) @ be_bytes 4 (li_parentCloseTime info) @
      be_bytes 4 (li_closeTime info) @ [ucast (li_closeTimeResolution info), ucast (li_closeFlags info)])" by blast
  from si_reads_step(2) [OF r1] obtain i2 where i2: "si_get64 i1 = Inr (li_drops info, i2)" and r2: "si_reads i2
    (be_bytes 32 (li_parentHash info) @ be_bytes 32 (li_txHash info) @ be_bytes 32 (li_accountHash info) @
      be_bytes 4 (li_parentCloseTime info) @ be_bytes 4 (li_closeTime info) @
      [ucast (li_closeTimeResolution info), ucast (li_closeFlags info)])" by blast
  from si_reads_step(3) [OF r2] obtain i3 where i3: "si_getBitString 32 i2 = Inr (li_parentHash info, i3)" and r3: "si_reads i3
    (be_bytes 32 (li_txHash info) @ be_bytes 32 (li_accountHash info) @ be_bytes 4 (li_parentCloseTime info) @
      be_bytes 4 (li_closeTime info) @ [ucast (li_closeTimeResolution info), ucast (li_closeFlags info)])" by blast
  from si_reads_step(3) [OF r3] obtain i4 where i4: "si_getBitString 32 i3 = Inr (li_txHash info, i4)" and r4: "si_reads i4
    (be_bytes 32 (li_accountHash info) @ be_bytes 4 (li_parentCloseTime info) @
      be_bytes 4 (li_closeTime info) @ [ucast (li_closeTimeResolution info), ucast (li_closeFlags info)])" by blast
  from si_reads_step(3) [OF r4] obtain i5 where i5: "si_getBitString 32 i4 = Inr (li_accountHash info, i5)" and r5: "si_reads i5
    (be_bytes 4 (li_parentCloseTime info) @ be_bytes 4 (li_closeTime info) @
      [ucast (li_closeTimeResolution info), ucast (li_closeFlags info)])" by blast
  from si_reads_step(1) [OF r5] obtain i6 where i6: "si_get32 i5 = Inr (li_parentCloseTime info, i6)" and r6: "si_reads i6
    (be_bytes 4 (li_closeTime info) @ [ucast (li_closeTimeResolution info), ucast (li_closeFlags info)])" by blast
  from si_reads_step(1) [OF r6] obtain i7 where i7: "si_get32 i6 = Inr (li_closeTime info, i7)" and
    r7: "si_reads i7 [ucast (li_closeTimeResolution info), ucast (li_closeFlags info)]" by blast
  from si_reads_step(4) [OF r7] obtain i8 where i8: "si_get8 i7 = Inr (ucast (li_closeTimeResolution info), i8)" and
    r8: "si_reads i8 [ucast (li_closeFlags info)]" by blast
  from si_reads_step(4) [OF r8] obtain i9 where i9: "si_get8 i8 = Inr (ucast (li_closeFlags info), i9)" and
    r9: "si_reads i9 []" by blast
  show ?thesis by (simp add: setRaw_info_def i1 i2 i3 i4 i5 i6 i7 i8 i9 r9)
qed

end
