(* ===== verification/ApplyView_Session.thy ===== *)
theory ApplyView_Session
  imports SHAMap_Properties ApplyView
begin

text \<open>
  A client at work on a sandbox, the way the transactors use a view: it reads, peeks an entry, writes
  through the pointer and reports the update, erases peeked entries, inserts entries it made, destroys and
  creates drops. Shown here: such a session is a sequence of updates of a map, its answers are those of the
  map, no call fails, and what the base shows stays as it was.
\<close>

datatype 'b sb_op = SbRead uint256 | SbModify uint256 "'b \<Rightarrow> 'b" | SbErase uint256 | SbInsert "'b SLE"
  | SbDestroy "64 word" | SbCreate "64 word"

type_synonym 'b session = "'b sle_heap \<times> 'b ApplyViewBase"

fun sb_exec :: "'b sb_op \<Rightarrow> 'b session \<Rightarrow> (led_error, 'b SLE option \<times> 'b session) result" where
  "sb_exec (SbRead k) (h, v) =
     bind_r (rv_read (av_view v) h (keylet_unchecked k)) (\<lambda>r. Inr (r, (h, v)))"
| "sb_exec (SbModify k f) (h, v) =
     bind_r (av_peek (keylet_unchecked k) h v) (\<lambda>(p, h1, v1). case p of
       None \<Rightarrow> Inr (None, (h1, v1))
     | Some a \<Rightarrow> bind_r (av_update (write_sle a f h1) a v1) (\<lambda>v2. Inr (Some (h1 ! a), (write_sle a f h1, v2))))"
| "sb_exec (SbErase k) (h, v) =
     bind_r (av_peek (keylet_unchecked k) h v) (\<lambda>(p, h1, v1). case p of
       None \<Rightarrow> Inr (None, (h1, v1))
     | Some a \<Rightarrow> bind_r (av_erase h1 a v1) (\<lambda>v2. Inr (Some (h1 ! a), (h1, v2))))"
| "sb_exec (SbInsert s) (h, v) =
     bind_r (rv_read (av_view v) h (keylet_unchecked (sle_key s))) (\<lambda>r. case r of
       Some s' \<Rightarrow> Inr (Some s', (h, v))
     | None \<Rightarrow> let (a, h1) = make_sle s h in bind_r (av_insert h1 a v) (\<lambda>v1. Inr (None, (h1, v1))))"
| "sb_exec (SbDestroy x) (h, v) = Inr (None, (h, av_rawDestroyXRP x v))"
| "sb_exec (SbCreate x) (h, v) = Inr (None, (h, av_rawCreateXRP x v))"

section \<open>Specification\<close>

type_synonym 'b ledger_map = "(uint256 \<rightharpoonup> 'b SLE) \<times> 64 word"

fun sb_spec :: "'b sb_op \<Rightarrow> 'b ledger_map \<Rightarrow> (led_error, 'b SLE option \<times> 'b ledger_map) result" where
  "sb_spec (SbRead k) (m, n) = Inr (m k, (m, n))"
| "sb_spec (SbModify k f) (m, n) =
     Inr (m k, (case m k of None \<Rightarrow> m | Some s \<Rightarrow> m(k \<mapsto> s\<lparr>sle_body := f (sle_body s)\<rparr>), n))"
| "sb_spec (SbErase k) (m, n) = Inr (m k, (m(k := None), n))"
| "sb_spec (SbInsert s) (m, n) = Inr (m (sle_key s), (if m (sle_key s) = None then m(sle_key s \<mapsto> s) else m, n))"
| "sb_spec (SbDestroy x) (m, n) = Inr (None, (m, n - x))"
| "sb_spec (SbCreate x) (m, n) = Inr (None, (m, n + x))"

fun sb_fits :: "'b sb_op \<Rightarrow> bool" where
  "sb_fits (SbRead k) = (k \<noteq> 0)"
| "sb_fits (SbModify k f) = (k \<noteq> 0)"
| "sb_fits (SbErase k) = (k \<noteq> 0)"
| "sb_fits (SbInsert s) = (sle_key s \<noteq> 0)"
| "sb_fits _ = True"

text \<open>
  The heap \<open>h0\<close> and the base, which holds \<open>m\<close> at the addresses \<open>F\<close>, are those at the
  start of the session. The entries of the sandbox are its own, and its cached copies are clean between calls.
\<close>

definition sb_inv :: "nat set \<Rightarrow> 'b ReadView \<Rightarrow> (uint256 \<rightharpoonup> 'b SLE) \<Rightarrow> 'b sle_heap \<Rightarrow> 'b session \<Rightarrow> bool" where
  "sb_inv F base m h0 s = (case s of (h, v) \<Rightarrow>
     view_ok F h0 base m \<and> agree F h0 h \<and> av_base v = base \<and> ast_ok h m (av_items v) \<and> ast_clean h m (av_items v) \<and>
     F \<inter> table_foot (at_items (av_items v)) = {})"

definition sb_abs :: "(uint256 \<rightharpoonup> 'b SLE) \<Rightarrow> 'b session \<Rightarrow> 'b ledger_map" where
  "sb_abs m s = (case s of (h, v) \<Rightarrow> (ast_contents h (av_items v) m, ast_net (av_items v)))"

section \<open>Simulation\<close>

lemma sb_inv_read:
  assumes "sb_inv F base m h0 (h, v)" "k \<noteq> 0"
  shows "rv_read (av_view v) h (keylet_unchecked k) = Inr (ast_contents h (av_items v) m k)"
proof -
  have "read_ok h base m" using assms(1) view_ok_read [OF view_ok_agree] by (auto simp: sb_inv_def)
  then show ?thesis
    using assms table_read_spec [of h base m "keylet_unchecked k" "\<lambda>act. act = AErase" "at_items (av_items v)"]
    by (simp add: sb_inv_def av_view_def ast_reads)
qed

text \<open>A peek keeps the invariant and the contents; its pointer is in the table.\<close>

lemma sb_peek:
  assumes "sb_inv F base m h0 (h, v)" "k \<noteq> 0"
  obtains p h' v' where "av_peek (keylet_unchecked k) h v = Inr (p, h', v')" "sb_inv F base m h0 (h', v')"
    "sb_abs m (h', v') = sb_abs m (h, v)"
    "case ast_contents h (av_items v) m k of None \<Rightarrow> p = None
     | Some s \<Rightarrow> \<exists>a act. p = Some a \<and> map_of (at_items (av_items v')) k = Some (act, a) \<and> act \<noteq> AErase \<and> a < length h' \<and> h' ! a = s"
proof -
  from assms(1) have inv: "view_ok F h0 base m" "agree F h0 h" "av_base v = base" "ast_ok h m (av_items v)"
    "ast_clean h m (av_items v)" "F \<inter> table_foot (at_items (av_items v)) = {}" by (simp_all add: sb_inv_def)
  have base: "view_ok F h base m" by (rule view_ok_agree [OF inv(1,2)])
  from ast_peek_spec [OF inv(4) base, of "keylet_unchecked k", unfolded keylet_unchecked_simps(1), OF assms(2) keylet_fits_unchecked]
  obtain p h' t' where
    p: "ast_peek base (keylet_unchecked k) h (av_items v) = Inr (p, h', t')" "ast_ok h' m t'" "ast_net t' = ast_net (av_items v)"
      "ast_contents h' t' m = ast_contents h (av_items v) m" "agree (F \<union> table_foot (at_items (av_items v))) h h'"
      "table_foot (at_items t') \<subseteq> table_foot (at_items (av_items v)) \<union> {length h}" "ast_clean h' m t'"
      "case ast_contents h (av_items v) m k of None \<Rightarrow> p = None
       | Some s \<Rightarrow> \<exists>a act. p = Some a \<and> map_of (at_items t') k = Some (act, a) \<and> act \<noteq> AErase \<and> a < length h' \<and> h' ! a = s"
    using inv(5) by auto
  have "length h \<notin> F" using view_ok_foot [OF base] by auto
  with p(6) inv(6) have "F \<inter> table_foot (at_items t') = {}" by auto
  moreover have "agree F h0 h'" using agree_trans [OF inv(2) agree_mono [OF p(5)]] by simp
  ultimately have "sb_inv F base m h0 (h', v\<lparr>av_items := t'\<rparr>)" using inv(1,3) p(2,7) by (simp add: sb_inv_def)
  then show ?thesis using that [of p h' "v\<lparr>av_items := t'\<rparr>"] p(1,3,4,8) inv(3)
    by (cases "ast_contents h (av_items v) m k") (simp_all add: av_peek_def sb_abs_def)
qed

lemma sb_modify_step:
  assumes "sb_inv F base m h0 (h, v)" "map_of (at_items (av_items v)) k = Some (act, a)" "act \<noteq> AErase"
  shows "\<exists>v'. av_update (write_sle a f h) a v = Inr v' \<and> sb_inv F base m h0 (write_sle a f h, v') \<and>
    sb_abs m (write_sle a f h, v') =
      ((ast_contents h (av_items v) m)(k \<mapsto> (h ! a)\<lparr>sle_body := f (sle_body (h ! a))\<rparr>), ast_net (av_items v))"
proof -
  let ?h = "write_sle a f h" and ?t = "av_items v"
  from assms(1) have inv: "view_ok F h0 base m" "agree F h0 h" "av_base v = base" "ast_ok h m ?t"
    "ast_clean h m ?t" "F \<inter> table_foot (at_items ?t) = {}" by (simp_all add: sb_inv_def)
  note w = ast_write_spec [OF inv(4) assms(2,3), of f]
  obtain t' where t': "ast_update ?h a ?t = Inr t'" "ast_ok ?h m t'" "ast_net t' = ast_net ?t" "ast_contents ?h t' m = ast_contents ?h ?t m"
    "table_foot (at_items t') \<subseteq> table_foot (at_items ?t)"
    "map_of (at_items t') = (map_of (at_items ?t))(k \<mapsto> (if act = ACache then AModify else act, a))"
    using ast_update_spec [OF w(1) assms(2,3)] by blast
  have a: "a < length h" "a \<notin> F" using table_okD [OF inv(4) assms(2)] table_foot_mem [OF assms(2)] inv(6) by auto
  have other: "b \<noteq> a" if "map_of (at_items ?t) j = Some (act', b)" "j \<noteq> k" for j act' b
    using table_okD [OF inv(4) assms(2)] table_okD [OF inv(4) that(1)] that(2) by auto
  have "ast_clean ?h m t'"
    using inv(5) other assms(2) unfolding ast_clean_def t'(6) by (auto split: if_splits)
  moreover have "agree F h0 ?h" using agree_trans [OF inv(2) agree_write [OF a(2)]] .
  ultimately have "sb_inv F base m h0 (?h, v\<lparr>av_items := t'\<rparr>)" using inv t'(2,5) by (auto simp: sb_inv_def)
  then show ?thesis using t'(1,3,4) w(2) a(1) by (simp add: av_update_def sb_abs_def)
qed

lemma sb_erase_step:
  assumes "sb_inv F base m h0 (h, v)" "map_of (at_items (av_items v)) k = Some (act, a)" "act \<noteq> AErase"
  shows "\<exists>v'. av_erase h a v = Inr v' \<and> sb_inv F base m h0 (h, v') \<and>
    sb_abs m (h, v') = ((ast_contents h (av_items v) m)(k := None), ast_net (av_items v))"
proof -
  from assms(1) have inv: "view_ok F h0 base m" "agree F h0 h" "av_base v = base" "ast_ok h m (av_items v)"
    "ast_clean h m (av_items v)" "F \<inter> table_foot (at_items (av_items v)) = {}" by (simp_all add: sb_inv_def)
  obtain t' where t': "ast_erase h a (av_items v) = Inr t'" "ast_ok h m t'" "ast_net t' = ast_net (av_items v)"
    "ast_contents h t' m = (ast_contents h (av_items v) m)(k := None)"
    "table_foot (at_items t') \<subseteq> table_foot (at_items (av_items v))" "ast_clean h m t'"
    using ast_erase_spec [OF inv(4) assms(2,3)] inv(5) by blast
  then have "sb_inv F base m h0 (h, v\<lparr>av_items := t'\<rparr>)" using inv by (auto simp: sb_inv_def)
  with t' show ?thesis by (simp add: av_erase_def sb_abs_def)
qed

lemma sb_insert_step:
  assumes "sb_inv F base m h0 (h, v)" "sle_key s \<noteq> 0" "ast_contents h (av_items v) m (sle_key s) = None"
  shows "\<exists>v'. av_insert (h @ [s]) (length h) v = Inr v' \<and> sb_inv F base m h0 (h @ [s], v') \<and>
    sb_abs m (h @ [s], v') = ((ast_contents h (av_items v) m)(sle_key s \<mapsto> s), ast_net (av_items v))"
proof -
  let ?h = "h @ [s]" and ?t = "av_items v"
  from assms(1) have inv: "view_ok F h0 base m" "agree F h0 h" "av_base v = base" "ast_ok h m ?t"
    "ast_clean h m ?t" "F \<inter> table_foot (at_items ?t) = {}" by (simp_all add: sb_inv_def)
  have foot: "F \<union> table_foot (at_items ?t) \<subseteq> {..<length h}"
    using view_ok_foot [OF view_ok_agree [OF inv(1,2)]] table_foot_bound [OF inv(4)] by simp
  have ag: "agree (F \<union> table_foot (at_items ?t)) h ?h" using agree_make [OF foot] by (simp add: make_sle_def)
  have ok: "ast_ok ?h m ?t" by (rule table_ok_agree [OF inv(4) agree_mono [OF ag]]) simp
  have con: "ast_contents ?h ?t m = ast_contents h ?t m" by (rule overlay_agree [OF agree_mono [OF ag]]) simp
  obtain t' where t': "ast_insert ?h (length h) ?t = Inr t'" "ast_ok ?h m t'" "ast_net t' = ast_net ?t"
    "ast_contents ?h t' m = (ast_contents h ?t m)(sle_key s \<mapsto> s)"
    using ast_insert_spec [OF ok, of "length h"] assms(2,3) con by auto
  have items: "at_items t' = om_insert (<) (sle_key s) (AInsert, length h) (at_items ?t) \<or>
      at_items t' = om_update (sle_key s) (AModify, length h) (at_items ?t)"
    using t'(1) by (auto simp: ast_insert_def Let_def split: option.splits AAction.splits prod.splits)
  then have "table_foot (at_items t') \<subseteq> insert (length h) (table_foot (at_items ?t))"
    using table_foot_changed by fastforce
  with inv(6) foot have "F \<inter> table_foot (at_items t') = {}" by auto
  moreover have "ast_clean ?h m t'"
  proof -
    have "map_of (at_items ?t) k = Some (ACache, a)" if "map_of (at_items t') k = Some (ACache, a)" for k a
      using t'(1) that by (auto simp: ast_insert_def Let_def map_of_om_insert map_of_om_update split: option.splits AAction.splits prod.splits if_splits)
    with inv(4,5) show ?thesis unfolding ast_clean_def by (metis table_okD nth_append)
  qed
  moreover have "agree F h0 ?h" using agree_trans [OF inv(2) agree_mono [OF ag]] by simp
  ultimately have "sb_inv F base m h0 (?h, v\<lparr>av_items := t'\<rparr>)" using inv t' by (simp add: sb_inv_def)
  then show ?thesis using t' by (simp add: av_insert_def sb_abs_def)
qed

interpretation sandbox: simulation "sb_inv F base m h0" "sb_abs m" sb_fits sb_exec sb_spec for F base m h0
proof
  fix op :: "'a sb_op" and s :: "'a session"
  assume inv: "sb_inv F base m h0 s" and fit: "sb_fits op"
  obtain h v where s: "s = (h, v)" by (cases s)
  note inv' = inv [unfolded s]
  have "\<exists>r s'. sb_exec op s = Inr (r, s') \<and> sb_inv F base m h0 s' \<and> sb_spec op (sb_abs m s) = Inr (r, sb_abs m s')"
  proof (cases op)
    case (SbRead k)
    with inv' fit sb_inv_read [OF inv', of k] show ?thesis by (simp add: s sb_abs_def)
  next
    case (SbModify k f)
    with fit have k: "k \<noteq> 0" by simp
    obtain p h1 v1 where p: "av_peek (keylet_unchecked k) h v = Inr (p, h1, v1)"
      "sb_inv F base m h0 (h1, v1)" "sb_abs m (h1, v1) = sb_abs m (h, v)"
      "case ast_contents h (av_items v) m k of None \<Rightarrow> p = None
       | Some s \<Rightarrow> \<exists>a act. p = Some a \<and> map_of (at_items (av_items v1)) k = Some (act, a) \<and> act \<noteq> AErase \<and> a < length h1 \<and> h1 ! a = s"
      by (rule sb_peek [OF inv' k])
    show ?thesis
    proof (cases "ast_contents h (av_items v) m k")
      case None
      with p SbModify show ?thesis by (simp add: s sb_abs_def)
    next
      case (Some e)
      with p(4) obtain a act where a: "p = Some a" "map_of (at_items (av_items v1)) k = Some (act, a)" "act \<noteq> AErase" "h1 ! a = e" by auto
      from sb_modify_step [OF p(2) a(2,3), of f] p(1,3) a(1,4) Some SbModify show ?thesis by (auto simp: s sb_abs_def)
    qed
  next
    case (SbErase k)
    with fit have k: "k \<noteq> 0" by simp
    obtain p h1 v1 where p: "av_peek (keylet_unchecked k) h v = Inr (p, h1, v1)"
      "sb_inv F base m h0 (h1, v1)" "sb_abs m (h1, v1) = sb_abs m (h, v)"
      "case ast_contents h (av_items v) m k of None \<Rightarrow> p = None
       | Some s \<Rightarrow> \<exists>a act. p = Some a \<and> map_of (at_items (av_items v1)) k = Some (act, a) \<and> act \<noteq> AErase \<and> a < length h1 \<and> h1 ! a = s"
      by (rule sb_peek [OF inv' k])
    show ?thesis
    proof (cases "ast_contents h (av_items v) m k")
      case None
      moreover from this have "(ast_contents h (av_items v) m)(k := None) = ast_contents h (av_items v) m" by auto
      ultimately show ?thesis using p SbErase by (simp add: s sb_abs_def)
    next
      case (Some e)
      with p(4) obtain a act where a: "p = Some a" "map_of (at_items (av_items v1)) k = Some (act, a)" "act \<noteq> AErase" "h1 ! a = e" by auto
      from sb_erase_step [OF p(2) a(2,3)] p(1,3) a(1,4) Some SbErase show ?thesis by (auto simp: s sb_abs_def)
    qed
  next
    case (SbInsert e)
    show ?thesis
    proof (cases "ast_contents h (av_items v) m (sle_key e)")
      case None
      with sb_insert_step [OF inv', of e] sb_inv_read [OF inv', of "sle_key e"] fit SbInsert show ?thesis
        by (auto simp: s sb_abs_def make_sle_def)
    next
      case (Some e')
      with sb_inv_read [OF inv', of "sle_key e"] fit SbInsert inv' show ?thesis by (simp add: s sb_abs_def)
    qed
  next
    case (SbDestroy x)
    with inv' show ?thesis by (simp add: s sb_abs_def sb_inv_def av_rawDestroyXRP_def ast_clean_def)
  next
    case (SbCreate x)
    with inv' show ?thesis by (simp add: s sb_abs_def sb_inv_def av_rawCreateXRP_def ast_clean_def)
  qed
  then show "case sb_exec op s of Inl e \<Rightarrow> sb_spec op (sb_abs m s) = Inl e
    | Inr (r, s') \<Rightarrow> sb_inv F base m h0 s' \<and> sb_spec op (sb_abs m s) = Inr (r, sb_abs m s')" by auto
qed

lemma sb_spec_total: "\<exists>rs m'. run_ops sb_spec ops m = Inr (rs, m')"
proof (induction ops arbitrary: m)
  case (Cons op ops)
  obtain r m1 where "sb_spec op m = Inr (r, m1)" by (cases m; cases op) auto
  moreover obtain rs m2 where "run_ops sb_spec ops m1 = Inr (rs, m2)" using Cons.IH by blast
  ultimately show ?case by simp
qed simp

section \<open>Entries of a certain kind\<close>

text \<open>The changes keep a property of entries.\<close>

fun sb_keeps :: "('b SLE \<Rightarrow> bool) \<Rightarrow> 'b sb_op \<Rightarrow> bool" where
  "sb_keeps good (SbModify k f) = (\<forall>s. good s \<longrightarrow> good (s\<lparr>sle_body := f (sle_body s)\<rparr>))"
| "sb_keeps good (SbInsert s) = good s"
| "sb_keeps good _ = True"

lemma peek_heap:
  assumes "av_peek (keylet_unchecked k) h v = Inr (p, h', v')" "k \<noteq> 0" "sb_inv F base m h0 (h, v)" "\<forall>s \<in> ran m. good s" "heap_good good h"
  shows "heap_good good h'"
proof -
  have "read_ok h base m" "av_base v = base" using assms(3) view_ok_read [OF view_ok_agree] by (auto simp: sb_inv_def)
  then have "rv_read (av_base v) h (keylet_unchecked k) = Inr (m k)" using assms(2) by (simp add: read_ok_def)
  with assms(1,4,5) show ?thesis
    by (auto simp: av_peek_def ast_peek_def make_sle_def ran_def Let_def split: option.splits prod.splits AAction.splits if_splits)
qed

lemma sb_exec_heap:
  assumes "sb_inv F base m h0 (h, v)" "\<forall>s \<in> ran m. good s" "heap_good good h" "sb_fits op" "sb_keeps good op"
    "sb_exec op (h, v) = Inr (r, (h', v'))"
  shows "heap_good good h'"
proof (cases op)
  case (SbModify k f)
  with assms(4) have k: "k \<noteq> 0" by simp
  obtain p h1 v1 where p: "av_peek (keylet_unchecked k) h v = Inr (p, h1, v1)" by (rule sb_peek [OF assms(1) k])
  have "heap_good good h1" by (rule peek_heap [OF p k assms(1-3)])
  with assms(5,6) p SbModify heap_good_write [of good h1 f] show ?thesis by (auto simp: result_simps split: option.splits)
next
  case (SbErase k)
  with assms(4) have k: "k \<noteq> 0" by simp
  obtain p h1 v1 where p: "av_peek (keylet_unchecked k) h v = Inr (p, h1, v1)" by (rule sb_peek [OF assms(1) k])
  have "heap_good good h1" by (rule peek_heap [OF p k assms(1-3)])
  with assms(6) p SbErase show ?thesis by (auto simp: result_simps split: option.splits)
qed (use assms in \<open>auto simp: result_simps make_sle_def split: option.splits\<close>)

lemma session_heap:
  "sb_inv F base m h0 (h, v) \<Longrightarrow> \<forall>s \<in> ran m. good s \<Longrightarrow> heap_good good h \<Longrightarrow> \<forall>op \<in> set ops. sb_fits op \<and> sb_keeps good op \<Longrightarrow>
    run_ops sb_exec ops (h, v) = Inr (rs, (h', v')) \<Longrightarrow> heap_good good h'"
proof (induction ops arbitrary: h v rs)
  case (Cons op ops)
  obtain r h1 v1 rs1 where e: "sb_exec op (h, v) = Inr (r, (h1, v1))" "run_ops sb_exec ops (h1, v1) = Inr (rs1, (h', v'))"
    using Cons.prems(5) by (auto simp: result_simps)
  have "sb_inv F base m h0 (h1, v1)" using sandbox.step [OF Cons.prems(1), of op] Cons.prems(4) e(1) by simp
  moreover have "heap_good good h1" using sb_exec_heap [OF Cons.prems(1-3) _ _ e(1)] Cons.prems(4) by simp
  ultimately show ?case using Cons.IH Cons.prems(2,4) e(2) by simp
qed simp

context readable
begin

text \<open>A session on a sandbox over the view: it runs to its end as on the map the view holds.\<close>

lemma session_start:
  assumes "inv h s"
  shows "sb_inv (foot s) (view s) (contents h s) h (h, Sandbox_of (view s) flags)"
  using promise [OF assms]
  by (simp add: sb_inv_def Sandbox_of_def ApplyViewBase_of_def ApplyStateTable_init_def ast_clean_def)

lemma session_ok:
  assumes "inv h s" "\<forall>op \<in> set ops. sb_fits op"
  shows "\<exists>rs h' v. run_ops sb_exec ops (h, Sandbox_of (view s) flags) = Inr (rs, (h', v)) \<and>
    sb_inv (foot s) (view s) (contents h s) h (h', v) \<and>
    run_ops sb_spec ops (contents h s, 0) = Inr (rs, sb_abs (contents h s) (h', v))"
proof -
  let ?s = "(h, Sandbox_of (view s) flags)"
  have abs: "sb_abs (contents h s) ?s = (contents h s, 0)"
    by (simp add: sb_abs_def Sandbox_of_def ApplyViewBase_of_def ApplyStateTable_init_def ast_net_def)
  obtain rs m' where run: "run_ops sb_spec ops (contents h s, 0) = Inr (rs, m')" using sb_spec_total by blast
  with sandbox.history [OF session_start [OF assms(1), of flags] assms(2)] show ?thesis
    unfolding abs by (cases "run_ops sb_exec ops ?s") auto
qed

end

text \<open>At the end of a session, the sandbox is applied to a target that holds what the base holds.\<close>

context raw_target
begin

lemma commit_ok:
  assumes "inv h s" "sb_inv F base (contents h s) h0 (h, v)"
  shows "\<exists>s'. sb_apply to h v s = Inr s' \<and> inv h s' \<and> (contents h s', drops s' - drops s) = sb_abs (contents h s) (h, v)"
proof -
  have ok: "ast_ok h (contents h s) (av_items v)" "ast_clean h (contents h s) (av_items v)"
    using assms(2) by (simp_all add: sb_inv_def)
  from apply_ok [OF assms(1) ok(1)] clean_commit [OF ok(2)] show ?thesis
    by (auto simp: sb_apply_def sb_abs_def)
qed

end

end
