(* ===== verification/Ledger_Properties.thy ===== *)
theory Ledger_Properties
  imports Ledger_Spec ApplyView_Session
begin

text \<open>
  Theorems about the stack of views over a ledger, with instances on a ledger of one entry.
\<close>

section \<open>A ledger to evaluate on\<close>

definition entry_types :: "LedgerEntryType list" where
  "entry_types = [ltANY, ltCHILD, ltINVALID, ltACCOUNT_ROOT, ltDIR_NODE, ltDIVIDEND, ltRIPPLE_STATE, ltTICKET,
     ltSIGNER_LIST, ltOFFER, ltLEDGER_HASHES, ltAMENDMENTS, ltFEE_SETTINGS, ltNICKNAME, ltNotUsed01]"

fun type_code :: "LedgerEntryType \<Rightarrow> byte" where
  "type_code ltANY = 0" | "type_code ltCHILD = 1" | "type_code ltINVALID = 2" | "type_code ltACCOUNT_ROOT = 3"
| "type_code ltDIR_NODE = 4" | "type_code ltDIVIDEND = 5" | "type_code ltRIPPLE_STATE = 6" | "type_code ltTICKET = 7"
| "type_code ltSIGNER_LIST = 8" | "type_code ltOFFER = 9" | "type_code ltLEDGER_HASHES = 10" | "type_code ltAMENDMENTS = 11"
| "type_code ltFEE_SETTINGS = 12" | "type_code ltNICKNAME = 13" | "type_code ltNotUsed01 = 14"

definition toy_ser :: "byte SLE \<Rightarrow> (led_error, Blob) result" where
  "toy_ser s = Inr (type_code (sle_type s) # sle_body s # replicate 10 0)"

definition toy_deser :: "Blob \<Rightarrow> uint256 \<Rightarrow> (led_error, byte SLE) result" where
  "toy_deser bs key = (if length bs < 12 then Inl LRange
     else Inr \<lparr>sle_key = key, sle_type = entry_types ! unat (bs ! 0), sle_body = bs ! 1\<rparr>)"

definition toy_entry :: "byte SLE" where
  "toy_entry = \<lparr>sle_key = 1, sle_type = ltANY, sle_body = 0\<rparr>"

definition toy_ledger :: Ledger where
  "toy_ledger = \<lparr>lg_info = LedgerInfo_init\<lparr>li_open := False, li_drops := 100\<rparr>,
     lg_fees = \<lparr>fe_base = 10, fe_units = 10, fe_reserve = 200, fe_increment = 50\<rparr>,
     lg_stateMap = tree_of (zeros_item 1 12), lg_txMap = SHAMap_init, lg_validHash = False, lg_immutable = False\<rparr>"

lemma toy_codec: "codec_ok (\<lambda>_. True) toy_ser toy_deser"
proof -
  have "entry_types ! unat (type_code t) = t" for t by (cases t) (simp_all add: entry_types_def)
  then show ?thesis by (simp add: codec_ok_def toy_ser_def toy_deser_def)
qed

lemma toy_items: "shamap_items (lg_stateMap toy_ledger) = [(1, zeros_item 1 12)]"
  by (simp add: toy_ledger_def tree_of_items)

lemma toy_inv: "lg_inv (\<lambda>_. True) toy_ser toy_deser toy_ledger"
proof -
  have "toy_ser toy_entry = Inr (it_data (zeros_item 1 12))"
    by (simp add: zeros_item_def toy_ser_def toy_entry_def eval_nat_numeral)
  then have "\<exists>s. sle_key s = 1 \<and> toy_ser s = Inr (it_data (zeros_item 1 12))" by (intro exI [of _ toy_entry]) (simp add: toy_entry_def)
  moreover have "shamap_ok tnACCOUNT_STATE (lg_stateMap toy_ledger)" by (simp add: toy_ledger_def tree_of_ok)
  moreover have "sm_state (lg_stateMap toy_ledger) = Modifying" by (simp add: toy_ledger_def tree_of_def SHAMap_init_def)
  ultimately show ?thesis using toy_codec unfolding lg_inv_def lg_ok_def toy_items by simp
qed

lemma toy_contents: "lg_contents toy_deser toy_ledger = [1 \<mapsto> toy_entry]"
  unfolding lg_contents_def toy_items
  by (auto simp: fun_eq_iff toy_deser_def zeros_item_def toy_entry_def entry_types_def)

section \<open>Sessions\<close>

text \<open>
  A session on a sandbox over an open view over a ledger, whose changes are then applied to the view
  and from the view to the ledger, runs without an error, and the ledger then holds what the same
  sequence of changes makes of the map of its entries; the answers are those of the map, and the total of
  drops changes by what was created less what was destroyed, modulo the width of the counter.
\<close>

lemma any_session_commits:
  assumes "lg_inv good ser deser l" "\<forall>op \<in> set ops. sb_fits op \<and> sb_keeps good op" "heap_good good h0"
  shows "\<exists>rs h sb v l'.
    run_ops sb_exec ops (h0, Sandbox_of (ov_view (OpenView_of (lg_view deser l))) flags) = Inr (rs, (h, sb)) \<and>
    sb_apply ov_raw h sb (OpenView_of (lg_view deser l)) = Inr v \<and>
    ov_apply (lg_raw sha ser) h v l = Inr l' \<and> lg_inv good ser deser l' \<and>
    run_ops sb_spec ops (lg_contents deser l, 0) =
      Inr (rs, (lg_contents deser l', li_drops (lg_info l') - li_drops (lg_info l)))"
proof -
  let ?m = "lg_contents deser l" and ?v = "OpenView_of (lg_view deser l)"
  have ok: "lg_ok good ser deser l" using assms(1) by (simp add: lg_inv_def)
  note v0 = ledger_view.fresh_open_view(1,2) [OF ok]
  obtain rs h sb where run: "run_ops sb_exec ops (h0, Sandbox_of (ov_view ?v) flags) = Inr (rs, (h, sb))"
    and sb: "sb_inv (ov_foot {} ?v) (ov_view ?v) ?m h0 (h, sb)" and spec: "run_ops sb_spec ops (?m, 0) = Inr (rs, sb_abs ?m (h, sb))"
    using open_view.session_ok [OF v0(1), of ops] assms(2) unfolding v0(2) by blast
  have start: "sb_inv (ov_foot {} ?v) (ov_view ?v) ?m h0 (h0, Sandbox_of (ov_view ?v) flags)"
    using open_view.session_start [OF v0(1)] unfolding v0(2) .
  have "\<forall>s \<in> ran ?m. good s" using lg_contents_good [OF ok] by (auto simp: ran_def)
  then have heap: "heap_good good h" using session_heap [OF start _ assms(3,2) run] by simp
  have at: "ov_at {} (lg_view deser l) [] h ?v" using v0(1) by (simp add: ov_at_def OpenView_of_def)
  obtain v where v: "sb_apply ov_raw h sb ?v = Inr v" "ov_at {} (lg_view deser l) [] h v"
    "(ov_contents h v, rst_net (ov_items v)) = sb_abs ?m (h, sb)"
    using open_raw.commit_ok [OF at, unfolded v0(2), OF sb] by (auto simp: OpenView_of_def RawStateTable_init_def rst_net_def)
  have base: "rv_contents (lg_view deser l) h = ?m"
    by (rule view_ok_contents [OF ledger_view.promise [OF ok] agree_refl])
  have tab: "rst_ok h ?m (ov_items v)" "ov_contents h v = rst_contents h (ov_items v) ?m" "ov_txs v = []"
    using v(2) base by (auto simp: ov_at_def ov_inv_def ov_contents_def)
  have "heap_good good h \<and> lg_at good ser deser (lg_txMap l) (lg_info l) l" using assms(1) heap by (simp add: lg_at_def)
  from ledger_raw.raw_apply_ok [OF this tab(1), of sha] obtain l' where
    l': "rst_apply (lg_raw sha ser) h (ov_items v) l = Inr l'" "lg_at good ser deser (lg_txMap l) (lg_info l) l'"
      "li_drops (lg_info l') = li_drops (lg_info l) + rst_net (ov_items v)" "lg_contents deser l' = ov_contents h v"
    unfolding tab(2) by blast
  then have "ov_apply (lg_raw sha ser) h v l = Inr l'" by (simp add: ov_apply_def tab(3))
  moreover have "sb_abs ?m (h, sb) = (lg_contents deser l', li_drops (lg_info l') - li_drops (lg_info l))"
    using v(3) l'(3,4) by simp
  ultimately show ?thesis using run v(1) l'(2) spec by (auto simp: lg_at_def)
qed

text \<open>
  In every state of such a session the view answers as the map of the specification: a read gives the
  entry if the type fits, existence is membership, and the search for the next key, which skips the erased
  keys of the views below in a loop, always ends with the least greater key below the limit.
\<close>

lemma any_session_reads:
  assumes "lg_inv good ser deser l" "\<forall>op \<in> set ops. sb_fits op"
    "run_ops sb_exec ops (h0, Sandbox_of (ov_view (OpenView_of (lg_view deser l))) flags) = Inr (rs, (h, sb))"
    "run_ops sb_spec ops (lg_contents deser l, 0) = Inr (rs', (m, n))" "kl_key k \<noteq> 0"
  shows "rv_read (av_view sb) h k = checked k (m (kl_key k)) \<and>
    (keylet_fits k (m (kl_key k)) \<longrightarrow> rv_exists (av_view sb) h k = Inr (m (kl_key k) \<noteq> None)) \<and>
    (\<exists>r. rv_succ (av_view sb) key lim = Inr r \<and> is_succ (dom m) key lim r)"
proof -
  let ?m = "lg_contents deser l" and ?v = "OpenView_of (lg_view deser l)"
  have ok: "lg_ok good ser deser l" using assms(1) by (simp add: lg_inv_def)
  note v0 = ledger_view.fresh_open_view(1,2) [OF ok]
  have sb: "sb_inv (ov_foot {} ?v) (ov_view ?v) ?m h0 (h, sb)" and abs: "sb_abs ?m (h, sb) = (m, n)"
    using open_view.session_ok [OF v0(1) assms(2), of h0 flags] assms(3,4) unfolding v0(2) by auto
  have base: "rv_contents (ov_view ?v) h = ?m" "view_ok (ov_foot {} ?v) h (ov_view ?v) ?m"
    using sb view_ok_contents [of "ov_foot {} ?v" h0 "ov_view ?v" ?m h] view_ok_agree [of "ov_foot {} ?v" h0 "ov_view ?v" ?m h]
    by (simp_all add: sb_inv_def)
  then have "av_inv (ov_foot {} ?v) h sb" "av_contents h sb = m"
    using sb abs by (auto simp: sb_inv_def sb_abs_def av_inv_def av_contents_def)
  from view_ok_read [OF apply_view.promise [OF this(1)]] this(2) have "read_ok h (av_view sb) m" by simp
  then show ?thesis using assms(5) by (simp add: read_ok_def)
qed

text \<open>
  C32: a session on a sandbox cannot be seen through the view below it: whatever the client writes through
  the pointers it gets, every read of the open view answers as before the session.
\<close>

theorem session_isolated:
  assumes "ov_inv F h0 v" "\<forall>op \<in> set ops. sb_fits op"
    "run_ops sb_exec ops (h0, Sandbox_of (ov_view v) flags) = Inr (rs, (h, sb))" "kl_key k \<noteq> 0"
  shows "rv_read (ov_view v) h k = rv_read (ov_view v) h0 k"
proof -
  have "sb_inv (ov_foot F v) (ov_view v) (ov_contents h0 v) h0 (h, sb)"
    using open_view.session_ok [OF assms(1,2), of flags] assms(3) by auto
  then have "agree (ov_foot F v) h0 h" by (simp add: sb_inv_def)
  from open_view.isolated [OF assms(1) this assms(4)] show ?thesis .
qed

definition toy_open :: "byte OpenView" where
  "toy_open = (OpenView_of (lg_view toy_deser toy_ledger))\<lparr>ov_items := RawStateTable_init\<lparr>rt_items := [(1, Action_replace, 0)]\<rparr>\<rparr>"

theorem session_isolated_witness:
  "\<exists>rs h sb. run_ops sb_exec [SbModify 1 (\<lambda>b. b + 1)] ([toy_entry\<lparr>sle_body := 7\<rparr>], Sandbox_of (ov_view toy_open) 0) = Inr (rs, (h, sb)) \<and>
     rv_read (ov_view toy_open) h (keylet_unchecked 1) = Inr (Some (toy_entry\<lparr>sle_body := 7\<rparr>))"
proof -
  let ?h = "[toy_entry\<lparr>sle_body := 7\<rparr>]"
  have ok: "lg_ok (\<lambda>_. True) toy_ser toy_deser toy_ledger" using toy_inv by (simp add: lg_inv_def)
  note base = ledger_view.promise [OF ok, of ?h]
  have inv: "ov_inv {} ?h toy_open"
    using base view_ok_contents [OF base agree_refl]
    by (simp add: ov_inv_def toy_open_def OpenView_of_def table_ok_def om_ok_def toy_contents toy_entry_def)
  have fits: "\<forall>op \<in> set [SbModify 1 (\<lambda>b :: byte. b + 1)]. sb_fits op" by simp
  obtain rs h sb where run: "run_ops sb_exec [SbModify 1 (\<lambda>b. b + 1)] (?h, Sandbox_of (ov_view toy_open) 0) = Inr (rs, (h, sb))"
    using open_view.session_ok [OF inv fits, of 0] by blast
  have "rv_read (ov_view toy_open) ?h (keylet_unchecked 1) = Inr (Some (toy_entry\<lparr>sle_body := 7\<rparr>))"
    by (simp add: ov_view_def toy_open_def rst_read_def)
  with run session_isolated [OF inv fits run, of "keylet_unchecked 1"] show ?thesis by auto
qed

text \<open>
  what a client writes through a peeked pointer without reporting an update is seen by reads of that
  view but is not part of what the view applies: the ledger keeps the old entry.
\<close>

theorem write_without_update:
  assumes "lg_inv good ser deser l" "lg_contents deser l k = Some s"
  shows "\<exists>a h v l'. av_peek (keylet_unchecked k) h0 (Sandbox_of (lg_view deser l) flags) = Inr (Some a, h, v) \<and>
    rv_read (av_view v) (write_sle a f h) (keylet_unchecked k) = Inr (Some (s\<lparr>sle_body := f (sle_body s)\<rparr>)) \<and>
    sb_apply (lg_raw sha ser) (write_sle a f h) v l = Inr l' \<and> lg_contents deser l' = lg_contents deser l"
proof -
  have ok: "lg_ok good ser deser l" using assms(1) by (simp add: lg_inv_def)
  note base = view_ok_read [OF ledger_view.promise [OF ok], of h0]
  have k: "k \<noteq> 0" "sle_key s = k" using read_ok_keyed [OF base] assms(2) by (auto simp: keyed_def)
  have read: "rv_read (lg_view deser l) h0 (keylet_unchecked k) = Inr (Some s)" using base k assms(2) by (simp add: read_ok_def)
  let ?t = "\<lparr>at_items = [(k, ACache, length h0)], at_dropsDestroyed = 0, at_dropsCreated = 0\<rparr>"
  let ?v = "(Sandbox_of (lg_view deser l) flags)\<lparr>av_items := ?t\<rparr>" and ?h = "write_sle (length h0) f (h0 @ [s])"
  have peek: "av_peek (keylet_unchecked k) h0 (Sandbox_of (lg_view deser l) flags) = Inr (Some (length h0), h0 @ [s], ?v)"
    using read k by (simp add: av_peek_def ast_peek_def Sandbox_of_def ApplyViewBase_of_def ApplyStateTable_init_def make_sle_def om_emplace_def)
  have "rv_read (av_view ?v) ?h (keylet_unchecked k) = Inr (Some (s\<lparr>sle_body := f (sle_body s)\<rparr>))"
    by (simp add: av_view_def ast_read_def Sandbox_of_def ApplyViewBase_of_def)
  moreover have "sb_apply (lg_raw sha ser) ?h ?v l = Inr (lg_rawDestroyXRP 0 (lg_rawCreateXRP 0 l))"
    by (simp add: sb_apply_def ast_apply_def lg_raw_def)
  moreover have "lg_contents deser (lg_rawDestroyXRP 0 (lg_rawCreateXRP 0 l)) = lg_contents deser l"
    by (simp add: lg_contents_def lg_rawDestroyXRP_def lg_rawCreateXRP_def fun_eq_iff)
  ultimately show ?thesis using peek by blast
qed

theorem write_without_update_witness:
  "\<exists>a h v l'. av_peek (keylet_unchecked 1) [] (Sandbox_of (lg_view toy_deser toy_ledger) 0) = Inr (Some a, h, v) \<and>
     rv_read (av_view v) (write_sle a (\<lambda>b. b + 9) h) (keylet_unchecked 1) = Inr (Some (toy_entry\<lparr>sle_body := 9\<rparr>)) \<and>
     sb_apply (lg_raw toy_digest toy_ser) (write_sle a (\<lambda>b. b + 9) h) v toy_ledger = Inr l' \<and>
     lg_contents toy_deser l' = [1 \<mapsto> toy_entry]"
  using write_without_update [OF toy_inv, of 1 toy_entry "[]" 0 "\<lambda>b. b + 9" toy_digest]
  by (simp add: toy_contents) (simp add: toy_entry_def)

text \<open>
  the table of an open view does not look at the base: inserting an entry whose key the ledger already
  has is accepted, and the contradiction is found when the view is applied to the ledger.
\<close>

theorem insert_over_base:
  assumes "lg_inv good ser deser l" "a < length h" "lg_contents deser l (sle_key (h ! a)) \<noteq> None" "good (h ! a)"
  shows "\<exists>v. ov_rawInsert h a (OpenView_of (lg_view deser l)) = Inr v \<and>
    ov_apply (lg_raw sha ser) h v l = Inl (LLogic ''Ledger::rawInsert: key already exists'')"
proof -
  let ?v = "(OpenView_of (lg_view deser l))\<lparr>ov_items := RawStateTable_init\<lparr>rt_items := [(sle_key (h ! a), Action_insert, a)]\<rparr>\<rparr>"
  note inv = lg_inv_parts [OF assms(1)]
  obtain bs where bs: "ser (h ! a) = Inr bs" "12 \<le> length bs" using inv(5) [OF assms(4)] by blast
  let ?l = "lg_rawDestroyXRP 0 (lg_rawCreateXRP 0 l)" and ?it = "\<lparr>it_key = sle_key (h ! a), it_data = bs\<rparr>"
  have "map_of (shamap_items (lg_stateMap l)) (sle_key (h ! a)) \<noteq> None" using assms(3) lg_contents_None [OF inv(1)] by simp
  with addGiveItem_ok [OF inv(2-4) leaf_type_state, of ?it] bs(2) obtain m where
    "addGiveItem ?it False False (lg_stateMap l) = Inr (False, m)" by auto
  then have "lg_rawInsert ser h a ?l = Inl (LLogic ''Ledger::rawInsert: key already exists'')"
    by (simp add: lg_rawInsert_def lg_rawDestroyXRP_def lg_rawCreateXRP_def bs(1))
  moreover have "ov_rawInsert h a (OpenView_of (lg_view deser l)) = Inr ?v"
    by (simp add: ov_rawInsert_def rst_insert_def OpenView_of_def RawStateTable_init_def om_emplace_def)
  ultimately show ?thesis by (auto simp: ov_apply_def rst_apply_def lg_raw_def RawStateTable_init_def)
qed

theorem insert_over_base_witness:
  "\<exists>v. ov_rawInsert [toy_entry] 0 (OpenView_of (lg_view toy_deser toy_ledger)) = Inr v \<and>
     ov_apply (lg_raw toy_digest toy_ser) [toy_entry] v toy_ledger = Inl (LLogic ''Ledger::rawInsert: key already exists'')"
  using insert_over_base [OF toy_inv, of 0 "[toy_entry]" toy_digest] by (simp add: toy_contents toy_entry_def)

section \<open>Transactions\<close>

text \<open>
  Applying an open view to the ledger below it applies the changes of the state and then inserts the
  transactions: afterwards every transaction of the view is read back with its metadata, and the others
  are as before.
\<close>

lemma any_view_applies:
  assumes "lg_inv good ser deser l" "lg_tx_ok l" "rst_ok h (lg_contents deser l) (ov_items v)" "om_ok (<) (ov_txs v)" "heap_good good h"
    "\<And>k txn meta. map_of (ov_txs v) k = Some (txn, meta) \<Longrightarrow> tx_fits l txn meta \<and> lg_txExists k l = Inr False"
  shows "\<exists>l'. ov_apply (lg_raw sha ser) h v l = Inr l' \<and> lg_inv good ser deser l' \<and> lg_tx_ok l' \<and>
    lg_contents deser l' = rst_contents h (ov_items v) (lg_contents deser l) \<and>
    li_drops (lg_info l') = li_drops (lg_info l) + rst_net (ov_items v) \<and>
    (\<forall>k. lg_txRead k l' = (case map_of (ov_txs v) k of None \<Rightarrow> lg_txRead k l | Some (txn, meta) \<Rightarrow> Inr (Some txn, meta)))"
proof -
  have "heap_good good h \<and> lg_at good ser deser (lg_txMap l) (lg_info l) l" using assms(1,5) by (simp add: lg_at_def)
  from ledger_raw.raw_apply_ok [OF this assms(3), of sha] obtain l1 where
    l1: "rst_apply (lg_raw sha ser) h (ov_items v) l = Inr l1" "lg_at good ser deser (lg_txMap l) (lg_info l) l1"
      "li_drops (lg_info l1) = li_drops (lg_info l) + rst_net (ov_items v)"
      "lg_contents deser l1 = rst_contents h (ov_items v) (lg_contents deser l)" by blast
  have "(lg_info l1)\<lparr>li_drops := 0\<rparr> = (lg_info l)\<lparr>li_drops := 0\<rparr>" "lg_txMap l1 = lg_txMap l" using l1(2) by (simp_all add: lg_at_def)
  from arg_cong [OF this(1), of li_open] this(2) have same: "li_open (lg_info l1) = li_open (lg_info l)" "lg_txMap l1 = lg_txMap l"
    by simp_all
  then have read: "lg_txRead k l1 = lg_txRead k l" "lg_txExists k l1 = lg_txExists k l" "tx_fits l1 = tx_fits l" "lg_tx_ok l1" for k
    using assms(2) unfolding lg_txRead_def lg_txExists_def tx_fits_def [abs_def] lg_tx_ok_def same by simp_all
  have dist: "distinct (map fst (ov_txs v))" by (rule keys.om_ok_distinct [OF assms(4)])
  have "tx_fits l1 txn meta \<and> lg_txExists k l1 = Inr False" if "(k, txn, meta) \<in> set (ov_txs v)" for k txn meta
    using assms(6) [OF map_of_is_SomeI [OF dist that]] read(2,3) by simp
  from lg_tx_fold [OF read(4) dist this] obtain l' where
    l': "fold_r (\<lambda>(key, txn, meta). lg_rawTxInsert key txn meta) (ov_txs v) l1 = Inr l'" "lg_tx_ok l'"
      "lg_stateMap l' = lg_stateMap l1" "lg_info l' = lg_info l1"
      "\<forall>k. lg_txRead k l' = (case map_of (ov_txs v) k of None \<Rightarrow> lg_txRead k l1 | Some (txn, meta) \<Rightarrow> Inr (Some txn, meta))"
    by blast
  have "rw_txInsert (lg_raw sha ser) = lg_rawTxInsert" by (simp add: lg_raw_def)
  with l1(1) l'(1) have "ov_apply (lg_raw sha ser) h v l = Inr l'" by (simp add: ov_apply_def)
  moreover have "lg_inv good ser deser l'" "lg_contents deser l' = lg_contents deser l1"
    using l1(2) l'(3) by (auto simp: lg_at_def lg_inv_def lg_ok_def lg_contents_def fun_eq_iff)
  ultimately show ?thesis using l1(3,4) l'(2,4,5)
    unfolding read(1) by (intro exI [of _ l']) simp
qed

text \<open>
  the transactions of the base are not found by \<open>txExists\<close> of an open view, although
  \<open>txRead\<close> of the same view returns them.
\<close>

theorem open_view_txExists:
  assumes "lg_txExists key l = Inr True"
  shows "rv_txExists (lg_view deser l) key = Inr True \<and>
    rv_txExists (ov_view (OpenView_of (lg_view deser l))) key = Inr False \<and>
    rv_txRead (ov_view (OpenView_of (lg_view deser l))) key = rv_txRead (lg_view deser l) key"
  using assms by (simp add: ov_view_def ov_txExists_def ov_txRead_def OpenView_of_def lg_view_def)

theorem open_view_txExists_witness:
  "rv_txExists (ov_view (OpenView_of (lg_view toy_deser (toy_ledger\<lparr>lg_txMap := tree_of (zeros_item 1 12)\<rparr>)))) 1 = Inr False"
proof -
  have "lg_txExists 1 (toy_ledger\<lparr>lg_txMap := tree_of (zeros_item 1 12)\<rparr>) = Inr True"
    using hasItem_ok [OF tree_of_ok, of 12 1] by (simp add: lg_txExists_def tree_of_items)
  from open_view_txExists [OF this] show ?thesis by blast
qed

section \<open>Header\<close>

text \<open>
  C34: the header written by \<open>addRaw\<close> is read back by \<open>setRaw\<close>, with or without the hash
  prefix, if the resolution and the flags fit a byte, and the hash of a ledger is the digest of the prefix and
  these bytes.
\<close>

theorem header_roundtrip:
  assumes "li_closeTimeResolution info < 256" "li_closeFlags info < 256"
  shows "(\<exists>it. setRaw_info hasPrefix i0 (SerialIter_of ((if hasPrefix then be_bytes 4 HP_ledgerMaster else []) @ addRaw_info info [])) =
      Inr (i0\<lparr>li_seq := li_seq info, li_drops := li_drops info, li_parentHash := li_parentHash info, li_txHash := li_txHash info,
        li_accountHash := li_accountHash info, li_parentCloseTime := li_parentCloseTime info, li_closeTime := li_closeTime info,
        li_closeTimeResolution := li_closeTimeResolution info, li_closeFlags := li_closeFlags info\<rparr>, it) \<and> si_empty it) \<and>
    li_hash (lg_info (updateHash sha l)) = sha (be_bytes 4 HP_ledgerMaster @ addRaw_info (lg_info (updateHash sha l)) [])"
proof -
  have small: "ucast (ucast w :: byte) = w" if "w < 256" for w :: "32 word"
    using that by (simp add: word_unat_eq_iff unsigned_ucast_eq unsigned_take_bit_eq take_bit_nat_eq_self word_less_nat_alt)
  let ?body = "drop 4 (header_bytes info)"
  have bytes: "addRaw_info info [] = ?body" "be_bytes 4 HP_ledgerMaster @ addRaw_info i [] = header_bytes i" for i
    by (simp_all add: addRaw_info_bytes header_bytes_def)
  let ?it = "SerialIter_of ((if hasPrefix then be_bytes 4 HP_ledgerMaster else []) @ ?body)"
  obtain it0 where it0: "(if hasPrefix then bind_r (si_get32 ?it) (\<lambda>(_, i). Inr i) else Inr ?it) = Inr it0" "si_reads it0 ?body"
  proof (cases hasPrefix)
    case True
    then have "si_reads ?it (be_bytes 4 HP_ledgerMaster @ ?body)" by (simp add: si_reads_def)
    from si_reads_step(1) [OF this] True that show ?thesis by auto
  next
    case False
    with that show ?thesis by (simp add: si_reads_def)
  qed
  obtain it1 where it1: "setRaw_info False i0 it0 = Inr (i0\<lparr>li_seq := li_seq info, li_drops := li_drops info,
      li_parentHash := li_parentHash info, li_txHash := li_txHash info, li_accountHash := li_accountHash info,
      li_parentCloseTime := li_parentCloseTime info, li_closeTime := li_closeTime info,
      li_closeTimeResolution := li_closeTimeResolution info, li_closeFlags := li_closeFlags info\<rparr>, it1)" "si_reads it1 []"
    using header_fields_read [OF it0(2), of i0] small assms by auto
  have "setRaw_info hasPrefix i0 ?it = setRaw_info False i0 it0" using it0(1) by (simp add: setRaw_info_def)
  moreover have "si_empty it1" using it1(2) si_remain_rest [of it1] by (simp add: si_reads_def si_empty_def)
  moreover have "li_hash (lg_info (updateHash sha l)) = sha (header_bytes (lg_info (updateHash sha l)))"
    by (simp add: updateHash_def Let_def header_bytes_def)
  ultimately show ?thesis using it1(1) bytes by simp
qed

theorem header_roundtrip_witness:
  "\<exists>it. setRaw_info True LedgerInfo_init (SerialIter_of (be_bytes 4 HP_ledgerMaster @
      addRaw_info (LedgerInfo_init\<lparr>li_seq := 7, li_closeTimeResolution := 30\<rparr>) [])) =
    Inr (LedgerInfo_init\<lparr>li_seq := 7, li_closeTimeResolution := 30\<rparr>, it) \<and> si_empty it"
proof -
  let ?i = "LedgerInfo_init\<lparr>li_seq := 7, li_closeTimeResolution := 30\<rparr>"
  have "li_closeTimeResolution ?i < 256" "li_closeFlags ?i < 256" by (simp_all add: LedgerInfo_init_def)
  from header_roundtrip [OF this, of True LedgerInfo_init] show ?thesis by (simp add: LedgerInfo_init_def)
qed

text \<open>An immutable map of transactions takes no further one: the insertion fails, if not before, in the map.\<close>

lemma immutable_tx_refused:
  assumes "sm_state (lg_txMap l) = Immutable"
  shows "\<exists>e. lg_rawTxInsert key txn meta l = Inl e"
proof -
  have g: "addGiveItem it b c (lg_txMap l) = Inl LAssert" for it b c using assms by (simp add: addGiveItem_def)
  have "lg_rawTxInsert key txn meta l \<noteq> Inr r" for r by (cases meta) (auto simp: lg_rawTxInsert_def bind_r_eq_Inr_iff g)
  then show ?thesis by (cases "lg_rawTxInsert key txn meta l") auto
qed

text \<open>The counter of drops changes on any ledger, an immutable one too, and the hash of the header is not made again.\<close>

lemma drops_unguarded:
  "lg_immutable (lg_rawDestroyXRP d l) = lg_immutable l \<and> li_drops (lg_info (lg_rawDestroyXRP d l)) = li_drops (lg_info l) - d \<and>
   li_drops (lg_info (lg_rawCreateXRP d l)) = li_drops (lg_info l) + d \<and> li_drops (lg_info (setTotalDrops d l)) = d \<and>
   li_hash (lg_info (lg_rawDestroyXRP d l)) = li_hash (lg_info l) \<and> li_hash (lg_info (lg_rawCreateXRP d l)) = li_hash (lg_info l) \<and>
   li_hash (lg_info (setTotalDrops d l)) = li_hash (lg_info l)"
  by (simp add: lg_rawDestroyXRP_def lg_rawCreateXRP_def setTotalDrops_def)

text \<open>
  C35: a ledger that the consensus has accepted carries the hash of its header and of its maps, and its two maps and
  its close time are frozen: the operations that write the state or add a transaction and the one that sets the
  close time are refused. The counter of the drops is not: its operations have no guard.
\<close>

theorem accepted_ledger_frozen:
  assumes "setAccepted_consensus sha setFees closeTime closeResolution correctCloseTime l = Inr l'" "\<not> lg_immutable l" "ser (h ! a) = Inr bs"
  shows "lg_rawErase h a l' = Inl LAssert \<and> lg_rawInsert ser h a l' = Inl LAssert \<and> lg_rawReplace sha ser h a l' = Inl LAssert \<and>
    addSLE ser (h ! a) l' = Inl LAssert \<and> (\<exists>e. lg_rawTxInsert key txn meta l' = Inl e) \<and>
    setCloseTime t l' = Inl LAssert \<and> li_accepted (lg_info l') \<and>
    li_txHash (lg_info l') = getHash sha (lg_txMap l') \<and> li_accountHash (lg_info l') = getHash sha (lg_stateMap l') \<and>
    li_hash (lg_info l') = sha (header_bytes (lg_info l')) \<and>
    shamap_items (lg_stateMap l') = shamap_items (lg_stateMap l) \<and> shamap_items (lg_txMap l') = shamap_items (lg_txMap l)"
proof -
  let ?i = "\<lambda>u. (lg_info l)\<lparr>li_closeTime := u, li_closeTimeResolution := closeResolution,
       li_closeFlags := if correctCloseTime then 0 else 1, li_accepted := True\<rparr>"
  obtain u where "setImmutable sha setFees (l\<lparr>lg_info := ?i u\<rparr>) = Inr l'"
    using assms(1) by (auto simp: setAccepted_consensus_def bind_r_eq_Inr_iff)
  then obtain f where l': "l' = (updateHash sha (l\<lparr>lg_info := ?i u\<rparr>))\<lparr>lg_immutable := True,
      lg_txMap := (lg_txMap l)\<lparr>sm_state := Immutable\<rparr>, lg_stateMap := (lg_stateMap l)\<lparr>sm_state := Immutable\<rparr>, lg_fees := f\<rparr>"
    by (auto simp: setImmutable_def sm_setImmutable_def bind_r_eq_Inr_iff updateHash_def Let_def)
  have st: "sm_state (lg_stateMap l') = Immutable" "sm_state (lg_txMap l') = Immutable" "lg_immutable l'" by (simp_all add: l')
  have tx: "\<exists>e. lg_rawTxInsert key txn meta l' = Inl e" by (rule immutable_tx_refused [OF st(2)])
  have hash: "li_accepted (lg_info l')" "li_txHash (lg_info l') = getHash sha (lg_txMap l')"
    "li_accountHash (lg_info l') = getHash sha (lg_stateMap l')" "li_hash (lg_info l') = sha (header_bytes (lg_info l'))"
    "shamap_items (lg_stateMap l') = shamap_items (lg_stateMap l)" "shamap_items (lg_txMap l') = shamap_items (lg_txMap l)"
    using assms(2) by (simp_all add: l' updateHash_def Let_def getHash_def header_bytes_def shamap_items_def)
  show ?thesis
    using st hash tx assms(3)
    by (simp add: lg_rawErase_def delItem_def lg_rawInsert_def addGiveItem_def lg_rawReplace_def updateGiveItem_def setCloseTime_def addSLE_def)
qed

theorem accepted_ledger_frozen_witness:
  "\<exists>l'. setAccepted_consensus toy_digest (\<lambda>l. Inr (lg_fees l)) 100 30 True toy_ledger = Inr l' \<and>
     lg_rawInsert toy_ser [toy_entry] 0 l' = Inl LAssert"
proof -
  have "\<exists>l'. setAccepted_consensus toy_digest (\<lambda>l. Inr (lg_fees l)) 100 30 True toy_ledger = Inr l'"
    by (simp add: setAccepted_consensus_def setImmutable_def sm_setImmutable_def updateHash_def Let_def toy_ledger_def
        LedgerInfo_init_def roundCloseTime_def tree_of_def SHAMap_init_def)
  then obtain l' where "setAccepted_consensus toy_digest (\<lambda>l. Inr (lg_fees l)) 100 30 True toy_ledger = Inr l'" by blast
  moreover have "\<not> lg_immutable toy_ledger" "\<exists>bs. toy_ser ([toy_entry] ! 0) = Inr bs" by (simp_all add: toy_ledger_def toy_ser_def)
  ultimately show ?thesis using accepted_ledger_frozen by blast
qed

text \<open>
  a close time that is not zero is rounded to the nearest multiple of the resolution, ties upwards, and
  a rounded time is left alone, as long as the sum does not wrap around.
\<close>

theorem close_time_rounding:
  assumes "t \<noteq> 0" "r \<noteq> 0" "unat t + unat r < 2 ^ 32"
  shows "\<exists>c. roundCloseTime t r = Inr c \<and> unat r dvd unat c \<and> unat c \<le> unat t + unat r div 2 \<and>
    unat t + unat r div 2 < unat c + unat r \<and> roundCloseTime c r = Inr c"
proof -
  have "unat t + unat r div 2 < 2 ^ 32" using assms(3) by linarith
  from round_close_spec [OF assms(1,2) this] obtain c where
    c: "roundCloseTime t r = Inr c" "unat r dvd unat c" "unat c \<le> unat t + unat r div 2" "unat t + unat r div 2 < unat c + unat r" by blast
  have "roundCloseTime c r = Inr c"
  proof (cases "c = 0")
    case True
    then show ?thesis by (simp add: roundCloseTime_def)
  next
    case False
    have "unat c + unat r div 2 < 2 ^ 32" using c(3) assms(3) by linarith
    from round_close_spec [OF False assms(2) this] obtain d where
      d: "roundCloseTime c r = Inr d" "unat r dvd unat d" "unat d \<le> unat c + unat r div 2" "unat c + unat r div 2 < unat d + unat r" by blast
    from c(2) d(2) obtain i j where ij: "unat c = unat r * i" "unat d = unat r * j" by (auto elim!: dvdE)
    have pos: "0 < unat r" using assms(2) by (simp add: unat_gt_0)
    have "unat r * j < unat r * Suc i" using d(3) pos unfolding ij mult_Suc_right by linarith
    moreover have "unat r * i < unat r * Suc j" using d(4) unfolding ij mult_Suc_right by linarith
    ultimately have "i = j" by (simp only: mult_less_cancel1) linarith
    with ij d(1) show ?thesis by (simp add: word_unat_eq_iff)
  qed
  with c show ?thesis by blast
qed

theorem close_time_rounding_witness: "\<exists>c. roundCloseTime 44 30 = Inr c \<and> 30 dvd unat c \<and> roundCloseTime c 30 = Inr c"
  using close_time_rounding [of 44 30] by auto

text \<open>
  The resolution of the next ledger is again one of the table: after a disagreement the next coarser
  one, and after an agreement the same or, in every eighth ledger, the next finer one.
\<close>

theorem resolution_adapts:
  assumes "prev \<in> set ledgerPossibleTimeResolutions" "seq \<noteq> 0"
  shows "\<exists>r. getNextLedgerTimeResolution prev agreed seq = Inr r \<and> r \<in> set ledgerPossibleTimeResolutions \<and>
    (agreed \<longrightarrow> r \<le> prev \<and> (seq mod 8 \<noteq> 0 \<longrightarrow> r = prev) \<and> (seq mod 8 = 0 \<and> 10 < prev \<longrightarrow> r < prev)) \<and>
    (\<not> agreed \<longrightarrow> prev \<le> r \<and> (prev < 120 \<longrightarrow> prev < r))"
proof -
  have "prev = 10 \<or> prev = 20 \<or> prev = 30 \<or> prev = 60 \<or> prev = 90 \<or> prev = 120"
    using assms(1) by (simp add: ledgerPossibleTimeResolutions_def)
  then show ?thesis
    using assms(2) unfolding getNextLedgerTimeResolution_def ledgerPossibleTimeResolutions_def
      increaseLedgerTimeResolutionEvery_def decreaseLedgerTimeResolutionEvery_def
    by (cases agreed; cases "seq mod 8 = 0"; elim disjE) (simp_all add: Let_def)
qed

theorem resolution_adapts_witness: "\<exists>r. getNextLedgerTimeResolution 30 False 5 = Inr r \<and> 30 < r"
  using resolution_adapts [of 30 5 False] by (auto simp: ledgerPossibleTimeResolutions_def)

end
