(* ===== verification/SField.thy ===== *)
theory SField
  imports Serializer_Spec
begin

text \<open>
  The identifiers of serialized fields (\<open>src/ripple/protocol/SField.h\<close> and
  \<open>impl/SField.cpp\<close>): the table of the fields known at compile time, and the lookup by code that
  makes fields for unused codes at run time. A field has one instance per code; what differs between runs,
  the number in the order of creation, is left out.
\<close>

section \<open>Types\<close>

text \<open>\<open>SerializedTypeID\<close>\<close>

abbreviation (input) STI_UNKNOWN :: int where "STI_UNKNOWN \<equiv> - 2"
abbreviation (input) STI_NOTPRESENT :: int where "STI_NOTPRESENT \<equiv> 0"
abbreviation (input) STI_UINT16 :: int where "STI_UINT16 \<equiv> 1"
abbreviation (input) STI_UINT32 :: int where "STI_UINT32 \<equiv> 2"
abbreviation (input) STI_UINT64 :: int where "STI_UINT64 \<equiv> 3"
abbreviation (input) STI_HASH128 :: int where "STI_HASH128 \<equiv> 4"
abbreviation (input) STI_HASH256 :: int where "STI_HASH256 \<equiv> 5"
abbreviation (input) STI_AMOUNT :: int where "STI_AMOUNT \<equiv> 6"
abbreviation (input) STI_VL :: int where "STI_VL \<equiv> 7"
abbreviation (input) STI_ACCOUNT :: int where "STI_ACCOUNT \<equiv> 8"
abbreviation (input) STI_OBJECT :: int where "STI_OBJECT \<equiv> 14"
abbreviation (input) STI_ARRAY :: int where "STI_ARRAY \<equiv> 15"
abbreviation (input) STI_UINT8 :: int where "STI_UINT8 \<equiv> 16"
abbreviation (input) STI_HASH160 :: int where "STI_HASH160 \<equiv> 17"
abbreviation (input) STI_PATHSET :: int where "STI_PATHSET \<equiv> 18"
abbreviation (input) STI_VECTOR256 :: int where "STI_VECTOR256 \<equiv> 19"
abbreviation (input) STI_TRANSACTION :: int where "STI_TRANSACTION \<equiv> 10001"
abbreviation (input) STI_LEDGERENTRY :: int where "STI_LEDGERENTRY \<equiv> 10002"
abbreviation (input) STI_VALIDATION :: int where "STI_VALIDATION \<equiv> 10003"
abbreviation (input) STI_METADATA :: int where "STI_METADATA \<equiv> 10004"

definition field_code :: "int \<Rightarrow> int \<Rightarrow> int" where
  "field_code tid index = push_bit 16 tid OR index"

section \<open>Fields\<close>

text \<open>When metadata include a field; the bits combine to \<open>sMD_Default\<close>.\<close>

abbreviation (input) sMD_Never :: int where "sMD_Never \<equiv> 0"
abbreviation (input) sMD_ChangeOrig :: int where "sMD_ChangeOrig \<equiv> 1"
abbreviation (input) sMD_ChangeNew :: int where "sMD_ChangeNew \<equiv> 2"
abbreviation (input) sMD_DeleteFinal :: int where "sMD_DeleteFinal \<equiv> 4"
abbreviation (input) sMD_Create :: int where "sMD_Create \<equiv> 8"
abbreviation (input) sMD_Always :: int where "sMD_Always \<equiv> 16"
abbreviation (input) sMD_Default :: int where "sMD_Default \<equiv> 15"

record SField =
  fieldCode :: int
  fieldType :: int
  fieldValue :: int
  fieldName :: string
  fieldMeta :: int
  signingField :: bool

definition SField_named :: "int \<Rightarrow> int \<Rightarrow> string \<Rightarrow> int \<Rightarrow> bool \<Rightarrow> SField" where
  "SField_named tid fv fn meta signing =
     \<lparr>fieldCode = field_code tid fv, fieldType = tid, fieldValue = fv, fieldName = fn, fieldMeta = meta, signingField = signing\<rparr>"

definition SField_special :: "int \<Rightarrow> SField" where
  "SField_special fc =
     \<lparr>fieldCode = fc, fieldType = STI_UNKNOWN, fieldValue = 0, fieldName = [], fieldMeta = sMD_Never, signingField = True\<rparr>"

definition SField_dynamic :: "int \<Rightarrow> int \<Rightarrow> (led_error, SField) result" where
  "SField_dynamic tid fv =
     bind_r (led_assert (fv \<noteq> 1 \<or> (tid \<noteq> STI_ARRAY \<and> tid \<noteq> STI_OBJECT))) (\<lambda>_.
       Inr (SField_named tid fv (dec_string (nat tid) @ ''/'' @ dec_string (nat fv)) sMD_Default True))"

definition isGeneric :: "SField \<Rightarrow> bool" where
  "isGeneric f = (fieldCode f = 0)"

definition isInvalid :: "SField \<Rightarrow> bool" where
  "isInvalid f = (fieldCode f = - 1)"

definition isUseful :: "SField \<Rightarrow> bool" where
  "isUseful f = (fieldCode f > 0)"

definition isBinary :: "SField \<Rightarrow> bool" where
  "isBinary f = (fieldValue f < 256)"

definition isDiscardable :: "SField \<Rightarrow> bool" where
  "isDiscardable f = (fieldValue f > 256)"

definition shouldMeta :: "SField \<Rightarrow> int \<Rightarrow> bool" where
  "shouldMeta f c = (fieldMeta f AND c \<noteq> 0)"

definition shouldInclude :: "SField \<Rightarrow> bool \<Rightarrow> bool" where
  "shouldInclude f withSigningField = (fieldValue f < 256 \<and> (withSigningField \<or> signingField f))"

definition SField_compare :: "SField \<Rightarrow> SField \<Rightarrow> int" where
  "SField_compare f1 f2 =
     (if fieldCode f1 \<le> 0 \<or> fieldCode f2 \<le> 0 then 0
      else if fieldCode f1 < fieldCode f2 then - 1
      else if fieldCode f2 < fieldCode f1 then 1
      else 0)"

section \<open>The fields known at compile time\<close>

definition sfInvalid :: SField where "sfInvalid = SField_special (-1)"
definition sfGeneric :: SField where "sfGeneric = SField_special (0)"
definition sfLedgerEntry :: SField where "sfLedgerEntry = SField_named STI_LEDGERENTRY 257 ''LedgerEntry'' sMD_Default True"
definition sfTransaction :: SField where "sfTransaction = SField_named STI_TRANSACTION 257 ''Transaction'' sMD_Default True"
definition sfValidation :: SField where "sfValidation = SField_named STI_VALIDATION 257 ''Validation'' sMD_Default True"
definition sfMetadata :: SField where "sfMetadata = SField_named STI_METADATA 257 ''Metadata'' sMD_Default True"
definition sfHash :: SField where "sfHash = SField_named STI_HASH256 257 ''hash'' sMD_Default True"
definition sfIndex :: SField where "sfIndex = SField_named STI_HASH256 258 ''index'' sMD_Default True"
definition sfCloseResolution :: SField where "sfCloseResolution = SField_named STI_UINT8 1 ''CloseResolution'' sMD_Default True"
definition sfTemplateEntryType :: SField where "sfTemplateEntryType = SField_named STI_UINT8 2 ''TemplateEntryType'' sMD_Default True"
definition sfTransactionResult :: SField where "sfTransactionResult = SField_named STI_UINT8 3 ''TransactionResult'' sMD_Default True"
definition sfDividendState :: SField where "sfDividendState = SField_named STI_UINT8 181 ''IncentiveState'' sMD_Default True"
definition sfDividendType :: SField where "sfDividendType = SField_named STI_UINT8 182 ''Incentiveype'' sMD_Default True"
definition sfLedgerEntryType :: SField where "sfLedgerEntryType = SField_named STI_UINT16 1 ''LedgerEntryType'' sMD_Never True"
definition sfTransactionType :: SField where "sfTransactionType = SField_named STI_UINT16 2 ''TransactionType'' sMD_Default True"
definition sfSignerWeight :: SField where "sfSignerWeight = SField_named STI_UINT16 3 ''SignerWeight'' sMD_Default True"
definition sfFlags :: SField where "sfFlags = SField_named STI_UINT32 2 ''Flags'' sMD_Default True"
definition sfSourceTag :: SField where "sfSourceTag = SField_named STI_UINT32 3 ''SourceTag'' sMD_Default True"
definition sfSequence :: SField where "sfSequence = SField_named STI_UINT32 4 ''Sequence'' sMD_Default True"
definition sfPreviousTxnLgrSeq :: SField where "sfPreviousTxnLgrSeq = SField_named STI_UINT32 5 ''PreviousTxnLgrSeq'' sMD_DeleteFinal True"
definition sfLedgerSequence :: SField where "sfLedgerSequence = SField_named STI_UINT32 6 ''LedgerSequence'' sMD_Default True"
definition sfCloseTime :: SField where "sfCloseTime = SField_named STI_UINT32 7 ''CloseTime'' sMD_Default True"
definition sfParentCloseTime :: SField where "sfParentCloseTime = SField_named STI_UINT32 8 ''ParentCloseTime'' sMD_Default True"
definition sfSigningTime :: SField where "sfSigningTime = SField_named STI_UINT32 9 ''SigningTime'' sMD_Default True"
definition sfExpiration :: SField where "sfExpiration = SField_named STI_UINT32 10 ''Expiration'' sMD_Default True"
definition sfTransferRate :: SField where "sfTransferRate = SField_named STI_UINT32 11 ''TransferRate'' sMD_Default True"
definition sfWalletSize :: SField where "sfWalletSize = SField_named STI_UINT32 12 ''WalletSize'' sMD_Default True"
definition sfOwnerCount :: SField where "sfOwnerCount = SField_named STI_UINT32 13 ''OwnerCount'' sMD_Default True"
definition sfDestinationTag :: SField where "sfDestinationTag = SField_named STI_UINT32 14 ''DestinationTag'' sMD_Default True"
definition sfDividendLedger :: SField where "sfDividendLedger = SField_named STI_UINT32 181 ''IncentiveBaseLedger'' sMD_Default True"
definition sfHighQualityIn :: SField where "sfHighQualityIn = SField_named STI_UINT32 16 ''HighQualityIn'' sMD_Default True"
definition sfHighQualityOut :: SField where "sfHighQualityOut = SField_named STI_UINT32 17 ''HighQualityOut'' sMD_Default True"
definition sfLowQualityIn :: SField where "sfLowQualityIn = SField_named STI_UINT32 18 ''LowQualityIn'' sMD_Default True"
definition sfLowQualityOut :: SField where "sfLowQualityOut = SField_named STI_UINT32 19 ''LowQualityOut'' sMD_Default True"
definition sfQualityIn :: SField where "sfQualityIn = SField_named STI_UINT32 20 ''QualityIn'' sMD_Default True"
definition sfQualityOut :: SField where "sfQualityOut = SField_named STI_UINT32 21 ''QualityOut'' sMD_Default True"
definition sfStampEscrow :: SField where "sfStampEscrow = SField_named STI_UINT32 22 ''StampEscrow'' sMD_Default True"
definition sfBondAmount :: SField where "sfBondAmount = SField_named STI_UINT32 23 ''BondAmount'' sMD_Default True"
definition sfLoadFee :: SField where "sfLoadFee = SField_named STI_UINT32 24 ''LoadFee'' sMD_Default True"
definition sfOfferSequence :: SField where "sfOfferSequence = SField_named STI_UINT32 25 ''OfferSequence'' sMD_Default True"
definition sfFirstLedgerSequence :: SField where "sfFirstLedgerSequence = SField_named STI_UINT32 26 ''FirstLedgerSequence'' sMD_Default True"
definition sfLastLedgerSequence :: SField where "sfLastLedgerSequence = SField_named STI_UINT32 27 ''LastLedgerSequence'' sMD_Default True"
definition sfTransactionIndex :: SField where "sfTransactionIndex = SField_named STI_UINT32 28 ''TransactionIndex'' sMD_Default True"
definition sfOperationLimit :: SField where "sfOperationLimit = SField_named STI_UINT32 29 ''OperationLimit'' sMD_Default True"
definition sfReferenceFeeUnits :: SField where "sfReferenceFeeUnits = SField_named STI_UINT32 30 ''ReferenceFeeUnits'' sMD_Default True"
definition sfReserveBase :: SField where "sfReserveBase = SField_named STI_UINT32 31 ''ReserveBase'' sMD_Default True"
definition sfReserveIncrement :: SField where "sfReserveIncrement = SField_named STI_UINT32 32 ''ReserveIncrement'' sMD_Default True"
definition sfSetFlag :: SField where "sfSetFlag = SField_named STI_UINT32 33 ''SetFlag'' sMD_Default True"
definition sfClearFlag :: SField where "sfClearFlag = SField_named STI_UINT32 34 ''ClearFlag'' sMD_Default True"
definition sfSignerQuorum :: SField where "sfSignerQuorum = SField_named STI_UINT32 35 ''SignerQuorum'' sMD_Default True"
definition sfIndexNext :: SField where "sfIndexNext = SField_named STI_UINT64 1 ''IndexNext'' sMD_Default True"
definition sfIndexPrevious :: SField where "sfIndexPrevious = SField_named STI_UINT64 2 ''IndexPrevious'' sMD_Default True"
definition sfBookNode :: SField where "sfBookNode = SField_named STI_UINT64 3 ''BookNode'' sMD_Default True"
definition sfOwnerNode :: SField where "sfOwnerNode = SField_named STI_UINT64 4 ''OwnerNode'' sMD_Default True"
definition sfBaseFee :: SField where "sfBaseFee = SField_named STI_UINT64 5 ''BaseFee'' sMD_Default True"
definition sfExchangeRate :: SField where "sfExchangeRate = SField_named STI_UINT64 6 ''ExchangeRate'' sMD_Default True"
definition sfLowNode :: SField where "sfLowNode = SField_named STI_UINT64 7 ''LowNode'' sMD_Default True"
definition sfHighNode :: SField where "sfHighNode = SField_named STI_UINT64 8 ''HighNode'' sMD_Default True"
definition sfDividendCoins :: SField where "sfDividendCoins = SField_named STI_UINT64 181 ''IncentiveCoins'' sMD_Default True"
definition sfEmailHash :: SField where "sfEmailHash = SField_named STI_HASH128 1 ''EmailHash'' sMD_Default True"
definition sfLedgerHash :: SField where "sfLedgerHash = SField_named STI_HASH256 1 ''LedgerHash'' sMD_Default True"
definition sfParentHash :: SField where "sfParentHash = SField_named STI_HASH256 2 ''ParentHash'' sMD_Default True"
definition sfTransactionHash :: SField where "sfTransactionHash = SField_named STI_HASH256 3 ''TransactionHash'' sMD_Default True"
definition sfAccountHash :: SField where "sfAccountHash = SField_named STI_HASH256 4 ''AccountHash'' sMD_Default True"
definition sfPreviousTxnID :: SField where "sfPreviousTxnID = SField_named STI_HASH256 5 ''PreviousTxnID'' sMD_DeleteFinal True"
definition sfLedgerIndex :: SField where "sfLedgerIndex = SField_named STI_HASH256 6 ''LedgerIndex'' sMD_Default True"
definition sfWalletLocator :: SField where "sfWalletLocator = SField_named STI_HASH256 7 ''WalletLocator'' sMD_Default True"
definition sfRootIndex :: SField where "sfRootIndex = SField_named STI_HASH256 8 ''RootIndex'' sMD_Always True"
definition sfAccountTxnID :: SField where "sfAccountTxnID = SField_named STI_HASH256 9 ''AccountTxnID'' sMD_Default True"
definition sfBookDirectory :: SField where "sfBookDirectory = SField_named STI_HASH256 16 ''BookDirectory'' sMD_Default True"
definition sfInvoiceID :: SField where "sfInvoiceID = SField_named STI_HASH256 17 ''InvoiceID'' sMD_Default True"
definition sfNickname :: SField where "sfNickname = SField_named STI_HASH256 18 ''Nickname'' sMD_Default True"
definition sfAmendment :: SField where "sfAmendment = SField_named STI_HASH256 19 ''Amendment'' sMD_Default True"
definition sfTicketID :: SField where "sfTicketID = SField_named STI_HASH256 20 ''TicketID'' sMD_Default True"
definition sfTakerPaysCurrency :: SField where "sfTakerPaysCurrency = SField_named STI_HASH160 1 ''TakerPaysCurrency'' sMD_Default True"
definition sfTakerPaysIssuer :: SField where "sfTakerPaysIssuer = SField_named STI_HASH160 2 ''TakerPaysIssuer'' sMD_Default True"
definition sfTakerGetsCurrency :: SField where "sfTakerGetsCurrency = SField_named STI_HASH160 3 ''TakerGetsCurrency'' sMD_Default True"
definition sfTakerGetsIssuer :: SField where "sfTakerGetsIssuer = SField_named STI_HASH160 4 ''TakerGetsIssuer'' sMD_Default True"
definition sfAmount :: SField where "sfAmount = SField_named STI_AMOUNT 1 ''Amount'' sMD_Default True"
definition sfBalance :: SField where "sfBalance = SField_named STI_AMOUNT 2 ''Balance'' sMD_Default True"
definition sfLimitAmount :: SField where "sfLimitAmount = SField_named STI_AMOUNT 3 ''LimitAmount'' sMD_Default True"
definition sfTakerPays :: SField where "sfTakerPays = SField_named STI_AMOUNT 4 ''TakerPays'' sMD_Default True"
definition sfTakerGets :: SField where "sfTakerGets = SField_named STI_AMOUNT 5 ''TakerGets'' sMD_Default True"
definition sfLowLimit :: SField where "sfLowLimit = SField_named STI_AMOUNT 6 ''LowLimit'' sMD_Default True"
definition sfHighLimit :: SField where "sfHighLimit = SField_named STI_AMOUNT 7 ''HighLimit'' sMD_Default True"
definition sfFee :: SField where "sfFee = SField_named STI_AMOUNT 8 ''Fee'' sMD_Default True"
definition sfSendMax :: SField where "sfSendMax = SField_named STI_AMOUNT 9 ''SendMax'' sMD_Default True"
definition sfDeliverMin :: SField where "sfDeliverMin = SField_named STI_AMOUNT 10 ''DeliverMin'' sMD_Default True"
definition sfMinimumOffer :: SField where "sfMinimumOffer = SField_named STI_AMOUNT 16 ''MinimumOffer'' sMD_Default True"
definition sfRippleEscrow :: SField where "sfRippleEscrow = SField_named STI_AMOUNT 17 ''RippleEscrow'' sMD_Default True"
definition sfDeliveredAmount :: SField where "sfDeliveredAmount = SField_named STI_AMOUNT 18 ''DeliveredAmount'' sMD_Default True"
definition sfPublicKey :: SField where "sfPublicKey = SField_named STI_VL 1 ''PublicKey'' sMD_Default True"
definition sfSigningPubKey :: SField where "sfSigningPubKey = SField_named STI_VL 3 ''SigningPubKey'' sMD_Default True"
definition sfSignature :: SField where "sfSignature = SField_named STI_VL 6 ''Signature'' sMD_Default False"
definition sfMessageKey :: SField where "sfMessageKey = SField_named STI_VL 2 ''MessageKey'' sMD_Default True"
definition sfTxnSignature :: SField where "sfTxnSignature = SField_named STI_VL 4 ''TxnSignature'' sMD_Default False"
definition sfDomain :: SField where "sfDomain = SField_named STI_VL 7 ''Domain'' sMD_Default True"
definition sfFundCode :: SField where "sfFundCode = SField_named STI_VL 8 ''FundCode'' sMD_Default True"
definition sfRemoveCode :: SField where "sfRemoveCode = SField_named STI_VL 9 ''RemoveCode'' sMD_Default True"
definition sfExpireCode :: SField where "sfExpireCode = SField_named STI_VL 10 ''ExpireCode'' sMD_Default True"
definition sfCreateCode :: SField where "sfCreateCode = SField_named STI_VL 11 ''CreateCode'' sMD_Default True"
definition sfMemoType :: SField where "sfMemoType = SField_named STI_VL 12 ''MemoType'' sMD_Default True"
definition sfMemoData :: SField where "sfMemoData = SField_named STI_VL 13 ''MemoData'' sMD_Default True"
definition sfMemoFormat :: SField where "sfMemoFormat = SField_named STI_VL 14 ''MemoFormat'' sMD_Default True"
definition sfMultiSignature :: SField where "sfMultiSignature = SField_named STI_VL 16 ''MultiSignature'' sMD_Default True"
definition sfAccount :: SField where "sfAccount = SField_named STI_ACCOUNT 1 ''Account'' sMD_Default True"
definition sfOwner :: SField where "sfOwner = SField_named STI_ACCOUNT 2 ''Owner'' sMD_Default True"
definition sfDestination :: SField where "sfDestination = SField_named STI_ACCOUNT 3 ''Destination'' sMD_Default True"
definition sfIssuer :: SField where "sfIssuer = SField_named STI_ACCOUNT 4 ''Issuer'' sMD_Default True"
definition sfTarget :: SField where "sfTarget = SField_named STI_ACCOUNT 7 ''Target'' sMD_Default True"
definition sfRegularKey :: SField where "sfRegularKey = SField_named STI_ACCOUNT 8 ''RegularKey'' sMD_Default True"
definition sfPaths :: SField where "sfPaths = SField_named STI_PATHSET 1 ''Paths'' sMD_Default True"
definition sfIndexes :: SField where "sfIndexes = SField_named STI_VECTOR256 1 ''Indexes'' sMD_Never True"
definition sfHashes :: SField where "sfHashes = SField_named STI_VECTOR256 2 ''Hashes'' sMD_Default True"
definition sfAmendments :: SField where "sfAmendments = SField_named STI_VECTOR256 3 ''Amendments'' sMD_Default True"
definition sfTransactionMetaData :: SField where "sfTransactionMetaData = SField_named STI_OBJECT 2 ''TransactionMetaData'' sMD_Default True"
definition sfCreatedNode :: SField where "sfCreatedNode = SField_named STI_OBJECT 3 ''CreatedNode'' sMD_Default True"
definition sfDeletedNode :: SField where "sfDeletedNode = SField_named STI_OBJECT 4 ''DeletedNode'' sMD_Default True"
definition sfModifiedNode :: SField where "sfModifiedNode = SField_named STI_OBJECT 5 ''ModifiedNode'' sMD_Default True"
definition sfPreviousFields :: SField where "sfPreviousFields = SField_named STI_OBJECT 6 ''PreviousFields'' sMD_Default True"
definition sfFinalFields :: SField where "sfFinalFields = SField_named STI_OBJECT 7 ''FinalFields'' sMD_Default True"
definition sfNewFields :: SField where "sfNewFields = SField_named STI_OBJECT 8 ''NewFields'' sMD_Default True"
definition sfTemplateEntry :: SField where "sfTemplateEntry = SField_named STI_OBJECT 9 ''TemplateEntry'' sMD_Default True"
definition sfMemo :: SField where "sfMemo = SField_named STI_OBJECT 10 ''Memo'' sMD_Default True"
definition sfSignerEntry :: SField where "sfSignerEntry = SField_named STI_OBJECT 11 ''SignerEntry'' sMD_Default True"
definition sfSigningAccount :: SField where "sfSigningAccount = SField_named STI_OBJECT 16 ''SigningAccount'' sMD_Default True"
definition sfSigningFor :: SField where "sfSigningFor = SField_named STI_OBJECT 17 ''SigningFor'' sMD_Default True"
definition sfMajority :: SField where "sfMajority = SField_named STI_OBJECT 18 ''Majority'' sMD_Default True"
definition sfSigningAccounts :: SField where "sfSigningAccounts = SField_named STI_ARRAY 2 ''SigningAccounts'' sMD_Default True"
definition sfMultiSigners :: SField where "sfMultiSigners = SField_named STI_ARRAY 3 ''MultiSigners'' sMD_Default False"
definition sfSignerEntries :: SField where "sfSignerEntries = SField_named STI_ARRAY 4 ''SignerEntries'' sMD_Default True"
definition sfTemplate :: SField where "sfTemplate = SField_named STI_ARRAY 5 ''Template'' sMD_Default True"
definition sfNecessary :: SField where "sfNecessary = SField_named STI_ARRAY 6 ''Necessary'' sMD_Default True"
definition sfSufficient :: SField where "sfSufficient = SField_named STI_ARRAY 7 ''Sufficient'' sMD_Default True"
definition sfAffectedNodes :: SField where "sfAffectedNodes = SField_named STI_ARRAY 8 ''AffectedNodes'' sMD_Default True"
definition sfMemos :: SField where "sfMemos = SField_named STI_ARRAY 9 ''Memos'' sMD_Default True"
definition sfMajorities :: SField where "sfMajorities = SField_named STI_ARRAY 16 ''Majorities'' sMD_Default True"

definition knownFields :: "SField list" where
  "knownFields = [
    sfInvalid, sfGeneric, sfLedgerEntry, sfTransaction, sfValidation, sfMetadata, sfHash, sfIndex,
    sfCloseResolution, sfTemplateEntryType, sfTransactionResult, sfDividendState, sfDividendType,
    sfLedgerEntryType, sfTransactionType, sfSignerWeight, sfFlags, sfSourceTag, sfSequence,
    sfPreviousTxnLgrSeq, sfLedgerSequence, sfCloseTime, sfParentCloseTime, sfSigningTime, sfExpiration,
    sfTransferRate, sfWalletSize, sfOwnerCount, sfDestinationTag, sfDividendLedger, sfHighQualityIn,
    sfHighQualityOut, sfLowQualityIn, sfLowQualityOut, sfQualityIn, sfQualityOut, sfStampEscrow, sfBondAmount,
    sfLoadFee, sfOfferSequence, sfFirstLedgerSequence, sfLastLedgerSequence, sfTransactionIndex,
    sfOperationLimit, sfReferenceFeeUnits, sfReserveBase, sfReserveIncrement, sfSetFlag, sfClearFlag,
    sfSignerQuorum, sfIndexNext, sfIndexPrevious, sfBookNode, sfOwnerNode, sfBaseFee, sfExchangeRate,
    sfLowNode, sfHighNode, sfDividendCoins, sfEmailHash, sfLedgerHash, sfParentHash, sfTransactionHash,
    sfAccountHash, sfPreviousTxnID, sfLedgerIndex, sfWalletLocator, sfRootIndex, sfAccountTxnID,
    sfBookDirectory, sfInvoiceID, sfNickname, sfAmendment, sfTicketID, sfTakerPaysCurrency, sfTakerPaysIssuer,
    sfTakerGetsCurrency, sfTakerGetsIssuer, sfAmount, sfBalance, sfLimitAmount, sfTakerPays, sfTakerGets,
    sfLowLimit, sfHighLimit, sfFee, sfSendMax, sfDeliverMin, sfMinimumOffer, sfRippleEscrow,
    sfDeliveredAmount, sfPublicKey, sfSigningPubKey, sfSignature, sfMessageKey, sfTxnSignature, sfDomain,
    sfFundCode, sfRemoveCode, sfExpireCode, sfCreateCode, sfMemoType, sfMemoData, sfMemoFormat,
    sfMultiSignature, sfAccount, sfOwner, sfDestination, sfIssuer, sfTarget, sfRegularKey, sfPaths, sfIndexes,
    sfHashes, sfAmendments, sfTransactionMetaData, sfCreatedNode, sfDeletedNode, sfModifiedNode,
    sfPreviousFields, sfFinalFields, sfNewFields, sfTemplateEntry, sfMemo, sfSignerEntry, sfSigningAccount,
    sfSigningFor, sfMajority, sfSigningAccounts, sfMultiSigners, sfSignerEntries, sfTemplate, sfNecessary,
    sfSufficient, sfAffectedNodes, sfMemos, sfMajorities]"

lemmas known_field_defs = sfInvalid_def sfGeneric_def sfLedgerEntry_def sfTransaction_def sfValidation_def sfMetadata_def sfHash_def
  sfIndex_def sfCloseResolution_def sfTemplateEntryType_def sfTransactionResult_def sfDividendState_def
  sfDividendType_def sfLedgerEntryType_def sfTransactionType_def sfSignerWeight_def sfFlags_def
  sfSourceTag_def sfSequence_def sfPreviousTxnLgrSeq_def sfLedgerSequence_def sfCloseTime_def
  sfParentCloseTime_def sfSigningTime_def sfExpiration_def sfTransferRate_def sfWalletSize_def
  sfOwnerCount_def sfDestinationTag_def sfDividendLedger_def sfHighQualityIn_def sfHighQualityOut_def
  sfLowQualityIn_def sfLowQualityOut_def sfQualityIn_def sfQualityOut_def sfStampEscrow_def sfBondAmount_def
  sfLoadFee_def sfOfferSequence_def sfFirstLedgerSequence_def sfLastLedgerSequence_def sfTransactionIndex_def
  sfOperationLimit_def sfReferenceFeeUnits_def sfReserveBase_def sfReserveIncrement_def sfSetFlag_def
  sfClearFlag_def sfSignerQuorum_def sfIndexNext_def sfIndexPrevious_def sfBookNode_def sfOwnerNode_def
  sfBaseFee_def sfExchangeRate_def sfLowNode_def sfHighNode_def sfDividendCoins_def sfEmailHash_def
  sfLedgerHash_def sfParentHash_def sfTransactionHash_def sfAccountHash_def sfPreviousTxnID_def
  sfLedgerIndex_def sfWalletLocator_def sfRootIndex_def sfAccountTxnID_def sfBookDirectory_def sfInvoiceID_def
  sfNickname_def sfAmendment_def sfTicketID_def sfTakerPaysCurrency_def sfTakerPaysIssuer_def
  sfTakerGetsCurrency_def sfTakerGetsIssuer_def sfAmount_def sfBalance_def sfLimitAmount_def sfTakerPays_def
  sfTakerGets_def sfLowLimit_def sfHighLimit_def sfFee_def sfSendMax_def sfDeliverMin_def sfMinimumOffer_def
  sfRippleEscrow_def sfDeliveredAmount_def sfPublicKey_def sfSigningPubKey_def sfSignature_def
  sfMessageKey_def sfTxnSignature_def sfDomain_def sfFundCode_def sfRemoveCode_def sfExpireCode_def
  sfCreateCode_def sfMemoType_def sfMemoData_def sfMemoFormat_def sfMultiSignature_def sfAccount_def
  sfOwner_def sfDestination_def sfIssuer_def sfTarget_def sfRegularKey_def sfPaths_def sfIndexes_def
  sfHashes_def sfAmendments_def sfTransactionMetaData_def sfCreatedNode_def sfDeletedNode_def
  sfModifiedNode_def sfPreviousFields_def sfFinalFields_def sfNewFields_def sfTemplateEntry_def sfMemo_def
  sfSignerEntry_def sfSigningAccount_def sfSigningFor_def sfMajority_def sfSigningAccounts_def
  sfMultiSigners_def sfSignerEntries_def sfTemplate_def sfNecessary_def sfSufficient_def sfAffectedNodes_def
  sfMemos_def sfMajorities_def

section \<open>Lookup by code\<close>

definition SField_getField :: "int \<Rightarrow> (led_error, SField) result" where
  "SField_getField code = (case find (\<lambda>f. fieldCode f = code) knownFields of
     Some f \<Rightarrow> Inr f
   | None \<Rightarrow>
       let type = drop_bit 16 code; field = code AND 0xffff in
       if field > 255 \<or> code < 0 then Inr sfInvalid
       else if type \<in> set [STI_UINT16, STI_UINT32, STI_UINT64, STI_HASH128, STI_HASH256, STI_AMOUNT, STI_VL,
         STI_ACCOUNT, STI_OBJECT, STI_ARRAY, STI_UINT8, STI_HASH160, STI_PATHSET, STI_VECTOR256]
       then SField_dynamic type field
       else Inr sfInvalid)"

definition SField_getField2 :: "int \<Rightarrow> int \<Rightarrow> (led_error, SField) result" where
  "SField_getField2 type val = SField_getField (field_code type val)"

section \<open>Codes identify fields\<close>

lemma known_codes: "distinct (map fieldCode knownFields)"
  by (simp add: knownFields_def known_field_defs SField_named_def SField_special_def field_code_def)

lemma find_distinct: "distinct (map g xs) \<Longrightarrow> x \<in> set xs \<Longrightarrow> find (\<lambda>y. g y = g x) xs = Some x"
  by (induction xs) auto

lemma getField_known: "f \<in> set knownFields \<Longrightarrow> SField_getField (fieldCode f) = Inr f"
  by (simp add: SField_getField_def find_distinct [OF known_codes])

definition on_wire :: "SField \<Rightarrow> bool" where
  "on_wire f = (0 < fieldType f \<and> fieldType f < 256 \<and> 0 < fieldValue f \<and> fieldValue f < 256)"

lemma known_consistent:
  "\<forall>f \<in> set knownFields. on_wire f \<longrightarrow> fieldCode f = field_code (fieldType f) (fieldValue f) \<and> 0 < fieldCode f \<and>
     (fieldType f, fieldValue f) \<notin> {(STI_OBJECT, 1), (STI_ARRAY, 1)}"
  by (simp add: knownFields_def known_field_defs SField_named_def SField_special_def field_code_def on_wire_def)

end
