(* ===== verification/STAmount.thy ===== *)
theory STAmount
  imports SField
begin

text \<open>
  Amounts (\<open>src/ripple/protocol/STAmount.h\<close> and \<open>impl/STAmount.cpp\<close>): native amounts are
  counts of drops, issued amounts a decimal mantissa and exponent. Modelled are the normal form, the binary
  form, comparison and arithmetic. Mantissas are 64 bit words that wrap around; exponents are integers far
  from the limits of \<open>int\<close>; an overflow of a signed 64 bit sum, undefined in C++, is an error.
  Multiplication and division use the big numbers of OpenSSL, which are a parameter.
\<close>

section \<open>Issues\<close>

type_synonym Currency = "160 word"
type_synonym AccountID = "160 word"

record Issue =
  iss_currency :: Currency
  iss_account :: AccountID

definition isXRP_currency :: "Currency \<Rightarrow> bool" where
  "isXRP_currency c = (c = 0)"

definition isXRP_account :: "AccountID \<Rightarrow> bool" where
  "isXRP_account a = (a = 0)"

definition xrpIssue :: Issue where
  "xrpIssue = \<lparr>iss_currency = 0, iss_account = 0\<rparr>"

definition noIssue :: Issue where
  "noIssue = \<lparr>iss_currency = 1, iss_account = 1\<rparr>"

section \<open>Amounts\<close>

record STAmount =
  am_issue :: Issue
  am_value :: "64 word"
  am_offset :: int
  am_native :: bool
  am_negative :: bool

abbreviation (input) cMinOffset :: int where "cMinOffset \<equiv> - 96"
abbreviation (input) cMaxOffset :: int where "cMaxOffset \<equiv> 80"
abbreviation (input) cMinValue :: "64 word" where "cMinValue \<equiv> 1000000000000000"
abbreviation (input) cMaxValue :: "64 word" where "cMaxValue \<equiv> 9999999999999999"
abbreviation (input) cMaxNativeN :: "64 word" where "cMaxNativeN \<equiv> 100000000000000000"
abbreviation (input) cNotNative :: "64 word" where "cNotNative \<equiv> 0x8000000000000000"
abbreviation (input) cPosNative :: "64 word" where "cPosNative \<equiv> 0x4000000000000000"
abbreviation (input) tenTo14 :: "64 word" where "tenTo14 \<equiv> 100000000000000"
abbreviation (input) tenTo17 :: "64 word" where "tenTo17 \<equiv> 100000000000000000"

definition isXRP_amount :: "STAmount \<Rightarrow> bool" where
  "isXRP_amount a = isXRP_currency (iss_currency (am_issue a))"

definition am_signum :: "STAmount \<Rightarrow> int" where
  "am_signum a = (if am_value a \<noteq> 0 then (if am_negative a then - 1 else 1) else 0)"

definition am_is_zero :: "STAmount \<Rightarrow> bool" where
  "am_is_zero a = (am_signum a = 0)"

section \<open>Normal form\<close>

text \<open>The loops of \<open>canonicalize\<close>.\<close>

function native_down :: "64 word \<Rightarrow> int \<Rightarrow> 64 word \<times> int" where
  "native_down v off = (if off < 0 then native_down (v div 10) (off + 1) else (v, off))"
  by pat_completeness auto
termination by (relation "measure (\<lambda>(v, off). nat (- off))") auto

function native_up :: "64 word \<Rightarrow> int \<Rightarrow> 64 word \<times> int" where
  "native_up v off = (if off > 0 then native_up (v * 10) (off - 1) else (v, off))"
  by pat_completeness auto
termination by (relation "measure (\<lambda>(v, off). nat off)") auto

function issued_up :: "64 word \<Rightarrow> int \<Rightarrow> 64 word \<times> int" where
  "issued_up v off = (if v < cMinValue \<and> off > cMinOffset then issued_up (v * 10) (off - 1) else (v, off))"
  by pat_completeness auto
termination by (relation "measure (\<lambda>(v, off). nat (off - cMinOffset))") auto

function issued_down :: "64 word \<Rightarrow> int \<Rightarrow> (led_error, 64 word \<times> int) result" where
  "issued_down v off =
     (if v > cMaxValue
      then if off \<ge> cMaxOffset then Inl (LThrow ''value overflow'') else issued_down (v div 10) (off + 1)
      else Inr (v, off))"
  by pat_completeness auto
termination by (relation "measure (\<lambda>(v, off). nat (cMaxOffset - off))") auto

declare native_down.simps [simp del] native_up.simps [simp del] issued_up.simps [simp del] issued_down.simps [simp del]

definition canonicalize :: "STAmount \<Rightarrow> (led_error, STAmount) result" where
  "canonicalize a =
     (if isXRP_amount a then
        (if am_value a = 0 then Inr (a\<lparr>am_native := True, am_offset := 0, am_negative := False\<rparr>)
         else
           let (v1, o1) = native_down (am_value a) (am_offset a);
               (v2, o2) = native_up v1 o1 in
           if v2 > cMaxNativeN then Inl (LThrow ''Native currency amount out of range'')
           else Inr (a\<lparr>am_native := True, am_value := v2, am_offset := o2\<rparr>))
      else if am_value a = 0 then Inr (a\<lparr>am_native := False, am_offset := - 100, am_negative := False\<rparr>)
      else
        let (v1, o1) = issued_up (am_value a) (am_offset a) in
        bind_r (issued_down v1 o1) (\<lambda>(v2, o2).
          if o2 < cMinOffset \<or> v2 < cMinValue
          then Inr (a\<lparr>am_native := False, am_value := 0, am_negative := False, am_offset := - 100\<rparr>)
          else if o2 > cMaxOffset then Inl (LThrow ''value overflow'')
          else
            bind_r (led_assert (v2 = 0 \<or> (v2 \<ge> cMinValue \<and> v2 \<le> cMaxValue))) (\<lambda>_.
            bind_r (led_assert (v2 = 0 \<or> (o2 \<ge> cMinOffset \<and> o2 \<le> cMaxOffset))) (\<lambda>_.
            bind_r (led_assert (v2 \<noteq> 0 \<or> o2 \<noteq> - 100)) (\<lambda>_.
              Inr (a\<lparr>am_native := False, am_value := v2, am_offset := o2\<rparr>))))))"

section \<open>Constructors\<close>

text \<open>The constructor that leaves the normal form to the caller initialises \<open>mIsNative\<close>; the others
  leave it to \<open>canonicalize\<close>, which always sets it.\<close>

definition STAmount_unchecked :: "Issue \<Rightarrow> 64 word \<Rightarrow> int \<Rightarrow> bool \<Rightarrow> bool \<Rightarrow> STAmount" where
  "STAmount_unchecked issue mantissa exponent native negative =
     \<lparr>am_issue = issue, am_value = mantissa, am_offset = exponent, am_native = native, am_negative = negative\<rparr>"

definition STAmount_of :: "Issue \<Rightarrow> 64 word \<Rightarrow> int \<Rightarrow> bool \<Rightarrow> (led_error, STAmount) result" where
  "STAmount_of issue mantissa exponent negative =
     canonicalize (STAmount_unchecked issue mantissa exponent False negative)"

text \<open>A count of drops; the constructor without a field name clears the sign of zero.\<close>

definition STAmount_drops :: "64 word \<Rightarrow> bool \<Rightarrow> STAmount" where
  "STAmount_drops mantissa negative = STAmount_unchecked xrpIssue mantissa 0 True (mantissa \<noteq> 0 \<and> negative)"

definition STAmount_named_drops :: "64 word \<Rightarrow> bool \<Rightarrow> STAmount" where
  "STAmount_named_drops mantissa negative = STAmount_unchecked xrpIssue mantissa 0 True negative"

definition STAmount_int64 :: "int \<Rightarrow> STAmount" where
  "STAmount_int64 v = STAmount_unchecked xrpIssue (word_of_int (if v < 0 then - v else v)) 0 True (v < 0)"

definition am_clear :: "STAmount \<Rightarrow> STAmount" where
  "am_clear a = a\<lparr>am_offset := (if am_native a then 0 else - 100), am_value := 0, am_negative := False\<rparr>"

definition am_setIssue :: "Issue \<Rightarrow> STAmount \<Rightarrow> STAmount" where
  "am_setIssue issue a = a\<lparr>am_issue := issue, am_native := isXRP_currency (iss_currency issue)\<rparr>"

definition am_negate :: "STAmount \<Rightarrow> STAmount" where
  "am_negate a = (if am_is_zero a then a else a\<lparr>am_negative := \<not> am_negative a\<rparr>)"

definition am_isDefault :: "STAmount \<Rightarrow> bool" where
  "am_isDefault a = (am_value a = 0 \<and> am_native a)"

definition isLegalNet :: "STAmount \<Rightarrow> bool" where
  "isLegalNet a = (\<not> am_native a \<or> am_value a \<le> cMaxNativeN)"

section \<open>Binary form\<close>

definition STAmount_read :: "SerialIter \<Rightarrow> (led_error, STAmount \<times> SerialIter) result" where
  "STAmount_read sit =
     bind_r (si_get64 sit) (\<lambda>(val, sit1).
       if val AND cNotNative = 0 then
         if val AND cPosNative \<noteq> 0
         then Inr (STAmount_unchecked xrpIssue (val AND NOT cPosNative) 0 True False, sit1)
         else if val = 0 then Inl (LThrow ''negative zero is not canonical'')
         else Inr (STAmount_unchecked xrpIssue val 0 True True, sit1)
       else
         bind_r (si_getBitString 20 sit1) (\<lambda>(currency, sit2).
         if isXRP_currency currency then Inl (LThrow ''invalid native currency'')
         else bind_r (si_getBitString 20 sit2) (\<lambda>(account, sit3).
         if isXRP_account account then Inl (LThrow ''invalid native account'')
         else
           let issue = \<lparr>iss_currency = currency, iss_account = account\<rparr>;
               offset = uint (drop_bit 54 val);
               mant = val AND NOT (push_bit 54 1023) in
           if mant \<noteq> 0 then
             let isNegative = (offset AND 256 = 0); off = (offset AND 255) - 97 in
             if mant < cMinValue \<or> mant > cMaxValue \<or> off < cMinOffset \<or> off > cMaxOffset
             then Inl (LThrow ''invalid currency value'')
             else bind_r (STAmount_of issue mant off isNegative) (\<lambda>a. Inr (a, sit3))
           else if offset \<noteq> 512 then Inl (LThrow ''invalid currency value'')
           else bind_r (STAmount_of issue 0 0 False) (\<lambda>a. Inr (a, sit3)))))"

definition STAmount_add :: "STAmount \<Rightarrow> Serializer \<Rightarrow> (led_error, Serializer) result" where
  "STAmount_add a s =
     (if am_native a then
        bind_r (led_assert (am_offset a = 0)) (\<lambda>_.
          Inr (snd (add64 (if \<not> am_negative a then am_value a OR cPosNative else am_value a) s)))
      else
        let s1 = snd (add64
              (if am_is_zero a then cNotNative
               else if am_negative a then am_value a OR push_bit 54 (word_of_int (am_offset a + 512 + 97))
               else am_value a OR push_bit 54 (word_of_int (am_offset a + 512 + 256 + 97))) s) in
        Inr (snd (add160 (iss_account (am_issue a)) (snd (add160 (iss_currency (am_issue a)) s1)))))"

section \<open>Comparison\<close>

definition areComparable :: "STAmount \<Rightarrow> STAmount \<Rightarrow> bool" where
  "areComparable v1 v2 =
     (am_native v1 = am_native v2 \<and> iss_currency (am_issue v1) = iss_currency (am_issue v2))"

definition am_eq :: "STAmount \<Rightarrow> STAmount \<Rightarrow> bool" where
  "am_eq lhs rhs = (areComparable lhs rhs \<and> am_negative lhs = am_negative rhs \<and>
     am_offset lhs = am_offset rhs \<and> am_value lhs = am_value rhs)"

definition am_less :: "STAmount \<Rightarrow> STAmount \<Rightarrow> (led_error, bool) result" where
  "am_less lhs rhs =
     (if \<not> areComparable lhs rhs then Inl (LThrow ''Can't compare amounts that are't comparable!'')
      else if am_negative lhs \<noteq> am_negative rhs then Inr (am_negative lhs)
      else if am_value lhs = 0 then
        (if am_negative rhs then Inr False else Inr (am_value rhs \<noteq> 0))
      else if am_value rhs = 0 then Inr False
      else if am_offset lhs > am_offset rhs then Inr (am_negative lhs)
      else if am_offset lhs < am_offset rhs then Inr (\<not> am_negative lhs)
      else if am_value lhs > am_value rhs then Inr (am_negative lhs)
      else if am_value lhs < am_value rhs then Inr (\<not> am_negative lhs)
      else Inr False)"

definition am_uminus :: "STAmount \<Rightarrow> STAmount" where
  "am_uminus v = (if am_value v = 0 then v
     else STAmount_unchecked (am_issue v) (am_value v) (am_offset v) (am_native v) (\<not> am_negative v))"

section \<open>Sums\<close>

definition int64 :: "int \<Rightarrow> (led_error, int) result" where
  "int64 x = (if - (2 ^ 63) \<le> x \<and> x < 2 ^ 63 then Inr x else Inl LRange)"

definition getSNValue :: "STAmount \<Rightarrow> (led_error, int) result" where
  "getSNValue a =
     (if \<not> am_native a then Inl (LThrow ''amount is not native!'')
      else let ret = sint (am_value a) in
        bind_r (led_assert (word_of_int ret = am_value a)) (\<lambda>_.
          if am_negative a then int64 (- ret) else Inr ret))"

text \<open>Divide by ten until the exponent is that of the other amount.\<close>

function align_down :: "int \<Rightarrow> int \<Rightarrow> int \<Rightarrow> int \<times> int" where
  "align_down vv ov target = (if ov < target then align_down (cdiv vv 10) (ov + 1) target else (vv, ov))"
  by pat_completeness auto
termination by (relation "measure (\<lambda>(vv, ov, target). nat (target - ov))") auto

declare align_down.simps [simp del]

definition am_plus :: "STAmount \<Rightarrow> STAmount \<Rightarrow> (led_error, STAmount) result" where
  "am_plus v1 v2 =
     (if \<not> areComparable v1 v2 then Inl (LThrow ''Can't add amounts that are't comparable!'')
      else if am_is_zero v2 then Inr v1
      else if am_is_zero v1 then STAmount_of (am_issue v1) (am_value v2) (am_offset v2) (am_negative v2)
      else if am_native v1 then
        bind_r (getSNValue v1) (\<lambda>a. bind_r (getSNValue v2) (\<lambda>b. bind_r (int64 (a + b)) (\<lambda>x. Inr (STAmount_int64 x))))
      else
        let vv1 = sint (am_value v1); vv2 = sint (am_value v2) in
        bind_r (if am_negative v1 then int64 (- vv1) else Inr vv1) (\<lambda>vv1.
        bind_r (if am_negative v2 then int64 (- vv2) else Inr vv2) (\<lambda>vv2.
          let (vv1, ov1) = align_down vv1 (am_offset v1) (am_offset v2);
              (vv2, ov2) = align_down vv2 (am_offset v2) ov1 in
          bind_r (int64 (vv1 + vv2)) (\<lambda>fv.
            if fv \<ge> - 10 \<and> fv \<le> 10 then STAmount_of (am_issue v1) 0 0 False
            else if fv \<ge> 0 then STAmount_of (am_issue v1) (word_of_int fv) ov1 False
            else STAmount_of (am_issue v1) (word_of_int (- fv)) ov1 True))))"

definition am_minus :: "STAmount \<Rightarrow> STAmount \<Rightarrow> (led_error, STAmount) result" where
  "am_minus v1 v2 = am_plus v1 (am_uminus v2)"

section \<open>Products and quotients\<close>

text \<open>
  The big numbers of OpenSSL: addition of and multiplication and division by a word, where None is a return
  value other than 1 and division returns the remainder, or all ones on failure; the size in bytes, and the
  conversion to a word.
\<close>

record 'n BN =
  bn_zero :: 'n
  bn_add_word :: "'n \<Rightarrow> 64 word \<Rightarrow> 'n option"
  bn_mul_word :: "'n \<Rightarrow> 64 word \<Rightarrow> 'n option"
  bn_div_word :: "'n \<Rightarrow> 64 word \<Rightarrow> 'n \<times> 64 word"
  bn_num_bytes :: "'n \<Rightarrow> nat"
  bn_get_word :: "'n \<Rightarrow> 64 word"

text \<open>Multiply a native mantissa by ten until it has the size of an issued one; zero would never get there.\<close>

partial_function (option) into_range :: "64 word \<Rightarrow> int \<Rightarrow> (64 word \<times> int) option" where
  "into_range v off = (if v < cMinValue then into_range (v * 10) (off - 1) else Some (v, off))"

declare into_range.simps [code]

definition scaled :: "STAmount \<Rightarrow> (led_error, 64 word \<times> int) result" where
  "scaled a =
     (if am_native a then
        (case into_range (am_value a) (am_offset a) of None \<Rightarrow> Inl LDiverges | Some r \<Rightarrow> Inr r)
      else Inr (am_value a, am_offset a))"

definition bn_muldiv :: "'n BN \<Rightarrow> 64 word \<Rightarrow> 64 word \<Rightarrow> 64 word option \<Rightarrow> 64 word \<Rightarrow> (led_error, 64 word) result" where
  "bn_muldiv bn x y extra d =
     (case bn_add_word bn (bn_zero bn) x of None \<Rightarrow> Inl (LThrow ''internal bn error'')
      | Some v1 \<Rightarrow> (case bn_mul_word bn v1 y of None \<Rightarrow> Inl (LThrow ''internal bn error'')
      | Some v2 \<Rightarrow>
          let v3 = (case extra of None \<Rightarrow> v2 | Some w \<Rightarrow> (case bn_add_word bn v2 w of None \<Rightarrow> v2 | Some v \<Rightarrow> v));
              (v4, rem) = bn_div_word bn v3 d in
          if rem = - 1 then Inl (LThrow ''internal bn error'')
          else bind_r (led_assert (bn_num_bytes bn v4 \<le> 64)) (\<lambda>_. Inr (bn_get_word bn v4))))"

definition am_divide :: "'n BN \<Rightarrow> STAmount \<Rightarrow> STAmount \<Rightarrow> Issue \<Rightarrow> (led_error, STAmount) result" where
  "am_divide bn num den issue =
     (if am_is_zero den then Inl (LThrow ''division by zero'')
      else if am_is_zero num then STAmount_of issue 0 0 False
      else
        bind_r (scaled num) (\<lambda>(numVal, numOffset).
        bind_r (scaled den) (\<lambda>(denVal, denOffset).
        bind_r (bn_muldiv bn numVal tenTo17 None denVal) (\<lambda>v.
          STAmount_of issue (v + 5) (numOffset - denOffset - 17) (am_negative num \<noteq> am_negative den)))))"

text \<open>The product of two counts of drops, which both kinds of multiplication share.\<close>

definition native_product :: "STAmount \<Rightarrow> STAmount \<Rightarrow> (led_error, STAmount) result" where
  "native_product v1 v2 =
     bind_r (getSNValue v1) (\<lambda>a. bind_r (getSNValue v2) (\<lambda>b.
       let minV = (word_of_int (if a < b then a else b) :: 64 word);
           maxV = (word_of_int (if a < b then b else a) :: 64 word) in
       if minV > 3000000000 then Inl (LThrow ''Native value overflow'')
       else if drop_bit 32 maxV * minV > 2095475792 then Inl (LThrow ''Native value overflow'')
       else Inr (STAmount_named_drops (minV * maxV) False)))"

definition am_multiply :: "'n BN \<Rightarrow> STAmount \<Rightarrow> STAmount \<Rightarrow> Issue \<Rightarrow> (led_error, STAmount) result" where
  "am_multiply bn v1 v2 issue =
     (if am_is_zero v1 \<or> am_is_zero v2 then STAmount_of issue 0 0 False
      else if am_native v1 \<and> am_native v2 \<and> isXRP_currency (iss_currency issue) then native_product v1 v2
      else
        bind_r (scaled v1) (\<lambda>(value1, offset1).
        bind_r (scaled v2) (\<lambda>(value2, offset2).
        bind_r (bn_muldiv bn value1 value2 None tenTo14) (\<lambda>v.
          STAmount_of issue (v + 7) (offset1 + offset2 + 14) (am_negative v1 \<noteq> am_negative v2)))))"

text \<open>Rounding away from zero before \<open>canonicalize\<close> cuts digits off.\<close>

function round_native_loop :: "64 word \<Rightarrow> int \<Rightarrow> nat \<Rightarrow> 64 word \<times> int \<times> nat" where
  "round_native_loop v off loops = (if off < - 1 then round_native_loop (v div 10) (off + 1) (loops + 1) else (v, off, loops))"
  by pat_completeness auto
termination by (relation "measure (\<lambda>(v, off, loops). nat (- off))") auto

function round_issued_loop :: "64 word \<Rightarrow> int \<Rightarrow> 64 word \<times> int" where
  "round_issued_loop v off = (if v > 10 * cMaxValue then round_issued_loop (v div 10) (off + 1) else (v, off))"
  by pat_completeness auto
termination
proof (relation "measure (\<lambda>(v, off). unat v)")
  fix v :: "64 word" and off :: int
  assume "v > 10 * cMaxValue"
  then have "0 < unat v" by (simp add: word_less_nat_alt)
  then have "unat v div 10 < unat v" by simp
  then show "((v div 10, off + 1), v, off) \<in> measure (\<lambda>(v, off). unat v)" by (simp add: unat_div)
qed simp

declare round_native_loop.simps [simp del] round_issued_loop.simps [simp del]

definition canonicalizeRound :: "bool \<Rightarrow> 64 word \<Rightarrow> int \<Rightarrow> bool \<Rightarrow> 64 word \<times> int" where
  "canonicalizeRound native val offset roundUp =
     (if \<not> roundUp then (val, offset)
      else if native then
        (if offset < 0 then
           let (v, off, loops) = round_native_loop val offset 0 in
           ((v + (if loops \<ge> 2 then 9 else 10)) div 10, off + 1)
         else (val, offset))
      else if val > cMaxValue then
        let (v, off) = round_issued_loop val offset in ((v + 9) div 10, off + 1)
      else (val, offset))"

definition mulRound :: "'n BN \<Rightarrow> STAmount \<Rightarrow> STAmount \<Rightarrow> Issue \<Rightarrow> bool \<Rightarrow> (led_error, STAmount) result" where
  "mulRound bn v1 v2 issue roundUp =
     (if am_is_zero v1 \<or> am_is_zero v2 then STAmount_of issue 0 0 False
      else if am_native v1 \<and> am_native v2 \<and> isXRP_currency (iss_currency issue) then native_product v1 v2
      else
        bind_r (scaled v1) (\<lambda>(value1, offset1).
        bind_r (scaled v2) (\<lambda>(value2, offset2).
          let resultNegative = (am_negative v1 \<noteq> am_negative v2); up = (resultNegative \<noteq> roundUp) in
          bind_r (bn_muldiv bn value1 value2 (if up then Some (tenTo14 - 1) else None) tenTo14) (\<lambda>v.
            let (amount, offset) = canonicalizeRound (isXRP_currency (iss_currency issue)) v (offset1 + offset2 + 14) up in
            STAmount_of issue amount offset resultNegative))))"

definition divRound :: "'n BN \<Rightarrow> STAmount \<Rightarrow> STAmount \<Rightarrow> Issue \<Rightarrow> bool \<Rightarrow> (led_error, STAmount) result" where
  "divRound bn num den issue roundUp =
     (if am_is_zero den then Inl (LThrow ''division by zero'')
      else if am_is_zero num then STAmount_of issue 0 0 False
      else
        bind_r (scaled num) (\<lambda>(numVal, numOffset).
        bind_r (scaled den) (\<lambda>(denVal, denOffset).
          let resultNegative = (am_negative num \<noteq> am_negative den); up = (resultNegative \<noteq> roundUp) in
          bind_r (bn_muldiv bn numVal tenTo17 (if up then Some (denVal - 1) else None) denVal) (\<lambda>v.
            let (amount, offset) = canonicalizeRound (isXRP_currency (iss_currency issue)) v (numOffset - denOffset - 17) up in
            STAmount_of issue amount offset resultNegative))))"

section \<open>Rates\<close>

text \<open>An exception inside \<open>getRate\<close> is caught and gives the rate of a worthless offer.\<close>

definition getRate :: "'n BN \<Rightarrow> STAmount \<Rightarrow> STAmount \<Rightarrow> (led_error, 64 word) result" where
  "getRate bn offerOut offerIn =
     (if am_is_zero offerOut then Inr 0
      else case am_divide bn offerIn offerOut noIssue of
        Inl (LThrow _) \<Rightarrow> Inr 0
      | Inl e \<Rightarrow> Inl e
      | Inr r \<Rightarrow>
          if am_is_zero r then Inr 0
          else bind_r (led_assert (am_offset r \<ge> - 100 \<and> am_offset r \<le> 155)) (\<lambda>_.
            Inr (push_bit 56 (word_of_int (am_offset r + 100)) OR am_value r)))"

definition amountFromRate :: "64 word \<Rightarrow> (led_error, STAmount) result" where
  "amountFromRate uRate = STAmount_of noIssue uRate (- 9) False"

definition amountFromQuality :: "64 word \<Rightarrow> (led_error, STAmount) result" where
  "amountFromQuality rate =
     (if rate = 0 then STAmount_of noIssue 0 0 False
      else STAmount_of noIssue (rate AND NOT (push_bit 56 255)) (uint (drop_bit 56 rate) - 100) False)"

end
