(* ===== verification/STObject.thy ===== *)
theory STObject
  imports STAmount OrderedMap
begin

text \<open>
  Serialized objects (\<open>src/ripple/protocol/STObject.h\<close>, \<open>impl/STObject.cpp\<close>,
  \<open>STVar.cpp\<close>, \<open>STArray.cpp\<close>, \<open>STPathSet.cpp\<close>, \<open>STVector256.cpp\<close>,
  \<open>SOTemplate.h\<close>, \<open>InnerObjectFormats.cpp\<close>): typed fields, templates, access to fields,
  and the canonical binary form with its parser. The recursion of the parser is bounded by fuel; that the
  number of bytes suffices is proved in \<open>STObject_Parse\<close>.
\<close>

section \<open>Templates\<close>

datatype SOE_Flags = SOE_REQUIRED | SOE_OPTIONAL | SOE_DEFAULT

type_synonym SOTemplate = "(SField \<times> SOE_Flags) list"

text \<open>
  The position of a field, None for the value -1. The source numbers the fields in the order in which they are
  created and indexes a table by that number, which has room for the fields that exist when the template is built;
  the code of a field identifies it as well. A field that the parser creates later, for an unknown code, is in no
  template; looking it up fails an assertion of \<open>getIndex\<close> in the source and gives None here.
\<close>

fun field_position :: "int \<Rightarrow> (SField \<times> 'a) list \<Rightarrow> nat option" where
  "field_position c [] = None"
| "field_position c ((f, _) # r) = (if fieldCode f = c then Some 0 else map_option Suc (field_position c r))"

definition SOTemplate_getIndex :: "SField \<Rightarrow> SOTemplate \<Rightarrow> nat option" where
  "SOTemplate_getIndex f t = field_position (fieldCode f) t"

definition SOTemplate_push_back :: "SField \<Rightarrow> SOE_Flags \<Rightarrow> SOTemplate \<Rightarrow> (led_error, SOTemplate) result" where
  "SOTemplate_push_back f flags t = bind_r (led_assert (SOTemplate_getIndex f t = None)) (\<lambda>_. Inr (t @ [(f, flags)]))"

section \<open>Path elements\<close>

record STPathElement =
  pe_type :: "32 word"
  pe_account :: AccountID
  pe_currency :: Currency
  pe_issuer :: AccountID

abbreviation (input) typeNone :: "32 word" where "typeNone \<equiv> 0"
abbreviation (input) typeAccount :: "32 word" where "typeAccount \<equiv> 1"
abbreviation (input) typeCurrency :: "32 word" where "typeCurrency \<equiv> 0x10"
abbreviation (input) typeIssuer :: "32 word" where "typeIssuer \<equiv> 0x20"
abbreviation (input) typeBoundary :: "32 word" where "typeBoundary \<equiv> 0xff"
abbreviation (input) typeAll :: "32 word" where "typeAll \<equiv> 0x31"

definition STPathElement_of :: "AccountID \<Rightarrow> Currency \<Rightarrow> AccountID \<Rightarrow> bool \<Rightarrow> STPathElement" where
  "STPathElement_of account currency issuer forceCurrency =
     (let t1 = (if \<not> isXRP_account account then typeNone OR typeAccount else typeNone);
          t2 = (if forceCurrency \<or> \<not> isXRP_currency currency then t1 OR typeCurrency else t1);
          t3 = (if \<not> isXRP_account issuer then t2 OR typeIssuer else t2) in
      \<lparr>pe_type = t3, pe_account = account, pe_currency = currency, pe_issuer = issuer\<rparr>)"

type_synonym STPath = "STPathElement list"

section \<open>Values and objects\<close>

text \<open>
  \<open>STVar\<close> holds an object of a class derived from \<open>STBase\<close>; an \<open>STBase\<close> itself is an
  optional field that is absent. The name of a field stands beside its value. An object keeps a pointer to
  its template, which is null for a free object.
\<close>

datatype STBase =
    STNotPresent
  | STUInt8 "8 word" | STUInt16 "16 word" | STUInt32 "32 word" | STUInt64 "64 word"
  | STHash128 "128 word" | STHash160 "160 word" | STHash256 uint256
  | STAmt STAmount | STBlob Blob | STAccount Blob | STPathSet "STPath list" | STVector256 "uint256 list"
  | STObj STObject | STArray "(SField \<times> STObject) list"
and STObject = STObject (obj_type: "SOTemplate option") (obj_v: "(SField \<times> STBase) list")

fun getSType :: "STBase \<Rightarrow> int" where
  "getSType STNotPresent = STI_NOTPRESENT"
| "getSType (STUInt8 _) = STI_UINT8" | "getSType (STUInt16 _) = STI_UINT16" | "getSType (STUInt32 _) = STI_UINT32"
| "getSType (STUInt64 _) = STI_UINT64" | "getSType (STHash128 _) = STI_HASH128" | "getSType (STHash160 _) = STI_HASH160"
| "getSType (STHash256 _) = STI_HASH256" | "getSType (STAmt _) = STI_AMOUNT" | "getSType (STBlob _) = STI_VL"
| "getSType (STAccount _) = STI_ACCOUNT" | "getSType (STPathSet _) = STI_PATHSET" | "getSType (STVector256 _) = STI_VECTOR256"
| "getSType (STObj _) = STI_OBJECT" | "getSType (STArray _) = STI_ARRAY"

fun st_isDefault :: "STBase \<Rightarrow> bool" where
  "st_isDefault STNotPresent = True"
| "st_isDefault (STUInt8 x) = (x = 0)" | "st_isDefault (STUInt16 x) = (x = 0)" | "st_isDefault (STUInt32 x) = (x = 0)"
| "st_isDefault (STUInt64 x) = (x = 0)" | "st_isDefault (STHash128 x) = (x = 0)" | "st_isDefault (STHash160 x) = (x = 0)"
| "st_isDefault (STHash256 x) = (x = 0)" | "st_isDefault (STAmt a) = am_isDefault a" | "st_isDefault (STBlob b) = (b = [])"
| "st_isDefault (STAccount b) = (b = [])" | "st_isDefault (STPathSet ps) = (ps = [])" | "st_isDefault (STVector256 vs) = (vs = [])"
| "st_isDefault (STObj ob) = (obj_v ob = [])" | "st_isDefault (STArray es) = (es = [])"

text \<open>\<open>STVar (defaultObject, name)\<close>\<close>

definition defaultObject :: "SField \<Rightarrow> (led_error, STBase) result" where
  "defaultObject name =
     (let t = fieldType name in
      if t = STI_NOTPRESENT then Inr STNotPresent
      else if t = STI_UINT8 then Inr (STUInt8 0)
      else if t = STI_UINT16 then Inr (STUInt16 0)
      else if t = STI_UINT32 then Inr (STUInt32 0)
      else if t = STI_UINT64 then Inr (STUInt64 0)
      else if t = STI_AMOUNT then Inr (STAmt (STAmount_named_drops 0 False))
      else if t = STI_HASH128 then Inr (STHash128 0)
      else if t = STI_HASH160 then Inr (STHash160 0)
      else if t = STI_HASH256 then Inr (STHash256 0)
      else if t = STI_VECTOR256 then Inr (STVector256 [])
      else if t = STI_VL then Inr (STBlob [])
      else if t = STI_ACCOUNT then Inr (STAccount [])
      else if t = STI_PATHSET then Inr (STPathSet [])
      else if t = STI_OBJECT then Inr (STObj (STObject None []))
      else if t = STI_ARRAY then Inr (STArray [])
      else Inl (LThrow ''Unknown object type''))"

section \<open>Applying a template\<close>

text \<open>\<open>STObject::set (SOTemplate)\<close>\<close>

fun set_template_loop :: "SOTemplate \<Rightarrow> (led_error, (SField \<times> STBase) list) result" where
  "set_template_loop [] = Inr []"
| "set_template_loop ((f, flags) # t) =
     bind_r (if flags \<noteq> SOE_REQUIRED then Inr STNotPresent else defaultObject f) (\<lambda>v.
     bind_r (set_template_loop t) (\<lambda>vs. Inr ((f, v) # vs)))"

definition STObject_set_template :: "SOTemplate \<Rightarrow> (led_error, STObject) result" where
  "STObject_set_template t = bind_r (set_template_loop t) (\<lambda>vs. Inr (STObject (Some t) vs))"

text \<open>
  \<open>setType\<close> moves the fields into the order of the template. The result is whether the object fits:
  no required field is missing, no default field has its default, and what is left over can be discarded.
\<close>

fun setType_loop :: "SOTemplate \<Rightarrow> (SField \<times> STBase) list \<Rightarrow> bool \<times> (SField \<times> STBase) list \<times> (SField \<times> STBase) list" where
  "setType_loop [] vs = (True, [], vs)"
| "setType_loop ((f, flags) # t) vs =
     (case field_position (fieldCode f) vs of
        Some i \<Rightarrow>
          (let (valid, v, rest) = setType_loop t (take i vs @ drop (Suc i) vs) in
           (valid \<and> \<not> (flags = SOE_DEFAULT \<and> st_isDefault (snd (vs ! i))), vs ! i # v, rest))
      | None \<Rightarrow>
          (let (valid, v, rest) = setType_loop t vs in
           (valid \<and> flags \<noteq> SOE_REQUIRED, (f, STNotPresent) # v, rest)))"

definition STObject_setType :: "SOTemplate \<Rightarrow> STObject \<Rightarrow> bool \<times> STObject" where
  "STObject_setType t ob =
     (let (valid, v, rest) = setType_loop t (obj_v ob) in
      (valid \<and> (\<forall>(f, _) \<in> set rest. isDiscardable f), STObject (Some t) v))"

text \<open>\<open>InnerObjectFormats\<close>\<close>

definition innerObjectFormats :: "(int \<times> SOTemplate) list" where
  "innerObjectFormats =
     [(fieldCode sfSignerEntry, [(sfAccount, SOE_REQUIRED), (sfSignerWeight, SOE_REQUIRED)]),
      (fieldCode sfSigningFor, [(sfAccount, SOE_REQUIRED), (sfSigningAccounts, SOE_REQUIRED)]),
      (fieldCode sfSigningAccount,
         [(sfAccount, SOE_REQUIRED), (sfSigningPubKey, SOE_REQUIRED), (sfMultiSignature, SOE_REQUIRED)])]"

definition findSOTemplateBySField :: "SField \<Rightarrow> SOTemplate option" where
  "findSOTemplateBySField f = map_of innerObjectFormats (fieldCode f)"

datatype ResultOfSetTypeFromSField = typeSetFail | typeIsSet | noTemplate

definition setTypeFromSField :: "SField \<Rightarrow> STObject \<Rightarrow> ResultOfSetTypeFromSField \<times> STObject" where
  "setTypeFromSField f ob = (case findSOTemplateBySField f of
     None \<Rightarrow> (noTemplate, ob)
   | Some t \<Rightarrow> (let (valid, ob') = STObject_setType t ob in (if valid then typeIsSet else typeSetFail, ob')))"

section \<open>Access to fields\<close>

definition isFree :: "STObject \<Rightarrow> bool" where
  "isFree ob = (obj_type ob = None)"

definition getFieldIndex :: "SField \<Rightarrow> STObject \<Rightarrow> nat option" where
  "getFieldIndex f ob = (case obj_type ob of
     Some t \<Rightarrow> SOTemplate_getIndex f t
   | None \<Rightarrow> field_position (fieldCode f) (obj_v ob))"

text \<open>\<open>v_[index]\<close>: an index past the end is undefined.\<close>

definition obj_at :: "nat \<Rightarrow> STObject \<Rightarrow> (led_error, SField \<times> STBase) result" where
  "obj_at i ob = (if i < length (obj_v ob) then Inr (obj_v ob ! i) else Inl LRange)"

definition obj_put :: "nat \<Rightarrow> STBase \<Rightarrow> STObject \<Rightarrow> STObject" where
  "obj_put i v ob = STObject (obj_type ob) ((obj_v ob)[i := (fst (obj_v ob ! i), v)])"

definition peekAtPField :: "SField \<Rightarrow> STObject \<Rightarrow> (led_error, STBase option) result" where
  "peekAtPField f ob = (case getFieldIndex f ob of
     None \<Rightarrow> Inr None
   | Some i \<Rightarrow> bind_r (obj_at i ob) (\<lambda>(_, v). Inr (Some v)))"

definition isFieldPresent :: "SField \<Rightarrow> STObject \<Rightarrow> (led_error, bool) result" where
  "isFieldPresent f ob = (case getFieldIndex f ob of
     None \<Rightarrow> Inr False
   | Some i \<Rightarrow> bind_r (obj_at i ob) (\<lambda>(_, v). Inr (getSType v \<noteq> STI_NOTPRESENT)))"

text \<open>\<open>getPField (field, true)\<close>: the object with the field, and its index.\<close>

definition getPField_create :: "SField \<Rightarrow> STObject \<Rightarrow> (led_error, nat option \<times> STObject) result" where
  "getPField_create f ob = (case getFieldIndex f ob of
     None \<Rightarrow>
       if isFree ob
       then bind_r (defaultObject f) (\<lambda>v. Inr (Some (length (obj_v ob)), STObject None (obj_v ob @ [(f, v)])))
       else Inr (None, ob)
   | Some i \<Rightarrow> Inr (Some i, ob))"

definition makeFieldPresent :: "SField \<Rightarrow> STObject \<Rightarrow> (led_error, nat \<times> STObject) result" where
  "makeFieldPresent f ob = (case getFieldIndex f ob of
     None \<Rightarrow>
       if \<not> isFree ob then Inl (LThrow ''Field not found'')
       else Inr (length (obj_v ob), STObject None (obj_v ob @ [(f, STNotPresent)]))
   | Some i \<Rightarrow>
       bind_r (obj_at i ob) (\<lambda>(name, v).
         if getSType v \<noteq> STI_NOTPRESENT then Inr (i, ob)
         else bind_r (defaultObject name) (\<lambda>d. Inr (i, obj_put i d ob))))"

definition makeFieldAbsent :: "SField \<Rightarrow> STObject \<Rightarrow> (led_error, STObject) result" where
  "makeFieldAbsent f ob = (case getFieldIndex f ob of
     None \<Rightarrow> Inl (LThrow ''Field not found'')
   | Some i \<Rightarrow>
       bind_r (obj_at i ob) (\<lambda>(_, v).
         if getSType v = STI_NOTPRESENT then Inr ob else Inr (obj_put i STNotPresent ob)))"

definition delField :: "SField \<Rightarrow> STObject \<Rightarrow> bool \<times> STObject" where
  "delField f ob = (case getFieldIndex f ob of
     None \<Rightarrow> (False, ob)
   | Some i \<Rightarrow> (True, STObject (obj_type ob) (take i (obj_v ob) @ drop (Suc i) (obj_v ob))))"

text \<open>
  \<open>getFieldByValue\<close> and \<open>getFieldByConstRef\<close>: \<open>cast\<close> is the \<open>dynamic_cast\<close> and
  \<open>absent\<close> the value of an optional field that is not present.
\<close>

definition getFieldBy :: "(STBase \<Rightarrow> 'v option) \<Rightarrow> 'v \<Rightarrow> SField \<Rightarrow> STObject \<Rightarrow> (led_error, 'v) result" where
  "getFieldBy cast absent f ob =
     bind_r (peekAtPField f ob) (\<lambda>rf. case rf of
       None \<Rightarrow> Inl (LThrow ''Field not found'')
     | Some v \<Rightarrow>
         if getSType v = STI_NOTPRESENT then Inr absent
         else (case cast v of None \<Rightarrow> Inl (LThrow ''Wrong field type'') | Some x \<Rightarrow> Inr x))"

text \<open>
  \<open>setFieldUsingSetValue\<close> and \<open>setFieldUsingAssignment\<close>: \<open>upd\<close> is the \<open>dynamic_cast\<close> of
  the present value together with the new value.
\<close>

definition setFieldBy :: "(STBase \<Rightarrow> STBase option) \<Rightarrow> SField \<Rightarrow> STObject \<Rightarrow> (led_error, STObject) result" where
  "setFieldBy upd f ob =
     bind_r (getPField_create f ob) (\<lambda>(rf, ob1). case rf of
       None \<Rightarrow> Inl (LThrow ''Field not found'')
     | Some i \<Rightarrow>
         bind_r (obj_at i ob1) (\<lambda>(_, old).
         bind_r (if getSType old = STI_NOTPRESENT then makeFieldPresent f ob1 else Inr (i, ob1)) (\<lambda>(j, ob2).
         bind_r (obj_at j ob2) (\<lambda>(_, cur). case upd cur of
           Some v \<Rightarrow> Inr (obj_put j v ob2)
         | None \<Rightarrow> Inl (LThrow ''Wrong field type'')))))"

definition getFieldU8 :: "SField \<Rightarrow> STObject \<Rightarrow> (led_error, 8 word) result" where
  "getFieldU8 = getFieldBy (\<lambda>v. case v of STUInt8 x \<Rightarrow> Some x | _ \<Rightarrow> None) 0"

definition getFieldU16 :: "SField \<Rightarrow> STObject \<Rightarrow> (led_error, 16 word) result" where
  "getFieldU16 = getFieldBy (\<lambda>v. case v of STUInt16 x \<Rightarrow> Some x | _ \<Rightarrow> None) 0"

definition getFieldU32 :: "SField \<Rightarrow> STObject \<Rightarrow> (led_error, 32 word) result" where
  "getFieldU32 = getFieldBy (\<lambda>v. case v of STUInt32 x \<Rightarrow> Some x | _ \<Rightarrow> None) 0"

definition getFieldU64 :: "SField \<Rightarrow> STObject \<Rightarrow> (led_error, 64 word) result" where
  "getFieldU64 = getFieldBy (\<lambda>v. case v of STUInt64 x \<Rightarrow> Some x | _ \<Rightarrow> None) 0"

definition getFieldH128 :: "SField \<Rightarrow> STObject \<Rightarrow> (led_error, 128 word) result" where
  "getFieldH128 = getFieldBy (\<lambda>v. case v of STHash128 x \<Rightarrow> Some x | _ \<Rightarrow> None) 0"

definition getFieldH256 :: "SField \<Rightarrow> STObject \<Rightarrow> (led_error, uint256) result" where
  "getFieldH256 = getFieldBy (\<lambda>v. case v of STHash256 x \<Rightarrow> Some x | _ \<Rightarrow> None) 0"

definition getFieldH160 :: "SField \<Rightarrow> STObject \<Rightarrow> (led_error, 160 word) result" where
  "getFieldH160 = getFieldBy (\<lambda>v. case v of STHash160 x \<Rightarrow> Some x | _ \<Rightarrow> None) 0"

text \<open>An \<open>STAccount\<close> is an \<open>STBlob\<close>; one that has not 20 bytes leaves the zero account.\<close>

definition getFieldVL :: "SField \<Rightarrow> STObject \<Rightarrow> (led_error, Blob) result" where
  "getFieldVL = getFieldBy (\<lambda>v. case v of STBlob b \<Rightarrow> Some b | STAccount b \<Rightarrow> Some b | _ \<Rightarrow> None) []"

definition getAccountID :: "SField \<Rightarrow> STObject \<Rightarrow> (led_error, AccountID) result" where
  "getAccountID = getFieldBy (\<lambda>v. case v of STAccount b \<Rightarrow> Some (if length b = 20 then be_word b else 0) | _ \<Rightarrow> None) 0"

definition getFieldAmount :: "SField \<Rightarrow> STObject \<Rightarrow> (led_error, STAmount) result" where
  "getFieldAmount = getFieldBy (\<lambda>v. case v of STAmt a \<Rightarrow> Some a | _ \<Rightarrow> None) (STAmount_drops 0 False)"

definition getFieldV256 :: "SField \<Rightarrow> STObject \<Rightarrow> (led_error, uint256 list) result" where
  "getFieldV256 = getFieldBy (\<lambda>v. case v of STVector256 x \<Rightarrow> Some x | _ \<Rightarrow> None) []"

definition getFieldPathSet :: "SField \<Rightarrow> STObject \<Rightarrow> (led_error, STPath list) result" where
  "getFieldPathSet = getFieldBy (\<lambda>v. case v of STPathSet x \<Rightarrow> Some x | _ \<Rightarrow> None) []"

definition getFieldArray :: "SField \<Rightarrow> STObject \<Rightarrow> (led_error, (SField \<times> STObject) list) result" where
  "getFieldArray = getFieldBy (\<lambda>v. case v of STArray x \<Rightarrow> Some x | _ \<Rightarrow> None) []"

definition getFieldObject :: "SField \<Rightarrow> STObject \<Rightarrow> (led_error, STObject) result" where
  "getFieldObject = getFieldBy (\<lambda>v. case v of STObj x \<Rightarrow> Some x | _ \<Rightarrow> None) (STObject None [])"

definition setFieldU8 :: "8 word \<Rightarrow> SField \<Rightarrow> STObject \<Rightarrow> (led_error, STObject) result" where
  "setFieldU8 x = setFieldBy (\<lambda>v. case v of STUInt8 _ \<Rightarrow> Some (STUInt8 x) | _ \<Rightarrow> None)"

definition setFieldU16 :: "16 word \<Rightarrow> SField \<Rightarrow> STObject \<Rightarrow> (led_error, STObject) result" where
  "setFieldU16 x = setFieldBy (\<lambda>v. case v of STUInt16 _ \<Rightarrow> Some (STUInt16 x) | _ \<Rightarrow> None)"

definition setFieldU32 :: "32 word \<Rightarrow> SField \<Rightarrow> STObject \<Rightarrow> (led_error, STObject) result" where
  "setFieldU32 x = setFieldBy (\<lambda>v. case v of STUInt32 _ \<Rightarrow> Some (STUInt32 x) | _ \<Rightarrow> None)"

definition setFieldU64 :: "64 word \<Rightarrow> SField \<Rightarrow> STObject \<Rightarrow> (led_error, STObject) result" where
  "setFieldU64 x = setFieldBy (\<lambda>v. case v of STUInt64 _ \<Rightarrow> Some (STUInt64 x) | _ \<Rightarrow> None)"

definition setFieldH128 :: "128 word \<Rightarrow> SField \<Rightarrow> STObject \<Rightarrow> (led_error, STObject) result" where
  "setFieldH128 x = setFieldBy (\<lambda>v. case v of STHash128 _ \<Rightarrow> Some (STHash128 x) | _ \<Rightarrow> None)"

definition setFieldH160 :: "160 word \<Rightarrow> SField \<Rightarrow> STObject \<Rightarrow> (led_error, STObject) result" where
  "setFieldH160 x = setFieldBy (\<lambda>v. case v of STHash160 _ \<Rightarrow> Some (STHash160 x) | _ \<Rightarrow> None)"

definition setFieldH256 :: "uint256 \<Rightarrow> SField \<Rightarrow> STObject \<Rightarrow> (led_error, STObject) result" where
  "setFieldH256 x = setFieldBy (\<lambda>v. case v of STHash256 _ \<Rightarrow> Some (STHash256 x) | _ \<Rightarrow> None)"

definition setFieldV256 :: "uint256 list \<Rightarrow> SField \<Rightarrow> STObject \<Rightarrow> (led_error, STObject) result" where
  "setFieldV256 x = setFieldBy (\<lambda>v. case v of STVector256 _ \<Rightarrow> Some (STVector256 x) | _ \<Rightarrow> None)"

definition setFieldAmount :: "STAmount \<Rightarrow> SField \<Rightarrow> STObject \<Rightarrow> (led_error, STObject) result" where
  "setFieldAmount x = setFieldBy (\<lambda>v. case v of STAmt _ \<Rightarrow> Some (STAmt x) | _ \<Rightarrow> None)"

definition setFieldPathSet :: "STPath list \<Rightarrow> SField \<Rightarrow> STObject \<Rightarrow> (led_error, STObject) result" where
  "setFieldPathSet x = setFieldBy (\<lambda>v. case v of STPathSet _ \<Rightarrow> Some (STPathSet x) | _ \<Rightarrow> None)"

definition setFieldArray :: "(SField \<times> STObject) list \<Rightarrow> SField \<Rightarrow> STObject \<Rightarrow> (led_error, STObject) result" where
  "setFieldArray x = setFieldBy (\<lambda>v. case v of STArray _ \<Rightarrow> Some (STArray x) | _ \<Rightarrow> None)"

definition setFieldObject :: "STObject \<Rightarrow> SField \<Rightarrow> STObject \<Rightarrow> (led_error, STObject) result" where
  "setFieldObject x = setFieldBy (\<lambda>v. case v of STObj _ \<Rightarrow> Some (STObj x) | _ \<Rightarrow> None)"

definition setAccountID :: "AccountID \<Rightarrow> SField \<Rightarrow> STObject \<Rightarrow> (led_error, STObject) result" where
  "setAccountID x = setFieldBy (\<lambda>v. case v of STAccount _ \<Rightarrow> Some (STAccount (be_bytes 20 x)) | _ \<Rightarrow> None)"

text \<open>An account keeps its class when its bytes are set.\<close>

definition setFieldVL :: "Blob \<Rightarrow> SField \<Rightarrow> STObject \<Rightarrow> (led_error, STObject) result" where
  "setFieldVL x = setFieldBy (\<lambda>v. case v of STBlob _ \<Rightarrow> Some (STBlob x) | STAccount _ \<Rightarrow> Some (STAccount x) | _ \<Rightarrow> None)"

text \<open>\<open>set (unique_ptr<STBase>)\<close>: the value comes with its name.\<close>

definition STObject_set_value :: "SField \<Rightarrow> STBase \<Rightarrow> STObject \<Rightarrow> (led_error, STObject) result" where
  "STObject_set_value f v ob = (case getFieldIndex f ob of
     Some i \<Rightarrow> bind_r (obj_at i ob) (\<lambda>_. Inr (STObject (obj_type ob) ((obj_v ob)[i := (f, v)])))
   | None \<Rightarrow>
       if \<not> isFree ob then Inl (LThrow ''missing field in templated STObject'')
       else Inr (STObject None (obj_v ob @ [(f, v)])))"

text \<open>Flags: a missing or absent field of flags reads as zero.\<close>

definition setFlag :: "32 word \<Rightarrow> STObject \<Rightarrow> (led_error, bool \<times> STObject) result" where
  "setFlag f ob =
     bind_r (getPField_create sfFlags ob) (\<lambda>(rf, ob1). case rf of
       None \<Rightarrow> Inr (False, ob1)
     | Some i \<Rightarrow> bind_r (obj_at i ob1) (\<lambda>(_, v). case v of
         STUInt32 x \<Rightarrow> Inr (True, obj_put i (STUInt32 (x OR f)) ob1)
       | _ \<Rightarrow> Inr (False, ob1)))"

definition clearFlag :: "32 word \<Rightarrow> STObject \<Rightarrow> (led_error, bool \<times> STObject) result" where
  "clearFlag f ob = (case getFieldIndex sfFlags ob of
     None \<Rightarrow> Inr (False, ob)
   | Some i \<Rightarrow> bind_r (obj_at i ob) (\<lambda>(_, v). case v of
         STUInt32 x \<Rightarrow> Inr (True, obj_put i (STUInt32 (x AND NOT f)) ob)
       | _ \<Rightarrow> Inr (False, ob)))"

definition getFlags :: "STObject \<Rightarrow> (led_error, 32 word) result" where
  "getFlags ob = bind_r (peekAtPField sfFlags ob) (\<lambda>rf. case rf of Some (STUInt32 x) \<Rightarrow> Inr x | _ \<Rightarrow> Inr 0)"

definition isFlag :: "32 word \<Rightarrow> STObject \<Rightarrow> (led_error, bool) result" where
  "isFlag f ob = bind_r (getFlags ob) (\<lambda>x. Inr (x AND f = f))"

section \<open>Reading\<close>

text \<open>The iterator never moves back; the reads that make progress.\<close>

definition opt160 :: "bool \<Rightarrow> SerialIter \<Rightarrow> (led_error, 160 word \<times> SerialIter) result" where
  "opt160 b sit = (if b then si_getBitString 20 sit else Inr (0, sit))"

lemma si_advance_remain [simp]: "si_remain (si_advance n it) = si_remain it - n"
  by (simp add: si_advance_def)

lemma si_get8_remain: "si_get8 it = Inr (b, it') \<Longrightarrow> si_remain it' < si_remain it"
  by (auto simp: si_get8_def split: if_splits)

lemma opt160_remain: "opt160 b it = Inr (x, it') \<Longrightarrow> si_remain it' \<le> si_remain it"
  by (auto simp: opt160_def si_getBitString_def split: if_splits)

function STPathSet_loop :: "STPath list \<Rightarrow> STPath \<Rightarrow> SerialIter \<Rightarrow> (led_error, STPath list \<times> SerialIter) result" where
  "STPathSet_loop paths path sit =
     bind_r (si_get8 sit) (\<lambda>(b, sit1).
       let iType = (ucast b :: 32 word) in
       if iType = typeNone \<or> iType = typeBoundary then
         if path = [] then Inl (LThrow ''empty path'')
         else if iType = typeNone then Inr (paths @ [path], sit1)
         else STPathSet_loop (paths @ [path]) [] sit1
       else if iType AND NOT typeAll \<noteq> 0 then Inl (LThrow ''bad path element'')
       else
         bind_r (opt160 (iType AND typeAccount \<noteq> 0) sit1) (\<lambda>(account, sit2).
         bind_r (opt160 (iType AND typeCurrency \<noteq> 0) sit2) (\<lambda>(currency, sit3).
         bind_r (opt160 (iType AND typeIssuer \<noteq> 0) sit3) (\<lambda>(issuer, sit4).
           STPathSet_loop paths (path @ [STPathElement_of account currency issuer (iType AND typeCurrency \<noteq> 0)]) sit4))))"
  by pat_completeness auto
termination
  by (relation "measure (\<lambda>(paths, path, sit). si_remain sit)")
    (auto dest!: si_get8_remain opt160_remain)

declare STPathSet_loop.simps [simp del]

definition STPathSet_read :: "SerialIter \<Rightarrow> (led_error, STBase \<times> SerialIter) result" where
  "STPathSet_read sit = bind_r (STPathSet_loop [] [] sit) (\<lambda>(ps, sit1). Inr (STPathSet ps, sit1))"

text \<open>The blob is cut into keys; a remainder of less than 32 bytes is dropped.\<close>

definition STVector256_read :: "SerialIter \<Rightarrow> (led_error, STBase \<times> SerialIter) result" where
  "STVector256_read sit =
     bind_r (si_getVL sit) (\<lambda>(data, sit1).
       Inr (STVector256 (map (\<lambda>i. be_word (take 32 (drop (32 * i) data))) [0..<length data div 32]), sit1))"

text \<open>\<open>STVar (sit, name)\<close> for the types without inner fields, with \<open>getVLBuffer\<close> as \<open>getVL\<close>.\<close>

definition STVar_plain :: "SField \<Rightarrow> SerialIter \<Rightarrow> (led_error, STBase \<times> SerialIter) result" where
  "STVar_plain name sit =
     (let t = fieldType name in
      if t = STI_NOTPRESENT then Inr (STNotPresent, sit)
      else if t = STI_UINT8 then bind_r (si_get8 sit) (\<lambda>(x, sit1). Inr (STUInt8 x, sit1))
      else if t = STI_UINT16 then bind_r (si_get16 sit) (\<lambda>(x, sit1). Inr (STUInt16 x, sit1))
      else if t = STI_UINT32 then bind_r (si_get32 sit) (\<lambda>(x, sit1). Inr (STUInt32 x, sit1))
      else if t = STI_UINT64 then bind_r (si_get64 sit) (\<lambda>(x, sit1). Inr (STUInt64 x, sit1))
      else if t = STI_AMOUNT then bind_r (STAmount_read sit) (\<lambda>(a, sit1). Inr (STAmt a, sit1))
      else if t = STI_HASH128 then bind_r (si_getBitString 16 sit) (\<lambda>(x, sit1). Inr (STHash128 x, sit1))
      else if t = STI_HASH160 then bind_r (si_getBitString 20 sit) (\<lambda>(x, sit1). Inr (STHash160 x, sit1))
      else if t = STI_HASH256 then bind_r (si_getBitString 32 sit) (\<lambda>(x, sit1). Inr (STHash256 x, sit1))
      else if t = STI_VECTOR256 then STVector256_read sit
      else if t = STI_VL then bind_r (si_getVL sit) (\<lambda>(b, sit1). Inr (STBlob b, sit1))
      else if t = STI_ACCOUNT then bind_r (si_getVL sit) (\<lambda>(b, sit1). Inr (STAccount b, sit1))
      else if t = STI_PATHSET then STPathSet_read sit
      else Inl (LThrow ''Unknown object type''))"

text \<open>
  \<open>STVar (sit, name)\<close>, the loop of \<open>STObject::set (sit)\<close> and that of \<open>STArray (sit, f)\<close>.
  The first result of the object loop is whether it met the end marker.
\<close>

fun STVar_read :: "nat \<Rightarrow> SField \<Rightarrow> SerialIter \<Rightarrow> (led_error, STBase \<times> SerialIter) result"
  and STObject_loop :: "nat \<Rightarrow> (SField \<times> STBase) list \<Rightarrow> SerialIter \<Rightarrow>
    (led_error, bool \<times> (SField \<times> STBase) list \<times> SerialIter) result"
  and STArray_loop :: "nat \<Rightarrow> (SField \<times> STObject) list \<Rightarrow> SerialIter \<Rightarrow>
    (led_error, (SField \<times> STObject) list \<times> SerialIter) result" where
  "STVar_read fuel name sit =
     (if fieldType name = STI_OBJECT then
        (case fuel of 0 \<Rightarrow> Inl LDiverges
         | Suc n \<Rightarrow> bind_r (STObject_loop n [] sit) (\<lambda>(_, v, sit1). Inr (STObj (STObject None v), sit1)))
      else if fieldType name = STI_ARRAY then
        (case fuel of 0 \<Rightarrow> Inl LDiverges
         | Suc n \<Rightarrow> bind_r (STArray_loop n [] sit) (\<lambda>(es, sit1). Inr (STArray es, sit1)))
      else STVar_plain name sit)"
| "STObject_loop 0 v sit = Inl LDiverges"
| "STObject_loop (Suc n) v sit =
     (if si_empty sit then Inr (False, v, sit)
      else
        bind_r (si_getFieldID sit) (\<lambda>((type, field), sit1).
          if type = STI_ARRAY \<and> field = 1 then Inl (LThrow ''Illegal terminator in object'')
          else if type = STI_OBJECT \<and> field = 1 then Inr (True, v, sit1)
          else
            bind_r (SField_getField2 type field) (\<lambda>fn.
              if isInvalid fn then Inl (LThrow ''Unknown field'')
              else
                bind_r (STVar_read n fn sit1) (\<lambda>(x, sit2).
                bind_r (case x of
                    STObj ob \<Rightarrow>
                      (let (r, ob') = setTypeFromSField fn ob in
                       if r = typeSetFail then Inl (LThrow ''field deserialization error'') else Inr (STObj ob'))
                  | _ \<Rightarrow> Inr x) (\<lambda>x'.
                  STObject_loop n (v @ [(fn, x')]) sit2)))))"
| "STArray_loop 0 es sit = Inl LDiverges"
| "STArray_loop (Suc n) es sit =
     (if si_empty sit then Inr (es, sit)
      else
        bind_r (si_getFieldID sit) (\<lambda>((type, field), sit1).
          if type = STI_ARRAY \<and> field = 1 then Inr (es, sit1)
          else if type = STI_OBJECT \<and> field = 1 then Inl (LThrow ''Illegal terminator in array'')
          else
            bind_r (SField_getField2 type field) (\<lambda>fn.
              if isInvalid fn then Inl (LThrow ''Unknown field'')
              else if fieldType fn \<noteq> STI_OBJECT then Inl (LThrow ''Non-object in array'')
              else
                bind_r (STObject_loop n [] sit1) (\<lambda>(_, v, sit2).
                  let (r, ob) = setTypeFromSField fn (STObject None v) in
                  if r = typeSetFail then Inl (LThrow ''Malformed object in array'')
                  else STArray_loop n (es @ [(fn, ob)]) sit2))))"

text \<open>\<open>STObject (sit, name)\<close>: every round of a loop consumes a byte.\<close>

definition STObject_read :: "SerialIter \<Rightarrow> (led_error, STObject \<times> SerialIter) result" where
  "STObject_read sit =
     bind_r (STObject_loop (2 * si_remain sit + 1) [] sit) (\<lambda>(_, v, sit1). Inr (STObject None v, sit1))"

section \<open>Writing\<close>

definition addVL_raw :: "Blob \<Rightarrow> Serializer \<Rightarrow> (led_error, Serializer) result" where
  "addVL_raw v s = bind_r (addEncoded (int (length v)) s) (\<lambda>(ret, s1). Inr (if v \<noteq> [] then snd (addRaw v s1) else s1))"

definition st_addFieldID :: "SField \<Rightarrow> Serializer \<Rightarrow> (led_error, Serializer) result" where
  "st_addFieldID f s =
     bind_r (led_assert (isBinary f)) (\<lambda>_. bind_r (addFieldID (fieldType f) (fieldValue f) s) (\<lambda>(_, s1). Inr s1))"

text \<open>The assertions of the \<open>add\<close> methods: the name has a binary form and the type of the value.\<close>

definition add_typed :: "SField \<Rightarrow> int list \<Rightarrow> (led_error, Serializer) result \<Rightarrow> (led_error, Serializer) result" where
  "add_typed f types r =
     bind_r (led_assert (isBinary f)) (\<lambda>_. bind_r (led_assert (fieldType f \<in> set types)) (\<lambda>_. r))"

definition add160_if :: "bool \<Rightarrow> 160 word \<Rightarrow> Serializer \<Rightarrow> Serializer" where
  "add160_if b x s = (if b then snd (add160 x s) else s)"

definition STPathElement_add :: "STPathElement \<Rightarrow> Serializer \<Rightarrow> Serializer" where
  "STPathElement_add e s =
     add160_if (pe_type e AND typeIssuer \<noteq> 0) (pe_issuer e)
       (add160_if (pe_type e AND typeCurrency \<noteq> 0) (pe_currency e)
         (add160_if (pe_type e AND typeAccount \<noteq> 0) (pe_account e) (snd (add8 (ucast (pe_type e)) s))))"

fun STPathSet_add_loop :: "bool \<Rightarrow> STPath list \<Rightarrow> Serializer \<Rightarrow> Serializer" where
  "STPathSet_add_loop first [] s = snd (add8 0 s)"
| "STPathSet_add_loop first (p # ps) s =
     STPathSet_add_loop False ps (fold STPathElement_add p (if \<not> first then snd (add8 0xff s) else s))"

text \<open>
  \<open>STObject::add\<close> collects the fields in a \<open>std::map\<close> by code and writes them in that order.
  Here the writers of the fields are collected first.
\<close>

definition sort_fields :: "(int \<times> 'w) list \<Rightarrow> (int \<times> 'w) list" where
  "sort_fields ws = fold (\<lambda>(c, w) m. fst (om_emplace (<) c w m)) ws []"

fun st_add :: "SField \<Rightarrow> STBase \<Rightarrow> Serializer \<Rightarrow> (led_error, Serializer) result"
  and field_writers :: "bool \<Rightarrow> (SField \<times> STBase) list \<Rightarrow> (int \<times> (Serializer \<Rightarrow> (led_error, Serializer) result)) list"
  and st_add_array :: "(SField \<times> STObject) list \<Rightarrow> Serializer \<Rightarrow> (led_error, Serializer) result"
  and st_add_inner :: "STObject \<Rightarrow> Serializer \<Rightarrow> (led_error, Serializer) result" where
  "st_add f STNotPresent s = Inl LAssert"
| "st_add f (STUInt8 x) s = add_typed f [STI_UINT8] (Inr (snd (add8 x s)))"
| "st_add f (STUInt16 x) s = add_typed f [STI_UINT16] (Inr (snd (add16 x s)))"
| "st_add f (STUInt32 x) s = add_typed f [STI_UINT32] (Inr (snd (add32 x s)))"
| "st_add f (STUInt64 x) s = add_typed f [STI_UINT64] (Inr (snd (add64 x s)))"
| "st_add f (STHash128 x) s = add_typed f [STI_HASH128] (Inr (snd (add128 x s)))"
| "st_add f (STHash160 x) s = add_typed f [STI_HASH160] (Inr (snd (add160 x s)))"
| "st_add f (STHash256 x) s = add_typed f [STI_HASH256] (Inr (snd (add256 x s)))"
| "st_add f (STAmt a) s = STAmount_add a s"
| "st_add f (STBlob b) s = add_typed f [STI_VL, STI_ACCOUNT] (addVL_raw b s)"
| "st_add f (STAccount b) s = add_typed f [STI_VL, STI_ACCOUNT] (addVL_raw b s)"
| "st_add f (STPathSet ps) s = add_typed f [STI_PATHSET] (Inr (STPathSet_add_loop True ps s))"
| "st_add f (STVector256 vs) s = add_typed f [STI_VECTOR256] (addVL_raw (concat (map (be_bytes 32) vs)) s)"
| "st_add f (STObj ob) s = st_add_inner ob s"
| "st_add f (STArray es) s = st_add_array es s"
| "field_writers b [] = []"
| "field_writers b ((f, v) # r) =
     (if getSType v \<noteq> STI_NOTPRESENT \<and> shouldInclude f b
      then [(fieldCode f, \<lambda>s.
        bind_r (led_assert (getSType v \<noteq> STI_OBJECT \<or> fieldType f = STI_OBJECT)) (\<lambda>_.
        bind_r (st_addFieldID f s) (\<lambda>s1.
        bind_r (st_add f v s1) (\<lambda>s2.
          if getSType v = STI_ARRAY then bind_r (addFieldID STI_ARRAY 1 s2) (\<lambda>(_, s3). Inr s3)
          else if getSType v = STI_OBJECT then bind_r (addFieldID STI_OBJECT 1 s2) (\<lambda>(_, s3). Inr s3)
          else Inr s2))))]
      else []) @ field_writers b r"
| "st_add_array [] s = Inr s"
| "st_add_array ((f, ob) # es) s =
     bind_r (st_addFieldID f s) (\<lambda>s1.
     bind_r (st_add_inner ob s1) (\<lambda>s2.
     bind_r (addFieldID STI_OBJECT 1 s2) (\<lambda>(_, s3). st_add_array es s3)))"
| "st_add_inner (STObject t v) s = fold_r (\<lambda>(_, w) s. w s) (sort_fields (field_writers True v)) s"

definition STObject_add :: "bool \<Rightarrow> STObject \<Rightarrow> Serializer \<Rightarrow> (led_error, Serializer) result" where
  "STObject_add withSigningFields ob s = fold_r (\<lambda>(_, w) s. w s) (sort_fields (field_writers withSigningFields (obj_v ob))) s"

definition getSerializer :: "STObject \<Rightarrow> (led_error, Serializer) result" where
  "getSerializer ob = STObject_add True ob []"

end
