(* ===== verification/STObject_Parse.thy ===== *)
theory STObject_Parse
  imports STObject
begin

text \<open>
  The parser of serialized objects ends on every input: the iterator moves forward with every field, so the
  fuel that \<open>STObject_read\<close> provides is enough. The only errors are exceptions that the code throws: no
  assertion fails and nothing is read out of range.
\<close>

section \<open>Progress\<close>

text \<open>An exception of the code, and a call that gives no other error.\<close>

fun thrown :: "led_error \<Rightarrow> bool" where
  "thrown (LThrow _) = True"
| "thrown _ = False"

definition only_throws :: "(led_error, 'a) result \<Rightarrow> bool" where
  "only_throws r = (case r of Inl e \<Rightarrow> thrown e | Inr _ \<Rightarrow> True)"

lemma only_throws_simps [simp]: "only_throws (Inl e) = thrown e" "only_throws (Inr x)"
  by (simp_all add: only_throws_def)

lemma only_throws_bind: "only_throws r \<Longrightarrow> (\<And>x. r = Inr x \<Longrightarrow> only_throws (f x)) \<Longrightarrow> only_throws (bind_r r f)"
  by (cases r) simp_all

text \<open>\<open>forward\<close>: a read that does not move the iterator back and fails with exceptions of the code only.\<close>

definition forward :: "SerialIter \<Rightarrow> (led_error, 'a \<times> SerialIter) result \<Rightarrow> bool" where
  "forward it r = (case r of Inl e \<Rightarrow> thrown e | Inr (_, it') \<Rightarrow> si_remain it' \<le> si_remain it)"

lemma forward_bind:
  "forward it r \<Longrightarrow> (\<And>x it'. r = Inr (x, it') \<Longrightarrow> si_remain it' \<le> si_remain it \<Longrightarrow> forward it' (f (x, it'))) \<Longrightarrow> forward it (bind_r r f)"
  by (cases r) (fastforce simp: forward_def split: sum.splits)+

lemma forward_simps [simp]: "forward it (Inl e) \<longleftrightarrow> thrown e" "forward it (Inr (x, it')) \<longleftrightarrow> si_remain it' \<le> si_remain it"
  by (simp_all add: forward_def)

lemma forward_Inr: "forward it r \<Longrightarrow> r = Inr (x, it') \<Longrightarrow> si_remain it' \<le> si_remain it"
  by (simp add: forward_def)

lemma forward_gets [simp]:
  "forward it (si_get8 it)" "forward it (si_get16 it)" "forward it (si_get32 it)" "forward it (si_get64 it)"
  "forward it (si_getBitString n it)" "forward it (si_getRaw n it)" "forward it (opt160 b it)"
  by (simp_all add: si_get8_def si_get16_def si_get32_def si_get64_def si_getBitString_def si_getRaw_def opt160_def)

lemma forward_pures:
  fixes n :: "(led_error, nat) result" and i :: "(led_error, int) result" and u :: "(led_error, unit) result"
    and a :: "(led_error, STAmount) result" and sf :: "(led_error, SField) result" and x :: "(led_error, STBase) result"
  shows "(\<And>y. n = Inr y \<Longrightarrow> forward it (fn y)) \<Longrightarrow> only_throws n \<Longrightarrow> forward it (bind_r n fn)"
    and "(\<And>y. i = Inr y \<Longrightarrow> forward it (fi y)) \<Longrightarrow> only_throws i \<Longrightarrow> forward it (bind_r i fi)"
    and "(\<And>y. u = Inr y \<Longrightarrow> forward it (fu y)) \<Longrightarrow> only_throws u \<Longrightarrow> forward it (bind_r u fu)"
    and "(\<And>y. a = Inr y \<Longrightarrow> forward it (fa y)) \<Longrightarrow> only_throws a \<Longrightarrow> forward it (bind_r a fa)"
    and "(\<And>y. sf = Inr y \<Longrightarrow> forward it (fs y)) \<Longrightarrow> only_throws sf \<Longrightarrow> forward it (bind_r sf fs)"
    and "(\<And>y. x = Inr y \<Longrightarrow> forward it (fx y)) \<Longrightarrow> only_throws x \<Longrightarrow> forward it (bind_r x fx)"
  by (auto simp: bind_r_def split: sum.splits)

lemma decode_total:
  "only_throws (decodeLengthLength b)" "only_throws (decodeVLLength1 b)" "only_throws (decodeVLLength2 b c)"
  "only_throws (decodeVLLength3 b c d)"
  by (simp_all add: decodeLengthLength_def decodeVLLength1_def decodeVLLength2_def decodeVLLength3_def)

lemma decode_cases: "decodeLengthLength b = Inr n \<Longrightarrow> n = 1 \<or> n = 2 \<or> n = 3"
  by (auto simp: decodeLengthLength_def split: if_splits)

lemma forward_getVL [simp]: "forward it (si_getVL it)"
  unfolding si_getVL_def si_getVLDataLength_def
  by (auto intro!: forward_bind forward_pures simp: decode_total led_assert_def split: if_splits dest!: decode_cases)

lemma issued_down_max: "issued_down v off = Inr (v', off') \<Longrightarrow> v' \<le> cMaxValue"
proof (induction v off rule: issued_down.induct)
  case (1 v off)
  from 1(2) show ?case by (subst (asm) issued_down.simps) (auto split: if_splits intro: 1(1))
qed

lemma canonicalize_total: "only_throws (canonicalize a)"
proof -
  have "only_throws (issued_down v off)" for v off
  proof (induction v off rule: issued_down.induct)
    case (1 v off)
    then show ?case by (subst issued_down.simps) auto
  qed
  then show ?thesis
    by (auto simp: canonicalize_def led_assert_def split: prod.splits intro!: only_throws_bind dest: issued_down_max)
qed

lemma forward_amount [simp]: "forward it (STAmount_read it)"
  unfolding STAmount_read_def Let_def STAmount_of_def
  by (auto intro!: forward_bind forward_pures simp: canonicalize_total)

lemma forward_paths: "forward it (STPathSet_loop ps p it)"
proof (induction "si_remain it" arbitrary: ps p it rule: less_induct)
  case less
  have IH: "forward it' (STPathSet_loop ps' p' it')" if "si_get8 it = Inr (b, it1)" "si_remain it' \<le> si_remain it1" for b it1 ps' p' it'
    using less.hyps [of it'] si_get8_remain [OF that(1)] that(2) by simp
  show ?case
    unfolding STPathSet_loop.simps [of ps p it] Let_def
    by (auto intro!: forward_bind) (erule IH; simp)+
qed

lemma forward_plain [simp]: "forward it (STVar_plain f it)"
  unfolding STVar_plain_def Let_def STVector256_read_def STPathSet_read_def
  by (auto intro!: forward_bind forward_paths)

lemma si_getFieldID_progress: "si_getFieldID it = Inr (x, it') \<Longrightarrow> si_remain it' < si_remain it"
  by (auto simp: si_getFieldID_def Let_def result_simps split: if_splits dest!: si_get8_remain)

lemma forward_getFieldID [simp]: "forward it (si_getFieldID it)"
  unfolding si_getFieldID_def Let_def by (auto intro!: forward_bind)

lemma byte_parts: "0 \<le> uint (b :: byte)" "uint b < 256" "0 \<le> drop_bit 4 (uint b)" "drop_bit 4 (uint b) < 16" "0 \<le> uint b AND 15" "uint b AND 15 < 16"
proof -
  show b: "0 \<le> uint b" "uint b < 256" using uint_bounded [of b] by simp_all
  have "uint b AND 15 = uint b mod 16" using take_bit_eq_mask [of 4 "uint b"] by (simp add: mask_eq_exp_minus_1 take_bit_eq_mod)
  moreover have "n div 16 < 16" if "n < 256" for n :: int using that by presburger
  ultimately show "0 \<le> drop_bit 4 (uint b)" "drop_bit 4 (uint b) < 16" "0 \<le> uint b AND 15" "uint b AND 15 < 16"
    using b by (simp_all add: drop_bit_eq_div pos_imp_zdiv_nonneg_iff)
qed

lemma byte_parts_pos: "drop_bit 4 (uint (b :: byte)) \<noteq> 0 \<Longrightarrow> 0 < drop_bit 4 (uint b)" "uint b AND 15 \<noteq> 0 \<Longrightarrow> 0 < uint b AND 15"
  using byte_parts [of b] by linarith+

lemma si_getFieldID_range:
  assumes "si_getFieldID it = Inr ((type, field), it')"
  shows "0 < type \<and> type < 256 \<and> 0 < field \<and> field < 256"
  using assms byte_parts(2) byte_parts(4,6) [THEN less_trans, of 256] byte_parts_pos unfolding si_getFieldID_def Let_def
  by (auto simp: result_simps split: if_splits)

lemma code_parts:
  assumes "0 \<le> field" "field < 65536"
  shows "drop_bit 16 (field_code type field) = type" "field_code type field AND 0xffff = field"
proof -
  have f: "take_bit 16 field = field" using assms by (simp add: take_bit_int_eq_self)
  have "\<not> bit field (16 + n)" for n using bit_take_bit_iff [of 16 field "16 + n"] unfolding f by simp
  then show "drop_bit 16 (field_code type field) = type"
    unfolding field_code_def by (intro bit_eqI) (auto simp: bit_simps)
  have "field_code type field AND 0xffff = take_bit 16 (field_code type field)"
    using take_bit_eq_mask [of 16 "field_code type field"] by (simp add: mask_eq_exp_minus_1)
  also have "\<dots> = field" unfolding field_code_def take_bit_or f by (simp add: take_bit_push_bit)
  finally show "field_code type field AND 0xffff = field" .
qed

text \<open>A field whose identifier can be read has a code that keeps its two parts apart; only the markers that end
  an object or an array, which the parser has sorted out before, may not be created.\<close>

lemma getField_total:
  assumes "si_getFieldID it = Inr ((type, field), it')" "\<not> (type = STI_ARRAY \<and> field = 1)" "\<not> (type = STI_OBJECT \<and> field = 1)"
  shows "only_throws (SField_getField2 type field)"
proof -
  have r: "0 < type" "type < 256" "0 < field" "field < 256" using si_getFieldID_range [OF assms(1)] by simp_all
  have "drop_bit 16 (field_code type field) = type" "field_code type field AND 0xffff = field" using code_parts [of field type] r by simp_all
  with assms(2,3) show ?thesis
    by (auto simp: SField_getField2_def SField_getField_def SField_dynamic_def Let_def led_assert_def split: option.splits)
qed

section \<open>Fuel\<close>

definition forward3 :: "SerialIter \<Rightarrow> (led_error, 'a \<times> 'b \<times> SerialIter) result \<Rightarrow> bool" where
  "forward3 it r = (case r of Inl e \<Rightarrow> thrown e | Inr (_, _, it') \<Rightarrow> si_remain it' \<le> si_remain it)"

lemma forward3_simps [simp]: "forward3 it (Inl e) \<longleftrightarrow> thrown e" "forward3 it (Inr (x, y, it')) \<longleftrightarrow> si_remain it' \<le> si_remain it"
  by (simp_all add: forward3_def)

lemma forward3_binds:
  fixes sf :: "(led_error, SField) result" and x :: "(led_error, STBase) result"
  shows "forward3 it r3 \<Longrightarrow> (\<And>x y it'. r3 = Inr (x, y, it') \<Longrightarrow> si_remain it' \<le> si_remain it \<Longrightarrow> forward it' (f3 (x, y, it'))) \<Longrightarrow>
      forward it (bind_r r3 f3)"
    and "forward it r \<Longrightarrow> (\<And>x it'. r = Inr (x, it') \<Longrightarrow> si_remain it' \<le> si_remain it \<Longrightarrow> forward3 it' (f (x, it'))) \<Longrightarrow>
      forward3 it (bind_r r f)"
    and "(\<And>y. sf = Inr y \<Longrightarrow> forward3 it (fs y)) \<Longrightarrow> only_throws sf \<Longrightarrow> forward3 it (bind_r sf fs)"
    and "(\<And>y. x = Inr y \<Longrightarrow> forward3 it (fx y)) \<Longrightarrow> only_throws x \<Longrightarrow> forward3 it (bind_r x fx)"
  by (fastforce simp: forward_def forward3_def bind_r_def split: sum.splits prod.splits)+

lemma forward3_if: "(b \<Longrightarrow> forward3 it x) \<Longrightarrow> (\<not> b \<Longrightarrow> forward3 it y) \<Longrightarrow> forward3 it (if b then x else y)"
  by simp

lemma forward_if: "(b \<Longrightarrow> forward it x) \<Longrightarrow> (\<not> b \<Longrightarrow> forward it y) \<Longrightarrow> forward it (if b then x else y)"
  by simp

lemma inner_total:
  "only_throws (case x of STObj ob \<Rightarrow>
      (let (r, ob') = setTypeFromSField fn ob in if r = typeSetFail then Inl (LThrow e) else Inr (STObj ob'))
    | _ \<Rightarrow> Inr x)"
  by (auto split: STBase.splits prod.splits)

lemma parse_forward:
  "(\<forall>sit name. 2 * si_remain sit + 2 \<le> fuel \<longrightarrow> forward sit (STVar_read fuel name sit)) \<and>
   (\<forall>sit v. 2 * si_remain sit + 1 \<le> fuel \<longrightarrow> forward3 sit (STObject_loop fuel v sit)) \<and>
   (\<forall>sit es. 2 * si_remain sit + 1 \<le> fuel \<longrightarrow> forward sit (STArray_loop fuel es sit))"
proof (induction fuel)
  case (Suc n)
  have "forward sit (STVar_read (Suc n) name sit)" if "2 * si_remain sit + 2 \<le> Suc n" for sit name
    using that Suc.IH by (auto intro!: forward3_binds(1) forward_bind)
  moreover have step: "2 * si_remain sit1 + 2 \<le> n" if "2 * si_remain sit + 1 \<le> Suc n" "si_getFieldID sit = Inr (x, sit1)" for sit sit1 x
    using si_getFieldID_progress [OF that(2)] that(1) by simp
  have "forward3 sit (STObject_loop (Suc n) v sit)" if r: "2 * si_remain sit + 1 \<le> Suc n" for sit v
  proof -
    have "forward sit1 (STVar_read n name sit1)" if "si_getFieldID sit = Inr (x, sit1)" for x sit1 name
      using step [OF r that] Suc.IH by blast
    moreover have "forward3 sit2 (STObject_loop n v' sit2)" if "si_getFieldID sit = Inr (x, sit1)" "si_remain sit2 \<le> si_remain sit1" for x sit1 sit2 v'
      using step [OF r that(1)] that(2) Suc.IH by simp
    ultimately show ?thesis
      unfolding STObject_loop.simps
      apply (intro forward3_if forward3_binds(2) forward_getFieldID)
       apply simp
      apply (clarsimp simp del: STVar_read.simps)
      apply (intro forward3_binds(3) forward3_if)
        apply simp
       defer
       apply (rule getField_total; simp)
      apply (rule forward3_binds(2))
       apply (simp del: STVar_read.simps)
      apply (clarsimp simp del: STVar_read.simps)
      apply (rule forward3_binds(4) [OF _ inner_total])
      apply (simp del: STVar_read.simps)
      done
  qed
  moreover have "forward sit (STArray_loop (Suc n) es sit)" if r: "2 * si_remain sit + 1 \<le> Suc n" for sit es
  proof -
    have "forward3 sit1 (STObject_loop n v sit1)" if "si_getFieldID sit = Inr (x, sit1)" for x sit1 v
      using step [OF r that] Suc.IH by simp
    moreover have "forward sit2 (STArray_loop n es' sit2)" if "si_getFieldID sit = Inr (x, sit1)" "si_remain sit2 \<le> si_remain sit1" for x sit1 sit2 es'
      using step [OF r that(1)] that(2) Suc.IH by simp
    ultimately show ?thesis
      unfolding STArray_loop.simps
      apply (intro forward_if forward_bind forward_getFieldID)
       apply simp
      apply clarsimp
      apply (intro forward_pures(5) forward_if)
         apply simp
        apply simp
       defer
       apply (rule getField_total; simp)
      apply (rule forward3_binds(1))
       apply simp
      apply (clarsimp split: prod.split)
      done
  qed
  ultimately show ?case by blast
qed auto

text \<open>The parser always answers: an object or an exception of the source.\<close>

lemma STObject_read_total:
  "(\<exists>ob it. STObject_read sit = Inr (ob, it) \<and> si_remain it \<le> si_remain sit) \<or> (\<exists>msg. STObject_read sit = Inl (LThrow msg))"
proof -
  have t: "thrown e \<longleftrightarrow> (\<exists>msg. e = LThrow msg)" for e by (cases e) simp_all
  have "forward3 sit (STObject_loop (2 * si_remain sit + 1) [] sit)" using parse_forward by blast
  then show ?thesis unfolding STObject_read_def
    by (cases "STObject_loop (2 * si_remain sit + 1) [] sit") (auto simp: forward3_def t simp del: STObject_loop.simps)
qed

end
