(* ===== verification/STAmount_Spec.thy ===== *)
theory STAmount_Spec
  imports STAmount Complex_Main
begin

text \<open>
  What amounts stand for. An amount denotes a real number; the normal form is unique, so that the binary
  form can be read back and the comparison by sign, exponent and mantissa is the comparison of numbers;
  bringing an amount into normal form and adding amounts round towards zero by less than a unit in the
  last place.
\<close>

section \<open>Denotation and normal form\<close>

definition am_real :: "STAmount \<Rightarrow> real" where
  "am_real a = (if am_negative a then - 1 else 1) * real (unat (am_value a)) * 10 powi am_offset a"

text \<open>The internal form that \<open>STAmount.h\<close> describes.\<close>

definition am_canonical :: "STAmount \<Rightarrow> bool" where
  "am_canonical a =
     (am_native a = isXRP_amount a \<and> (am_value a = 0 \<longrightarrow> \<not> am_negative a) \<and>
      (if am_native a then am_offset a = 0
       else if am_value a = 0 then am_offset a = - 100
       else cMinValue \<le> am_value a \<and> am_value a \<le> cMaxValue \<and> cMinOffset \<le> am_offset a \<and> am_offset a \<le> cMaxOffset))"

text \<open>Amounts that the binary form can carry: drops below \<open>2^62\<close> without an issuer, issued amounts with one.\<close>

definition am_wire :: "STAmount \<Rightarrow> bool" where
  "am_wire a = (am_canonical a \<and>
     (if am_native a then am_issue a = xrpIssue \<and> am_value a < cPosNative else iss_account (am_issue a) \<noteq> 0))"

section \<open>The loops\<close>

lemma unat_min_max: "unat cMinValue = 10 ^ 15" "unat cMaxValue = 10 ^ 16 - 1"
  by simp_all

lemma unat_times_10: "v < cMinValue \<Longrightarrow> unat (v * 10) = unat v * 10 \<and> unat (v * 10) < 10 ^ 16"
proof -
  assume "v < cMinValue"
  then have "unat v < 10 ^ 15" by (simp add: word_less_nat_alt)
  then show ?thesis by (simp add: unat_word_ariths)
qed

lemma unat_div_10: "unat (v div 10) = unat v div 10" for v :: "64 word"
  by (simp add: unat_div)

lemma issued_up_spec:
  "issued_up v off = (v', o') \<Longrightarrow>
     \<exists>k. unat v' = unat v * 10 ^ k \<and> o' = off - int k \<and> (k > 0 \<longrightarrow> unat v' < 10 ^ 16 \<and> o' \<ge> cMinOffset) \<and>
       (v' \<ge> cMinValue \<or> o' \<le> cMinOffset)"
proof (induction v off rule: issued_up.induct)
  case (1 v off)
  show ?case
  proof (cases "v < cMinValue \<and> off > cMinOffset")
    case True
    with "1.prems" have "issued_up (v * 10) (off - 1) = (v', o')" by (simp add: issued_up.simps [of v off])
    from "1.IH" [OF True this] obtain k where k: "unat v' = unat (v * 10) * 10 ^ k" "o' = off - 1 - int k"
      "k > 0 \<longrightarrow> unat v' < 10 ^ 16 \<and> o' \<ge> cMinOffset" "v' \<ge> cMinValue \<or> o' \<le> cMinOffset" by blast
    moreover have "unat (v * 10) = unat v * 10" "unat (v * 10) < 10 ^ 16" using True unat_times_10 [of v] by simp_all
    moreover have "k = 0 \<Longrightarrow> o' \<ge> cMinOffset" using True k(2) by simp
    ultimately show ?thesis by (intro exI [of _ "Suc k"]) auto
  next
    case False
    with "1.prems" show ?thesis by (intro exI [of _ 0]) (auto simp: issued_up.simps [of v off])
  qed
qed

lemma issued_down_spec:
  "issued_down v off = Inr (v', o') \<Longrightarrow>
     \<exists>k. unat v' = unat v div 10 ^ k \<and> o' = off + int k \<and> v' \<le> cMaxValue \<and> (k > 0 \<longrightarrow> cMinValue \<le> v' \<and> o' \<le> cMaxOffset)"
proof (induction v off rule: issued_down.induct)
  case (1 v off)
  show ?case
  proof (cases "v > cMaxValue")
    case True
    with "1.prems" have lim: "\<not> cMaxOffset \<le> off" and r: "issued_down (v div 10) (off + 1) = Inr (v', o')"
      by (auto simp: issued_down.simps [of v off] split: if_splits)
    from "1.IH" [OF True lim r] obtain k where k: "unat v' = unat (v div 10) div 10 ^ k" "o' = off + 1 + int k" "v' \<le> cMaxValue"
      "k > 0 \<longrightarrow> cMinValue \<le> v' \<and> o' \<le> cMaxOffset" by blast
    have "10 ^ 16 \<le> unat v" using True by (simp add: word_less_nat_alt)
    then have "10 ^ 15 \<le> unat v div 10" by simp
    with k(1) have "k = 0 \<Longrightarrow> cMinValue \<le> v'" by (simp add: word_le_nat_alt unat_div_10)
    with k lim show ?thesis by (intro exI [of _ "Suc k"]) (auto simp: unat_div_10 div_mult2_eq)
  next
    case False
    with "1.prems" show ?thesis by (intro exI [of _ 0]) (auto simp: issued_down.simps [of v off])
  qed
qed

lemma issued_down_fails:
  "issued_down v off = Inl e \<Longrightarrow> e = LThrow ''value overflow'' \<and> (\<exists>k. 10 ^ 16 \<le> unat v div 10 ^ k \<and> cMaxOffset \<le> off + int k)"
proof (induction v off rule: issued_down.induct)
  case (1 v off)
  then have v: "v > cMaxValue" by (auto simp: issued_down.simps [of v off] split: if_splits)
  show ?case
  proof (cases "cMaxOffset \<le> off")
    case True
    with v "1.prems" show ?thesis by (auto simp: issued_down.simps [of v off] word_less_nat_alt intro!: exI [of _ 0])
  next
    case False
    with v "1.prems" have "issued_down (v div 10) (off + 1) = Inl e" by (simp add: issued_down.simps [of v off])
    from "1.IH" [OF v False this] obtain k where "e = LThrow ''value overflow''" "10 ^ 16 \<le> unat (v div 10) div 10 ^ k" "cMaxOffset \<le> off + 1 + int k"
      by blast
    then show ?thesis by (auto simp: unat_div_10 div_mult2_eq intro!: exI [of _ "Suc k"])
  qed
qed

lemma native_down_spec: "native_down v off = (v', o') \<Longrightarrow> o' = max off 0 \<and> unat v' = unat v div 10 ^ nat (- off)"
proof (induction v off rule: native_down.induct)
  case (1 v off)
  show ?case
  proof (cases "off < 0")
    case True
    with "1.prems" have "native_down (v div 10) (off + 1) = (v', o')" by (simp add: native_down.simps [of v off])
    from "1.IH" [OF True this] have "o' = max (off + 1) 0" "unat v' = unat v div 10 div 10 ^ nat (- (off + 1))"
      by (simp_all add: unat_div_10)
    moreover have "nat (- off) = Suc (nat (- (off + 1)))" using True by simp
    ultimately show ?thesis using True by (simp add: div_mult2_eq)
  next
    case False
    with "1.prems" show ?thesis by (simp add: native_down.simps [of v off])
  qed
qed

lemma native_up_spec: "native_up v off = (v', o') \<Longrightarrow> o' = min off 0 \<and> v' = v * 10 ^ nat off"
proof (induction v off rule: native_up.induct)
  case (1 v off)
  show ?case
  proof (cases "off > 0")
    case True
    with "1.prems" have "native_up (v * 10) (off - 1) = (v', o')" by (simp add: native_up.simps [of v off])
    from "1.IH" [OF True this] have "o' = min (off - 1) 0" "v' = v * 10 * 10 ^ nat (off - 1)" by simp_all
    moreover have "nat off = Suc (nat (off - 1))" using True by simp
    ultimately show ?thesis using True by simp
  next
    case False
    with "1.prems" show ?thesis by (simp add: native_up.simps [of v off])
  qed
qed

section \<open>Normalisation\<close>

abbreviation magnitude :: "nat \<Rightarrow> int \<Rightarrow> real" where
  "magnitude v off \<equiv> real v * 10 powi off"

lemma abs_am_real: "\<bar>am_real a\<bar> = magnitude (unat (am_value a)) (am_offset a)"
proof -
  have eq: "\<bar>(if s then - 1 else 1) * real v * p\<bar> = real v * p" if "0 \<le> p" for s v and p :: real
    using that by (simp add: abs_mult)
  show ?thesis unfolding am_real_def by (rule eq) simp
qed

lemma magnitude_up: "magnitude (v * 10 ^ k) (off - int k) = magnitude v off"
proof -
  have "10 powi (off - int k) * 10 ^ k = (10 powi off :: real)"
    by (simp add: power_int_diff power_int_of_nat)
  then show ?thesis by (simp add: mult.commute mult.left_commute)
qed

lemma magnitude_down:
  "magnitude (v div 10 ^ k) (off + int k) \<le> magnitude v off"
  "magnitude v off < magnitude (v div 10 ^ k) (off + int k) + 10 powi (off + int k)"
proof -
  have p: "10 powi (off + int k) = (10 ^ k * 10 powi off :: real)" by (simp add: power_int_add power_int_of_nat)
  have "v div 10 ^ k * 10 ^ k \<le> v" by simp
  then have "real (v div 10 ^ k * 10 ^ k) \<le> real v" unfolding of_nat_le_iff .
  then have "real (v div 10 ^ k) * 10 ^ k \<le> real v" unfolding of_nat_mult of_nat_power by simp
  then have "real (v div 10 ^ k) * 10 ^ k * 10 powi off \<le> real v * 10 powi off" by (intro mult_right_mono) auto
  then show "magnitude (v div 10 ^ k) (off + int k) \<le> magnitude v off" unfolding p by (simp add: mult.assoc)
  have "v < (v div 10 ^ k + 1) * 10 ^ k" using dividend_less_div_times [of "10 ^ k" v] by (simp add: algebra_simps)
  then have "real v < real ((v div 10 ^ k + 1) * 10 ^ k)" unfolding of_nat_less_iff .
  then have "real v < (real (v div 10 ^ k) + 1) * 10 ^ k" unfolding of_nat_mult of_nat_power of_nat_add by simp
  then have "real v * 10 powi off < (real (v div 10 ^ k) + 1) * 10 ^ k * 10 powi off" by (intro mult_strict_right_mono) auto
  then show "magnitude v off < magnitude (v div 10 ^ k) (off + int k) + 10 powi (off + int k)"
    unfolding p by (simp add: algebra_simps)
qed

lemma magnitude_less: "v < 10 ^ n \<Longrightarrow> off \<le> d \<Longrightarrow> magnitude v off < 10 powi (int n + d)"
proof -
  assume a: "v < 10 ^ n" "off \<le> d"
  have "real v < 10 ^ n" using a(1) of_nat_less_iff [of v "10 ^ n", where 'a = real] by simp
  then have "magnitude v off < 10 ^ n * 10 powi off" by (intro mult_strict_right_mono) auto
  also have "\<dots> \<le> 10 ^ n * 10 powi d" using a(2) by (intro mult_left_mono power_int_increasing) auto
  also have "\<dots> = 10 powi (int n + d)" by (simp add: power_int_add power_int_of_nat)
  finally show ?thesis .
qed

lemma magnitude_geq: "10 ^ n \<le> v \<Longrightarrow> d \<le> off \<Longrightarrow> 10 powi (int n + d) \<le> magnitude v off"
proof -
  assume a: "10 ^ n \<le> v" "d \<le> off"
  have "(10 :: real) ^ n \<le> real v" using a(1) of_nat_le_iff [of "10 ^ n" v, where 'a = real] by simp
  then have "10 ^ n * 10 powi d \<le> magnitude v off" using a(2) by (intro mult_mono power_int_increasing) auto
  then show ?thesis by (simp add: power_int_add power_int_of_nat)
qed

lemma magnitude_Suc_le: "v < 10 ^ n \<Longrightarrow> off \<le> d \<Longrightarrow> magnitude (v + 1) off \<le> 10 powi (int n + d)"
proof -
  assume a: "v < 10 ^ n" "off \<le> d"
  have "real (v + 1) \<le> real (10 ^ n)" using a(1) unfolding of_nat_le_iff by simp
  then have "magnitude (v + 1) off \<le> 10 ^ n * 10 powi d" using a(2) by (intro mult_mono power_int_increasing) auto
  then show ?thesis by (simp add: power_int_add power_int_of_nat)
qed

text \<open>
  An issued amount comes out in normal form, rounded towards zero by less than a unit of its last place, or
  as zero when it is below the least normal number; it is refused exactly when it is too large.
\<close>

lemma canonicalize_issued_Inr:
  assumes "\<not> isXRP_amount a" "canonicalize a = Inr b"
  shows "am_canonical b \<and> am_issue b = am_issue a \<and> \<bar>am_real a\<bar> < 10 powi 96 \<and>
    (if am_value b = 0 then \<bar>am_real a\<bar> < 10 powi (- 81)
     else am_negative b = am_negative a \<and> \<bar>am_real b\<bar> \<le> \<bar>am_real a\<bar> \<and> \<bar>am_real a\<bar> < \<bar>am_real b\<bar> + 10 powi am_offset b)"
proof (cases "am_value a = 0")
  case True
  with assms have b: "b = a\<lparr>am_native := False, am_offset := - 100, am_negative := False\<rparr>" by (simp add: canonicalize_def)
  with True assms(1) show ?thesis by (simp add: am_canonical_def isXRP_amount_def am_real_def)
next
  case False
  obtain v1 o1 where up: "issued_up (am_value a) (am_offset a) = (v1, o1)" by fastforce
  with False assms obtain v2 o2 where down: "issued_down v1 o1 = Inr (v2, o2)"
    by (auto simp: canonicalize_def result_simps)
  from issued_up_spec [OF up] obtain k where k: "unat v1 = unat (am_value a) * 10 ^ k" "o1 = am_offset a - int k"
    "v1 \<ge> cMinValue \<or> o1 \<le> cMinOffset" by blast
  from issued_down_spec [OF down] obtain j where j: "unat v2 = unat v1 div 10 ^ j" "o2 = o1 + int j" "v2 \<le> cMaxValue"
    "j > 0 \<longrightarrow> cMinValue \<le> v2" by blast
  have M: "\<bar>am_real a\<bar> = magnitude (unat v1) o1" unfolding abs_am_real k(1,2) magnitude_up ..
  have low: "magnitude (unat v2) o2 \<le> \<bar>am_real a\<bar>" and high: "\<bar>am_real a\<bar> < magnitude (unat v2 + 1) o2"
    using magnitude_down [where v = "unat v1" and k = j and off = o1] unfolding M j(1,2) by (simp_all add: algebra_simps)
  have v2: "unat v2 < 10 ^ 16" using j(3) by (simp add: word_le_nat_alt)
  show ?thesis
  proof (cases "o2 < cMinOffset \<or> v2 < cMinValue")
    case True
    then have b: "b = a\<lparr>am_native := False, am_value := 0, am_negative := False, am_offset := - 100\<rparr>"
      using False assms up down by (simp add: canonicalize_def)
    have "\<bar>am_real a\<bar> < 10 powi (- 81)"
    proof (cases "o2 < cMinOffset")
      case True
      then have "o2 \<le> - 97" by simp
      from high magnitude_Suc_le [OF v2 this] show ?thesis by simp
    next
      case False
      with True have "v2 < cMinValue" by simp
      with j(4) have "j = 0" by auto
      with \<open>v2 < cMinValue\<close> k(3) j(1,2) have "unat v1 < 10 ^ 15" "o1 \<le> - 96" by (auto simp: word_less_nat_alt word_le_nat_alt)
      from magnitude_less [OF this] show ?thesis unfolding M by simp
    qed
    moreover have "(10 :: real) powi (- 81) < 10 powi 96" by (intro power_int_strict_increasing) simp_all
    ultimately show ?thesis using assms(1) by (simp add: b am_canonical_def isXRP_amount_def)
  next
    case False
    then have b: "b = a\<lparr>am_native := False, am_value := v2, am_offset := o2\<rparr>" "o2 \<le> cMaxOffset"
      using \<open>am_value a \<noteq> 0\<close> assms up down by (auto simp: canonicalize_def result_simps split: if_splits)
    from high magnitude_Suc_le [OF v2 b(2)] have "\<bar>am_real a\<bar> < 10 powi 96" by simp
    moreover have "\<bar>am_real b\<bar> = magnitude (unat v2) o2" unfolding abs_am_real b by simp
    moreover have "magnitude (unat v2 + 1) o2 = magnitude (unat v2) o2 + 10 powi o2" by (simp add: algebra_simps)
    moreover have "v2 \<noteq> 0" using False by auto
    ultimately show ?thesis using low high False j(3) b assms(1) by (simp add: am_canonical_def isXRP_amount_def not_less)
  qed
qed

lemma canonicalize_issued_Inl:
  assumes "\<not> isXRP_amount a" "canonicalize a = Inl e"
  shows "e = LThrow ''value overflow'' \<and> 10 powi 96 \<le> \<bar>am_real a\<bar>"
proof -
  obtain v1 o1 where up: "issued_up (am_value a) (am_offset a) = (v1, o1)" by fastforce
  have nz: "am_value a \<noteq> 0" using assms by (auto simp: canonicalize_def)
  from issued_up_spec [OF up] obtain k where k: "unat v1 = unat (am_value a) * 10 ^ k" "o1 = am_offset a - int k" by blast
  have M: "\<bar>am_real a\<bar> = magnitude (unat v1) o1" unfolding abs_am_real k(1,2) magnitude_up ..
  show ?thesis
  proof (cases "issued_down v1 o1")
    case (Inl e')
    from issued_down_fails [OF Inl] obtain j where j: "e' = LThrow ''value overflow''" "10 ^ 16 \<le> unat v1 div 10 ^ j" "80 \<le> o1 + int j"
      by blast
    have "10 powi 96 \<le> \<bar>am_real a\<bar>"
      using magnitude_geq [OF j(2,3)] magnitude_down(1) [where v = "unat v1" and k = j and off = o1] unfolding M by simp
    with Inl nz assms up j(1) show ?thesis by (simp add: canonicalize_def)
  next
    case (Inr r)
    then obtain v2 o2 where down: "issued_down v1 o1 = Inr (v2, o2)" by (cases r) simp
    from issued_down_spec [OF down] obtain j where j: "unat v2 = unat v1 div 10 ^ j" "o2 = o1 + int j" "v2 \<le> cMaxValue" by blast
    from down nz assms up j(3) have big: "e = LThrow ''value overflow''" "cMaxOffset < o2" "cMinValue \<le> v2"
      by (auto simp: canonicalize_def led_assert_def not_less split: if_splits)
    then have "10 ^ 15 \<le> unat v1 div 10 ^ j" "81 \<le> o1 + int j" using j by (simp_all add: word_le_nat_alt)
    from magnitude_geq [OF this] magnitude_down(1) [where v = "unat v1" and k = j and off = o1] big(1)
    show ?thesis unfolding M by simp
  qed
qed

text \<open>A native amount loses its fraction; a positive exponent multiplies without a check of the width.\<close>

lemma canonicalize_native:
  assumes "isXRP_amount a" "am_value a \<noteq> 0" "canonicalize a = Inr b"
  shows "am_native b \<and> am_offset b = 0 \<and> am_negative b = am_negative a \<and> am_issue b = am_issue a \<and> am_value b \<le> cMaxNativeN \<and>
    (if am_offset a \<le> 0 then unat (am_value b) = unat (am_value a) div 10 ^ nat (- am_offset a)
     else am_value b = am_value a * 10 ^ nat (am_offset a))"
proof -
  obtain v1 o1 where down: "native_down (am_value a) (am_offset a) = (v1, o1)" by fastforce
  obtain v2 o2 where up: "native_up v1 o1 = (v2, o2)" by fastforce
  from assms down up have b: "b = a\<lparr>am_native := True, am_value := v2, am_offset := o2\<rparr>" "v2 \<le> cMaxNativeN"
    by (auto simp: canonicalize_def split: if_splits)
  have "v1 = am_value a" if "0 < am_offset a" using that down by (simp add: native_down.simps [of "am_value a"])
  with native_down_spec [OF down] native_up_spec [OF up] b(2) show ?thesis
    by (cases "am_offset a \<le> 0") (auto simp: b(1))
qed

lemma canonicalize_id:
  assumes "am_canonical a" "\<not> am_native a" "am_value a \<noteq> 0"
  shows "canonicalize (a\<lparr>am_native := n\<rparr>) = Inr a"
proof -
  from assms have r: "cMinValue \<le> am_value a" "am_value a \<le> cMaxValue" "cMinOffset \<le> am_offset a" "am_offset a \<le> cMaxOffset" "\<not> isXRP_amount a"
    by (simp_all add: am_canonical_def)
  have "issued_up (am_value a) (am_offset a) = (am_value a, am_offset a)" using r(1) by (auto simp: issued_up.simps [of "am_value a"])
  moreover have "issued_down (am_value a) (am_offset a) = Inr (am_value a, am_offset a)" using r(2) by (auto simp: issued_down.simps [of "am_value a"])
  moreover have "a\<lparr>am_native := False\<rparr> = a" using assms(2) by (cases a) simp
  ultimately show ?thesis using r assms(3) by (simp add: canonicalize_def isXRP_amount_def not_less)
qed

section \<open>Binary form\<close>

definition am_head :: "STAmount \<Rightarrow> 64 word" where
  "am_head a =
     (if am_native a then if am_negative a then am_value a else am_value a OR cPosNative
      else if am_value a = 0 then cNotNative
      else am_value a OR push_bit 54 (word_of_int (am_offset a + (if am_negative a then 512 + 97 else 512 + 256 + 97))))"

definition am_bytes :: "STAmount \<Rightarrow> Blob" where
  "am_bytes a = be_bytes 8 (am_head a) @
     (if am_native a then [] else be_bytes 20 (iss_currency (am_issue a)) @ be_bytes 20 (iss_account (am_issue a)))"

lemma STAmount_add_bytes: "am_wire a \<Longrightarrow> STAmount_add a s = Inr (s @ am_bytes a)"
  by (auto simp: STAmount_add_def am_bytes_def am_head_def am_wire_def am_canonical_def add64_bytes add160_def am_is_zero_def am_signum_def
    Let_def add.assoc)

lemma head_flags:
  "bit cPosNative i \<longleftrightarrow> i = 62" "bit cNotNative i \<longleftrightarrow> i = 63" "bit (push_bit 54 1023 :: 64 word) i \<longleftrightarrow> 54 \<le> i \<and> i < 64"
proof -
  have "cPosNative = 2 ^ 62" "cNotNative = 2 ^ 63" by simp_all
  then show "bit cPosNative i \<longleftrightarrow> i = 62" "bit cNotNative i \<longleftrightarrow> i = 63" by (simp_all only: bit_exp_iff possible_bit_word) auto
  have "push_bit 54 1023 = (push_bit 54 (mask 10) :: 64 word)" by (simp add: mask_eq_exp_minus_1)
  then show "bit (push_bit 54 1023 :: 64 word) i \<longleftrightarrow> 54 \<le> i \<and> i < 64" by (simp only: bit_push_bit_iff bit_mask_iff possible_bit_word) auto
qed

lemma bit_below: "unat w < 2 ^ n \<Longrightarrow> bit w i \<Longrightarrow> i < n" for w :: "'a::len word"
proof -
  assume "unat w < 2 ^ n" "bit w i"
  then have "take_bit n (unat w) = unat w" "bit (unat w) i" by (simp_all add: take_bit_nat_eq_self bit_unsigned_iff bit_imp_le_length)
  then show "i < n" by (metis bit_take_bit_iff)
qed

lemma native_bits:
  fixes v P N :: "64 word"
  assumes "unat v < 2 ^ 62" and P: "\<And>i. bit P i \<longleftrightarrow> i = 62" and N: "\<And>i. bit N i \<longleftrightarrow> i = 63"
  shows "(v OR P) AND N = 0 \<and> v AND N = 0 \<and> (v OR P) AND P \<noteq> 0 \<and> v AND P = 0 \<and> (v OR P) AND NOT P = v"
proof -
  note low = bit_below [OF assms(1)]
  have "(v OR P) AND N = 0" "v AND N = 0" "v AND P = 0" "(v OR P) AND NOT P = v"
    by (rule bit_word_eqI; auto simp: bit_or_iff bit_and_iff bit_not_iff P N dest: low)+
  moreover have "bit ((v OR P) AND P) 62" by (simp add: bit_or_iff bit_and_iff P)
  then have "(v OR P) AND P \<noteq> 0" by auto
  ultimately show ?thesis by simp
qed

lemmas head_native = native_bits [OF _ head_flags(1,2)]

lemma issued_bits:
  fixes v N M :: "64 word"
  assumes "unat v < 2 ^ 54" "512 \<le> n" "n < 1024" and N: "\<And>i. bit N i \<longleftrightarrow> i = 63" and M: "\<And>i. bit M i \<longleftrightarrow> 54 \<le> i \<and> i < 64"
  shows "(v OR push_bit 54 (word_of_int n)) AND N \<noteq> 0 \<and> uint (drop_bit 54 (v OR push_bit 54 (word_of_int n))) = n \<and>
    (v OR push_bit 54 (word_of_int n)) AND NOT M = v"
proof -
  let ?w = "v OR push_bit 54 (word_of_int n)"
  note low = bit_below [OF assms(1)]
  have bits: "bit (word_of_int n :: 64 word) i \<longleftrightarrow> i < 10 \<and> bit n i" for i
  proof -
    have "take_bit 10 n = n" using assms(2,3) by (simp add: take_bit_int_eq_self)
    then have "bit n i \<Longrightarrow> i < 10" by (metis bit_take_bit_iff)
    then show ?thesis by (auto simp: bit_simps)
  qed
  have "drop_bit 54 ?w = word_of_int n"
    by (rule bit_word_eqI) (auto simp: bit_or_iff bit_push_bit_iff bit_drop_bit_eq bits dest: low)
  then have "uint (drop_bit 54 ?w) = n" using assms(2,3) by (simp add: uint_word_of_int)
  moreover have "?w AND NOT M = v"
    by (rule bit_word_eqI) (auto simp: bit_or_iff bit_and_iff bit_not_iff bit_push_bit_iff bits M dest: low)
  moreover have "n div 2 ^ 9 = 1" using assms(2,3) by simp
  then have "bit n 9" by (simp add: bit_iff_odd)
  then have "bit (?w AND N) 63" by (simp add: bit_or_iff bit_and_iff bit_push_bit_iff bits N)
  then have "?w AND N \<noteq> 0" by auto
  ultimately show ?thesis by simp
qed

lemmas head_issued = issued_bits [OF _ _ _ head_flags(2,3)]

lemma offset_bits:
  assumes "cMinOffset \<le> off" "off \<le> cMaxOffset"
  shows "(off + (if neg then 512 + 97 else 512 + 256 + 97)) AND 256 = 0 \<longleftrightarrow> neg"
    and "(off + (if neg then 512 + 97 else 512 + 256 + 97)) AND 255 = off + 97"
proof -
  define t where "t = off + 97"
  have t: "0 \<le> t" "t < 256" using assms by (simp_all add: t_def)
  have low: "x AND 255 = x mod 256" for x :: int
    unfolding int_ff_mask by (simp flip: take_bit_eq_mask add: take_bit_eq_mod)
  have flag: "x AND 256 = 0 \<longleftrightarrow> even (x div 256)" for x :: int
  proof -
    have "(256 :: int) = 2 ^ 8" by simp
    then show ?thesis by (simp only: and_exp_eq_0_iff_not_bit bit_iff_odd not_not)
  qed
  have d: "(512 + t) div 256 = 2" "(768 + t) div 256 = 3" "(512 + t) mod 256 = t" "(768 + t) mod 256 = t"
    using t int_div_pos_eq [of "512 + t" 256 2 t] int_div_pos_eq [of "768 + t" 256 3 t]
      int_mod_pos_eq [of "512 + t" 256 2 t] int_mod_pos_eq [of "768 + t" 256 3 t] by simp_all
  show "(off + (if neg then 512 + 97 else 512 + 256 + 97)) AND 256 = 0 \<longleftrightarrow> neg"
    using d(1,2) unfolding flag by (auto simp: t_def add.commute add.left_commute)
  show "(off + (if neg then 512 + 97 else 512 + 256 + 97)) AND 255 = off + 97"
    using d(3,4) unfolding low by (auto simp: t_def add.commute add.left_commute)
qed

lemma STAmount_read_bytes:
  assumes wire: "am_wire a" and it: "si_ok it" "si_rest it = am_bytes a @ bs"
  shows "STAmount_read it = Inr (a, si_advance (length (am_bytes a)) it)"
proof -
  let ?it = "si_advance 8 it"
  have rest: "si_rest it = be_bytes 8 (am_head a) @ drop 8 (am_bytes a) @ bs" using it(2) by (simp add: am_bytes_def)
  have head: "si_get64 it = Inr (am_head a, ?it)"
    using si_get64_rest [OF it(1) rest] by (simp add: be_word_bytes_all)
  show ?thesis
  proof (cases "am_native a")
    case True
    with wire have n: "am_issue a = xrpIssue" "am_offset a = 0" "unat (am_value a) < 2 ^ 62" "am_value a = 0 \<longrightarrow> \<not> am_negative a"
      by (simp_all add: am_wire_def am_canonical_def word_less_nat_alt)
    then have "a = STAmount_unchecked xrpIssue (am_value a) 0 True (am_negative a)" using True by (cases a) (simp add: STAmount_unchecked_def)
    with True n(4) head head_native [OF n(3)] show ?thesis by (cases "am_negative a") (simp_all add: STAmount_read_def am_head_def am_bytes_def)
  next
    case False
    let ?c = "iss_currency (am_issue a)" and ?i = "iss_account (am_issue a)"
    from wire False have c: "am_canonical a" "?c \<noteq> 0" "?i \<noteq> 0"
      by (auto simp: am_wire_def am_canonical_def isXRP_amount_def isXRP_currency_def)
    have it1: "si_ok ?it" "si_rest ?it = be_bytes 20 ?c @ be_bytes 20 ?i @ bs"
      using it False by (simp_all add: si_advance_ok am_bytes_def)
    have it3: "si_ok (si_advance 28 it)" "si_rest (si_advance 28 it) = be_bytes 20 ?i @ bs"
      using it False by (simp_all add: si_advance_ok am_bytes_def)
    have it2: "si_getBitString 20 ?it = Inr (?c, si_advance 28 it)" "si_getBitString 20 (si_advance 28 it) = Inr (?i, si_advance 48 it)"
      using si_getBitString_rest [OF it1, of 20, where 'a = 160] si_getBitString_rest [OF it3, of 20, where 'a = 160]
      by (simp_all add: be_word_bytes_all si_advance_advance)
    have len: "length (am_bytes a) = 48" using False by (simp add: am_bytes_def)
    have iss: "\<lparr>iss_currency = ?c, iss_account = ?i\<rparr> = am_issue a" by simp
    show ?thesis
    proof (cases "am_value a = 0")
      case True
      have z: "a = \<lparr>am_issue = am_issue a, am_value = 0, am_offset = - 100, am_native = False, am_negative = False\<rparr>"
        using True False c(1) by (cases a) (simp add: am_canonical_def)
      have "STAmount_of (am_issue a) 0 0 False = Inr a"
        unfolding STAmount_of_def STAmount_unchecked_def using c(2) by (subst (2) z) (simp add: canonicalize_def isXRP_amount_def isXRP_currency_def)
      with True False head it2 c(2,3) show ?thesis
        by (simp add: STAmount_read_def am_head_def len isXRP_currency_def isXRP_account_def iss)
    next
      case nz: False
      define n where "n = am_offset a + (if am_negative a then 512 + 97 else 512 + 256 + 97)"
      from c(1) nz False have r: "cMinValue \<le> am_value a" "am_value a \<le> cMaxValue" "cMinOffset \<le> am_offset a" "am_offset a \<le> cMaxOffset"
        by (simp_all add: am_canonical_def)
      then have lim: "\<not> am_value a < cMinValue" "\<not> am_value a > cMaxValue" by auto
      have "unat (am_value a) < 2 ^ 54" using r(2) by (simp add: word_le_nat_alt)
      moreover have "512 \<le> n" "n < 1024" using r(3,4) by (auto simp: n_def)
      ultimately have h: "am_head a AND cNotNative \<noteq> 0" "uint (drop_bit 54 (am_head a)) = n" "am_head a AND NOT (push_bit 54 1023) = am_value a"
        using head_issued [of "am_value a" n] nz False unfolding am_head_def n_def by simp_all
      have bits: "n AND 256 = 0 \<longleftrightarrow> am_negative a" "n AND 255 = am_offset a + 97"
        using offset_bits [OF r(3,4), of "am_negative a"] unfolding n_def by simp_all
      have "STAmount_of (am_issue a) (am_value a) (am_offset a) (am_negative a) = Inr a"
        using canonicalize_id [OF c(1) False nz, of False] False unfolding STAmount_of_def STAmount_unchecked_def by (cases a) simp
      with nz head it2 c(2,3) h r(3,4) lim bits show ?thesis
        by (simp add: STAmount_read_def len isXRP_currency_def isXRP_account_def iss)
    qed
  qed
qed

interpretation amounts: codec am_wire "\<lambda>_. ()" am_bytes "\<lambda>_. STAmount_read"
  by unfold_locales (rule STAmount_read_bytes)

section \<open>Comparison\<close>

text \<open>Between normal numbers, a larger exponent wins, then a larger mantissa.\<close>

lemma magnitude_compare:
  assumes "am_canonical a" "am_canonical b" "areComparable a b" "am_value a \<noteq> 0" "am_value b \<noteq> 0"
  shows "magnitude (unat (am_value a)) (am_offset a) < magnitude (unat (am_value b)) (am_offset b) \<longleftrightarrow>
    am_offset a < am_offset b \<or> (am_offset a = am_offset b \<and> am_value a < am_value b)"
proof -
  have step: "magnitude (unat (am_value x)) (am_offset x) < magnitude (unat (am_value y)) (am_offset y)"
    if "am_canonical x" "am_canonical y" "areComparable x y" "am_value x \<noteq> 0" "am_value y \<noteq> 0" "am_offset x < am_offset y" for x y
  proof -
    from that have n: "\<not> am_native x" "\<not> am_native y" by (auto simp: am_canonical_def areComparable_def)
    with that have "unat (am_value x) < 10 ^ 16" "10 ^ 15 \<le> unat (am_value y)" "am_offset x \<le> am_offset y - 1"
      by (simp_all add: am_canonical_def word_le_nat_alt)
    from magnitude_less [OF this(1,3)] magnitude_geq [OF this(2) order_refl, of "am_offset y"] show ?thesis by simp
  qed
  have same: "magnitude v off < magnitude w off \<longleftrightarrow> v < w" for v w off by simp
  show ?thesis
  proof (cases "am_offset a" "am_offset b" rule: linorder_cases)
    case less
    with step [OF assms] show ?thesis by blast
  next
    case equal
    then show ?thesis unfolding equal same by (simp add: word_less_nat_alt)
  next
    case greater
    moreover have "areComparable b a" using assms(3) by (auto simp: areComparable_def)
    ultimately show ?thesis using step [OF assms(2,1)] assms by fastforce
  qed
qed

lemma am_real_sign: "am_real a = (if am_negative a then - \<bar>am_real a\<bar> else \<bar>am_real a\<bar>)"
proof -
  have "0 \<le> magnitude v off" for v off by simp
  then show ?thesis unfolding abs_am_real by (simp add: am_real_def)
qed

lemma am_real_zero: "\<bar>am_real a\<bar> = 0 \<longleftrightarrow> am_value a = 0"
proof -
  have "magnitude v off = 0 \<longleftrightarrow> v = 0" for v off by simp
  then show ?thesis unfolding abs_am_real by (simp only: unat_eq_0)
qed

lemma am_less_real:
  assumes "am_canonical a" "am_canonical b" "areComparable a b"
  shows "am_less a b = Inr (am_real a < am_real b)"
proof -
  have sgn: "am_value x = 0 \<longrightarrow> \<not> am_negative x" if "am_canonical x" for x using that by (simp add: am_canonical_def)
  note m = magnitude_compare [folded abs_am_real]
  have ba: "areComparable b a" using assms(3) by (auto simp: areComparable_def)
  consider "am_value a = 0" | "am_value a \<noteq> 0" "am_value b = 0" | "am_value a \<noteq> 0" "am_value b \<noteq> 0" by blast
  then show ?thesis
  proof cases
    case 1
    then show ?thesis using sgn [OF assms(1)] assms(3) am_real_zero [of a] am_real_zero [of b] am_real_sign [of a] am_real_sign [of b]
      by (auto simp: am_less_def)
  next
    case 2
    then show ?thesis using sgn [OF assms(2)] assms(3) am_real_zero [of a] am_real_zero [of b] am_real_sign [of a] am_real_sign [of b]
      by (auto simp: am_less_def)
  next
    case 3
    note lt = m [OF assms 3] and gt = m [OF assms(2,1) ba 3(2,1)]
    have pos: "0 < \<bar>am_real a\<bar>" "0 < \<bar>am_real b\<bar>" using 3 am_real_zero [of a] am_real_zero [of b] by linarith+
    show ?thesis
    proof (cases "am_negative a = am_negative b")
      case False
      then show ?thesis using 3 assms(3) pos am_real_sign [of a] am_real_sign [of b] by (auto simp: am_less_def)
    next
      case True
      let ?lt = "am_offset a < am_offset b \<or> (am_offset a = am_offset b \<and> am_value a < am_value b)"
      let ?gt = "am_offset b < am_offset a \<or> (am_offset b = am_offset a \<and> am_value b < am_value a)"
      have "am_less a b = Inr (if am_negative a then ?gt else ?lt)" using 3 True assms(3) by (auto simp: am_less_def)
      moreover have "am_real a < am_real b \<longleftrightarrow> (if am_negative a then \<bar>am_real b\<bar> < \<bar>am_real a\<bar> else \<bar>am_real a\<bar> < \<bar>am_real b\<bar>)"
      proof -
        have "x < y \<longleftrightarrow> (if n then \<bar>y\<bar> < \<bar>x\<bar> else \<bar>x\<bar> < \<bar>y\<bar>)"
          if "x = (if n then - \<bar>x\<bar> else \<bar>x\<bar>)" "y = (if n then - \<bar>y\<bar> else \<bar>y\<bar>)" for x y :: real and n
          using that by (cases n; simp; linarith)
        from this [OF am_real_sign am_real_sign [of b, folded True]] show ?thesis .
      qed
      ultimately show ?thesis using lt gt by simp
    qed
  qed
qed

lemma am_eq_real:
  assumes "am_canonical a" "am_canonical b" "areComparable a b"
  shows "am_eq a b \<longleftrightarrow> am_real a = am_real b"
proof
  assume "am_eq a b"
  then show "am_real a = am_real b" by (simp add: am_eq_def am_real_def)
next
  assume eq: "am_real a = am_real b"
  have ba: "areComparable b a" using assms(3) by (auto simp: areComparable_def)
  show "am_eq a b"
  proof (cases "am_value a = 0")
    case True
    then have "am_value b = 0" using am_real_zero [of a] am_real_zero [of b] eq by simp
    with True assms show ?thesis by (auto simp: am_eq_def am_canonical_def areComparable_def)
  next
    case False
    then have nz: "am_value b \<noteq> 0" "am_real a \<noteq> 0" using am_real_zero [of a] am_real_zero [of b] eq by simp_all
    note m = magnitude_compare [folded abs_am_real]
    from m [OF assms False nz(1)] m [OF assms(2,1) ba nz(1) False] eq have "am_offset a = am_offset b" "am_value a = am_value b" by auto
    moreover have "am_negative a = am_negative b" using am_real_sign [of a] am_real_sign [of b] eq nz(2) by (auto split: if_splits)
    ultimately show ?thesis using assms(3) by (simp add: am_eq_def)
  qed
qed

section \<open>Sums\<close>

definition signed_nat :: "bool \<Rightarrow> nat \<Rightarrow> int" where
  "signed_nat neg n = (if neg then - int n else int n)"

lemma cdiv_signed: "cdiv (signed_nat neg n) 10 = signed_nat neg (n div 10)"
  by (auto simp: cdiv_def signed_nat_def zdiv_int)

lemma align_down_signed:
  "align_down (signed_nat neg n) off t = (signed_nat neg (n div 10 ^ nat (t - off)), max off t)"
proof (induction "signed_nat neg n" off t arbitrary: n rule: align_down.induct)
  case (1 off t)
  show ?case
  proof (cases "off < t")
    case True
    then have "nat (t - off) = Suc (nat (t - (off + 1)))" by simp
    with True "1.hyps" [OF True, of "n div 10"] show ?thesis
      by (simp add: align_down.simps [of "signed_nat neg n"] cdiv_signed div_mult2_eq)
  next
    case False
    then show ?thesis by (simp add: align_down.simps [of "signed_nat neg n"])
  qed
qed

lemma signed_real: "am_real a = real_of_int (signed_nat (am_negative a) (unat (am_value a))) * 10 powi am_offset a"
  unfolding am_real_def signed_nat_def by (simp del: of_nat_unat)

lemma signed_trunc:
  "\<bar>real_of_int (signed_nat neg (n div 10 ^ k)) * 10 powi (off + int k) - real_of_int (signed_nat neg n) * 10 powi off\<bar> < 10 powi (off + int k)"
  using magnitude_down [where v = n and k = k and off = off] by (auto simp: signed_nat_def)

text \<open>One of the two mantissas is cut to the exponent of the other.\<close>

lemma aligned_sum:
  assumes "off = max o1 o2"
  shows "\<bar>real_of_int (signed_nat s1 (n1 div 10 ^ nat (o2 - o1)) + signed_nat s2 (n2 div 10 ^ nat (off - o2))) * 10 powi off -
    (real_of_int (signed_nat s1 n1) * 10 powi o1 + real_of_int (signed_nat s2 n2) * 10 powi o2)\<bar> < 10 powi off"
proof (cases "o1 \<le> o2")
  case True
  with assms have "off = o2" "off = o1 + int (nat (o2 - o1))" by simp_all
  with signed_trunc [of s1 n1 "nat (o2 - o1)" o1] True show ?thesis by (simp add: distrib_right)
next
  case False
  with assms have "off = o1" "off = o2 + int (nat (off - o2))" by simp_all
  with signed_trunc [of s2 n2 "nat (off - o2)" o2] False show ?thesis by (simp add: distrib_right)
qed

lemma sint_small: "unat w < 2 ^ 63 \<Longrightarrow> sint w = int (unat w)" for w :: "64 word"
proof -
  assume "unat w < 2 ^ 63"
  then have "int (unat w) < int (2 ^ 63)" by (simp only: of_nat_less_iff)
  then have "uint w < 2 ^ 63" by simp
  moreover have "- (2 ^ 63) \<le> uint w" by (rule order_trans [OF _ uint_ge_0]) simp
  ultimately have "signed_take_bit 63 (uint w) = uint w" by (intro signed_take_bit_int_eq_self)
  then show ?thesis by (simp add: sint_uint)
qed

lemma sint_mantissa: "am_canonical a \<Longrightarrow> \<not> am_native a \<Longrightarrow> sint (am_value a) = int (unat (am_value a)) \<and> unat (am_value a) < 10 ^ 16"
proof -
  assume "am_canonical a" "\<not> am_native a"
  then have "unat (am_value a) < 10 ^ 16" by (auto simp: am_canonical_def word_le_nat_alt split: if_splits)
  then show ?thesis using sint_small [of "am_value a"] by simp
qed

lemma STAmount_of_real:
  assumes "iss_currency issue \<noteq> 0" "\<bar>fv\<bar> < 2 ^ 63"
  shows "case STAmount_of issue (word_of_int \<bar>fv\<bar>) off (fv < 0) of
      Inr c \<Rightarrow> am_canonical c \<and> am_issue c = issue \<and>
        (if am_value c = 0 then \<bar>real_of_int fv * 10 powi off\<bar> < 10 powi (- 81)
         else \<bar>am_real c - real_of_int fv * 10 powi off\<bar> < 10 powi am_offset c \<and> \<bar>am_real c\<bar> \<le> \<bar>real_of_int fv * 10 powi off\<bar>)
    | Inl e \<Rightarrow> e = LThrow ''value overflow'' \<and> 10 powi 96 \<le> \<bar>real_of_int fv * 10 powi off\<bar>"
proof -
  let ?a = "STAmount_unchecked issue (word_of_int \<bar>fv\<bar>) off False (fv < 0)"
  have "unat (word_of_int \<bar>fv\<bar> :: 64 word) = nat \<bar>fv\<bar>"
    using assms(2) by (simp add: unat_eq_nat_uint uint_word_of_int mod_pos_pos_trivial)
  then have real: "am_real ?a = real_of_int fv * 10 powi off"
    unfolding signed_real STAmount_unchecked_def by (simp add: signed_nat_def)
  have x: "\<not> isXRP_amount ?a" using assms(1) by (simp add: isXRP_amount_def isXRP_currency_def STAmount_unchecked_def)
  have sgn: "\<bar>x - y\<bar> = \<bar>y\<bar> - \<bar>x\<bar>"
    if "x = (if n then - \<bar>x\<bar> else \<bar>x\<bar>)" "y = (if n then - \<bar>y\<bar> else \<bar>y\<bar>)" "\<bar>x\<bar> \<le> \<bar>y\<bar>" for x y :: real and n
    using that by (cases n; simp; linarith)
  show ?thesis
  proof (cases "canonicalize ?a")
    case (Inl e)
    with canonicalize_issued_Inl [OF x Inl] show ?thesis by (simp add: STAmount_of_def real)
  next
    case (Inr c)
    note c = canonicalize_issued_Inr [OF x Inr]
    have "am_issue c = issue" using c by (simp add: STAmount_unchecked_def)
    moreover have "\<bar>am_real c - am_real ?a\<bar> < 10 powi am_offset c" if nz: "am_value c \<noteq> 0"
    proof -
      have n: "am_negative c = am_negative ?a" using c nz by simp
      from sgn [OF am_real_sign am_real_sign [of ?a, folded n]] c nz show ?thesis by simp
    qed
    ultimately show ?thesis using Inr c real by (auto simp: STAmount_of_def)
  qed
qed

text \<open>
  The sum of issued amounts is off by less than eleven units of the larger exponent, and no intermediate
  result leaves the 64 bit integers.
\<close>

lemma sum_scaled:
  assumes "am_canonical c" "\<not> am_native c" "am_value c \<noteq> 0" "\<bar>fv\<bar> \<le> 2 * 10 ^ 16" "\<bar>am_real c\<bar> \<le> \<bar>real_of_int fv * 10 powi off\<bar>"
  shows "am_offset c \<le> off + 1"
proof -
  from assms(1-3) have "10 ^ 15 \<le> unat (am_value c)" by (simp add: am_canonical_def word_le_nat_alt)
  from magnitude_geq [OF this order_refl, of "am_offset c"] have "10 powi (15 + am_offset c) \<le> \<bar>am_real c\<bar>"
    unfolding abs_am_real by simp
  also have "\<dots> \<le> real_of_int \<bar>fv\<bar> * 10 powi off" using assms(5) by (simp add: abs_mult)
  also have "\<dots> \<le> (2 * 10 ^ 16) * 10 powi off"
  proof -
    have "real_of_int \<bar>fv\<bar> \<le> real_of_int (2 * 10 ^ 16)" using assms(4) unfolding of_int_le_iff .
    then show ?thesis by (intro mult_right_mono) simp_all
  qed
  also have "\<dots> < 10 ^ 17 * 10 powi off" by simp
  also have "\<dots> = 10 powi (17 + off)" by (simp add: power_int_add)
  finally have less: "(10 :: real) powi (15 + am_offset c) < 10 powi (17 + off)" .
  have "15 + am_offset c < 17 + off"
  proof (rule ccontr)
    assume "\<not> 15 + am_offset c < 17 + off"
    then have "(10 :: real) powi (17 + off) \<le> 10 powi (15 + am_offset c)" by (intro power_int_increasing) simp_all
    with less show False by simp
  qed
  then show ?thesis by simp
qed

lemma am_plus_issued_step:
  assumes iss: "iss_currency issue \<noteq> 0" and fv: "\<bar>fv\<bar> \<le> 2 * 10 ^ 16" and near: "\<bar>real_of_int fv * 10 powi off - x\<bar> < 10 powi off" and off: "off \<le> 80"
  defines "r \<equiv> (if fv \<ge> - 10 \<and> fv \<le> 10 then STAmount_of issue 0 0 False
    else if fv \<ge> 0 then STAmount_of issue (word_of_int fv) off False
    else STAmount_of issue (word_of_int (- fv)) off True)"
  shows "case r of Inr c \<Rightarrow> am_canonical c \<and> am_issue c = issue \<and> \<bar>am_real c - x\<bar> < 11 * 10 powi off + 10 powi (- 81)
    | Inl e \<Rightarrow> e = LThrow ''value overflow'' \<and> 10 powi 95 \<le> \<bar>x\<bar>"
proof (cases "fv \<ge> - 10 \<and> fv \<le> 10")
  case True
  have "real_of_int \<bar>fv\<bar> \<le> real_of_int 10" using True unfolding of_int_le_iff by linarith
  then have "\<bar>real_of_int fv * 10 powi off\<bar> \<le> 10 * 10 powi off" by (simp add: abs_mult)
  moreover have "(0 :: real) < 10 powi (- 81)" by simp
  ultimately have "\<bar>x\<bar> < 11 * 10 powi off + 10 powi (- 81)" using near by linarith
  moreover have "STAmount_of issue 0 0 False = Inr \<lparr>am_issue = issue, am_value = 0, am_offset = - 100, am_native = False, am_negative = False\<rparr>"
    using iss by (simp add: STAmount_of_def STAmount_unchecked_def canonicalize_def isXRP_amount_def isXRP_currency_def)
  ultimately show ?thesis using True iss
    by (simp add: r_def am_canonical_def isXRP_amount_def isXRP_currency_def am_real_def)
next
  case False
  then have r: "r = STAmount_of issue (word_of_int \<bar>fv\<bar>) off (fv < 0)" by (auto simp: r_def)
  have "\<bar>fv\<bar> < 2 ^ 63" using fv by simp
  note c = STAmount_of_real [OF iss this, of off, folded r]
  show ?thesis
  proof (cases r)
    case (Inl e)
    have "(10 :: real) powi off \<le> 10 powi 80" using off by (intro power_int_increasing) simp_all
    moreover have "(10 :: real) powi 96 - 10 powi 80 \<ge> 10 powi 95" by simp
    ultimately show ?thesis using c Inl near by simp linarith
  next
    case (Inr c')
    show ?thesis
    proof (cases "am_value c' = 0")
      case True
      have "(0 :: real) < 10 powi off" "am_real c' = 0" using True by (simp_all add: am_real_def)
      with True c Inr near show ?thesis by simp linarith
    next
      case nz: False
      have "am_canonical c'" "am_issue c' = issue" using c Inr by simp_all
      then have "\<not> am_native c'" using iss by (simp add: am_canonical_def isXRP_amount_def isXRP_currency_def)
      from sum_scaled [OF \<open>am_canonical c'\<close> this nz fv, of off] c Inr nz have "am_offset c' \<le> off + 1" by simp
      then have "(10 :: real) powi am_offset c' \<le> 10 powi (off + 1)" by (intro power_int_increasing) simp_all
      then have "10 powi am_offset c' \<le> 10 * (10 powi off :: real)" by (simp add: power_int_add)
      moreover have "(0 :: real) < 10 powi (- 81)" by simp
      ultimately show ?thesis using c Inr nz near by simp linarith
    qed
  qed
qed

lemma int64_ok: "\<bar>x\<bar> < 2 ^ 63 \<Longrightarrow> int64 x = Inr x"
  by (auto simp: int64_def)

lemma am_plus_issued:
  assumes can: "am_canonical a" "am_canonical b" and nat: "\<not> am_native a" and cmp: "areComparable a b"
  shows "case am_plus a b of
      Inr c \<Rightarrow> am_canonical c \<and> am_issue c = am_issue a \<and>
        \<bar>am_real c - (am_real a + am_real b)\<bar> < 11 * 10 powi max (am_offset a) (am_offset b) + 10 powi (- 81)
    | Inl e \<Rightarrow> e = LThrow ''value overflow'' \<and> 10 powi 95 \<le> \<bar>am_real a + am_real b\<bar>"
proof -
  let ?na = "unat (am_value a)" and ?nb = "unat (am_value b)" and ?off = "max (am_offset a) (am_offset b)"
  have natb: "\<not> am_native b" using nat cmp by (simp add: areComparable_def)
  have iss: "iss_currency (am_issue a) \<noteq> 0" using can(1) nat by (auto simp: am_canonical_def isXRP_amount_def isXRP_currency_def)
  have pos: "(0 :: real) < 11 * 10 powi ?off + 10 powi (- 81)" by (intro add_pos_pos) simp_all
  consider "am_value b = 0" | "am_value b \<noteq> 0" "am_value a = 0" | "am_value b \<noteq> 0" "am_value a \<noteq> 0" by blast
  then show ?thesis
  proof cases
    case 1
    then have "am_plus a b = Inr a" "am_real b = 0" using cmp by (simp_all add: am_plus_def am_is_zero_def am_signum_def am_real_def)
    with can pos show ?thesis by simp
  next
    case 2
    let ?c = "b\<lparr>am_issue := am_issue a\<rparr>"
    have c: "am_canonical ?c" "\<not> am_native ?c" "am_value ?c \<noteq> 0"
      using can(2) natb 2(1) iss by (simp_all add: am_canonical_def isXRP_amount_def isXRP_currency_def split: if_splits)
    have "STAmount_of (am_issue a) (am_value b) (am_offset b) (am_negative b) = Inr ?c"
      using canonicalize_id [OF c, of False] unfolding STAmount_of_def STAmount_unchecked_def by (cases b) simp
    then have "am_plus a b = Inr ?c" using 2 cmp by (simp add: am_plus_def am_is_zero_def am_signum_def)
    moreover have "am_real ?c = am_real b" "am_real a = 0" using 2(2) by (simp_all add: am_real_def)
    ultimately show ?thesis using c(1) pos by simp
  next
    case 3
    note na = sint_mantissa [OF can(1) nat] and nb = sint_mantissa [OF can(2) natb]
    have val: "(if am_negative x then int64 (- sint (am_value x)) else Inr (sint (am_value x))) = Inr (signed_nat (am_negative x) (unat (am_value x)))"
      if "sint (am_value x) = int (unat (am_value x)) \<and> unat (am_value x) < 10 ^ 16" for x
    proof -
      have "int (unat (am_value x)) < int (10 ^ 16)" using that by (simp only: of_nat_less_iff)
      then show ?thesis using that unfolding signed_nat_def int64_def by (simp del: of_nat_unat)
    qed
    let ?A = "?na div 10 ^ nat (am_offset b - am_offset a)" and ?B = "?nb div 10 ^ nat (?off - am_offset b)"
    let ?fv = "signed_nat (am_negative a) ?A + signed_nat (am_negative b) ?B"
    have "?A \<le> ?na" "?B \<le> ?nb" by (rule div_le_dividend)+
    with na nb have "?A < 10 ^ 16" "?B < 10 ^ 16" by linarith+
    then have "int ?A < int (10 ^ 16)" "int ?B < int (10 ^ 16)" by (simp_all only: of_nat_less_iff)
    then have fv: "\<bar>?fv\<bar> \<le> 2 * 10 ^ 16" unfolding signed_nat_def by (simp del: of_nat_unat) linarith
    then have "\<bar>?fv\<bar> < 2 ^ 63" by simp
    then have "int64 ?fv = Inr ?fv" by (rule int64_ok)
    moreover have "am_offset b \<le> 80" "am_offset a \<le> 80" using can nat natb 3 by (simp_all add: am_canonical_def)
    ultimately show ?thesis
      using am_plus_issued_step [OF iss fv aligned_sum [OF refl, of "am_negative a" ?na "am_offset b" "am_offset a" "am_negative b" ?nb], folded signed_real] 3 cmp nat val [OF na] val [OF nb]
      by (simp add: am_plus_def am_is_zero_def am_signum_def align_down_signed Let_def)
  qed
qed

end
