(* ===== verification/STObject_Roundtrip.thy ===== *)
theory STObject_Roundtrip
  imports STObject_Parse STAmount_Spec
begin

text \<open>
  The canonical binary form of serialized objects: what a well-formed object writes is read back as the
  same object, with inner objects of a known format put in the order of their template again.
\<close>

section \<open>Values without inner fields\<close>

definition pe_flags :: "STPathElement \<Rightarrow> bool \<times> bool \<times> bool" where
  "pe_flags e = (pe_type e AND typeAccount \<noteq> 0, pe_type e AND typeCurrency \<noteq> 0, pe_type e AND typeIssuer \<noteq> 0)"

text \<open>Elements as the constructor from account, currency and issuer makes them, other than the empty one.\<close>

definition pe_ok :: "STPathElement \<Rightarrow> bool" where
  "pe_ok e = (pe_type e \<noteq> typeNone \<and>
     e = STPathElement_of (pe_account e) (pe_currency e) (pe_issuer e) (pe_type e AND typeCurrency \<noteq> 0))"

definition pe_bytes :: "STPathElement \<Rightarrow> Blob" where
  "pe_bytes e = ucast (pe_type e) #
     (if pe_type e AND typeAccount \<noteq> 0 then be_bytes 20 (pe_account e) else []) @
     (if pe_type e AND typeCurrency \<noteq> 0 then be_bytes 20 (pe_currency e) else []) @
     (if pe_type e AND typeIssuer \<noteq> 0 then be_bytes 20 (pe_issuer e) else [])"

fun paths_bytes :: "bool \<Rightarrow> STPath list \<Rightarrow> Blob" where
  "paths_bytes first [] = [0]"
| "paths_bytes first (p # ps) = (if first then [] else [0xff]) @ concat (map pe_bytes p) @ paths_bytes False ps"

lemma STPathElement_add_bytes: "STPathElement_add e s = s @ pe_bytes e"
  by (simp add: STPathElement_add_def pe_bytes_def add160_if_def add160_def add8_def)

lemma fold_path_add: "fold STPathElement_add p s = s @ concat (map pe_bytes p)"
  by (induction p arbitrary: s) (simp_all add: STPathElement_add_bytes)

lemma STPathSet_add_bytes: "STPathSet_add_loop first ps s = s @ paths_bytes first ps"
  by (induction first ps s rule: STPathSet_add_loop.induct) (simp_all add: fold_path_add add8_def)

text \<open>The seven possible types of a path element.\<close>

lemma pe_type_cases:
  assumes "pe_ok e"
  shows "pe_type e \<in> {1, 0x10, 0x20, 0x11, 0x21, 0x30, 0x31}"
  using assms unfolding pe_ok_def STPathElement_of_def by (auto simp: Let_def dest!: arg_cong [where f = pe_type] split: if_splits)

lemma pe_type_byte:
  assumes "pe_ok e"
  shows "ucast (ucast (pe_type e) :: byte) = pe_type e" "pe_type e \<noteq> 0xff" "pe_type e AND NOT typeAll = 0"
  using pe_type_cases [OF assms] by auto

lemma opt160_rest:
  assumes "si_ok it" "si_rest it = (if b then be_bytes 20 x else []) @ bs" "\<not> b \<Longrightarrow> x = 0"
  shows "opt160 b it = Inr (x, si_advance (length (if b then be_bytes 20 x else [])) it)"
  using assms si_getBitString_rest [OF assms(1), of "be_bytes 20 x" bs 20, where 'a = 160]
  by (auto simp: opt160_def be_word_bytes_all)

lemma pe_zero:
  assumes "pe_ok e"
  shows "pe_type e AND typeAccount = 0 \<Longrightarrow> pe_account e = 0" "pe_type e AND typeCurrency = 0 \<Longrightarrow> pe_currency e = 0"
    "pe_type e AND typeIssuer = 0 \<Longrightarrow> pe_issuer e = 0"
  using assms unfolding pe_ok_def STPathElement_of_def isXRP_account_def isXRP_currency_def
  by (auto simp: Let_def dest!: arg_cong [where f = pe_type] split: if_splits)

lemma path_element_read:
  assumes e: "pe_ok e" and it: "si_ok it" "si_rest it = pe_bytes e @ bs"
  shows "STPathSet_loop ps p it = STPathSet_loop ps (p @ [e]) (si_advance (length (pe_bytes e)) it)"
proof -
  let ?t = "pe_type e"
  let ?a = "if ?t AND typeAccount \<noteq> 0 then be_bytes 20 (pe_account e) else []"
    and ?c = "if ?t AND typeCurrency \<noteq> 0 then be_bytes 20 (pe_currency e) else []"
    and ?i = "if ?t AND typeIssuer \<noteq> 0 then be_bytes 20 (pe_issuer e) else []"
  define it1 where "it1 = si_advance 1 it"
  define it2 where "it2 = si_advance (length ?a) it1"
  define it3 where "it3 = si_advance (length ?c) it2"
  have rest: "si_rest it = ucast ?t # ?a @ ?c @ ?i @ bs" using it(2) unfolding pe_bytes_def by (simp only: append.simps append_assoc)
  have r1: "si_ok it1" "si_rest it1 = ?a @ ?c @ ?i @ bs" using it(1) rest unfolding it1_def by (simp_all add: si_advance_ok)
  have r2: "si_ok it2" "si_rest it2 = ?c @ ?i @ bs" using r1 unfolding it2_def by (auto simp only: si_advance_rest append_eq_conv_conj intro: si_advance_ok) (simp_all add: si_advance_ok)
  have r3: "si_ok it3" "si_rest it3 = ?i @ bs" using r2 unfolding it3_def by (auto simp only: si_advance_rest append_eq_conv_conj intro: si_advance_ok) (simp_all add: si_advance_ok)
  note z = pe_zero [OF e]
  have g: "si_get8 it = Inr (ucast ?t, it1)" unfolding it1_def by (rule si_get8_rest [OF it(1) rest])
  have a: "opt160 (?t AND typeAccount \<noteq> 0) it1 = Inr (pe_account e, it2)" unfolding it2_def by (rule opt160_rest [OF r1]) (simp add: z)
  have c: "opt160 (?t AND typeCurrency \<noteq> 0) it2 = Inr (pe_currency e, it3)" unfolding it3_def by (rule opt160_rest [OF r2]) (simp add: z)
  have i: "opt160 (?t AND typeIssuer \<noteq> 0) it3 = Inr (pe_issuer e, si_advance (length ?i) it3)" by (rule opt160_rest [OF r3]) (simp add: z)
  have len: "si_advance (length ?i) it3 = si_advance (length (pe_bytes e)) it"
    unfolding it3_def it2_def it1_def si_advance_advance pe_bytes_def by simp
  have same: "STPathElement_of (pe_account e) (pe_currency e) (pe_issuer e) (?t AND typeCurrency \<noteq> 0) = e" using e by (simp add: pe_ok_def)
  note t = pe_type_byte [OF e]
  have "?t \<noteq> typeNone" using e by (simp add: pe_ok_def)
  then show ?thesis
    by (subst STPathSet_loop.simps) (simp only: g bind_r_simps prod.case Let_def t a c i len same simp_thms if_False)
qed

lemma path_read:
  "\<forall>e \<in> set q. pe_ok e \<Longrightarrow> si_ok it \<Longrightarrow> si_rest it = concat (map pe_bytes q) @ bs \<Longrightarrow>
     STPathSet_loop ps p it = STPathSet_loop ps (p @ q) (si_advance (length (concat (map pe_bytes q))) it)"
proof (induction q arbitrary: p it)
  case (Cons e q)
  let ?it = "si_advance (length (pe_bytes e)) it"
  have "STPathSet_loop ps p it = STPathSet_loop ps (p @ [e]) ?it" using Cons.prems by (intro path_element_read) simp_all
  moreover have "si_ok ?it" "si_rest ?it = concat (map pe_bytes q) @ bs" using Cons.prems by (auto intro: si_advance_ok)
  ultimately show ?case using Cons.IH [of ?it "p @ [e]"] Cons.prems by (simp add: si_advance_advance)
qed simp

definition path_ok :: "STPath \<Rightarrow> bool" where
  "path_ok p = (p \<noteq> [] \<and> (\<forall>e \<in> set p. pe_ok e))"

lemma path_end_read:
  assumes "si_ok it" "si_rest it = b # bs" "p \<noteq> []"
  shows "b = 0 \<Longrightarrow> STPathSet_loop ps p it = Inr (ps @ [p], si_advance 1 it)"
    and "b = 0xff \<Longrightarrow> STPathSet_loop ps p it = STPathSet_loop (ps @ [p]) [] (si_advance 1 it)"
  using si_get8_rest [OF assms(1,2)] assms(3) by (subst STPathSet_loop.simps, simp add: Let_def)+

lemma path_set_read:
  "path_ok q \<Longrightarrow> \<forall>r \<in> set qs. path_ok r \<Longrightarrow> si_ok it \<Longrightarrow> si_rest it = paths_bytes True (q # qs) @ bs \<Longrightarrow>
     STPathSet_loop ps [] it = Inr (ps @ q # qs, si_advance (length (paths_bytes True (q # qs))) it)"
proof (induction qs arbitrary: q ps it)
  case Nil
  let ?it = "si_advance (length (concat (map pe_bytes q))) it"
  have "STPathSet_loop ps [] it = STPathSet_loop ps q ?it" using path_read [of q it "[0] @ bs" ps "[]"] Nil.prems by (simp add: path_ok_def)
  also have "\<dots> = Inr (ps @ [q], si_advance 1 ?it)"
    using Nil.prems by (intro path_end_read(1) [of _ 0 bs]) (simp_all add: si_advance_ok path_ok_def)
  finally show ?case by (simp add: si_advance_advance)
next
  case (Cons r qs)
  let ?it = "si_advance (length (concat (map pe_bytes q))) it"
  have "STPathSet_loop ps [] it = STPathSet_loop ps q ?it"
    using path_read [of q it "0xff # paths_bytes True (r # qs) @ bs" ps "[]"] Cons.prems by (simp add: path_ok_def)
  also have "\<dots> = STPathSet_loop (ps @ [q]) [] (si_advance 1 ?it)"
    using Cons.prems by (intro path_end_read(2) [of _ "0xff" "paths_bytes True (r # qs) @ bs"]) (simp_all add: si_advance_ok path_ok_def)
  also have "\<dots> = Inr ((ps @ [q]) @ r # qs, si_advance (length (paths_bytes True (r # qs))) (si_advance 1 ?it))"
    using Cons.prems by (intro Cons.IH) (auto simp: si_advance_advance intro!: si_advance_ok)
  finally show ?case by (simp add: si_advance_advance)
qed

text \<open>Plain values: what they write and when they can be read back.\<close>

fun plain_ok :: "STBase \<Rightarrow> bool" where
  "plain_ok (STAmt a) = am_wire a"
| "plain_ok (STBlob b) = (length b \<le> 918744)"
| "plain_ok (STAccount b) = (length b \<le> 918744)"
| "plain_ok (STPathSet ps) = (ps \<noteq> [] \<and> (\<forall>p \<in> set ps. path_ok p))"
| "plain_ok (STVector256 vs) = (32 * length vs \<le> 918744)"
| "plain_ok _ = True"

fun st_plain :: "STBase \<Rightarrow> bool" where
  "st_plain STNotPresent = False" | "st_plain (STObj _) = False" | "st_plain (STArray _) = False" | "st_plain _ = True"

definition vl_bytes :: "Blob \<Rightarrow> Blob" where
  "vl_bytes b = len_bytes (int (length b)) @ b"

lemma addVL_raw_bytes: "length b \<le> 918744 \<Longrightarrow> addVL_raw b s = Inr (s @ vl_bytes b)"
  by (simp add: addVL_raw_def addEncoded_def encoded_bytes_len addRaw_def vl_bytes_def)

fun plain_bytes :: "STBase \<Rightarrow> Blob" where
  "plain_bytes (STUInt8 x) = [x]" | "plain_bytes (STUInt16 x) = be_bytes 2 x" | "plain_bytes (STUInt32 x) = be_bytes 4 x"
| "plain_bytes (STUInt64 x) = be_bytes 8 x" | "plain_bytes (STHash128 x) = be_bytes 16 x" | "plain_bytes (STHash160 x) = be_bytes 20 x"
| "plain_bytes (STHash256 x) = be_bytes 32 x" | "plain_bytes (STAmt a) = am_bytes a" | "plain_bytes (STBlob b) = vl_bytes b"
| "plain_bytes (STAccount b) = vl_bytes b" | "plain_bytes (STPathSet ps) = paths_bytes True ps"
| "plain_bytes (STVector256 vs) = vl_bytes (concat (map (be_bytes 32) vs))"
| "plain_bytes _ = []"

lemma length_keys: "length (concat (map (be_bytes 32) vs)) = 32 * length vs"
  by (induction vs) simp_all

lemma st_add_plain:
  assumes "st_plain v" "plain_ok v" "isBinary f" "fieldType f = getSType v"
  shows "st_add f v s = Inr (s @ plain_bytes v)"
  using assms
  by (cases v) (simp_all add: add_typed_def add8_def add16_bytes add32_bytes add64_bytes add128_def add160_def add256_def
    addVL_raw_bytes STPathSet_add_bytes STAmount_add_bytes length_keys)

lemma keys_cut: "i < length vs \<Longrightarrow> take 32 (drop (32 * i) (concat (map (be_bytes 32) vs))) = be_bytes 32 (vs ! i)"
proof (induction vs arbitrary: i)
  case (Cons v vs)
  then show ?case by (cases i) simp_all
qed simp

lemma keys_read: "map (\<lambda>i. be_word (take 32 (drop (32 * i) (concat (map (be_bytes 32) vs))))) [0..<length vs] = (vs :: uint256 list)"
proof (rule nth_equalityI)
  fix i
  assume "i < length (map (\<lambda>i. be_word (take 32 (drop (32 * i) (concat (map (be_bytes 32) vs))))) [0..<length vs] :: uint256 list)"
  then show "map (\<lambda>i. be_word (take 32 (drop (32 * i) (concat (map (be_bytes 32) vs))))) [0..<length vs] ! i = vs ! i"
    by (simp add: keys_cut be_word_bytes_all)
qed simp

lemma STVar_plain_bytes:
  assumes v: "st_plain v" "plain_ok v" "fieldType f = getSType v" and it: "si_ok it" "si_rest it = plain_bytes v @ bs"
  shows "STVar_plain f it = Inr (v, si_advance (length (plain_bytes v)) it)"
proof (cases v)
  case (STPathSet ps)
  then obtain q qs where ps: "ps = q # qs" using v(2) by (cases ps) auto
  from path_set_read [of q qs it bs "[]"] v(2) it show ?thesis
    by (simp add: STVar_plain_def STPathSet_read_def v(3) STPathSet ps)
next
  case (STVector256 vs)
  then have "si_getVL it = Inr (concat (map (be_bytes 32) vs), si_advance (length (plain_bytes v)) it)"
    using si_getVL_rest [OF it(1), of "concat (map (be_bytes 32) vs)" bs] v(2) it(2) by (simp add: vl_bytes_def length_keys)
  with STVector256 show ?thesis by (simp add: STVar_plain_def STVector256_read_def v(3) length_keys keys_read)
qed (use v it in \<open>simp_all add: STVar_plain_def si_get8_rest si_get16_rest si_get32_rest si_get64_rest si_getBitString_rest [OF it(1)]
    be_word_bytes_all STAmount_read_bytes si_getVL_rest vl_bytes_def\<close>)

section \<open>Sorting by code\<close>

interpretation codes: strict_total "(<) :: int \<Rightarrow> int \<Rightarrow> bool"
  by unfold_locales auto

lemma om_insert_map: "om_insert lt k (g v) (map (\<lambda>(c, w). (c, g w)) m) = map (\<lambda>(c, w). (c, g w)) (om_insert lt k v m)"
  by (induction lt k v m rule: om_insert.induct) auto

lemma map_of_map_values: "map_of (map (\<lambda>(c, w). (c, g w)) m) k = map_option g (map_of m k)"
  by (induction m) auto

lemma om_emplace_map:
  "fst (om_emplace lt k (g v) (map (\<lambda>(c, w). (c, g w)) m)) = map (\<lambda>(c, w). (c, g w)) (fst (om_emplace lt k v m))"
  by (auto simp: om_emplace_def om_insert_map map_of_map_values)

lemma sort_fields_map: "sort_fields (map (\<lambda>(c, w). (c, g w)) ws) = map (\<lambda>(c, w). (c, g w)) (sort_fields ws)"
proof -
  have "fold (\<lambda>(c, w) m. fst (om_emplace (<) c w m)) (map (\<lambda>(c, w). (c, g w)) ws) (map (\<lambda>(c, w). (c, g w)) m) =
      map (\<lambda>(c, w). (c, g w)) (fold (\<lambda>(c, w) m. fst (om_emplace (<) c w m)) ws m)" for m
    by (induction ws arbitrary: m) (auto simp: om_emplace_map)
  from this [of "[]"] show ?thesis by (simp add: sort_fields_def)
qed

lemma sort_fold:
  assumes "om_ok (<) m" "distinct (map fst ws)" "set (map fst ws) \<inter> set (map fst m) = {}"
  shows "om_ok (<) (fold (\<lambda>(c, w) m. fst (om_emplace (<) c w m)) ws m) \<and>
    set (fold (\<lambda>(c, w) m. fst (om_emplace (<) c w m)) ws m) = set ws \<union> set (m :: (int \<times> 'w) list)"
  using assms
proof (induction ws arbitrary: m)
  case (Cons cw ws)
  obtain c w where cw: "cw = (c, w)" by fastforce
  let ?m = "fst (om_emplace (<) c w m)"
  have new: "map_of m c = None" using Cons.prems(3) by (auto simp: cw map_of_eq_None_iff)
  then have m: "?m = om_insert (<) c w m" by (simp add: om_emplace_def)
  have "om_ok (<) ?m" using codes.om_insert_ok [OF Cons.prems(1) new] unfolding m .
  moreover have "set (map fst ws) \<inter> set (map fst ?m) = {}" using Cons.prems(2,3) unfolding m by (auto simp: cw)
  ultimately show ?case using Cons.IH [of ?m] Cons.prems(2) unfolding cw by (simp add: m)
qed simp

lemma sort_fields_ok: "distinct (map fst ws) \<Longrightarrow> om_ok (<) (sort_fields ws) \<and> set (sort_fields ws) = set ws"
  using sort_fold [of "[]" ws] by (simp add: sort_fields_def om_ok_def)

lemma om_insert_last: "\<forall>k' \<in> set (map fst m). k' < (k :: int) \<Longrightarrow> om_insert (<) k v m = m @ [(k, v)]"
  by (induction "(<) :: int \<Rightarrow> int \<Rightarrow> bool" k v m rule: om_insert.induct) auto

lemma sort_fields_sorted: "om_ok (<) ws \<Longrightarrow> sort_fields ws = ws"
proof -
  have "fold (\<lambda>(c, w) m. fst (om_emplace (<) c w m)) ws m = m @ ws" if "om_ok (<) (m @ ws)" for m :: "(int \<times> 'a) list"
    using that
  proof (induction ws arbitrary: m)
    case (Cons cw ws)
    obtain c w where cw: "cw = (c, w)" by fastforce
    have lt: "\<forall>k' \<in> set (map fst m). k' < c" using Cons.prems by (auto simp: cw om_ok_def sorted_wrt_append)
    then have "map_of m c = None" by (force simp: map_of_eq_None_iff)
    then have "fst (om_emplace (<) c w m) = m @ [(c, w)]" using om_insert_last [OF lt] by (simp add: om_emplace_def)
    with Cons.IH [of "m @ [(c, w)]"] Cons.prems show ?case by (simp add: cw)
  qed simp
  from this [of "[]"] show "om_ok (<) ws \<Longrightarrow> sort_fields ws = ws" by (simp add: sort_fields_def)
qed

section \<open>Bytes of objects\<close>

definition end_bytes :: "STBase \<Rightarrow> Blob" where
  "end_bytes v = (if getSType v = STI_ARRAY then field_id_bytes STI_ARRAY 1
     else if getSType v = STI_OBJECT then field_id_bytes STI_OBJECT 1 else [])"

definition id_bytes :: "SField \<Rightarrow> Blob" where
  "id_bytes f = field_id_bytes (fieldType f) (fieldValue f)"

fun st_bytes :: "STBase \<Rightarrow> Blob"
  and field_blobs :: "bool \<Rightarrow> (SField \<times> STBase) list \<Rightarrow> (int \<times> Blob) list"
  and array_bytes :: "(SField \<times> STObject) list \<Rightarrow> Blob"
  and inner_bytes :: "STObject \<Rightarrow> Blob" where
  "st_bytes (STObj ob) = inner_bytes ob"
| "st_bytes (STArray es) = array_bytes es"
| "st_bytes v = plain_bytes v"
| "field_blobs b [] = []"
| "field_blobs b ((f, v) # r) =
     (if getSType v \<noteq> STI_NOTPRESENT \<and> shouldInclude f b
      then [(fieldCode f, id_bytes f @ st_bytes v @ end_bytes v)] else []) @ field_blobs b r"
| "array_bytes [] = []"
| "array_bytes ((f, ob) # es) = id_bytes f @ inner_bytes ob @ field_id_bytes STI_OBJECT 1 @ array_bytes es"
| "inner_bytes (STObject t v) = concat (map snd (sort_fields (field_blobs True v)))"

text \<open>
  Well-formed values. A field must be one that the parser finds again by its identifier. The fields of an
  object have different codes; an object whose name has a template has the fields of the template, one
  without a template has its fields in the order of their codes, all present. The two end markers are no
  fields of an object.
\<close>

definition wire_field :: "SField \<Rightarrow> bool" where
  "wire_field f = (0 < fieldType f \<and> fieldType f < 256 \<and> 0 < fieldValue f \<and> fieldValue f < 256 \<and>
     (fieldType f, fieldValue f) \<notin> {(STI_OBJECT, 1), (STI_ARRAY, 1)} \<and>
     SField_getField2 (fieldType f) (fieldValue f) = Inr f \<and> \<not> isInvalid f)"

definition fits_template :: "SOTemplate \<Rightarrow> (SField \<times> STBase) list \<Rightarrow> bool" where
  "fits_template t v = (map fst v = map fst t \<and>
     (\<forall>(flags, x) \<in> set (zip (map snd t) (map snd v)).
        (flags = SOE_REQUIRED \<longrightarrow> getSType x \<noteq> STI_NOTPRESENT) \<and>
        (flags = SOE_DEFAULT \<longrightarrow> getSType x \<noteq> STI_NOTPRESENT \<longrightarrow> \<not> st_isDefault x)))"

definition fits_shape :: "SOTemplate option \<Rightarrow> (SField \<times> STBase) list \<Rightarrow> bool" where
  "fits_shape t v = (distinct (map (fieldCode \<circ> fst) v) \<and>
     (case t of None \<Rightarrow> sorted_wrt (<) (map (fieldCode \<circ> fst) v) \<and> (\<forall>(f, x) \<in> set v. getSType x \<noteq> STI_NOTPRESENT)
      | Some tm \<Rightarrow> fits_template tm v))"

fun st_ok :: "SField \<Rightarrow> STBase \<Rightarrow> bool"
  and fields_ok :: "(SField \<times> STBase) list \<Rightarrow> bool"
  and elems_ok :: "(SField \<times> STObject) list \<Rightarrow> bool"
  and inner_ok :: "SField \<Rightarrow> STObject \<Rightarrow> bool" where
  "st_ok f (STObj ob) = (wire_field f \<and> fieldType f = STI_OBJECT \<and> inner_ok f ob)"
| "st_ok f (STArray es) = (wire_field f \<and> fieldType f = STI_ARRAY \<and> elems_ok es)"
| "st_ok f v = (wire_field f \<and> st_plain v \<and> plain_ok v \<and> fieldType f = getSType v)"
| "fields_ok [] = True"
| "fields_ok ((f, v) # r) = ((getSType v = STI_NOTPRESENT \<or> st_ok f v) \<and> fields_ok r)"
| "elems_ok [] = True"
| "elems_ok ((f, ob) # es) = (wire_field f \<and> fieldType f = STI_OBJECT \<and> inner_ok f ob \<and> elems_ok es)"
| "inner_ok f (STObject t v) = (t = findSOTemplateBySField f \<and> fits_shape t v \<and> fields_ok v)"

section \<open>Writing\<close>

definition blob_writer :: "Blob \<Rightarrow> Serializer \<Rightarrow> (led_error, Serializer) result" where
  "blob_writer bl s = Inr (s @ bl)"

lemma fold_blob_writers: "fold_r (\<lambda>(_, w) s. w s) (map (\<lambda>(c, bl). (c, blob_writer bl)) bls) s = Inr (s @ concat (map snd bls))"
  by (induction bls arbitrary: s) (auto simp: blob_writer_def)

lemma wire_fieldD: "wire_field f \<Longrightarrow> isBinary f \<and> st_addFieldID f s = Inr (s @ id_bytes f)"
  by (simp add: wire_field_def isBinary_def st_addFieldID_def addFieldID_bytes id_bytes_def)

lemma st_ok_wire: "st_ok f v \<Longrightarrow> wire_field f \<and> fieldType f = getSType v \<and> getSType v \<noteq> STI_NOTPRESENT"
  by (cases v) simp_all

lemma end_markers: "addFieldID STI_ARRAY 1 s = Inr (length s, s @ field_id_bytes STI_ARRAY 1)"
  "addFieldID STI_OBJECT 1 s = Inr (length s, s @ field_id_bytes STI_OBJECT 1)"
  by (simp_all add: addFieldID_bytes)

lemma st_add_bytes:
  "st_ok f v \<Longrightarrow> st_add f v s = Inr (s @ st_bytes v)"
  "fields_ok vs \<Longrightarrow> field_writers b vs = map (\<lambda>(c, bl). (c, blob_writer bl)) (field_blobs b vs)"
  "elems_ok es \<Longrightarrow> st_add_array es s' = Inr (s' @ array_bytes es)"
  "inner_ok g ob \<Longrightarrow> st_add_inner ob s'' = Inr (s'' @ inner_bytes ob)"
proof (induction f v s and b vs and es s' and ob s'' arbitrary: and and and g rule: st_add_field_writers_st_add_array_st_add_inner.induct)
  case (17 b f v r)
  have r: "field_writers b r = map (\<lambda>(c, bl). (c, blob_writer bl)) (field_blobs b r)" using 17 by simp
  show ?case
  proof (cases "getSType v \<noteq> STI_NOTPRESENT \<and> shouldInclude f b")
    case True
    then have ok: "st_ok f v" using "17.prems" by simp
    note w = st_ok_wire [OF ok]
    have "st_add f v (s @ id_bytes f) = Inr ((s @ id_bytes f) @ st_bytes v)" for s
      using "17.IH"(1) [OF True, of "()" s "s @ id_bytes f"] ok w wire_fieldD [of f s] by (simp add: led_assert_def)
    then show ?thesis using True r w wire_fieldD [of f]
      by (auto simp: blob_writer_def fun_eq_iff end_markers end_bytes_def led_assert_def)
  next
    case False
    with r show ?thesis by auto
  qed
next
  case (19 f ob es s)
  then have w: "wire_field f" "inner_ok f ob" "elems_ok es" by simp_all
  have "st_add_inner ob (s @ id_bytes f) = Inr ((s @ id_bytes f) @ inner_bytes ob)"
    using "19.IH"(1) [of "s @ id_bytes f" f] w wire_fieldD [OF w(1)] by simp
  with "19.IH"(2) w wire_fieldD [OF w(1)] show ?case by (simp add: end_markers)
next
  case (20 t v s)
  then show ?case by (simp add: sort_fields_map fold_blob_writers)
qed (auto simp: st_add_plain wire_fieldD simp del: st_add.simps(2-13))

section \<open>Templates\<close>

definition present :: "SField \<times> STBase \<Rightarrow> bool" where
  "present e = (getSType (snd e) \<noteq> STI_NOTPRESENT)"

definition canon :: "(SField \<times> STBase) list \<Rightarrow> (SField \<times> STBase) list" where
  "canon v = map snd (sort_fields (map (\<lambda>e. (fieldCode (fst e), e)) (filter present v)))"

lemma canon_ok:
  assumes "distinct (map (fieldCode \<circ> fst) v)"
  shows "set (canon v) = set (filter present v)" "sorted_wrt (<) (map (fieldCode \<circ> fst) (canon v))"
proof -
  let ?ws = "map (\<lambda>e. (fieldCode (fst e), e)) (filter present v)"
  have "distinct (map (fieldCode \<circ> fst) (filter present v))" using distinct_map_filter [OF assms] .
  then have "distinct (map fst ?ws)" by (simp add: comp_def)
  from sort_fields_ok [OF this] have s: "om_ok (<) (sort_fields ?ws)" "set (sort_fields ?ws) = set ?ws" by simp_all
  show "set (canon v) = set (filter present v)" unfolding canon_def set_map s(2) by force
  have "map (fieldCode \<circ> fst) (canon v) = map fst (sort_fields ?ws)"
    using s(2) unfolding canon_def by (auto simp: comp_def)
  then show "sorted_wrt (<) (map (fieldCode \<circ> fst) (canon v))" using s(1) by (simp add: om_ok_def)
qed

lemma canon_sorted:
  assumes "sorted_wrt (<) (map (fieldCode \<circ> fst) v)" "\<forall>e \<in> set v. present e"
  shows "canon v = v"
proof -
  have f: "filter present v = v" using assms(2) by simp
  have "om_ok (<) (map (\<lambda>e. (fieldCode (fst e), e)) v)" using assms(1) by (simp add: om_ok_def comp_def)
  from sort_fields_sorted [OF this] show ?thesis unfolding canon_def f by (simp add: comp_def)
qed

text \<open>\<open>setType\<close> looks every field of the template up; fields have different codes.\<close>

definition entry :: "int \<Rightarrow> (SField \<times> STBase) list \<Rightarrow> (SField \<times> STBase) option" where
  "entry c vs = find (\<lambda>e. fieldCode (fst e) = c) vs"

lemma field_position_entry:
  "case field_position c vs of None \<Rightarrow> entry c vs = None
   | Some i \<Rightarrow> i < length vs \<and> entry c vs = Some (vs ! i) \<and> fieldCode (fst (vs ! i)) = c"
proof (induction vs)
  case (Cons e vs)
  then show ?case by (cases e) (auto simp: entry_def split: option.splits)
qed (simp add: entry_def)

lemma entry_remove:
  assumes "distinct (map (fieldCode \<circ> fst) vs)" "i < length vs" "c \<noteq> fieldCode (fst (vs ! i))"
  shows "entry c (take i vs @ drop (Suc i) vs) = entry c vs"
proof -
  have "vs = take i vs @ vs ! i # drop (Suc i) vs" using assms(2) by (rule id_take_nth_drop)
  moreover have "find P (xs @ y # ys) = find P (xs @ ys)" if "\<not> P y" for P and xs ys :: "(SField \<times> STBase) list" and y
    using that by (induction xs) simp_all
  from this [of "\<lambda>e. fieldCode (fst e) = c" "vs ! i" "take i vs" "drop (Suc i) vs"] assms(3)
  have "entry c (take i vs @ vs ! i # drop (Suc i) vs) = entry c (take i vs @ drop (Suc i) vs)" by (auto simp: entry_def)
  ultimately show ?thesis by simp
qed

lemma entry_mem: "distinct (map (fieldCode \<circ> fst) vs) \<Longrightarrow> e \<in> set vs \<Longrightarrow> entry (fieldCode (fst e)) vs = Some e"
proof (induction vs)
  case (Cons a vs)
  then show ?case by (auto simp: entry_def)
qed simp

lemma entry_None: "entry c vs = None \<longleftrightarrow> c \<notin> (fieldCode \<circ> fst) ` set vs"
  by (force simp: entry_def find_None_iff)

lemma remove_distinct:
  assumes "distinct (map (fieldCode \<circ> fst) vs)" "i < length vs"
  shows "distinct (map (fieldCode \<circ> fst) (take i vs @ drop (Suc i) vs))"
    "set (take i vs @ drop (Suc i) vs) = {e \<in> set vs. fieldCode (fst e) \<noteq> fieldCode (fst (vs ! i))}"
proof -
  have vs: "vs = take i vs @ vs ! i # drop (Suc i) vs" using assms(2) by (rule id_take_nth_drop)
  have d: "distinct (map (fieldCode \<circ> fst) (take i vs @ vs ! i # drop (Suc i) vs))" using assms(1) vs by simp
  then show "distinct (map (fieldCode \<circ> fst) (take i vs @ drop (Suc i) vs))" by auto
  have "set vs = set (take i vs @ vs ! i # drop (Suc i) vs)" using vs by simp
  with d show "set (take i vs @ drop (Suc i) vs) = {e \<in> set vs. fieldCode (fst e) \<noteq> fieldCode (fst (vs ! i))}"
    by (force simp: image_iff)
qed

definition entry_ok :: "(SField \<times> STBase) list \<Rightarrow> SField \<times> SOE_Flags \<Rightarrow> bool" where
  "entry_ok vs ff = (case entry (fieldCode (fst ff)) vs of
     Some e \<Rightarrow> \<not> (snd ff = SOE_DEFAULT \<and> st_isDefault (snd e)) | None \<Rightarrow> snd ff \<noteq> SOE_REQUIRED)"

definition slot :: "(SField \<times> STBase) list \<Rightarrow> SField \<times> SOE_Flags \<Rightarrow> SField \<times> STBase" where
  "slot vs ff = (case entry (fieldCode (fst ff)) vs of Some e \<Rightarrow> e | None \<Rightarrow> (fst ff, STNotPresent))"

lemma setType_loop_entries:
  assumes "distinct (map (fieldCode \<circ> fst) t)" "distinct (map (fieldCode \<circ> fst) vs)"
  shows "\<exists>rest. setType_loop t vs = ((\<forall>ff \<in> set t. entry_ok vs ff), map (slot vs) t, rest) \<and>
    set rest = {e \<in> set vs. fieldCode (fst e) \<notin> (fieldCode \<circ> fst) ` set t}"
  using assms
proof (induction t arbitrary: vs)
  case (Cons ff t)
  obtain f flags where ff: "ff = (f, flags)" by fastforce
  have fresh: "fieldCode (fst gg) \<noteq> fieldCode f" if "gg \<in> set t" for gg using Cons.prems(1) that by (force simp: ff)
  show ?case
  proof (cases "field_position (fieldCode f) vs")
    case None
    then have e: "entry (fieldCode f) vs = None" using field_position_entry [of "fieldCode f" vs] by simp
    obtain rest where r: "setType_loop t vs = ((\<forall>ff \<in> set t. entry_ok vs ff), map (slot vs) t, rest)"
      "set rest = {e \<in> set vs. fieldCode (fst e) \<notin> (fieldCode \<circ> fst) ` set t}" using Cons.IH [of vs] Cons.prems by auto
    have "{e \<in> set vs. fieldCode (fst e) \<notin> (fieldCode \<circ> fst) ` set t} = {e \<in> set vs. fieldCode (fst e) \<notin> (fieldCode \<circ> fst) ` set (ff # t)}"
      using e unfolding entry_None by (force simp: ff)
    with r show ?thesis by (auto simp: ff None entry_ok_def slot_def e)
  next
    case (Some i)
    then have i: "i < length vs" "entry (fieldCode f) vs = Some (vs ! i)" "fieldCode (fst (vs ! i)) = fieldCode f"
      using field_position_entry [of "fieldCode f" vs] by simp_all
    let ?vs = "take i vs @ drop (Suc i) vs"
    note rd = remove_distinct [OF Cons.prems(2) i(1)]
    have same: "entry_ok ?vs gg = entry_ok vs gg" "slot ?vs gg = slot vs gg" if "gg \<in> set t" for gg
      using entry_remove [OF Cons.prems(2) i(1), of "fieldCode (fst gg)"] fresh [OF that] by (simp_all add: i(3) entry_ok_def slot_def)
    have d: "distinct (map (fieldCode \<circ> fst) t)" using Cons.prems(1) by (simp add: comp_def)
    obtain rest where r: "setType_loop t ?vs = ((\<forall>ff \<in> set t. entry_ok ?vs ff), map (slot ?vs) t, rest)"
      "set rest = {e \<in> set ?vs. fieldCode (fst e) \<notin> (fieldCode \<circ> fst) ` set t}" using Cons.IH [OF d rd(1)] by blast
    have "set rest = {e \<in> set vs. fieldCode (fst e) \<notin> (fieldCode \<circ> fst) ` set (ff # t)}"
      unfolding r(2) rd(2) i(3) by (auto simp: ff)
    moreover have "map (slot ?vs) t = map (slot vs) t" "(\<forall>ff \<in> set t. entry_ok ?vs ff) = (\<forall>ff \<in> set t. entry_ok vs ff)" using same by auto
    ultimately show ?thesis using r(1) by (auto simp: ff Some entry_ok_def slot_def i(2))
  qed
qed simp

end
