(* ===== verification/STObject_Codec.thy ===== *)
theory STObject_Codec
  imports STObject_Roundtrip
begin

text \<open>
  Reading what a well-formed object writes: the parser meets the fields in the order of their codes, and the
  template of an inner object puts them in their places again.
\<close>

section \<open>What is ahead\<close>

text \<open>Every registered field that has a binary form is found again by its identifier.\<close>

lemma known_wire: "f \<in> set knownFields \<Longrightarrow> on_wire f \<Longrightarrow> wire_field f"
  using known_consistent getField_known [of f] by (auto simp: wire_field_def on_wire_def SField_getField2_def isInvalid_def)

definition fblob :: "SField \<times> STBase \<Rightarrow> Blob" where
  "fblob e = id_bytes (fst e) @ st_bytes (snd e) @ end_bytes (snd e)"

lemma fields_ok_mem: "fields_ok v \<Longrightarrow> e \<in> set v \<Longrightarrow> present e \<Longrightarrow> st_ok (fst e) (snd e)"
  by (induction v) (auto simp: present_def)

lemma field_blobs_present:
  "fields_ok v \<Longrightarrow> field_blobs True v = map (\<lambda>e. (fieldCode (fst e), fblob e)) (filter present v)"
proof (induction v)
  case (Cons e v)
  obtain f x where e: "e = (f, x)" by fastforce
  have "getSType x \<noteq> STI_NOTPRESENT \<Longrightarrow> shouldInclude f True"
    using Cons.prems st_ok_wire [of f x] by (auto simp: e shouldInclude_def wire_field_def)
  with Cons show ?case by (auto simp: e present_def fblob_def)
qed simp

lemma blobs_canon: "map snd (sort_fields (map (\<lambda>e. (fieldCode (fst e), fblob e)) (filter present v))) = map fblob (canon v)"
proof -
  have "map (\<lambda>e. (fieldCode (fst e), fblob e)) (filter present v) =
      map (\<lambda>(c, w). (c, fblob w)) (map (\<lambda>e. (fieldCode (fst e), e)) (filter present v))" by simp
  then show ?thesis by (simp only: sort_fields_map canon_def) auto
qed

lemma inner_bytes_canon: "fields_ok v \<Longrightarrow> inner_bytes (STObject t v) = concat (map fblob (canon v))"
  by (simp add: field_blobs_present blobs_canon)

lemma canon_fields: "fields_ok v \<Longrightarrow> distinct (map (fieldCode \<circ> fst) v) \<Longrightarrow> e \<in> set (canon v) \<Longrightarrow> st_ok (fst e) (snd e)"
  using canon_ok(1) [of v] fields_ok_mem by auto

section \<open>Restoring the template\<close>

lemma not_present: "getSType x = STI_NOTPRESENT \<longleftrightarrow> x = STNotPresent"
  by (cases x) simp_all

lemma canon_entry:
  assumes "distinct (map (fieldCode \<circ> fst) v)" "e \<in> set v"
  shows "entry (fieldCode (fst e)) (canon v) = (if present e then Some e else None)"
proof (cases "present e")
  case True
  then have "e \<in> set (canon v)" using canon_ok(1) [OF assms(1)] assms(2) by simp
  moreover have "distinct (map (fieldCode \<circ> fst) (canon v))"
    using canon_ok(2) [OF assms(1)] strict_sorted_iff [of "map (fieldCode \<circ> fst) (canon v)"] by blast
  ultimately show ?thesis using entry_mem True by simp
next
  case False
  have "fieldCode (fst e) \<notin> (fieldCode \<circ> fst) ` set (canon v)"
  proof
    assume "fieldCode (fst e) \<in> (fieldCode \<circ> fst) ` set (canon v)"
    then obtain d where d: "d \<in> set v" "present d" "fieldCode (fst d) = fieldCode (fst e)"
      using canon_ok(1) [OF assms(1)] by auto
    then have "d = e" using assms by (auto simp: distinct_map inj_on_def)
    with d False show False by simp
  qed
  with False show ?thesis by (simp add: entry_None)
qed

lemma setType_template:
  assumes d: "distinct (map (fieldCode \<circ> fst) v)" and fit: "fits_template t v"
  shows "STObject_setType t (STObject None (canon v)) = (True, STObject (Some t) v)"
proof -
  have fst: "map fst v = map fst t" and len: "length v = length t" using fit map_eq_imp_length_eq by (auto simp: fits_template_def)
  have dt: "distinct (map (fieldCode \<circ> fst) t)" using d fst by (metis map_map)
  have dc: "distinct (map (fieldCode \<circ> fst) (canon v))"
    using canon_ok(2) [OF d] strict_sorted_iff [of "map (fieldCode \<circ> fst) (canon v)"] by blast
  have at: "entry_ok (canon v) (t ! i) \<and> slot (canon v) (t ! i) = v ! i" if i: "i < length t" for i
  proof -
    have f: "fst (v ! i) = fst (t ! i)" using fst i len by (metis nth_map)
    have "(snd (t ! i), snd (v ! i)) \<in> set (zip (map snd t) (map snd v))"
      using i len by (auto simp: set_zip intro!: exI [of _ i])
    then have fl: "(snd (t ! i) = SOE_REQUIRED \<longrightarrow> present (v ! i)) \<and>
        (snd (t ! i) = SOE_DEFAULT \<longrightarrow> present (v ! i) \<longrightarrow> \<not> st_isDefault (snd (v ! i)))"
      using fit unfolding fits_template_def present_def by blast
    have e: "entry (fieldCode (fst (t ! i))) (canon v) = (if present (v ! i) then Some (v ! i) else None)"
      using canon_entry [OF d, of "v ! i"] i len f by simp
    show ?thesis
    proof (cases "present (v ! i)")
      case True
      with e fl show ?thesis by (auto simp: entry_ok_def slot_def)
    next
      case False
      then have "v ! i = (fst (t ! i), STNotPresent)" using f by (simp add: present_def not_present prod_eq_iff)
      with e fl False show ?thesis by (auto simp: entry_ok_def slot_def)
    qed
  qed
  have slots: "map (slot (canon v)) t = v" using at len by (intro nth_equalityI) simp_all
  have oks: "\<forall>ff \<in> set t. entry_ok (canon v) ff" using at by (metis in_set_conv_nth)
  obtain rest where r: "setType_loop t (canon v) = (True, v, rest)"
    "set rest = {e \<in> set (canon v). fieldCode (fst e) \<notin> (fieldCode \<circ> fst) ` set t}"
    using setType_loop_entries [OF dt dc] slots oks by auto
  have "(fieldCode \<circ> fst) ` set t = (fieldCode \<circ> fst) ` set v" using fst by (metis image_comp list.set_map)
  then have "rest = []" using r(2) canon_ok(1) [OF d] by (cases rest) auto
  with r(1) show ?thesis by (simp add: STObject_setType_def)
qed

lemma retype_template:
  assumes "findSOTemplateBySField f = Some t" "distinct (map (fieldCode \<circ> fst) v)" "fits_template t v"
  shows "setTypeFromSField f (STObject None (canon v)) = (typeIsSet, STObject (Some t) v)"
  using assms setType_template [OF assms(2,3)] by (simp add: setTypeFromSField_def)

lemma retype:
  assumes "inner_ok f ob"
  shows "\<exists>r. r \<noteq> typeSetFail \<and> setTypeFromSField f (STObject None (canon (obj_v ob))) = (r, ob)"
proof -
  obtain t v where ob: "ob = STObject t v" by (cases ob)
  have t: "t = findSOTemplateBySField f" and shape: "fits_shape t v" using assms unfolding ob inner_ok.simps by blast+
  show ?thesis
  proof (cases t)
    case None
    then have "canon v = v" using shape by (intro canon_sorted) (auto simp: fits_shape_def present_def)
    with None t show ?thesis by (auto simp: ob setTypeFromSField_def)
  next
    case (Some tm)
    then show ?thesis using retype_template [of f tm v] t shape by (auto simp: ob fits_shape_def)
  qed
qed

section \<open>Reading\<close>

definition raw :: "STBase \<Rightarrow> STBase" where
  "raw v = (case v of STObj ob \<Rightarrow> STObj (STObject None (canon (obj_v ob))) | _ \<Rightarrow> v)"

lemma field_id_nonempty: "0 < length (field_id_bytes type name)"
  by (simp add: field_id_bytes_def)

lemma read_id:
  assumes "wire_field f" "si_ok it" "si_rest it = id_bytes f @ bs"
  shows "si_getFieldID it = Inr ((fieldType f, fieldValue f), si_advance (length (id_bytes f)) it)"
    "\<not> si_empty it" "si_ok (si_advance (length (id_bytes f)) it)" "si_rest (si_advance (length (id_bytes f)) it) = bs"
    "si_remain (si_advance (length (id_bytes f)) it) < si_remain it"
proof -
  have n: "0 < length (id_bytes f)" using field_id_nonempty by (simp only: id_bytes_def)
  show "si_getFieldID it = Inr ((fieldType f, fieldValue f), si_advance (length (id_bytes f)) it)"
    using assms unfolding id_bytes_def by (intro si_getFieldID_rest) (auto simp: wire_field_def)
  show "si_ok (si_advance (length (id_bytes f)) it)" "si_rest (si_advance (length (id_bytes f)) it) = bs"
    using assms(2,3) by (auto intro: si_advance_ok)
  show "\<not> si_empty it" "si_remain (si_advance (length (id_bytes f)) it) < si_remain it"
    using si_remain_rest [OF assms(2)] assms(3) n by (auto simp: si_empty_def)
qed

lemma read_marker:
  assumes "type = STI_OBJECT \<or> type = STI_ARRAY" "si_ok it" "si_rest it = field_id_bytes type 1 @ bs"
  shows "si_getFieldID it = Inr ((type, 1), si_advance (length (field_id_bytes type 1)) it)" "\<not> si_empty it"
proof -
  show "si_getFieldID it = Inr ((type, 1), si_advance (length (field_id_bytes type 1)) it)"
    using assms by (intro si_getFieldID_rest) auto
  show "\<not> si_empty it" using si_remain_rest [OF assms(2)] assms(3) field_id_nonempty [of type 1] by (auto simp: si_empty_def)
qed

text \<open>
  The three statements of the induction on the fuel: reading a value with its end marker, the loop over the
  fields of an object up to its marker (\<open>True\<close>) or the end of the input (\<open>False\<close>), the loop over
  an array.
\<close>

definition obj_tail :: "bool \<Rightarrow> Blob" where
  "obj_tail b = (if b then field_id_bytes STI_OBJECT 1 else [])"

definition reads_var :: "nat \<Rightarrow> bool" where
  "reads_var n \<longleftrightarrow> (\<forall>f v it bs. st_ok f v \<longrightarrow> si_ok it \<longrightarrow> si_rest it = st_bytes v @ end_bytes v @ bs \<longrightarrow> 2 * si_remain it + 2 \<le> n \<longrightarrow>
     STVar_read n f it = Inr (raw v, si_advance (length (st_bytes v @ end_bytes v)) it))"

definition reads_object :: "nat \<Rightarrow> bool" where
  "reads_object n \<longleftrightarrow> (\<forall>es acc it b bs. (\<forall>e \<in> set es. st_ok (fst e) (snd e)) \<longrightarrow> si_ok it \<longrightarrow>
     si_rest it = concat (map fblob es) @ obj_tail b @ bs \<longrightarrow> (b \<or> bs = []) \<longrightarrow> 2 * si_remain it + 1 \<le> n \<longrightarrow>
     STObject_loop n acc it = Inr (b, acc @ es, si_advance (length (concat (map fblob es) @ obj_tail b)) it))"

definition reads_array :: "nat \<Rightarrow> bool" where
  "reads_array n \<longleftrightarrow> (\<forall>es acc it bs. elems_ok es \<longrightarrow> si_ok it \<longrightarrow>
     si_rest it = array_bytes es @ field_id_bytes STI_ARRAY 1 @ bs \<longrightarrow> 2 * si_remain it + 1 \<le> n \<longrightarrow>
     STArray_loop n acc it = Inr (acc @ es, si_advance (length (array_bytes es @ field_id_bytes STI_ARRAY 1)) it))"

lemma reads_varD:
  "reads_var n \<Longrightarrow> st_ok f v \<Longrightarrow> si_ok it \<Longrightarrow> si_rest it = st_bytes v @ end_bytes v @ bs \<Longrightarrow> 2 * si_remain it + 2 \<le> n \<Longrightarrow>
     STVar_read n f it = Inr (raw v, si_advance (length (st_bytes v @ end_bytes v)) it)"
  unfolding reads_var_def by blast

lemma reads_objectD:
  "reads_object n \<Longrightarrow> (\<And>e. e \<in> set es \<Longrightarrow> st_ok (fst e) (snd e)) \<Longrightarrow> si_ok it \<Longrightarrow>
     si_rest it = concat (map fblob es) @ obj_tail b @ bs \<Longrightarrow> b \<or> bs = [] \<Longrightarrow> 2 * si_remain it + 1 \<le> n \<Longrightarrow>
     STObject_loop n acc it = Inr (b, acc @ es, si_advance (length (concat (map fblob es) @ obj_tail b)) it)"
  unfolding reads_object_def by blast

lemma reads_arrayD:
  "reads_array n \<Longrightarrow> elems_ok es \<Longrightarrow> si_ok it \<Longrightarrow> si_rest it = array_bytes es @ field_id_bytes STI_ARRAY 1 @ bs \<Longrightarrow> 2 * si_remain it + 1 \<le> n \<Longrightarrow>
     STArray_loop n acc it = Inr (acc @ es, si_advance (length (array_bytes es @ field_id_bytes STI_ARRAY 1)) it)"
  unfolding reads_array_def by blast

lemma inner_read:
  assumes "reads_object n" "inner_ok f ob" "si_ok it" "si_rest it = inner_bytes ob @ field_id_bytes STI_OBJECT 1 @ bs" "2 * si_remain it + 1 \<le> n"
  shows "STObject_loop n [] it = Inr (True, canon (obj_v ob), si_advance (length (inner_bytes ob @ field_id_bytes STI_OBJECT 1)) it)"
proof -
  obtain t v where ob: "ob = STObject t v" by (cases ob)
  have v: "fields_ok v" "distinct (map (fieldCode \<circ> fst) v)" using assms(2) unfolding ob by (auto simp: fits_shape_def)
  have b: "inner_bytes ob = concat (map fblob (canon v))" unfolding ob by (rule inner_bytes_canon [OF v(1)])
  have "STObject_loop n [] it = Inr (True, [] @ canon v, si_advance (length (concat (map fblob (canon v)) @ obj_tail True)) it)"
    by (rule reads_objectD [OF assms(1) canon_fields [OF v] assms(3) _ _ assms(5), where bs = bs]) (simp_all add: assms(4) b obj_tail_def)
  then show ?thesis unfolding b by (simp add: ob obj_tail_def)
qed

lemma plain_read:
  assumes p: "st_plain v" and ok: "st_ok f v" and it: "si_ok it" "si_rest it = st_bytes v @ end_bytes v @ bs"
  shows "STVar_read n f it = Inr (raw v, si_advance (length (st_bytes v @ end_bytes v)) it)"
proof -
  have v: "plain_ok v" "fieldType f = getSType v" using p ok by (cases v; simp)+
  have b: "st_bytes v = plain_bytes v" "end_bytes v = []" "raw v = v" "getSType v \<noteq> STI_OBJECT" "getSType v \<noteq> STI_ARRAY"
    using p by (cases v; simp add: end_bytes_def raw_def)+
  have "STVar_plain f it = Inr (v, si_advance (length (plain_bytes v)) it)"
    using it(2) unfolding b by (intro STVar_plain_bytes [OF p v it(1), where bs = bs]) simp
  then show ?thesis using v(2) b(4,5) unfolding b(1-3) STVar_read.simps by simp
qed

lemma reads_var_Suc:
  assumes "reads_object n" "reads_array n"
  shows "reads_var (Suc n)"
  unfolding reads_var_def
proof (intro allI impI)
  fix f v it bs
  assume ok: "st_ok f v" and it: "si_ok it" "si_rest it = st_bytes v @ end_bytes v @ bs" and n: "2 * si_remain it + 2 \<le> Suc n"
  show "STVar_read (Suc n) f it = Inr (raw v, si_advance (length (st_bytes v @ end_bytes v)) it)"
  proof (cases v)
    case (STObj ob)
    then have "STObject_loop n [] it = Inr (True, canon (obj_v ob), si_advance (length (inner_bytes ob @ field_id_bytes STI_OBJECT 1)) it)"
      using ok it n by (intro inner_read [OF assms(1), of f ob it bs]) (simp_all add: end_bytes_def)
    with STObj ok show ?thesis by (simp add: raw_def end_bytes_def)
  next
    case (STArray es)
    then have "STArray_loop n [] it = Inr ([] @ es, si_advance (length (array_bytes es @ field_id_bytes STI_ARRAY 1)) it)"
      using ok it n by (intro reads_arrayD [OF assms(2), where bs = bs]) (simp_all add: end_bytes_def)
    with STArray ok show ?thesis by (simp add: raw_def end_bytes_def)
  qed (use plain_read [OF _ ok it] ok in simp_all)
qed

lemma retyped:
  assumes "st_ok f v"
  shows "(case raw v of STObj ob \<Rightarrow>
      (let (r, ob') = setTypeFromSField f ob in if r = typeSetFail then Inl (LThrow e) else Inr (STObj ob'))
    | _ \<Rightarrow> Inr (raw v)) = Inr v"
proof (cases v)
  case (STObj ob)
  with retype [of f ob] assms show ?thesis by (auto simp: raw_def)
qed (simp_all add: raw_def)

lemma reads_object_Suc:
  assumes "reads_var n" "reads_object n"
  shows "reads_object (Suc n)"
  unfolding reads_object_def
proof (intro allI impI)
  fix es acc it b bs
  assume ok: "\<forall>e \<in> set es. st_ok (fst e) (snd e)" and it: "si_ok it" "si_rest it = concat (map fblob es) @ obj_tail b @ bs"
    and b: "b \<or> bs = []" and n: "2 * si_remain it + 1 \<le> Suc n"
  show "STObject_loop (Suc n) acc it = Inr (b, acc @ es, si_advance (length (concat (map fblob es) @ obj_tail b)) it)"
  proof (cases es)
    case Nil
    show ?thesis
    proof (cases b)
      case True
      with Nil it read_marker [of STI_OBJECT it bs] show ?thesis by (simp add: obj_tail_def)
    next
      case False
      with Nil it b have "si_empty it" by (simp add: obj_tail_def si_empty_def si_remain_rest)
      with Nil False show ?thesis by (simp add: obj_tail_def)
    qed
  next
    case (Cons e r)
    obtain f v where e: "e = (f, v)" by fastforce
    have v: "st_ok f v" and w: "wire_field f" using ok st_ok_wire [of f v] by (auto simp: Cons e)
    let ?it = "si_advance (length (id_bytes f)) it" and ?vb = "st_bytes v @ end_bytes v"
    have rest: "si_rest it = id_bytes f @ ?vb @ concat (map fblob r) @ obj_tail b @ bs" using it(2) by (simp add: Cons e fblob_def)
    note id = read_id [OF w it(1) rest]
    have sv: "STVar_read n f ?it = Inr (raw v, si_advance (length ?vb) ?it)"
      using id n by (intro reads_varD [OF assms(1) v, where bs = "concat (map fblob r) @ obj_tail b @ bs"]) simp_all
    have loop: "STObject_loop n (acc @ [e]) (si_advance (length ?vb) ?it) =
        Inr (b, (acc @ [e]) @ r, si_advance (length (concat (map fblob r) @ obj_tail b)) (si_advance (length ?vb) ?it))"
      using id n b ok
      by (intro reads_objectD [OF assms(2), where bs = bs]) (auto simp: Cons intro!: si_advance_ok)
    have "STObject_loop (Suc n) acc it = STObject_loop n (acc @ [e]) (si_advance (length ?vb) ?it)"
      using w unfolding STObject_loop.simps id(1) bind_r_simps prod.case wire_field_def
      by (auto simp: id(2) sv retyped [OF v] e simp del: STVar_read.simps)
    then show ?thesis using loop by (simp add: Cons e fblob_def si_advance_advance add.assoc)
  qed
qed

lemma reads_array_Suc:
  assumes "reads_object n" "reads_array n"
  shows "reads_array (Suc n)"
  unfolding reads_array_def
proof (intro allI impI)
  fix es acc it bs
  assume ok: "elems_ok es" and it: "si_ok it" "si_rest it = array_bytes es @ field_id_bytes STI_ARRAY 1 @ bs"
    and n: "2 * si_remain it + 1 \<le> Suc n"
  show "STArray_loop (Suc n) acc it = Inr (acc @ es, si_advance (length (array_bytes es @ field_id_bytes STI_ARRAY 1)) it)"
  proof (cases es)
    case Nil
    with it read_marker [of STI_ARRAY it bs] show ?thesis by simp
  next
    case (Cons e r)
    obtain f ob where e: "e = (f, ob)" by fastforce
    have w: "wire_field f" "fieldType f = STI_OBJECT" and o: "inner_ok f ob" and r: "elems_ok r" using ok by (simp_all add: Cons e)
    let ?it = "si_advance (length (id_bytes f)) it" and ?ob = "inner_bytes ob @ field_id_bytes STI_OBJECT 1"
    have rest: "si_rest it = id_bytes f @ ?ob @ array_bytes r @ field_id_bytes STI_ARRAY 1 @ bs" using it(2) by (simp add: Cons e)
    note id = read_id [OF w(1) it(1) rest]
    have so: "STObject_loop n [] ?it = Inr (True, canon (obj_v ob), si_advance (length ?ob) ?it)"
      using id n by (intro inner_read [OF assms(1) o, where bs = "array_bytes r @ field_id_bytes STI_ARRAY 1 @ bs"]) simp_all
    have loop: "STArray_loop n (acc @ [e]) (si_advance (length ?ob) ?it) =
        Inr ((acc @ [e]) @ r, si_advance (length (array_bytes r @ field_id_bytes STI_ARRAY 1)) (si_advance (length ?ob) ?it))"
      using id n by (intro reads_arrayD [OF assms(2) r, where bs = bs]) (auto intro!: si_advance_ok)
    have "STArray_loop (Suc n) acc it = STArray_loop n (acc @ [e]) (si_advance (length ?ob) ?it)"
      using w retype [OF o] unfolding STArray_loop.simps id(1) bind_r_simps prod.case wire_field_def
      by (auto simp: id(2) so e)
    then show ?thesis using loop by (simp add: Cons e si_advance_advance add.assoc)
  qed
qed

lemma reads_all: "reads_var n \<and> reads_object n \<and> reads_array n"
proof (induction n)
  case 0
  show ?case by (simp add: reads_var_def reads_object_def reads_array_def)
next
  case (Suc n)
  then show ?case by (simp add: reads_var_Suc reads_object_Suc reads_array_Suc)
qed

text \<open>
  A free object with well-formed fields in the order of their codes is read back from what it writes, also
  when other bytes precede it in the buffer.
\<close>

definition object_ok :: "STObject \<Rightarrow> bool" where
  "object_ok ob = (obj_type ob = None \<and> fits_shape None (obj_v ob) \<and> fields_ok (obj_v ob))"

definition object_bytes :: "STObject \<Rightarrow> Blob" where
  "object_bytes ob = concat (map fblob (canon (obj_v ob)))"

lemma getSerializer_bytes:
  assumes "fields_ok (obj_v ob)"
  shows "getSerializer ob = Inr (object_bytes ob)"
  unfolding getSerializer_def STObject_add_def st_add_bytes(2) [OF assms] sort_fields_map fold_blob_writers
    field_blobs_present [OF assms] blobs_canon object_bytes_def by simp

lemma STObject_read_bytes:
  assumes "fields_ok (obj_v ob)" "distinct (map (fieldCode \<circ> fst) (obj_v ob))" "si_ok it" "si_rest it = object_bytes ob"
  shows "STObject_read it = Inr (STObject None (canon (obj_v ob)), si_advance (length (object_bytes ob)) it)"
proof -
  have "reads_object (2 * si_remain it + 1)" using reads_all by blast
  then have "STObject_loop (2 * si_remain it + 1) [] it =
      Inr (False, [] @ canon (obj_v ob), si_advance (length (concat (map fblob (canon (obj_v ob))) @ obj_tail False)) it)"
    by (rule reads_objectD [OF _ canon_fields [OF assms(1,2)] assms(3), where bs = "[]"]) (simp_all add: assms(4) object_bytes_def obj_tail_def)
  then show ?thesis unfolding STObject_read_def by (simp add: object_bytes_def obj_tail_def del: STObject_loop.simps)
qed

lemma object_ok_reads:
  assumes "object_ok ob"
  shows "getSerializer ob = Inr (object_bytes ob)"
    "STObject_read (SerialIter_of (object_bytes ob)) = Inr (ob, si_advance (length (object_bytes ob)) (SerialIter_of (object_bytes ob)))"
proof -
  have ok: "obj_type ob = None" "fields_ok (obj_v ob)" "distinct (map (fieldCode \<circ> fst) (obj_v ob))" "canon (obj_v ob) = obj_v ob"
    using assms canon_sorted [of "obj_v ob"] by (auto simp: object_ok_def fits_shape_def present_def case_prod_beta)
  then have "STObject None (canon (obj_v ob)) = ob" by (cases ob) simp
  with getSerializer_bytes [OF ok(2)] STObject_read_bytes [OF ok(2,3) SerialIter_of_ok]
  show "getSerializer ob = Inr (object_bytes ob)"
    "STObject_read (SerialIter_of (object_bytes ob)) = Inr (ob, si_advance (length (object_bytes ob)) (SerialIter_of (object_bytes ob)))" by simp_all
qed

end
