(* ===== verification/STObject_Access.thy ===== *)
theory STObject_Access
  imports STObject
begin

text \<open>
  Access to the fields of serialized objects. Every value has the type of its field and the fields of an
  object with a template stand at the positions of the template; the parser establishes this and every
  operation keeps it. The contract of the typed accessors, a field that was set reads as it was set and
  nothing else changes, is a locale interpreted for each pair of a getter and a setter.
\<close>

section \<open>Typed objects\<close>

text \<open>Fields that the register knows by their code, so that a code determines a field.\<close>

definition registered :: "SField \<Rightarrow> bool" where
  "registered f = (SField_getField (fieldCode f) = Inr f)"

lemma registered_eq: "registered f \<Longrightarrow> registered g \<Longrightarrow> fieldCode f = fieldCode g \<Longrightarrow> f = g"
  by (simp add: registered_def)

fun st_typed :: "SField \<Rightarrow> STBase \<Rightarrow> bool"
  and fields_typed :: "(SField \<times> STBase) list \<Rightarrow> bool"
  and elems_typed :: "(SField \<times> STObject) list \<Rightarrow> bool"
  and obj_typed :: "STObject \<Rightarrow> bool" where
  "st_typed f STNotPresent = True"
| "st_typed f (STObj ob) = (fieldType f = STI_OBJECT \<and> obj_typed ob)"
| "st_typed f (STArray es) = (fieldType f = STI_ARRAY \<and> elems_typed es)"
| "st_typed f v = (fieldType f = getSType v)"
| "fields_typed [] = True"
| "fields_typed ((f, v) # r) = (registered f \<and> st_typed f v \<and> fields_typed r)"
| "elems_typed [] = True"
| "elems_typed ((f, ob) # es) = (fieldType f = STI_OBJECT \<and> obj_typed ob \<and> elems_typed es)"
| "obj_typed (STObject t v) = (fields_typed v \<and> (case t of None \<Rightarrow> True | Some tm \<Rightarrow> map fst v = map fst tm))"

lemma fields_typed_iff: "fields_typed v \<longleftrightarrow> (\<forall>(f, x) \<in> set v. registered f \<and> st_typed f x)"
  by (induction v) auto

lemma elems_typed_iff: "elems_typed es \<longleftrightarrow> (\<forall>(f, ob) \<in> set es. fieldType f = STI_OBJECT \<and> obj_typed ob)"
  by (induction es) auto

lemma obj_typed_iff: "obj_typed ob \<longleftrightarrow> (\<forall>(f, x) \<in> set (obj_v ob). registered f \<and> st_typed f x) \<and>
    (\<forall>t. obj_type ob = Some t \<longrightarrow> map fst (obj_v ob) = map fst t)"
  by (cases ob) (auto simp: fields_typed_iff split: option.splits)

lemma st_typed_type: "st_typed f v \<Longrightarrow> getSType v \<noteq> STI_NOTPRESENT \<Longrightarrow> getSType v = fieldType f"
  by (cases v) simp_all

lemma default_typed: "defaultObject f = Inr v \<Longrightarrow> st_typed f v \<and> getSType v = fieldType f"
  by (auto simp: defaultObject_def Let_def split: if_splits)

section \<open>Positions\<close>

lemma field_position_Some: "field_position c v = Some i \<Longrightarrow> i < length v \<and> fieldCode (fst (v ! i)) = c"
  by (induction v arbitrary: i) (auto split: if_splits)

lemma field_position_None: "field_position c v = None \<longleftrightarrow> c \<notin> (fieldCode \<circ> fst) ` set v"
  by (induction v) (auto split: if_splits)

lemma field_position_fst: "map fst v = map fst t \<Longrightarrow> field_position c v = field_position c t"
proof (induction v arbitrary: t)
  case (Cons e v)
  then obtain d t' where t: "t = d # t'" by (cases t) auto
  with Cons show ?case by (cases e; cases d) auto
qed auto

text \<open>In a typed object the template and the search agree on where a field is.\<close>

lemma getFieldIndex_typed:
  assumes "obj_typed ob"
  shows "getFieldIndex f ob = field_position (fieldCode f) (obj_v ob)"
proof (cases "obj_type ob")
  case (Some t)
  with assms have "map fst (obj_v ob) = map fst t" by (simp add: obj_typed_iff)
  from field_position_fst [OF this] Some show ?thesis by (simp add: getFieldIndex_def SOTemplate_getIndex_def)
qed (simp add: getFieldIndex_def)

lemma getFieldIndex_Some:
  assumes "obj_typed ob" "registered f" "getFieldIndex f ob = Some i"
  shows "i < length (obj_v ob)" "fst (obj_v ob ! i) = f" "st_typed f (snd (obj_v ob ! i))" "obj_at i ob = Inr (f, snd (obj_v ob ! i))"
proof -
  have p: "i < length (obj_v ob)" "fieldCode (fst (obj_v ob ! i)) = fieldCode f"
    using field_position_Some assms(3) unfolding getFieldIndex_typed [OF assms(1)] by blast+
  show "i < length (obj_v ob)" by (rule p)
  have "obj_v ob ! i \<in> set (obj_v ob)" using p by simp
  then have reg: "registered (fst (obj_v ob ! i))" "st_typed (fst (obj_v ob ! i)) (snd (obj_v ob ! i))" using assms(1) unfolding obj_typed_iff by auto
  then show f: "fst (obj_v ob ! i) = f" using registered_eq p(2) assms(2) by blast
  then show "st_typed f (snd (obj_v ob ! i))" "obj_at i ob = Inr (f, snd (obj_v ob ! i))"
    using reg p(1) by (auto simp: obj_at_def prod_eq_iff)
qed

lemma getFieldIndex_fst: "map fst (obj_v ob') = map fst (obj_v ob) \<Longrightarrow> obj_type ob' = obj_type ob \<Longrightarrow> getFieldIndex g ob' = getFieldIndex g ob"
  using field_position_fst [of "obj_v ob'" "obj_v ob"] by (simp add: getFieldIndex_def split: option.split)

lemma obj_put_simps [simp]: "obj_type (obj_put i v ob) = obj_type ob" "i < length (obj_v ob) \<Longrightarrow> map fst (obj_v (obj_put i v ob)) = map fst (obj_v ob)"
  "length (obj_v (obj_put i v ob)) = length (obj_v ob)"
  by (simp_all add: obj_put_def map_update list_update_same_conv)

lemma obj_put_nth: "j < length (obj_v ob) \<Longrightarrow> obj_v (obj_put i v ob) ! j = (if j = i then (fst (obj_v ob ! i), v) else obj_v ob ! j)"
  by (simp add: obj_put_def nth_list_update)

lemma obj_put_typed: "obj_typed ob \<Longrightarrow> i < length (obj_v ob) \<Longrightarrow> st_typed (fst (obj_v ob ! i)) v \<Longrightarrow> obj_typed (obj_put i v ob)"
proof -
  assume a: "obj_typed ob" "i < length (obj_v ob)" "st_typed (fst (obj_v ob ! i)) v"
  have "registered (fst (obj_v ob ! i))" using a(1,2) nth_mem [OF a(2)] unfolding obj_typed_iff by (auto simp: case_prod_beta)
  then have "\<forall>(f, x) \<in> set (obj_v (obj_put i v ob)). registered f \<and> st_typed f x"
    using a(1,3) unfolding obj_typed_iff obj_put_def by (auto dest!: set_update_subset_insert [THEN subsetD])
  then show ?thesis using a(1,2) unfolding obj_typed_iff by simp
qed

section \<open>Storing a value\<close>

text \<open>What every setter does to a typed object that has the field or can take it.\<close>

definition field_put :: "SField \<Rightarrow> STBase \<Rightarrow> STObject \<Rightarrow> STObject" where
  "field_put f v ob = (case getFieldIndex f ob of
     Some i \<Rightarrow> obj_put i v ob | None \<Rightarrow> STObject None (obj_v ob @ [(f, v)]))"

definition accepts :: "SField \<Rightarrow> STObject \<Rightarrow> bool" where
  "accepts f ob = (getFieldIndex f ob \<noteq> None \<or> isFree ob)"

lemma field_put_typed:
  assumes "obj_typed ob" "registered f" "st_typed f v"
  shows "obj_typed (field_put f v ob)"
proof (cases "getFieldIndex f ob")
  case None
  then show ?thesis using assms by (auto simp: field_put_def obj_typed_iff)
next
  case (Some i)
  with getFieldIndex_Some [OF assms(1,2) Some] obj_put_typed [OF assms(1)] assms(3) show ?thesis by (simp add: field_put_def)
qed

lemma field_position_append: "field_position c (v @ w) =
    (case field_position c v of Some i \<Rightarrow> Some i | None \<Rightarrow> map_option (\<lambda>i. length v + i) (field_position c w))"
proof (induction v)
  case (Cons e v)
  then show ?case by (cases e; cases "field_position c w") (auto split: option.splits)
qed (cases "field_position c w"; simp)

lemma peek_typed:
  assumes "obj_typed ob"
  shows "peekAtPField g ob = Inr (map_option (\<lambda>i. snd (obj_v ob ! i)) (field_position (fieldCode g) (obj_v ob)))"
  using field_position_Some [of "fieldCode g" "obj_v ob"] unfolding peekAtPField_def getFieldIndex_typed [OF assms]
  by (auto simp: obj_at_def case_prod_beta split: option.split)

lemma peek_put:
  assumes "obj_typed ob" "registered f" "st_typed f v" "accepts f ob"
  shows "peekAtPField g (field_put f v ob) = (if fieldCode g = fieldCode f then Inr (Some v) else peekAtPField g ob)"
proof (cases "getFieldIndex f ob")
  case None
  let ?ob = "STObject None (obj_v ob @ [(f, v)])"
  have eq: "field_put f v ob = ?ob" using None by (simp add: field_put_def)
  have typed: "obj_typed ?ob" using field_put_typed [OF assms(1-3)] unfolding eq .
  have "field_position (fieldCode f) (obj_v ob) = None" using None unfolding getFieldIndex_typed [OF assms(1)] .
  then show ?thesis using field_position_Some [of "fieldCode g" "obj_v ob"]
    unfolding eq peek_typed [OF typed] peek_typed [OF assms(1)]
    by (auto simp: field_position_append nth_append split: option.split)
next
  case (Some i)
  note i = getFieldIndex_Some [OF assms(1,2) Some]
  have eq: "field_put f v ob = obj_put i v ob" using Some by (simp add: field_put_def)
  have typed: "obj_typed (obj_put i v ob)" using field_put_typed [OF assms(1-3)] unfolding eq .
  have pos: "field_position c (obj_v (obj_put i v ob)) = field_position c (obj_v ob)" for c
    by (rule field_position_fst) (simp add: i(1))
  have "field_position (fieldCode f) (obj_v ob) = Some i" using Some unfolding getFieldIndex_typed [OF assms(1)] .
  moreover have "j \<noteq> i" if "field_position (fieldCode g) (obj_v ob) = Some j" "fieldCode g \<noteq> fieldCode f" for j
    using field_position_Some [OF that(1)] that(2) i(2) by auto
  ultimately show ?thesis using field_position_Some [of "fieldCode g" "obj_v ob"]
    unfolding eq peek_typed [OF typed] peek_typed [OF assms(1)] pos
    by (cases "field_position (fieldCode g) (obj_v ob)") (auto simp: obj_put_nth i(1))
qed

lemma obj_put_put [simp]: "i < length (obj_v ob) \<Longrightarrow> obj_put i v (obj_put i w ob) = obj_put i v ob"
  by (simp add: obj_put_def)

lemma makeFieldPresent_typed:
  assumes "obj_typed ob" "registered f" "getFieldIndex f ob = Some i" "defaultObject f = Inr d" "snd (obj_v ob ! i) = STNotPresent"
  shows "makeFieldPresent f ob = Inr (i, obj_put i d ob)"
  using getFieldIndex_Some [OF assms(1-3)] assms(3-5) by (simp add: makeFieldPresent_def)

lemma setFieldBy_put:
  assumes typed: "obj_typed ob" "registered f" and d: "defaultObject f = Inr d" and nz: "fieldType f \<noteq> STI_NOTPRESENT"
    and upd: "\<And>cur. getSType cur = fieldType f \<Longrightarrow> upd cur = Some v"
  shows "setFieldBy upd f ob = (if accepts f ob then Inr (field_put f v ob) else Inl (LThrow ''Field not found''))"
proof (cases "getFieldIndex f ob")
  case None
  have "upd d = Some v" "getSType d \<noteq> STI_NOTPRESENT" using upd default_typed [OF d] nz by simp_all
  with None d show ?thesis
    by (auto simp: setFieldBy_def getPField_create_def accepts_def field_put_def obj_at_def obj_put_def)
next
  case (Some i)
  note i = getFieldIndex_Some [OF typed Some]
  have acc: "accepts f ob" using Some by (simp add: accepts_def)
  let ?old = "snd (obj_v ob ! i)"
  show ?thesis
  proof (cases "?old = STNotPresent")
    case True
    have "obj_at i (obj_put i d ob) = Inr (f, d)" using i by (simp add: obj_at_def obj_put_nth)
    moreover have "upd d = Some v" using upd default_typed [OF d] by simp
    ultimately show ?thesis using True Some i acc makeFieldPresent_typed [OF typed Some d True]
      by (simp add: setFieldBy_def getPField_create_def field_put_def)
  next
    case False
    then have "getSType ?old \<noteq> STI_NOTPRESENT" by (cases ?old) simp_all
    moreover from this have "upd ?old = Some v" using upd st_typed_type [OF i(3)] by simp
    ultimately show ?thesis using Some i acc by (simp add: setFieldBy_def getPField_create_def field_put_def)
  qed
qed

section \<open>The contract of typed access\<close>

text \<open>What is set is read, and no other field changes.\<close>

definition set_then_get :: "(SField \<Rightarrow> STObject \<Rightarrow> (led_error, 'v) result) \<Rightarrow> ('v \<Rightarrow> SField \<Rightarrow> STObject \<Rightarrow> (led_error, STObject) result) \<Rightarrow>
    'v \<Rightarrow> SField \<Rightarrow> STObject \<Rightarrow> bool" where
  "set_then_get get put x f ob = (\<exists>ob'. put x f ob = Inr ob' \<and> get f ob' = Inr x \<and>
     (\<forall>g. fieldCode g \<noteq> fieldCode f \<longrightarrow> peekAtPField g ob' = peekAtPField g ob))"

locale typed_access =
  fixes type :: int
    and get :: "SField \<Rightarrow> STObject \<Rightarrow> (led_error, 'v) result"
    and set :: "'v \<Rightarrow> SField \<Rightarrow> STObject \<Rightarrow> (led_error, STObject) result"
    and cast :: "STBase \<Rightarrow> 'v option"
    and absent :: 'v
    and make :: "'v \<Rightarrow> STBase"
    and upd :: "'v \<Rightarrow> STBase \<Rightarrow> STBase option"
    and good :: "'v \<Rightarrow> bool"
  assumes type: "type \<noteq> STI_NOTPRESENT" "\<exists>d. \<forall>f. fieldType f = type \<longrightarrow> defaultObject f = Inr d"
    and get: "get = getFieldBy cast absent"
    and set: "set = (\<lambda>x. setFieldBy (upd x))"
    and cast_make: "cast (make x) = Some x"
    and cast_type: "getSType v = type \<Longrightarrow> cast v \<noteq> None"
    and upd_type: "getSType v = type \<Longrightarrow> upd x v = Some (make x)"
    and make_type: "getSType (make x) = type" "good x \<Longrightarrow> fieldType f = type \<Longrightarrow> st_typed f (make x)"
begin

lemma set_put:
  assumes "obj_typed ob" "registered f" "fieldType f = type"
  shows "set x f ob = (if accepts f ob then Inr (field_put f (make x) ob) else Inl (LThrow ''Field not found''))"
proof -
  from type(2) assms(3) obtain d where "defaultObject f = Inr d" by blast
  from setFieldBy_put [OF assms(1,2) this] assms(3) type(1) upd_type show ?thesis by (simp add: set)
qed

text \<open>A getter fails only when the object has no such field.\<close>

lemma get_total:
  assumes "obj_typed ob" "registered f" "fieldType f = type"
  shows "if getFieldIndex f ob = None then get f ob = Inl (LThrow ''Field not found'') else \<exists>x. get f ob = Inr x"
proof (cases "getFieldIndex f ob")
  case None
  then show ?thesis by (simp add: get getFieldBy_def peekAtPField_def)
next
  case (Some i)
  note i = getFieldIndex_Some [OF assms(1,2) Some]
  have "getSType (snd (obj_v ob ! i)) = STI_NOTPRESENT \<or> cast (snd (obj_v ob ! i)) \<noteq> None"
    using cast_type st_typed_type [OF i(3)] assms(3) by metis
  with Some i(4) show ?thesis by (auto simp: get getFieldBy_def peekAtPField_def)
qed

text \<open>What was set is read; the other fields are as before; the object stays typed.\<close>

lemma set_get:
  assumes "obj_typed ob" "registered f" "fieldType f = type" "good x" "set x f ob = Inr ob'"
  shows "obj_typed ob' \<and> get f ob' = Inr x \<and> (\<forall>g. fieldCode g \<noteq> fieldCode f \<longrightarrow> peekAtPField g ob' = peekAtPField g ob)"
proof -
  have acc: "accepts f ob" and ob': "ob' = field_put f (make x) ob" using assms(5) set_put [OF assms(1-3)] by (auto split: if_splits)
  have m: "st_typed f (make x)" using make_type assms(3,4) by simp
  note p = peek_put [OF assms(1,2) m acc]
  have "get f ob' = Inr x" using p [of f] make_type(1) [of x] type(1) cast_make [of x] by (simp add: ob' get getFieldBy_def)
  with p field_put_typed [OF assms(1,2) m] show ?thesis by (simp add: ob')
qed

lemma set_then_get:
  assumes "obj_typed ob" "registered f" "fieldType f = type" "good x" "accepts f ob"
  shows "set_then_get get set x f ob"
  using set_put [OF assms(1-3)] set_get [OF assms(1-4)] assms(5) unfolding set_then_get_def by auto

end

text \<open>The accessors of the code.\<close>

interpretation u8: typed_access STI_UINT8 getFieldU8 setFieldU8 "\<lambda>v. case v of STUInt8 x \<Rightarrow> Some x | _ \<Rightarrow> None" "0" STUInt8
  "\<lambda>x v. case v of STUInt8 _ \<Rightarrow> Some (STUInt8 x) | _ \<Rightarrow> None" "\<lambda>_. True"
  by unfold_locales (auto simp: getFieldU8_def setFieldU8_def defaultObject_def fun_eq_iff split: STBase.split)

interpretation u16: typed_access STI_UINT16 getFieldU16 setFieldU16 "\<lambda>v. case v of STUInt16 x \<Rightarrow> Some x | _ \<Rightarrow> None" "0" STUInt16
  "\<lambda>x v. case v of STUInt16 _ \<Rightarrow> Some (STUInt16 x) | _ \<Rightarrow> None" "\<lambda>_. True"
  by unfold_locales (auto simp: getFieldU16_def setFieldU16_def defaultObject_def fun_eq_iff split: STBase.split)

interpretation u32: typed_access STI_UINT32 getFieldU32 setFieldU32 "\<lambda>v. case v of STUInt32 x \<Rightarrow> Some x | _ \<Rightarrow> None" "0" STUInt32
  "\<lambda>x v. case v of STUInt32 _ \<Rightarrow> Some (STUInt32 x) | _ \<Rightarrow> None" "\<lambda>_. True"
  by unfold_locales (auto simp: getFieldU32_def setFieldU32_def defaultObject_def fun_eq_iff split: STBase.split)

interpretation u64: typed_access STI_UINT64 getFieldU64 setFieldU64 "\<lambda>v. case v of STUInt64 x \<Rightarrow> Some x | _ \<Rightarrow> None" "0" STUInt64
  "\<lambda>x v. case v of STUInt64 _ \<Rightarrow> Some (STUInt64 x) | _ \<Rightarrow> None" "\<lambda>_. True"
  by unfold_locales (auto simp: getFieldU64_def setFieldU64_def defaultObject_def fun_eq_iff split: STBase.split)

interpretation h128: typed_access STI_HASH128 getFieldH128 setFieldH128 "\<lambda>v. case v of STHash128 x \<Rightarrow> Some x | _ \<Rightarrow> None" "0" STHash128
  "\<lambda>x v. case v of STHash128 _ \<Rightarrow> Some (STHash128 x) | _ \<Rightarrow> None" "\<lambda>_. True"
  by unfold_locales (auto simp: getFieldH128_def setFieldH128_def defaultObject_def fun_eq_iff split: STBase.split)

interpretation h160: typed_access STI_HASH160 getFieldH160 setFieldH160 "\<lambda>v. case v of STHash160 x \<Rightarrow> Some x | _ \<Rightarrow> None" "0" STHash160
  "\<lambda>x v. case v of STHash160 _ \<Rightarrow> Some (STHash160 x) | _ \<Rightarrow> None" "\<lambda>_. True"
  by unfold_locales (auto simp: getFieldH160_def setFieldH160_def defaultObject_def fun_eq_iff split: STBase.split)

interpretation h256: typed_access STI_HASH256 getFieldH256 setFieldH256 "\<lambda>v. case v of STHash256 x \<Rightarrow> Some x | _ \<Rightarrow> None" "0" STHash256
  "\<lambda>x v. case v of STHash256 _ \<Rightarrow> Some (STHash256 x) | _ \<Rightarrow> None" "\<lambda>_. True"
  by unfold_locales (auto simp: getFieldH256_def setFieldH256_def defaultObject_def fun_eq_iff split: STBase.split)

interpretation v256: typed_access STI_VECTOR256 getFieldV256 setFieldV256 "\<lambda>v. case v of STVector256 x \<Rightarrow> Some x | _ \<Rightarrow> None" "[]" STVector256
  "\<lambda>x v. case v of STVector256 _ \<Rightarrow> Some (STVector256 x) | _ \<Rightarrow> None" "\<lambda>_. True"
  by unfold_locales (auto simp: getFieldV256_def setFieldV256_def defaultObject_def fun_eq_iff split: STBase.split)

interpretation amt: typed_access STI_AMOUNT getFieldAmount setFieldAmount "\<lambda>v. case v of STAmt x \<Rightarrow> Some x | _ \<Rightarrow> None" "STAmount_drops 0 False" STAmt
  "\<lambda>x v. case v of STAmt _ \<Rightarrow> Some (STAmt x) | _ \<Rightarrow> None" "\<lambda>_. True"
  by unfold_locales (auto simp: getFieldAmount_def setFieldAmount_def defaultObject_def fun_eq_iff split: STBase.split)

interpretation paths: typed_access STI_PATHSET getFieldPathSet setFieldPathSet "\<lambda>v. case v of STPathSet x \<Rightarrow> Some x | _ \<Rightarrow> None" "[]" STPathSet
  "\<lambda>x v. case v of STPathSet _ \<Rightarrow> Some (STPathSet x) | _ \<Rightarrow> None" "\<lambda>_. True"
  by unfold_locales (auto simp: getFieldPathSet_def setFieldPathSet_def defaultObject_def fun_eq_iff split: STBase.split)

interpretation arr: typed_access STI_ARRAY getFieldArray setFieldArray "\<lambda>v. case v of STArray x \<Rightarrow> Some x | _ \<Rightarrow> None" "[]" STArray
  "\<lambda>x v. case v of STArray _ \<Rightarrow> Some (STArray x) | _ \<Rightarrow> None" elems_typed
  by unfold_locales (auto simp: getFieldArray_def setFieldArray_def defaultObject_def fun_eq_iff split: STBase.split)

interpretation inner: typed_access STI_OBJECT getFieldObject setFieldObject "\<lambda>v. case v of STObj x \<Rightarrow> Some x | _ \<Rightarrow> None" "STObject None []" STObj
  "\<lambda>x v. case v of STObj _ \<Rightarrow> Some (STObj x) | _ \<Rightarrow> None" obj_typed
  by unfold_locales (auto simp: getFieldObject_def setFieldObject_def defaultObject_def fun_eq_iff split: STBase.split)

interpretation account: typed_access STI_ACCOUNT getAccountID setAccountID
  "\<lambda>v. case v of STAccount b \<Rightarrow> Some (if length b = 20 then be_word b else 0) | _ \<Rightarrow> None" "0" "\<lambda>x. STAccount (be_bytes 20 x)"
  "\<lambda>x v. case v of STAccount _ \<Rightarrow> Some (STAccount (be_bytes 20 x)) | _ \<Rightarrow> None" "\<lambda>_. True"
  by unfold_locales (auto simp: getAccountID_def setAccountID_def defaultObject_def fun_eq_iff be_word_bytes_all split: STBase.split)

interpretation vl: typed_access STI_VL getFieldVL setFieldVL
  "\<lambda>v. case v of STBlob b \<Rightarrow> Some b | STAccount b \<Rightarrow> Some b | _ \<Rightarrow> None" "[]" STBlob
  "\<lambda>x v. case v of STBlob _ \<Rightarrow> Some (STBlob x) | STAccount _ \<Rightarrow> Some (STAccount x) | _ \<Rightarrow> None" "\<lambda>_. True"
  by unfold_locales (auto simp: getFieldVL_def setFieldVL_def defaultObject_def fun_eq_iff split: STBase.split)

interpretation account_vl: typed_access STI_ACCOUNT getFieldVL setFieldVL
  "\<lambda>v. case v of STBlob b \<Rightarrow> Some b | STAccount b \<Rightarrow> Some b | _ \<Rightarrow> None" "[]" STAccount
  "\<lambda>x v. case v of STBlob _ \<Rightarrow> Some (STBlob x) | STAccount _ \<Rightarrow> Some (STAccount x) | _ \<Rightarrow> None" "\<lambda>_. True"
  by unfold_locales (auto simp: getFieldVL_def setFieldVL_def defaultObject_def fun_eq_iff split: STBase.split)

section \<open>Every operation keeps objects typed\<close>

lemma makeFieldPresent_keeps:
  assumes "obj_typed ob" "registered f" "makeFieldPresent f ob = Inr (i, ob')"
  shows "obj_typed ob'"
proof (cases "getFieldIndex f ob")
  case None
  then show ?thesis using assms by (auto simp: makeFieldPresent_def obj_typed_iff split: if_splits)
next
  case (Some j)
  note j = getFieldIndex_Some [OF assms(1,2) Some]
  show ?thesis using assms(1,3) Some j obj_put_typed [OF assms(1) j(1)] default_typed [of f]
    by (auto simp: makeFieldPresent_def result_simps split: if_splits)
qed

lemma makeFieldAbsent_keeps:
  assumes "obj_typed ob" "registered f" "makeFieldAbsent f ob = Inr ob'"
  shows "obj_typed ob'"
proof (cases "getFieldIndex f ob")
  case (Some j)
  note j = getFieldIndex_Some [OF assms(1,2) Some]
  show ?thesis using assms(1,3) Some j obj_put_typed [OF assms(1) j(1)]
    by (auto simp: makeFieldAbsent_def result_simps split: if_splits)
qed (use assms in \<open>auto simp: makeFieldAbsent_def\<close>)

text \<open>\<open>delField\<close> takes the slot away, which only a free object allows.\<close>

lemma delField_keeps: "obj_typed ob \<Longrightarrow> isFree ob \<Longrightarrow> obj_typed (snd (delField f ob))"
  by (auto simp: delField_def obj_typed_iff isFree_def split: option.split dest: in_set_takeD in_set_dropD)

lemma set_value_keeps:
  assumes "obj_typed ob" "registered f" "st_typed f v" "STObject_set_value f v ob = Inr ob'"
  shows "obj_typed ob' \<and> ob' = field_put f v ob"
proof -
  have "ob' = field_put f v ob"
  proof (cases "getFieldIndex f ob")
    case (Some j)
    note j = getFieldIndex_Some [OF assms(1,2) Some]
    then show ?thesis using assms(4) Some by (simp add: STObject_set_value_def field_put_def obj_put_def)
  qed (use assms(4) in \<open>auto simp: STObject_set_value_def field_put_def split: if_splits\<close>)
  with field_put_typed [OF assms(1-3)] show ?thesis by simp
qed

lemma flags_registered: "registered sfFlags"
  using getField_known [of sfFlags] by (simp add: registered_def knownFields_def)

lemma flags_type [simp]: "fieldType sfFlags = STI_UINT32"
  by (simp add: sfFlags_def SField_named_def)

lemma getPField_create_keeps:
  assumes "obj_typed ob" "registered f" "getPField_create f ob = Inr (rf, ob')"
  shows "obj_typed ob'" "rf = Some i \<Longrightarrow> i < length (obj_v ob') \<and> fst (obj_v ob' ! i) = f"
proof -
  show "obj_typed ob'" using assms default_typed [of f]
    by (auto simp: getPField_create_def obj_typed_iff result_simps split: option.splits if_splits)
  show "i < length (obj_v ob') \<and> fst (obj_v ob' ! i) = f" if "rf = Some i"
    using assms(3) that getFieldIndex_Some [OF assms(1,2)]
    by (auto simp: getPField_create_def result_simps split: option.splits if_splits)
qed

lemma setFlag_keeps:
  assumes "obj_typed ob" "setFlag w ob = Inr (b, ob')"
  shows "obj_typed ob'"
proof -
  obtain rf ob1 where c: "getPField_create sfFlags ob = Inr (rf, ob1)" using assms(2) by (auto simp: setFlag_def result_simps)
  note k = getPField_create_keeps [OF assms(1) flags_registered c]
  show ?thesis
  proof (cases rf)
    case None
    with assms(2) c k(1) show ?thesis by (simp add: setFlag_def)
  next
    case (Some i)
    with k(2) have i: "i < length (obj_v ob1)" "fst (obj_v ob1 ! i) = sfFlags" by simp_all
    with assms(2) c Some k(1) obj_put_typed [OF k(1) i(1)] show ?thesis
      by (auto simp: setFlag_def obj_at_def case_prod_beta split: STBase.splits)
  qed
qed

lemma clearFlag_keeps:
  assumes "obj_typed ob" "clearFlag w ob = Inr (b, ob')"
  shows "obj_typed ob'"
proof (cases "getFieldIndex sfFlags ob")
  case (Some i)
  note i = getFieldIndex_Some [OF assms(1) flags_registered Some]
  with assms Some obj_put_typed [OF assms(1) i(1)] show ?thesis
    by (auto simp: clearFlag_def split: STBase.splits)
qed (use assms in \<open>simp add: clearFlag_def\<close>)

text \<open>Templates: their fields are registered.\<close>

definition template_ok :: "SOTemplate \<Rightarrow> bool" where
  "template_ok t = (\<forall>(f, _) \<in> set t. registered f)"

lemma set_template_typed:
  "template_ok t \<Longrightarrow> set_template_loop t = Inr v \<Longrightarrow> (\<forall>(f, x) \<in> set v. registered f \<and> st_typed f x) \<and> map fst v = map fst t"
proof (induction t arbitrary: v)
  case (Cons ff t)
  obtain f flags where ff: "ff = (f, flags)" by fastforce
  from Cons.prems(2) obtain x w where w: "(if flags \<noteq> SOE_REQUIRED then Inr STNotPresent else defaultObject f) = Inr x"
    "set_template_loop t = Inr w" "v = (f, x) # w" by (auto simp: ff result_simps)
  have "st_typed f x" using w(1) default_typed [of f x] by (auto split: if_splits)
  with Cons w show ?case by (auto simp: ff template_ok_def)
qed simp

lemma STObject_set_template_keeps: "template_ok t \<Longrightarrow> STObject_set_template t = Inr ob \<Longrightarrow> obj_typed ob"
  using set_template_typed [of t] by (auto simp: STObject_set_template_def result_simps obj_typed_iff)

lemma setType_loop_typed:
  "template_ok t \<Longrightarrow> \<forall>(f, x) \<in> set vs. registered f \<and> st_typed f x \<Longrightarrow> setType_loop t vs = (valid, v, rest) \<Longrightarrow>
     (\<forall>(f, x) \<in> set v. registered f \<and> st_typed f x) \<and> map fst v = map fst t"
proof (induction t arbitrary: vs valid v rest)
  case (Cons ff t)
  obtain f flags where ff: "ff = (f, flags)" by fastforce
  have f: "registered f" "template_ok t" using Cons.prems(1) by (auto simp: ff template_ok_def)
  show ?case
  proof (cases "field_position (fieldCode f) vs")
    case None
    obtain va w r where l: "setType_loop t vs = (va, w, r)" by (cases "setType_loop t vs")
    from Cons.IH [OF f(2) Cons.prems(2) l] Cons.prems(3) f(1) show ?thesis by (auto simp: ff None l)
  next
    case (Some i)
    let ?vs = "take i vs @ drop (Suc i) vs"
    obtain va w r where l: "setType_loop t ?vs = (va, w, r)" by (cases "setType_loop t ?vs")
    have i: "i < length vs" "fieldCode (fst (vs ! i)) = fieldCode f" using field_position_Some [OF Some] by simp_all
    then have e: "registered (fst (vs ! i)) \<and> st_typed (fst (vs ! i)) (snd (vs ! i))" using Cons.prems(2) nth_mem [OF i(1)] by (auto simp: case_prod_beta)
    then have "fst (vs ! i) = f" using registered_eq f(1) i(2) by blast
    moreover have "\<forall>(f, x) \<in> set ?vs. registered f \<and> st_typed f x" using Cons.prems(2) by (auto dest: in_set_takeD in_set_dropD)
    moreover have "v = vs ! i # w" using Cons.prems(3) by (auto simp: ff Some l)
    ultimately show ?thesis using Cons.IH [OF f(2) _ l] e by (simp add: ff case_prod_beta)
  qed
qed simp

lemma setType_keeps: "template_ok t \<Longrightarrow> obj_typed ob \<Longrightarrow> obj_typed (snd (STObject_setType t ob))"
  using setType_loop_typed [of t "obj_v ob"]
  by (auto simp: STObject_setType_def obj_typed_iff split: prod.split)

lemma formats_ok: "\<forall>(c, t) \<in> set innerObjectFormats. template_ok t"
  using getField_known by (auto simp: innerObjectFormats_def template_ok_def registered_def knownFields_def)

lemma setTypeFromSField_keeps:
  assumes "obj_typed ob" "setTypeFromSField f ob = (r, ob')"
  shows "obj_typed ob'"
proof (cases "findSOTemplateBySField f")
  case (Some t)
  then have "template_ok t" using formats_ok by (auto simp: findSOTemplateBySField_def dest: map_of_SomeD)
  from setType_keeps [OF this assms(1)] Some assms(2) show ?thesis by (auto simp: setTypeFromSField_def split: prod.splits)
qed (use assms in \<open>simp add: setTypeFromSField_def\<close>)

section \<open>The parser returns typed objects\<close>

lemma field_code_split: "field_code (drop_bit 16 code) (code AND 0xffff) = code"
proof -
  have m: "(0xffff :: int) = mask 16" by (simp add: mask_eq_exp_minus_1)
  show ?thesis unfolding field_code_def m
    by (rule bit_eqI) (auto simp: bit_or_iff bit_push_bit_iff bit_drop_bit_eq bit_and_iff bit_mask_iff)
qed

lemma getField_registered:
  assumes "SField_getField code = Inr f" "\<not> isInvalid f"
  shows "registered f"
proof -
  have "fieldCode f = code"
  proof (cases "find (\<lambda>f. fieldCode f = code) knownFields")
    case None
    with assms have "SField_dynamic (drop_bit 16 code) (code AND 0xffff) = Inr f"
      by (auto simp: SField_getField_def Let_def sfInvalid_def SField_special_def isInvalid_def split: if_splits)
    then show ?thesis using field_code_split [of code] by (auto simp: SField_dynamic_def SField_named_def result_simps)
  next
    case (Some g)
    with assms(1) show ?thesis by (auto simp: SField_getField_def find_Some_iff)
  qed
  with assms(1) show ?thesis by (simp add: registered_def)
qed

lemma STVar_plain_typed: "STVar_plain f it = Inr (v, it') \<Longrightarrow> fieldType f \<noteq> STI_OBJECT \<Longrightarrow> fieldType f \<noteq> STI_ARRAY \<Longrightarrow> st_typed f v"
  by (auto simp: STVar_plain_def STVector256_read_def STPathSet_read_def Let_def result_simps split: if_splits)

lemma object_round_typed:
  assumes var: "\<And>f it v it'. STVar_read n f it = Inr (v, it') \<Longrightarrow> st_typed f v"
    and rec: "\<And>acc it b v it'. STObject_loop n acc it = Inr (b, v, it') \<Longrightarrow> fields_typed acc \<Longrightarrow> fields_typed v"
    and loop: "STObject_loop (Suc n) acc it = Inr (b, v, it')" and acc: "fields_typed acc"
  shows "fields_typed v"
proof (cases "si_empty it")
  case False
  from loop False obtain type field it1 where id: "si_getFieldID it = Inr ((type, field), it1)" by (auto simp: result_simps)
  consider "v = acc" | fn x it2 x' where "SField_getField2 type field = Inr fn" "\<not> isInvalid fn" "STVar_read n fn it1 = Inr (x, it2)"
    "(case x of STObj ob \<Rightarrow> (let (r, ob') = setTypeFromSField fn ob in
        if r = typeSetFail then Inl (LThrow ''field deserialization error'') else Inr (STObj ob')) | _ \<Rightarrow> Inr x) = Inr x'"
    "STObject_loop n (acc @ [(fn, x')]) it2 = Inr (b, v, it')"
    using loop False id by (auto simp: result_simps simp del: STVar_read.simps split: if_splits)
  then show ?thesis
  proof cases
    case 2
    have reg: "registered fn" using getField_registered 2(1,2) by (simp add: SField_getField2_def)
    have x: "st_typed fn x" using var 2(3) by blast
    have "st_typed fn x'"
    proof (cases x)
      case (STObj ob)
      with 2(4) obtain r ob' where "setTypeFromSField fn ob = (r, ob')" "x' = STObj ob'" by (auto split: prod.splits if_splits)
      with x STObj setTypeFromSField_keeps show ?thesis by auto
    qed (use 2(4) x in auto)
    then have "fields_typed (acc @ [(fn, x')])" using acc reg by (auto simp: fields_typed_iff)
    then show ?thesis using rec 2(5) by blast
  qed (use acc in simp)
qed (use loop acc in simp)

lemma array_round_typed:
  assumes obj: "\<And>acc it b v it'. STObject_loop n acc it = Inr (b, v, it') \<Longrightarrow> fields_typed acc \<Longrightarrow> fields_typed v"
    and rec: "\<And>acc it es it'. STArray_loop n acc it = Inr (es, it') \<Longrightarrow> elems_typed acc \<Longrightarrow> elems_typed es"
    and loop: "STArray_loop (Suc n) acc it = Inr (es, it')" and acc: "elems_typed acc"
  shows "elems_typed es"
proof (cases "si_empty it")
  case False
  from loop False obtain type field it1 where id: "si_getFieldID it = Inr ((type, field), it1)" by (auto simp: result_simps)
  consider "es = acc" | fn b v it2 where "fieldType fn = STI_OBJECT" "STObject_loop n [] it1 = Inr (b, v, it2)"
    "STArray_loop n (acc @ [(fn, snd (setTypeFromSField fn (STObject None v)))]) it2 = Inr (es, it')"
    using loop False id by (auto simp: result_simps case_prod_beta Let_def split: if_splits)
  then show ?thesis
  proof cases
    case 2
    have "fields_typed v" using obj 2(2) by (metis fields_typed.simps(1))
    then have "obj_typed (snd (setTypeFromSField fn (STObject None v)))"
      using setTypeFromSField_keeps [of "STObject None v" fn] by (metis obj_typed.simps option.simps(4) prod.collapse)
    then have "elems_typed (acc @ [(fn, snd (setTypeFromSField fn (STObject None v)))])" using acc 2(1) by (auto simp: elems_typed_iff)
    then show ?thesis using rec 2(3) by blast
  qed (use acc in simp)
qed (use loop acc in simp)

lemma parse_typed:
  "(\<forall>f it v it'. STVar_read n f it = Inr (v, it') \<longrightarrow> st_typed f v) \<and>
   (\<forall>acc it b v it'. STObject_loop n acc it = Inr (b, v, it') \<longrightarrow> fields_typed acc \<longrightarrow> fields_typed v) \<and>
   (\<forall>acc it es it'. STArray_loop n acc it = Inr (es, it') \<longrightarrow> elems_typed acc \<longrightarrow> elems_typed es)"
proof (induction n)
  case 0
  show ?case using STVar_plain_typed by (auto split: if_splits)
next
  case (Suc n)
  then have IH: "STVar_read n f it = Inr (v, it') \<Longrightarrow> st_typed f v"
    "STObject_loop n acc it = Inr (b, vs, it') \<Longrightarrow> fields_typed acc \<Longrightarrow> fields_typed vs"
    "STArray_loop n eacc it = Inr (es, it') \<Longrightarrow> elems_typed eacc \<Longrightarrow> elems_typed es" for f v acc eacc it b vs es it' by blast+
  have "st_typed f v" if "STVar_read (Suc n) f it = Inr (v, it')" for f it v it'
    using that Suc.IH STVar_plain_typed by (fastforce simp: result_simps split: if_splits)
  moreover have "fields_typed v" if "STObject_loop (Suc n) acc it = Inr (b, v, it')" "fields_typed acc" for acc it b v it'
    by (rule object_round_typed [OF IH(1,2) that])
  moreover have "elems_typed es" if "STArray_loop (Suc n) acc it = Inr (es, it')" "elems_typed acc" for acc it es it'
    by (rule array_round_typed [OF IH(2,3) that])
  ultimately show ?case by blast
qed

lemma STObject_read_typed: "STObject_read it = Inr (ob, it') \<Longrightarrow> obj_typed ob"
  using parse_typed [of "2 * si_remain it + 1"] fields_typed.simps(1)
  unfolding STObject_read_def by (fastforce simp: result_simps simp del: STObject_loop.simps)

section \<open>Histories of an object\<close>

lemma setFieldBy_keeps:
  assumes typed: "obj_typed ob" "registered f" and upd: "\<And>cur v. upd cur = Some v \<Longrightarrow> st_typed f cur \<Longrightarrow> st_typed f v"
    and r: "setFieldBy upd f ob = Inr ob'"
  shows "obj_typed ob'"
proof -
  from r obtain i ob1 where c: "getPField_create f ob = Inr (Some i, ob1)" by (auto simp: setFieldBy_def result_simps split: option.splits)
  note k = getPField_create_keeps [OF typed c]
  from r c obtain g old j ob2 h cur v where s: "obj_at i ob1 = Inr (g, old)"
    "(if getSType old = STI_NOTPRESENT then makeFieldPresent f ob1 else Inr (i, ob1)) = Inr (j, ob2)"
    "obj_at j ob2 = Inr (h, cur)" "upd cur = Some v" "ob' = obj_put j v ob2"
    by (auto simp: setFieldBy_def result_simps split: option.splits)
  have i: "i < length (obj_v ob1)" "fst (obj_v ob1 ! i) = f" using k(2) by blast+
  have "getFieldIndex f ob1 \<noteq> None"
    using nth_mem [OF i(1)] i(2) k(1) unfolding getFieldIndex_typed [OF k(1)] by (auto simp: field_position_None)
  then obtain m where m: "getFieldIndex f ob1 = Some m" by blast
  note at = getFieldIndex_Some [OF k(1) typed(2) m]
  have ob2: "obj_typed ob2" "j < length (obj_v ob2)" "fst (obj_v ob2 ! j) = f"
  proof (atomize (full), cases "getSType old = STI_NOTPRESENT")
    case True
    with s(2) have mp: "makeFieldPresent f ob1 = Inr (j, ob2)" by simp
    then have "j = m \<and> map fst (obj_v ob2) = map fst (obj_v ob1)" using m at by (auto simp: makeFieldPresent_def result_simps split: if_splits)
    then show "obj_typed ob2 \<and> j < length (obj_v ob2) \<and> fst (obj_v ob2 ! j) = f"
      using makeFieldPresent_keeps [OF k(1) typed(2) mp] at(1,2) by (metis length_map nth_map)
  qed (use s(2) k(1) i in auto)
  moreover have "cur = snd (obj_v ob2 ! j)" using s(3) ob2(2) by (auto simp: obj_at_def)
  moreover have "st_typed f (snd (obj_v ob2 ! j))" using nth_mem [OF ob2(2)] ob2 unfolding obj_typed_iff by (auto simp: case_prod_beta)
  ultimately show ?thesis using obj_put_typed [OF ob2(1,2)] upd [OF s(4)] s(5) by simp
qed

text \<open>
  The calls that store a value, each successful one; \<open>made\<close> are the objects that any sequence of calls can
  produce from the parser, from a template or from the empty object, with one exception: \<open>delField\<close> is used on
  free objects only. On an object with a template it moves the later fields away from the places that the template
  gives them; the source does not guard against that, and has no caller of it.
\<close>

inductive sets :: "SField \<Rightarrow> STObject \<Rightarrow> STObject \<Rightarrow> bool" where
  s_setFieldU8: "setFieldU8 x f ob = Inr ob' \<Longrightarrow> sets f ob ob'"
| s_setFieldU16: "setFieldU16 x f ob = Inr ob' \<Longrightarrow> sets f ob ob'"
| s_setFieldU32: "setFieldU32 x f ob = Inr ob' \<Longrightarrow> sets f ob ob'"
| s_setFieldU64: "setFieldU64 x f ob = Inr ob' \<Longrightarrow> sets f ob ob'"
| s_setFieldH128: "setFieldH128 x f ob = Inr ob' \<Longrightarrow> sets f ob ob'"
| s_setFieldH160: "setFieldH160 x f ob = Inr ob' \<Longrightarrow> sets f ob ob'"
| s_setFieldH256: "setFieldH256 x f ob = Inr ob' \<Longrightarrow> sets f ob ob'"
| s_setFieldV256: "setFieldV256 x f ob = Inr ob' \<Longrightarrow> sets f ob ob'"
| s_setFieldVL: "setFieldVL x f ob = Inr ob' \<Longrightarrow> sets f ob ob'"
| s_setAccountID: "setAccountID x f ob = Inr ob' \<Longrightarrow> sets f ob ob'"
| s_setFieldAmount: "setFieldAmount x f ob = Inr ob' \<Longrightarrow> sets f ob ob'"
| s_setFieldPathSet: "setFieldPathSet x f ob = Inr ob' \<Longrightarrow> sets f ob ob'"
| s_setFieldArray: "elems_typed x \<Longrightarrow> setFieldArray x f ob = Inr ob' \<Longrightarrow> sets f ob ob'"
| s_setFieldObject: "obj_typed x \<Longrightarrow> setFieldObject x f ob = Inr ob' \<Longrightarrow> sets f ob ob'"
| s_set: "st_typed f x \<Longrightarrow> STObject_set_value f x ob = Inr ob' \<Longrightarrow> sets f ob ob'"

lemmas setter_defs = setFieldU8_def setFieldU16_def setFieldU32_def setFieldU64_def
  setFieldH128_def setFieldH160_def setFieldH256_def setFieldV256_def setFieldVL_def setAccountID_def setFieldAmount_def
  setFieldPathSet_def setFieldArray_def setFieldObject_def

lemma sets_keeps:
  assumes "sets f ob ob'" "obj_typed ob" "registered f"
  shows "obj_typed ob'"
  using assms(1)
proof cases
  case (s_set x)
  with set_value_keeps [OF assms(2,3)] show ?thesis by blast
qed (unfold setter_defs, auto elim!: setFieldBy_keeps [OF assms(2,3), rotated] split: STBase.splits)

inductive made :: "STObject \<Rightarrow> bool" where
  m_empty: "made (STObject None [])"
| m_parsed: "STObject_read it = Inr (ob, it') \<Longrightarrow> made ob"
| m_template: "template_ok t \<Longrightarrow> STObject_set_template t = Inr ob \<Longrightarrow> made ob"
| m_setType: "made ob \<Longrightarrow> template_ok t \<Longrightarrow> STObject_setType t ob = (valid, ob') \<Longrightarrow> made ob'"
| m_present: "made ob \<Longrightarrow> registered f \<Longrightarrow> makeFieldPresent f ob = Inr (i, ob') \<Longrightarrow> made ob'"
| m_absent: "made ob \<Longrightarrow> registered f \<Longrightarrow> makeFieldAbsent f ob = Inr ob' \<Longrightarrow> made ob'"
| m_delete: "made ob \<Longrightarrow> isFree ob \<Longrightarrow> delField f ob = (b, ob') \<Longrightarrow> made ob'"
| m_sets: "made ob \<Longrightarrow> registered f \<Longrightarrow> sets f ob ob' \<Longrightarrow> made ob'"
| m_setFlag: "made ob \<Longrightarrow> setFlag w ob = Inr (b, ob') \<Longrightarrow> made ob'"
| m_clearFlag: "made ob \<Longrightarrow> clearFlag w ob = Inr (b, ob') \<Longrightarrow> made ob'"

lemma made_typed: "made ob \<Longrightarrow> obj_typed ob"
proof (induction rule: made.induct)
  case (m_setType ob t valid ob')
  then show ?case using setType_keeps [of t ob] by simp
next
  case (m_delete ob f b ob')
  then show ?case using delField_keeps [of ob f] by simp
qed (auto intro: STObject_read_typed STObject_set_template_keeps makeFieldPresent_keeps makeFieldAbsent_keeps sets_keeps setFlag_keeps clearFlag_keeps)

end
