(* ===== verification/STFormats.thy ===== *)
theory STFormats
  imports STObject_Codec STObject_Access LedgerView
begin

text \<open>
  The formats of ledger entries and transactions (\<open>src/ripple/protocol/KnownFormats.h\<close>,
  \<open>impl/LedgerFormats.cpp\<close>, \<open>impl/TxFormats.cpp\<close>) and ledger entries
  (\<open>impl/STLedgerEntry.cpp\<close>): an entry is built for a keylet or read from bytes, has the template of
  its type, and is threaded to the transactions that change it. An entry written to bytes is read back.
\<close>

section \<open>Known formats\<close>

record 'k Item =
  fm_name :: string
  fm_type :: 'k
  fm_elements :: SOTemplate

text \<open>\<open>KnownFormats::add\<close> starts an item with the common fields; the elements are appended to it.\<close>

definition format_item :: "(SField \<times> SOE_Flags) list \<Rightarrow> string \<Rightarrow> 'k \<Rightarrow> (SField \<times> SOE_Flags) list \<Rightarrow> 'k Item" where
  "format_item common name type els = \<lparr>fm_name = name, fm_type = type, fm_elements = common @ els\<rparr>"

text \<open>The maps keep the last item with a type or name. A value that is no enumerator is never found.\<close>

definition findByType :: "'k Item list \<Rightarrow> 'k option \<Rightarrow> 'k Item option" where
  "findByType fms type = find (\<lambda>it. Some (fm_type it) = type) (rev fms)"

definition findByName :: "'k Item list \<Rightarrow> string \<Rightarrow> 'k Item option" where
  "findByName fms name = find (\<lambda>it. fm_name it = name) (rev fms)"

definition findTypeByName :: "'k Item list \<Rightarrow> string \<Rightarrow> (led_error, 'k) result" where
  "findTypeByName fms name = (case findByName fms name of
     Some it \<Rightarrow> Inr (fm_type it) | None \<Rightarrow> Inl (LThrow ''Unknown format name''))"

section \<open>Ledger entry formats\<close>

fun ledgerEntryType_code :: "LedgerEntryType \<Rightarrow> int" where
  "ledgerEntryType_code ltANY = -3" | "ledgerEntryType_code ltCHILD = -2" | "ledgerEntryType_code ltINVALID = -1"
| "ledgerEntryType_code ltACCOUNT_ROOT = of_char (CHR ''a'')" | "ledgerEntryType_code ltDIR_NODE = of_char (CHR ''d'')"
| "ledgerEntryType_code ltDIVIDEND = of_char (CHR ''D'')" | "ledgerEntryType_code ltRIPPLE_STATE = of_char (CHR ''r'')"
| "ledgerEntryType_code ltTICKET = of_char (CHR ''T'')" | "ledgerEntryType_code ltSIGNER_LIST = of_char (CHR ''S'')"
| "ledgerEntryType_code ltOFFER = of_char (CHR ''o'')" | "ledgerEntryType_code ltLEDGER_HASHES = of_char (CHR ''h'')"
| "ledgerEntryType_code ltAMENDMENTS = of_char (CHR ''f'')" | "ledgerEntryType_code ltFEE_SETTINGS = of_char (CHR ''s'')"
| "ledgerEntryType_code ltNICKNAME = of_char (CHR ''n'')" | "ledgerEntryType_code ltNotUsed01 = of_char (CHR ''c'')"

text \<open>\<open>static_cast <LedgerEntryType>\<close> of a field: the enumerator with that value, if there is one.\<close>

definition ledgerEntryType_of :: "16 word \<Rightarrow> LedgerEntryType option" where
  "ledgerEntryType_of x = find (\<lambda>t. ledgerEntryType_code t = uint x)
     [ltANY, ltCHILD, ltINVALID, ltACCOUNT_ROOT, ltDIR_NODE, ltDIVIDEND, ltRIPPLE_STATE, ltTICKET, ltSIGNER_LIST,
      ltOFFER, ltLEDGER_HASHES, ltAMENDMENTS, ltFEE_SETTINGS, ltNICKNAME, ltNotUsed01]"

definition ledgerCommonFields :: "(SField \<times> SOE_Flags) list" where
  "ledgerCommonFields =
     [(sfLedgerIndex, SOE_OPTIONAL), (sfLedgerEntryType, SOE_REQUIRED), (sfFlags, SOE_REQUIRED)]"

definition ledgerFormats :: "LedgerEntryType Item list" where
  "ledgerFormats = map (\<lambda>(name, type, els). format_item ledgerCommonFields name type els)
     [(''AccountRoot'', ltACCOUNT_ROOT,
        [(sfAccount, SOE_REQUIRED), (sfSequence, SOE_REQUIRED), (sfBalance, SOE_REQUIRED),
         (sfOwnerCount, SOE_REQUIRED), (sfPreviousTxnID, SOE_REQUIRED), (sfPreviousTxnLgrSeq, SOE_REQUIRED),
         (sfAccountTxnID, SOE_OPTIONAL), (sfRegularKey, SOE_OPTIONAL), (sfEmailHash, SOE_OPTIONAL),
         (sfWalletLocator, SOE_OPTIONAL), (sfWalletSize, SOE_OPTIONAL), (sfMessageKey, SOE_OPTIONAL),
         (sfTransferRate, SOE_OPTIONAL), (sfDomain, SOE_OPTIONAL), (sfDividendLedger, SOE_OPTIONAL)]),
      (''DirectoryNode'', ltDIR_NODE,
        [(sfOwner, SOE_OPTIONAL), (sfTakerPaysCurrency, SOE_OPTIONAL), (sfTakerPaysIssuer, SOE_OPTIONAL),
         (sfTakerGetsCurrency, SOE_OPTIONAL), (sfTakerGetsIssuer, SOE_OPTIONAL), (sfExchangeRate, SOE_OPTIONAL),
         (sfIndexes, SOE_REQUIRED), (sfRootIndex, SOE_REQUIRED), (sfIndexNext, SOE_OPTIONAL),
         (sfIndexPrevious, SOE_OPTIONAL)]),
      (''Offer'', ltOFFER,
        [(sfAccount, SOE_REQUIRED), (sfSequence, SOE_REQUIRED), (sfTakerPays, SOE_REQUIRED),
         (sfTakerGets, SOE_REQUIRED), (sfBookDirectory, SOE_REQUIRED), (sfBookNode, SOE_REQUIRED),
         (sfOwnerNode, SOE_REQUIRED), (sfPreviousTxnID, SOE_REQUIRED), (sfPreviousTxnLgrSeq, SOE_REQUIRED),
         (sfExpiration, SOE_OPTIONAL)]),
      (''RippleState'', ltRIPPLE_STATE,
        [(sfBalance, SOE_REQUIRED), (sfLowLimit, SOE_REQUIRED), (sfHighLimit, SOE_REQUIRED),
         (sfPreviousTxnID, SOE_REQUIRED), (sfPreviousTxnLgrSeq, SOE_REQUIRED), (sfLowNode, SOE_OPTIONAL),
         (sfLowQualityIn, SOE_OPTIONAL), (sfLowQualityOut, SOE_OPTIONAL), (sfHighNode, SOE_OPTIONAL),
         (sfHighQualityIn, SOE_OPTIONAL), (sfHighQualityOut, SOE_OPTIONAL)]),
      (''LedgerHashes'', ltLEDGER_HASHES,
        [(sfFirstLedgerSequence, SOE_OPTIONAL), (sfLastLedgerSequence, SOE_OPTIONAL), (sfHashes, SOE_REQUIRED)]),
      (''Amendments'', ltAMENDMENTS,
        [(sfLedgerSequence, SOE_OPTIONAL), (sfAmendments, SOE_OPTIONAL), (sfMajorities, SOE_OPTIONAL)]),
      (''FeeSettings'', ltFEE_SETTINGS,
        [(sfLedgerSequence, SOE_OPTIONAL), (sfBaseFee, SOE_REQUIRED), (sfReferenceFeeUnits, SOE_REQUIRED),
         (sfReserveBase, SOE_REQUIRED), (sfReserveIncrement, SOE_REQUIRED)]),
      (''Ticket'', ltTICKET,
        [(sfAccount, SOE_REQUIRED), (sfSequence, SOE_REQUIRED), (sfOwnerNode, SOE_REQUIRED), (sfTarget, SOE_OPTIONAL),
         (sfExpiration, SOE_OPTIONAL)]),
      (''Dividend'', ltDIVIDEND,
        [(sfDividendState, SOE_REQUIRED), (sfDividendLedger, SOE_REQUIRED), (sfDividendCoins, SOE_REQUIRED),
         (sfPreviousTxnID, SOE_OPTIONAL), (sfPreviousTxnLgrSeq, SOE_OPTIONAL)]),
      (''SignerList'', ltSIGNER_LIST,
        [(sfOwnerNode, SOE_REQUIRED), (sfSignerQuorum, SOE_REQUIRED), (sfSignerEntries, SOE_REQUIRED)])]"

section \<open>Transaction formats\<close>

datatype TxType = ttINVALID | ttPAYMENT | ttCLAIM | ttWALLET_ADD | ttACCOUNT_SET | ttPASSWORD_FUND | ttREGULAR_KEY_SET
  | ttNICKNAME_SET | ttOFFER_CREATE | ttOFFER_CANCEL | no_longer_used | ttTICKET_CREATE | ttTICKET_CANCEL
  | ttSIGNER_LIST_SET | ttTRUST_SET | ttAMENDMENT | ttFEE | ttDIVIDEND

fun txType_code :: "TxType \<Rightarrow> int" where
  "txType_code ttINVALID = -1" | "txType_code ttPAYMENT = 0" | "txType_code ttCLAIM = 1" | "txType_code ttWALLET_ADD = 2"
| "txType_code ttACCOUNT_SET = 3" | "txType_code ttPASSWORD_FUND = 4" | "txType_code ttREGULAR_KEY_SET = 5"
| "txType_code ttNICKNAME_SET = 6" | "txType_code ttOFFER_CREATE = 7" | "txType_code ttOFFER_CANCEL = 8"
| "txType_code no_longer_used = 9" | "txType_code ttTICKET_CREATE = 10" | "txType_code ttTICKET_CANCEL = 11"
| "txType_code ttSIGNER_LIST_SET = 12" | "txType_code ttTRUST_SET = 20" | "txType_code ttAMENDMENT = 100"
| "txType_code ttFEE = 101" | "txType_code ttDIVIDEND = 181"

definition txType_of :: "16 word \<Rightarrow> TxType option" where
  "txType_of x = find (\<lambda>t. txType_code t = uint x)
     [ttINVALID, ttPAYMENT, ttCLAIM, ttWALLET_ADD, ttACCOUNT_SET, ttPASSWORD_FUND, ttREGULAR_KEY_SET, ttNICKNAME_SET,
      ttOFFER_CREATE, ttOFFER_CANCEL, no_longer_used, ttTICKET_CREATE, ttTICKET_CANCEL, ttSIGNER_LIST_SET, ttTRUST_SET,
      ttAMENDMENT, ttFEE, ttDIVIDEND]"

definition txCommonFields :: "(SField \<times> SOE_Flags) list" where
  "txCommonFields =
     [(sfTransactionType, SOE_REQUIRED), (sfFlags, SOE_OPTIONAL), (sfSourceTag, SOE_OPTIONAL),
      (sfAccount, SOE_REQUIRED), (sfSequence, SOE_REQUIRED), (sfPreviousTxnID, SOE_OPTIONAL),
      (sfLastLedgerSequence, SOE_OPTIONAL), (sfAccountTxnID, SOE_OPTIONAL), (sfFee, SOE_REQUIRED),
      (sfOperationLimit, SOE_OPTIONAL), (sfMemos, SOE_OPTIONAL), (sfSigningPubKey, SOE_REQUIRED),
      (sfTxnSignature, SOE_OPTIONAL), (sfMultiSigners, SOE_OPTIONAL)]"

definition txFormats :: "TxType Item list" where
  "txFormats = map (\<lambda>(name, type, els). format_item txCommonFields name type els)
     [(''AccountSet'', ttACCOUNT_SET,
        [(sfEmailHash, SOE_OPTIONAL), (sfWalletLocator, SOE_OPTIONAL), (sfWalletSize, SOE_OPTIONAL),
         (sfMessageKey, SOE_OPTIONAL), (sfDomain, SOE_OPTIONAL), (sfTransferRate, SOE_OPTIONAL),
         (sfSetFlag, SOE_OPTIONAL), (sfClearFlag, SOE_OPTIONAL)]),
      (''TrustSet'', ttTRUST_SET,
        [(sfLimitAmount, SOE_OPTIONAL), (sfQualityIn, SOE_OPTIONAL), (sfQualityOut, SOE_OPTIONAL)]),
      (''OfferCreate'', ttOFFER_CREATE,
        [(sfTakerPays, SOE_REQUIRED), (sfTakerGets, SOE_REQUIRED), (sfExpiration, SOE_OPTIONAL),
         (sfOfferSequence, SOE_OPTIONAL)]),
      (''OfferCancel'', ttOFFER_CANCEL,
        [(sfOfferSequence, SOE_REQUIRED)]),
      (''SetRegularKey'', ttREGULAR_KEY_SET,
        [(sfRegularKey, SOE_OPTIONAL)]),
      (''Payment'', ttPAYMENT,
        [(sfDestination, SOE_REQUIRED), (sfAmount, SOE_REQUIRED), (sfSendMax, SOE_OPTIONAL), (sfPaths, SOE_DEFAULT),
         (sfInvoiceID, SOE_OPTIONAL), (sfDestinationTag, SOE_OPTIONAL), (sfDeliverMin, SOE_OPTIONAL)]),
      (''EnableAmendment'', ttAMENDMENT,
        [(sfLedgerSequence, SOE_OPTIONAL), (sfAmendment, SOE_REQUIRED)]),
      (''SetFee'', ttFEE,
        [(sfLedgerSequence, SOE_OPTIONAL), (sfBaseFee, SOE_REQUIRED), (sfReferenceFeeUnits, SOE_REQUIRED),
         (sfReserveBase, SOE_REQUIRED), (sfReserveIncrement, SOE_REQUIRED)]),
      (''TicketCreate'', ttTICKET_CREATE,
        [(sfTarget, SOE_OPTIONAL), (sfExpiration, SOE_OPTIONAL)]),
      (''TicketCancel'', ttTICKET_CANCEL,
        [(sfTicketID, SOE_REQUIRED)]),
      (''Incentive'', ttDIVIDEND,
        [(sfDividendType, SOE_REQUIRED), (sfDividendLedger, SOE_REQUIRED), (sfDestination, SOE_OPTIONAL),
         (sfDividendCoins, SOE_REQUIRED)]),
      (''SignerListSet'', ttSIGNER_LIST_SET,
        [(sfSignerQuorum, SOE_REQUIRED), (sfSignerEntries, SOE_OPTIONAL)])]"

section \<open>Ledger entries\<close>

text \<open>\<open>STLedgerEntry\<close>: the object with its key and type; the format is the one of the type.\<close>

type_synonym STLedgerEntry = "STObject SLE"

definition STLedgerEntry_keylet :: "Keylet \<Rightarrow> (led_error, STLedgerEntry) result" where
  "STLedgerEntry_keylet k = (case findByType ledgerFormats (Some (kl_type k)) of
     None \<Rightarrow> Inl (LThrow ''invalid ledger entry type'')
   | Some fm \<Rightarrow>
       bind_r (STObject_set_template (fm_elements fm)) (\<lambda>ob.
       bind_r (setFieldU16 (word_of_int (ledgerEntryType_code (fm_type fm))) sfLedgerEntryType ob) (\<lambda>ob'.
         Inr \<lparr>sle_key = kl_key k, sle_type = kl_type k, sle_body = ob'\<rparr>)))"

definition setSLEType :: "uint256 \<Rightarrow> STObject \<Rightarrow> (led_error, STLedgerEntry) result" where
  "setSLEType key ob =
     bind_r (getFieldU16 sfLedgerEntryType ob) (\<lambda>x. case findByType ledgerFormats (ledgerEntryType_of x) of
       None \<Rightarrow> Inl (LThrow ''invalid ledger entry type'')
     | Some fm \<Rightarrow>
         (let (valid, ob') = STObject_setType (fm_elements fm) ob in
          if \<not> valid then Inl (LThrow ''ledger entry not valid for type'')
          else Inr \<lparr>sle_key = key, sle_type = fm_type fm, sle_body = ob'\<rparr>))"

text \<open>\<open>STLedgerEntry (sit, index)\<close>, and the constructor from a \<open>Serializer\<close>.\<close>

definition STLedgerEntry_iter :: "SerialIter \<Rightarrow> uint256 \<Rightarrow> (led_error, STLedgerEntry \<times> SerialIter) result" where
  "STLedgerEntry_iter sit index =
     bind_r (STObject_read sit) (\<lambda>(ob, sit1). bind_r (setSLEType index ob) (\<lambda>sle. Inr (sle, sit1)))"

definition STLedgerEntry_read :: "Blob \<Rightarrow> uint256 \<Rightarrow> (led_error, STLedgerEntry) result" where
  "STLedgerEntry_read s index = bind_r (STLedgerEntry_iter (SerialIter_of s) index) (\<lambda>(sle, _). Inr sle)"

definition STLedgerEntry_object :: "STObject \<Rightarrow> uint256 \<Rightarrow> (led_error, STLedgerEntry) result" where
  "STLedgerEntry_object ob index = setSLEType index ob"

definition getVersion :: "STLedgerEntry \<Rightarrow> (led_error, 16 word) result" where
  "getVersion sle = getFieldU16 sfLedgerEntryType (sle_body sle)"

definition isThreadedType :: "STLedgerEntry \<Rightarrow> bool" where
  "isThreadedType sle = (getFieldIndex sfPreviousTxnID (sle_body sle) \<noteq> None)"

definition isThreaded :: "STLedgerEntry \<Rightarrow> (led_error, bool) result" where
  "isThreaded sle = isFieldPresent sfPreviousTxnID (sle_body sle)"

definition getThreadedTransaction :: "STLedgerEntry \<Rightarrow> (led_error, uint256) result" where
  "getThreadedTransaction sle = getFieldH256 sfPreviousTxnID (sle_body sle)"

definition getThreadedLedger :: "STLedgerEntry \<Rightarrow> (led_error, 32 word) result" where
  "getThreadedLedger sle = getFieldU32 sfPreviousTxnLgrSeq (sle_body sle)"

text \<open>\<open>thread\<close>: None when the transaction is threaded already, else the previous transaction and ledger.\<close>

definition sle_thread :: "uint256 \<Rightarrow> 32 word \<Rightarrow> STLedgerEntry \<Rightarrow> (led_error, (uint256 \<times> 32 word) option \<times> STLedgerEntry) result" where
  "sle_thread txID ledgerSeq sle =
     bind_r (getFieldH256 sfPreviousTxnID (sle_body sle)) (\<lambda>oldPrevTxID.
       if oldPrevTxID = txID then
         bind_r (getFieldU32 sfPreviousTxnLgrSeq (sle_body sle)) (\<lambda>seq.
         bind_r (led_assert (seq = ledgerSeq)) (\<lambda>_. Inr (None, sle)))
       else
         bind_r (getFieldU32 sfPreviousTxnLgrSeq (sle_body sle)) (\<lambda>prevLedgerID.
         bind_r (setFieldH256 txID sfPreviousTxnID (sle_body sle)) (\<lambda>ob1.
         bind_r (setFieldU32 ledgerSeq sfPreviousTxnLgrSeq ob1) (\<lambda>ob2.
           Inr (Some (oldPrevTxID, prevLedgerID), sle\<lparr>sle_body := ob2\<rparr>)))))"

end
