(* ===== verification/STTx.thy ===== *)
theory STTx
  imports STFormats SHAMap_Format ECDSACanonical
begin

text \<open>
  Transactions (\<open>src/ripple/protocol/STTx.h\<close>, \<open>impl/STTx.cpp\<close>, \<open>impl/Sign.cpp\<close> and the
  signing data of \<open>impl/STObject.cpp\<close>): construction and parsing, the data that is signed, single and
  multiple signatures with the functions of the crypto libraries as an argument, and the local checks on memos
  and accounts.
\<close>

section \<open>Construction\<close>

record STTx =
  tx_obj :: STObject
  tx_type :: TxType
  sig_state :: "bool option"

abbreviation (input) txMinSizeBytes :: nat where "txMinSizeBytes \<equiv> 32"
abbreviation (input) txMaxSizeBytes :: nat where "txMaxSizeBytes \<equiv> 1048576"
abbreviation (input) maxMultiSigners :: nat where "maxMultiSigners \<equiv> 8"

definition STTx_type :: "TxType \<Rightarrow> (led_error, STTx) result" where
  "STTx_type type = (case findByType txFormats (Some type) of
     None \<Rightarrow> Inl (LThrow ''invalid transaction type'')
   | Some fm \<Rightarrow>
       bind_r (STObject_set_template (fm_elements fm)) (\<lambda>ob.
       bind_r (setFieldU16 (word_of_int (txType_code (fm_type fm))) sfTransactionType ob) (\<lambda>ob'.
         Inr \<lparr>tx_obj = ob', tx_type = type, sig_state = None\<rparr>)))"

definition STTx_object :: "STObject \<Rightarrow> (led_error, STTx) result" where
  "STTx_object ob =
     bind_r (getFieldU16 sfTransactionType ob) (\<lambda>x. case findByType txFormats (txType_of x) of
       None \<Rightarrow> Inl (LThrow ''invalid transaction type'')
     | Some fm \<Rightarrow>
         (let (valid, ob') = STObject_setType (fm_elements fm) ob in
          if \<not> valid then Inl (LThrow ''transaction not valid'')
          else Inr \<lparr>tx_obj = ob', tx_type = fm_type fm, sig_state = None\<rparr>))"

text \<open>\<open>STTx (sit)\<close>: after the length and the object the same steps follow.\<close>

definition STTx_iter :: "SerialIter \<Rightarrow> (led_error, STTx \<times> SerialIter) result" where
  "STTx_iter sit =
     (let length = si_remain sit in
      if length < txMinSizeBytes \<or> length > txMaxSizeBytes then Inl (LThrow ''Transaction length invalid'')
      else bind_r (STObject_read sit) (\<lambda>(ob, sit1). bind_r (STTx_object ob) (\<lambda>tx. Inr (tx, sit1))))"

section \<open>Fields\<close>

definition tx_getTransactionFee :: "STTx \<Rightarrow> (led_error, STAmount) result" where
  "tx_getTransactionFee tx = getFieldAmount sfFee (tx_obj tx)"

definition tx_setTransactionFee :: "STAmount \<Rightarrow> STTx \<Rightarrow> (led_error, STTx) result" where
  "tx_setTransactionFee fee tx = bind_r (setFieldAmount fee sfFee (tx_obj tx)) (\<lambda>ob. Inr (tx\<lparr>tx_obj := ob\<rparr>))"

definition tx_getSigningPubKey :: "STTx \<Rightarrow> (led_error, Blob) result" where
  "tx_getSigningPubKey tx = getFieldVL sfSigningPubKey (tx_obj tx)"

definition tx_setSigningPubKey :: "Blob \<Rightarrow> STTx \<Rightarrow> (led_error, STTx) result" where
  "tx_setSigningPubKey accountPublic tx = bind_r (setFieldVL accountPublic sfSigningPubKey (tx_obj tx)) (\<lambda>ob. Inr (tx\<lparr>tx_obj := ob\<rparr>))"

definition tx_getSequence :: "STTx \<Rightarrow> (led_error, 32 word) result" where
  "tx_getSequence tx = getFieldU32 sfSequence (tx_obj tx)"

definition tx_setSequence :: "32 word \<Rightarrow> STTx \<Rightarrow> (led_error, STTx) result" where
  "tx_setSequence seq tx = bind_r (setFieldU32 seq sfSequence (tx_obj tx)) (\<lambda>ob. Inr (tx\<lparr>tx_obj := ob\<rparr>))"

text \<open>The accounts of the account fields and the issuers of the amounts.\<close>

fun mentioned_loop :: "(SField \<times> STBase) list \<Rightarrow> AccountID set \<Rightarrow> (led_error, AccountID set) result" where
  "mentioned_loop [] list = Inr list"
| "mentioned_loop ((_, v) # r) list = (case v of
     STAccount b \<Rightarrow> bind_r (led_assert (length b = 20)) (\<lambda>_. mentioned_loop r (insert (be_word b) list))
   | STAmt a \<Rightarrow>
       (let issuer = iss_account (am_issue a) in mentioned_loop r (if \<not> isXRP_account issuer then insert issuer list else list))
   | _ \<Rightarrow> mentioned_loop r list)"

definition getMentionedAccounts :: "STTx \<Rightarrow> (led_error, AccountID set) result" where
  "getMentionedAccounts tx = mentioned_loop (obj_v (tx_obj tx)) {}"

section \<open>Signing data\<close>

definition HP_txSign :: "32 word" where
  "HP_txSign = hash_prefix 0x53 0x54 0x58"

definition HP_txMultiSign :: "32 word" where
  "HP_txMultiSign = hash_prefix 0x53 0x4D 0x54"

definition STObject_getHash :: "('n, 'k) Crypto \<Rightarrow> 32 word \<Rightarrow> STObject \<Rightarrow> (led_error, uint256) result" where
  "STObject_getHash cr prefix ob = bind_r (STObject_add True ob (snd (add32 prefix []))) (\<lambda>s. Inr (cr_sha512Half cr s))"

definition STObject_getSigningHash :: "('n, 'k) Crypto \<Rightarrow> 32 word \<Rightarrow> STObject \<Rightarrow> (led_error, uint256) result" where
  "STObject_getSigningHash cr prefix ob = bind_r (STObject_add False ob (snd (add32 prefix []))) (\<lambda>s. Inr (cr_sha512Half cr s))"

definition startMultiSigningData :: "STObject \<Rightarrow> (led_error, Serializer) result" where
  "startMultiSigningData ob = STObject_add False ob (snd (add32 HP_txMultiSign []))"

definition finishMultiSigningData :: "AccountID \<Rightarrow> AccountID \<Rightarrow> Serializer \<Rightarrow> Serializer" where
  "finishMultiSigningData signingForID signingID s = snd (add160 signingID (snd (add160 signingForID s)))"

definition getMultiSigningData :: "AccountID \<Rightarrow> AccountID \<Rightarrow> STObject \<Rightarrow> (led_error, Serializer) result" where
  "getMultiSigningData signingForID signingID ob =
     bind_r (startMultiSigningData ob) (\<lambda>s. Inr (finishMultiSigningData signingForID signingID s))"

definition getSigningData :: "STTx \<Rightarrow> (led_error, Blob) result" where
  "getSigningData that = STObject_add False (tx_obj that) (snd (add32 HP_txSign []))"

definition tx_getSigningHash :: "('n, 'k) Crypto \<Rightarrow> STTx \<Rightarrow> (led_error, uint256) result" where
  "tx_getSigningHash cr tx = STObject_getSigningHash cr HP_txSign (tx_obj tx)"

definition getTransactionID :: "('n, 'k) Crypto \<Rightarrow> STTx \<Rightarrow> (led_error, uint256) result" where
  "getTransactionID cr tx = STObject_getHash cr HP_transactionID (tx_obj tx)"

section \<open>Signatures\<close>

text \<open>\<open>catch (...)\<close> takes an exception, but neither a failed assertion nor undefined behaviour.\<close>

definition catch_r :: "'a \<Rightarrow> (led_error, 'a) result \<Rightarrow> (led_error, 'a) result" where
  "catch_r d r = (case r of Inl (LThrow _) \<Rightarrow> Inr d | _ \<Rightarrow> r)"

definition tx_getSignature :: "STTx \<Rightarrow> (led_error, Blob) result" where
  "tx_getSignature tx = catch_r [] (getFieldVL sfTxnSignature (tx_obj tx))"

text \<open>\<open>sign\<close>, with \<open>accountPrivateSign\<close> of the key as an argument.\<close>

definition tx_sign :: "(Blob \<Rightarrow> Blob) \<Rightarrow> STTx \<Rightarrow> (led_error, STTx) result" where
  "tx_sign accountPrivateSign tx =
     bind_r (getSigningData tx) (\<lambda>data.
     bind_r (setFieldVL (accountPrivateSign data) sfTxnSignature (tx_obj tx)) (\<lambda>ob. Inr (tx\<lparr>tx_obj := ob\<rparr>)))"

abbreviation (input) tfFullyCanonicalSig :: "32 word" where "tfFullyCanonicalSig \<equiv> 0x80000000"

definition fully_canonical :: "32 word \<Rightarrow> ECDSA" where
  "fully_canonical flags = (if flags AND tfFullyCanonicalSig \<noteq> 0 then strict else not_strict)"

definition checkSingleSign :: "('n, 'k) Crypto \<Rightarrow> STTx \<Rightarrow> (led_error, bool) result" where
  "checkSingleSign cr tx =
     bind_r (isFieldPresent sfMultiSigners (tx_obj tx)) (\<lambda>multi.
       if multi then Inr False
       else catch_r False (
         bind_r (getFlags (tx_obj tx)) (\<lambda>flags.
         bind_r (getFieldVL sfSigningPubKey (tx_obj tx)) (\<lambda>n.
         bind_r (getSigningData tx) (\<lambda>data.
         bind_r (getFieldVL sfTxnSignature (tx_obj tx)) (\<lambda>sig.
           accountPublicVerify cr n data sig (fully_canonical flags)))))))"

text \<open>The signature of one signing account, and the two loops of \<open>checkMultiSign\<close>.\<close>

definition valid_multi_sig :: "('n, 'k) Crypto \<Rightarrow> Serializer \<Rightarrow> ECDSA \<Rightarrow> AccountID \<Rightarrow> AccountID \<Rightarrow> STObject \<Rightarrow> (led_error, bool) result" where
  "valid_multi_sig cr dataStart fullyCanonical signingForID signingAcctID signingAcct =
     catch_r False (
       let s = finishMultiSigningData signingForID signingAcctID dataStart in
       bind_r (getFieldVL sfSigningPubKey signingAcct) (\<lambda>pubKey.
       bind_r (getFieldVL sfMultiSignature signingAcct) (\<lambda>signature.
         accountPublicVerify cr pubKey s signature fullyCanonical)))"

fun signing_accounts_loop :: "('n, 'k) Crypto \<Rightarrow> Serializer \<Rightarrow> ECDSA \<Rightarrow> AccountID \<Rightarrow> bool \<Rightarrow> (SField \<times> STObject) list \<Rightarrow>
    AccountID \<Rightarrow> AccountID set \<Rightarrow> (led_error, AccountID set option) result" where
  "signing_accounts_loop cr dataStart fc signingForID directSigning [] lastSigningAcctID firstLevelSigners = Inr (Some firstLevelSigners)"
| "signing_accounts_loop cr dataStart fc signingForID directSigning ((_, signingAcct) # es) lastSigningAcctID firstLevelSigners =
     bind_r (getAccountID sfAccount signingAcct) (\<lambda>signingAcctID.
       if signingForID = signingAcctID then Inr None
       else if lastSigningAcctID \<ge> signingAcctID then Inr None
       else if directSigning \<and> signingAcctID \<in> firstLevelSigners then Inr None
       else bind_r (valid_multi_sig cr dataStart fc signingForID signingAcctID signingAcct) (\<lambda>validSig.
         if \<not> validSig then Inr None
         else signing_accounts_loop cr dataStart fc signingForID directSigning es signingAcctID
           (if directSigning then insert signingAcctID firstLevelSigners else firstLevelSigners)))"

fun multi_signers_loop :: "('n, 'k) Crypto \<Rightarrow> Serializer \<Rightarrow> ECDSA \<Rightarrow> AccountID \<Rightarrow> (SField \<times> STObject) list \<Rightarrow>
    AccountID \<Rightarrow> AccountID set \<Rightarrow> (led_error, bool) result" where
  "multi_signers_loop cr dataStart fc txnAccountID [] lastSigningForID firstLevelSigners = Inr True"
| "multi_signers_loop cr dataStart fc txnAccountID ((_, signingFor) # ms) lastSigningForID firstLevelSigners =
     bind_r (getAccountID sfAccount signingFor) (\<lambda>signingForID.
       if lastSigningForID \<ge> signingForID then Inr False
       else let directSigning = (signingForID = txnAccountID) in
         if \<not> directSigning \<and> signingForID \<in> firstLevelSigners then Inr False
         else let first = (if directSigning then firstLevelSigners else insert signingForID firstLevelSigners) in
           bind_r (getFieldArray sfSigningAccounts signingFor) (\<lambda>signingAccounts.
             if length signingAccounts < 1 \<or> length signingAccounts > maxMultiSigners then Inr False
             else bind_r (signing_accounts_loop cr dataStart fc signingForID directSigning signingAccounts 0 first) (\<lambda>r. case r of
               None \<Rightarrow> Inr False
             | Some first' \<Rightarrow> multi_signers_loop cr dataStart fc txnAccountID ms signingForID first')))"

definition checkMultiSign :: "('n, 'k) Crypto \<Rightarrow> STTx \<Rightarrow> (led_error, bool) result" where
  "checkMultiSign cr tx =
     bind_r (isFieldPresent sfMultiSigners (tx_obj tx)) (\<lambda>multi.
       if \<not> multi then Inr False
       else bind_r (getFieldArray sfMultiSigners (tx_obj tx)) (\<lambda>multiSigners.
         if length multiSigners < 1 \<or> length multiSigners > maxMultiSigners then Inr False
         else
           bind_r (startMultiSigningData (tx_obj tx)) (\<lambda>dataStart.
           bind_r (getAccountID sfAccount (tx_obj tx)) (\<lambda>txnAccountID.
           bind_r (getFlags (tx_obj tx)) (\<lambda>flags.
             multi_signers_loop cr dataStart (fully_canonical flags) txnAccountID multiSigners 0 {})))))"

text \<open>The result is kept in \<open>sig_state_\<close>, which \<open>setGood\<close> and \<open>setBad\<close> also set.\<close>

definition checkSign :: "('n, 'k) Crypto \<Rightarrow> bool \<Rightarrow> STTx \<Rightarrow> (led_error, bool \<times> STTx) result" where
  "checkSign cr allowMultiSign tx = (case sig_state tx of
     Some b \<Rightarrow> Inr (b, tx)
   | None \<Rightarrow>
       bind_r (catch_r False (
         if allowMultiSign then
           bind_r (getFieldVL sfSigningPubKey (tx_obj tx)) (\<lambda>signingPubKey.
             if signingPubKey = [] then checkMultiSign cr tx else checkSingleSign cr tx)
         else checkSingleSign cr tx)) (\<lambda>b. Inr (b, tx\<lparr>sig_state := Some b\<rparr>)))"

definition tx_setGood :: "STTx \<Rightarrow> STTx" where "tx_setGood tx = tx\<lparr>sig_state := Some True\<rparr>"

definition tx_setBad :: "STTx \<Rightarrow> STTx" where "tx_setBad tx = tx\<lparr>sig_state := Some False\<rparr>"

text \<open>\<open>sign\<close> and \<open>verify\<close> of \<open>Sign.cpp\<close>; \<open>pk_verify\<close> is \<open>PublicKey::verify\<close>.\<close>

definition st_get_blob :: "SField \<Rightarrow> STObject \<Rightarrow> (led_error, Blob option) result" where
  "st_get_blob f st =
     bind_r (peekAtPField f st) (\<lambda>b. case b of
       None \<Rightarrow> Inr None
     | Some v \<Rightarrow>
         if getSType v = STI_NOTPRESENT then Inr None
         else (case v of STBlob u \<Rightarrow> Inr (Some u) | STAccount u \<Rightarrow> Inr (Some u) | _ \<Rightarrow> Inl (LThrow ''Wrong field type'')))"

definition st_sign :: "(Blob \<Rightarrow> Blob) \<Rightarrow> 32 word \<Rightarrow> STObject \<Rightarrow> (led_error, STObject) result" where
  "st_sign sign prefix st =
     bind_r (STObject_add False st (snd (add32 prefix []))) (\<lambda>ss. STObject_set_value sfSignature (STBlob (sign ss)) st)"

definition st_verify :: "(Blob \<Rightarrow> Blob \<Rightarrow> bool \<Rightarrow> bool) \<Rightarrow> 32 word \<Rightarrow> bool \<Rightarrow> STObject \<Rightarrow> (led_error, bool) result" where
  "st_verify pk_verify prefix mustBeFullyCanonical st =
     bind_r (st_get_blob sfSignature st) (\<lambda>sig. case sig of
       None \<Rightarrow> Inr False
     | Some sg \<Rightarrow> bind_r (STObject_add False st (snd (add32 prefix []))) (\<lambda>ss. Inr (pk_verify ss sg True)))"

section \<open>Local checks\<close>

text \<open>\<open>charUnHex\<close> and \<open>strUnHex\<close>: None for text that is not hexadecimal.\<close>

definition charUnHex :: "char \<Rightarrow> nat option" where
  "charUnHex c = (let x = of_char c in
     if 48 \<le> x \<and> x \<le> 57 then Some (x - 48) else if 65 \<le> x \<and> x \<le> 70 then Some (x - 55)
     else if 97 \<le> x \<and> x \<le> 102 then Some (x - 87) else None)"

fun strUnHex_loop :: "string \<Rightarrow> Blob \<Rightarrow> Blob option" where
  "strUnHex_loop (hi # lo # r) tmp = (case charUnHex hi of None \<Rightarrow> None | Some h \<Rightarrow> (case charUnHex lo of None \<Rightarrow> None
     | Some l \<Rightarrow> strUnHex_loop r (tmp @ [push_bit 4 (of_nat h) OR of_nat l])))"
| "strUnHex_loop _ tmp = Some tmp"

definition strUnHex :: "string \<Rightarrow> Blob option" where
  "strUnHex s = (if odd (length s)
     then (case charUnHex (hd s) of None \<Rightarrow> None | Some c \<Rightarrow> strUnHex_loop (tl s) [of_nat c])
     else strUnHex_loop s [])"

definition allowedSymbols :: "byte \<Rightarrow> bool" where
  "allowedSymbols c = (c \<in> set (map of_char
     (''0123456789'' @ ''-._~:/?#[]@!$&'' @ [CHR 0x27] @ ''()*+,;=%'' @ ''ABCDEFGHIJKLMNOPQRSTUVWXYZ'' @ ''abcdefghijklmnopqrstuvwxyz'')))"

text \<open>\<open>getText\<close> of a field of a memo: those fields hold blobs.\<close>

definition memo_text :: "STBase \<Rightarrow> (led_error, string) result" where
  "memo_text v = (case v of STNotPresent \<Rightarrow> Inr [] | STBlob b \<Rightarrow> strHex b | _ \<Rightarrow> Inl LMissing)"

text \<open>The checks return the reason of a refusal.\<close>

fun memo_elements :: "(SField \<times> STBase) list \<Rightarrow> (led_error, string option) result" where
  "memo_elements [] = Inr None"
| "memo_elements ((name, v) # r) =
     (if fieldCode name \<noteq> fieldCode sfMemoType \<and> fieldCode name \<noteq> fieldCode sfMemoData \<and> fieldCode name \<noteq> fieldCode sfMemoFormat
      then Inr (Some ''A memo may contain only MemoType, MemoData or MemoFormat fields.'')
      else bind_r (memo_text v) (\<lambda>text. case strUnHex text of
        None \<Rightarrow> Inr (Some ''The MemoType, MemoData and MemoFormat fields may only contain hex-encoded data.'')
      | Some data \<Rightarrow>
          if fieldCode name = fieldCode sfMemoData then memo_elements r
          else if \<exists>c \<in> set data. \<not> allowedSymbols c
          then Inr (Some ''The MemoType and MemoFormat fields may only contain characters that are allowed in URLs under RFC 3986.'')
          else memo_elements r))"

fun memo_array :: "(SField \<times> STObject) list \<Rightarrow> (led_error, string option) result" where
  "memo_array [] = Inr None"
| "memo_array ((name, memo) # r) =
     (if fieldCode name \<noteq> fieldCode sfMemo then Inr (Some ''A memo array may contain only Memo objects.'')
      else bind_r (memo_elements (obj_v memo)) (\<lambda>e. case e of None \<Rightarrow> memo_array r | Some reason \<Rightarrow> Inr (Some reason)))"

definition isMemoOkay :: "STObject \<Rightarrow> (led_error, string option) result" where
  "isMemoOkay st =
     bind_r (isFieldPresent sfMemos st) (\<lambda>b.
       if \<not> b then Inr None
       else bind_r (getFieldArray sfMemos st) (\<lambda>memos.
         bind_r (st_add_array memos []) (\<lambda>s.
           if length s > 1024 then Inr (Some ''The memo exceeds the maximum allowed size.'')
           else memo_array memos)))"

definition isAccountFieldOkay :: "STObject \<Rightarrow> bool" where
  "isAccountFieldOkay st = (\<forall>(_, v) \<in> set (obj_v st). case v of STAccount b \<Rightarrow> length b = 20 | _ \<Rightarrow> True)"

definition passesLocalChecks :: "STObject \<Rightarrow> (led_error, string option) result" where
  "passesLocalChecks st =
     bind_r (isMemoOkay st) (\<lambda>e. case e of
       Some reason \<Rightarrow> Inr (Some reason)
     | None \<Rightarrow> if \<not> isAccountFieldOkay st then Inr (Some ''An account field is invalid.'') else Inr None)"

end
