(* ===== verification/Indexes.thy ===== *)
theory Indexes
  imports STAmount LedgerView
begin

text \<open>
  The keys of ledger entries (\<open>src/ripple/protocol/impl/Indexes.cpp\<close>) and the keylets made of them. Each kind
  of entry has a name space, a 16 bit number that is hashed before what identifies the entry; \<open>sha\<close> is
  \<open>sha512Half\<close>, which hashes the bytes of its arguments in sequence, integers in big endian order. The last
  64 bits of the key of an order book page are the quality of its offers, so that the pages of a book stand next to
  each other in the order of the keys.
\<close>

unbundle bit_operations_syntax

section \<open>Name spaces\<close>

datatype LedgerNameSpace = spaceAccount | spaceDirNode | spaceGenerator | spaceRipple | spaceOffer | spaceOwnerDir | spaceBookDir
  | spaceContract | spaceSkipList | spaceAmendment | spaceFee | spaceTicket | spaceDividend | spaceSignerList | spaceNickname

fun space_code :: "LedgerNameSpace \<Rightarrow> 16 word" where
  "space_code spaceAccount = 0x61" | "space_code spaceDirNode = 0x64" | "space_code spaceGenerator = 0x67"
| "space_code spaceRipple = 0x72" | "space_code spaceOffer = 0x6F" | "space_code spaceOwnerDir = 0x4F"
| "space_code spaceBookDir = 0x42" | "space_code spaceContract = 0x63" | "space_code spaceSkipList = 0x73"
| "space_code spaceAmendment = 0x66" | "space_code spaceFee = 0x65" | "space_code spaceTicket = 0x54"
| "space_code spaceDividend = 0x44" | "space_code spaceSignerList = 0x53" | "space_code spaceNickname = 0x6E"

text \<open>What is hashed for an entry.\<close>

definition index_bytes :: "LedgerNameSpace \<Rightarrow> Blob \<Rightarrow> Blob" where
  "index_bytes sp bs = be_bytes 2 (space_code sp) @ bs"

section \<open>Books\<close>

record Book =
  bk_in :: Issue
  bk_out :: Issue

definition issue_consistent :: "Issue \<Rightarrow> bool" where
  "issue_consistent ac = (isXRP_currency (iss_currency ac) = isXRP_account (iss_account ac))"

text \<open>The issuer counts only when the currency is not the native one.\<close>

definition issue_same :: "Issue \<Rightarrow> Issue \<Rightarrow> bool" where
  "issue_same lhs rhs =
     (iss_currency lhs = iss_currency rhs \<and> (isXRP_currency (iss_currency lhs) \<or> iss_account lhs = iss_account rhs))"

definition book_consistent :: "Book \<Rightarrow> bool" where
  "book_consistent book = (issue_consistent (bk_in book) \<and> issue_consistent (bk_out book) \<and> \<not> issue_same (bk_in book) (bk_out book))"

section \<open>Keys\<close>

definition getLedgerHashIndex :: "(Blob \<Rightarrow> uint256) \<Rightarrow> uint256" where
  "getLedgerHashIndex sha = sha (index_bytes spaceSkipList [])"

definition getLedgerHashIndex_of :: "(Blob \<Rightarrow> uint256) \<Rightarrow> 32 word \<Rightarrow> uint256" where
  "getLedgerHashIndex_of sha desiredLedgerIndex = sha (index_bytes spaceSkipList (be_bytes 4 (drop_bit 16 desiredLedgerIndex)))"

definition getLedgerAmendmentIndex :: "(Blob \<Rightarrow> uint256) \<Rightarrow> uint256" where
  "getLedgerAmendmentIndex sha = sha (index_bytes spaceAmendment [])"

definition getLedgerFeeIndex :: "(Blob \<Rightarrow> uint256) \<Rightarrow> uint256" where
  "getLedgerFeeIndex sha = sha (index_bytes spaceFee [])"

definition getAccountRootIndex :: "(Blob \<Rightarrow> uint256) \<Rightarrow> AccountID \<Rightarrow> uint256" where
  "getAccountRootIndex sha account = sha (index_bytes spaceAccount (be_bytes 20 account))"

definition getGeneratorIndex :: "(Blob \<Rightarrow> uint256) \<Rightarrow> AccountID \<Rightarrow> uint256" where
  "getGeneratorIndex sha uGeneratorID = sha (index_bytes spaceGenerator (be_bytes 20 uGeneratorID))"

text \<open>The last eight bytes of the key are replaced by the quality in big endian order.\<close>

definition getQualityIndex :: "uint256 \<Rightarrow> 64 word \<Rightarrow> uint256" where
  "getQualityIndex uBase uNodeDir = push_bit 64 (drop_bit 64 uBase) OR ucast uNodeDir"

definition getBookBase :: "(Blob \<Rightarrow> uint256) \<Rightarrow> Book \<Rightarrow> (led_error, uint256) result" where
  "getBookBase sha book =
     bind_r (led_assert (book_consistent book)) (\<lambda>_.
       Inr (getQualityIndex (sha (index_bytes spaceBookDir
         (be_bytes 20 (iss_currency (bk_in book)) @ be_bytes 20 (iss_currency (bk_out book)) @
          be_bytes 20 (iss_account (bk_in book)) @ be_bytes 20 (iss_account (bk_out book))))) 0))"

definition getOfferIndex :: "(Blob \<Rightarrow> uint256) \<Rightarrow> AccountID \<Rightarrow> 32 word \<Rightarrow> uint256" where
  "getOfferIndex sha account uSequence = sha (index_bytes spaceOffer (be_bytes 20 account @ be_bytes 4 uSequence))"

definition getOwnerDirIndex :: "(Blob \<Rightarrow> uint256) \<Rightarrow> AccountID \<Rightarrow> uint256" where
  "getOwnerDirIndex sha account = sha (index_bytes spaceOwnerDir (be_bytes 20 account))"

definition getDirNodeIndex :: "(Blob \<Rightarrow> uint256) \<Rightarrow> uint256 \<Rightarrow> 64 word \<Rightarrow> uint256" where
  "getDirNodeIndex sha uDirRoot uNodeIndex =
     (if uNodeIndex = 0 then uDirRoot else sha (index_bytes spaceDirNode (be_bytes 32 uDirRoot @ be_bytes 8 uNodeIndex)))"

definition getQualityNext :: "uint256 \<Rightarrow> uint256" where
  "getQualityNext uBase = uBase + 0x10000000000000000"

definition getQuality :: "uint256 \<Rightarrow> 64 word" where
  "getQuality uBase = ucast uBase"

definition getTicketIndex :: "(Blob \<Rightarrow> uint256) \<Rightarrow> AccountID \<Rightarrow> 32 word \<Rightarrow> uint256" where
  "getTicketIndex sha account uSequence = sha (index_bytes spaceTicket (be_bytes 20 account @ be_bytes 4 uSequence))"

definition getRippleStateIndex :: "(Blob \<Rightarrow> uint256) \<Rightarrow> AccountID \<Rightarrow> AccountID \<Rightarrow> Currency \<Rightarrow> uint256" where
  "getRippleStateIndex sha a b currency =
     (if a < b then sha (index_bytes spaceRipple (be_bytes 20 a @ be_bytes 20 b @ be_bytes 20 currency))
      else sha (index_bytes spaceRipple (be_bytes 20 b @ be_bytes 20 a @ be_bytes 20 currency)))"

definition getRippleStateIndex_issue :: "(Blob \<Rightarrow> uint256) \<Rightarrow> AccountID \<Rightarrow> Issue \<Rightarrow> uint256" where
  "getRippleStateIndex_issue sha a issue = getRippleStateIndex sha a (iss_account issue) (iss_currency issue)"

definition getSignerListIndex :: "(Blob \<Rightarrow> uint256) \<Rightarrow> AccountID \<Rightarrow> uint256" where
  "getSignerListIndex sha account = sha (index_bytes spaceSignerList (be_bytes 20 account))"

definition getLedgerDividendIndex :: "(Blob \<Rightarrow> uint256) \<Rightarrow> uint256" where
  "getLedgerDividendIndex sha = sha (index_bytes spaceDividend [])"

section \<open>Keylets\<close>

definition keylet_account :: "(Blob \<Rightarrow> uint256) \<Rightarrow> AccountID \<Rightarrow> Keylet" where
  "keylet_account sha account = \<lparr>kl_type = ltACCOUNT_ROOT, kl_key = getAccountRootIndex sha account\<rparr>"

definition keylet_child :: "uint256 \<Rightarrow> Keylet" where
  "keylet_child key = \<lparr>kl_type = ltCHILD, kl_key = key\<rparr>"

definition keylet_skip :: "(Blob \<Rightarrow> uint256) \<Rightarrow> Keylet" where
  "keylet_skip sha = \<lparr>kl_type = ltLEDGER_HASHES, kl_key = getLedgerHashIndex sha\<rparr>"

definition keylet_skip_of :: "(Blob \<Rightarrow> uint256) \<Rightarrow> 32 word \<Rightarrow> Keylet" where
  "keylet_skip_of sha ledger = \<lparr>kl_type = ltLEDGER_HASHES, kl_key = getLedgerHashIndex_of sha ledger\<rparr>"

definition keylet_amendments :: "(Blob \<Rightarrow> uint256) \<Rightarrow> Keylet" where
  "keylet_amendments sha = \<lparr>kl_type = ltAMENDMENTS, kl_key = getLedgerAmendmentIndex sha\<rparr>"

definition keylet_fees :: "(Blob \<Rightarrow> uint256) \<Rightarrow> Keylet" where
  "keylet_fees sha = \<lparr>kl_type = ltFEE_SETTINGS, kl_key = getLedgerFeeIndex sha\<rparr>"

definition keylet_book :: "(Blob \<Rightarrow> uint256) \<Rightarrow> Book \<Rightarrow> (led_error, Keylet) result" where
  "keylet_book sha b = bind_r (getBookBase sha b) (\<lambda>k. Inr \<lparr>kl_type = ltDIR_NODE, kl_key = k\<rparr>)"

definition keylet_line :: "(Blob \<Rightarrow> uint256) \<Rightarrow> AccountID \<Rightarrow> AccountID \<Rightarrow> Currency \<Rightarrow> Keylet" where
  "keylet_line sha id0 id1 currency = \<lparr>kl_type = ltRIPPLE_STATE, kl_key = getRippleStateIndex sha id0 id1 currency\<rparr>"

definition keylet_line_issue :: "(Blob \<Rightarrow> uint256) \<Rightarrow> AccountID \<Rightarrow> Issue \<Rightarrow> Keylet" where
  "keylet_line_issue sha account issue = \<lparr>kl_type = ltRIPPLE_STATE, kl_key = getRippleStateIndex_issue sha account issue\<rparr>"

definition keylet_offer :: "(Blob \<Rightarrow> uint256) \<Rightarrow> AccountID \<Rightarrow> 32 word \<Rightarrow> Keylet" where
  "keylet_offer sha account seq = \<lparr>kl_type = ltOFFER, kl_key = getOfferIndex sha account seq\<rparr>"

definition keylet_quality :: "Keylet \<Rightarrow> 64 word \<Rightarrow> (led_error, Keylet) result" where
  "keylet_quality k q =
     bind_r (led_assert (kl_type k = ltDIR_NODE)) (\<lambda>_. Inr \<lparr>kl_type = ltDIR_NODE, kl_key = getQualityIndex (kl_key k) q\<rparr>)"

definition keylet_next :: "Keylet \<Rightarrow> (led_error, Keylet) result" where
  "keylet_next k =
     bind_r (led_assert (kl_type k = ltDIR_NODE)) (\<lambda>_. Inr \<lparr>kl_type = ltDIR_NODE, kl_key = getQualityNext (kl_key k)\<rparr>)"

definition keylet_ticket :: "(Blob \<Rightarrow> uint256) \<Rightarrow> AccountID \<Rightarrow> 32 word \<Rightarrow> Keylet" where
  "keylet_ticket sha account seq = \<lparr>kl_type = ltTICKET, kl_key = getTicketIndex sha account seq\<rparr>"

definition keylet_signers :: "(Blob \<Rightarrow> uint256) \<Rightarrow> AccountID \<Rightarrow> Keylet" where
  "keylet_signers sha account = \<lparr>kl_type = ltSIGNER_LIST, kl_key = getSignerListIndex sha account\<rparr>"

definition keylet_dividend :: "(Blob \<Rightarrow> uint256) \<Rightarrow> Keylet" where
  "keylet_dividend sha = \<lparr>kl_type = ltDIVIDEND, kl_key = getLedgerDividendIndex sha\<rparr>"

definition keylet_ownerDir :: "(Blob \<Rightarrow> uint256) \<Rightarrow> AccountID \<Rightarrow> Keylet" where
  "keylet_ownerDir sha account = \<lparr>kl_type = ltDIR_NODE, kl_key = getOwnerDirIndex sha account\<rparr>"

definition keylet_page :: "(Blob \<Rightarrow> uint256) \<Rightarrow> uint256 \<Rightarrow> 64 word \<Rightarrow> Keylet" where
  "keylet_page sha key index = \<lparr>kl_type = ltDIR_NODE, kl_key = getDirNodeIndex sha key index\<rparr>"

definition keylet_page_of :: "(Blob \<Rightarrow> uint256) \<Rightarrow> Keylet \<Rightarrow> 64 word \<Rightarrow> (led_error, Keylet) result" where
  "keylet_page_of sha root index = bind_r (led_assert (kl_type root = ltDIR_NODE)) (\<lambda>_. Inr (keylet_page sha (kl_key root) index))"

definition keylet_root_page :: "uint256 \<Rightarrow> Keylet" where
  "keylet_root_page key = \<lparr>kl_type = ltDIR_NODE, kl_key = key\<rparr>"

section \<open>Qualities\<close>

lemma int_div_split: "0 < n \<Longrightarrow> k = d * n + k mod n \<longleftrightarrow> k div n = d" for k n d :: int
  by (metis add_right_cancel div_mult_mod_eq less_irrefl mult_cancel_right)

lemma int_div_between:
  fixes k n d :: int
  assumes "0 < n"
  shows "k div n = d \<longleftrightarrow> d * n \<le> k \<and> k < (d + 1) * n"
proof
  assume "k div n = d"
  then show "d * n \<le> k \<and> k < (d + 1) * n"
    using div_mult_mod_eq [of k n] pos_mod_bound [OF assms, of k] pos_mod_sign [OF assms, of k] by (simp add: algebra_simps)
next
  assume "d * n \<le> k \<and> k < (d + 1) * n"
  then show "k div n = d" by (intro int_div_pos_eq [of k n d "k - d * n"]) (simp_all add: algebra_simps)
qed

lemma quality_index_int: "uint (getQualityIndex b q) = uint b div 2 ^ 64 * 2 ^ 64 + uint q"
proof -
  let ?h = "push_bit 64 (drop_bit 64 b)"
  have disj: "?h AND ucast q = (0 :: uint256)"
    by (rule bit_word_eqI) (auto simp: bit_simps dest: bit_imp_le_length)
  have q: "uint (ucast q :: uint256) = uint q" by (simp add: unsigned_ucast_eq take_bit_int_eq_self_iff less_le_trans [OF uint_bounded])
  have d: "uint b div 2 ^ 64 < 2 ^ 192" "0 \<le> uint b div 2 ^ 64"
    using zdiv_mono1 [of "uint b" "2 ^ 256 - 1" "2 ^ 64"] uint_bounded [of b] pos_imp_zdiv_nonneg_iff [of "2 ^ 64" "uint b"] by simp_all
  then have b: "uint b div 2 ^ 64 * 2 ^ 64 + uint q < 2 ^ 256" using uint_bounded [of q] by simp
  have "take_bit 256 (uint b) = uint b" using uint_bounded [of b] by (intro take_bit_int_eq_self) simp_all
  moreover have "take_bit 256 (uint b div 2 ^ 64 * 2 ^ 64) = uint b div 2 ^ 64 * 2 ^ 64"
    using d by (intro take_bit_int_eq_self) simp_all
  ultimately have h: "uint ?h = uint b div 2 ^ 64 * 2 ^ 64"
    unfolding unsigned_push_bit_eq unsigned_drop_bit_eq unfolding push_bit_eq_mult drop_bit_eq_div by simp
  have "getQualityIndex b q = ?h + ucast q" unfolding getQualityIndex_def by (rule disjunctive_add_eq_or [OF disj, symmetric])
  then have "uint (getQualityIndex b q) = (uint ?h + uint (ucast q :: uint256)) mod 2 ^ 256" by (simp add: uint_word_ariths)
  then show ?thesis using b d(2) uint_ge_0 [of q] unfolding h q by (simp add: mod_pos_pos_trivial)
qed

lemma quality_of_index: "getQuality (getQualityIndex b q) = q"
  unfolding getQuality_def getQualityIndex_def by (rule bit_word_eqI) (auto simp: bit_simps)

lemma quality_less: "getQualityIndex b q < getQualityIndex b q' \<longleftrightarrow> q < q'"
  by (simp add: word_less_def quality_index_int)

text \<open>The keys from the page of quality zero up to the next base are the pages of the book.\<close>

lemma quality_range:
  assumes "uint b div 2 ^ 64 < 2 ^ 192 - 1"
  shows "getQualityIndex b 0 \<le> k \<and> k < getQualityNext (getQualityIndex b 0) \<longleftrightarrow> k = getQualityIndex b (getQuality k)"
proof -
  have q: "uint (getQuality k) = uint k mod 2 ^ 64"
    unfolding getQuality_def by (simp add: unsigned_ucast_eq take_bit_eq_mod)
  have "uint (getQualityNext (getQualityIndex b 0)) = (uint b div 2 ^ 64 * 2 ^ 64 + 2 ^ 64) mod 2 ^ 256"
    by (simp add: getQualityNext_def uint_word_ariths quality_index_int)
  then have n: "uint (getQualityNext (getQualityIndex b 0)) = (uint b div 2 ^ 64 + 1) * 2 ^ 64"
    using assms pos_imp_zdiv_nonneg_iff [of "2 ^ 64" "uint b"] by simp
  have "k = getQualityIndex b (getQuality k) \<longleftrightarrow> uint k = uint b div 2 ^ 64 * 2 ^ 64 + uint k mod 2 ^ 64"
    by (simp add: word_uint_eq_iff quality_index_int q)
  also have "\<dots> \<longleftrightarrow> uint k div 2 ^ 64 = uint b div 2 ^ 64" by (rule int_div_split) simp
  also have "\<dots> \<longleftrightarrow> uint b div 2 ^ 64 * 2 ^ 64 \<le> uint k \<and> uint k < (uint b div 2 ^ 64 + 1) * 2 ^ 64"
    by (rule int_div_between) simp
  finally show ?thesis by (simp add: word_le_def word_less_def n quality_index_int)
qed

end
