(* ===== verification/LedgerEntries.thy ===== *)
theory LedgerEntries
  imports Ledger STTx Indexes
begin

text \<open>
  The parts of the ledger that look into its entries (\<open>src/ripple/app/ledger/Ledger.cpp\<close> and
  \<open>src/ripple/ledger/impl/View.cpp\<close>): entries and transactions as the objects that the maps hold in binary form,
  the fees, the genesis ledger, the skip lists, which record the hashes of the ledgers before, the search for the
  hash of an earlier ledger, the enabled amendments and the owner count of an account.
\<close>

unbundle bit_operations_syntax

section \<open>Entries and transactions as objects\<close>

text \<open>\<open>sle->add (ss)\<close> into an empty serializer. The constructor of an entry from an item is \<open>STLedgerEntry_read\<close>.\<close>

definition entry_add :: "STLedgerEntry \<Rightarrow> (led_error, Blob) result" where
  "entry_add sle = getSerializer (sle_body sle)"

definition deserializeTx :: "SHAMapItem \<Rightarrow> (led_error, STTx) result" where
  "deserializeTx item = bind_r (STTx_iter (SerialIter_of (it_data item))) (\<lambda>(tx, _). Inr tx)"

text \<open>The transaction and the metadata of an item, constructed from the two byte strings.\<close>

definition deserializeTxPlusMeta_objects :: "SHAMapItem \<Rightarrow> (led_error, STTx \<times> STObject) result" where
  "deserializeTxPlusMeta_objects item =
     bind_r (si_getVLDataLength (SerialIter_of (it_data item))) (\<lambda>(n, sit1).
     bind_r (si_getSlice (nat n) sit1) (\<lambda>(txn, sit2).
     bind_r (STTx_iter (SerialIter_of txn)) (\<lambda>(tx, _).
     bind_r (si_getVLDataLength sit2) (\<lambda>(n', sit3).
     bind_r (si_getSlice (nat n') sit3) (\<lambda>(meta, _).
     bind_r (STObject_read (SerialIter_of meta)) (\<lambda>(ob, _). Inr (tx, ob)))))))"

definition lg_txRead_objects :: "uint256 \<Rightarrow> Ledger \<Rightarrow> (led_error, STTx option \<times> STObject option) result" where
  "lg_txRead_objects key l =
     bind_r (peekItem key (lg_txMap l)) (\<lambda>item. case item of
       None \<Rightarrow> Inr (None, None)
     | Some it \<Rightarrow>
         if \<not> li_open (lg_info l)
         then bind_r (deserializeTxPlusMeta_objects it) (\<lambda>(tx, meta). Inr (Some tx, Some meta))
         else bind_r (deserializeTx it) (\<lambda>tx. Inr (Some tx, None)))"

section \<open>Fees\<close>

text \<open>The fields of \<open>Config\<close> that are used; the last three are narrowed to 32 bits.\<close>

record FeeConfig =
  FEE_DEFAULT :: "64 word"
  TRANSACTION_FEE_BASE :: "32 word"
  FEE_ACCOUNT_RESERVE :: "64 word"
  FEE_OWNER_RESERVE :: "64 word"

definition fee_field :: "(SField \<Rightarrow> STObject \<Rightarrow> (led_error, 'v) result) \<Rightarrow> SField \<Rightarrow> 'v \<Rightarrow> STObject \<Rightarrow> (led_error, 'v) result" where
  "fee_field getter f dflt ob = (if getFieldIndex f ob \<noteq> None then getter f ob else Inr dflt)"

definition setFees :: "(Blob \<Rightarrow> uint256) \<Rightarrow> FeeConfig \<Rightarrow> Ledger \<Rightarrow> (led_error, Fees) result" where
  "setFees sha config l =
     (let fees = \<lparr>fe_base = FEE_DEFAULT config, fe_units = TRANSACTION_FEE_BASE config,
                  fe_reserve = ucast (FEE_ACCOUNT_RESERVE config), fe_increment = ucast (FEE_OWNER_RESERVE config)\<rparr> in
      bind_r (lg_read STLedgerEntry_read (keylet_fees sha) l) (\<lambda>r. case r of
        None \<Rightarrow> Inr fees
      | Some sle \<Rightarrow>
          bind_r (fee_field getFieldU64 sfBaseFee (fe_base fees) (sle_body sle)) (\<lambda>base.
          bind_r (fee_field getFieldU32 sfReferenceFeeUnits (fe_units fees) (sle_body sle)) (\<lambda>units.
          bind_r (fee_field getFieldU32 sfReserveBase (fe_reserve fees) (sle_body sle)) (\<lambda>reserve.
          bind_r (fee_field getFieldU32 sfReserveIncrement (fe_increment fees) (sle_body sle)) (\<lambda>increment.
            Inr \<lparr>fe_base = base, fe_units = units, fe_reserve = reserve, fe_increment = increment\<rparr>))))))"

section \<open>The genesis ledger\<close>

definition SYSTEM_CURRENCY_START :: "64 word" where
  "SYSTEM_CURRENCY_START = 1 * (70 * 1000 * 1000) * 1000000"

text \<open>\<open>account\<close> is the one that the source writes in base 58.\<close>

definition Ledger_genesis :: "(Blob \<Rightarrow> uint256) \<Rightarrow> FeeConfig \<Rightarrow> AccountID \<Rightarrow> (led_error, Ledger) result" where
  "Ledger_genesis sha config account =
     (let info = LedgerInfo_init\<lparr>li_seq := 1, li_drops := SYSTEM_CURRENCY_START, li_closeTimeResolution := word_of_int ledgerDefaultTimeResolution\<rparr>;
          l = \<lparr>lg_info = info, lg_fees = \<lparr>fe_base = 0, fe_units = 0, fe_reserve = 0, fe_increment = 0\<rparr>, lg_stateMap = SHAMap_init, lg_txMap = SHAMap_init,
               lg_validHash = False, lg_immutable = False\<rparr> in
      bind_r (STLedgerEntry_keylet (keylet_account sha account)) (\<lambda>sle.
      bind_r (setFieldU32 1 sfSequence (sle_body sle)) (\<lambda>ob1.
      bind_r (setAccountID account sfAccount ob1) (\<lambda>ob2.
      bind_r (setFieldAmount (STAmount_drops (li_drops info) False) sfBalance ob2) (\<lambda>ob3.
      bind_r (lg_rawInsert entry_add [sle\<lparr>sle_body := ob3\<rparr>] 0 l) (\<lambda>l1.
      bind_r (setAccepted_acquired sha (setFees sha config) (setClosed (updateHash sha l1))) (\<lambda>l2.
      bind_r (setFees sha config l2) (\<lambda>f. Inr (l2\<lparr>lg_fees := f\<rparr>)))))))))"

section \<open>Skip lists\<close>

text \<open>One of the two updates: the entry is made or read, a hash is appended to its list, and it is stored.\<close>

definition skip_update :: "(Blob \<Rightarrow> uint256) \<Rightarrow> Keylet \<Rightarrow> bool \<Rightarrow> uint256 \<Rightarrow> 32 word \<Rightarrow> Ledger \<Rightarrow> (led_error, Ledger) result" where
  "skip_update sha k limited parentHash prevIndex l =
     bind_r (lg_peek STLedgerEntry_read k l) (\<lambda>r.
     bind_r (case r of
         None \<Rightarrow> bind_r (STLedgerEntry_keylet k) (\<lambda>sle. Inr (sle, [], True))
       | Some sle \<Rightarrow> bind_r (getFieldV256 sfHashes (sle_body sle)) (\<lambda>hashes. Inr (sle, hashes, False))) (\<lambda>(sle, hashes, created).
     bind_r (led_assert (length hashes \<le> 256)) (\<lambda>_.
       let hashes1 = (if limited \<and> length hashes = 256 then tl hashes else hashes) in
       bind_r (setFieldV256 (hashes1 @ [parentHash]) sfHashes (sle_body sle)) (\<lambda>ob1.
       bind_r (setFieldU32 prevIndex sfLastLedgerSequence ob1) (\<lambda>ob2.
         if created then lg_rawInsert entry_add [sle\<lparr>sle_body := ob2\<rparr>] 0 l
         else lg_rawReplace sha entry_add [sle\<lparr>sle_body := ob2\<rparr>] 0 l)))))"

definition updateSkipList :: "(Blob \<Rightarrow> uint256) \<Rightarrow> Ledger \<Rightarrow> (led_error, Ledger) result" where
  "updateSkipList sha l =
     (if li_seq (lg_info l) = 0 then Inr l
      else let prevIndex = li_seq (lg_info l) - 1; parentHash = li_parentHash (lg_info l) in
        bind_r (if prevIndex AND 0xFF = 0 then skip_update sha (keylet_skip_of sha prevIndex) False parentHash prevIndex l else Inr l)
          (skip_update sha (keylet_skip sha) True parentHash prevIndex))"

text \<open>
  The difference of the sequence numbers is narrowed to \<open>int\<close>, and compared with the size of a vector as
  an unsigned number. A vector index that is out of range is an error.
\<close>

definition vec_at :: "uint256 list \<Rightarrow> int \<Rightarrow> (led_error, uint256) result" where
  "vec_at vec i = (if 0 \<le> i \<and> i < int (length vec) then Inr (vec ! nat i) else Inl LRange)"

definition skip_recent :: "(Blob \<Rightarrow> uint256) \<Rightarrow> STObject ReadView \<Rightarrow> STObject sle_heap \<Rightarrow> int \<Rightarrow> (led_error, uint256 option) result" where
  "skip_recent sha view h diff =
     bind_r (rv_read view h (keylet_skip sha)) (\<lambda>hashIndex. case hashIndex of
       None \<Rightarrow> Inr None
     | Some sle \<Rightarrow>
         bind_r (getFieldU32 sfLastLedgerSequence (sle_body sle)) (\<lambda>lastSeq.
         bind_r (led_assert (lastSeq = li_seq (rv_info view) - 1)) (\<lambda>_.
         bind_r (getFieldV256 sfHashes (sle_body sle)) (\<lambda>vec.
           if int (length vec) \<ge> diff mod 2 ^ 64 then bind_r (vec_at vec (int (length vec) - diff)) (\<lambda>x. Inr (Some x)) else Inr None))))"

definition skip_every256 :: "(Blob \<Rightarrow> uint256) \<Rightarrow> STObject ReadView \<Rightarrow> STObject sle_heap \<Rightarrow> 32 word \<Rightarrow> (led_error, uint256 option) result" where
  "skip_every256 sha view h seq =
     bind_r (rv_read view h (keylet_skip_of sha seq)) (\<lambda>hashIndex. case hashIndex of
       None \<Rightarrow> Inr None
     | Some sle \<Rightarrow>
         bind_r (getFieldU32 sfLastLedgerSequence (sle_body sle)) (\<lambda>lastSeq.
         bind_r (led_assert (lastSeq \<ge> seq)) (\<lambda>_.
         bind_r (led_assert (lastSeq AND 0xFF = 0)) (\<lambda>_.
         bind_r (getFieldV256 sfHashes (sle_body sle)) (\<lambda>vec. let diff = uint (drop_bit 8 (lastSeq - seq)) in
           if int (length vec) > diff then bind_r (vec_at vec (int (length vec) - diff - 1)) (\<lambda>x. Inr (Some x)) else Inr None)))))"

definition hashOfSeq :: "(Blob \<Rightarrow> uint256) \<Rightarrow> STObject ReadView \<Rightarrow> STObject sle_heap \<Rightarrow> 32 word \<Rightarrow> (led_error, uint256 option) result" where
  "hashOfSeq sha view h seq =
     (let cur = li_seq (rv_info view) in
      if seq > cur then Inr None
      else if seq = cur then Inr (Some (li_hash (rv_info view)))
      else if seq = cur - 1 then Inr (Some (li_parentHash (rv_info view)))
      else let diff = to_int32 (uint (cur - seq)) in
        bind_r (if diff \<le> 256 then skip_recent sha view h diff else Inr None) (\<lambda>r. case r of
          Some x \<Rightarrow> Inr (Some x)
        | None \<Rightarrow> if seq AND 0xFF \<noteq> 0 then Inr None else skip_every256 sha view h seq))"

section \<open>Amendments and owner counts\<close>

definition getEnabledAmendments :: "(Blob \<Rightarrow> uint256) \<Rightarrow> STObject ReadView \<Rightarrow> STObject sle_heap \<Rightarrow> (led_error, uint256 set) result" where
  "getEnabledAmendments sha view h =
     bind_r (rv_read view h (keylet_amendments sha)) (\<lambda>r. case r of
       None \<Rightarrow> Inr {}
     | Some sle \<Rightarrow> bind_r (getFieldV256 sfAmendments (sle_body sle)) (\<lambda>v. Inr (set v)))"

fun majorities_loop :: "(SField \<times> STObject) list \<Rightarrow> (uint256 \<rightharpoonup> 32 word) \<Rightarrow> (led_error, uint256 \<rightharpoonup> 32 word) result" where
  "majorities_loop [] m = Inr m"
| "majorities_loop ((_, e) # es) m =
     bind_r (getFieldH256 sfAmendment e) (\<lambda>a.
     bind_r (getFieldU32 sfCloseTime e) (\<lambda>t. majorities_loop es (m(a \<mapsto> t))))"

definition getMajorityAmendments :: "(Blob \<Rightarrow> uint256) \<Rightarrow> STObject ReadView \<Rightarrow> STObject sle_heap \<Rightarrow> (led_error, uint256 \<rightharpoonup> 32 word) result" where
  "getMajorityAmendments sha view h =
     bind_r (rv_read view h (keylet_amendments sha)) (\<lambda>r. case r of
       None \<Rightarrow> Inr Map.empty
     | Some sle \<Rightarrow>
         bind_r (isFieldPresent sfMajorities (sle_body sle)) (\<lambda>p.
           if p then bind_r (getFieldArray sfMajorities (sle_body sle)) (\<lambda>arr. majorities_loop arr Map.empty) else Inr Map.empty))"

text \<open>The owner count saturates at its largest value; going below zero fails an assertion.\<close>

definition adjustOwnerCount :: "nat \<Rightarrow> int \<Rightarrow> STObject sle_heap \<Rightarrow> STObject ApplyViewBase \<Rightarrow> (led_error, STObject sle_heap \<times> STObject ApplyViewBase) result" where
  "adjustOwnerCount a amount h v =
     bind_r (led_assert (amount \<noteq> 0)) (\<lambda>_.
     bind_r (getFieldU32 sfOwnerCount (sle_body (h ! a))) (\<lambda>current. let adjusted = current + word_of_int amount in
     bind_r (if amount > 0 then Inr (if adjusted < current then - 1 else adjusted)
             else bind_r (led_assert (\<not> adjusted > current)) (\<lambda>_. Inr adjusted)) (\<lambda>adjusted1.
     bind_r (setFieldU32 adjusted1 sfOwnerCount (sle_body (h ! a))) (\<lambda>ob.
       let h' = write_sle a (\<lambda>_. ob) h in bind_r (av_update h' a v) (\<lambda>v'. Inr (h', v'))))))"

end
