(* ===== verification/STFormats_Spec.thy ===== *)
theory STFormats_Spec
  imports STFormats
begin

text \<open>
  The formats are consistent: one per type, no field twice, every field known. Ledger entries keep the
  template of their type, are read back from what they write, and thread transactions.
\<close>

section \<open>Formats\<close>

definition format_ok :: "SOTemplate \<Rightarrow> bool" where
  "format_ok t = (distinct (map (fieldCode \<circ> fst) t) \<and> template_ok t)"

lemma find_mem: "find P xs = Some x \<Longrightarrow> x \<in> set xs \<and> P x"
  by (induction xs) (auto split: if_splits)

lemma findByType_Some: "findByType fms type = Some fm \<Longrightarrow> fm \<in> set fms \<and> type = Some (fm_type fm)"
  unfolding findByType_def using find_mem [of _ "rev fms" fm] by auto

lemma known_registered: "f \<in> set knownFields \<Longrightarrow> registered f"
  using getField_known by (simp add: registered_def)

lemma ledgerFormats_known: "\<forall>fm \<in> set ledgerFormats. \<forall>e \<in> set (fm_elements fm). fst e \<in> set knownFields"
  by (simp add: ledgerFormats_def ledgerCommonFields_def format_item_def knownFields_def)

lemma txFormats_known: "\<forall>fm \<in> set txFormats. \<forall>e \<in> set (fm_elements fm). fst e \<in> set knownFields"
  by (simp add: txFormats_def txCommonFields_def format_item_def knownFields_def)

lemma ledgerFormats_distinct: "\<forall>fm \<in> set ledgerFormats. distinct (map (fieldCode \<circ> fst) (fm_elements fm))"
  by code_simp

lemma txFormats_distinct: "\<forall>fm \<in> set txFormats. distinct (map (fieldCode \<circ> fst) (fm_elements fm))"
  by code_simp

lemma known_template: "\<forall>e \<in> set t. fst e \<in> set knownFields \<Longrightarrow> template_ok t"
  using known_registered by (fastforce simp: template_ok_def)

lemma ledger_format_ok: "findByType ledgerFormats type = Some fm \<Longrightarrow> format_ok (fm_elements fm)"
  unfolding format_ok_def using findByType_Some [of ledgerFormats type fm] ledgerFormats_known ledgerFormats_distinct known_template
  by blast

lemma tx_format_ok: "findByType txFormats type = Some fm \<Longrightarrow> format_ok (fm_elements fm)"
  unfolding format_ok_def using findByType_Some [of txFormats type fm] txFormats_known txFormats_distinct known_template
  by blast

text \<open>The elements can be appended one by one: none is a duplicate.\<close>

lemma push_back_all:
  assumes "distinct (map (fieldCode \<circ> fst) (t @ els))"
  shows "fold_r (\<lambda>(f, flags). SOTemplate_push_back f flags) els t = Inr (t @ els)"
  using assms
proof (induction els arbitrary: t)
  case (Cons e els)
  obtain f fl where e: "e = (f, fl)" by fastforce
  have "field_position (fieldCode f) t = None" using Cons.prems e by (auto simp: field_position_None)
  then have "SOTemplate_push_back f fl t = Inr (t @ [e])" by (simp add: e SOTemplate_push_back_def SOTemplate_getIndex_def)
  moreover have "fold_r (\<lambda>(f, flags). SOTemplate_push_back f flags) els (t @ [e]) = Inr ((t @ [e]) @ els)"
    using Cons.prems by (intro Cons.IH) simp
  ultimately show ?case by (simp add: e)
qed simp

section \<open>Types of entries\<close>

text \<open>The types that have a format.\<close>

definition ledger_types :: "LedgerEntryType list" where
  "ledger_types = [ltACCOUNT_ROOT, ltDIR_NODE, ltOFFER, ltRIPPLE_STATE, ltLEDGER_HASHES, ltAMENDMENTS, ltFEE_SETTINGS, ltTICKET,
     ltDIVIDEND, ltSIGNER_LIST]"

lemma ledger_type_formats: "map fm_type ledgerFormats = ledger_types"
  by (simp add: ledgerFormats_def ledger_types_def format_item_def)

lemma findByType_ledger: "(\<exists>fm. findByType ledgerFormats (Some t) = Some fm) \<longleftrightarrow> t \<in> set ledger_types"
proof -
  have "find (\<lambda>it. Some (fm_type it) = Some t) (rev ledgerFormats) = None \<longleftrightarrow> t \<notin> fm_type ` set ledgerFormats"
    by (auto simp: find_None_iff)
  moreover have "fm_type ` set ledgerFormats = set ledger_types" using ledger_type_formats by (metis list.set_map)
  ultimately show ?thesis by (auto simp: findByType_def)
qed

lemma type_of_code: "t \<in> set ledger_types \<Longrightarrow> ledgerEntryType_of (word_of_int (ledgerEntryType_code t)) = Some t \<and>
    word_of_int (ledgerEntryType_code t) \<noteq> (0 :: 16 word)"
  by (auto simp: ledger_types_def ledgerEntryType_of_def)

lemma code_of_type: "ledgerEntryType_of x = Some t \<Longrightarrow> x = word_of_int (ledgerEntryType_code t)"
  unfolding ledgerEntryType_of_def using find_mem by fastforce

section \<open>Entries\<close>

lemma entry_type_field: "registered sfLedgerEntryType" "fieldType sfLedgerEntryType = STI_UINT16"
  by (rule known_registered, simp add: knownFields_def) (simp add: sfLedgerEntryType_def SField_named_def)

text \<open>An entry has the template of its type, typed fields, and its type as a field.\<close>

definition sle_typed :: "STLedgerEntry \<Rightarrow> bool" where
  "sle_typed s = (\<exists>fm. findByType ledgerFormats (Some (sle_type s)) = Some fm \<and> obj_type (sle_body s) = Some (fm_elements fm) \<and>
     obj_typed (sle_body s) \<and> getVersion s = Inr (word_of_int (ledgerEntryType_code (sle_type s))))"

lemma type_in_template:
  assumes "findByType ledgerFormats type = Some fm"
  shows "SOTemplate_getIndex sfLedgerEntryType (fm_elements fm) = Some 1"
proof -
  have "take 3 (fm_elements fm) = ledgerCommonFields"
    using findByType_Some [OF assms] by (auto simp: ledgerFormats_def format_item_def ledgerCommonFields_def)
  then obtain r where "fm_elements fm = ledgerCommonFields @ r" by (metis append_take_drop_id)
  moreover have "fieldCode sfLedgerIndex \<noteq> fieldCode sfLedgerEntryType" by (simp add: sfLedgerIndex_def sfLedgerEntryType_def SField_named_def field_code_def)
  ultimately show ?thesis by (simp add: SOTemplate_getIndex_def ledgerCommonFields_def)
qed

text \<open>The value of a field is that of the first entry with its code.\<close>

lemma peek_entry:
  assumes "case obj_type ob of None \<Rightarrow> True | Some t \<Rightarrow> map fst (obj_v ob) = map fst t"
  shows "peekAtPField f ob = Inr (map_option snd (entry (fieldCode f) (obj_v ob)))"
proof -
  have "getFieldIndex f ob = field_position (fieldCode f) (obj_v ob)"
    using assms field_position_fst [of "obj_v ob" "the (obj_type ob)"]
    by (cases "obj_type ob") (simp_all add: getFieldIndex_def SOTemplate_getIndex_def)
  then show ?thesis using field_position_entry [of "fieldCode f" "obj_v ob"]
    by (auto simp: peekAtPField_def obj_at_def case_prod_beta split: option.splits)
qed

lemma typed_shape: "obj_typed ob \<Longrightarrow> case obj_type ob of None \<Rightarrow> True | Some t \<Rightarrow> map fst (obj_v ob) = map fst t"
  by (auto simp: obj_typed_iff split: option.split)

text \<open>Applying a template keeps the first value of each of its fields, also when the object has a field twice.\<close>

lemma entry_append: "entry c (a @ b) = (case entry c a of Some e \<Rightarrow> Some e | None \<Rightarrow> entry c b)"
  by (induction a) (simp_all add: entry_def)

lemma entry_other:
  assumes "i < length vs" "fieldCode (fst (vs ! i)) \<noteq> c"
  shows "entry c (take i vs @ drop (Suc i) vs) = entry c vs"
proof -
  have "entry c vs = entry c (take i vs @ vs ! i # drop (Suc i) vs)" using id_take_nth_drop [OF assms(1)] by simp
  moreover have "entry c (vs ! i # r) = entry c r" for r using assms(2) by (simp add: entry_def)
  ultimately show ?thesis by (simp add: entry_append split: option.split)
qed

lemma setType_slots: "distinct (map (fieldCode \<circ> fst) t) \<Longrightarrow> fst (snd (setType_loop t vs)) = map (slot vs) t"
proof (induction t arbitrary: vs)
  case (Cons ff t)
  obtain f flags where ff: "ff = (f, flags)" by fastforce
  have d: "distinct (map (fieldCode \<circ> fst) t)" using Cons.prems by (simp add: comp_def)
  have fresh: "fieldCode (fst gg) \<noteq> fieldCode f" if "gg \<in> set t" for gg using Cons.prems that by (force simp: ff)
  show ?case
  proof (cases "field_position (fieldCode f) vs")
    case None
    then have "slot vs ff = (f, STNotPresent)" using field_position_entry [of "fieldCode f" vs] by (simp add: slot_def ff)
    then show ?thesis using Cons.IH [OF d, of vs] by (simp add: ff None case_prod_beta)
  next
    case (Some i)
    then have i: "i < length vs" "entry (fieldCode f) vs = Some (vs ! i)" "fieldCode (fst (vs ! i)) = fieldCode f"
      using field_position_entry [of "fieldCode f" vs] by simp_all
    have "map (slot (take i vs @ drop (Suc i) vs)) t = map (slot vs) t"
      using entry_other [OF i(1)] fresh i(3) by (intro map_cong refl) (simp add: slot_def, metis)
    then show ?thesis using Cons.IH [OF d, of "take i vs @ drop (Suc i) vs"] i(2) by (simp add: ff Some slot_def case_prod_beta)
  qed
qed simp

lemma setType_peek:
  assumes "format_ok t" "(f, flags) \<in> set t" "obj_typed ob" "STObject_setType t ob = (valid, ob')"
  shows "peekAtPField f ob' = (case entry (fieldCode f) (obj_v ob) of None \<Rightarrow> Inr (Some STNotPresent) | Some e \<Rightarrow> Inr (Some (snd e)))"
proof -
  have d: "distinct (map (fieldCode \<circ> fst) t)" using assms(1) by (simp add: format_ok_def)
  have v: "obj_v ob' = map (slot (obj_v ob)) t" using assms(4) setType_slots [OF d, of "obj_v ob"] by (auto simp: STObject_setType_def split: prod.splits)
  have typed: "obj_typed ob'" using setType_keeps [of t ob] assms(1,3,4) by (simp add: format_ok_def)
  have code: "fieldCode (fst (slot w ff)) = fieldCode (fst ff)" for w and ff :: "SField \<times> SOE_Flags"
    using find_mem by (fastforce simp: slot_def entry_def split: option.split)
  have "distinct (map (fieldCode \<circ> fst) (obj_v ob'))" using d code by (simp add: v comp_def)
  then have "entry (fieldCode f) (obj_v ob') = Some (slot (obj_v ob) (f, flags))"
    using entry_mem [of "obj_v ob'" "slot (obj_v ob) (f, flags)"] code [of "obj_v ob" "(f, flags)"] assms(2) by (auto simp: v)
  then show ?thesis using peek_entry [OF typed_shape [OF typed], of f] by (simp add: slot_def split: option.split)
qed

lemma setSLEType_typed:
  assumes "obj_typed ob" "setSLEType key ob = Inr s"
  shows "sle_typed s \<and> sle_key s = key"
proof -
  obtain x fm ob' where x: "getFieldU16 sfLedgerEntryType ob = Inr x" "findByType ledgerFormats (ledgerEntryType_of x) = Some fm"
    "STObject_setType (fm_elements fm) ob = (True, ob')" "s = \<lparr>sle_key = key, sle_type = fm_type fm, sle_body = ob'\<rparr>"
    using assms(2) by (auto simp: setSLEType_def result_simps Let_def case_prod_beta prod_eq_iff split: option.splits if_splits)
  have fm: "ledgerEntryType_of x = Some (fm_type fm)" "findByType ledgerFormats (Some (fm_type fm)) = Some fm"
    using findByType_Some [OF x(2)] x(2) by simp_all
  have ok: "format_ok (fm_elements fm)" by (rule ledger_format_ok [OF x(2)])
  have typed: "obj_typed ob'" using setType_keeps [of "fm_elements fm" ob] ok assms(1) x(3) by (simp add: format_ok_def)
  have t: "obj_type ob' = Some (fm_elements fm)" using x(3) by (auto simp: STObject_setType_def split: prod.splits)
  have "(sfLedgerEntryType, SOE_REQUIRED) \<in> set (fm_elements fm)"
    using findByType_Some [OF x(2)] by (auto simp: ledgerFormats_def format_item_def ledgerCommonFields_def)
  then have "getFieldU16 sfLedgerEntryType ob' = Inr x"
    using setType_peek [OF ok _ assms(1) x(3)] x(1) peek_entry [OF typed_shape [OF assms(1)], of sfLedgerEntryType]
    by (cases "entry (fieldCode sfLedgerEntryType) (obj_v ob)") (auto simp: getFieldU16_def getFieldBy_def)
  then show ?thesis using x(4) fm t typed code_of_type [OF fm(1)] by (auto simp: sle_typed_def getVersion_def)
qed

lemma made_sle_typed:
  assumes "STLedgerEntry_read bs key = Inr s"
  shows "sle_typed s \<and> sle_key s = key"
proof -
  obtain ob it where "STObject_read (SerialIter_of bs) = Inr (ob, it)" "setSLEType key ob = Inr s"
    using assms by (auto simp: STLedgerEntry_read_def STLedgerEntry_iter_def result_simps)
  then show ?thesis using STObject_read_typed setSLEType_typed by blast
qed

text \<open>A new entry: every required field has its default, and the type is set.\<close>

lemma template_defaults:
  assumes "\<forall>e \<in> set t. \<not> isl (defaultObject (fst e))"
  shows "\<exists>v. set_template_loop t = Inr v"
  using assms
proof (induction t)
  case (Cons e t)
  obtain f fl where e: "e = (f, fl)" by fastforce
  with Cons show ?case by (cases "defaultObject f") auto
qed simp

lemma ledger_defaults: "\<forall>fm \<in> set ledgerFormats. \<forall>e \<in> set (fm_elements fm). \<not> isl (defaultObject (fst e))"
  by code_simp

lemma keylet_typed:
  assumes "kl_type k \<in> set ledger_types"
  shows "\<exists>s. STLedgerEntry_keylet k = Inr s \<and> sle_typed s \<and> sle_key s = kl_key k \<and> sle_type s = kl_type k"
proof -
  obtain fm where fm: "findByType ledgerFormats (Some (kl_type k)) = Some fm" using assms findByType_ledger by blast
  then have ty: "fm_type fm = kl_type k" and mem: "fm \<in> set ledgerFormats" using findByType_Some [OF fm] by simp_all
  obtain v where "set_template_loop (fm_elements fm) = Inr v" using template_defaults ledger_defaults mem by blast
  then have ob: "STObject_set_template (fm_elements fm) = Inr (STObject (Some (fm_elements fm)) v)" by (simp add: STObject_set_template_def)
  let ?ob = "STObject (Some (fm_elements fm)) v" and ?x = "word_of_int (ledgerEntryType_code (kl_type k)) :: 16 word"
  have typed: "obj_typed ?ob" using STObject_set_template_keeps [OF _ ob] ledger_format_ok [OF fm] by (simp add: format_ok_def)
  have acc: "accepts sfLedgerEntryType ?ob" using type_in_template [OF fm] by (simp add: accepts_def getFieldIndex_def)
  obtain ob' where ob': "setFieldU16 ?x sfLedgerEntryType ?ob = Inr ob'" "ob' = field_put sfLedgerEntryType (STUInt16 ?x) ?ob"
    using u16.set_put [OF typed entry_type_field] acc by auto
  have get: "obj_typed ob'" "getFieldU16 sfLedgerEntryType ob' = Inr ?x"
    using u16.set_get [OF typed entry_type_field _ ob'(1)] by simp_all
  have "obj_type ob' = Some (fm_elements fm)" using type_in_template [OF fm]
    by (simp add: ob'(2) field_put_def getFieldIndex_def obj_put_def)
  then show ?thesis using fm ob ob'(1) get ty by (simp add: STLedgerEntry_keylet_def sle_typed_def getVersion_def)
qed

section \<open>The bytes of an entry\<close>

text \<open>An entry that the format accepts: it has the template of its type and fields with a binary form.\<close>

definition sle_ok :: "STLedgerEntry \<Rightarrow> bool" where
  "sle_ok s = (\<exists>fm. findByType ledgerFormats (Some (sle_type s)) = Some fm \<and> obj_type (sle_body s) = Some (fm_elements fm) \<and>
     fits_template (fm_elements fm) (obj_v (sle_body s)) \<and> fields_ok (obj_v (sle_body s)) \<and>
     getVersion s = Inr (word_of_int (ledgerEntryType_code (sle_type s))))"

text \<open>A field that is present is found in the object read from the bytes.\<close>

lemma canon_peek:
  assumes d: "distinct (map (fieldCode \<circ> fst) (obj_v ob))" and t: "case obj_type ob of None \<Rightarrow> True | Some t \<Rightarrow> map fst (obj_v ob) = map fst t"
    and p: "peekAtPField f ob = Inr (Some x)" "getSType x \<noteq> STI_NOTPRESENT"
  shows "peekAtPField f (STObject None (canon (obj_v ob))) = Inr (Some x)"
proof -
  obtain e where e: "entry (fieldCode f) (obj_v ob) = Some e" "x = snd e" using p(1) peek_entry [OF t, of f] by auto
  then have m: "e \<in> set (obj_v ob)" "fieldCode (fst e) = fieldCode f" using find_mem by (fastforce simp: entry_def)+
  then have "entry (fieldCode f) (canon (obj_v ob)) = Some e" using canon_entry [OF d m(1)] p(2) e(2) by (simp add: present_def)
  then show ?thesis using peek_entry [of "STObject None (canon (obj_v ob))" f] e(2) by simp
qed

lemma version_peek:
  assumes "getFieldU16 f ob = Inr x" "x \<noteq> 0"
  shows "peekAtPField f ob = Inr (Some (STUInt16 x))"
proof (cases "peekAtPField f ob")
  case (Inr rf)
  with assms obtain v where v: "rf = Some v" by (cases rf) (simp_all add: getFieldU16_def getFieldBy_def)
  show ?thesis using assms by (cases v) (simp_all add: getFieldU16_def getFieldBy_def Inr v)
qed (use assms in \<open>simp add: getFieldU16_def getFieldBy_def\<close>)

lemma peek_version: "peekAtPField f ob = Inr (Some (STUInt16 x)) \<Longrightarrow> getFieldU16 f ob = Inr x"
  by (simp add: getFieldU16_def getFieldBy_def)

lemma sle_roundtrip:
  assumes "sle_ok s"
  shows "getSerializer (sle_body s) = Inr (object_bytes (sle_body s))"
    "STLedgerEntry_read (object_bytes (sle_body s)) (sle_key s) = Inr s"
proof -
  let ?ob = "sle_body s" and ?x = "word_of_int (ledgerEntryType_code (sle_type s)) :: 16 word"
  obtain fm where fm: "findByType ledgerFormats (Some (sle_type s)) = Some fm" "obj_type ?ob = Some (fm_elements fm)"
    "fits_template (fm_elements fm) (obj_v ?ob)" "fields_ok (obj_v ?ob)" "getVersion s = Inr ?x"
    using assms by (auto simp: sle_ok_def)
  show "getSerializer ?ob = Inr (object_bytes ?ob)" using fm(4) by (rule getSerializer_bytes)
  have ty: "fm_type fm = sle_type s" using findByType_Some [OF fm(1)] by simp
  have map: "map fst (obj_v ?ob) = map fst (fm_elements fm)" using fm(3) by (simp add: fits_template_def)
  then have d: "distinct (map (fieldCode \<circ> fst) (obj_v ?ob))" using ledger_format_ok [OF fm(1)] by (metis format_ok_def map_map)
  have x: "ledgerEntryType_of ?x = Some (sle_type s)" "?x \<noteq> 0" using type_of_code findByType_ledger fm(1) by blast+
  have "peekAtPField sfLedgerEntryType ?ob = Inr (Some (STUInt16 ?x))" using fm(5) x(2) version_peek by (simp add: getVersion_def)
  then have "peekAtPField sfLedgerEntryType (STObject None (canon (obj_v ?ob))) = Inr (Some (STUInt16 ?x))"
    using map fm(2) by (intro canon_peek [OF d]) simp_all
  then have get: "getFieldU16 sfLedgerEntryType (STObject None (canon (obj_v ?ob))) = Inr ?x" by (rule peek_version)
  have body: "STObject (Some (fm_elements fm)) (obj_v ?ob) = ?ob" using fm(2) by (cases ?ob) simp
  have "setSLEType (sle_key s) (STObject None (canon (obj_v ?ob))) = Inr s"
    using get x(1) fm(1) setType_template [OF d fm(3)] ty body by (simp add: setSLEType_def)
  moreover have "STObject_read (SerialIter_of (object_bytes ?ob)) =
      Inr (STObject None (canon (obj_v ?ob)), si_advance (length (object_bytes ?ob)) (SerialIter_of (object_bytes ?ob)))"
    by (rule STObject_read_bytes [OF fm(4) d]) simp_all
  ultimately show "STLedgerEntry_read (object_bytes ?ob) (sle_key s) = Inr s"
    by (simp add: STLedgerEntry_read_def STLedgerEntry_iter_def)
qed

section \<open>Threading\<close>

lemma thread_fields:
  "registered sfPreviousTxnID" "fieldType sfPreviousTxnID = STI_HASH256"
  "registered sfPreviousTxnLgrSeq" "fieldType sfPreviousTxnLgrSeq = STI_UINT32" "fieldCode sfPreviousTxnID \<noteq> fieldCode sfPreviousTxnLgrSeq"
  "fieldCode sfLedgerEntryType \<noteq> fieldCode sfPreviousTxnLgrSeq" "fieldCode sfLedgerEntryType \<noteq> fieldCode sfPreviousTxnID"
  by (auto intro!: known_registered simp: knownFields_def)
    (simp_all add: sfPreviousTxnID_def sfPreviousTxnLgrSeq_def sfLedgerEntryType_def SField_named_def field_code_def)

text \<open>A format has both fields of the thread or neither.\<close>

lemma thread_formats: "\<forall>fm \<in> set ledgerFormats.
    (SOTemplate_getIndex sfPreviousTxnID (fm_elements fm) = None) = (SOTemplate_getIndex sfPreviousTxnLgrSeq (fm_elements fm) = None)"
  by code_simp

text \<open>Setting a field keeps the template.\<close>

lemma field_put_type: "getFieldIndex f ob \<noteq> None \<Longrightarrow> obj_type (field_put f v ob) = obj_type ob"
  by (auto simp: field_put_def obj_put_def)

lemma getFieldU16_cong: "peekAtPField f ob = peekAtPField f ob' \<Longrightarrow> getFieldU16 f ob = getFieldU16 f ob'"
  by (simp add: getFieldU16_def getFieldBy_def)

lemma getFieldH256_cong: "peekAtPField f ob = peekAtPField f ob' \<Longrightarrow> getFieldH256 f ob = getFieldH256 f ob'"
  by (simp add: getFieldH256_def getFieldBy_def)

lemma thread_indices:
  assumes "sle_typed s" "isThreadedType s"
  shows "getFieldIndex sfPreviousTxnID (sle_body s) \<noteq> None" "getFieldIndex sfPreviousTxnLgrSeq (sle_body s) \<noteq> None"
proof -
  show "getFieldIndex sfPreviousTxnID (sle_body s) \<noteq> None" using assms(2) by (simp add: isThreadedType_def)
  obtain fm where fm: "findByType ledgerFormats (Some (sle_type s)) = Some fm" "obj_type (sle_body s) = Some (fm_elements fm)"
    using assms(1) by (auto simp: sle_typed_def)
  then have "fm \<in> set ledgerFormats" using findByType_Some by blast
  then show "getFieldIndex sfPreviousTxnLgrSeq (sle_body s) \<noteq> None"
    using thread_formats assms(2) fm(2) by (simp add: isThreadedType_def getFieldIndex_def)
qed

lemma thread_step:
  assumes s: "sle_typed s" "isThreadedType s" and old: "getThreadedTransaction s = Inr old" "getThreadedLedger s = Inr seq" "old \<noteq> txID"
  shows "\<exists>s'. sle_thread txID ledgerSeq s = Inr (Some (old, seq), s') \<and> sle_typed s' \<and> isThreadedType s' \<and>
    sle_key s' = sle_key s \<and> sle_type s' = sle_type s \<and>
    getThreadedTransaction s' = Inr txID \<and> getThreadedLedger s' = Inr ledgerSeq \<and>
    (\<forall>g. fieldCode g \<noteq> fieldCode sfPreviousTxnID \<longrightarrow> fieldCode g \<noteq> fieldCode sfPreviousTxnLgrSeq \<longrightarrow>
      peekAtPField g (sle_body s') = peekAtPField g (sle_body s))"
proof -
  let ?ob = "sle_body s"
  note ix = thread_indices [OF s] and tf = thread_fields
  obtain fm where fm: "findByType ledgerFormats (Some (sle_type s)) = Some fm" "obj_type ?ob = Some (fm_elements fm)" and typed: "obj_typed ?ob"
    and ver: "getVersion s = Inr (word_of_int (ledgerEntryType_code (sle_type s)))"
    using s(1) by (auto simp: sle_typed_def)
  define ob1 where "ob1 = field_put sfPreviousTxnID (STHash256 txID) ?ob"
  have set1: "setFieldH256 txID sfPreviousTxnID ?ob = Inr ob1" using h256.set_put [OF typed tf(1,2)] ix(1) by (simp add: accepts_def ob1_def)
  note g1 = h256.set_get [OF typed tf(1,2) TrueI set1]
  have t1: "obj_type ob1 = obj_type ?ob" unfolding ob1_def by (rule field_put_type [OF ix(1)])
  have ix1: "getFieldIndex g ob1 = getFieldIndex g ?ob" for g using fm(2) t1 by (simp add: getFieldIndex_def)
  define ob2 where "ob2 = field_put sfPreviousTxnLgrSeq (STUInt32 ledgerSeq) ob1"
  have typed1: "obj_typed ob1" using g1 by simp
  have set2: "setFieldU32 ledgerSeq sfPreviousTxnLgrSeq ob1 = Inr ob2"
    using u32.set_put [OF typed1 tf(3,4)] ix(2) by (simp add: accepts_def ob2_def ix1)
  note g2 = u32.set_get [OF typed1 tf(3,4) TrueI set2]
  have t2: "obj_type ob2 = obj_type ?ob" unfolding ob2_def using field_put_type ix(2) t1 by (simp add: ix1)
  have "getFieldH256 sfPreviousTxnID ob2 = Inr txID" using g1 g2 tf(5) getFieldH256_cong [of sfPreviousTxnID ob2 ob1] by simp
  moreover have "getFieldU16 sfLedgerEntryType ob2 = getFieldU16 sfLedgerEntryType ?ob" using g1 g2 tf(6,7) by (intro getFieldU16_cong) simp
  moreover have "getFieldIndex sfPreviousTxnID ob2 \<noteq> None" using ix(1) fm(2) t2 by (simp add: getFieldIndex_def)
  moreover have "sle_thread txID ledgerSeq s = Inr (Some (old, seq), s\<lparr>sle_body := ob2\<rparr>)"
    using old set1 set2 by (simp add: sle_thread_def getThreadedTransaction_def getThreadedLedger_def)
  ultimately show ?thesis using fm t2 g1 g2 ver
    by (intro exI [of _ "s\<lparr>sle_body := ob2\<rparr>"])
      (auto simp: sle_typed_def isThreadedType_def getVersion_def getThreadedTransaction_def getThreadedLedger_def)
qed

end
