(* ===== verification/STEntry_Spec.thy ===== *)
theory STEntry_Spec
  imports STFormats_Spec
begin

text \<open>
  Histories of ledger entries: an entry built for a keylet and changed field by field, or read from bytes
  written so, always has the form that is read back from its bytes.
\<close>

section \<open>Fields with a binary form\<close>

lemma ledger_wire: "\<forall>fm \<in> set ledgerFormats. \<forall>e \<in> set (fm_elements fm).
    on_wire (fst e) \<and> snd e \<noteq> SOE_DEFAULT \<and> fieldType (fst e) \<noteq> STI_OBJECT \<and> fieldType (fst e) \<noteq> STI_PATHSET"
  by code_simp

definition entry_template :: "SOTemplate \<Rightarrow> bool" where
  "entry_template t = (\<forall>e \<in> set t. wire_field (fst e) \<and> snd e \<noteq> SOE_DEFAULT \<and> fieldType (fst e) \<noteq> STI_OBJECT \<and> fieldType (fst e) \<noteq> STI_PATHSET)"

lemma ledger_entry_template:
  assumes "findByType ledgerFormats type = Some fm"
  shows "entry_template (fm_elements fm)"
proof -
  have mem: "fm \<in> set ledgerFormats" using findByType_Some [OF assms] by simp
  show ?thesis unfolding entry_template_def using ledger_wire ledgerFormats_known known_wire mem by blast
qed

lemma default_ok: "wire_field f \<Longrightarrow> fieldType f \<noteq> STI_OBJECT \<Longrightarrow> fieldType f \<noteq> STI_PATHSET \<Longrightarrow> defaultObject f = Inr d \<Longrightarrow> st_ok f d"
  by (auto simp: defaultObject_def Let_def wire_field_def am_wire_def STAmount_named_drops_def STAmount_unchecked_def am_canonical_def isXRP_amount_def isXRP_currency_def xrpIssue_def split: if_splits)

lemma template_loop_ok:
  assumes "entry_template t" "set_template_loop t = Inr v"
  shows "fits_template t v \<and> fields_ok v"
  using assms
proof (induction t arbitrary: v)
  case (Cons e t)
  obtain f fl where e: "e = (f, fl)" by fastforce
  obtain x w where x: "(if fl \<noteq> SOE_REQUIRED then Inr STNotPresent else defaultObject f) = Inr x" "set_template_loop t = Inr w" "v = (f, x) # w"
    using Cons.prems(2) by (auto simp: e result_simps)
  have ok: "x = STNotPresent \<and> fl \<noteq> SOE_REQUIRED \<or> st_ok f x"
    using x(1) default_ok [of f x] Cons.prems(1) by (auto simp: entry_template_def e split: if_splits)
  have "entry_template t" "fl \<noteq> SOE_DEFAULT" using Cons.prems(1) by (simp_all add: entry_template_def e)
  with Cons.IH [OF _ x(2)] ok st_ok_wire [of f x] show ?case by (auto simp: e x(3) fits_template_def)
qed (simp add: fits_template_def)

text \<open>Putting a value with a binary form.\<close>

lemma fields_ok_iff: "fields_ok v \<longleftrightarrow> (\<forall>e \<in> set v. getSType (snd e) = STI_NOTPRESENT \<or> st_ok (fst e) (snd e))"
  by (induction v) auto

lemma fields_ok_put: "fields_ok v \<Longrightarrow> st_ok (fst (v ! i)) x \<Longrightarrow> fields_ok (v[i := (fst (v ! i), x)])"
  unfolding fields_ok_iff by (auto dest!: set_update_subset_insert [THEN subsetD])

lemma fits_template_put:
  assumes "entry_template t" "fits_template t v" "i < length v" "getSType x \<noteq> STI_NOTPRESENT"
  shows "fits_template t (v[i := (fst (v ! i), x)])"
proof -
  have m: "map fst (v[i := (fst (v ! i), x)]) = map fst t" using assms(2,3)
    by (metis fits_template_def fst_conv list_update_id map_update nth_map)
  have len: "length t = length v" using assms(2) by (metis fits_template_def length_map)
  have "flags \<noteq> SOE_DEFAULT \<and> (flags = SOE_REQUIRED \<longrightarrow> getSType y \<noteq> STI_NOTPRESENT)"
    if p: "(flags, y) \<in> set (zip (map snd t) (map snd (v[i := (fst (v ! i), x)])))" for flags y
  proof -
    obtain j where j: "j < length v" "flags = snd (t ! j)" "y = snd (v[i := (fst (v ! i), x)] ! j)"
      using p len by (auto simp: in_set_zip)
    have "snd (t ! j) \<noteq> SOE_DEFAULT" using assms(1) j(1) len by (simp add: entry_template_def)
    moreover have "snd (t ! j) = SOE_REQUIRED \<longrightarrow> getSType (snd (v ! j)) \<noteq> STI_NOTPRESENT"
    proof -
      have "(snd (t ! j), snd (v ! j)) \<in> set (zip (map snd t) (map snd v))" using j(1) len by (auto simp: in_set_zip intro!: exI [of _ j])
      then show ?thesis using assms(2) unfolding fits_template_def by blast
    qed
    ultimately show ?thesis using j assms(4) by (cases "j = i") simp_all
  qed
  with m show ?thesis by (auto simp: fits_template_def)
qed

section \<open>Histories\<close>

lemma entry_typed: "sle_ok s \<Longrightarrow> case obj_type (sle_body s) of None \<Rightarrow> True | Some t \<Rightarrow> map fst (obj_v (sle_body s)) = map fst t"
  by (auto simp: sle_ok_def fits_template_def)

lemma sle_ok_put:
  assumes "sle_ok s" "obj_typed (sle_body s)" "registered f" "getFieldIndex f (sle_body s) = Some i" "st_ok f x" "st_typed f x"
    "fieldCode f \<noteq> fieldCode sfLedgerEntryType"
  shows "sle_ok (s\<lparr>sle_body := field_put f x (sle_body s)\<rparr>)"
proof -
  let ?ob = "sle_body s"
  obtain fm where fm: "findByType ledgerFormats (Some (sle_type s)) = Some fm" "obj_type ?ob = Some (fm_elements fm)"
    "fits_template (fm_elements fm) (obj_v ?ob)" "fields_ok (obj_v ?ob)" "getVersion s = Inr (word_of_int (ledgerEntryType_code (sle_type s)))"
    using assms(1) by (auto simp: sle_ok_def)
  have i: "i < length (obj_v ?ob)" "fst (obj_v ?ob ! i) = f" using getFieldIndex_Some [OF assms(2-4)] by simp_all
  have put: "field_put f x ?ob = STObject (Some (fm_elements fm)) ((obj_v ?ob)[i := (f, x)])" using assms(4) i(2) fm(2) by (simp add: field_put_def obj_put_def)
  have x: "getSType x \<noteq> STI_NOTPRESENT" using st_ok_wire [OF assms(5)] by simp
  have "peekAtPField sfLedgerEntryType (field_put f x ?ob) = peekAtPField sfLedgerEntryType ?ob"
    using peek_put [OF assms(2,3,6), of sfLedgerEntryType] assms(4,7) by (simp add: accepts_def)
  then have "getFieldU16 sfLedgerEntryType (field_put f x ?ob) = getFieldU16 sfLedgerEntryType ?ob" by (rule getFieldU16_cong)
  then show ?thesis
    using fm fits_template_put [OF ledger_entry_template [OF fm(1)] fm(3) i(1) x] fields_ok_put [OF fm(4), of i x] assms(5) i(2)
    by (auto simp: sle_ok_def getVersion_def put)
qed

text \<open>The entries that clients make: for a keylet, read from bytes of one, and with a field set.\<close>

inductive entry_made :: "STLedgerEntry \<Rightarrow> bool" where
  e_keylet: "STLedgerEntry_keylet k = Inr s \<Longrightarrow> entry_made s"
| e_read: "entry_made s \<Longrightarrow> getSerializer (sle_body s) = Inr bs \<Longrightarrow> STLedgerEntry_read bs (sle_key s) = Inr s' \<Longrightarrow> entry_made s'"
| e_set: "entry_made s \<Longrightarrow> sets f (sle_body s) ob \<Longrightarrow> registered f \<Longrightarrow> fieldCode f \<noteq> fieldCode sfLedgerEntryType \<Longrightarrow>
    (\<And>v. peekAtPField f ob = Inr (Some v) \<Longrightarrow> st_ok f v) \<Longrightarrow> entry_made (s\<lparr>sle_body := ob\<rparr>)"
| e_thread: "entry_made s \<Longrightarrow> sle_thread txID ledgerSeq s = Inr (p, s') \<Longrightarrow> entry_made s'"

text \<open>A successful call on an object with a template puts a value into the position of the field.\<close>

lemma setFieldBy_at:
  assumes "obj_typed ob" "registered f" "obj_type ob = Some t" "setFieldBy upd f ob = Inr ob'"
  shows "\<exists>i v. getFieldIndex f ob = Some i \<and> ob' = obj_put i v ob"
proof (cases "getFieldIndex f ob")
  case None
  then show ?thesis using assms(3,4) by (simp add: setFieldBy_def getPField_create_def isFree_def)
next
  case (Some i)
  note at = getFieldIndex_Some [OF assms(1,2) Some]
  have c: "getPField_create f ob = Inr (Some i, ob)" using Some by (simp add: getPField_create_def)
  show ?thesis
  proof (cases "getSType (snd (obj_v ob ! i)) = STI_NOTPRESENT")
    case True
    then obtain d where d: "makeFieldPresent f ob = Inr (i, obj_put i d ob)" "defaultObject f = Inr d"
      using assms(4) c at Some by (auto simp: setFieldBy_def makeFieldPresent_def result_simps)
    have "obj_at i (obj_put i d ob) = Inr (f, d)" using at(1,2) by (simp add: obj_at_def obj_put_nth)
    with True d at c assms(4) Some show ?thesis by (auto simp: setFieldBy_def split: option.splits)
  next
    case False
    with at c assms(4) Some show ?thesis by (auto simp: setFieldBy_def split: option.splits)
  qed
qed

lemma sets_at:
  assumes "sets f ob ob'" "obj_typed ob" "registered f" "obj_type ob = Some t"
  shows "\<exists>i v. getFieldIndex f ob = Some i \<and> ob' = obj_put i v ob"
  using assms(1)
proof cases
  case (s_set x)
  then obtain i where i: "getFieldIndex f ob = Some i" using assms(4) by (auto simp: STObject_set_value_def isFree_def split: option.splits)
  then have "ob' = field_put f x ob" using set_value_keeps [OF assms(2,3) s_set] by simp
  with i show ?thesis by (auto simp: field_put_def)
qed (unfold setter_defs, auto dest!: setFieldBy_at [OF assms(2-4)])

lemma sle_ok_set:
  assumes "sle_ok s" "obj_typed (sle_body s)" "sets f (sle_body s) ob" "registered f" "fieldCode f \<noteq> fieldCode sfLedgerEntryType"
    and v: "\<And>v. peekAtPField f ob = Inr (Some v) \<Longrightarrow> st_ok f v"
  shows "sle_ok (s\<lparr>sle_body := ob\<rparr>)"
proof -
  obtain t where t: "obj_type (sle_body s) = Some t" using assms(1) by (auto simp: sle_ok_def)
  obtain i x where i: "getFieldIndex f (sle_body s) = Some i" "ob = obj_put i x (sle_body s)" using sets_at [OF assms(3,2,4) t] by blast
  have put: "ob = field_put f x (sle_body s)" using i by (simp add: field_put_def)
  note at = getFieldIndex_Some [OF assms(2,4) i(1)]
  have "obj_typed ob" by (rule sets_keeps [OF assms(3,2,4)])
  moreover have "(f, x) \<in> set (obj_v ob)" using at(1,2) unfolding i(2) by (auto simp: obj_put_def intro: set_update_memI)
  ultimately have x: "st_typed f x" by (auto simp: obj_typed_iff)
  have "peekAtPField f ob = Inr (Some x)" using peek_put [OF assms(2,4) x, of f] i(1) by (simp add: put accepts_def)
  then have "st_ok f x" by (rule v)
  then show ?thesis unfolding put by (intro sle_ok_put [OF assms(1,2,4) i(1) _ x assms(5)])
qed

lemma keylet_ok:
  assumes "STLedgerEntry_keylet k = Inr s"
  shows "sle_ok s \<and> sle_typed s"
proof -
  obtain fm where fm: "findByType ledgerFormats (Some (kl_type k)) = Some fm" using assms by (auto simp: STLedgerEntry_keylet_def split: option.splits)
  then have ty: "sle_typed s" "sle_type s = kl_type k" using keylet_typed [of k] findByType_ledger assms by auto
  let ?x = "word_of_int (ledgerEntryType_code (fm_type fm)) :: 16 word"
  obtain v where v: "set_template_loop (fm_elements fm) = Inr v" "setFieldU16 ?x sfLedgerEntryType (STObject (Some (fm_elements fm)) v) = Inr (sle_body s)"
    using assms fm by (auto simp: STLedgerEntry_keylet_def STObject_set_template_def result_simps)
  let ?ob = "STObject (Some (fm_elements fm)) v"
  have "STObject_set_template (fm_elements fm) = Inr ?ob" using v(1) by (simp add: STObject_set_template_def)
  then have typed: "obj_typed ?ob" using STObject_set_template_keeps ledger_format_ok [OF fm] unfolding format_ok_def by blast
  have i: "getFieldIndex sfLedgerEntryType ?ob = Some 1" using type_in_template [OF fm] by (simp add: getFieldIndex_def)
  note at = getFieldIndex_Some [OF typed entry_type_field(1) i]
  have "sle_body s = field_put sfLedgerEntryType (STUInt16 ?x) ?ob"
    using u16.set_put [OF typed entry_type_field, of ?x] v(2) i by (simp add: accepts_def)
  then have body: "sle_body s = STObject (Some (fm_elements fm)) (v[1 := (fst (v ! 1), STUInt16 ?x)])" using i by (simp add: field_put_def obj_put_def)
  have w: "wire_field sfLedgerEntryType" by (rule known_wire) (simp_all add: knownFields_def on_wire_def sfLedgerEntryType_def SField_named_def)
  have ok: "fits_template (fm_elements fm) v" "fields_ok v" using template_loop_ok [OF ledger_entry_template [OF fm] v(1)] by simp_all
  have "fits_template (fm_elements fm) (obj_v (sle_body s))"
    using fits_template_put [OF ledger_entry_template [OF fm] ok(1), of 1 "STUInt16 ?x"] at(1) by (simp add: body)
  moreover have "fields_ok (obj_v (sle_body s))"
    using fields_ok_put [OF ok(2), of 1 "STUInt16 ?x"] at(2) w entry_type_field(2) by (simp add: body)
  ultimately show ?thesis using ty fm by (auto simp: sle_ok_def sle_typed_def body)
qed

lemma thread_sets:
  assumes "sle_thread txID ledgerSeq s = Inr (p, s')"
  shows "s' = s \<or> (\<exists>ob1 ob2. setFieldH256 txID sfPreviousTxnID (sle_body s) = Inr ob1 \<and>
    setFieldU32 ledgerSeq sfPreviousTxnLgrSeq ob1 = Inr ob2 \<and> s' = s\<lparr>sle_body := ob2\<rparr>)"
  using assms by (auto simp: sle_thread_def result_simps split: if_splits)

lemma thread_wire: "wire_field sfPreviousTxnID" "wire_field sfPreviousTxnLgrSeq"
  by (rule known_wire; simp add: knownFields_def on_wire_def sfPreviousTxnID_def sfPreviousTxnLgrSeq_def SField_named_def)+

text \<open>Keeping the template and the type of an entry.\<close>

lemma sle_typed_set:
  assumes "sle_typed s" "sets f (sle_body s) ob" "registered f" "fieldCode f \<noteq> fieldCode sfLedgerEntryType"
  shows "sle_typed (s\<lparr>sle_body := ob\<rparr>)"
proof -
  obtain fm where fm: "findByType ledgerFormats (Some (sle_type s)) = Some fm" "obj_type (sle_body s) = Some (fm_elements fm)"
    and typed: "obj_typed (sle_body s)" and ver: "getVersion s = Inr (word_of_int (ledgerEntryType_code (sle_type s)))"
    using assms(1) by (auto simp: sle_typed_def)
  obtain i x where i: "getFieldIndex f (sle_body s) = Some i" "ob = obj_put i x (sle_body s)" using sets_at [OF assms(2) typed assms(3) fm(2)] by blast
  note at = getFieldIndex_Some [OF typed assms(3) i(1)]
  have ob: "obj_typed ob" by (rule sets_keeps [OF assms(2) typed assms(3)])
  moreover have "(f, x) \<in> set (obj_v ob)" using at(1,2) unfolding i(2) by (auto simp: obj_put_def intro: set_update_memI)
  ultimately have x: "st_typed f x" by (auto simp: obj_typed_iff)
  have "peekAtPField sfLedgerEntryType ob = peekAtPField sfLedgerEntryType (sle_body s)"
    using peek_put [OF typed assms(3) x, of sfLedgerEntryType] assms(4) i by (simp add: accepts_def field_put_def)
  then have "getFieldU16 sfLedgerEntryType ob = getFieldU16 sfLedgerEntryType (sle_body s)" by (rule getFieldU16_cong)
  then show ?thesis using fm ob ver i(2) by (auto simp: sle_typed_def getVersion_def)
qed


lemma thread_values:
  assumes "obj_typed ob"
  shows "setFieldH256 x sfPreviousTxnID ob = Inr ob' \<Longrightarrow> peekAtPField sfPreviousTxnID ob' = Inr (Some v) \<Longrightarrow> st_ok sfPreviousTxnID v"
    "setFieldU32 y sfPreviousTxnLgrSeq ob = Inr ob' \<Longrightarrow> peekAtPField sfPreviousTxnLgrSeq ob' = Inr (Some v) \<Longrightarrow> st_ok sfPreviousTxnLgrSeq v"
  using h256.set_put [OF assms thread_fields(1,2), of x] u32.set_put [OF assms thread_fields(3,4), of y]
    peek_put [OF assms thread_fields(1), of "STHash256 x" sfPreviousTxnID] peek_put [OF assms thread_fields(3), of "STUInt32 y" sfPreviousTxnLgrSeq]
    thread_fields(2,4) thread_wire by (auto split: if_splits)

lemma thread_ok:
  assumes "sle_ok s" "sle_typed s" "sle_thread txID ledgerSeq s = Inr (p, s')"
  shows "sle_ok s' \<and> sle_typed s'"
proof (cases "s' = s")
  case False
  then obtain ob1 ob2 where t: "setFieldH256 txID sfPreviousTxnID (sle_body s) = Inr ob1"
    "setFieldU32 ledgerSeq sfPreviousTxnLgrSeq ob1 = Inr ob2" "s' = s\<lparr>sle_body := ob2\<rparr>" using thread_sets [OF assms(3)] by blast
  let ?s1 = "s\<lparr>sle_body := ob1\<rparr>"
  note tf = thread_fields
  have typed: "obj_typed (sle_body s)" using assms(2) by (auto simp: sle_typed_def)
  have s1: "sets sfPreviousTxnID (sle_body s) ob1" using t(1) by (rule s_setFieldH256)
  have ok1: "sle_ok ?s1" "sle_typed ?s1"
    using sle_ok_set [OF assms(1) typed s1 tf(1)] sle_typed_set [OF assms(2) s1 tf(1)] thread_values(1) [OF typed t(1)] tf(7) by auto
  then have typed1: "obj_typed (sle_body ?s1)" by (auto simp: sle_typed_def)
  have s2: "sets sfPreviousTxnLgrSeq (sle_body ?s1) ob2" using t(2) by (simp add: s_setFieldU32)
  show ?thesis using sle_ok_set [OF ok1(1) typed1 s2 tf(3)] sle_typed_set [OF ok1(2) s2 tf(3)] thread_values(2) [OF typed1, of ledgerSeq ob2] t(2,3) tf(6)
    by auto
qed (use assms in simp)

lemma entry_made_ok: "entry_made s \<Longrightarrow> sle_ok s \<and> sle_typed s"
proof (induction rule: entry_made.induct)
  case (e_read s bs s')
  then show ?case using sle_roundtrip [of s] by simp
next
  case (e_set s f ob)
  then have "obj_typed (sle_body s)" by (auto simp: sle_typed_def)
  with e_set show ?case using sle_ok_set sle_typed_set by blast
qed (use keylet_ok thread_ok in blast)+

end
