(* ===== verification/ECDSACanonical_Spec.thy ===== *)
theory ECDSACanonical_Spec
  imports ECDSACanonical
begin

text \<open>
  The DER form of a signature as a reference: minimal big endian bytes of a number, and a signature as a pair
  of numbers. The reader of signatures accepts exactly these forms, so a pair of numbers has one signature.
\<close>

unbundle bit_operations_syntax

section \<open>Numbers and their bytes\<close>

definition be_int :: "Blob \<Rightarrow> int" where
  "be_int bs = foldl (\<lambda>n b. 256 * n + uint b) 0 bs"

function min_bytes :: "int \<Rightarrow> Blob" where
  "min_bytes n = (if n \<le> 0 then [] else min_bytes (n div 256) @ [word_of_int n])"
  by auto
termination by (relation "measure nat") auto

declare min_bytes.simps [simp del]

lemma be_int_snoc [simp]: "be_int [] = 0" "be_int (bs @ [b]) = 256 * be_int bs + uint b"
  by (simp_all add: be_int_def)

lemma byte_bounds: "0 \<le> uint (b :: byte)" "uint b < 256"
  using uint_bounded [of b] by simp_all

lemma be_int_nonneg: "0 \<le> be_int bs"
  by (induction bs rule: rev_induct) (simp_all add: byte_bounds)

lemma be_int_bound: "be_int bs < 256 ^ length bs"
proof (induction bs rule: rev_induct)
  case (snoc b bs)
  have "256 * be_int bs + uint b < 256 * (be_int bs + 1)" using byte_bounds [of b] by simp
  also have "\<dots> \<le> 256 * 256 ^ length bs" using snoc by (intro mult_left_mono) simp_all
  finally show ?case by simp
qed simp

lemma be_int_Cons: "be_int (b # bs) = uint b * 256 ^ length bs + be_int bs"
  by (induction bs rule: rev_induct) (simp_all add: be_int_def algebra_simps)

lemma be_int_single [simp]: "be_int [b] = uint b"
  by (simp add: be_int_def)

lemma min_bytes_0 [simp]: "n \<le> 0 \<Longrightarrow> min_bytes n = []"
  by (simp add: min_bytes.simps)

lemma be_int_min_bytes: "0 \<le> n \<Longrightarrow> be_int (min_bytes n) = n"
proof (induction n rule: min_bytes.induct)
  case (1 n)
  show ?case
  proof (cases "n \<le> 0")
    case False
    have "uint (word_of_int n :: byte) = n mod 256" by (simp add: uint_word_of_int)
    with False 1 show ?thesis by (simp add: min_bytes.simps [of n])
  qed (use 1 in simp)
qed

lemma min_bytes_hd: "0 < n \<Longrightarrow> min_bytes n \<noteq> [] \<and> hd (min_bytes n) \<noteq> 0"
proof (induction n rule: min_bytes.induct)
  case (1 n)
  show ?case
  proof (cases "n div 256 = 0")
    case True
    then have "0 < n" "n < 256" using 1(2) by (simp_all add: div_eq_0_iff)
    then have "uint (word_of_int n :: byte) \<noteq> 0" by (simp add: uint_word_of_int)
    then have "word_of_int n \<noteq> (0 :: byte)" by (metis unsigned_0)
    with True 1(2) show ?thesis by (simp add: min_bytes.simps [of n])
  next
    case False
    then have "0 < n div 256" using 1(2) by (metis less_le pos_imp_zdiv_nonneg_iff zero_less_numeral)
    with 1 show ?thesis by (simp add: min_bytes.simps [of n])
  qed
qed

text \<open>A list of bytes without leading zeros is the minimal form of its number.\<close>

lemma min_bytes_be_int: "bs = [] \<or> hd bs \<noteq> 0 \<Longrightarrow> min_bytes (be_int bs) = bs"
proof (induction bs rule: rev_induct)
  case (snoc b bs)
  have d: "be_int (bs @ [b]) div 256 = be_int bs" using byte_bounds [of b] by simp
  have "uint (word_of_int (be_int (bs @ [b])) :: byte) = uint b" using byte_bounds [of b] by (simp only: uint_word_of_int) simp
  then have w: "word_of_int (be_int (bs @ [b])) = b" by (simp add: word_uint_eq_iff)
  have p: "0 < be_int (bs @ [b])"
  proof (cases "bs = []")
    case True
    then show ?thesis using snoc(2) byte_bounds(1) [of b] by (auto simp: less_le word_uint_eq_iff)
  next
    case False
    then have "min_bytes (be_int bs) \<noteq> []" using snoc by simp
    then have "0 < be_int bs" using be_int_nonneg [of bs] by (metis less_le min_bytes_0 order_refl)
    then show ?thesis unfolding be_int_snoc using byte_bounds(1) [of b] by linarith
  qed
  have "min_bytes (be_int bs) = bs" using snoc by (cases bs) auto
  with d w p show ?case by (simp add: min_bytes.simps [of "be_int (bs @ [b])"] del: be_int_snoc)
qed simp


lemma min_bytes_inj: "0 \<le> m \<Longrightarrow> 0 \<le> n \<Longrightarrow> min_bytes m = min_bytes n \<longleftrightarrow> m = n"
  by (metis be_int_min_bytes)

lemma length_min_bytes: "0 \<le> n \<Longrightarrow> length (min_bytes n) \<le> k \<longleftrightarrow> n < 256 ^ k"
proof (induction k arbitrary: n)
  case 0
  then show ?case using min_bytes_hd [of n] by (cases "n = 0") auto
next
  case (Suc k)
  show ?case
  proof (cases "n = 0")
    case False
    then have "length (min_bytes n) = Suc (length (min_bytes (n div 256)))" using Suc.prems by (simp add: min_bytes.simps [of n])
    moreover have "n div 256 < 256 ^ k \<longleftrightarrow> n < 256 ^ Suc k" by (auto simp: div_less_iff_less_mult mult.commute)
    ultimately show ?thesis using Suc by simp
  qed simp
qed

section \<open>The DER form\<close>

text \<open>A number whose first bit is set gets a zero byte before it, as it would read as negative.\<close>

definition der_body :: "int \<Rightarrow> Blob" where
  "der_body n = (if hd (min_bytes n) AND 0x80 \<noteq> 0 then 0 # min_bytes n else min_bytes n)"

definition der_part :: "int \<Rightarrow> Blob" where
  "der_part n = 0x02 # of_nat (length (der_body n)) # der_body n"

definition der_sig :: "int \<Rightarrow> int \<Rightarrow> Blob" where
  "der_sig r s = 0x30 # of_nat (length (der_part r @ der_part s)) # der_part r @ der_part s"

definition body_ok :: "Blob \<Rightarrow> bool" where
  "body_ok b = (b \<noteq> [] \<and> hd b AND 0x80 = 0 \<and> \<not> (hd b = 0 \<and> length b = 1) \<and> \<not> (hd b = 0 \<and> b ! 1 AND 0x80 = 0))"

lemma der_body_ok: "0 < n \<Longrightarrow> body_ok (der_body n) \<and> be_int (der_body n) = n"
  using min_bytes_hd [of n] be_int_min_bytes [of n]
  by (cases "min_bytes n") (auto simp: der_body_def body_ok_def be_int_Cons)

lemma body_ok_der:
  assumes "body_ok b"
  shows "0 < be_int b \<and> der_body (be_int b) = b"
proof -
  obtain x c where b: "b = x # c" using assms by (cases b) (auto simp: body_ok_def)
  show ?thesis
  proof (cases "x = 0")
    case True
    then obtain y d where c: "c = y # d" "y AND 0x80 \<noteq> 0" using assms b by (cases c) (auto simp: body_ok_def)
    then have "hd c \<noteq> 0" by auto
    then have m: "min_bytes (be_int c) = c" by (intro min_bytes_be_int) simp
    moreover from this have "0 < be_int c" using c(1) be_int_nonneg [of c] by (metis less_le list.discI min_bytes_0 order_refl)
    ultimately show ?thesis using True b c by (simp add: der_body_def be_int_Cons [of 0])
  next
    case False
    then have m: "min_bytes (be_int b) = b" using b by (intro min_bytes_be_int) simp
    moreover from this have "0 < be_int b" using b be_int_nonneg [of b] by (metis less_le list.discI min_bytes_0 order_refl)
    ultimately show ?thesis using assms b by (auto simp: der_body_def body_ok_def)
  qed
qed

section \<open>The libraries\<close>

definition hex_digit :: "char \<Rightarrow> int" where
  "hex_digit c = (let x = of_char c in
     if 48 \<le> x \<and> x \<le> 57 then x - 48 else if 65 \<le> x \<and> x \<le> 70 then x - 55 else if 97 \<le> x \<and> x \<le> 102 then x - 87 else 0)"

definition hex_int :: "string \<Rightarrow> int" where
  "hex_int s = foldl (\<lambda>n c. 16 * n + hex_digit c) 0 s"

text \<open>
  What the manual pages of OpenSSL say of the functions on big numbers, for calls that do not run out of
  memory; \<open>val\<close> is the number that a \<open>BIGNUM\<close> holds.
\<close>

definition bn_ok :: "('n, 'k) Crypto \<Rightarrow> ('n \<Rightarrow> int) \<Rightarrow> bool" where
  "bn_ok cr val \<longleftrightarrow>
     val (bn_new cr) = 0 \<and> (\<forall>h. set h \<subseteq> set ''0123456789ABCDEFabcdef'' \<longrightarrow> val (bn_hex2bn cr h) = hex_int h) \<and>
     (\<forall>bs. \<exists>n. bn_bin2bn cr bs = Some n \<and> val n = be_int bs) \<and>
     (\<forall>n. bn_bn2bin cr n = min_bytes \<bar>val n\<bar>) \<and>
     (\<forall>n. \<exists>m. bn_copy cr n = Some m \<and> val m = val n) \<and>
     (\<forall>a b. \<exists>c. bn_sub cr a b = Some c \<and> val c = val a - val b) \<and>
     (\<forall>a b. bn_cmp cr a b = sgn (val a - val b))"

lemma bn_okD:
  assumes "bn_ok cr val"
  shows "val (bn_new cr) = 0" "set h \<subseteq> set ''0123456789ABCDEFabcdef'' \<Longrightarrow> val (bn_hex2bn cr h) = hex_int h" "\<exists>n. bn_bin2bn cr bs = Some n \<and> val n = be_int bs"
    "bn_bn2bin cr n = min_bytes \<bar>val n\<bar>" "\<exists>m. bn_copy cr n = Some m \<and> val m = val n"
    "\<exists>c. bn_sub cr a b = Some c \<and> val c = val a - val b" "bn_cmp cr a b = sgn (val a - val b)"
  using assms by (simp_all add: bn_ok_def)

text \<open>The order of the group of secp256k1.\<close>

definition group_order :: int where
  "group_order = 0xFFFFFFFFFFFFFFFFFFFFFFFFFFFFFFFEBAAEDCE6AF48A03BBFD25E8CD0364141"

lemma modulus_val: "bn_ok cr val \<Longrightarrow> val (ecdsa_modulus cr) = group_order"
  by (simp add: bn_okD(2) ecdsa_modulus_def group_order_def hex_int_def hex_digit_def)

section \<open>Reading the parts\<close>

lemma unat_len: "n \<le> 255 \<Longrightarrow> unat (of_nat n :: byte) = n"
  by (simp add: unsigned_of_nat take_bit_eq_mod)

lemma part_total: "sig \<noteq> [] \<Longrightarrow> \<exists>p. SignaturePart_of cr sig = Inr p"
  by (auto simp: SignaturePart_of_def sig_at_def Let_def split: option.split)

lemma part_empty: "SignaturePart_of cr [] = Inl LRange"
  by (simp add: SignaturePart_of_def sig_at_def)

text \<open>A part that is valid consists of the marker, the length and a well-formed body.\<close>

lemma part_shape:
  assumes "SignaturePart_of cr sig = Inr p" "sp_valid p"
  shows "\<exists>l body tail. sig = 0x02 # l # body @ tail \<and> unat l = length body \<and> length body \<le> 33 \<and> body_ok body \<and>
    sp_skip p = length body + 2 \<and> bn_bin2bn cr body = Some (sp_bn p)"
proof -
  obtain a l x r where sig: "sig = a # l # x # r"
    using assms by (cases sig; cases "tl sig"; cases "tl (tl sig)")
      (auto simp: SignaturePart_of_def sig_at_def sp_valid_def Let_def split: if_splits)
  let ?n = "unat l"
  have c: "a = 0x02" "?n \<le> Suc (length r)" "1 \<le> ?n" "?n \<le> 33" "x AND 0x80 = 0" "\<not> (x = 0 \<and> ?n = 1)"
    "\<not> (x = 0 \<and> (x # r) ! 1 AND 0x80 = 0)" "sp_skip p = ?n + 2" "bn_bin2bn cr (take ?n (x # r)) = Some (sp_bn p)"
    using assms by (auto simp: SignaturePart_of_def sig_at_def sp_valid_def sig Let_def split: if_splits option.splits)
  let ?b = "take ?n (x # r)"
  have "sig = 0x02 # l # ?b @ drop ?n (x # r)" using c(1) sig by simp
  moreover have "length ?b = ?n" using c(2) by simp
  moreover have "body_ok ?b" using c(2,3,5,6,7) by (auto simp: body_ok_def take_Cons' nth_Cons')
  ultimately show ?thesis using c(4,8,9) by metis
qed

lemma part_valid:
  assumes "bn_ok cr val" "SignaturePart_of cr sig = Inr p" "sp_valid p"
  shows "\<exists>n tail. 0 < n \<and> length (der_body n) \<le> 33 \<and> sig = der_part n @ tail \<and> sp_skip p = length (der_part n) \<and> val (sp_bn p) = n"
proof -
  obtain l body tail where b: "sig = 0x02 # l # body @ tail" "unat l = length body" "length body \<le> 33" "body_ok body"
    "sp_skip p = length body + 2" "bn_bin2bn cr body = Some (sp_bn p)"
    using part_shape [OF assms(2,3)] by blast
  have d: "0 < be_int body" "der_body (be_int body) = body" using body_ok_der [OF b(4)] by simp_all
  have l: "l = of_nat (length body)" using b(2) by (metis of_nat_unat ucast_id)
  have "sig = der_part (be_int body) @ tail" using b(1) d(2) l by (simp add: der_part_def)
  moreover have "val (sp_bn p) = be_int body" using bn_okD(3) [OF assms(1), of body] b(6) by simp
  ultimately show ?thesis using b(3,5) d by (intro exI [of _ "be_int body"]) (simp add: der_part_def)
qed

lemma part_der:
  assumes "bn_ok cr val" "0 < n" "length (der_body n) \<le> 33"
  shows "\<exists>p. SignaturePart_of cr (der_part n @ tail) = Inr p \<and> sp_skip p = length (der_part n) \<and> val (sp_bn p) = n"
proof -
  let ?b = "der_body n"
  have ok: "body_ok ?b" "be_int ?b = n" using der_body_ok [OF assms(2)] by simp_all
  obtain m where m: "bn_bin2bn cr ?b = Some m" "val m = n" using bn_okD(3) [OF assms(1), of ?b] ok(2) by auto
  obtain x r where b: "?b = x # r" using ok(1) by (cases ?b) (auto simp: body_ok_def)
  have l: "unat (of_nat (length ?b) :: byte) = length ?b" using assms(3) by (intro unat_len) simp
  have "SignaturePart_of cr (der_part n @ tail) = Inr \<lparr>sp_skip = length ?b + 2, sp_bn = m\<rparr>"
    using l m(1) ok(1) assms(3)
    by (auto simp: SignaturePart_of_def sig_at_def der_part_def Let_def b body_ok_def nth_append nth_Cons')
  with m(2) show ?thesis by (simp add: der_part_def)
qed

section \<open>Canonical signatures\<close>

lemma der_body_length:
  assumes "0 < n"
  shows "1 \<le> length (der_body n)" "n < group_order \<Longrightarrow> length (der_body n) \<le> 33"
proof -
  show "1 \<le> length (der_body n)" using der_body_ok [OF assms] by (simp add: body_ok_def Suc_le_eq)
  assume "n < group_order"
  then have "n < 256 ^ 32" by (simp add: group_order_def)
  then have "length (min_bytes n) \<le> 32" using assms by (subst length_min_bytes) simp_all
  then show "length (der_body n) \<le> 33" by (simp add: der_body_def)
qed

lemma length_der_part [simp]: "length (der_part n) = length (der_body n) + 2"
  by (simp add: der_part_def)

lemma getBigNum_val: "bn_ok cr val \<Longrightarrow> val (sp_getBigNum cr p) = val (sp_bn p)"
  using bn_okD(5) [of cr val "sp_bn p"] by (auto simp: sp_getBigNum_def)

definition canonical_pair :: "ECDSA \<Rightarrow> int \<Rightarrow> int \<Rightarrow> bool" where
  "canonical_pair st r s = (0 < r \<and> r < group_order \<and> 0 < s \<and> s < group_order \<and> (st = strict \<longrightarrow> s \<le> group_order - s))"

lemma canonical_numbers_val:
  assumes "bn_ok cr val"
  shows "canonical_numbers cr (sp_getBigNum cr p) (sp_getBigNum cr q) st =
    (val (sp_bn p) < group_order \<and> val (sp_bn q) < group_order \<and> (st = strict \<longrightarrow> val (sp_bn q) \<le> group_order - val (sp_bn q)))"
proof -
  obtain c where "bn_sub cr (ecdsa_modulus cr) (sp_getBigNum cr q) = Some c" "val c = group_order - val (sp_bn q)"
    using bn_okD(6) [OF assms, of "ecdsa_modulus cr" "sp_getBigNum cr q"] modulus_val [OF assms] getBigNum_val [OF assms] by auto
  then show ?thesis
    by (auto simp: canonical_numbers_def bn_okD(7) [OF assms] modulus_val [OF assms] getBigNum_val [OF assms] sgn_if)
qed

text \<open>What the reader does when the outer form is right.\<close>

lemma canonical_parts:
  assumes "bn_ok cr val" "0 < r" "length (der_body r) \<le> 33" "8 \<le> length (der_part r @ t) + 2" "length (der_part r @ t) \<le> 70"
  shows "t = [] \<Longrightarrow> isCanonicalECDSASig cr (0x30 # of_nat (length (der_part r @ t)) # der_part r @ t) st = Inl LRange"
    "t \<noteq> [] \<Longrightarrow> \<exists>ok. isCanonicalECDSASig cr (0x30 # of_nat (length (der_part r @ t)) # der_part r @ t) st = Inr ok \<and>
      (ok \<longleftrightarrow> (\<exists>s. canonical_pair st r s \<and> t = der_part s))"
proof -
  obtain p where p: "SignaturePart_of cr (der_part r @ t) = Inr p" "sp_skip p = length (der_part r)" "val (sp_bn p) = r"
    using part_der [OF assms(1-3)] by blast
  have v: "sp_valid p" using p(2) by (simp add: sp_valid_def)
  have u: "unat (of_nat (length (der_part r @ t)) :: byte) = length (der_part r @ t)" using assms(5) by (intro unat_len) simp
  let ?sig = "0x30 # of_nat (length (der_part r @ t)) # der_part r @ t"
  have out: "isCanonicalECDSASig cr ?sig st = bind_r (SignaturePart_of cr t) (\<lambda>sigS.
      if \<not> sp_valid sigS then Inr False else if length t - sp_skip sigS \<noteq> 0 then Inr False
      else Inr (r < group_order \<and> val (sp_bn sigS) < group_order \<and> (st = strict \<longrightarrow> val (sp_bn sigS) \<le> group_order - val (sp_bn sigS))))"
    using p v u assms(4,5)
    by (simp add: isCanonicalECDSASig_def Let_def canonical_numbers_val [OF assms(1)] cong: if_cong)
  show "t = [] \<Longrightarrow> isCanonicalECDSASig cr ?sig st = Inl LRange" using out by (simp add: part_empty)
  assume "t \<noteq> []"
  then obtain q where q: "SignaturePart_of cr t = Inr q" using part_total by blast
  show "\<exists>ok. isCanonicalECDSASig cr ?sig st = Inr ok \<and> (ok \<longleftrightarrow> (\<exists>s. canonical_pair st r s \<and> t = der_part s))"
  proof (cases "sp_valid q \<and> length t - sp_skip q = 0")
    case True
    then obtain s tail where s: "0 < s" "t = der_part s @ tail" "sp_skip q = length (der_part s)" "val (sp_bn q) = s"
      using part_valid [OF assms(1) q] by blast
    then have "tail = []" using True by simp
    moreover have "s' = s" if "der_part s' = der_part s" "0 < s'" for s'
      using that s(1) der_body_ok by (metis der_part_def list.inject)
    ultimately show ?thesis unfolding out q bind_r_simps using True s assms(2) by (auto simp: canonical_pair_def)
  next
    case False
    have "False" if c: "canonical_pair st r s" "t = der_part s" for s
    proof -
      have "\<exists>q'. SignaturePart_of cr (der_part s @ []) = Inr q' \<and> sp_skip q' = length (der_part s) \<and> val (sp_bn q') = s"
        using c(1) by (intro part_der [OF assms(1)] der_body_length) (simp_all add: canonical_pair_def)
      then show False using q c(2) False by (auto simp: sp_valid_def)
    qed
    then show ?thesis unfolding out q bind_r_simps using False by auto
  qed
qed

lemma canonical_cases:
  assumes "bn_ok cr val"
  shows "isCanonicalECDSASig cr sig st = Inr False \<or>
    (\<exists>r t. 0 < r \<and> length (der_body r) \<le> 33 \<and> 8 \<le> length (der_part r @ t) + 2 \<and> length (der_part r @ t) \<le> 70 \<and>
      sig = 0x30 # of_nat (length (der_part r @ t)) # der_part r @ t)"
proof (cases "8 \<le> length sig \<and> length sig \<le> 72 \<and> sig ! 0 = 0x30 \<and> unat (sig ! 1) = length sig - 2")
  case True
  then obtain l rest where sig: "sig = 0x30 # l # rest" "unat l = length rest" "6 \<le> length rest" "length rest \<le> 70"
    by (cases sig; cases "tl sig") auto
  then have l: "l = of_nat (length rest)" by (metis of_nat_unat ucast_id)
  have "rest \<noteq> []" using sig(3) by auto
  then obtain p where p: "SignaturePart_of cr rest = Inr p" using part_total by blast
  show ?thesis
  proof (cases "sp_valid p")
    case True
    then show ?thesis using part_valid [OF assms p] sig l by fastforce
  qed (use sig p in \<open>simp add: isCanonicalECDSASig_def\<close>)
next
  case False
  then show ?thesis unfolding isCanonicalECDSASig_def by auto
qed

lemma der_sig_length:
  assumes "0 < r" "r < group_order" "0 < s" "s < group_order"
  shows "8 \<le> length (der_sig r s)" "length (der_sig r s) \<le> 72"
  using der_body_length [OF assms(1)] der_body_length [OF assms(3)] assms(2,4) by (simp_all add: der_sig_def)

lemma canonical_iff:
  assumes "bn_ok cr val"
  shows "isCanonicalECDSASig cr sig st = Inr True \<longleftrightarrow> (\<exists>r s. canonical_pair st r s \<and> sig = der_sig r s)"
proof
  assume t: "isCanonicalECDSASig cr sig st = Inr True"
  then obtain r t where r: "0 < r" "length (der_body r) \<le> 33" "8 \<le> length (der_part r @ t) + 2" "length (der_part r @ t) \<le> 70"
    "sig = 0x30 # of_nat (length (der_part r @ t)) # der_part r @ t"
    using canonical_cases [OF assms, of sig st] by auto
  with t canonical_parts [OF assms r(1-4), of st] have "\<exists>s. canonical_pair st r s \<and> t = der_part s" by (cases "t = []") auto
  with r(5) show "\<exists>r s. canonical_pair st r s \<and> sig = der_sig r s" unfolding der_sig_def by metis
next
  assume "\<exists>r s. canonical_pair st r s \<and> sig = der_sig r s"
  then obtain r s where rs: "canonical_pair st r s" "sig = der_sig r s" by blast
  then have p: "0 < r" "r < group_order" "0 < s" "s < group_order" by (simp_all add: canonical_pair_def)
  then show "isCanonicalECDSASig cr sig st = Inr True"
    using canonical_parts(2) [OF assms p(1) der_body_length(2) [OF p(1,2)], of "der_part s" st] der_sig_length [OF p] rs
    by (auto simp: der_sig_def der_part_def)
qed

text \<open>The one byte past the end that is read: a signature whose first number takes all of it.\<close>

lemma canonical_overread:
  assumes "bn_ok cr val"
  shows "isCanonicalECDSASig cr sig st = Inl e \<longleftrightarrow> e = LRange \<and>
    (\<exists>r. 0 < r \<and> 4 \<le> length (der_body r) \<and> length (der_body r) \<le> 33 \<and> sig = 0x30 # of_nat (length (der_part r)) # der_part r)"
proof
  assume t: "isCanonicalECDSASig cr sig st = Inl e"
  then obtain r t where r: "0 < r" "length (der_body r) \<le> 33" "8 \<le> length (der_part r @ t) + 2" "length (der_part r @ t) \<le> 70"
    "sig = 0x30 # of_nat (length (der_part r @ t)) # der_part r @ t"
    using canonical_cases [OF assms, of sig st] by auto
  then have "t = []" "e = LRange" using t canonical_parts [OF assms r(1-4), of st] by (cases "t = []"; auto)+
  with r show "e = LRange \<and> (\<exists>r. 0 < r \<and> 4 \<le> length (der_body r) \<and> length (der_body r) \<le> 33 \<and>
      sig = 0x30 # of_nat (length (der_part r)) # der_part r)" by auto
next
  assume "e = LRange \<and> (\<exists>r. 0 < r \<and> 4 \<le> length (der_body r) \<and> length (der_body r) \<le> 33 \<and>
      sig = 0x30 # of_nat (length (der_part r)) # der_part r)"
  then show "isCanonicalECDSASig cr sig st = Inl e" using canonical_parts(1) [OF assms, of _ "[]"] by auto
qed

text \<open>Two pairs of numbers have different signatures.\<close>

lemma der_part_append_inj:
  assumes "der_part m @ a = der_part n @ b" "0 < m" "0 < n" "length (der_body m) \<le> 33" "length (der_body n) \<le> 33"
  shows "m = n \<and> a = b"
proof -
  have "unat (of_nat (length (der_body m)) :: byte) = unat (of_nat (length (der_body n)) :: byte)"
    and app: "der_body m @ a = der_body n @ b" using assms(1) by (simp_all add: der_part_def)
  then have "length (der_body m) = length (der_body n)" using assms(4,5) by (simp add: unat_len)
  with app have "der_body m = der_body n" "a = b" by simp_all
  then show ?thesis using der_body_ok assms(2,3) by metis
qed

section \<open>Making a signature canonical\<close>

lemma buf_copy_append: "i = length a \<Longrightarrow> length bs \<le> length c \<Longrightarrow> buf_copy i bs (a @ c) = Inr (a @ bs @ drop (length bs) c)"
  by (simp add: buf_copy_def)

lemma buf_at_append: "i = length a \<Longrightarrow> n = length b \<Longrightarrow> buf_at i n (a @ b @ c) = Inr b"
  by (simp add: buf_at_def)

lemma sig_at_append: "i = length a \<Longrightarrow> sig_at (a @ b # c) i = Inr b"
  by (simp add: sig_at_def)

text \<open>The layout of a signature around its second number, and what writing another number there gives.\<close>

definition sig_head :: "byte \<Rightarrow> int \<Rightarrow> Blob" where
  "sig_head l r = 0x30 # l # der_part r @ [0x02]"

lemma length_sig_head: "length (sig_head l r) = length (der_body r) + 5"
  by (simp add: sig_head_def)

lemma der_sig_layout: "der_sig r s = sig_head (of_nat (length (der_part r @ der_part s))) r @ of_nat (length (der_body s)) # der_body s"
  by (simp add: der_sig_def sig_head_def der_part_def)

lemma patch_len: "buf_copy 1 [w] (sig_head l r @ c) = Inr (sig_head w r @ c)"
  using buf_copy_append [of 1 "[0x30]" "[w]" "l # der_part r @ [0x02] @ c"] by (simp add: sig_head_def)

lemma patch_number:
  assumes "length (der_body r) + 6 = sPos" "length b \<le> length c"
  shows "bind_r (buf_copy (sPos - 1) [k] (sig_head w r @ x # c)) (\<lambda>sig2. buf_copy sPos b sig2) = Inr (sig_head w r @ k # b @ drop (length b) c)"
proof -
  have "buf_copy (sPos - 1) [k] (sig_head w r @ x # c) = Inr ((sig_head w r @ [k]) @ c)"
    using assms(1) [symmetric] buf_copy_append [of "sPos - 1" "sig_head w r" "[k]" "x # c"] by (simp add: length_sig_head)
  moreover have "buf_copy sPos b ((sig_head w r @ [k]) @ c) = Inr ((sig_head w r @ [k]) @ b @ drop (length b) c)"
    using assms by (intro buf_copy_append) (simp_all add: length_sig_head)
  ultimately show ?thesis by simp
qed

lemma patch_padded:
  assumes "length (der_body r) + 6 = sPos" "length b < length c"
  shows "bind_r (buf_copy (sPos - 1) [k] (sig_head w r @ x # c)) (\<lambda>sig2. bind_r (buf_copy sPos [y] sig2) (\<lambda>sig3. buf_copy (sPos + 1) b sig3)) =
    Inr (sig_head w r @ k # (y # b) @ drop (length (y # b)) c)"
proof -
  obtain z d where c: "c = z # d" using assms(2) by (cases c) auto
  have "buf_copy (sPos + 1) b ((sig_head w r @ [k, y]) @ d) = Inr ((sig_head w r @ [k, y]) @ b @ drop (length b) d)"
    using assms c by (intro buf_copy_append) (simp_all add: length_sig_head)
  then show ?thesis using patch_number [OF assms(1), of "[y]" c k w x] c by (simp add: bind_r_assoc [symmetric])
qed

text \<open>The reads of \<open>makeCanonicalECDSASig\<close> on a signature of that layout.\<close>

definition sig_layout :: "byte \<Rightarrow> int \<Rightarrow> int \<Rightarrow> Blob \<Rightarrow> Blob" where
  "sig_layout l r s rest = sig_head l r @ of_nat (length (der_body s)) # der_body s @ rest"

lemma length_layout: "length (sig_layout l r s rest) = length (der_body r) + 6 + length (der_body s) + length rest"
  by (simp add: sig_layout_def length_sig_head)

lemma layout_reads:
  "sig_at (sig_layout l r s rest) 1 = Inr l"
  "sig_at (sig_layout l r s rest) 3 = Inr (of_nat (length (der_body r)))"
  "sig_at (sig_layout l r s rest) (length (der_body r) + 5) = Inr (of_nat (length (der_body s)))"
  "buf_at (length (der_body r) + 6) (length (der_body s)) (sig_layout l r s rest) = Inr (der_body s)"
proof -
  let ?x = "of_nat (length (der_body s)) :: byte"
  show "sig_at (sig_layout l r s rest) 1 = Inr l" "sig_at (sig_layout l r s rest) 3 = Inr (of_nat (length (der_body r)))"
    by (simp_all add: sig_at_def sig_layout_def sig_head_def der_part_def)
  show "sig_at (sig_layout l r s rest) (length (der_body r) + 5) = Inr ?x"
    unfolding sig_layout_def by (rule sig_at_append) (simp add: length_sig_head)
  show "buf_at (length (der_body r) + 6) (length (der_body s)) (sig_layout l r s rest) = Inr (der_body s)"
    using buf_at_append [of "length (der_body r) + 6" "sig_head l r @ [?x]" _ "der_body s" rest]
    by (simp add: sig_layout_def length_sig_head)
qed

lemma make_larger:
  assumes bn: "bn_bin2bn cr (der_body s) = Some a" "bn_sub cr (ecdsa_modulus cr) a = Some b" "bn_cmp cr a b = 1" "bn_bn2bin cr b = min_bytes t"
    and t: "0 < t" and lens: "length (der_body r) \<le> 33" "length (der_body s) \<le> 33" "length (der_body t) \<le> 33"
    and room: "length (der_body t) \<le> length (der_body s @ rest)"
    and w: "word_of_int (uint l - int (length (der_body s)) + int (length (der_body t))) = w"
  shows "makeCanonicalECDSASig cr (sig_layout l r s rest) n =
    Inr (False, sig_layout w r t (drop (length (der_body t)) (der_body s @ rest)), unat w + 2)"
proof -
  have u: "unat (of_nat (length (der_body r)) :: byte) = length (der_body r)" "unat (of_nat (length (der_body s)) :: byte) = length (der_body s)"
    using lens by (simp_all add: unat_len)
  have len: "length (min_bytes t) \<noteq> 0" "\<not> 64 < length (min_bytes t)"
    using lens(3) min_bytes_hd [OF t] by (simp_all add: der_body_def split: if_splits)
  have w1: "sig_layout w r t c ! 1 = w" for c by (simp add: sig_layout_def sig_head_def)
  note reads = makeCanonicalECDSASig_def Let_def layout_reads bind_r_simps u bn option.case
  show ?thesis
  proof (cases "hd (min_bytes t) AND 0x80 = 0")
    case True
    then have b: "der_body t = min_bytes t" by (simp add: der_body_def)
    show ?thesis unfolding reads
      using True len w w1 patch_number [of r "length (der_body r) + 6" "min_bytes t" "der_body s @ rest"] room
      by (simp add: b sig_layout_def patch_len [unfolded One_nat_def] bind_r_assoc [symmetric])
  next
    case False
    then have b: "der_body t = 0 # min_bytes t" by (simp add: der_body_def)
    have "l - of_nat (length (der_body s)) + of_nat (length (min_bytes t)) + 1 = w" using w by (simp add: b algebra_simps)
    with w1 show ?thesis unfolding reads
      using False len patch_padded [of r "length (der_body r) + 6" "min_bytes t" "der_body s @ rest"] room
      by (simp add: b sig_layout_def patch_len [unfolded One_nat_def] bind_r_assoc [symmetric])
  qed
qed

lemma der_sig_layout_rest: "der_sig r s @ rest = sig_layout (of_nat (length (der_part r @ der_part s))) r s rest"
  by (simp add: der_sig_layout sig_layout_def)

lemma make_canonical:
  assumes ok: "bn_ok cr val" and pair: "canonical_pair not_strict r s" and buf: "72 \<le> length (der_sig r s @ rest)"
  shows "\<exists>rest'. makeCanonicalECDSASig cr (der_sig r s @ rest) (length (der_sig r s)) =
      Inr (s \<le> group_order - s, der_sig r (min s (group_order - s)) @ rest', length (der_sig r (min s (group_order - s)))) \<and>
    length (der_sig r (min s (group_order - s)) @ rest') = length (der_sig r s @ rest)"
proof -
  have r: "0 < r" "r < group_order" and s: "0 < s" "s < group_order" using pair by (simp_all add: canonical_pair_def)
  have lens: "length (der_body r) \<le> 33" "length (der_body s) \<le> 33" using der_body_length(2) r s by simp_all
  then have u: "unat (of_nat (length (der_body r)) :: byte) = length (der_body r)" "unat (of_nat (length (der_body s)) :: byte) = length (der_body s)"
    by (simp_all add: unat_len)
  obtain a where a: "bn_bin2bn cr (der_body s) = Some a" "val a = s" using bn_okD(3) [OF ok] der_body_ok [OF s(1)] by metis
  obtain b where b: "bn_sub cr (ecdsa_modulus cr) a = Some b" "val b = group_order - s"
    using bn_okD(6) [OF ok] modulus_val [OF ok] a(2) by metis
  show ?thesis
  proof (cases "s \<le> group_order - s")
    case True
    then have "bn_cmp cr a b \<noteq> 1" by (simp add: bn_okD(7) [OF ok] a b sgn_if)
    with True show ?thesis unfolding makeCanonicalECDSASig_def Let_def der_sig_layout_rest layout_reads bind_r_simps u a(1) b(1) option.case
      by (intro exI [of _ rest]) (simp add: der_sig_layout_rest)
  next
    case False
    let ?t = "group_order - s"
    have t: "0 < ?t" "?t < group_order" "min s ?t = ?t" using False s by simp_all
    have lt: "length (der_body ?t) \<le> 33" using der_body_length(2) t by simp
    have bn: "bn_cmp cr a b = 1" "bn_bn2bin cr b = min_bytes ?t" using False t by (simp_all add: bn_okD(4,7) [OF ok] a b sgn_if)
    have room: "length (der_body ?t) \<le> length (der_body s @ rest)" using buf lens lt by (simp add: der_sig_def)
    let ?w = "of_nat (length (der_part r @ der_part ?t)) :: byte"
    have "unat ?w + 2 = length (der_sig r ?t)" using lens lt by (subst unat_len) (simp_all add: der_sig_def)
    with make_larger [OF a(1) b(1) bn t(1) lens lt room, of _ ?w] False t(3) room show ?thesis
      by (intro exI [of _ "drop (length (der_body ?t)) (der_body s @ rest)"]) (simp add: der_sig_layout_rest length_layout)
  qed
qed

section \<open>One form of a signature\<close>

lemma der_sig_inj:
  assumes "canonical_pair st r s" "canonical_pair st' r' s'" "der_sig r s = der_sig r' s'"
  shows "r = r' \<and> s = s'"
proof -
  have p: "0 < r" "0 < s" "0 < r'" "0 < s'" "length (der_body r) \<le> 33" "length (der_body s) \<le> 33"
    "length (der_body r') \<le> 33" "length (der_body s') \<le> 33"
    using assms(1,2) der_body_length(2) by (simp_all add: canonical_pair_def)
  have "der_part r @ der_part s = der_part r' @ der_part s'" using assms(3) by (simp add: der_sig_def)
  then have "r = r'" "der_part s @ [] = der_part s' @ []" using der_part_append_inj p(1,3,5,7) by blast+
  then show ?thesis using der_part_append_inj p(2,4,6,8) by blast
qed

text \<open>The order is odd, so that of a number and its opposite exactly one is in the lower half.\<close>

lemma strict_half:
  assumes "canonical_pair not_strict r s"
  shows "canonical_pair strict r s \<noteq> canonical_pair strict r (group_order - s)"
proof -
  have "odd group_order" by (simp add: group_order_def)
  then have "s \<noteq> group_order - s" by (metis dvd_triv_left eq_diff_eq mult_2)
  with assms show ?thesis by (auto simp: canonical_pair_def)
qed

section \<open>Ed25519 signatures\<close>

lemma lexicographical_compare_int:
  "length xs = length ys \<Longrightarrow> lexicographical_compare xs ys \<longleftrightarrow> be_int xs < be_int ys"
proof (induction xs ys rule: lexicographical_compare.induct)
  case (3 x xs y ys)
  have lt: "be_int (a # as) < be_int (b # bs)" if "a < b" "length as = length bs" for a b as bs
  proof -
    have "uint a + 1 \<le> uint b" using that(1) by (simp add: word_less_def)
    then have "(uint a + 1) * 256 ^ length bs \<le> uint b * 256 ^ length bs" by (intro mult_right_mono) simp_all
    then show ?thesis using be_int_bound [of as] be_int_nonneg [of bs] that(2) by (simp add: be_int_Cons algebra_simps)
  qed
  show ?case
  proof (cases x y rule: linorder_cases)
    case equal
    with 3 show ?thesis by (simp add: be_int_Cons)
  qed (use lt [of x y xs ys] lt [of y x ys xs] 3(2) in auto)
qed simp_all

text \<open>The order of the subgroup of Ed25519; the second half of a signature is a little endian number below it.\<close>

lemma canonical_ed25519:
  "length sig = 64 \<Longrightarrow> isCanonicalEd25519Signature sig \<longleftrightarrow>
    be_int (rev (drop 32 sig)) < 2 ^ 252 + 27742317777372353535851937790883648493"
  unfolding isCanonicalEd25519Signature_def
  by (subst lexicographical_compare_int) (simp_all add: ed25519_order_def be_int_def)

section \<open>Integers as big numbers\<close>

definition int_crypto :: "(int, unit) Crypto" where
  "int_crypto = \<lparr>bn_new = 0, bn_hex2bn = hex_int, bn_bin2bn = \<lambda>bs. Some (be_int bs), bn_bn2bin = \<lambda>n. min_bytes \<bar>n\<bar>,
     bn_copy = Some, bn_sub = \<lambda>a b. Some (a - b), bn_cmp = \<lambda>a b. sgn (a - b), ec_public = \<lambda>_. Some (),
     ec_verify = \<lambda>_ _ _. 1, ed25519_sign_open = \<lambda>_ _ _. 0, cr_sha512Half = \<lambda>_. 0\<rparr>"

lemma int_crypto_ok: "bn_ok int_crypto id"
  by (simp add: bn_ok_def int_crypto_def)

end
