(* ===== verification/STTx_Spec.thy ===== *)
theory STTx_Spec
  imports STTx STFormats_Spec ECDSACanonical_Spec
begin

text \<open>
  What the checks of transactions accept: the rules of multiple signatures as a predicate on the signers, a
  transaction that was signed verifies, the rules of memos, and the round trip of transactions.
\<close>

unbundle bit_operations_syntax

section \<open>Multiple signatures\<close>

text \<open>The account of a signer and the accounts that sign for it; an unreadable one is zero or empty.\<close>

definition acct :: "SField \<times> STObject \<Rightarrow> AccountID" where
  "acct e = (case getAccountID sfAccount (snd e) of Inr a \<Rightarrow> a | Inl _ \<Rightarrow> 0)"

definition signing_for :: "SField \<times> STObject \<Rightarrow> (SField \<times> STObject) list" where
  "signing_for m = (case getFieldArray sfSigningAccounts (snd m) of Inr es \<Rightarrow> es | Inl _ \<Rightarrow> [])"

text \<open>The signature of an account for another one: it can be read and is one, under the public key beside it, of
  the data of the transaction followed by the bytes of the two accounts.\<close>

definition sig_valid :: "('n, 'k) Crypto \<Rightarrow> Blob \<Rightarrow> ECDSA \<Rightarrow> AccountID \<Rightarrow> SField \<times> STObject \<Rightarrow> bool" where
  "sig_valid cr dataStart fc for e =
     (\<exists>pubKey signature. getFieldVL sfSigningPubKey (snd e) = Inr pubKey \<and> getFieldVL sfMultiSignature (snd e) = Inr signature \<and>
        accountPublicVerify cr pubKey (dataStart @ be_bytes 20 for @ be_bytes 20 (acct e)) signature fc = Inr True)"

lemma catch_true: "catch_r False r = Inr True \<longleftrightarrow> r = Inr True"
  by (auto simp: catch_r_def split: sum.splits led_error.splits)

lemma sig_valid_iff: "sig_valid cr dataStart fc for e \<longleftrightarrow> valid_multi_sig cr dataStart fc for (acct e) (snd e) = Inr True"
  by (auto simp: sig_valid_def valid_multi_sig_def catch_true bind_r_eq_Inr_iff finishMultiSigningData_def add160_def)

text \<open>The signers that count for the account of the transaction itself.\<close>

definition first_level :: "AccountID \<Rightarrow> SField \<times> STObject \<Rightarrow> AccountID list" where
  "first_level txn m = (if acct m = txn then map acct (signing_for m) else [acct m])"

definition accounts_ok :: "('n, 'k) Crypto \<Rightarrow> Serializer \<Rightarrow> ECDSA \<Rightarrow> AccountID \<Rightarrow> AccountID \<Rightarrow> (SField \<times> STObject) list \<Rightarrow> bool" where
  "accounts_ok cr dataStart fc for prev es =
     (sorted_wrt (<) (prev # map acct es) \<and> for \<notin> acct ` set es \<and> (\<forall>e \<in> set es. sig_valid cr dataStart fc for e))"

lemma acct_Inl: "getAccountID sfAccount (snd e) = Inl x \<Longrightarrow> acct e = 0"
  by (simp add: acct_def)

lemma acct_Inr: "getAccountID sfAccount (snd e) = Inr a \<Longrightarrow> acct e = a"
  by (simp add: acct_def)

lemma signing_accounts_iff:
  "signing_accounts_loop cr dataStart fc for direct es prev first = Inr (Some first') \<longleftrightarrow>
     accounts_ok cr dataStart fc for prev es \<and>
     (if direct then distinct (map acct es) \<and> acct ` set es \<inter> first = {} \<and> first' = first \<union> acct ` set es else first' = first)"
proof (induction es arbitrary: prev first)
  case (Cons e es)
  obtain f ob where e: "e = (f, ob)" by fastforce
  show ?case
  proof (cases "getAccountID sfAccount ob")
    case (Inl x)
    then have "acct e = 0" using acct_Inl [of e] e by simp
    then show ?thesis using Inl by (simp add: e accounts_ok_def)
  next
    case (Inr a)
    then have a: "acct e = a" using acct_Inr [of e] e by simp
    have v: "sig_valid cr dataStart fc for e \<longleftrightarrow> valid_multi_sig cr dataStart fc for a ob = Inr True"
      by (simp add: sig_valid_iff a) (simp add: e)
    show ?thesis
    proof (cases "for \<noteq> a \<and> prev < a \<and> (direct \<longrightarrow> a \<notin> first) \<and> sig_valid cr dataStart fc for e")
      case True
      then have "signing_accounts_loop cr dataStart fc for direct (e # es) prev first =
          signing_accounts_loop cr dataStart fc for direct es a (if direct then insert a first else first)"
        using Inr v by (auto simp: e)
      then show ?thesis using True a Cons.IH [of a "if direct then insert a first else first"]
        by (auto simp: accounts_ok_def dest: order.strict_trans)
    next
      case False
      have "signing_accounts_loop cr dataStart fc for direct (e # es) prev first \<noteq> Inr (Some first')"
        using False Inr v by (auto simp: e result_simps)
      then show ?thesis using False a by (auto simp: accounts_ok_def)
    qed
  qed
qed (auto simp: accounts_ok_def)

definition signer_ok :: "('n, 'k) Crypto \<Rightarrow> Serializer \<Rightarrow> ECDSA \<Rightarrow> SField \<times> STObject \<Rightarrow> bool" where
  "signer_ok cr dataStart fc m = (1 \<le> length (signing_for m) \<and> length (signing_for m) \<le> 8 \<and>
     accounts_ok cr dataStart fc (acct m) 0 (signing_for m))"

definition signers_ok :: "('n, 'k) Crypto \<Rightarrow> Serializer \<Rightarrow> ECDSA \<Rightarrow> AccountID \<Rightarrow> (SField \<times> STObject) list \<Rightarrow> bool" where
  "signers_ok cr dataStart fc txn ms =
     (1 \<le> length ms \<and> length ms \<le> 8 \<and> sorted_wrt (<) (0 # map acct ms) \<and> (\<forall>m \<in> set ms. signer_ok cr dataStart fc m) \<and>
      distinct (concat (map (first_level txn) ms)))"

text \<open>One round of the outer loop.\<close>

lemma multi_signers_step:
  "multi_signers_loop cr dataStart fc txn (m # ms) prev first = Inr True \<longleftrightarrow>
     prev < acct m \<and> signer_ok cr dataStart fc m \<and> distinct (first_level txn m) \<and> set (first_level txn m) \<inter> first = {} \<and>
     multi_signers_loop cr dataStart fc txn ms (acct m) (first \<union> set (first_level txn m)) = Inr True"
proof -
  obtain f ob where m: "m = (f, ob)" by fastforce
  show ?thesis
  proof (cases "getAccountID sfAccount ob")
    case (Inl x)
    then have "acct m = 0" using acct_Inl [of m] m by simp
    then show ?thesis using Inl by (simp add: m)
  next
    case (Inr a)
    then have a: "acct m = a" using acct_Inr [of m] m by simp
    show ?thesis
    proof (cases "getFieldArray sfSigningAccounts ob")
      case (Inl x)
      then have "signing_for m = []" by (simp add: signing_for_def m)
      then show ?thesis using Inr Inl by (auto simp: m signer_ok_def Let_def)
    next
      case (Inr es)
      then have es: "signing_for m = es" by (simp add: signing_for_def m)
      let ?first = "if a = txn then first else insert a first"
      have loop: "(\<exists>r. signing_accounts_loop cr dataStart fc a (a = txn) es 0 ?first = Inr r \<and>
          (case r of None \<Rightarrow> Inr False | Some first' \<Rightarrow> multi_signers_loop cr dataStart fc txn ms a first') = Inr True) \<longleftrightarrow>
        (\<exists>first'. signing_accounts_loop cr dataStart fc a (a = txn) es 0 ?first = Inr (Some first') \<and>
          multi_signers_loop cr dataStart fc txn ms a first' = Inr True)" by (auto split: option.splits)
      have "multi_signers_loop cr dataStart fc txn (m # ms) prev first = Inr True \<longleftrightarrow>
          prev < a \<and> (a \<noteq> txn \<longrightarrow> a \<notin> first) \<and> 1 \<le> length es \<and> length es \<le> 8 \<and>
          (\<exists>first'. signing_accounts_loop cr dataStart fc a (a = txn) es 0 ?first = Inr (Some first') \<and>
            multi_signers_loop cr dataStart fc txn ms a first' = Inr True)"
        using \<open>getAccountID sfAccount ob = Inr a\<close> Inr unfolding loop [symmetric]
        by (auto simp: m Let_def bind_r_eq_Inr_iff Suc_le_eq)
      then show ?thesis by (auto simp: signing_accounts_iff signer_ok_def first_level_def a es)
    qed
  qed
qed

lemma multi_signers_iff:
  "multi_signers_loop cr dataStart fc txn ms prev first = Inr True \<longleftrightarrow>
     sorted_wrt (<) (prev # map acct ms) \<and> (\<forall>m \<in> set ms. signer_ok cr dataStart fc m) \<and>
     distinct (concat (map (first_level txn) ms)) \<and> set (concat (map (first_level txn) ms)) \<inter> first = {}"
proof (induction ms arbitrary: prev first)
  case (Cons m ms)
  show ?case unfolding multi_signers_step Cons.IH by (auto dest: order.strict_trans)
qed simp

lemma fully_canonical_bit: "fully_canonical flags = (if bit flags 31 then strict else not_strict)"
proof -
  have "(0x80000000 :: 32 word) = push_bit 31 1" by simp
  then have "flags AND 0x80000000 \<noteq> 0 \<longleftrightarrow> bit flags 31" using and_exp_eq_0_iff_not_bit [of flags 31] by simp
  then show ?thesis by (simp add: fully_canonical_def)
qed

lemma multi_prefix: "startMultiSigningData ob = STObject_add False ob [0x53, 0x4D, 0x54, 0]"
proof -
  have "snd (add32 HP_txMultiSign []) = [0x53, 0x4D, 0x54, 0]" by code_simp
  then show ?thesis by (simp add: startMultiSigningData_def)
qed

lemma checkMultiSign_iff:
  "checkMultiSign cr tx = Inr True \<longleftrightarrow>
     (\<exists>ms dataStart txn flags. isFieldPresent sfMultiSigners (tx_obj tx) = Inr True \<and> getFieldArray sfMultiSigners (tx_obj tx) = Inr ms \<and>
       STObject_add False (tx_obj tx) [0x53, 0x4D, 0x54, 0] = Inr dataStart \<and> getAccountID sfAccount (tx_obj tx) = Inr txn \<and>
       getFlags (tx_obj tx) = Inr flags \<and> signers_ok cr dataStart (if bit flags 31 then strict else not_strict) txn ms)"
  unfolding fully_canonical_bit [symmetric] multi_prefix [symmetric]
  by (cases "isFieldPresent sfMultiSigners (tx_obj tx)"; cases "getFieldArray sfMultiSigners (tx_obj tx)";
      cases "startMultiSigningData (tx_obj tx)"; cases "getAccountID sfAccount (tx_obj tx)"; cases "getFlags (tx_obj tx)")
    (simp_all add: checkMultiSign_def multi_signers_iff signers_ok_def Suc_le_eq not_less)

section \<open>Single signatures\<close>

text \<open>A field that is not signed does not change the data that is signed.\<close>

lemma field_writers_put:
  assumes "i < length v" "\<not> shouldInclude (fst (v ! i)) b"
  shows "field_writers b (v[i := (fst (v ! i), x)]) = field_writers b v"
  using assms
proof (induction v arbitrary: i)
  case (Cons e v)
  obtain f y where e: "e = (f, y)" by fastforce
  show ?case
  proof (cases i)
    case 0
    with Cons.prems show ?thesis by (simp add: e)
  next
    case (Suc j)
    with Cons show ?thesis by (simp add: e)
  qed
qed simp

lemma add_put:
  assumes "obj_typed ob" "registered f" "getFieldIndex f ob = Some i" "\<not> signingField f"
  shows "STObject_add False (field_put f x ob) s = STObject_add False ob s"
proof -
  have i: "i < length (obj_v ob)" "fst (obj_v ob ! i) = f" using getFieldIndex_Some [OF assms(1-3)] by simp_all
  show ?thesis using field_writers_put [OF i(1), of False x] i assms(3,4)
    by (simp add: STObject_add_def field_put_def obj_put_def shouldInclude_def)
qed

text \<open>Fields are determined by what \<open>peekAtPField\<close> sees.\<close>

lemma isFieldPresent_peek:
  "isFieldPresent f ob = bind_r (peekAtPField f ob) (\<lambda>r. Inr (case r of None \<Rightarrow> False | Some v \<Rightarrow> getSType v \<noteq> STI_NOTPRESENT))"
  by (auto simp: isFieldPresent_def peekAtPField_def bind_r_def split: option.split sum.split)

lemma getFieldVL_cong: "peekAtPField f ob = peekAtPField f ob' \<Longrightarrow> getFieldVL f ob = getFieldVL f ob'"
  by (simp add: getFieldVL_def getFieldBy_def)

lemma sign_fields:
  "registered sfTxnSignature" "fieldType sfTxnSignature = STI_VL" "\<not> signingField sfTxnSignature"
  "registered sfSigningPubKey" "fieldType sfSigningPubKey = STI_VL"
  "fieldCode sfSigningPubKey \<noteq> fieldCode sfTxnSignature" "fieldCode sfMultiSigners \<noteq> fieldCode sfTxnSignature"
  "fieldCode sfFlags \<noteq> fieldCode sfTxnSignature" "fieldCode sfMultiSigners \<noteq> fieldCode sfSigningPubKey"
  by (auto intro!: known_registered simp: knownFields_def)
    (simp_all add: sfTxnSignature_def sfSigningPubKey_def sfMultiSigners_def sfFlags_def SField_named_def field_code_def)

lemma tx_sign_data:
  assumes typed: "obj_typed (tx_obj tx)" and ix: "getFieldIndex sfTxnSignature (tx_obj tx) \<noteq> None" and s: "tx_sign sign tx = Inr tx'"
  shows "\<exists>d. getSigningData tx = Inr d \<and> getSigningData tx' = Inr d \<and> getFieldVL sfTxnSignature (tx_obj tx') = Inr (sign d) \<and>
    obj_typed (tx_obj tx') \<and> sig_state tx' = sig_state tx \<and> tx_type tx' = tx_type tx \<and>
    (\<forall>g. fieldCode g \<noteq> fieldCode sfTxnSignature \<longrightarrow> peekAtPField g (tx_obj tx') = peekAtPField g (tx_obj tx))"
proof -
  obtain d ob where d: "getSigningData tx = Inr d" "setFieldVL (sign d) sfTxnSignature (tx_obj tx) = Inr ob" "tx' = tx\<lparr>tx_obj := ob\<rparr>"
    using s by (auto simp: tx_sign_def result_simps)
  obtain i where i: "getFieldIndex sfTxnSignature (tx_obj tx) = Some i" using ix by auto
  have ob: "ob = field_put sfTxnSignature (STBlob (sign d)) (tx_obj tx)"
    using vl.set_put [OF typed sign_fields(1,2), of "sign d"] d(2) ix by (simp add: accepts_def)
  have "getSigningData tx' = Inr d" using d(1,3) add_put [OF typed sign_fields(1) i sign_fields(3)] by (simp add: getSigningData_def ob)
  then show ?thesis using d vl.set_get [OF typed sign_fields(1,2) TrueI d(2)] by simp
qed

lemma signed_single:
  assumes typed: "obj_typed (tx_obj tx)" and ix: "getFieldIndex sfTxnSignature (tx_obj tx) \<noteq> None"
    and multi: "isFieldPresent sfMultiSigners (tx_obj tx) = Inr False" and pk: "getFieldVL sfSigningPubKey (tx_obj tx) = Inr pk"
    and key: "\<And>msg st. accountPublicVerify cr pk msg (sign msg) st = Inr True"
    and flags: "getFlags (tx_obj tx) = Inr flags" and s: "tx_sign sign tx = Inr tx'"
  shows "checkSingleSign cr tx' = Inr True"
proof -
  obtain d where d: "getSigningData tx' = Inr d" "getFieldVL sfTxnSignature (tx_obj tx') = Inr (sign d)"
    and same: "\<And>g. fieldCode g \<noteq> fieldCode sfTxnSignature \<Longrightarrow> peekAtPField g (tx_obj tx') = peekAtPField g (tx_obj tx)"
    using tx_sign_data [OF typed ix s] by blast
  have "isFieldPresent sfMultiSigners (tx_obj tx') = Inr False" using multi same [OF sign_fields(7)] by (simp add: isFieldPresent_peek)
  moreover have "getFieldVL sfSigningPubKey (tx_obj tx') = Inr pk" using pk getFieldVL_cong [OF same [OF sign_fields(6)]] by simp
  moreover have "getFlags (tx_obj tx') = Inr flags" using flags same [OF sign_fields(8)] by (simp add: getFlags_def)
  ultimately show ?thesis using d key by (simp add: checkSingleSign_def catch_r_def)
qed

section \<open>Memos\<close>

lemma charUnHex_digit: "d < 16 \<Longrightarrow> charUnHex (''0123456789ABCDEF'' ! d) = Some d"
proof -
  have "\<forall>d \<in> {..<16}. charUnHex (''0123456789ABCDEF'' ! d) = Some d" by (simp add: lessThan_nat_numeral lessThan_Suc charUnHex_def)
  then show "d < 16 \<Longrightarrow> charUnHex (''0123456789ABCDEF'' ! d) = Some d" by simp
qed

lemma byte_halves: "push_bit 4 (drop_bit 4 c) OR (c AND 15) = (c :: byte)"
proof -
  have m: "(15 :: byte) = mask 4" by (simp add: mask_eq_exp_minus_1)
  show ?thesis unfolding m by (rule bit_eqI) (auto simp: bit_simps)
qed

lemma nibbles: "unat (drop_bit 4 (c :: byte)) < 16" "unat (c AND 15) < 16"
proof -
  have "unat (drop_bit 4 c) = drop_bit 4 (take_bit 8 (unat c))" using unsigned_drop_bit_eq [of 4 c, where ?'a = nat] by simp
  then have "unat (drop_bit 4 c) = take_bit 8 (unat c) div 16" by (simp add: drop_bit_eq_div)
  then show "unat (drop_bit 4 c) < 16" by (simp add: take_bit_eq_mod div_less_iff_less_mult)
  have "c AND 15 \<le> 15" by (rule word_and_le1)
  then show "unat (c AND 15) < 16" by (simp add: word_le_nat_alt)
qed

text \<open>Text made from bytes decodes to the bytes.\<close>

lemma strHex_decode: "\<exists>t. strHex b = Inr t \<and> even (length t) \<and> (\<forall>tmp. strUnHex_loop t tmp = Some (tmp @ b))"
proof (induction b)
  case (Cons c b)
  then obtain t where t: "strHex b = Inr t" "even (length t)" "\<And>tmp. strUnHex_loop t tmp = Some (tmp @ b)" by blast
  then show ?case using nibbles [of c] by (simp add: charHex_def charUnHex_digit byte_halves)
qed simp

lemma memo_text_decode: "v = STNotPresent \<or> v = STBlob b \<Longrightarrow> \<exists>t. memo_text v = Inr t \<and> strUnHex t = Some (if v = STNotPresent then [] else b)"
  using strHex_decode [of b] by (auto simp: memo_text_def strUnHex_def)

text \<open>The characters that may stand in a URL: the printable ASCII characters but for nine.\<close>

definition url_byte :: "byte \<Rightarrow> bool" where
  "url_byte c = (0x21 \<le> c \<and> c \<le> 0x7E \<and> c \<notin> {0x22, 0x3C, 0x3E, 0x5C, 0x5E, 0x60, 0x7B, 0x7C, 0x7D})"

lemma url_codes:
  "map of_char (''0123456789'' @ ''-._~:/?#[]@!$&'' @ [CHR 0x27] @ ''()*+,;=%'' @ ''ABCDEFGHIJKLMNOPQRSTUVWXYZ'' @ ''abcdefghijklmnopqrstuvwxyz'') =
  map of_int ([48..57] @ [45, 46, 95, 126, 58, 47, 63, 35, 91, 93, 64, 33, 36, 38] @ [39] @ [40, 41, 42, 43, 44, 59, 61, 37] @ [65..90] @ [97..122])"
  by (simp add: upto_rec1)
lemma byte_image: "c \<in> of_int ` S \<longleftrightarrow> uint (c :: byte) \<in> S" if "S \<subseteq> {0..<256}"
proof
  assume "c \<in> of_int ` S"
  then obtain n where n: "n \<in> S" "c = of_int n" by blast
  then have "0 \<le> n" "n < 256" using that by auto
  then have "uint c = n" by (simp add: n(2) uint_word_of_int)
  then show "uint c \<in> S" using n(1) by simp
next
  assume "uint c \<in> S"
  then show "c \<in> of_int ` S" by (rule rev_image_eqI) simp
qed

lemma allowed_url: "allowedSymbols c = url_byte c"
proof -
  let ?S = "{48..57} \<union> {45, 46, 95, 126, 58, 47, 63, 35, 91, 93, 64, 33, 36, 38} \<union> {39} \<union> {40, 41, 42, 43, 44, 59, 61, 37} \<union> {65..90} \<union> {97..122} :: int set"
  have "allowedSymbols c \<longleftrightarrow> c \<in> of_int ` ?S"
    unfolding allowedSymbols_def url_codes by (simp only: set_map set_append set_upto list.set Un_assoc)
  also have "\<dots> \<longleftrightarrow> uint c \<in> ?S" by (rule byte_image) auto
  also have "\<dots> \<longleftrightarrow> 33 \<le> uint c \<and> uint c \<le> 126 \<and> uint c \<notin> {0x22, 0x3C, 0x3E, 0x5C, 0x5E, 0x60, 0x7B, 0x7C, 0x7D}"
    unfolding Un_iff insert_iff atLeastAtMost_iff empty_iff by presburger
  also have "\<dots> \<longleftrightarrow> url_byte c"
    unfolding url_byte_def word_le_def word_uint_eq_iff insert_iff empty_iff by simp
  finally show ?thesis .
qed

definition memo_field_ok :: "SField \<times> STBase \<Rightarrow> bool" where
  "memo_field_ok e = (fieldCode (fst e) \<in> fieldCode ` {sfMemoType, sfMemoData, sfMemoFormat} \<and>
     (fieldCode (fst e) = fieldCode sfMemoData \<or> (\<forall>b. snd e = STBlob b \<longrightarrow> (\<forall>c \<in> set b. url_byte c))))"

lemma memo_fields:
  "registered sfMemoType" "registered sfMemoData" "registered sfMemoFormat"
  "fieldType sfMemoType = STI_VL" "fieldType sfMemoData = STI_VL" "fieldType sfMemoFormat = STI_VL"
  by (auto intro!: known_registered simp: knownFields_def) (simp_all add: sfMemoType_def sfMemoData_def sfMemoFormat_def SField_named_def)

lemma memo_value:
  assumes "registered f" "st_typed f v" "fieldCode f \<in> fieldCode ` {sfMemoType, sfMemoData, sfMemoFormat}"
  shows "v = STNotPresent \<or> (\<exists>b. v = STBlob b)"
proof -
  have "fieldType f = STI_VL" using assms(1,3) registered_eq memo_fields by auto
  then show ?thesis using assms(2) by (cases v) auto
qed

lemma memo_elements_iff:
  "\<forall>(f, v) \<in> set es. registered f \<and> st_typed f v \<Longrightarrow> \<exists>r. memo_elements es = Inr r \<and> (r = None \<longleftrightarrow> (\<forall>e \<in> set es. memo_field_ok e))"
proof (induction es)
  case (Cons e es)
  obtain f v where e: "e = (f, v)" by fastforce
  obtain r where r: "memo_elements es = Inr r" "r = None \<longleftrightarrow> (\<forall>e \<in> set es. memo_field_ok e)" using Cons by auto
  show ?case
  proof (cases "fieldCode f \<in> fieldCode ` {sfMemoType, sfMemoData, sfMemoFormat}")
    case True
    then obtain b where v: "v = STNotPresent \<or> v = STBlob b" using memo_value [of f v] Cons.prems by (auto simp: e)
    then obtain t where "memo_text v = Inr t" "strUnHex t = Some (if v = STNotPresent then [] else b)" using memo_text_decode by blast
    then show ?thesis using True v r by (auto simp: e memo_field_ok_def allowed_url)
  qed (auto simp: e memo_field_ok_def)
qed simp

lemma memo_array_iff:
  "elems_typed ms \<Longrightarrow> \<exists>r. memo_array ms = Inr r \<and>
     (r = None \<longleftrightarrow> (\<forall>m \<in> set ms. fieldCode (fst m) = fieldCode sfMemo \<and> (\<forall>e \<in> set (obj_v (snd m)). memo_field_ok e)))"
proof (induction ms)
  case (Cons m ms)
  obtain f ob where m: "m = (f, ob)" by fastforce
  obtain r where r: "memo_elements (obj_v ob) = Inr r" "r = None \<longleftrightarrow> (\<forall>e \<in> set (obj_v ob). memo_field_ok e)"
    using memo_elements_iff [of "obj_v ob"] Cons.prems by (auto simp: m obj_typed_iff)
  with Cons show ?case by (cases r) (auto simp: m)
qed simp

section \<open>Transactions and their bytes\<close>

definition tx_types :: "TxType list" where
  "tx_types = [ttACCOUNT_SET, ttTRUST_SET, ttOFFER_CREATE, ttOFFER_CANCEL, ttREGULAR_KEY_SET, ttPAYMENT, ttAMENDMENT, ttFEE,
     ttTICKET_CREATE, ttTICKET_CANCEL, ttDIVIDEND, ttSIGNER_LIST_SET]"

lemma tx_type_formats: "map fm_type txFormats = tx_types"
  by (simp add: txFormats_def tx_types_def format_item_def)

lemma findByType_tx: "findByType txFormats (Some t) = Some fm \<Longrightarrow> t \<in> set tx_types \<and> fm_type fm = t"
  using findByType_Some [of txFormats "Some t" fm] tx_type_formats by (metis image_eqI list.set_map option.inject)

lemma tx_type_of_code: "t \<in> set tx_types \<Longrightarrow> txType_of (word_of_int (txType_code t)) = Some t"
  by (auto simp: tx_types_def txType_of_def)

text \<open>A transaction of its format; the field of the type is required, so that it is present.\<close>

definition tx_ok :: "STTx \<Rightarrow> bool" where
  "tx_ok tx = (\<exists>fm. findByType txFormats (Some (tx_type tx)) = Some fm \<and> obj_type (tx_obj tx) = Some (fm_elements fm) \<and>
     fits_template (fm_elements fm) (obj_v (tx_obj tx)) \<and> fields_ok (obj_v (tx_obj tx)) \<and>
     peekAtPField sfTransactionType (tx_obj tx) = Inr (Some (STUInt16 (word_of_int (txType_code (tx_type tx))))))"

lemma tx_roundtrip:
  assumes "tx_ok tx" "sig_state tx = None" "32 \<le> length (object_bytes (tx_obj tx))" "length (object_bytes (tx_obj tx)) \<le> 1048576"
  shows "getSerializer (tx_obj tx) = Inr (object_bytes (tx_obj tx))"
    "\<exists>it. STTx_iter (SerialIter_of (object_bytes (tx_obj tx))) = Inr (tx, it)"
proof -
  let ?ob = "tx_obj tx" and ?x = "word_of_int (txType_code (tx_type tx)) :: 16 word"
  let ?it = "SerialIter_of (object_bytes ?ob)"
  obtain fm where fm: "findByType txFormats (Some (tx_type tx)) = Some fm" "obj_type ?ob = Some (fm_elements fm)"
    "fits_template (fm_elements fm) (obj_v ?ob)" "fields_ok (obj_v ?ob)" "peekAtPField sfTransactionType ?ob = Inr (Some (STUInt16 ?x))"
    using assms(1) by (auto simp: tx_ok_def)
  show "getSerializer ?ob = Inr (object_bytes ?ob)" using fm(4) by (rule getSerializer_bytes)
  have map: "map fst (obj_v ?ob) = map fst (fm_elements fm)" using fm(3) by (simp add: fits_template_def)
  then have d: "distinct (map (fieldCode \<circ> fst) (obj_v ?ob))" using tx_format_ok [OF fm(1)] by (metis format_ok_def map_map)
  have "peekAtPField sfTransactionType (STObject None (canon (obj_v ?ob))) = Inr (Some (STUInt16 ?x))"
    using map fm(2,5) by (intro canon_peek [OF d]) simp_all
  then have get: "getFieldU16 sfTransactionType (STObject None (canon (obj_v ?ob))) = Inr ?x" by (rule peek_version)
  have body: "STObject (Some (fm_elements fm)) (obj_v ?ob) = ?ob" using fm(2) by (cases ?ob) simp
  have "STTx_object (STObject None (canon (obj_v ?ob))) = Inr tx"
    using get findByType_tx [OF fm(1)] tx_type_of_code fm(1) setType_template [OF d fm(3)] body assms(2) by (simp add: STTx_object_def)
  moreover have "STObject_read ?it = Inr (STObject None (canon (obj_v ?ob)), si_advance (length (object_bytes ?ob)) ?it)"
    by (rule STObject_read_bytes [OF fm(4) d]) simp_all
  moreover have "si_remain ?it = length (object_bytes ?ob)" by (simp add: SerialIter_of_def)
  ultimately show "\<exists>it. STTx_iter ?it = Inr (tx, it)" using assms(3,4) by (simp add: STTx_iter_def)
qed

text \<open>A transaction that was read is typed and has the template of its type.\<close>

definition tx_typed :: "STTx \<Rightarrow> bool" where
  "tx_typed tx = (\<exists>fm. findByType txFormats (Some (tx_type tx)) = Some fm \<and> obj_type (tx_obj tx) = Some (fm_elements fm) \<and> obj_typed (tx_obj tx))"

lemma STTx_object_typed:
  assumes "obj_typed ob" "STTx_object ob = Inr tx"
  shows "tx_typed tx \<and> sig_state tx = None"
proof -
  obtain x fm ob' where x: "findByType txFormats (txType_of x) = Some fm" "STObject_setType (fm_elements fm) ob = (True, ob')"
    "tx = \<lparr>tx_obj = ob', tx_type = fm_type fm, sig_state = None\<rparr>"
    using assms(2) by (auto simp: STTx_object_def result_simps Let_def case_prod_beta prod_eq_iff split: option.splits if_splits)
  have "obj_typed ob'" using setType_keeps [of "fm_elements fm" ob] tx_format_ok [OF x(1)] assms(1) x(2) by (simp add: format_ok_def)
  moreover have "obj_type ob' = Some (fm_elements fm)" using x(2) by (auto simp: STObject_setType_def split: prod.splits)
  ultimately show ?thesis using x(1,3) findByType_Some [OF x(1)] by (simp add: tx_typed_def)
qed

lemma STTx_iter_typed: "STTx_iter it = Inr (tx, it') \<Longrightarrow> tx_typed tx \<and> sig_state tx = None"
  using STObject_read_typed STTx_object_typed by (fastforce simp: STTx_iter_def Let_def result_simps split: if_splits)

text \<open>Every transaction format has the fields of a signature.\<close>

lemma tx_template_fields:
  assumes "tx_typed tx" "f \<in> fst ` set txCommonFields"
  shows "getFieldIndex f (tx_obj tx) \<noteq> None"
proof -
  obtain fm where fm: "findByType txFormats (Some (tx_type tx)) = Some fm" "obj_type (tx_obj tx) = Some (fm_elements fm)"
    using assms(1) by (auto simp: tx_typed_def)
  obtain els where "fm_elements fm = txCommonFields @ els"
    using findByType_Some [OF fm(1)] by (auto simp: txFormats_def format_item_def)
  then have "fieldCode f \<in> (fieldCode \<circ> fst) ` set (fm_elements fm)" using assms(2) by force
  then show ?thesis using fm(2) field_position_None by (auto simp: getFieldIndex_def SOTemplate_getIndex_def)
qed

section \<open>Reads of typed objects\<close>

lemma getFlags_total:
  assumes "obj_typed ob"
  shows "\<exists>x. getFlags ob = Inr x"
proof -
  obtain r where r: "peekAtPField sfFlags ob = Inr r" using peek_typed [OF assms, of sfFlags] by blast
  show ?thesis
  proof (cases r)
    case (Some v)
    with r show ?thesis by (cases v) (simp_all add: getFlags_def)
  qed (simp add: getFlags_def r)
qed

lemma array_typed:
  assumes "obj_typed ob" "getFieldArray f ob = Inr ms"
  shows "elems_typed ms"
proof (cases "field_position (fieldCode f) (obj_v ob)")
  case None
  with assms(2) peek_typed [OF assms(1), of f] show ?thesis by (simp add: getFieldArray_def getFieldBy_def)
next
  case (Some i)
  let ?v = "snd (obj_v ob ! i)"
  have "(fst (obj_v ob ! i), ?v) \<in> set (obj_v ob)" using field_position_Some [OF Some] by simp
  then have t: "st_typed (fst (obj_v ob ! i)) ?v" using assms(1) unfolding obj_typed_iff by fastforce
  have p: "peekAtPField f ob = Inr (Some ?v)" using Some peek_typed [OF assms(1), of f] by simp
  show ?thesis using assms(2) t p by (cases ?v) (auto simp: getFieldArray_def getFieldBy_def)
qed

text \<open>The memos of an object, none when it has no such field; the check of the memos goes through them.\<close>

definition memos_of :: "STObject \<Rightarrow> (SField \<times> STObject) list" where
  "memos_of st = (case getFieldArray sfMemos st of Inr memos \<Rightarrow> memos | Inl _ \<Rightarrow> [])"

lemma memos_of_typed:
  assumes "obj_typed st"
  shows "elems_typed (memos_of st)"
  using array_typed [OF assms] by (cases "getFieldArray sfMemos st") (simp_all add: memos_of_def)

lemma memos_absent: "isFieldPresent sfMemos st = Inr False \<Longrightarrow> memos_of st = []"
  by (cases "peekAtPField sfMemos st")
    (auto simp: isFieldPresent_peek memos_of_def getFieldArray_def getFieldBy_def split: option.splits if_splits)

lemma memos_present:
  assumes "obj_typed st" "isFieldPresent sfMemos st = Inr True"
  shows "getFieldArray sfMemos st = Inr (memos_of st)"
proof -
  have "registered sfMemos" "fieldType sfMemos = STI_ARRAY"
    by (auto intro!: known_registered simp: knownFields_def) (simp add: sfMemos_def SField_named_def)
  moreover have "getFieldIndex sfMemos st \<noteq> None" using assms(2) by (auto simp: isFieldPresent_def split: option.splits)
  ultimately obtain memos where "getFieldArray sfMemos st = Inr memos" using arr.get_total [OF assms(1), of sfMemos] by auto
  then show ?thesis by (simp add: memos_of_def)
qed

lemma memo_check:
  assumes "obj_typed st"
  shows "isMemoOkay st = bind_r (st_add_array (memos_of st) []) (\<lambda>s.
    if length s > 1024 then Inr (Some ''The memo exceeds the maximum allowed size.'') else memo_array (memos_of st))"
proof -
  obtain r where "peekAtPField sfMemos st = Inr r" using peek_typed [OF assms, of sfMemos] by blast
  then obtain b where b: "isFieldPresent sfMemos st = Inr b" by (simp add: isFieldPresent_peek)
  show ?thesis
  proof (cases b)
    case True
    then show ?thesis using b memos_present [OF assms] by (simp add: isMemoOkay_def)
  next
    case False
    then show ?thesis using b memos_absent [of st] by (simp add: isMemoOkay_def)
  qed
qed

text \<open>The last argument of \<open>verify\<close> is not used.\<close>

lemma verify_ignores_flag: "st_verify pk_verify prefix mustBeFullyCanonical st = st_verify pk_verify prefix (\<not> mustBeFullyCanonical) st"
  by (simp add: st_verify_def)

end
