(* ===== verification/LedgerEntries_Spec.thy ===== *)
theory LedgerEntries_Spec
  imports LedgerEntries Ledger_Spec ApplyView_Session STEntry_Spec STTx_Spec
begin

text \<open>
  Ledgers that hold serialized objects: entries in the form of their template are written and read back by the
  ledger, so that it is a readable view and a target of raw changes for them. The skip lists of a chain of ledgers
  hold the hashes of the ledgers before.
\<close>

section \<open>Entries in a ledger\<close>

definition entry_good :: "STLedgerEntry \<Rightarrow> bool" where
  "entry_good s = (sle_ok s \<and> sle_typed s \<and> 12 \<le> length (object_bytes (sle_body s)))"

lemma entry_codec: "codec_ok entry_good entry_add STLedgerEntry_read"
  by (simp add: codec_ok_def entry_good_def entry_add_def sle_roundtrip)

lemma object_bytes_member:
  assumes "distinct (map (fieldCode \<circ> fst) (obj_v ob))" "e \<in> set (obj_v ob)" "present e"
  shows "length (fblob e) \<le> length (object_bytes ob)"
proof -
  have "e \<in> set (canon (obj_v ob))" using canon_ok(1) [OF assms(1)] assms(2,3) by simp
  then obtain xs ys where "canon (obj_v ob) = xs @ e # ys" by (auto simp: in_set_conv_decomp)
  then show ?thesis by (simp add: object_bytes_def)
qed

lemma entry_codes: "sle_typed s \<Longrightarrow> distinct (map (fieldCode \<circ> fst) (obj_v (sle_body s)))"
proof -
  assume "sle_typed s"
  then obtain fm where fm: "findByType ledgerFormats (Some (sle_type s)) = Some fm" "obj_type (sle_body s) = Some (fm_elements fm)"
    "obj_typed (sle_body s)" by (auto simp: sle_typed_def)
  then have "map fst (obj_v (sle_body s)) = map fst (fm_elements fm)" using typed_shape [OF fm(3)] by simp
  then have "map (fieldCode \<circ> fst) (obj_v (sle_body s)) = map (fieldCode \<circ> fst) (fm_elements fm)" by (metis map_map)
  then show ?thesis using ledger_format_ok [OF fm(1)] by (simp add: format_ok_def)
qed

lemma entry_bytes_field:
  assumes "sle_typed s" "registered f" "peekAtPField f (sle_body s) = Inr (Some x)" "getSType x \<noteq> STI_NOTPRESENT"
  shows "length (fblob (f, x)) \<le> length (object_bytes (sle_body s))"
proof -
  have typed: "obj_typed (sle_body s)" using assms(1) by (auto simp: sle_typed_def)
  obtain i where i: "getFieldIndex f (sle_body s) = Some i" "snd (obj_v (sle_body s) ! i) = x"
    using assms(3) getFieldIndex_Some [OF typed assms(2)] by (auto simp: peekAtPField_def split: option.splits)
  have "(f, x) \<in> set (obj_v (sle_body s))" using getFieldIndex_Some [OF typed assms(2) i(1)] i(2) by (metis nth_mem prod.collapse)
  then show ?thesis by (intro object_bytes_member [OF entry_codes [OF assms(1)]]) (use assms(4) in \<open>auto simp: present_def\<close>)
qed

lemma entry_set:
  assumes "sle_ok s" "sle_typed s" "sets f (sle_body s) ob" "registered f" "fieldCode f \<noteq> fieldCode sfLedgerEntryType"
    "\<And>v. peekAtPField f ob = Inr (Some v) \<Longrightarrow> st_ok f v"
  shows "sle_ok (s\<lparr>sle_body := ob\<rparr>)" "sle_typed (s\<lparr>sle_body := ob\<rparr>)"
  using sle_ok_set [OF assms(1) _ assms(3-6)] sle_typed_set [OF assms(2-5)] assms(2) by (auto simp: sle_typed_def)

context typed_access
begin

text \<open>Setting a field of an entry to a value with a binary form.\<close>

lemma entry_put:
  assumes s: "sle_ok s" "sle_typed s" and f: "registered f" "fieldType f = type" "fieldCode f \<noteq> fieldCode sfLedgerEntryType"
    and ix: "getFieldIndex f (sle_body s) \<noteq> None" and x: "good x" "st_ok f (make x)"
    and sets: "\<And>ob. set x f (sle_body s) = Inr ob \<Longrightarrow> sets f (sle_body s) ob"
  shows "\<exists>ob. set x f (sle_body s) = Inr ob \<and> sle_ok (s\<lparr>sle_body := ob\<rparr>) \<and> sle_typed (s\<lparr>sle_body := ob\<rparr>) \<and>
    peekAtPField f ob = Inr (Some (make x)) \<and> get f ob = Inr x \<and>
    (\<forall>g. fieldCode g \<noteq> fieldCode f \<longrightarrow> peekAtPField g ob = peekAtPField g (sle_body s)) \<and> obj_type ob = obj_type (sle_body s)"
proof -
  have typed: "obj_typed (sle_body s)" using s(2) by (auto simp: sle_typed_def)
  have acc: "accepts f (sle_body s)" using ix by (simp add: accepts_def)
  let ?ob = "field_put f (make x) (sle_body s)"
  have run: "set x f (sle_body s) = Inr ?ob" using set_put [OF typed f(1,2)] acc by simp
  have p: "peekAtPField f ?ob = Inr (Some (make x))" using peek_put [OF typed f(1) make_type(2) [OF x(1) f(2)] acc, of f] by simp
  have "sle_ok (s\<lparr>sle_body := ?ob\<rparr>)" "sle_typed (s\<lparr>sle_body := ?ob\<rparr>)"
    using entry_set [OF s sets [OF run] f(1,3)] p x(2) by auto
  with run p set_get [OF typed f(1,2) x(1) run] field_put_type [OF ix] show ?thesis by blast
qed

end

section \<open>Skip list entries\<close>

definition skip_entry :: "uint256 list \<Rightarrow> 32 word \<Rightarrow> STLedgerEntry \<Rightarrow> bool" where
  "skip_entry hs lastSeq s = (entry_good s \<and> sle_type s = ltLEDGER_HASHES \<and>
     getFieldV256 sfHashes (sle_body s) = Inr hs \<and> getFieldU32 sfLastLedgerSequence (sle_body s) = Inr lastSeq)"

lemma skip_fields:
  "registered sfHashes" "fieldType sfHashes = STI_VECTOR256" "registered sfLastLedgerSequence" "fieldType sfLastLedgerSequence = STI_UINT32"
  "fieldCode sfHashes \<noteq> fieldCode sfLastLedgerSequence" "fieldCode sfHashes \<noteq> fieldCode sfLedgerEntryType"
  "fieldCode sfLastLedgerSequence \<noteq> fieldCode sfLedgerEntryType"
  by (auto intro!: known_registered simp: knownFields_def)
    (simp_all add: sfHashes_def sfLastLedgerSequence_def sfLedgerEntryType_def SField_named_def field_code_def)

lemma skip_wire: "wire_field sfHashes" "wire_field sfLastLedgerSequence"
  by (rule known_wire; simp add: knownFields_def on_wire_def sfHashes_def sfLastLedgerSequence_def SField_named_def)+

lemma skip_template:
  "case findByType ledgerFormats (Some ltLEDGER_HASHES) of None \<Rightarrow> False
   | Some fm \<Rightarrow> SOTemplate_getIndex sfHashes (fm_elements fm) \<noteq> None \<and> SOTemplate_getIndex sfLastLedgerSequence (fm_elements fm) \<noteq> None"
  by code_simp

lemma skip_index:
  assumes "sle_typed s" "sle_type s = ltLEDGER_HASHES"
  shows "getFieldIndex sfHashes (sle_body s) \<noteq> None" "getFieldIndex sfLastLedgerSequence (sle_body s) \<noteq> None"
  using assms skip_template by (auto simp: sle_typed_def getFieldIndex_def)

lemma skip_set:
  assumes s: "sle_ok s" "sle_typed s" "sle_type s = ltLEDGER_HASHES" and hs: "hs \<noteq> []" "length hs \<le> 257"
  shows "\<exists>ob1 ob2. setFieldV256 hs sfHashes (sle_body s) = Inr ob1 \<and> setFieldU32 lastSeq sfLastLedgerSequence ob1 = Inr ob2 \<and>
    skip_entry hs lastSeq (s\<lparr>sle_body := ob2\<rparr>)"
proof -
  note f = skip_fields
  have "st_ok sfHashes (STVector256 hs)" using f(2) skip_wire(1) hs(2) by simp
  from v256.entry_put [OF s(1,2) f(1,2,6) skip_index(1) [OF s(2,3)] TrueI this] s_setFieldV256
  obtain ob1 where 1: "setFieldV256 hs sfHashes (sle_body s) = Inr ob1" "sle_ok (s\<lparr>sle_body := ob1\<rparr>)" "sle_typed (s\<lparr>sle_body := ob1\<rparr>)"
    "peekAtPField sfHashes ob1 = Inr (Some (STVector256 hs))" by blast
  let ?s1 = "s\<lparr>sle_body := ob1\<rparr>"
  have "st_ok sfLastLedgerSequence (STUInt32 lastSeq)" "getFieldIndex sfLastLedgerSequence (sle_body ?s1) \<noteq> None"
    using f(4) skip_wire(2) skip_index(2) [OF 1(3)] s(3) by simp_all
  from u32.entry_put [OF 1(2,3) f(3,4,7) this(2) TrueI this(1)] s_setFieldU32
  obtain ob2 where 2: "setFieldU32 lastSeq sfLastLedgerSequence ob1 = Inr ob2" "sle_ok (s\<lparr>sle_body := ob2\<rparr>)" "sle_typed (s\<lparr>sle_body := ob2\<rparr>)"
    "getFieldU32 sfLastLedgerSequence ob2 = Inr lastSeq" "peekAtPField sfHashes ob2 = peekAtPField sfHashes ob1" using f(5) by auto
  have h: "peekAtPField sfHashes ob2 = Inr (Some (STVector256 hs))" using 1(4) 2(5) by simp
  have "12 \<le> length (fblob (sfHashes, STVector256 hs))" using hs(1) by (cases hs) (simp_all add: fblob_def vl_bytes_def)
  also have "\<dots> \<le> length (object_bytes ob2)" using entry_bytes_field [OF 2(3) f(1), of "STVector256 hs"] h by simp
  finally have "entry_good (s\<lparr>sle_body := ob2\<rparr>)" using 2(2,3) by (simp add: entry_good_def)
  moreover have "getFieldV256 sfHashes ob2 = Inr hs" using h by (simp add: getFieldV256_def getFieldBy_def)
  ultimately show ?thesis using 1(1) 2(1,4) s(3) by (auto simp: skip_entry_def)
qed

abbreviation entry_inv :: "Ledger \<Rightarrow> bool" where
  "entry_inv \<equiv> lg_inv entry_good entry_add STLedgerEntry_read"

abbreviation entries :: "Ledger \<Rightarrow> uint256 \<rightharpoonup> STLedgerEntry" where
  "entries \<equiv> lg_contents STLedgerEntry_read"

text \<open>An update appends the hash to the list of the entry, which it makes when there is none.\<close>

lemma skip_update_ok:
  assumes inv: "entry_inv l" and k: "kl_type k = ltLEDGER_HASHES" "kl_key k \<noteq> 0" and len: "length hs \<le> 256"
    and old: "case entries l (kl_key k) of None \<Rightarrow> hs = [] | Some s \<Rightarrow> \<exists>lastSeq. skip_entry hs lastSeq s"
  shows "\<exists>m e. skip_update sha k limited parentHash prevIndex l = Inr (l\<lparr>lg_stateMap := m\<rparr>) \<and> entry_inv (l\<lparr>lg_stateMap := m\<rparr>) \<and>
    skip_entry ((if limited \<and> length hs = 256 then tl hs else hs) @ [parentHash]) prevIndex e \<and>
    entries (l\<lparr>lg_stateMap := m\<rparr>) = (entries l)(kl_key k \<mapsto> e) \<and> sm_state m = sm_state (lg_stateMap l)"
proof -
  let ?hs = "(if limited \<and> length hs = 256 then tl hs else hs) @ [parentHash]"
  have ok: "lg_ok entry_good entry_add STLedgerEntry_read l" using inv by (simp add: lg_inv_def)
  have peek: "lg_peek STLedgerEntry_read k l = checked k (entries l (kl_key k))"
    using lg_read_spec [OF ok k(2)] k(2) by (simp add: lg_read_def lg_peek_def)
  have hs: "?hs \<noteq> []" "length ?hs \<le> 257" using len by auto
  show ?thesis
  proof (cases "entries l (kl_key k)")
    case None
    obtain s where s: "STLedgerEntry_keylet k = Inr s" "sle_key s = kl_key k" "sle_type s = ltLEDGER_HASHES"
      using keylet_typed [of k] k(1) by (auto simp: ledger_types_def)
    obtain ob1 ob2 where ob: "setFieldV256 ?hs sfHashes (sle_body s) = Inr ob1" "setFieldU32 prevIndex sfLastLedgerSequence ob1 = Inr ob2"
      "skip_entry ?hs prevIndex (s\<lparr>sle_body := ob2\<rparr>)" using skip_set [OF _ _ s(3) hs] keylet_ok [OF s(1)] by blast
    have run: "skip_update sha k limited parentHash prevIndex l = lg_rawInsert entry_add [s\<lparr>sle_body := ob2\<rparr>] 0 l"
      using None old ob(1,2) s(1) by (simp add: skip_update_def peek checked_def led_assert_def)
    have "entry_good (s\<lparr>sle_body := ob2\<rparr>)" using ob(3) by (simp add: skip_entry_def)
    then obtain m where "lg_rawInsert entry_add [s\<lparr>sle_body := ob2\<rparr>] 0 l = Inr (l\<lparr>lg_stateMap := m\<rparr>)" "entry_inv (l\<lparr>lg_stateMap := m\<rparr>)"
      "entries (l\<lparr>lg_stateMap := m\<rparr>) = (entries l)(kl_key k \<mapsto> s\<lparr>sle_body := ob2\<rparr>)" "sm_state m = sm_state (lg_stateMap l)"
      using lg_insert_ok [OF inv, of "[s\<lparr>sle_body := ob2\<rparr>]" 0] s(2) k(2) None by auto
    with ob(3) show ?thesis unfolding run by blast
  next
    case (Some s)
    then obtain lastSeq where e: "skip_entry hs lastSeq s" using old by auto
    then have s: "sle_ok s" "sle_typed s" "sle_type s = ltLEDGER_HASHES" "getFieldV256 sfHashes (sle_body s) = Inr hs"
      by (simp_all add: skip_entry_def entry_good_def)
    have key: "sle_key s = kl_key k" using view_ok_read [OF ledger_view.promise [OF ok]] Some by (auto simp: read_ok_def keyed_def)
    obtain ob1 ob2 where ob: "setFieldV256 ?hs sfHashes (sle_body s) = Inr ob1" "setFieldU32 prevIndex sfLastLedgerSequence ob1 = Inr ob2"
      "skip_entry ?hs prevIndex (s\<lparr>sle_body := ob2\<rparr>)" using skip_set [OF s(1-3) hs] by blast
    have run: "skip_update sha k limited parentHash prevIndex l = lg_rawReplace sha entry_add [s\<lparr>sle_body := ob2\<rparr>] 0 l"
      using Some ob(1,2) s(3,4) k(1) len by (simp add: skip_update_def peek checked_def keylet_check_def led_assert_def Let_def)
    have "entry_good (s\<lparr>sle_body := ob2\<rparr>)" using ob(3) by (simp add: skip_entry_def)
    then obtain m where "lg_rawReplace sha entry_add [s\<lparr>sle_body := ob2\<rparr>] 0 l = Inr (l\<lparr>lg_stateMap := m\<rparr>)" "entry_inv (l\<lparr>lg_stateMap := m\<rparr>)"
      "entries (l\<lparr>lg_stateMap := m\<rparr>) = (entries l)(kl_key k \<mapsto> s\<lparr>sle_body := ob2\<rparr>)" "sm_state m = sm_state (lg_stateMap l)"
      using lg_replace_ok [OF inv, of "[s\<lparr>sle_body := ob2\<rparr>]" 0 sha] key Some by auto
    with ob(3) show ?thesis unfolding run by blast
  qed
qed

section \<open>The ledgers that are multiples of 256\<close>

definition indices256 :: "nat \<Rightarrow> nat \<Rightarrow> nat \<Rightarrow> nat list" where
  "indices256 g s0 n = filter (\<lambda>s. s mod 256 = 0 \<and> s div 65536 = g) [s0..<s0 + n]"

lemma ceil256: "(x + 255) div 256 \<le> j \<longleftrightarrow> x \<le> 256 * j" "j < (x + 255) div 256 \<longleftrightarrow> 256 * j < x" for x j :: nat
  by linarith+

lemma group256: "(256 * j) div 65536 = g \<longleftrightarrow> 256 * g \<le> j \<and> j < 256 * Suc g" for j g :: nat
proof -
  have "(256 * j) div 65536 = (256 * j) div (256 * 256)" by simp
  also have "\<dots> = j div 256" unfolding div_mult2_eq by simp
  also have "j div 256 = g \<longleftrightarrow> 256 * g \<le> j \<and> j < 256 * Suc g" by (auto intro: div_nat_eqI dividend_less_times_div [of 256, simplified])
  finally show ?thesis .
qed

lemma indices256_map:
  "indices256 g s0 n = map ((*) 256) [max ((s0 + 255) div 256) (256 * g)..<min ((s0 + n + 255) div 256) (256 * Suc g)]" (is "_ = map _ [?lo..<?hi]")
proof (rule sorted_distinct_set_unique)
  show "sorted (indices256 g s0 n)" "distinct (indices256 g s0 n)" by (simp_all add: indices256_def sorted_wrt_filter)
  show "sorted (map ((*) 256) [?lo..<?hi])" by (simp add: sorted_map)
  show "distinct (map ((*) 256) [?lo..<?hi])" by (simp add: distinct_map inj_on_def)
  have "s \<in> set (indices256 g s0 n) \<longleftrightarrow> s \<in> (*) 256 ` {?lo..<?hi}" for s
  proof
    assume "s \<in> set (indices256 g s0 n)"
    then have s: "s0 \<le> s" "s < s0 + n" "s mod 256 = 0" "s div 65536 = g" by (auto simp: indices256_def)
    then obtain j where e: "s = 256 * j" by (auto simp: mod_eq_0_iff_dvd)
    have "?lo \<le> j" "j < ?hi" using s(1,2,4) ceil256(1) [of s0 j] ceil256(2) [of j "s0 + n"] group256 [of j g] by (simp_all add: e)
    with e show "s \<in> (*) 256 ` {?lo..<?hi}" by simp
  next
    assume "s \<in> (*) 256 ` {?lo..<?hi}"
    then obtain j where "s = 256 * j" "?lo \<le> j" "j < ?hi" by auto
    then have "s0 \<le> s" "s < s0 + n" "s mod 256 = 0" "s div 65536 = g" using ceil256(1) [of s0 j] ceil256(2) [of j "s0 + n"] group256 [of j g] by simp_all
    then show "s \<in> set (indices256 g s0 n)" by (simp add: indices256_def)
  qed
  then show "set (indices256 g s0 n) = set (map ((*) 256) [?lo..<?hi])" by auto
qed

lemma indices256_length: "length (indices256 g s0 n) \<le> 256"
  by (simp add: indices256_map)

lemma indices256_Suc: "indices256 g s0 (Suc n) = indices256 g s0 n @ (if (s0 + n) mod 256 = 0 \<and> (s0 + n) div 65536 = g then [s0 + n] else [])"
  by (simp add: indices256_def)

section \<open>Keys of the skip lists\<close>

definition group_key :: "(Blob \<Rightarrow> uint256) \<Rightarrow> nat \<Rightarrow> uint256" where
  "group_key sha g = sha (index_bytes spaceSkipList (be_bytes 4 (of_nat g :: 32 word)))"

text \<open>What is assumed of the digest: it is not zero and does not collide on the keys of the skip lists.\<close>

definition skip_keys :: "(Blob \<Rightarrow> uint256) \<Rightarrow> bool" where
  "skip_keys sha = (getLedgerHashIndex sha \<noteq> 0 \<and> (\<forall>g < 65536. group_key sha g \<noteq> 0 \<and> group_key sha g \<noteq> getLedgerHashIndex sha) \<and>
     inj_on (group_key sha) {..<65536})"

lemma seq_unat [simp]: "p < 4294967296 \<Longrightarrow> unat (of_nat p :: 32 word) = p"
  by (simp add: unat_of_nat take_bit_nat_eq_self_iff)

lemma seq_low: "p < 4294967296 \<Longrightarrow> (of_nat p :: 32 word) AND 0xFF = 0 \<longleftrightarrow> p mod 256 = 0"
proof -
  assume "p < 4294967296"
  moreover have "(of_nat p :: 32 word) AND 0xFF = take_bit 8 (of_nat p)" by (simp add: take_bit_eq_mask mask_eq_exp_minus_1)
  ultimately show ?thesis by (simp add: word_unat_eq_iff unsigned_take_bit_eq take_bit_nat_def)
qed

lemma seq_group: "p < 4294967296 \<Longrightarrow> getLedgerHashIndex_of sha (of_nat p) = group_key sha (p div 65536)"
proof -
  assume p: "p < 4294967296"
  then have "drop_bit 16 (of_nat p :: 32 word) = of_nat (p div 65536)"
    by (intro word_unat_eq_iff [THEN iffD2]) (simp add: unsigned_drop_bit_eq drop_bit_nat_def take_bit_nat_eq_self less_mult_imp_div_less)
  then show ?thesis by (simp add: getLedgerHashIndex_of_def group_key_def)
qed

lemma skip_keysD:
  assumes "skip_keys sha"
  shows "getLedgerHashIndex sha \<noteq> 0" "g < 65536 \<Longrightarrow> group_key sha g \<noteq> 0" "g < 65536 \<Longrightarrow> group_key sha g \<noteq> getLedgerHashIndex sha"
    "g < 65536 \<Longrightarrow> g' < 65536 \<Longrightarrow> group_key sha g = group_key sha g' \<longleftrightarrow> g = g'"
  using assms unfolding skip_keys_def by (auto dest: inj_onD)

section \<open>What the skip lists hold\<close>

text \<open>
  \<open>hs\<close> are the hashes of the ledgers from number \<open>s0\<close> up to the one before the ledger: the last 256 are in one
  entry, and for every block of 65536 numbers those of the multiples of 256 are in another.
\<close>

definition skips_ok :: "(Blob \<Rightarrow> uint256) \<Rightarrow> nat \<Rightarrow> uint256 list \<Rightarrow> (uint256 \<rightharpoonup> STLedgerEntry) \<Rightarrow> bool" where
  "skips_ok sha s0 hs m =
     ((case m (getLedgerHashIndex sha) of
         None \<Rightarrow> hs = []
       | Some e \<Rightarrow> hs \<noteq> [] \<and> skip_entry (drop (length hs - 256) hs) (of_nat (s0 + length hs - 1)) e) \<and>
      (\<forall>g < 65536. let r = indices256 g s0 (length hs) in case m (group_key sha g) of
         None \<Rightarrow> r = []
       | Some e \<Rightarrow> r \<noteq> [] \<and> skip_entry (map (\<lambda>s. hs ! (s - s0)) r) (of_nat (last r)) e))"

lemma indices256_mem: "s \<in> set (indices256 g s0 n) \<longleftrightarrow> s0 \<le> s \<and> s < s0 + n \<and> s mod 256 = 0 \<and> s div 65536 = g"
  by (auto simp: indices256_def)

lemma indices256_hashes:
  "map (\<lambda>s. (hs @ [x]) ! (s - s0)) (indices256 g s0 (length hs)) = map (\<lambda>s. hs ! (s - s0)) (indices256 g s0 (length hs))"
  by (auto simp: indices256_mem nth_append)

lemma skips_group_step:
  assumes "skip_keys sha" "skips_ok sha s0 hs m" "s0 + length hs < 4294967296" "g < 65536"
    and m': "\<forall>g' < 65536. m' (group_key sha g') = (if (s0 + length hs) mod 256 = 0 \<and> (s0 + length hs) div 65536 = g' then Some e else m (group_key sha g'))"
    and e: "(s0 + length hs) mod 256 = 0 \<Longrightarrow>
      skip_entry (map (\<lambda>s. hs ! (s - s0)) (indices256 ((s0 + length hs) div 65536) s0 (length hs)) @ [x]) (of_nat (s0 + length hs)) e"
  shows "let r = indices256 g s0 (length (hs @ [x])) in case m' (group_key sha g) of
         None \<Rightarrow> r = []
       | Some e \<Rightarrow> r \<noteq> [] \<and> skip_entry (map (\<lambda>s. (hs @ [x]) ! (s - s0)) r) (of_nat (last r)) e"
proof -
  let ?p = "s0 + length hs"
  have old: "case m (group_key sha g) of None \<Rightarrow> indices256 g s0 (length hs) = []
       | Some e \<Rightarrow> indices256 g s0 (length hs) \<noteq> [] \<and> skip_entry (map (\<lambda>s. hs ! (s - s0)) (indices256 g s0 (length hs))) (of_nat (last (indices256 g s0 (length hs)))) e"
    using assms(2,4) by (simp add: skips_ok_def Let_def)
  show ?thesis
  proof (cases "?p mod 256 = 0 \<and> ?p div 65536 = g")
    case True
    then show ?thesis using m' assms(4) e by (simp add: indices256_Suc indices256_hashes)
  next
    case False
    have r: "indices256 g s0 (length (hs @ [x])) = indices256 g s0 (length hs)" using False by (auto simp: indices256_Suc)
    have "m' (group_key sha g) = m (group_key sha g)" using m' assms(4) False by auto
    then show ?thesis unfolding r using old by (simp only: Let_def indices256_hashes)
  qed
qed

lemma drop_recent: "(let d = drop (length hs - 256) hs in (if length d = 256 then tl d else d) @ [x]) = drop (length (hs @ [x]) - 256) (hs @ [x])"
proof (cases "length hs < 256")
  case False
  then have "Suc (length hs - 256) = length hs - 255" by simp
  with False show ?thesis by (simp add: Let_def tl_drop flip: drop_Suc)
qed simp

lemma updateSkipList_ok:
  assumes keys: "skip_keys sha" and inv: "entry_inv l" and sk: "skips_ok sha s0 hs (entries l)"
    and seq: "li_seq (lg_info l) = of_nat (Suc (s0 + length hs))" "Suc (s0 + length hs) < 4294967296"
  shows "\<exists>m. updateSkipList sha l = Inr (l\<lparr>lg_stateMap := m\<rparr>) \<and> entry_inv (l\<lparr>lg_stateMap := m\<rparr>) \<and>
    skips_ok sha s0 (hs @ [li_parentHash (lg_info l)]) (entries (l\<lparr>lg_stateMap := m\<rparr>)) \<and> sm_state m = sm_state (lg_stateMap l)"
proof -
  define p where "p = s0 + length hs"
  let ?x = "li_parentHash (lg_info l)"
  let ?g = "p div 65536" and ?k = "getLedgerHashIndex sha"
  have p: "p < 4294967296" "?g < 65536" using seq(2) by (auto simp: p_def)
  have nz: "li_seq (lg_info l) \<noteq> 0" using seq by (simp add: word_unat_eq_iff p_def del: of_nat_Suc of_nat_add)
  have prev: "li_seq (lg_info l) - 1 = of_nat p" using seq(1) by (simp add: p_def)
  obtain m1 e where m1: "(if (of_nat p :: 32 word) AND 0xFF = 0 then skip_update sha (keylet_skip_of sha (of_nat p)) False ?x (of_nat p) l else Inr l) =
      Inr (l\<lparr>lg_stateMap := m1\<rparr>)" "entry_inv (l\<lparr>lg_stateMap := m1\<rparr>)"
    "entries (l\<lparr>lg_stateMap := m1\<rparr>) = (if p mod 256 = 0 then (entries l)(group_key sha ?g \<mapsto> e) else entries l)" "sm_state m1 = sm_state (lg_stateMap l)"
    "p mod 256 = 0 \<Longrightarrow> skip_entry (map (\<lambda>s. hs ! (s - s0)) (indices256 ?g s0 (length hs)) @ [?x]) (of_nat p) e"
  proof (cases "p mod 256 = 0")
    case True
    let ?kl = "keylet_skip_of sha (of_nat p)"
    have kl: "kl_type ?kl = ltLEDGER_HASHES" "kl_key ?kl = group_key sha ?g" by (simp_all add: keylet_skip_of_def seq_group p)
    have "case entries l (kl_key ?kl) of None \<Rightarrow> map (\<lambda>s. hs ! (s - s0)) (indices256 ?g s0 (length hs)) = []
      | Some s \<Rightarrow> \<exists>lastSeq. skip_entry (map (\<lambda>s. hs ! (s - s0)) (indices256 ?g s0 (length hs))) lastSeq s"
      using sk p(2) unfolding kl(2) skips_ok_def Let_def by (auto split: option.splits)
    from skip_update_ok [OF inv kl(1) _ _ this, of sha False ?x "of_nat p"] skip_keysD(2) [OF keys p(2)] kl(2) indices256_length
    show ?thesis using that True seq_low [OF p(1)] by auto
  next
    case False
    then show ?thesis using that [of "lg_stateMap l"] seq_low [OF p(1)] inv by simp
  qed
  let ?l1 = "l\<lparr>lg_stateMap := m1\<rparr>" and ?d = "drop (length hs - 256) hs"
  have same: "entries ?l1 ?k = entries l ?k" using skip_keysD(3) [OF keys p(2)] by (simp add: m1(3))
  have old: "case entries ?l1 (kl_key (keylet_skip sha)) of None \<Rightarrow> ?d = [] | Some s \<Rightarrow> \<exists>lastSeq. skip_entry ?d lastSeq s"
    using sk unfolding skips_ok_def by (auto simp: keylet_skip_def same split: option.splits)
  have kl: "kl_type (keylet_skip sha) = ltLEDGER_HASHES" "kl_key (keylet_skip sha) = ?k" by (simp_all add: keylet_skip_def)
  have "kl_key (keylet_skip sha) \<noteq> 0" "length ?d \<le> 256" using skip_keysD(1) [OF keys] by (simp_all add: kl(2))
  from skip_update_ok [OF m1(2) kl(1) this old, of sha True ?x "of_nat p"]
  obtain m2 e2 where m2: "skip_update sha (keylet_skip sha) True ?x (of_nat p) ?l1 = Inr (?l1\<lparr>lg_stateMap := m2\<rparr>)" "entry_inv (?l1\<lparr>lg_stateMap := m2\<rparr>)"
    "skip_entry ((if True \<and> length ?d = 256 then tl ?d else ?d) @ [?x]) (of_nat p) e2"
    "entries (?l1\<lparr>lg_stateMap := m2\<rparr>) = (entries ?l1)(?k \<mapsto> e2)" "sm_state m2 = sm_state m1" unfolding kl(2) by auto
  have e2: "skip_entry (drop (length (hs @ [?x]) - 256) (hs @ [?x])) (of_nat p) e2"
    using m2(3) drop_recent [of hs ?x] by (simp only: Let_def simp_thms)
  have grp: "\<forall>g' < 65536. entries (?l1\<lparr>lg_stateMap := m2\<rparr>) (group_key sha g') =
      (if p mod 256 = 0 \<and> p div 65536 = g' then Some e else entries l (group_key sha g'))"
    unfolding m2(4) m1(3) using skip_keysD(3,4) [OF keys] p(2) by auto
  have "skips_ok sha s0 (hs @ [?x]) (entries (?l1\<lparr>lg_stateMap := m2\<rparr>))"
    unfolding skips_ok_def
  proof (intro conjI)
    show "case entries (?l1\<lparr>lg_stateMap := m2\<rparr>) ?k of None \<Rightarrow> hs @ [?x] = []
      | Some e \<Rightarrow> hs @ [?x] \<noteq> [] \<and> skip_entry (drop (length (hs @ [?x]) - 256) (hs @ [?x])) (of_nat (s0 + length (hs @ [?x]) - 1)) e"
      unfolding m2(4) using e2 by (simp add: p_def)
  qed (use skips_group_step [OF keys sk p(1) [unfolded p_def] _ grp [unfolded p_def] m1(5) [unfolded p_def]] in blast)
  moreover have "updateSkipList sha l = Inr (l\<lparr>lg_stateMap := m2\<rparr>)" using nz prev m1(1) m2(1) by (simp add: updateSkipList_def Let_def)
  ultimately show ?thesis using m1(4) m2(2,5) by auto
qed

section \<open>Finding the hash of an earlier ledger\<close>

lemma skip_read:
  assumes "read_ok h view m" "kl_type k = ltLEDGER_HASHES" "kl_key k \<noteq> 0" "\<And>s. m (kl_key k) = Some s \<Longrightarrow> sle_type s = ltLEDGER_HASHES"
  shows "rv_read view h k = Inr (m (kl_key k))"
  using assms by (cases "m (kl_key k)") (auto simp: read_ok_def checked_def keylet_check_def led_assert_def)

lemma skip_recent_spec:
  assumes "skip_keys sha" "read_ok h view m" "skips_ok sha s0 hs m" "hs \<noteq> []" "li_seq (rv_info view) = of_nat (s0 + length hs)"
    "- (2 ^ 31) \<le> diff" "diff \<le> 256" "diff \<noteq> 0"
  shows "skip_recent sha view h diff = Inr (if 0 < diff \<and> diff \<le> int (length hs) then Some (hs ! (length hs - nat diff)) else None)"
proof -
  let ?d = "drop (length hs - 256) hs"
  obtain e where e: "m (getLedgerHashIndex sha) = Some e" "skip_entry ?d (of_nat (s0 + length hs - 1)) e"
    using assms(3,4) by (auto simp: skips_ok_def split: option.splits)
  have "rv_read view h (keylet_skip sha) = Inr (Some e)"
    using skip_read [OF assms(2), of "keylet_skip sha"] skip_keysD(1) [OF assms(1)] e by (simp add: keylet_skip_def skip_entry_def)
  moreover have "of_nat (s0 + length hs - 1) = (of_nat (s0 + length hs) - 1 :: 32 word)" using assms(4) by (simp add: of_nat_diff Suc_le_eq)
  ultimately have r: "skip_recent sha view h diff =
      (if int (length ?d) \<ge> diff mod 2 ^ 64 then bind_r (vec_at ?d (int (length ?d) - diff)) (\<lambda>x. Inr (Some x)) else Inr None)"
    using e(2) assms(5) by (simp add: skip_recent_def skip_entry_def led_assert_def)
  show ?thesis
  proof (cases "0 < diff")
    case True
    then have "diff mod 2 ^ 64 = diff" using assms(7) by simp
    moreover have "?d ! nat (int (length ?d) - diff) = hs ! (length hs - nat diff)" if "diff \<le> int (length hs)"
      using that True assms(7) by (simp add: nat_diff_distrib' nth_drop)
    ultimately show ?thesis unfolding r using True assms(7) by (auto simp: vec_at_def)
  next
    case False
    then have "diff mod 2 ^ 64 = diff + 2 ^ 64" using assms(6,8) mod_pos_pos_trivial [of "diff + 2 ^ 64" "2 ^ 64"] by simp
    moreover have "int (length ?d) \<le> 256" by simp
    ultimately have "\<not> int (length ?d) \<ge> diff mod 2 ^ 64" using assms(6) by (simp del: length_drop)
    then show ?thesis unfolding r using False by (simp only: if_False) simp
  qed
qed

text \<open>The list of a block is found from its end.\<close>

lemma indices256_last:
  assumes "indices256 g s0 n \<noteq> []" "q \<le> last (indices256 g s0 n)" "q mod 256 = 0" "q div 65536 = g"
  shows "s0 \<le> q \<longleftrightarrow> (last (indices256 g s0 n) - q) div 256 < length (indices256 g s0 n)"
    and "s0 \<le> q \<Longrightarrow> indices256 g s0 n ! (length (indices256 g s0 n) - (last (indices256 g s0 n) - q) div 256 - 1) = q"
proof -
  obtain lo hi where r: "indices256 g s0 n = map ((*) 256) [lo..<hi]" "lo = max ((s0 + 255) div 256) (256 * g)" using indices256_map by blast
  have lt: "lo < hi" using assms(1) by (simp add: r(1))
  obtain j where j: "q = 256 * j" using assms(3) by (auto simp: mod_eq_0_iff_dvd)
  have l: "last (indices256 g s0 n) = 256 * (hi - 1)" using lt by (simp add: r(1) last_map last_upt)
  have jh: "j \<le> hi - 1" using assms(2) by (simp add: l j)
  have d: "(last (indices256 g s0 n) - q) div 256 = hi - 1 - j" by (simp add: l j flip: diff_mult_distrib2)
  have "s0 \<le> q \<longleftrightarrow> lo \<le> j" using ceil256(1) [of s0 j] group256 [of j g] assms(4) by (simp add: r(2) j)
  then show "s0 \<le> q \<longleftrightarrow> (last (indices256 g s0 n) - q) div 256 < length (indices256 g s0 n)"
    unfolding d using jh lt by (simp add: r(1)) linarith
  show "indices256 g s0 n ! (length (indices256 g s0 n) - (last (indices256 g s0 n) - q) div 256 - 1) = q" if "s0 \<le> q"
  proof -
    have "lo \<le> j" using that \<open>s0 \<le> q \<longleftrightarrow> lo \<le> j\<close> by simp
    then show ?thesis unfolding d using jh lt by (simp add: r(1) j)
  qed
qed

lemma seq_diff: "q \<le> a \<Longrightarrow> a < 4294967296 \<Longrightarrow> uint (drop_bit 8 (of_nat a - of_nat q :: 32 word)) = int ((a - q) div 256)"
proof -
  assume a: "q \<le> a" "a < 4294967296"
  then have e: "(of_nat a - of_nat q :: 32 word) = of_nat (a - q)" by (simp add: of_nat_diff)
  have "unat (drop_bit 8 (of_nat (a - q) :: 32 word)) = (a - q) div 256"
    using a by (simp add: unsigned_drop_bit_eq drop_bit_nat_def take_bit_nat_eq_self del: of_nat_diff)
  then show ?thesis unfolding e by (simp add: uint_nat del: of_nat_diff)
qed

lemma skip_every256_spec:
  assumes "skip_keys sha" "read_ok h view m" "skips_ok sha s0 hs m" "s0 + length hs < 4294967296" "q < s0 + length hs" "q mod 256 = 0"
  shows "skip_every256 sha view h (of_nat q) = Inr (if s0 \<le> q then Some (hs ! (q - s0)) else None)"
proof -
  let ?g = "q div 65536" and ?kl = "keylet_skip_of sha (of_nat q)"
  let ?r = "indices256 ?g s0 (length hs)"
  have q: "q < 4294967296" "?g < 65536" using assms(4,5) by auto
  have kl: "kl_type ?kl = ltLEDGER_HASHES" "kl_key ?kl = group_key sha ?g" by (simp_all add: keylet_skip_of_def seq_group q)
  have nz: "kl_key ?kl \<noteq> 0" using skip_keysD(2) [OF assms(1) q(2)] by (simp add: kl(2))
  have e: "case m (group_key sha ?g) of None \<Rightarrow> ?r = []
      | Some e \<Rightarrow> ?r \<noteq> [] \<and> skip_entry (map (\<lambda>s. hs ! (s - s0)) ?r) (of_nat (last ?r)) e" using assms(3) q(2) by (simp add: skips_ok_def Let_def)
  have read: "rv_read view h ?kl = Inr (m (group_key sha ?g))"
    using skip_read [OF assms(2) kl(1) nz] e unfolding kl(2) by (cases "m (group_key sha ?g)") (simp_all add: skip_entry_def)
  have mem: "q \<in> set ?r" if "s0 \<le> q" using that assms(5,6) by (simp add: indices256_mem)
  show ?thesis
  proof (cases "m (group_key sha ?g)")
    case None
    then show ?thesis using read mem e by (auto simp: skip_every256_def)
  next
    case (Some s)
    let ?a = "last ?r"
    have s: "?r \<noteq> []" "skip_entry (map (\<lambda>s. hs ! (s - s0)) ?r) (of_nat ?a) s" using e Some by simp_all
    have a: "?a \<in> set ?r" using s(1) by simp
    then have a': "s0 \<le> ?a" "?a < 4294967296" "?a mod 256 = 0" using assms(4) by (simp_all add: indices256_mem)
    have qa: "q \<le> ?a"
    proof (cases "s0 \<le> q")
      case True
      have "sorted ?r" by (simp add: indices256_def sorted_wrt_filter)
      moreover obtain i where "i < length ?r" "?r ! i = q" using mem [OF True] by (auto simp: in_set_conv_nth)
      ultimately show ?thesis using sorted_nth_mono [of ?r i "length ?r - 1"] by (simp add: last_conv_nth s(1))
    qed (use a'(1) in simp)
    note il = indices256_last [OF s(1) qa assms(6) refl]
    have run: "skip_every256 sha view h (of_nat q) =
        (if int (length ?r) > int ((?a - q) div 256) then bind_r (vec_at (map (\<lambda>s. hs ! (s - s0)) ?r) (int (length ?r) - int ((?a - q) div 256) - 1)) (\<lambda>x. Inr (Some x))
         else Inr None)"
      using s(2) qa a'(2) q(1) by (simp add: skip_every256_def read Some skip_entry_def led_assert_def word_le_nat_alt seq_low [OF a'(2)] a'(3) seq_diff [OF qa a'(2)])
    show ?thesis
    proof (cases "s0 \<le> q")
      case True
      then have lt: "(?a - q) div 256 < length ?r" using il(1) by simp
      have n: "nat (int (length ?r) - int ((?a - q) div 256) - 1) = length ?r - (?a - q) div 256 - 1" using lt by linarith
      have "length ?r - (?a - q) div 256 - 1 < length ?r" using s(1) by (simp add: diff_less Suc_le_eq)
      then have "map (\<lambda>s. hs ! (s - s0)) ?r ! (length ?r - (?a - q) div 256 - 1) = hs ! (q - s0)" by (simp only: nth_map il(2) [OF True])
      then show ?thesis unfolding run using True lt n by (simp add: vec_at_def)
    next
      case False
      then show ?thesis unfolding run using il(1) by simp
    qed
  qed
qed

lemma to_int32_wrap: "2 ^ 31 \<le> x \<Longrightarrow> x < 2 ^ 32 \<Longrightarrow> to_int32 x = x - 2 ^ 32"
  using mod_pos_pos_trivial [of "x - 2 ^ 31" "2 ^ 32"] mod_add_self2 [of "x - 2 ^ 31" "2 ^ 32"] by (simp add: to_int32_def add.commute)

lemma hashOfSeq_spec:
  assumes "skip_keys sha" "read_ok h view m" "skips_ok sha s0 hs m" "hs \<noteq> []" "s0 + length hs < 4294967296" "q < 4294967296"
    "li_seq (rv_info view) = of_nat (s0 + length hs)" "li_parentHash (rv_info view) = last hs"
  shows "hashOfSeq sha view h (of_nat q) = Inr (if q = s0 + length hs then Some (li_hash (rv_info view))
      else if s0 \<le> q \<and> q < s0 + length hs \<and> (s0 + length hs \<le> q + 256 \<or> q mod 256 = 0) then Some (hs ! (q - s0)) else None)"
proof -
  define n where "n = s0 + length hs"
  have cur: "li_seq (rv_info view) = of_nat n" "n < 4294967296" "0 < n" using assms(4,5,7) by (auto simp: n_def)
  have cmp: "(of_nat n :: 32 word) < of_nat q \<longleftrightarrow> n < q" "(of_nat q :: 32 word) = of_nat n \<longleftrightarrow> q = n" "(of_nat q :: 32 word) = of_nat n - 1 \<longleftrightarrow> Suc q = n"
  proof -
    show "(of_nat n :: 32 word) < of_nat q \<longleftrightarrow> n < q" "(of_nat q :: 32 word) = of_nat n \<longleftrightarrow> q = n"
      using cur(2) assms(6) by (simp_all add: word_less_nat_alt word_unat_eq_iff)
    have "(of_nat n - 1 :: 32 word) = of_nat (n - 1)" using cur(3) by (simp add: of_nat_diff Suc_le_eq)
    moreover have "(of_nat q :: 32 word) = of_nat (n - 1) \<longleftrightarrow> q = n - 1" using cur(2) assms(6) by (simp add: word_unat_eq_iff del: of_nat_diff)
    ultimately show "(of_nat q :: 32 word) = of_nat n - 1 \<longleftrightarrow> Suc q = n" using cur(3) by (auto simp del: of_nat_diff)
  qed
  have lst: "last hs = hs ! (q - s0)" if "Suc q = n"
  proof -
    have "q - s0 = length hs - 1" using that assms(4) by (cases hs) (auto simp: n_def)
    then show ?thesis using assms(4) by (simp add: last_conv_nth)
  qed
  consider "n \<le> q" | "Suc q = n" | "Suc q < n" by linarith
  then show ?thesis
  proof cases
    case 1
    then show ?thesis using cmp by (auto simp: hashOfSeq_def Let_def cur(1) n_def [symmetric])
  next
    case 2
    have "s0 \<le> q" using 2 assms(4) by (cases hs) (simp_all add: n_def)
    then show ?thesis using 2 cmp lst assms(8) by (auto simp: hashOfSeq_def Let_def cur(1) n_def [symmetric])
  next
    case 3
    let ?d = "to_int32 (uint (of_nat n - of_nat q :: 32 word))"
    have e: "uint (of_nat n - of_nat q :: 32 word) = int (n - q)"
      using 3 cur(2) by (simp add: uint_nat flip: of_nat_diff del: of_nat_diff)
    have d: "?d = (if n - q < 2 ^ 31 then int (n - q) else int (n - q) - 2 ^ 32)" unfolding e using 3 cur(2) to_int32_wrap [of "int (n - q)"] by auto
    have run: "hashOfSeq sha view h (of_nat q) =
        bind_r (if ?d \<le> 256 then skip_recent sha view h ?d else Inr None) (\<lambda>r. case r of
          Some x \<Rightarrow> Inr (Some x)
        | None \<Rightarrow> if (of_nat q :: 32 word) AND 0xFF \<noteq> 0 then Inr None else skip_every256 sha view h (of_nat q))"
      using 3 cmp by (auto simp: hashOfSeq_def Let_def cur(1))
    have q: "q < s0 + length hs" using 3 by (simp add: n_def)
    note ev = skip_every256_spec [OF assms(1-3,5) q]
    have rec: "skip_recent sha view h ?d = Inr (if n - q \<le> 256 \<and> s0 \<le> q then Some (hs ! (q - s0)) else None)" if "?d \<le> 256"
    proof -
      have b: "- (2 ^ 31) \<le> ?d" "?d \<noteq> 0" using d 3 cur(2) by auto
      have "0 < ?d \<and> ?d \<le> int (length hs) \<longleftrightarrow> n - q \<le> 256 \<and> s0 \<le> q" using d that 3 cur(2) by (auto simp: n_def split: if_splits)
      moreover have "length hs - nat ?d = q - s0" if "n - q \<le> 256" "s0 \<le> q" using d that 3 by (simp add: n_def)
      ultimately show ?thesis using skip_recent_spec [OF assms(1-4) _ b(1) that b(2)] assms(7) by auto
    qed
    show ?thesis unfolding run using rec ev d 3 q seq_low [OF assms(6)] by (auto simp: n_def split: if_splits)
  qed
qed

end
