(* ===== verification/LedgerChain.thy ===== *)
theory LedgerChain
  imports LedgerEntries_Spec
begin

text \<open>
  Chains of ledgers: from a first one, the genesis ledger for instance, each ledger is opened on the one before,
  changed by transactions, which do not touch the skip lists, given its skip lists and accepted.
\<close>

abbreviation entries_ok :: "Ledger \<Rightarrow> bool" where
  "entries_ok \<equiv> lg_ok entry_good entry_add STLedgerEntry_read"

section \<open>The ledgers of a chain\<close>

definition is_skip_key :: "(Blob \<Rightarrow> uint256) \<Rightarrow> uint256 \<Rightarrow> bool" where
  "is_skip_key sha k = (k = getLedgerHashIndex sha \<or> (\<exists>g < 65536. k = group_key sha g))"

text \<open>The ledger that follows \<open>prev\<close>, after the transactions and before its skip lists are updated.\<close>

definition next_ledger :: "(Blob \<Rightarrow> uint256) \<Rightarrow> Ledger \<Rightarrow> Ledger \<Rightarrow> bool" where
  "next_ledger sha prev l = (\<exists>now l1. Ledger_open now prev = Inr l1 \<and> entry_inv l \<and>
     li_seq (lg_info l) = li_seq (lg_info l1) \<and> li_parentHash (lg_info l) = li_parentHash (lg_info l1) \<and>
     (\<forall>k. is_skip_key sha k \<longrightarrow> entries l k = entries l1 k))"

text \<open>\<open>chained sha s0 hs l\<close>: the ledger follows ledgers with the hashes \<open>hs\<close>, the first of which has the number \<open>s0\<close>.\<close>

inductive chained :: "(Blob \<Rightarrow> uint256) \<Rightarrow> nat \<Rightarrow> uint256 list \<Rightarrow> Ledger \<Rightarrow> bool" for sha where
  c_first: "entries_ok l \<Longrightarrow> li_seq (lg_info l) = of_nat s0 \<Longrightarrow> s0 < 4294967296 \<Longrightarrow> (\<forall>k. is_skip_key sha k \<longrightarrow> entries l k = None) \<Longrightarrow>
    chained sha s0 [] l"
| c_next: "chained sha s0 hs prev \<Longrightarrow> next_ledger sha prev l2 \<Longrightarrow> Suc (s0 + length hs) < 4294967296 \<Longrightarrow> updateSkipList sha l2 = Inr l3 \<Longrightarrow>
    setAccepted_consensus sha fees closeTime closeResolution correctCloseTime l3 = Inr l \<Longrightarrow> chained sha s0 (hs @ [li_hash (lg_info prev)]) l"

lemma skips_cong:
  assumes "skips_ok sha s0 hs m" "\<forall>k. is_skip_key sha k \<longrightarrow> m' k = m k"
  shows "skips_ok sha s0 hs m'"
proof -
  have "m' (getLedgerHashIndex sha) = m (getLedgerHashIndex sha)" "\<forall>g < 65536. m' (group_key sha g) = m (group_key sha g)"
    using assms(2) unfolding is_skip_key_def by blast+
  with assms(1) show ?thesis by (simp add: skips_ok_def)
qed

lemma lg_state_items:
  assumes "sm_root (lg_stateMap l') = sm_root (lg_stateMap l)"
  shows "entries_ok l' = entries_ok l" "entries l' = entries l"
  using assms by (simp_all add: lg_ok_def lg_contents_def shamap_ok_def shamap_items_def fun_eq_iff)

lemma open_ledger:
  assumes "Ledger_open now prev = Inr l"
  shows "li_seq (lg_info l) = li_seq (lg_info prev) + 1" "li_parentHash (lg_info l) = li_hash (lg_info prev)" "entries l = entries prev"
proof -
  have "sm_root (lg_stateMap l) = sm_root (lg_stateMap prev)"
    and h: "li_seq (lg_info l) = li_seq (lg_info prev) + 1" "li_parentHash (lg_info l) = li_hash (lg_info prev)"
    using assms by (auto simp: Ledger_open_def Let_def bind_r_eq_Inr_iff snapShot_def)
  then show "li_seq (lg_info l) = li_seq (lg_info prev) + 1" "li_parentHash (lg_info l) = li_hash (lg_info prev)" "entries l = entries prev"
    using lg_state_items(2) [of l prev] by blast+
qed

lemma accept_ledger:
  assumes "setAccepted_consensus sha fees closeTime closeResolution correctCloseTime l = Inr l'"
  shows "li_seq (lg_info l') = li_seq (lg_info l)" "li_parentHash (lg_info l') = li_parentHash (lg_info l)" "sm_root (lg_stateMap l') = sm_root (lg_stateMap l)"
  using assms by (auto simp: setAccepted_consensus_def setImmutable_def sm_setImmutable_def updateHash_def Let_def result_simps)

lemma chain_step:
  assumes "skip_keys sha" "skips_ok sha s0 hs (entries prev)" "li_seq (lg_info prev) = of_nat (s0 + length hs)"
    "next_ledger sha prev l" "Suc (s0 + length hs) < 4294967296"
  shows "\<exists>m. updateSkipList sha l = Inr (l\<lparr>lg_stateMap := m\<rparr>) \<and> entry_inv (l\<lparr>lg_stateMap := m\<rparr>) \<and>
    skips_ok sha s0 (hs @ [li_hash (lg_info prev)]) (entries (l\<lparr>lg_stateMap := m\<rparr>)) \<and> sm_state m = sm_state (lg_stateMap l) \<and>
    li_seq (lg_info l) = of_nat (Suc (s0 + length hs)) \<and> li_parentHash (lg_info l) = li_hash (lg_info prev)"
proof -
  obtain now l1 where l1: "Ledger_open now prev = Inr l1" "entry_inv l" "li_seq (lg_info l) = li_seq (lg_info l1)"
    "li_parentHash (lg_info l) = li_parentHash (lg_info l1)" "\<forall>k. is_skip_key sha k \<longrightarrow> entries l k = entries l1 k"
    using assms(4) by (auto simp: next_ledger_def)
  note o = open_ledger [OF l1(1)]
  have seq: "li_seq (lg_info l) = of_nat (Suc (s0 + length hs))" using l1(3) o(1) assms(3) by simp
  have "skips_ok sha s0 hs (entries l)" using skips_cong [OF assms(2)] l1(5) o(3) by simp
  from updateSkipList_ok [OF assms(1) l1(2) this seq assms(5)] seq l1(4) o(2) show ?thesis by simp
qed

lemma chained_ok:
  assumes "skip_keys sha" "chained sha s0 hs l"
  shows "entries_ok l \<and> skips_ok sha s0 hs (entries l) \<and> li_seq (lg_info l) = of_nat (s0 + length hs) \<and> s0 + length hs < 4294967296 \<and>
    (hs \<noteq> [] \<longrightarrow> li_parentHash (lg_info l) = last hs)"
  using assms(2)
proof (induction rule: chained.induct)
  case (c_first l s0)
  have "indices256 g s0 0 = []" for g by (simp add: indices256_def)
  moreover have "is_skip_key sha (getLedgerHashIndex sha)" "\<forall>g < 65536. is_skip_key sha (group_key sha g)" by (auto simp: is_skip_key_def)
  ultimately show ?case using c_first by (simp add: skips_ok_def)
next
  case (c_next s0 hs prev l2 l3 fees closeTime closeResolution correctCloseTime l)
  then obtain m where m: "l3 = l2\<lparr>lg_stateMap := m\<rparr>" "entry_inv l3" "skips_ok sha s0 (hs @ [li_hash (lg_info prev)]) (entries l3)"
    "li_seq (lg_info l2) = of_nat (Suc (s0 + length hs))" "li_parentHash (lg_info l2) = li_hash (lg_info prev)"
    using chain_step [OF assms(1), of s0 hs prev l2] by auto
  note a = accept_ledger [OF c_next.hyps(5)]
  show ?case using m a(1,2) lg_state_items [OF a(3)] c_next.hyps(3) by (simp add: lg_inv_def)
qed

section \<open>The genesis ledger\<close>

lemma account_fields:
  "registered sfSequence" "fieldType sfSequence = STI_UINT32" "registered sfAccount" "fieldType sfAccount = STI_ACCOUNT"
  "registered sfBalance" "fieldType sfBalance = STI_AMOUNT"
  "fieldCode sfSequence \<noteq> fieldCode sfLedgerEntryType" "fieldCode sfAccount \<noteq> fieldCode sfLedgerEntryType"
  "fieldCode sfBalance \<noteq> fieldCode sfLedgerEntryType" "fieldCode sfSequence \<noteq> fieldCode sfAccount" "fieldCode sfSequence \<noteq> fieldCode sfBalance"
  "fieldCode sfAccount \<noteq> fieldCode sfBalance"
  by (auto intro!: known_registered simp: knownFields_def)
    (simp_all add: sfSequence_def sfAccount_def sfBalance_def sfLedgerEntryType_def SField_named_def field_code_def)

lemma account_wire: "wire_field sfSequence" "wire_field sfAccount" "wire_field sfBalance"
  by (rule known_wire; simp add: knownFields_def on_wire_def sfSequence_def sfAccount_def sfBalance_def SField_named_def)+

lemma account_index:
  assumes "sle_typed s" "sle_type s = ltACCOUNT_ROOT" "f \<in> {sfSequence, sfAccount, sfBalance}"
  shows "getFieldIndex f (sle_body s) \<noteq> None"
proof -
  have "case findByType ledgerFormats (Some ltACCOUNT_ROOT) of None \<Rightarrow> False
   | Some fm \<Rightarrow> \<forall>f \<in> {sfSequence, sfAccount, sfBalance}. SOTemplate_getIndex f (fm_elements fm) \<noteq> None" by code_simp
  with assms show ?thesis by (auto simp: sle_typed_def getFieldIndex_def)
qed

lemma account_made:
  assumes "kl_type k = ltACCOUNT_ROOT" "am_wire bal"
  shows "\<exists>s ob1 ob2 ob3. STLedgerEntry_keylet k = Inr s \<and> setFieldU32 q sfSequence (sle_body s) = Inr ob1 \<and> setAccountID a sfAccount ob1 = Inr ob2 \<and>
    setFieldAmount bal sfBalance ob2 = Inr ob3 \<and> entry_good (s\<lparr>sle_body := ob3\<rparr>) \<and> sle_key s = kl_key k \<and> sle_type s = ltACCOUNT_ROOT \<and>
    getFieldU32 sfSequence ob3 = Inr q \<and> getAccountID sfAccount ob3 = Inr a \<and> getFieldAmount sfBalance ob3 = Inr bal"
proof -
  note f = account_fields and w = account_wire
  obtain s where s: "STLedgerEntry_keylet k = Inr s" "sle_key s = kl_key k" "sle_type s = ltACCOUNT_ROOT"
    using keylet_typed [of k] assms(1) by (auto simp: ledger_types_def)
  have ok: "sle_ok s" "sle_typed s" using keylet_ok [OF s(1)] by simp_all
  have "st_ok sfSequence (STUInt32 q)" using f(2) w(1) by simp
  from u32.entry_put [OF ok f(1,2,7) account_index [OF ok(2) s(3)] TrueI this] s_setFieldU32
  obtain ob1 where 1: "setFieldU32 q sfSequence (sle_body s) = Inr ob1" "sle_ok (s\<lparr>sle_body := ob1\<rparr>)" "sle_typed (s\<lparr>sle_body := ob1\<rparr>)"
    "peekAtPField sfSequence ob1 = Inr (Some (STUInt32 q))" by auto
  have "st_ok sfAccount (STAccount (be_bytes 20 a))" using f(4) w(2) by simp
  from account.entry_put [OF 1(2,3) f(3,4,8) account_index [OF 1(3)] TrueI this] s_setAccountID s(3)
  obtain ob2 where 2: "setAccountID a sfAccount ob1 = Inr ob2" "sle_ok (s\<lparr>sle_body := ob2\<rparr>)" "sle_typed (s\<lparr>sle_body := ob2\<rparr>)"
    "peekAtPField sfAccount ob2 = Inr (Some (STAccount (be_bytes 20 a)))" "peekAtPField sfSequence ob2 = peekAtPField sfSequence ob1" using f(10) by auto
  have "st_ok sfBalance (STAmt bal)" using f(6) w(3) assms(2) by simp
  from amt.entry_put [OF 2(2,3) f(5,6,9) account_index [OF 2(3)] TrueI this] s_setFieldAmount s(3)
  obtain ob3 where 3: "setFieldAmount bal sfBalance ob2 = Inr ob3" "sle_ok (s\<lparr>sle_body := ob3\<rparr>)" "sle_typed (s\<lparr>sle_body := ob3\<rparr>)"
    "getFieldAmount sfBalance ob3 = Inr bal" "peekAtPField sfSequence ob3 = peekAtPField sfSequence ob2" "peekAtPField sfAccount ob3 = peekAtPField sfAccount ob2"
    using f(11,12) by auto
  have acc: "peekAtPField sfAccount ob3 = Inr (Some (STAccount (be_bytes 20 a)))" using 2(4) 3(6) by simp
  have "12 \<le> length (fblob (sfAccount, STAccount (be_bytes 20 a)))" by (simp add: fblob_def vl_bytes_def)
  also have "\<dots> \<le> length (object_bytes ob3)" using entry_bytes_field [OF 3(3) f(3)] acc by simp
  finally have "entry_good (s\<lparr>sle_body := ob3\<rparr>)" using 3(2,3) by (simp add: entry_good_def)
  moreover have "getFieldU32 sfSequence ob3 = Inr q" "getAccountID sfAccount ob3 = Inr a"
    using 1(4) 2(5) 3(5) acc by (simp_all add: getFieldU32_def getAccountID_def getFieldBy_def be_word_bytes_all)
  ultimately show ?thesis using s 1(1) 2(1) 3(1,4) by blast
qed

lemma setFees_default:
  assumes "entries_ok l" "getLedgerFeeIndex sha \<noteq> 0" "entries l (getLedgerFeeIndex sha) = None"
  shows "setFees sha config l = Inr \<lparr>fe_base = FEE_DEFAULT config, fe_units = TRANSACTION_FEE_BASE config,
    fe_reserve = ucast (FEE_ACCOUNT_RESERVE config), fe_increment = ucast (FEE_OWNER_RESERVE config)\<rparr>"
  using lg_read_spec [OF assms(1), of "keylet_fees sha"] assms(2,3) by (simp add: setFees_def keylet_fees_def checked_def)

text \<open>The keys of the two entries that the construction looks at do not collide.\<close>

definition genesis_keys :: "(Blob \<Rightarrow> uint256) \<Rightarrow> AccountID \<Rightarrow> bool" where
  "genesis_keys sha a = (getAccountRootIndex sha a \<noteq> 0 \<and> getLedgerFeeIndex sha \<noteq> 0 \<and> getLedgerFeeIndex sha \<noteq> getAccountRootIndex sha a)"

lemma genesis_ok:
  assumes "genesis_keys sha a"
  shows "\<exists>g s. Ledger_genesis sha config a = Inr g \<and> entries_ok g \<and> entries g = [getAccountRootIndex sha a \<mapsto> s] \<and>
    sle_type s = ltACCOUNT_ROOT \<and> getFieldU32 sfSequence (sle_body s) = Inr 1 \<and> getAccountID sfAccount (sle_body s) = Inr a \<and>
    getFieldAmount sfBalance (sle_body s) = Inr (STAmount_drops SYSTEM_CURRENCY_START False) \<and>
    li_seq (lg_info g) = 1 \<and> li_drops (lg_info g) = SYSTEM_CURRENCY_START \<and> li_accepted (lg_info g) \<and> \<not> li_open (lg_info g) \<and> lg_immutable g \<and>
    li_accountHash (lg_info g) = getHash sha (lg_stateMap g) \<and> li_hash (lg_info g) = sha (header_bytes (lg_info g)) \<and>
    li_closeTimeResolution (lg_info g) = 30 \<and> li_closeTime (lg_info g) = 0 \<and>
    lg_fees g = \<lparr>fe_base = FEE_DEFAULT config, fe_units = TRANSACTION_FEE_BASE config,
      fe_reserve = ucast (FEE_ACCOUNT_RESERVE config), fe_increment = ucast (FEE_OWNER_RESERVE config)\<rparr>"
proof -
  let ?bal = "STAmount_drops SYSTEM_CURRENCY_START False" and ?k = "getAccountRootIndex sha a"
  have "am_wire ?bal"
    by (simp add: am_wire_def am_canonical_def STAmount_drops_def STAmount_unchecked_def isXRP_amount_def isXRP_currency_def xrpIssue_def SYSTEM_CURRENCY_START_def)
  from account_made [of "keylet_account sha a", OF _ this, of 1 a] obtain s ob1 ob2 ob3 where
    s: "STLedgerEntry_keylet (keylet_account sha a) = Inr s" "setFieldU32 1 sfSequence (sle_body s) = Inr ob1" "setAccountID a sfAccount ob1 = Inr ob2"
    "setFieldAmount ?bal sfBalance ob2 = Inr ob3" "entry_good (s\<lparr>sle_body := ob3\<rparr>)" "sle_key s = ?k" "sle_type s = ltACCOUNT_ROOT"
    "getFieldU32 sfSequence ob3 = Inr 1" "getAccountID sfAccount ob3 = Inr a" "getFieldAmount sfBalance ob3 = Inr ?bal"
    by (auto simp: keylet_account_def)
  define info where "info = LedgerInfo_init\<lparr>li_seq := 1, li_drops := SYSTEM_CURRENCY_START, li_closeTimeResolution := word_of_int ledgerDefaultTimeResolution\<rparr>"
  define l0 where "l0 = \<lparr>lg_info = info, lg_fees = \<lparr>fe_base = 0, fe_units = 0, fe_reserve = 0, fe_increment = 0\<rparr>, lg_stateMap = SHAMap_init,
    lg_txMap = SHAMap_init, lg_validHash = False, lg_immutable = False\<rparr>"
  have st: "lg_stateMap l0 = SHAMap_init" "lg_txMap l0 = SHAMap_init" "sm_state SHAMap_init = Modifying" by (simp_all add: l0_def SHAMap_init_def)
  then have inv: "entry_inv l0" and none: "entries l0 = Map.empty"
    using entry_codec SHAMap_init_ok by (simp_all add: lg_inv_def lg_ok_def lg_contents_def fun_eq_iff)
  obtain m where m: "lg_rawInsert entry_add [s\<lparr>sle_body := ob3\<rparr>] 0 l0 = Inr (l0\<lparr>lg_stateMap := m\<rparr>)" "entry_inv (l0\<lparr>lg_stateMap := m\<rparr>)"
    "entries (l0\<lparr>lg_stateMap := m\<rparr>) = [?k \<mapsto> s\<lparr>sle_body := ob3\<rparr>]" "sm_state m = Modifying"
    using lg_insert_ok [OF inv, of "[s\<lparr>sle_body := ob3\<rparr>]" 0] s(5,6) assms none st by (auto simp: genesis_keys_def)
  let ?m = "m\<lparr>sm_state := Immutable\<rparr>" and ?fees = "\<lparr>fe_base = FEE_DEFAULT config, fe_units = TRANSACTION_FEE_BASE config,
      fe_reserve = ucast (FEE_ACCOUNT_RESERVE config), fe_increment = ucast (FEE_OWNER_RESERVE config)\<rparr>"
  have fees: "setFees sha config l = Inr ?fees" if "lg_stateMap l = ?m" for l
  proof -
    have root: "sm_root (lg_stateMap l) = sm_root (lg_stateMap (l0\<lparr>lg_stateMap := m\<rparr>))" using that by simp
    have "entries_ok l" "entries l = [?k \<mapsto> s\<lparr>sle_body := ob3\<rparr>]" using lg_state_items [OF root] m(2,3) by (simp_all add: lg_inv_def)
    then show ?thesis using setFees_default [of l sha config] assms by (simp add: genesis_keys_def)
  qed
  have close: "roundCloseTime 0 r = Inr 0" for r by (simp add: roundCloseTime_def)
  let ?u = "setClosed (updateHash sha (l0\<lparr>lg_stateMap := m\<rparr>))"
  let ?i = "(lg_info ?u)\<lparr>li_closeTime := 0, li_accepted := True\<rparr>"
  have u: "li_closeFlags (lg_info ?u) = 0" "li_closeTime (lg_info ?u) = 0" "lg_immutable ?u = False" "lg_txMap ?u = SHAMap_init" "lg_stateMap ?u = m"
    by (simp_all add: setClosed_def updateHash_def Let_def l0_def info_def LedgerInfo_init_def)
  obtain g where g: "setAccepted_acquired sha (setFees sha config) ?u = Inr g" "lg_stateMap g = ?m" "lg_fees g = ?fees" "lg_immutable g"
    "lg_info g = lg_info (updateHash sha (?u\<lparr>lg_info := ?i\<rparr>))"
    using u m(4) st(3) fees by (simp add: setAccepted_acquired_def close setImmutable_def sm_setImmutable_def led_assert_def updateHash_def Let_def)
  have run: "Ledger_genesis sha config a = Inr (g\<lparr>lg_fees := ?fees\<rparr>)"
    using s(1-4) m(1) g(1) fees [OF g(2)]
    by (simp add: Ledger_genesis_def Let_def info_def [symmetric] l0_def [symmetric]) (simp add: info_def)
  have root: "sm_root (lg_stateMap (g\<lparr>lg_fees := ?fees\<rparr>)) = sm_root (lg_stateMap (l0\<lparr>lg_stateMap := m\<rparr>))" using g(2) by simp
  have ok: "entries_ok (g\<lparr>lg_fees := ?fees\<rparr>)" "entries (g\<lparr>lg_fees := ?fees\<rparr>) = [?k \<mapsto> s\<lparr>sle_body := ob3\<rparr>]"
    using lg_state_items [OF root] m(2,3) by (simp_all add: lg_inv_def)
  have i: "li_seq (lg_info g) = 1" "li_drops (lg_info g) = SYSTEM_CURRENCY_START" "li_accepted (lg_info g)" "\<not> li_open (lg_info g)"
    "li_accountHash (lg_info g) = getHash sha m" "li_hash (lg_info g) = sha (header_bytes (lg_info g))"
    "li_closeTimeResolution (lg_info g) = 30" "li_closeTime (lg_info g) = 0"
    unfolding g(5) by (simp_all add: updateHash_def setClosed_def Let_def header_bytes_def l0_def info_def LedgerInfo_init_def
        ledgerDefaultTimeResolution_def ledgerPossibleTimeResolutions_def)
  show ?thesis using run ok i g(2,4) s(7-10) by (intro exI [of _ "g\<lparr>lg_fees := ?fees\<rparr>"] exI [of _ "s\<lparr>sle_body := ob3\<rparr>"]) (simp add: getHash_def)
qed

section \<open>Chains of any length\<close>

text \<open>A ledger is opened on the last one of a chain, closed, given its skip lists and accepted.\<close>

lemma opens_again:
  assumes "entries_ok prev" "li_closeTimeResolution (lg_info prev) = 30" "li_closeTime (lg_info prev) = 0" "li_seq (lg_info prev) + 1 \<noteq> 0"
  shows "\<exists>l. Ledger_open 0 prev = Inr l \<and> entry_inv l \<and> sm_state (lg_stateMap l) = Modifying \<and> lg_txMap l = SHAMap_init \<and>
    li_open (lg_info l) \<and> \<not> li_accepted (lg_info l) \<and> entries l = entries prev"
proof -
  have "\<exists>r. getNextLedgerTimeResolution 30 (getCloseAgree (lg_info prev)) (li_seq (lg_info prev) + 1) = Inr r"
    using assms(4) by (simp add: getNextLedgerTimeResolution_def ledgerPossibleTimeResolutions_def Let_def)
  moreover have "roundCloseTime 0 r = Inr 0" for r by (simp add: roundCloseTime_def)
  ultimately obtain l where l: "Ledger_open 0 prev = Inr l" "lg_stateMap l = snapShot True (lg_stateMap prev)" "lg_txMap l = SHAMap_init"
    "li_open (lg_info l)" "\<not> li_accepted (lg_info l)"
    using assms(2,3) by (auto simp: Ledger_open_def Let_def LedgerInfo_init_def)
  then have "sm_root (lg_stateMap l) = sm_root (lg_stateMap prev)" by (simp add: snapShot_def)
  from lg_state_items [OF this] l assms(1) show ?thesis by (simp add: lg_inv_def snapShot_def)
qed

lemma closed_entries: "entry_inv (setClosed l) = entry_inv l" "entries (setClosed l) = entries l"
  by (simp_all add: setClosed_def lg_inv_def lg_ok_def lg_contents_def fun_eq_iff)

lemma chain_extend:
  assumes "skip_keys sha" "chained sha s0 hs prev" "Suc (s0 + length hs) < 4294967296"
    "li_closeTimeResolution (lg_info prev) = 30" "li_closeTime (lg_info prev) = 0"
  shows "\<exists>l. chained sha s0 (hs @ [li_hash (lg_info prev)]) l \<and> li_closeTimeResolution (lg_info l) = 30 \<and> li_closeTime (lg_info l) = 0"
proof -
  note c = chained_ok [OF assms(1,2)]
  have "li_seq (lg_info prev) + 1 = of_nat (Suc (s0 + length hs))" using c by simp
  then have nz: "li_seq (lg_info prev) + 1 \<noteq> 0" using assms(3) seq_unat [of "Suc (s0 + length hs)"] by (metis Zero_not_Suc unat_0)
  obtain l1 where l1: "Ledger_open 0 prev = Inr l1" "entry_inv l1" "sm_state (lg_stateMap l1) = Modifying" "lg_txMap l1 = SHAMap_init"
    "li_open (lg_info l1)" "\<not> li_accepted (lg_info l1)" using opens_again [OF _ assms(4,5) nz] c by blast
  let ?l2 = "setClosed l1"
  have nx: "next_ledger sha prev ?l2"
    using l1(1,2) closed_entries [of l1] by (auto simp: next_ledger_def setClosed_def)
  obtain m where m: "updateSkipList sha ?l2 = Inr (?l2\<lparr>lg_stateMap := m\<rparr>)" "sm_state m = Modifying"
    using chain_step [OF assms(1) _ _ nx assms(3)] c l1(3) by (auto simp: setClosed_def)
  have "\<exists>l. setAccepted_consensus sha (\<lambda>_. Inr (lg_fees prev)) 0 30 True (?l2\<lparr>lg_stateMap := m\<rparr>) = Inr l \<and>
      li_closeTimeResolution (lg_info l) = 30 \<and> li_closeTime (lg_info l) = 0"
    using l1(4,6) m(2) by (simp add: setAccepted_consensus_def setClosed_def led_assert_def roundCloseTime_def setImmutable_def sm_setImmutable_def
        SHAMap_init_def updateHash_def Let_def)
  then show ?thesis using c_next [OF assms(2) nx assms(3) m(1)] by blast
qed

lemma chain_exists:
  assumes "skip_keys sha" "chained sha s0 [] l0" "li_closeTimeResolution (lg_info l0) = 30" "li_closeTime (lg_info l0) = 0" "s0 + n < 4294967296"
  shows "\<exists>hs l. chained sha s0 hs l \<and> length hs = n \<and> li_closeTimeResolution (lg_info l) = 30 \<and> li_closeTime (lg_info l) = 0"
  using assms(5)
proof (induction n)
  case (Suc n)
  then obtain hs l where "chained sha s0 hs l" "length hs = n" "li_closeTimeResolution (lg_info l) = 30" "li_closeTime (lg_info l) = 0" by auto
  with chain_extend [OF assms(1) this(1)] Suc.prems show ?case by (metis add_Suc_right length_append_singleton)
qed (use assms in auto)

end
