(* ===== verification/Transaction_Properties.thy ===== *)
theory Transaction_Properties
  imports STTx_Spec STEntry_Spec
begin

text \<open>
  Properties of signatures, ledger entries and transactions, each with an example on which it applies.
\<close>

section \<open>Signatures\<close>

text \<open>
  C21: Canonical signatures. With big numbers that behave as documented a signature is accepted exactly when it is
  the DER form of two numbers between zero and the order of the group, the second in the lower half in
  strict mode. A pair of numbers has one form, and of a signature and its negation exactly one is strict.
\<close>

theorem canonical_signatures:
  assumes "bn_ok cr val"
  shows "(isCanonicalECDSASig cr sig st = Inr True \<longleftrightarrow> (\<exists>r s. canonical_pair st r s \<and> sig = der_sig r s)) \<and>
    (canonical_pair st r s \<longrightarrow> canonical_pair st r' s' \<longrightarrow> der_sig r s = der_sig r' s' \<longrightarrow> r = r' \<and> s = s') \<and>
    (canonical_pair not_strict r s \<longrightarrow>
      (isCanonicalECDSASig cr (der_sig r s) strict = Inr True) \<noteq> (isCanonicalECDSASig cr (der_sig r (group_order - s)) strict = Inr True))"
proof (intro conjI impI)
  show "isCanonicalECDSASig cr sig st = Inr True \<longleftrightarrow> (\<exists>r s. canonical_pair st r s \<and> sig = der_sig r s)" by (rule canonical_iff [OF assms])
  show "r = r'" "s = s'" if "canonical_pair st r s" "canonical_pair st r' s'" "der_sig r s = der_sig r' s'" using der_sig_inj [OF that] by simp_all
  assume c: "canonical_pair not_strict r s"
  have "isCanonicalECDSASig cr (der_sig r x) strict = Inr True \<longleftrightarrow> canonical_pair strict r x" if "canonical_pair not_strict r x" for x
    using der_sig_inj [OF that, of strict] canonical_iff [OF assms] by blast
  moreover have "canonical_pair not_strict r (group_order - s)" using c by (simp add: canonical_pair_def)
  ultimately show "(isCanonicalECDSASig cr (der_sig r s) strict = Inr True) \<noteq> (isCanonicalECDSASig cr (der_sig r (group_order - s)) strict = Inr True)"
    using strict_half [OF c] c by simp
qed

definition example_sig :: Blob where
  "example_sig = [0x30, 6, 2, 1, 1, 2, 1, 1]"

lemma example_sig_der: "example_sig = der_sig 1 1" "canonical_pair st 1 1"
  by (simp_all add: example_sig_def der_sig_def der_part_def der_body_def min_bytes.simps [of 1] canonical_pair_def group_order_def)

theorem canonical_signatures_witness: "isCanonicalECDSASig int_crypto example_sig strict = Inr True"
  using canonical_signatures [OF int_crypto_ok, of example_sig strict 1 1 1 1] example_sig_der by blast

text \<open>
  The reader of signatures reads past the end of the buffer exactly when the outer form is right and the first
  number takes all of it: the first byte of the second number is looked at before the size is checked. Nothing
  else goes wrong.
\<close>

theorem signature_overread:
  assumes "bn_ok cr val"
  shows "isCanonicalECDSASig cr sig st = Inl e \<longleftrightarrow> e = LRange \<and>
    (\<exists>r. 0 < r \<and> 4 \<le> length (der_body r) \<and> length (der_body r) \<le> 33 \<and> sig = 0x30 # of_nat (length (der_part r)) # der_part r)"
  by (rule canonical_overread [OF assms])

theorem signature_overread_witness: "isCanonicalECDSASig int_crypto [0x30, 6, 2, 4, 1, 2, 3, 4] not_strict = Inl LRange"
proof -
  have "min_bytes 0x1020304 = [1, 2, 3, 4]" by (simp add: min_bytes.simps)
  then show ?thesis using signature_overread [OF int_crypto_ok, of "[0x30, 6, 2, 4, 1, 2, 3, 4]" not_strict LRange]
    by (auto simp: der_part_def der_body_def intro!: exI [of _ "0x1020304"])
qed

text \<open>
  C28: Making a signature canonical replaces the second number by the smaller of it and its negation, in place in a
  buffer of at least 72 bytes, says whether nothing was to be done, and gives a strictly canonical signature.
\<close>

theorem signature_made_canonical:
  assumes "bn_ok cr val" "canonical_pair not_strict r s" "72 \<le> length (der_sig r s @ rest)"
  shows "\<exists>rest'. makeCanonicalECDSASig cr (der_sig r s @ rest) (length (der_sig r s)) =
      Inr (s \<le> group_order - s, der_sig r (min s (group_order - s)) @ rest', length (der_sig r (min s (group_order - s)))) \<and>
    length (der_sig r (min s (group_order - s)) @ rest') = length (der_sig r s @ rest) \<and>
    isCanonicalECDSASig cr (der_sig r (min s (group_order - s))) strict = Inr True"
proof -
  have "canonical_pair strict r (min s (group_order - s))" using assms(2) by (auto simp: canonical_pair_def min_def)
  then have "isCanonicalECDSASig cr (der_sig r (min s (group_order - s))) strict = Inr True" using canonical_iff [OF assms(1)] by blast
  with make_canonical [OF assms] show ?thesis by blast
qed

theorem signature_made_canonical_witness:
  "\<exists>rest'. makeCanonicalECDSASig int_crypto (der_sig 1 (group_order - 1) @ replicate 80 0) (length (der_sig 1 (group_order - 1))) =
    Inr (False, example_sig @ rest', 8)"
proof -
  have m: "min (group_order - 1) (group_order - (group_order - 1)) = 1" "\<not> group_order - 1 \<le> group_order - (group_order - 1)" by (simp_all add: group_order_def)
  have "canonical_pair not_strict 1 (group_order - 1)" by (simp add: canonical_pair_def group_order_def)
  then show ?thesis using signature_made_canonical [OF int_crypto_ok, of 1 "group_order - 1" "replicate 80 0"] m
    by (auto simp flip: example_sig_der(1)) (simp add: example_sig_def)
qed

section \<open>Ledger entries\<close>

text \<open>
  C22: Building ledger entries. An entry is built for a keylet exactly when its type has a format, else the
  constructor throws; an entry that is built or read has the template of its type, a typed value in every field,
  and its type as a field.
\<close>

theorem ledger_entry_types:
  "(if kl_type k \<in> set ledger_types
    then \<exists>s. STLedgerEntry_keylet k = Inr s \<and> sle_typed s \<and> sle_key s = kl_key k \<and> sle_type s = kl_type k
    else STLedgerEntry_keylet k = Inl (LThrow ''invalid ledger entry type'')) \<and>
   (STLedgerEntry_read bs key = Inr s \<longrightarrow> sle_typed s \<and> sle_key s = key \<and> sle_type s \<in> set ledger_types)"
proof (intro conjI impI)
  have "findByType ledgerFormats (Some (kl_type k)) = None" if "kl_type k \<notin> set ledger_types"
    using that findByType_ledger [of "kl_type k"] by auto
  then show "if kl_type k \<in> set ledger_types
    then \<exists>s. STLedgerEntry_keylet k = Inr s \<and> sle_typed s \<and> sle_key s = kl_key k \<and> sle_type s = kl_type k
    else STLedgerEntry_keylet k = Inl (LThrow ''invalid ledger entry type'')" using keylet_typed [of k] by (simp add: STLedgerEntry_keylet_def)
  assume "STLedgerEntry_read bs key = Inr s"
  then show "sle_typed s" "sle_key s = key" using made_sle_typed by blast+
  then show "sle_type s \<in> set ledger_types" using findByType_ledger by (auto simp: sle_typed_def)
qed

definition example_keylet :: Keylet where
  "example_keylet = \<lparr>kl_type = ltACCOUNT_ROOT, kl_key = 5\<rparr>"

theorem ledger_entry_types_witness:
  "(\<exists>s. STLedgerEntry_keylet example_keylet = Inr s \<and> sle_typed s) \<and>
   STLedgerEntry_keylet \<lparr>kl_type = ltNICKNAME, kl_key = 5\<rparr> = Inl (LThrow ''invalid ledger entry type'')"
  using ledger_entry_types [of example_keylet "[]" 0 "\<lparr>sle_key = 0, sle_type = ltANY, sle_body = STObject None []\<rparr>"]
    ledger_entry_types [of "\<lparr>kl_type = ltNICKNAME, kl_key = 5\<rparr>" "[]" 0 "\<lparr>sle_key = 0, sle_type = ltANY, sle_body = STObject None []\<rparr>"]
  by (auto simp: example_keylet_def ledger_types_def)

text \<open>
  C10: The round trip of ledger entries. An entry built for a keylet, however its fields are then set to values with
  a binary form and however it is threaded or read back in between, is written without failure, and reading the
  bytes gives exactly the entry.
\<close>

theorem ledger_entry_roundtrip:
  assumes "entry_made s"
  shows "\<exists>bytes. getSerializer (sle_body s) = Inr bytes \<and> STLedgerEntry_read bytes (sle_key s) = Inr s"
  using entry_made_ok [OF assms] sle_roundtrip [of s] by blast

theorem ledger_entry_roundtrip_witness:
  "\<exists>s bytes. STLedgerEntry_keylet example_keylet = Inr s \<and> getSerializer (sle_body s) = Inr bytes \<and> STLedgerEntry_read bytes 5 = Inr s"
proof -
  obtain s where s: "STLedgerEntry_keylet example_keylet = Inr s" "sle_key s = 5"
    using keylet_typed [of example_keylet] by (auto simp: example_keylet_def ledger_types_def)
  then show ?thesis using ledger_entry_roundtrip [OF e_keylet [OF s(1)]] by auto
qed

text \<open>The transactions that change an entry one after the other.\<close>

fun thread_all :: "(uint256 \<times> 32 word) list \<Rightarrow> STLedgerEntry \<Rightarrow> (led_error, (uint256 \<times> 32 word) option list \<times> STLedgerEntry) result" where
  "thread_all [] s = Inr ([], s)"
| "thread_all ((txID, seq) # r) s =
     bind_r (sle_thread txID seq s) (\<lambda>(p, s1). bind_r (thread_all r s1) (\<lambda>(ps, s2). Inr (p # ps, s2)))"

text \<open>
  C20: Threading. When transactions change an entry one after the other, no two successive ones the same, each call
  reports the transaction and ledger before it, so that the reports chain all of them; the entry then names
  the last one and nothing else of it has changed. Threading the same transaction again changes nothing, and
  asserts that the ledger is the same. An entry without the fields of a thread is refused.
\<close>

theorem entry_threading:
  assumes "sle_typed s" "isThreadedType s" "distinct_adj (t0 # map fst txs)" "getThreadedTransaction s = Inr t0" "getThreadedLedger s = Inr q0"
  shows "(\<exists>s'. thread_all txs s = Inr (map Some (butlast ((t0, q0) # txs)), s') \<and> sle_key s' = sle_key s \<and> sle_type s' = sle_type s \<and>
        getThreadedTransaction s' = Inr (fst (last ((t0, q0) # txs))) \<and> getThreadedLedger s' = Inr (snd (last ((t0, q0) # txs))) \<and>
        (\<forall>g. fieldCode g \<noteq> fieldCode sfPreviousTxnID \<longrightarrow> fieldCode g \<noteq> fieldCode sfPreviousTxnLgrSeq \<longrightarrow>
          peekAtPField g (sle_body s') = peekAtPField g (sle_body s))) \<and>
    sle_thread t0 seq s = (if seq = q0 then Inr (None, s) else Inl LAssert) \<and>
    (\<not> isThreadedType other \<longrightarrow> sle_thread txID seq other = Inl (LThrow ''Field not found''))"
proof (intro conjI impI)
  show "\<exists>s'. thread_all txs s = Inr (map Some (butlast ((t0, q0) # txs)), s') \<and> sle_key s' = sle_key s \<and> sle_type s' = sle_type s \<and>
        getThreadedTransaction s' = Inr (fst (last ((t0, q0) # txs))) \<and> getThreadedLedger s' = Inr (snd (last ((t0, q0) # txs))) \<and>
        (\<forall>g. fieldCode g \<noteq> fieldCode sfPreviousTxnID \<longrightarrow> fieldCode g \<noteq> fieldCode sfPreviousTxnLgrSeq \<longrightarrow>
          peekAtPField g (sle_body s') = peekAtPField g (sle_body s))"
    using assms
  proof (induction txs arbitrary: s t0 q0)
    case (Cons tx txs)
    obtain t q where tx: "tx = (t, q)" by fastforce
    have ne: "t0 \<noteq> t" "distinct_adj (t # map fst txs)" using Cons.prems(3) by (simp_all add: tx)
    obtain s1 where s1: "sle_thread t q s = Inr (Some (t0, q0), s1)" "sle_typed s1" "isThreadedType s1" "sle_key s1 = sle_key s"
      "sle_type s1 = sle_type s" "getThreadedTransaction s1 = Inr t" "getThreadedLedger s1 = Inr q"
      "\<forall>g. fieldCode g \<noteq> fieldCode sfPreviousTxnID \<longrightarrow> fieldCode g \<noteq> fieldCode sfPreviousTxnLgrSeq \<longrightarrow>
        peekAtPField g (sle_body s1) = peekAtPField g (sle_body s)"
      using thread_step [OF Cons.prems(1,2,4,5) ne(1)] by metis
    from Cons.IH [OF s1(2,3) ne(2) s1(6,7)] s1 show ?case by (auto simp: tx)
  qed simp
  show "sle_thread t0 seq s = (if seq = q0 then Inr (None, s) else Inl LAssert)"
    using assms(4,5) by (simp add: sle_thread_def getThreadedTransaction_def getThreadedLedger_def led_assert_def)
  assume "\<not> isThreadedType other"
  then have "getFieldH256 sfPreviousTxnID (sle_body other) = Inl (LThrow ''Field not found'')"
    by (simp add: isThreadedType_def getFieldH256_def getFieldBy_def peekAtPField_def)
  then show "sle_thread txID seq other = Inl (LThrow ''Field not found'')" by (simp add: sle_thread_def)
qed

theorem entry_threading_witness:
  "\<exists>s s'. STLedgerEntry_keylet example_keylet = Inr s \<and> thread_all [(7, 1), (9, 2)] s = Inr ([Some (0, 0), Some (7, 1)], s')"
proof -
  obtain s where s: "STLedgerEntry_keylet example_keylet = Inr s" "sle_typed s"
    using keylet_typed [of example_keylet] by (auto simp: example_keylet_def ledger_types_def)
  have "case STLedgerEntry_keylet example_keylet of Inl _ \<Rightarrow> False
    | Inr s \<Rightarrow> isThreadedType s \<and> getThreadedTransaction s = Inr 0 \<and> getThreadedLedger s = Inr 0" by code_simp
  then have t: "isThreadedType s" "getThreadedTransaction s = Inr 0" "getThreadedLedger s = Inr 0" by (simp_all add: s(1))
  show ?thesis using entry_threading [OF s(2) t(1) _ t(2,3), of "[(7, 1), (9, 2)]" 0 s 1] s(1) by auto
qed

section \<open>Transactions\<close>

text \<open>
  C19: Reading transactions. A transaction of its format is written without failure, and read back as itself when its
  bytes are between 32 and 1048576. Any input, whoever wrote it, with fewer or more bytes left is refused before
  anything is parsed, and whatever is read has the template of its type and a typed value in every field.
\<close>

theorem transaction_roundtrip:
  assumes "tx_ok tx" "sig_state tx = None"
  shows "(\<exists>bytes. getSerializer (tx_obj tx) = Inr bytes \<and>
      (32 \<le> length bytes \<and> length bytes \<le> 1048576 \<longrightarrow> (\<exists>it. STTx_iter (SerialIter_of bytes) = Inr (tx, it)))) \<and>
    (si_remain sit < 32 \<or> 1048576 < si_remain sit \<longrightarrow> STTx_iter sit = Inl (LThrow ''Transaction length invalid'')) \<and>
    (STTx_iter sit = Inr (tx', sit') \<longrightarrow> tx_typed tx')"
proof (intro conjI impI)
  have "fields_ok (obj_v (tx_obj tx))" using assms(1) by (auto simp: tx_ok_def)
  then have "getSerializer (tx_obj tx) = Inr (object_bytes (tx_obj tx))" by (rule getSerializer_bytes)
  then show "\<exists>bytes. getSerializer (tx_obj tx) = Inr bytes \<and>
      (32 \<le> length bytes \<and> length bytes \<le> 1048576 \<longrightarrow> (\<exists>it. STTx_iter (SerialIter_of bytes) = Inr (tx, it)))"
    using tx_roundtrip(2) [OF assms] by blast
  show "STTx_iter sit = Inl (LThrow ''Transaction length invalid'')" if "si_remain sit < 32 \<or> 1048576 < si_remain sit"
    using that by (auto simp: STTx_iter_def)
  show "tx_typed tx'" if "STTx_iter sit = Inr (tx', sit')" using STTx_iter_typed [OF that] by simp
qed

text \<open>A transaction that sets nothing, of account 7, with a key of one byte.\<close>

definition example_value :: "SField \<Rightarrow> STBase" where
  "example_value f =
     (if fieldCode f = fieldCode sfTransactionType then STUInt16 3
      else if fieldCode f = fieldCode sfAccount then STAccount (replicate 20 7)
      else if fieldCode f = fieldCode sfSequence then STUInt32 1
      else if fieldCode f = fieldCode sfFee then STAmt (STAmount_drops 10 False)
      else if fieldCode f = fieldCode sfSigningPubKey then STBlob [2]
      else STNotPresent)"

definition example_tx :: STTx where
  "example_tx = (let t = fm_elements (hd txFormats) in
     \<lparr>tx_obj = STObject (Some t) (map (\<lambda>(f, _). (f, example_value f)) t), tx_type = ttACCOUNT_SET, sig_state = None\<rparr>)"

lemma object_bytes_length:
  assumes "distinct (map (fieldCode \<circ> fst) (obj_v ob))"
  shows "length (object_bytes ob) = (\<Sum>e\<leftarrow>filter present (obj_v ob). length (fblob e))"
proof -
  let ?v = "obj_v ob"
  have d: "distinct (filter present ?v)" "distinct (canon ?v)"
    using assms canon_ok(2) [OF assms] by (auto simp: distinct_map strict_sorted_iff)
  have "length (object_bytes ob) = (\<Sum>e\<leftarrow>canon ?v. length (fblob e))" by (simp add: object_bytes_def length_concat comp_def)
  also have "\<dots> = (\<Sum>e\<in>set (canon ?v). length (fblob e))" by (rule sum_list_distinct_conv_sum_set [OF d(2)])
  also have "\<dots> = (\<Sum>e\<in>set (filter present ?v). length (fblob e))" using canon_ok(1) [OF assms] by simp
  also have "\<dots> = (\<Sum>e\<leftarrow>filter present ?v. length (fblob e))" by (rule sum_list_distinct_conv_sum_set [OF d(1), symmetric])
  finally show ?thesis .
qed

lemma example_tx_present: "filter present (obj_v (tx_obj example_tx)) =
    [(sfTransactionType, STUInt16 3), (sfAccount, STAccount (replicate 20 7)), (sfSequence, STUInt32 1), (sfFee, STAmt (STAmount_drops 10 False)),
     (sfSigningPubKey, STBlob [2])]"
  by code_simp

lemma example_fields_ok: "fields_ok (obj_v (tx_obj example_tx))"
proof -
  have w: "wire_field f" if "f \<in> {sfTransactionType, sfAccount, sfSequence, sfFee, sfSigningPubKey}" for f
    by (rule known_wire) (use that in \<open>auto simp: knownFields_def on_wire_def known_field_defs SField_named_def\<close>)
  have "am_wire (STAmount_drops 10 False)"
    by (simp add: am_wire_def am_canonical_def STAmount_drops_def STAmount_unchecked_def isXRP_amount_def isXRP_currency_def xrpIssue_def)
  with w have "\<forall>e \<in> set (filter present (obj_v (tx_obj example_tx))). st_ok (fst e) (snd e)"
    unfolding example_tx_present by (simp add: sfTransactionType_def sfAccount_def sfSequence_def sfFee_def sfSigningPubKey_def SField_named_def)
  then show ?thesis unfolding fields_ok_iff by (simp add: present_def) (metis prod.collapse)
qed

lemma example_tx_ok: "tx_ok example_tx"
proof -
  have "findByType txFormats (Some (tx_type example_tx)) = Some (hd txFormats) \<and> obj_type (tx_obj example_tx) = Some (fm_elements (hd txFormats))"
    by code_simp
  moreover have "fits_template (fm_elements (hd txFormats)) (obj_v (tx_obj example_tx))" by code_simp
  moreover have "peekAtPField sfTransactionType (tx_obj example_tx) = Inr (Some (STUInt16 (word_of_int (txType_code (tx_type example_tx)))))" by code_simp
  ultimately show ?thesis unfolding tx_ok_def using example_fields_ok by blast
qed

lemma example_tx_length: "32 \<le> length (object_bytes (tx_obj example_tx))" "length (object_bytes (tx_obj example_tx)) \<le> 918744"
proof -
  have "distinct (map (fieldCode \<circ> fst) (obj_v (tx_obj example_tx)))" by code_simp
  then show "32 \<le> length (object_bytes (tx_obj example_tx))" "length (object_bytes (tx_obj example_tx)) \<le> 918744"
    by (simp_all add: object_bytes_length example_tx_present fblob_def id_bytes_def end_bytes_def field_id_bytes_def vl_bytes_def len_bytes_def am_bytes_def
      STAmount_drops_def STAmount_unchecked_def sfTransactionType_def sfAccount_def sfSequence_def sfFee_def sfSigningPubKey_def SField_named_def)
qed

theorem transaction_roundtrip_witness:
  "(\<exists>bytes it. getSerializer (tx_obj example_tx) = Inr bytes \<and> STTx_iter (SerialIter_of bytes) = Inr (example_tx, it)) \<and>
   STTx_iter (SerialIter_of (replicate 31 0x12)) = Inl (LThrow ''Transaction length invalid'')"
proof -
  have b: "getSerializer (tx_obj example_tx) = Inr (object_bytes (tx_obj example_tx))" by (rule getSerializer_bytes [OF example_fields_ok])
  have "sig_state example_tx = None" by (simp add: example_tx_def Let_def)
  note rt = transaction_roundtrip [OF example_tx_ok this, of "SerialIter_of (replicate 31 0x12)"]
  have "si_remain (SerialIter_of (replicate 31 0x12)) < 32" by (simp add: SerialIter_of_def)
  then show ?thesis using rt b example_tx_length by auto
qed

text \<open>
  C12: Signing. A transaction that was given a public key and then signed with a matching private key, one whose
  signatures verify under that key, passes the check of its signature, whether or not multiple signatures are
  allowed; the signature is not part of what is signed, and the result is remembered.
\<close>

theorem signed_transaction_verifies:
  assumes tx: "tx_typed tx" "sig_state tx = None" "isFieldPresent sfMultiSigners (tx_obj tx) = Inr False"
    and key: "\<forall>msg st. accountPublicVerify cr pk msg (sign msg) st = Inr True" "pk \<noteq> []"
    and s: "tx_setSigningPubKey pk tx = Inr tx1" "tx_sign sign tx1 = Inr tx2"
  shows "checkSign cr allowMultiSign tx2 = Inr (True, tx2\<lparr>sig_state := Some True\<rparr>) \<and> tx_getSigningHash cr tx2 = tx_getSigningHash cr tx1 \<and>
    checkSign cr allow' (tx2\<lparr>sig_state := Some True\<rparr>) = Inr (True, tx2\<lparr>sig_state := Some True\<rparr>)"
proof -
  obtain ob where ob: "setFieldVL pk sfSigningPubKey (tx_obj tx) = Inr ob" "tx1 = tx\<lparr>tx_obj := ob\<rparr>"
    using s(1) by (auto simp: tx_setSigningPubKey_def result_simps)
  have typed: "obj_typed (tx_obj tx)" using tx(1) by (auto simp: tx_typed_def)
  have mem: "sfSigningPubKey \<in> fst ` set txCommonFields" "sfTxnSignature \<in> fst ` set txCommonFields" by (simp_all add: txCommonFields_def)
  note ix = tx_template_fields [OF tx(1) mem(1)] tx_template_fields [OF tx(1) mem(2)]
  have put: "ob = field_put sfSigningPubKey (STBlob pk) (tx_obj tx)"
    using vl.set_put [OF typed sign_fields(4,5), of pk] ob(1) ix(1) by (simp add: accepts_def)
  note g = vl.set_get [OF typed sign_fields(4,5) TrueI ob(1)]
  have typed1: "obj_typed (tx_obj tx1)" and pk: "getFieldVL sfSigningPubKey (tx_obj tx1) = Inr pk" using g by (simp_all add: ob(2))
  have multi: "isFieldPresent sfMultiSigners (tx_obj tx1) = Inr False" using tx(3) g sign_fields(9) by (simp add: isFieldPresent_peek ob(2))
  obtain t where t: "obj_type (tx_obj tx) = Some t" using tx(1) by (auto simp: tx_typed_def)
  have ix1: "getFieldIndex sfTxnSignature (tx_obj tx1) \<noteq> None"
    using ix(2) field_put_type [OF ix(1), of "STBlob pk"] t by (simp add: ob(2) put getFieldIndex_def)
  obtain flags where flags: "getFlags (tx_obj tx1) = Inr flags" using getFlags_total [OF typed1] by blast
  have single: "checkSingleSign cr tx2 = Inr True" using signed_single [OF typed1 ix1 multi pk _ flags s(2)] key(1) by blast
  obtain d where d: "getSigningData tx1 = Inr d" "getSigningData tx2 = Inr d" "sig_state tx2 = sig_state tx1"
    "peekAtPField sfSigningPubKey (tx_obj tx2) = peekAtPField sfSigningPubKey (tx_obj tx1)"
    using tx_sign_data [OF typed1 ix1 s(2)] sign_fields(6) by blast
  have "getFieldVL sfSigningPubKey (tx_obj tx2) = Inr pk" using pk getFieldVL_cong [OF d(4)] by simp
  then show ?thesis using single d tx(2) key(2)
    by (simp add: checkSign_def catch_r_def ob(2) tx_getSigningHash_def STObject_getSigningHash_def getSigningData_def)
qed

lemma add_total: "fields_ok (obj_v ob) \<Longrightarrow> \<exists>d. STObject_add b ob s = Inr d"
  unfolding STObject_add_def by (simp add: st_add_bytes(2) sort_fields_map fold_blob_writers)

lemma example_key: "accountPublicVerify int_crypto [2] msg example_sig st = Inr True"
proof -
  have "isCanonicalECDSASig int_crypto example_sig st = Inr True" using canonical_iff [OF int_crypto_ok] example_sig_der by blast
  moreover have "ECDSAVerify int_crypto h example_sig [2]" for h by (simp add: ECDSAVerify_def int_crypto_def)
  ultimately show ?thesis by (simp add: accountPublicVerify_def verifySignature_def)
qed

theorem signed_transaction_verifies_witness:
  "\<exists>tx2. tx_sign (\<lambda>_. example_sig) example_tx = Inr tx2 \<and> checkSign int_crypto True tx2 = Inr (True, tx2\<lparr>sig_state := Some True\<rparr>)"
proof -
  have state: "sig_state example_tx = None" by (simp add: example_tx_def Let_def)
  obtain it where "STTx_iter (SerialIter_of (object_bytes (tx_obj example_tx))) = Inr (example_tx, it)"
    using tx_roundtrip(2) [OF example_tx_ok state] example_tx_length by fastforce
  then have typed: "tx_typed example_tx" using STTx_iter_typed by blast
  then have ob: "obj_typed (tx_obj example_tx)" by (auto simp: tx_typed_def)
  have multi: "isFieldPresent sfMultiSigners (tx_obj example_tx) = Inr False" by code_simp
  have pk: "tx_setSigningPubKey [2] example_tx = Inr example_tx" by code_simp
  obtain d where d: "getSigningData example_tx = Inr d" using add_total [OF example_fields_ok] by (auto simp: getSigningData_def)
  have "accepts sfTxnSignature (tx_obj example_tx)"
    using tx_template_fields [OF typed, of sfTxnSignature] by (simp add: accepts_def txCommonFields_def)
  then obtain ob2 where "setFieldVL example_sig sfTxnSignature (tx_obj example_tx) = Inr ob2"
    using vl.set_put [OF ob sign_fields(1,2), of example_sig] by simp
  with d obtain tx2 where "tx_sign (\<lambda>_. example_sig) example_tx = Inr tx2" by (simp add: tx_sign_def)
  then show ?thesis using signed_transaction_verifies [OF typed state multi _ _ pk, of int_crypto "\<lambda>_. example_sig" tx2 True True] example_key by blast
qed

text \<open>
  C11: Multiple signatures. They are accepted exactly when there are one to eight signers in strictly increasing
  order of their accounts, for each of them one to eight signing accounts in strictly increasing order, none of
  them the signer itself, no account signs twice for the account of the transaction, directly and through others,
  and every signature is one, under the public key beside it, of the prefix of multiple signatures, the fields of the
  transaction that are signed, the 20 bytes of the signer and the 20 bytes of the signing account, strictly canonical
  when bit 31 of the flags asks for it. A signature that cannot be read or whose check throws is not one.
\<close>

theorem multi_signature_rules:
  "checkMultiSign cr tx = Inr True \<longleftrightarrow>
     (\<exists>ms dataStart txn flags. isFieldPresent sfMultiSigners (tx_obj tx) = Inr True \<and> getFieldArray sfMultiSigners (tx_obj tx) = Inr ms \<and>
       STObject_add False (tx_obj tx) [0x53, 0x4D, 0x54, 0] = Inr dataStart \<and> getAccountID sfAccount (tx_obj tx) = Inr txn \<and>
       getFlags (tx_obj tx) = Inr flags \<and> signers_ok cr dataStart (if bit flags 31 then strict else not_strict) txn ms)"
  by (rule checkMultiSign_iff)

text \<open>Account 9 signs for account 8, which signs for account 7.\<close>

definition account_entry :: "byte \<Rightarrow> SField \<times> STBase" where
  "account_entry c = (sfAccount, STAccount (replicate 19 0 @ [c]))"

definition example_multi :: STTx where
  "example_multi = \<lparr>tx_obj = STObject None [account_entry 7, (sfMultiSigners, STArray [(sfSigningFor, STObject None [account_entry 8,
     (sfSigningAccounts, STArray [(sfSigningAccount, STObject None
       [account_entry 9, (sfSigningPubKey, STBlob [2]), (sfMultiSignature, STBlob example_sig)])])])])],
     tx_type = ttACCOUNT_SET, sig_state = None\<rparr>"

theorem multi_signature_rules_witness: "checkMultiSign int_crypto example_multi = Inr True"
proof -
  let ?key = "STObject None [account_entry 9, (sfSigningPubKey, STBlob [2]), (sfMultiSignature, STBlob example_sig)]"
  let ?for = "STObject None [account_entry 8, (sfSigningAccounts, STArray [(sfSigningAccount, ?key)])]"
  have "isFieldPresent sfMultiSigners (tx_obj example_multi) = Inr True" "getFieldArray sfMultiSigners (tx_obj example_multi) = Inr [(sfSigningFor, ?for)]"
    "getAccountID sfAccount (tx_obj example_multi) = Inr 7" "getFlags (tx_obj example_multi) = Inr 0" by code_simp+
  moreover have "case STObject_add False (tx_obj example_multi) [0x53, 0x4D, 0x54, 0] of Inl _ \<Rightarrow> False | Inr _ \<Rightarrow> True" by code_simp
  then obtain d where "STObject_add False (tx_obj example_multi) [0x53, 0x4D, 0x54, 0] = Inr d" by (auto split: sum.splits)
  moreover have "signers_ok int_crypto d not_strict 7 [(sfSigningFor, ?for)]"
  proof -
    have a: "acct (sfSigningFor, ?for) = 8" "acct (sfSigningAccount, ?key) = 9" "signing_for (sfSigningFor, ?for) = [(sfSigningAccount, ?key)]"
      by code_simp+
    have k: "getFieldVL sfSigningPubKey ?key = Inr [2]" "getFieldVL sfMultiSignature ?key = Inr example_sig" by code_simp+
    show ?thesis by (simp add: signers_ok_def signer_ok_def accounts_ok_def first_level_def sig_valid_def a k example_key)
  qed
  ultimately show ?thesis unfolding multi_signature_rules [of int_crypto example_multi] by auto
qed

text \<open>
  C29: Local checks. A transaction passes exactly when its memos take at most 1024 bytes, each of them is a memo with
  only the three fields of one, the bytes of the type and format are characters allowed in URLs, which are the
  printable ASCII characters but for nine, and every account field, of the object itself, has 20 bytes. Without memos
  only the accounts count, and the check fails only with the error of the writer of the memos. The text of a blob
  always decodes, so that the refusal for text that is not hexadecimal is never given.
\<close>

theorem local_checks:
  assumes "obj_typed st"
  shows "(case st_add_array (memos_of st) [] of
      Inl e \<Rightarrow> passesLocalChecks st = Inl e
    | Inr s \<Rightarrow> (\<exists>r. passesLocalChecks st = Inr r \<and>
        (r = None \<longleftrightarrow> length s \<le> 1024 \<and> (\<forall>f b. (f, STAccount b) \<in> set (obj_v st) \<longrightarrow> length b = 20) \<and>
          (\<forall>m \<in> set (memos_of st). fieldCode (fst m) = fieldCode sfMemo \<and> (\<forall>e \<in> set (obj_v (snd m)). memo_field_ok e))))) \<and>
    (strHex b = Inr t \<longrightarrow> strUnHex t = Some b)"
proof (intro conjI impI)
  obtain r where r: "memo_array (memos_of st) = Inr r"
    "r = None \<longleftrightarrow> (\<forall>m \<in> set (memos_of st). fieldCode (fst m) = fieldCode sfMemo \<and> (\<forall>e \<in> set (obj_v (snd m)). memo_field_ok e))"
    using memo_array_iff [OF memos_of_typed [OF assms]] by blast
  have a: "isAccountFieldOkay st \<longleftrightarrow> (\<forall>f b. (f, STAccount b) \<in> set (obj_v st) \<longrightarrow> length b = 20)"
    by (fastforce simp: isAccountFieldOkay_def split: STBase.splits)
  show "case st_add_array (memos_of st) [] of
      Inl e \<Rightarrow> passesLocalChecks st = Inl e
    | Inr s \<Rightarrow> (\<exists>r. passesLocalChecks st = Inr r \<and>
        (r = None \<longleftrightarrow> length s \<le> 1024 \<and> (\<forall>f b. (f, STAccount b) \<in> set (obj_v st) \<longrightarrow> length b = 20) \<and>
          (\<forall>m \<in> set (memos_of st). fieldCode (fst m) = fieldCode sfMemo \<and> (\<forall>e \<in> set (obj_v (snd m)). memo_field_ok e))))"
    unfolding r(2) [symmetric] a [symmetric] using memo_check [OF assms] r(1)
    by (cases r) (auto simp: passesLocalChecks_def split: sum.split)
  assume "strHex b = Inr t"
  then show "strUnHex t = Some b" using strHex_decode [of b] by (auto simp: strUnHex_def)
qed

text \<open>An object with an account and a memo passes; with 21 bytes in the account it does not.\<close>

definition example_memo :: "nat \<Rightarrow> STObject" where
  "example_memo n = STObject None [(sfAccount, STAccount (replicate n 7)),
     (sfMemos, STArray [(sfMemo, STObject None [(sfMemoType, STBlob [0x61]), (sfMemoData, STBlob [0x00])])])]"

theorem local_checks_witness: "passesLocalChecks (example_memo 20) = Inr None \<and> passesLocalChecks (example_memo 21) \<noteq> Inr None"
proof -
  let ?ms = "[(sfMemo, STObject None [(sfMemoType, STBlob [0x61]), (sfMemoData, STBlob [0x00])])]"
  have "registered sfMemos" "registered sfAccount" by (auto intro!: known_registered simp: knownFields_def)
  then have t: "obj_typed (example_memo n)" for n using memo_fields
    by (simp add: example_memo_def) (simp add: sfMemos_def sfMemo_def sfAccount_def SField_named_def)
  have m: "memos_of (example_memo n) = ?ms" for n
    by (simp add: example_memo_def memos_of_def getFieldArray_def getFieldBy_def peekAtPField_def getFieldIndex_def obj_at_def
      sfMemos_def sfAccount_def SField_named_def field_code_def)
  have "case st_add_array ?ms [] of Inl _ \<Rightarrow> False | Inr s \<Rightarrow> length s \<le> 1024" by code_simp
  then obtain s where s: "st_add_array ?ms [] = Inr s" "length s \<le> 1024" by (cases "st_add_array ?ms []") auto
  have "memo_field_ok (sfMemoType, STBlob [0x61])" "memo_field_ok (sfMemoData, STBlob [0x00])"
    by (simp_all add: memo_field_ok_def url_byte_def)
  then show ?thesis using local_checks [OF t, of 20 "[]" "[]"] local_checks [OF t, of 21 "[]" "[]"] s
    unfolding m by (auto simp: example_memo_def)
qed

end
