(* ===== verification/LedgerEntry_Properties.thy ===== *)
theory LedgerEntry_Properties
  imports Ledger_Properties LedgerChain Transaction_Properties
begin

text \<open>
  Theorems about ledgers that hold serialized entries and transactions: sessions, open views, chains of ledgers with
  their skip lists, the genesis ledger, order book pages and owner counts.
\<close>

section \<open>A digest and a ledger to evaluate on\<close>

text \<open>A digest that keeps the keys apart: it gives the name space of an entry that is alone in it, the number of a skip
  list of a block, and 500 for everything else.\<close>

definition example_sha :: "Blob \<Rightarrow> uint256" where
  "example_sha bs = (if length bs = 2 then ucast (bs ! 1)
     else if length bs = 6 then 1000 + ucast (be_word (drop 2 bs) :: 32 word) else 500)"

lemma example_group_key: "g < 65536 \<Longrightarrow> unat (group_key example_sha g) = 1000 + g"
proof -
  assume g: "g < 65536"
  then have "group_key example_sha g = 1000 + ucast (of_nat g :: 32 word)"
    by (simp add: group_key_def index_bytes_def example_sha_def be_word_bytes_all)
  moreover have "unat (ucast (of_nat g :: 32 word) :: uint256) = g" using g by (simp add: unsigned_ucast_eq take_bit_nat_eq_self)
  ultimately show ?thesis using g unat_add_lem [of 1000 "ucast (of_nat g :: 32 word) :: uint256"] by simp
qed

lemma example_single_keys: "getLedgerHashIndex example_sha = 115" "getLedgerFeeIndex example_sha = 101" "getAccountRootIndex example_sha a = 500"
  by (simp_all add: getLedgerHashIndex_def getLedgerFeeIndex_def getAccountRootIndex_def index_bytes_def example_sha_def be_bytes_def)

lemma example_skip_keys: "skip_keys example_sha"
  unfolding skip_keys_def example_single_keys
proof (intro conjI allI impI inj_onI)
  show "(115 :: uint256) \<noteq> 0" by simp
  show "group_key example_sha g \<noteq> 0" "group_key example_sha g \<noteq> 115" if "g < 65536" for g using example_group_key [OF that] by auto
  show "g = g'" if "g \<in> {..<65536}" "g' \<in> {..<65536}" "group_key example_sha g = group_key example_sha g'" for g g'
    using that example_group_key by (metis add_left_cancel lessThan_iff)
qed

lemma example_genesis_keys: "genesis_keys example_sha a"
  by (simp add: genesis_keys_def example_single_keys)

definition example_config :: FeeConfig where
  "example_config = \<lparr>FEE_DEFAULT = 10, TRANSACTION_FEE_BASE = 10, FEE_ACCOUNT_RESERVE = 200000000, FEE_OWNER_RESERVE = 50000000\<rparr>"

lemma example_genesis:
  obtains g s where "Ledger_genesis example_sha example_config 7 = Inr g" "entries_ok g" "entries g = [500 \<mapsto> s]" "sle_type s = ltACCOUNT_ROOT"
    "li_closeTimeResolution (lg_info g) = 30" "li_closeTime (lg_info g) = 0" "li_seq (lg_info g) = 1" "chained example_sha 1 [] g"
proof -
  obtain g s where g: "Ledger_genesis example_sha example_config 7 = Inr g" "entries_ok g" "entries g = [500 \<mapsto> s]" "sle_type s = ltACCOUNT_ROOT"
    "li_closeTimeResolution (lg_info g) = 30" "li_closeTime (lg_info g) = 0" "li_seq (lg_info g) = 1"
    using genesis_ok [OF example_genesis_keys, of example_config 7] unfolding example_single_keys by blast
  have "group_key example_sha g \<noteq> 500" if "g < 65536" for g using example_group_key [OF that] by auto
  then have "k \<noteq> 500" if "is_skip_key example_sha k" for k
    using that by (auto simp: is_skip_key_def example_single_keys)
  then have "chained example_sha 1 [] g" using g by (intro c_first) auto
  with that g show ?thesis by blast
qed

section \<open>Sessions\<close>

text \<open>
  C5: A session on a sandbox over an open view over a ledger, whose changes are then applied to the view
  and from the view to the ledger, runs without an error, and the ledger then holds, in binary form, what the same
  sequence of changes makes of the map of its entries; the answers are those of the map, and the total of
  drops changes by what was created less what was destroyed, modulo the width of the counter. The changes have to leave
  the entries in the form of their templates.
\<close>

theorem session_commits:
  assumes "entry_inv l" "\<forall>op \<in> set ops. sb_fits op \<and> sb_keeps entry_good op" "heap_good entry_good h0"
  shows "\<exists>rs h sb v l'.
    run_ops sb_exec ops (h0, Sandbox_of (ov_view (OpenView_of (lg_view STLedgerEntry_read l))) flags) = Inr (rs, (h, sb)) \<and>
    sb_apply ov_raw h sb (OpenView_of (lg_view STLedgerEntry_read l)) = Inr v \<and>
    ov_apply (lg_raw sha entry_add) h v l = Inr l' \<and> entry_inv l' \<and>
    run_ops sb_spec ops (entries l, 0) = Inr (rs, (entries l', li_drops (lg_info l') - li_drops (lg_info l)))"
  by (rule any_session_commits [OF assms])

text \<open>A change of one field, for the entries that have it.\<close>

definition mark_entry :: "uint256 \<Rightarrow> STObject \<Rightarrow> STObject" where
  "mark_entry x ob = (case setFieldH256 x sfPreviousTxnID ob of Inl _ \<Rightarrow> ob | Inr ob' \<Rightarrow> ob')"

lemma mark_fields: "registered sfPreviousTxnID" "fieldType sfPreviousTxnID = STI_HASH256" "fieldCode sfPreviousTxnID \<noteq> fieldCode sfLedgerEntryType"
  "wire_field sfPreviousTxnID"
  by (auto intro!: known_registered known_wire simp: knownFields_def on_wire_def sfPreviousTxnID_def SField_named_def sfLedgerEntryType_def field_code_def)

lemma mark_good: "entry_good s \<Longrightarrow> entry_good (s\<lparr>sle_body := mark_entry x (sle_body s)\<rparr>)"
proof -
  assume g: "entry_good s"
  then have s: "sle_ok s" "sle_typed s" by (simp_all add: entry_good_def)
  note f = mark_fields
  show ?thesis
  proof (cases "getFieldIndex sfPreviousTxnID (sle_body s)")
    case None
    moreover have "obj_typed (sle_body s)" "obj_type (sle_body s) \<noteq> None" using s(2) by (auto simp: sle_typed_def)
    ultimately have "mark_entry x (sle_body s) = sle_body s" using h256.set_put [OF _ f(1,2)] by (auto simp: mark_entry_def accepts_def isFree_def)
    then show ?thesis using g by simp
  next
    case (Some i)
    have "st_ok sfPreviousTxnID (STHash256 x)" using f by simp
    from h256.entry_put [OF s f(1,2,3) _ TrueI this] s_setFieldH256 Some
    obtain ob where ob: "setFieldH256 x sfPreviousTxnID (sle_body s) = Inr ob" "sle_ok (s\<lparr>sle_body := ob\<rparr>)" "sle_typed (s\<lparr>sle_body := ob\<rparr>)"
      "peekAtPField sfPreviousTxnID ob = Inr (Some (STHash256 x))" by auto
    have "12 \<le> length (fblob (sfPreviousTxnID, STHash256 x))" by (simp add: fblob_def)
    also have "\<dots> \<le> length (object_bytes ob)" using entry_bytes_field [OF ob(3) f(1)] ob(4) by simp
    finally show ?thesis using ob by (simp add: entry_good_def mark_entry_def)
  qed
qed

lemma example_account:
  obtains s where "entry_good s" "sle_key s = 2" "sle_type s = ltACCOUNT_ROOT"
proof -
  have "am_wire (STAmount_drops 10 False)"
    by (simp add: am_wire_def am_canonical_def STAmount_drops_def STAmount_unchecked_def isXRP_amount_def isXRP_currency_def xrpIssue_def)
  from account_made [of "\<lparr>kl_type = ltACCOUNT_ROOT, kl_key = 2\<rparr>", OF _ this, of 1 9] that show ?thesis by auto
qed

text \<open>A ledger opened on the genesis ledger, with the account of all the coins.\<close>

lemma example_ledger:
  obtains l s where "entry_inv l" "entries l = [500 \<mapsto> s]" "lg_txMap l = SHAMap_init" "li_open (lg_info l)" "sle_type s = ltACCOUNT_ROOT"
proof -
  obtain g s where g: "entries_ok g" "entries g = [500 \<mapsto> s]" "li_closeTimeResolution (lg_info g) = 30" "li_closeTime (lg_info g) = 0"
    "li_seq (lg_info g) = 1" "sle_type s = ltACCOUNT_ROOT" by (rule example_genesis)
  from opens_again [OF g(1,3,4)] g(2,5,6) that show ?thesis by auto
qed

definition example_session :: "STLedgerEntry \<Rightarrow> STObject sb_op list" where
  "example_session s = [SbInsert s, SbModify 500 (mark_entry 3), SbErase 2, SbDestroy 10]"

lemma example_session_ok: "entry_good s \<Longrightarrow> sle_key s = 2 \<Longrightarrow> \<forall>op \<in> set (example_session s). sb_fits op \<and> sb_keeps entry_good op"
  by (simp add: example_session_def mark_good)

lemma example_session_run:
  assumes "sle_key s2 = 2"
  shows "run_ops sb_spec (example_session s2) ([500 \<mapsto> s], 0) = Inr ([None, Some s, Some s2, None], ([500 \<mapsto> s\<lparr>sle_body := mark_entry 3 (sle_body s)\<rparr>], - 10))"
  using assms by (auto simp: example_session_def fun_eq_iff)

theorem session_commits_witness:
  "\<exists>l s s2 h sb v l'. entries l = [500 \<mapsto> s] \<and>
     run_ops sb_exec (example_session s2) ([], Sandbox_of (ov_view (OpenView_of (lg_view STLedgerEntry_read l))) 0) =
       Inr ([None, Some s, Some s2, None], (h, sb)) \<and>
     sb_apply ov_raw h sb (OpenView_of (lg_view STLedgerEntry_read l)) = Inr v \<and> ov_apply (lg_raw example_sha entry_add) h v l = Inr l' \<and>
     entries l' = [500 \<mapsto> s\<lparr>sle_body := mark_entry 3 (sle_body s)\<rparr>] \<and> li_drops (lg_info l') = li_drops (lg_info l) - 10"
proof -
  obtain l s where l: "entry_inv l" "entries l = [500 \<mapsto> s]" by (rule example_ledger)
  obtain s2 where s2: "entry_good s2" "sle_key s2 = 2" by (rule example_account)
  have "heap_good entry_good []" by (simp add: heap_good_def)
  from session_commits [OF l(1) example_session_ok [OF s2] this, of 0 example_sha, unfolded l(2) example_session_run [OF s2(2)]]
  obtain h sb v l' where r:
    "run_ops sb_exec (example_session s2) ([], Sandbox_of (ov_view (OpenView_of (lg_view STLedgerEntry_read l))) 0) =
       Inr ([None, Some s, Some s2, None], (h, sb))"
    "sb_apply ov_raw h sb (OpenView_of (lg_view STLedgerEntry_read l)) = Inr v" "ov_apply (lg_raw example_sha entry_add) h v l = Inr l'"
    "entries l' = [500 \<mapsto> s\<lparr>sle_body := mark_entry 3 (sle_body s)\<rparr>]" "li_drops (lg_info l') - li_drops (lg_info l) = - 10" by auto
  from r(5) have "li_drops (lg_info l') = li_drops (lg_info l) - 10" by (simp add: algebra_simps)
  with r(1-4) l(2) show ?thesis by blast
qed

text \<open>
  C13: In every state of such a session the view answers as the map of the specification: a read gives the
  entry if the type fits, existence is membership, and the search for the next key, which skips the erased
  keys of the views below in a loop, always ends with the least greater key below the limit.
\<close>

theorem session_reads:
  assumes "entry_inv l" "\<forall>op \<in> set ops. sb_fits op"
    "run_ops sb_exec ops (h0, Sandbox_of (ov_view (OpenView_of (lg_view STLedgerEntry_read l))) flags) = Inr (rs, (h, sb))"
    "run_ops sb_spec ops (entries l, 0) = Inr (rs', (m, n))" "kl_key k \<noteq> 0"
  shows "rv_read (av_view sb) h k = checked k (m (kl_key k)) \<and>
    (keylet_fits k (m (kl_key k)) \<longrightarrow> rv_exists (av_view sb) h k = Inr (m (kl_key k) \<noteq> None)) \<and>
    (\<exists>r. rv_succ (av_view sb) key upto_key = Inr r \<and> is_succ (dom m) key upto_key r)"
  by (rule any_session_reads [OF assms])

theorem session_reads_witness:
  "\<exists>l s s2 rs h sb. entries l = [500 \<mapsto> s] \<and>
     run_ops sb_exec (example_session s2) ([], Sandbox_of (ov_view (OpenView_of (lg_view STLedgerEntry_read l))) 0) = Inr (rs, (h, sb)) \<and>
     rv_read (av_view sb) h (keylet_unchecked 500) = Inr (Some (s\<lparr>sle_body := mark_entry 3 (sle_body s)\<rparr>)) \<and>
     rv_read (av_view sb) h (keylet_unchecked 2) = Inr None"
proof -
  obtain l s where l: "entry_inv l" "entries l = [500 \<mapsto> s]" by (rule example_ledger)
  obtain s2 where s2: "entry_good s2" "sle_key s2 = 2" by (rule example_account)
  have fits: "\<forall>op \<in> set (example_session s2). sb_fits op" using example_session_ok [OF s2] by simp
  have "lg_ok entry_good entry_add STLedgerEntry_read l" using l(1) by (simp add: lg_inv_def)
  from open_view.session_ok [OF ledger_view.fresh_open_view(1) [OF this] fits] obtain rs h sb where
    run: "run_ops sb_exec (example_session s2) ([], Sandbox_of (ov_view (OpenView_of (lg_view STLedgerEntry_read l))) 0) = Inr (rs, (h, sb))" by blast
  note r = session_reads [OF l(1) fits run, unfolded l(2), OF example_session_run [OF s2(2)]]
  have "rv_read (av_view sb) h (keylet_unchecked 500) = Inr (Some (s\<lparr>sle_body := mark_entry 3 (sle_body s)\<rparr>))"
    "rv_read (av_view sb) h (keylet_unchecked 2) = Inr None"
    using r [of "keylet_unchecked 500"] r [of "keylet_unchecked 2"] by (simp_all add: checked_def)
  with run l(2) show ?thesis by blast
qed

section \<open>Transactions\<close>

text \<open>The bytes that an open view holds for a transaction with its metadata, of a length that a ledger can store.\<close>

definition tx_stored :: "STTx \<Rightarrow> STObject \<Rightarrow> Blob \<Rightarrow> Blob option \<Rightarrow> bool" where
  "tx_stored tx ob txn meta = (tx_ok tx \<and> sig_state tx = None \<and> getSerializer (tx_obj tx) = Inr txn \<and> 32 \<le> length txn \<and> length txn \<le> 918744 \<and>
     object_ok ob \<and> (\<exists>m. meta = Some m \<and> getSerializer ob = Inr m \<and> length m \<le> 918744))"

lemma tx_stored_reads:
  assumes "tx_stored tx ob txn (Some meta)"
  shows "\<exists>it. STTx_iter (SerialIter_of txn) = Inr (tx, it)" "\<exists>it. STObject_read (SerialIter_of meta) = Inr (ob, it)"
proof -
  have "fields_ok (obj_v (tx_obj tx))" using assms by (auto simp: tx_stored_def tx_ok_def)
  then have "txn = object_bytes (tx_obj tx)" "meta = object_bytes ob"
    using assms getSerializer_bytes object_ok_reads(1) [of ob] by (auto simp: tx_stored_def)
  then show "\<exists>it. STTx_iter (SerialIter_of txn) = Inr (tx, it)" "\<exists>it. STObject_read (SerialIter_of meta) = Inr (ob, it)"
    using assms tx_roundtrip(2) [of tx] object_ok_reads(2) [of ob] by (auto simp: tx_stored_def)
qed

lemma deserialize_objects:
  assumes "deserializeTxPlusMeta item = Inr (txn, meta)" "tx_stored tx ob txn (Some meta)"
  shows "deserializeTxPlusMeta_objects item = Inr (tx, ob)"
  using assms(1) tx_stored_reads [OF assms(2)] by (auto simp: deserializeTxPlusMeta_def deserializeTxPlusMeta_objects_def bind_r_eq_Inr_iff)

lemma txRead_objects:
  assumes "lg_txRead k l = Inr (Some txn, meta)" "tx_stored tx ob txn meta"
  shows "lg_txRead_objects k l = Inr (Some tx, Some ob)"
  using assms deserialize_objects
  by (auto simp: lg_txRead_def lg_txRead_objects_def bind_r_eq_Inr_iff tx_stored_def split: option.splits if_splits)

text \<open>The lengths of the fields of an item end at 918744 bytes, below what a transaction may have.\<close>

lemma long_transaction:
  assumes "918744 < length txn" "\<not> li_open (lg_info l)"
  shows "\<exists>e. lg_rawTxInsert key txn (Some meta) l = Inl (LThrow e)"
  using assms addVL_too_long [of txn "[]"] by (simp add: lg_rawTxInsert_def led_assert_def)

text \<open>
  C14: Applying an open view to the closed ledger below it applies the changes of the state and then inserts the
  transactions: afterwards every transaction of the view is read back with its metadata, first as the bytes the view
  holds, then as the objects they were written from, and the others are as before.
\<close>

theorem open_view_applies:
  assumes "entry_inv l" "lg_tx_ok l" "\<not> li_open (lg_info l)" "rst_ok h (entries l) (ov_items v)" "om_ok (<) (ov_txs v)" "heap_good entry_good h"
    "\<And>k txn meta. map_of (ov_txs v) k = Some (txn, meta) \<Longrightarrow> lg_txExists k l = Inr False \<and> (\<exists>tx ob. tx_stored tx ob txn meta)"
  shows "\<exists>l'. ov_apply (lg_raw sha entry_add) h v l = Inr l' \<and> entry_inv l' \<and> lg_tx_ok l' \<and>
    entries l' = rst_contents h (ov_items v) (entries l) \<and> li_drops (lg_info l') = li_drops (lg_info l) + rst_net (ov_items v) \<and>
    (\<forall>k. lg_txRead k l' = (case map_of (ov_txs v) k of None \<Rightarrow> lg_txRead k l | Some (txn, meta) \<Rightarrow> Inr (Some txn, meta))) \<and>
    (\<forall>k txn meta tx ob. map_of (ov_txs v) k = Some (txn, meta) \<and> tx_stored tx ob txn meta \<longrightarrow> lg_txRead_objects k l' = Inr (Some tx, Some ob))"
proof -
  have fit: "tx_fits l txn meta \<and> lg_txExists k l = Inr False" if "map_of (ov_txs v) k = Some (txn, meta)" for k txn meta
    using assms(7) [OF that] assms(3) by (auto simp: tx_fits_def tx_stored_def)
  obtain l' where l': "ov_apply (lg_raw sha entry_add) h v l = Inr l'" "entry_inv l'" "lg_tx_ok l'"
    "entries l' = rst_contents h (ov_items v) (entries l)" "li_drops (lg_info l') = li_drops (lg_info l) + rst_net (ov_items v)"
    "\<forall>k. lg_txRead k l' = (case map_of (ov_txs v) k of None \<Rightarrow> lg_txRead k l | Some (txn, meta) \<Rightarrow> Inr (Some txn, meta))"
    using any_view_applies [OF assms(1,2,4-6) fit, of sha] by blast
  have "lg_txRead_objects k l' = Inr (Some tx, Some ob)" if "map_of (ov_txs v) k = Some (txn, meta)" "tx_stored tx ob txn meta" for k txn meta tx ob
    using txRead_objects [OF _ that(2)] that(1) l'(6) by simp
  with l' show ?thesis by blast
qed

definition example_meta :: STObject where
  "example_meta = STObject None [(sfTransactionIndex, STUInt32 5), (sfTransactionResult, STUInt8 0)]"

lemma example_meta_ok: "object_ok example_meta" "length (object_bytes example_meta) \<le> 918744"
proof -
  have w: "wire_field f" if "f \<in> {sfTransactionResult, sfTransactionIndex}" for f
    by (rule known_wire) (use that in \<open>auto simp: knownFields_def on_wire_def sfTransactionResult_def sfTransactionIndex_def SField_named_def\<close>)
  have c: "fieldCode sfTransactionResult = field_code STI_UINT8 3" "fieldCode sfTransactionIndex = field_code STI_UINT32 28"
    "fieldType sfTransactionResult = STI_UINT8" "fieldType sfTransactionIndex = STI_UINT32"
    by (simp_all add: sfTransactionResult_def sfTransactionIndex_def SField_named_def)
  show "object_ok example_meta" using w c by (simp add: example_meta_def object_ok_def fits_shape_def field_code_def)
  have "distinct (map (fieldCode \<circ> fst) (obj_v example_meta))" using c by (simp add: example_meta_def field_code_def)
  then show "length (object_bytes example_meta) \<le> 918744"
    by (simp add: object_bytes_length) (simp add: example_meta_def present_def fblob_def id_bytes_def end_bytes_def field_id_bytes_def)
qed

definition example_view :: "Ledger \<Rightarrow> STObject OpenView" where
  "example_view l = (OpenView_of (lg_view STLedgerEntry_read l))\<lparr>ov_txs := [(9, object_bytes (tx_obj example_tx), Some (object_bytes example_meta))]\<rparr>"

theorem open_view_applies_witness:
  "\<exists>l l'. ov_apply (lg_raw example_sha entry_add) [] (example_view l) l = Inr l' \<and> lg_txRead_objects 9 l' = Inr (Some example_tx, Some example_meta)"
proof -
  obtain l1 s where l1: "entry_inv l1" "lg_txMap l1 = SHAMap_init" by (rule example_ledger)
  let ?l = "setClosed l1"
  have l: "entry_inv ?l" "\<not> li_open (lg_info ?l)" "lg_txMap ?l = SHAMap_init" using l1 closed_entries [of l1] by (simp_all add: setClosed_def)
  then have tx: "lg_tx_ok ?l" using SHAMap_init_ok by (simp add: lg_tx_ok_def map_inv_def SHAMap_init_def)
  have none: "lg_txExists 9 ?l = Inr False" using lg_txExists_same [OF tx] l(3) by simp
  have st: "tx_stored example_tx example_meta (object_bytes (tx_obj example_tx)) (Some (object_bytes example_meta))"
    using example_tx_ok example_tx_length example_meta_ok getSerializer_bytes [OF example_fields_ok] object_ok_reads(1) [OF example_meta_ok(1)]
    by (simp add: tx_stored_def) (simp add: example_tx_def Let_def)
  have rst: "rst_ok [] (entries ?l) (ov_items (example_view ?l))"
    by (simp add: example_view_def OpenView_of_def RawStateTable_init_def table_ok_def om_ok_def)
  have om: "om_ok (<) (ov_txs (example_view ?l))" and heap: "heap_good entry_good []" by (simp_all add: example_view_def om_ok_def heap_good_def)
  have txs: "map_of (ov_txs (example_view ?l)) = [9 \<mapsto> (object_bytes (tx_obj example_tx), Some (object_bytes example_meta))]"
    by (simp add: example_view_def)
  have "lg_txExists k ?l = Inr False \<and> (\<exists>tx ob. tx_stored tx ob txn meta)" if "map_of (ov_txs (example_view ?l)) k = Some (txn, meta)" for k txn meta
    using that none st unfolding txs by (auto split: if_splits)
  from open_view_applies [OF l(1) tx l(2) rst om heap this, of example_sha] obtain l' where
    "ov_apply (lg_raw example_sha entry_add) [] (example_view ?l) ?l = Inr l'"
    "\<forall>k txn meta tx ob. map_of (ov_txs (example_view ?l)) k = Some (txn, meta) \<and> tx_stored tx ob txn meta \<longrightarrow>
       lg_txRead_objects k l' = Inr (Some tx, Some ob)" by blast
  moreover have "map_of (ov_txs (example_view ?l)) 9 = Some (object_bytes (tx_obj example_tx), Some (object_bytes example_meta))" by (simp add: txs)
  ultimately show ?thesis using st by blast
qed

section \<open>Chains of ledgers\<close>

text \<open>
  C6: In a ledger that ends a chain the search for the hash of an earlier ledger finds exactly the 256 ledgers
  before it and those whose number is a multiple of 256, as far back as the chain goes, with the hashes they had, and
  fails with no assertion. The skip lists of the ledger that follows can then be updated again.
\<close>

theorem ancestor_hashes:
  assumes "skip_keys sha" "chained sha s0 hs l" "hs \<noteq> []" "q < 4294967296"
  shows "hashOfSeq sha (lg_view STLedgerEntry_read l) h (of_nat q) = Inr (if q = s0 + length hs then Some (li_hash (lg_info l))
      else if s0 \<le> q \<and> q < s0 + length hs \<and> (s0 + length hs \<le> q + 256 \<or> q mod 256 = 0) then Some (hs ! (q - s0)) else None) \<and>
    (Suc (s0 + length hs) < 4294967296 \<and> next_ledger sha l l2 \<longrightarrow> (\<exists>l3. updateSkipList sha l2 = Inr l3 \<and> entry_inv l3))"
proof -
  note c = chained_ok [OF assms(1,2)]
  have read: "read_ok h (lg_view STLedgerEntry_read l) (entries l)" using view_ok_read [OF ledger_view.promise] c by blast
  have "li_seq (rv_info (lg_view STLedgerEntry_read l)) = of_nat (s0 + length hs)" "li_parentHash (rv_info (lg_view STLedgerEntry_read l)) = last hs"
    using c assms(3) by (simp_all add: lg_view_def)
  from hashOfSeq_spec [OF assms(1) read _ assms(3) _ assms(4) this] c chain_step [OF assms(1), of s0 hs l l2] show ?thesis
    by (auto simp: lg_view_def)
qed

text \<open>A chain of 301 ledgers from the genesis ledger: numbers 256 and 45 are found, number 44 is too far back.\<close>

theorem ancestor_hashes_witness:
  "\<exists>hs l. chained example_sha 1 hs l \<and> length hs = 300 \<and>
     hashOfSeq example_sha (lg_view STLedgerEntry_read l) [] 256 = Inr (Some (hs ! 255)) \<and>
     hashOfSeq example_sha (lg_view STLedgerEntry_read l) [] 45 = Inr (Some (hs ! 44)) \<and>
     hashOfSeq example_sha (lg_view STLedgerEntry_read l) [] 44 = Inr None"
proof -
  obtain g s where g: "chained example_sha 1 [] g" "li_closeTimeResolution (lg_info g) = 30" "li_closeTime (lg_info g) = 0"
    by (rule example_genesis)
  obtain hs l where c: "chained example_sha 1 hs l" "length hs = 300" using chain_exists [OF example_skip_keys g, of 300] by auto
  have "hs \<noteq> []" using c(2) by auto
  note a = ancestor_hashes [OF example_skip_keys c(1) this, of _ "[]" g]
  from a [of 256] a [of 45] a [of 44] c show ?thesis by simp blast
qed

section \<open>The genesis ledger\<close>

text \<open>
  C36: The genesis ledger is built without failure if the digest keeps its two keys apart: it is a closed and accepted
  ledger with the number 1 and one entry, an account with sequence number 1 that holds all the coins, which is also
  the total in its header; its hashes are those of its maps and its header, and the fees are those of the
  configuration.
\<close>

theorem genesis_ledger:
  assumes "genesis_keys sha a"
  shows "\<exists>g s. Ledger_genesis sha config a = Inr g \<and> entries_ok g \<and> entries g = [getAccountRootIndex sha a \<mapsto> s] \<and>
    sle_type s = ltACCOUNT_ROOT \<and> getFieldU32 sfSequence (sle_body s) = Inr 1 \<and> getAccountID sfAccount (sle_body s) = Inr a \<and>
    getFieldAmount sfBalance (sle_body s) = Inr (STAmount_drops (li_drops (lg_info g)) False) \<and>
    li_seq (lg_info g) = 1 \<and> li_drops (lg_info g) = 70000000000000 \<and> li_accepted (lg_info g) \<and> \<not> li_open (lg_info g) \<and> lg_immutable g \<and>
    li_accountHash (lg_info g) = getHash sha (lg_stateMap g) \<and> li_hash (lg_info g) = sha (header_bytes (lg_info g)) \<and>
    lg_fees g = \<lparr>fe_base = FEE_DEFAULT config, fe_units = TRANSACTION_FEE_BASE config,
      fe_reserve = ucast (FEE_ACCOUNT_RESERVE config), fe_increment = ucast (FEE_OWNER_RESERVE config)\<rparr>"
  using genesis_ok [OF assms, of config] by (auto simp: SYSTEM_CURRENCY_START_def)

theorem genesis_ledger_witness: "\<exists>g. Ledger_genesis example_sha example_config 7 = Inr g \<and> entries_ok g \<and> li_drops (lg_info g) = 70000000000000"
  using genesis_ledger [OF example_genesis_keys, of example_config 7] by blast

section \<open>Order book pages\<close>

text \<open>
  C37: The key of an order book page is made of the base of the book and the quality of its offers: the
  quality is read back from the key, pages of a better quality come first, the keys from the base up to the next base
  are exactly the pages of the book, and the base of a consistent book is the page of quality zero.
\<close>

theorem book_pages:
  assumes "book_consistent book" "getBookBase sha book = Inr base" "uint base div 2 ^ 64 < 2 ^ 192 - 1"
  shows "getQuality (getQualityIndex base q) = q \<and> (getQualityIndex base q < getQualityIndex base q' \<longleftrightarrow> q < q') \<and>
    getQualityIndex base 0 = base \<and> (base \<le> k \<and> k < getQualityNext base \<longleftrightarrow> k = getQualityIndex base (getQuality k)) \<and>
    keylet_next \<lparr>kl_type = ltDIR_NODE, kl_key = base\<rparr> = Inr \<lparr>kl_type = ltDIR_NODE, kl_key = getQualityNext base\<rparr>"
proof -
  obtain b where "base = getQualityIndex b 0" using assms(2) by (auto simp: getBookBase_def bind_r_eq_Inr_iff)
  then have "getQualityIndex base 0 = base" by (simp add: word_uint_eq_iff quality_index_int)
  then show ?thesis using quality_range [OF assms(3), of k] by (simp add: quality_of_index quality_less keylet_next_def led_assert_def)
qed

theorem book_pages_witness:
  "\<exists>base. getBookBase example_sha \<lparr>bk_in = \<lparr>iss_currency = 0, iss_account = 0\<rparr>, bk_out = \<lparr>iss_currency = 5, iss_account = 7\<rparr>\<rparr> = Inr base \<and>
     getQualityIndex base 3 < getQualityIndex base 4 \<and> getQuality (getQualityIndex base 3) = 3"
proof -
  let ?book = "\<lparr>bk_in = \<lparr>iss_currency = 0, iss_account = 0\<rparr>, bk_out = \<lparr>iss_currency = 5, iss_account = 7\<rparr>\<rparr>"
  have c: "book_consistent ?book"
    by (simp add: book_consistent_def issue_consistent_def issue_same_def isXRP_currency_def isXRP_account_def)
  have b: "getBookBase example_sha ?book = Inr 0"
    using c by (simp add: getBookBase_def led_assert_def index_bytes_def example_sha_def getQualityIndex_def)
  from book_pages [OF c b, of 3 4] b show ?thesis by simp
qed

section \<open>Owner counts\<close>

lemma owner_field: "registered sfOwnerCount" "fieldType sfOwnerCount = STI_UINT32"
  by (auto intro!: known_registered simp: knownFields_def sfOwnerCount_def SField_named_def)

lemma owner_index: "sle_typed s \<Longrightarrow> sle_type s = ltACCOUNT_ROOT \<Longrightarrow> getFieldIndex sfOwnerCount (sle_body s) \<noteq> None"
proof -
  have "case findByType ledgerFormats (Some ltACCOUNT_ROOT) of None \<Rightarrow> False
   | Some fm \<Rightarrow> SOTemplate_getIndex sfOwnerCount (fm_elements fm) \<noteq> None" by code_simp
  then show "sle_typed s \<Longrightarrow> sle_type s = ltACCOUNT_ROOT \<Longrightarrow> ?thesis" by (auto simp: sle_typed_def getFieldIndex_def)
qed

lemma wrap32:
  fixes u a :: int
  shows "4294967296 \<le> u + a \<Longrightarrow> u < 4294967296 \<Longrightarrow> a < 2147483648 \<Longrightarrow> (u + a) mod 4294967296 = u + a - 4294967296"
    "u + a < 0 \<Longrightarrow> 0 \<le> u \<Longrightarrow> - 2147483648 \<le> a \<Longrightarrow> (u + a) mod 4294967296 = u + a + 4294967296"
  by (rule int_mod_pos_eq [of _ _ 1]; simp) (rule int_mod_pos_eq [of _ _ "- 1"]; simp)

lemma count_sum:
  fixes c :: "32 word"
  assumes "amount \<noteq> 0" "- (2 ^ 31) \<le> amount" "amount < 2 ^ 31"
  shows "0 < amount \<Longrightarrow> (c + word_of_int amount < c \<longleftrightarrow> 2 ^ 32 \<le> uint c + amount)"
    "amount < 0 \<Longrightarrow> (c < c + word_of_int amount \<longleftrightarrow> uint c + amount < 0)"
    "0 \<le> uint c + amount \<Longrightarrow> uint c + amount < 2 ^ 32 \<Longrightarrow> uint (c + word_of_int amount) = uint c + amount"
proof -
  have u: "uint (c + word_of_int amount) = (uint c + amount) mod 2 ^ 32" by (simp add: uint_word_ariths uint_word_of_int mod_add_right_eq)
  have c: "0 \<le> uint c" "uint c < 2 ^ 32" using uint_bounded [of c] by simp_all
  have a: "- 2147483648 \<le> amount" "amount < 2147483648" using assms(2,3) by simp_all
  have up: "(uint c + amount) mod 2 ^ 32 = uint c + amount - 2 ^ 32" if "2 ^ 32 \<le> uint c + amount"
    using that c(2) a(2) wrap32(1) [of "uint c" amount] by simp
  have down: "(uint c + amount) mod 2 ^ 32 = uint c + amount + 2 ^ 32" if "uint c + amount < 0"
    using that c(1) a(1) wrap32(2) [of "uint c" amount] by simp
  show in_range: "uint (c + word_of_int amount) = uint c + amount" if "0 \<le> uint c + amount" "uint c + amount < 2 ^ 32"
    using that u by (simp add: mod_pos_pos_trivial)
  show "c + word_of_int amount < c \<longleftrightarrow> 2 ^ 32 \<le> uint c + amount" if "0 < amount"
    using that c u up in_range assms(3) by (cases "2 ^ 32 \<le> uint c + amount") (simp_all add: word_less_def)
  show "c < c + word_of_int amount \<longleftrightarrow> uint c + amount < 0" if "amount < 0"
    using that c u down in_range assms(2) by (cases "uint c + amount < 0") (simp_all add: word_less_def)
qed

text \<open>Updating an entry that a view holds under its address changes the mark of its key and nothing else.\<close>

lemma view_update_marks:
  assumes "a < length h" "map_of (at_items (av_items v)) (sle_key (h ! a)) = Some (act, a)" "act \<noteq> AErase"
  shows "\<exists>v'. av_update h a v = Inr v' \<and>
    map_of (at_items (av_items v')) =
      (map_of (at_items (av_items v)))(sle_key (h ! a) \<mapsto> (if act = AInsert then AInsert else AModify, a)) \<and>
    v'\<lparr>av_items := (av_items v')\<lparr>at_items := []\<rparr>\<rparr> = v\<lparr>av_items := (av_items v)\<lparr>at_items := []\<rparr>\<rparr>"
  using assms by (cases act) (auto simp: av_update_def ast_update_def Let_def map_of_om_update fun_upd_idem)

text \<open>
  C38: Adjusting the owner count of an account that a view has peeked adds the amount, saturating at the largest
  32 bit number, marks the entry as modified, an inserted one as still inserted, and touches nothing else: not the
  other fields, not the other entries, and of the view neither the marks of other keys nor the rest of it, the drops
  included. An amount that would make the count negative fails an assertion before anything is written.
\<close>

theorem owner_count_adjusted:
  assumes "a < length h" "sle_typed (h ! a)" "sle_type (h ! a) = ltACCOUNT_ROOT" "getFieldU32 sfOwnerCount (sle_body (h ! a)) = Inr c"
    "map_of (at_items (av_items v)) (sle_key (h ! a)) = Some (act, a)" "act \<noteq> AErase"
    "amount \<noteq> 0" "- (2 ^ 31) \<le> amount" "amount < 2 ^ 31"
  shows "if uint c + amount < 0 then adjustOwnerCount a amount h v = Inl LAssert
    else \<exists>h' v' ob. adjustOwnerCount a amount h v = Inr (h', v') \<and> h' = h[a := (h ! a)\<lparr>sle_body := ob\<rparr>] \<and>
      getFieldU32 sfOwnerCount ob = Inr (word_of_int (min (uint c + amount) (2 ^ 32 - 1))) \<and>
      (\<forall>f. fieldCode f \<noteq> fieldCode sfOwnerCount \<longrightarrow> peekAtPField f ob = peekAtPField f (sle_body (h ! a))) \<and>
      map_of (at_items (av_items v')) =
        (map_of (at_items (av_items v)))(sle_key (h ! a) \<mapsto> (if act = AInsert then AInsert else AModify, a)) \<and>
      v'\<lparr>av_items := (av_items v')\<lparr>at_items := []\<rparr>\<rparr> = v\<lparr>av_items := (av_items v)\<lparr>at_items := []\<rparr>\<rparr>"
proof -
  let ?c = "c + word_of_int amount"
  define r where "r = (if 2 ^ 32 \<le> uint c + amount then - 1 else ?c)"
  define marked where "marked v' \<longleftrightarrow>
      map_of (at_items (av_items v')) =
        (map_of (at_items (av_items v)))(sle_key (h ! a) \<mapsto> (if act = AInsert then AInsert else AModify, a)) \<and>
      v'\<lparr>av_items := (av_items v')\<lparr>at_items := []\<rparr>\<rparr> = v\<lparr>av_items := (av_items v)\<lparr>at_items := []\<rparr>\<rparr>" for v'
  note w = count_sum [OF assms(7-9), of c]
  have typed: "obj_typed (sle_body (h ! a))" using assms(2) by (auto simp: sle_typed_def)
  have acc: "accepts sfOwnerCount (sle_body (h ! a))" using owner_index [OF assms(2,3)] by (simp add: accepts_def)
  let ?ob = "STObject_Access.field_put sfOwnerCount (STUInt32 r) (sle_body (h ! a))"
  have set: "setFieldU32 r sfOwnerCount (sle_body (h ! a)) = Inr ?ob" using u32.set_put [OF typed owner_field] acc by simp
  have get: "getFieldU32 sfOwnerCount ?ob = Inr r" using u32.set_get [OF typed owner_field TrueI set] by simp
  have other: "peekAtPField f ?ob = peekAtPField f (sle_body (h ! a))" if "fieldCode f \<noteq> fieldCode sfOwnerCount" for f
    using peek_put [OF typed owner_field(1) _ acc, of "STUInt32 r" f] that owner_field(2) by simp
  have upd: "\<exists>v'. av_update (write_sle a (\<lambda>_. ?ob) h) a v = Inr v' \<and> marked v'"
    using view_update_marks [OF _ _ assms(6), where h = "write_sle a (\<lambda>_. ?ob) h" and a = a and v = v] assms(1,5) unfolding marked_def
    by (simp add: write_sle_def)
  have val: "r = word_of_int (min (uint c + amount) (2 ^ 32 - 1))" if "0 \<le> uint c + amount"
  proof -
    have "uint (- 1 :: 32 word) = 4294967295" by code_simp
    then show ?thesis using that w(3) by (auto simp: r_def min_def word_uint_eq_iff uint_word_of_int)
  qed
  show ?thesis
  proof (cases "uint c + amount < 0")
    case True
    then have "amount < 0" using uint_ge_0 [of c] by linarith
    with True w(2) show ?thesis using assms(4,7) by (simp add: adjustOwnerCount_def led_assert_def Let_def)
  next
    case False
    have "(if amount > 0 then Inr (if ?c < c then - 1 else ?c) else bind_r (led_assert (\<not> ?c > c)) (\<lambda>_. Inr ?c)) = Inr r"
    proof (cases "0 < amount")
      case True
      then show ?thesis using w(1) by (simp add: r_def)
    next
      case neg: False
      then have "amount < 0" "uint c + amount < 2 ^ 32" using assms(7) uint_bounded [of c] by simp_all
      then show ?thesis using w(2) False neg by (simp add: r_def led_assert_def)
    qed
    then have "adjustOwnerCount a amount h v = bind_r (av_update (write_sle a (\<lambda>_. ?ob) h) a v) (\<lambda>v'. Inr (write_sle a (\<lambda>_. ?ob) h, v'))"
      using assms(4,7) set by (simp add: adjustOwnerCount_def led_assert_def Let_def)
    moreover have "write_sle a (\<lambda>_. ?ob) h = h[a := (h ! a)\<lparr>sle_body := ?ob\<rparr>]" using assms(1) by (simp add: write_sle_def)
    moreover obtain v' where "av_update (write_sle a (\<lambda>_. ?ob) h) a v = Inr v'" "marked v'" using upd by blast
    ultimately have "adjustOwnerCount a amount h v = Inr (h[a := (h ! a)\<lparr>sle_body := ?ob\<rparr>], v')" "marked v'" by simp_all
    moreover have "getFieldU32 sfOwnerCount ?ob = Inr (word_of_int (min (uint c + amount) (2 ^ 32 - 1)))" using get val False by simp
    ultimately show ?thesis using False other unfolding marked_def by (simp only: if_False) blast
  qed
qed

text \<open>An account with the largest owner count.\<close>

lemma example_owner:
  obtains s where "sle_typed s" "sle_type s = ltACCOUNT_ROOT" "sle_key s = 2" "getFieldU32 sfOwnerCount (sle_body s) = Inr (- 1)"
proof -
  obtain s where s: "entry_good s" "sle_key s = 2" "sle_type s = ltACCOUNT_ROOT" by (rule example_account)
  then have ok: "sle_ok s" "sle_typed s" by (simp_all add: entry_good_def)
  have "fieldCode sfOwnerCount \<noteq> fieldCode sfLedgerEntryType" "wire_field sfOwnerCount"
    by (auto intro!: known_wire simp: knownFields_def on_wire_def sfOwnerCount_def sfLedgerEntryType_def SField_named_def field_code_def)
  with u32.entry_put [OF ok owner_field _ owner_index [OF ok(2) s(3)] TrueI, of "- 1"] owner_field(2) s_setFieldU32
  obtain ob where "sle_typed (s\<lparr>sle_body := ob\<rparr>)" "getFieldU32 sfOwnerCount ob = Inr (- 1)" by auto
  with that [of "s\<lparr>sle_body := ob\<rparr>"] s show ?thesis by simp
qed

theorem owner_count_adjusted_witness:
  "\<exists>s ob v v'. getFieldU32 sfOwnerCount (sle_body s) = Inr (- 1) \<and> adjustOwnerCount 0 2 [s] v = Inr ([s\<lparr>sle_body := ob\<rparr>], v') \<and>
     getFieldU32 sfOwnerCount ob = Inr 4294967295"
proof -
  obtain s where s: "sle_typed s" "sle_type s = ltACCOUNT_ROOT" "sle_key s = 2" "getFieldU32 sfOwnerCount (sle_body s) = Inr (- 1)" by (rule example_owner)
  let ?v = "(Sandbox_of (lg_view STLedgerEntry_read toy_ledger) 0)\<lparr>av_items := ApplyStateTable_init\<lparr>at_items := [(2, ACache, 0 :: nat)]\<rparr>\<rparr>"
  have m: "map_of (at_items (av_items ?v)) (sle_key ([s] ! 0)) = Some (ACache, 0)" by (simp add: s(3))
  have u: "uint (- 1 :: 32 word) = 4294967295" by code_simp
  from owner_count_adjusted [of 0 "[s]" "- 1" ?v ACache 2] m s obtain v' ob where
    "adjustOwnerCount 0 2 [s] ?v = Inr ([s\<lparr>sle_body := ob\<rparr>], v')" "getFieldU32 sfOwnerCount ob = Inr 4294967295" by (auto simp: u)
  with s(4) show ?thesis by blast
qed

end
