(* ===== verification/STAmount_Arith.thy ===== *)
theory STAmount_Arith
  imports STAmount_Spec
begin

text \<open>
  Products, quotients and rates: the result in an issued currency is within one unit of its last place of
  the exact value, and rates compare as the quotients they encode.
\<close>

section \<open>Big numbers\<close>

text \<open>The documented behaviour of the big numbers, for the number each stands for.\<close>

definition bn_ok :: "'n BN \<Rightarrow> ('n \<Rightarrow> nat) \<Rightarrow> bool" where
  "bn_ok bn num = (num (bn_zero bn) = 0 \<and>
     (\<forall>n w. \<exists>n'. bn_add_word bn n w = Some n' \<and> num n' = num n + unat w) \<and>
     (\<forall>n w. \<exists>n'. bn_mul_word bn n w = Some n' \<and> num n' = num n * unat w) \<and>
     (\<forall>n w. w \<noteq> 0 \<longrightarrow> num (fst (bn_div_word bn n w)) = num n div unat w \<and> unat (snd (bn_div_word bn n w)) = num n mod unat w) \<and>
     (\<forall>n. num n < 2 ^ 64 \<longrightarrow> unat (bn_get_word bn n) = num n) \<and>
     (\<forall>n. num n < 2 ^ 64 \<longrightarrow> bn_num_bytes bn n \<le> 8))"

definition nat_BN :: "nat BN" where
  "nat_BN = \<lparr>bn_zero = 0, bn_add_word = (\<lambda>n w. Some (n + unat w)), bn_mul_word = (\<lambda>n w. Some (n * unat w)),
     bn_div_word = (\<lambda>n w. (n div unat w, of_nat (n mod unat w))),
     bn_num_bytes = (\<lambda>n. if n < 2 ^ 64 then 8 else 16), bn_get_word = of_nat\<rparr>"

lemma nat_BN_ok: "bn_ok nat_BN (\<lambda>n. n)"
proof -
  have "n mod unat w < 2 ^ 64" if "w \<noteq> 0" for n and w :: "64 word"
  proof -
    have "n mod unat w < unat w" using that by (simp add: unat_gt_0)
    also have "unat w < 2 ^ LENGTH(64)" by (rule unsigned_less)
    finally show ?thesis by simp
  qed
  then show ?thesis by (simp add: bn_ok_def nat_BN_def unat_of_nat)
qed

lemma bn_muldiv_ok:
  assumes "bn_ok bn num" "d \<noteq> 0" "(unat x * unat y + (case extra of None \<Rightarrow> 0 | Some w \<Rightarrow> unat w)) div unat d < 2 ^ 64"
  shows "\<exists>v. bn_muldiv bn x y extra d = Inr v \<and> unat v = (unat x * unat y + (case extra of None \<Rightarrow> 0 | Some w \<Rightarrow> unat w)) div unat d"
proof -
  from assms(1) obtain v1 where v1: "bn_add_word bn (bn_zero bn) x = Some v1" "num v1 = unat x"
    unfolding bn_ok_def by (metis add_0)
  from assms(1) v1(2) obtain v2 where v2: "bn_mul_word bn v1 y = Some v2" "num v2 = unat x * unat y"
    unfolding bn_ok_def by metis
  define v3 where "v3 = (case extra of None \<Rightarrow> v2 | Some w \<Rightarrow> (case bn_add_word bn v2 w of None \<Rightarrow> v2 | Some v \<Rightarrow> v))"
  have v3: "num v3 = unat x * unat y + (case extra of None \<Rightarrow> 0 | Some w \<Rightarrow> unat w)"
  proof (cases extra)
    case (Some w)
    obtain n' where "bn_add_word bn v2 w = Some n'" "num n' = num v2 + unat w" using assms(1) unfolding bn_ok_def by blast
    with Some v2 show ?thesis by (simp add: v3_def)
  qed (simp add: v3_def v2)
  obtain v4 r where div: "bn_div_word bn v3 d = (v4, r)" by fastforce
  with assms(1,2) have "num v4 = num v3 div unat d" "unat r = num v3 mod unat d" unfolding bn_ok_def by (metis fst_conv, metis snd_conv)
  moreover have "unat r < unat d" using assms(2) calculation(2) by (simp add: unat_gt_0)
  then have "r \<noteq> - 1" by (metis linorder_not_less word_le_nat_alt word_order.extremum)
  moreover have "num v4 < 2 ^ 64" using assms(3) calculation(1) v3 by simp
  then have "bn_num_bytes bn v4 \<le> 8" "unat (bn_get_word bn v4) = num v4" using assms(1) unfolding bn_ok_def by blast+
  ultimately show ?thesis using v1 v2 div v3 by (simp add: bn_muldiv_def flip: v3_def)
qed

section \<open>Scaling\<close>

lemma into_range_ok:
  assumes "v \<noteq> 0"
  shows "\<exists>w k. into_range v off = Some (w, off - int k) \<and> unat w = unat v * 10 ^ k \<and> cMinValue \<le> w \<and> (v \<le> cMaxValue \<longrightarrow> w \<le> cMaxValue)"
  using assms
proof (induction "10 ^ 15 - unat v" arbitrary: v off rule: less_induct)
  case less
  show ?case
  proof (cases "v < cMinValue")
    case True
    then have v: "unat (v * 10) = unat v * 10" "unat (v * 10) < 10 ^ 16" using unat_times_10 [of v] by simp_all
    have pos: "0 < unat v" using less.prems by (simp add: unat_gt_0)
    have lim: "unat v < 10 ^ 15" using True by (simp add: word_less_nat_alt)
    have "v * 10 \<noteq> 0" using v(1) pos by (metis mult_is_0 not_gr_zero unat_0 zero_neq_numeral)
    moreover have "10 ^ 15 - unat (v * 10) < 10 ^ 15 - unat v" using v(1) pos lim by simp
    ultimately obtain w k where w: "into_range (v * 10) (off - 1) = Some (w, off - 1 - int k)" "unat w = unat (v * 10) * 10 ^ k"
      "cMinValue \<le> w" "v * 10 \<le> cMaxValue \<longrightarrow> w \<le> cMaxValue" using less.hyps by blast
    moreover have "v * 10 \<le> cMaxValue" using v(2) by (simp add: word_le_nat_alt)
    ultimately show ?thesis using True v(1)
      by (intro exI [of _ w] exI [of _ "Suc k"]) (simp add: into_range.simps [of v] algebra_simps)
  next
    case False
    then show ?thesis by (intro exI [of _ v] exI [of _ 0]) (auto simp: into_range.simps [of v])
  qed
qed

text \<open>A nonzero amount is brought to a mantissa of sixteen digits without changing its magnitude.\<close>

lemma scaled_ok:
  assumes "am_canonical a" "am_value a \<noteq> 0" "am_value a \<le> cMaxValue"
  shows "\<exists>v off. scaled a = Inr (v, off) \<and> magnitude (unat v) off = \<bar>am_real a\<bar> \<and> cMinValue \<le> v \<and> v \<le> cMaxValue"
proof (cases "am_native a")
  case True
  obtain w k where w: "into_range (am_value a) (am_offset a) = Some (w, am_offset a - int k)" "unat w = unat (am_value a) * 10 ^ k"
    "cMinValue \<le> w" "w \<le> cMaxValue" using into_range_ok [OF assms(2), of "am_offset a"] assms(3) by blast
  have "magnitude (unat w) (am_offset a - int k) = \<bar>am_real a\<bar>" unfolding w(2) magnitude_up abs_am_real ..
  with True w(1,3,4) show ?thesis by (simp add: scaled_def)
next
  case False
  with assms show ?thesis by (auto simp: scaled_def am_canonical_def abs_am_real)
qed

section \<open>Rounding\<close>

lemma powi_less_iff: "(10 :: real) powi m < 10 powi n \<Longrightarrow> m < n"
proof (rule ccontr)
  assume less: "(10 :: real) powi m < 10 powi n" and "\<not> m < n"
  then have "(10 :: real) powi n \<le> 10 powi m" by (intro power_int_increasing) simp_all
  with less show False by simp
qed

text \<open>
  A mantissa of seventeen or eighteen digits, cut from the exact value and raised by less than ten, is
  within one unit of the last place when its excess digits are dropped.
\<close>

lemma round_last_place:
  fixes T :: real
  assumes iss: "iss_currency issue \<noteq> 0" and q: "10 ^ 16 \<le> unat q" "unat q < 10 ^ 18" and k: "1 \<le> k" "k < 10"
    and T: "magnitude (unat q) x \<le> T" "T < magnitude (unat q + 1) x"
  shows "case STAmount_of issue (q + of_nat k) x neg of
      Inr c \<Rightarrow> am_canonical c \<and> am_issue c = issue \<and>
        (if am_value c = 0 then T < 10 powi (- 81) else \<bar>am_real c - (if neg then - T else T)\<bar> < 10 powi am_offset c)
    | Inl e \<Rightarrow> e = LThrow ''value overflow'' \<and> 10 powi 95 \<le> T"
proof -
  let ?a = "STAmount_unchecked issue (q + of_nat k) x False neg"
  have "unat (of_nat k :: 64 word) = k" using k by (simp add: unat_of_nat)
  then have "unat (q + of_nat k) = unat q + k" using q k by (simp add: unat_word_ariths)
  then have M: "\<bar>am_real ?a\<bar> = magnitude (unat q + k) x" unfolding abs_am_real STAmount_unchecked_def by simp
  have pos: "(0 :: real) < 10 powi x" by simp
  have up: "magnitude (n + j) x = magnitude n x + real j * 10 powi x" for n j by (simp add: distrib_right)
  have T1: "T < \<bar>am_real ?a\<bar> + 10 powi x" "T < \<bar>am_real ?a\<bar>" "\<bar>am_real ?a\<bar> - T \<le> real k * 10 powi x"
  proof -
    have "1 * 10 powi x \<le> real k * (10 powi x :: real)" using k(1) by (intro mult_right_mono) simp_all
    moreover have "T < magnitude (unat q) x + 1 * 10 powi x" using T(2) unfolding up by simp
    ultimately show "T < \<bar>am_real ?a\<bar> + 10 powi x" "T < \<bar>am_real ?a\<bar>" "\<bar>am_real ?a\<bar> - T \<le> real k * 10 powi x"
      using T(1) pos unfolding M up by linarith+
  qed
  have x: "\<not> isXRP_amount ?a" using iss by (simp add: isXRP_amount_def isXRP_currency_def STAmount_unchecked_def)
  show ?thesis
  proof (cases "canonicalize ?a")
    case (Inl e)
    have "unat q + k \<le> 10 * unat q" using q k by simp
    then have "real (unat q + k) \<le> real (10 * unat q)" unfolding of_nat_le_iff .
    then have "magnitude (unat q + k) x \<le> real (10 * unat q) * 10 powi x" by (intro mult_right_mono) simp_all
    also have "\<dots> \<le> 10 * T" using T(1) by simp
    finally have "\<bar>am_real ?a\<bar> \<le> 10 * T" unfolding M .
    with canonicalize_issued_Inl [OF x Inl] Inl show ?thesis by (simp add: STAmount_of_def)
  next
    case (Inr c)
    note c = canonicalize_issued_Inr [OF x Inr]
    have ci: "am_issue c = issue" "am_canonical c" using c by (simp_all add: STAmount_unchecked_def)
    show ?thesis
    proof (cases "am_value c = 0")
      case True
      with c T1(2) ci Inr show ?thesis by (simp add: STAmount_of_def)
    next
      case nz: False
      have "\<not> am_native c" using ci iss by (simp add: am_canonical_def isXRP_amount_def isXRP_currency_def)
      with ci(2) nz have "unat (am_value c) < 10 ^ 16" by (simp add: am_canonical_def word_le_nat_alt)
      from magnitude_Suc_le [OF this order_refl, of "am_offset c"] have "\<bar>am_real c\<bar> + 10 powi am_offset c \<le> 10 powi (16 + am_offset c)"
        unfolding abs_am_real by (simp add: distrib_right)
      moreover have "10 powi (16 + x) \<le> \<bar>am_real ?a\<bar>"
        using magnitude_geq [of 16 "unat q + k" x x] q(1) unfolding M by simp
      moreover have "\<bar>am_real ?a\<bar> < \<bar>am_real c\<bar> + 10 powi am_offset c" "\<bar>am_real c\<bar> \<le> \<bar>am_real ?a\<bar>" "am_negative c = neg"
        using c nz by (simp_all add: STAmount_unchecked_def)
      ultimately have lt: "x < am_offset c" using powi_less_iff [of "16 + x" "16 + am_offset c"] by linarith
      then have "(10 :: real) powi (x + 1) \<le> 10 powi am_offset c" by (intro power_int_increasing) simp_all
      then have "10 * 10 powi x \<le> (10 powi am_offset c :: real)" by (simp add: power_int_add)
      moreover have "real k * 10 powi x < 10 * (10 powi x :: real)" using k(2) by (intro mult_strict_right_mono) simp_all
      ultimately have "\<bar>\<bar>am_real c\<bar> - T\<bar> < 10 powi am_offset c"
        using T1 \<open>\<bar>am_real ?a\<bar> < \<bar>am_real c\<bar> + 10 powi am_offset c\<close> \<open>\<bar>am_real c\<bar> \<le> \<bar>am_real ?a\<bar>\<close> by linarith
      moreover have "am_real c = (if neg then - \<bar>am_real c\<bar> else \<bar>am_real c\<bar>)"
        using am_real_sign [of c] unfolding \<open>am_negative c = neg\<close> .
      ultimately have "\<bar>am_real c - (if neg then - T else T)\<bar> < 10 powi am_offset c" by (cases neg; simp; linarith)
      with nz ci Inr show ?thesis by (simp add: STAmount_of_def)
    qed
  qed
qed

section \<open>Quotients and products\<close>

lemma div_magnitude:
  assumes "0 < d"
  shows "magnitude (n div d) x \<le> real n / real d * 10 powi x" "real n / real d * 10 powi x < magnitude (n div d + 1) x"
proof -
  have "n div d * d \<le> n" "n < (n div d + 1) * d" using dividend_less_div_times [OF assms, of n] by (simp_all add: algebra_simps)
  then have "real (n div d * d) \<le> real n" "real n < real ((n div d + 1) * d)" unfolding of_nat_le_iff of_nat_less_iff .
  then have r: "real (n div d) \<le> real n / real d" "real n / real d < real (n div d + 1)" using assms by (simp_all only: of_nat_mult) (simp_all add: field_simps)
  from r(1) show "magnitude (n div d) x \<le> real n / real d * 10 powi x" by (rule mult_right_mono) simp
  from r(2) show "real n / real d * 10 powi x < magnitude (n div d + 1) x" by (rule mult_strict_right_mono) simp
qed

lemma am_real_div: "am_real a / am_real b = (if am_negative a \<noteq> am_negative b then - (\<bar>am_real a\<bar> / \<bar>am_real b\<bar>) else \<bar>am_real a\<bar> / \<bar>am_real b\<bar>)"
  and am_real_mult: "am_real a * am_real b = (if am_negative a \<noteq> am_negative b then - (\<bar>am_real a\<bar> * \<bar>am_real b\<bar>) else \<bar>am_real a\<bar> * \<bar>am_real b\<bar>)"
  by (subst am_real_sign [of a], subst am_real_sign [of b], simp)+

lemma am_divide_rounds:
  assumes bn: "bn_ok bn num" and can: "am_canonical a" "am_canonical b" and nz: "am_value a \<noteq> 0" "am_value b \<noteq> 0"
    and lim: "am_value a \<le> cMaxValue" "am_value b \<le> cMaxValue" and iss: "iss_currency issue \<noteq> 0"
  shows "case am_divide bn a b issue of
      Inr c \<Rightarrow> am_canonical c \<and> am_issue c = issue \<and>
        (if am_value c = 0 then \<bar>am_real a / am_real b\<bar> < 10 powi (- 81) else \<bar>am_real c - am_real a / am_real b\<bar> < 10 powi am_offset c)
    | Inl e \<Rightarrow> e = LThrow ''value overflow'' \<and> 10 powi 95 \<le> \<bar>am_real a / am_real b\<bar>"
proof -
  obtain v1 o1 where a: "scaled a = Inr (v1, o1)" "magnitude (unat v1) o1 = \<bar>am_real a\<bar>" "cMinValue \<le> v1" "v1 \<le> cMaxValue"
    using scaled_ok [OF can(1) nz(1) lim(1)] by blast
  obtain v2 o2 where b: "scaled b = Inr (v2, o2)" "magnitude (unat v2) o2 = \<bar>am_real b\<bar>" "cMinValue \<le> v2" "v2 \<le> cMaxValue"
    using scaled_ok [OF can(2) nz(2) lim(2)] by blast
  let ?n = "unat v1 * 10 ^ 17" and ?d = "unat v2" and ?x = "o1 - o2 - 17"
  have r: "10 ^ 15 \<le> unat v1" "unat v1 < 10 ^ 16" "10 ^ 15 \<le> unat v2" "unat v2 < 10 ^ 16"
    using a(3,4) b(3,4) by (simp_all add: word_le_nat_alt)
  have "10 ^ 16 * ?d \<le> ?n" using r(1,4) by simp
  then have lo: "10 ^ 16 \<le> ?n div ?d" using r(3) by (simp add: less_eq_div_iff_mult_less_eq)
  have "?n < 10 ^ 18 * ?d" using r(2,3) by simp
  then have hi: "?n div ?d < 10 ^ 18" by (simp add: less_mult_imp_div_less)
  have u17: "unat tenTo17 = 10 ^ 17" by simp
  have "v2 \<noteq> 0" "?n div ?d < 2 ^ 64" using r(3) hi by auto
  then obtain q where q: "bn_muldiv bn v1 tenTo17 None v2 = Inr q" "unat q = ?n div ?d"
    using bn_muldiv_ok [OF bn, of v2 v1 tenTo17 None] unfolding u17 by auto
  let ?T = "\<bar>am_real a\<bar> / \<bar>am_real b\<bar>"
  have T: "?T = real ?n / real ?d * 10 powi ?x"
    unfolding a(2) [symmetric] b(2) [symmetric] by (simp add: power_int_diff power_int_add field_simps del: of_nat_unat)
  have "0 < ?d" using r(3) by simp
  from div_magnitude [OF this, of ?n ?x] have "magnitude (unat q) ?x \<le> ?T" "?T < magnitude (unat q + 1) ?x" unfolding T q(2) .
  with lo hi q(2) have "case STAmount_of issue (q + of_nat 5) ?x (am_negative a \<noteq> am_negative b) of
      Inr c \<Rightarrow> am_canonical c \<and> am_issue c = issue \<and>
        (if am_value c = 0 then ?T < 10 powi (- 81) else \<bar>am_real c - am_real a / am_real b\<bar> < 10 powi am_offset c)
    | Inl e \<Rightarrow> e = LThrow ''value overflow'' \<and> 10 powi 95 \<le> ?T"
    unfolding am_real_div by (intro round_last_place iss) simp_all
  moreover have "am_divide bn a b issue = STAmount_of issue (q + of_nat 5) ?x (am_negative a \<noteq> am_negative b)"
    using nz a(1) b(1) q(1) by (simp add: am_divide_def am_is_zero_def am_signum_def)
  ultimately show ?thesis by (simp only: abs_divide)
qed

lemma am_multiply_rounds:
  assumes bn: "bn_ok bn num" and can: "am_canonical a" "am_canonical b" and nz: "am_value a \<noteq> 0" "am_value b \<noteq> 0"
    and lim: "am_value a \<le> cMaxValue" "am_value b \<le> cMaxValue" and iss: "iss_currency issue \<noteq> 0"
  shows "case am_multiply bn a b issue of
      Inr c \<Rightarrow> am_canonical c \<and> am_issue c = issue \<and>
        (if am_value c = 0 then \<bar>am_real a * am_real b\<bar> < 10 powi (- 81) else \<bar>am_real c - am_real a * am_real b\<bar> < 10 powi am_offset c)
    | Inl e \<Rightarrow> e = LThrow ''value overflow'' \<and> 10 powi 95 \<le> \<bar>am_real a * am_real b\<bar>"
proof -
  obtain v1 o1 where a: "scaled a = Inr (v1, o1)" "magnitude (unat v1) o1 = \<bar>am_real a\<bar>" "cMinValue \<le> v1" "v1 \<le> cMaxValue"
    using scaled_ok [OF can(1) nz(1) lim(1)] by blast
  obtain v2 o2 where b: "scaled b = Inr (v2, o2)" "magnitude (unat v2) o2 = \<bar>am_real b\<bar>" "cMinValue \<le> v2" "v2 \<le> cMaxValue"
    using scaled_ok [OF can(2) nz(2) lim(2)] by blast
  let ?n = "unat v1 * unat v2" and ?d = "10 ^ 14 :: nat" and ?x = "o1 + o2 + 14"
  have r: "10 ^ 15 \<le> unat v1" "unat v1 < 10 ^ 16" "10 ^ 15 \<le> unat v2" "unat v2 < 10 ^ 16"
    using a(3,4) b(3,4) by (simp_all add: word_le_nat_alt)
  have "10 ^ 15 * 10 ^ 15 \<le> ?n" using r(1,3) by (rule mult_le_mono)
  then have lo: "10 ^ 16 \<le> ?n div ?d" by (simp add: less_eq_div_iff_mult_less_eq)
  have "?n < 10 ^ 16 * 10 ^ 16" using r(2,4) by (intro mult_strict_mono) simp_all
  then have hi: "?n div ?d < 10 ^ 18" by (simp add: less_mult_imp_div_less)
  have u14: "unat tenTo14 = ?d" by simp
  have "?n div ?d < 2 ^ 64" using hi by simp
  then obtain q where q: "bn_muldiv bn v1 v2 None tenTo14 = Inr q" "unat q = ?n div ?d"
    using bn_muldiv_ok [OF bn, of tenTo14 v1 v2 None] unfolding u14 by auto
  let ?T = "\<bar>am_real a\<bar> * \<bar>am_real b\<bar>"
  have T: "?T = real ?n / real ?d * 10 powi ?x"
    unfolding a(2) [symmetric] b(2) [symmetric] by (simp add: power_int_add field_simps del: of_nat_unat)
  have "0 < ?d" by simp
  from div_magnitude [OF this, of ?n ?x] have "magnitude (unat q) ?x \<le> ?T" "?T < magnitude (unat q + 1) ?x" unfolding T q(2) .
  with lo hi q(2) have "case STAmount_of issue (q + of_nat 7) ?x (am_negative a \<noteq> am_negative b) of
      Inr c \<Rightarrow> am_canonical c \<and> am_issue c = issue \<and>
        (if am_value c = 0 then ?T < 10 powi (- 81) else \<bar>am_real c - am_real a * am_real b\<bar> < 10 powi am_offset c)
    | Inl e \<Rightarrow> e = LThrow ''value overflow'' \<and> 10 powi 95 \<le> ?T"
    unfolding am_real_mult by (intro round_last_place iss) simp_all
  moreover have "am_multiply bn a b issue = STAmount_of issue (q + of_nat 7) ?x (am_negative a \<noteq> am_negative b)"
    using nz a(1) b(1) q(1) iss by (simp add: am_multiply_def am_is_zero_def am_signum_def isXRP_currency_def)
  ultimately show ?thesis by (simp only: abs_mult)
qed

section \<open>Rates\<close>

definition rate_word :: "STAmount \<Rightarrow> 64 word" where
  "rate_word r = push_bit 56 (word_of_int (am_offset r + 100)) OR am_value r"

lemma rate_bits:
  fixes v M :: "64 word"
  assumes "unat v < 2 ^ 56" "0 \<le> n" "n < 256" and M: "\<And>i. bit M i \<longleftrightarrow> 56 \<le> i \<and> i < 64"
  shows "uint (drop_bit 56 (push_bit 56 (word_of_int n) OR v)) = n \<and> (push_bit 56 (word_of_int n) OR v) AND NOT M = v \<and>
    uint (push_bit 56 (word_of_int n) OR v) = n * 2 ^ 56 + uint v"
proof -
  let ?w = "push_bit 56 (word_of_int n) OR v"
  note low = bit_below [OF assms(1)]
  have bits: "bit (word_of_int n :: 64 word) i \<longleftrightarrow> i < 8 \<and> bit n i" for i
  proof -
    have "take_bit 8 n = n" using assms(2,3) by (simp add: take_bit_int_eq_self)
    then have "bit n i \<Longrightarrow> i < 8" by (metis bit_take_bit_iff)
    then show ?thesis by (auto simp: bit_simps)
  qed
  have "drop_bit 56 ?w = word_of_int n"
    by (rule bit_word_eqI) (auto simp: bit_or_iff bit_push_bit_iff bit_drop_bit_eq bits dest: low)
  then have "uint (drop_bit 56 ?w) = n" using assms(2,3) by (simp add: uint_word_of_int)
  moreover have "?w AND NOT M = v"
    by (rule bit_word_eqI) (auto simp: bit_or_iff bit_and_iff bit_not_iff bit_push_bit_iff bits M dest: low)
  moreover have "take_bit 56 ?w = v"
    by (rule bit_word_eqI) (auto simp: bit_or_iff bit_take_bit_iff bit_push_bit_iff bits dest: low)
  then have "take_bit 56 (uint ?w) = uint v" by (metis unsigned_take_bit_eq)
  moreover have "drop_bit 56 (uint w) = uint (drop_bit 56 w)" for w :: "64 word"
  proof -
    have "take_bit LENGTH(64) (uint w) = uint w" by (rule take_bit_int_eq_self [OF uint_ge_0 uint_bounded])
    then show ?thesis unfolding unsigned_drop_bit_eq by simp
  qed
  then have "drop_bit 56 (uint ?w) = n" using calculation(1) by metis
  ultimately show ?thesis by (metis bits_ident push_bit_eq_mult)
qed

lemma quality_mask: "bit (push_bit 56 255 :: 64 word) i \<longleftrightarrow> 56 \<le> i \<and> i < 64"
proof -
  have "push_bit 56 255 = (push_bit 56 (mask 8) :: 64 word)" by (simp add: mask_eq_exp_minus_1)
  then show ?thesis by (simp only: bit_push_bit_iff bit_mask_iff possible_bit_word) auto
qed

lemma rate_word_bits:
  assumes "am_canonical r" "\<not> am_native r" "am_value r \<noteq> 0"
  shows "uint (drop_bit 56 (rate_word r)) = am_offset r + 100" "rate_word r AND NOT (push_bit 56 255) = am_value r"
    "uint (rate_word r) = (am_offset r + 100) * 2 ^ 56 + uint (am_value r)" "rate_word r \<noteq> 0"
proof -
  from assms have "unat (am_value r) < 2 ^ 56" "0 \<le> am_offset r + 100" "am_offset r + 100 < 256"
    by (simp_all add: am_canonical_def word_le_nat_alt)
  from rate_bits [OF this quality_mask] show "uint (drop_bit 56 (rate_word r)) = am_offset r + 100"
    "rate_word r AND NOT (push_bit 56 255) = am_value r" "uint (rate_word r) = (am_offset r + 100) * 2 ^ 56 + uint (am_value r)"
    unfolding rate_word_def by blast+
  then show "rate_word r \<noteq> 0" using assms(3) by auto
qed

text \<open>A rate can be turned back into the quotient, and orders as the quotients do.\<close>

lemma rate_word_quality:
  assumes "am_canonical r" "am_value r \<noteq> 0" "am_issue r = noIssue" "\<not> am_negative r"
  shows "amountFromQuality (rate_word r) = Inr r"
proof -
  have n: "\<not> am_native r" using assms(1,3) by (simp add: am_canonical_def isXRP_amount_def isXRP_currency_def noIssue_def)
  have "STAmount_of noIssue (am_value r) (am_offset r) False = Inr r"
    using canonicalize_id [OF assms(1) n assms(2), of False] assms(3,4) n unfolding STAmount_of_def STAmount_unchecked_def by (cases r) simp
  with rate_word_bits [OF assms(1) n assms(2)] show ?thesis unfolding amountFromQuality_def by simp
qed

lemma rate_word_less:
  assumes "am_canonical r" "am_canonical s" "am_value r \<noteq> 0" "am_value s \<noteq> 0" "\<not> am_native r" "\<not> am_native s"
  shows "rate_word r < rate_word s \<longleftrightarrow> \<bar>am_real r\<bar> < \<bar>am_real s\<bar>"
proof -
  let ?s = "s\<lparr>am_issue := am_issue r\<rparr>"
  have "am_canonical ?s" "areComparable r ?s" "am_value ?s \<noteq> 0" using assms by (auto simp: am_canonical_def isXRP_amount_def areComparable_def split: if_splits)
  from magnitude_compare [OF assms(1) this(1,2) assms(3) this(3)]
  have real: "\<bar>am_real r\<bar> < \<bar>am_real s\<bar> \<longleftrightarrow> am_offset r < am_offset s \<or> (am_offset r = am_offset s \<and> am_value r < am_value s)"
    unfolding abs_am_real by simp
  have v: "uint (am_value x) < 2 ^ 56" "0 \<le> uint (am_value x)" if "am_canonical x" "\<not> am_native x" "am_value x \<noteq> 0" for x
  proof -
    from that have "unat (am_value x) < 2 ^ 56" by (simp add: am_canonical_def word_le_nat_alt)
    then have "int (unat (am_value x)) < int (2 ^ 56)" by (simp only: of_nat_less_iff)
    then show "uint (am_value x) < 2 ^ 56" by simp
  qed simp
  have "x * 2 ^ 56 + a < y * 2 ^ 56 + b \<longleftrightarrow> x < y \<or> (x = y \<and> a < b)"
    if "0 \<le> a" "a < 2 ^ 56" "0 \<le> b" "b < 2 ^ 56" for x y a b :: int
    using that by (cases x y rule: linorder_cases) (auto simp: algebra_simps)
  from this [OF v(2,1) [OF assms(1,5,3)] v(2,1) [OF assms(2,6,4)]] show ?thesis
    unfolding real word_less_def rate_word_bits(3) [OF assms(1,5,3)] rate_word_bits(3) [OF assms(2,6,4)] by simp
qed

lemma getRate_cases:
  assumes "getRate bn out inp = Inr w" "w \<noteq> 0"
  shows "\<exists>r. am_divide bn inp out noIssue = Inr r \<and> am_value r \<noteq> 0 \<and> w = rate_word r"
  using assms by (auto simp: getRate_def rate_word_def am_is_zero_def am_signum_def result_simps split: if_splits sum.splits led_error.splits)

end
