(* ===== verification/Protocol_Properties.thy ===== *)
theory Protocol_Properties
  imports STObject_Codec STObject_Access STAmount_Arith
begin

text \<open>
  The properties of amounts and of serialized objects.
\<close>

section \<open>Amounts\<close>

lemma below_bit:
  fixes w :: "64 word"
  assumes "\<And>i. bit w i \<Longrightarrow> i < 62"
  shows "w < cPosNative"
proof -
  have "take_bit 62 w = w" by (rule bit_word_eqI) (use assms in \<open>auto simp: bit_take_bit_iff\<close>)
  then have "unat w = take_bit 62 (unat w)" by (metis unsigned_take_bit_eq)
  then have "unat w < 2 ^ 62" by (metis take_bit_nat_less_exp)
  then show ?thesis by (simp add: word_less_nat_alt)
qed

lemma and_zero_bit: "w AND m = 0 \<Longrightarrow> bit m i \<Longrightarrow> \<not> bit w i" for w m :: "64 word"
  by (metis bit_0_eq bit_and_iff bot_apply bot_bool_def)

lemma native_read_range:
  assumes "val AND cNotNative = 0"
  shows "val AND NOT cPosNative < cPosNative" "val AND cPosNative = 0 \<Longrightarrow> val < cPosNative"
proof -
  have len: "i < 64" if "bit val i" for i using that bit_imp_le_length by fastforce
  have n63: "\<not> bit val 63" using and_zero_bit [OF assms] head_flags(2) by blast
  show "val AND NOT cPosNative < cPosNative"
  proof (rule below_bit)
    fix i assume "bit (val AND NOT cPosNative) i"
    then have b: "bit val i" "i \<noteq> 62" by (auto simp only: bit_and_iff bit_not_iff head_flags(1))
    with len n63 have "i < 64" "i \<noteq> 63" by metis+
    with b(2) show "i < 62" by simp
  qed
  assume "val AND cPosNative = 0"
  then have n62: "\<not> bit val 62" using and_zero_bit head_flags(1) by blast
  show "val < cPosNative"
  proof (rule below_bit)
    fix i assume "bit val i"
    with len n63 n62 have "i < 64" "i \<noteq> 63" "i \<noteq> 62" by metis+
    then show "i < 62" by simp
  qed
qed

lemma STAmount_read_wire:
  assumes "STAmount_read it = Inr (a, it')"
  shows "am_wire a"
proof -
  obtain val it1 where val: "si_get64 it = Inr (val, it1)" using assms by (auto simp: STAmount_read_def result_simps)
  show ?thesis
  proof (cases "val AND cNotNative = 0")
    case True
    note r = native_read_range [OF True]
    have "am_wire (STAmount_unchecked xrpIssue v 0 True neg)" if "v < cPosNative" "v = 0 \<longrightarrow> \<not> neg" for v neg
      using that by (auto simp: am_wire_def am_canonical_def STAmount_unchecked_def isXRP_amount_def isXRP_currency_def xrpIssue_def)
    moreover have "a = STAmount_unchecked xrpIssue (val AND NOT cPosNative) 0 True False \<or>
        (val AND cPosNative = 0 \<and> val \<noteq> 0 \<and> a = STAmount_unchecked xrpIssue val 0 True True)"
      using assms True val by (auto simp: STAmount_read_def split: if_splits)
    ultimately show ?thesis using r by auto
  next
    case False
    obtain currency account v off neg where i: "currency \<noteq> 0" "account \<noteq> 0"
      and a: "STAmount_of \<lparr>iss_currency = currency, iss_account = account\<rparr> v off neg = Inr a"
      using assms False val
      by (auto simp: STAmount_read_def result_simps isXRP_currency_def isXRP_account_def Let_def split: if_splits)
    have n: "\<not> isXRP_amount (STAmount_unchecked \<lparr>iss_currency = currency, iss_account = account\<rparr> v off False neg)"
      using i by (simp add: STAmount_unchecked_def isXRP_amount_def isXRP_currency_def)
    have "am_canonical a" "am_issue a = \<lparr>iss_currency = currency, iss_account = account\<rparr>"
      using canonicalize_issued_Inr [OF n] a by (simp_all add: STAmount_of_def STAmount_unchecked_def)
    with i show ?thesis by (auto simp: am_wire_def am_canonical_def isXRP_amount_def isXRP_currency_def)
  qed
qed

text \<open>
  C23: The binary form of amounts. What a well-formed amount writes is read back as the same amount, with
  anything behind it left unread, and whatever bytes the reader accepts, the amount it returns is a well-formed one.
\<close>

theorem amount_binary_form:
  "(am_wire a \<longrightarrow> (\<exists>bytes. STAmount_add a [] = Inr bytes \<and> (\<forall>bs. STAmount_read (SerialIter_of (bytes @ bs)) = Inr (a, si_advance (length bytes) (SerialIter_of (bytes @ bs)))))) \<and>
   (STAmount_read it = Inr (b, it') \<longrightarrow> am_wire b)"
  using STAmount_add_bytes [of a "[]"] STAmount_read_bytes [of a "SerialIter_of (am_bytes a @ bs)" bs for bs] STAmount_read_wire
  by auto

text \<open>The amounts of the examples: 1.5 and 2 of an issued currency.\<close>

definition one_half :: STAmount where
  "one_half = \<lparr>am_issue = \<lparr>iss_currency = 5, iss_account = 7\<rparr>, am_value = 1500000000000000, am_offset = - 15, am_native = False, am_negative = False\<rparr>"

definition two :: STAmount where
  "two = \<lparr>am_issue = \<lparr>iss_currency = 5, iss_account = 7\<rparr>, am_value = 2000000000000000, am_offset = - 15, am_native = False, am_negative = False\<rparr>"

lemma examples_ok: "am_wire one_half" "am_canonical one_half" "am_canonical two" "areComparable one_half two" "\<not> am_native one_half"
  "\<not> am_negative one_half" "\<not> am_negative two"
  "am_value one_half \<noteq> 0" "am_value two \<noteq> 0" "am_value one_half \<le> cMaxValue" "am_value two \<le> cMaxValue"
  by (simp_all add: one_half_def two_def am_wire_def am_canonical_def areComparable_def isXRP_amount_def isXRP_currency_def)

theorem amount_binary_form_witness: "\<exists>bytes. STAmount_add one_half [] = Inr bytes \<and> STAmount_read (SerialIter_of bytes) = Inr (one_half, si_advance (length bytes) (SerialIter_of bytes))"
  using amount_binary_form [of one_half "SerialIter_of []" two "SerialIter_of []"] examples_ok(1) by (metis append_Nil2)

text \<open>
  C24: The order of amounts. On comparable amounts in normal form, the comparison by sign, exponent and
  mantissa is the comparison of the numbers they denote, and so is equality.
\<close>

theorem amount_order:
  assumes "am_canonical a" "am_canonical b" "areComparable a b"
  shows "am_less a b = Inr (am_real a < am_real b) \<and> (am_eq a b \<longleftrightarrow> am_real a = am_real b)"
  using am_less_real [OF assms] am_eq_real [OF assms] by blast

theorem amount_order_witness: "am_less one_half two = Inr (am_real one_half < am_real two) \<and> (am_eq one_half two \<longleftrightarrow> am_real one_half = am_real two)"
  by (rule amount_order [OF examples_ok(2-4)])

text \<open>
  C26: The sum of two issued amounts is in normal form and misses the exact sum by less than eleven units of
  the larger exponent plus \<open>10^-81\<close>: sums of at most ten units count as zero, and so does a sum below the
  smallest amount in normal form, \<open>10^-81\<close>. No signed 64 bit operation overflows, and the only failure is
  the overflow exception, raised only when the exact sum is at least \<open>10^95\<close>.
\<close>

theorem amount_addition:
  assumes "am_canonical a" "am_canonical b" "\<not> am_native a" "areComparable a b"
  shows "case am_plus a b of
      Inr c \<Rightarrow> am_canonical c \<and> am_issue c = am_issue a \<and>
        \<bar>am_real c - (am_real a + am_real b)\<bar> < 11 * 10 powi max (am_offset a) (am_offset b) + 10 powi (- 81)
    | Inl e \<Rightarrow> e = LThrow ''value overflow'' \<and> 10 powi 95 \<le> \<bar>am_real a + am_real b\<bar>"
  by (rule am_plus_issued [OF assms])

theorem amount_addition_witness:
  "case am_plus one_half two of
      Inr c \<Rightarrow> am_canonical c \<and> am_issue c = am_issue one_half \<and>
        \<bar>am_real c - (am_real one_half + am_real two)\<bar> < 11 * 10 powi max (am_offset one_half) (am_offset two) + 10 powi (- 81)
    | Inl e \<Rightarrow> e = LThrow ''value overflow'' \<and> 10 powi 95 \<le> \<bar>am_real one_half + am_real two\<bar>"
  by (rule amount_addition [OF examples_ok(2,3,5,4)])

text \<open>
  C25: Products and quotients in an issued currency, of amounts that are not zero and, if they are native, have
  at most sixteen digits (the drops in existence have fourteen). For big numbers that compute as documented, the
  result is in normal form; it is zero only if the exact value is below \<open>10^-81\<close>, the smallest amount in
  normal form, and else within one unit of its last place of the exact value. The only failure is the
  overflow exception, for values of at least \<open>10^95\<close>.
\<close>

theorem amount_product_quotient:
  assumes "bn_ok bn num" "am_canonical a" "am_canonical b" "am_value a \<noteq> 0" "am_value b \<noteq> 0"
    "am_native a \<longrightarrow> am_value a \<le> cMaxValue" "am_native b \<longrightarrow> am_value b \<le> cMaxValue" "iss_currency issue \<noteq> 0"
  shows "(case am_multiply bn a b issue of
      Inr c \<Rightarrow> am_canonical c \<and> am_issue c = issue \<and>
        (if am_value c = 0 then \<bar>am_real a * am_real b\<bar> < 10 powi (- 81) else \<bar>am_real c - am_real a * am_real b\<bar> < 10 powi am_offset c)
    | Inl e \<Rightarrow> e = LThrow ''value overflow'' \<and> 10 powi 95 \<le> \<bar>am_real a * am_real b\<bar>) \<and>
   (case am_divide bn a b issue of
      Inr c \<Rightarrow> am_canonical c \<and> am_issue c = issue \<and>
        (if am_value c = 0 then \<bar>am_real a / am_real b\<bar> < 10 powi (- 81) else \<bar>am_real c - am_real a / am_real b\<bar> < 10 powi am_offset c)
    | Inl e \<Rightarrow> e = LThrow ''value overflow'' \<and> 10 powi 95 \<le> \<bar>am_real a / am_real b\<bar>)"
proof -
  have "am_value a \<le> cMaxValue" "am_value b \<le> cMaxValue" using assms(2-7) by (auto simp: am_canonical_def)
  note ops = assms(1-5) this assms(8)
  show ?thesis using am_multiply_rounds [OF ops] am_divide_rounds [OF ops] by (rule conjI)
qed

theorem amount_product_quotient_witness:
  "case am_multiply nat_BN one_half two (am_issue two) of
      Inr c \<Rightarrow> am_canonical c \<and> am_issue c = am_issue two \<and>
        (if am_value c = 0 then \<bar>am_real one_half * am_real two\<bar> < 10 powi (- 81)
         else \<bar>am_real c - am_real one_half * am_real two\<bar> < 10 powi am_offset c)
    | Inl e \<Rightarrow> e = LThrow ''value overflow'' \<and> 10 powi 95 \<le> \<bar>am_real one_half * am_real two\<bar>"
  using amount_product_quotient [OF nat_BN_ok examples_ok(2,3,8,9) impI impI, OF examples_ok(10,11), of "am_issue two"] by (simp add: two_def)










text \<open>
  A native amount with a positive exponent is multiplied out in 64 bits before the range is checked, so a
  number far out of range can pass as a small one: 18446744073709551620 drops become 4.
\<close>

theorem native_scale_wraps:
  "STAmount_of xrpIssue 1844674407370955162 1 False = Inr (STAmount_unchecked xrpIssue 4 0 True False)"
  by (simp add: STAmount_of_def STAmount_unchecked_def canonicalize_def isXRP_amount_def isXRP_currency_def xrpIssue_def
      native_down.simps [of _ 1] native_up.simps [of _ 1] native_up.simps [of _ 0])

text \<open>
  A negative native amount below one drop keeps its sign when the fraction is cut off: the amount is a
  negative zero, and what it writes is refused by the reader.
\<close>

theorem negative_native_zero:
  "STAmount_of xrpIssue 5 (- 1) True = Inr (STAmount_unchecked xrpIssue 0 0 True True) \<and>
   STAmount_add (STAmount_unchecked xrpIssue 0 0 True True) [] = Inr (replicate 8 0) \<and>
   STAmount_read (SerialIter_of (replicate 8 0)) = Inl (LThrow ''negative zero is not canonical'')"
proof (intro conjI)
  show "STAmount_of xrpIssue 5 (- 1) True = Inr (STAmount_unchecked xrpIssue 0 0 True True)"
    by (simp add: STAmount_of_def STAmount_unchecked_def canonicalize_def isXRP_amount_def isXRP_currency_def xrpIssue_def
      native_down.simps [of _ "- 1"] native_down.simps [of _ 0] native_up.simps [of _ 0])
  show "STAmount_add (STAmount_unchecked xrpIssue 0 0 True True) [] = Inr (replicate 8 0)" by code_simp
  show "STAmount_read (SerialIter_of (replicate 8 0)) = Inl (LThrow ''negative zero is not canonical'')" by code_simp
qed

section \<open>Objects\<close>

lemma sorted_same:
  fixes g :: "'a \<Rightarrow> int"
  shows "sorted_wrt (<) (map g xs) \<Longrightarrow> sorted_wrt (<) (map g ys) \<Longrightarrow> set xs = set ys \<Longrightarrow> xs = ys"
proof -
  assume s: "sorted_wrt (<) (map g xs)" "sorted_wrt (<) (map g ys)" and eq: "set xs = set ys"
  have "map g xs = map g ys" using s eq strict_sorted_equal [of "map g xs" "map g ys"] by simp
  moreover have "inj_on g (set xs \<union> set ys)"
    using s(1) strict_sorted_iff [of "map g xs"] eq by (simp add: distinct_map)
  ultimately show ?thesis by (rule map_inj_on)
qed

text \<open>
  A path element whose type announces an account can carry the account zero. The reader accepts it, and the
  constructor drops the type bit: the element has type zero, is written as the byte that ends the path set, and
  what is written is refused by the reader.
\<close>

theorem zero_account_in_path:
  "case STPathSet_read (SerialIter_of (1 # replicate 20 0 @ [0])) of
     Inr (v, it) \<Rightarrow> si_empty it \<and> v = STPathSet [[\<lparr>pe_type = 0, pe_account = 0, pe_currency = 0, pe_issuer = 0\<rparr>]] \<and>
       st_add sfPaths v [] = Inr [0, 0] \<and> STPathSet_read (SerialIter_of [0, 0]) = Inl (LThrow ''empty path'')
   | Inl _ \<Rightarrow> False"
  by code_simp

text \<open>
  C7: The canonical binary form. A free object with well-formed fields in the order of their codes is written
  without failure, and the parser reads exactly the same object back from the bytes, inner objects with their templates included.
\<close>

theorem object_roundtrip:
  assumes "object_ok ob"
  shows "\<exists>bytes it. getSerializer ob = Inr bytes \<and> STObject_read (SerialIter_of bytes) = Inr (ob, it) \<and> si_empty it"
  using object_ok_reads [OF assms] by (auto simp: si_empty_def SerialIter_of_def si_advance_def)

text \<open>An account with its balance and a list of signers.\<close>

definition example_object :: STObject where
  "example_object = STObject None
     [(sfLedgerEntryType, STUInt16 0x53), (sfFlags, STUInt32 5), (sfBalance, STAmt one_half), (sfAccount, STAccount [1, 2, 3]),
      (sfSignerEntries, STArray
         [(sfSignerEntry, STObject (findSOTemplateBySField sfSignerEntry) [(sfAccount, STAccount [4, 5]), (sfSignerWeight, STUInt16 1)])])]"

lemma example_object_ok: "object_ok example_object"
proof -
  have w: "wire_field f" if "f \<in> {sfLedgerEntryType, sfFlags, sfBalance, sfAccount, sfSignerEntries, sfSignerEntry, sfSignerWeight}" for f
    by (rule known_wire) (use that in \<open>auto simp: knownFields_def on_wire_def known_field_defs SField_named_def\<close>)
  show ?thesis
    by (simp add: example_object_def object_ok_def fits_shape_def fits_template_def findSOTemplateBySField_def innerObjectFormats_def w examples_ok)
       (simp add: known_field_defs SField_named_def field_code_def)
qed

theorem object_roundtrip_witness:
  "\<exists>bytes it. getSerializer example_object = Inr bytes \<and> STObject_read (SerialIter_of bytes) = Inr (example_object, it) \<and> si_empty it"
  by (rule object_roundtrip [OF example_object_ok])

text \<open>
  C33: The bytes of an object do not depend on the order of its fields or on absent ones: two objects with the same
  present fields are written alike, and read back as the free object with these fields in the order of their codes.
\<close>

theorem object_bytes_canonical:
  assumes "fields_ok (obj_v ob)" "fields_ok (obj_v ob')" "distinct (map (fieldCode \<circ> fst) (obj_v ob))" "distinct (map (fieldCode \<circ> fst) (obj_v ob'))"
    and same: "{e \<in> set (obj_v ob). present e} = {e \<in> set (obj_v ob'). present e}"
  shows "\<exists>bytes it v. getSerializer ob = Inr bytes \<and> getSerializer ob' = Inr bytes \<and>
    STObject_read (SerialIter_of bytes) = Inr (STObject None v, it) \<and> si_empty it \<and>
    sorted_wrt (<) (map (fieldCode \<circ> fst) v) \<and> set v = {e \<in> set (obj_v ob). present e}"
proof -
  note c = canon_ok [OF assms(3)] and c' = canon_ok [OF assms(4)]
  have "canon (obj_v ob) = canon (obj_v ob')"
  proof (rule sorted_same)
    show "sorted_wrt (<) (map (fieldCode \<circ> fst) (canon (obj_v ob)))" "sorted_wrt (<) (map (fieldCode \<circ> fst) (canon (obj_v ob')))"
      using c c' by blast+
    show "set (canon (obj_v ob)) = set (canon (obj_v ob'))" using c c' same by auto
  qed
  then have "object_bytes ob' = object_bytes ob" by (simp add: object_bytes_def)
  with getSerializer_bytes assms(1,2) STObject_read_bytes [OF assms(1,3) SerialIter_of_ok] c show ?thesis
    by (auto simp: si_empty_def SerialIter_of_def si_advance_def)
qed

theorem object_bytes_canonical_witness:
  "\<exists>bytes it v. getSerializer example_object = Inr bytes \<and> getSerializer (STObject None (rev (obj_v example_object))) = Inr bytes \<and>
    STObject_read (SerialIter_of bytes) = Inr (STObject None v, it) \<and> si_empty it \<and>
    sorted_wrt (<) (map (fieldCode \<circ> fst) v) \<and> set v = {e \<in> set (obj_v example_object). present e}"
proof (rule object_bytes_canonical)
  show ok: "fields_ok (obj_v example_object)" "distinct (map (fieldCode \<circ> fst) (obj_v example_object))"
    using example_object_ok by (simp_all add: object_ok_def fits_shape_def)
  show "fields_ok (obj_v (STObject None (rev (obj_v example_object))))" using ok(1) by (simp add: example_object_def)
  show "distinct (map (fieldCode \<circ> fst) (obj_v (STObject None (rev (obj_v example_object)))))" using ok(2) by (simp flip: rev_map)
qed simp


text \<open>
  \<open>delField\<close> erases a field of an object with a template as if it were free: the fields after it are then
  looked for one place too far, so that a getter reads the wrong field or past the end.
\<close>

lemma delField_shifts:
  "\<exists>ob ob'. STObject_set_template [(sfAccount, SOE_REQUIRED), (sfSignerWeight, SOE_REQUIRED)] = Inr ob \<and> delField sfAccount ob = (True, ob') \<and>
     getAccountID sfAccount ob' = Inl (LThrow ''Wrong field type'') \<and> getFieldU16 sfSignerWeight ob' = Inl LRange"
proof -
  have "case STObject_set_template [(sfAccount, SOE_REQUIRED), (sfSignerWeight, SOE_REQUIRED)] of Inl _ \<Rightarrow> False
    | Inr ob \<Rightarrow> (case delField sfAccount ob of (b, ob') \<Rightarrow> b \<and> getAccountID sfAccount ob' = Inl (LThrow ''Wrong field type'') \<and>
        getFieldU16 sfSignerWeight ob' = Inl LRange)" by code_simp
  then show ?thesis by (auto split: sum.splits prod.splits)
qed

text \<open>
  C8: Objects are typed. Whatever sequence of calls makes an object, of the parser, the templates, the setters, the
  flags and the functions that make a field present or absent, and of \<open>delField\<close> on free objects, every value in
  it, inner objects included, has the type of its field, the fields of an object with a template stand where the
  template has them, and the getter of the type of a registered field never fails on an object that has the field.
\<close>

theorem object_types:
  assumes "made ob"
  shows "obj_typed ob \<and> (\<forall>f. registered f \<and> getFieldIndex f ob \<noteq> None \<longrightarrow>
    (fieldType f = STI_UINT8 \<longrightarrow> (\<exists>x. getFieldU8 f ob = Inr x)) \<and> (fieldType f = STI_UINT16 \<longrightarrow> (\<exists>x. getFieldU16 f ob = Inr x)) \<and>
    (fieldType f = STI_UINT32 \<longrightarrow> (\<exists>x. getFieldU32 f ob = Inr x)) \<and> (fieldType f = STI_UINT64 \<longrightarrow> (\<exists>x. getFieldU64 f ob = Inr x)) \<and>
    (fieldType f = STI_HASH128 \<longrightarrow> (\<exists>x. getFieldH128 f ob = Inr x)) \<and> (fieldType f = STI_HASH160 \<longrightarrow> (\<exists>x. getFieldH160 f ob = Inr x)) \<and>
    (fieldType f = STI_HASH256 \<longrightarrow> (\<exists>x. getFieldH256 f ob = Inr x)) \<and> (fieldType f = STI_AMOUNT \<longrightarrow> (\<exists>x. getFieldAmount f ob = Inr x)) \<and>
    (fieldType f = STI_ACCOUNT \<longrightarrow> (\<exists>x. getAccountID f ob = Inr x) \<and> (\<exists>b. getFieldVL f ob = Inr b)) \<and>
    (fieldType f = STI_VL \<longrightarrow> (\<exists>x. getFieldVL f ob = Inr x)) \<and> (fieldType f = STI_VECTOR256 \<longrightarrow> (\<exists>x. getFieldV256 f ob = Inr x)) \<and>
    (fieldType f = STI_PATHSET \<longrightarrow> (\<exists>x. getFieldPathSet f ob = Inr x)) \<and>
    (fieldType f = STI_ARRAY \<longrightarrow> (\<exists>x. getFieldArray f ob = Inr x)) \<and> (fieldType f = STI_OBJECT \<longrightarrow> (\<exists>x. getFieldObject f ob = Inr x)))"
proof -
  have t: "obj_typed ob" using made_typed [OF assms] .
  note get = u8.get_total [OF t] u16.get_total [OF t] u32.get_total [OF t] u64.get_total [OF t] h128.get_total [OF t] h160.get_total [OF t]
    h256.get_total [OF t] amt.get_total [OF t] account.get_total [OF t] account_vl.get_total [OF t]
    vl.get_total [OF t] v256.get_total [OF t] paths.get_total [OF t] arr.get_total [OF t] inner.get_total [OF t]
  show ?thesis using t get by presburger
qed

lemma flags_object_made: "made (STObject None [(sfFlags, STUInt32 6)])"
proof -
  have "setFieldU32 6 sfFlags (STObject None []) = Inr (STObject None [(sfFlags, STUInt32 6)])"
    by (simp add: setFieldU32_def setFieldBy_def getPField_create_def getFieldIndex_def isFree_def defaultObject_def obj_at_def obj_put_def)
  then show ?thesis using m_sets [OF m_empty flags_registered] s_setFieldU32 by blast
qed

theorem object_types_witness: "\<exists>x. getFieldU32 sfFlags (STObject None [(sfFlags, STUInt32 6)]) = Inr x"
  using object_types [OF flags_object_made] flags_registered by (auto simp: getFieldIndex_def)



end
